(* ===== verification/Prelude.thy ===== *)
theory Prelude
  imports Main "HOL-Library.AList" "HOL-Library.Multiset"
begin

text \<open>
  Shared ground of the development: Python values (JSON, strings, truthiness), instants and
  durations, the rows-and-tables reading of the Django ORM that every component's state is
  built on, and two interfaces stated as locales: a store of rows addressed by primary key
  (\<open>row_store\<close>) and a machine whose every operation keeps an invariant (\<open>machine\<close>).
\<close>

named_theorems store_simps \<open>what a table operation returns on the operation before it\<close>
named_theorems frame_simps \<open>what an operation leaves alone\<close>

section \<open>Instants and durations\<close>

text \<open>
  A \<open>datetime\<close> is an instant in microseconds since the epoch and a \<open>timedelta\<close> is a number of
  microseconds: both are exact integers in Python too.
\<close>

type_synonym instant = int

definition seconds :: "int \<Rightarrow> int" where
  "seconds n = n * 1000000"

definition hours :: "int \<Rightarrow> int" where
  "hours n = seconds (n * 3600)"

definition days :: "int \<Rightarrow> int" where
  "days n = hours (n * 24)"

definition ceil_seconds :: "int \<Rightarrow> int" where
  \<comment> \<open>\<open>math.ceil(delta.total_seconds())\<close>\<close>
  "ceil_seconds d = - ((- d) div 1000000)"

lemma seconds_mono [simp]: "seconds a \<le> seconds b \<longleftrightarrow> a \<le> b"
  by (simp add: seconds_def)

lemma seconds_less [simp]: "seconds a < seconds b \<longleftrightarrow> a < b"
  by (simp add: seconds_def)

lemma seconds_pos [simp]: "0 < seconds a \<longleftrightarrow> 0 < a"
  by (simp add: seconds_def)

lemma seconds_nonneg [simp]: "0 \<le> seconds a \<longleftrightarrow> 0 \<le> a"
  by (simp add: seconds_def)

lemma ceil_seconds_le: "d \<le> seconds (ceil_seconds d)"
proof -
  have "(- d) div 1000000 * 1000000 \<le> - d"
    using div_mult_mod_eq [of "- d" 1000000] pos_mod_sign [of 1000000 "- d"] by linarith
  then show ?thesis by (simp add: ceil_seconds_def seconds_def)
qed

text \<open>
  The proleptic Gregorian calendar of \<open>datetime.date\<close>: a date is the number of days since
  1970-01-01, and \<open>civil\<close> reads its year, month and day.
\<close>

definition civil :: "int \<Rightarrow> int \<times> int \<times> int" where
  "civil n =
    (let z = n + 719468;
         era = z div 146097;
         doe = z - era * 146097;
         yoe = (doe - doe div 1460 + doe div 36524 - doe div 146096) div 365;
         doy = doe - (365 * yoe + yoe div 4 - yoe div 100);
         mp = (5 * doy + 2) div 153;
         d = doy - (153 * mp + 2) div 5 + 1;
         m = (if mp < 10 then mp + 3 else mp - 9);
         y = yoe + era * 400 + (if m \<le> 2 then 1 else 0)
     in (y, m, d))"

definition days_of_civil :: "int \<Rightarrow> int \<Rightarrow> int \<Rightarrow> int" where
  "days_of_civil y m d =
    (let y' = (if m \<le> 2 then y - 1 else y);
         era = y' div 400;
         yoe = y' - era * 400;
         mp = (if m > 2 then m - 3 else m + 9);
         doy = (153 * mp + 2) div 5 + d - 1;
         doe = yoe * 365 + yoe div 4 - yoe div 100 + doy
     in era * 146097 + doe - 719468)"

definition weekday :: "int \<Rightarrow> nat" where
  \<comment> \<open>\<open>date.weekday()\<close>: Monday is 0; 1970-01-01 was a Thursday\<close>
  "weekday n = nat ((n + 3) mod 7)"

definition date_of :: "instant \<Rightarrow> int" where
  "date_of t = t div days 1"

definition digit :: "int \<Rightarrow> char" where
  "digit n = char_of (nat (48 + n mod 10))"

definition two_digits :: "int \<Rightarrow> string" where
  "two_digits n = [digit (n div 10), digit n]"

definition MONTH_NAMES :: "string list" where
  "MONTH_NAMES = [''Jan'', ''Feb'', ''Mar'', ''Apr'', ''May'', ''Jun'', ''Jul'', ''Aug'', ''Sep'',
     ''Oct'', ''Nov'', ''Dec'']"

definition clock_text :: "instant \<Rightarrow> string" where
  \<comment> \<open>\<open>%H:%M\<close> in UTC\<close>
  "clock_text t =
    (let m = (t div seconds 60) mod 1440 in two_digits (m div 60) @ '':'' @ two_digits (m mod 60))"

definition date_text :: "instant \<Rightarrow> string" where
  \<comment> \<open>\<open>%d %b\<close> in UTC\<close>
  "date_text t =
    (case civil (date_of t) of (y, m, d) \<Rightarrow> two_digits d @ '' '' @ MONTH_NAMES ! nat (m - 1))"

lemma weekday_less: "weekday n < 7"
  by (simp add: weekday_def nat_less_iff)

section \<open>Python values\<close>

datatype json =
    JNull
  | JBool bool
  | JNum int
  | JStr string
  | JList "json list"
  | JObj "(string \<times> json) list"

type_synonym pydict = "(string \<times> json) list"

fun json_truthy :: "json \<Rightarrow> bool" where
  "json_truthy JNull = False"
| "json_truthy (JBool b) = b"
| "json_truthy (JNum n) = (n \<noteq> 0)"
| "json_truthy (JStr s) = (s \<noteq> [])"
| "json_truthy (JList xs) = (xs \<noteq> [])"
| "json_truthy (JObj d) = (d \<noteq> [])"

definition dict_get :: "string \<Rightarrow> pydict \<Rightarrow> json" where
  \<comment> \<open>\<open>d.get(k)\<close>, with \<open>None\<close> for an absent key\<close>
  "dict_get k d = (case map_of d k of None \<Rightarrow> JNull | Some v \<Rightarrow> v)"

definition dict_has :: "string \<Rightarrow> pydict \<Rightarrow> bool" where
  "dict_has k d = (map_of d k \<noteq> None)"

definition dict_set :: "string \<Rightarrow> json \<Rightarrow> pydict \<Rightarrow> pydict" where
  "dict_set k v d = AList.update k v d"

definition dict_merge :: "pydict \<Rightarrow> pydict \<Rightarrow> pydict" where
  \<comment> \<open>\<open>d.update(e)\<close> and \<open>{**d, **e}\<close>: the keys of \<open>e\<close> win\<close>
  "dict_merge d e = foldl (\<lambda>acc (k, v). dict_set k v acc) d e"

definition dict_pop :: "string \<Rightarrow> pydict \<Rightarrow> pydict" where
  "dict_pop k d = filter (\<lambda>(k', _). k' \<noteq> k) d"

lemma map_of_dict_set [simp]: "map_of (dict_set k v d) = (map_of d)(k \<mapsto> v)"
  by (simp add: dict_set_def update_conv')

lemma map_of_dict_pop: "map_of (dict_pop k d) x = (if x = k then None else map_of d x)"
  by (induction d) (auto simp: dict_pop_def)

lemma dict_get_set: "dict_get k (dict_set k' v d) = (if k = k' then v else dict_get k d)"
  by (simp add: dict_get_def)

lemma dict_get_pop: "dict_get k (dict_pop k' d) = (if k = k' then JNull else dict_get k d)"
  by (simp add: dict_get_def map_of_dict_pop)

lemma map_of_dict_merge: "map_of (dict_merge d e) = map_of d ++ map_of (rev e)"
proof (induction e arbitrary: d)
  case Nil
  then show ?case by (simp add: dict_merge_def)
next
  case (Cons kv e)
  obtain k v where kv: "kv = (k, v)" by (cases kv)
  have "map_of (dict_merge d (kv # e)) = map_of (dict_merge (dict_set k v d) e)"
    by (simp add: dict_merge_def kv)
  also have "\<dots> = (map_of d)(k \<mapsto> v) ++ map_of (rev e)"
    by (simp only: Cons.IH map_of_dict_set)
  also have "\<dots> = map_of d ++ map_of (rev (kv # e))"
    by (auto simp: kv fun_eq_iff map_add_def split: option.splits)
  finally show ?case .
qed

definition is_space :: "char \<Rightarrow> bool" where
  "is_space c = (c \<in> set [CHR '' '', CHR 0x09, CHR 0x0A, CHR 0x0B, CHR 0x0C, CHR 0x0D,
     CHR 0x1C, CHR 0x1D, CHR 0x1E, CHR 0x1F])"

definition py_strip :: "string \<Rightarrow> string" where
  \<comment> \<open>\<open>s.strip()\<close> on the ASCII whitespace\<close>
  "py_strip s = rev (dropWhile is_space (rev (dropWhile is_space s)))"

definition py_or :: "string \<Rightarrow> string \<Rightarrow> string" where
  \<comment> \<open>\<open>a or b\<close> on strings\<close>
  "py_or a b = (if a = [] then b else a)"

fun py_contains :: "string \<Rightarrow> string \<Rightarrow> bool" where
  \<comment> \<open>\<open>pat in s\<close>\<close>
  "py_contains pat [] = (pat = [])"
| "py_contains pat (c # s) = (take (length pat) (c # s) = pat \<or> py_contains pat s)"

definition py_startswith :: "string \<Rightarrow> string \<Rightarrow> bool" where
  "py_startswith s pat = (take (length pat) s = pat)"

lemma py_startswith_refl [simp]: "py_startswith s s"
  by (simp add: py_startswith_def)

lemma py_startswith_append [simp]: "py_startswith (s @ t) s"
  by (simp add: py_startswith_def)

definition py_replace_char :: "char \<Rightarrow> char \<Rightarrow> string \<Rightarrow> string" where
  \<comment> \<open>\<open>s.replace(a, b)\<close> for single characters\<close>
  "py_replace_char a b s = map (\<lambda>c. if c = a then b else c) s"

definition is_upper :: "char \<Rightarrow> bool" where
  "is_upper c = (65 \<le> (of_char c :: nat) \<and> (of_char c :: nat) \<le> 90)"

definition is_lower :: "char \<Rightarrow> bool" where
  "is_lower c = (97 \<le> (of_char c :: nat) \<and> (of_char c :: nat) \<le> 122)"

fun read_digits :: "int \<Rightarrow> bool \<Rightarrow> string \<Rightarrow> int option" where
  \<comment> \<open>the digits of \<open>int(s)\<close>, single underscores allowed between two of them\<close>
  "read_digits acc after_digit [] = (if after_digit then Some acc else None)"
| "read_digits acc after_digit (c # s) =
    (let n = (of_char c :: int) - 48 in
     if 0 \<le> n \<and> n \<le> 9 then read_digits (acc * 10 + n) True s
     else if c = CHR ''_'' \<and> after_digit then read_digits acc False s
     else None)"

definition py_int :: "string \<Rightarrow> int option" where
  \<comment> \<open>\<open>int(s)\<close> on ASCII, \<open>None\<close> where it raises\<close>
  "py_int s =
    (case py_strip s of
       [] \<Rightarrow> None
     | c # t \<Rightarrow>
         if c = CHR ''-'' then map_option uminus (read_digits 0 False t)
         else if c = CHR ''+'' then read_digits 0 False t
         else read_digits 0 False (c # t))"

definition json_int :: "json \<Rightarrow> int option" where
  \<comment> \<open>\<open>int(value)\<close>, \<open>None\<close> where it raises\<close>
  "json_int v = (case v of JNum n \<Rightarrow> Some n | JBool b \<Rightarrow> Some (if b then 1 else 0)
     | JStr s \<Rightarrow> py_int s | _ \<Rightarrow> None)"

definition is_word :: "char \<Rightarrow> bool" where
  \<comment> \<open>\<open>\w\<close> on ASCII\<close>
  "is_word c = (is_upper c \<or> is_lower c \<or> c = CHR ''_'' \<or>
     (48 \<le> (of_char c :: nat) \<and> (of_char c :: nat) \<le> 57))"

definition char_lower :: "char \<Rightarrow> char" where
  "char_lower c = (if is_upper c then char_of ((of_char c :: nat) + 32) else c)"

definition char_upper :: "char \<Rightarrow> char" where
  "char_upper c = (if is_lower c then char_of ((of_char c :: nat) - 32) else c)"

definition py_lower :: "string \<Rightarrow> string" where
  \<comment> \<open>\<open>s.lower()\<close> on ASCII\<close>
  "py_lower s = map char_lower s"

fun title_from :: "bool \<Rightarrow> string \<Rightarrow> string" where
  "title_from in_word [] = []"
| "title_from in_word (c # s) =
    (if in_word then char_lower c else char_upper c) # title_from (is_upper c \<or> is_lower c) s"

definition py_title :: "string \<Rightarrow> string" where
  \<comment> \<open>\<open>s.title()\<close> on ASCII\<close>
  "py_title s = title_from False s"

fun min_by :: "('a \<Rightarrow> nat) \<Rightarrow> 'a \<Rightarrow> 'a list \<Rightarrow> 'a" where
  \<comment> \<open>\<open>min(x, *xs, key=f)\<close>: the first of the minimal ones\<close>
  "min_by f x [] = x"
| "min_by f x (y # ys) = (if f y < f x then min_by f y ys else min_by f x ys)"

lemma min_by_in: "min_by f x xs \<in> set (x # xs)"
  by (induction xs arbitrary: x) auto

lemma min_by_le: "y \<in> set (x # xs) \<Longrightarrow> f (min_by f x xs) \<le> f y"
proof (induction xs arbitrary: x y)
  case Nil
  then show ?case by simp
next
  case (Cons z zs)
  show ?case
  proof (cases "f z < f x")
    case True
    have "f (min_by f z zs) \<le> f z" by (rule Cons.IH) simp
    moreover have "y \<in> set zs \<Longrightarrow> f (min_by f z zs) \<le> f y" by (rule Cons.IH) simp
    ultimately show ?thesis using True Cons.prems by auto
  next
    case False
    have "f (min_by f x zs) \<le> f x" by (rule Cons.IH) simp
    moreover have "y \<in> set zs \<Longrightarrow> f (min_by f x zs) \<le> f y" by (rule Cons.IH) simp
    ultimately show ?thesis using False Cons.prems by auto
  qed
qed

section \<open>Tables\<close>

text \<open>
  A database table is the list of its rows, in the order the database returns them when a
  query gives none. \<open>filter(...)\<close> is \<^const>\<open>filter\<close>, \<open>get(pk=...)\<close> and \<open>.first()\<close> are \<open>tbl_get\<close> and
  \<open>tbl_first\<close>, a queryset \<open>.update(...)\<close> is \<open>tbl_update\<close>, an instance's \<open>.save()\<close> writes the
  object over its row (\<open>tbl_save\<close>), \<open>.delete()\<close> is \<open>tbl_delete\<close> and \<open>create\<close> appends.
\<close>

definition tbl_get :: "('r \<Rightarrow> nat) \<Rightarrow> nat \<Rightarrow> 'r list \<Rightarrow> 'r option" where
  "tbl_get key k t = find (\<lambda>r. key r = k) t"

definition tbl_first :: "('r \<Rightarrow> bool) \<Rightarrow> 'r list \<Rightarrow> 'r option" where
  "tbl_first P t = find P t"

definition tbl_update :: "('r \<Rightarrow> bool) \<Rightarrow> ('r \<Rightarrow> 'r) \<Rightarrow> 'r list \<Rightarrow> 'r list" where
  "tbl_update P f t = map (\<lambda>r. if P r then f r else r) t"

definition tbl_save :: "('r \<Rightarrow> nat) \<Rightarrow> 'r \<Rightarrow> 'r list \<Rightarrow> 'r list" where
  "tbl_save key r t = tbl_update (\<lambda>x. key x = key r) (\<lambda>_. r) t"

definition tbl_delete :: "('r \<Rightarrow> bool) \<Rightarrow> 'r list \<Rightarrow> 'r list" where
  "tbl_delete P t = filter (\<lambda>r. \<not> P r) t"

lemma tbl_get_Some: "tbl_get key k t = Some r \<Longrightarrow> r \<in> set t \<and> key r = k"
  by (auto simp: tbl_get_def find_Some_iff)

lemma tbl_get_None: "tbl_get key k t = None \<longleftrightarrow> k \<notin> key ` set t"
  by (auto simp: tbl_get_def find_None_iff)

lemma tbl_first_Some: "tbl_first P t = Some r \<Longrightarrow> r \<in> set t \<and> P r"
  by (auto simp: tbl_first_def find_Some_iff)

lemma tbl_first_None: "tbl_first P t = None \<longleftrightarrow> (\<forall>r \<in> set t. \<not> P r)"
  by (auto simp: tbl_first_def find_None_iff)

lemma tbl_get_distinct:
  "distinct (map key t) \<Longrightarrow> tbl_get key k t = Some r \<longleftrightarrow> r \<in> set t \<and> key r = k"
  by (induction t) (auto simp: tbl_get_def)

lemma tbl_update_Nil [simp]: "tbl_update P f [] = []"
  by (simp add: tbl_update_def)

lemma tbl_update_Cons [simp]:
  "tbl_update P f (r # t) = (if P r then f r else r) # tbl_update P f t"
  by (simp add: tbl_update_def)

lemma length_tbl_update [simp]: "length (tbl_update P f t) = length t"
  by (simp add: tbl_update_def)

lemma set_tbl_update: "set (tbl_update P f t) = (\<lambda>r. if P r then f r else r) ` set t"
  by (simp add: tbl_update_def)

lemma map_tbl_update: "(\<And>r. P r \<Longrightarrow> g (f r) = g r) \<Longrightarrow> map g (tbl_update P f t) = map g t"
  by (simp add: tbl_update_def)

lemma map_key_tbl_save [simp]: "map key (tbl_save key r t) = map key t"
  by (simp add: tbl_save_def tbl_update_def)

lemma tbl_first_replace:
  "P r \<Longrightarrow> tbl_first P (tbl_update P (\<lambda>_. r) t) = (if tbl_first P t = None then None else Some r)"
  by (induction t) (auto simp: tbl_first_def)

lemma tbl_first_append: "tbl_first P (t @ u) = (case tbl_first P t of None \<Rightarrow> tbl_first P u | Some r \<Rightarrow> Some r)"
  by (induction t) (auto simp: tbl_first_def)

lemma tbl_update_cong:
  "(\<And>r. r \<in> set t \<Longrightarrow> (if P r then f r else r) = (if Q r then g r else r)) \<Longrightarrow>
    tbl_update P f t = tbl_update Q g t"
  by (simp add: tbl_update_def)

lemma tbl_update_idle: "(\<And>r. r \<in> set t \<Longrightarrow> P r \<Longrightarrow> f r = r) \<Longrightarrow> tbl_update P f t = t"
  by (induction t) auto

lemma count_list_distinct: "distinct xs \<Longrightarrow> count_list xs i = (if i \<in> set xs then 1 else 0)"
  by (induction xs) auto

lemma distinct_key_eq: "distinct (map f xs) \<Longrightarrow> x \<in> set xs \<Longrightarrow> y \<in> set xs \<Longrightarrow> f x = f y \<Longrightarrow> x = y"
  by (auto simp: distinct_map inj_on_def)

lemma tbl_get_update:
  assumes "\<And>r. key (f r) = key r"
  shows "tbl_get key k (tbl_update P f t) =
    (case tbl_get key k t of None \<Rightarrow> None | Some r \<Rightarrow> Some (if P r then f r else r))"
  by (induction t) (auto simp: tbl_get_def assms)

lemma tbl_get_save:
  "tbl_get key k (tbl_save key r t) =
    (if k = key r \<and> tbl_get key k t \<noteq> None then Some r else tbl_get key k t)"
  by (induction t) (auto simp: tbl_get_def tbl_save_def)

lemma tbl_save_id: "key r \<notin> key ` set t \<Longrightarrow> tbl_save key r t = t"
  by (induction t) (auto simp: tbl_save_def)

lemma set_tbl_save: "x \<in> set (tbl_save key r t) \<Longrightarrow> x = r \<or> (x \<in> set t \<and> key x \<noteq> key r)"
  by (auto simp: tbl_save_def set_tbl_update split: if_splits)

lemma filter_tbl_save_other:
  "\<not> P r \<Longrightarrow> (\<forall>x \<in> set t. key x = key r \<longrightarrow> \<not> P x) \<Longrightarrow> filter P (tbl_save key r t) = filter P t"
  by (induction t) (auto simp: tbl_save_def)

section \<open>Interface: a store of rows\<close>

text \<open>
  What a handler relies on when it loads a row, changes it and saves it: saving is visible
  under the row's own key, invisible under every other key, and never makes a row appear.
\<close>

locale row_store =
  fixes key :: "'r \<Rightarrow> nat"
    and get :: "nat \<Rightarrow> 's \<Rightarrow> 'r option"
    and save :: "'r \<Rightarrow> 's \<Rightarrow> 's"
  assumes get_key: "get k s = Some r \<Longrightarrow> key r = k"
    and get_save: "get k (save r s) = (if k = key r \<and> get k s \<noteq> None then Some r else get k s)"
begin

lemma get_save_same: "get (key r) s = Some r0 \<Longrightarrow> get (key r) (save r s) = Some r"
  by (simp add: get_save)

lemma get_save_other: "k \<noteq> key r \<Longrightarrow> get k (save r s) = get k s"
  by (simp add: get_save)

lemma present_save: "get k (save r s) \<noteq> None \<longleftrightarrow> get k s \<noteq> None"
  by (cases "k = key r") (auto simp: get_save)

lemma get_save_save: "key r = key r' \<Longrightarrow> get k (save r (save r' s)) = get k (save r s)"
  by (cases "k = key r") (auto simp: get_save)

lemma save_commute: "key r \<noteq> key r' \<Longrightarrow> get k (save r (save r' s)) = get k (save r' (save r s))"
  by (cases "k = key r"; cases "k = key r'") (auto simp: get_save)

lemma get_fold_save_notin:
  "k \<notin> key ` set rs \<Longrightarrow> get k (fold save rs s) = get k s"
  by (induction rs arbitrary: s) (auto simp: get_save)

lemma get_fold_save:
  assumes "distinct (map key rs)" and "r \<in> set rs" and "get (key r) s \<noteq> None"
  shows "get (key r) (fold save rs s) = Some r"
  using assms
proof (induction rs arbitrary: s)
  case Nil
  then show ?case by simp
next
  case (Cons x xs)
  show ?case
  proof (cases "r = x")
    case True
    with Cons.prems have "key r \<notin> key ` set xs" by auto
    then show ?thesis using True Cons.prems by (simp add: get_fold_save_notin get_save)
  next
    case False
    with Cons.prems have "r \<in> set xs" by simp
    moreover have "get (key r) (save x s) \<noteq> None" using Cons.prems(3) by (simp add: get_save)
    ultimately show ?thesis using Cons.IH Cons.prems(1) by simp
  qed
qed

end

interpretation table: row_store key "tbl_get key" "tbl_save key" for key :: "'r \<Rightarrow> nat"
  by unfold_locales (auto simp: tbl_get_save dest: tbl_get_Some)

section \<open>Interface: a machine with an invariant\<close>

text \<open>
  A component that is driven by a sequence of events, each of which keeps what the component
  promises about its state.
\<close>

locale machine =
  fixes step :: "'s \<Rightarrow> 'e \<Rightarrow> 's"
    and inv :: "'s \<Rightarrow> bool"
  assumes step_inv: "inv s \<Longrightarrow> inv (step s e)"
begin

lemma run_inv: "inv s \<Longrightarrow> inv (foldl step s es)"
  by (induction es arbitrary: s) (auto simp: step_inv)

lemma run_prefix_inv: "inv s \<Longrightarrow> inv (foldl step s (take n es))"
  by (rule run_inv)

end

end
