(* ===== verification/Mail.thy ===== *)
theory Mail
  imports Prelude
begin

text \<open>
  The outbound-mail budget, \<open>apps/common/mail.py\<close>: the counters of \<open>EmailSendCounter\<close>, the
  suppression list and the decision of \<open>BudgetedEmailBackend\<close>. The setting values, SHA-256, the
  backend behind and the database errors of a budget query are parameters (\<open>mail_env\<close>). The log
  of a mailbox lists the messages handed over to the backend behind, as they came in.
\<close>

section \<open>Messages, counters and settings\<close>

definition CLASS_TRANSACTIONAL :: string where
  "CLASS_TRANSACTIONAL = ''transactional''"

definition CLASS_NOTIFICATION :: string where
  "CLASS_NOTIFICATION = ''notification''"

record message =
  mg_subject :: string
  mg_to :: "string list"
  mg_cc :: "string list"
  mg_bcc :: "string list"
  mg_class :: "string option"
    \<comment> \<open>the routing header\<close>

text \<open>A bucket is the unique key of a counter row: scope, key and start of the period.\<close>

type_synonym bucket = "string \<times> string \<times> instant"

type_synonym counters = "(bucket \<times> nat) list"

record mail_env =
  me_cfg :: pydict
  me_sha :: "string \<Rightarrow> string"
  me_inner :: "message list \<Rightarrow> nat option"
    \<comment> \<open>the number of messages accepted, \<open>None\<close> where the backend raises\<close>
  me_fails :: "bucket \<Rightarrow> bool"
    \<comment> \<open>the budget query on this row raises \<open>DatabaseError\<close>\<close>
  me_lookup_fails :: bool
    \<comment> \<open>so does the query on the suppression list\<close>

record mailbox =
  mx_counters :: counters
  mx_suppressed :: "string list"
  mx_log :: "(instant \<times> message) list"

definition hour_start :: "instant \<Rightarrow> instant" where
  "hour_start now = now - now mod hours 1"

definition day_start :: "instant \<Rightarrow> instant" where
  "day_start now = now - now mod days 1"

definition recipient_key :: "mail_env \<Rightarrow> string \<Rightarrow> string" where
  "recipient_key env a = take 32 (me_sha env (py_lower (py_strip a)))"

definition mail_limit :: "string \<Rightarrow> int \<Rightarrow> mail_env \<Rightarrow> int" where
  \<comment> \<open>\<open>_limit(name, default)\<close>\<close>
  "mail_limit name default_value env =
    (case map_of (me_cfg env) name of
       None \<Rightarrow> default_value
     | Some v \<Rightarrow> (case json_int v of Some n \<Rightarrow> n | None \<Rightarrow> default_value))"

definition sending_enabled :: "mail_env \<Rightarrow> bool" where
  "sending_enabled env =
    (case map_of (me_cfg env) ''EMAIL_SENDING_ENABLED'' of None \<Rightarrow> True | Some v \<Rightarrow> json_truthy v)"

section \<open>Reserving\<close>

definition spent :: "bucket \<Rightarrow> counters \<Rightarrow> nat" where
  "spent b cs = (case map_of cs b of None \<Rightarrow> 0 | Some n \<Rightarrow> n)"

definition with_row :: "bucket \<Rightarrow> counters \<Rightarrow> counters" where
  \<comment> \<open>\<open>get_or_create(..., defaults={"count": 0})\<close>\<close>
  "with_row b cs = (if map_of cs b = None then cs @ [(b, 0)] else cs)"

definition reserve_budget ::
  "mail_env \<Rightarrow> string \<Rightarrow> string \<Rightarrow> instant \<Rightarrow> int \<Rightarrow> bool \<Rightarrow> counters \<Rightarrow> bool \<times> counters" where
  "reserve_budget env scope key start limit fail_open cs =
    (if me_fails env (scope, key, start) then (fail_open, cs)
     else let cs1 = with_row (scope, key, start) cs;
              n = spent (scope, key, start) cs1
          in if 0 \<le> limit \<and> limit \<le> int n then (False, cs1)
             else (True, AList.update (scope, key, start) (Suc n) cs1))"

fun reserve_recipients ::
  "mail_env \<Rightarrow> instant \<Rightarrow> int \<Rightarrow> int \<Rightarrow> string list \<Rightarrow> counters \<Rightarrow> counters option" where
  \<comment> \<open>the loop over the people a notification is addressed to, \<open>None\<close> for \<open>BudgetExceededError\<close>\<close>
  "reserve_recipients env now hourly daily [] cs = Some cs"
| "reserve_recipients env now hourly daily (a # as) cs =
    (case reserve_budget env ''recipient_hour'' (recipient_key env a) (hour_start now) hourly False cs of
       (False, _) \<Rightarrow> None
     | (True, cs1) \<Rightarrow>
        (case reserve_budget env ''recipient_day'' (recipient_key env a) (day_start now) daily False cs1 of
           (False, _) \<Rightarrow> None
         | (True, cs2) \<Rightarrow> reserve_recipients env now hourly daily as cs2))"

section \<open>The backend\<close>

definition recipients :: "message \<Rightarrow> string list" where
  "recipients m = filter (\<lambda>a. a \<noteq> []) (mg_to m @ mg_cc m @ mg_bcc m)"

definition is_suppressed :: "mail_env \<Rightarrow> string list \<Rightarrow> mailbox \<Rightarrow> bool" where
  "is_suppressed env as mx =
    (let lowered = map (\<lambda>a. py_lower (py_strip a)) (filter (\<lambda>a. a \<noteq> []) as)
     in \<not> me_lookup_fails env \<and> (\<exists>a \<in> set lowered. a \<in> set (mx_suppressed mx)))"

definition waited_on :: "message \<Rightarrow> bool" where
  "waited_on m =
    ((case mg_class m of None \<Rightarrow> CLASS_NOTIFICATION | Some c \<Rightarrow> c) = CLASS_TRANSACTIONAL)"

definition reserve_message :: "mail_env \<Rightarrow> instant \<Rightarrow> message \<Rightarrow> counters \<Rightarrow> counters option" where
  \<comment> \<open>every reservation of one message, in one transaction\<close>
  "reserve_message env now m cs =
    (let hourly = mail_limit ''EMAIL_RECIPIENT_HOURLY_LIMIT'' 6 env;
         daily = mail_limit ''EMAIL_RECIPIENT_DAILY_LIMIT'' 20 env;
         global_limit = mail_limit ''EMAIL_DAILY_SEND_LIMIT'' 2000 env
     in case (if waited_on m then Some cs else reserve_recipients env now hourly daily (mg_to m) cs) of
          None \<Rightarrow> None
        | Some cs1 \<Rightarrow>
            (case reserve_budget env ''global_day'' [] (day_start now) global_limit (waited_on m) cs1 of
               (False, _) \<Rightarrow> None
             | (True, cs2) \<Rightarrow> Some cs2))"

definition allow :: "mail_env \<Rightarrow> instant \<Rightarrow> message \<Rightarrow> mailbox \<Rightarrow> bool \<times> mailbox" where
  "allow env now m mx =
    (if \<not> sending_enabled env then (False, mx)
     else if recipients m = [] then (False, mx)
     else if is_suppressed env (recipients m) mx then (False, mx)
     else case reserve_message env now m (mx_counters mx) of
            None \<Rightarrow> (False, mx)
          | Some cs \<Rightarrow> (True, mx\<lparr>mx_counters := cs\<rparr>))"

fun allowed_messages :: "mail_env \<Rightarrow> instant \<Rightarrow> message list \<Rightarrow> mailbox \<Rightarrow> message list \<times> mailbox" where
  "allowed_messages env now [] mx = ([], mx)"
| "allowed_messages env now (m # ms) mx =
    (let (ok, mx1) = allow env now m mx;
         (rest, mx2) = allowed_messages env now ms mx1
     in (if ok then m # rest else rest, mx2))"

definition send_messages :: "mail_env \<Rightarrow> instant \<Rightarrow> message list \<Rightarrow> mailbox \<Rightarrow> nat option \<times> mailbox" where
  "send_messages env now ms mx =
    (if ms = [] then (Some 0, mx)
     else let (allowed, mx1) = allowed_messages env now ms mx in
       if allowed = [] then (Some 0, mx1)
       else (me_inner env (map (\<lambda>m. m\<lparr>mg_class := None\<rparr>) allowed),
             mx1\<lparr>mx_log := mx_log mx1 @ map (Pair now) allowed\<rparr>))"

datatype delivery = SENT | NOT_SENT | SEND_FAILED

definition send_or_raise :: "mail_env \<Rightarrow> instant \<Rightarrow> message \<Rightarrow> mailbox \<Rightarrow> delivery \<times> mailbox" where
  "send_or_raise env now m mx =
    (if recipients m = [] then (NOT_SENT, mx)
     else case send_messages env now [m] mx of
            (None, mx1) \<Rightarrow> (SEND_FAILED, mx1)
          | (Some n, mx1) \<Rightarrow> (if n = 0 then NOT_SENT else SENT, mx1))"

definition purge_expired_counters :: "instant \<Rightarrow> int \<Rightarrow> mailbox \<Rightarrow> nat \<times> mailbox" where
  "purge_expired_counters now older_than_days mx =
    (let cutoff = now - days older_than_days;
         kept = filter (\<lambda>((_, _, start), _). \<not> start < cutoff) (mx_counters mx)
     in (length (mx_counters mx) - length kept, mx\<lparr>mx_counters := kept\<rparr>))"

end
