(* ===== verification/Entities.thy ===== *)
theory Entities
  imports Prelude
begin

text \<open>
  The data of the program: the Django models of \<open>apps/*/models.py\<close> as records, their
  \<open>TextChoices\<close> as datatypes, and the database as one record of tables. A model's fields that
  no modelled operation reads (labels, colours, avatars) are left out. Primary keys (UUIDs)
  are natural numbers; a nullable column is an option; a blankable text column is a string.
\<close>

section \<open>Enumerations\<close>

datatype pp_state =
    DRAFT | PENDING_REVIEW | PENDING_CLIENT | APPROVED | CHANGES_REQUESTED | REJECTED
  | SCHEDULED | PUBLISHING | PUBLISHED | FAILED | ON_HOLD

fun state_value :: "pp_state \<Rightarrow> string" where
  "state_value DRAFT = ''draft''"
| "state_value PENDING_REVIEW = ''pending_review''"
| "state_value PENDING_CLIENT = ''pending_client''"
| "state_value APPROVED = ''approved''"
| "state_value CHANGES_REQUESTED = ''changes_requested''"
| "state_value REJECTED = ''rejected''"
| "state_value SCHEDULED = ''scheduled''"
| "state_value PUBLISHING = ''publishing''"
| "state_value PUBLISHED = ''published''"
| "state_value FAILED = ''failed''"
| "state_value ON_HOLD = ''on_hold''"

lemma state_value_inj: "state_value s = state_value t \<Longrightarrow> s = t"
  by (cases s; cases t) simp_all

lemma state_value_nonempty [simp]: "state_value s \<noteq> []"
  by (cases s) simp_all

datatype first_comment_state = FC_NONE | FC_PENDING | FC_POSTED | FC_FAILED

datatype connection_status = CONNECTED | TOKEN_EXPIRING | DISCONNECTED | CONN_ERROR

datatype workspace_role = WS_OWNER | WS_MANAGER | WS_EDITOR | WS_CONTRIBUTOR | WS_CLIENT | WS_VIEWER

datatype action_type = SUBMITTED | ACT_APPROVED | ACT_CHANGES_REQUESTED | ACT_REJECTED | RESUBMITTED | HELD

datatype visibility = INTERNAL | EXTERNAL

section \<open>Rows\<close>

record organization =
  og_id :: nat
  og_default_timezone :: string

record workspace =
  ws_id :: nat
  ws_org :: nat
  ws_name :: string
  ws_approval_mode :: string
  ws_timezone :: string

record user =
  us_id :: nat
  us_name :: string
  us_email :: string

record social_account =
  sa_id :: nat
  sa_workspace :: nat
  sa_platform :: string
  sa_platform_id :: string
  sa_name :: string
  sa_handle :: string
  sa_instance_url :: string
  sa_access_token :: string
  sa_refresh_token :: string
  sa_token_expires_at :: "instant option"
  sa_connection :: connection_status

record post =
  po_id :: nat
  po_workspace :: nat
  po_author :: "nat option"
  po_title :: string
  po_caption :: string
  po_first_comment :: string
  po_internal_notes :: string
  po_tags :: "json list"
  po_category :: "nat option"
  po_scheduled_at :: "instant option"
  po_published_at :: "instant option"
  po_proposed_at :: "instant option"
  po_updated_at :: instant

record platform_post =
  pp_id :: nat
  pp_post :: nat
  pp_account :: nat
  pp_title :: "string option"
  pp_caption :: "string option"
  pp_first_comment :: "string option"
  pp_media :: json
  pp_extra :: pydict
  pp_status :: pp_state
  pp_handle :: string
  pp_publish_error :: string
  pp_published_at :: "instant option"
  pp_fc_status :: first_comment_state
  pp_fc_id :: string
  pp_fc_error :: string
  pp_fc_retries :: nat
  pp_fc_posted_at :: "instant option"
  pp_scheduled_at :: "instant option"
  pp_retry_count :: nat
  pp_next_retry_at :: "instant option"
  pp_updated_at :: instant

record media_asset =
  ma_id :: nat
  ma_workspace :: "nat option"
  ma_media_type :: string
  ma_filename :: string
  ma_file :: string
  ma_duration :: "int option"

record post_media =
  pm_id :: nat
  pm_post :: nat
  pm_asset :: nat
  pm_position :: nat
  pm_alt_text :: string
  pm_overrides :: json

record posting_slot =
  sl_id :: nat
  sl_account :: nat
  sl_day :: int
  sl_time :: int
  sl_active :: bool

record queue =
  qu_id :: nat
  qu_workspace :: nat
  qu_name :: string
  qu_account :: nat
  qu_active :: bool

record queue_entry =
  qe_id :: nat
  qe_queue :: nat
  qe_post :: nat
  qe_position :: nat
  qe_slot :: "instant option"

record recurrence_rule =
  rr_id :: nat
  rr_post :: nat
  rr_frequency :: string
  rr_interval :: int
  rr_end_date :: "int option"
  rr_last_generated_at :: "instant option"
  rr_active :: bool

record ws_membership =
  mb_id :: nat
  mb_user :: nat
  mb_workspace :: nat
  mb_role :: workspace_role
  mb_custom :: "(string \<times> bool) list option"

record approval_action =
  aa_post :: nat
  aa_pp :: "nat option"
  aa_user :: nat
  aa_action :: action_type
  aa_comment :: string

record approval_reminder =
  ar_post :: nat
  ar_stage :: string
  ar_count :: nat
  ar_last_at :: "instant option"
  ar_escalated :: bool

record post_comment =
  pc_id :: nat
  pc_post :: nat
  pc_author :: "nat option"
  pc_parent :: "nat option"
  pc_body :: string
  pc_visibility :: visibility
  pc_created_at :: instant
  pc_deleted_at :: "instant option"

record publish_log =
  pl_pp :: nat
  pl_attempt :: nat
  pl_status_code :: "int option"
  pl_error :: string

record rate_state =
  rs_account :: nat
  rs_platform :: string
  rs_remaining :: int
  rs_resets_at :: "instant option"

text \<open>
  A version of a post: the snapshot's entries, its lists of channels (account, title, caption, first
  comment, extras) and of media (asset, position, alternative text) among them.
\<close>

record post_version =
  vs_post :: nat
  vs_number :: nat
  vs_title :: string
  vs_caption :: string
  vs_first_comment :: string
  vs_internal_notes :: string
  vs_tags :: "json list"
  vs_status :: string
  vs_scheduled_at :: "instant option"
  vs_channels :: "(nat \<times> string option \<times> string option \<times> string option \<times> pydict) list"
  vs_media :: "(nat \<times> nat \<times> string) list"
  vs_created_by :: nat

text \<open>One recorded call of \<open>apps.notifications.engine.notify\<close>.\<close>

record notification =
  nt_user :: nat
  nt_event :: string
  nt_title :: string
  nt_body :: string
  nt_data :: pydict

text \<open>A row of the background-task queue: the task, its argument, and the delay asked for.\<close>

record bg_task =
  bt_pp :: nat
  bt_delay :: int

section \<open>The database\<close>

record db =
  db_orgs :: "organization list"
  db_workspaces :: "workspace list"
  db_users :: "user list"
  db_members :: "ws_membership list"
  db_accounts :: "social_account list"
  db_posts :: "post list"
  db_pps :: "platform_post list"
  db_assets :: "media_asset list"
  db_media :: "post_media list"
  db_slots :: "posting_slot list"
  db_queues :: "queue list"
  db_entries :: "queue_entry list"
  db_rules :: "recurrence_rule list"
  db_actions :: "approval_action list"
  db_reminders :: "approval_reminder list"
  db_comments :: "post_comment list"
  db_logs :: "publish_log list"
  db_rates :: "rate_state list"
  db_notes :: "notification list"
  db_tasks :: "bg_task list"
  db_versions :: "post_version list"
  db_tags :: "(nat \<times> string) list"
    \<comment> \<open>the workspace and the name\<close>
  db_next :: nat

text \<open>\<open>default=uuid.uuid4\<close>: a key no row has had before.\<close>

definition fresh_id :: "db \<Rightarrow> nat \<times> db" where
  "fresh_id d = (db_next d, d\<lparr>db_next := Suc (db_next d)\<rparr>)"

definition get_post :: "nat \<Rightarrow> db \<Rightarrow> post option" where
  "get_post i d = tbl_get po_id i (db_posts d)"

definition save_post :: "post \<Rightarrow> db \<Rightarrow> db" where
  "save_post p d = d\<lparr>db_posts := tbl_save po_id p (db_posts d)\<rparr>"

definition get_pp :: "nat \<Rightarrow> db \<Rightarrow> platform_post option" where
  "get_pp i d = tbl_get pp_id i (db_pps d)"

definition save_pp :: "platform_post \<Rightarrow> db \<Rightarrow> db" where
  \<comment> \<open>\<open>platform_post.save()\<close>: the whole object over its row\<close>
  "save_pp p d = d\<lparr>db_pps := tbl_save pp_id p (db_pps d)\<rparr>"

definition update_pps :: "(platform_post \<Rightarrow> bool) \<Rightarrow> (platform_post \<Rightarrow> platform_post) \<Rightarrow> db \<Rightarrow> db" where
  \<comment> \<open>\<open>PlatformPost.objects.filter(P).update(f)\<close>\<close>
  "update_pps P f d = d\<lparr>db_pps := tbl_update P f (db_pps d)\<rparr>"

definition get_account :: "nat \<Rightarrow> db \<Rightarrow> social_account option" where
  "get_account i d = tbl_get sa_id i (db_accounts d)"

definition get_asset :: "nat \<Rightarrow> db \<Rightarrow> media_asset option" where
  "get_asset i d = tbl_get ma_id i (db_assets d)"

definition get_workspace :: "nat \<Rightarrow> db \<Rightarrow> workspace option" where
  "get_workspace i d = tbl_get ws_id i (db_workspaces d)"

definition get_user :: "nat \<Rightarrow> db \<Rightarrow> user option" where
  "get_user i d = tbl_get us_id i (db_users d)"

definition get_entry :: "nat \<Rightarrow> db \<Rightarrow> queue_entry option" where
  "get_entry i d = tbl_get qe_id i (db_entries d)"

definition save_entry :: "queue_entry \<Rightarrow> db \<Rightarrow> db" where
  "save_entry e d = d\<lparr>db_entries := tbl_save qe_id e (db_entries d)\<rparr>"

definition children :: "nat \<Rightarrow> db \<Rightarrow> platform_post list" where
  \<comment> \<open>\<open>post.platform_posts.all()\<close>\<close>
  "children i d = filter (\<lambda>p. pp_post p = i) (db_pps d)"

definition child_on :: "nat \<Rightarrow> nat \<Rightarrow> db \<Rightarrow> platform_post option" where
  \<comment> \<open>\<open>post.platform_posts.filter(social_account=a).first()\<close>\<close>
  "child_on i a d = tbl_first (\<lambda>p. pp_post p = i \<and> pp_account p = a) (db_pps d)"

definition add_note :: "notification \<Rightarrow> db \<Rightarrow> db" where
  "add_note n d = d\<lparr>db_notes := db_notes d @ [n]\<rparr>"

text \<open>The uniqueness the primary keys give; every operation keeps it.\<close>

definition keys_ok :: "db \<Rightarrow> bool" where
  "keys_ok d \<longleftrightarrow> distinct (map pp_id (db_pps d)) \<and> distinct (map po_id (db_posts d))
     \<and> distinct (map qe_id (db_entries d))"

interpretation pps: row_store pp_id get_pp save_pp
  by unfold_locales (auto simp: get_pp_def save_pp_def tbl_get_save dest: tbl_get_Some)

interpretation posts: row_store po_id get_post save_post
  by unfold_locales (auto simp: get_post_def save_post_def tbl_get_save dest: tbl_get_Some)

interpretation entries: row_store qe_id get_entry save_entry
  by unfold_locales (auto simp: get_entry_def save_entry_def tbl_get_save dest: tbl_get_Some)

lemma get_pp_id: "get_pp i d = Some p \<Longrightarrow> pp_id p = i"
  by (rule pps.get_key)

lemma get_pp_in: "get_pp i d = Some p \<Longrightarrow> p \<in> set (db_pps d)"
  by (auto simp: get_pp_def dest: tbl_get_Some)

lemma get_pp_update [store_simps]:
  assumes "\<And>p. pp_id (f p) = pp_id p"
  shows "get_pp i (update_pps P f d) =
    (case get_pp i d of None \<Rightarrow> None | Some p \<Rightarrow> Some (if P p then f p else p))"
  using assms by (simp add: get_pp_def update_pps_def tbl_get_update)

lemma get_pp_save_post [frame_simps]: "get_pp i (save_post p d) = get_pp i d"
  by (simp add: get_pp_def save_post_def)

lemma get_pp_save_entry [frame_simps]: "get_pp i (save_entry e d) = get_pp i d"
  by (simp add: get_pp_def save_entry_def)

lemma get_pp_add_note [frame_simps]: "get_pp i (add_note n d) = get_pp i d"
  by (simp add: get_pp_def add_note_def)

lemma db_pps_frame [frame_simps]:
  "db_pps (save_post p d) = db_pps d" "db_pps (save_entry e d) = db_pps d"
  "db_pps (add_note n d) = db_pps d"
  by (simp_all add: save_post_def save_entry_def add_note_def)

lemma get_post_frame [frame_simps]:
  "get_post i (save_pp p d) = get_post i d" "get_post i (update_pps P f d) = get_post i d"
  "get_post i (add_note n d) = get_post i d" "get_post i (save_entry e d) = get_post i d"
  by (simp_all add: get_post_def save_pp_def update_pps_def add_note_def save_entry_def)

lemma get_account_frame [frame_simps]:
  "get_account i (save_pp p d) = get_account i d"
  "get_account i (update_pps P f d) = get_account i d"
  "get_account i (save_post q d) = get_account i d" "get_account i (add_note n d) = get_account i d"
  "get_account i (save_entry e d) = get_account i d"
  by (simp_all add: get_account_def save_pp_def update_pps_def save_post_def add_note_def
      save_entry_def)

lemma keys_ok_save_pp [simp]: "keys_ok (save_pp p d) = keys_ok d"
  by (simp add: keys_ok_def save_pp_def)

lemma keys_ok_save_post [simp]: "keys_ok (save_post p d) = keys_ok d"
  by (simp add: keys_ok_def save_post_def)

lemma keys_ok_save_entry [simp]: "keys_ok (save_entry p d) = keys_ok d"
  by (simp add: keys_ok_def save_entry_def)

lemma keys_ok_add_note [simp]: "keys_ok (add_note n d) = keys_ok d"
  by (simp add: keys_ok_def add_note_def)

lemma keys_ok_get_pp: "keys_ok d \<Longrightarrow> p \<in> set (db_pps d) \<Longrightarrow> get_pp (pp_id p) d = Some p"
  by (simp add: keys_ok_def get_pp_def tbl_get_distinct)

end
