(* ===== verification/Post_Status.thy ===== *)
theory Post_Status
  imports Entities
begin

text \<open>
  \<open>apps/composer/status.py\<close> (the aggregate status of a post) and the editorial state machine of
  \<open>PlatformPost\<close> in \<open>apps/composer/models.py\<close>: the transition table, \<open>transition_to\<close> with the
  resets it performs, the derived flags and the per-platform overrides.
\<close>

section \<open>Aggregate status\<close>

definition WORKFLOW_ORDER :: "string list" where
  "WORKFLOW_ORDER =
    [''draft'', ''changes_requested'', ''rejected'', ''on_hold'', ''pending_review'',
     ''pending_client'', ''approved'', ''scheduled'', ''publishing'', ''partially_published'',
     ''published'']"

definition TERMINAL :: "string list" where
  "TERMINAL = [''published'', ''failed'']"

definition READONLY_STATUSES :: "string list" where
  "READONLY_STATUSES = [''publishing'', ''partially_published'', ''published'']"

fun index_of :: "'a \<Rightarrow> 'a list \<Rightarrow> nat" where
  \<comment> \<open>\<open>xs.index(x)\<close>, and the length where Python raises\<close>
  "index_of x [] = 0"
| "index_of x (y # ys) = (if x = y then 0 else Suc (index_of x ys))"

definition workflow_rank :: "string \<Rightarrow> nat" where
  "workflow_rank s = index_of s WORKFLOW_ORDER"

text \<open>
  A child's status is a non-empty string; a falsy value in the iterable (\<open>None\<close> or \<open>""\<close>) is the
  empty string here. Python takes the minimum over a set, whose order matters only between two
  unknown statuses, which both rank last.
\<close>

definition derive_post_status :: "string list \<Rightarrow> string" where
  "derive_post_status statuses =
    (let values = filter (\<lambda>s. s \<noteq> []) statuses in
     if values = [] then ''draft''
     else let unique = remdups values in
     if length unique = 1 then hd values
     else if list_all (\<lambda>s. s \<in> set TERMINAL) unique then
       (if ''published'' \<in> set unique \<and> ''failed'' \<in> set unique then ''partially_published''
        else if set unique = {''published''} then ''published''
        else ''failed'')
     else let result = min_by workflow_rank (hd unique) (tl unique) in
       if result = ''on_hold'' \<and> ''published'' \<in> set unique then ''partially_published''
       else result)"

definition post_status :: "post \<Rightarrow> db \<Rightarrow> string" where
  "post_status p d = derive_post_status (map (\<lambda>c. state_value (pp_status c)) (children (po_id p) d))"

definition EDITABLE :: "string list" where
  "EDITABLE = [''draft'', ''changes_requested'', ''rejected'', ''approved'', ''scheduled'']"

definition post_is_editable :: "post \<Rightarrow> db \<Rightarrow> bool" where
  "post_is_editable p d = (post_status p d \<in> set EDITABLE)"

definition post_is_schedulable :: "post \<Rightarrow> db \<Rightarrow> bool" where
  "post_is_schedulable p d = (post_status p d \<in> set [''draft'', ''approved''])"

definition ELLIPSIS :: string where
  "ELLIPSIS = [CHR 0xE2, CHR 0x80, CHR 0xA6]"

definition caption_snippet :: "post \<Rightarrow> string" where
  "caption_snippet p =
    (if length (po_caption p) \<le> 100 then po_caption p else take 100 (po_caption p) @ ELLIPSIS)"

section \<open>The state machine\<close>

fun VALID_TRANSITIONS :: "pp_state \<Rightarrow> pp_state list" where
  "VALID_TRANSITIONS DRAFT = [PENDING_REVIEW, SCHEDULED, PUBLISHING]"
| "VALID_TRANSITIONS PENDING_REVIEW = [APPROVED, CHANGES_REQUESTED, REJECTED]"
| "VALID_TRANSITIONS APPROVED = [PENDING_CLIENT, SCHEDULED, PUBLISHING, DRAFT, ON_HOLD, PENDING_REVIEW]"
| "VALID_TRANSITIONS PENDING_CLIENT = [APPROVED, CHANGES_REQUESTED, REJECTED]"
| "VALID_TRANSITIONS CHANGES_REQUESTED = [PENDING_REVIEW, DRAFT]"
| "VALID_TRANSITIONS REJECTED = [DRAFT, PENDING_REVIEW]"
| "VALID_TRANSITIONS SCHEDULED = [PUBLISHING, DRAFT]"
| "VALID_TRANSITIONS PUBLISHING = [PUBLISHED, FAILED, SCHEDULED]"
| "VALID_TRANSITIONS FAILED = [PUBLISHING, DRAFT, SCHEDULED]"
| "VALID_TRANSITIONS ON_HOLD = [APPROVED, DRAFT, CHANGES_REQUESTED]"
| "VALID_TRANSITIONS PUBLISHED = []"

definition PROTECTED_STATUSES :: "pp_state list" where
  "PROTECTED_STATUSES = [PUBLISHED, PUBLISHING]"

definition RESCHEDULABLE_STATUSES :: "pp_state list" where
  "RESCHEDULABLE_STATUSES = [DRAFT, APPROVED, SCHEDULED, FAILED, PENDING_REVIEW, PENDING_CLIENT]"

definition is_reschedulable :: "platform_post \<Rightarrow> bool" where
  "is_reschedulable p = (pp_status p \<in> set RESCHEDULABLE_STATUSES)"

definition is_bulk_selectable :: "platform_post \<Rightarrow> bool" where
  "is_bulk_selectable p = (pp_status p \<notin> set PROTECTED_STATUSES)"

definition pp_is_editable :: "platform_post \<Rightarrow> bool" where
  "pp_is_editable p =
    (pp_status p \<in> set [DRAFT, CHANGES_REQUESTED, REJECTED, APPROVED, SCHEDULED])"

definition pp_is_schedulable :: "platform_post \<Rightarrow> bool" where
  "pp_is_schedulable p = (pp_status p \<in> set [DRAFT, APPROVED])"

definition can_transition_to :: "platform_post \<Rightarrow> pp_state \<Rightarrow> bool" where
  "can_transition_to p s = (s \<in> set (VALID_TRANSITIONS (pp_status p)))"

datatype transition_error = InvalidTransition pp_state pp_state "pp_state list"

definition transition_to :: "instant \<Rightarrow> platform_post \<Rightarrow> pp_state \<Rightarrow> transition_error + platform_post" where
  "transition_to now p s =
    (if \<not> can_transition_to p s
     then Inl (InvalidTransition (pp_status p) s (VALID_TRANSITIONS (pp_status p)))
     else
       let p1 = p\<lparr>pp_status := s\<rparr>;
           p2 = (if s = PUBLISHED then p1\<lparr>pp_published_at := Some now\<rparr> else p1);
           p3 = (if s = SCHEDULED
                 then p2\<lparr>pp_retry_count := 0, pp_next_retry_at := None, pp_publish_error := [],
                         pp_handle := []\<rparr>
                 else p2)
       in Inr p3)"

definition effective_title :: "post \<Rightarrow> platform_post \<Rightarrow> string" where
  "effective_title po p = (case pp_title p of Some t \<Rightarrow> t | None \<Rightarrow> po_title po)"

definition effective_caption :: "post \<Rightarrow> platform_post \<Rightarrow> string" where
  "effective_caption po p = (case pp_caption p of Some t \<Rightarrow> t | None \<Rightarrow> po_caption po)"

definition effective_first_comment :: "post \<Rightarrow> platform_post \<Rightarrow> string" where
  "effective_first_comment po p =
    (case pp_first_comment p of Some t \<Rightarrow> t | None \<Rightarrow> po_first_comment po)"

section \<open>Lemmas: the aggregate\<close>

lemma index_of_less: "x \<in> set xs \<longleftrightarrow> index_of x xs < length xs"
  by (induction xs) auto

lemma index_of_nth: "x \<in> set xs \<Longrightarrow> xs ! index_of x xs = x"
  by (induction xs) auto

lemma index_of_inj: "x \<in> set xs \<Longrightarrow> index_of x xs = index_of y xs \<Longrightarrow> x = y"
  by (metis index_of_less index_of_nth)

definition known_status :: "string \<Rightarrow> bool" where
  "known_status s \<longleftrightarrow> s \<in> set WORKFLOW_ORDER \<or> s = ''failed''"

lemma workflow_rank_inj:
  assumes "known_status s" and "known_status t" and "workflow_rank s = workflow_rank t"
  shows "s = t"
proof (cases "s \<in> set WORKFLOW_ORDER")
  case True
  then show ?thesis using assms(3) unfolding workflow_rank_def by (rule index_of_inj)
next
  case False
  then have "\<not> workflow_rank s < length WORKFLOW_ORDER"
    by (simp add: workflow_rank_def index_of_less)
  then have "t \<notin> set WORKFLOW_ORDER"
    using assms(3) by (simp add: workflow_rank_def index_of_less)
  then show ?thesis using False assms(1,2) by (simp add: known_status_def)
qed

lemma known_state_value [simp]: "known_status (state_value s)"
  by (cases s) (simp_all add: known_status_def WORKFLOW_ORDER_def)

lemma min_by_unique:
  assumes "m \<in> set (x # xs)" and "\<And>y. y \<in> set (x # xs) \<Longrightarrow> f m \<le> f y"
    and "\<And>y. y \<in> set (x # xs) \<Longrightarrow> f y = f m \<Longrightarrow> y = m"
  shows "min_by f x xs = m"
proof -
  have i: "min_by f x xs \<in> set (x # xs)" by (rule min_by_in)
  have "f (min_by f x xs) \<le> f m" using assms(1) by (rule min_by_le)
  with assms(2)[OF i] have "f (min_by f x xs) = f m" by simp
  with i show ?thesis by (rule assms(3))
qed

lemma min_by_set_cong:
  assumes "set (x # xs) = set (y # ys)"
    and inj: "\<And>a b. a \<in> set (x # xs) \<Longrightarrow> b \<in> set (x # xs) \<Longrightarrow> f a = f b \<Longrightarrow> a = b"
  shows "min_by f x xs = min_by f y ys"
proof (rule min_by_unique)
  have i: "min_by f y ys \<in> set (y # ys)" by (rule min_by_in)
  then show "min_by f y ys \<in> set (x # xs)" by (simp only: assms(1))
  fix z assume z: "z \<in> set (x # xs)"
  then have z': "z \<in> set (y # ys)" by (simp only: assms(1))
  then show "f (min_by f y ys) \<le> f z" by (rule min_by_le)
  assume "f z = f (min_by f y ys)"
  then show "z = min_by f y ys" using z i by (intro inj) (simp_all only: assms(1))
qed

lemma remdups_hd_tl: "xs \<noteq> [] \<Longrightarrow> set (hd (remdups xs) # tl (remdups xs)) = set xs"
  by (metis list.collapse remdups_eq_nil_iff set_remdups)

lemma length_remdups_1: "length (remdups xs) = 1 \<longleftrightarrow> card (set xs) = 1"
  by (simp add: length_remdups_card_conv)

lemma remdups_1_hd: "length (remdups xs) = 1 \<Longrightarrow> set xs = {hd xs}"
proof -
  assume "length (remdups xs) = 1"
  then have "card (set xs) = 1" by (simp add: length_remdups_card_conv)
  then obtain a where a: "set xs = {a}" by (auto simp: card_1_singleton_iff)
  then have "hd xs = a" by (metis hd_in_set insert_not_empty set_empty singletonD)
  with a show ?thesis by simp
qed

text \<open>The aggregate reads its children only through these four quantities.\<close>

definition combine :: "bool \<Rightarrow> string \<Rightarrow> string set \<Rightarrow> string \<Rightarrow> string" where
  "combine one h S m =
    (if one then h
     else if \<forall>s \<in> S. s \<in> set TERMINAL then
       (if ''published'' \<in> S \<and> ''failed'' \<in> S then ''partially_published''
        else if S = {''published''} then ''published'' else ''failed'')
     else if m = ''on_hold'' \<and> ''published'' \<in> S then ''partially_published'' else m)"

lemma derive_combine:
  assumes "v = filter (\<lambda>s. s \<noteq> []) xs"
  shows "derive_post_status xs =
    (if v = [] then ''draft''
     else combine (length (remdups v) = 1) (hd v) (set (remdups v))
       (min_by workflow_rank (hd (remdups v)) (tl (remdups v))))"
  unfolding assms derive_post_status_def combine_def Let_def list_all_iff ..

lemma derive_post_status_set_cong:
  assumes same: "set (filter (\<lambda>s. s \<noteq> []) xs) = set (filter (\<lambda>s. s \<noteq> []) ys)"
    and known: "\<And>s. s \<in> set xs \<Longrightarrow> s \<noteq> [] \<Longrightarrow> known_status s"
  shows "derive_post_status xs = derive_post_status ys"
proof -
  define x y where xy: "x = filter (\<lambda>s. s \<noteq> []) xs" "y = filter (\<lambda>s. s \<noteq> []) ys"
  have sxy: "set x = set y" unfolding xy by (rule same)
  have e: "x = [] \<longleftrightarrow> y = []" using sxy by (metis set_empty)
  show ?thesis
  proof (cases "x = []")
    case True
    with e show ?thesis by (simp add: derive_combine [OF xy(1)] derive_combine [OF xy(2)])
  next
    case False
    with e have ne: "y \<noteq> []" by simp
    have l: "length (remdups x) = length (remdups y)"
      by (simp only: length_remdups_card_conv sxy)
    have h: "hd x = hd y" if "length (remdups x) = 1"
      using remdups_1_hd [OF that] remdups_1_hd [of y] that l sxy by auto
    have m: "min_by workflow_rank (hd (remdups x)) (tl (remdups x)) =
        min_by workflow_rank (hd (remdups y)) (tl (remdups y))"
    proof (rule min_by_set_cong)
      show "set (hd (remdups x) # tl (remdups x)) = set (hd (remdups y) # tl (remdups y))"
        by (simp only: remdups_hd_tl [OF False] remdups_hd_tl [OF ne] sxy)
      fix a b
      assume "a \<in> set (hd (remdups x) # tl (remdups x))"
        and "b \<in> set (hd (remdups x) # tl (remdups x))" and r: "workflow_rank a = workflow_rank b"
      then have "a \<in> set x" and "b \<in> set x" by (simp_all only: remdups_hd_tl [OF False])
      then show "a = b" using r by (intro workflow_rank_inj known) (auto simp: xy)
    qed
    have c: "combine (length (remdups x) = 1) (hd x) S w =
        combine (length (remdups x) = 1) (hd y) S w" for S w
      using h by (simp add: combine_def)
    show ?thesis
      unfolding derive_combine [OF xy(1)] derive_combine [OF xy(2)]
      by (subst c) (simp only: False ne if_False l m set_remdups sxy)
  qed
qed

text \<open>In a mixed post that is still in flight, the least advanced child decides.\<close>

lemma derive_post_status_lowest:
  assumes "s \<in> set xs" "s \<noteq> []" "s \<notin> set TERMINAL"
    and "derive_post_status xs \<noteq> ''partially_published''"
    and "t \<in> set xs" "t \<noteq> []"
  shows "derive_post_status xs \<in> set xs \<and> workflow_rank (derive_post_status xs) \<le> workflow_rank t"
proof -
  define x where x: "x = filter (\<lambda>s. s \<noteq> []) xs"
  have sx: "s \<in> set x" "t \<in> set x" using assms by (auto simp: x)
  then have ne: "x \<noteq> []" by auto
  show ?thesis
  proof (cases "length (remdups x) = 1")
    case True
    then have "set x = {hd x}" by (rule remdups_1_hd)
    moreover have "derive_post_status xs = hd x"
      using True ne by (simp add: derive_combine [OF x] combine_def)
    ultimately show ?thesis using sx assms by (metis order_refl singletonD)
  next
    case False
    have nt: "\<not> (\<forall>s \<in> set x. s \<in> set TERMINAL)" using sx assms(3) by blast
    define m where m: "m = min_by workflow_rank (hd (remdups x)) (tl (remdups x))"
    have "combine (length (remdups x) = 1) (hd x) (set (remdups x)) m =
        (if m = ''on_hold'' \<and> ''published'' \<in> set x then ''partially_published'' else m)"
      using False nt by (simp only: combine_def if_False set_remdups)
    then have "derive_post_status xs =
        (if m = ''on_hold'' \<and> ''published'' \<in> set x then ''partially_published'' else m)"
      by (simp only: derive_combine [OF x] m [symmetric] ne if_False)
    then have d: "derive_post_status xs = m"
      using assms(4) by (metis (full_types))
    have "m \<in> set (hd (remdups x) # tl (remdups x))" unfolding m by (rule min_by_in)
    then have "m \<in> set x" by (simp only: remdups_hd_tl [OF ne])
    then have "m \<in> set xs" by (simp add: x)
    moreover have "workflow_rank m \<le> workflow_rank t"
      unfolding m by (rule min_by_le) (simp only: remdups_hd_tl [OF ne] sx)
    ultimately show ?thesis unfolding d ..
  qed
qed

section \<open>Lemmas: the state machine\<close>

lemma transition_to_Inr:
  "transition_to now p s = Inr q \<longleftrightarrow>
    can_transition_to p s \<and>
    q = (if s = SCHEDULED
         then p\<lparr>pp_status := s, pp_retry_count := 0, pp_next_retry_at := None,
                pp_publish_error := [], pp_handle := []\<rparr>
         else if s = PUBLISHED then p\<lparr>pp_status := s, pp_published_at := Some now\<rparr>
         else p\<lparr>pp_status := s\<rparr>)"
  by (auto simp: transition_to_def Let_def)

lemma transition_to_Inl:
  "transition_to now p s = Inl e \<longleftrightarrow>
    \<not> can_transition_to p s \<and> e = InvalidTransition (pp_status p) s (VALID_TRANSITIONS (pp_status p))"
  by (auto simp: transition_to_def Let_def)

lemma transition_to_keeps:
  "transition_to now p s = Inr q \<Longrightarrow>
    pp_id q = pp_id p \<and> pp_post q = pp_post p \<and> pp_account q = pp_account p \<and> pp_status q = s
    \<and> pp_scheduled_at q = pp_scheduled_at p \<and> pp_extra q = pp_extra p"
  by (auto simp: transition_to_Inr)

text \<open>One edge of the declared state machine, and the statuses it reaches.\<close>

inductive edge :: "pp_state \<Rightarrow> pp_state \<Rightarrow> bool" where
  edgeI: "t \<in> set (VALID_TRANSITIONS s) \<Longrightarrow> edge s t"

inductive_simps edge_iff: "edge s t"

inductive_cases edge_from_published: "edge PUBLISHED t"

lemma no_edge_from_published: "\<not> edge PUBLISHED t"
  by (auto elim: edge_from_published)

lemma edge_to_published: "edge s PUBLISHED \<longleftrightarrow> s = PUBLISHING"
  by (cases s) (simp_all add: edge_iff)

lemma edge_to_publishing: "edge s PUBLISHING \<longleftrightarrow> s \<in> {DRAFT, APPROVED, SCHEDULED, FAILED}"
  by (cases s) (simp_all add: edge_iff)

end
