(* ===== verification/Provider_Errors.thy ===== *)
theory Provider_Errors
  imports Prelude
begin

text \<open>
  \<open>providers/exceptions.py\<close> and \<open>apps/social_accounts/error_messages.py\<close>: what a provider failure
  is, how it is classified, and every sentence a failure can put in front of a user.
\<close>

section \<open>The exception hierarchy\<close>

text \<open>
  An exception is its class and the attributes a handler reads off it with \<open>getattr\<close>. The
  class decides which attributes exist; the readers below answer what \<open>getattr\<close> with its
  default answers. A \<open>resets_at\<close> that is not a \<open>datetime\<close> is \<open>Malformed\<close>: using it raises
  \<open>AttributeError\<close> or \<open>TypeError\<close>, which the code catches.
\<close>

datatype exn_class =
    ProviderError | OAuthError | TokenExpiredError | RateLimitError | QuotaExceededError
  | PublishError | APIError | NotImplementedErr | OtherException

datatype deadline = NoDeadline | At instant | Malformed

record exn =
  ex_class :: exn_class
  ex_msg :: string
  ex_platform :: string
  ex_raw :: json
  ex_retryable :: bool
  ex_status :: "int option"
  ex_retry_after :: "int option"
  ex_resets :: deadline

definition is_provider_error :: "exn \<Rightarrow> bool" where
  "is_provider_error e = (ex_class e \<notin> {NotImplementedErr, OtherException})"

definition is_rate_limit :: "exn \<Rightarrow> bool" where
  \<comment> \<open>\<open>isinstance(exc, RateLimitError)\<close>\<close>
  "is_rate_limit e = (ex_class e = RateLimitError \<or> ex_class e = QuotaExceededError)"

definition attr_retryable :: "exn \<Rightarrow> bool" where
  \<comment> \<open>\<open>getattr(exc, "retryable", True)\<close>\<close>
  "attr_retryable e = (if is_provider_error e then ex_retryable e else True)"

definition attr_status :: "exn \<Rightarrow> int option" where
  \<comment> \<open>\<open>getattr(exc, "status_code", None)\<close>\<close>
  "attr_status e =
    (if ex_class e = TokenExpiredError \<or> ex_class e = QuotaExceededError \<or> ex_class e = APIError
     then ex_status e else None)"

definition attr_retry_after :: "exn \<Rightarrow> int option" where
  "attr_retry_after e = (if is_rate_limit e then ex_retry_after e else None)"

definition attr_resets :: "exn \<Rightarrow> deadline" where
  "attr_resets e = (if ex_class e = QuotaExceededError then ex_resets e else NoDeadline)"

definition attr_platform :: "exn \<Rightarrow> string" where
  "attr_platform e = (if is_provider_error e then ex_platform e else [])"

definition LONG_QUOTA_WINDOW :: int where
  "LONG_QUOTA_WINDOW = hours 1"

definition is_long_window :: "deadline \<Rightarrow> instant \<Rightarrow> bool" where
  "is_long_window r now =
    (case r of NoDeadline \<Rightarrow> True | Malformed \<Rightarrow> True | At t \<Rightarrow> t - now > LONG_QUOTA_WINDOW)"

definition is_long_quota_window :: "exn \<Rightarrow> instant \<Rightarrow> bool" where
  "is_long_quota_window e now = is_long_window (attr_resets e) now"

section \<open>The copy\<close>

definition RECONNECT_MESSAGE :: string where
  "RECONNECT_MESSAGE = ''Account connection expired. Please reconnect.''"

definition RATE_LIMIT_MESSAGE :: string where
  "RATE_LIMIT_MESSAGE = ''Rate limit reached. We'll retry this check shortly.''"

definition QUOTA_EXHAUSTED_MESSAGE :: string where
  "QUOTA_EXHAUSTED_MESSAGE = ''The platform's daily API limit is used up.''"

definition PLATFORM_UNAVAILABLE_MESSAGE :: string where
  "PLATFORM_UNAVAILABLE_MESSAGE = ''The platform is temporarily unavailable. We'll retry shortly.''"

definition GENERIC_MESSAGE :: string where
  "GENERIC_MESSAGE = ''Connection check failed. Please try reconnecting.''"

definition FIRST_COMMENT_RECONNECT_MESSAGE :: string where
  "FIRST_COMMENT_RECONNECT_MESSAGE =
    ''The account connection expired, so the first comment wasn't added. Reconnect the account and add the comment manually.''"

definition FIRST_COMMENT_TEMPORARY_MESSAGE :: string where
  "FIRST_COMMENT_TEMPORARY_MESSAGE =
    ''The platform was temporarily unavailable, so the first comment wasn't added.''"

definition FIRST_COMMENT_QUOTA_EXHAUSTED_MESSAGE :: string where
  "FIRST_COMMENT_QUOTA_EXHAUSTED_MESSAGE =
    ''The platform's daily API limit is used up, so the first comment wasn't added.''"

definition FIRST_COMMENT_REJECTED_MESSAGE :: string where
  "FIRST_COMMENT_REJECTED_MESSAGE =
    ''The platform rejected the first comment. Add it manually on the post.''"

definition FIRST_COMMENT_GENERIC_MESSAGE :: string where
  "FIRST_COMMENT_GENERIC_MESSAGE =
    ''The first comment couldn't be added. Add it manually on the post.''"

definition PUBLISH_RECONNECT_MESSAGE :: string where
  "PUBLISH_RECONNECT_MESSAGE =
    ''The platform refused our access to this account, so the post couldn't be published. Please reconnect it.''"

definition PUBLISH_TEMPORARY_MESSAGE :: string where
  "PUBLISH_TEMPORARY_MESSAGE = ''The platform was temporarily unavailable. We'll retry shortly.''"

definition PUBLISH_RATE_LIMIT_MESSAGE :: string where
  "PUBLISH_RATE_LIMIT_MESSAGE = ''The platform's rate limit was reached. We'll retry shortly.''"

definition PUBLISH_QUOTA_EXHAUSTED_MESSAGE :: string where
  "PUBLISH_QUOTA_EXHAUSTED_MESSAGE =
    ''The platform's daily API limit is used up, so the post couldn't be published.''"

definition PUBLISH_REJECTED_MESSAGE :: string where
  "PUBLISH_REJECTED_MESSAGE = ''The platform rejected this post.''"

definition PUBLISH_GENERIC_MESSAGE :: string where
  "PUBLISH_GENERIC_MESSAGE = ''Publishing failed. Please try again.''"

definition PUBLISH_EXHAUSTED_MESSAGE :: string where
  "PUBLISH_EXHAUSTED_MESSAGE =
    ''Publishing kept failing, so we stopped retrying. Try again, or reconnect the account if it keeps happening.''"

definition PUBLISH_INTERRUPTED_MESSAGE :: string where
  "PUBLISH_INTERRUPTED_MESSAGE =
    ''Publishing was interrupted before we could confirm it. Check the account to see whether the post went out, then publish again if it didn't.''"

definition PUBLISH_CONFIRM_TIMEOUT_MESSAGE :: string where
  "PUBLISH_CONFIRM_TIMEOUT_MESSAGE =
    ''The platform accepted this post but never finished processing it. Try publishing it again.''"

definition EM_DASH :: string where
  "EM_DASH = [CHR 0xE2, CHR 0x80, CHR 0x94]"

definition PUBLISH_UNCONFIRMED_MESSAGE :: string where
  "PUBLISH_UNCONFIRMED_MESSAGE =
    ''This post was uploaded, but we couldn't confirm whether the platform published it. Check the account before publishing again '' @ EM_DASH @ '' it may already be live.''"

definition WEBHOOK_RECONNECT_MESSAGE :: string where
  "WEBHOOK_RECONNECT_MESSAGE = ''The account's permissions no longer cover comment delivery.''"

definition WEBHOOK_TEMPORARY_MESSAGE :: string where
  "WEBHOOK_TEMPORARY_MESSAGE =
    ''The platform was temporarily unavailable when we asked it to push updates.''"

definition WEBHOOK_REJECTED_MESSAGE :: string where
  "WEBHOOK_REJECTED_MESSAGE = ''The platform declined to push updates for this account.''"

definition WEBHOOK_GENERIC_MESSAGE :: string where
  "WEBHOOK_GENERIC_MESSAGE = ''We couldn't set up real-time updates for this account.''"

section \<open>Classification\<close>

datatype failure_shape = RECONNECT | RATE_LIMITED | QUOTA_EXHAUSTED | UNAVAILABLE | REJECTED_SHAPE | UNKNOWN

definition EXPIRED_TOKEN_ERRORS :: "string list" where
  "EXPIRED_TOKEN_ERRORS = [''ExpiredToken'', ''invalid_token'', ''InvalidToken'', ''invalid_grant'']"

definition has_expired_token_code :: "exn \<Rightarrow> bool" where
  "has_expired_token_code e =
    (case ex_raw e of
       JObj d \<Rightarrow> (case dict_get ''error'' d of JStr s \<Rightarrow> s \<in> set EXPIRED_TOKEN_ERRORS | _ \<Rightarrow> False)
     | _ \<Rightarrow> False)"

definition classify :: "exn \<Rightarrow> instant \<Rightarrow> failure_shape" where
  "classify e now =
    (if ex_class e = TokenExpiredError then RECONNECT
     else if ex_class e = QuotaExceededError then
       (if is_long_quota_window e now then QUOTA_EXHAUSTED else RATE_LIMITED)
     else if is_rate_limit e then RATE_LIMITED
     else if ex_class e = APIError then
       (if ex_status e = Some 401 \<or> ex_status e = Some 403 then RECONNECT
        else if has_expired_token_code e then RECONNECT
        else if (case ex_status e of Some c \<Rightarrow> c \<ge> 500 | None \<Rightarrow> False) then UNAVAILABLE
        else REJECTED_SHAPE)
     else if ex_class e = OAuthError then RECONNECT
     else UNKNOWN)"

definition MAX_PASSTHROUGH_LENGTH :: nat where
  "MAX_PASSTHROUGH_LENGTH = 300"

definition PAYLOAD_MARKERS :: "string list" where
  "PAYLOAD_MARKERS = [''{'' @ [CHR 0x22], ''{'' @ [CHR 0x27]]"

definition is_user_safe :: "string \<Rightarrow> bool" where
  "is_user_safe m =
    (m \<noteq> [] \<and> length m \<le> MAX_PASSTHROUGH_LENGTH \<and> \<not> list_ex (\<lambda>k. py_contains k m) PAYLOAD_MARKERS)"

definition quota_reset_phrase :: "deadline \<Rightarrow> string \<Rightarrow> instant \<Rightarrow> string" where
  "quota_reset_phrase r verb now =
    (case r of
       NoDeadline \<Rightarrow> []
     | Malformed \<Rightarrow> []
     | At t \<Rightarrow>
        (let delta = t - now in
         if delta \<le> 0 then []
         else if delta > days 1 then
           '' '' @ verb @ '' '' @ date_text t @ '' '' @ clock_text t @ '' UTC.''
         else '' '' @ verb @ '' '' @ clock_text t @ '' UTC.''))"

definition RESUME_VERB :: string where
  "RESUME_VERB = ''We'll resume after''"

definition copy_get :: "(failure_shape \<times> string) list \<Rightarrow> failure_shape \<Rightarrow> string \<Rightarrow> string" where
  \<comment> \<open>\<open>copy.get(kind, fallback)\<close>\<close>
  "copy_get c k fallback = (case map_of c k of Some s \<Rightarrow> s | None \<Rightarrow> fallback)"

definition friendly :: "exn \<Rightarrow> (failure_shape \<times> string) list \<Rightarrow> string \<Rightarrow> instant \<Rightarrow> string" where
  "friendly e copy fallback now =
    (let message = py_strip (ex_msg e) in
     if ex_class e = PublishError \<and> is_user_safe message then message
     else
       let kind = classify e now;
           txt = copy_get copy kind fallback
       in if kind = QUOTA_EXHAUSTED
          then txt @ quota_reset_phrase (attr_resets e) RESUME_VERB now
          else txt)"

definition friendly_health_check_error :: "exn \<Rightarrow> instant \<Rightarrow> string" where
  "friendly_health_check_error e now =
    friendly e
      [(RECONNECT, RECONNECT_MESSAGE), (RATE_LIMITED, RATE_LIMIT_MESSAGE),
       (QUOTA_EXHAUSTED, QUOTA_EXHAUSTED_MESSAGE), (UNAVAILABLE, PLATFORM_UNAVAILABLE_MESSAGE)]
      GENERIC_MESSAGE now"

definition friendly_first_comment_error :: "exn \<Rightarrow> instant \<Rightarrow> string" where
  "friendly_first_comment_error e now =
    friendly e
      [(QUOTA_EXHAUSTED, FIRST_COMMENT_QUOTA_EXHAUSTED_MESSAGE),
       (RECONNECT, FIRST_COMMENT_RECONNECT_MESSAGE),
       (RATE_LIMITED, FIRST_COMMENT_TEMPORARY_MESSAGE),
       (UNAVAILABLE, FIRST_COMMENT_TEMPORARY_MESSAGE),
       (REJECTED_SHAPE, FIRST_COMMENT_REJECTED_MESSAGE)]
      FIRST_COMMENT_GENERIC_MESSAGE now"

record webhook_failure =
  wf_message :: string
  wf_needs_reconnect :: bool

definition classify_webhook_failure :: "exn \<Rightarrow> instant \<Rightarrow> webhook_failure" where
  "classify_webhook_failure e now =
    (let kind = classify e now;
         message = copy_get
           [(RECONNECT, WEBHOOK_RECONNECT_MESSAGE), (RATE_LIMITED, WEBHOOK_TEMPORARY_MESSAGE),
            (QUOTA_EXHAUSTED, WEBHOOK_TEMPORARY_MESSAGE), (UNAVAILABLE, WEBHOOK_TEMPORARY_MESSAGE),
            (REJECTED_SHAPE, WEBHOOK_REJECTED_MESSAGE)] kind WEBHOOK_GENERIC_MESSAGE
     in \<lparr>wf_message = message, wf_needs_reconnect = (kind = RECONNECT)\<rparr>)"

definition friendly_publish_error :: "exn \<Rightarrow> instant \<Rightarrow> string" where
  "friendly_publish_error e now =
    friendly e
      [(RECONNECT, PUBLISH_RECONNECT_MESSAGE), (RATE_LIMITED, PUBLISH_RATE_LIMIT_MESSAGE),
       (QUOTA_EXHAUSTED, PUBLISH_QUOTA_EXHAUSTED_MESSAGE), (UNAVAILABLE, PUBLISH_TEMPORARY_MESSAGE),
       (REJECTED_SHAPE, PUBLISH_REJECTED_MESSAGE)]
      PUBLISH_GENERIC_MESSAGE now"

definition is_credential_rejection :: "exn \<Rightarrow> bool" where
  "is_credential_rejection e =
    (if ex_class e = TokenExpiredError \<or> ex_class e = OAuthError then True
     else if ex_class e = APIError then ex_status e = Some 401 \<or> has_expired_token_code e
     else False)"

definition SUPERSEDED_WHEN_EXHAUSTED :: "string list" where
  "SUPERSEDED_WHEN_EXHAUSTED =
    [PUBLISH_TEMPORARY_MESSAGE, PUBLISH_RATE_LIMIT_MESSAGE, PUBLISH_GENERIC_MESSAGE,
     PUBLISH_RECONNECT_MESSAGE]"

definition exhausted_publish_message :: "string \<Rightarrow> string" where
  "exhausted_publish_message m =
    (if m = [] \<or> m \<in> set SUPERSEDED_WHEN_EXHAUSTED then PUBLISH_EXHAUSTED_MESSAGE
     else if py_startswith m PUBLISH_QUOTA_EXHAUSTED_MESSAGE then PUBLISH_QUOTA_EXHAUSTED_MESSAGE
     else m)"

definition quota_connect_error :: "exn \<Rightarrow> instant \<Rightarrow> string" where
  "quota_connect_error e now =
    py_or (attr_platform e) ''The platform'' @
    (if is_long_quota_window e now
     then '''s daily API limit is used up, so the account couldn't be connected.''
     else '' is temporarily rate-limited, so the account couldn't be connected.'') @
    quota_reset_phrase (attr_resets e) ''Try again after'' now"

definition quota_blocked_message :: "string \<Rightarrow> instant \<Rightarrow> instant \<Rightarrow> string" where
  "quota_blocked_message platform blocked_until now =
    (let label = py_or (py_title (py_replace_char (CHR ''_'') (CHR '' '') platform)) ''The platform'';
         is_daily = (blocked_until \<le> now \<or> is_long_window (At blocked_until) now)
     in label @
        (if is_daily then '''s daily API limit is used up, so syncing is paused.''
         else '' is temporarily rate-limited, so syncing is paused.'') @
        quota_reset_phrase (At blocked_until) RESUME_VERB now)"

section \<open>Lemmas\<close>

lemmas publish_copy_defs =
  PUBLISH_TEMPORARY_MESSAGE_def PUBLISH_RATE_LIMIT_MESSAGE_def PUBLISH_GENERIC_MESSAGE_def
  PUBLISH_RECONNECT_MESSAGE_def PUBLISH_QUOTA_EXHAUSTED_MESSAGE_def PUBLISH_EXHAUSTED_MESSAGE_def

lemma user_safe_Nil [simp]: "\<not> is_user_safe []"
  by (simp add: is_user_safe_def)

lemma py_strip_Nil [simp]: "py_strip [] = []"
  by (simp add: py_strip_def)

lemma classify_msg [simp]: "classify (e\<lparr>ex_msg := m\<rparr>) now = classify e now"
  by (simp add: classify_def is_rate_limit_def has_expired_token_code_def is_long_quota_window_def
      attr_resets_def)

lemma attr_resets_msg [simp]: "attr_resets (e\<lparr>ex_msg := m\<rparr>) = attr_resets e"
  by (simp add: attr_resets_def)

lemma friendly_cases:
  "friendly e c fb now =
    (if ex_class e = PublishError \<and> is_user_safe (py_strip (ex_msg e)) then py_strip (ex_msg e)
     else friendly (e\<lparr>ex_msg := []\<rparr>) c fb now)"
  by (simp add: friendly_def Let_def)

lemma exhausted_not_superseded:
  "PUBLISH_EXHAUSTED_MESSAGE \<notin> set SUPERSEDED_WHEN_EXHAUSTED"
  "PUBLISH_QUOTA_EXHAUSTED_MESSAGE \<notin> set SUPERSEDED_WHEN_EXHAUSTED"
  "PUBLISH_EXHAUSTED_MESSAGE \<noteq> []" "PUBLISH_QUOTA_EXHAUSTED_MESSAGE \<noteq> []"
  by (simp_all add: SUPERSEDED_WHEN_EXHAUSTED_def publish_copy_defs)

lemma exhausted_copy_no_quota: "\<not> py_startswith PUBLISH_EXHAUSTED_MESSAGE PUBLISH_QUOTA_EXHAUSTED_MESSAGE"
  by (simp add: py_startswith_def publish_copy_defs)

lemma exhausted_outcome:
  "exhausted_publish_message m \<notin> set SUPERSEDED_WHEN_EXHAUSTED \<and> exhausted_publish_message m \<noteq> []"
  by (simp add: exhausted_publish_message_def exhausted_not_superseded)

lemma exhausted_idem: "exhausted_publish_message (exhausted_publish_message m) = exhausted_publish_message m"
  by (simp add: exhausted_publish_message_def exhausted_not_superseded exhausted_copy_no_quota)

section \<open>Properties\<close>

text \<open>
  What a failed publish shows the user never depends on the provider's raw message, except
  for a \<open>PublishError\<close> whose message is short prose: every other failure reads the same
  whatever response body the exception carries.
\<close>

theorem friendly_publish_hides_body:
  "friendly_publish_error e now =
    (if ex_class e = PublishError \<and> is_user_safe (py_strip (ex_msg e)) then py_strip (ex_msg e)
     else friendly_publish_error (e\<lparr>ex_msg := []\<rparr>) now)"
  unfolding friendly_publish_error_def by (rule friendly_cases)

text \<open>
  Once the retry budget is spent, the sentence a post keeps never promises another attempt:
  it is not one of the retry promises, never the quota copy with its resume hour, it is stable
  under a second exhaustion, and a specific message survives unchanged.
\<close>

theorem exhausted_message_keeps_no_promise:
  "exhausted_publish_message m \<notin> set SUPERSEDED_WHEN_EXHAUSTED \<and>
   exhausted_publish_message m \<noteq> [] \<and>
   exhausted_publish_message (exhausted_publish_message m) = exhausted_publish_message m \<and>
   exhausted_publish_message (PUBLISH_QUOTA_EXHAUSTED_MESSAGE @ quota_reset_phrase r v now)
     = PUBLISH_QUOTA_EXHAUSTED_MESSAGE \<and>
   exhausted_publish_message m \<in> {m, PUBLISH_EXHAUSTED_MESSAGE, PUBLISH_QUOTA_EXHAUSTED_MESSAGE}"
proof -
  have q: "PUBLISH_QUOTA_EXHAUSTED_MESSAGE @ t \<notin> set SUPERSEDED_WHEN_EXHAUSTED" for t
    by (simp add: SUPERSEDED_WHEN_EXHAUSTED_def publish_copy_defs)
  have "exhausted_publish_message (PUBLISH_QUOTA_EXHAUSTED_MESSAGE @ quota_reset_phrase r v now)
      = PUBLISH_QUOTA_EXHAUSTED_MESSAGE"
    using q exhausted_not_superseded by (simp add: exhausted_publish_message_def)
  moreover have "exhausted_publish_message m
      \<in> {m, PUBLISH_EXHAUSTED_MESSAGE, PUBLISH_QUOTA_EXHAUSTED_MESSAGE}"
    by (simp add: exhausted_publish_message_def)
  ultimately show ?thesis using exhausted_outcome exhausted_idem by blast
qed

text \<open>
  A failure the engine stops retrying because the credentials were refused is always one
  whose user-facing advice is to reconnect, on the webhook card too.
\<close>

theorem credential_rejection_advises_reconnect:
  assumes "is_credential_rejection e"
  shows "classify e now = RECONNECT \<and> wf_needs_reconnect (classify_webhook_failure e now)"
  using assms
  by (auto simp: is_credential_rejection_def classify_def classify_webhook_failure_def Let_def
      is_rate_limit_def split: if_splits)

definition sample_exn :: exn where
  "sample_exn = \<lparr>ex_class = APIError, ex_msg = ''boom'', ex_platform = ''Pinterest'', ex_raw = JNull,
     ex_retryable = True, ex_status = Some 401, ex_retry_after = None, ex_resets = NoDeadline\<rparr>"

theorem credential_rejection_advises_reconnect_witness:
  "is_credential_rejection sample_exn \<and> classify sample_exn 0 = RECONNECT"
proof -
  have h: "is_credential_rejection sample_exn"
    by (simp add: is_credential_rejection_def sample_exn_def)
  show ?thesis using h credential_rejection_advises_reconnect [OF h, of 0] by simp
qed

end
