(* ===== verification/Providers.thy ===== *)
theory Providers
  imports Entities Provider_Errors
begin

text \<open>
  What the rest of the program knows about a platform without calling it: the provider registry
  with the post types each provider class declares (\<open>providers/*.py\<close>), the two facts derived
  from it, the caption escaping of LinkedIn with the length rule that mirrors it, and the
  per-platform configuration of \<open>SocialAccount\<close>. The network calls of the providers are
  parameters of the components that make them.
\<close>

section \<open>Post types and the registry\<close>

datatype post_type =
    PT_TEXT | PT_IMAGE | PT_VIDEO | PT_CAROUSEL | PT_STORY | PT_REEL | PT_LINK | PT_ARTICLE
  | PT_POLL | PT_PIN | PT_SHORT

fun post_type_value :: "post_type \<Rightarrow> string" where
  "post_type_value PT_TEXT = ''text''"
| "post_type_value PT_IMAGE = ''image''"
| "post_type_value PT_VIDEO = ''video''"
| "post_type_value PT_CAROUSEL = ''carousel''"
| "post_type_value PT_STORY = ''story''"
| "post_type_value PT_REEL = ''reel''"
| "post_type_value PT_LINK = ''link''"
| "post_type_value PT_ARTICLE = ''article''"
| "post_type_value PT_POLL = ''poll''"
| "post_type_value PT_PIN = ''pin''"
| "post_type_value PT_SHORT = ''short''"

definition ALL_POST_TYPES :: "post_type list" where
  "ALL_POST_TYPES = [PT_TEXT, PT_IMAGE, PT_VIDEO, PT_CAROUSEL, PT_STORY, PT_REEL, PT_LINK,
     PT_ARTICLE, PT_POLL, PT_PIN, PT_SHORT]"

definition post_type_of :: "string \<Rightarrow> post_type option" where
  \<comment> \<open>\<open>PostType(value)\<close>, \<open>None\<close> where it raises\<close>
  "post_type_of v = find (\<lambda>t. post_type_value t = v) ALL_POST_TYPES"

text \<open>The part of a provider class the engine reads: its metadata properties.\<close>

record provider_spec =
  ps_post_types :: "post_type list"
  ps_needs_local_media :: bool
  ps_async :: bool
  ps_can_find_comment :: bool

definition base_provider :: "post_type list \<Rightarrow> provider_spec" where
  \<comment> \<open>the defaults of \<open>SocialProvider\<close>\<close>
  "base_provider ts =
    \<lparr>ps_post_types = ts, ps_needs_local_media = True, ps_async = False, ps_can_find_comment = False\<rparr>"

definition facebook_provider :: provider_spec where
  "facebook_provider = (base_provider [PT_TEXT, PT_IMAGE, PT_VIDEO, PT_REEL, PT_LINK])
     \<lparr>ps_needs_local_media := False, ps_can_find_comment := True\<rparr>"

definition instagram_provider :: provider_spec where
  "instagram_provider = (base_provider [PT_IMAGE, PT_VIDEO, PT_CAROUSEL, PT_REEL, PT_STORY])
     \<lparr>ps_needs_local_media := False, ps_can_find_comment := True\<rparr>"

definition instagram_login_provider :: provider_spec where
  "instagram_login_provider = (base_provider [PT_IMAGE, PT_VIDEO, PT_CAROUSEL, PT_REEL, PT_STORY])
     \<lparr>ps_needs_local_media := False, ps_can_find_comment := True\<rparr>"

definition linkedin_provider :: provider_spec where
  "linkedin_provider = base_provider [PT_TEXT, PT_IMAGE, PT_VIDEO, PT_LINK, PT_ARTICLE, PT_POLL]"

definition tiktok_provider :: provider_spec where
  "tiktok_provider = (base_provider [PT_VIDEO])\<lparr>ps_async := True\<rparr>"

definition youtube_provider :: provider_spec where
  "youtube_provider = base_provider [PT_VIDEO, PT_SHORT]"

definition pinterest_provider :: provider_spec where
  "pinterest_provider = base_provider [PT_PIN]"

definition threads_provider :: provider_spec where
  "threads_provider = (base_provider [PT_TEXT, PT_IMAGE, PT_VIDEO, PT_CAROUSEL])
     \<lparr>ps_needs_local_media := False\<rparr>"

definition bluesky_provider :: provider_spec where
  "bluesky_provider = base_provider [PT_TEXT, PT_IMAGE, PT_VIDEO]"

definition google_business_provider :: provider_spec where
  "google_business_provider = (base_provider [PT_TEXT, PT_IMAGE])\<lparr>ps_needs_local_media := False\<rparr>"

definition mastodon_provider :: provider_spec where
  "mastodon_provider = base_provider [PT_TEXT, PT_IMAGE, PT_VIDEO, PT_POLL]"

definition devto_provider :: provider_spec where
  "devto_provider = (base_provider [PT_ARTICLE, PT_TEXT, PT_LINK])\<lparr>ps_needs_local_media := False\<rparr>"

definition PROVIDER_REGISTRY :: "(string \<times> provider_spec) list" where
  "PROVIDER_REGISTRY =
    [(''facebook'', facebook_provider),
     (''instagram'', instagram_provider),
     (''instagram_login'', instagram_login_provider),
     (''linkedin_personal'', linkedin_provider),
     (''linkedin_company'', linkedin_provider),
     (''tiktok'', tiktok_provider),
     (''youtube'', youtube_provider),
     (''pinterest'', pinterest_provider),
     (''threads'', threads_provider),
     (''bluesky'', bluesky_provider),
     (''google_business'', google_business_provider),
     (''mastodon'', mastodon_provider),
     (''devto'', devto_provider)]"

definition VIDEO_POST_TYPES :: "post_type list" where
  "VIDEO_POST_TYPES = [PT_VIDEO, PT_SHORT]"

definition spec_video_only :: "provider_spec \<Rightarrow> bool" where
  \<comment> \<open>\<open>set(provider.supported_post_types) <= VIDEO_POST_TYPES\<close>\<close>
  "spec_video_only s = list_all (\<lambda>t. t \<in> set VIDEO_POST_TYPES) (ps_post_types s)"

definition is_video_only :: "string \<Rightarrow> bool" where
  "is_video_only platform =
    (case map_of PROVIDER_REGISTRY platform of None \<Rightarrow> False | Some s \<Rightarrow> spec_video_only s)"

definition requires_media :: "string \<Rightarrow> bool" where
  "requires_media platform =
    (case map_of PROVIDER_REGISTRY platform of None \<Rightarrow> False
     | Some s \<Rightarrow> PT_TEXT \<notin> set (ps_post_types s))"

definition get_provider :: "string \<Rightarrow> exn + provider_spec" where
  "get_provider platform =
    (case map_of PROVIDER_REGISTRY platform of
       None \<Rightarrow> Inl \<lparr>ex_class = OtherException, ex_msg = ''No provider registered for platform: '' @ platform,
                  ex_platform = [], ex_raw = JNull, ex_retryable = True, ex_status = None,
                  ex_retry_after = None, ex_resets = NoDeadline\<rparr>
     | Some s \<Rightarrow> Inr s)"

section \<open>Caption escaping\<close>

definition BACKSLASH :: char where
  "BACKSLASH = CHR 0x5C"

definition LINKEDIN_RESERVED_CHARS :: string where
  "LINKEDIN_RESERVED_CHARS = ''|{}@[]()<>#*_~''"

definition escape_char :: "char \<Rightarrow> string \<Rightarrow> string" where
  \<comment> \<open>\<open>s.replace(ch, "\" + ch)\<close>\<close>
  "escape_char ch s = concat (map (\<lambda>c. if c = ch then [BACKSLASH, ch] else [c]) s)"

definition escape_commentary :: "string \<Rightarrow> string" where
  "escape_commentary txt =
    (if txt = [] then txt
     else foldl (\<lambda>escaped ch. escape_char ch escaped) (escape_char BACKSLASH txt)
            LINKEDIN_RESERVED_CHARS)"

definition CAPTION_ESCAPED_CHARS :: "(string \<times> string) list" where
  "CAPTION_ESCAPED_CHARS =
    [(''linkedin_personal'', BACKSLASH # LINKEDIN_RESERVED_CHARS),
     (''linkedin_company'', BACKSLASH # LINKEDIN_RESERVED_CHARS)]"

definition caption_wire_length :: "string \<Rightarrow> string \<Rightarrow> nat" where
  "caption_wire_length platform txt =
    (case map_of CAPTION_ESCAPED_CHARS platform of
       None \<Rightarrow> length txt
     | Some escaped \<Rightarrow>
         if escaped = [] then length txt
         else length txt + sum_list (map (\<lambda>ch. count_list txt ch) escaped))"

section \<open>Social accounts\<close>

definition platform_display :: "string \<Rightarrow> string" where
  \<comment> \<open>\<open>get_platform_display()\<close>: the label of \<open>PlatformCredential.Platform\<close>\<close>
  "platform_display p =
    (case map_of
       [(''facebook'', ''Facebook''), (''instagram'', ''Instagram''),
        (''instagram_login'', ''Instagram (Direct)''),
        (''linkedin_personal'', ''LinkedIn (Personal Profile)''),
        (''linkedin_company'', ''LinkedIn (Company Page)''), (''tiktok'', ''TikTok''),
        (''youtube'', ''YouTube''), (''pinterest'', ''Pinterest''), (''threads'', ''Threads''),
        (''bluesky'', ''Bluesky''), (''google_business'', ''Google Business Profile''),
        (''mastodon'', ''Mastodon''), (''devto'', ''DEV.to'')] p of
       Some l \<Rightarrow> l | None \<Rightarrow> p)"

definition token_expires_within :: "instant \<Rightarrow> social_account \<Rightarrow> int \<Rightarrow> bool" where
  "token_expires_within now a window =
    (case sa_token_expires_at a of None \<Rightarrow> False | Some t \<Rightarrow> t < now + window)"

definition needs_reconnect :: "social_account \<Rightarrow> bool" where
  "needs_reconnect a = (sa_connection a = DISCONNECTED \<or> sa_connection a = CONN_ERROR)"

record oauth_tokens =
  ot_access :: string
  ot_refresh :: "string option"
  ot_expires_in :: "int option"

definition refresh_oauth_token ::
  "instant \<Rightarrow> (string \<Rightarrow> exn + oauth_tokens) \<Rightarrow> social_account \<Rightarrow> exn + (string \<times> social_account)" where
  \<comment> \<open>the provider's \<open>refresh_token\<close> is the parameter; the second component is the saved row\<close>
  "refresh_oauth_token now provider_refresh a =
    (case provider_refresh (sa_refresh_token a) of
       Inl e \<Rightarrow> Inl e
     | Inr nt \<Rightarrow>
        (let a1 = a\<lparr>sa_access_token := ot_access nt\<rparr>;
             a2 = (case ot_refresh nt of
                     Some r \<Rightarrow> if r = [] then a1 else a1\<lparr>sa_refresh_token := r\<rparr>
                   | None \<Rightarrow> a1);
             a3 = (case ot_expires_in nt of
                     Some n \<Rightarrow> if n = 0 then a2
                               else a2\<lparr>sa_token_expires_at := Some (now + seconds n)\<rparr>
                   | None \<Rightarrow> a2)
         in Inr (ot_access nt, a3\<lparr>sa_connection := CONNECTED\<rparr>)))"

definition PLATFORM_CHAR_LIMITS :: "(string \<times> nat) list" where
  "PLATFORM_CHAR_LIMITS =
    [(''facebook'', 63206), (''instagram'', 2200), (''instagram_login'', 2200),
     (''linkedin_personal'', 3000), (''linkedin_company'', 3000), (''tiktok'', 2200),
     (''youtube'', 5000), (''pinterest'', 500), (''threads'', 500), (''bluesky'', 300),
     (''google_business'', 1500), (''mastodon'', 500), (''devto'', 25000)]"

definition char_limit :: "social_account \<Rightarrow> nat" where
  "char_limit a =
    (case map_of PLATFORM_CHAR_LIMITS (sa_platform a) of Some n \<Rightarrow> n | None \<Rightarrow> 2200)"

definition NO_FIRST_COMMENT :: "string list" where
  \<comment> \<open>the platforms whose \<open>PLATFORM_FIELD_CONFIG\<close> sets \<open>supports_first_comment\<close> to \<open>False\<close>\<close>
  "NO_FIRST_COMMENT = [''pinterest'', ''tiktok'', ''bluesky'', ''google_business'', ''devto'']"

definition supports_first_comment :: "(social_account \<Rightarrow> pydict) \<Rightarrow> social_account \<Rightarrow> bool" where
  \<comment> \<open>the parameter is \<open>_resolve_publish_credentials\<close>\<close>
  "supports_first_comment resolve a =
    (if sa_platform a \<in> set NO_FIRST_COMMENT then False
     else if sa_platform a = ''linkedin_personal'' then
       (if dict_has ''_oauth_mode'' (resolve a) then
          dict_get ''_oauth_mode'' (resolve a) \<noteq> JStr ''oidc''
        else False)
     else True)"

definition revocation_token :: "social_account \<Rightarrow> string" where
  "revocation_token a =
    (if sa_platform a \<in> {''youtube'', ''google_business''} \<and> sa_refresh_token a \<noteq> []
     then sa_refresh_token a else sa_access_token a)"

section \<open>Settings cascade\<close>

text \<open>
  \<open>apps/settings_manager/helpers.py\<close>. A settings table maps a scope and a key to a JSON value,
  which may be \<open>null\<close>; \<open>dflt\<close> is \<open>None\<close> where the caller passes none (\<open>_UNSET\<close>).
\<close>

definition get_setting ::
  "(nat \<Rightarrow> string \<Rightarrow> json option) \<Rightarrow> (nat \<Rightarrow> string \<Rightarrow> json option) \<Rightarrow> (nat \<Rightarrow> nat option) \<Rightarrow>
   (string \<Rightarrow> json) \<Rightarrow> nat \<Rightarrow> string \<Rightarrow> nat option \<Rightarrow> json option \<Rightarrow> json" where
  "get_setting ws_setting org_setting org_of app_default workspace_id key workspace_org dflt =
    (let fallback = (case dflt of None \<Rightarrow> app_default key | Some v \<Rightarrow> v);
         after_ws = (\<lambda>_::unit.
           case (case workspace_org of Some i \<Rightarrow> Some i | None \<Rightarrow> org_of workspace_id) of
             None \<Rightarrow> fallback
           | Some i \<Rightarrow> (case org_setting i key of Some v \<Rightarrow> v | None \<Rightarrow> fallback))
     in case ws_setting workspace_id key of
          Some v \<Rightarrow> if v \<noteq> JNull then v else after_ws ()
        | None \<Rightarrow> after_ws ())"

section \<open>Lemmas\<close>

lemmas provider_defs = base_provider_def facebook_provider_def instagram_provider_def
  instagram_login_provider_def linkedin_provider_def tiktok_provider_def youtube_provider_def
  pinterest_provider_def threads_provider_def bluesky_provider_def google_business_provider_def
  mastodon_provider_def devto_provider_def

lemma is_video_only_iff: "is_video_only p \<longleftrightarrow> p = ''tiktok'' \<or> p = ''youtube''"
  by (simp add: is_video_only_def PROVIDER_REGISTRY_def spec_video_only_def VIDEO_POST_TYPES_def
      provider_defs)

lemma requires_media_iff:
  "requires_media p \<longleftrightarrow>
    p \<in> {''instagram'', ''instagram_login'', ''tiktok'', ''youtube'', ''pinterest''}"
  by (simp add: requires_media_def PROVIDER_REGISTRY_def provider_defs)

lemma async_iff: "get_provider p = Inr s \<Longrightarrow> ps_async s \<longleftrightarrow> p = ''tiktok''"
  by (auto simp: get_provider_def PROVIDER_REGISTRY_def provider_defs split: if_splits)

lemma post_type_of_value [simp]: "post_type_of (post_type_value t) = Some t"
  by (cases t) (simp_all add: post_type_of_def ALL_POST_TYPES_def)

lemma post_type_of_Some: "post_type_of v = Some t \<Longrightarrow> post_type_value t = v"
  by (auto simp: post_type_of_def find_Some_iff)

text \<open>Escaping characters one after another is escaping them all in one pass.\<close>

definition escape_all :: "char set \<Rightarrow> string \<Rightarrow> string" where
  "escape_all R s = concat (map (\<lambda>c. if c \<in> R then [BACKSLASH, c] else [c]) s)"

lemma escape_char_append: "escape_char ch (s @ t) = escape_char ch s @ escape_char ch t"
  by (simp add: escape_char_def)

lemma escape_char_all:
  assumes "ch \<noteq> BACKSLASH" and "ch \<notin> R"
  shows "escape_char ch (escape_all R s) = escape_all (insert ch R) s"
proof (induction s)
  case Nil
  then show ?case by (simp add: escape_all_def escape_char_def)
next
  case (Cons c s)
  have "escape_all R (c # s) = (if c \<in> R then [BACKSLASH, c] else [c]) @ escape_all R s"
    by (simp add: escape_all_def)
  moreover have "escape_char ch (if c \<in> R then [BACKSLASH, c] else [c]) =
      (if c \<in> insert ch R then [BACKSLASH, c] else [c])"
    using assms by (auto simp: escape_char_def)
  ultimately have "escape_char ch (escape_all R (c # s)) =
      (if c \<in> insert ch R then [BACKSLASH, c] else [c]) @ escape_all (insert ch R) s"
    by (simp only: escape_char_append Cons.IH)
  also have "\<dots> = escape_all (insert ch R) (c # s)"
    by (simp add: escape_all_def)
  finally show ?case .
qed

lemma escape_fold_all:
  assumes "distinct cs" and "BACKSLASH \<notin> set cs" and "set cs \<inter> R = {}"
  shows "foldl (\<lambda>e ch. escape_char ch e) (escape_all R s) cs = escape_all (set cs \<union> R) s"
  using assms
proof (induction cs arbitrary: R)
  case Nil
  then show ?case by simp
next
  case (Cons c cs)
  have step: "escape_char c (escape_all R s) = escape_all (insert c R) s"
    by (rule escape_char_all) (use Cons.prems in auto)
  have "foldl (\<lambda>e ch. escape_char ch e) (escape_all R s) (c # cs) =
      foldl (\<lambda>e ch. escape_char ch e) (escape_all (insert c R) s) cs"
    by (simp add: step)
  also have "\<dots> = escape_all (set cs \<union> insert c R) s"
    using Cons.prems by (intro Cons.IH) auto
  finally show ?case by simp
qed

lemma linkedin_chars: "distinct LINKEDIN_RESERVED_CHARS" "BACKSLASH \<notin> set LINKEDIN_RESERVED_CHARS"
  by (simp_all add: LINKEDIN_RESERVED_CHARS_def BACKSLASH_def)

lemma escape_commentary_all:
  "escape_commentary s = escape_all (insert BACKSLASH (set LINKEDIN_RESERVED_CHARS)) s"
proof -
  have "escape_char BACKSLASH s = escape_all {BACKSLASH} s"
    by (simp add: escape_char_def escape_all_def cong: map_cong)
      (rule arg_cong [where f = concat], simp)
  moreover have "escape_all R [] = []" for R by (simp add: escape_all_def)
  ultimately show ?thesis
    using escape_fold_all [of LINKEDIN_RESERVED_CHARS "{BACKSLASH}" s] linkedin_chars
    by (simp add: escape_commentary_def)
qed

lemma count_list_sum_set:
  "distinct cs \<Longrightarrow> sum_list (map (\<lambda>ch. count_list s ch) cs) = length (filter (\<lambda>c. c \<in> set cs) s)"
proof (induction s)
  case Nil
  then show ?case by simp
next
  case (Cons c s)
  have "sum_list (map (\<lambda>ch. count_list (c # s) ch) cs) =
      sum_list (map (\<lambda>ch. count_list s ch + (if ch = c then 1 else 0)) cs)"
    by (rule arg_cong [where f = sum_list]) auto
  also have "\<dots> = sum_list (map (\<lambda>ch. count_list s ch) cs) + sum_list (map (\<lambda>ch. if ch = c then 1 else 0) cs)"
    by (rule sum_list_addf)
  also have "sum_list (map (\<lambda>ch. if ch = c then 1 else 0) cs) = (if c \<in> set cs then 1 else (0::nat))"
    using Cons.prems by (induction cs) auto
  finally show ?case using Cons by simp
qed

lemma length_escape_all: "length (escape_all R s) = length s + length (filter (\<lambda>c. c \<in> R) s)"
  by (induction s) (auto simp: escape_all_def)

section \<open>Properties\<close>

text \<open>
  The composer's counter and the published payload agree: on both LinkedIn platforms the wire
  length of a caption is the length of the text \<open>escape_commentary\<close> sends, so a caption shown as
  within the limit is not rejected for its escaping.
\<close>

theorem wire_length_is_published_length:
  assumes "platform = ''linkedin_personal'' \<or> platform = ''linkedin_company''"
  shows "caption_wire_length platform txt = length (escape_commentary txt)"
proof -
  let ?cs = "BACKSLASH # LINKEDIN_RESERVED_CHARS"
  have "caption_wire_length platform txt = length txt + sum_list (map (\<lambda>ch. count_list txt ch) ?cs)"
    using assms by (auto simp: caption_wire_length_def CAPTION_ESCAPED_CHARS_def)
  also have "\<dots> = length txt + length (filter (\<lambda>c. c \<in> set ?cs) txt)"
    using linkedin_chars by (subst count_list_sum_set) simp_all
  finally show ?thesis by (simp only: escape_commentary_all length_escape_all list.set)
qed

theorem wire_length_is_published_length_witness:
  "caption_wire_length ''linkedin_company'' ''repo (durable)'' = 16"
proof -
  have "caption_wire_length ''linkedin_company'' ''repo (durable)''
      = length (escape_commentary ''repo (durable)'')"
    by (rule wire_length_is_published_length) simp
  then show ?thesis
    by (simp add: escape_commentary_all escape_all_def LINKEDIN_RESERVED_CHARS_def BACKSLASH_def)
qed

end
