(* ===== verification/Composer.thy ===== *)
theory Composer
  imports Post_Status Providers
begin

text \<open>
  \<open>apps/composer/services.py\<close>: creating, transitioning and cloning posts, the scheduled-time
  aggregate kept on the parent post, and the one statement of what makes a post impossible to
  publish (\<open>publish_blocker\<close>) with the guards built on it.
\<close>

datatype composer_error =
    BadInitialStatus string
  | ScheduledAtRequired
  | AccountNotInWorkspace nat nat
  | AccountNeedsReconnect nat
  | ApprovalRequired
  | MediaNotFound nat "nat option list"
  | NotPublishable string
  | DuplicateMedia
  | BadTransition transition_error

section \<open>The parent's scheduled time\<close>

fun somes :: "'a option list \<Rightarrow> 'a list" where
  "somes [] = []"
| "somes (None # xs) = somes xs"
| "somes (Some x # xs) = x # somes xs"

definition child_times :: "nat \<Rightarrow> db \<Rightarrow> instant list" where
  "child_times i d = somes (map pp_scheduled_at (children i d))"

definition sync_post_scheduled_at :: "instant \<Rightarrow> nat \<Rightarrow> db \<Rightarrow> db" where
  "sync_post_scheduled_at now i d =
    (case get_post i d of
       None \<Rightarrow> d
     | Some po \<Rightarrow>
        (let times = child_times i d in
         if times = [] then
           (if po_scheduled_at po \<noteq> None
            then save_post (po\<lparr>po_scheduled_at := None, po_updated_at := now\<rparr>) d else d)
         else
           let earliest = Min (set times) in
           if po_scheduled_at po \<noteq> Some earliest \<or> po_proposed_at po \<noteq> None
           then save_post (po\<lparr>po_scheduled_at := Some earliest, po_proposed_at := None,
                              po_updated_at := now\<rparr>) d
           else d))"

section \<open>What a platform can only refuse\<close>

definition BLOCKING_APPROVAL_MODES :: "string list" where
  "BLOCKING_APPROVAL_MODES = [''required_internal'', ''required_internal_and_client'']"

definition approval_gate_passes :: "workspace \<Rightarrow> bool" where
  \<comment> \<open>\<open>_require_approval_gate_passes\<close> does not raise\<close>
  "approval_gate_passes w = (ws_approval_mode w \<notin> set BLOCKING_APPROVAL_MODES)"

definition usable_media_types :: "media_asset list \<Rightarrow> string set" where
  "usable_media_types assets = set (map ma_media_type (filter (\<lambda>a. ma_file a \<noteq> []) assets))"

definition usable_attachments :: "db \<Rightarrow> (post_media \<times> media_asset) list" where
  \<comment> \<open>\<open>PostMedia.objects.exclude(media_asset__file="")\<close>, joined with the asset\<close>
  "usable_attachments d =
    concat (map (\<lambda>pm. case get_asset (pm_asset pm) d of
                        Some a \<Rightarrow> if ma_file a \<noteq> [] then [(pm, a)] else []
                      | None \<Rightarrow> []) (db_media d))"

definition post_media_types :: "nat \<Rightarrow> nat option \<Rightarrow> db \<Rightarrow> string set" where
  "post_media_types i excluding d =
    set (map (\<lambda>(pm, a). ma_media_type a)
      (filter (\<lambda>(pm, a). pm_post pm = i \<and> Some (pm_id pm) \<noteq> excluding) (usable_attachments d)))"

definition media_types_by_post :: "nat list \<Rightarrow> db \<Rightarrow> nat \<Rightarrow> string set" where
  "media_types_by_post ids d i =
    (if i \<in> set ids then
       set (map (\<lambda>(pm, a). ma_media_type a) (filter (\<lambda>(pm, a). pm_post pm = i) (usable_attachments d)))
     else {})"

definition media_blocker :: "social_account \<Rightarrow> string set \<Rightarrow> string" where
  "media_blocker a media_types =
    (let platform = platform_display (sa_platform a) in
     if is_video_only (sa_platform a) \<and> ''video'' \<notin> media_types then
       platform @ '' can only publish videos. Add a video to this post before scheduling it.''
     else if requires_media (sa_platform a) \<and> media_types = {} then
       platform @ '' needs an image or a video. Add one to this post before scheduling it.''
     else [])"

definition PINTEREST_BOARD_MESSAGE :: string where
  "PINTEREST_BOARD_MESSAGE =
    ''Pinterest needs a board for every pin. Choose one for this post in the composer before scheduling it.''"

definition publish_blocker :: "social_account \<Rightarrow> string set \<Rightarrow> pydict \<Rightarrow> string" where
  "publish_blocker a media_types extra =
    (let reason = media_blocker a media_types in
     if reason \<noteq> [] then reason
     else if sa_platform a = ''pinterest'' \<and> \<not> json_truthy (dict_get ''board_id'' extra)
     then PINTEREST_BOARD_MESSAGE
     else [])"

definition require_publishable :: "platform_post \<Rightarrow> string set option \<Rightarrow> db \<Rightarrow> composer_error option" where
  "require_publishable p media_types d =
    (let mt = (case media_types of Some m \<Rightarrow> m | None \<Rightarrow> post_media_types (pp_post p) None d) in
     case get_account (pp_account p) d of
       None \<Rightarrow> None
     | Some a \<Rightarrow> (let reason = publish_blocker a mt (pp_extra p) in
                if reason \<noteq> [] then Some (NotPublishable reason) else None))"

definition media_change_blocker :: "nat \<Rightarrow> string set \<Rightarrow> db \<Rightarrow> string" where
  "media_change_blocker i after d =
    (case tbl_first (\<lambda>c. pp_status c = SCHEDULED \<and>
             (case get_account (pp_account c) d of
                Some a \<Rightarrow> media_blocker a after \<noteq> [] | None \<Rightarrow> False)) (children i d) of
       None \<Rightarrow> []
     | Some c \<Rightarrow>
        (case get_account (pp_account c) d of
           None \<Rightarrow> []
         | Some a \<Rightarrow>
            (let platform = platform_display (sa_platform a);
                 need = (if is_video_only (sa_platform a) then ''a video'' else ''an image or a video'')
             in ''This post is scheduled to '' @ platform @ '', which needs '' @ need @
                '' on it. Keep one on the post, or unschedule it for '' @ platform @ '' first.'')))"

section \<open>Creating a post\<close>

record post_input =
  in_caption :: string
  in_media :: "nat option list"
  in_title :: string
  in_first_comment :: string
  in_internal_notes :: string
  in_scheduled_at :: "instant option"
  in_proposed_at :: "instant option"
  in_author :: "nat option"
  in_status :: string
  in_overrides :: "(nat \<times> (string option \<times> string option \<times> string option)) list"

text \<open>
  \<open>in_media\<close> holds each id after \<open>_to_uuid\<close>: \<open>None\<close> for one that does not parse as a UUID.
  \<open>in_overrides\<close> maps an account to its (title, caption, first comment).
\<close>

definition INITIAL_STATUSES :: "string list" where
  "INITIAL_STATUSES = [''draft'', ''scheduled'']"

definition new_platform_post :: "nat \<Rightarrow> nat \<Rightarrow> nat \<Rightarrow> instant \<Rightarrow> platform_post" where
  \<comment> \<open>the field defaults of \<open>PlatformPost\<close>\<close>
  "new_platform_post i po_key account now =
    \<lparr>pp_id = i, pp_post = po_key, pp_account = account, pp_title = None, pp_caption = None,
     pp_first_comment = None, pp_media = JNull, pp_extra = [], pp_status = DRAFT, pp_handle = [],
     pp_publish_error = [], pp_published_at = None, pp_fc_status = FC_NONE, pp_fc_id = [],
     pp_fc_error = [], pp_fc_retries = 0, pp_fc_posted_at = None, pp_scheduled_at = None,
     pp_retry_count = 0, pp_next_retry_at = None, pp_updated_at = now\<rparr>"

definition found_assets :: "nat \<Rightarrow> nat option list \<Rightarrow> db \<Rightarrow> media_asset list" where
  "found_assets w ids d =
    filter (\<lambda>a. Some (ma_id a) \<in> set ids \<and> ma_workspace a = Some w) (db_assets d)"

definition missing_assets :: "nat \<Rightarrow> nat option list \<Rightarrow> db \<Rightarrow> nat option list" where
  "missing_assets w ids d =
    filter (\<lambda>u. u = None \<or> u \<notin> set (map (\<lambda>a. Some (ma_id a)) (found_assets w ids d))) ids"

definition insert_post :: "instant \<Rightarrow> workspace \<Rightarrow> social_account \<Rightarrow> post_input \<Rightarrow> db \<Rightarrow> db \<times> nat" where
  \<comment> \<open>the body of the transaction: the post, its child and its media rows\<close>
  "insert_post now w a inp d =
    (let k = db_next d;
         sched = (if in_status inp = ''scheduled'' then in_scheduled_at inp else None);
         ov = (case map_of (in_overrides inp) (sa_id a) of Some t \<Rightarrow> t | None \<Rightarrow> (None, None, None));
         po = \<lparr>po_id = k, po_workspace = ws_id w, po_author = in_author inp,
               po_title = in_title inp, po_caption = in_caption inp,
               po_first_comment = in_first_comment inp,
               po_internal_notes = in_internal_notes inp, po_tags = [], po_category = None,
               po_scheduled_at = sched, po_published_at = None,
               po_proposed_at = in_proposed_at inp, po_updated_at = now\<rparr>;
         pp = (new_platform_post (k + 1) k (sa_id a) now)
               \<lparr>pp_status := (if in_status inp = ''scheduled'' then SCHEDULED else DRAFT),
                pp_scheduled_at := sched, pp_title := fst ov, pp_caption := fst (snd ov),
                pp_first_comment := snd (snd ov)\<rparr>;
         pms = map (\<lambda>(j, u). \<lparr>pm_id = k + 2 + j, pm_post = k, pm_asset = the u, pm_position = j,
                             pm_alt_text = [], pm_overrides = JObj []\<rparr>)
                 (enumerate 0 (in_media inp))
     in (d\<lparr>db_posts := db_posts d @ [po], db_pps := db_pps d @ [pp], db_media := db_media d @ pms,
          db_next := k + 2 + length (in_media inp)\<rparr>, k))"

definition create_post ::
  "instant \<Rightarrow> workspace \<Rightarrow> social_account \<Rightarrow> post_input \<Rightarrow> db \<Rightarrow> composer_error + (db \<times> nat)" where
  "create_post now w a inp d =
    (if in_status inp \<notin> set INITIAL_STATUSES then Inl (BadInitialStatus (in_status inp))
     else if in_status inp = ''scheduled'' \<and> in_scheduled_at inp = None then Inl ScheduledAtRequired
     else if sa_workspace a \<noteq> ws_id w then Inl (AccountNotInWorkspace (sa_id a) (ws_id w))
     else if needs_reconnect a then Inl (AccountNeedsReconnect (sa_id a))
     else if in_status inp = ''scheduled'' \<and> \<not> approval_gate_passes w then Inl ApprovalRequired
     else
       let missing = missing_assets (ws_id w) (in_media inp) d in
       if missing \<noteq> [] then Inl (MediaNotFound (ws_id w) missing)
       else
         let reason = publish_blocker a
               (usable_media_types (found_assets (ws_id w) (in_media inp) d)) [] in
         if in_status inp = ''scheduled'' \<and> reason \<noteq> [] then Inl (NotPublishable reason)
         else if \<not> distinct (in_media inp) then Inl DuplicateMedia
           \<comment> \<open>\<open>unique_together\<close> of \<open>PostMedia\<close> rolls the transaction back\<close>
         else
           let (d', k) = insert_post now w a inp d
           in Inr (sync_post_scheduled_at now k d', k))"

section \<open>Transitioning a platform post\<close>

definition save_transition :: "platform_post \<Rightarrow> bool \<Rightarrow> instant \<Rightarrow> db \<Rightarrow> db" where
  \<comment> \<open>\<open>save(update_fields=[*TRANSITION_FIELDS, "updated_at"])\<close>, with \<open>scheduled_at\<close> if asked\<close>
  "save_transition q with_time now d =
    update_pps (\<lambda>r. pp_id r = pp_id q)
      (\<lambda>r. r\<lparr>pp_status := pp_status q, pp_published_at := pp_published_at q,
             pp_handle := pp_handle q, pp_retry_count := pp_retry_count q,
             pp_next_retry_at := pp_next_retry_at q, pp_publish_error := pp_publish_error q,
             pp_scheduled_at := (if with_time then pp_scheduled_at q else pp_scheduled_at r),
             pp_updated_at := now\<rparr>) d"

definition drop_entries :: "nat \<Rightarrow> nat \<Rightarrow> db \<Rightarrow> db" where
  \<comment> \<open>\<open>QueueEntry.objects.filter(post=..., queue__social_account=...).delete()\<close>\<close>
  "drop_entries post_key account d =
    d\<lparr>db_entries := tbl_delete
      (\<lambda>e. qe_post e = post_key \<and>
           (\<exists>q \<in> set (db_queues d). qu_id q = qe_queue e \<and> qu_account q = account)) (db_entries d)\<rparr>"

definition workspace_of_post :: "nat \<Rightarrow> db \<Rightarrow> workspace option" where
  "workspace_of_post i d =
    (case get_post i d of None \<Rightarrow> None | Some po \<Rightarrow> get_workspace (po_workspace po) d)"

definition transition_platform_post ::
  "instant \<Rightarrow> platform_post \<Rightarrow> pp_state \<Rightarrow> instant option \<Rightarrow> db \<Rightarrow> composer_error + (db \<times> platform_post)" where
  "transition_platform_post now p target at d =
    (if target = SCHEDULED \<and>
        (case workspace_of_post (pp_post p) d of Some w \<Rightarrow> \<not> approval_gate_passes w | None \<Rightarrow> False)
     then Inl ApprovalRequired
     else
       case (if target = SCHEDULED then require_publishable p None d else None) of
         Some e \<Rightarrow> Inl e
       | None \<Rightarrow>
          (case transition_to now p target of
             Inl e \<Rightarrow> Inl (BadTransition e)
           | Inr q \<Rightarrow>
              (if target = SCHEDULED then
                 let q1 = (if at \<noteq> None then q\<lparr>pp_scheduled_at := at\<rparr> else q);
                     d1 = save_transition q1 (at \<noteq> None) now d
                 in Inr (sync_post_scheduled_at now (pp_post p) d1, q1)
               else if target = DRAFT then
                 let q1 = q\<lparr>pp_scheduled_at := None\<rparr>;
                     d1 = drop_entries (pp_post p) (pp_account p) d;
                     d2 = save_transition q1 (pp_scheduled_at q \<noteq> None) now d1
                 in Inr (sync_post_scheduled_at now (pp_post p) d2, q1)
               else Inr (sync_post_scheduled_at now (pp_post p) (save_transition q False now d), q))))"

section \<open>Cloning\<close>

definition clone_child :: "nat \<Rightarrow> nat \<Rightarrow> instant \<Rightarrow> platform_post \<Rightarrow> platform_post" where
  "clone_child i k now p =
    (new_platform_post i k (pp_account p) now)
      \<lparr>pp_title := pp_title p, pp_caption := pp_caption p, pp_first_comment := pp_first_comment p,
       pp_media := pp_media p, pp_extra := pp_extra p\<rparr>"

definition clone_post :: "instant \<Rightarrow> post \<Rightarrow> nat option \<Rightarrow> db \<Rightarrow> db \<times> nat" where
  "clone_post now po author d =
    (let k = db_next d;
         cs = children (po_id po) d;
         ms = filter (\<lambda>pm. pm_post pm = po_id po) (db_media d);
         new = \<lparr>po_id = k, po_workspace = po_workspace po,
                po_author = (case author of Some u \<Rightarrow> Some u | None \<Rightarrow> po_author po),
                po_title = (if po_title po \<noteq> [] then ''Copy of '' @ po_title po else []),
                po_caption = po_caption po, po_first_comment = po_first_comment po,
                po_internal_notes = po_internal_notes po, po_tags = po_tags po,
                po_category = po_category po, po_scheduled_at = None, po_published_at = None,
                po_proposed_at = None, po_updated_at = now\<rparr>
     in (d\<lparr>db_posts := db_posts d @ [new],
          db_pps := db_pps d @ map (\<lambda>(j, c). clone_child (k + 1 + j) k now c) (enumerate 0 cs),
          db_media := db_media d @
            map (\<lambda>(j, pm). pm\<lparr>pm_id := k + 1 + length cs + j, pm_post := k\<rparr>) (enumerate 0 ms),
          db_next := k + 1 + length cs + length ms\<rparr>, k))"

section \<open>Lemmas\<close>

lemma set_somes: "set (somes xs) = {x. Some x \<in> set xs}"
  by (induction xs rule: somes.induct) auto

lemma somes_Nil_iff: "somes xs = [] \<longleftrightarrow> (\<forall>x \<in> set xs. x = None)"
  by (induction xs rule: somes.induct) auto

lemma set_child_times: "set (child_times i d) = {t. \<exists>c \<in> set (children i d). pp_scheduled_at c = Some t}"
  by (force simp: child_times_def set_somes)

lemma children_save_post [frame_simps]: "children i (save_post p d) = children i d"
  by (simp add: children_def save_post_def)

lemma child_times_save_post [frame_simps]: "child_times i (save_post p d) = child_times i d"
  by (simp add: child_times_def frame_simps)

lemma sync_frame [frame_simps]:
  "get_pp j (sync_post_scheduled_at now i d) = get_pp j d"
  "db_pps (sync_post_scheduled_at now i d) = db_pps d"
  "db_entries (sync_post_scheduled_at now i d) = db_entries d"
  "db_queues (sync_post_scheduled_at now i d) = db_queues d"
  "children j (sync_post_scheduled_at now i d) = children j d"
  "get_account j (sync_post_scheduled_at now i d) = get_account j d"
  by (simp_all add: sync_post_scheduled_at_def Let_def frame_simps save_post_def get_pp_def
      get_account_def children_def split: option.split)

lemma sync_child_times [frame_simps]: "child_times j (sync_post_scheduled_at now i d) = child_times j d"
  by (simp add: child_times_def frame_simps)

lemma get_post_sync:
  assumes "get_post i d = Some po"
  shows "get_post i (sync_post_scheduled_at now i d) = Some
    (if child_times i d = []
     then (if po_scheduled_at po \<noteq> None then po\<lparr>po_scheduled_at := None, po_updated_at := now\<rparr> else po)
     else (let m = Min (set (child_times i d)) in
       if po_scheduled_at po \<noteq> Some m \<or> po_proposed_at po \<noteq> None
       then po\<lparr>po_scheduled_at := Some m, po_proposed_at := None, po_updated_at := now\<rparr> else po))"
  using assms posts.get_key [OF assms]
  by (simp add: sync_post_scheduled_at_def Let_def posts.get_save)

lemma get_pp_save_transition:
  "get_pp i (save_transition q b now d) =
    (case get_pp i d of None \<Rightarrow> None
     | Some r \<Rightarrow> Some (if i = pp_id q then
         r\<lparr>pp_status := pp_status q, pp_published_at := pp_published_at q,
           pp_handle := pp_handle q, pp_retry_count := pp_retry_count q,
           pp_next_retry_at := pp_next_retry_at q, pp_publish_error := pp_publish_error q,
           pp_scheduled_at := (if b then pp_scheduled_at q else pp_scheduled_at r),
           pp_updated_at := now\<rparr> else r))"
  by (auto simp: save_transition_def get_pp_update split: option.split dest: get_pp_id)

lemma get_pp_drop_entries [frame_simps]: "get_pp i (drop_entries k a d) = get_pp i d"
  by (simp add: drop_entries_def get_pp_def)

lemma publish_blocker_Nil:
  "publish_blocker a mt extra = [] \<longleftrightarrow>
    media_blocker a mt = [] \<and> (sa_platform a = ''pinterest'' \<longrightarrow> json_truthy (dict_get ''board_id'' extra))"
  by (simp add: publish_blocker_def Let_def PINTEREST_BOARD_MESSAGE_def)

lemma media_blocker_Nil:
  "media_blocker a mt = [] \<longleftrightarrow>
    (is_video_only (sa_platform a) \<longrightarrow> ''video'' \<in> mt) \<and> (requires_media (sa_platform a) \<longrightarrow> mt \<noteq> {})"
  by (auto simp: media_blocker_def Let_def)

lemma create_post_Inr:
  assumes "create_post now w a inp d = Inr (d', k)"
  shows "in_status inp \<in> set INITIAL_STATUSES" "sa_workspace a = ws_id w" "\<not> needs_reconnect a"
    "missing_assets (ws_id w) (in_media inp) d = []" "k = db_next d"
    "d' = sync_post_scheduled_at now k (fst (insert_post now w a inp d))"
    "in_status inp = ''scheduled'' \<longrightarrow> in_scheduled_at inp \<noteq> None \<and> approval_gate_passes w \<and>
       publish_blocker a (usable_media_types (found_assets (ws_id w) (in_media inp) d)) [] = []"
  using assms
  by (auto simp: create_post_def Let_def insert_post_def split: if_splits prod.splits)

text \<open>Keys in use are below the next fresh one: what makes a created row new.\<close>

definition fresh_ok :: "db \<Rightarrow> bool" where
  "fresh_ok d \<longleftrightarrow>
    list_all (\<lambda>p. pp_id p < db_next d \<and> pp_post p < db_next d) (db_pps d) \<and>
    list_all (\<lambda>p. po_id p < db_next d) (db_posts d) \<and>
    list_all (\<lambda>e. qe_id e < db_next d) (db_entries d)"

lemma children_fresh: "fresh_ok d \<Longrightarrow> children (db_next d) d = []"
  by (auto simp: fresh_ok_def children_def filter_empty_conv list_all_iff)

lemma children_insert_post:
  assumes "fresh_ok d"
  shows "children (db_next d) (fst (insert_post now w a inp d)) =
    [(new_platform_post (db_next d + 1) (db_next d) (sa_id a) now)
       \<lparr>pp_status := (if in_status inp = ''scheduled'' then SCHEDULED else DRAFT),
        pp_scheduled_at := (if in_status inp = ''scheduled'' then in_scheduled_at inp else None),
        pp_title := fst (case map_of (in_overrides inp) (sa_id a) of Some t \<Rightarrow> t | None \<Rightarrow> (None, None, None)),
        pp_caption := fst (snd (case map_of (in_overrides inp) (sa_id a) of Some t \<Rightarrow> t | None \<Rightarrow> (None, None, None))),
        pp_first_comment := snd (snd (case map_of (in_overrides inp) (sa_id a) of Some t \<Rightarrow> t | None \<Rightarrow> (None, None, None)))\<rparr>]"
  using children_fresh [OF assms]
  by (simp add: insert_post_def Let_def children_def new_platform_post_def)

section \<open>Properties\<close>

text \<open>
  A post created as scheduled is one the publisher will not refuse for a reason known in
  advance: the approval gate passes, the account is connected and in the workspace, the media
  the platform needs is there, and exactly one child exists, scheduled at the requested time.
\<close>

theorem create_post_scheduled_is_publishable:
  assumes "create_post now w a inp d = Inr (d', k)" and "in_status inp = ''scheduled''"
    and "fresh_ok d"
  shows "approval_gate_passes w \<and> \<not> needs_reconnect a \<and> sa_workspace a = ws_id w \<and>
    publish_blocker a (usable_media_types (found_assets (ws_id w) (in_media inp) d)) [] = [] \<and>
    map (\<lambda>c. (pp_account c, pp_status c, pp_scheduled_at c)) (children k d')
      = [(sa_id a, SCHEDULED, in_scheduled_at inp)] \<and> in_scheduled_at inp \<noteq> None"
proof -
  have c: "children k d' = children (db_next d) (fst (insert_post now w a inp d))"
    using create_post_Inr [OF assms(1)] by (simp add: frame_simps)
  have "map (\<lambda>c. (pp_account c, pp_status c, pp_scheduled_at c)) (children k d')
      = [(sa_id a, SCHEDULED, in_scheduled_at inp)]"
    unfolding c children_insert_post [OF assms(3)] by (simp add: new_platform_post_def assms(2))
  then show ?thesis using create_post_Inr [OF assms(1)] assms(2) by blast
qed

definition sample_ws :: workspace where
  "sample_ws = \<lparr>ws_id = 1, ws_org = 1, ws_name = ''Acme'', ws_approval_mode = ''none'', ws_timezone = ''UTC''\<rparr>"

definition sample_account :: social_account where
  "sample_account = \<lparr>sa_id = 5, sa_workspace = 1, sa_platform = ''bluesky'', sa_platform_id = ''b1'',
     sa_name = ''Acme'', sa_handle = ''acme'', sa_instance_url = [], sa_access_token = ''t'',
     sa_refresh_token = ''r'', sa_token_expires_at = None, sa_connection = CONNECTED\<rparr>"

definition empty_db :: db where
  "empty_db = \<lparr>db_orgs = [], db_workspaces = [], db_users = [], db_members = [], db_accounts = [], db_posts = [],
     db_pps = [], db_assets = [], db_media = [], db_slots = [], db_queues = [], db_entries = [],
     db_rules = [], db_actions = [], db_reminders = [], db_comments = [], db_logs = [],
     db_rates = [], db_notes = [], db_tasks = [], db_versions = [], db_tags = [], db_next = 10\<rparr>"

definition sample_input :: post_input where
  "sample_input = \<lparr>in_caption = ''hi'', in_media = [], in_title = [], in_first_comment = [],
     in_internal_notes = [], in_scheduled_at = Some 500, in_proposed_at = None, in_author = None,
     in_status = ''scheduled'', in_overrides = []\<rparr>"

lemmas composer_sample_defs = sample_ws_def sample_account_def empty_db_def sample_input_def

lemma sample_not_blocked: "media_blocker sample_account mt = []"
  by (simp add: media_blocker_Nil is_video_only_iff requires_media_iff sample_account_def)

lemma sample_create:
  "\<exists>d'. create_post 0 sample_ws sample_account sample_input empty_db = Inr (d', 10)"
proof -
  have "publish_blocker sample_account mt [] = []" for mt
    using sample_not_blocked by (simp add: publish_blocker_Nil) (simp add: sample_account_def)
  then show ?thesis
    by (simp add: create_post_def composer_sample_defs INITIAL_STATUSES_def needs_reconnect_def
        approval_gate_passes_def BLOCKING_APPROVAL_MODES_def missing_assets_def insert_post_def
        Let_def)
qed

theorem create_post_scheduled_is_publishable_witness:
  "\<exists>d'. create_post 0 sample_ws sample_account sample_input empty_db = Inr (d', 10) \<and>
    map (\<lambda>c. (pp_account c, pp_status c, pp_scheduled_at c)) (children 10 d') = [(5, SCHEDULED, Some 500)]"
proof -
  obtain d' where c: "create_post 0 sample_ws sample_account sample_input empty_db = Inr (d', 10)"
    using sample_create by blast
  have f: "fresh_ok empty_db" by (simp add: fresh_ok_def empty_db_def)
  have s: "in_status sample_input = ''scheduled''" by (simp add: sample_input_def)
  have e: "sa_id sample_account = 5" "in_scheduled_at sample_input = Some 500"
    by (simp_all add: sample_account_def sample_input_def)
  have "map (\<lambda>c. (pp_account c, pp_status c, pp_scheduled_at c)) (children 10 d')
      = [(5, SCHEDULED, Some 500)]"
    using create_post_scheduled_is_publishable [OF c s f] unfolding e by blast
  with c show ?thesis by (intro exI conjI)
qed

text \<open>
  After \<open>sync_post_scheduled_at\<close> the parent's time is the earliest child time, or null when
  no child has one; a post with a committed time keeps no draft-stage proposal; and a second
  sync changes nothing.
\<close>

theorem sync_is_earliest_child:
  assumes "get_post i d = Some po"
  shows "\<exists>po'. get_post i (sync_post_scheduled_at now i d) = Some po' \<and>
      po_scheduled_at po' = (if child_times i d = [] then None else Some (Min (set (child_times i d)))) \<and>
      (child_times i d \<noteq> [] \<longrightarrow> po_proposed_at po' = None) \<and>
      sync_post_scheduled_at later i (sync_post_scheduled_at now i d) = sync_post_scheduled_at now i d"
proof -
  let ?d = "sync_post_scheduled_at now i d"
  obtain po' where po': "get_post i ?d = Some po'"
    and s: "po_scheduled_at po' = (if child_times i d = [] then None else Some (Min (set (child_times i d))))"
    and p: "child_times i d \<noteq> [] \<longrightarrow> po_proposed_at po' = None"
    using get_post_sync [OF assms, of now] by (auto simp: Let_def split: if_splits)
  have "sync_post_scheduled_at later i ?d = ?d"
    using po' s p by (subst sync_post_scheduled_at_def) (simp add: Let_def frame_simps)
  with po' s p show ?thesis by blast
qed

definition sample_post :: post where
  "sample_post = \<lparr>po_id = 7, po_workspace = 1, po_author = Some 3, po_title = [], po_caption = ''hi'',
     po_first_comment = [], po_internal_notes = [], po_tags = [], po_category = None,
     po_scheduled_at = Some 900, po_published_at = None, po_proposed_at = Some 4, po_updated_at = 0\<rparr>"

definition sample_db :: db where
  "sample_db = empty_db\<lparr>db_workspaces := [sample_ws], db_accounts := [sample_account],
     db_posts := [sample_post],
     db_pps := [(new_platform_post 8 7 5 0)\<lparr>pp_status := SCHEDULED, pp_scheduled_at := Some 300\<rparr>,
                (new_platform_post 9 7 6 0)\<lparr>pp_status := SCHEDULED, pp_scheduled_at := Some 200\<rparr>],
     db_queues := [\<lparr>qu_id = 2, qu_workspace = 1, qu_name = ''Q'', qu_account = 5, qu_active = True\<rparr>],
     db_entries := [\<lparr>qe_id = 4, qe_queue = 2, qe_post = 7, qe_position = 1, qe_slot = Some 300\<rparr>]\<rparr>"

lemmas sample_defs = sample_db_def sample_post_def composer_sample_defs new_platform_post_def

theorem sync_is_earliest_child_witness:
  "\<exists>po. get_post 7 (sync_post_scheduled_at 1 7 sample_db) = Some po \<and> po_scheduled_at po = Some 200"
proof -
  have g: "get_post 7 sample_db = Some sample_post"
    by (simp add: get_post_def tbl_get_def sample_defs)
  have t: "child_times 7 sample_db = [300, 200]"
    by (simp add: child_times_def children_def sample_defs)
  show ?thesis using sync_is_earliest_child [OF g, of 1 2] t by auto
qed

lemma to_draft_result:
  "transition_platform_post now p DRAFT at d = Inr (d', q) \<longleftrightarrow>
    can_transition_to p DRAFT \<and> q = p\<lparr>pp_status := DRAFT, pp_scheduled_at := None\<rparr> \<and>
    d' = sync_post_scheduled_at now (pp_post p)
      (save_transition (p\<lparr>pp_status := DRAFT, pp_scheduled_at := None\<rparr>) (pp_scheduled_at p \<noteq> None) now
        (drop_entries (pp_post p) (pp_account p) d))"
  by (auto simp: transition_platform_post_def transition_to_def Let_def)

lemma save_transition_tables [frame_simps]:
  "db_entries (save_transition q b now d) = db_entries d"
  "db_queues (save_transition q b now d) = db_queues d"
  by (simp_all add: save_transition_def update_pps_def)

text \<open>
  Moving a channel back to draft takes it out of the publish path completely: its row is a
  draft without a time of its own, no queue entry of that post is left on the account, and the
  other rows are untouched.
\<close>

theorem draft_leaves_publish_path:
  assumes "transition_platform_post now p DRAFT at d = Inr (d', q)"
    and "get_pp (pp_id p) d = Some p"
  shows "(\<exists>r. get_pp (pp_id p) d' = Some r \<and> pp_status r = DRAFT \<and> pp_scheduled_at r = None) \<and>
    (\<forall>j. j \<noteq> pp_id p \<longrightarrow> get_pp j d' = get_pp j d) \<and>
    (\<nexists>e u. e \<in> set (db_entries d') \<and> u \<in> set (db_queues d') \<and> qe_post e = pp_post p \<and>
       qu_id u = qe_queue e \<and> qu_account u = pp_account p)"
proof -
  have d': "d' = sync_post_scheduled_at now (pp_post p)
      (save_transition (p\<lparr>pp_status := DRAFT, pp_scheduled_at := None\<rparr>) (pp_scheduled_at p \<noteq> None) now
        (drop_entries (pp_post p) (pp_account p) d))"
    using assms(1) by (simp only: to_draft_result)
  have own: "\<exists>r. get_pp (pp_id p) d' = Some r \<and> pp_status r = DRAFT \<and> pp_scheduled_at r = None"
    using assms(2) by (simp add: d' frame_simps get_pp_save_transition)
  have others: "get_pp j d' = get_pp j d" if "j \<noteq> pp_id p" for j
    using that by (auto simp: d' frame_simps get_pp_save_transition split: option.split)
  have e: "db_entries d' = db_entries (drop_entries (pp_post p) (pp_account p) d)"
      "db_queues d' = db_queues d"
    by (simp_all add: d' frame_simps) (simp add: drop_entries_def)
  have "\<nexists>e u. e \<in> set (db_entries d') \<and> u \<in> set (db_queues d') \<and> qe_post e = pp_post p \<and>
       qu_id u = qe_queue e \<and> qu_account u = pp_account p"
    by (auto simp: e drop_entries_def tbl_delete_def)
  with own others show ?thesis by blast
qed

theorem draft_leaves_publish_path_witness:
  "\<exists>d' q. transition_platform_post 1 (hd (db_pps sample_db)) DRAFT None sample_db = Inr (d', q) \<and>
    db_entries d' = [] \<and> (\<exists>r. get_pp 8 d' = Some r \<and> pp_status r = DRAFT)"
proof -
  let ?p = "hd (db_pps sample_db)"
  have "can_transition_to ?p DRAFT" by (simp add: can_transition_to_def sample_defs)
  then obtain d' q where t: "transition_platform_post 1 ?p DRAFT None sample_db = Inr (d', q)"
    unfolding to_draft_result by blast
  have g: "get_pp (pp_id ?p) sample_db = Some ?p"
    by (simp add: get_pp_def tbl_get_def sample_defs)
  have q: "db_queues d' = db_queues sample_db \<and> set (db_entries d') \<subseteq> set (db_entries sample_db)"
    using t unfolding to_draft_result by (simp add: frame_simps) (auto simp: drop_entries_def tbl_delete_def)
  have i: "pp_id ?p = 8" "pp_post ?p = 7" "pp_account ?p = 5" by (simp_all add: sample_defs)
  have n: "\<nexists>e u. e \<in> set (db_entries d') \<and> u \<in> set (db_queues d') \<and> qe_post e = 7 \<and>
       qu_id u = qe_queue e \<and> qu_account u = 5"
    and r: "\<exists>r. get_pp 8 d' = Some r \<and> pp_status r = DRAFT"
    using draft_leaves_publish_path [OF t g] i by simp_all blast
  have "e \<notin> set (db_entries d')" for e
  proof
    assume e: "e \<in> set (db_entries d')"
    with q have "e \<in> set (db_entries sample_db)" by blast
    then have "qe_post e = 7" and "qe_queue e = 2" by (simp_all add: sample_defs)
    moreover have "\<lparr>qu_id = 2, qu_workspace = 1, qu_name = ''Q'', qu_account = 5, qu_active = True\<rparr> \<in> set (db_queues d')"
      using q by (simp add: sample_defs)
    ultimately show False using e n by force
  qed
  then have "db_entries d' = []" by (metis list.set_intros(1) neq_Nil_conv)
  with t r show ?thesis by blast
qed

text \<open>
  A clone is all draft: as many children as the source has, each a draft with no time, no
  platform handle and a full retry budget but the same channel and overrides; the source's rows
  are left as they are.
\<close>

theorem clone_is_fresh_draft:
  assumes "clone_post now po author d = (d', k)" and "fresh_ok d"
  shows "map (\<lambda>c. (pp_account c, pp_title c, pp_caption c, pp_first_comment c, pp_media c, pp_extra c))
      (children k d') =
    map (\<lambda>c. (pp_account c, pp_title c, pp_caption c, pp_first_comment c, pp_media c, pp_extra c))
      (children (po_id po) d) \<and>
    list_all (\<lambda>c. pp_status c = DRAFT \<and> pp_scheduled_at c = None \<and> pp_handle c = [] \<and>
      pp_retry_count c = 0 \<and> pp_fc_status c = FC_NONE) (children k d') \<and>
    (\<exists>news. db_pps d' = db_pps d @ news) \<and> (\<exists>new. db_posts d' = db_posts d @ [new])"
proof -
  let ?cs = "enumerate 0 (children (po_id po) d)"
  let ?new = "map (\<lambda>(j, c). clone_child (db_next d + 1 + j) (db_next d) now c) ?cs"
  have k: "k = db_next d" and pps: "db_pps d' = db_pps d @ ?new"
    using assms(1) by (auto simp: clone_post_def Let_def)
  have "filter (\<lambda>c. pp_post c = db_next d) ?new = ?new"
    by (auto simp: filter_id_conv clone_child_def new_platform_post_def)
  then have c: "children k d' = ?new"
    using children_fresh [OF assms(2)] by (simp add: children_def k pps)
  have posts: "\<exists>new. db_posts d' = db_posts d @ [new]"
    using assms(1) by (auto simp: clone_post_def Let_def)
  have snds: "map snd ?cs = children (po_id po) d" by simp
  have "map (\<lambda>c. (pp_account c, pp_title c, pp_caption c, pp_first_comment c, pp_media c, pp_extra c)) ?new =
     map (\<lambda>c. (pp_account c, pp_title c, pp_caption c, pp_first_comment c, pp_media c, pp_extra c)) (map snd ?cs)"
    by (simp add: clone_child_def new_platform_post_def case_prod_beta del: map_snd_enumerate)
  moreover have "list_all (\<lambda>c. pp_status c = DRAFT \<and> pp_scheduled_at c = None \<and> pp_handle c = [] \<and>
      pp_retry_count c = 0 \<and> pp_fc_status c = FC_NONE) ?new"
    by (auto simp: list_all_iff clone_child_def new_platform_post_def)
  ultimately show ?thesis using c snds pps posts by auto
qed

theorem clone_is_fresh_draft_witness:
  "\<exists>d' k. clone_post 1 sample_post None sample_db = (d', k) \<and> length (children k d') = 2"
proof -
  obtain d' k where c: "clone_post 1 sample_post None sample_db = (d', k)" by fastforce
  have f: "fresh_ok sample_db" by (simp add: fresh_ok_def sample_defs)
  have "length (children 7 sample_db) = 2" by (simp add: children_def sample_defs)
  then have "length (children k d') = 2"
    using arg_cong [OF conjunct1 [OF clone_is_fresh_draft [OF c f]], of length]
    by (simp add: sample_post_def)
  with c show ?thesis by blast
qed

text \<open>
  Removing media is refused exactly when it would strand a scheduled channel: the answer is
  empty if and only if no scheduled child would be left without the media its platform needs.
\<close>

theorem media_change_blocker_exact:
  "media_change_blocker i after d = [] \<longleftrightarrow>
    (\<nexists>c a. c \<in> set (children i d) \<and> pp_status c = SCHEDULED \<and>
       get_account (pp_account c) d = Some a \<and> media_blocker a after \<noteq> [])"
  by (auto simp: media_change_blocker_def tbl_first_def Let_def find_None_iff find_Some_iff
      split: option.splits)

end
