(* ===== verification/Calendar_Queue.thy ===== *)
theory Calendar_Queue
  imports Composer
begin

text \<open>
  Queue scheduling, \<open>apps/calendar/services.py\<close>: the posting slots of a channel, the next free
  slot, placing, prioritising, removing and reordering queued posts, and the repair of
  published posts whose time was dragged into the future.

  Time zones come from \<open>zoneinfo\<close>, outside the repository: a zone is a parameter, read as the
  two conversions the code uses. An operation reads the clock once (\<open>now\<close>); it runs in one
  transaction under the lock of its channel, so a \<open>QueueFullError\<close> leaves the database as it was.
\<close>

section \<open>Zones and slots\<close>

record zone =
  z_date :: "instant \<Rightarrow> int"
    \<comment> \<open>\<open>dt.astimezone(tz).date()\<close>\<close>
  z_time :: "instant \<Rightarrow> int"
    \<comment> \<open>\<open>dt.astimezone(tz).time()\<close>, in microseconds since midnight\<close>
  z_at :: "int \<Rightarrow> int \<Rightarrow> instant"
    \<comment> \<open>\<open>datetime.combine(date, time).replace(tzinfo=tz)\<close>, as an instant\<close>
  z_fold :: "int \<Rightarrow> int \<Rightarrow> bool"
    \<comment> \<open>a local time that is ambiguous or missing: its \<open>utcoffset()\<close> depends on \<open>fold\<close>\<close>

definition UTC :: zone where
  "UTC = \<lparr>z_date = (\<lambda>t. t div days 1), z_time = (\<lambda>t. t mod days 1), z_at = (\<lambda>d t. d * days 1 + t),
     z_fold = (\<lambda>_ _. False)\<rparr>"

text \<open>
  A slot is a \<open>datetime\<close> of the workspace's zone, the times of the rows are \<open>datetime\<close>s of UTC. Python orders
  the two as instants, but holds a \<open>datetime\<close> at an ambiguous or missing local time equal to none of another
  zone: a slot is its instant together with that property.
\<close>

type_synonym slot_dt = "instant \<times> bool"

definition taken :: "instant set \<Rightarrow> slot_dt \<Rightarrow> bool" where
  \<comment> \<open>\<open>slot_dt in occupied\<close>\<close>
  "taken T s \<longleftrightarrow> \<not> snd s \<and> fst s \<in> T"

definition effective_timezone :: "workspace \<Rightarrow> db \<Rightarrow> string" where
  "effective_timezone w d =
    py_or (ws_timezone w)
      (case tbl_get og_id (ws_org w) (db_orgs d) of Some g \<Rightarrow> og_default_timezone g | None \<Rightarrow> [])"

definition clock :: "int \<Rightarrow> int \<Rightarrow> int" where
  \<comment> \<open>\<open>time(h, m)\<close>\<close>
  "clock h m = seconds (h * 3600 + m * 60)"

definition DEFAULT_POSTING_SLOTS :: "(int \<times> int list) list" where
  "DEFAULT_POSTING_SLOTS =
    [(0, [clock 9 24, clock 10 10, clock 11 26, clock 12 42]),
     (1, [clock 9 55, clock 10 41, clock 11 57, clock 12 13]),
     (2, [clock 9 30, clock 10 17, clock 11 32, clock 12 41]),
     (3, [clock 9 38, clock 10 52])]"

definition default_slots :: "(int \<times> int) list" where
  "default_slots = concat (map (\<lambda>(day, ts). map (Pair day) ts) DEFAULT_POSTING_SLOTS)"

definition insert_slots :: "nat \<Rightarrow> nat \<Rightarrow> (int \<times> int) list \<Rightarrow> posting_slot list \<Rightarrow> posting_slot list" where
  \<comment> \<open>\<open>bulk_create(slots, ignore_conflicts=True)\<close> under the unique (account, day, time)\<close>
  "insert_slots k account new t =
    t @ map (\<lambda>(j, (day, tm)). \<lparr>sl_id = k + j, sl_account = account, sl_day = day, sl_time = tm, sl_active = True\<rparr>)
          (filter (\<lambda>(j, (day, tm)). \<not> list_ex (\<lambda>s. sl_account s = account \<and> sl_day s = day \<and> sl_time s = tm) t)
             (enumerate 0 new))"

definition create_default_queue_and_slots :: "social_account \<Rightarrow> db \<Rightarrow> queue option \<times> db" where
  "create_default_queue_and_slots a d =
    (if list_ex (\<lambda>q. qu_account q = sa_id a) (db_queues d) then (None, d)
     else
       let q = \<lparr>qu_id = db_next d, qu_workspace = sa_workspace a,
                qu_name = py_or (sa_name a) (sa_handle a) @ '' Queue'', qu_account = sa_id a,
                qu_active = True\<rparr>
       in (Some q, d\<lparr>db_queues := db_queues d @ [q],
                     db_slots := insert_slots (db_next d + 1) (sa_id a) default_slots (db_slots d),
                     db_next := db_next d + 1 + length default_slots\<rparr>))"

definition slot_order :: "posting_slot list \<Rightarrow> posting_slot list" where
  \<comment> \<open>\<open>order_by("day_of_week", "time")\<close>\<close>
  "slot_order ss = sort_key sl_day (sort_key sl_time ss)"

definition account_slots :: "nat \<Rightarrow> db \<Rightarrow> posting_slot list" where
  "account_slots a d = slot_order (filter (\<lambda>s. sl_account s = a \<and> sl_active s) (db_slots d))"

definition HORIZON_DAYS :: nat where
  "HORIZON_DAYS = 60"

definition day_instants :: "zone \<Rightarrow> posting_slot list \<Rightarrow> int \<Rightarrow> slot_dt list" where
  "day_instants z ss date =
    map (\<lambda>s. (z_at z date (sl_time s), z_fold z date (sl_time s))) (filter (\<lambda>s. sl_day s = int (weekday date)) ss)"

definition horizon_instants :: "zone \<Rightarrow> posting_slot list \<Rightarrow> int \<Rightarrow> slot_dt list" where
  \<comment> \<open>the slots of 60 days in the order of the two loops\<close>
  "horizon_instants z ss date = concat (map (\<lambda>k. day_instants z ss (date + int k)) [0..<HORIZON_DAYS])"

fun collect :: "nat \<Rightarrow> instant \<Rightarrow> slot_dt list \<Rightarrow> slot_dt list \<Rightarrow> slot_dt list" where
  \<comment> \<open>the body of the inner loop, with its early return\<close>
  "collect wanted after results [] = results"
| "collect wanted after results (t # ts) =
    (if fst t \<le> after then collect wanted after results ts
     else let results' = results @ [t] in
       if length results' \<ge> wanted then results' else collect wanted after results' ts)"

definition slot_zone :: "(string \<Rightarrow> zone) \<Rightarrow> social_account \<Rightarrow> db \<Rightarrow> zone" where
  "slot_zone zones a d =
    zones (case get_workspace (sa_workspace a) d of
             Some w \<Rightarrow> py_or (effective_timezone w d) ''UTC'' | None \<Rightarrow> ''UTC'')"

definition next_slot_datetimes ::
  "(string \<Rightarrow> zone) \<Rightarrow> social_account \<Rightarrow> instant \<Rightarrow> nat \<Rightarrow> db \<Rightarrow> slot_dt list" where
  "next_slot_datetimes zones a after wanted d =
    (let ss = account_slots (sa_id a) d; z = slot_zone zones a d in
     if ss = [] then [] else collect wanted after [] (horizon_instants z ss (z_date z after)))"

lemma collect_take:
  assumes "length rs < max 1 n"
  shows "collect n after rs ts = rs @ take (max 1 n - length rs) (filter (\<lambda>t. after < fst t) ts)"
  using assms
proof (induction ts arbitrary: rs)
  case (Cons t ts)
  show ?case
  proof (cases "fst t \<le> after")
    case False
    show ?thesis
    proof (cases "length (rs @ [t]) \<ge> n")
      case True
      then have "max 1 n - length rs = 1" using Cons.prems by auto
      then show ?thesis using False True by (simp add: Let_def)
    next
      case short: False
      then have "max 1 n - length rs = Suc (max 1 n - length (rs @ [t]))" using Cons.prems by auto
      then show ?thesis using False short Cons.IH [of "rs @ [t]"] by (simp add: Let_def)
    qed
  qed (use Cons in auto)
qed simp

definition upcoming ::
  "(string \<Rightarrow> zone) \<Rightarrow> social_account \<Rightarrow> instant \<Rightarrow> db \<Rightarrow> slot_dt list" where
  \<comment> \<open>every slot of the horizon after an instant\<close>
  "upcoming zones a after d =
    (let ss = account_slots (sa_id a) d; z = slot_zone zones a d in
     filter (\<lambda>t. after < fst t) (horizon_instants z ss (z_date z after)))"

lemma horizon_no_slots: "horizon_instants z [] date = []"
  by (simp add: horizon_instants_def day_instants_def)

lemma next_slot_datetimes_take:
  "next_slot_datetimes zones a after n d = take (max 1 n) (upcoming zones a after d)"
  by (simp add: next_slot_datetimes_def upcoming_def Let_def collect_take horizon_no_slots)

lemma upcoming_after: "t \<in> set (upcoming zones a after d) \<Longrightarrow> after < fst t"
  by (simp add: upcoming_def Let_def)

section \<open>Occupancy\<close>

datatype queue_error = QueueFull nat | QueueComposer composer_error

definition occupied_datetimes :: "social_account \<Rightarrow> nat list \<Rightarrow> instant \<Rightarrow> db \<Rightarrow> instant set" where
  "occupied_datetimes a exclude now d =
    set (somes (map pp_scheduled_at
      (filter (\<lambda>p. pp_account p = sa_id a \<and>
           (case pp_scheduled_at p of None \<Rightarrow> False | Some t \<Rightarrow> now < t) \<and>
           pp_status p \<notin> set PROTECTED_STATUSES \<and> pp_id p \<notin> set exclude) (db_pps d))))"

definition next_available_slot ::
  "(string \<Rightarrow> zone) \<Rightarrow> social_account \<Rightarrow> nat list \<Rightarrow> instant \<Rightarrow> db \<Rightarrow> instant option" where
  "next_available_slot zones a exclude now d =
    (let occupied = occupied_datetimes a exclude now d;
         candidates = next_slot_datetimes zones a now (card occupied + 1) d
     in map_option fst (find (\<lambda>s. \<not> taken occupied s) candidates))"

definition is_protected :: "platform_post option \<Rightarrow> bool" where
  "is_protected p = (case p of None \<Rightarrow> False | Some p \<Rightarrow> pp_status p \<in> set PROTECTED_STATUSES)"

definition entry_of :: "nat \<Rightarrow> nat \<Rightarrow> db \<Rightarrow> queue_entry option" where
  \<comment> \<open>\<open>queue.entries.filter(post=post).first()\<close>\<close>
  "entry_of q po d = tbl_first (\<lambda>e. qe_queue e = q \<and> qe_post e = po) (db_entries d)"

definition ensure_entry :: "nat \<Rightarrow> queue \<Rightarrow> db \<Rightarrow> queue_entry \<times> db" where
  "ensure_entry po q d =
    (case entry_of (qu_id q) po d of
       Some e \<Rightarrow> (e, d)
     | None \<Rightarrow>
        (let ps = map qe_position (filter (\<lambda>e. qe_queue e = qu_id q) (db_entries d));
             (k, d1) = fresh_id d;
             e = \<lparr>qe_id = k, qe_queue = qu_id q, qe_post = po,
                  qe_position = (if ps = [] then 0 else Max (set ps)) + 1, qe_slot = None\<rparr>
         in (e, d1\<lparr>db_entries := db_entries d1 @ [e]\<rparr>)))"

definition write_slot :: "instant \<Rightarrow> queue_entry \<Rightarrow> platform_post option \<Rightarrow> instant \<Rightarrow> db \<Rightarrow> db" where
  "write_slot now e p t d =
    (let d1 = d\<lparr>db_entries := tbl_update (\<lambda>x. qe_id x = qe_id e) (\<lambda>x. x\<lparr>qe_slot := Some t\<rparr>) (db_entries d)\<rparr>
     in case p of
          None \<Rightarrow> d1
        | Some p \<Rightarrow>
            sync_post_scheduled_at now (pp_post p)
              (update_pps (\<lambda>r. pp_id r = pp_id p) (\<lambda>r. r\<lparr>pp_scheduled_at := Some t, pp_updated_at := now\<rparr>) d1))"

definition add_post_next_available ::
  "(string \<Rightarrow> zone) \<Rightarrow> instant \<Rightarrow> nat \<Rightarrow> queue \<Rightarrow> social_account \<Rightarrow> db \<Rightarrow>
     queue_error + (queue_entry option \<times> db)" where
  \<comment> \<open>the account is \<open>queue.social_account\<close>\<close>
  "add_post_next_available zones now po q a d =
    (let p = child_on po (sa_id a) d in
     if is_protected p then Inr (entry_of (qu_id q) po d, d)
     else
       case next_available_slot zones a (case p of Some p \<Rightarrow> [pp_id p] | None \<Rightarrow> []) now d of
         None \<Rightarrow> Inl (QueueFull (qu_id q))
       | Some t \<Rightarrow>
          (let (e, d1) = ensure_entry po q d in Inr (Some (e\<lparr>qe_slot := Some t\<rparr>), write_slot now e p t d1)))"

section \<open>Prioritising\<close>

definition movable_of :: "queue \<Rightarrow> instant \<Rightarrow> db \<Rightarrow> queue_entry \<Rightarrow> (queue_entry \<times> platform_post \<times> instant) list" where
  "movable_of q now d e =
    (case child_on (qe_post e) (qu_account q) d of
       None \<Rightarrow> []
     | Some p \<Rightarrow>
         if is_protected (Some p) then []
         else case pp_scheduled_at p of
                None \<Rightarrow> []
              | Some t \<Rightarrow> if t \<le> now then [] else [(e, p, t)])"

definition movable_entries :: "queue \<Rightarrow> nat \<Rightarrow> instant \<Rightarrow> db \<Rightarrow> (queue_entry \<times> platform_post \<times> instant) list" where
  "movable_entries q po now d =
    concat (map (movable_of q now d)
      (sort_key qe_position (filter (\<lambda>e. qe_queue e = qu_id q \<and> qe_post e \<noteq> po) (db_entries d))))"

fun last_index :: "'a \<Rightarrow> 'a list \<Rightarrow> nat" where
  \<comment> \<open>\<open>{dt: i for i, dt in enumerate(xs)}[x]\<close> for an \<open>x\<close> equal to one of the list\<close>
  "last_index x [] = 0"
| "last_index x (y # ys) = (if x \<in> set ys then Suc (last_index x ys) else 0)"

function find_rung ::
  "(string \<Rightarrow> zone) \<Rightarrow> instant \<Rightarrow> social_account \<Rightarrow> db \<Rightarrow> instant set \<Rightarrow> nat set \<Rightarrow> slot_dt list \<Rightarrow> nat \<Rightarrow>
     (slot_dt list \<times> nat) option" where
  \<comment> \<open>the \<open>while True\<close> loop: the candidates, extended as needed, and the index found\<close>
  "find_rung zones now a d avoid assigned cands j =
    (let cands' = (if j \<ge> length cands then next_slot_datetimes zones a now (j + 2) d else cands) in
     if j \<ge> length cands' then None
     else if j \<notin> assigned \<and> \<not> taken avoid (cands' ! j) then Some (cands', j)
     else find_rung zones now a d avoid assigned cands' (j + 1))"
  by pat_completeness auto

termination
proof (relation "measure (\<lambda>(zones, now, a, d, avoid, assigned, cands, j).
    max (length cands) (length (upcoming zones a now d)) - j)", goal_cases)
  case (2 zones now a d avoid assigned cands j x)
  then show ?case by (auto simp: next_slot_datetimes_take split: if_splits)
qed simp

fun ladder ::
  "(string \<Rightarrow> zone) \<Rightarrow> instant \<Rightarrow> social_account \<Rightarrow> instant set \<Rightarrow> nat set \<Rightarrow> slot_dt list \<Rightarrow>
     (nat \<times> queue_entry \<times> platform_post) list \<Rightarrow> db \<Rightarrow> (slot_dt list \<times> db) option" where
  "ladder zones now a avoid assigned cands [] d = Some (cands, d)"
| "ladder zones now a avoid assigned cands ((i, e, p) # ms) d =
    (case find_rung zones now a d avoid assigned cands (i + 1) of
       None \<Rightarrow> None
     | Some (cands', j) \<Rightarrow>
        ladder zones now a avoid (insert j assigned) cands' ms (write_slot now e (Some p) (fst (cands' ! j)) d))"

definition own_id :: "platform_post option \<Rightarrow> nat list" where
  "own_id p = (case p of Some p \<Rightarrow> [pp_id p] | None \<Rightarrow> [])"

definition place_first ::
  "(string \<Rightarrow> zone) \<Rightarrow> instant \<Rightarrow> queue \<Rightarrow> social_account \<Rightarrow> platform_post option \<Rightarrow> queue_entry \<Rightarrow>
     slot_dt \<Rightarrow> db \<Rightarrow> queue_error + db" where
  \<comment> \<open>slot 0 is free among the queue's own entries\<close>
  "place_first zones now q a p e target d =
    (if taken (occupied_datetimes a (own_id p) now d) target then
       (case next_available_slot zones a (own_id p) now d of
          None \<Rightarrow> Inl (QueueFull (qu_id q))
        | Some free \<Rightarrow> Inr (write_slot now e p free d))
     else Inr (write_slot now e p (fst target) d))"

definition ladder_up ::
  "(string \<Rightarrow> zone) \<Rightarrow> instant \<Rightarrow> queue \<Rightarrow> social_account \<Rightarrow> platform_post option \<Rightarrow> queue_entry \<Rightarrow>
     (queue_entry \<times> platform_post \<times> instant) list \<Rightarrow> slot_dt list \<Rightarrow> db \<Rightarrow> queue_error + db" where
  \<comment> \<open>slot 0 is taken by a queue entry\<close>
  "ladder_up zones now q a p e movable cands d =
    (let in_cands = filter (\<lambda>(e, p, t). (t, False) \<in> set cands) movable;
         movers = map (\<lambda>(e, p, t). (last_index (t, False) cands, e, p)) in_cands;
         old = set (map (\<lambda>(e, p, t). t) in_cands);
         avoid = occupied_datetimes a (own_id p) now d - old in
     case ladder zones now a avoid {0} cands (sort_key (\<lambda>(i, e, p). - int i) movers) d of
       None \<Rightarrow> Inl (QueueFull (qu_id q))
     | Some (cands', d') \<Rightarrow> Inr (write_slot now e p (fst (hd cands')) d'))"

definition prioritize ::
  "(string \<Rightarrow> zone) \<Rightarrow> instant \<Rightarrow> nat \<Rightarrow> queue \<Rightarrow> social_account \<Rightarrow> db \<Rightarrow> queue_error + db" where
  "prioritize zones now po q a d =
    (let p = child_on po (sa_id a) d;
         movable = movable_entries q po now d;
         movable_dts = set (map (\<lambda>(e, p, t). t) movable);
         cands = next_slot_datetimes zones a now (length movable + 2) d in
     if cands = [] then Inl (QueueFull (qu_id q))
     else
       let (e, d1) = ensure_entry po q d;
           target = hd cands in
       if \<not> taken movable_dts target then place_first zones now q a p e target d1
       else ladder_up zones now q a p e movable cands d1)"

definition add_to_queue ::
  "(string \<Rightarrow> zone) \<Rightarrow> instant \<Rightarrow> nat \<Rightarrow> queue \<Rightarrow> social_account \<Rightarrow> bool \<Rightarrow> db \<Rightarrow> queue_error + db" where
  "add_to_queue zones now po q a priority d =
    (if priority then prioritize zones now po q a d
     else map_sum id snd (add_post_next_available zones now po q a d))"

section \<open>Removing and reordering\<close>

definition remove_from_queue :: "instant \<Rightarrow> queue_entry \<Rightarrow> queue \<Rightarrow> db \<Rightarrow> queue_error + db" where
  \<comment> \<open>the queue is \<open>entry.queue\<close>\<close>
  "remove_from_queue now e q d =
    (let p = child_on (qe_post e) (qu_account q) d;
         cleared = (case p of
             None \<Rightarrow> Inr d
           | Some p \<Rightarrow>
               if \<not> is_protected (Some p) \<and> can_transition_to p DRAFT
               then map_sum id fst (transition_platform_post now p DRAFT None d)
               else Inr d) in
     case cleared of
       Inl err \<Rightarrow> Inl (QueueComposer err)
     | Inr d1 \<Rightarrow>
        Inr (sync_post_scheduled_at now (qe_post e)
          (d1\<lparr>db_entries := tbl_delete (\<lambda>x. qe_id x = qe_id e) (db_entries d1)\<rparr>)))"

definition ordered_of :: "queue \<Rightarrow> db \<Rightarrow> nat \<Rightarrow> (queue_entry \<times> platform_post option) list" where
  "ordered_of q d i =
    (case tbl_first (\<lambda>e. qe_queue e = qu_id q \<and> qe_id e = i) (db_entries d) of
       None \<Rightarrow> []
     | Some e \<Rightarrow>
         (let p = child_on (qe_post e) (qu_account q) d in if is_protected p then [] else [(e, p)]))"

definition ordered_entries :: "queue \<Rightarrow> nat list \<Rightarrow> db \<Rightarrow> (queue_entry \<times> platform_post option) list" where
  "ordered_entries q ids d = concat (map (ordered_of q d) ids)"

definition slotted_of :: "queue_entry \<times> platform_post option \<Rightarrow> (queue_entry \<times> platform_post \<times> instant) list" where
  "slotted_of ep =
    (case snd ep of
       None \<Rightarrow> []
     | Some p \<Rightarrow> (case pp_scheduled_at p of None \<Rightarrow> [] | Some t \<Rightarrow> [(fst ep, p, t)]))"

definition slotted_entries :: "(queue_entry \<times> platform_post option) list \<Rightarrow> (queue_entry \<times> platform_post \<times> instant) list" where
  "slotted_entries es = concat (map slotted_of es)"

definition set_position :: "nat \<Rightarrow> queue_entry \<Rightarrow> db \<Rightarrow> db" where
  "set_position idx e d =
    (if qe_position e \<noteq> idx
     then d\<lparr>db_entries := tbl_update (\<lambda>x. qe_id x = qe_id e) (\<lambda>x. x\<lparr>qe_position := idx\<rparr>) (db_entries d)\<rparr>
     else d)"

definition reorder_queue :: "instant \<Rightarrow> queue \<Rightarrow> nat list \<Rightarrow> db \<Rightarrow> db" where
  "reorder_queue now q ids d =
    (let ordered = ordered_entries q ids d;
         slotted = slotted_entries ordered;
         slots = sort (map (\<lambda>(e, p, t). t) slotted);
         d1 = fold (\<lambda>((e, p, t), s). write_slot now e (Some p) s) (zip slotted slots) d
     in fold (\<lambda>(idx, (e, p)). set_position idx e) (enumerate 0 ordered) d1)"

section \<open>Repair\<close>

definition corrupted :: "nat option \<Rightarrow> db \<Rightarrow> platform_post \<Rightarrow> bool" where
  "corrupted workspace d p =
    (pp_status p = PUBLISHED \<and>
     (case (pp_published_at p, pp_scheduled_at p) of (Some u, Some s) \<Rightarrow> u < s | _ \<Rightarrow> False) \<and>
     (case workspace of None \<Rightarrow> True
      | Some w \<Rightarrow> (case get_post (pp_post p) d of Some po \<Rightarrow> po_workspace po = w | None \<Rightarrow> False)))"

definition affected :: "nat option \<Rightarrow> db \<Rightarrow> platform_post list" where
  "affected workspace d = sort_key (\<lambda>p. the (pp_scheduled_at p)) (filter (corrupted workspace d) (db_pps d))"

definition stale_entry :: "db \<Rightarrow> platform_post \<Rightarrow> queue_entry \<Rightarrow> bool" where
  "stale_entry d p e =
    (qe_post e = pp_post p \<and>
     (\<exists>q \<in> set (db_queues d). qu_id q = qe_queue e \<and> qu_account q = pp_account p) \<and>
     (case (qe_slot e, pp_published_at p) of (Some s, Some u) \<Rightarrow> u < s | _ \<Rightarrow> False))"

definition pin_siblings :: "post \<Rightarrow> db \<Rightarrow> db" where
  "pin_siblings po d =
    (case po_scheduled_at po of
       None \<Rightarrow> d
     | Some t \<Rightarrow> update_pps (\<lambda>p. pp_post p = po_id po \<and> pp_status p = SCHEDULED \<and> pp_scheduled_at p = None)
                  (\<lambda>p. p\<lparr>pp_scheduled_at := Some t\<rparr>) d)"

definition reset_stale_entries :: "platform_post \<Rightarrow> db \<times> nat \<Rightarrow> db \<times> nat" where
  "reset_stale_entries p dn =
    (let (d, n) = dn in
     (d\<lparr>db_entries := tbl_update (stale_entry d p) (\<lambda>e. e\<lparr>qe_slot := pp_published_at p\<rparr>) (db_entries d)\<rparr>,
      n + length (filter (stale_entry d p) (db_entries d))))"

definition repair_future_published_scheduled_at :: "instant \<Rightarrow> nat option \<Rightarrow> bool \<Rightarrow> db \<Rightarrow> nat \<times> nat \<times> nat \<times> bool \<times> db" where
  \<comment> \<open>the counts of the summary (channels, posts, queue entries), \<open>applied\<close>, and the database\<close>
  "repair_future_published_scheduled_at now workspace apply_it d =
    (let rows = affected workspace d;
         post_ids = remdups (map pp_post rows);
         applied = (apply_it \<and> rows \<noteq> []) in
     if applied then
       let posts = filter (\<lambda>po. po_id po \<in> set post_ids) (db_posts d);
           d1 = fold pin_siblings posts d;
           d2 = update_pps (corrupted workspace d1) (\<lambda>p. p\<lparr>pp_scheduled_at := pp_published_at p\<rparr>) d1;
           (d3, n) = fold reset_stale_entries rows (d2, 0)
       in (length rows, length post_ids, n, applied, fold (\<lambda>po. sync_post_scheduled_at now (po_id po)) posts d3)
     else (length rows, length post_ids,
           sum_list (map (\<lambda>p. length (filter (stale_entry d p) (db_entries d))) rows), applied, d))"

section \<open>Lemmas: one slot write\<close>

lemma write_slot_rows:
  "db_pps (write_slot now e (Some p) t d) =
    tbl_update (\<lambda>r. pp_id r = pp_id p) (\<lambda>r. r\<lparr>pp_scheduled_at := Some t, pp_updated_at := now\<rparr>) (db_pps d)"
  "db_pps (write_slot now e None t d) = db_pps d"
  by (simp_all add: write_slot_def Let_def frame_simps update_pps_def)

lemma write_slot_frame [frame_simps]:
  "db_slots (write_slot now e p t d) = db_slots d"
  "db_workspaces (write_slot now e p t d) = db_workspaces d"
  "db_orgs (write_slot now e p t d) = db_orgs d"
  "db_queues (write_slot now e p t d) = db_queues d"
  by (cases p; simp add: write_slot_def Let_def sync_post_scheduled_at_def save_post_def update_pps_def
      split: option.split)+

lemma write_slot_entries:
  "db_entries (write_slot now e p t d) =
    tbl_update (\<lambda>x. qe_id x = qe_id e) (\<lambda>x. x\<lparr>qe_slot := Some t\<rparr>) (db_entries d)"
  by (cases p) (simp_all add: write_slot_def Let_def frame_simps update_pps_def)

lemma get_pp_write_slot:
  "get_pp i (write_slot now e (Some p) t d) =
    (case get_pp i d of None \<Rightarrow> None
     | Some r \<Rightarrow> Some (if i = pp_id p then r\<lparr>pp_scheduled_at := Some t, pp_updated_at := now\<rparr> else r))"
  unfolding get_pp_def write_slot_rows by (subst tbl_get_update) (auto split: option.split dest: tbl_get_Some)

lemma ensure_entry_frame:
  assumes "ensure_entry po q d = (e, d1)"
  shows "db_pps d1 = db_pps d" "db_posts d1 = db_posts d" "db_slots d1 = db_slots d"
    "db_workspaces d1 = db_workspaces d" "db_orgs d1 = db_orgs d" "db_queues d1 = db_queues d"
    "qe_queue e = qu_id q" "qe_post e = po" "\<exists>new. db_entries d1 = db_entries d @ new"
proof -
  have "entry_of (qu_id q) po d = Some x \<Longrightarrow> qe_queue x = qu_id q \<and> qe_post x = po" for x
    unfolding entry_of_def by (drule tbl_first_Some) simp
  then show "db_pps d1 = db_pps d" "db_posts d1 = db_posts d" "db_slots d1 = db_slots d"
    "db_workspaces d1 = db_workspaces d" "db_orgs d1 = db_orgs d" "db_queues d1 = db_queues d"
    "qe_queue e = qu_id q" "qe_post e = po" "\<exists>new. db_entries d1 = db_entries d @ new"
    using assms by (auto simp: ensure_entry_def fresh_id_def Let_def split: option.splits)
qed

lemma slots_frame:
  assumes "db_slots d' = db_slots d" "db_workspaces d' = db_workspaces d" "db_orgs d' = db_orgs d"
  shows "upcoming zones a after d' = upcoming zones a after d"
    and "next_slot_datetimes zones a after n d' = next_slot_datetimes zones a after n d"
proof -
  have "effective_timezone w d' = effective_timezone w d" for w
    using assms by (simp add: effective_timezone_def)
  then have "slot_zone zones a d' = slot_zone zones a d"
    using assms by (simp add: slot_zone_def get_workspace_def cong: option.case_cong)
  moreover have "account_slots (sa_id a) d' = account_slots (sa_id a) d"
    using assms by (simp add: account_slots_def)
  ultimately show "upcoming zones a after d' = upcoming zones a after d"
    and "next_slot_datetimes zones a after n d' = next_slot_datetimes zones a after n d"
    by (simp_all add: next_slot_datetimes_take upcoming_def)
qed

section \<open>Lemmas: occupancy\<close>

text \<open>A row that holds its time on the channel, and the promise that no two hold the same.\<close>

definition holds :: "nat \<Rightarrow> instant \<Rightarrow> platform_post \<Rightarrow> instant \<Rightarrow> bool" where
  "holds a now p t \<longleftrightarrow>
    pp_account p = a \<and> pp_scheduled_at p = Some t \<and> now < t \<and> pp_status p \<notin> set PROTECTED_STATUSES"

definition channel_ok_but :: "nat list \<Rightarrow> nat \<Rightarrow> instant \<Rightarrow> db \<Rightarrow> bool" where
  \<comment> \<open>leaving the rows of \<open>ex\<close> out of consideration\<close>
  "channel_ok_but ex a now d \<longleftrightarrow>
    (\<forall>p \<in> set (db_pps d). \<forall>r \<in> set (db_pps d). \<forall>t.
       holds a now p t \<and> holds a now r t \<and> pp_id p \<notin> set ex \<and> pp_id r \<notin> set ex \<longrightarrow> pp_id p = pp_id r)"

definition channel_ok :: "nat \<Rightarrow> instant \<Rightarrow> db \<Rightarrow> bool" where
  "channel_ok a now d \<longleftrightarrow> channel_ok_but [] a now d"

lemma occupied_iff:
  "t \<in> occupied_datetimes a ex now d \<longleftrightarrow>
    (\<exists>p \<in> set (db_pps d). holds (sa_id a) now p t \<and> pp_id p \<notin> set ex)"
proof
  assume "t \<in> occupied_datetimes a ex now d"
  then obtain p where "p \<in> set (db_pps d)" "Some t = pp_scheduled_at p" "pp_account p = sa_id a"
    "pp_status p \<notin> set PROTECTED_STATUSES" "pp_id p \<notin> set ex" "now < t"
    by (auto simp: occupied_datetimes_def set_somes split: option.splits)
  then show "\<exists>p \<in> set (db_pps d). holds (sa_id a) now p t \<and> pp_id p \<notin> set ex"
    unfolding holds_def by (intro bexI [of _ p]) simp_all
next
  assume "\<exists>p \<in> set (db_pps d). holds (sa_id a) now p t \<and> pp_id p \<notin> set ex"
  then obtain p where "p \<in> set (db_pps d)" "holds (sa_id a) now p t" "pp_id p \<notin> set ex" by blast
  then show "t \<in> occupied_datetimes a ex now d"
    unfolding occupied_datetimes_def set_somes by (force simp: holds_def)
qed

lemma finite_occupied: "finite (occupied_datetimes a ex now d)"
  by (simp add: occupied_datetimes_def)

lemma channel_ok_but_mono: "channel_ok a now d \<Longrightarrow> channel_ok_but ex a now d"
  by (auto simp: channel_ok_def channel_ok_but_def)

lemma channel_ok_but_write:
  assumes ok: "channel_ok_but ex (sa_id a) now d"
    and free: "t \<notin> occupied_datetimes a (pp_id p # ex) now d"
    and ex': "ex' = filter (\<lambda>i. i \<noteq> pp_id p) ex \<or> ex' = ex"
  shows "channel_ok_but ex' (sa_id a) now (write_slot now' e (Some p) t d)"
  unfolding channel_ok_but_def
proof (intro ballI allI impI)
  let ?f = "\<lambda>r. if pp_id r = pp_id p then r\<lparr>pp_scheduled_at := Some t, pp_updated_at := now'\<rparr> else r"
  fix x y u
  assume "x \<in> set (db_pps (write_slot now' e (Some p) t d))" "y \<in> set (db_pps (write_slot now' e (Some p) t d))"
    and h: "holds (sa_id a) now x u \<and> holds (sa_id a) now y u \<and> pp_id x \<notin> set ex' \<and> pp_id y \<notin> set ex'"
  then obtain x0 y0 where x0: "x0 \<in> set (db_pps d)" "x = ?f x0" and y0: "y0 \<in> set (db_pps d)" "y = ?f y0"
    by (auto simp: write_slot_rows set_tbl_update)
  have i: "pp_id x = pp_id x0" "pp_id y = pp_id y0" using x0(2) y0(2) by simp_all
  have other: "pp_id r0 = pp_id p" if "r0 \<in> set (db_pps d)" "holds (sa_id a) now r0 t" "pp_id r0 \<notin> set ex'" for r0
    using free that ex' by (auto simp: occupied_iff)
  show "pp_id x = pp_id y"
  proof (cases "pp_id x0 = pp_id p"; cases "pp_id y0 = pp_id p")
    assume "pp_id x0 = pp_id p" "pp_id y0 \<noteq> pp_id p"
    moreover from this have "u = t" "y = y0" using h x0(2) y0(2) by (auto simp: holds_def)
    ultimately show ?thesis using other [OF y0(1)] h by simp
  next
    assume "pp_id x0 \<noteq> pp_id p" "pp_id y0 = pp_id p"
    moreover from this have "u = t" "x = x0" using h x0(2) y0(2) by (auto simp: holds_def)
    ultimately show ?thesis using other [OF x0(1)] h by simp
  next
    assume n: "pp_id x0 \<noteq> pp_id p" "pp_id y0 \<noteq> pp_id p"
    then have "x = x0" "y = y0" "pp_id x0 \<notin> set ex" "pp_id y0 \<notin> set ex"
      using x0(2) y0(2) h ex' by auto
    then show ?thesis using ok h x0(1) y0(1) unfolding channel_ok_but_def by blast
  qed (use i in simp)
qed

lemma channel_ok_write:
  assumes "channel_ok_but [pp_id p] (sa_id a) now d" "t \<notin> occupied_datetimes a [pp_id p] now d"
  shows "channel_ok (sa_id a) now (write_slot now' e (Some p) t d)"
proof -
  have "t \<notin> occupied_datetimes a [pp_id p, pp_id p] now d" using assms(2) by (auto simp: occupied_iff)
  then show ?thesis unfolding channel_ok_def by (rule channel_ok_but_write [OF assms(1)]) simp
qed

lemma channel_ok_cong: "db_pps d' = db_pps d \<Longrightarrow> channel_ok a now d' = channel_ok a now d"
  by (simp add: channel_ok_def channel_ok_but_def)

lemma channel_ok_but_cong: "db_pps d' = db_pps d \<Longrightarrow> channel_ok_but ex a now d' = channel_ok_but ex a now d"
  by (simp add: channel_ok_but_def)

lemma occupied_cong: "db_pps d' = db_pps d \<Longrightarrow> occupied_datetimes a ex now d' = occupied_datetimes a ex now d"
  by (simp add: occupied_datetimes_def)

text \<open>No slot of the horizon is at an ambiguous or missing local time.\<close>

definition plain_slots :: "(string \<Rightarrow> zone) \<Rightarrow> social_account \<Rightarrow> instant \<Rightarrow> db \<Rightarrow> bool" where
  "plain_slots zones a now d \<longleftrightarrow> list_all (\<lambda>s. \<not> snd s) (upcoming zones a now d)"

lemma plain_slotsD: "plain_slots zones a now d \<Longrightarrow> s \<in> set (upcoming zones a now d) \<Longrightarrow> s = (fst s, False)"
  by (cases s) (auto simp: plain_slots_def list_all_iff)

lemma plain_slots_taken:
  "plain_slots zones a now d \<Longrightarrow> s \<in> set (upcoming zones a now d) \<Longrightarrow> taken T s \<longleftrightarrow> fst s \<in> T"
  by (auto simp: taken_def plain_slots_def list_all_iff)

lemma plain_slots_fst:
  assumes "plain_slots zones a now d" "distinct (upcoming zones a now d)"
    and "m < length (upcoming zones a now d)" "n < length (upcoming zones a now d)"
  shows "fst (upcoming zones a now d ! m) = fst (upcoming zones a now d ! n) \<longleftrightarrow> m = n"
proof -
  have "upcoming zones a now d ! k = (fst (upcoming zones a now d ! k), False)"
    if "k < length (upcoming zones a now d)" for k
    using that by (intro plain_slotsD [OF assms(1)]) simp
  then have "fst (upcoming zones a now d ! m) = fst (upcoming zones a now d ! n) \<longleftrightarrow>
      upcoming zones a now d ! m = upcoming zones a now d ! n"
    using assms(3,4) by (metis prod.collapse)
  then show ?thesis using assms(2-4) by (simp add: nth_eq_iff_index_eq)
qed

lemma plain_slots_cong:
  assumes "db_slots d' = db_slots d" "db_workspaces d' = db_workspaces d" "db_orgs d' = db_orgs d"
  shows "plain_slots zones a now d' = plain_slots zones a now d"
  by (simp only: plain_slots_def slots_frame(1) [OF assms])

lemma next_available_slot_Some:
  assumes "next_available_slot zones a ex now d = Some t"
  shows "\<exists>f. (t, f) \<in> set (upcoming zones a now d) \<and> (f \<or> t \<notin> occupied_datetimes a ex now d)" "now < t"
proof -
  let ?c = "next_slot_datetimes zones a now (card (occupied_datetimes a ex now d) + 1) d"
  obtain s where f: "find (\<lambda>s. \<not> taken (occupied_datetimes a ex now d) s) ?c = Some s" "fst s = t"
    using assms by (auto simp: next_available_slot_def Let_def)
  have "s \<in> set ?c \<and> \<not> taken (occupied_datetimes a ex now d) s"
    by (rule tbl_first_Some [unfolded tbl_first_def, OF f(1)])
  then have "s \<in> set (upcoming zones a now d) \<and> \<not> taken (occupied_datetimes a ex now d) s"
    unfolding next_slot_datetimes_take by (auto dest: in_set_takeD)
  then have *: "(t, snd s) \<in> set (upcoming zones a now d) \<and> (snd s \<or> t \<notin> occupied_datetimes a ex now d)"
    using f(2) by (cases s) (simp add: taken_def)
  then show "\<exists>f. (t, f) \<in> set (upcoming zones a now d) \<and> (f \<or> t \<notin> occupied_datetimes a ex now d)" by blast
  from * have "now < fst (t, snd s)" by (blast dest: upcoming_after)
  then show "now < t" by simp
qed

lemma next_available_slot_plain:
  assumes "next_available_slot zones a ex now d = Some t" "plain_slots zones a now d"
  shows "t \<in> fst ` set (upcoming zones a now d)" "t \<notin> occupied_datetimes a ex now d"
proof -
  obtain f where f: "(t, f) \<in> set (upcoming zones a now d)" "f \<or> t \<notin> occupied_datetimes a ex now d"
    using next_available_slot_Some(1) [OF assms(1)] by blast
  then show "t \<in> fst ` set (upcoming zones a now d)" by force
  from f show "t \<notin> occupied_datetimes a ex now d" using plain_slotsD [OF assms(2) f(1)] by simp
qed

section \<open>Lemmas: the ladder\<close>

lemma find_rung_props:
  assumes "find_rung zones now a d avoid assigned cands j = Some (cands', j')"
    and "cands = take k (upcoming zones a now d)"
  shows "(\<exists>k'. cands' = take k' (upcoming zones a now d)) \<and> j \<le> j' \<and> j' < length cands' \<and>
    j' \<notin> assigned \<and> \<not> taken avoid (cands' ! j')"
  using assms
proof (induction zones now a d avoid assigned cands j arbitrary: k rule: find_rung.induct)
  case (1 zones now a d avoid assigned cands j)
  define c where "c = (if j \<ge> length cands then next_slot_datetimes zones a now (j + 2) d else cands)"
  have k: "\<exists>k'. c = take k' (upcoming zones a now d)"
    using "1.prems"(2) by (auto simp: c_def next_slot_datetimes_take)
  have unf: "find_rung zones now a d avoid assigned cands j =
      (if j \<ge> length c then None
       else if j \<notin> assigned \<and> \<not> taken avoid (c ! j) then Some (c, j)
       else find_rung zones now a d avoid assigned c (j + 1))"
    by (subst find_rung.simps) (simp only: c_def Let_def)
  have len: "\<not> j \<ge> length c" using "1.prems"(1) unfolding unf by (auto split: if_splits)
  show ?case
  proof (cases "j \<notin> assigned \<and> \<not> taken avoid (c ! j)")
    case True
    then show ?thesis using "1.prems"(1) len k unfolding unf by auto
  next
    case False
    obtain k' where "c = take k' (upcoming zones a now d)" using k by blast
    moreover have "find_rung zones now a d avoid assigned c (j + 1) = Some (cands', j')"
      using "1.prems"(1) len False unfolding unf by simp
    ultimately show ?thesis using "1.IH" [OF c_def len False, of k'] by (metis add_leD1)
  qed
qed

declare find_rung.simps [simp del]

definition rung_ok ::
  "(string \<Rightarrow> zone) \<Rightarrow> instant \<Rightarrow> social_account \<Rightarrow> nat list \<Rightarrow> instant set \<Rightarrow> nat set \<Rightarrow>
     (nat \<times> queue_entry \<times> platform_post) list \<Rightarrow> db \<Rightarrow> bool" where
  \<comment> \<open>every row that holds a slot is one to avoid, one already placed, or one still to move\<close>
  "rung_ok zones now a own avoid assigned ms d \<longleftrightarrow>
    (\<forall>r \<in> set (db_pps d). \<forall>t. holds (sa_id a) now r t \<and> pp_id r \<notin> set own \<longrightarrow>
       t \<in> avoid \<or>
       (\<exists>j \<in> assigned - {0}. j < length (upcoming zones a now d) \<and> t = fst (upcoming zones a now d ! j)) \<or>
       (\<exists>(i, e, p) \<in> set ms. pp_id p = pp_id r \<and> i < length (upcoming zones a now d) \<and> t = fst (upcoming zones a now d ! i)))"

lemma upcoming_write: "upcoming zones a now (write_slot now' e p t d) = upcoming zones a now d"
  by (rule slots_frame) (simp_all add: frame_simps)

lemma ladder_keeps:
  assumes "ladder zones now a avoid assigned cands ms d = Some (cands', d')"
    and "cands = take k (upcoming zones a now d)" "cands \<noteq> []" "0 \<in> assigned"
    and "distinct (upcoming zones a now d)" "plain_slots zones a now d"
    and "sorted_wrt (\<lambda>(i, _) (j, _). j \<le> i) ms"
    and "channel_ok_but own (sa_id a) now d" "rung_ok zones now a own avoid assigned ms d"
  shows "channel_ok_but own (sa_id a) now d' \<and> hd cands' = hd (upcoming zones a now d) \<and>
    (\<exists>assigned'. rung_ok zones now a own avoid assigned' [] d') \<and>
    upcoming zones a now d' = upcoming zones a now d"
  using assms
proof (induction zones now a avoid assigned cands ms d arbitrary: k rule: ladder.induct)
  case (1 zones now a avoid assigned cands d)
  then have "cands' = cands" "d' = d" "hd cands = hd (upcoming zones a now d)" by (auto simp: hd_take)
  then show ?case using "1.prems" by blast
next
  case (2 zones now a avoid assigned cands i e p ms d)
  let ?U = "upcoming zones a now d"
  obtain c j where f: "find_rung zones now a d avoid assigned cands (i + 1) = Some (c, j)"
    using "2.prems"(1) by (cases "find_rung zones now a d avoid assigned cands (i + 1)") auto
  obtain k' where c: "c = take k' ?U" and j: "i + 1 \<le> j" "j < length c" "j \<notin> assigned" "\<not> taken avoid (c ! j)"
    using find_rung_props [OF f "2.prems"(2)] by blast
  have U: "j < length ?U" "c ! j = ?U ! j" using j(2) by (simp_all add: c)
  then have "c ! j \<in> set ?U" by simp
  then have na: "fst (c ! j) \<notin> avoid" using j(4) plain_slots_taken [OF "2.prems"(6)] by simp
  define d1 where "d1 = write_slot now e (Some p) (fst (c ! j)) d"
  have U1: "upcoming zones a now d1 = ?U" by (simp add: d1_def upcoming_write)
  have P1: "plain_slots zones a now d1" using "2.prems"(6) by (simp only: plain_slots_def U1)
  note nth = plain_slots_fst [OF "2.prems"(6,5)]
  have free: "fst (c ! j) \<notin> occupied_datetimes a (pp_id p # own) now d"
  proof
    assume "fst (c ! j) \<in> occupied_datetimes a (pp_id p # own) now d"
    then obtain r where r: "r \<in> set (db_pps d)" "holds (sa_id a) now r (fst (c ! j))" "pp_id r \<noteq> pp_id p" "pp_id r \<notin> set own"
      by (auto simp: occupied_iff)
    then have "fst (c ! j) \<in> avoid \<or> (\<exists>j' \<in> assigned - {0}. j' < length ?U \<and> fst (c ! j) = fst (?U ! j')) \<or>
       (\<exists>(i', e', p') \<in> set ((i, e, p) # ms). pp_id p' = pp_id r \<and> i' < length ?U \<and> fst (c ! j) = fst (?U ! i'))"
      using "2.prems"(9) unfolding rung_ok_def by blast
    moreover have "i' \<le> i" if "(i', e', p') \<in> set ms" for i' e' p'
      using "2.prems"(7) that by auto
    ultimately show False using j na r(3) U nth by (auto split: prod.splits) fastforce+
  qed
  have ok1: "channel_ok_but own (sa_id a) now d1"
    unfolding d1_def by (rule channel_ok_but_write [OF "2.prems"(8) free]) simp
  have rung1: "rung_ok zones now a own avoid (insert j assigned) ms d1"
    unfolding rung_ok_def U1
  proof (intro ballI allI impI)
    fix r t assume "r \<in> set (db_pps d1)" and h: "holds (sa_id a) now r t \<and> pp_id r \<notin> set own"
    then obtain r0 where r0: "r0 \<in> set (db_pps d)"
      "r = (if pp_id r0 = pp_id p then r0\<lparr>pp_scheduled_at := Some (fst (c ! j)), pp_updated_at := now\<rparr> else r0)"
      by (auto simp: d1_def write_slot_rows set_tbl_update)
    show "t \<in> avoid \<or> (\<exists>j' \<in> insert j assigned - {0}. j' < length ?U \<and> t = fst (?U ! j')) \<or>
       (\<exists>(i', e', p') \<in> set ms. pp_id p' = pp_id r \<and> i' < length ?U \<and> t = fst (?U ! i'))"
    proof (cases "pp_id r0 = pp_id p")
      case True
      then have "t = fst (?U ! j)" using h r0(2) U(2) by (auto simp: holds_def)
      then show ?thesis using U(1) j(1) by auto
    next
      case False
      then have "r = r0" using r0(2) by simp
      then show ?thesis using h r0(1) False "2.prems"(9) unfolding rung_ok_def by fastforce
    qed
  qed
  have l: "ladder zones now a avoid (insert j assigned) c ms d1 = Some (cands', d')"
    using "2.prems"(1) f by (simp add: d1_def)
  have "upcoming zones a now d \<noteq> []" using U(1) by auto
  then show ?case
    using "2.IH" [OF f refl l [unfolded d1_def], of k', folded d1_def] U1 c j(2) "2.prems"(4,5,6,7) ok1 rung1 P1
    by auto
qed

text \<open>A row without its time: what no slot write changes.\<close>

definition bare :: "platform_post \<Rightarrow> platform_post" where
  "bare r = r\<lparr>pp_scheduled_at := None, pp_updated_at := 0\<rparr>"

lemma bare_write: "map bare (db_pps (write_slot now e p t d)) = map bare (db_pps d)"
  by (cases p) (simp_all add: write_slot_rows tbl_update_def bare_def)

lemma bare_ladder:
  "ladder zones now a avoid assigned cands ms d = Some (c, d') \<Longrightarrow> map bare (db_pps d') = map bare (db_pps d)"
proof (induction zones now a avoid assigned cands ms d rule: ladder.induct)
  case (2 zones now a avoid assigned cands i e p ms d)
  then show ?case by (auto simp: bare_write split: option.splits)
qed simp

lemma bare_id: "bare x = bare y \<Longrightarrow> pp_id x = pp_id y"
proof -
  assume "bare x = bare y"
  then have "pp_id (bare x) = pp_id (bare y)" by (rule arg_cong)
  then show ?thesis by (simp add: bare_def)
qed

lemma bare_get:
  assumes "map bare t' = map bare t" "tbl_get pp_id i t = Some r"
  shows "\<exists>r'. tbl_get pp_id i t' = Some r' \<and> bare r' = bare r"
  using assms
proof (induction t arbitrary: t')
  case Nil
  then show ?case by (simp add: tbl_get_def)
next
  case (Cons y t)
  obtain x u where x: "t' = x # u" "bare x = bare y" "map bare u = map bare t"
    using Cons.prems(1) by (auto simp only: map_eq_Cons_conv list.map)
  show ?case
  proof (cases "pp_id y = i")
    case True
    then have "tbl_get pp_id i t' = Some x" "r = y"
      using Cons.prems(2) bare_id [OF x(2)] by (simp_all add: tbl_get_def x(1))
    with x(2) show ?thesis by simp
  next
    case False
    then have "tbl_get pp_id i t = Some r" "tbl_get pp_id i t' = tbl_get pp_id i u"
      using Cons.prems(2) bare_id [OF x(2)] by (simp_all add: tbl_get_def x(1))
    then show ?thesis using Cons.IH [OF x(3)] by simp
  qed
qed

lemma last_index_props: "x \<in> set xs \<Longrightarrow> last_index x xs < length xs \<and> xs ! last_index x xs = x"
  by (induction xs) auto

lemma movable_entries_props:
  assumes "(e, p, t) \<in> set (movable_entries q po now d)"
  shows "p \<in> set (db_pps d)" "holds (qu_account q) now p t"
proof -
  obtain e' where m: "(e, p, t) \<in> set (movable_of q now d e')"
    using assms by (auto simp: movable_entries_def)
  have e': "child_on (qe_post e') (qu_account q) d = Some p \<and> \<not> is_protected (Some p) \<and>
    pp_scheduled_at p = Some t \<and> \<not> t \<le> now"
  proof (cases "child_on (qe_post e') (qu_account q) d")
    case (Some x)
    then show ?thesis using m by (cases "pp_scheduled_at x") (auto simp: movable_of_def split: if_splits)
  qed (use m in \<open>simp add: movable_of_def\<close>)
  have "p \<in> set (db_pps d) \<and> pp_post p = qe_post e' \<and> pp_account p = qu_account q"
    using conjunct1 [OF e'] unfolding child_on_def by (rule tbl_first_Some)
  with e' show "p \<in> set (db_pps d)" "holds (qu_account q) now p t"
    by (simp_all add: holds_def is_protected_def)
qed

lemma rung_ok_start:
  assumes "channel_ok (sa_id a) now d" "qu_account q = sa_id a" "db_pps d1 = db_pps d"
    and U: "upcoming zones a now d1 = U" "cands = take k U"
    and "in_cands = filter (\<lambda>(e, p, t). (t, False) \<in> set cands) (movable_entries q po now d)"
    and "set ms = set (map (\<lambda>(e, p, t). (last_index (t, False) cands, e, p)) in_cands)"
    and "avoid = occupied_datetimes a own now d1 - set (map (\<lambda>(e, p, t). t) in_cands)"
  shows "rung_ok zones now a own avoid assigned ms d1"
  unfolding rung_ok_def U(1)
proof (intro ballI allI impI)
  fix r t assume r: "r \<in> set (db_pps d1)" and h: "holds (sa_id a) now r t \<and> pp_id r \<notin> set own"
  then have o: "t \<in> occupied_datetimes a own now d1" by (auto simp: occupied_iff)
  show "t \<in> avoid \<or> (\<exists>j \<in> assigned - {0}. j < length U \<and> t = fst (U ! j)) \<or>
     (\<exists>(i, e, p) \<in> set ms. pp_id p = pp_id r \<and> i < length U \<and> t = fst (U ! i))"
  proof (cases "t \<in> set (map (\<lambda>(e, p, t). t) in_cands)")
    case False
    then show ?thesis using o assms(8) by simp
  next
    case True
    then obtain e p where m: "(e, p, t) \<in> set (movable_entries q po now d)" "(t, False) \<in> set cands"
      "(e, p, t) \<in> set in_cands"
      by (auto simp: assms(6))
    note mp = movable_entries_props [OF m(1), unfolded assms(2)]
    have "pp_id p = pp_id r"
      using assms(1) mp r h unfolding channel_ok_def channel_ok_but_def assms(3) by auto
    moreover have "last_index (t, False) cands < length U \<and> t = fst (U ! last_index (t, False) cands)"
      using last_index_props [OF m(2)] unfolding U(2) by (metis fst_conv length_take min_less_iff_conj nth_take)
    moreover have "(last_index (t, False) cands, e, p) \<in> set ms" using m(3) by (force simp: assms(7))
    ultimately show ?thesis by blast
  qed
qed

lemma prioritize_keeps_others:
  assumes "prioritize zones now po q a d = Inr d'" "channel_ok (sa_id a) now d"
    "distinct (upcoming zones a now d)" "plain_slots zones a now d" "qu_account q = sa_id a"
  obtains d2 e t where "d' = write_slot now e (child_on po (sa_id a) d) t d2"
    "channel_ok_but (own_id (child_on po (sa_id a) d)) (sa_id a) now d2"
    "t \<notin> occupied_datetimes a (own_id (child_on po (sa_id a) d)) now d2"
    "t \<in> fst ` set (upcoming zones a now d)" "map bare (db_pps d2) = map bare (db_pps d)"
proof -
  let ?p = "child_on po (sa_id a) d"
  let ?own = "own_id ?p"
  let ?U = "upcoming zones a now d"
  define movable where "movable = movable_entries q po now d"
  define cands where "cands = next_slot_datetimes zones a now (length movable + 2) d"
  obtain e d1 where e: "ensure_entry po q d = (e, d1)" by fastforce
  note fr = ensure_entry_frame [OF e]
  have U1: "upcoming zones a now d1 = ?U" by (rule slots_frame) (simp_all add: fr)
  have cands: "cands = take (max 1 (length movable + 2)) ?U"
    by (simp add: cands_def next_slot_datetimes_take)
  have ne: "cands \<noteq> []"
    using assms(1) by (auto simp: prioritize_def Let_def cands_def movable_def)
  have hd: "hd cands \<in> set ?U" using ne unfolding cands by (metis hd_in_set in_set_takeD)
  note hd_taken = plain_slots_taken [OF assms(4) hd]
  have P1: "plain_slots zones a now d1" using assms(4) by (simp only: plain_slots_def U1)
  have ok1: "channel_ok_but ?own (sa_id a) now d1"
    using channel_ok_but_mono [OF assms(2)] by (simp only: channel_ok_but_cong [OF fr(1)])
  have unf: "prioritize zones now po q a d =
    (if \<not> taken (set (map (\<lambda>(e, p, t). t) movable)) (hd cands) then place_first zones now q a ?p e (hd cands) d1
     else ladder_up zones now q a ?p e movable cands d1)"
    by (simp only: prioritize_def Let_def movable_def [symmetric] cands_def [symmetric] e prod.case ne if_False)
  show thesis
  proof (cases "taken (set (map (\<lambda>(e, p, t). t) movable)) (hd cands)")
    case False
    show thesis
    proof (cases "taken (occupied_datetimes a ?own now d1) (hd cands)")
      case True
      then obtain t where t: "next_available_slot zones a ?own now d1 = Some t" "d' = write_slot now e ?p t d1"
        using assms(1) False unfolding unf place_first_def by (auto split: option.splits)
      show thesis using that [OF t(2) ok1] next_available_slot_plain [OF t(1) P1] U1 fr(1) by simp
    next
      case free: False
      then have "d' = write_slot now e ?p (fst (hd cands)) d1" using assms(1) False unfolding unf place_first_def by simp
      moreover have "fst (hd cands) \<notin> occupied_datetimes a ?own now d1" using free by (simp add: hd_taken)
      moreover have "fst (hd cands) \<in> fst ` set ?U" using hd by simp
      ultimately show thesis using that ok1 fr(1) by metis
    qed
  next
    case True
    define in_cands where "in_cands = filter (\<lambda>(e, p, t). (t, False) \<in> set cands) movable"
    define avoid where "avoid = occupied_datetimes a ?own now d1 - set (map (\<lambda>(e, p, t). t) in_cands)"
    define ms where "ms = sort_key (\<lambda>(i, e, p). - int i) (map (\<lambda>(e, p, t). (last_index (t, False) cands, e, p)) in_cands)"
    obtain cands' d2 where l: "ladder zones now a avoid {0} cands ms d1 = Some (cands', d2)"
      and d': "d' = write_slot now e ?p (fst (hd cands')) d2"
      using assms(1) True unfolding unf ladder_up_def Let_def in_cands_def [symmetric] avoid_def [symmetric]
        ms_def [symmetric]
      by (cases "ladder zones now a avoid {0} cands ms d1") auto
    have r: "rung_ok zones now a ?own avoid {0} ms d1"
      by (rule rung_ok_start [OF assms(2,5) fr(1) U1 cands in_cands_def [unfolded movable_def] _ avoid_def])
        (simp add: ms_def)
    have "sorted_wrt (\<lambda>x y. (case x of (i, e, p) \<Rightarrow> - int i) \<le> (case y of (i, e, p) \<Rightarrow> - int i)) ms"
      unfolding ms_def by (rule sorted_sort_key [unfolded sorted_map])
    then have srt: "sorted_wrt (\<lambda>(i, _) (j, _). j \<le> i) ms"
      by (rule sorted_wrt_mono_rel [rotated]) auto
    have K: "channel_ok_but ?own (sa_id a) now d2 \<and> hd cands' = hd ?U \<and>
        (\<exists>assigned'. rung_ok zones now a ?own avoid assigned' [] d2) \<and> upcoming zones a now d2 = ?U"
      using ladder_keeps [OF l _ ne _ _ P1 srt ok1 r] cands assms(3) unfolding U1 by blast
    have hd_eq: "hd ?U = hd cands" using ne unfolding cands by (simp add: hd_take)
    have distinct_U: "distinct ?U" by (rule assms(3))
    have "fst (hd ?U) \<notin> occupied_datetimes a ?own now d2"
    proof
      assume "fst (hd ?U) \<in> occupied_datetimes a ?own now d2"
      then obtain x where x: "x \<in> set (db_pps d2)" "holds (sa_id a) now x (fst (hd ?U))" "pp_id x \<notin> set ?own"
        by (auto simp: occupied_iff)
      obtain A where "rung_ok zones now a ?own avoid A [] d2" using K by blast
      then have "fst (hd ?U) \<in> avoid \<or> (\<exists>j \<in> A - {0}. j < length ?U \<and> fst (hd ?U) = fst (?U ! j))"
        using x K unfolding rung_ok_def by auto
      moreover have "fst (hd ?U) \<notin> avoid"
      proof -
        have "hd cands \<in> set cands" using ne by simp
        then have "(fst (hd cands), False) \<in> set cands" using plain_slotsD [OF assms(4) hd] by simp
        moreover have "fst (hd cands) \<in> set (map (\<lambda>(e, p, t). t) movable)" using True by (simp add: hd_taken)
        ultimately have "fst (hd cands) \<in> set (map (\<lambda>(e, p, t). t) in_cands)"
          unfolding in_cands_def by force
        then show ?thesis unfolding avoid_def hd_eq by blast
      qed
      moreover have "fst (hd ?U) \<noteq> fst (?U ! j)" if "j \<in> A - {0}" "j < length ?U" for j
      proof -
        have z: "0 < length ?U" using that(2) by linarith
        then have "hd ?U = ?U ! 0" by (metis hd_conv_nth length_greater_0_conv)
        then show ?thesis using plain_slots_fst [OF assms(4) distinct_U z that(2)] that(1) by simp
      qed
      ultimately show False by blast
    qed
    moreover have "map bare (db_pps d2) = map bare (db_pps d)" using bare_ladder [OF l] by (simp add: fr(1))
    ultimately show thesis using that [OF d'] K hd hd_eq by simp
  qed
qed

section \<open>Properties: slots\<close>

text \<open>
  C35. Looking only at the first \<open>len(occupied) + 1\<close> slots loses nothing: when the horizon has no slot
  twice, the answer is the first slot of the whole horizon that Python does not find among the occupied
  times, and \<open>None\<close> only when there is none. A slot at an ambiguous or missing local time is never found
  there.
\<close>

theorem next_available_slot_is_first_free:
  assumes "distinct (upcoming zones a now d)"
  shows "next_available_slot zones a ex now d =
    map_option fst (find (\<lambda>s. snd s \<or> fst s \<notin> occupied_datetimes a ex now d) (upcoming zones a now d))"
proof -
  let ?O = "occupied_datetimes a ex now d"
  let ?U = "upcoming zones a now d"
  let ?n = "card ?O + 1"
  have "find (\<lambda>s. \<not> taken ?O s) (take ?n ?U) = find (\<lambda>s. \<not> taken ?O s) ?U"
  proof (cases "find (\<lambda>s. \<not> taken ?O s) (take ?n ?U)")
    case (Some t)
    moreover have "find (\<lambda>s. \<not> taken ?O s) (take ?n ?U @ drop ?n ?U) = Some t"
      using Some tbl_first_append [unfolded tbl_first_def, of "\<lambda>s. \<not> taken ?O s" "take ?n ?U" "drop ?n ?U"] by simp
    ultimately show ?thesis by simp
  next
    case None
    then have sub: "set (take ?n ?U) \<subseteq> (\<lambda>t. (t, False)) ` ?O"
      by (force simp: find_None_iff taken_def image_iff)
    have "length (take ?n ?U) = card (set (take ?n ?U))"
      using assms by (metis distinct_card distinct_take)
    also have "\<dots> \<le> card ((\<lambda>t. (t, False)) ` ?O)"
      using sub finite_occupied by (intro card_mono) auto
    also have "\<dots> \<le> card ?O" by (rule card_image_le [OF finite_occupied])
    finally have "take ?n ?U = ?U" by auto
    then show ?thesis by simp
  qed
  then show ?thesis by (simp add: next_available_slot_def Let_def next_slot_datetimes_take taken_def)
qed

text \<open>
  A slot at an ambiguous or missing local time is offered whoever holds it: if the next slot of the channel
  is such a slot, it is handed out although a queued post already stands there.
\<close>

theorem ambiguous_slot_is_handed_out_twice:
  assumes "upcoming zones a now d = (t, True) # slots"
  shows "next_available_slot zones a ex now d = Some t"
  by (simp add: next_available_slot_def Let_def next_slot_datetimes_take assms taken_def)

lemma days_pos: "days 1 = 86400000000"
  by (simp add: days_def hours_def seconds_def)

lemma day_of_UTC: "0 \<le> t \<Longrightarrow> t < days 1 \<Longrightarrow> z_at UTC date t div days 1 = date"
  by (simp add: UTC_def days_pos)

text \<open>In a zone without clock changes, different slots are different instants.\<close>

lemma distinct_horizon_UTC:
  assumes "distinct (map (\<lambda>s. (sl_day s, sl_time s)) ss)"
    and "\<And>s. s \<in> set ss \<Longrightarrow> 0 \<le> sl_time s \<and> sl_time s < days 1"
  shows "distinct (horizon_instants UTC ss date)"
proof -
  have day: "fst t div days 1 = k" if "t \<in> set (day_instants UTC ss k)" for t k
    using that assms(2) day_of_UTC by (auto simp: day_instants_def)
  have one: "distinct (day_instants UTC ss k)" for k
  proof -
    have "inj_on (\<lambda>s. (sl_day s, sl_time s)) (set ss)" "distinct ss"
      using assms(1) by (auto simp: distinct_map)
    then have "inj_on (\<lambda>s. z_at UTC k (sl_time s)) (set (filter (\<lambda>s. sl_day s = int (weekday k)) ss))"
      by (auto simp: inj_on_def UTC_def)
    then have "inj_on (\<lambda>s. (z_at UTC k (sl_time s), z_fold UTC k (sl_time s)))
        (set (filter (\<lambda>s. sl_day s = int (weekday k)) ss))"
      by (simp add: inj_on_def)
    then show ?thesis using \<open>distinct ss\<close> by (simp add: day_instants_def distinct_map)
  qed
  have "distinct (concat (map (\<lambda>k. day_instants UTC ss (date + int k)) [0..<n]))" for n
  proof (induction n)
    case (Suc n)
    have "t \<notin> set (day_instants UTC ss (date + int n))"
      if t: "t \<in> set (day_instants UTC ss (date + int k))" "k < n" for t k
    proof
      assume "t \<in> set (day_instants UTC ss (date + int n))"
      from day [OF this] day [OF t(1)] show False using t(2) by simp
    qed
    then show ?case using Suc one by auto
  qed simp
  then show ?thesis by (simp add: horizon_instants_def)
qed

definition slot_db :: db where
  "slot_db = sample_db\<lparr>db_slots :=
     [\<lparr>sl_id = 1, sl_account = 5, sl_day = 3, sl_time = clock 9 0, sl_active = True\<rparr>,
      \<lparr>sl_id = 2, sl_account = 5, sl_day = 3, sl_time = clock 10 0, sl_active = True\<rparr>]\<rparr>"

definition sample_queue :: queue where
  "sample_queue = \<lparr>qu_id = 2, qu_workspace = 1, qu_name = ''Q'', qu_account = 5, qu_active = True\<rparr>"

lemma slot_db_slots: "account_slots 5 slot_db = db_slots slot_db"
  by (simp add: account_slots_def slot_order_def slot_db_def clock_def)

lemma slot_db_distinct: "distinct (upcoming (\<lambda>_. UTC) sample_account now slot_db)"
proof -
  have "sa_id sample_account = 5" by (simp add: sample_account_def)
  moreover have "distinct (horizon_instants UTC (db_slots slot_db) date)" for date
    by (rule distinct_horizon_UTC) (auto simp: slot_db_def clock_def seconds_def days_pos)
  ultimately show ?thesis
    by (simp add: upcoming_def Let_def slot_db_slots slot_zone_def)
qed

lemma UTC_plain: "plain_slots (\<lambda>_. UTC) a now d"
proof -
  have "snd s = False" if "s \<in> set (upcoming (\<lambda>_. UTC) a now d)" for s
    using that by (auto simp: upcoming_def Let_def horizon_instants_def day_instants_def slot_zone_def UTC_def)
  then show ?thesis by (simp add: plain_slots_def list_all_iff)
qed

lemma slot_db_first: "\<exists>ys. upcoming (\<lambda>_. UTC) sample_account 0 slot_db = (clock 9 0, False) # ys"
proof -
  have "weekday 0 = 3" by (simp add: weekday_def)
  then have d: "day_instants UTC (db_slots slot_db) 0 = [(clock 9 0, False), (clock 10 0, False)]"
    by (simp add: day_instants_def slot_db_def UTC_def)
  have h: "horizon_instants UTC (db_slots slot_db) 0 =
      day_instants UTC (db_slots slot_db) 0 @ concat (map (\<lambda>k. day_instants UTC (db_slots slot_db) (int k)) [1..<HORIZON_DAYS])"
    unfolding horizon_instants_def by (subst upt_conv_Cons) (simp_all add: HORIZON_DAYS_def)
  have "z_date UTC 0 = 0" by (simp add: UTC_def)
  then show ?thesis
    by (simp add: upcoming_def Let_def slot_zone_def sample_account_def slot_db_slots h d clock_def)
qed

lemma slot_db_free: "clock 9 0 \<notin> occupied_datetimes sample_account ex 0 slot_db"
  by (auto simp: occupied_datetimes_def slot_db_def sample_defs clock_def seconds_def)

lemma slot_db_child: "child_on 7 5 slot_db = Some (hd (db_pps sample_db))"
  by (simp add: child_on_def tbl_first_def slot_db_def sample_defs)

lemma slot_db_channel_ok: "channel_ok 5 0 slot_db"
  by (simp add: channel_ok_def channel_ok_but_def holds_def slot_db_def sample_defs)

theorem next_available_slot_is_first_free_witness:
  "next_available_slot (\<lambda>_. UTC) sample_account [] 0 slot_db = Some (clock 9 0)"
proof -
  obtain ys where u: "upcoming (\<lambda>_. UTC) sample_account 0 slot_db = (clock 9 0, False) # ys"
    using slot_db_first by blast
  show ?thesis
    unfolding next_available_slot_is_first_free [OF slot_db_distinct] u using slot_db_free by simp
qed

text \<open>
  Where no slot of the horizon is at an ambiguous or missing local time, adding a post to a queue puts its
  channel at an upcoming slot of the channel that no other row holds, leaves every other row alone, keeps the promise that no slot of the channel is
  booked twice, and never touches a row that is published or being published.
\<close>

theorem add_next_available_books_a_free_slot:
  assumes "add_post_next_available zones now po q a d = Inr (e, d')" "channel_ok (sa_id a) now d"
    "plain_slots zones a now d"
    and "child_on po (sa_id a) d = Some p"
  shows "channel_ok (sa_id a) now d' \<and>
    (if pp_status p \<in> set PROTECTED_STATUSES then d' = d
     else \<exists>t. t \<in> fst ` set (upcoming zones a now d) \<and> t \<notin> occupied_datetimes a [pp_id p] now d \<and>
       db_pps d' = map (\<lambda>r. if pp_id r = pp_id p
                           then r\<lparr>pp_scheduled_at := Some t, pp_updated_at := now\<rparr> else r) (db_pps d))"
proof (cases "pp_status p \<in> set PROTECTED_STATUSES")
  case True
  then show ?thesis using assms(1,2,4) by (simp add: add_post_next_available_def is_protected_def)
next
  case False
  then have np: "\<not> is_protected (Some p)" by (simp add: is_protected_def)
  obtain t where t: "next_available_slot zones a [pp_id p] now d = Some t"
    using assms(1,4) np
    by (cases "next_available_slot zones a [pp_id p] now d") (auto simp: add_post_next_available_def)
  obtain x d1 where x: "ensure_entry po q d = (x, d1)" by fastforce
  note fr = ensure_entry_frame [OF x]
  have d': "d' = write_slot now x (Some p) t d1"
    using assms(1,4) np t x by (simp add: add_post_next_available_def)
  have "channel_ok (sa_id a) now d'"
    unfolding d'
  proof (rule channel_ok_write)
    show "channel_ok_but [pp_id p] (sa_id a) now d1"
      using channel_ok_but_mono [OF assms(2)] by (simp only: channel_ok_but_cong [OF fr(1)])
    show "t \<notin> occupied_datetimes a [pp_id p] now d1"
      using next_available_slot_plain(2) [OF t assms(3)] by (simp only: occupied_cong [OF fr(1)] not_False_eq_True)
  qed
  moreover have "db_pps d' = map (\<lambda>r. if pp_id r = pp_id p
                           then r\<lparr>pp_scheduled_at := Some t, pp_updated_at := now\<rparr> else r) (db_pps d)"
    unfolding d' write_slot_rows tbl_update_def fr(1) ..
  ultimately show ?thesis
    unfolding if_not_P [OF False] using next_available_slot_plain [OF t assms(3)] by blast
qed

text \<open>And so the channel is booked twice at that time.\<close>

theorem ambiguous_slot_is_double_booked:
  assumes "upcoming zones a now d = (t, True) # slots"
    and "r \<in> set (db_pps d)" "holds (sa_id a) now r t"
    and "child_on po (sa_id a) d = Some p" "pp_status p \<notin> set PROTECTED_STATUSES" "pp_id p \<noteq> pp_id r"
    and "add_post_next_available zones now po q a d = Inr (e, d')"
  shows "\<not> channel_ok (sa_id a) now d'"
proof -
  obtain x d1 where x: "ensure_entry po q d = (x, d1)" by fastforce
  note fr = ensure_entry_frame [OF x]
  have d': "d' = write_slot now x (Some p) t d1"
    using assms(4,5,7) x ambiguous_slot_is_handed_out_twice [OF assms(1)]
    by (simp add: add_post_next_available_def is_protected_def)
  let ?p = "p\<lparr>pp_scheduled_at := Some t, pp_updated_at := now\<rparr>"
  have p: "p \<in> set (db_pps d) \<and> pp_account p = sa_id a"
    using assms(4) unfolding child_on_def by (blast dest: tbl_first_Some)
  then have "?p \<in> set (db_pps d')" unfolding d' write_slot_rows set_tbl_update fr(1) by force
  moreover have "r \<in> set (db_pps d')"
    using assms(2,6) unfolding d' write_slot_rows set_tbl_update fr(1) by force
  moreover have "holds (sa_id a) now ?p t" using assms(3,5) p by (simp add: holds_def)
  moreover have "pp_id ?p \<noteq> pp_id r" using assms(6) by simp
  ultimately show ?thesis using assms(3) unfolding channel_ok_def channel_ok_but_def by fastforce
qed

theorem add_next_available_books_a_free_slot_witness:
  "\<exists>e d'. add_post_next_available (\<lambda>_. UTC) 0 7 sample_queue sample_account slot_db = Inr (e, d') \<and>
    channel_ok 5 0 d'"
proof -
  let ?p = "hd (db_pps sample_db)"
  have i: "sa_id sample_account = 5" by (simp add: sample_account_def)
  have c: "child_on 7 (sa_id sample_account) slot_db = Some ?p" unfolding i by (rule slot_db_child)
  have np: "\<not> is_protected (Some ?p)" "pp_status ?p \<notin> set PROTECTED_STATUSES"
    by (simp_all add: is_protected_def PROTECTED_STATUSES_def sample_defs)
  obtain ys where "upcoming (\<lambda>_. UTC) sample_account 0 slot_db = (clock 9 0, False) # ys" using slot_db_first by blast
  then have n: "next_available_slot (\<lambda>_. UTC) sample_account [pp_id ?p] 0 slot_db = Some (clock 9 0)"
    using slot_db_free by (simp add: next_available_slot_def Let_def next_slot_datetimes_take taken_def)
  obtain x d1 where "ensure_entry 7 sample_queue slot_db = (x, d1)" by fastforce
  then obtain e d' where a: "add_post_next_available (\<lambda>_. UTC) 0 7 sample_queue sample_account slot_db = Inr (e, d')"
    using c np n by (simp add: add_post_next_available_def Let_def)
  have ok: "channel_ok (sa_id sample_account) 0 slot_db" unfolding i by (rule slot_db_channel_ok)
  note t = add_next_available_books_a_free_slot [OF a ok UTC_plain c]
  with a t show ?thesis unfolding i by blast
qed

text \<open>
  C36. Where the slots of the horizon are distinct and none of them is at an ambiguous or missing local
  time, prioritising a post puts its channel at an upcoming slot and, if no two rows of the channel held the
  same time before, none do after it: the ladder moves every displaced entry to a slot of its own that
  nobody else holds. Nothing but times changes.
\<close>

theorem prioritize_never_double_books:
  assumes "prioritize zones now po q a d = Inr d'" "channel_ok (sa_id a) now d"
    "distinct (upcoming zones a now d)" "list_all (\<lambda>s. \<not> snd s) (upcoming zones a now d)" "qu_account q = sa_id a"
    and "child_on po (sa_id a) d = Some p"
  shows "channel_ok (sa_id a) now d' \<and> map bare (db_pps d') = map bare (db_pps d) \<and>
    (\<exists>r \<in> set (db_pps d'). \<exists>t. pp_id r = pp_id p \<and> pp_scheduled_at r = Some t \<and>
       t \<in> fst ` set (upcoming zones a now d))"
proof -
  obtain d2 e t where d2: "d' = write_slot now e (Some p) t d2"
    "channel_ok_but [pp_id p] (sa_id a) now d2" "t \<notin> occupied_datetimes a [pp_id p] now d2"
    "t \<in> fst ` set (upcoming zones a now d)" "map bare (db_pps d2) = map bare (db_pps d)"
    by (rule prioritize_keeps_others [OF assms(1-3) assms(4) [folded plain_slots_def] assms(5), unfolded assms(6) own_id_def option.case])
  have p: "p \<in> set (db_pps d)" using assms(6) unfolding child_on_def by (blast dest: tbl_first_Some)
  then have "tbl_get pp_id (pp_id p) (db_pps d) \<noteq> None" by (auto simp: tbl_get_None)
  then obtain r2 where "tbl_get pp_id (pp_id p) (db_pps d2) = Some r2"
    using bare_get [OF d2(5)] by blast
  then have r2: "r2 \<in> set (db_pps d2)" "pp_id r2 = pp_id p" by (blast dest: tbl_get_Some)+
  have "r2\<lparr>pp_scheduled_at := Some t, pp_updated_at := now\<rparr> \<in> set (db_pps d')"
    using r2 unfolding d2(1) write_slot_rows set_tbl_update by force
  then have "\<exists>r \<in> set (db_pps d'). \<exists>t. pp_id r = pp_id p \<and> pp_scheduled_at r = Some t \<and>
       t \<in> fst ` set (upcoming zones a now d)"
    using r2(2) d2(4) by (intro bexI [of _ "r2\<lparr>pp_scheduled_at := Some t, pp_updated_at := now\<rparr>"]) auto
  moreover have "channel_ok (sa_id a) now d'" unfolding d2(1) by (rule channel_ok_write [OF d2(2,3)])
  moreover have "map bare (db_pps d') = map bare (db_pps d)" by (simp add: d2(1,5) bare_write)
  ultimately show ?thesis by blast
qed

lemma upcoming_pps: "upcoming zones a now (slot_db\<lparr>db_pps := ps\<rparr>) = upcoming zones a now slot_db"
  by (rule slots_frame) simp_all

lemma prioritize_sample:
  assumes "child_on 7 5 (slot_db\<lparr>db_pps := ps\<rparr>) = Some p"
    and "occupied_datetimes sample_account [pp_id p] 0 (slot_db\<lparr>db_pps := ps\<rparr>) = {}"
  shows "\<exists>d'. prioritize (\<lambda>_. UTC) 0 7 sample_queue sample_account (slot_db\<lparr>db_pps := ps\<rparr>) = Inr d'"
proof -
  let ?d = "slot_db\<lparr>db_pps := ps\<rparr>"
  have i: "sa_id sample_account = 5" by (simp add: sample_account_def)
  have m: "movable_entries sample_queue 7 0 ?d = []"
    by (simp add: movable_entries_def slot_db_def sample_defs sample_queue_def)
  obtain ys where "upcoming (\<lambda>_. UTC) sample_account 0 ?d = (clock 9 0, False) # ys"
    using slot_db_first by (auto simp: upcoming_pps)
  then obtain zs where c: "next_slot_datetimes (\<lambda>_. UTC) sample_account 0 (Suc (Suc 0)) ?d = (clock 9 0, False) # zs"
    by (simp add: next_slot_datetimes_take)
  obtain e d1 where e: "ensure_entry 7 sample_queue ?d = (e, d1)" by fastforce
  have "occupied_datetimes sample_account [pp_id p] 0 d1 = {}"
    unfolding occupied_cong [OF ensure_entry_frame(1) [OF e]] by (rule assms(2))
  then show ?thesis
    using e c by (simp add: prioritize_def Let_def m i assms(1) place_first_def own_id_def taken_def)
qed

theorem prioritize_never_double_books_witness:
  "\<exists>d'. prioritize (\<lambda>_. UTC) 0 7 sample_queue sample_account slot_db = Inr d' \<and> channel_ok 5 0 d'"
proof -
  have i: "sa_id sample_account = 5" by (simp add: sample_account_def)
  have s: "slot_db\<lparr>db_pps := db_pps slot_db\<rparr> = slot_db" by simp
  have o: "occupied_datetimes sample_account [pp_id (hd (db_pps sample_db))] 0 slot_db = {}"
    by (simp add: occupied_datetimes_def slot_db_def sample_defs)
  obtain d' where p: "prioritize (\<lambda>_. UTC) 0 7 sample_queue sample_account slot_db = Inr d'"
    using prioritize_sample [of "db_pps slot_db" "hd (db_pps sample_db)"] slot_db_child o unfolding s by blast
  have "channel_ok (sa_id sample_account) 0 d'"
    using prioritize_never_double_books [OF p _ slot_db_distinct UTC_plain [unfolded plain_slots_def], of "hd (db_pps sample_db)"]
      slot_db_channel_ok slot_db_child unfolding i by (simp add: sample_queue_def)
  with p show ?thesis unfolding i by blast
qed

text \<open>
  Unlike \<open>add_post_next_available\<close>, \<open>prioritize\<close> does not look at the status of the post it
  places: a channel already published is given a future time, which is exactly the corrupted
  state the repair looks for.
\<close>

theorem prioritize_reschedules_published:
  assumes "prioritize zones now po q a d = Inr d'" "channel_ok (sa_id a) now d"
    "distinct (upcoming zones a now d)" "plain_slots zones a now d" "qu_account q = sa_id a" "keys_ok d"
    and "child_on po (sa_id a) d = Some p"
    and "pp_status p = PUBLISHED" "pp_published_at p = Some u" "u \<le> now"
  shows "list_ex (\<lambda>r. pp_id r = pp_id p \<and> corrupted None d' r) (db_pps d')"
proof -
  obtain d2 e t where d2: "d' = write_slot now e (Some p) t d2" "t \<in> fst ` set (upcoming zones a now d)"
    "map bare (db_pps d2) = map bare (db_pps d)"
    by (rule prioritize_keeps_others [OF assms(1-5), unfolded assms(7) own_id_def option.case])
  have "p \<in> set (db_pps d)" using assms(7) unfolding child_on_def by (blast dest: tbl_first_Some)
  then have "tbl_get pp_id (pp_id p) (db_pps d) = Some p"
    using keys_ok_get_pp [OF assms(6)] by (simp add: get_pp_def)
  then obtain r2 where r2: "tbl_get pp_id (pp_id p) (db_pps d2) = Some r2" "bare r2 = bare p"
    using bare_get [OF d2(3)] by blast
  have "pp_status (bare r2) = pp_status (bare p)" "pp_published_at (bare r2) = pp_published_at (bare p)"
    using r2(2) by simp_all
  then have st: "pp_status r2 = PUBLISHED" "pp_published_at r2 = Some u"
    using assms(8,9) by (simp_all add: bare_def)
  have "r2 \<in> set (db_pps d2)" "pp_id r2 = pp_id p" using tbl_get_Some [OF r2(1)] by blast+
  then have "r2\<lparr>pp_scheduled_at := Some t, pp_updated_at := now\<rparr> \<in> set (db_pps d')"
    unfolding d2(1) write_slot_rows set_tbl_update by force
  moreover have "u < t" using upcoming_after d2(2) assms(10) by fastforce
  ultimately show ?thesis
    using st \<open>pp_id r2 = pp_id p\<close> unfolding list_ex_iff
    by (intro bexI [of _ "r2\<lparr>pp_scheduled_at := Some t, pp_updated_at := now\<rparr>"]) (simp_all add: corrupted_def)
qed

definition published_row :: platform_post where
  "published_row = (new_platform_post 8 7 5 0)\<lparr>pp_status := PUBLISHED, pp_scheduled_at := Some (- 20),
     pp_published_at := Some (- 10)\<rparr>"

theorem prioritize_reschedules_published_witness:
  "\<exists>d'. prioritize (\<lambda>_. UTC) 0 7 sample_queue sample_account (slot_db\<lparr>db_pps := [published_row]\<rparr>) = Inr d' \<and>
    list_ex (corrupted None d') (db_pps d')"
proof -
  let ?d = "slot_db\<lparr>db_pps := [published_row]\<rparr>"
  have i: "sa_id sample_account = 5" by (simp add: sample_account_def)
  have c: "child_on 7 5 ?d = Some published_row"
    by (simp add: child_on_def tbl_first_def published_row_def new_platform_post_def)
  have o: "occupied_datetimes sample_account [pp_id published_row] 0 ?d = {}"
    by (simp add: occupied_datetimes_def)
  obtain d' where p: "prioritize (\<lambda>_. UTC) 0 7 sample_queue sample_account ?d = Inr d'"
    using prioritize_sample [OF c o] by blast
  have ok: "channel_ok (sa_id sample_account) 0 ?d"
    by (simp add: channel_ok_def channel_ok_but_def)
  have k: "keys_ok ?d" by (simp add: keys_ok_def slot_db_def sample_defs)
  have u: "distinct (upcoming (\<lambda>_. UTC) sample_account 0 ?d)"
    unfolding upcoming_pps by (rule slot_db_distinct)
  have "list_ex (\<lambda>r. pp_id r = pp_id published_row \<and> corrupted None d' r) (db_pps d')"
    using prioritize_reschedules_published [OF p ok u UTC_plain _ k, of published_row "- 10"] c
    unfolding i by (simp add: published_row_def sample_queue_def)
  then have "list_ex (corrupted None d') (db_pps d')" by (auto simp: list_ex_iff)
  with p show ?thesis by blast
qed

end
