(* ===== verification/Mail_Budget.thy ===== *)
theory Mail_Budget
  imports Mail
begin

text \<open>
  What the mail budget promises. A meter is an interface: a reservation that is granted counts one
  in its own bucket, found it below its limit, and a refused one counts nothing. The all-or-nothing
  reservation of one message is a client of it, and the caps on what leaves in a day or an hour
  follow for every run of sends and purges whose clock does not go back.
\<close>

section \<open>Interface: a meter\<close>

locale meter =
  fixes used :: "'b \<Rightarrow> 's \<Rightarrow> nat"
    and reserve :: "'b \<Rightarrow> int \<Rightarrow> 's \<Rightarrow> bool \<times> 's"
  assumes granted: "reserve b l s = (True, s') \<Longrightarrow> used c s' = used c s + (if c = b then 1 else 0)"
    and below: "reserve b l s = (True, s') \<Longrightarrow> 0 \<le> l \<Longrightarrow> int (used b s) < l"
    and refused: "reserve b l s = (False, s') \<Longrightarrow> used c s' = used c s"
begin

fun reserve_all :: "('b \<times> int) list \<Rightarrow> 's \<Rightarrow> 's option" where
  "reserve_all [] s = Some s"
| "reserve_all ((b, l) # xs) s =
    (case reserve b l s of (False, _) \<Rightarrow> None | (True, s1) \<Rightarrow> reserve_all xs s1)"

lemma reserve_all_Cons:
  "reserve_all ((b, l) # xs) s = Some s' \<Longrightarrow>
   \<exists>s1. reserve b l s = (True, s1) \<and> reserve_all xs s1 = Some s'"
  by (cases "reserve b l s") (auto split: bool.splits)

lemma reserve_all_used:
  "reserve_all xs s = Some s' \<Longrightarrow> used c s' = used c s + count_list (map fst xs) c"
proof (induction xs arbitrary: s)
  case Nil
  then show ?case by simp
next
  case (Cons x xs)
  obtain b l where x: "x = (b, l)" by (cases x)
  obtain s1 where r: "reserve b l s = (True, s1)" and a: "reserve_all xs s1 = Some s'"
    using reserve_all_Cons Cons.prems unfolding x by blast
  show ?case using Cons.IH [OF a] granted [OF r, of c] by (simp add: x)
qed

lemma reserve_all_bounded:
  assumes "reserve_all xs s = Some s'" and "b \<in> fst ` set xs"
    and "\<And>l. (b, l) \<in> set xs \<Longrightarrow> 0 \<le> l \<and> l \<le> L"
  shows "int (used b s') \<le> L"
  using assms
proof (induction xs arbitrary: s)
  case Nil
  then show ?case by simp
next
  case (Cons x xs)
  obtain c l where x: "x = (c, l)" by (cases x)
  obtain s1 where r: "reserve c l s = (True, s1)" and a: "reserve_all xs s1 = Some s'"
    using reserve_all_Cons Cons.prems(1) unfolding x by blast
  show ?case
  proof (cases "b \<in> fst ` set xs")
    case True
    with a Cons.IH Cons.prems(3) show ?thesis by simp
  next
    case False
    then have b: "b = c" using Cons.prems(2) x by auto
    have "count_list (map fst xs) b = 0" using False by (simp add: count_list_0_iff)
    with reserve_all_used [OF a, of b] have "used b s' = used b s1" by simp
    moreover have "0 \<le> l \<and> l \<le> L" using Cons.prems(3) [of l] by (simp add: x b)
    ultimately show ?thesis using below [OF r] granted [OF r, of b] by (simp add: b)
  qed
qed

lemma reserve_all_append:
  "reserve_all (xs @ ys) s = (case reserve_all xs s of None \<Rightarrow> None | Some s1 \<Rightarrow> reserve_all ys s1)"
proof (induction xs arbitrary: s)
  case Nil
  then show ?case by simp
next
  case (Cons x xs)
  then show ?case by (cases x; cases "reserve (fst x) (snd x) s") (auto split: bool.splits)
qed

end

lemma spent_append_row: "spent b (with_row c cs) = spent b cs"
  by (cases "map_of cs b") (auto simp: spent_def with_row_def map_add_def split: if_splits)

lemma spent_update: "spent b (AList.update c n cs) = (if b = c then n else spent b cs)"
  by (simp add: spent_def update_conv')

lemma reserve_granted:
  assumes "reserve_budget env sc k st l fo cs = (True, cs')" and "fo \<longrightarrow> \<not> me_fails env (sc, k, st)"
  shows "spent b cs' = spent b cs + (if b = (sc, k, st) then 1 else 0)"
    and "0 \<le> l \<longrightarrow> int (spent (sc, k, st) cs) < l"
  using assms by (auto simp: reserve_budget_def Let_def spent_append_row spent_update split: if_splits)

lemma reserve_refused:
  "reserve_budget env sc k st l fo cs = (False, cs') \<Longrightarrow> spent b cs' = spent b cs"
  by (auto simp: reserve_budget_def Let_def spent_append_row split: if_splits)

definition reserve_bucket :: "mail_env \<Rightarrow> bucket \<Rightarrow> int \<Rightarrow> counters \<Rightarrow> bool \<times> counters" where
  "reserve_bucket env b l cs = (case b of (sc, k, st) \<Rightarrow> reserve_budget env sc k st l False cs)"

lemma reserve_bucket_row [simp]:
  "reserve_bucket env (sc, k, st) l cs = reserve_budget env sc k st l False cs"
  by (simp add: reserve_bucket_def)

interpretation mb: meter spent "reserve_bucket env" for env
proof
  fix b l s s' c
  assume "reserve_bucket env b l s = (True, s')"
  then show "spent c s' = spent c s + (if c = b then 1 else 0)"
    by (auto simp: reserve_bucket_def reserve_granted split: prod.splits)
next
  fix b l s s'
  assume "reserve_bucket env b l s = (True, s')" and "(0::int) \<le> l"
  then show "int (spent b s) < l"
    by (auto simp: reserve_bucket_def dest: reserve_granted(2) split: prod.splits)
next
  fix b l s s' c
  assume "reserve_bucket env b l s = (False, s')"
  then show "spent c s' = spent c s"
    by (auto simp: reserve_bucket_def reserve_refused split: prod.splits)
qed

section \<open>One message as a list of claims\<close>

definition recipient_claims :: "mail_env \<Rightarrow> instant \<Rightarrow> int \<Rightarrow> int \<Rightarrow> string list \<Rightarrow> (bucket \<times> int) list" where
  "recipient_claims env now hourly daily as =
    concat (map (\<lambda>a. [((''recipient_hour'', recipient_key env a, hour_start now), hourly),
                      ((''recipient_day'', recipient_key env a, day_start now), daily)]) as)"

definition claims :: "mail_env \<Rightarrow> instant \<Rightarrow> message \<Rightarrow> (bucket \<times> int) list" where
  "claims env now m =
    (if waited_on m then []
     else recipient_claims env now (mail_limit ''EMAIL_RECIPIENT_HOURLY_LIMIT'' 6 env)
       (mail_limit ''EMAIL_RECIPIENT_DAILY_LIMIT'' 20 env) (mg_to m))
    @ [((''global_day'', [], day_start now), mail_limit ''EMAIL_DAILY_SEND_LIMIT'' 2000 env)]"

lemma reserve_recipients_claims:
  "reserve_recipients env now hourly daily as cs =
   mb.reserve_all env (recipient_claims env now hourly daily as) cs"
proof (induction as arbitrary: cs)
  case Nil
  then show ?case by (simp add: recipient_claims_def)
next
  case (Cons a as)
  then show ?case
    by (simp add: recipient_claims_def split: prod.splits bool.splits)
qed

definition healthy :: "mail_env \<Rightarrow> bool" where
  \<comment> \<open>the row of the daily total can be read\<close>
  "healthy env \<longleftrightarrow> (\<forall>t. \<not> me_fails env (''global_day'', [], t))"

lemma reserve_message_claims:
  assumes "healthy env"
  shows "reserve_message env now m cs = mb.reserve_all env (claims env now m) cs"
proof -
  let ?g = "mail_limit ''EMAIL_DAILY_SEND_LIMIT'' 2000 env"
  have g: "reserve_budget env ''global_day'' [] (day_start now) ?g w c =
      reserve_bucket env (''global_day'', [], day_start now) ?g c" for w c
    using assms by (simp add: reserve_budget_def healthy_def)
  show ?thesis
    by (simp add: reserve_message_def claims_def mb.reserve_all_append g reserve_recipients_claims
        del: reserve_bucket_row split: option.splits prod.splits bool.splits)
qed

lemma allow_cases:
  assumes "allow env now m mx = (ok, mx')"
  shows "\<not> ok \<and> mx' = mx \<or>
    ok \<and> sending_enabled env \<and> recipients m \<noteq> [] \<and> \<not> is_suppressed env (recipients m) mx \<and>
    (\<exists>cs. reserve_message env now m (mx_counters mx) = Some cs \<and> mx' = mx\<lparr>mx_counters := cs\<rparr>)"
  using assms by (auto simp: allow_def split: if_splits option.splits)


section \<open>Runs\<close>

datatype mail_event = Send instant "message list" | Purge instant

fun event_time :: "mail_event \<Rightarrow> instant" where
  "event_time (Send t ms) = t"
| "event_time (Purge t) = t"

fun mail_step :: "mail_env \<Rightarrow> mailbox \<Rightarrow> mail_event \<Rightarrow> mailbox" where
  "mail_step env mx (Send t ms) = snd (send_messages env t ms mx)"
| "mail_step env mx (Purge t) = snd (purge_expired_counters t 7 mx)"

definition mail_run :: "mail_env \<Rightarrow> mail_event list \<Rightarrow> mailbox \<Rightarrow> mailbox" where
  "mail_run env es mx = foldl (mail_step env) mx es"

definition new_mailbox :: "string list \<Rightarrow> mailbox" where
  "new_mailbox suppressed = \<lparr>mx_counters = [], mx_suppressed = suppressed, mx_log = []\<rparr>"

definition scope_limit :: "mail_env \<Rightarrow> string \<Rightarrow> int" where
  "scope_limit env scope =
    (if scope = ''recipient_hour'' then mail_limit ''EMAIL_RECIPIENT_HOURLY_LIMIT'' 6 env
     else if scope = ''recipient_day'' then mail_limit ''EMAIL_RECIPIENT_DAILY_LIMIT'' 20 env
     else mail_limit ''EMAIL_DAILY_SEND_LIMIT'' 2000 env)"

definition charges :: "mail_env \<Rightarrow> bucket \<Rightarrow> (instant \<times> message) list \<Rightarrow> nat" where
  "charges env b log = sum_list (map (\<lambda>(t, m). count_list (map fst (claims env t m)) b) log)"

definition counted :: "mail_env \<Rightarrow> instant \<Rightarrow> (instant \<times> message) list \<Rightarrow> counters \<Rightarrow> bool" where
  "counted env now log cs \<longleftrightarrow>
    (\<forall>sc k st. now - days 7 \<le> st \<longrightarrow> charges env (sc, k, st) log \<le> spent (sc, k, st) cs) \<and>
    (\<forall>sc k st. 0 \<le> scope_limit env sc \<longrightarrow> int (charges env (sc, k, st) log) \<le> scope_limit env sc)"

lemma claims_limit: "((sc, k, st), l) \<in> set (claims env t m) \<Longrightarrow> l = scope_limit env sc"
  by (auto simp: claims_def recipient_claims_def scope_limit_def split: if_splits)

lemma claims_recent: "((sc, k, st), l) \<in> set (claims env t m) \<Longrightarrow> t - days 7 \<le> st"
proof -
  assume "((sc, k, st), l) \<in> set (claims env t m)"
  then have "st = hour_start t \<or> st = day_start t"
    by (auto simp: claims_def recipient_claims_def split: if_splits)
  moreover have "t mod hours 1 < hours 1" "t mod days 1 < days 1"
    by (simp_all add: days_def hours_def seconds_def)
  moreover have "hours 1 < days 7" "days 1 < days 7" by (simp_all add: days_def hours_def seconds_def)
  ultimately show ?thesis by (auto simp: hour_start_def day_start_def)
qed

lemma charges_append: "charges env b (l1 @ l2) = charges env b l1 + charges env b l2"
  by (simp add: charges_def)

lemma charges_one: "charges env b [(t, m)] = count_list (map fst (claims env t m)) b"
  by (simp add: charges_def)

lemma counted_later: "counted env t log cs \<Longrightarrow> t \<le> t' \<Longrightarrow> counted env t' log cs"
  by (fastforce simp: counted_def)

lemma counted_message:
  assumes c: "counted env t log cs" and h: "healthy env" and r: "reserve_message env t m cs = Some cs'"
  shows "counted env t (log @ [(t, m)]) cs'"
proof -
  have a: "mb.reserve_all env (claims env t m) cs = Some cs'"
    using r by (simp add: reserve_message_claims [OF h])
  have used: "spent b cs' = spent b cs + charges env b [(t, m)]" for b
    by (simp add: charges_one mb.reserve_all_used [OF a])
  have one: "charges env (sc, k, st) (log @ [(t, m)]) \<le> spent (sc, k, st) cs'"
    if "t - days 7 \<le> st" for sc k st
    using c that by (simp add: counted_def charges_append used)
  have two: "int (charges env (sc, k, st) (log @ [(t, m)])) \<le> scope_limit env sc"
    if pos: "0 \<le> scope_limit env sc" for sc k st
  proof (cases "(sc, k, st) \<in> fst ` set (claims env t m)")
    case False
    then have "charges env (sc, k, st) [(t, m)] = 0" by (simp add: charges_one count_list_0_iff)
    with c pos show ?thesis by (simp add: counted_def charges_append)
  next
    case True
    then obtain l where "((sc, k, st), l) \<in> set (claims env t m)" by auto
    then have "t - days 7 \<le> st" by (rule claims_recent)
    then have "charges env (sc, k, st) (log @ [(t, m)]) \<le> spent (sc, k, st) cs'" by (rule one)
    moreover have "int (spent (sc, k, st) cs') \<le> scope_limit env sc"
      by (rule mb.reserve_all_bounded [OF a True]) (use pos claims_limit in blast)
    ultimately show ?thesis by linarith
  qed
  from one two show ?thesis by (simp add: counted_def)
qed

lemma counted_allowed:
  assumes "counted env t log (mx_counters mx)" and "healthy env"
    and "allowed_messages env t ms mx = (al, mx')"
  shows "counted env t (log @ map (Pair t) al) (mx_counters mx') \<and> mx_log mx' = mx_log mx"
  using assms
proof (induction ms arbitrary: log mx al)
  case Nil
  then show ?case by simp
next
  case (Cons m ms)
  obtain ok mx1 where ok: "allow env t m mx = (ok, mx1)" by force
  obtain rest where rest: "allowed_messages env t ms mx1 = (rest, mx')"
    and al: "al = (if ok then m # rest else rest)"
    using Cons.prems(3) ok by (auto split: prod.splits)
  from allow_cases [OF ok] show ?case
  proof (elim disjE conjE exE)
    assume "\<not> ok" and "mx1 = mx"
    with Cons.IH [OF _ Cons.prems(2) rest] Cons.prems(1) al show ?thesis by simp
  next
    fix cs
    assume o: "ok" and r: "reserve_message env t m (mx_counters mx) = Some cs"
      and mx1: "mx1 = mx\<lparr>mx_counters := cs\<rparr>"
    have "counted env t (log @ [(t, m)]) (mx_counters mx1)"
      using counted_message [OF Cons.prems(1) Cons.prems(2) r] by (simp add: mx1)
    from Cons.IH [OF this Cons.prems(2) rest] show ?thesis by (simp add: al o mx1)
  qed
qed

lemma map_of_purge:
  "map_of (filter (\<lambda>((_, _, start), _). \<not> start < c) cs) (sc, k, st) =
   (if st < c then None else map_of cs (sc, k, st))"
  by (induction cs) auto

lemma counted_step:
  assumes "counted env t (mx_log mx) (mx_counters mx)" and "healthy env" and "t \<le> event_time e"
  shows "counted env (event_time e) (mx_log (mail_step env mx e)) (mx_counters (mail_step env mx e))"
proof (cases e)
  case (Send t' ms)
  have c: "counted env t' (mx_log mx) (mx_counters mx)"
    using assms(1,3) by (auto simp: Send intro: counted_later)
  obtain al mx1 where al: "allowed_messages env t' ms mx = (al, mx1)" by force
  from counted_allowed [OF c assms(2) al] c show ?thesis
    by (auto simp: Send send_messages_def al)
next
  case (Purge t')
  have c: "counted env t' (mx_log mx) (mx_counters mx)"
    using assms(1,3) by (auto simp: Purge intro: counted_later)
  then show ?thesis
    by (simp add: Purge purge_expired_counters_def counted_def spent_def map_of_purge Let_def)
qed

lemma counted_run:
  "counted env t (mx_log mx) (mx_counters mx) \<Longrightarrow> healthy env \<Longrightarrow> sorted (t # map event_time es) \<Longrightarrow>
   \<exists>t'. counted env t' (mx_log (mail_run env es mx)) (mx_counters (mail_run env es mx))"
proof (induction es arbitrary: t mx)
  case Nil
  then show ?case by (auto simp: mail_run_def)
next
  case (Cons e es)
  have "counted env (event_time e) (mx_log (mail_step env mx e)) (mx_counters (mail_step env mx e))"
    using counted_step Cons.prems by simp
  from Cons.IH [OF this Cons.prems(2)] Cons.prems(3) show ?case by (simp add: mail_run_def)
qed

lemma counted_new: "counted env t [] cs"
  by (auto simp: counted_def charges_def)


section \<open>Caps\<close>

lemma claims_of_recipient:
  assumes "\<not> waited_on m" and "a \<in> set (mg_to m)"
  shows "(''recipient_hour'', recipient_key env a, hour_start t) \<in> fst ` set (claims env t m)"
proof -
  have "((''recipient_hour'', recipient_key env a, hour_start t),
      mail_limit ''EMAIL_RECIPIENT_HOURLY_LIMIT'' 6 env) \<in> set (claims env t m)"
    using assms by (auto simp: claims_def recipient_claims_def)
  then show ?thesis by force
qed

lemma filter_charges:
  assumes "\<And>t m. P t m \<Longrightarrow> b \<in> fst ` set (claims env t m)"
  shows "length (filter (\<lambda>(t, m). P t m) log) \<le> charges env b log"
proof (induction log)
  case Nil
  then show ?case by (simp add: charges_def)
next
  case (Cons x xs)
  obtain t m where x: "x = (t, m)" by (cases x)
  have "P t m \<longrightarrow> 0 < count_list (map fst (claims env t m)) b"
    using assms [of t m] by (metis count_list_0_iff gr0I set_map)
  with Cons show ?case by (cases "P t m") (simp_all add: x charges_def)
qed

text \<open>
  C28. Whatever is sent and purged, in any order and with a clock that never goes back, the messages
  handed over on one day never exceed the daily total, and the notifications addressed to one person
  within one hour never exceed the hourly cap.
\<close>

theorem mail_caps_hold:
  assumes "healthy env" and "sorted (map event_time es)"
    and "log = mx_log (mail_run env es (new_mailbox suppressed))"
  shows "(0 \<le> mail_limit ''EMAIL_DAILY_SEND_LIMIT'' 2000 env \<longrightarrow>
      int (length (filter (\<lambda>(t, m). day_start t = d) log)) \<le> mail_limit ''EMAIL_DAILY_SEND_LIMIT'' 2000 env) \<and>
    (0 \<le> mail_limit ''EMAIL_RECIPIENT_HOURLY_LIMIT'' 6 env \<longrightarrow>
      int (length (filter (\<lambda>(t, m). hour_start t = h \<and> \<not> waited_on m \<and> a \<in> set (mg_to m)) log))
        \<le> mail_limit ''EMAIL_RECIPIENT_HOURLY_LIMIT'' 6 env)"
proof -
  let ?t = "if es = [] then 0 else event_time (hd es)"
  have "sorted (?t # map event_time es)" using assms(2) by (cases es) auto
  then obtain t' where c: "counted env t' log (mx_counters (mail_run env es (new_mailbox suppressed)))"
    using counted_run [of env ?t "new_mailbox suppressed" es] assms(1,3)
    by (auto simp: new_mailbox_def counted_new)
  have cap: "int (charges env (sc, k, st) log) \<le> scope_limit env sc" if "0 \<le> scope_limit env sc" for sc k st
    using c that by (simp add: counted_def)
  have "length (filter (\<lambda>(t, m). day_start t = d) log) \<le> charges env (''global_day'', [], d) log"
    by (rule filter_charges) (auto simp: claims_def)
  moreover have "length (filter (\<lambda>(t, m). hour_start t = h \<and> \<not> waited_on m \<and> a \<in> set (mg_to m)) log)
      \<le> charges env (''recipient_hour'', recipient_key env a, h) log"
    by (rule filter_charges) (auto simp: claims_of_recipient)
  ultimately show ?thesis
    using cap [of "''global_day''" "[]" d] cap [of "''recipient_hour''" "recipient_key env a" h]
    by (auto simp: scope_limit_def)
qed

definition note_to :: "string \<Rightarrow> message" where
  "note_to a = \<lparr>mg_subject = ''news'', mg_to = [a], mg_cc = [], mg_bcc = [], mg_class = None\<rparr>"

definition small_env :: mail_env where
  "small_env = \<lparr>me_cfg = [(''EMAIL_DAILY_SEND_LIMIT'', JNum 3), (''EMAIL_RECIPIENT_HOURLY_LIMIT'', JStr ''2'')],
     me_sha = (\<lambda>s. s), me_inner = (\<lambda>ms. Some (length ms)), me_fails = (\<lambda>_. False), me_lookup_fails = False\<rparr>"

definition small_run :: "mail_event list" where
  "small_run = [Send 10 [note_to ''a@x'', note_to ''a@x''], Send 20 [note_to ''A@x''], Purge 30,
     Send 40 [note_to ''b@x'', note_to ''c@x'']]"

theorem mail_caps_hold_witness:
  "map (\<lambda>(t, m). (t, mg_to m)) (mx_log (mail_run small_env small_run (new_mailbox [])))
     = [(10, [''a@x'']), (10, [''a@x'']), (40, [''b@x''])] \<and>
   int (length (filter (\<lambda>(t, m). day_start t = 0) (mx_log (mail_run small_env small_run (new_mailbox []))))) \<le> 3"
proof
  show "map (\<lambda>(t, m). (t, mg_to m)) (mx_log (mail_run small_env small_run (new_mailbox [])))
     = [(10, [''a@x'']), (10, [''a@x'']), (40, [''b@x''])]"
    by code_simp
  have h: "healthy small_env" by (simp add: healthy_def small_env_def)
  have s: "sorted (map event_time small_run)" by (simp add: small_run_def)
  have l: "mail_limit ''EMAIL_DAILY_SEND_LIMIT'' 2000 small_env = 3" by code_simp
  show "int (length (filter (\<lambda>(t, m). day_start t = 0)
      (mx_log (mail_run small_env small_run (new_mailbox []))))) \<le> 3"
    using mail_caps_hold [OF h s refl, where d = 0 and suppressed = "[]"] by (simp add: l)
qed

section \<open>A storm of notifications\<close>

lemma reserve_grants:
  assumes "\<not> me_fails env (sc, k, st)" and "int (spent (sc, k, st) cs) < l"
  shows "\<exists>cs'. reserve_budget env sc k st l fo cs = (True, cs') \<and>
    (\<forall>b. spent b cs' = spent b cs + (if b = (sc, k, st) then 1 else 0))"
  using assms by (auto simp: reserve_budget_def Let_def spent_append_row spent_update)

lemma exhausted_refuses:
  assumes "healthy env" and "0 \<le> l" and "l \<le> int (spent (''global_day'', [], st) cs)"
  shows "fst (reserve_budget env ''global_day'' [] st l fo cs) = False"
  using assms by (simp add: reserve_budget_def healthy_def spent_append_row)

lemma recipients_keep_global:
  "reserve_recipients env now hourly daily as cs = Some cs' \<Longrightarrow>
   spent (''global_day'', [], st) cs' = spent (''global_day'', [], st) cs"
  by (simp add: reserve_recipients_claims mb.reserve_all_used count_list_0_iff)
    (auto simp: count_list_0_iff recipient_claims_def)

lemma exhausted_message:
  assumes "healthy env" and "0 \<le> mail_limit ''EMAIL_DAILY_SEND_LIMIT'' 2000 env"
    and "mail_limit ''EMAIL_DAILY_SEND_LIMIT'' 2000 env \<le> int (spent (''global_day'', [], day_start t) cs)"
  shows "reserve_message env t m cs = None"
proof -
  let ?g = "mail_limit ''EMAIL_DAILY_SEND_LIMIT'' 2000 env"
  have no: "(case reserve_budget env ''global_day'' [] (day_start t) ?g w c of
      (False, _) \<Rightarrow> None | (True, c2) \<Rightarrow> Some c2) = None"
    if "spent (''global_day'', [], day_start t) c = spent (''global_day'', [], day_start t) cs" for w c
    using exhausted_refuses [OF assms(1,2), of "day_start t" c w] assms(3) that
    by (cases "reserve_budget env ''global_day'' [] (day_start t) ?g w c") auto
  show ?thesis
    by (auto simp: reserve_message_def no recipients_keep_global split: option.splits)
qed

text \<open>The counters and the environment in which every notification of a storm goes through.\<close>

definition calm :: "mail_env \<Rightarrow> bool" where
  "calm env \<longleftrightarrow> sending_enabled env \<and> (\<forall>b. \<not> me_fails env b) \<and>
    0 < mail_limit ''EMAIL_RECIPIENT_HOURLY_LIMIT'' 6 env \<and> 0 < mail_limit ''EMAIL_RECIPIENT_DAILY_LIMIT'' 20 env"

definition untouched :: "mail_env \<Rightarrow> instant \<Rightarrow> string list \<Rightarrow> counters \<Rightarrow> bool" where
  "untouched env t as cs \<longleftrightarrow>
    (\<forall>a \<in> set as. spent (''recipient_hour'', recipient_key env a, hour_start t) cs = 0 \<and>
                 spent (''recipient_day'', recipient_key env a, day_start t) cs = 0)"

lemma storm_step:
  assumes "calm env" and "untouched env t [a] cs"
    and "int (spent (''global_day'', [], day_start t) cs) < mail_limit ''EMAIL_DAILY_SEND_LIMIT'' 2000 env"
  shows "\<exists>cs'. reserve_message env t (note_to a) cs = Some cs' \<and>
    (\<forall>b. spent b cs' = spent b cs +
      (if b \<in> {(''recipient_hour'', recipient_key env a, hour_start t),
               (''recipient_day'', recipient_key env a, day_start t),
               (''global_day'', [], day_start t)} then 1 else 0))"
proof -
  let ?k = "recipient_key env a"
  have ok: "\<not> me_fails env b" for b using assms(1) unfolding calm_def by blast
  have h0: "int (spent (''recipient_hour'', ?k, hour_start t) cs)
      < mail_limit ''EMAIL_RECIPIENT_HOURLY_LIMIT'' 6 env"
    using assms(1,2) by (simp add: calm_def untouched_def)
  obtain c1 where h: "reserve_budget env ''recipient_hour'' ?k (hour_start t)
        (mail_limit ''EMAIL_RECIPIENT_HOURLY_LIMIT'' 6 env) False cs = (True, c1)"
      and u1: "\<And>b. spent b c1 = spent b cs + (if b = (''recipient_hour'', ?k, hour_start t) then 1 else 0)"
    using reserve_grants [OF ok h0, of False] by blast
  have d0: "int (spent (''recipient_day'', ?k, day_start t) c1)
      < mail_limit ''EMAIL_RECIPIENT_DAILY_LIMIT'' 20 env"
    using assms(1,2) by (simp add: u1 calm_def untouched_def)
  obtain c2 where d: "reserve_budget env ''recipient_day'' ?k (day_start t)
        (mail_limit ''EMAIL_RECIPIENT_DAILY_LIMIT'' 20 env) False c1 = (True, c2)"
      and u2: "\<And>b. spent b c2 = spent b c1 + (if b = (''recipient_day'', ?k, day_start t) then 1 else 0)"
    using reserve_grants [OF ok d0, of False] by blast
  have g0: "int (spent (''global_day'', [], day_start t) c2)
      < mail_limit ''EMAIL_DAILY_SEND_LIMIT'' 2000 env"
    using assms(3) by (simp add: u1 u2)
  obtain c3 where g: "reserve_budget env ''global_day'' [] (day_start t)
        (mail_limit ''EMAIL_DAILY_SEND_LIMIT'' 2000 env) False c2 = (True, c3)"
      and u3: "\<And>b. spent b c3 = spent b c2 + (if b = (''global_day'', [], day_start t) then 1 else 0)"
    using reserve_grants [OF ok g0, of False] by blast
  have w: "\<not> waited_on (note_to a)"
    by (simp add: waited_on_def note_to_def CLASS_NOTIFICATION_def CLASS_TRANSACTIONAL_def)
  have to: "mg_to (note_to a) = [a]" by (simp add: note_to_def)
  have "reserve_message env t (note_to a) cs = Some c3"
    by (simp add: reserve_message_def w to h d g)
  then show ?thesis by (auto simp: u1 u2 u3)
qed


lemma storm_allowed:
  assumes "calm env" and "distinct (map (recipient_key env) as)" and "\<forall>a \<in> set as. a \<noteq> []"
    and "untouched env t as (mx_counters mx)" and "mx_suppressed mx = []"
    and "int (spent (''global_day'', [], day_start t) (mx_counters mx)) + int (length as)
      \<le> mail_limit ''EMAIL_DAILY_SEND_LIMIT'' 2000 env"
  shows "\<exists>mx'. allowed_messages env t (map note_to as) mx = (map note_to as, mx') \<and>
    spent (''global_day'', [], day_start t) (mx_counters mx') =
      spent (''global_day'', [], day_start t) (mx_counters mx) + length as"
  using assms
proof (induction as arbitrary: mx)
  case Nil
  then show ?case by simp
next
  case (Cons a as)
  have u: "untouched env t [a] (mx_counters mx)" using Cons.prems(4) by (simp add: untouched_def)
  obtain cs where r: "reserve_message env t (note_to a) (mx_counters mx) = Some cs"
    and s: "\<And>b. spent b cs = spent b (mx_counters mx) +
      (if b \<in> {(''recipient_hour'', recipient_key env a, hour_start t),
               (''recipient_day'', recipient_key env a, day_start t),
               (''global_day'', [], day_start t)} then 1 else 0)"
    using storm_step [OF Cons.prems(1) u] Cons.prems(6) by auto
  have al: "allow env t (note_to a) mx = (True, mx\<lparr>mx_counters := cs\<rparr>)"
    using Cons.prems(1,3,5) r
    by (simp add: allow_def calm_def recipients_def note_to_def is_suppressed_def Let_def)
  let ?mx = "mx\<lparr>mx_counters := cs\<rparr>"
  have "recipient_key env a \<notin> recipient_key env ` set as" using Cons.prems(2) by simp
  then have "\<forall>b \<in> set as. recipient_key env b \<noteq> recipient_key env a" by (metis image_eqI)
  then have u': "untouched env t as (mx_counters ?mx)"
    using Cons.prems(4) by (auto simp: untouched_def s)
  obtain mx' where "allowed_messages env t (map note_to as) ?mx = (map note_to as, mx')"
    and "spent (''global_day'', [], day_start t) (mx_counters mx') =
      spent (''global_day'', [], day_start t) (mx_counters ?mx) + length as"
    using Cons.IH [OF Cons.prems(1) _ _ u'] Cons.prems(2,3,5,6) by (auto simp: s)
  then show ?case by (simp add: al s)
qed

text \<open>
  A storm of notifications does lock people out: one notification to each of as many people as
  the daily total allows, every one of them within its own caps, and for the rest of the day no
  message is sent, the password resets and invitations somebody is waiting for included.
\<close>

theorem storm_locks_everyone_out:
  assumes "calm env" and "distinct (map (recipient_key env) as)" and "\<forall>a \<in> set as. a \<noteq> []"
    and "int (length as) = mail_limit ''EMAIL_DAILY_SEND_LIMIT'' 2000 env"
    and "day_start t' = day_start t"
  shows "\<not> fst (allow env t' m (mail_run env [Send t (map note_to as)] (new_mailbox [])))"
proof -
  have h: "healthy env" using assms(1) unfolding calm_def healthy_def by blast
  have "untouched env t as (mx_counters (new_mailbox []))"
    by (simp add: untouched_def new_mailbox_def spent_def)
  then obtain mx' where a: "allowed_messages env t (map note_to as) (new_mailbox []) = (map note_to as, mx')"
    and s: "spent (''global_day'', [], day_start t) (mx_counters mx') = length as"
    using storm_allowed [OF assms(1,2,3), of t "new_mailbox []"] assms(4)
    by (auto simp: new_mailbox_def spent_def)
  define mx where "mx = mail_run env [Send t (map note_to as)] (new_mailbox [])"
  have "mx_counters mx = (if as = [] then [] else mx_counters mx')"
    by (simp add: mx_def mail_run_def send_messages_def a) (simp add: new_mailbox_def)
  then have "spent (''global_day'', [], day_start t) (mx_counters mx) = length as"
    using s by (auto simp: spent_def)
  then have "reserve_message env t' m (mx_counters mx) = None"
    by (intro exhausted_message [OF h]) (use assms(4,5) in simp_all)
  then show ?thesis by (simp add: allow_def flip: mx_def)
qed

theorem storm_locks_everyone_out_witness:
  "\<not> fst (allow small_env 99
      \<lparr>mg_subject = ''Password reset'', mg_to = [''d@x''], mg_cc = [], mg_bcc = [], mg_class = Some CLASS_TRANSACTIONAL\<rparr>
      (mail_run small_env [Send 10 (map note_to [''a@x'', ''b@x'', ''c@x''])] (new_mailbox []))) \<and>
   fst (allow small_env 99
      \<lparr>mg_subject = ''Password reset'', mg_to = [''d@x''], mg_cc = [], mg_bcc = [], mg_class = Some CLASS_TRANSACTIONAL\<rparr>
      (mail_run small_env [Send 10 (map note_to [''a@x'', ''b@x''])] (new_mailbox [])))"
proof
  have l: "mail_limit ''EMAIL_DAILY_SEND_LIMIT'' 2000 small_env = 3"
    "mail_limit ''EMAIL_RECIPIENT_HOURLY_LIMIT'' 6 small_env = 2"
    "mail_limit ''EMAIL_RECIPIENT_DAILY_LIMIT'' 20 small_env = 20" by code_simp+
  have c: "calm small_env" by (simp add: calm_def l sending_enabled_def) (simp add: small_env_def)
  have d: "distinct (map (recipient_key small_env) [''a@x'', ''b@x'', ''c@x''])" by code_simp
  have e: "day_start 99 = day_start 10" by code_simp
  show "\<not> fst (allow small_env 99
      \<lparr>mg_subject = ''Password reset'', mg_to = [''d@x''], mg_cc = [], mg_bcc = [], mg_class = Some CLASS_TRANSACTIONAL\<rparr>
      (mail_run small_env [Send 10 (map note_to [''a@x'', ''b@x'', ''c@x''])] (new_mailbox [])))"
    by (rule storm_locks_everyone_out [OF c d _ _ e]) (simp_all add: l)
  show "fst (allow small_env 99
      \<lparr>mg_subject = ''Password reset'', mg_to = [''d@x''], mg_cc = [], mg_bcc = [], mg_class = Some CLASS_TRANSACTIONAL\<rparr>
      (mail_run small_env [Send 10 (map note_to [''a@x'', ''b@x''])] (new_mailbox [])))"
    by code_simp
qed

end
