(* ===== verification/Permissions.thy ===== *)
theory Permissions
  imports Entities
begin

text \<open>
  Role-based access: \<open>apps/members/models.py\<close> (the built-in permission tables, effective and
  organisation-level permissions) and the guards of \<open>apps/members/decorators.py\<close>. A guard is a
  function from what the request carries to the refusal it raises, \<open>None\<close> where it lets the
  view run.
\<close>

section \<open>Permission tables\<close>

datatype org_role = ORG_OWNER | ORG_ADMIN | ORG_MEMBER

record org_membership =
  om_user :: nat
  om_org :: nat
  om_role :: org_role

definition PERMISSION_KEYS :: "string list" where
  "PERMISSION_KEYS =
    [''create_posts'', ''edit_others_posts'', ''approve_posts'', ''publish_directly'',
     ''manage_social_accounts'', ''view_analytics'', ''use_inbox'', ''reply_from_inbox'',
     ''manage_workspace_settings'', ''upload_media'', ''edit_media'', ''delete_media'',
     ''manage_media'']"

fun BUILTIN_ROLE_PERMISSIONS :: "workspace_role \<Rightarrow> (string \<times> bool) list" where
  "BUILTIN_ROLE_PERMISSIONS WS_OWNER = map (\<lambda>k. (k, True)) PERMISSION_KEYS"
| "BUILTIN_ROLE_PERMISSIONS WS_MANAGER =
    [(''create_posts'', True), (''edit_others_posts'', True), (''approve_posts'', True),
     (''publish_directly'', True), (''manage_social_accounts'', True), (''view_analytics'', True),
     (''use_inbox'', True), (''reply_from_inbox'', True), (''manage_workspace_settings'', False),
     (''upload_media'', True), (''edit_media'', True), (''delete_media'', True),
     (''manage_media'', True)]"
| "BUILTIN_ROLE_PERMISSIONS WS_EDITOR =
    [(''create_posts'', True), (''edit_others_posts'', True), (''approve_posts'', False),
     (''publish_directly'', False), (''manage_social_accounts'', False), (''view_analytics'', True),
     (''use_inbox'', True), (''reply_from_inbox'', True), (''manage_workspace_settings'', False),
     (''upload_media'', True), (''edit_media'', True), (''delete_media'', True),
     (''manage_media'', False)]"
| "BUILTIN_ROLE_PERMISSIONS WS_CONTRIBUTOR =
    [(''create_posts'', True), (''edit_others_posts'', False), (''approve_posts'', False),
     (''publish_directly'', False), (''manage_social_accounts'', False), (''view_analytics'', False),
     (''use_inbox'', False), (''reply_from_inbox'', False), (''manage_workspace_settings'', False),
     (''upload_media'', True), (''edit_media'', True), (''delete_media'', False),
     (''manage_media'', False)]"
| "BUILTIN_ROLE_PERMISSIONS WS_CLIENT =
    [(''create_posts'', False), (''edit_others_posts'', False), (''approve_posts'', True),
     (''publish_directly'', False), (''manage_social_accounts'', False), (''view_analytics'', True),
     (''use_inbox'', False), (''reply_from_inbox'', False), (''manage_workspace_settings'', False),
     (''upload_media'', False), (''edit_media'', False), (''delete_media'', False),
     (''manage_media'', False)]"
| "BUILTIN_ROLE_PERMISSIONS WS_VIEWER =
    [(''create_posts'', False), (''edit_others_posts'', False), (''approve_posts'', False),
     (''publish_directly'', False), (''manage_social_accounts'', False), (''view_analytics'', True),
     (''use_inbox'', False), (''reply_from_inbox'', False), (''manage_workspace_settings'', False),
     (''upload_media'', False), (''edit_media'', False), (''delete_media'', False),
     (''manage_media'', False)]"

definition effective_permissions :: "ws_membership \<Rightarrow> (string \<times> bool) list" where
  "effective_permissions m =
    (case mb_custom m of Some ps \<Rightarrow> ps | None \<Rightarrow> BUILTIN_ROLE_PERMISSIONS (mb_role m))"

definition perm_get :: "string \<Rightarrow> (string \<times> bool) list \<Rightarrow> bool" where
  \<comment> \<open>\<open>perms.get(key, False)\<close>\<close>
  "perm_get k ps = (case map_of ps k of Some b \<Rightarrow> b | None \<Rightarrow> False)"

definition has_perm :: "string \<Rightarrow> ws_membership \<Rightarrow> bool" where
  "has_perm k m = perm_get k (effective_permissions m)"

fun BUILTIN_ORG_PERMISSIONS :: "org_role \<Rightarrow> string list" where
  "BUILTIN_ORG_PERMISSIONS ORG_OWNER =
    [''manage_intelligence_billing'', ''use_intelligence'', ''manage_api_keys'']"
| "BUILTIN_ORG_PERMISSIONS ORG_ADMIN =
    [''manage_intelligence_billing'', ''use_intelligence'', ''manage_api_keys'']"
| "BUILTIN_ORG_PERMISSIONS ORG_MEMBER = [''use_intelligence'']"

definition has_org_permission :: "org_membership option \<Rightarrow> string \<Rightarrow> bool" where
  "has_org_permission m k =
    (case m of None \<Rightarrow> False | Some m \<Rightarrow> k \<in> set (BUILTIN_ORG_PERMISSIONS (om_role m)))"

section \<open>Guards\<close>

datatype denied = NotAMember | InsufficientRole | MissingPermission string | NoOrgInUrl

fun org_level :: "org_role \<Rightarrow> nat" where
  "org_level ORG_OWNER = 3"
| "org_level ORG_ADMIN = 2"
| "org_level ORG_MEMBER = 1"

fun workspace_level :: "workspace_role \<Rightarrow> nat" where
  "workspace_level WS_OWNER = 6"
| "workspace_level WS_MANAGER = 5"
| "workspace_level WS_EDITOR = 4"
| "workspace_level WS_CONTRIBUTOR = 3"
| "workspace_level WS_CLIENT = 2"
| "workspace_level WS_VIEWER = 1"

definition require_org_role :: "org_role \<Rightarrow> org_membership option \<Rightarrow> denied option" where
  "require_org_role min_role m =
    (case m of
       None \<Rightarrow> Some NotAMember
     | Some m \<Rightarrow> if org_level (om_role m) < org_level min_role then Some InsufficientRole else None)"

definition require_workspace_role :: "workspace_role \<Rightarrow> ws_membership option \<Rightarrow> denied option" where
  "require_workspace_role min_role m =
    (case m of
       None \<Rightarrow> Some NotAMember
     | Some m \<Rightarrow>
        if workspace_level (mb_role m) < workspace_level min_role then Some InsufficientRole else None)"

definition require_permission :: "string \<Rightarrow> ws_membership option \<Rightarrow> denied option" where
  "require_permission k m =
    (case m of
       None \<Rightarrow> Some NotAMember
     | Some m \<Rightarrow> if \<not> has_perm k m then Some (MissingPermission k) else None)"

definition require_org_permission ::
  "string \<Rightarrow> nat \<Rightarrow> nat option \<Rightarrow> org_membership list \<Rightarrow> denied + org_membership" where
  \<comment> \<open>the membership found is attached to the request: the result of a pass\<close>
  "require_org_permission k user org_id memberships =
    (case org_id of
       None \<Rightarrow> Inl NoOrgInUrl
     | Some g \<Rightarrow>
        (case find (\<lambda>m. om_user m = user \<and> om_org m = g) memberships of
           None \<Rightarrow> Inl NotAMember
         | Some m \<Rightarrow> if \<not> has_org_permission (Some m) k then Inl (MissingPermission k) else Inr m))"

section \<open>Properties\<close>

text \<open>
  The workspace-role guard never looks at a member's custom role: replacing the custom role by
  any other leaves its decision, so a member whose custom role grants nothing still passes on
  the built-in role left underneath.
\<close>

theorem workspace_role_guard_ignores_custom_role:
  "require_workspace_role r (Some (m\<lparr>mb_custom := c\<rparr>)) = require_workspace_role r (Some m) \<and>
   require_workspace_role WS_MANAGER (Some (m\<lparr>mb_role := WS_OWNER, mb_custom := Some []\<rparr>)) = None \<and>
   (\<forall>k. \<not> has_perm k (m\<lparr>mb_role := WS_OWNER, mb_custom := Some []\<rparr>))"
  by (simp add: require_workspace_role_def has_perm_def effective_permissions_def perm_get_def)

text \<open>
  An organisation guard hands a view only the caller's own membership in the organisation the
  URL names, holding the permission asked for.
\<close>

theorem org_permission_guard_sound:
  assumes "require_org_permission k user org_id ms = Inr m"
  shows "org_id = Some (om_org m) \<and> om_user m = user \<and> m \<in> set ms \<and>
    k \<in> set (BUILTIN_ORG_PERMISSIONS (om_role m))"
proof -
  obtain g where g: "org_id = Some g" using assms by (cases org_id) (auto simp: require_org_permission_def)
  obtain m' where m': "find (\<lambda>m. om_user m = user \<and> om_org m = g) ms = Some m'"
    using assms g by (cases "find (\<lambda>m. om_user m = user \<and> om_org m = g) ms")
      (simp_all add: require_org_permission_def)
  have p: "has_org_permission (Some m') k \<and> m = m'"
    using assms g m' by (simp add: require_org_permission_def split: if_splits)
  have "m' \<in> set ms \<and> om_user m' = user \<and> om_org m' = g"
    using tbl_first_Some [unfolded tbl_first_def, OF m'] by blast
  with p g show ?thesis by (simp add: has_org_permission_def)
qed

theorem org_permission_guard_sound_witness:
  "\<exists>m. require_org_permission ''manage_api_keys'' 3 (Some 1)
      [\<lparr>om_user = 3, om_org = 2, om_role = ORG_OWNER\<rparr>, \<lparr>om_user = 3, om_org = 1, om_role = ORG_ADMIN\<rparr>]
      = Inr m \<and> om_org m = 1"
proof -
  let ?m = "\<lparr>om_user = 3, om_org = 1, om_role = ORG_ADMIN\<rparr>"
  have h: "require_org_permission ''manage_api_keys'' 3 (Some 1)
      [\<lparr>om_user = 3, om_org = 2, om_role = ORG_OWNER\<rparr>, ?m] = Inr ?m"
    by (simp add: require_org_permission_def has_org_permission_def)
  have "Some 1 = Some (om_org ?m)" by (rule conjunct1 [OF org_permission_guard_sound [OF h]])
  then have "om_org ?m = 1" by simp
  with h show ?thesis by (rule_tac exI [of _ ?m]) (rule conjI)
qed

end
