(* ===== verification/Approvals.thy ===== *)
theory Approvals
  imports Composer Permissions
begin

text \<open>
  The approval workflow: \<open>apps/approvals/services.py\<close> (decisions on a whole post or on one of its
  channels) and \<open>apps/approvals/tasks.py\<close> (reminders and escalation of stalled posts). A decision
  returns the channels it moved and the database; the code's callers read the truth value of
  that list (\<open>post\<close> when it is not empty). \<open>notify\<close> is the notification recorded.
\<close>

section \<open>Helpers\<close>

datatype target = Bundled post | Single platform_post post
  \<comment> \<open>a \<open>Post\<close>, or a \<open>PlatformPost\<close> together with its \<open>.post\<close>\<close>

fun target_post :: "target \<Rightarrow> post" where
  "target_post (Bundled po) = po"
| "target_post (Single p po) = po"

fun resolve_targets :: "target \<Rightarrow> pp_state list \<Rightarrow> db \<Rightarrow> platform_post list" where
  "resolve_targets (Single p po) eligible d = [p]"
| "resolve_targets (Bundled po) eligible d =
    filter (\<lambda>p. pp_status p \<in> set eligible) (children (po_id po) d)"

definition transition_or_skip ::
  "instant \<Rightarrow> platform_post \<Rightarrow> pp_state \<Rightarrow> db \<Rightarrow> (platform_post \<times> db) option" where
  \<comment> \<open>\<open>None\<close> for \<open>False\<close>; saving sets \<open>updated_at\<close> (\<open>auto_now\<close>) on the object as well\<close>
  "transition_or_skip now p s d =
    (if pp_status p = s then Some (p, d)
     else case transition_to now p s of
            Inl e \<Rightarrow> None
          | Inr q \<Rightarrow> Some (q\<lparr>pp_updated_at := now\<rparr>, save_transition q False now d))"

fun move_all :: "instant \<Rightarrow> pp_state \<Rightarrow> platform_post list \<Rightarrow> db \<Rightarrow> platform_post list \<times> db" where
  "move_all now s [] d = ([], d)"
| "move_all now s (p # ps) d =
    (case transition_or_skip now p s d of
       None \<Rightarrow> move_all now s ps d
     | Some (q, d1) \<Rightarrow> (let (moved, d2) = move_all now s ps d1 in (q # moved, d2)))"

definition record_action :: "nat \<Rightarrow> nat option \<Rightarrow> user \<Rightarrow> action_type \<Rightarrow> string \<Rightarrow> db \<Rightarrow> db" where
  "record_action po p u act comment d =
    d\<lparr>db_actions := db_actions d @
       [\<lparr>aa_post = po, aa_pp = p, aa_user = us_id u, aa_action = act, aa_comment = comment\<rparr>]\<rparr>"

fun record_moved :: "target \<Rightarrow> platform_post list \<Rightarrow> user \<Rightarrow> action_type \<Rightarrow> string \<Rightarrow> db \<Rightarrow> db" where
  "record_moved (Bundled po) moved u act comment d = record_action (po_id po) None u act comment d"
| "record_moved (Single p po) moved u act comment d =
    fold (\<lambda>q. record_action (po_id po) (Some (pp_id q)) u act comment) moved d"

definition reset_reminder :: "nat \<Rightarrow> string \<Rightarrow> db \<Rightarrow> db" where
  \<comment> \<open>\<open>ApprovalReminder.objects.update_or_create\<close>\<close>
  "reset_reminder po stage d =
    (let mine = (\<lambda>r. ar_post r = po \<and> ar_stage r = stage) in
     if tbl_first mine (db_reminders d) = None then
       d\<lparr>db_reminders := db_reminders d @
          [\<lparr>ar_post = po, ar_stage = stage, ar_count = 0, ar_last_at = None, ar_escalated = False\<rparr>]\<rparr>
     else
       d\<lparr>db_reminders := tbl_update mine
          (\<lambda>r. r\<lparr>ar_count := 0, ar_last_at := None, ar_escalated := False\<rparr>) (db_reminders d)\<rparr>)"

definition display_name :: "user \<Rightarrow> string" where
  "display_name u =
    (if us_name u \<noteq> [] then us_name u
     else if us_email u \<noteq> [] then takeWhile (\<lambda>c. c \<noteq> CHR ''@'') (us_email u)
     else ''User'')"

definition post_data :: "nat \<Rightarrow> nat \<Rightarrow> pydict" where
  "post_data po w = [(''post_id'', JNum (int po)), (''workspace_id'', JNum (int w))]"

definition notify :: "nat \<Rightarrow> string \<Rightarrow> string \<Rightarrow> string \<Rightarrow> pydict \<Rightarrow> db \<Rightarrow> db" where
  "notify u event title body data d =
    add_note \<lparr>nt_user = u, nt_event = event, nt_title = title, nt_body = body, nt_data = data\<rparr> d"

definition notify_all :: "nat list \<Rightarrow> string \<Rightarrow> string \<Rightarrow> string \<Rightarrow> pydict \<Rightarrow> db \<Rightarrow> db" where
  "notify_all us event title body data d = fold (\<lambda>u. notify u event title body data) us d"

definition members_of :: "nat \<Rightarrow> db \<Rightarrow> ws_membership list" where
  "members_of w d = filter (\<lambda>m. mb_workspace m = w) (db_members d)"

definition reviewers_of :: "nat \<Rightarrow> db \<Rightarrow> nat list" where
  "reviewers_of w d = map mb_user (filter (has_perm ''approve_posts'') (members_of w d))"

definition clients_of :: "nat \<Rightarrow> db \<Rightarrow> nat list" where
  "clients_of w d = map mb_user (filter (\<lambda>m. mb_role m = WS_CLIENT) (members_of w d))"

definition notify_reviewers ::
  "workspace \<Rightarrow> user \<Rightarrow> post \<Rightarrow> string \<Rightarrow> string \<Rightarrow> string \<Rightarrow> db \<Rightarrow> db" where
  "notify_reviewers w actor po event title body d =
    notify_all (filter (\<lambda>u. u \<noteq> us_id actor) (reviewers_of (ws_id w) d)) event title body
      (post_data (po_id po) (ws_id w)) d"

definition notify_clients :: "post \<Rightarrow> workspace \<Rightarrow> db \<Rightarrow> db" where
  "notify_clients po w d =
    notify_all (clients_of (ws_id w) d) ''client_approval_requested'' ''Posts ready for your review''
      (''A post in '' @ ws_name w @ '' is waiting for your approval.'') (post_data (po_id po) (ws_id w)) d"

definition notify_author :: "post \<Rightarrow> user \<Rightarrow> workspace \<Rightarrow> string \<Rightarrow> string \<Rightarrow> string \<Rightarrow> db \<Rightarrow> db" where
  \<comment> \<open>\<open>if post.author and post.author != user: notify(...)\<close>\<close>
  "notify_author po u w event title body d =
    (case po_author po of
       None \<Rightarrow> d
     | Some a \<Rightarrow> if a = us_id u then d else notify a event title body (post_data (po_id po) (ws_id w)) d)"

definition quoted :: "string \<Rightarrow> string" where
  "quoted s = CHR 0x22 # s @ [CHR 0x22]"

section \<open>Decisions\<close>

datatype approval_error = CommentRequired string

definition submit_for_review ::
  "instant \<Rightarrow> target \<Rightarrow> user \<Rightarrow> workspace \<Rightarrow> db \<Rightarrow> platform_post list \<times> db" where
  "submit_for_review now t u w d =
    (let po = target_post t;
         (moved, d1) = move_all now PENDING_REVIEW
           (resolve_targets t [DRAFT, CHANGES_REQUESTED, REJECTED] d) d in
     if moved = [] then ([], d1)
     else
       let d2 = record_moved t moved u SUBMITTED [] d1;
           d3 = reset_reminder (po_id po) ''pending_review'' d2
       in (moved, notify_reviewers w u po ''post_submitted'' ''Post submitted for review''
             (display_name u @ '' submitted a post for your review: '' @ quoted (caption_snippet po)) d3))"

fun approve_all ::
  "instant \<Rightarrow> bool \<Rightarrow> platform_post list \<Rightarrow> db \<Rightarrow> platform_post list \<times> bool \<times> db" where
  "approve_all now two_stage [] d = ([], False, d)"
| "approve_all now two_stage (p # ps) d =
    (case transition_or_skip now p APPROVED d of
       None \<Rightarrow> approve_all now two_stage ps d
     | Some (q, d1) \<Rightarrow>
        (case (if two_stage \<and> pp_status p = PENDING_REVIEW
               then transition_or_skip now q PENDING_CLIENT d1 else None) of
           None \<Rightarrow> (let (moved, adv, d3) = approve_all now two_stage ps d1 in (q # moved, adv, d3))
         | Some (q2, d2) \<Rightarrow>
             (let (moved, adv, d3) = approve_all now two_stage ps d2 in (q2 # moved, True, d3))))"

definition approve_post ::
  "instant \<Rightarrow> target \<Rightarrow> user \<Rightarrow> workspace \<Rightarrow> string \<Rightarrow> db \<Rightarrow> platform_post list \<times> db" where
  "approve_post now t u w comment d =
    (let po = target_post t;
         two_stage = (ws_approval_mode w = ''required_internal_and_client'');
         (moved, advanced, d1) = approve_all now two_stage
           (resolve_targets t [PENDING_REVIEW, PENDING_CLIENT, DRAFT, REJECTED, CHANGES_REQUESTED] d) d in
     if moved = [] then ([], d1)
     else
       let d2 = record_moved t moved u ACT_APPROVED comment d1;
           d3 = (if advanced
                 then notify_clients po w (reset_reminder (po_id po) ''pending_client'' d2) else d2);
           d4 = (if advanced then d3
                 else notify_author po u w ''post_approved'' ''Post approved''
                   (''Your post '' @ quoted (caption_snippet po) @ '' was approved by ''
                     @ display_name u @ ''.'') d3)
       in (moved, d4))"

definition request_changes ::
  "instant \<Rightarrow> target \<Rightarrow> user \<Rightarrow> workspace \<Rightarrow> string \<Rightarrow> db \<Rightarrow> approval_error + (platform_post list \<times> db)" where
  "request_changes now t u w comment d =
    (if py_strip comment = [] then Inl (CommentRequired ''A comment is required when requesting changes.'')
     else
       let po = target_post t;
           (moved, d1) = move_all now CHANGES_REQUESTED
             (resolve_targets t [PENDING_REVIEW, PENDING_CLIENT] d) d in
       Inr (if moved = [] then ([], d1)
            else (moved,
              notify_author po u w ''post_changes_requested'' ''Changes requested on your post''
                (display_name u @ '' requested changes: '' @ quoted (take 100 comment))
                (record_moved t moved u ACT_CHANGES_REQUESTED comment d1))))"

definition reject_post ::
  "instant \<Rightarrow> target \<Rightarrow> user \<Rightarrow> workspace \<Rightarrow> string \<Rightarrow> db \<Rightarrow> approval_error + (platform_post list \<times> db)" where
  "reject_post now t u w comment d =
    (if py_strip comment = [] then Inl (CommentRequired ''A comment is required when rejecting a post.'')
     else
       let po = target_post t;
           (moved, d1) = move_all now REJECTED (resolve_targets t [PENDING_REVIEW, PENDING_CLIENT] d) d in
       Inr (if moved = [] then ([], d1)
            else (moved,
              notify_author po u w ''post_rejected'' ''Post rejected''
                (display_name u @ '' rejected your post: '' @ quoted (take 100 comment))
                (record_moved t moved u ACT_REJECTED comment d1))))"

definition notify_reviewers_of_hold :: "post \<Rightarrow> workspace \<Rightarrow> user \<Rightarrow> string \<Rightarrow> db \<Rightarrow> db" where
  "notify_reviewers_of_hold po w u comment d =
    notify_reviewers w u po ''approval_hold_requested'' ''Client requested a hold''
      (display_name u @ '' put a post on hold: '' @ quoted (take 100 comment)) d"

definition request_hold ::
  "instant \<Rightarrow> target \<Rightarrow> user \<Rightarrow> workspace \<Rightarrow> string \<Rightarrow> db \<Rightarrow> approval_error + (platform_post list \<times> db)" where
  "request_hold now t u w comment d =
    (if py_strip comment = [] then Inl (CommentRequired ''A comment is required when requesting a hold.'')
     else
       let (moved, d1) = move_all now ON_HOLD (resolve_targets t [APPROVED] d) d in
       Inr (if moved = [] then ([], d1)
            else (moved, notify_reviewers_of_hold (target_post t) w u comment
                           (record_moved t moved u HELD comment d1))))"

definition resume_hold ::
  "instant \<Rightarrow> target \<Rightarrow> user \<Rightarrow> workspace \<Rightarrow> db \<Rightarrow> platform_post list \<times> db" where
  "resume_hold now t u w d =
    (let (moved, d1) = move_all now APPROVED (resolve_targets t [ON_HOLD] d) d in
     if moved = [] then ([], d1)
     else (moved, record_moved t moved u ACT_APPROVED ''Hold lifted.'' d1))"

definition resubmit_post ::
  "instant \<Rightarrow> target \<Rightarrow> user \<Rightarrow> workspace \<Rightarrow> db \<Rightarrow> platform_post list \<times> db" where
  "resubmit_post now t u w d =
    (let po = target_post t;
         (moved, d1) = move_all now PENDING_REVIEW
           (resolve_targets t [CHANGES_REQUESTED, REJECTED, APPROVED] d) d in
     if moved = [] then ([], d1)
     else
       let d2 = record_moved t moved u RESUBMITTED [] d1;
           d3 = reset_reminder (po_id po) ''pending_review'' d2
       in (moved, notify_reviewers w u po ''post_submitted'' ''Post resubmitted for review''
             (display_name u @ '' resubmitted a post: '' @ quoted (caption_snippet po)) d3))"

definition bulk_posts :: "nat list \<Rightarrow> nat \<Rightarrow> db \<Rightarrow> post list" where
  \<comment> \<open>the queryset of the bulk operations, evaluated once before their loop\<close>
  "bulk_posts ids w d =
    filter (\<lambda>po. po_id po \<in> set ids \<and> po_workspace po = w \<and>
       list_ex (\<lambda>p. pp_status p \<in> set [PENDING_REVIEW, PENDING_CLIENT]) (children (po_id po) d))
      (db_posts d)"

fun bulk_approve_posts ::
  "instant \<Rightarrow> user \<Rightarrow> workspace \<Rightarrow> post list \<Rightarrow> db \<Rightarrow> (nat \<times> bool) list \<times> db" where
  "bulk_approve_posts now u w [] d = ([], d)"
| "bulk_approve_posts now u w (po # pos) d =
    (let (moved, d1) = approve_post now (Bundled po) u w [] d;
         (res, d2) = bulk_approve_posts now u w pos d1
     in ((po_id po, moved \<noteq> []) # res, d2))"

definition bulk_approve ::
  "instant \<Rightarrow> nat list \<Rightarrow> user \<Rightarrow> workspace \<Rightarrow> db \<Rightarrow> (nat \<times> bool) list \<times> db" where
  "bulk_approve now ids u w d = bulk_approve_posts now u w (bulk_posts ids (ws_id w) d) d"

fun bulk_reject_posts ::
  "instant \<Rightarrow> user \<Rightarrow> workspace \<Rightarrow> string \<Rightarrow> post list \<Rightarrow> db \<Rightarrow>
     (nat \<times> bool \<times> approval_error option) list \<times> db" where
  "bulk_reject_posts now u w comment [] d = ([], d)"
| "bulk_reject_posts now u w comment (po # pos) d =
    (case reject_post now (Bundled po) u w comment d of
       Inl e \<Rightarrow> (let (res, d2) = bulk_reject_posts now u w comment pos d
                in ((po_id po, False, Some e) # res, d2))
     | Inr (moved, d1) \<Rightarrow> (let (res, d2) = bulk_reject_posts now u w comment pos d1
                in ((po_id po, moved \<noteq> [], None) # res, d2)))"

definition bulk_reject ::
  "instant \<Rightarrow> nat list \<Rightarrow> user \<Rightarrow> workspace \<Rightarrow> string \<Rightarrow> db \<Rightarrow>
     approval_error + ((nat \<times> bool \<times> approval_error option) list \<times> db)" where
  "bulk_reject now ids u w comment d =
    (if py_strip comment = [] then Inl (CommentRequired ''A comment is required for bulk rejection.'')
     else Inr (bulk_reject_posts now u w comment (bulk_posts ids (ws_id w) d) d))"

section \<open>Reminders\<close>

definition PENDING_REVIEW_HOURS :: int where
  "PENDING_REVIEW_HOURS = 24"

definition PENDING_CLIENT_HOURS :: int where
  "PENDING_CLIENT_HOURS = 48"

definition MAX_REMINDERS :: nat where
  "MAX_REMINDERS = 2"

definition remind_reviewers :: "post \<Rightarrow> workspace \<Rightarrow> db \<Rightarrow> db" where
  "remind_reviewers po w d =
    notify_all (reviewers_of (ws_id w) d) ''approval_reminder'' ''Post awaiting your review''
      (''A post in '' @ ws_name w @ '' has been waiting for review: '' @ quoted (caption_snippet po))
      (post_data (po_id po) (ws_id w)) d"

definition remind_clients :: "post \<Rightarrow> workspace \<Rightarrow> db \<Rightarrow> db" where
  "remind_clients po w d =
    notify_all (clients_of (ws_id w) d) ''approval_reminder'' ''Posts waiting for your approval''
      (''Content in '' @ ws_name w @ '' is waiting for your review.'') (post_data (po_id po) (ws_id w)) d"

definition managers_of :: "nat \<Rightarrow> db \<Rightarrow> nat list" where
  "managers_of w d = map mb_user (filter (\<lambda>m. mb_role m \<in> set [WS_OWNER, WS_MANAGER]) (members_of w d))"

definition escalate :: "post \<Rightarrow> workspace \<Rightarrow> string \<Rightarrow> db \<Rightarrow> db" where
  "escalate po w stage d =
    (let label = (if stage = ''pending_review'' then ''internal review'' else ''client approval'') in
     notify_all (managers_of (ws_id w) d) ''approval_stalled'' ''Stalled post needs attention''
      (''A post in '' @ ws_name w @ '' has been stuck in '' @ label @ '' after multiple reminders: ''
         @ quoted (caption_snippet po))
      (post_data (po_id po) (ws_id w) @ [(''stage'', JStr stage)]) d)"

definition get_or_create_reminder :: "nat \<Rightarrow> string \<Rightarrow> db \<Rightarrow> approval_reminder \<times> db" where
  "get_or_create_reminder po stage d =
    (case tbl_first (\<lambda>r. ar_post r = po \<and> ar_stage r = stage) (db_reminders d) of
       Some r \<Rightarrow> (r, d)
     | None \<Rightarrow> (let r = \<lparr>ar_post = po, ar_stage = stage, ar_count = 0, ar_last_at = None,
                      ar_escalated = False\<rparr>
               in (r, d\<lparr>db_reminders := db_reminders d @ [r]\<rparr>)))"

definition save_reminder :: "approval_reminder \<Rightarrow> db \<Rightarrow> db" where
  "save_reminder r d =
    d\<lparr>db_reminders := tbl_update (\<lambda>x. ar_post x = ar_post r \<and> ar_stage x = ar_stage r) (\<lambda>_. r)
      (db_reminders d)\<rparr>"

definition remind :: "instant \<Rightarrow> int \<Rightarrow> string \<Rightarrow> post \<Rightarrow> db \<Rightarrow> db" where
  \<comment> \<open>the body of the loop of \<open>_process_stage\<close>\<close>
  "remind now threshold_hours stage po d =
    (let (r, d1) = get_or_create_reminder (po_id po) stage d in
     case get_workspace (po_workspace po) d of
       None \<Rightarrow> d1
     | Some w \<Rightarrow>
        if ar_count r \<ge> MAX_REMINDERS then
          (if \<not> ar_escalated r then save_reminder (r\<lparr>ar_escalated := True\<rparr>) (escalate po w stage d1)
           else d1)
        else if (case ar_last_at r of Some t \<Rightarrow> now < t + hours threshold_hours | None \<Rightarrow> False) then d1
        else
          let d2 = (if stage = ''pending_review'' then remind_reviewers po w d1
                    else if stage = ''pending_client'' then remind_clients po w d1 else d1)
          in save_reminder (r\<lparr>ar_count := ar_count r + 1, ar_last_at := Some now\<rparr>) d2)"

definition stalled_posts :: "pp_state \<Rightarrow> instant \<Rightarrow> db \<Rightarrow> post list" where
  "stalled_posts status threshold d =
    filter (\<lambda>po. list_ex (\<lambda>p. pp_status p = status) (children (po_id po) d) \<and> po_updated_at po \<le> threshold)
      (db_posts d)"

definition process_stage :: "string \<Rightarrow> pp_state \<Rightarrow> int \<Rightarrow> instant \<Rightarrow> db \<Rightarrow> db" where
  "process_stage stage status threshold_hours now d =
    fold (remind now threshold_hours stage) (stalled_posts status (now - hours threshold_hours) d) d"

definition check_approval_reminders :: "db \<Rightarrow> instant \<Rightarrow> db" where
  "check_approval_reminders d now =
    process_stage ''pending_client'' PENDING_CLIENT PENDING_CLIENT_HOURS now
      (process_stage ''pending_review'' PENDING_REVIEW PENDING_REVIEW_HOURS now d)"

section \<open>Lemmas: what a decision does to the rows\<close>

text \<open>The decision on one row, seen from outside: moved when an edge allows it, else left.\<close>

definition review_row :: "instant \<Rightarrow> pp_state \<Rightarrow> platform_post \<Rightarrow> platform_post" where
  "review_row now s r =
    (if pp_status r = s then r
     else case transition_to now r s of Inl e \<Rightarrow> r | Inr q \<Rightarrow> q\<lparr>pp_updated_at := now\<rparr>)"

definition moves :: "pp_state \<Rightarrow> platform_post \<Rightarrow> bool" where
  "moves s r \<longleftrightarrow> pp_status r = s \<or> can_transition_to r s"

lemma transition_or_skip_None: "transition_or_skip now p s d = None \<longleftrightarrow> \<not> moves s p"
  by (auto simp: transition_or_skip_def moves_def transition_to_Inl split: sum.splits)
    (auto simp: transition_to_Inr)

lemma transition_or_skip_Some:
  "transition_or_skip now p s d = Some (q, d') \<Longrightarrow>
    moves s p \<and> pp_id q = pp_id p \<and> pp_status q = s \<and> pp_post q = pp_post p \<and> q = review_row now s p"
  by (auto simp: transition_or_skip_def moves_def review_row_def split: sum.splits if_splits)
    (auto simp: transition_to_Inr)

lemma review_row_keeps [simp]: "pp_id (review_row now s r) = pp_id r" "pp_post (review_row now s r) = pp_post r"
  by (auto simp: review_row_def split: sum.split dest: transition_to_keeps)

lemma save_transition_own:
  assumes "transition_to now p s = Inr q"
  shows "pp_id q = pp_id p"
    and "p\<lparr>pp_status := pp_status q, pp_published_at := pp_published_at q, pp_handle := pp_handle q,
           pp_retry_count := pp_retry_count q, pp_next_retry_at := pp_next_retry_at q,
           pp_publish_error := pp_publish_error q, pp_updated_at := now\<rparr> = q\<lparr>pp_updated_at := now\<rparr>"
  using assms by (auto simp: transition_to_Inr)

lemma transition_or_skip_rows:
  assumes "transition_or_skip now p s d = Some (q, d')" "p \<in> set (db_pps d)" "distinct (map pp_id (db_pps d))"
  shows "db_pps d' = tbl_update (\<lambda>r. pp_id r = pp_id p) (review_row now s) (db_pps d)"
proof (cases "pp_status p = s")
  case True
  then have "d' = d" using assms(1) by (simp add: transition_or_skip_def)
  moreover have "review_row now s r = r" if "r \<in> set (db_pps d)" "pp_id r = pp_id p" for r
  proof -
    have "r = p" using distinct_key_eq [OF assms(3) that(1) assms(2) that(2)] .
    then show ?thesis using True by (simp add: review_row_def)
  qed
  ultimately show ?thesis by (simp add: tbl_update_idle)
next
  case False
  then obtain q where t: "transition_to now p s = Inr q" and d': "d' = save_transition q False now d"
    using assms(1) by (auto simp: transition_or_skip_def split: sum.splits)
  show ?thesis
    unfolding d' save_transition_def update_pps_def
  proof (simp, rule tbl_update_cong)
    fix r assume r: "r \<in> set (db_pps d)"
    show "(if pp_id r = pp_id q
          then r\<lparr>pp_status := pp_status q, pp_published_at := pp_published_at q, pp_handle := pp_handle q,
                 pp_retry_count := pp_retry_count q, pp_next_retry_at := pp_next_retry_at q,
                 pp_publish_error := pp_publish_error q, pp_updated_at := now\<rparr> else r) =
          (if pp_id r = pp_id p then review_row now s r else r)"
    proof (cases "pp_id r = pp_id p")
      case True
      then have "r = p" using distinct_key_eq [OF assms(3) r assms(2)] by blast
      then show ?thesis using save_transition_own [OF t] t False by (simp add: review_row_def)
    next
      case False
      then show ?thesis using save_transition_own(1) [OF t] by simp
    qed
  qed
qed

lemma tbl_update_insert:
  assumes "\<And>r. key (f r) = key r" and "k \<notin> K"
  shows "tbl_update (\<lambda>r. key r \<in> K) f (tbl_update (\<lambda>r. key r = k) f t) =
    tbl_update (\<lambda>r. key r \<in> insert k K) f t"
  using assms(2) by (induction t) (auto simp: assms(1))

lemma tbl_update_skip:
  assumes "\<And>r. r \<in> set t \<Longrightarrow> key r = k \<Longrightarrow> f r = r"
  shows "tbl_update (\<lambda>r. key r = k \<or> key r \<in> K) f t = tbl_update (\<lambda>r. key r \<in> K) f t"
  by (rule tbl_update_cong) (use assms in auto)

lemma others_stay:
  assumes "set (p # ps) \<subseteq> set t" "distinct (map pp_id (p # ps))"
  shows "set ps \<subseteq> set (tbl_update (\<lambda>r. pp_id r = pp_id p) f t)"
proof
  fix x assume x: "x \<in> set ps"
  then have "pp_id x \<in> pp_id ` set ps" by simp
  then have "pp_id x \<noteq> pp_id p" using assms(2) by (metis distinct.simps(2) list.set_map list.simps(9))
  then show "x \<in> set (tbl_update (\<lambda>r. pp_id r = pp_id p) f t)"
    using x assms(1) by (auto simp: set_tbl_update)
qed

lemma map_id_update [simp]:
  "map pp_id (tbl_update P (review_row now s) t) = map pp_id t"
  by (simp add: map_tbl_update)

lemma move_all_rows:
  assumes "set ps \<subseteq> set (db_pps d)" "distinct (map pp_id ps)" "distinct (map pp_id (db_pps d))"
  shows "db_pps (snd (move_all now s ps d)) =
      tbl_update (\<lambda>r. pp_id r \<in> pp_id ` set ps) (review_row now s) (db_pps d)
    \<and> map pp_id (fst (move_all now s ps d)) = map pp_id (filter (moves s) ps)"
  using assms
proof (induction ps arbitrary: d)
  case Nil
  then show ?case by (simp add: tbl_update_idle)
next
  case (Cons p ps)
  have p: "p \<in> set (db_pps d)" and n: "pp_id p \<notin> pp_id ` set ps" using Cons.prems by auto
  show ?case
  proof (cases "transition_or_skip now p s d")
    case None
    then have m: "\<not> moves s p" by (simp add: transition_or_skip_None)
    then have "review_row now s r = r" if "r \<in> set (db_pps d)" "pp_id r = pp_id p" for r
      using distinct_key_eq [OF Cons.prems(3) that(1) p that(2)]
      by (auto simp: review_row_def moves_def transition_to_def)
    then show ?thesis
      using Cons.IH [of d] Cons.prems None m by (simp add: tbl_update_skip)
  next
    case (Some qd)
    obtain q d1 where qd: "qd = (q, d1)" by (cases qd)
    have t: "transition_or_skip now p s d = Some (q, d1)" using Some qd by simp
    note r = transition_or_skip_rows [OF t p Cons.prems(3)]
    have IH: "db_pps (snd (move_all now s ps d1)) =
        tbl_update (\<lambda>r. pp_id r \<in> pp_id ` set ps) (review_row now s) (db_pps d1)
      \<and> map pp_id (fst (move_all now s ps d1)) = map pp_id (filter (moves s) ps)"
      using Cons.IH [of d1] others_stay [OF Cons.prems(1,2)] Cons.prems(2,3) by (simp add: r)
    have "moves s p" "pp_id q = pp_id p" using transition_or_skip_Some [OF t] by simp_all
    then show ?thesis
      using IH n by (simp add: t r case_prod_beta Let_def tbl_update_insert)
  qed
qed

lemma resolve_bundled:
  assumes "distinct (map pp_id (db_pps d))"
  shows "set (resolve_targets (Bundled po) el d) \<subseteq> set (db_pps d)"
    and "distinct (map pp_id (resolve_targets (Bundled po) el d))"
    and "r \<in> set (db_pps d) \<Longrightarrow>
      pp_id r \<in> pp_id ` set (resolve_targets (Bundled po) el d) \<longleftrightarrow>
      pp_post r = po_id po \<and> pp_status r \<in> set el"
proof -
  show "set (resolve_targets (Bundled po) el d) \<subseteq> set (db_pps d)"
    by (auto simp: children_def)
  show "distinct (map pp_id (resolve_targets (Bundled po) el d))"
    using assms by (simp add: children_def distinct_map_filter)
  assume r: "r \<in> set (db_pps d)"
  have "pp_id r = pp_id x \<Longrightarrow> x \<in> set (db_pps d) \<Longrightarrow> r = x" for x
    using distinct_key_eq [OF assms r] by blast
  then show "pp_id r \<in> pp_id ` set (resolve_targets (Bundled po) el d) \<longleftrightarrow>
      pp_post r = po_id po \<and> pp_status r \<in> set el"
    using r by (auto simp: children_def)
qed

text \<open>A bundled decision, as the whole table sees it.\<close>

lemma move_bundled:
  assumes "keys_ok d" "move_all now s (resolve_targets (Bundled po) el d) d = (moved, d1)"
  shows "db_pps d1 = tbl_update (\<lambda>r. pp_post r = po_id po \<and> pp_status r \<in> set el) (review_row now s) (db_pps d)"
    and "map pp_id moved = map pp_id (filter (\<lambda>r. pp_status r \<in> set el \<and> moves s r) (children (po_id po) d))"
proof -
  have k: "distinct (map pp_id (db_pps d))" using assms(1) by (simp add: keys_ok_def)
  note m = move_all_rows [OF resolve_bundled(1) [OF k] resolve_bundled(2) [OF k] k, where now = now and s = s]
  have "tbl_update (\<lambda>r. pp_id r \<in> pp_id ` set (resolve_targets (Bundled po) el d)) (review_row now s) (db_pps d)
      = tbl_update (\<lambda>r. pp_post r = po_id po \<and> pp_status r \<in> set el) (review_row now s) (db_pps d)"
    by (rule tbl_update_cong) (simp only: resolve_bundled(3) [OF k])
  with conjunct1 [OF m [of po el]] assms(2)
  show "db_pps d1 = tbl_update (\<lambda>r. pp_post r = po_id po \<and> pp_status r \<in> set el) (review_row now s) (db_pps d)"
    by simp
  show "map pp_id moved = map pp_id (filter (\<lambda>r. pp_status r \<in> set el \<and> moves s r) (children (po_id po) d))"
    using conjunct2 [OF m [of po el]] assms(2) by (simp add: conj_commute)
qed

lemma fold_frame: "(\<And>x d. g (f x d) = g d) \<Longrightarrow> g (fold f xs d) = g d"
  by (induction xs arbitrary: d) auto

lemma move_all_frame [frame_simps]:
  "db_actions (snd (move_all now s ps d)) = db_actions d"
  "db_notes (snd (move_all now s ps d)) = db_notes d"
  "db_entries (snd (move_all now s ps d)) = db_entries d"
proof (induction ps arbitrary: d)
  case (Cons p ps)
  { case 1 show ?case using Cons(1) by (auto simp: case_prod_beta Let_def transition_or_skip_def
      save_transition_def update_pps_def split: option.split sum.split) }
  { case 2 show ?case using Cons(2) by (auto simp: case_prod_beta Let_def transition_or_skip_def
      save_transition_def update_pps_def split: option.split sum.split) }
  { case 3 show ?case using Cons(3) by (auto simp: case_prod_beta Let_def transition_or_skip_def
      save_transition_def update_pps_def split: option.split sum.split) }
qed simp_all

lemma record_action_frame [frame_simps]:
  "db_pps (record_action po p u act c d) = db_pps d"
  "db_notes (record_action po p u act c d) = db_notes d"
  "db_members (record_action po p u act c d) = db_members d"
  by (simp_all add: record_action_def)

lemma record_moved_frame [frame_simps]:
  "db_pps (record_moved t moved u act c d) = db_pps d"
  "db_notes (record_moved t moved u act c d) = db_notes d"
  by (cases t; simp add: frame_simps fold_frame)+

lemma notify_frame [frame_simps]:
  "db_pps (notify v e ti b da d) = db_pps d" "db_actions (notify v e ti b da d) = db_actions d"
  "db_reminders (notify v e ti b da d) = db_reminders d"
  "db_notes (notify v e ti b da d) =
    db_notes d @ [\<lparr>nt_user = v, nt_event = e, nt_title = ti, nt_body = b, nt_data = da\<rparr>]"
  by (simp_all add: notify_def add_note_def)

lemma notify_all_frame [frame_simps]:
  "db_pps (notify_all us e ti b da d) = db_pps d" "db_actions (notify_all us e ti b da d) = db_actions d"
  "db_reminders (notify_all us e ti b da d) = db_reminders d"
  by (simp_all add: notify_all_def fold_frame frame_simps)

lemma notify_all_notes [frame_simps]:
  "db_notes (notify_all us e ti b da d) =
    db_notes d @ map (\<lambda>v. \<lparr>nt_user = v, nt_event = e, nt_title = ti, nt_body = b, nt_data = da\<rparr>) us"
  unfolding notify_all_def by (induction us arbitrary: d) (simp_all add: frame_simps)

lemma notify_author_frame [frame_simps]:
  "db_pps (notify_author po u w e ti b d) = db_pps d"
  "db_actions (notify_author po u w e ti b d) = db_actions d"
  by (simp_all add: notify_author_def frame_simps split: option.split)

lemma reset_reminder_frame [frame_simps]:
  "db_pps (reset_reminder po st d) = db_pps d" "db_actions (reset_reminder po st d) = db_actions d"
  "db_notes (reset_reminder po st d) = db_notes d"
  by (simp_all add: reset_reminder_def Let_def)

section \<open>Lemmas: approval, one stage or two\<close>

definition approve_row :: "instant \<Rightarrow> bool \<Rightarrow> platform_post \<Rightarrow> platform_post" where
  "approve_row now two_stage r =
    (let a = review_row now APPROVED r in
     if two_stage \<and> pp_status r = PENDING_REVIEW then review_row now PENDING_CLIENT a else a)"

lemma approve_row_keeps [simp]: "pp_id (approve_row now b r) = pp_id r"
  by (simp add: approve_row_def Let_def)

lemma approve_row_unmoved: "\<not> moves APPROVED r \<Longrightarrow> approve_row now b r = r"
  by (auto simp: approve_row_def Let_def moves_def review_row_def can_transition_to_def transition_to_def)

lemma approve_step:
  assumes t: "transition_or_skip now p APPROVED d = Some (q, d1)" and p: "p \<in> set (db_pps d)"
    and k: "distinct (map pp_id (db_pps d))"
  obtains q2 d2 where
    "approve_all now two (p # ps) d =
      (let (moved, adv, d3) = approve_all now two ps d2
       in (q2 # moved, two \<and> pp_status p = PENDING_REVIEW \<or> adv, d3))"
    "pp_id q2 = pp_id p"
    "db_pps d2 = tbl_update (\<lambda>r. pp_id r = pp_id p) (approve_row now two) (db_pps d)"
proof (cases "two \<and> pp_status p = PENDING_REVIEW")
  note r1 = transition_or_skip_rows [OF t p k]
  note same = distinct_key_eq [OF k _ p]
  have q: "pp_id q = pp_id p" "pp_status q = APPROVED" "q = review_row now APPROVED p"
    using transition_or_skip_Some [OF t] by blast+
  {
    case False
    have "db_pps d1 = tbl_update (\<lambda>r. pp_id r = pp_id p) (approve_row now two) (db_pps d)"
      unfolding r1
      by (rule tbl_update_cong) (use same False in \<open>auto simp: approve_row_def Let_def\<close>)
    then show ?thesis
      using that [of d1 q] False q(1) t by (auto simp: Let_def)
  next
    case True
    have "moves PENDING_CLIENT q" by (simp add: moves_def can_transition_to_def q(2))
    then obtain q2 d2 where t2: "transition_or_skip now q PENDING_CLIENT d1 = Some (q2, d2)"
      using transition_or_skip_None by (cases "transition_or_skip now q PENDING_CLIENT d1") auto
    have q_in: "q \<in> set (db_pps d1)" using p by (auto simp: r1 set_tbl_update q(3))
    have k1: "distinct (map pp_id (db_pps d1))" using k by (simp add: r1)
    have "db_pps d2 = tbl_update (\<lambda>r. pp_id r = pp_id q) (review_row now PENDING_CLIENT) (db_pps d1)"
      by (rule transition_or_skip_rows [OF t2 q_in k1])
    also have "\<dots> = tbl_update (\<lambda>r. pp_id r = pp_id p) (approve_row now two) (db_pps d)"
      unfolding r1 q(1) tbl_update_def map_map comp_def
      by (rule map_cong [OF refl]) (use same True in \<open>auto simp: approve_row_def Let_def\<close>)
    finally have "db_pps d2 = tbl_update (\<lambda>r. pp_id r = pp_id p) (approve_row now two) (db_pps d)" .
    moreover have "pp_id q2 = pp_id p" using transition_or_skip_Some [OF t2] q(1) by simp
    ultimately show ?thesis using that [of d2 q2] True t t2 by simp
  }
qed

lemma approve_all_rows:
  assumes "set ps \<subseteq> set (db_pps d)" "distinct (map pp_id ps)" "distinct (map pp_id (db_pps d))"
  shows "db_pps (snd (snd (approve_all now two ps d))) =
      tbl_update (\<lambda>r. pp_id r \<in> pp_id ` set ps) (approve_row now two) (db_pps d)
    \<and> fst (snd (approve_all now two ps d)) = (two \<and> list_ex (\<lambda>p. pp_status p = PENDING_REVIEW) ps)
    \<and> map pp_id (fst (approve_all now two ps d)) = map pp_id (filter (moves APPROVED) ps)"
  using assms
proof (induction ps arbitrary: d)
  case Nil
  then show ?case by (simp add: tbl_update_idle)
next
  case (Cons p ps)
  have p: "p \<in> set (db_pps d)" and n: "pp_id p \<notin> pp_id ` set ps" using Cons.prems by auto
  show ?case
  proof (cases "transition_or_skip now p APPROVED d")
    case None
    then have m: "\<not> moves APPROVED p" by (simp add: transition_or_skip_None)
    then have "approve_row now two r = r" if "r \<in> set (db_pps d)" "pp_id r = pp_id p" for r
      using distinct_key_eq [OF Cons.prems(3) that(1) p that(2)] approve_row_unmoved by blast
    moreover have "pp_status p \<noteq> PENDING_REVIEW" using m by (auto simp: moves_def can_transition_to_def)
    ultimately show ?thesis
      using Cons.IH [of d] Cons.prems None m by (simp add: tbl_update_skip)
  next
    case (Some qd)
    obtain q d1 where t: "transition_or_skip now p APPROVED d = Some (q, d1)" using Some by (cases qd) auto
    have m: "moves APPROVED p" using transition_or_skip_Some [OF t] by blast
    obtain q2 d2 where step: "approve_all now two (p # ps) d =
        (let (moved, adv, d3) = approve_all now two ps d2
         in (q2 # moved, two \<and> pp_status p = PENDING_REVIEW \<or> adv, d3))"
      and ids: "pp_id q2 = pp_id p"
      and rows: "db_pps d2 = tbl_update (\<lambda>r. pp_id r = pp_id p) (approve_row now two) (db_pps d)"
      by (rule approve_step [OF t p Cons.prems(3)])
    have k: "map pp_id (db_pps d2) = map pp_id (db_pps d)" by (simp add: rows map_tbl_update)
    have s: "set ps \<subseteq> set (db_pps d2)" unfolding rows by (rule others_stay [OF Cons.prems(1,2)])
    have IH: "db_pps (snd (snd (approve_all now two ps d2))) =
        tbl_update (\<lambda>r. pp_id r \<in> pp_id ` set ps) (approve_row now two) (db_pps d2)"
      "fst (snd (approve_all now two ps d2)) = (two \<and> list_ex (\<lambda>p. pp_status p = PENDING_REVIEW) ps)"
      "map pp_id (fst (approve_all now two ps d2)) = map pp_id (filter (moves APPROVED) ps)"
      using Cons.IH [OF s] Cons.prems(2,3) by (simp_all add: k)
    have "db_pps (snd (snd (approve_all now two (p # ps) d))) =
        tbl_update (\<lambda>r. pp_id r \<in> pp_id ` set (p # ps)) (approve_row now two) (db_pps d)"
      using IH(1) n by (simp add: step rows case_prod_beta Let_def tbl_update_insert del: approve_all.simps)
    moreover have "fst (snd (approve_all now two (p # ps) d)) =
        (two \<and> list_ex (\<lambda>p. pp_status p = PENDING_REVIEW) (p # ps))"
      using IH(2) by (auto simp: step case_prod_beta Let_def simp del: approve_all.simps)
    moreover have "map pp_id (fst (approve_all now two (p # ps) d)) = map pp_id (filter (moves APPROVED) (p # ps))"
      using IH(3) m ids by (simp add: step case_prod_beta Let_def del: approve_all.simps)
    ultimately show ?thesis by blast
  qed
qed

lemma review_row_pending:
  "pp_status r \<in> {PENDING_REVIEW, PENDING_CLIENT} \<Longrightarrow> s \<in> {REJECTED, CHANGES_REQUESTED} \<Longrightarrow>
    review_row now s r = r\<lparr>pp_status := s, pp_updated_at := now\<rparr>"
  by (auto simp: review_row_def transition_to_def can_transition_to_def)

lemma approve_row_cases:
  "approve_row now two r =
    (if pp_status r = PENDING_REVIEW
     then r\<lparr>pp_status := (if two then PENDING_CLIENT else APPROVED), pp_updated_at := now\<rparr>
     else if pp_status r \<in> {PENDING_CLIENT, ON_HOLD} then r\<lparr>pp_status := APPROVED, pp_updated_at := now\<rparr>
     else r)"
  by (cases "pp_status r") (simp_all add: approve_row_def review_row_def transition_to_def
      can_transition_to_def Let_def)

lemma approve_all_notes: "db_notes (snd (snd (approve_all now two ps d))) = db_notes d"
proof (induction ps arbitrary: d)
  case (Cons p ps)
  have "transition_or_skip now q s e = Some (q', e') \<Longrightarrow> db_notes e' = db_notes e" for q s e q' e'
    by (auto simp: transition_or_skip_def save_transition_def update_pps_def split: if_splits sum.splits)
  then show ?case using Cons by (auto simp: case_prod_beta Let_def split: option.split)
qed simp

section \<open>Properties: decisions\<close>

text \<open>
  Rejecting a whole post decides exactly its channels under review: each becomes rejected
  and nothing else in the table of channels changes; the audit trail gains one bundled action
  with the comment when a channel moved and none otherwise; a blank comment is refused.
\<close>

theorem rejection_decides_channels_under_review:
  assumes "keys_ok d" and "reject_post now (Bundled po) u w comment d = Inr (moved, d')"
  shows "py_strip comment \<noteq> [] \<and>
    db_pps d' = map (\<lambda>r. if pp_post r = po_id po \<and> pp_status r \<in> {PENDING_REVIEW, PENDING_CLIENT}
                        then r\<lparr>pp_status := REJECTED, pp_updated_at := now\<rparr> else r) (db_pps d) \<and>
    map pp_id moved = map pp_id (filter (\<lambda>r. pp_status r \<in> {PENDING_REVIEW, PENDING_CLIENT})
                                  (children (po_id po) d)) \<and>
    db_actions d' = db_actions d @ (if moved = [] then [] else
      [\<lparr>aa_post = po_id po, aa_pp = None, aa_user = us_id u, aa_action = ACT_REJECTED, aa_comment = comment\<rparr>])"
proof -
  let ?ts = "resolve_targets (Bundled po) [PENDING_REVIEW, PENDING_CLIENT] d"
  obtain m d1 where m: "move_all now REJECTED ?ts d = (m, d1)" by fastforce
  note b = move_bundled [OF assms(1) m]
  have c: "py_strip comment \<noteq> []" and mm: "moved = m"
    and d': "d' = (if m = [] then d1 else
        notify_author po u w ''post_rejected'' ''Post rejected''
          (display_name u @ '' rejected your post: '' @ quoted (take 100 comment))
          (record_moved (Bundled po) m u ACT_REJECTED comment d1))"
    using assms(2) m by (auto simp: reject_post_def Let_def split: if_splits simp del: record_moved.simps resolve_targets.simps)
  have "moves REJECTED r" if "pp_status r \<in> {PENDING_REVIEW, PENDING_CLIENT}" for r
    using that by (auto simp: moves_def can_transition_to_def)
  then have ids: "map pp_id moved = map pp_id (filter (\<lambda>r. pp_status r \<in> {PENDING_REVIEW, PENDING_CLIENT})
      (children (po_id po) d))"
    unfolding mm b(2) by (intro arg_cong [where f = "map pp_id"] filter_cong) auto
  have rows: "db_pps d' = tbl_update (\<lambda>r. pp_post r = po_id po \<and> pp_status r \<in> set [PENDING_REVIEW, PENDING_CLIENT])
      (review_row now REJECTED) (db_pps d)"
    using b(1) by (simp add: d' frame_simps)
  have "db_pps d' = map (\<lambda>r. if pp_post r = po_id po \<and> pp_status r \<in> {PENDING_REVIEW, PENDING_CLIENT}
                        then r\<lparr>pp_status := REJECTED, pp_updated_at := now\<rparr> else r) (db_pps d)"
    unfolding rows tbl_update_def by (rule map_cong [OF refl]) (auto simp: review_row_pending)
  moreover have "db_actions d1 = db_actions d" using move_all_frame(1) [of now REJECTED ?ts d] m by simp
  ultimately show ?thesis
    using c ids by (simp add: d' mm frame_simps) (simp add: record_action_def)
qed

definition reviewer :: user where
  "reviewer = \<lparr>us_id = 4, us_name = ''Rita'', us_email = ''rita@acme.test''\<rparr>"

definition review_db :: db where
  "review_db = sample_db\<lparr>db_pps :=
     [(new_platform_post 8 7 5 0)\<lparr>pp_status := PENDING_REVIEW\<rparr>,
      (new_platform_post 9 7 6 0)\<lparr>pp_status := PENDING_CLIENT\<rparr>,
      (new_platform_post 6 7 3 0)\<lparr>pp_status := APPROVED\<rparr>]\<rparr>"

lemmas review_defs = review_db_def sample_db_def sample_post_def composer_sample_defs reviewer_def
  new_platform_post_def

lemma keys_ok_review_db [simp]: "keys_ok review_db"
  by (simp add: keys_ok_def review_defs)

theorem rejection_decides_channels_under_review_witness:
  "\<exists>moved d'. reject_post 50 (Bundled sample_post) reviewer sample_ws ''no'' review_db = Inr (moved, d') \<and>
    map pp_status (db_pps d') = [REJECTED, REJECTED, APPROVED]"
proof -
  have c: "py_strip ''no'' \<noteq> []" by (simp add: py_strip_def is_space_def)
  then obtain x where "reject_post 50 (Bundled sample_post) reviewer sample_ws ''no'' review_db = Inr x"
    by (simp add: reject_post_def Let_def case_prod_beta del: resolve_targets.simps)
  then obtain moved d' where r: "reject_post 50 (Bundled sample_post) reviewer sample_ws ''no'' review_db = Inr (moved, d')"
    by (cases x) simp
  note t = rejection_decides_channels_under_review [OF keys_ok_review_db r]
  have "map pp_status (db_pps d') = [REJECTED, REJECTED, APPROVED]"
    by (subst conjunct1 [OF conjunct2 [OF t]]) (simp add: review_defs)
  with r show ?thesis by (intro exI conjI)
qed

lemma approve_post_rows:
  assumes "keys_ok d" and "approve_post now (Bundled po) u w comment d = (moved, d')"
  shows "db_pps d' = map (\<lambda>r. if pp_post r \<noteq> po_id po then r
      else if pp_status r = PENDING_REVIEW then
        r\<lparr>pp_status := (if ws_approval_mode w = ''required_internal_and_client'' then PENDING_CLIENT
                        else APPROVED), pp_updated_at := now\<rparr>
      else if pp_status r = PENDING_CLIENT then r\<lparr>pp_status := APPROVED, pp_updated_at := now\<rparr>
      else r) (db_pps d)"
proof -
  let ?el = "[PENDING_REVIEW, PENDING_CLIENT, DRAFT, REJECTED, CHANGES_REQUESTED]"
  let ?two = "ws_approval_mode w = ''required_internal_and_client''"
  let ?ts = "resolve_targets (Bundled po) ?el d"
  have k: "distinct (map pp_id (db_pps d))" using assms(1) by (simp add: keys_ok_def)
  obtain m adv d1 where m: "approve_all now ?two ?ts d = (m, adv, d1)" by (metis surj_pair)
  note r = approve_all_rows [OF resolve_bundled(1) [OF k] resolve_bundled(2) [OF k] k,
      of now ?two po ?el, unfolded m]
  have d': "db_pps d' = db_pps d1"
    using assms(2) m by (auto simp: approve_post_def Let_def frame_simps notify_clients_def
        split: if_splits simp del: resolve_targets.simps)
  have rows: "db_pps d1 = map (\<lambda>x. if pp_id x \<in> pp_id ` set ?ts then approve_row now ?two x else x) (db_pps d)"
    using conjunct1 [OF r] by (simp add: tbl_update_def del: resolve_targets.simps)
  show ?thesis
    unfolding d' rows
  proof (rule map_cong [OF refl])
    fix x assume x: "x \<in> set (db_pps d)"
    show "(if pp_id x \<in> pp_id ` set ?ts then approve_row now ?two x else x) =
      (if pp_post x \<noteq> po_id po then x
       else if pp_status x = PENDING_REVIEW then
         x\<lparr>pp_status := (if ?two then PENDING_CLIENT else APPROVED), pp_updated_at := now\<rparr>
       else if pp_status x = PENDING_CLIENT then x\<lparr>pp_status := APPROVED, pp_updated_at := now\<rparr>
       else x)"
      unfolding resolve_bundled(3) [OF k x] approve_row_cases by (cases "pp_status x") simp_all
  qed
qed



text \<open>
  A hold takes an approved post out of the publish path and resuming gives it back: while
  held no channel of the post that was approved can be scheduled or published by any
  transition, and (when nothing was on hold before) lifting the hold restores the table as it
  was, up to the modification time of the held rows.
\<close>

theorem hold_resume_roundtrip:
  assumes "keys_ok d" and "request_hold now (Bundled po) u w comment d = Inr (moved, d1)"
    and "resume_hold later (Bundled po) u' w d1 = (moved', d2)"
    and "ON_HOLD \<notin> pp_status ` set (children (po_id po) d)"
  shows "list_all (\<lambda>r. \<not> edge (pp_status r) SCHEDULED \<and> \<not> edge (pp_status r) PUBLISHING)
      (filter (\<lambda>r. pp_id r \<in> pp_id ` {c \<in> set (children (po_id po) d). pp_status c = APPROVED}) (db_pps d1)) \<and>
    db_pps d2 = map (\<lambda>r. if pp_post r = po_id po \<and> pp_status r = APPROVED
                        then r\<lparr>pp_updated_at := later\<rparr> else r) (db_pps d)"
proof -
  let ?hold = "\<lambda>r. if pp_post r = po_id po \<and> pp_status r = APPROVED
      then r\<lparr>pp_status := ON_HOLD, pp_updated_at := now\<rparr> else r"
  have k: "distinct (map pp_id (db_pps d))" using assms(1) by (simp add: keys_ok_def)
  have rows1: "db_pps d1 = map ?hold (db_pps d)"
  proof -
    obtain m e where m: "move_all now ON_HOLD (resolve_targets (Bundled po) [APPROVED] d) d = (m, e)" by fastforce
    have "db_pps d1 = db_pps e"
      using assms(2) m by (auto simp: request_hold_def Let_def notify_reviewers_of_hold_def
          notify_reviewers_def frame_simps split: if_splits simp del: resolve_targets.simps)
    then show ?thesis
      unfolding move_bundled(1) [OF assms(1) m] tbl_update_def
      by (simp) (auto simp: review_row_def transition_to_def can_transition_to_def)
  qed
  have ids: "map pp_id (db_pps d1) = map pp_id (db_pps d)" by (simp add: rows1)
  obtain m e where m: "move_all later APPROVED (resolve_targets (Bundled po) [ON_HOLD] d1) d1 = (m, e)" by fastforce
  have k1': "distinct (map pp_id (db_pps d1))" using k by (simp add: ids)
  have "db_pps e = tbl_update (\<lambda>r. pp_id r \<in> pp_id ` set (resolve_targets (Bundled po) [ON_HOLD] d1))
      (review_row later APPROVED) (db_pps d1)"
    using move_all_rows [OF resolve_bundled(1) [OF k1'] resolve_bundled(2) [OF k1'] k1', of later APPROVED po "[ON_HOLD]"] m
    by simp
  also have "\<dots> = tbl_update (\<lambda>r. pp_post r = po_id po \<and> pp_status r \<in> set [ON_HOLD])
      (review_row later APPROVED) (db_pps d1)"
    by (rule tbl_update_cong) (simp only: resolve_bundled(3) [OF k1'])
  finally have e: "db_pps e = tbl_update (\<lambda>r. pp_post r = po_id po \<and> pp_status r \<in> set [ON_HOLD])
      (review_row later APPROVED) (db_pps d1)" .
  have "db_pps d2 = db_pps e"
    using assms(3) m by (auto simp: resume_hold_def Let_def frame_simps split: if_splits simp del: resolve_targets.simps)
  then have rows2: "db_pps d2 = map (\<lambda>r. if pp_post r = po_id po \<and> pp_status r = APPROVED
                        then r\<lparr>pp_updated_at := later\<rparr> else r) (db_pps d)"
    unfolding e rows1 tbl_update_def map_map comp_def
  proof (simp only:, intro map_cong [OF refl])
    fix r assume "r \<in> set (db_pps d)"
    then have n: "pp_post r = po_id po \<Longrightarrow> pp_status r \<noteq> ON_HOLD"
      using assms(4) by (force simp: children_def)
    show "(if pp_post (?hold r) = po_id po \<and> pp_status (?hold r) \<in> set [ON_HOLD]
           then review_row later APPROVED (?hold r) else ?hold r) =
        (if pp_post r = po_id po \<and> pp_status r = APPROVED then r\<lparr>pp_updated_at := later\<rparr> else r)"
      using n by (cases "pp_post r = po_id po"; cases "pp_status r = APPROVED")
        (simp_all add: review_row_def transition_to_def can_transition_to_def)
  qed
  have "pp_status r = ON_HOLD" if r: "r \<in> set (db_pps d1)"
    "pp_id r \<in> pp_id ` {c \<in> set (children (po_id po) d). pp_status c = APPROVED}" for r
  proof -
    obtain x where x: "x \<in> set (db_pps d)" "r = ?hold x" using r(1) unfolding rows1 by auto
    obtain c where c: "c \<in> set (db_pps d)" "pp_post c = po_id po" "pp_status c = APPROVED" "pp_id c = pp_id r"
      using r(2) by (auto simp: children_def)
    have "pp_id r = pp_id x" using x(2) by simp
    then have "c = x" using distinct_key_eq [OF k c(1) x(1)] c(4) by simp
    then show ?thesis using c x(2) by simp
  qed
  then have "\<not> edge (pp_status r) SCHEDULED \<and> \<not> edge (pp_status r) PUBLISHING"
    if "r \<in> set (filter (\<lambda>r. pp_id r \<in> pp_id ` {c \<in> set (children (po_id po) d). pp_status c = APPROVED})
      (db_pps d1))" for r
    using that by (simp add: edge_iff)
  then have "list_all (\<lambda>r. \<not> edge (pp_status r) SCHEDULED \<and> \<not> edge (pp_status r) PUBLISHING)
      (filter (\<lambda>r. pp_id r \<in> pp_id ` {c \<in> set (children (po_id po) d). pp_status c = APPROVED}) (db_pps d1))"
    unfolding list_all_iff by blast
  with rows2 show ?thesis by blast
qed

theorem hold_resume_roundtrip_witness:
  "\<exists>moved d1 moved' d2.
    request_hold 50 (Bundled sample_post) reviewer sample_ws ''wait'' review_db = Inr (moved, d1) \<and>
    resume_hold 60 (Bundled sample_post) reviewer sample_ws d1 = (moved', d2) \<and>
    map pp_status (db_pps d2) = [PENDING_REVIEW, PENDING_CLIENT, APPROVED]"
proof -
  have "py_strip ''wait'' \<noteq> []" by (simp add: py_strip_def is_space_def)
  then obtain x where "request_hold 50 (Bundled sample_post) reviewer sample_ws ''wait'' review_db = Inr x"
    by (simp add: request_hold_def Let_def case_prod_beta del: resolve_targets.simps)
  then obtain moved d1 where h: "request_hold 50 (Bundled sample_post) reviewer sample_ws ''wait'' review_db = Inr (moved, d1)"
    by (cases x) simp
  obtain moved' d2 where r: "resume_hold 60 (Bundled sample_post) reviewer sample_ws d1 = (moved', d2)"
    by fastforce
  have n: "ON_HOLD \<notin> pp_status ` set (children (po_id sample_post) review_db)"
    by (auto simp: children_def review_defs)
  have "map pp_status (db_pps d2) = [PENDING_REVIEW, PENDING_CLIENT, APPROVED]"
    by (subst conjunct2 [OF hold_resume_roundtrip [OF keys_ok_review_db h r n]]) (simp add: review_defs)
  with h r show ?thesis by (intro exI conjI)
qed

section \<open>Lemmas: reminders\<close>

definition reminder_of :: "nat \<Rightarrow> string \<Rightarrow> db \<Rightarrow> approval_reminder option" where
  "reminder_of po stage d = tbl_first (\<lambda>r. ar_post r = po \<and> ar_stage r = stage) (db_reminders d)"

text \<open>The rounds of notifications a post has had in a stage: reminders, and the escalation.\<close>

definition rounds :: "nat \<Rightarrow> string \<Rightarrow> db \<Rightarrow> nat" where
  "rounds po stage d =
    (case reminder_of po stage d of None \<Rightarrow> 0 | Some r \<Rightarrow> ar_count r + (if ar_escalated r then 1 else 0))"

definition last_reminder :: "nat \<Rightarrow> string \<Rightarrow> db \<Rightarrow> instant option" where
  "last_reminder po stage d = (case reminder_of po stage d of None \<Rightarrow> None | Some r \<Rightarrow> ar_last_at r)"

definition reminder_ok :: "approval_reminder \<Rightarrow> bool" where
  "reminder_ok r \<longleftrightarrow> ar_count r \<le> MAX_REMINDERS \<and> (ar_escalated r \<longrightarrow> ar_count r = MAX_REMINDERS)"

definition reminders_ok :: "db \<Rightarrow> bool" where
  "reminders_ok d \<longleftrightarrow> list_all reminder_ok (db_reminders d)"

lemma reminder_of_save:
  assumes "reminder_of (ar_post r) (ar_stage r) d \<noteq> None"
  shows "reminder_of (ar_post r) (ar_stage r) (save_reminder r d) = Some r"
  using assms tbl_first_replace [of "\<lambda>x. ar_post x = ar_post r \<and> ar_stage x = ar_stage r" r]
  by (simp add: reminder_of_def save_reminder_def)

lemma get_or_create_reminder_result:
  assumes "get_or_create_reminder po stage d = (r, d1)"
  shows "ar_post r = po \<and> ar_stage r = stage \<and> reminder_of po stage d1 = Some r \<and>
    rounds po stage d1 = rounds po stage d \<and> last_reminder po stage d = ar_last_at r \<and>
    db_notes d1 = db_notes d \<and> (reminders_ok d \<longrightarrow> reminder_ok r \<and> reminders_ok d1)"
proof (cases "tbl_first (\<lambda>r. ar_post r = po \<and> ar_stage r = stage) (db_reminders d)")
  case None
  then show ?thesis using assms
    by (auto simp: get_or_create_reminder_def Let_def reminder_of_def rounds_def last_reminder_def
        tbl_first_append reminders_ok_def reminder_ok_def) (auto simp: tbl_first_def)
next
  case (Some x)
  then have "x \<in> set (db_reminders d) \<and> ar_post x = po \<and> ar_stage x = stage" by (blast dest: tbl_first_Some)
  with Some show ?thesis using assms
    by (auto simp: get_or_create_reminder_def reminder_of_def rounds_def last_reminder_def
        reminders_ok_def list_all_iff)
qed

lemma reminders_ok_save:
  "db_reminders e = db_reminders d \<Longrightarrow> reminders_ok d \<Longrightarrow> reminder_ok r \<Longrightarrow> reminders_ok (save_reminder r e)"
  by (auto simp: reminders_ok_def save_reminder_def list_all_iff set_tbl_update)

lemma reminder_frames [frame_simps]:
  "db_reminders (remind_reviewers po w d) = db_reminders d"
  "db_reminders (remind_clients po w d) = db_reminders d"
  "db_reminders (escalate po w stage d) = db_reminders d"
  "db_notes (save_reminder r d) = db_notes d"
  by (simp_all add: remind_reviewers_def remind_clients_def escalate_def Let_def frame_simps
      save_reminder_def)

text \<open>What one round of the loop may do: nothing, escalate, or send one more reminder.\<close>

lemma remind_cases:
  assumes "get_or_create_reminder (po_id po) stage d = (r, d1)"
  obtains "remind now h stage po d = d1"
  | e where "remind now h stage po d = save_reminder (r\<lparr>ar_escalated := True\<rparr>) e"
      "MAX_REMINDERS \<le> ar_count r" "\<not> ar_escalated r" "db_reminders e = db_reminders d1"
  | e where "remind now h stage po d = save_reminder (r\<lparr>ar_count := ar_count r + 1, ar_last_at := Some now\<rparr>) e"
      "ar_count r < MAX_REMINDERS" "\<forall>t. ar_last_at r = Some t \<longrightarrow> t + hours h \<le> now"
      "db_reminders e = db_reminders d1"
proof (cases "get_workspace (po_workspace po) d")
  case None
  then show ?thesis using that(1) assms by (simp add: remind_def)
next
  case (Some w)
  define e where "e = (if stage = ''pending_review'' then remind_reviewers po w d1
      else if stage = ''pending_client'' then remind_clients po w d1 else d1)"
  have e: "db_reminders e = db_reminders d1" by (simp add: e_def frame_simps)
  show ?thesis
  proof (cases "MAX_REMINDERS \<le> ar_count r")
    case True
    then show ?thesis
      using that(1) that(2) [of "escalate po w stage d1"] assms Some
      by (cases "ar_escalated r") (simp_all add: remind_def frame_simps)
  next
    case False
    show ?thesis
    proof (cases "\<exists>t. ar_last_at r = Some t \<and> now < t + hours h")
      case True
      then show ?thesis using that(1) assms Some False by (auto simp: remind_def)
    next
      case early: False
      have "remind now h stage po d = save_reminder (r\<lparr>ar_count := ar_count r + 1, ar_last_at := Some now\<rparr>) e"
        using assms Some False early by (cases "ar_last_at r") (simp_all add: remind_def e_def)
      then show ?thesis using that(3) False early e by (auto simp: not_le not_less)
    qed
  qed
qed

lemma remind_ok: "reminders_ok d \<Longrightarrow> reminders_ok (remind now h stage po d)"
proof -
  assume ok: "reminders_ok d"
  obtain r d1 where g: "get_or_create_reminder (po_id po) stage d = (r, d1)" by fastforce
  have r: "reminder_ok r" "reminders_ok d1" using get_or_create_reminder_result [OF g] ok by auto
  show ?thesis
    by (rule remind_cases [OF g, of now h])
      (use r in \<open>auto intro!: reminders_ok_save [of _ d1] simp: reminder_ok_def\<close>)
qed

lemma process_stage_ok: "reminders_ok d \<Longrightarrow> reminders_ok (process_stage stage status h now d)"
proof -
  have "reminders_ok e \<Longrightarrow> reminders_ok (fold (remind now h stage) pos e)" for pos e
    by (induction pos arbitrary: e) (simp_all add: remind_ok)
  then show "reminders_ok d \<Longrightarrow> reminders_ok (process_stage stage status h now d)"
    by (simp add: process_stage_def)
qed

interpretation reminder_cycle: machine check_approval_reminders reminders_ok
  by unfold_locales (simp add: check_approval_reminders_def process_stage_ok)

section \<open>Properties: reminders\<close>

text \<open>
  However often the hourly cycle runs, at whatever times, a post in a stage has at most two
  reminders and one escalation, and is escalated only after both reminders.
\<close>

theorem reminder_rounds_bounded:
  assumes "reminders_ok d"
  shows "rounds po stage (foldl check_approval_reminders d cycles) \<le> 3 \<and>
    reminders_ok (foldl check_approval_reminders d cycles)"
proof -
  let ?d = "foldl check_approval_reminders d cycles"
  have ok: "reminders_ok ?d" using assms by (rule reminder_cycle.run_inv)
  have "rounds po stage ?d \<le> 3"
  proof (cases "reminder_of po stage ?d")
    case (Some r)
    then have "r \<in> set (db_reminders ?d)"
      unfolding reminder_of_def by (blast dest: tbl_first_Some)
    then have "reminder_ok r" using ok by (simp add: reminders_ok_def list_all_iff)
    then show ?thesis using Some by (simp add: rounds_def reminder_ok_def MAX_REMINDERS_def)
  qed (simp add: rounds_def)
  with ok show ?thesis by blast
qed

theorem reminder_rounds_bounded_witness:
  "rounds 7 ''pending_review'' (foldl check_approval_reminders review_db [days 9, days 11, days 13, days 15]) \<le> 3"
  using reminder_rounds_bounded [of review_db 7 "''pending_review''" "[days 9, days 11, days 13, days 15]"]
  by (simp add: reminders_ok_def review_defs)

text \<open>
  A run over a stalled post that notifies anyone spends exactly one round of its budget, and
  while reminders are left it does so no sooner than the stage's threshold after the last one.
\<close>

theorem remind_spends_a_round:
  assumes "reminders_ok d" and "db_notes (remind now h stage po d) \<noteq> db_notes d"
  shows "rounds (po_id po) stage (remind now h stage po d) = rounds (po_id po) stage d + 1 \<and>
    (rounds (po_id po) stage d < MAX_REMINDERS \<longrightarrow>
      (\<forall>t. last_reminder (po_id po) stage d = Some t \<longrightarrow> t + hours h \<le> now))"
proof -
  obtain r d1 where g: "get_or_create_reminder (po_id po) stage d = (r, d1)" by fastforce
  note G = get_or_create_reminder_result [OF g]
  have r: "ar_post r = po_id po" "ar_stage r = stage" "reminder_of (po_id po) stage d1 = Some r"
    "rounds (po_id po) stage d = ar_count r + (if ar_escalated r then 1 else 0)"
    "last_reminder (po_id po) stage d = ar_last_at r" "reminder_ok r"
    using G assms(1) by (auto simp: rounds_def)
  show ?thesis
  proof (rule remind_cases [OF g, of now h])
    assume "remind now h stage po d = d1"
    then show ?thesis using assms(2) G by simp
  next
    fix e assume e: "remind now h stage po d = save_reminder (r\<lparr>ar_escalated := True\<rparr>) e"
      "MAX_REMINDERS \<le> ar_count r" "\<not> ar_escalated r" "db_reminders e = db_reminders d1"
    have "reminder_of (po_id po) stage e = Some r" using r(3) e(4) by (simp add: reminder_of_def)
    then have "reminder_of (po_id po) stage (remind now h stage po d) = Some (r\<lparr>ar_escalated := True\<rparr>)"
      using reminder_of_save [of "r\<lparr>ar_escalated := True\<rparr>" e] r(1,2) e(1) by simp
    then show ?thesis using r e(2,3) by (simp add: rounds_def)
  next
    fix e assume e: "remind now h stage po d = save_reminder (r\<lparr>ar_count := ar_count r + 1, ar_last_at := Some now\<rparr>) e"
      "ar_count r < MAX_REMINDERS" "\<forall>t. ar_last_at r = Some t \<longrightarrow> t + hours h \<le> now"
      "db_reminders e = db_reminders d1"
    have "reminder_of (po_id po) stage e = Some r" using r(3) e(4) by (simp add: reminder_of_def)
    then have "reminder_of (po_id po) stage (remind now h stage po d)
        = Some (r\<lparr>ar_count := ar_count r + 1, ar_last_at := Some now\<rparr>)"
      using reminder_of_save [of "r\<lparr>ar_count := ar_count r + 1, ar_last_at := Some now\<rparr>" e] r(1,2) e(1) by simp
    then show ?thesis using r e(3) by (simp add: rounds_def)
  qed
qed

definition remind_db :: db where
  "remind_db = review_db\<lparr>db_members :=
     [\<lparr>mb_id = 1, mb_user = 4, mb_workspace = 1, mb_role = WS_MANAGER, mb_custom = None\<rparr>]\<rparr>"

theorem remind_spends_a_round_witness:
  "rounds 7 ''pending_review'' (remind (days 2) 24 ''pending_review'' sample_post remind_db) = 1"
proof -
  have m: "reviewers_of (Suc 0) remind_db = [4]"
    by (simp add: reviewers_of_def members_of_def remind_db_def has_perm_def effective_permissions_def perm_get_def)
  have m': "reviewers_of (Suc 0) (remind_db\<lparr>db_reminders := rs\<rparr>) = reviewers_of (Suc 0) remind_db" for rs
    by (simp add: reviewers_of_def members_of_def)
  have g: "get_or_create_reminder 7 ''pending_review'' remind_db =
      (\<lparr>ar_post = 7, ar_stage = ''pending_review'', ar_count = 0, ar_last_at = None, ar_escalated = False\<rparr>,
       remind_db\<lparr>db_reminders := [\<lparr>ar_post = 7, ar_stage = ''pending_review'', ar_count = 0,
          ar_last_at = None, ar_escalated = False\<rparr>]\<rparr>)"
    by (simp add: get_or_create_reminder_def tbl_first_def remind_db_def review_defs Let_def)
  have w: "get_workspace (Suc 0) remind_db = Some sample_ws"
    by (simp add: get_workspace_def tbl_get_def remind_db_def review_defs)
  have n: "db_notes (remind (days 2) 24 ''pending_review'' sample_post remind_db) \<noteq> db_notes remind_db"
    using g w by (simp add: remind_def sample_post_def MAX_REMINDERS_def frame_simps remind_reviewers_def
        sample_ws_def m' m)
  have ok: "reminders_ok remind_db" and z: "rounds 7 ''pending_review'' remind_db = 0"
    by (simp_all add: reminders_ok_def rounds_def reminder_of_def tbl_first_def remind_db_def review_defs)
  show ?thesis using remind_spends_a_round [OF ok n] z by (simp add: sample_post_def)
qed

end
