(* ===== verification/Comments.thy ===== *)
theory Comments
  imports Approvals
begin

text \<open>
  Post comments, \<open>apps/approvals/comments.py\<close>: threaded comments with an internal or an external
  visibility, who may edit, delete and read them, and the notifications of \<open>@\<close>-mentions.
\<close>

section \<open>Operations\<close>

datatype comment_error = CommentNotFound | CommentForbidden string | AttachmentTooLarge

definition MAX_ATTACHMENT_SIZE :: nat where
  "MAX_ATTACHMENT_SIZE = 5 * 1024 * 1024"

fun mentions_from :: "bool \<Rightarrow> string \<Rightarrow> string list" where
  \<comment> \<open>the flag: the start of the text or a white space precedes\<close>
  "mentions_from boundary [] = []"
| "mentions_from boundary (c # s) =
    (if boundary \<and> c = CHR ''@'' \<and> s \<noteq> [] \<and> is_word (hd s) then
       (let m = takeWhile (\<lambda>x. is_word x \<or> x = CHR ''.'') s
        in m # mentions_from False (drop (length m) s))
     else mentions_from (is_space c) s)"

definition find_mentions :: "string \<Rightarrow> string list" where
  \<comment> \<open>\<open>MENTION_REGEX.findall(body)\<close>\<close>
  "find_mentions body = mentions_from True body"

definition name_to_user :: "nat \<Rightarrow> db \<Rightarrow> (string \<times> user) list" where
  \<comment> \<open>the dictionary built from the memberships, the last assignment of a key first\<close>
  "name_to_user w d =
    rev (concat (map (\<lambda>m. case get_user (mb_user m) d of
           None \<Rightarrow> []
         | Some u \<Rightarrow> [(filter (\<lambda>c. c \<noteq> CHR '' '') (py_lower (display_name u)), u),
                     (py_lower (takeWhile (\<lambda>c. c \<noteq> CHR ''@'') (us_email u)), u)])
      (members_of w d)))"

fun mention_loop ::
  "(string \<times> user) list \<Rightarrow> nat \<Rightarrow> nat set \<Rightarrow> string list \<Rightarrow> user list" where
  \<comment> \<open>the users notified, in order\<close>
  "mention_loop names author notified [] = []"
| "mention_loop names author notified (m # ms) =
    (case map_of names (py_lower m) of
       None \<Rightarrow> mention_loop names author notified ms
     | Some u \<Rightarrow>
        if us_id u \<noteq> author \<and> us_id u \<notin> notified
        then u # mention_loop names author (insert (us_id u) notified) ms
        else mention_loop names author notified ms)"

definition notify_mentions :: "string list \<Rightarrow> post \<Rightarrow> user \<Rightarrow> string \<Rightarrow> db \<Rightarrow> db" where
  "notify_mentions mentions po author body d =
    notify_all (map us_id (mention_loop (name_to_user (po_workspace po) d) (us_id author) {} mentions))
      ''comment_mention'' (display_name author @ '' mentioned you'')
      (''In a comment on a post: '' @ quoted (take 100 body)) (post_data (po_id po) (po_workspace po)) d"

definition active_comment :: "nat \<Rightarrow> db \<Rightarrow> post_comment option" where
  "active_comment c d = tbl_first (\<lambda>x. pc_id x = c \<and> pc_deleted_at x = None) (db_comments d)"

definition create_comment ::
  "instant \<Rightarrow> post \<Rightarrow> user \<Rightarrow> string \<Rightarrow> visibility \<Rightarrow> nat option \<Rightarrow> nat option \<Rightarrow> db \<Rightarrow>
     comment_error + (post_comment \<times> db)" where
  \<comment> \<open>the last option is the size of the attachment\<close>
  "create_comment now po author body vis parent attachment d =
    (if (case attachment of Some n \<Rightarrow> n > MAX_ATTACHMENT_SIZE | None \<Rightarrow> False) then Inl AttachmentTooLarge
     else
       let par = (case parent of
             None \<Rightarrow> None
           | Some i \<Rightarrow> tbl_first (\<lambda>x. pc_id x = i \<and> pc_post x = po_id po \<and> pc_deleted_at x = None) (db_comments d));
           (k, d1) = fresh_id d;
           c = \<lparr>pc_id = k, pc_post = po_id po, pc_author = Some (us_id author),
                pc_parent = (case par of None \<Rightarrow> None | Some x \<Rightarrow> Some (pc_id x)), pc_body = body,
                pc_visibility = vis, pc_created_at = now, pc_deleted_at = None\<rparr>;
           d2 = d1\<lparr>db_comments := db_comments d1 @ [c]\<rparr>;
           mentions = find_mentions body
       in Inr (c, if mentions \<noteq> [] then notify_mentions mentions po author body d2 else d2))"

definition comment_in_workspace :: "post_comment \<Rightarrow> nat \<Rightarrow> db \<Rightarrow> bool" where
  "comment_in_workspace c w d =
    (case get_post (pc_post c) d of None \<Rightarrow> False | Some po \<Rightarrow> po_workspace po = w)"

definition save_comment :: "post_comment \<Rightarrow> db \<Rightarrow> db" where
  "save_comment c d = d\<lparr>db_comments := tbl_save pc_id c (db_comments d)\<rparr>"

definition update_comment ::
  "nat \<Rightarrow> user \<Rightarrow> string \<Rightarrow> nat option \<Rightarrow> db \<Rightarrow> comment_error + (post_comment \<times> db)" where
  "update_comment c u body workspace d =
    (case tbl_first (\<lambda>x. pc_id x = c \<and> pc_deleted_at x = None \<and>
             (case workspace of None \<Rightarrow> True | Some w \<Rightarrow> comment_in_workspace x w d)) (db_comments d) of
       None \<Rightarrow> Inl CommentNotFound
     | Some x \<Rightarrow>
        if pc_author x \<noteq> Some (us_id u) then Inl (CommentForbidden ''Only the comment author can edit.'')
        else let y = x\<lparr>pc_body := body\<rparr> in Inr (y, save_comment y d))"

definition membership_of :: "nat \<Rightarrow> nat \<Rightarrow> db \<Rightarrow> ws_membership option" where
  "membership_of u w d = tbl_first (\<lambda>m. mb_user m = u \<and> mb_workspace m = w) (db_members d)"

definition delete_comment ::
  "instant \<Rightarrow> nat \<Rightarrow> user \<Rightarrow> nat \<Rightarrow> db \<Rightarrow> comment_error + (post_comment \<times> db)" where
  "delete_comment now c u w d =
    (case active_comment c d of
       None \<Rightarrow> Inl CommentNotFound
     | Some x \<Rightarrow>
        (let is_author = (pc_author x = Some (us_id u));
             can_moderate = (case membership_of (us_id u) w d of
                 None \<Rightarrow> False | Some m \<Rightarrow> has_perm ''approve_posts'' m) in
         if \<not> is_author \<and> \<not> can_moderate
         then Inl (CommentForbidden ''You don't have permission to delete this comment.'')
         else let y = x\<lparr>pc_deleted_at := Some now\<rparr> in Inr (y, save_comment y d)))"

definition active_replies :: "post_comment \<Rightarrow> db \<Rightarrow> post_comment list" where
  "active_replies c d =
    sort_key pc_created_at (filter (\<lambda>x. pc_parent x = Some (pc_id c) \<and> pc_deleted_at x = None) (db_comments d))"

definition get_comments_for_post :: "post \<Rightarrow> nat \<Rightarrow> db \<Rightarrow> (post_comment \<times> post_comment list) list" where
  \<comment> \<open>each top-level comment with its prefetched replies\<close>
  "get_comments_for_post po u d =
    (let qs = sort_key pc_created_at (filter (\<lambda>x. pc_post x = po_id po \<and> pc_deleted_at x = None \<and>
           pc_parent x = None) (db_comments d));
         qs' = (case membership_of u (po_workspace po) d of
             Some m \<Rightarrow> if mb_role m = WS_CLIENT then filter (\<lambda>x. pc_visibility x = EXTERNAL) qs else qs
           | None \<Rightarrow> qs)
     in map (\<lambda>c. (c, active_replies c d)) qs')"

section \<open>Lemmas\<close>

lemma mention_loop_props:
  "distinct (map us_id (mention_loop names a S ms)) \<and>
   set (map us_id (mention_loop names a S ms)) \<inter> insert a S = {} \<and>
   set (mention_loop names a S ms) \<subseteq> snd ` set names"
proof (induction names a S ms rule: mention_loop.induct)
  case (2 names a S m ms)
  show ?case
  proof (cases "map_of names (py_lower m)")
    case None
    then show ?thesis using 2 by simp
  next
    case (Some u)
    then have u: "u \<in> snd ` set names" by (metis image_eqI map_of_SomeD snd_conv)
    show ?thesis
    proof (cases "us_id u \<noteq> a \<and> us_id u \<notin> S")
      case True
      then show ?thesis using 2(2) [OF Some] Some u by auto
    next
      case False
      then show ?thesis using 2(3) [OF Some] Some by auto
    qed
  qed
qed simp

lemma name_to_user_members:
  "u \<in> snd ` set (name_to_user w d) \<Longrightarrow>
    \<exists>m. m \<in> set (db_members d) \<and> mb_workspace m = w \<and> mb_user m = us_id u"
proof -
  assume "u \<in> snd ` set (name_to_user w d)"
  then obtain m v where m: "m \<in> set (members_of w d)" and g: "get_user (mb_user m) d = Some v" and "u = v"
    by (fastforce simp: name_to_user_def split: option.splits)
  moreover have "us_id v = mb_user m" using g by (auto simp: get_user_def dest: tbl_get_Some)
  ultimately show ?thesis by (auto simp: members_of_def)
qed

section \<open>Properties\<close>

text \<open>
  A mention notifies members of the post's workspace only, nobody twice, and never the
  author of the comment.
\<close>

theorem mentions_reach_members_once:
  "\<exists>ns. db_notes (notify_mentions ms po author body d) = db_notes d @ ns \<and>
    distinct (map nt_user ns) \<and> us_id author \<notin> nt_user ` set ns \<and>
    (\<nexists>n. n \<in> set ns \<and>
       \<not> (\<exists>m. m \<in> set (db_members d) \<and> mb_workspace m = po_workspace po \<and> mb_user m = nt_user n))"
proof -
  let ?us = "mention_loop (name_to_user (po_workspace po) d) (us_id author) {} ms"
  let ?note = "\<lambda>v. \<lparr>nt_user = v, nt_event = ''comment_mention'',
      nt_title = display_name author @ '' mentioned you'',
      nt_body = ''In a comment on a post: '' @ quoted (take 100 body),
      nt_data = post_data (po_id po) (po_workspace po)\<rparr>"
  note l = mention_loop_props [of "name_to_user (po_workspace po) d" "us_id author" "{}" ms]
  have n: "db_notes (notify_mentions ms po author body d) = db_notes d @ map ?note (map us_id ?us)"
    by (simp add: notify_mentions_def frame_simps)
  have u: "map nt_user (map ?note (map us_id ?us)) = map us_id ?us" by simp
  have "us_id author \<notin> nt_user ` set (map ?note (map us_id ?us))" using l by auto
  moreover have "\<exists>m. m \<in> set (db_members d) \<and> mb_workspace m = po_workspace po \<and> mb_user m = nt_user n"
    if h: "n \<in> set (map ?note (map us_id ?us))" for n
  proof -
    obtain v where "v \<in> set ?us" "nt_user n = us_id v" using h by auto
    then have "v \<in> snd ` set (name_to_user (po_workspace po) d)" using l by blast
    then show ?thesis unfolding \<open>nt_user n = us_id v\<close> by (rule name_to_user_members)
  qed
  moreover have "distinct (map nt_user (map ?note (map us_id ?us)))" unfolding u using l by blast
  ultimately show ?thesis using n by blast
qed

text \<open>
  Editing succeeds only for the author of a live comment on a post of the given workspace, and
  changes the body of that one comment.
\<close>

theorem update_comment_is_scoped:
  assumes "update_comment c u body (Some w) d = Inr (y, d')"
  shows "\<exists>x. x \<in> set (db_comments d) \<and> pc_id x = c \<and> pc_deleted_at x = None \<and>
    pc_author x = Some (us_id u) \<and> comment_in_workspace x w d \<and> y = x\<lparr>pc_body := body\<rparr> \<and>
    db_comments d' = map (\<lambda>z. if pc_id z = c then y else z) (db_comments d)"
proof -
  define P where "P = (\<lambda>x. pc_id x = c \<and> pc_deleted_at x = None \<and> comment_in_workspace x w d)"
  have e: "update_comment c u body (Some w) d =
    (case tbl_first P (db_comments d) of
       None \<Rightarrow> Inl CommentNotFound
     | Some x \<Rightarrow>
        if pc_author x \<noteq> Some (us_id u) then Inl (CommentForbidden ''Only the comment author can edit.'')
        else Inr (x\<lparr>pc_body := body\<rparr>, save_comment (x\<lparr>pc_body := body\<rparr>) d))"
    unfolding update_comment_def P_def Let_def by simp
  obtain x where x: "tbl_first P (db_comments d) = Some x"
    using assms unfolding e by (cases "tbl_first P (db_comments d)") simp_all
  then have "x \<in> set (db_comments d)" "P x" by (blast dest: tbl_first_Some)+
  then show ?thesis
    using assms unfolding e x
    by (intro exI [of _ x]) (auto simp: P_def save_comment_def tbl_save_def tbl_update_def split: if_splits)
qed

definition comment_db :: db where
  "comment_db = review_db\<lparr>
     db_members := [\<lparr>mb_id = 1, mb_user = 4, mb_workspace = 2, mb_role = WS_MANAGER, mb_custom = None\<rparr>,
                    \<lparr>mb_id = 2, mb_user = 5, mb_workspace = 1, mb_role = WS_CLIENT, mb_custom = None\<rparr>],
     db_comments := [\<lparr>pc_id = 1, pc_post = 7, pc_author = Some 3, pc_parent = None, pc_body = ''ok?'',
         pc_visibility = EXTERNAL, pc_created_at = 1, pc_deleted_at = None\<rparr>,
       \<lparr>pc_id = 2, pc_post = 7, pc_author = Some 3, pc_parent = Some 1, pc_body = ''between us'',
         pc_visibility = INTERNAL, pc_created_at = 2, pc_deleted_at = None\<rparr>]\<rparr>"

definition comment_author :: user where
  "comment_author = \<lparr>us_id = 3, us_name = ''Ann'', us_email = ''ann@acme.test''\<rparr>"

lemmas comment_defs = comment_db_def comment_author_def review_defs

theorem update_comment_is_scoped_witness:
  "\<exists>y d'. update_comment 1 comment_author ''fine'' (Some 1) comment_db = Inr (y, d') \<and> pc_body y = ''fine''"
proof -
  have "\<exists>y d'. update_comment 1 comment_author ''fine'' (Some 1) comment_db = Inr (y, d')"
    by (simp add: update_comment_def tbl_first_def comment_in_workspace_def get_post_def tbl_get_def
        comment_defs Let_def)
  then obtain y d' where u: "update_comment 1 comment_author ''fine'' (Some 1) comment_db = Inr (y, d')"
    by blast
  have "pc_body y = ''fine''" using update_comment_is_scoped [OF u] by auto
  with u show ?thesis by (intro exI conjI)
qed

text \<open>
  Deleting is not scoped to the workspace the right was granted in: whoever may approve posts in
  some workspace can delete any live comment, whatever workspace its post belongs to.
\<close>

theorem moderation_crosses_workspaces:
  assumes "active_comment c d = Some x" and "membership_of (us_id u) w d = Some m"
    and "has_perm ''approve_posts'' m"
  shows "delete_comment now c u w d = Inr (x\<lparr>pc_deleted_at := Some now\<rparr>,
      save_comment (x\<lparr>pc_deleted_at := Some now\<rparr>) d)"
  using assms by (simp add: delete_comment_def Let_def)

theorem moderation_crosses_workspaces_witness:
  "\<exists>x d'. delete_comment 9 1 reviewer 2 comment_db = Inr (x, d') \<and> \<not> comment_in_workspace x 2 comment_db"
proof -
  let ?x = "hd (db_comments comment_db)"
  have a: "active_comment 1 comment_db = Some ?x"
    by (simp add: active_comment_def tbl_first_def comment_defs)
  have m: "membership_of (us_id reviewer) 2 comment_db = Some (hd (db_members comment_db))"
    by (simp add: membership_of_def tbl_first_def comment_defs)
  have p: "has_perm ''approve_posts'' (hd (db_members comment_db))"
    by (simp add: comment_db_def has_perm_def effective_permissions_def perm_get_def)
  have "\<not> comment_in_workspace (?x\<lparr>pc_deleted_at := Some 9\<rparr>) 2 comment_db"
    by (simp add: comment_in_workspace_def get_post_def tbl_get_def comment_defs)
  with moderation_crosses_workspaces [OF a m p, of 9] show ?thesis by (intro exI conjI)
qed

text \<open>
  A client sees the team's threads whose first comment is external, each with the same replies
  the team sees: the visibility of a reply is never consulted.
\<close>

theorem client_view_is_filtered_by_thread:
  assumes "membership_of client (po_workspace po) d = Some m" "mb_role m = WS_CLIENT"
    and "membership_of member (po_workspace po) d = None \<or>
      (\<exists>m'. membership_of member (po_workspace po) d = Some m' \<and> mb_role m' \<noteq> WS_CLIENT)"
  shows "get_comments_for_post po client d =
    filter (\<lambda>(c, replies). pc_visibility c = EXTERNAL) (get_comments_for_post po member d)"
proof -
  define qs where "qs = sort_key pc_created_at (filter (\<lambda>x. pc_post x = po_id po \<and> pc_deleted_at x = None \<and>
           pc_parent x = None) (db_comments d))"
  have t: "get_comments_for_post po member d = map (\<lambda>c. (c, active_replies c d)) qs"
    using assms(3) by (auto simp: get_comments_for_post_def qs_def)
  have c: "get_comments_for_post po client d =
      map (\<lambda>c. (c, active_replies c d)) (filter (\<lambda>x. pc_visibility x = EXTERNAL) qs)"
    using assms(1,2) by (simp add: get_comments_for_post_def qs_def)
  show ?thesis unfolding t c by (simp add: filter_map comp_def)
qed

theorem client_view_is_filtered_by_thread_witness:
  "\<exists>c r. get_comments_for_post sample_post 5 comment_db = [(c, [r])] \<and> pc_visibility r = INTERNAL"
proof -
  have m: "membership_of 5 (po_workspace sample_post) comment_db = Some (db_members comment_db ! 1)"
    "mb_role (db_members comment_db ! 1) = WS_CLIENT"
    "membership_of 3 (po_workspace sample_post) comment_db = None"
    by (simp_all add: membership_of_def tbl_first_def comment_defs)
  have "get_comments_for_post sample_post 3 comment_db =
      [(hd (db_comments comment_db), [db_comments comment_db ! 1])]"
    by (simp add: get_comments_for_post_def membership_of_def tbl_first_def active_replies_def comment_defs)
  then have "get_comments_for_post sample_post 5 comment_db =
      [(hd (db_comments comment_db), [db_comments comment_db ! 1])]"
    using client_view_is_filtered_by_thread [OF m(1,2) disjI1 [OF m(3)]] by (simp add: comment_db_def)
  moreover have "pc_visibility (db_comments comment_db ! 1) = INTERNAL" by (simp add: comment_db_def)
  ultimately show ?thesis by (intro exI conjI)
qed

end
