(* ===== verification/Validators.thy ===== *)
theory Validators
  imports Prelude
begin

text \<open>
  The shared validators of \<open>apps/common/validators.py\<close> that the composer and the API put tags and
  colours through: the strict reading of a JSON list of tags, the lenient reading of a form field,
  YouTube's own, and the colour check. Strings are ASCII.
\<close>

definition MAX_TAGS :: nat where "MAX_TAGS = 25"

definition MAX_TAG_LENGTH :: nat where "MAX_TAG_LENGTH = 100"

definition MAX_YT_TAGS_TOTAL_CHARS :: nat where "MAX_YT_TAGS_TOTAL_CHARS = 500"

definition MAX_YT_TAG_LENGTH :: nat where "MAX_YT_TAG_LENGTH = 50"

section \<open>Tags\<close>

fun split_on :: "char \<Rightarrow> string \<Rightarrow> string list" where
  \<comment> \<open>\<open>s.split(c)\<close>\<close>
  "split_on c [] = [[]]"
| "split_on c (x # s) =
    (if x = c then [] # split_on c s
     else (case split_on c s of [] \<Rightarrow> [[x]] | w # ws \<Rightarrow> (x # w) # ws))"

datatype tag_error = NotAList | TooManyTags | NotAString | TagTooLong

fun strict_tags :: "json list \<Rightarrow> string list \<Rightarrow> tag_error + string list" where
  \<comment> \<open>the loop of \<open>normalize_tags\<close>, with the tags kept so far\<close>
  "strict_tags [] kept = Inr kept"
| "strict_tags (v # vs) kept =
    (case v of
       JStr s \<Rightarrow>
         let t = py_strip s in
         if t = [] then strict_tags vs kept
         else if length t > MAX_TAG_LENGTH then Inl TagTooLong
         else if t \<in> set kept then strict_tags vs kept
         else strict_tags vs (kept @ [t])
     | _ \<Rightarrow> Inl NotAString)"

definition normalize_tags :: "json \<Rightarrow> tag_error + string list" where
  "normalize_tags raw =
    (case raw of
       JList vs \<Rightarrow> if length vs > MAX_TAGS then Inl TooManyTags else strict_tags vs []
     | _ \<Rightarrow> Inl NotAList)"

definition tag_parts :: "string \<Rightarrow> string list" where
  "tag_parts raw = filter (\<lambda>t. t \<noteq> []) (map py_strip (split_on CHR '','' raw))"

fun lenient_tags :: "string list \<Rightarrow> string list \<Rightarrow> string list" where
  "lenient_tags [] kept = kept"
| "lenient_tags (t # ts) kept =
    (if length kept \<ge> MAX_TAGS then kept
     else
       let u = take MAX_TAG_LENGTH t in
       if u \<in> set kept then lenient_tags ts kept else lenient_tags ts (kept @ [u]))"

definition parse_and_truncate_tag_string :: "string \<Rightarrow> string list" where
  "parse_and_truncate_tag_string raw = (if raw = [] then [] else lenient_tags (tag_parts raw) [])"

fun youtube_tags :: "string list \<Rightarrow> string list \<Rightarrow> nat \<Rightarrow> string list" where
  "youtube_tags [] kept used = kept"
| "youtube_tags (t # ts) kept used =
    (let u = take MAX_YT_TAG_LENGTH t in
     if u \<in> set kept then youtube_tags ts kept used
     else
       let cost = length u + (if kept \<noteq> [] then 1 else 0) in
       if used + cost > MAX_YT_TAGS_TOTAL_CHARS then kept
       else youtube_tags ts (kept @ [u]) (used + cost))"

definition parse_and_truncate_youtube_tag_string :: "string \<Rightarrow> string list" where
  "parse_and_truncate_youtube_tag_string raw = (if raw = [] then [] else youtube_tags (tag_parts raw) [] 0)"

section \<open>Colours\<close>

definition is_hex :: "char \<Rightarrow> bool" where
  "is_hex c \<longleftrightarrow> c \<in> set ''0123456789ABCDEFabcdef''"

definition is_valid_hex_color :: "string \<Rightarrow> bool" where
  \<comment> \<open>the \<open>$\<close> of the pattern also matches before a final newline\<close>
  "is_valid_hex_color v =
    (v = [] \<or>
     (case v of
        c # r \<Rightarrow> c = CHR ''#'' \<and>
          (let body = (if r \<noteq> [] \<and> last r = CHR 0x0A then butlast r else r)
           in length body = 6 \<and> list_all is_hex body)
      | [] \<Rightarrow> False))"

section \<open>Lemmas\<close>

definition tags_ok :: "string list \<Rightarrow> bool" where
  "tags_ok ts \<longleftrightarrow> distinct ts \<and> list_all (\<lambda>t. t \<noteq> []) ts"

lemma tag_parts_nonempty: "t \<in> set (tag_parts raw) \<Longrightarrow> t \<noteq> []"
  by (auto simp: tag_parts_def)

lemma lenient_tags_ok:
  assumes "tags_ok kept" "length kept \<le> MAX_TAGS" "list_all (\<lambda>t. length t \<le> MAX_TAG_LENGTH) kept"
    and "list_all (\<lambda>t. t \<noteq> []) ts"
  shows "tags_ok (lenient_tags ts kept) \<and> length (lenient_tags ts kept) \<le> MAX_TAGS \<and>
    list_all (\<lambda>t. length t \<le> MAX_TAG_LENGTH) (lenient_tags ts kept)"
  using assms
proof (induction ts kept rule: lenient_tags.induct)
  case (2 t ts kept)
  have "take MAX_TAG_LENGTH t \<noteq> []" using "2.prems"(4) by (simp add: MAX_TAG_LENGTH_def)
  then show ?case using 2 by (auto simp: Let_def tags_ok_def)
qed simp

lemma strict_is_lenient:
  assumes "strict_tags (map JStr ws) kept = Inr out" "length kept + length ws \<le> MAX_TAGS"
  shows "lenient_tags (filter (\<lambda>t. t \<noteq> []) (map py_strip ws)) kept = out"
  using assms
proof (induction ws arbitrary: kept)
  case (Cons w ws)
  show ?case
  proof (cases "py_strip w = []")
    case False
    then have "length (py_strip w) \<le> MAX_TAG_LENGTH" using Cons.prems(1) by (auto simp: Let_def split: if_splits)
    then show ?thesis using Cons False by (auto simp: Let_def split: if_splits)
  qed (use Cons in \<open>simp add: Let_def\<close>)
qed simp

lemma youtube_tags_ok:
  assumes "tags_ok kept" "list_all (\<lambda>t. length t \<le> MAX_YT_TAG_LENGTH) kept" "list_all (\<lambda>t. t \<noteq> []) ts"
    and "used = sum_list (map length kept) + (length kept - 1)" "used \<le> MAX_YT_TAGS_TOTAL_CHARS"
  shows "tags_ok (youtube_tags ts kept used) \<and>
    list_all (\<lambda>t. length t \<le> MAX_YT_TAG_LENGTH) (youtube_tags ts kept used) \<and>
    sum_list (map length (youtube_tags ts kept used)) + (length (youtube_tags ts kept used) - 1) \<le> MAX_YT_TAGS_TOTAL_CHARS"
  using assms
proof (induction ts kept used rule: youtube_tags.induct)
  case (2 t ts kept used)
  have "take MAX_YT_TAG_LENGTH t \<noteq> []" using "2.prems"(3) by (simp add: MAX_YT_TAG_LENGTH_def)
  then show ?case using 2 by (cases kept) (auto simp: Let_def tags_ok_def)
qed simp

section \<open>Properties\<close>

text \<open>
  The form and the API agree on tags: whenever the strict reading accepts the pieces of a form
  field as a list, the lenient reading of the field gives the same tags in the same order.
\<close>

theorem form_tags_agree_with_api:
  assumes "normalize_tags (JList (map JStr (split_on CHR '','' raw))) = Inr tags"
  shows "parse_and_truncate_tag_string raw = tags"
proof (cases "raw = []")
  case True
  then show ?thesis using assms
    by (simp add: normalize_tags_def parse_and_truncate_tag_string_def py_strip_def MAX_TAGS_def)
next
  case False
  have "length (split_on CHR '','' raw) \<le> MAX_TAGS" "strict_tags (map JStr (split_on CHR '','' raw)) [] = Inr tags"
    using assms by (auto simp: normalize_tags_def split: if_splits)
  then show ?thesis using False strict_is_lenient [of "split_on CHR '','' raw" "[]" tags]
    by (simp add: parse_and_truncate_tag_string_def tag_parts_def)
qed

theorem form_tags_agree_with_api_witness:
  "parse_and_truncate_tag_string '' a,b ,a'' = [''a'', ''b'']"
  by (rule form_tags_agree_with_api) code_simp

text \<open>
  Whatever a form sends, the tags kept fit the platform: they are distinct and not empty, at
  most 25 of at most 100 characters, and YouTube's, counted with their separators, at most 500.
\<close>

theorem parsed_tags_fit:
  "tags_ok (parse_and_truncate_tag_string raw) \<and> length (parse_and_truncate_tag_string raw) \<le> 25 \<and>
    list_all (\<lambda>t. length t \<le> 100) (parse_and_truncate_tag_string raw) \<and>
    tags_ok (parse_and_truncate_youtube_tag_string raw) \<and>
    list_all (\<lambda>t. length t \<le> 50) (parse_and_truncate_youtube_tag_string raw) \<and>
    sum_list (map length (parse_and_truncate_youtube_tag_string raw)) +
      (length (parse_and_truncate_youtube_tag_string raw) - 1) \<le> 500"
proof -
  have parts: "list_all (\<lambda>t. t \<noteq> []) (tag_parts raw)" by (simp add: list_all_iff tag_parts_def)
  have e: "tags_ok []" by (simp add: tags_ok_def)
  note lim = MAX_TAGS_def MAX_TAG_LENGTH_def MAX_YT_TAG_LENGTH_def MAX_YT_TAGS_TOTAL_CHARS_def
  have "tags_ok (parse_and_truncate_tag_string raw) \<and> length (parse_and_truncate_tag_string raw) \<le> MAX_TAGS \<and>
      list_all (\<lambda>t. length t \<le> MAX_TAG_LENGTH) (parse_and_truncate_tag_string raw)"
    using lenient_tags_ok [OF e _ _ parts] e by (simp add: parse_and_truncate_tag_string_def)
  moreover have "tags_ok (parse_and_truncate_youtube_tag_string raw) \<and>
      list_all (\<lambda>t. length t \<le> MAX_YT_TAG_LENGTH) (parse_and_truncate_youtube_tag_string raw) \<and>
      sum_list (map length (parse_and_truncate_youtube_tag_string raw)) +
        (length (parse_and_truncate_youtube_tag_string raw) - 1) \<le> MAX_YT_TAGS_TOTAL_CHARS"
    using youtube_tags_ok [OF e _ parts, of 0] e by (simp add: parse_and_truncate_youtube_tag_string_def)
  ultimately show ?thesis unfolding lim by blast
qed

text \<open>A colour with a line break at its end passes the check.\<close>

lemma newline_color_passes: "is_valid_hex_color (''#3B82F6'' @ [CHR 0x0A])"
  by code_simp

end
