(* ===== verification/Requests.thy ===== *)
theory Requests
  imports Comments Validators "HOL-Library.Char_ord" "HOL-Library.List_Lexorder"
begin

text \<open>
  What every web view of the program starts from: the form values of a request, the identifiers and
  dates it reads from them (\<open>uuid.UUID\<close>, \<open>date.fromisoformat\<close>), the membership that
  \<open>apps/members/middleware.py\<close> resolves for the workspace of the URL, the guards a view is decorated
  with, and the answers it gives. A request may write to the database and be refused afterwards:
  there is no transaction around a view, so an answer always comes with the database left behind.
\<close>

section \<open>Form values\<close>

record request =
  rq_user :: "user option"
    \<comment> \<open>\<open>None\<close> for an anonymous one\<close>
  rq_post :: "(string \<times> string) list"
    \<comment> \<open>\<open>request.POST\<close>, in the order of the body\<close>
  rq_pending :: "nat list"
    \<comment> \<open>\<open>request.session["pending_media_<workspace>"]\<close>\<close>

definition post_has :: "string \<Rightarrow> request \<Rightarrow> bool" where
  "post_has k rq \<longleftrightarrow> k \<in> fst ` set (rq_post rq)"

definition post_get :: "string \<Rightarrow> string \<Rightarrow> request \<Rightarrow> string" where
  \<comment> \<open>\<open>request.POST.get(k, dflt)\<close>: the last of the values given\<close>
  "post_get k dflt rq = (case map_of (rev (rq_post rq)) k of Some v \<Rightarrow> v | None \<Rightarrow> dflt)"

definition post_text :: "string \<Rightarrow> request \<Rightarrow> string" where
  \<comment> \<open>\<open>request.POST.get(k, "").strip()\<close>\<close>
  "post_text k rq = py_strip (post_get k [] rq)"

definition post_text_opt :: "string \<Rightarrow> request \<Rightarrow> string option" where
  \<comment> \<open>\<open>request.POST.get(k, "").strip() or None\<close>\<close>
  "post_text_opt k rq = (if post_text k rq = [] then None else Some (post_text k rq))"

definition json_text :: "string option \<Rightarrow> json" where
  "json_text s = (case s of None \<Rightarrow> JNull | Some t \<Rightarrow> JStr t)"

section \<open>Identifiers\<close>

definition hex_value :: "char \<Rightarrow> nat option" where
  "hex_value c =
    (let n = (of_char c :: nat) in
     if 48 \<le> n \<and> n \<le> 57 then Some (n - 48)
     else if 65 \<le> n \<and> n \<le> 70 then Some (n - 55)
     else if 97 \<le> n \<and> n \<le> 102 then Some (n - 87)
     else None)"

fun read_hex :: "nat \<Rightarrow> bool \<Rightarrow> string \<Rightarrow> nat option" where
  \<comment> \<open>the digits of \<open>int(s, 16)\<close>, single underscores allowed between two of them\<close>
  "read_hex acc after_digit [] = (if after_digit then Some acc else None)"
| "read_hex acc after_digit (c # s) =
    (case hex_value c of
       Some n \<Rightarrow> read_hex (acc * 16 + n) True s
     | None \<Rightarrow> if c = CHR ''_'' \<and> after_digit then read_hex acc False s else None)"

definition hex_prefixed :: "string \<Rightarrow> string" where
  \<comment> \<open>what follows an optional \<open>0x\<close> or \<open>0x_\<close>\<close>
  "hex_prefixed s =
    (if take 2 s = ''0x'' \<or> take 2 s = ''0X''
     then (if take 1 (drop 2 s) = ''_'' then drop 3 s else drop 2 s) else s)"

definition py_int_hex :: "string \<Rightarrow> nat option" where
  \<comment> \<open>\<open>int(s, 16)\<close> for a text without a minus sign\<close>
  "py_int_hex s =
    (let t = py_strip s in
     read_hex 0 False (hex_prefixed (if take 1 t = ''+'' then drop 1 t else t)))"

function py_remove :: "string \<Rightarrow> string \<Rightarrow> string" where
  \<comment> \<open>\<open>s.replace(pat, "")\<close>\<close>
  "py_remove pat [] = []"
| "py_remove pat (c # s) =
    (if pat \<noteq> [] \<and> take (length pat) (c # s) = pat then py_remove pat (drop (length pat) (c # s))
     else c # py_remove pat s)"
  by pat_completeness auto

termination
  by (relation "measure (length \<circ> snd)") auto

definition is_brace :: "char \<Rightarrow> bool" where
  "is_brace c \<longleftrightarrow> c = CHR ''{'' \<or> c = CHR ''}''"

definition parse_uuid :: "string \<Rightarrow> nat option" where
  \<comment> \<open>\<open>uuid.UUID(s)\<close>, \<open>None\<close> where it raises\<close>
  "parse_uuid s =
    (let t = py_remove ''uuid:'' (py_remove ''urn:'' s);
         u = rev (dropWhile is_brace (rev (dropWhile is_brace t)));
         h = filter (\<lambda>c. c \<noteq> CHR ''-'') u
     in if length h \<noteq> 32 then None else py_int_hex h)"

definition is_valid_uuid :: "string \<Rightarrow> bool" where
  "is_valid_uuid s \<longleftrightarrow> parse_uuid s \<noteq> None"

definition hex_char :: "nat \<Rightarrow> char" where
  "hex_char n = (if n < 10 then char_of (48 + n) else char_of (87 + n))"

fun hex_text :: "nat \<Rightarrow> nat \<Rightarrow> string" where
  \<comment> \<open>\<open>"%0kx" % n\<close>, its last \<open>k\<close> digits\<close>
  "hex_text 0 n = []"
| "hex_text (Suc k) n = hex_text k (n div 16) @ [hex_char (n mod 16)]"

definition uuid_text :: "nat \<Rightarrow> string" where
  \<comment> \<open>\<open>str(u)\<close>\<close>
  "uuid_text n =
    (let h = hex_text 32 n in
     take 8 h @ ''-'' @ take 4 (drop 8 h) @ ''-'' @ take 4 (drop 12 h) @ ''-'' @ take 4 (drop 16 h) @ ''-''
       @ drop 20 h)"

section \<open>Dates\<close>

fun all_digits :: "nat \<Rightarrow> string \<Rightarrow> nat option" where
  "all_digits acc [] = Some acc"
| "all_digits acc (c # s) =
    (let n = (of_char c :: nat) in
     if 48 \<le> n \<and> n \<le> 57 then all_digits (acc * 10 + (n - 48)) s else None)"

definition digits_at :: "nat \<Rightarrow> nat \<Rightarrow> string \<Rightarrow> int option" where
  \<comment> \<open>\<open>k\<close> digits at position \<open>i\<close>\<close>
  "digits_at i k s =
    (if length (take k (drop i s)) = k then map_option int (all_digits 0 (take k (drop i s))) else None)"

definition is_leap :: "int \<Rightarrow> bool" where
  "is_leap y \<longleftrightarrow> y mod 4 = 0 \<and> (y mod 100 \<noteq> 0 \<or> y mod 400 = 0)"

definition date_ymd :: "int \<Rightarrow> int \<Rightarrow> int \<Rightarrow> int option" where
  \<comment> \<open>\<open>date(y, m, d)\<close>\<close>
  "date_ymd y m d =
    (if 1 \<le> y \<and> y \<le> 9999 \<and> civil (days_of_civil y m d) = (y, m, d) then Some (days_of_civil y m d) else None)"

definition date_week :: "int \<Rightarrow> int \<Rightarrow> int \<Rightarrow> int option" where
  \<comment> \<open>\<open>date.fromisocalendar(y, w, d)\<close>\<close>
  "date_week y w d =
    (let first = days_of_civil y 1 1;
         wd = int (weekday first);
         monday = first - wd + (if wd > 3 then 7 else 0);
         weeks = (if wd = 3 \<or> (wd = 2 \<and> is_leap y) then 53 else 52);
         n = monday + (w - 1) * 7 + (d - 1);
         (yy, mm, dd) = civil n
     in if 1 \<le> y \<and> y \<le> 9999 \<and> 1 \<le> w \<and> w \<le> weeks \<and> 1 \<le> d \<and> d \<le> 7 \<and> 1 \<le> yy \<and> yy \<le> 9999
        then Some n else None)"

definition opt3 :: "('a \<Rightarrow> 'b \<Rightarrow> 'c \<Rightarrow> 'd option) \<Rightarrow> 'a option \<Rightarrow> 'b option \<Rightarrow> 'c option \<Rightarrow> 'd option" where
  "opt3 f a b c = (case (a, b, c) of (Some x, Some y, Some z) \<Rightarrow> f x y z | _ \<Rightarrow> None)"

definition date_fromiso :: "string \<Rightarrow> int option" where
  \<comment> \<open>\<open>date.fromisoformat(s)\<close>, \<open>None\<close> where it raises\<close>
  "date_fromiso s =
    (let y = digits_at 0 4 s; n = length s; at = (\<lambda>i c. take 1 (drop i s) = [c]) in
     if at 4 (CHR ''-'') then
       (if at 5 (CHR ''W'') then
          (if n = 8 then opt3 date_week y (digits_at 6 2 s) (Some 1)
           else if n = 10 \<and> at 8 (CHR ''-'') then opt3 date_week y (digits_at 6 2 s) (digits_at 9 1 s)
           else None)
        else if n = 10 \<and> at 7 (CHR ''-'') then opt3 date_ymd y (digits_at 5 2 s) (digits_at 8 2 s)
        else None)
     else if at 4 (CHR ''W'') then
       (if n = 7 then opt3 date_week y (digits_at 5 2 s) (Some 1)
        else if n = 8 then opt3 date_week y (digits_at 5 2 s) (digits_at 7 1 s)
        else None)
     else if n = 8 then opt3 date_ymd y (digits_at 4 2 s) (digits_at 6 2 s)
     else None)"

section \<open>Answers and guards\<close>

datatype response =
    Done nat
  | LoginRequired
  | NotFound
  | Forbidden string
  | BadRequest string
  | ServerError

definition resolve_membership :: "request \<Rightarrow> nat \<Rightarrow> db \<Rightarrow> response + ws_membership option" where
  \<comment> \<open>\<open>RBACMiddleware.process_view\<close> for a URL with a workspace\<close>
  "resolve_membership rq w d =
    (case rq_user rq of
       None \<Rightarrow> Inr None
     | Some u \<Rightarrow>
        (case membership_of (us_id u) w d of
           None \<Rightarrow> Inl (Forbidden ''You do not have access to this workspace.'')
         | Some m \<Rightarrow> Inr (Some m)))"

definition denied_text :: "denied \<Rightarrow> string" where
  "denied_text e =
    (case e of
       NotAMember \<Rightarrow> ''You are not a member of this workspace.''
     | InsufficientRole \<Rightarrow> ''Insufficient workspace role.''
     | MissingPermission k \<Rightarrow> ''Permission denied: '' @ k
     | NoOrgInUrl \<Rightarrow> ''URL is missing required org_id.'')"

definition member_workspace :: "user \<Rightarrow> nat \<Rightarrow> db \<Rightarrow> response + workspace" where
  \<comment> \<open>\<open>_get_workspace\<close> of a logged in user\<close>
  "member_workspace u w d =
    (case get_workspace w d of
       None \<Rightarrow> Inl NotFound
     | Some ws \<Rightarrow>
        if membership_of (us_id u) w d = None then Inl (Forbidden (denied_text NotAMember)) else Inr ws)"

definition enter :: "request \<Rightarrow> nat \<Rightarrow> string option \<Rightarrow> db \<Rightarrow> response + (user \<times> ws_membership \<times> workspace)" where
  \<comment> \<open>the middleware, \<open>login_required\<close>, \<open>require_permission\<close> where the view has it, \<open>_get_workspace\<close>\<close>
  "enter rq w perm d =
    (case resolve_membership rq w d of
       Inl r \<Rightarrow> Inl r
     | Inr m \<Rightarrow>
        (case rq_user rq of
           None \<Rightarrow> Inl LoginRequired
         | Some u \<Rightarrow>
            (case (case perm of None \<Rightarrow> None | Some k \<Rightarrow> require_permission k m) of
               Some e \<Rightarrow> Inl (Forbidden (denied_text e))
             | None \<Rightarrow>
                (case member_workspace u w d of
                   Inl r \<Rightarrow> Inl r
                 | Inr ws \<Rightarrow>
                    (case m of None \<Rightarrow> Inl (Forbidden (denied_text NotAMember)) | Some mb \<Rightarrow> Inr (u, mb, ws))))))"

section \<open>Lemmas\<close>

lemma enter_Inr:
  "enter rq w perm d = Inr (u, m, ws) \<longleftrightarrow>
    rq_user rq = Some u \<and> membership_of (us_id u) w d = Some m \<and> get_workspace w d = Some ws \<and>
    (case perm of None \<Rightarrow> True | Some k \<Rightarrow> has_perm k m)"
  by (auto simp: enter_def resolve_membership_def member_workspace_def require_permission_def
      split: option.splits sum.splits if_splits)

text \<open>A user without a membership reaches no view of the workspace.\<close>

lemma enter_needs_membership:
  assumes "\<And>u. rq_user rq = Some u \<Longrightarrow> membership_of (us_id u) w d = None"
  shows "\<exists>r. enter rq w perm d = Inl r"
  using assms by (cases "rq_user rq") (auto simp: enter_def resolve_membership_def split: option.split)

text \<open>Reading back the text of an identifier gives the identifier.\<close>

lemma hex_value_char: "n < 16 \<Longrightarrow> hex_value (hex_char n) = Some n"
  by (auto simp: hex_value_def hex_char_def Let_def)

lemma read_hex_append:
  assumes "k < 16" "read_hex acc b s = Some m"
  shows "read_hex acc b (s @ [hex_char k]) = Some (m * 16 + k)"
  using assms
proof (induction acc b s rule: read_hex.induct)
  case (1 acc b)
  then show ?case by (simp add: hex_value_char split: if_splits)
next
  case (2 acc b c s)
  then show ?case by (cases "hex_value c") (auto split: if_splits)
qed

lemma read_hex_hex_text:
  assumes "k \<noteq> 0"
  shows "read_hex 0 False (hex_text k n) = Some (n mod 16 ^ k)"
  using assms
proof (induction k arbitrary: n)
  case (Suc k)
  have small: "n mod 16 < 16" by simp
  show ?case
  proof (cases "k = 0")
    case True
    then show ?thesis using hex_value_char [OF small] by simp
  next
    case False
    then have "read_hex 0 False (hex_text k (n div 16)) = Some (n div 16 mod 16 ^ k)" by (rule Suc.IH)
    from read_hex_append [OF small this] show ?thesis
      by (simp add: mod_mult2_eq [of n 16 "16 ^ k"] mult.commute)
  qed
qed simp

definition HEX_CHARS :: string where
  "HEX_CHARS = ''0123456789abcdef''"

lemma hex_char_in: "n < 16 \<Longrightarrow> hex_char n \<in> set HEX_CHARS"
proof -
  assume "n < 16"
  then have "n \<in> {0, 1, 2, 3, 4, 5, 6, 7, 8, 9, 10, 11, 12, 13, 14, 15}" unfolding insert_iff empty_iff by arith
  then show ?thesis by (elim insertE emptyE) (simp_all only: hex_char_def HEX_CHARS_def, code_simp+)
qed

lemma hex_text_props: "length (hex_text k n) = k \<and> set (hex_text k n) \<subseteq> set HEX_CHARS"
  by (induction k arbitrary: n) (auto intro: hex_char_in)

lemma py_remove_absent: "hd pat \<notin> set s \<Longrightarrow> py_remove pat s = s"
  by (induction pat s rule: py_remove.induct) (auto simp: neq_Nil_conv)

lemma strip_ends:
  "\<forall>c \<in> set s. \<not> P c \<Longrightarrow> rev (dropWhile P (rev (dropWhile P s))) = s"
  by (metis dropWhile_eq_self_iff hd_in_set rev_rev_ident set_rev)

lemma filter_none: "\<forall>c \<in> set s. P c \<Longrightarrow> filter P s = s"
  by simp

theorem uuid_text_roundtrip:
  assumes "n < 16 ^ 32"
  shows "parse_uuid (uuid_text n) = Some n"
proof -
  define h where "h = hex_text 32 n"
  have h: "length h = 32" "set h \<subseteq> set HEX_CHARS" using hex_text_props [of 32 n] by (simp_all add: h_def)
  have "take 12 h = take 8 h @ take 4 (drop 8 h)" "take 16 h = take 12 h @ take 4 (drop 12 h)"
      "take 20 h = take 16 h @ take 4 (drop 16 h)"
    using take_add [of 8 4 h] take_add [of 12 4 h] take_add [of 16 4 h] by simp_all
  then have parts: "take 8 h @ take 4 (drop 8 h) @ take 4 (drop 12 h) @ take 4 (drop 16 h) @ drop 20 h = h"
    using append_take_drop_id [of 20 h] by simp
  have chars: "set (uuid_text n) \<subseteq> insert (CHR ''-'') (set HEX_CHARS)"
    using h(2) by (auto simp: uuid_text_def h_def [symmetric] Let_def dest: in_set_takeD in_set_dropD)
  have "CHR ''u'' \<notin> insert (CHR ''-'') (set HEX_CHARS)" by (simp add: HEX_CHARS_def)
  then have u: "CHR ''u'' \<notin> set (uuid_text n)" using chars by blast
  have "\<forall>c \<in> insert (CHR ''-'') (set HEX_CHARS). \<not> is_brace c" by (simp add: HEX_CHARS_def is_brace_def)
  then have b: "\<forall>c \<in> set (uuid_text n). \<not> is_brace c" using chars by blast
  have "\<forall>c \<in> set HEX_CHARS. c \<noteq> CHR ''-''" by (simp add: HEX_CHARS_def)
  then have "\<forall>c \<in> set h. c \<noteq> CHR ''-''" using h(2) by blast
  then have "\<And>i. filter (\<lambda>c. c \<noteq> CHR ''-'') (take i h) = take i h" "\<And>i. filter (\<lambda>c. c \<noteq> CHR ''-'') (drop i h) = drop i h"
      "\<And>i j. filter (\<lambda>c. c \<noteq> CHR ''-'') (take i (drop j h)) = take i (drop j h)"
    by (auto intro!: filter_none dest: in_set_takeD in_set_dropD)
  then have dashes: "filter (\<lambda>c. c \<noteq> CHR ''-'') (uuid_text n) = h"
    using parts by (simp add: uuid_text_def h_def [symmetric] Let_def)
  have plain: "\<forall>c \<in> set HEX_CHARS. \<not> is_space c \<and> c \<noteq> CHR ''+'' \<and> c \<noteq> CHR ''x'' \<and> c \<noteq> CHR ''X''"
    by (simp add: HEX_CHARS_def is_space_def)
  then have "\<forall>c \<in> set h. \<not> is_space c" using h(2) by blast
  then have strip: "py_strip h = h" unfolding py_strip_def by (rule strip_ends)
  obtain c1 c2 r where c: "h = c1 # c2 # r"
    using h(1) by (metis Suc_length_conv numeral_2_eq_2 numeral_eq_Suc pred_numeral_simps(2))
  have p: "hex_prefixed (if take 1 (c1 # c2 # r) = ''+'' then drop 1 (c1 # c2 # r) else c1 # c2 # r) = c1 # c2 # r"
    if "c1 \<noteq> CHR ''+''" "c2 \<noteq> CHR ''x''" "c2 \<noteq> CHR ''X''"
    using that by (simp add: hex_prefixed_def numeral_2_eq_2)
  have "c1 \<noteq> CHR ''+''" "c2 \<noteq> CHR ''x''" "c2 \<noteq> CHR ''X''" using plain h(2) c by auto
  then have "py_int_hex h = read_hex 0 False h"
    using p strip unfolding py_int_hex_def Let_def c by metis
  then have "py_int_hex h = Some n" using read_hex_hex_text [of 32 n] assms by (simp add: h_def)
  moreover have "py_remove ''uuid:'' (py_remove ''urn:'' (uuid_text n)) = uuid_text n"
    using u by (simp add: py_remove_absent)
  ultimately show ?thesis
    unfolding parse_uuid_def Let_def using strip_ends [OF b] dashes h(1) by metis
qed

theorem uuid_text_roundtrip_witness: "parse_uuid (uuid_text 7) = Some 7"
  by (rule uuid_text_roundtrip) simp

end
