(* ===== verification/Team.thy ===== *)
theory Team
  imports Mail_Budget Permissions Requests
begin

text \<open>
  Team membership, \<open>apps/members/services.py\<close>: invitations, their acceptance, the role changes and
  the removal of members, over the tables those services read and write (\<open>site\<close>). The clock is read
  once per operation; a token is a fresh number; every write is committed on its own, so what an
  operation wrote before it raised stays.
\<close>

section \<open>Tables\<close>

record named_org = organization +
  og_name :: string
  og_requested_at :: "instant option"
  og_scheduled_for :: "instant option"

record team_workspace = workspace +
  tw_archived :: bool

record account_user = user +
  au_last_workspace :: "nat option"

record invitation =
  iv_id :: nat
  iv_org :: nat
  iv_email :: string
  iv_role :: org_role
  iv_assignments :: "(nat \<times> workspace_role) list"
    \<comment> \<open>as \<open>create_invitation\<close> has validated them\<close>
  iv_invited_by :: "nat option"
  iv_token :: nat
  iv_expires_at :: instant
  iv_accepted_at :: "instant option"
  iv_created_at :: instant
  iv_send_count :: nat
  iv_last_sent_at :: "instant option"

record site =
  st_orgs :: "named_org list"
  st_users :: "account_user list"
  st_workspaces :: "team_workspace list"
  st_orgmems :: "org_membership list"
  st_wsmems :: "ws_membership list"
  st_invites :: "invitation list"
  st_mail :: mailbox
  st_next :: nat

datatype team_error =
    ALREADY_MEMBER | INVITE_PENDING | INVITE_OWNER | UNKNOWN_ORG_ROLE string | ADMIN_NEEDS_OWNER
  | NOT_A_WORKSPACE nat | UNKNOWN_WS_ROLE string | ROLE_TOO_HIGH | TOO_MANY_SENDS nat | ORG_BUDGET int
  | EXPIRED | ALREADY_ACCEPTED | OTHER_EMAIL | JUST_SENT int | COULD_NOT_SEND | REMOVE_YOURSELF
  | LAST_OWNER | PROMOTE_OWNER | MEMBER_TOO_HIGH | REMOVE_TOO_HIGH | MODIFY_TOO_HIGH
  | INTEGRITY

definition get_invite :: "nat \<Rightarrow> site \<Rightarrow> invitation option" where
  "get_invite i s = tbl_get iv_id i (st_invites s)"

definition save_invite :: "invitation \<Rightarrow> site \<Rightarrow> site" where
  "save_invite iv s = s\<lparr>st_invites := tbl_save iv_id iv (st_invites s)\<rparr>"

definition org_membership :: "nat \<Rightarrow> nat \<Rightarrow> site \<Rightarrow> org_membership option" where
  \<comment> \<open>\<open>OrgMembership.objects.filter(user=u, organization=g).first()\<close>\<close>
  "org_membership u g s = tbl_first (\<lambda>m. om_user m = u \<and> om_org m = g) (st_orgmems s)"

definition ws_membership_of :: "nat \<Rightarrow> nat \<Rightarrow> site \<Rightarrow> ws_membership option" where
  "ws_membership_of u w s = tbl_first (\<lambda>m. mb_user m = u \<and> mb_workspace m = w) (st_wsmems s)"

definition active_workspace_ids :: "nat \<Rightarrow> site \<Rightarrow> nat list" where
  "active_workspace_ids g s = map ws_id (filter (\<lambda>w. ws_org w = g \<and> \<not> tw_archived w) (st_workspaces s))"

section \<open>Settings, roles and levels\<close>

definition INVITE_EXPIRY_DAYS :: int where
  "INVITE_EXPIRY_DAYS = 7"

definition setting_int :: "string \<Rightarrow> int \<Rightarrow> mail_env \<Rightarrow> int" where
  \<comment> \<open>\<open>getattr(settings, name, default)\<close> of a setting read with \<open>env.int\<close>\<close>
  "setting_int name default_value env =
    (case map_of (me_cfg env) name of Some (JNum n) \<Rightarrow> n | _ \<Rightarrow> default_value)"

definition max_sends :: "mail_env \<Rightarrow> int" where
  "max_sends env = setting_int ''INVITE_MAX_SENDS'' 3 env"

definition resend_cooldown :: "mail_env \<Rightarrow> int" where
  "resend_cooldown env = seconds (setting_int ''INVITE_RESEND_COOLDOWN_SECONDS'' 300 env)"

fun org_role_of :: "string \<Rightarrow> org_role option" where
  "org_role_of r = (if r = ''owner'' then Some ORG_OWNER else if r = ''admin'' then Some ORG_ADMIN
     else if r = ''member'' then Some ORG_MEMBER else None)"

fun ws_role_of :: "string \<Rightarrow> workspace_role option" where
  "ws_role_of r = (if r = ''owner'' then Some WS_OWNER else if r = ''manager'' then Some WS_MANAGER
     else if r = ''editor'' then Some WS_EDITOR else if r = ''contributor'' then Some WS_CONTRIBUTOR
     else if r = ''client'' then Some WS_CLIENT else if r = ''viewer'' then Some WS_VIEWER else None)"

definition inviter_org_level :: "nat \<Rightarrow> nat \<Rightarrow> site \<Rightarrow> nat" where
  "inviter_org_level u g s =
    (case org_membership u g s of None \<Rightarrow> 0 | Some m \<Rightarrow> org_level (om_role m))"

definition inviter_workspace_level :: "nat \<Rightarrow> nat \<Rightarrow> nat \<Rightarrow> site \<Rightarrow> nat" where
  "inviter_workspace_level u g w s =
    (if inviter_org_level u g s \<ge> org_level ORG_OWNER then workspace_level WS_OWNER
     else case ws_membership_of u w s of None \<Rightarrow> 0 | Some m \<Rightarrow> workspace_level (mb_role m))"

section \<open>Sending an invitation\<close>

definition reserve_invite_send :: "mail_env \<Rightarrow> instant \<Rightarrow> invitation \<Rightarrow> site \<Rightarrow> site option" where
  "reserve_invite_send env now iv s =
    (let takes = (\<lambda>r. iv_id r = iv_id iv \<and> int (iv_send_count r) < max_sends env \<and>
            (case iv_last_sent_at r of None \<Rightarrow> True | Some t \<Rightarrow> t \<le> now - resend_cooldown env))
     in if \<exists>r \<in> set (st_invites s). takes r
        then Some (s\<lparr>st_invites := tbl_update takes
            (\<lambda>r. r\<lparr>iv_send_count := Suc (iv_send_count r), iv_last_sent_at := Some now\<rparr>) (st_invites s)\<rparr>)
        else None)"

definition release_invite_send :: "invitation \<Rightarrow> site \<Rightarrow> site" where
  \<comment> \<open>the receipt is the object's \<open>last_sent_at\<close> before the reservation\<close>
  "release_invite_send iv s =
    s\<lparr>st_invites := tbl_update (\<lambda>r. iv_id r = iv_id iv \<and> 0 < iv_send_count r)
        (\<lambda>r. r\<lparr>iv_send_count := iv_send_count r - 1, iv_last_sent_at := iv_last_sent_at iv\<rparr>) (st_invites s)\<rparr>"

definition invite_message :: "invitation \<Rightarrow> site \<Rightarrow> message" where
  "invite_message iv s =
    \<lparr>mg_subject = ''You've been invited to join '' @
       (case tbl_get og_id (iv_org iv) (st_orgs s) of None \<Rightarrow> [] | Some g \<Rightarrow> og_name g) @ '' on Brightbean'',
     mg_to = [iv_email iv], mg_cc = [], mg_bcc = [], mg_class = Some CLASS_TRANSACTIONAL\<rparr>"

definition send_invite_email :: "mail_env \<Rightarrow> instant \<Rightarrow> invitation \<Rightarrow> site \<Rightarrow> bool \<times> site" where
  "send_invite_email env now iv s =
    (case reserve_invite_send env now iv s of
       None \<Rightarrow> (False, s)
     | Some s1 \<Rightarrow>
        (case send_or_raise env now (invite_message iv s1) (st_mail s1) of
           (SENT, mx) \<Rightarrow> (True, s1\<lparr>st_mail := mx\<rparr>)
         | (_, mx) \<Rightarrow> (False, release_invite_send iv (s1\<lparr>st_mail := mx\<rparr>))))"

definition check_org_invite_budget :: "mail_env \<Rightarrow> instant \<Rightarrow> nat \<Rightarrow> site \<Rightarrow> bool \<times> site" where
  "check_org_invite_budget env now g s =
    (case reserve_budget env ''invite_org_day'' (uuid_text g) (day_start now)
        (setting_int ''INVITE_MAX_PER_ORG_PER_DAY'' 25 env) False (mx_counters (st_mail s)) of
       (ok, cs) \<Rightarrow> (ok, s\<lparr>st_mail := (st_mail s)\<lparr>mx_counters := cs\<rparr>\<rparr>))"

section \<open>Creating an invitation\<close>

definition check_assignment ::
  "nat \<Rightarrow> nat \<Rightarrow> site \<Rightarrow> nat \<times> string option \<Rightarrow> team_error + nat \<times> workspace_role" where
  "check_assignment u g s a =
    (let role = (case snd a of None \<Rightarrow> ''viewer'' | Some r \<Rightarrow> r) in
     if fst a \<notin> set (active_workspace_ids g s) then Inl (NOT_A_WORKSPACE (fst a))
     else case ws_role_of role of
            None \<Rightarrow> Inl (UNKNOWN_WS_ROLE role)
          | Some r \<Rightarrow>
              if workspace_level r > inviter_workspace_level u g (fst a) s then Inl ROLE_TOO_HIGH
              else Inr (fst a, r))"

fun check_assignments ::
  "nat \<Rightarrow> nat \<Rightarrow> site \<Rightarrow> (nat \<times> string option) list \<Rightarrow> team_error + (nat \<times> workspace_role) list" where
  "check_assignments u g s [] = Inr []"
| "check_assignments u g s (a # as) =
    (case check_assignment u g s a of
       Inl e \<Rightarrow> Inl e
     | Inr x \<Rightarrow> (case check_assignments u g s as of Inl e \<Rightarrow> Inl e | Inr xs \<Rightarrow> Inr (x # xs)))"

definition recent_send_count :: "instant \<Rightarrow> nat \<Rightarrow> string \<Rightarrow> site \<Rightarrow> nat" where
  "recent_send_count now g email s =
    (case sort_key (\<lambda>iv. - iv_created_at iv) (filter (\<lambda>iv. iv_org iv = g \<and> iv_email iv = email \<and>
        iv_accepted_at iv = None \<and> now - days INVITE_EXPIRY_DAYS \<le> iv_created_at iv) (st_invites s)) of
       [] \<Rightarrow> 0
     | iv # _ \<Rightarrow> iv_send_count iv)"

definition pending_invite :: "instant \<Rightarrow> nat \<Rightarrow> string \<Rightarrow> site \<Rightarrow> bool" where
  "pending_invite now g email s \<longleftrightarrow>
    (\<exists>iv \<in> set (st_invites s). iv_org iv = g \<and> iv_email iv = email \<and> iv_accepted_at iv = None \<and>
       now < iv_expires_at iv)"

definition member_with_email :: "nat \<Rightarrow> string \<Rightarrow> site \<Rightarrow> bool" where
  "member_with_email g email s \<longleftrightarrow>
    (\<exists>m \<in> set (st_orgmems s). om_org m = g \<and>
       (\<exists>u \<in> set (st_users s). us_id u = om_user m \<and> us_email u = email))"

definition check_invitation ::
  "mail_env \<Rightarrow> instant \<Rightarrow> nat \<Rightarrow> string \<Rightarrow> string \<Rightarrow> (nat \<times> string option) list \<Rightarrow> nat \<Rightarrow> site \<Rightarrow>
   team_error + org_role \<times> (nat \<times> workspace_role) list" where
  \<comment> \<open>every check of \<open>create_invitation\<close> that writes nothing, in its order\<close>
  "check_invitation env now g email role assignments inviter s =
    (if member_with_email g email s then Inl ALREADY_MEMBER
     else if pending_invite now g email s then Inl INVITE_PENDING
     else if role = ''owner'' then Inl INVITE_OWNER
     else case org_role_of role of
       None \<Rightarrow> Inl (UNKNOWN_ORG_ROLE role)
     | Some r \<Rightarrow>
        if org_level r \<ge> org_level ORG_ADMIN \<and> org_level r \<ge> inviter_org_level inviter g s
        then Inl ADMIN_NEEDS_OWNER
        else case check_assignments inviter g s assignments of
          Inl e \<Rightarrow> Inl e
        | Inr as \<Rightarrow>
            if max_sends env \<le> int (recent_send_count now g email s)
            then Inl (TOO_MANY_SENDS (recent_send_count now g email s))
            else Inr (r, as))"

definition create_invitation ::
  "mail_env \<Rightarrow> instant \<Rightarrow> nat \<Rightarrow> string \<Rightarrow> string \<Rightarrow> (nat \<times> string option) list \<Rightarrow> nat \<Rightarrow> nat option \<Rightarrow>
   site \<Rightarrow> (team_error + invitation) \<times> site" where
  "create_invitation env now g raw_email role assignments invited_by inviter s =
    (let email = py_lower (py_strip raw_email);
         effective_inviter = (case inviter of Some u \<Rightarrow> u | None \<Rightarrow> invited_by) in
     case check_invitation env now g email role assignments effective_inviter s of
       Inl e \<Rightarrow> (Inl e, s)
     | Inr (r, as) \<Rightarrow>
        let already_sent = recent_send_count now g email s;
            (ok, s1) = check_org_invite_budget env now g s in
        if \<not> ok then (Inl (ORG_BUDGET (setting_int ''INVITE_MAX_PER_ORG_PER_DAY'' 25 env)), s1)
        else let iv = \<lparr>iv_id = st_next s1, iv_org = g, iv_email = email, iv_role = r, iv_assignments = as,
                 iv_invited_by = Some invited_by, iv_token = st_next s1,
                 iv_expires_at = now + days INVITE_EXPIRY_DAYS, iv_accepted_at = None, iv_created_at = now,
                 iv_send_count = already_sent, iv_last_sent_at = None\<rparr>;
                 s2 = s1\<lparr>st_invites := st_invites s1 @ [iv], st_next := Suc (st_next s1)\<rparr>
             in (Inr iv, snd (send_invite_email env now iv s2)))"

definition resend_invitation :: "mail_env \<Rightarrow> instant \<Rightarrow> invitation \<Rightarrow> site \<Rightarrow> (team_error + unit) \<times> site" where
  "resend_invitation env now iv s =
    (if iv_accepted_at iv \<noteq> None then (Inl ALREADY_ACCEPTED, s)
     else if max_sends env \<le> int (iv_send_count iv) then (Inl (TOO_MANY_SENDS (iv_send_count iv)), s)
     else if (case iv_last_sent_at iv of None \<Rightarrow> False | Some t \<Rightarrow> now - t < resend_cooldown env)
       then (Inl (JUST_SENT ((resend_cooldown env - (now - the (iv_last_sent_at iv))) div seconds 60 + 1)), s)
     else let (ok, s1) = check_org_invite_budget env now (iv_org iv) s in
       if \<not> ok then (Inl (ORG_BUDGET (setting_int ''INVITE_MAX_PER_ORG_PER_DAY'' 25 env)), s1)
       else let s2 = s1\<lparr>st_invites := tbl_update (\<lambda>r. iv_id r = iv_id iv)
                  (\<lambda>r. r\<lparr>iv_token := st_next s1, iv_expires_at := now + days INVITE_EXPIRY_DAYS\<rparr>) (st_invites s1),
                  st_next := Suc (st_next s1)\<rparr>;
                (sent, s3) = send_invite_email env now iv s2
            in (if sent then Inr () else Inl COULD_NOT_SEND, s3))"

definition revoke_invitation :: "instant \<Rightarrow> invitation \<Rightarrow> site \<Rightarrow> (team_error + unit) \<times> site" where
  "revoke_invitation now iv s =
    (if iv_accepted_at iv \<noteq> None then (Inl ALREADY_ACCEPTED, s)
     else (Inr (), s\<lparr>st_invites := tbl_update (\<lambda>r. iv_id r = iv_id iv)
             (\<lambda>r. r\<lparr>iv_expires_at := now\<rparr>) (st_invites s)\<rparr>))"


section \<open>Accepting an invitation\<close>

fun join_workspaces :: "nat \<Rightarrow> (nat \<times> workspace_role) list \<Rightarrow> site \<Rightarrow> bool \<times> site" where
  \<comment> \<open>\<open>get_or_create\<close> for each assignment; a row for a workspace that is gone breaks a foreign key\<close>
  "join_workspaces u [] s = (True, s)"
| "join_workspaces u ((w, role) # as) s =
    (if ws_membership_of u w s \<noteq> None then join_workspaces u as s
     else if w \<notin> ws_id ` set (st_workspaces s) then (False, s)
     else join_workspaces u as
       (s\<lparr>st_wsmems := st_wsmems s @ [\<lparr>mb_id = st_next s, mb_user = u, mb_workspace = w, mb_role = role, mb_custom = None\<rparr>],
          st_next := Suc (st_next s)\<rparr>))"

definition join_org :: "nat \<Rightarrow> nat \<Rightarrow> org_role \<Rightarrow> site \<Rightarrow> site" where
  "join_org u g role s =
    (if org_membership u g s \<noteq> None then s
     else s\<lparr>st_orgmems := st_orgmems s @ [\<lparr>om_user = u, om_org = g, om_role = role\<rparr>]\<rparr>)"

definition set_last_workspace :: "nat \<Rightarrow> nat option \<Rightarrow> site \<Rightarrow> site" where
  "set_last_workspace u w s =
    s\<lparr>st_users := tbl_update (\<lambda>r. us_id r = u) (\<lambda>r. r\<lparr>au_last_workspace := w\<rparr>) (st_users s)\<rparr>"

definition accept_invitation :: "instant \<Rightarrow> invitation \<Rightarrow> account_user \<Rightarrow> bool \<Rightarrow> site \<Rightarrow> (team_error + unit) \<times> site" where
  "accept_invitation now iv u require_match s =
    (if iv_expires_at iv < now then (Inl EXPIRED, s)
     else if iv_accepted_at iv \<noteq> None then (Inl ALREADY_ACCEPTED, s)
     else if require_match \<and> py_lower (us_email u) \<noteq> py_lower (iv_email iv) then (Inl OTHER_EMAIL, s)
     else let s1 = join_org (us_id u) (iv_org iv) (iv_role iv) s;
              (ok, s2) = join_workspaces (us_id u) (iv_assignments iv) s1 in
       if \<not> ok then (Inl INTEGRITY, s2)
       else let s3 = s2\<lparr>st_invites := tbl_update (\<lambda>r. iv_id r = iv_id iv)
                  (\<lambda>r. r\<lparr>iv_accepted_at := Some now\<rparr>) (st_invites s2)\<rparr>
            in (Inr (), case iv_assignments iv of [] \<Rightarrow> s3
                 | a # _ \<Rightarrow> set_last_workspace (us_id u) (Some (fst a)) s3))"

section \<open>Removing and changing members\<close>

definition owner_count :: "nat \<Rightarrow> site \<Rightarrow> nat" where
  "owner_count g s = length (filter (\<lambda>m. om_org m = g \<and> om_role m = ORG_OWNER) (st_orgmems s))"

definition remove_member :: "nat \<Rightarrow> org_membership \<Rightarrow> nat \<Rightarrow> site \<Rightarrow> (team_error + unit) \<times> site" where
  "remove_member g m removed_by s =
    (if om_user m = removed_by then (Inl REMOVE_YOURSELF, s)
     else if om_role m = ORG_OWNER \<and> owner_count g s \<le> 1 then (Inl LAST_OWNER, s)
     else let ws = map ws_id (filter (\<lambda>w. ws_org w = g) (st_workspaces s)) in
       (Inr (), s\<lparr>st_wsmems := tbl_delete (\<lambda>r. mb_user r = om_user m \<and> mb_workspace r \<in> set ws) (st_wsmems s),
                  st_orgmems := tbl_delete (\<lambda>r. om_user r = om_user m \<and> om_org r = om_org m) (st_orgmems s)\<rparr>))"

definition update_member_org_role ::
  "nat \<Rightarrow> org_membership \<Rightarrow> string \<Rightarrow> nat option \<Rightarrow> site \<Rightarrow> (team_error + unit) \<times> site" where
  "update_member_org_role g m new_role caller s =
    (if new_role = ''owner'' then (Inl PROMOTE_OWNER, s)
     else case org_role_of new_role of
       None \<Rightarrow> (Inl (UNKNOWN_ORG_ROLE new_role), s)
     | Some r \<Rightarrow>
        (case (case caller of None \<Rightarrow> None | Some c \<Rightarrow>
                 if inviter_org_level c g s < org_level (om_role m) then Some MEMBER_TOO_HIGH
                 else if org_level r \<ge> org_level ORG_ADMIN \<and> org_level r \<ge> inviter_org_level c g s
                 then Some ADMIN_NEEDS_OWNER else None) of
           Some e \<Rightarrow> (Inl e, s)
         | None \<Rightarrow>
            if om_role m = ORG_OWNER \<and> owner_count g s \<le> 1 then (Inl LAST_OWNER, s)
            else (Inr (), s\<lparr>st_orgmems := tbl_update (\<lambda>x. om_user x = om_user m \<and> om_org x = om_org m)
                    (\<lambda>x. x\<lparr>om_role := r\<rparr>) (st_orgmems s)\<rparr>)))"

fun desired_roles ::
  "nat \<Rightarrow> nat option \<Rightarrow> site \<Rightarrow> (nat \<times> string option) list \<Rightarrow> (nat \<times> workspace_role) list \<Rightarrow>
   team_error + (nat \<times> workspace_role) list" where
  "desired_roles g inviter s [] acc = Inr acc"
| "desired_roles g inviter s (a # as) acc =
    (let role = (case snd a of None \<Rightarrow> ''viewer'' | Some r \<Rightarrow> r) in
     if fst a \<notin> set (active_workspace_ids g s) then Inl (NOT_A_WORKSPACE (fst a))
     else case ws_role_of role of
       None \<Rightarrow> Inl (UNKNOWN_WS_ROLE role)
     | Some r \<Rightarrow>
        if (case inviter of None \<Rightarrow> False | Some i \<Rightarrow> workspace_level r > inviter_workspace_level i g (fst a) s)
        then Inl ROLE_TOO_HIGH
        else desired_roles g inviter s as (AList.update (fst a) r acc))"

fun check_current :: "nat \<Rightarrow> nat option \<Rightarrow> site \<Rightarrow> (nat \<times> workspace_role) list \<Rightarrow> ws_membership list \<Rightarrow> team_error option" where
  "check_current g inviter s desired [] = None"
| "check_current g inviter s desired (m # ms) =
    (case inviter of
       None \<Rightarrow> None
     | Some i \<Rightarrow>
        let too_high = workspace_level (mb_role m) > inviter_workspace_level i g (mb_workspace m) s in
        (case map_of desired (mb_workspace m) of
           None \<Rightarrow> if too_high then Some REMOVE_TOO_HIGH else check_current g inviter s desired ms
         | Some r \<Rightarrow>
             if r \<noteq> mb_role m \<and> too_high then Some MODIFY_TOO_HIGH
             else check_current g inviter s desired ms))"

fun apply_desired :: "nat \<Rightarrow> (nat \<times> workspace_role) list \<Rightarrow> site \<Rightarrow> site" where
  "apply_desired u [] s = s"
| "apply_desired u ((w, role) # ds) s =
    (case ws_membership_of u w s of
       Some m \<Rightarrow> apply_desired u ds
         (s\<lparr>st_wsmems := tbl_update (\<lambda>r. mb_user r = u \<and> mb_workspace r = w) (\<lambda>r. r\<lparr>mb_role := role\<rparr>) (st_wsmems s)\<rparr>)
     | None \<Rightarrow> apply_desired u ds
         (s\<lparr>st_wsmems := st_wsmems s @ [\<lparr>mb_id = st_next s, mb_user = u, mb_workspace = w, mb_role = role, mb_custom = None\<rparr>],
            st_next := Suc (st_next s)\<rparr>))"

definition update_workspace_assignments ::
  "nat \<Rightarrow> nat \<Rightarrow> (nat \<times> string option) list \<Rightarrow> nat option \<Rightarrow> site \<Rightarrow> (team_error + unit) \<times> site" where
  "update_workspace_assignments g u assignments inviter s =
    (case desired_roles g inviter s assignments [] of
       Inl e \<Rightarrow> (Inl e, s)
     | Inr desired \<Rightarrow>
        let current = filter (\<lambda>m. mb_user m = u \<and> mb_workspace m \<in> set (active_workspace_ids g s)) (st_wsmems s) in
        (case check_current g inviter s desired current of
           Some e \<Rightarrow> (Inl e, s)
         | None \<Rightarrow>
            (Inr (), apply_desired u desired
              (s\<lparr>st_wsmems := tbl_delete (\<lambda>m. m \<in> set current \<and> mb_workspace m \<notin> fst ` set desired) (st_wsmems s)\<rparr>))))"

end
