(* ===== verification/Api_Keys.thy ===== *)
theory Api_Keys
  imports Team
begin

text \<open>
  Agent API keys, \<open>apps/api_keys/services.py\<close>, \<open>signals.py\<close> and \<open>views.py\<close>: the bearer token and its
  parts, issuing, editing and revoking a key, and its verification through the row cache of the worker
  that answers. SHA-256, the peppered HMAC, the random part of a new token and the reading of an expiry
  date are parameters. A worker is a process with a cache of its own (\<open>LocMemCache\<close>); with Redis all
  workers are one. An edit writes in a transaction, so it comes in two parts: what runs before the
  commit (\<open>begin_update\<close>) and the commit (\<open>commit_update\<close>).
\<close>

section \<open>Keys and the state they live in\<close>

record api_key =
  ak_id :: nat
  ak_workspace :: nat
  ak_accounts :: "nat list"
  ak_issued_by :: "nat option"
  ak_name :: string
  ak_lookup :: string
  ak_hash :: string
  ak_permissions :: "string list"
  ak_expires_at :: "instant option"
  ak_revoked_at :: "instant option"
  ak_last_used_at :: "instant option"
  ak_last_used_ip :: "string option"
  ak_rate_writes :: "nat option"
  ak_rate_reads :: "nat option"
  ak_created_at :: instant

type_synonym row_cache = "(string \<times> api_key \<times> instant) list"
  \<comment> \<open>by lookup prefix: the pickled row and the instant the entry expires\<close>

record keyring =
  kr_keys :: "api_key list"
  kr_workspaces :: "team_workspace list"
  kr_accounts :: "social_account list"
  kr_orgmems :: "org_membership list"
  kr_wsmems :: "ws_membership list"
  kr_cache :: "nat \<Rightarrow> row_cache"
  kr_touched :: "nat \<Rightarrow> (nat \<times> instant) list"
  kr_next :: nat

record key_env =
  ke_hmac :: "string \<Rightarrow> string"
    \<comment> \<open>\<open>_hmac_hex\<close>\<close>
  ke_sha :: "string \<Rightarrow> string"
    \<comment> \<open>\<open>hashlib.sha256(s).hexdigest()\<close>\<close>

datatype key_error =
    NO_ACCOUNTS | FOREIGN_ACCOUNT nat | CANNOT_MANAGE_KEYS | NO_WORKSPACE_MEMBERSHIP
  | UNGRANTABLE "string list" | LOOKUP_TAKEN

definition get_key :: "nat \<Rightarrow> keyring \<Rightarrow> api_key option" where
  "get_key i s = tbl_get ak_id i (kr_keys s)"

definition is_active :: "instant \<Rightarrow> api_key \<Rightarrow> bool" where
  "is_active now k =
    (if ak_revoked_at k \<noteq> None then False
     else \<not> (case ak_expires_at k of None \<Rightarrow> False | Some t \<Rightarrow> t \<le> now))"

section \<open>Tokens\<close>

definition TOKEN_PREFIX :: string where
  "TOKEN_PREFIX = ''bb_studio_''"

definition LOOKUP_LEN :: nat where
  "LOOKUP_LEN = 8"

definition REVOCATION_CACHE_TTL :: int where
  "REVOCATION_CACHE_TTL = seconds 30"

definition make_lookup :: "key_env \<Rightarrow> string \<Rightarrow> string" where
  "make_lookup env r = take LOOKUP_LEN (ke_sha env r)"

definition rsplit_underscore :: "string \<Rightarrow> (string \<times> string) option" where
  \<comment> \<open>\<open>s.rsplit("_", 1)\<close> where it gives two parts\<close>
  "rsplit_underscore s =
    (let r = rev s; rest = dropWhile (\<lambda>c. c \<noteq> CHR ''_'') r
     in if rest = [] then None else Some (rev (tl rest), rev (takeWhile (\<lambda>c. c \<noteq> CHR ''_'') r)))"

definition parse_token :: "key_env \<Rightarrow> string \<Rightarrow> (string \<times> string) option" where
  "parse_token env raw =
    (if \<not> py_startswith raw TOKEN_PREFIX then None
     else case rsplit_underscore (drop (length TOKEN_PREFIX) raw) of
       None \<Rightarrow> None
     | Some (r, lp) \<Rightarrow>
        if length lp \<noteq> LOOKUP_LEN then None
        else if \<not> (32 \<le> length r \<and> length r \<le> 64) then None
        else if make_lookup env r \<noteq> lp then None
        else Some (r, lp))"

definition token_text :: "string \<Rightarrow> string \<Rightarrow> string" where
  "token_text r lp = TOKEN_PREFIX @ r @ ''_'' @ lp"

section \<open>The row cache\<close>

definition cached_key :: "nat \<Rightarrow> instant \<Rightarrow> string \<Rightarrow> keyring \<Rightarrow> api_key option" where
  \<comment> \<open>\<open>cache.get(key)\<close>: an entry is gone at the instant it expires\<close>
  "cached_key w now lp s =
    (case map_of (kr_cache s w) lp of
       Some (k, until) \<Rightarrow> if now < until then Some k else None
     | None \<Rightarrow> None)"

definition cache_key :: "nat \<Rightarrow> instant \<Rightarrow> string \<Rightarrow> api_key \<Rightarrow> keyring \<Rightarrow> keyring" where
  "cache_key w now lp k s =
    s\<lparr>kr_cache := (kr_cache s)(w := AList.update lp (k, now + REVOCATION_CACHE_TTL) (kr_cache s w))\<rparr>"

definition uncache_key :: "nat \<Rightarrow> string \<Rightarrow> keyring \<Rightarrow> keyring" where
  "uncache_key w lp s = s\<lparr>kr_cache := (kr_cache s)(w := AList.delete lp (kr_cache s w))\<rparr>"

definition invalidate_api_key_cache :: "nat \<Rightarrow> api_key \<Rightarrow> keyring \<Rightarrow> keyring" where
  "invalidate_api_key_cache w k s = uncache_key w (ak_lookup k) s"

section \<open>Issuing\<close>

definition held_permissions :: "ws_membership \<Rightarrow> string list" where
  \<comment> \<open>\<open>{k for k, v in membership.effective_permissions.items() if v}\<close>\<close>
  "held_permissions m =
    filter (\<lambda>k. has_perm k m) (remdups (map fst (effective_permissions m)))"

definition key_org_membership :: "nat \<Rightarrow> workspace \<Rightarrow> keyring \<Rightarrow> org_membership option" where
  "key_org_membership u w s = tbl_first (\<lambda>m. om_user m = u \<and> om_org m = ws_org w) (kr_orgmems s)"

definition key_ws_membership :: "nat \<Rightarrow> nat \<Rightarrow> keyring \<Rightarrow> ws_membership option" where
  "key_ws_membership u w s = tbl_first (\<lambda>m. mb_user m = u \<and> mb_workspace m = w) (kr_wsmems s)"

definition foreign_account :: "workspace \<Rightarrow> social_account list \<Rightarrow> key_error option" where
  \<comment> \<open>the account checks shared by issuing and editing\<close>
  "foreign_account w accounts =
    (if accounts = [] then Some NO_ACCOUNTS
     else case tbl_first (\<lambda>a. sa_workspace a \<noteq> ws_id w) accounts of
       Some a \<Rightarrow> Some (FOREIGN_ACCOUNT (sa_id a))
     | None \<Rightarrow> None)"

definition new_key ::
  "key_env \<Rightarrow> instant \<Rightarrow> workspace \<Rightarrow> social_account list \<Rightarrow> nat \<Rightarrow> string \<Rightarrow> string list \<Rightarrow>
    instant option \<Rightarrow> string \<Rightarrow> nat \<Rightarrow> api_key" where
  "new_key env now w accounts issuer name perms expires r i =
    \<lparr>ak_id = i, ak_workspace = ws_id w, ak_accounts = remdups (map sa_id accounts),
     ak_issued_by = Some issuer, ak_name = name, ak_lookup = make_lookup env r,
     ak_hash = ke_hmac env r, ak_permissions = sort (remdups perms), ak_expires_at = expires,
     ak_revoked_at = None, ak_last_used_at = None, ak_last_used_ip = None, ak_rate_writes = None,
     ak_rate_reads = None, ak_created_at = now\<rparr>"

definition issue_api_key ::
  "key_env \<Rightarrow> nat \<Rightarrow> instant \<Rightarrow> workspace \<Rightarrow> social_account list \<Rightarrow> nat \<Rightarrow> string \<Rightarrow> string list \<Rightarrow>
    instant option \<Rightarrow> string \<Rightarrow> keyring \<Rightarrow> key_error + (api_key \<times> string) \<times> keyring" where
  \<comment> \<open>\<open>r\<close> is \<open>secrets.token_urlsafe(32)\<close>\<close>
  "issue_api_key env wk now w accounts issuer name perms expires r s =
    (case foreign_account w accounts of
       Some e \<Rightarrow> Inl e
     | None \<Rightarrow>
        if \<not> has_org_permission (key_org_membership issuer w s) ''manage_api_keys'' then Inl CANNOT_MANAGE_KEYS
        else case key_ws_membership issuer (ws_id w) s of
          None \<Rightarrow> Inl NO_WORKSPACE_MEMBERSHIP
        | Some m \<Rightarrow>
           let ungrantable = filter (\<lambda>p. p \<notin> set (held_permissions m)) (remdups perms) in
           if ungrantable \<noteq> [] then Inl (UNGRANTABLE (sort ungrantable))
           else if make_lookup env r \<in> ak_lookup ` set (kr_keys s) then Inl LOOKUP_TAKEN
           else
             let k = new_key env now w accounts issuer name perms expires r (kr_next s);
                 s1 = s\<lparr>kr_keys := kr_keys s @ [k], kr_next := Suc (kr_next s)\<rparr>
             in Inr ((k, token_text r (ak_lookup k)), invalidate_api_key_cache wk k s1))"

section \<open>Editing and revoking\<close>

record key_edit =
  ed_key :: nat
  ed_permissions :: "string list"
  ed_accounts :: "nat list"
  ed_expires_at :: "instant option"

definition editor_grantable :: "ws_membership \<Rightarrow> string list" where
  "editor_grantable m = filter (\<lambda>k. k \<in> set PERMISSION_KEYS) (held_permissions m)"

definition edited_permissions :: "ws_membership \<Rightarrow> string list \<Rightarrow> string list \<Rightarrow> string list" where
  "edited_permissions m posted current =
    sort (remdups (filter (\<lambda>k. k \<in> set (editor_grantable m)) posted @
      filter (\<lambda>k. k \<notin> set (editor_grantable m)) current))"

definition begin_update ::
  "nat \<Rightarrow> workspace \<Rightarrow> api_key \<Rightarrow> nat \<Rightarrow> string list \<Rightarrow> social_account list \<Rightarrow> instant option \<Rightarrow> keyring \<Rightarrow>
    key_error + key_edit \<times> keyring" where
  \<comment> \<open>up to the commit: the signals of the two saves bust the cache inside the transaction\<close>
  "begin_update wk w k editor perms accounts expires s =
    (if \<not> has_org_permission (key_org_membership editor w s) ''manage_api_keys'' then Inl CANNOT_MANAGE_KEYS
     else case key_ws_membership editor (ws_id w) s of
       None \<Rightarrow> Inl NO_WORKSPACE_MEMBERSHIP
     | Some m \<Rightarrow>
        (case foreign_account w accounts of
           Some e \<Rightarrow> Inl e
         | None \<Rightarrow>
            Inr (\<lparr>ed_key = ak_id k, ed_permissions = edited_permissions m perms (ak_permissions k),
                  ed_accounts = remdups (map sa_id accounts), ed_expires_at = expires\<rparr>,
                 invalidate_api_key_cache wk k s)))"

definition commit_update :: "key_edit \<Rightarrow> keyring \<Rightarrow> keyring" where
  "commit_update e s =
    s\<lparr>kr_keys := tbl_update (\<lambda>r. ak_id r = ed_key e)
       (\<lambda>r. r\<lparr>ak_permissions := ed_permissions e, ak_expires_at := ed_expires_at e,
              ak_accounts := ed_accounts e\<rparr>) (kr_keys s)\<rparr>"

definition update_api_key ::
  "nat \<Rightarrow> workspace \<Rightarrow> api_key \<Rightarrow> nat \<Rightarrow> string list \<Rightarrow> social_account list \<Rightarrow> instant option \<Rightarrow> keyring \<Rightarrow>
    key_error + keyring" where
  "update_api_key wk w k editor perms accounts expires s =
    (case begin_update wk w k editor perms accounts expires s of
       Inl e \<Rightarrow> Inl e
     | Inr (e, s1) \<Rightarrow> Inr (commit_update e s1))"

definition revoke_api_key :: "nat \<Rightarrow> instant \<Rightarrow> api_key \<Rightarrow> keyring \<Rightarrow> keyring" where
  "revoke_api_key wk now k s =
    invalidate_api_key_cache wk k
      (if ak_revoked_at k = None
       then s\<lparr>kr_keys := tbl_update (\<lambda>r. ak_id r = ak_id k) (\<lambda>r. r\<lparr>ak_revoked_at := Some now\<rparr>) (kr_keys s)\<rparr>
       else s)"

section \<open>Verifying\<close>

definition issuer_still_authorized :: "api_key \<Rightarrow> keyring \<Rightarrow> bool" where
  "issuer_still_authorized k s =
    (case ak_issued_by k of
       None \<Rightarrow> False
     | Some u \<Rightarrow> \<exists>m \<in> set (kr_wsmems s). mb_user m = u \<and> mb_workspace m = ak_workspace k)"

definition load_key :: "nat \<Rightarrow> instant \<Rightarrow> string \<Rightarrow> keyring \<Rightarrow> (api_key \<times> keyring) option" where
  \<comment> \<open>the row, from the cache or the database\<close>
  "load_key wk now lp s =
    (case cached_key wk now lp s of
       Some k \<Rightarrow> Some (k, s)
     | None \<Rightarrow>
        (case tbl_first (\<lambda>r. ak_lookup r = lp) (kr_keys s) of
           None \<Rightarrow> None
         | Some k \<Rightarrow> Some (k, if is_active now k then cache_key wk now lp k s else s)))"

definition verify_token :: "key_env \<Rightarrow> nat \<Rightarrow> instant \<Rightarrow> string \<Rightarrow> keyring \<Rightarrow> api_key option \<times> keyring" where
  "verify_token env wk now raw s =
    (case parse_token env raw of
       None \<Rightarrow> (None, s)
     | Some (r, lp) \<Rightarrow>
        (case load_key wk now lp s of
           None \<Rightarrow> (None, s)
         | Some (k, s1) \<Rightarrow>
            if \<not> is_active now k then (None, uncache_key wk lp s1)
            else if ke_hmac env r \<noteq> ak_hash k then (None, s1)
            else if \<not> issuer_still_authorized k s1 then (None, uncache_key wk lp s1)
            else (Some k, s1)))"

definition LAST_USED_DEBOUNCE :: int where
  "LAST_USED_DEBOUNCE = seconds 60"

definition touch_last_used :: "nat \<Rightarrow> instant \<Rightarrow> api_key \<Rightarrow> string option \<Rightarrow> keyring \<Rightarrow> keyring" where
  "touch_last_used wk now k ip s =
    (if (case map_of (kr_touched s wk) (ak_id k) of Some until \<Rightarrow> now < until | None \<Rightarrow> False) then s
     else s\<lparr>kr_touched := (kr_touched s)(wk := AList.update (ak_id k) (now + LAST_USED_DEBOUNCE) (kr_touched s wk)),
            kr_keys := tbl_update (\<lambda>r. ak_id r = ak_id k)
              (\<lambda>r. r\<lparr>ak_last_used_at := Some now, ak_last_used_ip := ip\<rparr>) (kr_keys s)\<rparr>)"

section \<open>What a verified key may do\<close>

definition resolve_effective_permissions :: "api_key \<Rightarrow> keyring \<Rightarrow> (string \<times> bool) list" where
  "resolve_effective_permissions k s =
    (let granted = remdups (ak_permissions k) in
     if granted = [] \<or> ak_issued_by k = None then map (\<lambda>p. (p, False)) granted
     else case key_ws_membership (the (ak_issued_by k)) (ak_workspace k) s of
       None \<Rightarrow> map (\<lambda>p. (p, False)) granted
     | Some m \<Rightarrow> map (\<lambda>p. (p, p \<in> set (held_permissions m))) granted)"

end
