(* ===== verification/Api_Limits.thy ===== *)
theory Api_Limits
  imports Api_Keys Composer
begin

text \<open>
  The limits of the Agent API, \<open>apps/api/limits.py\<close>: the client address, the throttle of failed
  authentication, the request rates and the daily cap of a social account, and the error body that
  \<open>apps/api/api.py\<close> makes of the text these limits raise. \<open>django-ratelimit\<close> is a parameter that says
  whether a group has been used up; the counters of the throttle live in the cache.
\<close>

section \<open>Numbers in a text\<close>

fun nat_text :: "nat \<Rightarrow> string" where
  \<comment> \<open>\<open>str(n)\<close>\<close>
  "nat_text n = (if n < 10 then [char_of (48 + n)] else nat_text (n div 10) @ [char_of (48 + n mod 10)])"

declare nat_text.simps [simp del]

definition py_isdigit :: "string \<Rightarrow> bool" where
  \<comment> \<open>\<open>s.isdigit()\<close> on ASCII\<close>
  "py_isdigit s \<longleftrightarrow> s \<noteq> [] \<and> all_digits 0 s \<noteq> None"

function py_split :: "string \<Rightarrow> string list" where
  \<comment> \<open>\<open>s.split()\<close>\<close>
  "py_split [] = []"
| "py_split (c # s) =
    (if is_space c then py_split s
     else (c # takeWhile (\<lambda>x. \<not> is_space x) s) # py_split (dropWhile (\<lambda>x. \<not> is_space x) s))"
  by pat_completeness auto

termination
  by (relation "measure length") (auto simp: less_Suc_eq_le length_dropWhile_le)

section \<open>Requests and settings\<close>

record api_request =
  hq_method :: string
  hq_path :: string
  hq_remote :: "string option"
  hq_forwarded :: "string option"
  hq_agent :: "string option"
  hq_secure :: bool

record api_settings =
  cf_trusted :: "string list"
    \<comment> \<open>\<open>BB_TRUSTED_PROXIES\<close>\<close>
  cf_debug :: bool
  cf_global_cap :: "nat option"
    \<comment> \<open>\<open>BB_API_LIMIT\<close>\<close>
  cf_limited :: "string \<Rightarrow> string \<Rightarrow> string \<Rightarrow> bool"
    \<comment> \<open>\<open>is_ratelimited(group, key, rate)\<close>\<close>

datatype http_error = HTTP nat string

definition client_ip :: "api_settings \<Rightarrow> api_request \<Rightarrow> string option" where
  "client_ip cf rq =
    (case hq_remote rq of
       None \<Rightarrow> None
     | Some remote \<Rightarrow>
        if remote \<in> set (cf_trusted cf) then
          (case hq_forwarded rq of
             None \<Rightarrow> Some remote
           | Some f \<Rightarrow>
              (case find (\<lambda>h. h \<notin> set (cf_trusted cf))
                   (filter (\<lambda>h. h \<noteq> []) (map py_strip (split_on CHR '','' f))) of
                 Some h \<Rightarrow> Some h
               | None \<Rightarrow> Some remote))
        else Some remote)"

section \<open>Failed authentication\<close>

type_synonym throttle = "(string \<times> nat \<times> instant) list"
  \<comment> \<open>by address: the failures counted and the instant the bucket expires\<close>

definition AUTH_FAIL_LIMIT :: nat where
  "AUTH_FAIL_LIMIT = 10"

definition AUTH_FAIL_WINDOW :: int where
  "AUTH_FAIL_WINDOW = seconds 60"

definition auth_fail_key :: "api_settings \<Rightarrow> api_request \<Rightarrow> string" where
  "auth_fail_key cf rq = (case client_ip cf rq of Some ip \<Rightarrow> if ip = [] then ''anon'' else ip | None \<Rightarrow> ''anon'')"

definition failures :: "instant \<Rightarrow> string \<Rightarrow> throttle \<Rightarrow> nat" where
  \<comment> \<open>\<open>cache.get(key, 0)\<close>\<close>
  "failures now k th = (case map_of th k of Some (n, until) \<Rightarrow> if now < until then n else 0 | None \<Rightarrow> 0)"

definition is_failed_auth_ip_blocked :: "api_settings \<Rightarrow> instant \<Rightarrow> api_request \<Rightarrow> throttle \<Rightarrow> bool" where
  "is_failed_auth_ip_blocked cf now rq th \<longleftrightarrow> AUTH_FAIL_LIMIT \<le> failures now (auth_fail_key cf rq) th"

definition record_failed_auth :: "api_settings \<Rightarrow> instant \<Rightarrow> api_request \<Rightarrow> throttle \<Rightarrow> throttle" where
  \<comment> \<open>\<open>cache.add\<close> on a missing or expired bucket, else \<open>cache.incr\<close>, which keeps its expiry\<close>
  "record_failed_auth cf now rq th =
    (let k = auth_fail_key cf rq in
     case map_of th k of
       Some (n, until) \<Rightarrow> if now < until then AList.update k (Suc n, until) th
                          else AList.update k (1, now + AUTH_FAIL_WINDOW) th
     | None \<Rightarrow> AList.update k (1, now + AUTH_FAIL_WINDOW) th)"

definition pre_auth_reject :: "api_settings \<Rightarrow> instant \<Rightarrow> api_request \<Rightarrow> throttle \<Rightarrow> bool \<times> throttle" where
  "pre_auth_reject cf now rq th =
    (if is_failed_auth_ip_blocked cf now rq th then (True, th)
     else if \<not> hq_secure rq \<and> \<not> cf_debug cf then (True, record_failed_auth cf now rq th)
     else (False, th))"

section \<open>The text of a limit and the body made of it\<close>

definition format_quota_message :: "string \<Rightarrow> nat \<Rightarrow> nat \<Rightarrow> nat \<Rightarrow> string" where
  "format_quota_message tier limit remaining retry_after =
    ''rate_limited tier='' @ tier @ '' limit='' @ nat_text limit @ '' remaining='' @ nat_text remaining @
    '' retry_after='' @ nat_text retry_after"

definition quota_value :: "string \<Rightarrow> json" where
  "quota_value v = (if py_isdigit v then JNum (int (the (all_digits 0 v))) else JStr v)"

definition quota_token :: "string \<Rightarrow> pydict \<Rightarrow> pydict" where
  "quota_token token parts =
    (if CHR ''='' \<notin> set token then parts
     else dict_set (takeWhile (\<lambda>c. c \<noteq> CHR ''='') token)
       (quota_value (tl (dropWhile (\<lambda>c. c \<noteq> CHR ''='') token))) parts)"

definition int_header :: "string \<Rightarrow> string \<Rightarrow> pydict \<Rightarrow> (string \<times> int) list" where
  "int_header header k parts = (case dict_get k parts of JNum n \<Rightarrow> [(header, n)] | _ \<Rightarrow> [])"

definition parse_quota_message :: "string \<Rightarrow> pydict \<times> (string \<times> int) list" where
  "parse_quota_message msg =
    (let parts = foldl (\<lambda>acc t. quota_token t acc) [(''error'', JStr ''rate_limited'')] (py_split msg)
     in (parts, int_header ''Retry-After'' ''retry_after'' parts @
           int_header ''X-RateLimit-Limit'' ''limit'' parts @
           int_header ''X-RateLimit-Remaining'' ''remaining'' parts))"

section \<open>Request rates\<close>

definition DEFAULT_WRITE_RATE :: nat where
  "DEFAULT_WRITE_RATE = 120"

definition DEFAULT_READ_RATE :: nat where
  "DEFAULT_READ_RATE = 300"

definition WORKSPACE_AGG_WRITE_RATE :: nat where
  "WORKSPACE_AGG_WRITE_RATE = 1000"

definition per_minute :: "nat \<Rightarrow> string" where
  "per_minute n = nat_text n @ ''/m''"

definition rate_refusal :: "string \<Rightarrow> nat \<Rightarrow> http_error option" where
  "rate_refusal tier limit = Some (HTTP 429 (format_quota_message tier limit 0 60))"

definition enforce_http_rate_limits :: "api_settings \<Rightarrow> api_key \<Rightarrow> bool \<Rightarrow> http_error option" where
  "enforce_http_rate_limits cf k is_write =
    (let own = (case (if is_write then ak_rate_writes k else ak_rate_reads k) of
                  Some n \<Rightarrow> n | None \<Rightarrow> if is_write then DEFAULT_WRITE_RATE else DEFAULT_READ_RATE)
     in if cf_limited cf (if is_write then ''agent_api:apikey:w'' else ''agent_api:apikey:r'')
          (''apikey:'' @ uuid_text (ak_id k) @ (if is_write then '':w'' else '':r'')) (per_minute own)
        then rate_refusal (if is_write then ''per_key_writes'' else ''per_key_reads'') own
        else if is_write \<and> cf_limited cf ''agent_api:workspace:w'' (''ws:'' @ uuid_text (ak_workspace k) @ '':w'')
          (per_minute WORKSPACE_AGG_WRITE_RATE)
        then rate_refusal ''per_workspace_writes'' WORKSPACE_AGG_WRITE_RATE
        else case cf_global_cap cf of
          None \<Rightarrow> None
        | Some cap \<Rightarrow> if cap \<noteq> 0 \<and> cf_limited cf ''agent_api:global'' ''global'' (per_minute cap)
            then rate_refusal ''global'' cap else None)"

section \<open>The daily cap of an account\<close>

definition PLATFORM_DAILY_POST_LIMIT :: "(string \<times> nat) list" where
  "PLATFORM_DAILY_POST_LIMIT =
    [(''linkedin_personal'', 100), (''linkedin_company'', 100), (''facebook'', 200), (''instagram'', 25),
     (''instagram_login'', 25), (''tiktok'', 15), (''youtube'', 50), (''pinterest'', 100), (''threads'', 250),
     (''mastodon'', 200), (''bluesky'', 200), (''google_business'', 50)]"

definition DEFAULT_FALLBACK :: nat where
  "DEFAULT_FALLBACK = 50"

definition resolve_platform_limit :: "(nat \<Rightarrow> nat option) \<Rightarrow> social_account \<Rightarrow> nat" where
  \<comment> \<open>the first argument is the column \<open>daily_post_limit_override\<close>\<close>
  "resolve_platform_limit override a =
    (case override (sa_id a) of
       Some n \<Rightarrow> n
     | None \<Rightarrow> (case map_of PLATFORM_DAILY_POST_LIMIT (sa_platform a) of Some n \<Rightarrow> n | None \<Rightarrow> DEFAULT_FALLBACK))"

definition QUOTA_CONSUMING_STATUSES :: "pp_state list" where
  "QUOTA_CONSUMING_STATUSES = [SCHEDULED, PUBLISHING, PUBLISHED, FAILED]"

definition consumes_quota :: "instant \<Rightarrow> nat \<Rightarrow> platform_post \<Rightarrow> bool" where
  "consumes_quota now account p \<longleftrightarrow> pp_account p = account \<and> now - hours 24 \<le> pp_updated_at p \<and>
     pp_status p \<in> set QUOTA_CONSUMING_STATUSES"

definition count_recent_creations :: "instant \<Rightarrow> social_account \<Rightarrow> db \<Rightarrow> nat" where
  "count_recent_creations now a d = length (filter (consumes_quota now (sa_id a)) (db_pps d))"

definition check_platform_quota :: "(nat \<Rightarrow> nat option) \<Rightarrow> instant \<Rightarrow> social_account \<Rightarrow> db \<Rightarrow> http_error option" where
  "check_platform_quota override now a d =
    (let limit = resolve_platform_limit override a in
     if limit \<le> count_recent_creations now a d then
       (let times = map pp_updated_at (filter (consumes_quota now (sa_id a)) (db_pps d));
            retry = (if times = [] then 60 else (Min (set times) + hours 24 - now) div 1000000)
        in Some (HTTP 429 (format_quota_message (''platform_quota:'' @ sa_platform a) limit 0 (nat (max retry 1)))))
     else None)"

end
