(* ===== verification/Notifications.thy ===== *)
theory Notifications
  imports Mail Calendar_Queue Api_Limits Validators
begin

text \<open>
  The notification engine, \<open>apps/notifications/engine.py\<close>: preferences and quiet hours, \<open>notify\<close> with its
  deliveries, the retry of inline deliveries and the digests, with the writing views and the unsubscribe link.
  The zones of \<open>zoneinfo\<close>, the HTTP post of a webhook and the signed tokens are parameters; mail goes through
  \<open>send_or_raise\<close> of theory \<open>Mail\<close>. The field \<open>no_log\<close> is no table: it lists the messages offered to the
  mail back end, each as its address and the deliveries it stands for, for the statements about them. A digest claims, mails and settles
  in separate steps, since a worker may die or another one run in between.
\<close>

section \<open>Events, channels and tables\<close>

definition EVENT_TYPES :: "string list" where
  "EVENT_TYPES =
    [''post_submitted'', ''post_approved'', ''post_changes_requested'', ''post_rejected'', ''post_published'',
     ''post_failed'', ''new_inbox_message'', ''inbox_sla_overdue'', ''client_approval_requested'',
     ''team_member_invited'', ''social_account_disconnected'', ''report_generated'', ''engagement_alert'',
     ''comment_mention'', ''approval_reminder'', ''approval_stalled'', ''approval_hold_requested'',
     ''client_connected_accounts'']"

datatype channel = IN_APP | EMAIL | WEBHOOK

datatype delivery_status = PENDING_DELIVERY | DELIVERED | FAILED_DELIVERY

datatype clock_value =
    Clock int
    \<comment> \<open>a time, in microseconds since midnight\<close>
  | Raw string
    \<comment> \<open>text of a form, on an instance not read back\<close>

record quiet_hours =
  qh_enabled :: bool
  qh_start :: "clock_value option"
  qh_end :: "clock_value option"
  qh_timezone :: string
  qh_digest :: bool

record recipient =
  rc_id :: nat
  rc_email :: string
  rc_active :: bool
  rc_quiet :: "quiet_hours option"

record notice =
  nc_id :: nat
  nc_user :: nat
  nc_event :: string
  nc_title :: string
  nc_body :: string
  nc_data :: pydict
  nc_read_at :: "instant option"
    \<comment> \<open>\<open>is_read\<close> is set with it\<close>

record notice_delivery =
  dl_id :: nat
  dl_notice :: nat
  dl_channel :: channel
  dl_status :: delivery_status
  dl_error :: string
  dl_delivered_at :: "instant option"
  dl_attempts :: nat
  dl_next_retry_at :: "instant option"
  dl_queued_at :: "instant option"
  dl_claimed_at :: "instant option"

record notifier =
  no_users :: "recipient list"
  no_prefs :: "((nat \<times> string \<times> channel) \<times> bool) list"
  no_notices :: "notice list"
  no_deliveries :: "notice_delivery list"
  no_next :: nat
  no_mail :: mailbox
  no_log :: "(string \<times> nat list) list"

record notify_env =
  ne_mail :: mail_env
  ne_mail_error :: string
    \<comment> \<open>what the mail back end raises, where it does\<close>
  ne_zone :: "string \<Rightarrow> zone option"
    \<comment> \<open>\<open>zoneinfo.ZoneInfo(name)\<close>, \<open>None\<close> where it raises\<close>
  ne_safe_url :: "json \<Rightarrow> bool"
  ne_webhook :: "json \<Rightarrow> notice \<Rightarrow> string + nat"
    \<comment> \<open>what \<open>httpx.post\<close> raises, or the status of the response\<close>

definition MAX_RETRY_ATTEMPTS :: nat where
  "MAX_RETRY_ATTEMPTS = 3"

definition RETRY_BACKOFF_MINUTES :: "int list" where
  "RETRY_BACKOFF_MINUTES = [1, 5, 30]"

definition RETRY_BATCH_LIMIT :: nat where
  "RETRY_BATCH_LIMIT = 200"

definition BATCH_WINDOW_MINUTES :: int where
  "BATCH_WINDOW_MINUTES = 5"

definition BATCH_SIZE_TRIGGER :: nat where
  "BATCH_SIZE_TRIGGER = 10"

definition BATCH_GROUP_LIMIT :: nat where
  "BATCH_GROUP_LIMIT = 50"

definition BATCH_CLAIM_TIMEOUT :: int where
  "BATCH_CLAIM_TIMEOUT = seconds (10 * 60)"

definition DAILY_DIGEST_HOUR :: int where
  "DAILY_DIGEST_HOUR = 8"

definition BATCH_HEADINGS :: "(string \<times> string \<times> string) list" where
  \<comment> \<open>what follows the number, in the singular and in the plural\<close>
  "BATCH_HEADINGS = [(''post_failed'', '' post failed to publish'', '' posts failed to publish'')]"

definition BATCHED_EMAIL_EVENTS :: "string list" where
  "BATCHED_EMAIL_EVENTS = map fst BATCH_HEADINGS"

definition DEFAULT_CHANNELS :: "(string \<times> channel list) list" where
  \<comment> \<open>the channels whose default is \<open>True\<close>\<close>
  "DEFAULT_CHANNELS =
    [(''post_submitted'', [IN_APP, EMAIL]), (''post_approved'', [IN_APP]), (''post_changes_requested'', [IN_APP, EMAIL]),
     (''post_rejected'', [IN_APP, EMAIL]), (''post_published'', [IN_APP]), (''post_failed'', [IN_APP, EMAIL]),
     (''new_inbox_message'', [IN_APP]), (''inbox_sla_overdue'', [IN_APP, EMAIL]), (''client_approval_requested'', [EMAIL]),
     (''team_member_invited'', [EMAIL]), (''social_account_disconnected'', [IN_APP, EMAIL]),
     (''report_generated'', [IN_APP, EMAIL]), (''engagement_alert'', [IN_APP, EMAIL]), (''comment_mention'', [IN_APP, EMAIL]),
     (''approval_reminder'', [IN_APP, EMAIL]), (''approval_stalled'', [IN_APP, EMAIL]),
     (''approval_hold_requested'', [IN_APP, EMAIL]), (''client_connected_accounts'', [IN_APP, EMAIL])]"

definition NON_CRITICAL_EVENTS :: "string list" where
  "NON_CRITICAL_EVENTS = [''post_published'', ''report_generated'', ''engagement_alert'']"

section \<open>Preferences and quiet hours\<close>

definition get_recipient :: "nat \<Rightarrow> notifier \<Rightarrow> recipient option" where
  "get_recipient u s = tbl_get rc_id u (no_users s)"

definition get_notice :: "nat \<Rightarrow> notifier \<Rightarrow> notice option" where
  "get_notice i s = tbl_get nc_id i (no_notices s)"

definition resolve_channels :: "nat \<Rightarrow> string \<Rightarrow> notifier \<Rightarrow> channel list" where
  "resolve_channels u event s =
    filter (\<lambda>c. case map_of (no_prefs s) (u, event, c) of
        Some on \<Rightarrow> on
      | None \<Rightarrow> (case map_of DEFAULT_CHANNELS event of Some cs \<Rightarrow> c \<in> set cs | None \<Rightarrow> False))
      [IN_APP, EMAIL, WEBHOOK]"

definition resolve_timezone :: "notify_env \<Rightarrow> string \<Rightarrow> zone" where
  "resolve_timezone env name = (case ne_zone env name of Some z \<Rightarrow> z | None \<Rightarrow> UTC)"

definition is_digest_mode :: "recipient \<Rightarrow> bool" where
  "is_digest_mode u = (case rc_quiet u of Some q \<Rightarrow> qh_digest q | None \<Rightarrow> False)"

definition time_of_text :: "string \<Rightarrow> int option" where
  \<comment> \<open>\<open>parts = s.split(":"); time(int(parts[0]), int(parts[1]))\<close>, \<open>None\<close> where it raises\<close>
  "time_of_text t =
    (case split_on CHR '':'' t of
       a # b # _ \<Rightarrow>
        (case (py_int a, py_int b) of
           (Some h, Some m) \<Rightarrow> if 0 \<le> h \<and> h < 24 \<and> 0 \<le> m \<and> m < 60 then Some (clock h m) else None
         | _ \<Rightarrow> None)
     | _ \<Rightarrow> None)"

definition clock_time :: "clock_value \<Rightarrow> int option" where
  "clock_time v = (case v of Clock t \<Rightarrow> Some t | Raw t \<Rightarrow> time_of_text t)"

definition is_in_quiet_hours :: "notify_env \<Rightarrow> instant \<Rightarrow> recipient \<Rightarrow> bool" where
  "is_in_quiet_hours env now u =
    (case rc_quiet u of
       None \<Rightarrow> False
     | Some q \<Rightarrow>
        (case (qh_start q, qh_end q) of
           (Some a, Some b) \<Rightarrow>
            if \<not> qh_enabled q \<or> a = Raw [] \<or> b = Raw [] then False
            else (case (clock_time a, clock_time b) of
              (Some start, Some stop) \<Rightarrow>
                (let t = z_time (resolve_timezone env (qh_timezone q)) now
                 in if start \<le> stop then start \<le> t \<and> t \<le> stop else start \<le> t \<or> t \<le> stop)
            | _ \<Rightarrow> False)
         | _ \<Rightarrow> False))"

section \<open>Dispatch\<close>

datatype outcome =
    Went
  | Declined
    \<comment> \<open>\<open>EmailNotSentError\<close>\<close>
  | Raised string

definition NOT_SENT_TEXT :: string where
  "NOT_SENT_TEXT = ''stopped by the outbound email budget, or no address to send to''"

definition update_delivery :: "nat \<Rightarrow> (notice_delivery \<Rightarrow> notice_delivery) \<Rightarrow> notifier \<Rightarrow> notifier" where
  \<comment> \<open>\<open>save(update_fields=...)\<close> of one row\<close>
  "update_delivery i f s = s\<lparr>no_deliveries := tbl_update (\<lambda>r. dl_id r = i) f (no_deliveries s)\<rparr>"

definition update_deliveries :: "(notice_delivery \<Rightarrow> bool) \<Rightarrow> (notice_delivery \<Rightarrow> notice_delivery) \<Rightarrow> notifier \<Rightarrow> notifier" where
  \<comment> \<open>\<open>filter(...).update(...)\<close>\<close>
  "update_deliveries P f s = s\<lparr>no_deliveries := tbl_update P f (no_deliveries s)\<rparr>"

definition mail_out :: "notify_env \<Rightarrow> instant \<Rightarrow> nat list \<Rightarrow> string \<Rightarrow> string \<Rightarrow> notifier \<Rightarrow> outcome \<times> notifier" where
  \<comment> \<open>\<open>send_or_raise(msg)\<close> for the deliveries given\<close>
  "mail_out env now ids subject address s =
    (let (res, mx) = send_or_raise (ne_mail env) now
        \<lparr>mg_subject = subject, mg_to = [address], mg_cc = [], mg_bcc = [], mg_class = None\<rparr> (no_mail s)
     in (case res of SENT \<Rightarrow> Went | NOT_SENT \<Rightarrow> Declined | SEND_FAILED \<Rightarrow> Raised (ne_mail_error env),
         s\<lparr>no_mail := mx, no_log := no_log s @ [(address, ids)]\<rparr>))"

definition dispatch_webhook :: "notify_env \<Rightarrow> notice \<Rightarrow> outcome" where
  \<comment> \<open>the dash of the source is written with a hyphen\<close>
  "dispatch_webhook env n =
    (let url = dict_get ''webhook_url'' (nc_data n) in
     if \<not> json_truthy url then Went
     else if \<not> ne_safe_url env url then Raised ''Webhook URL rejected: must be a public http(s) endpoint''
     else case ne_webhook env url n of
       Inl e \<Rightarrow> Raised e
     | Inr st \<Rightarrow>
        if 300 \<le> st \<and> st < 400 then Raised (''Webhook URL replied with redirect '' @ nat_text st @ '' - refusing to follow.'')
        else if 400 \<le> st then Raised (''Webhook returned HTTP '' @ nat_text st)
        else Went)"

definition attempt_delivery :: "notify_env \<Rightarrow> instant \<Rightarrow> notice_delivery \<Rightarrow> notifier \<Rightarrow> outcome \<times> notifier" where
  \<comment> \<open>the notification and its user are there: the foreign keys cascade\<close>
  "attempt_delivery env now r s =
    (case get_notice (dl_notice r) s of
       None \<Rightarrow> (Raised [], s)
     | Some n \<Rightarrow>
        (case dl_channel r of
           IN_APP \<Rightarrow> (Went, s)
         | EMAIL \<Rightarrow>
            (case get_recipient (nc_user n) s of
               None \<Rightarrow> (Raised [], s)
             | Some u \<Rightarrow> mail_out env now [dl_id r] (nc_title n) (rc_email u) s)
         | WEBHOOK \<Rightarrow> (dispatch_webhook env n, s)))"

definition begin_dispatch :: "notice_delivery \<Rightarrow> notifier \<Rightarrow> notifier" where
  "begin_dispatch r s = update_delivery (dl_id r) (\<lambda>x. x\<lparr>dl_attempts := Suc (dl_attempts r)\<rparr>) s"

definition settle_dispatch :: "instant \<Rightarrow> notice_delivery \<Rightarrow> outcome \<Rightarrow> notifier \<Rightarrow> notifier" where
  \<comment> \<open>for the row as it was loaded, its attempt counted\<close>
  "settle_dispatch now r out s =
    (let attempts = Suc (dl_attempts r) in
     case out of
       Went \<Rightarrow> update_delivery (dl_id r) (\<lambda>x. x\<lparr>dl_status := DELIVERED, dl_delivered_at := Some now\<rparr>) s
     | Declined \<Rightarrow>
        update_delivery (dl_id r) (\<lambda>x. x\<lparr>dl_status := FAILED_DELIVERY, dl_error := take 500 NOT_SENT_TEXT\<rparr>) s
     | Raised e \<Rightarrow>
        if MAX_RETRY_ATTEMPTS \<le> attempts
        then update_delivery (dl_id r) (\<lambda>x. x\<lparr>dl_status := FAILED_DELIVERY, dl_error := take 500 e,
               dl_next_retry_at := dl_next_retry_at r\<rparr>) s
        else update_delivery (dl_id r) (\<lambda>x. x\<lparr>dl_status := PENDING_DELIVERY, dl_error := take 500 e,
               dl_next_retry_at := Some (now + seconds (60 *
                 RETRY_BACKOFF_MINUTES ! min (attempts - 1) (length RETRY_BACKOFF_MINUTES - 1)))\<rparr>) s)"

definition dispatch :: "notify_env \<Rightarrow> instant \<Rightarrow> notice_delivery \<Rightarrow> notifier \<Rightarrow> notifier" where
  "dispatch env now r s =
    (let (out, s1) = attempt_delivery env now r (begin_dispatch r s) in settle_dispatch now r out s1)"

section \<open>Notifying\<close>

definition new_delivery :: "nat \<Rightarrow> nat \<Rightarrow> channel \<Rightarrow> instant option \<Rightarrow> notice_delivery" where
  "new_delivery i n c queued =
    \<lparr>dl_id = i, dl_notice = n, dl_channel = c, dl_status = PENDING_DELIVERY, dl_error = [], dl_delivered_at = None,
     dl_attempts = 0, dl_next_retry_at = None, dl_queued_at = queued, dl_claimed_at = None\<rparr>"

definition deliver_on :: "notify_env \<Rightarrow> instant \<Rightarrow> bool \<Rightarrow> nat \<Rightarrow> string \<Rightarrow> channel \<Rightarrow> notifier \<Rightarrow> notifier" where
  \<comment> \<open>the body of the loop of \<open>notify\<close>\<close>
  "deliver_on env now digest n event c s =
    (let batched = (c = EMAIL \<and> (digest \<or> event \<in> set BATCHED_EMAIL_EVENTS));
         r = new_delivery (no_next s) n c (if batched then Some now else None);
         s1 = s\<lparr>no_deliveries := no_deliveries s @ [r], no_next := Suc (no_next s)\<rparr>
     in if batched then s1 else dispatch env now r s1)"

definition channels_to_dispatch :: "notify_env \<Rightarrow> instant \<Rightarrow> recipient \<Rightarrow> string \<Rightarrow> notifier \<Rightarrow> channel list" where
  "channels_to_dispatch env now u event s =
    (let cs = resolve_channels (rc_id u) event s in
     if is_in_quiet_hours env now u \<and> event \<in> set NON_CRITICAL_EVENTS
     then filter (\<lambda>c. c \<in> (if is_digest_mode u then {IN_APP, EMAIL} else {IN_APP})) cs
     else cs)"

datatype notified =
    Ignored
  | Notified nat
  | Too_long
    \<comment> \<open>\<open>DataError\<close>: the title is wider than its column\<close>

definition notify ::
  "notify_env \<Rightarrow> instant \<Rightarrow> nat option \<Rightarrow> string \<Rightarrow> string \<Rightarrow> string \<Rightarrow> pydict \<Rightarrow> notifier \<Rightarrow> notified \<times> notifier" where
  "notify env now user event title body data s =
    (case Option.bind user (\<lambda>k. get_recipient k s) of
       None \<Rightarrow> (Ignored, s)
     | Some u \<Rightarrow>
        if \<not> rc_active u \<or> event \<notin> set EVENT_TYPES then (Ignored, s)
        else if length title > 255 then (Too_long, s)
        else
          let n = no_next s;
              s1 = s\<lparr>no_notices := no_notices s @ [\<lparr>nc_id = n, nc_user = rc_id u, nc_event = event, nc_title = title,
                       nc_body = body, nc_data = data, nc_read_at = None\<rparr>], no_next := Suc n\<rparr>
          in (Notified n,
              fold (deliver_on env now (is_digest_mode u) n event) (channels_to_dispatch env now u event s1) s1))"

definition due_retries :: "instant \<Rightarrow> notifier \<Rightarrow> notice_delivery list" where
  "due_retries now s =
    take RETRY_BATCH_LIMIT (sort_key (\<lambda>r. the (dl_next_retry_at r))
      (filter (\<lambda>r. dl_status r = PENDING_DELIVERY \<and> (case dl_next_retry_at r of Some t \<Rightarrow> t \<le> now | None \<Rightarrow> False) \<and>
          dl_attempts r < MAX_RETRY_ATTEMPTS) (no_deliveries s)))"

definition retry_failed_deliveries :: "notify_env \<Rightarrow> instant \<Rightarrow> notifier \<Rightarrow> nat \<times> notifier" where
  "retry_failed_deliveries env now s =
    (length (due_retries now s), fold (dispatch env now) (due_retries now s) s)"

end
