(* ===== verification/Notification_Digests.thy ===== *)
theory Notification_Digests
  imports Notifications Requests
begin

text \<open>
  The digests of \<open>apps/notifications/engine.py\<close> and what users do to their notifications
  (\<open>views.py\<close>, \<open>unsubscribe.py\<close>). A sweep retires what is spent, chooses the groups that are due, and for each of
  them lists, claims, loads, mails and settles; every one of those steps is a definition, so that the theories
  about them can stop a worker after any of them or let two sweeps overlap.
\<close>

section \<open>The queue\<close>

definition owner :: "notifier \<Rightarrow> notice_delivery \<Rightarrow> recipient option" where
  \<comment> \<open>\<open>notification__user\<close>\<close>
  "owner s r = Option.bind (get_notice (dl_notice r) s) (\<lambda>n. get_recipient (nc_user n) s)"

definition event_of :: "notifier \<Rightarrow> notice_delivery \<Rightarrow> string" where
  "event_of s r = (case get_notice (dl_notice r) s of Some n \<Rightarrow> nc_event n | None \<Rightarrow> [])"

definition queued_mail :: "notice_delivery \<Rightarrow> bool" where
  "queued_mail r \<longleftrightarrow> dl_channel r = EMAIL \<and> dl_status r = PENDING_DELIVERY \<and> dl_queued_at r \<noteq> None"

definition batchable :: "notifier \<Rightarrow> notice_delivery \<Rightarrow> bool" where
  \<comment> \<open>\<open>_batchable_deliveries()\<close>\<close>
  "batchable s r \<longleftrightarrow> queued_mail r \<and> dl_attempts r < MAX_RETRY_ATTEMPTS \<and>
    (case owner s r of Some u \<Rightarrow> rc_active u | None \<Rightarrow> False)"

definition unclaimed :: "instant \<Rightarrow> notice_delivery \<Rightarrow> bool" where
  "unclaimed now r \<longleftrightarrow> (case dl_claimed_at r of None \<Rightarrow> True | Some t \<Rightarrow> t < now - BATCH_CLAIM_TIMEOUT)"

definition reap_exhausted_batches :: "notifier \<Rightarrow> notifier" where
  "reap_exhausted_batches =
    update_deliveries (\<lambda>r. queued_mail r \<and> MAX_RETRY_ATTEMPTS \<le> dl_attempts r)
      (\<lambda>r. r\<lparr>dl_status := FAILED_DELIVERY, dl_claimed_at := None,
             dl_error := ''Gave up after repeated digest delivery failures.''\<rparr>)"

definition reap_deactivated_recipients :: "notifier \<Rightarrow> notifier" where
  "reap_deactivated_recipients s =
    update_deliveries (\<lambda>r. queued_mail r \<and> (case owner s r of Some u \<Rightarrow> \<not> rc_active u | None \<Rightarrow> False))
      (\<lambda>r. r\<lparr>dl_status := FAILED_DELIVERY, dl_claimed_at := None,
         dl_error := ''Cancelled: the recipient's account was deactivated before the digest was sent.''\<rparr>) s"

section \<open>Groups that are due\<close>

definition oldest :: "notice_delivery list \<Rightarrow> instant" where
  \<comment> \<open>\<open>Min("batch_queued_at")\<close>\<close>
  "oldest rs = Min (set (map (\<lambda>r. the (dl_queued_at r)) rs))"

definition waiting_rows :: "instant \<Rightarrow> (recipient \<Rightarrow> bool) \<Rightarrow> notifier \<Rightarrow> notice_delivery list" where
  "waiting_rows now P s =
    filter (\<lambda>r. batchable s r \<and> unclaimed now r \<and> (case owner s r of Some u \<Rightarrow> P u | None \<Rightarrow> False)) (no_deliveries s)"

definition owner_id :: "notifier \<Rightarrow> notice_delivery \<Rightarrow> nat" where
  "owner_id s r = (case owner s r of Some u \<Rightarrow> rc_id u | None \<Rightarrow> 0)"

definition oldest_first :: "('k \<Rightarrow> notice_delivery list) \<Rightarrow> 'k list \<Rightarrow> 'k list" where
  \<comment> \<open>\<open>order_by("oldest")[:BATCH_GROUP_LIMIT]\<close>\<close>
  "oldest_first rows ks = take BATCH_GROUP_LIMIT (sort_key (\<lambda>k. oldest (rows k)) ks)"

definition rolling_group :: "instant \<Rightarrow> notifier \<Rightarrow> nat \<times> string \<Rightarrow> notice_delivery list" where
  "rolling_group now s k =
    filter (\<lambda>r. (owner_id s r, event_of s r) = k) (waiting_rows now (\<lambda>u. \<not> is_digest_mode u) s)"

definition rolling_due :: "instant \<Rightarrow> notifier \<Rightarrow> (nat \<times> string) list" where
  \<comment> \<open>the groups of \<open>send_batched_email_digests\<close>\<close>
  "rolling_due now s =
    oldest_first (rolling_group now s)
      (filter (\<lambda>k. oldest (rolling_group now s k) \<le> now - seconds (60 * BATCH_WINDOW_MINUTES) \<or>
            BATCH_SIZE_TRIGGER \<le> length (rolling_group now s k))
         (remdups (map (\<lambda>r. (owner_id s r, event_of s r)) (waiting_rows now (\<lambda>u. \<not> is_digest_mode u) s))))"

definition last_daily_send_boundary :: "notify_env \<Rightarrow> instant \<Rightarrow> string \<Rightarrow> instant" where
  "last_daily_send_boundary env now name =
    (let z = resolve_timezone env name
     in z_at z (if z_time z now < clock DAILY_DIGEST_HOUR 0 then z_date z now - 1 else z_date z now) (clock DAILY_DIGEST_HOUR 0))"

definition daily_group :: "instant \<Rightarrow> notifier \<Rightarrow> nat \<Rightarrow> notice_delivery list" where
  "daily_group now s u = filter (\<lambda>r. owner_id s r = u) (waiting_rows now is_digest_mode s)"

definition user_zone :: "notifier \<Rightarrow> nat \<Rightarrow> string" where
  "user_zone s u = (case Option.bind (get_recipient u s) rc_quiet of Some q \<Rightarrow> qh_timezone q | None \<Rightarrow> [])"

definition due_daily_digest_users :: "notify_env \<Rightarrow> instant \<Rightarrow> notifier \<Rightarrow> nat list" where
  "due_daily_digest_users env now s =
    oldest_first (daily_group now s)
      (filter (\<lambda>u. oldest (daily_group now s u) \<le> last_daily_send_boundary env now (user_zone s u))
         (remdups (map (owner_id s) (waiting_rows now is_digest_mode s))))"

section \<open>One digest\<close>

definition digest_heading :: "string option \<Rightarrow> nat \<Rightarrow> string option" where
  \<comment> \<open>\<open>None\<close> for the \<open>KeyError\<close> of an event without a heading\<close>
  "digest_heading event n =
    (case event of
       None \<Rightarrow> Some (''Your daily digest: '' @ nat_text n @ (if n = 1 then '' notification'' else '' notifications''))
     | Some e \<Rightarrow> map_option (\<lambda>(one, many). nat_text n @ (if n = 1 then one else many)) (map_of BATCH_HEADINGS e))"

definition wanted_rows :: "instant \<Rightarrow> nat \<Rightarrow> string option \<Rightarrow> notifier \<Rightarrow> nat list" where
  "wanted_rows now u event s =
    map dl_id (filter (\<lambda>r. batchable s r \<and> unclaimed now r \<and> (case owner s r of Some x \<Rightarrow> rc_id x = u | None \<Rightarrow> False) \<and>
        (event = None \<or> event = Some (event_of s r))) (no_deliveries s))"

definition claim_rows :: "instant \<Rightarrow> nat list \<Rightarrow> notifier \<Rightarrow> notifier" where
  "claim_rows now ids =
    update_deliveries (\<lambda>r. dl_id r \<in> set ids \<and> unclaimed now r)
      (\<lambda>r. r\<lparr>dl_claimed_at := Some now, dl_attempts := Suc (dl_attempts r)\<rparr>)"

definition claimed_rows :: "instant \<Rightarrow> nat list \<Rightarrow> notifier \<Rightarrow> notice_delivery list" where
  \<comment> \<open>\<open>filter(pk__in=wanted, batch_claimed_at=now)\<close>\<close>
  "claimed_rows now ids s = filter (\<lambda>r. dl_id r \<in> set ids \<and> dl_claimed_at r = Some now) (no_deliveries s)"

definition keeping :: "nat \<Rightarrow> notice_delivery list \<Rightarrow> notifier \<Rightarrow> notice_delivery list" where
  "keeping u rows s = filter (\<lambda>r. EMAIL \<in> set (resolve_channels u (event_of s r) s)) rows"

definition cancel_rows :: "nat list \<Rightarrow> notifier \<Rightarrow> notifier" where
  "cancel_rows ids =
    update_deliveries (\<lambda>r. dl_id r \<in> set ids)
      (\<lambda>r. r\<lparr>dl_status := FAILED_DELIVERY, dl_claimed_at := None,
         dl_error := ''Cancelled: the recipient turned this email off before it was sent.''\<rparr>)"

definition send_digest_email ::
  "notify_env \<Rightarrow> instant \<Rightarrow> recipient \<Rightarrow> string option \<Rightarrow> notice_delivery list \<Rightarrow> notifier \<Rightarrow> outcome \<times> notifier" where
  "send_digest_email env now u event rows s =
    (case digest_heading event (length rows) of
       None \<Rightarrow> (Raised ([CHR 39] @ (case event of Some e \<Rightarrow> e | None \<Rightarrow> []) @ [CHR 39]), s)
     | Some subject \<Rightarrow> mail_out env now (map dl_id rows) subject (rc_email u) s)"

definition settle_digest :: "instant \<Rightarrow> nat list \<Rightarrow> outcome \<Rightarrow> notifier \<Rightarrow> notifier" where
  "settle_digest now ids out s =
    (case out of
       Went \<Rightarrow> update_deliveries (\<lambda>r. dl_id r \<in> set ids) (\<lambda>r. r\<lparr>dl_status := DELIVERED, dl_delivered_at := Some now\<rparr>) s
     | Declined \<Rightarrow> update_deliveries (\<lambda>r. dl_id r \<in> set ids)
         (\<lambda>r. r\<lparr>dl_status := FAILED_DELIVERY, dl_claimed_at := None, dl_error := take 500 NOT_SENT_TEXT\<rparr>) s
     | Raised e \<Rightarrow> reap_exhausted_batches (update_deliveries (\<lambda>r. dl_id r \<in> set ids)
         (\<lambda>r. r\<lparr>dl_claimed_at := None, dl_error := take 500 e\<rparr>) s))"

definition claim_digest :: "instant \<Rightarrow> nat list \<Rightarrow> notifier \<Rightarrow> notice_delivery list \<times> notifier" where
  "claim_digest now ids s = (let s1 = claim_rows now ids s in (claimed_rows now ids s1, s1))"

definition mail_digest ::
  "notify_env \<Rightarrow> instant \<Rightarrow> string option \<Rightarrow> notice_delivery list \<Rightarrow> notifier \<Rightarrow> (nat list \<times> outcome) option \<times> notifier" where
  \<comment> \<open>cancel and mail, for the rows claimed; \<open>None\<close> where nothing is left to mail\<close>
  "mail_digest env now event rows s =
    (case Option.bind (if rows = [] then None else Some (hd rows)) (owner s) of
       None \<Rightarrow> (None, s)
     | Some u \<Rightarrow>
        (let kept = keeping (rc_id u) rows s;
             s1 = cancel_rows (map dl_id (filter (\<lambda>r. dl_id r \<notin> set (map dl_id kept)) rows)) s
         in if kept = [] then (None, s1)
            else (let (out, s2) = send_digest_email env now u event kept s1 in (Some (map dl_id kept, out), s2))))"

definition send_one_digest :: "notify_env \<Rightarrow> instant \<Rightarrow> nat \<times> string option \<Rightarrow> notifier \<Rightarrow> bool \<times> notifier" where
  "send_one_digest env now k s =
    (case k of (u, event) \<Rightarrow>
      (let ids = wanted_rows now u event s in
       if ids = [] then (False, s)
       else
         let (rows, s1) = claim_digest now ids s; (res, s2) = mail_digest env now event rows s1
         in (case res of
               None \<Rightarrow> (False, s2)
             | Some (kept, out) \<Rightarrow> (out = Went, settle_digest now kept out s2))))"

definition due_digests :: "notify_env \<Rightarrow> instant \<Rightarrow> notifier \<Rightarrow> (nat \<times> string option) list" where
  "due_digests env now s =
    map (\<lambda>(u, e). (u, Some e)) (rolling_due now s) @ map (\<lambda>u. (u, None)) (due_daily_digest_users env now s)"

definition reap :: "notifier \<Rightarrow> notifier" where
  "reap s = reap_deactivated_recipients (reap_exhausted_batches s)"

definition send_groups :: "notify_env \<Rightarrow> instant \<Rightarrow> (nat \<times> string option) list \<Rightarrow> nat \<times> notifier \<Rightarrow> nat \<times> notifier" where
  "send_groups env now ks acc =
    fold (\<lambda>k (n, s). let (ok, s1) = send_one_digest env now k s in (if ok then Suc n else n, s1)) ks acc"

definition send_batched_email_digests :: "notify_env \<Rightarrow> instant \<Rightarrow> notifier \<Rightarrow> nat \<times> notifier" where
  "send_batched_email_digests env now s =
    (let s1 = reap s in send_groups env now (due_digests env now s1) (0, s1))"

section \<open>What users do\<close>

definition set_preference :: "nat \<Rightarrow> string \<Rightarrow> channel \<Rightarrow> bool \<Rightarrow> notifier \<Rightarrow> notifier" where
  \<comment> \<open>\<open>update_or_create(user=..., event_type=..., channel=..., defaults={"is_enabled": on})\<close>\<close>
  "set_preference u event c on s = s\<lparr>no_prefs := AList.update (u, event, c) on (no_prefs s)\<rparr>"

definition ALL_EVENTS :: string where
  "ALL_EVENTS = ''__all__''"

definition decode_token :: "(string \<Rightarrow> json option) \<Rightarrow> string \<Rightarrow> (json \<times> string) option" where
  \<comment> \<open>\<open>_decode\<close>; the parameter is \<open>signing.loads\<close>, \<open>None\<close> where it raises \<open>BadSignature\<close>\<close>
  "decode_token loads token =
    (case loads token of
       Some (JObj d) \<Rightarrow>
        (case (dict_get ''u'' d, dict_get ''e'' d) of
           (u, JStr e) \<Rightarrow> if json_truthy u \<and> (e \<in> set EVENT_TYPES \<or> e = ALL_EVENTS) then Some (u, e) else None
         | _ \<Rightarrow> None)
     | _ \<Rightarrow> None)"

datatype unsubscribe_answer = Invalid_link | Confirm_page | Unsubscribed_page | Server_error

definition unsubscribe ::
  "(string \<Rightarrow> json option) \<Rightarrow> bool \<Rightarrow> string \<Rightarrow> notifier \<Rightarrow> unsubscribe_answer \<times> notifier" where
  \<comment> \<open>the second argument says whether the request is a POST; the tokens made here name a user by the text of
    its key, and the key of a user that is gone breaks the foreign key before the first row is written\<close>
  "unsubscribe loads is_post token s =
    (case decode_token loads token of
       None \<Rightarrow> (Invalid_link, s)
     | Some (u, event) \<Rightarrow>
        if \<not> is_post then (Confirm_page, s)
        else case (case u of JStr t \<Rightarrow> parse_uuid t | _ \<Rightarrow> None) of
          None \<Rightarrow> (Server_error, s)
        | Some k \<Rightarrow>
           if get_recipient k s = None then (Invalid_link, s)
           else (Unsubscribed_page,
                 fold (\<lambda>e. set_preference k e EMAIL False) (if event = ALL_EVENTS then EVENT_TYPES else [event]) s))"

definition mark_as_read :: "instant \<Rightarrow> nat \<Rightarrow> nat \<Rightarrow> notifier \<Rightarrow> notifier" where
  "mark_as_read now u i s =
    s\<lparr>no_notices := tbl_update (\<lambda>n. nc_id n = i \<and> nc_user n = u \<and> nc_read_at n = None) (\<lambda>n. n\<lparr>nc_read_at := Some now\<rparr>) (no_notices s)\<rparr>"

definition mark_all_read :: "instant \<Rightarrow> nat \<Rightarrow> notifier \<Rightarrow> notifier" where
  "mark_all_read now u s =
    s\<lparr>no_notices := tbl_update (\<lambda>n. nc_user n = u \<and> nc_read_at n = None) (\<lambda>n. n\<lparr>nc_read_at := Some now\<rparr>) (no_notices s)\<rparr>"

definition unread_count :: "nat \<Rightarrow> notifier \<Rightarrow> nat" where
  "unread_count u s = length (filter (\<lambda>n. nc_user n = u \<and> nc_read_at n = None) (no_notices s))"

definition channel_value :: "channel \<Rightarrow> string" where
  "channel_value c = (case c of IN_APP \<Rightarrow> ''in_app'' | EMAIL \<Rightarrow> ''email'' | WEBHOOK \<Rightarrow> ''webhook'')"

definition no_quiet_hours :: quiet_hours where
  \<comment> \<open>the defaults of the model\<close>
  "no_quiet_hours = \<lparr>qh_enabled = False, qh_start = None, qh_end = None, qh_timezone = ''UTC'', qh_digest = False\<rparr>"

definition set_quiet :: "nat \<Rightarrow> quiet_hours \<Rightarrow> notifier \<Rightarrow> notifier" where
  "set_quiet u q s = s\<lparr>no_users := tbl_update (\<lambda>x. rc_id x = u) (\<lambda>x. x\<lparr>rc_quiet := Some q\<rparr>) (no_users s)\<rparr>"

definition form_time :: "string \<Rightarrow> clock_value option \<Rightarrow> clock_value option option" where
  \<comment> \<open>an empty field keeps the time, \<open>None\<close> where \<open>time(int(...), int(...))\<close> raises\<close>
  "form_time t old = (if t = [] then Some old else map_option (\<lambda>x. Some (Clock x)) (time_of_text t))"

definition save_toggles :: "request \<Rightarrow> nat \<Rightarrow> notifier \<Rightarrow> notifier" where
  "save_toggles rq u =
    fold (\<lambda>(e, c). set_preference u e c (post_has (''pref_'' @ e @ ''_'' @ channel_value c) rq))
      (concat (map (\<lambda>e. map (Pair e) [IN_APP, EMAIL, WEBHOOK]) EVENT_TYPES))"

definition save_preferences :: "request \<Rightarrow> recipient \<Rightarrow> notifier \<Rightarrow> bool \<times> notifier" where
  \<comment> \<open>\<open>_save_preferences\<close>; False where it answers 500, the toggles saved and the row of quiet hours created\<close>
  "save_preferences rq u s =
    (let s1 = save_toggles rq (rc_id u) s;
         q = (case Option.bind (get_recipient (rc_id u) s) rc_quiet of Some q \<Rightarrow> q | None \<Rightarrow> no_quiet_hours);
         s2 = set_quiet (rc_id u) q s1;
         name = py_strip (post_get ''quiet_hours_timezone'' ''UTC'' rq)
     in case (form_time (post_text ''quiet_hours_start'' rq) (qh_start q), form_time (post_text ''quiet_hours_end'' rq) (qh_end q)) of
          (Some a, Some b) \<Rightarrow>
            if length name > 50 then (False, s2)
            else (True, set_quiet (rc_id u) \<lparr>qh_enabled = post_has ''quiet_hours_enabled'' rq, qh_start = a, qh_end = b,
                qh_timezone = name, qh_digest = post_has ''digest_mode'' rq\<rparr> s1)
        | _ \<Rightarrow> (False, s2))"

end
