(* ===== verification/Notification_Runs.thy ===== *)
theory Notification_Runs
  imports Notification_Digests
begin

text \<open>
  Runs of the notification engine: notifications, retries and digests with workers that may die in any of them,
  between anything the rest of the site does to users, preferences and the mail budget. What every run keeps: a
  delivery is offered to the mail back end no more often than its attempts were charged, and never more than
  three times.
\<close>

section \<open>Dying workers\<close>

definition die_in_dispatch :: "bool \<Rightarrow> notify_env \<Rightarrow> instant \<Rightarrow> notice_delivery \<Rightarrow> notifier \<Rightarrow> notifier" where
  \<comment> \<open>the attempt is charged; with the flag it was made as well, but nothing records it\<close>
  "die_in_dispatch made env now r s =
    (let s1 = begin_dispatch r s in if made then snd (attempt_delivery env now r s1) else s1)"

definition die_in_notify ::
  "nat \<Rightarrow> bool \<Rightarrow> notify_env \<Rightarrow> instant \<Rightarrow> recipient \<Rightarrow> string \<Rightarrow> string \<Rightarrow> string \<Rightarrow> pydict \<Rightarrow> notifier \<Rightarrow> notifier" where
  \<comment> \<open>in the dispatch on the channel after the first \<open>j\<close>\<close>
  "die_in_notify j made env now u event title body data s =
    (let n = no_next s;
         s1 = s\<lparr>no_notices := no_notices s @ [\<lparr>nc_id = n, nc_user = rc_id u, nc_event = event, nc_title = title,
                  nc_body = body, nc_data = data, nc_read_at = None\<rparr>], no_next := Suc n\<rparr>;
         cs = channels_to_dispatch env now u event s1;
         s2 = fold (deliver_on env now (is_digest_mode u) n event) (take j cs) s1
     in if j < length cs
        then let r = new_delivery (no_next s2) n (cs ! j) None
             in die_in_dispatch made env now r
                  (s2\<lparr>no_deliveries := no_deliveries s2 @ [r], no_next := Suc (no_next s2)\<rparr>)
        else s2)"

definition die_in_retry :: "nat \<Rightarrow> bool \<Rightarrow> notify_env \<Rightarrow> instant \<Rightarrow> notifier \<Rightarrow> notifier" where
  "die_in_retry j made env now s =
    (let rs = due_retries now s; s1 = fold (dispatch env now) (take j rs) s
     in if j < length rs then die_in_dispatch made env now (rs ! j) s1 else s1)"

definition die_in_digest :: "bool \<Rightarrow> notify_env \<Rightarrow> instant \<Rightarrow> nat \<times> string option \<Rightarrow> notifier \<Rightarrow> notifier" where
  \<comment> \<open>after the claim or, with the flag, after the mail\<close>
  "die_in_digest made env now k s =
    (let (rows, s1) = claim_digest now (wanted_rows now (fst k) (snd k) s) s
     in if made then snd (mail_digest env now (snd k) rows s1) else s1)"

definition die_in_sweep :: "nat \<Rightarrow> bool \<Rightarrow> notify_env \<Rightarrow> instant \<Rightarrow> notifier \<Rightarrow> notifier" where
  "die_in_sweep j made env now s =
    (let s1 = reap s; ks = due_digests env now s1; s2 = snd (send_groups env now (take j ks) (0, s1))
     in if j < length ks then die_in_digest made env now (ks ! j) s2 else s2)"

definition site_change :: "recipient list \<Rightarrow> ((nat \<times> string \<times> channel) \<times> bool) list \<Rightarrow> mailbox \<Rightarrow> notifier \<Rightarrow> notifier" where
  \<comment> \<open>users come, change and go, with the cascades; preferences are set; other mail is sent\<close>
  "site_change us ps mx s =
    (let ns = filter (\<lambda>n. nc_user n \<in> set (map rc_id us)) (no_notices s)
     in s\<lparr>no_users := us, no_prefs := ps, no_mail := mx, no_notices := ns,
          no_deliveries := filter (\<lambda>r. dl_notice r \<in> set (map nc_id ns)) (no_deliveries s)\<rparr>)"

datatype note_event =
    Notifies notify_env instant "nat option" string string string pydict
  | Notify_dies nat bool notify_env instant recipient string string string pydict
  | Retries notify_env instant
  | Retry_dies nat bool notify_env instant
  | Sweeps notify_env instant
  | Sweep_dies nat bool notify_env instant
  | Reads instant nat
  | Site_changes "recipient list" "((nat \<times> string \<times> channel) \<times> bool) list" mailbox

fun note_step :: "notifier \<Rightarrow> note_event \<Rightarrow> notifier" where
  "note_step s (Notifies env now u event title body data) = snd (notify env now u event title body data s)"
| "note_step s (Notify_dies j made env now u event title body data) = die_in_notify j made env now u event title body data s"
| "note_step s (Retries env now) = snd (retry_failed_deliveries env now s)"
| "note_step s (Retry_dies j made env now) = die_in_retry j made env now s"
| "note_step s (Sweeps env now) = snd (send_batched_email_digests env now s)"
| "note_step s (Sweep_dies j made env now) = die_in_sweep j made env now s"
| "note_step s (Reads now u) = mark_all_read now u s"
| "note_step s (Site_changes us ps mx) = site_change us ps mx s"

definition new_notifier :: "recipient list \<Rightarrow> mailbox \<Rightarrow> notifier" where
  "new_notifier us mx =
    \<lparr>no_users = us, no_prefs = [], no_notices = [], no_deliveries = [], no_next = 0, no_mail = mx, no_log = []\<rparr>"

section \<open>What is charged\<close>

definition mails_of :: "nat \<Rightarrow> notifier \<Rightarrow> nat" where
  "mails_of i s = count_list (concat (map snd (no_log s))) i"

definition tally :: "notifier \<Rightarrow> (nat \<times> nat) list" where
  "tally s = map (\<lambda>r. (dl_id r, dl_attempts r)) (no_deliveries s)"

definition charged :: "nat set \<Rightarrow> notifier \<Rightarrow> bool" where
  \<comment> \<open>the deliveries of the set have an attempt charged and not yet used\<close>
  "charged A s \<longleftrightarrow> distinct (map fst (tally s)) \<and>
    (\<forall>(i, n) \<in> set (tally s). i < no_next s \<and> mails_of i s + (if i \<in> A then 1 else 0) \<le> n \<and> n \<le> MAX_RETRY_ATTEMPTS) \<and>
    (\<forall>i. mails_of i s + (if i \<in> A then 1 else 0) \<le> MAX_RETRY_ATTEMPTS) \<and>
    (\<forall>i. 0 < mails_of i s \<or> i \<in> A \<longrightarrow> i < no_next s)"

lemma map_fst_tally: "map fst (tally s) = map dl_id (no_deliveries s)"
  by (simp add: tally_def comp_def)

lemma charged_row:
  assumes "charged A s" and "(i, n) \<in> set (tally s)"
  shows "i < no_next s" "mails_of i s + (if i \<in> A then 1 else 0) \<le> n" "n \<le> MAX_RETRY_ATTEMPTS"
  using assms unfolding charged_def by blast+

lemma charged_all:
  assumes "charged A s"
  shows "mails_of i s + (if i \<in> A then 1 else 0) \<le> MAX_RETRY_ATTEMPTS" "0 < mails_of i s \<or> i \<in> A \<Longrightarrow> i < no_next s"
    "distinct (map fst (tally s))"
  using assms unfolding charged_def by blast+

lemma charged_weaken:
  assumes c: "charged A s" and sub: "B \<subseteq> A"
  shows "charged B s"
proof -
  have le: "mails_of i s + (if i \<in> B then 1 else 0) \<le> mails_of i s + (if i \<in> A then 1 else 0)" for i using sub by auto
  have "i < no_next s \<and> mails_of i s + (if i \<in> B then 1 else 0) \<le> n \<and> n \<le> MAX_RETRY_ATTEMPTS"
    if "(i, n) \<in> set (tally s)" for i n
    using charged_row [OF c that] le [of i] by linarith
  moreover have "mails_of i s + (if i \<in> B then 1 else 0) \<le> MAX_RETRY_ATTEMPTS" for i
    using charged_all(1) [OF c, of i] le [of i] by linarith
  moreover have "0 < mails_of i s \<or> i \<in> B \<longrightarrow> i < no_next s" for i using charged_all(2) [OF c, of i] sub by blast
  ultimately show ?thesis using charged_all(3) [OF c] unfolding charged_def by blast
qed

lemma charged_frame:
  assumes "charged A s" and "no_log s' = no_log s" and "no_next s' = no_next s" and "tally s' = tally s"
  shows "charged A s'"
proof -
  have "mails_of i s' = mails_of i s" for i by (simp add: mails_of_def assms(2))
  then show ?thesis using assms(1) unfolding charged_def assms(3,4) by simp
qed

lemma tally_update:
  "(\<And>r. dl_id (f r) = dl_id r \<and> dl_attempts (f r) = dl_attempts r) \<Longrightarrow> tally (update_deliveries P f s) = tally s"
  by (simp add: tally_def update_deliveries_def tbl_update_def)

lemma charged_update:
  assumes "charged A s" and "\<And>r. dl_id (f r) = dl_id r \<and> dl_attempts (f r) = dl_attempts r"
  shows "charged A (update_deliveries P f s)"
  by (rule charged_frame [OF assms(1)]) (simp_all add: tally_update [OF assms(2)], simp_all add: update_deliveries_def)

lemma update_delivery_eq: "update_delivery i f = update_deliveries (\<lambda>r. dl_id r = i) f"
  by (simp add: update_delivery_def update_deliveries_def fun_eq_iff)

lemma charge:
  assumes "charged A s" and "\<And>r. r \<in> set (no_deliveries s) \<Longrightarrow> P r \<Longrightarrow> dl_attempts r < MAX_RETRY_ATTEMPTS \<and> dl_id r \<notin> A"
    and "\<And>r. r \<in> set (no_deliveries s) \<Longrightarrow> P r \<Longrightarrow> dl_id (f r) = dl_id r \<and> dl_attempts (f r) = Suc (dl_attempts r)"
  shows "charged (A \<union> {dl_id r | r. r \<in> set (no_deliveries s) \<and> P r}) (update_deliveries P f s)"
proof -
  let ?s = "update_deliveries P f s" and ?C = "{dl_id r | r. r \<in> set (no_deliveries s) \<and> P r}"
  have m: "mails_of i ?s = mails_of i s" and n: "no_next ?s = no_next s" for i by (simp_all add: mails_of_def update_deliveries_def)
  have ids: "map fst (tally ?s) = map fst (tally s)"
    using assms(3) by (auto simp: map_fst_tally update_deliveries_def tbl_update_def)
  have d: "distinct (map dl_id (no_deliveries s))" using assms(1) by (simp add: charged_def map_fst_tally)
  have row: "i < no_next s \<and> mails_of i s + (if i \<in> A \<union> ?C then 1 else 0) \<le> n \<and> n \<le> MAX_RETRY_ATTEMPTS"
    if t: "(i, n) \<in> set (tally ?s)" for i n
  proof -
    obtain r where r: "r \<in> set (no_deliveries s)" "(i, n) = (let x = if P r then f r else r in (dl_id x, dl_attempts x))"
      using t by (auto simp: tally_def update_deliveries_def tbl_update_def Let_def)
    have "(dl_id r, dl_attempts r) \<in> set (tally s)" using r(1) by (simp add: tally_def)
    then have c: "dl_id r < no_next s" "mails_of (dl_id r) s + (if dl_id r \<in> A then 1 else 0) \<le> dl_attempts r" "dl_attempts r \<le> MAX_RETRY_ATTEMPTS"
      using assms(1) unfolding charged_def by auto
    show ?thesis
    proof (cases "P r")
      case True
      then show ?thesis using r c assms(2,3) [OF r(1) True] by (auto simp: Let_def)
    next
      case False
      have "dl_id r \<notin> ?C" using False r(1) d distinct_key_eq [OF d] by blast
      then show ?thesis using False r(2) c by (auto simp: Let_def)
    qed
  qed
  have all: "mails_of i s + (if i \<in> A \<union> ?C then 1 else 0) \<le> MAX_RETRY_ATTEMPTS \<and> (0 < mails_of i s \<or> i \<in> A \<union> ?C \<longrightarrow> i < no_next s)" for i
  proof (cases "i \<in> ?C")
    case True
    then obtain r where r: "r \<in> set (no_deliveries s)" "P r" "i = dl_id r" by auto
    have "(dl_id r, dl_attempts r) \<in> set (tally s)" using r(1) by (simp add: tally_def)
    then have "dl_id r < no_next s" "mails_of (dl_id r) s \<le> dl_attempts r"
      using assms(1) unfolding charged_def by fastforce+
    then show ?thesis using assms(2) [OF r(1,2)] r(3) by auto
  next
    case False
    have "mails_of i s + (if i \<in> A then 1 else 0) \<le> MAX_RETRY_ATTEMPTS" "0 < mails_of i s \<or> i \<in> A \<longrightarrow> i < no_next s"
      using assms(1) unfolding charged_def by blast+
    then show ?thesis using False by auto
  qed
  show ?thesis unfolding charged_def m n ids
    using assms(1) row all by (auto simp: charged_def)
qed

lemma charged_mail_out:
  assumes "charged A s" and "distinct ids" and "set ids \<subseteq> A"
  shows "charged (A - set ids) (snd (mail_out env now ids subject address s))"
proof -
  let ?s = "snd (mail_out env now ids subject address s)"
  have s: "no_deliveries ?s = no_deliveries s" "no_next ?s = no_next s" "no_log ?s = no_log s @ [(address, ids)]"
    by (simp_all add: mail_out_def split: prod.split)
  have m: "mails_of i ?s + (if i \<in> A - set ids then 1 else 0) = mails_of i s + (if i \<in> A then 1 else 0)" for i
    using assms(2,3) by (auto simp: mails_of_def s(3) count_list_distinct)
  have t: "tally ?s = tally s" by (simp add: tally_def s(1))
  have f: "0 < mails_of i ?s \<or> i \<in> A - set ids \<longleftrightarrow> 0 < mails_of i s \<or> i \<in> A" for i
    using m [of i] by (auto split: if_splits)
  show ?thesis using assms(1) unfolding charged_def t s(2) m f by blast
qed

lemma charged_append:
  assumes "charged A s" and "dl_id r = no_next s" and "dl_attempts r = 0"
  shows "charged A (s\<lparr>no_deliveries := no_deliveries s @ [r], no_next := Suc (no_next s)\<rparr>)"
proof -
  let ?s = "s\<lparr>no_deliveries := no_deliveries s @ [r], no_next := Suc (no_next s)\<rparr>"
  have m: "mails_of i ?s = mails_of i s" for i by (simp add: mails_of_def)
  have t: "tally ?s = tally s @ [(no_next s, 0)]" using assms(2,3) by (simp add: tally_def)
  have new: "mails_of (no_next s) s = 0" "no_next s \<notin> A" using charged_all(2) [OF assms(1), of "no_next s"] by (metis less_irrefl not_gr_zero)+
  have "no_next s \<notin> fst ` set (tally s)" using assms(1) unfolding charged_def by fastforce
  then have "distinct (map fst (tally ?s))" using assms(1) unfolding charged_def t by simp
  moreover have "\<forall>(i, n) \<in> set (tally ?s). i < Suc (no_next s) \<and> mails_of i s + (if i \<in> A then 1 else 0) \<le> n \<and> n \<le> MAX_RETRY_ATTEMPTS"
    using assms(1) new unfolding charged_def t by (auto simp: less_Suc_eq)
  moreover have "\<forall>i. 0 < mails_of i s \<or> i \<in> A \<longrightarrow> i < Suc (no_next s)" using assms(1) unfolding charged_def by (meson less_SucI)
  ultimately show ?thesis using assms(1) unfolding charged_def m by simp
qed

lemma charged_notice:
  "charged A s \<Longrightarrow> charged A (s\<lparr>no_notices := ns, no_next := Suc (no_next s)\<rparr>)"
  unfolding charged_def tally_def mails_of_def by (auto intro: less_SucI)

lemma charged_site_change:
  assumes "charged A s" shows "charged A (site_change us ps mx s)"
proof -
  let ?s = "site_change us ps mx s"
  have s: "no_log ?s = no_log s" "no_next ?s = no_next s" by (simp_all add: site_change_def Let_def)
  have "\<exists>P. no_deliveries ?s = filter P (no_deliveries s)" by (auto simp: site_change_def Let_def)
  then obtain P where P: "no_deliveries ?s = filter P (no_deliveries s)" by blast
  have m: "mails_of i ?s = mails_of i s" for i by (simp add: mails_of_def s)
  have sub: "set (tally ?s) \<subseteq> set (tally s)" by (auto simp: tally_def P)
  have "distinct (map fst (tally ?s))"
    using assms by (auto simp: charged_def map_fst_tally P distinct_map_filter)
  then show ?thesis using assms sub unfolding charged_def m s(2) by blast
qed

section \<open>Every operation keeps it\<close>

lemma charged_begin:
  assumes "charged A s" and "r \<in> set (no_deliveries s)" and "dl_attempts r < MAX_RETRY_ATTEMPTS" and "dl_id r \<notin> A"
  shows "charged (insert (dl_id r) A) (begin_dispatch r s)"
proof -
  have d: "distinct (map dl_id (no_deliveries s))" using charged_all(3) [OF assms(1)] by (simp add: map_fst_tally)
  have same: "x = r" if "x \<in> set (no_deliveries s)" "dl_id x = dl_id r" for x
    using distinct_key_eq [OF d that(1) assms(2) that(2)] .
  have "charged (A \<union> {dl_id x | x. x \<in> set (no_deliveries s) \<and> dl_id x = dl_id r}) (begin_dispatch r s)"
    unfolding begin_dispatch_def update_delivery_eq
    by (rule charge [OF assms(1)]) (use same assms(3,4) in auto)
  moreover have "{dl_id x | x. x \<in> set (no_deliveries s) \<and> dl_id x = dl_id r} = {dl_id r}" using assms(2) by auto
  ultimately show ?thesis by simp
qed

lemma charged_attempt:
  assumes "charged (insert (dl_id r) A) s" and "dl_id r \<notin> A" and "attempt_delivery env now r s = (out, s')"
  shows "charged A s'"
proof -
  have w: "charged A s" by (rule charged_weaken [OF assms(1)]) auto
  have m: "charged A (snd (mail_out env now [dl_id r] a b s))" for a b
    using charged_mail_out [OF assms(1), of "[dl_id r]"] assms(2) by simp
  show ?thesis using assms(3) w m
    by (auto simp: attempt_delivery_def split: option.splits channel.splits) (metis snd_conv)
qed

lemma charged_settle: "charged A s \<Longrightarrow> charged A (settle_dispatch now r out s)"
  by (auto simp: settle_dispatch_def update_delivery_eq Let_def split: outcome.split intro!: charged_update)

lemma charged_dispatch:
  assumes "charged A s" and "r \<in> set (no_deliveries s)" and "dl_attempts r < MAX_RETRY_ATTEMPTS" and "dl_id r \<notin> A"
  shows "charged A (dispatch env now r s)"
  using charged_attempt [OF charged_begin [OF assms] assms(4)]
  by (auto simp: dispatch_def charged_settle split: prod.split)

lemma charged_die_in_dispatch:
  assumes "charged A s" and "r \<in> set (no_deliveries s)" and "dl_attempts r < MAX_RETRY_ATTEMPTS" and "dl_id r \<notin> A"
  shows "charged A (die_in_dispatch made env now r s)"
proof -
  have b: "charged (insert (dl_id r) A) (begin_dispatch r s)" by (rule charged_begin [OF assms])
  have "charged A (snd (attempt_delivery env now r (begin_dispatch r s)))"
    using charged_attempt [OF b assms(4)] by (metis prod.collapse)
  moreover have "charged A (begin_dispatch r s)" by (rule charged_weaken [OF b]) auto
  ultimately show ?thesis by (simp add: die_in_dispatch_def Let_def)
qed

lemma charged_new_row:
  assumes "charged {} s"
  shows "charged {} (s\<lparr>no_deliveries := no_deliveries s @ [new_delivery (no_next s) n c q], no_next := Suc (no_next s)\<rparr>)"
  by (rule charged_append [OF assms]) (simp_all add: new_delivery_def)

lemma charged_deliver_on: "charged {} s \<Longrightarrow> charged {} (deliver_on env now digest n event c s)"
  using charged_dispatch [OF charged_new_row] charged_new_row
  by (auto simp: deliver_on_def Let_def new_delivery_def MAX_RETRY_ATTEMPTS_def)

lemma charged_deliver_all: "charged {} s \<Longrightarrow> charged {} (fold (deliver_on env now digest n event) cs s)"
  by (induction cs arbitrary: s) (auto simp: charged_deliver_on)

lemma charged_notify: "charged {} s \<Longrightarrow> charged {} (snd (notify env now user event title body data s))"
  by (auto simp: notify_def Let_def split: option.split intro!: charged_deliver_all charged_notice)

lemma charged_die_in_notify:
  assumes "charged {} s" shows "charged {} (die_in_notify j made env now u event title body data s)"
proof -
  have n: "charged {} (s\<lparr>no_notices := no_notices s @ [x], no_next := Suc (no_next s)\<rparr>)" for x
    by (rule charged_notice [OF assms])
  show ?thesis unfolding die_in_notify_def Let_def
    using charged_deliver_all [OF n] charged_die_in_dispatch [OF charged_new_row [OF charged_deliver_all [OF n]]]
    by (auto simp: new_delivery_def MAX_RETRY_ATTEMPTS_def)
qed

text \<open>A dispatch leaves the other rows as they are, so the rows of a retry sweep are current when their turn comes.\<close>

lemma rows_update_delivery: "no_deliveries (update_delivery i f s) = map (\<lambda>r. if dl_id r = i then f r else r) (no_deliveries s)"
  by (simp add: update_delivery_def tbl_update_def)

lemma rows_attempt: "no_deliveries (snd (attempt_delivery env now r s)) = no_deliveries s"
  by (auto simp: attempt_delivery_def mail_out_def split: option.split channel.split prod.split)

lemma dispatch_others:
  assumes "x \<in> set (no_deliveries s)" and "dl_id x \<noteq> dl_id r"
  shows "x \<in> set (no_deliveries (dispatch env now r s))"
proof -
  obtain out s1 where a: "attempt_delivery env now r (begin_dispatch r s) = (out, s1)" by fastforce
  have "no_deliveries s1 = no_deliveries (begin_dispatch r s)"
    using rows_attempt [of env now r "begin_dispatch r s"] by (simp add: a)
  then have "x \<in> set (no_deliveries s1)" using assms by (force simp: begin_dispatch_def rows_update_delivery)
  then show ?thesis using assms(2)
    by (auto simp: dispatch_def a settle_dispatch_def Let_def rows_update_delivery image_iff split: outcome.split)
qed

lemma charged_dispatch_all:
  assumes "charged {} s" and "set rs \<subseteq> set (no_deliveries s)" and "distinct (map dl_id rs)"
    and "\<And>r. r \<in> set rs \<Longrightarrow> dl_attempts r < MAX_RETRY_ATTEMPTS"
  shows "charged {} (fold (dispatch env now) rs s)"
    and "\<And>x. x \<in> set (no_deliveries s) \<Longrightarrow> dl_id x \<notin> dl_id ` set rs \<Longrightarrow> x \<in> set (no_deliveries (fold (dispatch env now) rs s))"
proof -
  have both: "charged {} (fold (dispatch env now) rs s) \<and>
      (\<forall>x \<in> set (no_deliveries s). dl_id x \<notin> dl_id ` set rs \<longrightarrow> x \<in> set (no_deliveries (fold (dispatch env now) rs s)))"
    using assms
  proof (induction rs arbitrary: s)
    case Nil
    then show ?case by simp
  next
    case (Cons r rs)
    have c: "charged {} (dispatch env now r s)" by (rule charged_dispatch) (use Cons.prems in auto)
    have sub: "set rs \<subseteq> set (no_deliveries (dispatch env now r s))"
    proof
      fix x assume x: "x \<in> set rs"
      then have "dl_id x \<noteq> dl_id r" using Cons.prems(3) by (metis distinct.simps(2) image_eqI list.simps(9) set_map)
      with x show "x \<in> set (no_deliveries (dispatch env now r s))" using Cons.prems(2) by (intro dispatch_others) auto
    qed
    have IH: "charged {} (fold (dispatch env now) rs (dispatch env now r s)) \<and>
      (\<forall>x \<in> set (no_deliveries (dispatch env now r s)). dl_id x \<notin> dl_id ` set rs \<longrightarrow>
        x \<in> set (no_deliveries (fold (dispatch env now) rs (dispatch env now r s))))"
      by (rule Cons.IH [OF c sub]) (use Cons.prems in auto)
    then show ?case using dispatch_others by auto
  qed
  then show "charged {} (fold (dispatch env now) rs s)" by blast
  from both show "\<And>x. x \<in> set (no_deliveries s) \<Longrightarrow> dl_id x \<notin> dl_id ` set rs \<Longrightarrow> x \<in> set (no_deliveries (fold (dispatch env now) rs s))"
    by blast
qed

lemma due_retries_props:
  assumes "charged {} s"
  shows "set (due_retries now s) \<subseteq> set (no_deliveries s)" "distinct (map dl_id (due_retries now s))"
    "r \<in> set (due_retries now s) \<Longrightarrow> dl_attempts r < MAX_RETRY_ATTEMPTS"
proof -
  define rows where "rows = filter (\<lambda>r. dl_status r = PENDING_DELIVERY \<and> (case dl_next_retry_at r of Some t \<Rightarrow> t \<le> now | None \<Rightarrow> False) \<and>
          dl_attempts r < MAX_RETRY_ATTEMPTS) (no_deliveries s)"
  define sorted_rows where "sorted_rows = sort_key (\<lambda>r. the (dl_next_retry_at r)) rows"
  have e: "due_retries now s = take RETRY_BATCH_LIMIT sorted_rows" by (simp add: due_retries_def rows_def sorted_rows_def)
  have sub: "set (due_retries now s) \<subseteq> set rows" unfolding e sorted_rows_def by (metis set_sort set_take_subset)
  show "set (due_retries now s) \<subseteq> set (no_deliveries s)" using sub by (auto simp: rows_def)
  show "r \<in> set (due_retries now s) \<Longrightarrow> dl_attempts r < MAX_RETRY_ATTEMPTS" using sub by (auto simp: rows_def)
  have "distinct (map dl_id rows)"
    using charged_all(3) [OF assms] by (simp add: map_fst_tally rows_def distinct_map_filter)
  moreover have "mset (map dl_id sorted_rows) = mset (map dl_id rows)" by (simp add: sorted_rows_def)
  ultimately have "distinct (map dl_id sorted_rows)" using mset_eq_imp_distinct_iff by blast
  then show "distinct (map dl_id (due_retries now s))" unfolding e by (simp add: take_map [symmetric] distinct_take)
qed

lemma charged_retry: "charged {} s \<Longrightarrow> charged {} (snd (retry_failed_deliveries env now s))"
  by (simp add: retry_failed_deliveries_def charged_dispatch_all(1) due_retries_props)

lemma charged_die_in_retry:
  assumes "charged {} s" shows "charged {} (die_in_retry j made env now s)"
proof -
  let ?rs = "due_retries now s"
  note p = due_retries_props [OF assms, where now = now]
  have t: "set (take j ?rs) \<subseteq> set (no_deliveries s)" "distinct (map dl_id (take j ?rs))"
    "\<And>r. r \<in> set (take j ?rs) \<Longrightarrow> dl_attempts r < MAX_RETRY_ATTEMPTS"
    using p set_take_subset [of j ?rs] by (auto simp: take_map [symmetric])
  have c: "charged {} (fold (dispatch env now) (take j ?rs) s)" by (rule charged_dispatch_all(1) [OF assms t])
  show ?thesis
  proof (cases "j < length ?rs")
    case True
    have "distinct (map dl_id (take (Suc j) ?rs))" using p(2) by (simp add: take_map [symmetric])
    then have "dl_id (?rs ! j) \<notin> dl_id ` set (take j ?rs)" using True by (simp add: take_Suc_conv_app_nth)
    moreover have "?rs ! j \<in> set ?rs" using True by simp
    ultimately have "?rs ! j \<in> set (no_deliveries (fold (dispatch env now) (take j ?rs) s))"
      using charged_dispatch_all(2) [OF assms t, of "?rs ! j"] p(1) by blast
    then have "charged {} (die_in_dispatch made env now (?rs ! j) (fold (dispatch env now) (take j ?rs) s))"
      by (rule charged_die_in_dispatch [OF c]) (use p(3) True in auto)
    then show ?thesis using True by (simp add: die_in_retry_def Let_def)
  next
    case False
    then show ?thesis using c by (simp add: die_in_retry_def Let_def)
  qed
qed

section \<open>Digests\<close>

lemma wanted_row:
  assumes "charged {} s" and "r \<in> set (no_deliveries s)" and "dl_id r \<in> set (wanted_rows now u event s)"
  shows "batchable s r" "unclaimed now r" "dl_attempts r < MAX_RETRY_ATTEMPTS"
    "\<exists>x. owner s r = Some x \<and> rc_id x = u" "event = None \<or> event = Some (event_of s r)"
proof -
  have d: "distinct (map dl_id (no_deliveries s))" using charged_all(3) [OF assms(1)] by (simp add: map_fst_tally)
  obtain y where y: "y \<in> set (no_deliveries s)" "dl_id y = dl_id r" "batchable s y" "unclaimed now y"
      "case owner s y of Some x \<Rightarrow> rc_id x = u | None \<Rightarrow> False" "event = None \<or> event = Some (event_of s y)"
    using assms(3) by (auto simp: wanted_rows_def)
  have "y = r" by (rule distinct_key_eq [OF d y(1) assms(2) y(2)])
  with y show "batchable s r" "unclaimed now r" "dl_attempts r < MAX_RETRY_ATTEMPTS"
    "\<exists>x. owner s r = Some x \<and> rc_id x = u" "event = None \<or> event = Some (event_of s r)"
    by (auto simp: batchable_def split: option.splits)
qed

lemma claimed_ids:
  assumes "charged {} s"
  shows "map dl_id (claimed_rows now (wanted_rows now u event s) (claim_rows now (wanted_rows now u event s) s))
      = wanted_rows now u event s"
proof -
  let ?ids = "wanted_rows now u event s"
  have d: "distinct (map dl_id (no_deliveries s))" using charged_all(3) [OF assms] by (simp add: map_fst_tally)
  have u: "\<And>r. r \<in> set (no_deliveries s) \<Longrightarrow> dl_id r \<in> set ?ids \<Longrightarrow> unclaimed now r"
    using wanted_row [OF assms] by blast
  let ?c = "\<lambda>r. r\<lparr>dl_claimed_at := Some now, dl_attempts := Suc (dl_attempts r)\<rparr>"
  have "map dl_id (filter (\<lambda>r. dl_id r \<in> S \<and> dl_claimed_at r = Some now) (tbl_update (\<lambda>r. dl_id r \<in> S \<and> unclaimed now r) ?c rs))
      = map dl_id (filter (\<lambda>r. dl_id r \<in> S) rs)" if "\<forall>r \<in> set rs. dl_id r \<in> S \<longrightarrow> unclaimed now r" for S rs
    using that by (induction rs) auto
  then have e: "map dl_id (claimed_rows now ?ids (claim_rows now ?ids s)) = map dl_id (filter (\<lambda>r. dl_id r \<in> set ?ids) (no_deliveries s))"
    using u by (simp add: claimed_rows_def claim_rows_def update_deliveries_def)
  have "filter (\<lambda>r. dl_id r \<in> dl_id ` set (filter P rs)) rs = filter P rs" if "distinct (map dl_id rs)" for P and rs :: "notice_delivery list"
    by (rule filter_cong) (use distinct_key_eq [OF that] in auto)
  from this [OF d] show ?thesis unfolding e by (simp add: wanted_rows_def)
qed

lemma charged_claim:
  assumes "charged {} s"
  shows "charged (set (wanted_rows now u event s)) (claim_rows now (wanted_rows now u event s) s)"
proof -
  let ?ids = "wanted_rows now u event s"
  have "charged ({} \<union> {dl_id r | r. r \<in> set (no_deliveries s) \<and> dl_id r \<in> set ?ids \<and> unclaimed now r}) (claim_rows now ?ids s)"
    unfolding claim_rows_def by (rule charge [OF assms]) (use wanted_row(3) [OF assms] in auto)
  moreover have "{dl_id r | r. r \<in> set (no_deliveries s) \<and> dl_id r \<in> set ?ids \<and> unclaimed now r} = set ?ids"
  proof -
    have "i \<in> set ?ids \<Longrightarrow> \<exists>r \<in> set (no_deliveries s). dl_id r = i \<and> unclaimed now r" for i
      by (auto simp: wanted_rows_def)
    then show ?thesis by blast
  qed
  ultimately show ?thesis by simp
qed

lemma mail_digest_eq:
  assumes "rows \<noteq> []" and "owner s (hd rows) = Some u" and "kept = keeping (rc_id u) rows s"
    and "s1 = cancel_rows (map dl_id (filter (\<lambda>r. dl_id r \<notin> set (map dl_id kept)) rows)) s"
  shows "mail_digest env now event rows s =
    (if kept = [] then (None, s1)
     else (Some (map dl_id kept, fst (send_digest_email env now u event kept s1)), snd (send_digest_email env now u event kept s1)))"
  unfolding assms(3,4) using assms(1,2) by (simp add: mail_digest_def Let_def split_beta)

lemma charged_mail_digest:
  assumes "charged (dl_id ` set rows) s" and "distinct (map dl_id rows)"
  shows "charged {} (snd (mail_digest env now event rows s))"
proof (cases "Option.bind (if rows = [] then None else Some (hd rows)) (owner s)")
  case None
  then show ?thesis using charged_weaken [OF assms(1)] by (simp add: mail_digest_def)
next
  case (Some u)
  define kept where "kept = keeping (rc_id u) rows s"
  define s1 where "s1 = cancel_rows (map dl_id (filter (\<lambda>r. dl_id r \<notin> set (map dl_id kept)) rows)) s"
  have c: "charged (dl_id ` set rows) s1" unfolding s1_def cancel_rows_def by (rule charged_update [OF assms(1)]) simp
  have "set kept \<subseteq> set rows" "distinct (map dl_id kept)" using assms(2) by (auto simp: kept_def keeping_def distinct_map_filter)
  then have "charged {} (snd (mail_out env now (map dl_id kept) a b s1))" for a b
    by (intro charged_weaken [OF charged_mail_out [OF c]]) auto
  then have "charged {} (snd (send_digest_email env now u event kept s1))"
    using charged_weaken [OF c] by (auto simp: send_digest_email_def split: option.split)
  moreover have "charged {} s1" by (rule charged_weaken [OF c]) auto
  moreover have "rows \<noteq> []" "owner s (hd rows) = Some u" using Some by (auto split: if_splits)
  ultimately show ?thesis using mail_digest_eq [OF _ _ kept_def s1_def, of env now event] by simp
qed

lemma charged_reap_exhausted: "charged A s \<Longrightarrow> charged A (reap_exhausted_batches s)"
  unfolding reap_exhausted_batches_def by (rule charged_update) auto

lemma charged_reap: "charged A s \<Longrightarrow> charged A (reap s)"
  unfolding reap_def reap_deactivated_recipients_def by (rule charged_update [OF charged_reap_exhausted]) auto

lemma charged_settle_digest: "charged A s \<Longrightarrow> charged A (settle_digest now ids out s)"
  by (auto simp: settle_digest_def split: outcome.split intro!: charged_update charged_reap_exhausted)

lemma charged_claimed:
  assumes "charged {} s" and "claim_digest now (wanted_rows now u event s) s = (rows, s1)"
  shows "charged (dl_id ` set rows) s1" "distinct (map dl_id rows)"
proof -
  let ?ids = "wanted_rows now u event s"
  have r: "s1 = claim_rows now ?ids s" "map dl_id rows = ?ids"
    using assms(2) claimed_ids [OF assms(1)] by (auto simp: claim_digest_def Let_def)
  show "charged (dl_id ` set rows) s1" using charged_claim [OF assms(1)] r by (metis set_map)
  have "distinct (map dl_id (no_deliveries s))" using charged_all(3) [OF assms(1)] by (simp add: map_fst_tally)
  then show "distinct (map dl_id rows)" unfolding r(2) by (simp add: wanted_rows_def distinct_map_filter)
qed

lemma charged_send_one: "charged {} s \<Longrightarrow> charged {} (snd (send_one_digest env now k s))"
proof -
  assume c: "charged {} s"
  obtain u event where k: "k = (u, event)" by fastforce
  obtain rows s1 where cl: "claim_digest now (wanted_rows now u event s) s = (rows, s1)" by fastforce
  obtain res s2 where m: "mail_digest env now event rows s1 = (res, s2)" by fastforce
  have "charged {} s2" using charged_mail_digest [OF charged_claimed [OF c cl], of env now event] by (simp add: m)
  then show ?thesis using c
    by (auto simp: send_one_digest_def k cl m Let_def charged_settle_digest split: option.split)
qed

lemma charged_send_groups: "charged {} (snd acc) \<Longrightarrow> charged {} (snd (send_groups env now ks acc))"
  unfolding send_groups_def
proof (induction ks arbitrary: acc)
  case (Cons k ks)
  obtain n s where acc: "acc = (n, s)" by fastforce
  obtain ok s1 where o: "send_one_digest env now k s = (ok, s1)" by fastforce
  have "charged {} s1" using charged_send_one [of s env now k] Cons.prems by (simp add: acc o)
  then show ?case using Cons.IH [of "(if ok then Suc n else n, s1)"] by (simp add: acc o)
qed simp

lemma charged_sweep: "charged {} s \<Longrightarrow> charged {} (snd (send_batched_email_digests env now s))"
  by (simp add: send_batched_email_digests_def Let_def charged_send_groups charged_reap)

lemma charged_die_in_digest: "charged {} s \<Longrightarrow> charged {} (die_in_digest made env now k s)"
proof -
  assume c: "charged {} s"
  obtain rows s1 where cl: "claim_digest now (wanted_rows now (fst k) (snd k) s) s = (rows, s1)" by fastforce
  have "charged {} s1" by (rule charged_weaken [OF charged_claimed(1) [OF c cl]]) auto
  then show ?thesis using charged_mail_digest [OF charged_claimed [OF c cl]] by (simp add: die_in_digest_def cl)
qed

lemma charged_die_in_sweep: "charged {} s \<Longrightarrow> charged {} (die_in_sweep j made env now s)"
  by (simp add: die_in_sweep_def Let_def charged_send_groups charged_reap charged_die_in_digest)

lemma charged_step: "charged {} s \<Longrightarrow> charged {} (note_step s e)"
proof (induction s e rule: note_step.induct)
  case (7 s now u)
  then show ?case by (auto simp: mark_all_read_def intro: charged_frame simp: tally_def)
qed (simp_all add: charged_notify charged_die_in_notify charged_retry charged_die_in_retry charged_sweep
    charged_die_in_sweep charged_site_change)

interpretation notifying: machine note_step "charged {}"
  by unfold_locales (rule charged_step)

lemma charged_new: "charged {} (new_notifier us mx)"
  by (simp add: charged_def tally_def mails_of_def new_notifier_def)

end
