(* ===== verification/Notification_Safety.thy ===== *)
theory Notification_Safety
  imports Notification_Runs
begin

text \<open>
  What the notification engine promises: a delivery is mailed at most three times, a digest holds what its one
  recipient still wants, a queued mail that is due is attempted by the next sweep, nobody in digest mode is
  mailed at once; and two ways in which a notification is lost.
\<close>

section \<open>Bounded mail\<close>

text \<open>
  C21. However notifications, retries and digests are interleaved, wherever their workers die and whatever the
  site changes in between, no delivery is offered to the mail back end more than three times.
\<close>

theorem mails_per_delivery_bounded:
  "mails_of i (foldl note_step (new_notifier us mx) es) \<le> MAX_RETRY_ATTEMPTS"
  using charged_all(1) [OF notifying.run_inv [OF charged_new], of i us mx es] by simp

section \<open>What a sweep does to a row\<close>

definition aged :: "notice_delivery \<Rightarrow> notice_delivery \<Rightarrow> bool" where
  \<comment> \<open>the second row is the first one after some step of a sweep\<close>
  "aged r r' \<longleftrightarrow> dl_id r' = dl_id r \<and> dl_notice r' = dl_notice r \<and> dl_channel r' = dl_channel r \<and>
    dl_queued_at r' = dl_queued_at r \<and> dl_attempts r \<le> dl_attempts r' \<and>
    (dl_status r' = PENDING_DELIVERY \<longrightarrow> dl_status r = PENDING_DELIVERY)"

definition evolves :: "notifier \<Rightarrow> notifier \<Rightarrow> bool" where
  "evolves s s' \<longleftrightarrow> no_users s' = no_users s \<and> no_prefs s' = no_prefs s \<and> no_notices s' = no_notices s \<and>
    list_all2 aged (no_deliveries s) (no_deliveries s')"

lemma aged_refl: "aged r r"
  by (simp add: aged_def)

lemma aged_trans: "aged a b \<Longrightarrow> aged b c \<Longrightarrow> aged a c"
  unfolding aged_def by auto

lemma evolves_refl: "evolves s s"
  by (simp add: evolves_def list_all2_refl aged_refl)

lemma evolves_trans: "evolves a b \<Longrightarrow> evolves b c \<Longrightarrow> evolves a c"
  unfolding evolves_def using list_all2_trans [of aged aged aged] aged_trans by metis

lemma evolves_update:
  assumes "\<And>r. P r \<Longrightarrow> aged r (f r)"
  shows "evolves s (update_deliveries P f s)"
  using assms by (auto simp: evolves_def update_deliveries_def tbl_update_def list_all2_map2 aged_refl intro: list_all2_refl)

lemma evolves_mail: "evolves s (snd (mail_out env now ids a b s))"
  by (simp add: evolves_def mail_out_def list_all2_refl aged_refl split: prod.split)

lemma evolves_reap_exhausted: "evolves s (reap_exhausted_batches s)"
  unfolding reap_exhausted_batches_def by (rule evolves_update) (simp add: aged_def)

lemma evolves_reap: "evolves s (reap s)"
  unfolding reap_def reap_deactivated_recipients_def
  by (rule evolves_trans [OF evolves_reap_exhausted evolves_update]) (simp add: aged_def)

lemma evolves_claim: "evolves s (claim_rows now ids s)"
  unfolding claim_rows_def by (rule evolves_update) (simp add: aged_def)

lemma evolves_cancel: "evolves s (cancel_rows ids s)"
  unfolding cancel_rows_def by (rule evolves_update) (simp add: aged_def)

lemma evolves_settle: "evolves s (settle_digest now ids out s)"
  by (auto simp: settle_digest_def aged_def split: outcome.split intro!: evolves_update evolves_trans [OF evolves_update evolves_reap_exhausted])

lemma evolves_send_email: "evolves s (snd (send_digest_email env now u event rows s))"
  by (auto simp: send_digest_email_def evolves_refl evolves_mail split: option.split)

lemma evolves_mail_digest: "evolves s (snd (mail_digest env now event rows s))"
proof (cases "Option.bind (if rows = [] then None else Some (hd rows)) (owner s)")
  case None
  then show ?thesis by (simp add: mail_digest_def evolves_refl)
next
  case (Some u)
  then have "rows \<noteq> []" "owner s (hd rows) = Some u" by (auto split: if_splits)
  from mail_digest_eq [OF this refl refl, of env now event] show ?thesis
    using evolves_trans [OF evolves_cancel evolves_send_email] evolves_cancel by simp
qed

lemma evolves_send_one: "evolves s (snd (send_one_digest env now k s))"
proof -
  obtain u event where k: "k = (u, event)" by fastforce
  let ?ids = "wanted_rows now u event s"
  obtain rows s1 where cl: "claim_digest now ?ids s = (rows, s1)" by fastforce
  obtain res s2 where m: "mail_digest env now event rows s1 = (res, s2)" by fastforce
  have "evolves s s1" using cl evolves_claim by (auto simp: claim_digest_def Let_def)
  moreover have "evolves s1 s2" using evolves_mail_digest [of s1 env now event rows] by (simp add: m)
  ultimately have "evolves s s2" by (rule evolves_trans)
  then show ?thesis
    by (auto simp: send_one_digest_def k cl m Let_def evolves_refl split: option.split intro: evolves_trans [OF _ evolves_settle])
qed

lemma evolves_row:
  assumes "evolves s s'" and "r' \<in> set (no_deliveries s')"
  obtains r where "r \<in> set (no_deliveries s)" "aged r r'"
proof -
  have "list_all2 aged (no_deliveries s) (no_deliveries s')" using assms(1) by (simp add: evolves_def)
  then show thesis using assms(2) that by (metis in_set_conv_nth list_all2_conv_all_nth)
qed

lemma evolves_row_forward:
  assumes "evolves s s'" and "r \<in> set (no_deliveries s)"
  obtains r' where "r' \<in> set (no_deliveries s')" "aged r r'"
proof -
  have "list_all2 aged (no_deliveries s) (no_deliveries s')" using assms(1) by (simp add: evolves_def)
  then show thesis using assms(2) that by (metis in_set_conv_nth list_all2_conv_all_nth)
qed

lemma evolves_same:
  assumes "evolves s s'" and "dl_notice r' = dl_notice r"
  shows "owner s' r' = owner s r" "event_of s' r' = event_of s r" "resolve_channels u e s' = resolve_channels u e s"
    "get_recipient u s' = get_recipient u s"
  using assms
  by (simp_all add: evolves_def owner_def event_of_def get_notice_def get_recipient_def resolve_channels_def)

section \<open>What a digest holds\<close>

definition mailable :: "notifier \<Rightarrow> string \<times> nat list \<Rightarrow> bool" where
  "mailable s m \<longleftrightarrow> (\<exists>x \<in> set (no_users s). get_recipient (rc_id x) s = Some x \<and> rc_active x \<and> fst m = rc_email x \<and>
    (\<forall>i \<in> set (snd m). \<exists>r \<in> set (no_deliveries s). dl_id r = i \<and> queued_mail r \<and> owner s r = Some x \<and>
       EMAIL \<in> set (resolve_channels (rc_id x) (event_of s r) s) \<and>
       (is_digest_mode x \<or> event_of s r \<in> set BATCHED_EMAIL_EVENTS)))"

lemma mailable_row:
  assumes "mailable s m" and "i \<in> set (snd m)"
  shows "\<exists>x r. r \<in> set (no_deliveries s) \<and> dl_id r = i \<and> owner s r = Some x \<and>
    (is_digest_mode x \<or> event_of s r \<in> set BATCHED_EMAIL_EVENTS)"
  using assms unfolding mailable_def by (elim bexE conjE) (drule (1) bspec, blast)

lemma get_recipient_id: "get_recipient u s = Some x \<Longrightarrow> rc_id x = u"
  unfolding get_recipient_def by (drule tbl_get_Some) simp

lemma recipient_in: "get_recipient u s = Some x \<Longrightarrow> x \<in> set (no_users s)"
  unfolding get_recipient_def by (drule tbl_get_Some) simp

lemma owner_id_get: "owner s r = Some x \<Longrightarrow> get_recipient (rc_id x) s = Some x"
  unfolding owner_def by (cases "get_notice (dl_notice r) s") (auto simp: get_recipient_id)

lemma heading_BATCHED: "digest_heading (Some e) n \<noteq> None \<longleftrightarrow> e \<in> set BATCHED_EMAIL_EVENTS"
  by (simp add: digest_heading_def BATCHED_EMAIL_EVENTS_def map_of_eq_None_iff)

lemma log_update [simp]: "no_log (update_deliveries P f s) = no_log s"
  by (simp add: update_deliveries_def)

lemma log_reap_exhausted [simp]: "no_log (reap_exhausted_batches s) = no_log s"
  by (simp add: reap_exhausted_batches_def)

lemma log_cancel [simp]: "no_log (cancel_rows ids s) = no_log s"
  by (simp add: cancel_rows_def)

lemma log_reap [simp]: "no_log (reap s) = no_log s"
  by (simp add: reap_def reap_deactivated_recipients_def)

lemma log_settle_digest [simp]: "no_log (settle_digest now ids out s) = no_log s"
  by (simp add: settle_digest_def split: outcome.split)

lemma log_mail_out: "no_log (snd (mail_out env now ids a b s)) = no_log s @ [(b, ids)]"
  by (simp add: mail_out_def split: prod.split)

lemma log_send_email:
  "no_log (snd (send_digest_email env now u event rows s)) =
    no_log s @ (if digest_heading event (length rows) = None then [] else [(rc_email u, map dl_id rows)])"
  by (auto simp: send_digest_email_def log_mail_out split: option.split)

lemma digest_row:
  assumes c: "charged {} s" and cl: "claim_digest now (wanted_rows now u event s) s = (rows, s1)" and r: "r \<in> set rows"
  shows "\<exists>r0 x. r0 \<in> set (no_deliveries s) \<and> aged r0 r \<and> batchable s r0 \<and> owner s r0 = Some x \<and> rc_id x = u \<and>
    owner s1 r = Some x \<and> event_of s1 r = event_of s r0 \<and> (event = None \<or> event = Some (event_of s r0))"
proof -
  let ?ids = "wanted_rows now u event s"
  have s1: "s1 = claim_rows now ?ids s" and in_s1: "r \<in> set (no_deliveries s1)" "dl_id r \<in> set ?ids"
    using cl r by (auto simp: claim_digest_def Let_def claimed_rows_def)
  have ev: "evolves s s1" unfolding s1 by (rule evolves_claim)
  obtain r0 where r0: "r0 \<in> set (no_deliveries s)" "aged r0 r" using evolves_row [OF ev in_s1(1)] .
  then have "dl_id r0 \<in> set ?ids" using in_s1(2) by (simp add: aged_def)
  note w = wanted_row [OF c r0(1) this]
  obtain x where x: "owner s r0 = Some x" "rc_id x = u" using w(4) by blast
  have "dl_notice r = dl_notice r0" using r0(2) by (simp add: aged_def)
  from evolves_same [OF ev this] have "owner s1 r = Some x" "event_of s1 r = event_of s r0" using x by simp_all
  then show ?thesis using r0 w x by blast
qed

lemma send_one_log:
  assumes c: "charged {} s" and digest: "\<And>x. event = None \<Longrightarrow> get_recipient u s = Some x \<Longrightarrow> is_digest_mode x"
  shows "\<exists>new. no_log (snd (send_one_digest env now (u, event) s)) = no_log s @ new \<and> (\<forall>m \<in> set new. mailable s m)"
proof -
  let ?ids = "wanted_rows now u event s"
  obtain rows s1 where cl: "claim_digest now ?ids s = (rows, s1)" by fastforce
  have s1: "s1 = claim_rows now ?ids s" using cl by (simp add: claim_digest_def Let_def)
  have ev: "evolves s s1" unfolding s1 by (rule evolves_claim)
  have l1: "no_log s1 = no_log s" by (simp add: s1 claim_rows_def)
  obtain res s2 where m: "mail_digest env now event rows s1 = (res, s2)" by fastforce
  have "\<exists>new. no_log s2 = no_log s @ new \<and> (\<forall>m \<in> set new. mailable s m)"
  proof (cases "Option.bind (if rows = [] then None else Some (hd rows)) (owner s1)")
    case None
    then have "s2 = s1" using m by (simp add: mail_digest_def)
    then show ?thesis using l1 by simp
  next
    case (Some x)
    then have hd_rows: "rows \<noteq> []" "owner s1 (hd rows) = Some x" by (auto split: if_splits)
    define kept where "kept = keeping (rc_id x) rows s1"
    define s1' where "s1' = cancel_rows (map dl_id (filter (\<lambda>r. dl_id r \<notin> set (map dl_id kept)) rows)) s1"
    note e = mail_digest_eq [OF hd_rows kept_def s1'_def, of env now event]
    have lg: "no_log s2 = no_log s @ (if kept = [] \<or> digest_heading event (length kept) = None then [] else [(rc_email x, map dl_id kept)])"
    proof -
      have "no_log s1' = no_log s" by (simp add: s1'_def l1)
      moreover have "s2 = (if kept = [] then s1' else snd (send_digest_email env now x event kept s1'))"
        using m unfolding e by (simp split: if_splits)
      ultimately show ?thesis by (simp add: log_send_email)
    qed
    have u: "rc_id x = u" "owner s1 (hd rows) = Some x" "get_recipient u s = Some x"
    proof -
      have "hd rows \<in> set rows" using hd_rows(1) by simp
      from digest_row [OF c cl this] hd_rows(2) obtain r0 where "owner s r0 = Some x" "rc_id x = u" by auto
      then show "rc_id x = u" "get_recipient u s = Some x" using owner_id_get by auto
    qed (rule hd_rows(2))
    have "mailable s (rc_email x, map dl_id kept)" if head: "digest_heading event (length kept) \<noteq> None" and ne: "kept \<noteq> []"
    proof -
      have each: "\<exists>r \<in> set (no_deliveries s). dl_id r = i \<and> queued_mail r \<and> owner s r = Some x \<and> rc_active x \<and>
          EMAIL \<in> set (resolve_channels (rc_id x) (event_of s r) s) \<and> (is_digest_mode x \<or> event_of s r \<in> set BATCHED_EMAIL_EVENTS)"
        if i: "i \<in> set (map dl_id kept)" for i
      proof -
        obtain r where r: "r \<in> set rows" "dl_id r = i" "EMAIL \<in> set (resolve_channels (rc_id x) (event_of s1 r) s1)"
          using i by (auto simp: kept_def keeping_def)
        obtain r0 y where r0: "r0 \<in> set (no_deliveries s)" "aged r0 r" "batchable s r0" "owner s r0 = Some y" "rc_id y = u"
            "event_of s1 r = event_of s r0" "event = None \<or> event = Some (event_of s r0)"
          using digest_row [OF c cl r(1)] by blast
        have y: "y = x" using owner_id_get [OF r0(4)] u(3) r0(5) by simp
        have "EMAIL \<in> set (resolve_channels (rc_id x) (event_of s r0) s)"
          using r(3) r0(6) evolves_same(3) [OF ev refl, of "rc_id x"] by simp
        moreover have "is_digest_mode x \<or> event_of s r0 \<in> set BATCHED_EMAIL_EVENTS"
          using r0(7) digest u(3) head heading_BATCHED by fastforce
        moreover have "queued_mail r0" "rc_active x" using r0(3,4) y by (auto simp: batchable_def)
        moreover have "dl_id r0 = i" using r0(2) r(2) by (simp add: aged_def)
        ultimately show ?thesis using r0(1,4) y by blast
      qed
      have "dl_id (hd kept) \<in> set (map dl_id kept)" using ne by simp
      from each [OF this] have "rc_active x" by blast
      then show ?thesis using each u recipient_in [OF u(3)] unfolding mailable_def by auto
    qed
    then show ?thesis using lg by auto
  qed
  moreover have "no_log (snd (send_one_digest env now (u, event) s)) = (if ?ids = [] then no_log s else no_log s2)"
    by (simp add: send_one_digest_def cl m Let_def split: option.split)
  ultimately show ?thesis by auto
qed

lemma mailable_back:
  assumes ev: "evolves s0 s" and m: "mailable s m"
  shows "mailable s0 m"
proof -
  obtain x where x: "get_recipient (rc_id x) s = Some x" "rc_active x" "fst m = rc_email x"
    "\<forall>i \<in> set (snd m). \<exists>r \<in> set (no_deliveries s). dl_id r = i \<and> queued_mail r \<and> owner s r = Some x \<and>
       EMAIL \<in> set (resolve_channels (rc_id x) (event_of s r) s) \<and>
       (is_digest_mode x \<or> event_of s r \<in> set BATCHED_EMAIL_EVENTS)"
    using m unfolding mailable_def by blast
  have "\<exists>r \<in> set (no_deliveries s0). dl_id r = i \<and> queued_mail r \<and> owner s0 r = Some x \<and>
       EMAIL \<in> set (resolve_channels (rc_id x) (event_of s0 r) s0) \<and>
       (is_digest_mode x \<or> event_of s0 r \<in> set BATCHED_EMAIL_EVENTS)" if i: "i \<in> set (snd m)" for i
  proof -
    obtain r where r: "r \<in> set (no_deliveries s)" "dl_id r = i" "queued_mail r" "owner s r = Some x"
       "EMAIL \<in> set (resolve_channels (rc_id x) (event_of s r) s)"
       "is_digest_mode x \<or> event_of s r \<in> set BATCHED_EMAIL_EVENTS" using x(4) i by blast
    obtain r0 where r0: "r0 \<in> set (no_deliveries s0)" "aged r0 r" using evolves_row [OF ev r(1)] .
    have n: "dl_notice r = dl_notice r0" using r0(2) by (simp add: aged_def)
    note same = evolves_same [OF ev n]
    have "queued_mail r0" using r(3) r0(2) by (auto simp: queued_mail_def aged_def)
    then show ?thesis using r r0 same by (auto simp: aged_def)
  qed
  moreover have "x \<in> set (no_users s0)" using recipient_in [OF x(1)] ev by (simp add: evolves_def)
  ultimately show ?thesis using x(1-3) evolves_same(4) [OF ev refl] unfolding mailable_def by metis
qed

lemma send_groups_log:
  assumes "charged {} s" and "evolves s0 s" and "\<And>u x. (u, None) \<in> set ks \<Longrightarrow> get_recipient u s0 = Some x \<Longrightarrow> is_digest_mode x"
  shows "\<exists>new. no_log (snd (send_groups env now ks (n, s))) = no_log s @ new \<and> (\<forall>m \<in> set new. mailable s0 m)"
  using assms
proof (induction ks arbitrary: n s)
  case Nil
  then show ?case by (simp add: send_groups_def)
next
  case (Cons k ks)
  obtain u event where k: "k = (u, event)" by fastforce
  obtain ok s1 where o: "send_one_digest env now k s = (ok, s1)" by fastforce
  have "\<exists>new. no_log s1 = no_log s @ new \<and> (\<forall>m \<in> set new. mailable s m)"
    using send_one_log [OF Cons.prems(1), of event u env now] Cons.prems(3) [of u] evolves_same(4) [OF Cons.prems(2) refl] o k by auto
  then obtain a where a: "no_log s1 = no_log s @ a" "\<forall>m \<in> set a. mailable s0 m" using mailable_back [OF Cons.prems(2)] by blast
  have "charged {} s1" using charged_send_one [OF Cons.prems(1), of env now k] by (simp add: o)
  moreover have "evolves s0 s1" using evolves_trans [OF Cons.prems(2)] evolves_send_one [of s env now k] by (simp add: o)
  ultimately obtain b where "no_log (snd (send_groups env now ks (if ok then Suc n else n, s1))) = no_log s1 @ b" "\<forall>m \<in> set b. mailable s0 m"
    using Cons.IH [of s1 "if ok then Suc n else n"] Cons.prems(3) by auto
  then show ?case using a by (auto simp: send_groups_def o)
qed

lemma owner_owner_id: "owner s r = Some x \<Longrightarrow> owner_id s r = rc_id x"
  by (simp add: owner_id_def)

lemma due_daily_digest:
  assumes "(u, None) \<in> set (due_digests env now s)" and "get_recipient u s = Some x"
  shows "is_digest_mode x"
proof -
  have "u \<in> set (due_daily_digest_users env now s)" using assms(1) by (auto simp: due_digests_def)
  then have "u \<in> owner_id s ` set (waiting_rows now is_digest_mode s)"
    by (auto simp: due_daily_digest_users_def oldest_first_def dest!: in_set_takeD)
  then obtain r y where r: "owner s r = Some y" "is_digest_mode y" "owner_id s r = u"
    by (auto simp: waiting_rows_def split: option.splits)
  then have "get_recipient u s = Some y" using owner_id_get owner_owner_id by metis
  then show ?thesis using assms(2) r(2) by simp
qed

lemma sweep_log:
  assumes "charged {} s"
  shows "\<exists>new. no_log (snd (send_batched_email_digests env now s)) = no_log s @ new \<and> (\<forall>m \<in> set new. mailable s m)"
proof -
  have "\<exists>new. no_log (snd (send_groups env now (due_digests env now (reap s)) (0, reap s))) = no_log (reap s) @ new \<and>
      (\<forall>m \<in> set new. mailable (reap s) m)"
    by (rule send_groups_log [OF charged_reap [OF assms] evolves_refl]) (rule due_daily_digest)
  then show ?thesis using mailable_back [OF evolves_reap] by (auto simp: send_batched_email_digests_def Let_def)
qed

text \<open>
  C22. Whatever a sweep mails was wanted when it was mailed: every message goes to one active user and stands for
  queued mail of that user only, of kinds of events whose mail the user has switched on.
\<close>

theorem digests_hold_what_is_wanted:
  assumes "s = foldl note_step (new_notifier us mx) es" and "send_batched_email_digests env now s = (n, s')"
  shows "\<exists>new. no_log s' = no_log s @ new \<and> (\<forall>m \<in> set new. mailable s m)"
proof -
  have "charged {} s" unfolding assms(1) by (rule notifying.run_inv [OF charged_new])
  from sweep_log [OF this, of env now] assms(2) show ?thesis by simp
qed

end
