(* ===== verification/Notification_Losses.thy ===== *)
theory Notification_Losses
  imports Notification_Safety
begin

text \<open>
  Which queued mail a sweep gets to, and the ways in which a notification is never delivered: the mail of a user
  who leaves digest mode, and a dispatch that is cut short.
\<close>

section \<open>A sweep gets to what is due\<close>

lemma rows_distinct: "charged A s \<Longrightarrow> distinct (map dl_id (no_deliveries s))"
  using charged_all(3) by (simp add: map_fst_tally)

lemma keep_row: "x \<in> set (no_deliveries s) \<Longrightarrow> \<not> P x \<Longrightarrow> x \<in> set (no_deliveries (update_deliveries P f s))"
  by (force simp: update_deliveries_def tbl_update_def)

definition unspent :: "notice_delivery \<Rightarrow> bool" where
  \<comment> \<open>a row the queue does not give up\<close>
  "unspent x \<longleftrightarrow> \<not> queued_mail x \<or> dl_attempts x < MAX_RETRY_ATTEMPTS"

lemma keep_row_reap:
  "x \<in> set (no_deliveries s) \<Longrightarrow> unspent x \<Longrightarrow> x \<in> set (no_deliveries (reap_exhausted_batches s))"
  unfolding reap_exhausted_batches_def by (rule keep_row) (auto simp: unspent_def)

lemma keep_row_settle:
  assumes "x \<in> set (no_deliveries s)" and "dl_id x \<notin> set ids" and "unspent x"
  shows "x \<in> set (no_deliveries (settle_digest now ids out s))"
  using assms by (auto simp: settle_digest_def split: outcome.split intro!: keep_row keep_row_reap)

lemma keep_row_mail_digest:
  assumes "x \<in> set (no_deliveries s)" and "dl_id x \<notin> dl_id ` set rows"
  shows "x \<in> set (no_deliveries (snd (mail_digest env now event rows s)))"
    and "fst (mail_digest env now event rows s) = Some (kept, out) \<Longrightarrow> set kept \<subseteq> dl_id ` set rows"
proof -
  have both: "x \<in> set (no_deliveries (snd (mail_digest env now event rows s))) \<and>
    (\<forall>kept out. fst (mail_digest env now event rows s) = Some (kept, out) \<longrightarrow> set kept \<subseteq> dl_id ` set rows)"
  proof (cases "Option.bind (if rows = [] then None else Some (hd rows)) (owner s)")
    case None
    then show ?thesis using assms(1) by (simp add: mail_digest_def)
  next
    case (Some u)
    then have "rows \<noteq> []" "owner s (hd rows) = Some u" by (auto split: if_splits)
    note e = mail_digest_eq [OF this refl refl, of env now event]
    define kept where "kept = keeping (rc_id u) rows s"
    define s1 where "s1 = cancel_rows (map dl_id (filter (\<lambda>r. dl_id r \<notin> set (map dl_id kept)) rows)) s"
    have "x \<in> set (no_deliveries s1)" unfolding s1_def cancel_rows_def by (rule keep_row) (use assms in auto)
    moreover have "no_deliveries (snd (send_digest_email env now u event kept s1)) = no_deliveries s1"
      by (auto simp: send_digest_email_def mail_out_def split: option.split prod.split)
    ultimately show ?thesis unfolding e kept_def [symmetric] s1_def [symmetric] by (auto simp: kept_def keeping_def)
  qed
  then show "x \<in> set (no_deliveries (snd (mail_digest env now event rows s)))"
    "fst (mail_digest env now event rows s) = Some (kept, out) \<Longrightarrow> set kept \<subseteq> dl_id ` set rows" by blast+
qed

lemma send_one_row:
  assumes c: "charged {} s" and x: "x \<in> set (no_deliveries s)" "unspent x"
  shows "dl_id x \<notin> set (wanted_rows now u event s) \<Longrightarrow> x \<in> set (no_deliveries (snd (send_one_digest env now (u, event) s)))"
    and "dl_id x \<in> set (wanted_rows now u event s) \<Longrightarrow>
      \<exists>x' \<in> set (no_deliveries (snd (send_one_digest env now (u, event) s))). aged x x' \<and> dl_attempts x < dl_attempts x'"
proof -
  let ?ids = "wanted_rows now u event s"
  obtain rows s1 where cl: "claim_digest now ?ids s = (rows, s1)" by fastforce
  have s1: "s1 = claim_rows now ?ids s" using cl by (simp add: claim_digest_def Let_def)
  have ids: "map dl_id rows = ?ids" using claimed_ids [OF c] cl by (auto simp: claim_digest_def Let_def)
  have set_ids: "dl_id ` set rows = set ?ids" using ids by (metis set_map)
  obtain res s2 where m: "mail_digest env now event rows s1 = (res, s2)" by fastforce
  have fin: "snd (send_one_digest env now (u, event) s) =
      (if ?ids = [] then s else case res of None \<Rightarrow> s2 | Some (kept, out) \<Rightarrow> settle_digest now kept out s2)"
    by (simp add: send_one_digest_def cl m Let_def split: option.split)
  {
    assume n: "dl_id x \<notin> set ?ids"
    have "x \<in> set (no_deliveries s1)" unfolding s1 claim_rows_def by (rule keep_row) (use x n in auto)
    note k = keep_row_mail_digest [OF this, of rows env now event]
    have 2: "x \<in> set (no_deliveries s2)" using k(1) n by (simp add: set_ids m)
    have "set kept \<subseteq> set ?ids" if "res = Some (kept, out)" for kept out
      using k(2) [of kept out] n that by (simp add: set_ids m)
    then have "x \<in> set (no_deliveries (settle_digest now kept out s2))" if "res = Some (kept, out)" for kept out
      using that n x(2) 2 by (intro keep_row_settle) auto
    then show "x \<in> set (no_deliveries (snd (send_one_digest env now (u, event) s)))"
      unfolding fin using 2 x(1) by (auto split: option.split)
  }
  {
    assume n: "dl_id x \<in> set ?ids"
    let ?y = "x\<lparr>dl_claimed_at := Some now, dl_attempts := Suc (dl_attempts x)\<rparr>"
    have "unclaimed now x" by (rule wanted_row(2) [OF c x(1) n])
    then have y: "?y \<in> set (no_deliveries s1)"
      using x(1) n by (auto simp: s1 claim_rows_def update_deliveries_def tbl_update_def intro!: image_eqI [of _ _ x])
    have "evolves s1 s2" using evolves_mail_digest [of s1 env now event rows] by (simp add: m)
    then have "evolves s1 (snd (send_one_digest env now (u, event) s))"
      unfolding fin using n by (auto split: option.split intro: evolves_trans [OF _ evolves_settle])
    from evolves_row_forward [OF this y] obtain x' where
      x': "x' \<in> set (no_deliveries (snd (send_one_digest env now (u, event) s)))" "aged ?y x'" .
    then show "\<exists>x' \<in> set (no_deliveries (snd (send_one_digest env now (u, event) s))). aged x x' \<and> dl_attempts x < dl_attempts x'"
      by (intro bexI [of _ x']) (auto simp: aged_def)
  }
qed

lemma wanted_iff:
  assumes "charged {} s" and "x \<in> set (no_deliveries s)"
  shows "dl_id x \<in> set (wanted_rows now u event s) \<longleftrightarrow> batchable s x \<and> unclaimed now x \<and>
    (\<exists>y. owner s x = Some y \<and> rc_id y = u) \<and> (event = None \<or> event = Some (event_of s x))"
proof
  assume "dl_id x \<in> set (wanted_rows now u event s)"
  from wanted_row [OF assms this] show "batchable s x \<and> unclaimed now x \<and>
    (\<exists>y. owner s x = Some y \<and> rc_id y = u) \<and> (event = None \<or> event = Some (event_of s x))" by blast
qed (use assms(2) in \<open>auto simp: wanted_rows_def\<close>)

lemma batchable_evolves: "evolves s s' \<Longrightarrow> batchable s' x \<longleftrightarrow> batchable s x"
  by (simp add: batchable_def evolves_same(1) [OF _ refl])

lemma evolves_send_groups: "evolves (snd acc) (snd (send_groups env now ks acc))"
proof (induction ks arbitrary: acc)
  case (Cons k ks)
  obtain n s where acc: "acc = (n, s)" by fastforce
  obtain ok s1 where o: "send_one_digest env now k s = (ok, s1)" by fastforce
  have "evolves s s1" using evolves_send_one [of s env now k] by (simp add: o)
  then show ?case using Cons.IH [of "(if ok then Suc n else n, s1)"] by (auto simp: acc o send_groups_def intro: evolves_trans)
qed (simp add: send_groups_def evolves_refl)

lemma send_groups_row:
  assumes "charged {} s" and "x \<in> set (no_deliveries s)" and "batchable s x"
    and "\<exists>k \<in> set ks. dl_id x \<in> set (wanted_rows now (fst k) (snd k) s)"
  shows "\<exists>x' \<in> set (no_deliveries (snd (send_groups env now ks (n, s)))). aged x x' \<and> dl_attempts x < dl_attempts x'"
  using assms
proof (induction ks arbitrary: n s)
  case (Cons k ks)
  obtain u event where k: "k = (u, event)" by fastforce
  obtain ok s1 where o: "send_one_digest env now k s = (ok, s1)" by fastforce
  let ?n = "if ok then Suc n else n"
  have step: "send_groups env now (k # ks) (n, s) = send_groups env now ks (?n, s1)" by (simp add: send_groups_def o)
  have att: "unspent x" using Cons.prems(3) by (simp add: batchable_def unspent_def)
  have c1: "charged {} s1" using charged_send_one [OF Cons.prems(1), of env now k] by (simp add: o)
  have ev: "evolves s s1" using evolves_send_one [of s env now k] by (simp add: o)
  have later: "evolves s1 (snd (send_groups env now ks (?n, s1)))" for ks using evolves_send_groups [of "(?n, s1)"] by simp
  show ?case
  proof (cases "dl_id x \<in> set (wanted_rows now u event s)")
    case True
    obtain x1 where x1: "x1 \<in> set (no_deliveries s1)" "aged x x1" "dl_attempts x < dl_attempts x1"
      using send_one_row(2) [OF Cons.prems(1,2) att True, of env] o k by auto
    obtain x2 where "x2 \<in> set (no_deliveries (snd (send_groups env now ks (?n, s1))))" "aged x1 x2"
      using evolves_row_forward [OF later x1(1)] .
    then show ?thesis unfolding step using x1 aged_trans by (intro bexI [of _ x2]) (auto simp: aged_def)
  next
    case False
    have x1: "x \<in> set (no_deliveries s1)" using send_one_row(1) [OF Cons.prems(1,2) att False, of env] o k by simp
    have "\<exists>k \<in> set ks. dl_id x \<in> set (wanted_rows now (fst k) (snd k) s)" using Cons.prems(4) False k by auto
    then have "\<exists>k \<in> set ks. dl_id x \<in> set (wanted_rows now (fst k) (snd k) s1)"
      by (simp add: wanted_iff [OF Cons.prems(1,2)] wanted_iff [OF c1 x1] batchable_evolves [OF ev] evolves_same [OF ev refl])
    from Cons.IH [OF c1 x1 _ this, of ?n] Cons.prems(3) show ?thesis unfolding step by (simp add: batchable_evolves [OF ev])
  qed
qed simp

lemma filter_tbl_update:
  "(\<And>r. P r \<Longrightarrow> \<not> Q r \<and> \<not> Q (f r)) \<Longrightarrow> filter Q (tbl_update P f rs) = filter Q rs"
  by (induction rs) auto

lemma waiting_reap: "waiting_rows now Q (reap s) = waiting_rows now Q s"
proof -
  have "waiting_rows now Q (reap_exhausted_batches t) = waiting_rows now Q t" for t
  proof -
    have "batchable (reap_exhausted_batches t) = batchable t" "owner (reap_exhausted_batches t) = owner t"
      using batchable_evolves [OF evolves_reap_exhausted] evolves_same(1) [OF evolves_reap_exhausted refl] by blast+
    then show ?thesis unfolding waiting_rows_def reap_exhausted_batches_def update_deliveries_def
      by (simp del: not_None_eq) (rule filter_tbl_update, auto simp: batchable_def queued_mail_def)
  qed
  moreover have "waiting_rows now Q (reap_deactivated_recipients t) = waiting_rows now Q t" for t
  proof -
    have ev: "evolves t (reap_deactivated_recipients t)"
      unfolding reap_deactivated_recipients_def by (rule evolves_update) (simp add: aged_def)
    have "batchable (reap_deactivated_recipients t) = batchable t" "owner (reap_deactivated_recipients t) = owner t"
      using batchable_evolves [OF ev] evolves_same(1) [OF ev refl] by blast+
    then show ?thesis unfolding waiting_rows_def reap_deactivated_recipients_def update_deliveries_def
      by (simp del: not_None_eq) (rule filter_tbl_update, auto simp: batchable_def queued_mail_def split: option.splits)
  qed
  ultimately show ?thesis by (simp add: reap_def)
qed

lemma oldest_le: "r \<in> set rs \<Longrightarrow> dl_queued_at r = Some t \<Longrightarrow> oldest rs \<le> t"
  unfolding oldest_def by (rule Min_le) (auto simp: image_iff intro: bexI [of _ r])

lemma oldest_first_all: "length ks \<le> BATCH_GROUP_LIMIT \<Longrightarrow> set (oldest_first rows ks) = set ks"
  by (simp add: oldest_first_def)

lemma length_remdups_filter: "card (set xs) \<le> n \<Longrightarrow> length (filter P (remdups xs)) \<le> n"
  by (metis le_trans length_filter_le length_remdups_card_conv)

lemma rolling_is_due:
  assumes x: "x \<in> set (waiting_rows now (\<lambda>u. \<not> is_digest_mode u) s)" and t: "dl_queued_at x = Some t" "t \<le> now - seconds (60 * BATCH_WINDOW_MINUTES)"
    and few: "card ((\<lambda>r. (owner_id s r, event_of s r)) ` set (waiting_rows now (\<lambda>u. \<not> is_digest_mode u) s)) \<le> BATCH_GROUP_LIMIT"
  shows "(owner_id s x, event_of s x) \<in> set (rolling_due now s)"
proof -
  let ?W = "waiting_rows now (\<lambda>u. \<not> is_digest_mode u) s" and ?key = "\<lambda>r. (owner_id s r, event_of s r)"
  have "x \<in> set (rolling_group now s (?key x))" using x by (simp add: rolling_group_def)
  then have "oldest (rolling_group now s (?key x)) \<le> now - seconds (60 * BATCH_WINDOW_MINUTES)" using oldest_le t by fastforce
  moreover have "?key x \<in> set (map ?key ?W)" using x by auto
  moreover have "card (set (map ?key ?W)) \<le> BATCH_GROUP_LIMIT" using few by simp
  ultimately show ?thesis unfolding rolling_due_def
    by (subst oldest_first_all) (auto intro!: length_remdups_filter)
qed

lemma daily_is_due:
  assumes x: "x \<in> set (waiting_rows now is_digest_mode s)" and t: "dl_queued_at x = Some t"
      "t \<le> last_daily_send_boundary env now (user_zone s (owner_id s x))"
    and few: "card (owner_id s ` set (waiting_rows now is_digest_mode s)) \<le> BATCH_GROUP_LIMIT"
  shows "owner_id s x \<in> set (due_daily_digest_users env now s)"
proof -
  let ?W = "waiting_rows now is_digest_mode s"
  have "x \<in> set (daily_group now s (owner_id s x))" using x by (simp add: daily_group_def)
  then have "oldest (daily_group now s (owner_id s x)) \<le> last_daily_send_boundary env now (user_zone s (owner_id s x))"
    using oldest_le t by fastforce
  moreover have "owner_id s x \<in> set (map (owner_id s) ?W)" using x by auto
  moreover have "card (set (map (owner_id s) ?W)) \<le> BATCH_GROUP_LIMIT" using few by simp
  ultimately show ?thesis unfolding due_daily_digest_users_def
    by (subst oldest_first_all) (auto intro!: length_remdups_filter)
qed

definition due_in_sweep :: "notify_env \<Rightarrow> instant \<Rightarrow> notifier \<Rightarrow> notice_delivery \<Rightarrow> bool" where
  \<comment> \<open>queued long enough, with no more groups of its kind waiting than a sweep takes\<close>
  "due_in_sweep env now s x \<longleftrightarrow> batchable s x \<and> unclaimed now x \<and>
    (case (owner s x, dl_queued_at x) of
       (Some u, Some t) \<Rightarrow>
        (if is_digest_mode u
         then t \<le> last_daily_send_boundary env now (user_zone s (rc_id u)) \<and>
           card (owner_id s ` set (waiting_rows now is_digest_mode s)) \<le> BATCH_GROUP_LIMIT
         else t \<le> now - seconds (60 * BATCH_WINDOW_MINUTES) \<and>
           card ((\<lambda>r. (owner_id s r, event_of s r)) ` set (waiting_rows now (\<lambda>u. \<not> is_digest_mode u) s)) \<le> BATCH_GROUP_LIMIT)
     | _ \<Rightarrow> False)"

lemma due_is_attempted:
  assumes c: "charged {} s" and x: "x \<in> set (no_deliveries s)" and due: "due_in_sweep env now s x"
  shows "\<exists>x' \<in> set (no_deliveries (snd (send_batched_email_digests env now s))). aged x x' \<and> dl_attempts x < dl_attempts x'"
proof -
  obtain u t where u: "owner s x = Some u" "dl_queued_at x = Some t" and b: "batchable s x" "unclaimed now x"
    and d: "if is_digest_mode u
       then t \<le> last_daily_send_boundary env now (user_zone s (rc_id u)) \<and>
         card (owner_id s ` set (waiting_rows now is_digest_mode s)) \<le> BATCH_GROUP_LIMIT
       else t \<le> now - seconds (60 * BATCH_WINDOW_MINUTES) \<and>
         card ((\<lambda>r. (owner_id s r, event_of s r)) ` set (waiting_rows now (\<lambda>u. \<not> is_digest_mode u) s)) \<le> BATCH_GROUP_LIMIT"
    using due unfolding due_in_sweep_def by (auto split: option.splits)
  let ?s = "reap s"
  have ev: "evolves s ?s" by (rule evolves_reap)
  have same: "owner ?s = owner s" "event_of ?s = event_of s" "owner_id ?s = owner_id s" "user_zone ?s = user_zone s"
    using evolves_same [OF ev refl] by (auto simp: fun_eq_iff owner_id_def user_zone_def)
  have att: "unspent x" and act: "rc_active u" using b(1) u(1) by (simp_all add: batchable_def unspent_def)
  have x1: "x \<in> set (no_deliveries ?s)"
    unfolding reap_def reap_deactivated_recipients_def
    by (rule keep_row [OF keep_row_reap [OF x att]]) (use act u(1) evolves_same(1) [OF evolves_reap_exhausted refl] in simp)
  have oid: "owner_id s x = rc_id u" using u(1) by (rule owner_owner_id)
  have w: "x \<in> set (waiting_rows now P s)" if "P u" for P using x b u(1) that by (simp add: waiting_rows_def)
  obtain k where k: "k \<in> set (due_digests env now ?s)" "fst k = rc_id u" "snd k = None \<or> snd k = Some (event_of s x)"
  proof (cases "is_digest_mode u")
    case True
    have "owner_id ?s x \<in> set (due_daily_digest_users env now ?s)"
      by (rule daily_is_due [OF _ u(2)]) (use True w d in \<open>simp_all add: waiting_reap same oid\<close>)
    then show thesis using that [of "(rc_id u, None)"] by (auto simp: due_digests_def same oid)
  next
    case False
    have "(owner_id ?s x, event_of ?s x) \<in> set (rolling_due now ?s)"
      by (rule rolling_is_due [OF _ u(2)]) (use False w d in \<open>simp_all add: waiting_reap same\<close>)
    then show thesis using that [of "(rc_id u, Some (event_of s x))"] by (force simp: due_digests_def same oid)
  qed
  have "dl_id x \<in> set (wanted_rows now (fst k) (snd k) ?s)"
    using k(2,3) b u(1) by (auto simp: wanted_iff [OF charged_reap [OF c] x1] batchable_evolves [OF ev] same)
  then have "\<exists>k \<in> set (due_digests env now ?s). dl_id x \<in> set (wanted_rows now (fst k) (snd k) ?s)" using k(1) by blast
  from send_groups_row [OF charged_reap [OF c] x1 _ this, of env 0] b(1)
  show ?thesis by (simp add: send_batched_email_digests_def Let_def batchable_evolves [OF ev])
qed

text \<open>
  C23. A sweep gets to what is due: a queued mail that has waited through its window, or through the digest hour of
  its user, is attempted by the next sweep, unless more groups are waiting than one sweep takes.
\<close>

theorem due_mail_is_attempted:
  assumes "s = foldl note_step (new_notifier us mx) es" and "x \<in> set (no_deliveries s)" and "due_in_sweep env now s x"
    and "send_batched_email_digests env now s = (n, s')"
  shows "\<exists>x' \<in> set (no_deliveries s'). dl_id x' = dl_id x \<and> dl_attempts x < dl_attempts x'"
proof -
  have "charged {} s" unfolding assms(1) by (rule notifying.run_inv [OF charged_new])
  from due_is_attempted [OF this assms(2,3)] assms(4) show ?thesis by (auto simp: aged_def)
qed

section \<open>Leaving digest mode\<close>

definition sweeps :: "(notify_env \<times> instant) list \<Rightarrow> notifier \<Rightarrow> notifier" where
  "sweeps ts s = foldl (\<lambda>s (env, now). snd (send_batched_email_digests env now s)) s ts"

lemma evolves_sweep: "evolves s (snd (send_batched_email_digests env now s))"
proof -
  have "evolves (reap s) (snd (send_groups env now ks (0, reap s)))" for ks
    using evolves_send_groups [of "(0, reap s)"] by simp
  then show ?thesis unfolding send_batched_email_digests_def Let_def by (rule evolves_trans [OF evolves_reap])
qed

lemma not_mailed:
  assumes c: "charged {} s" and x: "x \<in> set (no_deliveries s)" "owner s x = Some u" "\<not> is_digest_mode u"
    "event_of s x \<notin> set BATCHED_EMAIL_EVENTS"
  shows "mails_of (dl_id x) (snd (send_batched_email_digests env now s)) = mails_of (dl_id x) s"
proof -
  obtain new where new: "no_log (snd (send_batched_email_digests env now s)) = no_log s @ new" "\<forall>m \<in> set new. mailable s m"
    using sweep_log [OF c] by blast
  have "dl_id x \<notin> set (snd m)" if "m \<in> set new" for m
  proof
    assume i: "dl_id x \<in> set (snd m)"
    have "mailable s m" using new(2) that by simp
    from mailable_row [OF this i] obtain y r where r: "r \<in> set (no_deliveries s)" "dl_id r = dl_id x" "owner s r = Some y"
        "is_digest_mode y \<or> event_of s r \<in> set BATCHED_EMAIL_EVENTS" by blast
    have "r = x" by (rule distinct_key_eq [OF rows_distinct [OF c] r(1) x(1) r(2)])
    then have "owner s x = Some y" "is_digest_mode y \<or> event_of s x \<in> set BATCHED_EMAIL_EVENTS" using r(3,4) by simp_all
    then show False using x(2-4) by simp
  qed
  then have "dl_id x \<notin> set (concat (map snd new))" by auto
  then have "count_list (concat (map snd new)) (dl_id x) = 0" by simp
  then show ?thesis unfolding mails_of_def new(1) by simp
qed

text \<open>
  C24. Leaving digest mode loses what is queued: mail of a kind of event that has no batch heading, queued while its
  user was in digest mode, is never mailed once the user has left it, however often the sweep runs; it is
  attempted three times and given up.
\<close>

theorem leaving_digest_mode_loses_mail:
  assumes "s = foldl note_step (new_notifier us mx) es" and "x \<in> set (no_deliveries s)" and "owner s x = Some u"
    and "\<not> is_digest_mode u" and "event_of s x \<notin> set BATCHED_EMAIL_EVENTS"
  shows "mails_of (dl_id x) (sweeps ts s) = mails_of (dl_id x) s"
proof -
  have c: "charged {} s" unfolding assms(1) by (rule notifying.run_inv [OF charged_new])
  from c assms(2-5) show ?thesis
  proof (induction ts arbitrary: s x)
    case (Cons e ts)
    obtain env now where e: "e = (env, now)" by fastforce
    let ?s = "snd (send_batched_email_digests env now s)"
    have ev: "evolves s ?s" by (rule evolves_sweep)
    obtain x' where x': "x' \<in> set (no_deliveries ?s)" "aged x x'" using evolves_row_forward [OF ev Cons.prems(2)] .
    then have i: "dl_id x' = dl_id x" "dl_notice x' = dl_notice x" by (simp_all add: aged_def)
    have "mails_of (dl_id x') (sweeps ts ?s) = mails_of (dl_id x') ?s"
      by (rule Cons.IH [OF charged_sweep [OF Cons.prems(1)] x'(1)])
        (use Cons.prems(3-5) evolves_same [OF ev i(2)] in auto)
    then show ?case using not_mailed [OF Cons.prems, of env now] by (simp add: sweeps_def e i(1))
  qed (simp add: sweeps_def)
qed

section \<open>A dispatch that is cut short\<close>

definition cut_short :: "notice_delivery \<Rightarrow> bool" where
  \<comment> \<open>what a worker leaves that dies in the first dispatch of an inline delivery\<close>
  "cut_short x \<longleftrightarrow> dl_status x = PENDING_DELIVERY \<and> dl_next_retry_at x = None \<and> dl_queued_at x = None"

lemma attempt_frame [simp]:
  "no_next (snd (attempt_delivery env now r s)) = no_next s" "no_notices (snd (attempt_delivery env now r s)) = no_notices s"
  by (auto simp: attempt_delivery_def mail_out_def split: option.split channel.split prod.split)

lemma begin_frame [simp]: "no_next (begin_dispatch r s) = no_next s" "no_notices (begin_dispatch r s) = no_notices s"
  by (simp_all add: begin_dispatch_def update_delivery_def)

lemma settle_frame [simp]:
  "no_next (settle_dispatch now r out s) = no_next s" "no_notices (settle_dispatch now r out s) = no_notices s"
  by (auto simp: settle_dispatch_def update_delivery_def Let_def split: outcome.split)

lemma dispatch_frame [simp]: "no_next (dispatch env now r s) = no_next s" "no_notices (dispatch env now r s) = no_notices s"
  by (simp_all add: dispatch_def split_beta)

lemma die_in_dispatch_frame [simp]: "no_notices (die_in_dispatch made env now r s) = no_notices s"
  by (simp add: die_in_dispatch_def Let_def)

lemma notices_dispatch_all [simp]: "no_notices (fold (dispatch env now) rs s) = no_notices s"
  by (induction rs arbitrary: s) auto

lemma notices_deliver_all [simp]: "no_notices (fold (deliver_on env now digest n event) cs s) = no_notices s"
  by (induction cs arbitrary: s) (auto simp: deliver_on_def Let_def)

lemma deliver_on_others:
  assumes "x \<in> set (no_deliveries s)" and "dl_id x < no_next s"
  shows "x \<in> set (no_deliveries (deliver_on env now digest n event c s))" and "no_next s \<le> no_next (deliver_on env now digest n event c s)"
proof -
  let ?s = "\<lambda>r. s\<lparr>no_deliveries := no_deliveries s @ [r], no_next := Suc (no_next s)\<rparr>"
  have "x \<in> set (no_deliveries (dispatch env now (new_delivery (no_next s) n c q) (?s (new_delivery (no_next s) n c q))))" for q
    by (rule dispatch_others) (use assms in \<open>auto simp: new_delivery_def\<close>)
  then show "x \<in> set (no_deliveries (deliver_on env now digest n event c s))" using assms(1) by (simp add: deliver_on_def Let_def)
  show "no_next s \<le> no_next (deliver_on env now digest n event c s)" by (simp add: deliver_on_def Let_def)
qed

lemma deliver_all_others:
  assumes "x \<in> set (no_deliveries s)" and "dl_id x < no_next s"
  shows "x \<in> set (no_deliveries (fold (deliver_on env now digest n event) cs s)) \<and>
    dl_id x < no_next (fold (deliver_on env now digest n event) cs s)"
  using assms
proof (induction cs arbitrary: s)
  case (Cons c cs)
  show ?case using Cons.IH [OF deliver_on_others(1) [OF Cons.prems]] deliver_on_others(2) [OF Cons.prems] Cons.prems(2)
    by (simp add: order_less_le_trans)
qed simp

lemma die_in_dispatch_others:
  "x \<in> set (no_deliveries s) \<Longrightarrow> dl_id x \<noteq> dl_id r \<Longrightarrow> x \<in> set (no_deliveries (die_in_dispatch made env now r s))"
  by (force simp: die_in_dispatch_def Let_def begin_dispatch_def rows_update_delivery rows_attempt)

definition keeps_user :: "nat \<Rightarrow> note_event \<Rightarrow> bool" where
  "keeps_user k e \<longleftrightarrow> (case e of Site_changes us ps mx \<Rightarrow> k \<in> rc_id ` set us | _ \<Rightarrow> True)"

definition notice_of :: "notice_delivery \<Rightarrow> nat \<Rightarrow> notifier \<Rightarrow> bool" where
  "notice_of x k s \<longleftrightarrow> (\<exists>n \<in> set (no_notices s). nc_id n = dl_notice x \<and> nc_user n = k)"

lemma notice_of_mono: "set (no_notices s) \<subseteq> set (no_notices s') \<Longrightarrow> notice_of x k s \<Longrightarrow> notice_of x k s'"
  unfolding notice_of_def by blast

lemma below_next: "charged A s \<Longrightarrow> x \<in> set (no_deliveries s) \<Longrightarrow> dl_id x < no_next s"
  using charged_row(1) [of A s "dl_id x" "dl_attempts x"] by (simp add: tally_def)

lemma notify_keeps:
  assumes "x \<in> set (no_deliveries s)" and "dl_id x < no_next s"
  shows "x \<in> set (no_deliveries (snd (notify env now user event title body data s)))"
    and "set (no_notices s) \<subseteq> set (no_notices (snd (notify env now user event title body data s)))"
  using deliver_all_others assms by (auto simp: notify_def Let_def split: option.split)

lemma die_in_notify_keeps:
  assumes "x \<in> set (no_deliveries s)" and "dl_id x < no_next s"
  shows "x \<in> set (no_deliveries (die_in_notify j made env now u event title body data s))"
    and "set (no_notices s) \<subseteq> set (no_notices (die_in_notify j made env now u event title body data s))"
proof -
  define s1 where "s1 = s\<lparr>no_notices := no_notices s @ [\<lparr>nc_id = no_next s, nc_user = rc_id u, nc_event = event, nc_title = title,
                  nc_body = body, nc_data = data, nc_read_at = None\<rparr>], no_next := Suc (no_next s)\<rparr>"
  define cs where "cs = channels_to_dispatch env now u event s1"
  define s2 where "s2 = fold (deliver_on env now (is_digest_mode u) (no_next s) event) (take j cs) s1"
  have "x \<in> set (no_deliveries s1)" "dl_id x < no_next s1" using assms by (simp_all add: s1_def)
  then have k: "x \<in> set (no_deliveries s2)" "dl_id x < no_next s2" using deliver_all_others by (simp_all add: s2_def)
  have e: "die_in_notify j made env now u event title body data s =
      (if j < length cs then die_in_dispatch made env now (new_delivery (no_next s2) (no_next s) (cs ! j) None)
         (s2\<lparr>no_deliveries := no_deliveries s2 @ [new_delivery (no_next s2) (no_next s) (cs ! j) None], no_next := Suc (no_next s2)\<rparr>)
       else s2)"
    by (simp add: die_in_notify_def Let_def s1_def cs_def s2_def)
  show "x \<in> set (no_deliveries (die_in_notify j made env now u event title body data s))"
    unfolding e using k by (auto simp: new_delivery_def intro!: die_in_dispatch_others)
  show "set (no_notices s) \<subseteq> set (no_notices (die_in_notify j made env now u event title body data s))"
    unfolding e by (auto simp: s2_def s1_def)
qed

lemma retry_keeps:
  assumes c: "charged {} s" and x: "x \<in> set (no_deliveries s)" "dl_next_retry_at x = None" and rs: "set rs \<subseteq> set (due_retries now s)" "distinct (map dl_id rs)"
  shows "x \<in> set (no_deliveries (fold (dispatch env now) rs s))" and "dl_id x \<notin> dl_id ` set (due_retries now s)"
proof -
  note p = due_retries_props [OF c, where now = now]
  have due: "r \<in> set (due_retries now s) \<Longrightarrow> dl_next_retry_at r \<noteq> None" for r
    by (auto simp: due_retries_def dest!: in_set_takeD split: option.splits)
  show n: "dl_id x \<notin> dl_id ` set (due_retries now s)"
  proof
    assume "dl_id x \<in> dl_id ` set (due_retries now s)"
    then obtain r where r: "r \<in> set (due_retries now s)" "dl_id r = dl_id x" by force
    have "r = x" by (rule distinct_key_eq [OF rows_distinct [OF c] _ x(1) r(2)]) (use r(1) p(1) in blast)
    then show False using due [OF r(1)] x(2) by simp
  qed
  show "x \<in> set (no_deliveries (fold (dispatch env now) rs s))"
    by (rule charged_dispatch_all(2) [OF c _ rs(2) _ x(1)]) (use rs(1) p n in auto)
qed

lemma die_in_retry_keeps:
  assumes c: "charged {} s" and x: "x \<in> set (no_deliveries s)" "dl_next_retry_at x = None"
  shows "x \<in> set (no_deliveries (die_in_retry j made env now s))"
proof -
  let ?rs = "due_retries now s"
  have "distinct (map dl_id (take j ?rs))" using due_retries_props(2) [OF c] by (simp add: take_map [symmetric])
  note k = retry_keeps [OF c x set_take_subset this]
  have "j < length ?rs \<Longrightarrow> dl_id x \<noteq> dl_id (?rs ! j)" using k(2) by (metis image_eqI nth_mem)
  then show ?thesis using die_in_dispatch_others [OF k(1)] k(1) by (auto simp: die_in_retry_def Let_def)
qed

lemma send_groups_keeps:
  assumes "charged {} s" and "x \<in> set (no_deliveries s)" and "\<not> queued_mail x"
  shows "x \<in> set (no_deliveries (snd (send_groups env now ks (n, s))))"
  using assms
proof (induction ks arbitrary: n s)
  case (Cons k ks)
  obtain u event where k: "k = (u, event)" by fastforce
  obtain ok s1 where o: "send_one_digest env now k s = (ok, s1)" by fastforce
  have "dl_id x \<notin> set (wanted_rows now u event s)"
    using wanted_row(1) [OF Cons.prems(1,2)] Cons.prems(3) by (auto simp: batchable_def)
  then have "x \<in> set (no_deliveries s1)"
    using send_one_row(1) [OF Cons.prems(1,2), of now u event env] Cons.prems(3) o k by (simp add: unspent_def)
  moreover have "charged {} s1" using charged_send_one [OF Cons.prems(1), of env now k] by (simp add: o)
  ultimately show ?case using Cons.IH [of s1] Cons.prems(3) by (simp add: send_groups_def o)
qed (simp add: send_groups_def)

lemma reap_keeps: "x \<in> set (no_deliveries s) \<Longrightarrow> \<not> queued_mail x \<Longrightarrow> x \<in> set (no_deliveries (reap s))"
  unfolding reap_def reap_deactivated_recipients_def by (intro keep_row keep_row_reap) (auto simp: unspent_def)

lemma die_in_digest_keeps:
  assumes c: "charged {} s" and x: "x \<in> set (no_deliveries s)" "\<not> queued_mail x"
  shows "x \<in> set (no_deliveries (die_in_digest made env now k s))"
proof -
  let ?ids = "wanted_rows now (fst k) (snd k) s"
  obtain rows s1 where cl: "claim_digest now ?ids s = (rows, s1)" by fastforce
  have n: "dl_id x \<notin> set ?ids" using wanted_row(1) [OF c x(1)] x(2) by (auto simp: batchable_def)
  have "x \<in> set (no_deliveries s1)" using cl x(1) n by (auto simp: claim_digest_def Let_def claim_rows_def intro: keep_row)
  moreover have "dl_id ` set rows = set ?ids" using claimed_ids [OF c] cl by (metis claim_digest_def fst_conv set_map)
  ultimately show ?thesis using keep_row_mail_digest(1) [of x s1 rows env now "snd k"] n by (simp add: die_in_digest_def cl)
qed

lemma cut_short_step:
  assumes c: "charged {} s" and x: "x \<in> set (no_deliveries s)" "cut_short x" "notice_of x k s" and e: "keeps_user k e"
  shows "x \<in> set (no_deliveries (note_step s e)) \<and> notice_of x k (note_step s e)"
proof -
  have lt: "dl_id x < no_next s" by (rule below_next [OF c x(1)])
  have q: "\<not> queued_mail x" and nr: "dl_next_retry_at x = None" using x(2) by (simp_all add: cut_short_def queued_mail_def)
  have same: "notice_of x k s'" if "no_notices s' = no_notices s" for s' using x(3) that by (simp add: notice_of_def)
  show ?thesis
  proof (cases e)
    case (Notifies env now user event title body data)
    then show ?thesis using notify_keeps [OF x(1) lt] notice_of_mono [OF _ x(3)] by simp
  next
    case (Notify_dies j made env now u event title body data)
    then show ?thesis using die_in_notify_keeps [OF x(1) lt] notice_of_mono [OF _ x(3)] by simp
  next
    case (Retries env now)
    have "x \<in> set (no_deliveries (fold (dispatch env now) (due_retries now s) s))"
      by (rule retry_keeps(1) [OF c x(1) nr subset_refl due_retries_props(2) [OF c]])
    then show ?thesis using Retries same by (simp add: retry_failed_deliveries_def)
  next
    case (Retry_dies j made env now)
    have "no_notices (die_in_retry j made env now s) = no_notices s" by (simp add: die_in_retry_def Let_def)
    then show ?thesis using die_in_retry_keeps [OF c x(1) nr] Retry_dies same by simp
  next
    case (Sweeps env now)
    have "no_notices (snd (send_batched_email_digests env now s)) = no_notices s" using evolves_sweep by (simp add: evolves_def)
    moreover have "x \<in> set (no_deliveries (snd (send_batched_email_digests env now s)))"
      unfolding send_batched_email_digests_def Let_def by (rule send_groups_keeps [OF charged_reap [OF c] reap_keeps [OF x(1) q] q])
    ultimately show ?thesis using Sweeps same by simp
  next
    case (Sweep_dies j made env now)
    let ?ks = "due_digests env now (reap s)"
    let ?s = "snd (send_groups env now (take j ?ks) (0, reap s))"
    have c2: "charged {} ?s" by (rule charged_send_groups) (simp add: charged_reap [OF c])
    have x2: "x \<in> set (no_deliveries ?s)" by (rule send_groups_keeps [OF charged_reap [OF c] reap_keeps [OF x(1) q] q])
    have ev: "evolves s ?s" using evolves_trans [OF evolves_reap evolves_send_groups [of "(0, reap s)", simplified]] .
    have "evolves t (die_in_digest made env now g t)" for t g
    proof -
      obtain rows t1 where cl: "claim_digest now (wanted_rows now (fst g) (snd g) t) t = (rows, t1)" by fastforce
      then have "evolves t t1" using evolves_claim by (auto simp: claim_digest_def Let_def)
      then show ?thesis using evolves_trans [OF _ evolves_mail_digest] by (simp add: die_in_digest_def cl)
    qed
    note ev2 = evolves_trans [OF ev this]
    have d: "die_in_sweep j made env now s = (if j < length ?ks then die_in_digest made env now (?ks ! j) ?s else ?s)"
      by (simp only: die_in_sweep_def Let_def)
    have "evolves s (die_in_sweep j made env now s)" unfolding d by (rule if_split [THEN iffD2]) (use ev ev2 in blast)
    moreover have "x \<in> set (no_deliveries (die_in_sweep j made env now s))"
      unfolding d by (rule if_split [THEN iffD2]) (use x2 die_in_digest_keeps [OF c2 x2 q] in blast)
    ultimately show ?thesis using Sweep_dies same by (simp add: evolves_def)
  next
    case (Reads now u)
    obtain n where n: "n \<in> set (no_notices s)" "nc_id n = dl_notice x" "nc_user n = k" using x(3) by (auto simp: notice_of_def)
    let ?n = "if nc_user n = u \<and> nc_read_at n = None then n\<lparr>nc_read_at := Some now\<rparr> else n"
    have "?n \<in> set (no_notices (mark_all_read now u s))" using n(1) by (auto simp: mark_all_read_def tbl_update_def)
    moreover have "nc_id ?n = dl_notice x" "nc_user ?n = k" using n by auto
    ultimately have "notice_of x k (mark_all_read now u s)" unfolding notice_of_def by blast
    then show ?thesis using Reads x(1) by (simp add: mark_all_read_def)
  next
    case (Site_changes us ps mx)
    then have "k \<in> rc_id ` set us" using e by (simp add: keeps_user_def)
    then have "notice_of x k (site_change us ps mx s)" using x(3) by (auto simp: notice_of_def site_change_def Let_def)
    moreover have "x \<in> set (no_deliveries (site_change us ps mx s))"
    proof -
      obtain n where "n \<in> set (filter (\<lambda>n. nc_user n \<in> set (map rc_id us)) (no_notices s))" "nc_id n = dl_notice x"
        using \<open>notice_of x k (site_change us ps mx s)\<close> by (auto simp: notice_of_def site_change_def Let_def)
      then have "dl_notice x \<in> set (map nc_id (filter (\<lambda>n. nc_user n \<in> set (map rc_id us)) (no_notices s)))"
        unfolding set_map by (metis image_eqI set_map)
      then show ?thesis using x(1) by (simp add: site_change_def Let_def)
    qed
    ultimately show ?thesis using Site_changes by simp
  qed
qed

text \<open>
  C25. A dispatch that is cut short is never made good: when the worker dies in the first dispatch of a mail or a
  webhook, the delivery stays pending as it is whatever the engine runs afterwards, as long as its user exists.
\<close>

theorem cut_short_dispatch_is_stranded:
  assumes "s = foldl note_step (new_notifier us mx) es" and "x \<in> set (no_deliveries s)" and "cut_short x"
    and "notice_of x k s" and "list_all (keeps_user k) later"
  shows "x \<in> set (no_deliveries (foldl note_step s later))"
proof -
  have "charged {} s" unfolding assms(1) by (rule notifying.run_inv [OF charged_new])
  from this assms(2-5) show ?thesis
  proof (induction later arbitrary: s)
    case (Cons e later)
    show ?case using Cons.IH [OF charged_step [OF Cons.prems(1)]] cut_short_step [OF Cons.prems(1-4)] Cons.prems(3,5) by simp
  qed simp
qed

section \<open>Digest mode\<close>

lemma log_dispatch:
  "dl_channel r \<noteq> EMAIL \<Longrightarrow> no_log (dispatch env now r s) = no_log s"
proof -
  assume "dl_channel r \<noteq> EMAIL"
  then have "no_log (snd (attempt_delivery env now r t)) = no_log t" for t
    by (auto simp: attempt_delivery_def split: option.split channel.split)
  moreover have "no_log (settle_dispatch now r out t) = no_log t" for out t
    by (auto simp: settle_dispatch_def update_delivery_def Let_def split: outcome.split)
  ultimately show ?thesis by (simp add: dispatch_def begin_dispatch_def update_delivery_def split_beta)
qed

lemma log_deliver_digest: "no_log (fold (deliver_on env now True n event) cs s) = no_log s"
proof -
  have "no_log (deliver_on env now True n event c t) = no_log t" for c t
    by (auto simp: deliver_on_def Let_def log_dispatch new_delivery_def)
  then show ?thesis by (induction cs arbitrary: s) auto
qed

lemma deliver_queues:
  assumes "EMAIL \<in> set cs" and "charged {} s"
  shows "\<exists>x \<in> set (no_deliveries (fold (deliver_on env now True n event) cs s)). dl_notice x = n \<and> queued_mail x \<and> dl_attempts x = 0"
proof -
  obtain as bs where cs: "cs = as @ EMAIL # bs" using assms(1) by (meson split_list)
  let ?s = "fold (deliver_on env now True n event) as s"
  let ?x = "new_delivery (no_next ?s) n EMAIL (Some now)"
  let ?t = "deliver_on env now True n event EMAIL ?s"
  have "?x \<in> set (no_deliveries ?t)" "dl_id ?x < no_next ?t"
    by (simp_all add: deliver_on_def Let_def new_delivery_def)
  then have "?x \<in> set (no_deliveries (fold (deliver_on env now True n event) bs ?t))" using deliver_all_others by blast
  then show ?thesis unfolding cs by (intro bexI [of _ ?x]) (auto simp: new_delivery_def queued_mail_def)
qed

text \<open>
  C26. A user in digest mode is never mailed at once and loses nothing to quiet hours: a notification leaves the
  mail alone and, unless its mail is switched off, waits in the queue with all its attempts.
\<close>

theorem digest_mode_queues_all_mail:
  assumes "s = foldl note_step (new_notifier us mx) es" and "get_recipient k s = Some u" and "is_digest_mode u"
    and "notify env now (Some k) event title body data s = (Notified n, s')"
  shows "no_log s' = no_log s \<and> (EMAIL \<in> set (resolve_channels k event s) \<longrightarrow>
    (\<exists>x \<in> set (no_deliveries s'). dl_notice x = n \<and> queued_mail x \<and> dl_attempts x = 0))"
proof -
  define s1 where "s1 = s\<lparr>no_notices := no_notices s @ [\<lparr>nc_id = no_next s, nc_user = rc_id u, nc_event = event, nc_title = title,
                       nc_body = body, nc_data = data, nc_read_at = None\<rparr>], no_next := Suc (no_next s)\<rparr>"
  have "charged {} s" unfolding assms(1) by (rule notifying.run_inv [OF charged_new])
  then have c: "charged {} s1" unfolding s1_def by (rule charged_notice)
  have u: "rc_id u = k" by (rule get_recipient_id [OF assms(2)])
  have r: "n = no_next s" "s' = fold (deliver_on env now True n event) (channels_to_dispatch env now u event s1) s1"
    using assms(2-4) by (auto simp: notify_def s1_def Let_def split: if_splits)
  have "EMAIL \<in> set (resolve_channels k event s) \<Longrightarrow> EMAIL \<in> set (channels_to_dispatch env now u event s1)"
    using assms(3) by (auto simp: channels_to_dispatch_def Let_def u resolve_channels_def s1_def)
  then show ?thesis using deliver_queues [OF _ c] log_deliver_digest r by (simp add: s1_def)
qed

section \<open>Retries and overlapping sweeps\<close>

text \<open>A retry asks nothing again: a mail that failed goes to a user who has switched it off or whose account is closed.\<close>

lemma retry_mails_whoever:
  assumes "due_retries now s = [r]" and "dl_channel r = EMAIL" and "get_notice (dl_notice r) s = Some n"
    and "get_recipient (nc_user n) s = Some u"
  shows "no_log (snd (retry_failed_deliveries env now s)) = no_log s @ [(rc_email u, [dl_id r])]"
proof -
  have "no_log (settle_dispatch now r out t) = no_log t" for out t
    by (auto simp: settle_dispatch_def update_delivery_def Let_def split: outcome.split)
  moreover have "get_notice (dl_notice r) (begin_dispatch r s) = Some n" "get_recipient (nc_user n) (begin_dispatch r s) = Some u"
    "no_log (begin_dispatch r s) = no_log s"
    using assms(3,4) by (simp_all add: begin_dispatch_def update_delivery_def get_notice_def get_recipient_def)
  ultimately show ?thesis
    using assms(1,2) by (simp add: retry_failed_deliveries_def dispatch_def attempt_delivery_def log_mail_out split_beta)
qed

text \<open>
  A claim asks only for the rows listed before and that nobody holds them: a row another sweep has given up or
  cancelled in between, and thereby released, is claimed and goes out with the rest.
\<close>

lemma late_claim_takes_settled_rows:
  assumes "x \<in> set (no_deliveries s)" and "dl_claimed_at x = None" and "dl_id x \<in> set ids"
  shows "x\<lparr>dl_claimed_at := Some now, dl_attempts := Suc (dl_attempts x)\<rparr> \<in> set (fst (claim_digest now ids s))"
  using assms by (auto simp: claim_digest_def Let_def claimed_rows_def claim_rows_def update_deliveries_def tbl_update_def
      unclaimed_def intro!: image_eqI [of _ _ x])

section \<open>Witnesses\<close>

text \<open>A user in digest mode is told of a rejected post; later the digest is due, or the user has left digest mode.\<close>

definition calm_env :: notify_env where
  "calm_env = \<lparr>ne_mail = \<lparr>me_cfg = [], me_sha = (\<lambda>s. s), me_inner = (\<lambda>ms. Some (length ms)), me_fails = (\<lambda>_. False),
       me_lookup_fails = False\<rparr>, ne_mail_error = [], ne_zone = (\<lambda>_. Some UTC), ne_safe_url = (\<lambda>_. True),
     ne_webhook = (\<lambda>_ _. Inr 200)\<rparr>"

definition reader :: "bool \<Rightarrow> recipient" where
  "reader digest = \<lparr>rc_id = 1, rc_email = ''a@x'', rc_active = True, rc_quiet = Some (no_quiet_hours\<lparr>qh_digest := digest\<rparr>)\<rparr>"

definition told :: "note_event list" where
  "told = [Notifies calm_env 0 (Some 1) ''post_rejected'' ''No'' [] []]"

definition empty_box :: mailbox where
  "empty_box = \<lparr>mx_counters = [], mx_suppressed = [], mx_log = []\<rparr>"

abbreviation waiting :: notifier where
  "waiting \<equiv> foldl note_step (new_notifier [reader True] empty_box) told"

definition left_digest :: "note_event list" where
  "left_digest = told @ [Site_changes [reader False] [] empty_box]"

theorem digests_hold_what_is_wanted_witness:
  "\<exists>new. no_log (snd (send_batched_email_digests calm_env (days 1) waiting)) = no_log waiting @ new \<and>
    (\<forall>m \<in> set new. mailable waiting m) \<and> new = [(''a@x'', [2])]"
proof -
  obtain n s' where r: "send_batched_email_digests calm_env (days 1) waiting = (n, s')" by fastforce
  from digests_hold_what_is_wanted [OF refl r] obtain new where
    new: "no_log s' = no_log waiting @ new" "\<forall>m \<in> set new. mailable waiting m" by blast
  have "no_log (snd (send_batched_email_digests calm_env (days 1) waiting)) = [(''a@x'', [2])]" "no_log waiting = []" by code_simp+
  with new r show ?thesis by simp
qed

theorem due_mail_is_attempted_witness:
  "\<exists>x' \<in> set (no_deliveries (snd (send_batched_email_digests calm_env (days 1) waiting))). dl_id x' = 2 \<and> 0 < dl_attempts x'"
proof -
  obtain n s' where r: "send_batched_email_digests calm_env (days 1) waiting = (n, s')" by fastforce
  let ?x = "no_deliveries waiting ! 1"
  have "length (no_deliveries waiting) = 2" by code_simp
  then have x: "?x \<in> set (no_deliveries waiting)" by simp
  have d: "due_in_sweep calm_env (days 1) waiting ?x" by code_simp
  have "dl_id ?x = 2" by code_simp
  with due_mail_is_attempted [OF refl x d r] r show ?thesis by auto
qed

theorem leaving_digest_mode_loses_mail_witness:
  "let s = foldl note_step (new_notifier [reader True] empty_box) left_digest;
       s' = sweeps [(calm_env, seconds 400), (calm_env, seconds 500), (calm_env, seconds 600), (calm_env, seconds 700)] s
   in mails_of 2 s' = 0 \<and> map dl_status (no_deliveries s') = [DELIVERED, FAILED_DELIVERY] \<and> \<not> is_digest_mode (reader False)"
proof -
  let ?s = "foldl note_step (new_notifier [reader True] empty_box) left_digest" and ?x = "no_deliveries (foldl note_step (new_notifier [reader True] empty_box) left_digest) ! 1"
  let ?ts = "[(calm_env, seconds 400), (calm_env, seconds 500), (calm_env, seconds 600), (calm_env, seconds 700)]"
  have "length (no_deliveries ?s) = 2" by code_simp
  then have x: "?x \<in> set (no_deliveries ?s)" by simp
  have h: "owner ?s ?x = Some (reader False)" "\<not> is_digest_mode (reader False)" "event_of ?s ?x \<notin> set BATCHED_EMAIL_EVENTS" by code_simp+
  have "dl_id ?x = 2" "mails_of 2 ?s = 0" by code_simp+
  with leaving_digest_mode_loses_mail [OF refl x h, of ?ts] have "mails_of 2 (sweeps ?ts ?s) = 0" by simp
  moreover have "map dl_status (no_deliveries (sweeps ?ts ?s)) = [DELIVERED, FAILED_DELIVERY]" by code_simp
  ultimately show ?thesis using h(2) by (simp add: Let_def)
qed

definition killed :: "note_event list" where
  \<comment> \<open>the worker is killed in the mail of a notification, before or after it has gone out\<close>
  "killed = [Notify_dies 1 True calm_env 0 (reader False) ''post_rejected'' ''No'' [] []]"

theorem cut_short_dispatch_is_stranded_witness:
  "let s = foldl note_step (new_notifier [reader False] empty_box) killed; x = no_deliveries s ! 1;
       later = [Retries calm_env (days 1), Sweeps calm_env (days 2), Reads 5 1, Retries calm_env (days 3)]
   in cut_short x \<and> dl_attempts x = 1 \<and> x \<in> set (no_deliveries (foldl note_step s later))"
proof -
  let ?s = "foldl note_step (new_notifier [reader False] empty_box) killed"
  let ?x = "no_deliveries ?s ! 1"
  let ?later = "[Retries calm_env (days 1), Sweeps calm_env (days 2), Reads 5 1, Retries calm_env (days 3)]"
  have "length (no_deliveries ?s) = 2" by code_simp
  then have x: "?x \<in> set (no_deliveries ?s)" by simp
  have h: "cut_short ?x" "notice_of ?x 1 ?s" "dl_attempts ?x = 1" by code_simp+
  have l: "list_all (keeps_user 1) ?later" by (simp add: keeps_user_def)
  from cut_short_dispatch_is_stranded [OF refl x h(1,2) l] h show ?thesis by (simp add: Let_def)
qed

theorem digest_mode_queues_all_mail_witness:
  "\<exists>n s'. notify calm_env 7 (Some 1) ''report_generated'' ''Report'' [] [] waiting = (Notified n, s') \<and>
    no_log s' = [] \<and> (\<exists>x \<in> set (no_deliveries s'). dl_notice x = n \<and> queued_mail x \<and> dl_attempts x = 0)"
proof -
  have h: "get_recipient 1 waiting = Some (reader True)" "is_digest_mode (reader True)" by code_simp+
  have "fst (notify calm_env 7 (Some 1) ''report_generated'' ''Report'' [] [] waiting) = Notified 3" by code_simp
  then obtain s' where r: "notify calm_env 7 (Some 1) ''report_generated'' ''Report'' [] [] waiting = (Notified 3, s')" by (metis prod.collapse)
  have "EMAIL \<in> set (resolve_channels 1 ''report_generated'' waiting)" "no_log waiting = []" by code_simp+
  with digest_mode_queues_all_mail [OF refl h r] r show ?thesis by auto
qed

end
