(* ===== verification/Compose_Forms.thy ===== *)
theory Compose_Forms
  imports Requests Calendar_Queue
begin

text \<open>
  The helpers of the composer's views, \<open>apps/composer/views.py\<close>: the accounts and the scope a form
  selects, the read-only rule, the synchronisation of a post's channels with the form, what a post
  lacks before it may be scheduled, versions, queues, and the moves of its channels.
\<close>

section \<open>Accounts and scope\<close>

definition parse_selected_account_ids :: "string \<Rightarrow> string list" where
  "parse_selected_account_ids raw = filter is_valid_uuid (tag_parts raw)"

definition selected_accounts :: "request \<Rightarrow> string list" where
  "selected_accounts rq = parse_selected_account_ids (post_get ''selected_accounts'' [] rq)"

definition selected_keys :: "request \<Rightarrow> nat list" where
  \<comment> \<open>the keys the lookups with these texts compare with\<close>
  "selected_keys rq = somes (map parse_uuid (selected_accounts rq))"

definition account_scope :: "request \<Rightarrow> nat option option" where
  \<comment> \<open>\<open>None\<close> where it raises \<open>SuspiciousOperation\<close>, \<open>Some None\<close> for no scope\<close>
  "account_scope rq =
    (let s = post_text ''account_scope'' rq in if s = [] then Some None else map_option Some (parse_uuid s))"

definition in_scope :: "nat option \<Rightarrow> platform_post \<Rightarrow> bool" where
  "in_scope sc p = (case sc of None \<Rightarrow> True | Some a \<Rightarrow> pp_account p = a)"

definition delete_pps :: "(platform_post \<Rightarrow> bool) \<Rightarrow> db \<Rightarrow> db" where
  \<comment> \<open>\<open>.delete()\<close> of a queryset of \<open>PlatformPost\<close>: publish logs and approval actions cascade\<close>
  "delete_pps P d =
    (let gone = set (map pp_id (filter P (db_pps d))) in
     d\<lparr>db_pps := tbl_delete P (db_pps d), db_logs := tbl_delete (\<lambda>l. pl_pp l \<in> gone) (db_logs d),
       db_actions := tbl_delete (\<lambda>a. \<exists>k \<in> gone. aa_pp a = Some k) (db_actions d)\<rparr>)"

definition is_deselected :: "request \<Rightarrow> nat option \<Rightarrow> nat \<Rightarrow> platform_post \<Rightarrow> bool" where
  "is_deselected rq sc po p \<longleftrightarrow>
    pp_post p = po \<and> pp_account p \<notin> set (selected_keys rq) \<and> in_scope sc p \<and>
    pp_status p \<notin> set PROTECTED_STATUSES"

definition remove_deselected_platform_posts :: "request \<Rightarrow> nat \<Rightarrow> db \<Rightarrow> db option" where
  "remove_deselected_platform_posts rq po d =
    (case account_scope rq of
       None \<Rightarrow> None
     | Some sc \<Rightarrow> Some (delete_pps (is_deselected rq sc po) d))"

definition scoped_platform_post_ids :: "nat option \<Rightarrow> nat \<Rightarrow> db \<Rightarrow> nat list option" where
  "scoped_platform_post_ids sc po d =
    (case sc of
       None \<Rightarrow> None
     | Some a \<Rightarrow> Some (map pp_id (filter (\<lambda>p. pp_account p = a) (children po d))))"

definition match_scope :: "platform_post list \<Rightarrow> nat option \<Rightarrow> platform_post list" where
  "match_scope cs sc = filter (in_scope sc) cs"

definition gated_children :: "platform_post list \<Rightarrow> nat option \<Rightarrow> platform_post list" where
  "gated_children cs sc = (if match_scope cs sc = [] then cs else match_scope cs sc)"

definition children_are_locked :: "platform_post list \<Rightarrow> bool" where
  "children_are_locked cs \<longleftrightarrow> cs \<noteq> [] \<and> list_all (\<lambda>p. pp_status p \<in> set PROTECTED_STATUSES) cs"

definition children_are_readonly :: "platform_post list \<Rightarrow> bool" where
  "children_are_readonly cs \<longleftrightarrow>
    derive_post_status (map (\<lambda>p. state_value (pp_status p)) cs) \<in> set READONLY_STATUSES"

definition is_readonly_write :: "nat option \<Rightarrow> nat \<Rightarrow> db \<Rightarrow> bool" where
  "is_readonly_write sc po d = children_are_locked (gated_children (children po d) sc)"

section \<open>Synchronising the channels\<close>

definition TIKTOK_PRIVACY_LEVELS :: "string list" where
  "TIKTOK_PRIVACY_LEVELS =
    [''PUBLIC_TO_EVERYONE'', ''MUTUAL_FOLLOW_FRIENDS'', ''FOLLOWER_OF_CREATOR'', ''SELF_ONLY'']"

definition attached_types :: "nat \<Rightarrow> db \<Rightarrow> string list" where
  \<comment> \<open>\<open>post.media_attachments.values_list("media_asset__media_type")\<close>\<close>
  "attached_types po d =
    concat (map (\<lambda>pm. case get_asset (pm_asset pm) d of Some a \<Rightarrow> [ma_media_type a] | None \<Rightarrow> [])
      (sort_key pm_position (filter (\<lambda>pm. pm_post pm = po) (db_media d))))"

definition facebook_extra :: "request \<Rightarrow> string \<Rightarrow> string list \<Rightarrow> pydict \<Rightarrow> pydict" where
  "facebook_extra rq acc types extra =
    (if post_text (''facebook_post_type_'' @ acc) rq = ''reel'' \<and> take 2 types = [''video'']
     then dict_set ''post_type'' (JStr ''reel'') extra
     else dict_pop ''post_type'' extra)"

definition youtube_extra :: "request \<Rightarrow> string \<Rightarrow> pydict" where
  "youtube_extra rq acc =
    (let privacy = post_get (''yt_privacy_status_'' @ acc) ''public'' rq in
     [(''privacy_status'', JStr (if privacy \<in> set [''public'', ''unlisted'', ''private''] then privacy else ''public'')),
      (''self_declared_made_for_kids'', JBool (post_get (''yt_made_for_kids_'' @ acc) [] rq = ''true'')),
      (''tags'', JList (map JStr (parse_and_truncate_youtube_tag_string (post_get (''yt_tags_'' @ acc) [] rq)))),
      (''thumbnail_asset_id'', json_text (post_text_opt (''yt_thumbnail_asset_id_'' @ acc) rq))])"

definition pinterest_extra :: "request \<Rightarrow> string \<Rightarrow> pydict \<Rightarrow> pydict" where
  "pinterest_extra rq acc extra =
    (let board = post_text (''pin_board_id_'' @ acc) rq;
         old = dict_get ''board_id'' extra in
     [(''board_id'', if board \<noteq> [] then JStr board else if json_truthy old then old else JNull),
      (''link_url'', json_text (post_text_opt (''pin_link_url_'' @ acc) rq)),
      (''alt_text'', json_text (post_text_opt (''pin_alt_text_'' @ acc) rq)),
      (''tag_products'', json_text (post_text_opt (''pin_tag_products_'' @ acc) rq)),
      (''allow_comments'', JBool (post_get (''pin_allow_comments_'' @ acc) [] rq = ''true'')),
      (''show_similar_products'', JBool (post_get (''pin_show_similar_'' @ acc) [] rq = ''true'')),
      (''cover_image_asset_id'', json_text (post_text_opt (''pin_cover_image_asset_id_'' @ acc) rq))])"

definition tiktok_extra :: "request \<Rightarrow> string \<Rightarrow> pydict \<Rightarrow> pydict" where
  "tiktok_extra rq acc extra =
    (let given = post_text (''tiktok_privacy_level_'' @ acc) rq;
         privacy = (if given \<in> set TIKTOK_PRIVACY_LEVELS then JStr given
                    else if dict_has ''privacy_level'' extra then dict_get ''privacy_level'' extra else JStr []);
         flag = (\<lambda>k. post_get (k @ acc) [] rq = ''true'');
         cover = (case py_int (post_text (''tiktok_video_cover_timestamp_ms_'' @ acc) rq) of
             None \<Rightarrow> [] | Some n \<Rightarrow> if n \<ge> 0 then [(''video_cover_timestamp_ms'', JNum n)] else []) in
     [(''disable_comment'', JBool (\<not> flag ''tiktok_allow_comment_'')),
      (''disable_duet'', JBool (\<not> flag ''tiktok_allow_duet_'')),
      (''disable_stitch'', JBool (\<not> flag ''tiktok_allow_stitch_'')),
      (''brand_organic_toggle'', JBool (flag ''tiktok_brand_organic_'')),
      (''brand_content_toggle'', JBool (flag ''tiktok_brand_content_'')),
      (''is_aigc'', JBool (flag ''tiktok_is_aigc_''))]
     @ (if json_truthy privacy then [(''privacy_level'', privacy)] else []) @ cover)"

definition child_extra :: "request \<Rightarrow> string \<Rightarrow> string \<Rightarrow> string list \<Rightarrow> pydict \<Rightarrow> pydict" where
  \<comment> \<open>the per-platform branches, the platform the second text\<close>
  "child_extra rq acc platform types extra =
    (if platform = ''facebook'' \<and> post_has (''facebook_panel_'' @ acc) rq then facebook_extra rq acc types extra
     else if platform = ''youtube'' then youtube_extra rq acc
     else if platform = ''pinterest'' then pinterest_extra rq acc extra
     else if platform = ''tiktok'' \<and> post_has (''tiktok_privacy_level_'' @ acc) rq then tiktok_extra rq acc extra
     else extra)"

definition fill_child :: "instant \<Rightarrow> request \<Rightarrow> string \<Rightarrow> string \<Rightarrow> string list \<Rightarrow> platform_post \<Rightarrow> platform_post" where
  "fill_child now rq acc platform types p =
    p\<lparr>pp_title := post_text_opt (''override_title_'' @ acc) rq,
      pp_caption := post_text_opt (''override_caption_'' @ acc) rq,
      pp_first_comment := post_text_opt (''override_comment_'' @ acc) rq,
      pp_extra := child_extra rq acc platform types (pp_extra p), pp_updated_at := now\<rparr>"

definition get_or_create_child :: "instant \<Rightarrow> nat \<Rightarrow> nat \<Rightarrow> pp_state \<Rightarrow> db \<Rightarrow> platform_post \<times> db" where
  \<comment> \<open>\<open>PlatformPost.objects.get_or_create(post, social_account, defaults={"status"})\<close>\<close>
  "get_or_create_child now po a initial d =
    (case child_on po a d of
       Some p \<Rightarrow> (p, d)
     | None \<Rightarrow>
        (let (k, d1) = fresh_id d;
             p = (new_platform_post k po a now)\<lparr>pp_status := initial\<rparr>
         in (p, d1\<lparr>db_pps := db_pps d1 @ [p]\<rparr>)))"

definition workspace_account :: "nat \<Rightarrow> nat \<Rightarrow> db \<Rightarrow> social_account option" where
  \<comment> \<open>\<open>SocialAccount.objects.get(id=..., workspace=workspace)\<close>\<close>
  "workspace_account w a d = tbl_first (\<lambda>x. sa_id x = a \<and> sa_workspace x = w) (db_accounts d)"

definition sync_child :: "instant \<Rightarrow> request \<Rightarrow> nat \<Rightarrow> nat \<Rightarrow> pp_state \<Rightarrow> string \<Rightarrow> db \<Rightarrow> db" where
  \<comment> \<open>one turn of the loop of \<open>_sync_platform_posts\<close>\<close>
  "sync_child now rq w po initial acc d =
    (case parse_uuid acc of
       None \<Rightarrow> d
     | Some a \<Rightarrow>
        (case workspace_account w a d of
           None \<Rightarrow> d
         | Some x \<Rightarrow>
            (let (p, d1) = get_or_create_child now po a initial d
             in save_pp (fill_child now rq acc (sa_platform x) (attached_types po d1) p) d1)))"

definition sync_platform_posts :: "instant \<Rightarrow> request \<Rightarrow> nat \<Rightarrow> nat \<Rightarrow> pp_state \<Rightarrow> db \<Rightarrow> db option" where
  \<comment> \<open>\<open>None\<close> where the scope is malformed: raised before anything is written\<close>
  "sync_platform_posts now rq w po initial d =
    map_option (fold (sync_child now rq w po initial) (selected_accounts rq))
      (remove_deselected_platform_posts rq po d)"

section \<open>What is missing\<close>

definition selected_in_workspace :: "request \<Rightarrow> nat \<Rightarrow> db \<Rightarrow> social_account list" where
  "selected_in_workspace rq w d =
    filter (\<lambda>x. sa_id x \<in> set (selected_keys rq) \<and> sa_workspace x = w) (db_accounts d)"

definition has_board :: "request \<Rightarrow> nat option \<Rightarrow> db \<Rightarrow> social_account \<Rightarrow> bool" where
  \<comment> \<open>the option is the saved post, \<open>None\<close> for a new one\<close>
  "has_board rq po d x \<longleftrightarrow>
    post_text (''pin_board_id_'' @ uuid_text (sa_id x)) rq \<noteq> [] \<or>
    (case po of
       None \<Rightarrow> False
     | Some i \<Rightarrow>
        (case child_on i (sa_id x) d of None \<Rightarrow> False | Some p \<Rightarrow> json_truthy (dict_get ''board_id'' (pp_extra p))))"

definition validate_pinterest_board_selection :: "request \<Rightarrow> nat option \<Rightarrow> nat \<Rightarrow> db \<Rightarrow> response option" where
  "validate_pinterest_board_selection rq po w d =
    (case filter (\<lambda>x. sa_platform x = ''pinterest'' \<and> \<not> has_board rq po d x) (selected_in_workspace rq w d) of
       [] \<Rightarrow> None
     | x # _ \<Rightarrow> Some (BadRequest (''Select a Pinterest board for '' @ sa_name x @ ''.'')))"

definition PUBLISH_COMMITTING_ACTIONS :: "string list" where
  "PUBLISH_COMMITTING_ACTIONS =
    [''schedule'', ''publish_now'', ''add_to_queue'', ''add_to_queue_priority'', ''submit_for_approval'',
     ''resubmit_for_approval'']"

definition composer_media_types :: "request \<Rightarrow> nat option \<Rightarrow> nat \<Rightarrow> db \<Rightarrow> string set" where
  "composer_media_types rq po w d =
    (case po of
       Some i \<Rightarrow> post_media_types i None d
     | None \<Rightarrow> usable_media_types
         (filter (\<lambda>a. ma_id a \<in> set (rq_pending rq) \<and> ma_workspace a = Some w) (db_assets d)))"

fun text_list :: "string list \<Rightarrow> string" where
  \<comment> \<open>\<open>get_text_list(names, "and")\<close>\<close>
  "text_list [] = []"
| "text_list [a] = a"
| "text_list [a, b] = a @ '' and '' @ b"
| "text_list (a # b # c # r) = a @ '', '' @ text_list (b # c # r)"

definition names_of :: "social_account list \<Rightarrow> string list" where
  \<comment> \<open>\<open>sorted({a.get_platform_display() for a in ...})\<close>\<close>
  "names_of xs = sort (remdups (map (\<lambda>a. platform_display (sa_platform a)) xs))"

definition media_message :: "social_account list \<Rightarrow> string" where
  "media_message blocked =
    (let video_only = names_of (filter (\<lambda>a. is_video_only (sa_platform a)) blocked);
         any_media = names_of (filter (\<lambda>a. \<not> is_video_only (sa_platform a)) blocked);
         s1 = (if video_only = [] then [] else text_list video_only @ '' can only publish videos. '');
         s2 = (if any_media = [] then []
               else text_list any_media @ (if length any_media = 1 then '' needs'' else '' need'') @
                 '' an image or a video. '');
         wanted = (if video_only \<noteq> [] then ''a video'' else ''an image or a video'');
         which = (if length blocked = 1 then ''that account'' else ''those accounts'')
     in s1 @ s2 @ ''Add '' @ wanted @ '' to this post, or deselect '' @ which @ ''.'')"

definition validate_required_media :: "request \<Rightarrow> nat option \<Rightarrow> nat \<Rightarrow> string \<Rightarrow> db \<Rightarrow> response option" where
  "validate_required_media rq po w action d =
    (if action \<notin> set PUBLISH_COMMITTING_ACTIONS then None
     else
       let xs = selected_in_workspace rq w d;
           types = composer_media_types rq po w d;
           blocked = filter (\<lambda>a. media_blocker a types \<noteq> []) xs in
       if blocked = [] then None else Some (BadRequest (media_message blocked)))"

section \<open>Versions, tags and queues\<close>

definition save_version :: "nat \<Rightarrow> user \<Rightarrow> db \<Rightarrow> db" where
  "save_version i u d =
    (case get_post i d of
       None \<Rightarrow> d
     | Some po \<Rightarrow>
        d\<lparr>db_versions := db_versions d @
          [\<lparr>vs_post = i, vs_number = length (filter (\<lambda>v. vs_post v = i) (db_versions d)) + 1,
            vs_title = po_title po, vs_caption = po_caption po, vs_first_comment = po_first_comment po,
            vs_internal_notes = po_internal_notes po, vs_tags = po_tags po, vs_status = post_status po d,
            vs_scheduled_at = po_scheduled_at po,
            vs_channels = map (\<lambda>p. (pp_account p, pp_title p, pp_caption p, pp_first_comment p, pp_extra p)) (children i d),
            vs_media = map (\<lambda>m. (pm_asset m, pm_position m, pm_alt_text m))
              (sort_key pm_position (filter (\<lambda>m. pm_post m = i) (db_media d))),
            vs_created_by = us_id u\<rparr>]\<rparr>)"

definition sync_tags_to_model :: "nat \<Rightarrow> string list \<Rightarrow> db \<Rightarrow> db" where
  \<comment> \<open>\<open>ignore_conflicts\<close> drops a name given twice\<close>
  "sync_tags_to_model w names d =
    d\<lparr>db_tags := db_tags d @ filter (\<lambda>t. t \<notin> set (db_tags d)) (map (Pair w) (remdups names))\<rparr>"

fun first_per_account :: "nat set \<Rightarrow> queue list \<Rightarrow> queue list" where
  "first_per_account seen [] = []"
| "first_per_account seen (q # qs) =
    (if qu_account q \<in> seen then first_per_account seen qs
     else q # first_per_account (insert (qu_account q) seen) qs)"

definition resolve_queues_for_post :: "string \<Rightarrow> request \<Rightarrow> nat \<Rightarrow> db \<Rightarrow> queue list option" where
  \<comment> \<open>\<open>None\<close> where a malformed \<open>queue_id\<close> raises in the lookup; the table is in order of creation\<close>
  "resolve_queues_for_post queue_id rq w d =
    (if queue_id \<noteq> [] then
       (case parse_uuid queue_id of
          None \<Rightarrow> None
        | Some k \<Rightarrow> Some (case tbl_first (\<lambda>q. qu_id q = k \<and> qu_workspace q = w \<and> qu_active q) (db_queues d) of
              None \<Rightarrow> [] | Some q \<Rightarrow> [q]))
     else Some (first_per_account {}
       (filter (\<lambda>q. qu_workspace q = w \<and> qu_active q \<and> qu_account q \<in> set (selected_keys rq)) (db_queues d))))"

section \<open>Moving the channels\<close>

definition move_via_draft :: "instant \<Rightarrow> pp_state \<Rightarrow> bool \<Rightarrow> platform_post \<Rightarrow> platform_post option" where
  \<comment> \<open>\<open>None\<close> where the child is skipped, unsaved\<close>
  "move_via_draft now target via_draft p =
    (if can_transition_to p target then
       (case transition_to now p target of Inl e \<Rightarrow> None | Inr q \<Rightarrow> Some q)
     else if via_draft \<and> can_transition_to p DRAFT \<and> target \<noteq> DRAFT then
       (case transition_to now p DRAFT of
          Inl e \<Rightarrow> None
        | Inr q \<Rightarrow>
           if can_transition_to q target then
             (case transition_to now q target of Inl e \<Rightarrow> None | Inr r \<Rightarrow> Some r)
           else None)
     else None)"

definition transition_child :: "instant \<Rightarrow> pp_state \<Rightarrow> bool \<Rightarrow> platform_post \<Rightarrow> db \<Rightarrow> db" where
  "transition_child now target via_draft p d =
    (if pp_status p = target then d
     else case move_via_draft now target via_draft p of
            None \<Rightarrow> d
          | Some q \<Rightarrow> save_transition q False now d)"

definition transition_post_children :: "instant \<Rightarrow> nat \<Rightarrow> pp_state \<Rightarrow> bool \<Rightarrow> nat list option \<Rightarrow> db \<Rightarrow> db" where
  "transition_post_children now po target via_draft only d =
    fold (transition_child now target via_draft)
      (filter (\<lambda>p. case only of None \<Rightarrow> True | Some ids \<Rightarrow> pp_id p \<in> set ids) (children po d)) d"

type_synonym content = "string \<times> string \<times> string \<times> json list"

definition base_content_snapshot :: "post \<Rightarrow> content" where
  "base_content_snapshot po = (po_title po, po_caption po, po_first_comment po, po_tags po)"

definition approved_children :: "nat \<Rightarrow> db \<Rightarrow> platform_post list" where
  "approved_children po d = filter (\<lambda>p. pp_status p = APPROVED) (children po d)"

definition revert_approved_to_review :: "instant \<Rightarrow> nat \<Rightarrow> db \<Rightarrow> nat list \<times> db" where
  \<comment> \<open>the keys of the reverted children\<close>
  "revert_approved_to_review now po d =
    (map pp_id (approved_children po d),
     fold (transition_child now PENDING_REVIEW False) (approved_children po d) d)"

section \<open>The schedule panel\<close>

record post_form =
  fm_title :: "string option"
  fm_caption :: "string option"
  fm_first_comment :: "string option"
  fm_internal_notes :: "string option"
  fm_tags :: "string option"
  fm_category :: "nat option"
  fm_date :: "int option"
  fm_time :: "int option"

text \<open>
  A valid \<open>PostForm\<close>. Its fields come cleaned from Django; one that the request leaves out is
  \<open>None\<close> and keeps the instance's value. The tags are the text before \<open>clean_tags\<close>.
\<close>

definition clean_tags :: "string \<Rightarrow> string list" where
  "clean_tags raw = parse_and_truncate_tag_string raw"

definition opt_or :: "'a \<Rightarrow> 'a option \<Rightarrow> 'a" where
  "opt_or x o' = (case o' of None \<Rightarrow> x | Some y \<Rightarrow> y)"

definition apply_form :: "post_form \<Rightarrow> post \<Rightarrow> post" where
  \<comment> \<open>\<open>form.save(commit=False)\<close>\<close>
  "apply_form f po =
    po\<lparr>po_title := opt_or (po_title po) (fm_title f), po_caption := opt_or (po_caption po) (fm_caption f),
       po_first_comment := opt_or (po_first_comment po) (fm_first_comment f),
       po_internal_notes := opt_or (po_internal_notes po) (fm_internal_notes f),
       po_tags := (case fm_tags f of None \<Rightarrow> po_tags po | Some s \<Rightarrow> map JStr (clean_tags s)),
       po_category := fm_category f\<rparr>"

definition combine_schedule_dt :: "(string \<Rightarrow> zone) \<Rightarrow> workspace \<Rightarrow> int option \<Rightarrow> int option \<Rightarrow> db \<Rightarrow> instant option" where
  "combine_schedule_dt zones ws date time d =
    (case (date, time) of
       (Some n, Some t) \<Rightarrow> Some (z_at (zones (py_or (effective_timezone ws d) ''UTC'')) n t)
     | _ \<Rightarrow> None)"

definition already_scheduled :: "post \<Rightarrow> bool \<Rightarrow> db \<Rightarrow> bool" where
  "already_scheduled po saved d \<longleftrightarrow>
    po_scheduled_at po \<noteq> None \<or>
    (saved \<and> list_ex (\<lambda>p. pp_status p \<in> set [SCHEDULED, PUBLISHING, PUBLISHED]) (children (po_id po) d))"

definition capture_proposed_publish_at ::
  "(string \<Rightarrow> zone) \<Rightarrow> post \<Rightarrow> bool \<Rightarrow> workspace \<Rightarrow> post_form \<Rightarrow> bool \<Rightarrow> db \<Rightarrow> post" where
  \<comment> \<open>the first flag: the URL names a post; the second: clear when blank\<close>
  "capture_proposed_publish_at zones po saved ws f clear d =
    (if already_scheduled po saved d then po
     else
       let proposed = combine_schedule_dt zones ws (fm_date f) (fm_time f) d in
       if proposed = None \<and> \<not> clear then po else po\<lparr>po_proposed_at := proposed\<rparr>)"

end
