(* ===== verification/Save_Post.thy ===== *)
theory Save_Post
  imports Compose_Forms
begin

text \<open>
  Saving a post from the composer: \<open>save_post\<close>, \<open>transition_platform_post\<close> (the chip menu) and
  \<open>autosave\<close> of \<open>apps/composer/views.py\<close>, each the whole handler from its guards to its answer.
  The database keeps what a handler wrote before it refused. The clock is read once.
\<close>

section \<open>Loading\<close>

record saving =
  sv_user :: user
  sv_member :: ws_membership
  sv_ws :: workspace
  sv_saved :: bool
    \<comment> \<open>the URL names a post\<close>
  sv_post :: post
    \<comment> \<open>the instance, with the form applied\<close>
  sv_orig :: "content option"

definition blank_post :: "nat \<Rightarrow> nat \<Rightarrow> user \<Rightarrow> instant \<Rightarrow> post" where
  "blank_post k w u now =
    \<lparr>po_id = k, po_workspace = w, po_author = Some (us_id u), po_title = [], po_caption = [],
     po_first_comment = [], po_internal_notes = [], po_tags = [], po_category = None,
     po_scheduled_at = None, po_published_at = None, po_proposed_at = None, po_updated_at = now\<rparr>"

definition workspace_post :: "nat \<Rightarrow> nat \<Rightarrow> db \<Rightarrow> post option" where
  \<comment> \<open>\<open>Post.objects.get(id=i, workspace=w)\<close>\<close>
  "workspace_post i w d = tbl_first (\<lambda>p. po_id p = i \<and> po_workspace p = w) (db_posts d)"

definition may_edit :: "user \<Rightarrow> ws_membership \<Rightarrow> post \<Rightarrow> bool" where
  "may_edit u m po \<longleftrightarrow> po_author po = Some (us_id u) \<or> has_perm ''edit_others_posts'' m"

definition READONLY_TEXT :: string where
  "READONLY_TEXT = ''This post has already published and can't be edited. Use Clone to repost an editable copy.''"

definition load_post :: "instant \<Rightarrow> request \<Rightarrow> nat \<Rightarrow> nat option \<Rightarrow> post_form option \<Rightarrow> db \<Rightarrow> response + saving" where
  "load_post now rq w post_id form d =
    (case enter rq w (Some ''create_posts'') d of
       Inl r \<Rightarrow> Inl r
     | Inr (u, m, ws) \<Rightarrow>
        (case post_id of
           None \<Rightarrow>
             (case form of
                None \<Rightarrow> Inl (BadRequest ''form'')
              | Some f \<Rightarrow> Inr \<lparr>sv_user = u, sv_member = m, sv_ws = ws, sv_saved = False,
                             sv_post = apply_form f (blank_post (db_next d) w u now), sv_orig = None\<rparr>)
         | Some i \<Rightarrow>
             (case workspace_post i w d of
                None \<Rightarrow> Inl NotFound
              | Some po \<Rightarrow>
                  if \<not> may_edit u m po then Inl (Forbidden ''You do not have permission to edit this post.'')
                  else (case account_scope rq of
                      None \<Rightarrow> Inl (BadRequest ''Malformed account_scope.'')
                    | Some sc \<Rightarrow>
                        if is_readonly_write sc i d then Inl (BadRequest READONLY_TEXT)
                        else (case form of
                            None \<Rightarrow> Inl (BadRequest ''form'')
                          | Some f \<Rightarrow> Inr \<lparr>sv_user = u, sv_member = m, sv_ws = ws, sv_saved = True,
                              sv_post = apply_form f po, sv_orig = Some (base_content_snapshot po)\<rparr>)))))"

definition sv_id :: "saving \<Rightarrow> nat" where
  "sv_id s = po_id (sv_post s)"

definition sv_key :: "saving \<Rightarrow> nat option" where
  "sv_key s = (if sv_saved s then Some (sv_id s) else None)"

definition store_post :: "instant \<Rightarrow> bool \<Rightarrow> post \<Rightarrow> db \<Rightarrow> db" where
  \<comment> \<open>\<open>post.save()\<close>; the flag: the row exists\<close>
  "store_post now saved po d =
    (if saved then save_post (po\<lparr>po_updated_at := now\<rparr>) d
     else d\<lparr>db_posts := db_posts d @ [po\<lparr>po_updated_at := now\<rparr>], db_next := Suc (db_next d)\<rparr>)"

section \<open>Queueing and submitting\<close>

fun add_to_queues :: "(string \<Rightarrow> zone) \<Rightarrow> instant \<Rightarrow> nat \<Rightarrow> bool \<Rightarrow> queue list \<Rightarrow> db \<Rightarrow> queue_error + db" where
  "add_to_queues zones now po priority [] d = Inr d"
| "add_to_queues zones now po priority (q # qs) d =
    (case get_account (qu_account q) d of
       None \<Rightarrow> add_to_queues zones now po priority qs d
     | Some a \<Rightarrow>
        (case add_to_queue zones now po q a priority d of
           Inl e \<Rightarrow> Inl e
         | Inr d1 \<Rightarrow> add_to_queues zones now po priority qs d1))"

definition QUEUE_FULL_MSG :: string where
  "QUEUE_FULL_MSG =
    ''No open posting slot within the scheduling horizon '' @ [CHR 0xE2, CHR 0x80, CHR 0x94] @
    '' add posting slots or free one up.''"

definition queue_answer :: "queue_error \<Rightarrow> response" where
  "queue_answer e = (case e of QueueFull q \<Rightarrow> BadRequest QUEUE_FULL_MSG | QueueComposer c \<Rightarrow> ServerError)"

definition save_to_queue ::
  "(string \<Rightarrow> zone) \<Rightarrow> instant \<Rightarrow> request \<Rightarrow> bool \<Rightarrow> saving \<Rightarrow> db \<Rightarrow> response \<times> db" where
  \<comment> \<open>the actions \<open>add_to_queue\<close> and \<open>add_to_queue_priority\<close>\<close>
  "save_to_queue zones now rq priority s d =
    (let w = ws_id (sv_ws s); i = sv_id s in
     case resolve_queues_for_post (post_get ''queue_id'' [] rq) rq w d of
       None \<Rightarrow> (ServerError, d)
     | Some [] \<Rightarrow> (BadRequest ''No active queue found for the selected channel.'', d)
     | Some qs \<Rightarrow>
        let d1 = store_post now (sv_saved s) (sv_post s\<lparr>po_proposed_at := None\<rparr>) d in
        (case (account_scope rq, sync_platform_posts now rq w i DRAFT d1) of
           (Some sc, Some d2) \<Rightarrow>
             (case add_to_queues zones now i priority qs d2 of
                Inl e \<Rightarrow> (queue_answer e, d2)
              | Inr d3 \<Rightarrow>
                  (Done i, save_version i (sv_user s)
                    (transition_post_children now i SCHEDULED True (scoped_platform_post_ids sc i d3) d3)))
         | _ \<Rightarrow> (BadRequest ''Malformed account_scope.'', d1)))"

definition save_and_submit ::
  "(string \<Rightarrow> zone) \<Rightarrow> instant \<Rightarrow> request \<Rightarrow> post_form \<Rightarrow> bool \<Rightarrow> saving \<Rightarrow> db \<Rightarrow> response \<times> db" where
  \<comment> \<open>the actions \<open>submit_for_approval\<close> and (the flag) \<open>resubmit_for_approval\<close>\<close>
  "save_and_submit zones now rq f again s d =
    (let w = ws_id (sv_ws s); i = sv_id s;
         po = capture_proposed_publish_at zones (sv_post s) (sv_saved s) (sv_ws s) f False d;
         d1 = store_post now (sv_saved s) po d in
     case sync_platform_posts now rq w i DRAFT d1 of
       None \<Rightarrow> (BadRequest ''Malformed account_scope.'', d1)
     | Some d2 \<Rightarrow>
        let d3 = save_version i (sv_user s) d2;
            t = Bundled (po\<lparr>po_updated_at := now\<rparr>) in
        (Done i, snd (if again then resubmit_post now t (sv_user s) (sv_ws s) d3
                      else submit_for_review now t (sv_user s) (sv_ws s) d3)))"

section \<open>Saving in place\<close>

definition attach_one :: "nat \<Rightarrow> nat \<Rightarrow> nat \<times> nat \<Rightarrow> db \<Rightarrow> db" where
  \<comment> \<open>\<open>PostMedia.objects.get_or_create(post, media_asset, defaults={"position"})\<close> for an asset of the workspace\<close>
  "attach_one po w ja d =
    (case tbl_first (\<lambda>a. ma_id a = snd ja \<and> ma_workspace a = Some w) (db_assets d) of
       None \<Rightarrow> d
     | Some a \<Rightarrow>
        if list_ex (\<lambda>m. pm_post m = po \<and> pm_asset m = ma_id a) (db_media d) then d
        else d\<lparr>db_media := db_media d @ [\<lparr>pm_id = db_next d, pm_post = po, pm_asset = ma_id a,
                 pm_position = fst ja, pm_alt_text = [], pm_overrides = JObj []\<rparr>],
               db_next := Suc (db_next d)\<rparr>)"

definition attach_pending :: "request \<Rightarrow> nat \<Rightarrow> nat \<Rightarrow> db \<Rightarrow> db" where
  "attach_pending rq po w d = fold (attach_one po w) (enumerate 0 (rq_pending rq)) d"

definition tag_names :: "post \<Rightarrow> string list" where
  "tag_names po = concat (map (\<lambda>t. case t of JStr s \<Rightarrow> [s] | _ \<Rightarrow> []) (po_tags po))"

definition MAX_POSITIVE_INT :: int where
  "MAX_POSITIVE_INT = 2147483647"

definition recurrence_values :: "request \<Rightarrow> string \<times> int \<times> int option" where
  "recurrence_values rq =
    (post_get ''recurrence_frequency'' ''weekly'' rq,
     (case py_int (post_get ''recurrence_interval'' ''1'' rq) of None \<Rightarrow> 1 | Some n \<Rightarrow> n),
     (let e = post_get ''recurrence_end_date'' [] rq in if e = [] then None else date_fromiso e))"

definition store_rule :: "nat \<Rightarrow> string \<times> int \<times> int option \<Rightarrow> db \<Rightarrow> db option" where
  \<comment> \<open>\<open>RecurrenceRule.objects.update_or_create\<close>; \<open>None\<close> where the column refuses a value\<close>
  "store_rule po v d =
    (case v of (freq, n, stop) \<Rightarrow>
       if length freq > 10 \<or> n < 0 \<or> n > MAX_POSITIVE_INT then None
       else Some
        (if list_ex (\<lambda>r. rr_post r = po) (db_rules d) then
           d\<lparr>db_rules := tbl_update (\<lambda>r. rr_post r = po)
               (\<lambda>r. r\<lparr>rr_frequency := freq, rr_interval := n, rr_end_date := stop, rr_active := True\<rparr>) (db_rules d)\<rparr>
         else
           d\<lparr>db_rules := db_rules d @ [\<lparr>rr_id = db_next d, rr_post = po, rr_frequency = freq, rr_interval = n,
               rr_end_date = stop, rr_last_generated_at = None, rr_active = True\<rparr>],
             db_next := Suc (db_next d)\<rparr>))"

definition wants_recurrence :: "request \<Rightarrow> string \<Rightarrow> post \<Rightarrow> bool" where
  "wants_recurrence rq action po \<longleftrightarrow>
    post_get ''make_recurring'' [] rq \<noteq> [] \<and> action = ''schedule'' \<and> po_scheduled_at po \<noteq> None"

definition propagate_schedule :: "nat option \<Rightarrow> nat \<Rightarrow> instant \<Rightarrow> db \<Rightarrow> db" where
  "propagate_schedule sc po t d =
    update_pps (\<lambda>p. pp_post p = po \<and> pp_status p \<notin> set PROTECTED_STATUSES \<and> in_scope sc p)
      (\<lambda>p. p\<lparr>pp_scheduled_at := Some t\<rparr>) d"

definition target_only :: "nat option \<Rightarrow> nat \<Rightarrow> nat list \<Rightarrow> db \<Rightarrow> nat list option" where
  \<comment> \<open>the children the publish target moves, given those just sent back to review\<close>
  "target_only sc po reverted d =
    (if reverted = [] then scoped_platform_post_ids sc po d
     else Some (filter (\<lambda>k. k \<notin> set reverted)
       (case scoped_platform_post_ids sc po d of None \<Rightarrow> map pp_id (children po d) | Some ids \<Rightarrow> ids)))"

definition settle_children :: "instant \<Rightarrow> nat option \<Rightarrow> saving \<Rightarrow> instant option \<Rightarrow> db \<Rightarrow> db" where
  \<comment> \<open>propagate the time, send edited approved children back to review, move the others to the target\<close>
  "settle_children now sc s at d =
    (let i = sv_id s;
         d1 = (case at of None \<Rightarrow> d | Some t \<Rightarrow> propagate_schedule sc i t d);
         changed = (case sv_orig s of None \<Rightarrow> False | Some c \<Rightarrow> base_content_snapshot (sv_post s) \<noteq> c);
         (reverted, d2) = (if changed then revert_approved_to_review now i d1 else ([], d1))
     in if at = None then d2
        else transition_post_children now i SCHEDULED True (target_only sc i reverted d2) d2)"

definition save_in_place ::
  "instant \<Rightarrow> request \<Rightarrow> string \<Rightarrow> saving \<Rightarrow> instant option \<Rightarrow> db \<Rightarrow> response \<times> db" where
  \<comment> \<open>from \<open>post.save()\<close> on; the option is the time to publish at, with \<open>scheduled\<close> as the target\<close>
  "save_in_place now rq action s at d =
    (let w = ws_id (sv_ws s); i = sv_id s;
         d1 = store_post now (sv_saved s) (sv_post s) d;
         d2 = (if sv_saved s then d1 else attach_pending rq i w d1);
         d3 = sync_tags_to_model w (tag_names (sv_post s)) d2 in
     case (if wants_recurrence rq action (sv_post s) then store_rule i (recurrence_values rq) d3 else Some d3) of
       None \<Rightarrow> (ServerError, d3)
     | Some d4 \<Rightarrow>
        (case (account_scope rq, sync_platform_posts now rq w i (if at = None then DRAFT else SCHEDULED) d4) of
           (Some sc, Some d5) \<Rightarrow> (Done i, save_version i (sv_user s) (settle_children now sc s at d5))
         | _ \<Rightarrow> (BadRequest ''Malformed account_scope.'', d4)))"

definition take_action ::
  "(string \<Rightarrow> zone) \<Rightarrow> instant \<Rightarrow> request \<Rightarrow> post_form \<Rightarrow> string \<Rightarrow> saving \<Rightarrow> db \<Rightarrow> response \<times> db" where
  \<comment> \<open>the branches on the action\<close>
  "take_action zones now rq f action s d =
    (if action = ''schedule'' then
       (case combine_schedule_dt zones (sv_ws s) (fm_date f) (fm_time f) d of
          None \<Rightarrow> (BadRequest ''Date and time required.'', d)
        | Some t \<Rightarrow>
           if t \<le> now then (BadRequest ''Scheduled time must be in the future.'', d)
           else save_in_place now rq action
                  (s\<lparr>sv_post := sv_post s\<lparr>po_scheduled_at := Some t, po_proposed_at := None\<rparr>\<rparr>) (Some t) d)
     else if action = ''publish_now'' then
       (if \<not> has_perm ''publish_directly'' (sv_member s)
        then (Forbidden ''You do not have permission to publish directly.'', d)
        else save_in_place now rq action
               (s\<lparr>sv_post := sv_post s\<lparr>po_scheduled_at := Some now, po_proposed_at := None\<rparr>\<rparr>) (Some now) d)
     else if action = ''add_to_queue'' then save_to_queue zones now rq False s d
     else if action = ''add_to_queue_priority'' then save_to_queue zones now rq True s d
     else if action = ''submit_for_approval'' then save_and_submit zones now rq f False s d
     else if action = ''resubmit_for_approval'' then save_and_submit zones now rq f True s d
     else save_in_place now rq action
       (if action = ''save_draft''
        then s\<lparr>sv_post := capture_proposed_publish_at zones (sv_post s) (sv_saved s) (sv_ws s) f True d\<rparr>
        else s) None d)"

definition save_post_view ::
  "(string \<Rightarrow> zone) \<Rightarrow> instant \<Rightarrow> request \<Rightarrow> nat \<Rightarrow> nat option \<Rightarrow> post_form option \<Rightarrow> db \<Rightarrow> response \<times> db" where
  \<comment> \<open>\<open>save_post\<close>; the form is Django's, \<open>None\<close> for an invalid one\<close>
  "save_post_view zones now rq w post_id form d =
    (case load_post now rq w post_id form d of
       Inl r \<Rightarrow> (r, d)
     | Inr s \<Rightarrow>
        (let action = post_get ''action'' ''save_draft'' rq in
         case validate_pinterest_board_selection rq (sv_key s) w d of
           Some r \<Rightarrow> (r, d)
         | None \<Rightarrow>
            (case validate_required_media rq (sv_key s) w action d of
               Some r \<Rightarrow> (r, d)
             | None \<Rightarrow> (case form of None \<Rightarrow> (ServerError, d) | Some f \<Rightarrow> take_action zones now rq f action s d))))"

section \<open>The chip menu\<close>

definition state_of :: "string \<Rightarrow> pp_state option" where
  "state_of s = find (\<lambda>x. state_value x = s)
    [DRAFT, PENDING_REVIEW, PENDING_CLIENT, APPROVED, CHANGES_REQUESTED, REJECTED, SCHEDULED, PUBLISHING,
     PUBLISHED, FAILED, ON_HOLD]"

definition APPROVAL_STATES :: "string list" where
  "APPROVAL_STATES = [''approved'', ''pending_review'', ''pending_client'', ''changes_requested'', ''rejected'']"

definition chip_refusal :: "ws_membership \<Rightarrow> string \<Rightarrow> response option" where
  "chip_refusal m t =
    (if t \<in> set [''scheduled'', ''publishing''] \<and> \<not> has_perm ''publish_directly'' m
     then Some (Forbidden ''You do not have permission to schedule this post.'')
     else if t \<in> set APPROVAL_STATES \<and> \<not> has_perm ''approve_posts'' m \<and> t \<noteq> ''pending_review''
     then Some (Forbidden ''You do not have permission to make approval decisions.'')
     else None)"

definition clear_proposal :: "instant \<Rightarrow> nat \<Rightarrow> db \<Rightarrow> db" where
  "clear_proposal now i d =
    (case get_post i d of
       None \<Rightarrow> d
     | Some po \<Rightarrow>
        if po_proposed_at po = None then d
        else save_post (po\<lparr>po_proposed_at := None, po_updated_at := now\<rparr>) d)"

definition transition_platform_post_view ::
  "instant \<Rightarrow> request \<Rightarrow> nat \<Rightarrow> nat \<Rightarrow> nat \<Rightarrow> db \<Rightarrow> response \<times> db" where
  "transition_platform_post_view now rq w i k d =
    (case enter rq w None d of
       Inl r \<Rightarrow> (r, d)
     | Inr (u, m, ws) \<Rightarrow>
        (case (tbl_first (\<lambda>p. pp_id p = k \<and> pp_post p = i) (db_pps d), workspace_post i w d) of
           (Some p, Some po) \<Rightarrow>
             (let t = post_text ''target_status'' rq in
              if t = [] then (BadRequest ''target_status required'', d)
              else case chip_refusal m t of
                Some r \<Rightarrow> (r, d)
              | None \<Rightarrow>
                 if state_value (pp_status p) = t then (Done k, d)
                 else
                   (case (if t \<in> set [''scheduled'', ''publishing''] then require_publishable p None d else None) of
                      Some e \<Rightarrow> (BadRequest (case e of NotPublishable r \<Rightarrow> r | _ \<Rightarrow> []), d)
                    | None \<Rightarrow>
                       (case (case state_of t of None \<Rightarrow> None
                              | Some s \<Rightarrow> (case transition_to now p s of Inl e \<Rightarrow> None | Inr q \<Rightarrow> Some q)) of
                          None \<Rightarrow> (BadRequest ''Invalid status transition'', d)
                        | Some q \<Rightarrow>
                           let d1 = save_transition q False now d in
                           (Done k, if t \<in> set [''scheduled'', ''publishing'', ''published'']
                                    then clear_proposal now i d1 else d1))))
         | _ \<Rightarrow> (NotFound, d)))"

section \<open>Autosave\<close>

definition autosave_fields :: "request \<Rightarrow> post \<Rightarrow> post" where
  "autosave_fields rq po =
    po\<lparr>po_title := post_get ''title'' [] rq, po_caption := post_get ''caption'' [] rq,
       po_first_comment := post_get ''first_comment'' [] rq, po_internal_notes := post_get ''internal_notes'' [] rq,
       po_tags := map JStr (parse_and_truncate_tag_string (post_get ''tags'' [] rq))\<rparr>"

datatype autosave_target =
    Refused response
  | Existing post "content option"
  | Fresh

definition autosave_target_of :: "request \<Rightarrow> user \<Rightarrow> ws_membership \<Rightarrow> nat \<Rightarrow> nat option \<Rightarrow> db \<Rightarrow> autosave_target" where
  "autosave_target_of rq u m w post_id d =
    (case post_id of
       Some i \<Rightarrow>
         (case workspace_post i w d of
            None \<Rightarrow> Refused NotFound
          | Some po \<Rightarrow>
             if \<not> may_edit u m po then Refused (Forbidden ''You do not have permission to edit this post.'')
             else (case account_scope rq of
                 None \<Rightarrow> Refused (BadRequest ''Malformed account_scope.'')
               | Some sc \<Rightarrow>
                  if is_readonly_write sc i d then Refused (Done i)
                  else Existing po (Some (base_content_snapshot po))))
     | None \<Rightarrow>
         (let client = post_text ''_autosave_post_id'' rq in
          if client = [] then Fresh
          else case parse_uuid client of
                 None \<Rightarrow> Refused ServerError
               | Some i \<Rightarrow> (case workspace_post i w d of None \<Rightarrow> Fresh | Some po \<Rightarrow> Existing po None)))"

fun autosave_children :: "instant \<Rightarrow> nat \<Rightarrow> string list \<Rightarrow> db \<Rightarrow> bool \<times> db" where
  \<comment> \<open>\<open>get_or_create(post, social_account_id)\<close> for each; \<open>False\<close> where the foreign key refuses\<close>
  "autosave_children now po [] d = (True, d)"
| "autosave_children now po (acc # accs) d =
    (case parse_uuid acc of
       None \<Rightarrow> autosave_children now po accs d
     | Some a \<Rightarrow>
        if get_account a d = None \<and> child_on po a d = None then (False, d)
        else autosave_children now po accs (snd (get_or_create_child now po a DRAFT d)))"

definition autosave_write ::
  "instant \<Rightarrow> request \<Rightarrow> nat \<Rightarrow> bool \<Rightarrow> post \<Rightarrow> content option \<Rightarrow> db \<Rightarrow> response \<times> db" where
  \<comment> \<open>the flag: the row exists\<close>
  "autosave_write now rq w saved po orig d =
    (let po1 = autosave_fields rq po; i = po_id po1 in
     if length (po_title po1) > 255 then (ServerError, d)
     else
       let d1 = store_post now saved po1 d;
           d2 = (if saved then d1 else attach_pending rq i w d1) in
       case remove_deselected_platform_posts rq i d2 of
         None \<Rightarrow> (BadRequest ''Malformed account_scope.'', d2)
       | Some d3 \<Rightarrow>
          (case autosave_children now i (selected_accounts rq) d3 of
             (False, d4) \<Rightarrow> (ServerError, d4)
           | (True, d4) \<Rightarrow>
              (Done i,
               if (case orig of None \<Rightarrow> False | Some c \<Rightarrow> base_content_snapshot po1 \<noteq> c)
               then snd (revert_approved_to_review now i d4) else d4)))"

definition autosave :: "instant \<Rightarrow> request \<Rightarrow> nat \<Rightarrow> nat option \<Rightarrow> db \<Rightarrow> response \<times> db" where
  "autosave now rq w post_id d =
    (case enter rq w (Some ''create_posts'') d of
       Inl r \<Rightarrow> (r, d)
     | Inr (u, m, ws) \<Rightarrow>
        (case autosave_target_of rq u m w post_id d of
           Refused r \<Rightarrow> (r, d)
         | Existing po orig \<Rightarrow> autosave_write now rq w True po orig d
         | Fresh \<Rightarrow> autosave_write now rq w False (blank_post (db_next d) w u now) None d))"

end
