(* ===== verification/Client_Portal.thy ===== *)
theory Client_Portal
  imports Mail Save_Post
begin

text \<open>
  The client portal, \<open>apps/client_portal\<close>: magic links and the session they open, the decisions a client takes
  on a post, and the views with which a manager sends links and removes clients. The random text of a token and
  the mail back end are parameters. Reading a link and consuming it are separate steps, as the two queries of
  \<open>consume_magic_link\<close> are.
\<close>

section \<open>Links\<close>

record magic_link =
  ml_id :: nat
  ml_user :: nat
  ml_workspace :: nat
  ml_token :: string
  ml_expires :: instant
  ml_last_used :: "instant option"
  ml_consumed :: bool

record portal =
  pt_db :: db
  pt_links :: "magic_link list"
  pt_mail :: mailbox
  pt_next :: nat

definition is_expired :: "instant \<Rightarrow> magic_link \<Rightarrow> bool" where
  "is_expired now l \<longleftrightarrow> ml_expires l < now"

definition new_link :: "instant \<Rightarrow> nat \<Rightarrow> nat \<Rightarrow> nat \<Rightarrow> string \<Rightarrow> magic_link" where
  "new_link now i u w secret =
    \<lparr>ml_id = i, ml_user = u, ml_workspace = w, ml_token = secret, ml_expires = now + days 30, ml_last_used = None,
     ml_consumed = False\<rparr>"

definition expire_links :: "instant \<Rightarrow> (magic_link \<Rightarrow> bool) \<Rightarrow> portal \<Rightarrow> portal" where
  \<comment> \<open>\<open>filter(...).update(expires_at=timezone.now())\<close>\<close>
  "expire_links now P s = s\<lparr>pt_links := tbl_update P (\<lambda>l. l\<lparr>ml_expires := now\<rparr>) (pt_links s)\<rparr>"

definition is_client :: "nat \<Rightarrow> nat \<Rightarrow> db \<Rightarrow> bool" where
  "is_client u w d \<longleftrightarrow> list_ex (\<lambda>m. mb_user m = u \<and> mb_workspace m = w \<and> mb_role m = WS_CLIENT) (db_members d)"

definition link_message :: "workspace \<Rightarrow> user \<Rightarrow> message" where
  "link_message w client =
    \<lparr>mg_subject = ws_name w @ '' - Posts ready for your review'', mg_to = [us_email client], mg_cc = [], mg_bcc = [],
     mg_class = Some CLASS_TRANSACTIONAL\<rparr>"

definition generate_magic_link ::
  "mail_env \<Rightarrow> instant \<Rightarrow> string \<Rightarrow> workspace \<Rightarrow> user \<Rightarrow> portal \<Rightarrow> (string + magic_link) \<times> portal" where
  "generate_magic_link env now secret w client s =
    (if \<not> is_client (us_id client) (ws_id w) (pt_db s) then (Inl ''User does not have client role in this workspace.'', s)
     else
       let superseded = map ml_id (filter (\<lambda>l. ml_user l = us_id client \<and> ml_workspace l = ws_id w \<and> \<not> ml_consumed l \<and>
              now < ml_expires l) (pt_links s));
           l = new_link now (pt_next s) (us_id client) (ws_id w) secret;
           s1 = s\<lparr>pt_links := pt_links s @ [l], pt_next := Suc (pt_next s)\<rparr>;
           (res, mx) = send_or_raise env now (link_message w client) (pt_mail s1);
           s2 = s1\<lparr>pt_mail := mx\<rparr>
       in if res \<noteq> SENT
          then (Inl ''We could not send that link right now. Please try again shortly.'',
                s2\<lparr>pt_links := tbl_delete (\<lambda>x. ml_id x = ml_id l) (pt_links s2)\<rparr>)
          else (Inr l, expire_links now (\<lambda>x. ml_id x \<in> set superseded) s2))"

definition load_link :: "instant \<Rightarrow> string \<Rightarrow> portal \<Rightarrow> magic_link option" where
  \<comment> \<open>the link of a token unless it is expired\<close>
  "load_link now t s =
    (case tbl_first (\<lambda>l. ml_token l = t) (pt_links s) of
       Some l \<Rightarrow> if is_expired now l then None else Some l
     | None \<Rightarrow> None)"

definition peek_magic_link :: "instant \<Rightarrow> string \<Rightarrow> portal \<Rightarrow> magic_link option" where
  "peek_magic_link now t s =
    (case load_link now t s of Some l \<Rightarrow> if ml_consumed l then None else Some l | None \<Rightarrow> None)"

definition flip_link :: "instant \<Rightarrow> magic_link \<Rightarrow> portal \<Rightarrow> bool \<times> portal" where
  \<comment> \<open>the conditional update, for the link as it was read\<close>
  "flip_link now l s =
    (list_ex (\<lambda>x. ml_id x = ml_id l \<and> \<not> ml_consumed x) (pt_links s),
     s\<lparr>pt_links := tbl_update (\<lambda>x. ml_id x = ml_id l \<and> \<not> ml_consumed x)
        (\<lambda>x. x\<lparr>ml_consumed := True, ml_last_used := Some now\<rparr>) (pt_links s)\<rparr>)"

definition consume_magic_link :: "instant \<Rightarrow> string \<Rightarrow> portal \<Rightarrow> (nat \<times> nat) option \<times> portal" where
  "consume_magic_link now t s =
    (case load_link now t s of
       None \<Rightarrow> (None, s)
     | Some l \<Rightarrow> (let (won, s1) = flip_link now l s in (if won then Some (ml_user l, ml_workspace l) else None, s1)))"

definition revoke_magic_link :: "instant \<Rightarrow> nat \<Rightarrow> nat \<Rightarrow> portal \<Rightarrow> portal" where
  "revoke_magic_link now i w = expire_links now (\<lambda>l. ml_id l = i \<and> ml_workspace l = w \<and> now < ml_expires l)"

section \<open>Sessions\<close>

record portal_session =
  se_user :: "nat option"
  se_portal :: bool
  se_workspace :: "nat option"

definition create_portal_session :: "nat \<Rightarrow> nat \<Rightarrow> portal_session" where
  "create_portal_session u w = \<lparr>se_user = Some u, se_portal = True, se_workspace = Some w\<rparr>"

datatype portal_answer =
    Expired_page
  | Confirm nat
    \<comment> \<open>the page with the button, for a workspace\<close>
  | Dashboard
  | Portal_missing
    \<comment> \<open>404\<close>
  | Portal_error string
  | Decided nat

definition magic_link_entry ::
  "instant \<Rightarrow> bool \<Rightarrow> string \<Rightarrow> portal_session \<Rightarrow> portal \<Rightarrow> portal_answer \<times> portal_session \<times> portal" where
  \<comment> \<open>the second argument says whether the request is a POST\<close>
  "magic_link_entry now is_post t se s =
    (if is_post then
       (case consume_magic_link now t s of
          (None, s1) \<Rightarrow> (Expired_page, se, s1)
        | (Some (u, w), s1) \<Rightarrow> (Dashboard, create_portal_session u w, s1))
     else (case peek_magic_link now t s of None \<Rightarrow> (Expired_page, se, s) | Some l \<Rightarrow> (Confirm (ml_workspace l), se, s)))"

definition portal_auth :: "portal_session \<Rightarrow> db \<Rightarrow> (user \<times> workspace \<times> ws_membership) option" where
  \<comment> \<open>\<open>portal_auth_required\<close>, \<open>None\<close> for the redirection\<close>
  "portal_auth se d =
    (case Option.bind (se_user se) (\<lambda>k. get_user k d) of
       None \<Rightarrow> None
     | Some u \<Rightarrow>
        if \<not> se_portal se then None
        else case Option.bind (se_workspace se) (\<lambda>k. get_workspace k d) of
          None \<Rightarrow> None
        | Some w \<Rightarrow> map_option (\<lambda>m. (u, w, m)) (membership_of (us_id u) (ws_id w) d))"

section \<open>Decisions of a client\<close>

definition portal_decision ::
  "pp_state \<Rightarrow> (post \<Rightarrow> user \<Rightarrow> workspace \<Rightarrow> db \<Rightarrow> string + db) \<Rightarrow> portal_session \<Rightarrow> nat \<Rightarrow> db \<Rightarrow> portal_answer \<times> db" where
  \<comment> \<open>the shape of the four views: a post of the workspace with a channel in the state asked for\<close>
  "portal_decision st act se i d =
    (case portal_auth se d of
       None \<Rightarrow> (Expired_page, d)
     | Some (u, w, m) \<Rightarrow>
        (case workspace_post i (ws_id w) d of
           None \<Rightarrow> (Portal_missing, d)
         | Some po \<Rightarrow>
            if \<not> list_ex (\<lambda>p. pp_status p = st) (children (po_id po) d) then (Portal_missing, d)
            else (case act po u w d of Inl e \<Rightarrow> (Portal_error e, d) | Inr d1 \<Rightarrow> (Decided (po_id po), d1))))"

definition decided :: "approval_error + (platform_post list \<times> db) \<Rightarrow> string + db" where
  "decided r = (case r of Inl (CommentRequired e) \<Rightarrow> Inl e | Inr (moved, d) \<Rightarrow> Inr d)"

definition portal_approve :: "instant \<Rightarrow> string \<Rightarrow> portal_session \<Rightarrow> nat \<Rightarrow> db \<Rightarrow> portal_answer \<times> db" where
  "portal_approve now comment =
    portal_decision PENDING_CLIENT (\<lambda>po u w d. Inr (snd (approve_post now (Bundled po) u w comment d)))"

definition portal_request_changes :: "instant \<Rightarrow> string \<Rightarrow> portal_session \<Rightarrow> nat \<Rightarrow> db \<Rightarrow> portal_answer \<times> db" where
  "portal_request_changes now comment =
    portal_decision PENDING_CLIENT (\<lambda>po u w d. decided (request_changes now (Bundled po) u w comment d))"

definition portal_reject :: "instant \<Rightarrow> string \<Rightarrow> portal_session \<Rightarrow> nat \<Rightarrow> db \<Rightarrow> portal_answer \<times> db" where
  "portal_reject now comment =
    portal_decision PENDING_CLIENT (\<lambda>po u w d. decided (reject_post now (Bundled po) u w comment d))"

definition portal_request_hold :: "instant \<Rightarrow> string \<Rightarrow> portal_session \<Rightarrow> nat \<Rightarrow> db \<Rightarrow> portal_answer \<times> db" where
  "portal_request_hold now comment =
    portal_decision APPROVED (\<lambda>po u w d. decided (request_hold now (Bundled po) u w comment d))"

section \<open>The manager's views\<close>

definition manager_of :: "request \<Rightarrow> nat \<Rightarrow> db \<Rightarrow> (workspace \<times> ws_membership) option" where
  \<comment> \<open>\<open>login_required\<close>, the middleware and \<open>require_workspace_role("manager")\<close>\<close>
  "manager_of rq w d =
    (case (rq_user rq, get_workspace w d) of
       (Some u, Some ws) \<Rightarrow>
        (case membership_of (us_id u) w d of
           Some m \<Rightarrow> if require_workspace_role WS_MANAGER (Some m) = None then Some (ws, m) else None
         | None \<Rightarrow> None)
     | _ \<Rightarrow> None)"

definition client_membership :: "nat \<Rightarrow> nat \<Rightarrow> db \<Rightarrow> ws_membership option" where
  "client_membership i w d = tbl_first (\<lambda>m. mb_id m = i \<and> mb_workspace m = w \<and> mb_role m = WS_CLIENT) (db_members d)"

definition send_magic_link :: "mail_env \<Rightarrow> instant \<Rightarrow> string \<Rightarrow> request \<Rightarrow> nat \<Rightarrow> nat \<Rightarrow> portal \<Rightarrow> portal" where
  \<comment> \<open>the answer and the limit of ten sends a minute are left out\<close>
  "send_magic_link env now secret rq w i s =
    (case manager_of rq w (pt_db s) of
       None \<Rightarrow> s
     | Some (ws, m) \<Rightarrow>
        (case Option.bind (client_membership i w (pt_db s)) (\<lambda>c. get_user (mb_user c) (pt_db s)) of
           None \<Rightarrow> s
         | Some u \<Rightarrow> snd (generate_magic_link env now secret ws u s)))"

definition remove_client :: "instant \<Rightarrow> request \<Rightarrow> nat \<Rightarrow> nat \<Rightarrow> portal \<Rightarrow> portal" where
  "remove_client now rq w i s =
    (case manager_of rq w (pt_db s) of
       None \<Rightarrow> s
     | Some (ws, m) \<Rightarrow>
        (case client_membership i w (pt_db s) of
           None \<Rightarrow> s
         | Some c \<Rightarrow>
            (let s1 = expire_links now (\<lambda>l. ml_user l = mb_user c \<and> ml_workspace l = w \<and> now < ml_expires l) s
             in s1\<lparr>pt_db := (pt_db s1)\<lparr>db_members := tbl_delete (\<lambda>m. mb_id m = mb_id c) (db_members (pt_db s1))\<rparr>\<rparr>)))"

end
