(* ===== verification/Portal_Safety.thy ===== *)
theory Portal_Safety
  imports Client_Portal Mail_Budget
begin

text \<open>
  What the portal promises: a link admits once however many requests race for it, a client has one working link,
  a failed send costs nothing; what a decision of a client may touch; and how a client can approve what the team
  has not reviewed.
\<close>

section \<open>Runs with racing requests\<close>

record portal_run =
  pr_portal :: portal
  pr_loaded :: "nat \<Rightarrow> magic_link option"
    \<comment> \<open>what each request has read\<close>
  pr_admitted :: "nat list"
    \<comment> \<open>the links that have opened a session, for the statements\<close>

datatype portal_event =
    Sends mail_env instant string request nat nat
  | Loads instant nat string
  | Flips instant nat
  | Revokes instant nat nat
  | Removes instant request nat nat

fun event_at :: "portal_event \<Rightarrow> instant" where
  "event_at (Sends env now secret rq w i) = now"
| "event_at (Loads now k t) = now"
| "event_at (Flips now k) = now"
| "event_at (Revokes now i w) = now"
| "event_at (Removes now rq w i) = now"

fun portal_step :: "portal_run \<Rightarrow> portal_event \<Rightarrow> portal_run" where
  "portal_step r (Sends env now secret rq w i) = r\<lparr>pr_portal := send_magic_link env now secret rq w i (pr_portal r)\<rparr>"
| "portal_step r (Loads now k t) = r\<lparr>pr_loaded := (pr_loaded r)(k := load_link now t (pr_portal r))\<rparr>"
| "portal_step r (Flips now k) =
    (case pr_loaded r k of
       None \<Rightarrow> r
     | Some l \<Rightarrow>
        (let (won, s) = flip_link now l (pr_portal r)
         in r\<lparr>pr_portal := s, pr_loaded := (pr_loaded r)(k := None),
              pr_admitted := (if won then pr_admitted r @ [ml_id l] else pr_admitted r)\<rparr>))"
| "portal_step r (Revokes now i w) = r\<lparr>pr_portal := revoke_magic_link now i w (pr_portal r)\<rparr>"
| "portal_step r (Removes now rq w i) = r\<lparr>pr_portal := remove_client now rq w i (pr_portal r)\<rparr>"

definition new_run :: "db \<Rightarrow> mailbox \<Rightarrow> portal_run" where
  "new_run d mx = \<lparr>pr_portal = \<lparr>pt_db = d, pt_links = [], pt_mail = mx, pt_next = 0\<rparr>, pr_loaded = (\<lambda>_. None), pr_admitted = []\<rparr>"

section \<open>A link admits once\<close>

definition admits_once :: "portal_run \<Rightarrow> bool" where
  "admits_once r \<longleftrightarrow> distinct (map ml_id (pt_links (pr_portal r))) \<and>
    (\<forall>l \<in> set (pt_links (pr_portal r)). ml_id l < pt_next (pr_portal r) \<and> (ml_id l \<in> set (pr_admitted r) \<longrightarrow> ml_consumed l)) \<and>
    distinct (pr_admitted r) \<and> (\<forall>i \<in> set (pr_admitted r). i < pt_next (pr_portal r))"

lemma links_expire: "\<exists>f. pt_links (expire_links now P s) = map f (pt_links s) \<and> (\<forall>l. ml_id (f l) = ml_id l \<and> ml_consumed (f l) = ml_consumed l)"
  by (rule exI [of _ "\<lambda>l. if P l then l\<lparr>ml_expires := now\<rparr> else l"]) (auto simp: expire_links_def tbl_update_def)

lemma next_expire [simp]: "pt_next (expire_links now P s) = pt_next s"
  by (simp add: expire_links_def)

lemma admits_once_map:
  assumes "admits_once r" and "pt_links s = map f (pt_links (pr_portal r))" and "\<And>l. ml_id (f l) = ml_id l"
    and "\<And>l. ml_consumed l \<Longrightarrow> ml_consumed (f l)" and "pt_next s = pt_next (pr_portal r)"
  shows "admits_once (r\<lparr>pr_portal := s\<rparr>)"
  using assms by (auto simp: admits_once_def comp_def)

lemma admits_once_expire: "admits_once r \<Longrightarrow> admits_once (r\<lparr>pr_portal := expire_links now P (pr_portal r)\<rparr>)"
  using links_expire [of now P "pr_portal r"] by (metis admits_once_map next_expire)

lemma admits_once_add:
  assumes "admits_once r" and "pt_links s = pt_links (pr_portal r) @ [l]" and "ml_id l = pt_next (pr_portal r)" and "pt_next s = Suc (ml_id l)"
  shows "admits_once (r\<lparr>pr_portal := s\<rparr>)"
  using assms by (force simp: admits_once_def less_Suc_eq)

lemma admits_once_same_links:
  "admits_once r \<Longrightarrow> pt_links s = pt_links (pr_portal r) \<Longrightarrow> pt_next (pr_portal r) \<le> pt_next s \<Longrightarrow> admits_once (r\<lparr>pr_portal := s\<rparr>)"
  by (force simp: admits_once_def)

lemma generated:
  assumes "distinct (map ml_id (pt_links s))" and "\<forall>l \<in> set (pt_links s). ml_id l < pt_next s"
    and "generate_magic_link env now secret w client s = (res, s')"
  shows "(\<exists>e. res = Inl e) \<and> pt_links s' = pt_links s \<and> pt_next s \<le> pt_next s' \<and> pt_db s' = pt_db s \<or>
    (\<exists>mx. res = Inr (new_link now (pt_next s) (us_id client) (ws_id w) secret) \<and>
      s' = expire_links now (\<lambda>x. ml_id x \<in> ml_id ` {l \<in> set (pt_links s). ml_user l = us_id client \<and> ml_workspace l = ws_id w \<and>
             \<not> ml_consumed l \<and> now < ml_expires l})
           (s\<lparr>pt_links := pt_links s @ [new_link now (pt_next s) (us_id client) (ws_id w) secret], pt_next := Suc (pt_next s), pt_mail := mx\<rparr>))"
proof (cases "is_client (us_id client) (ws_id w) (pt_db s)")
  case False
  then show ?thesis using assms(3) by (auto simp: generate_magic_link_def)
next
  case True
  obtain out mx where m: "send_or_raise env now (link_message w client) (pt_mail s) = (out, mx)" by fastforce
  show ?thesis
  proof (cases "out = SENT")
    case True
    then show ?thesis using assms(3) m \<open>is_client (us_id client) (ws_id w) (pt_db s)\<close>
      by (auto simp: generate_magic_link_def Let_def)
  next
    case False
    have "tbl_delete (\<lambda>x. ml_id x = pt_next s) (pt_links s) = pt_links s"
      using assms(2) by (auto simp: tbl_delete_def filter_id_conv)
    then show ?thesis using assms(3) m False True
      by (auto simp: generate_magic_link_def Let_def new_link_def tbl_delete_def)
  qed
qed

lemma admits_once_generate:
  assumes "admits_once r"
  shows "admits_once (r\<lparr>pr_portal := snd (generate_magic_link env now secret w client (pr_portal r))\<rparr>)"
proof -
  let ?s = "pr_portal r"
  have d: "distinct (map ml_id (pt_links ?s))" "\<forall>l \<in> set (pt_links ?s). ml_id l < pt_next ?s" using assms by (auto simp: admits_once_def)
  obtain res s' where g: "generate_magic_link env now secret w client ?s = (res, s')" by fastforce
  from generated [OF d g] show ?thesis
  proof (elim disjE conjE exE)
    assume "pt_links s' = pt_links ?s" "pt_next ?s \<le> pt_next s'"
    then show ?thesis using admits_once_same_links [OF assms] by (simp add: g)
  next
    fix mx
    let ?t = "?s\<lparr>pt_links := pt_links ?s @ [new_link now (pt_next ?s) (us_id client) (ws_id w) secret], pt_next := Suc (pt_next ?s), pt_mail := mx\<rparr>"
    assume s': "s' = expire_links now (\<lambda>x. ml_id x \<in> ml_id ` {l \<in> set (pt_links ?s). ml_user l = us_id client \<and> ml_workspace l = ws_id w \<and>
             \<not> ml_consumed l \<and> now < ml_expires l}) ?t"
    have "admits_once (r\<lparr>pr_portal := ?t\<rparr>)" by (rule admits_once_add [OF assms, where l = "new_link now (pt_next ?s) (us_id client) (ws_id w) secret"]) (simp_all add: new_link_def)
    from admits_once_expire [OF this] show ?thesis by (simp add: g s')
  qed
qed

lemma admits_once_flip:
  assumes "admits_once r" and "flip_link now l (pr_portal r) = (won, s)"
  shows "admits_once (r\<lparr>pr_portal := s, pr_loaded := ld, pr_admitted := (if won then pr_admitted r @ [ml_id l] else pr_admitted r)\<rparr>)"
proof -
  obtain f where s: "pt_links s = map f (pt_links (pr_portal r))" "pt_next s = pt_next (pr_portal r)"
    and f: "\<And>x. ml_id (f x) = ml_id x" "\<And>x. ml_consumed x \<or> ml_id x = ml_id l \<Longrightarrow> ml_consumed (f x)"
  proof
    let ?f = "\<lambda>x. if ml_id x = ml_id l \<and> \<not> ml_consumed x then x\<lparr>ml_consumed := True, ml_last_used := Some now\<rparr> else x"
    show "pt_links s = map ?f (pt_links (pr_portal r))" "pt_next s = pt_next (pr_portal r)"
      using assms(2) by (auto simp: flip_link_def tbl_update_def)
  qed auto
  have won: "won \<longleftrightarrow> (\<exists>x \<in> set (pt_links (pr_portal r)). ml_id x = ml_id l \<and> \<not> ml_consumed x)"
    using assms(2) by (auto simp: flip_link_def list_ex_iff)
  have "won \<Longrightarrow> ml_id l \<notin> set (pr_admitted r) \<and> ml_id l < pt_next (pr_portal r)"
    using assms(1) won by (auto simp: admits_once_def)
  then show ?thesis using assms(1) f by (auto simp: admits_once_def s comp_def split: if_splits)
qed

lemma admits_once_step: "admits_once r \<Longrightarrow> admits_once (portal_step r e)"
proof (cases e)
  case (Sends env now secret rq w i)
  assume "admits_once r"
  then show ?thesis using admits_once_generate admits_once_same_links [of r "pr_portal r"]
    by (auto simp: Sends send_magic_link_def split: option.split)
next
  case (Flips now k)
  assume a: "admits_once r"
  show ?thesis
  proof (cases "pr_loaded r k")
    case (Some l)
    obtain won s where "flip_link now l (pr_portal r) = (won, s)" by fastforce
    with admits_once_flip [OF a this] show ?thesis by (simp add: Flips Some)
  qed (simp add: Flips a)
next
  case (Removes now rq w i)
  assume a: "admits_once r"
  have "admits_once (r\<lparr>pr_portal := (expire_links now P (pr_portal r))\<lparr>pt_db := d\<rparr>\<rparr>)" for P d
    using admits_once_expire [OF a, of now P] by (simp add: admits_once_def)
  then show ?thesis using a by (auto simp: Removes remove_client_def Let_def split: option.split)
qed (auto simp: revoke_magic_link_def admits_once_expire, simp add: admits_once_def)

interpretation portal_machine: machine portal_step admits_once
  by unfold_locales (rule admits_once_step)

text \<open>
  C38. A magic link admits once: however many requests read a link and race to consume it, and whatever is sent,
  revoked and removed between them, at most one of them opens a session.
\<close>

theorem link_admits_once:
  "count_list (pr_admitted (foldl portal_step (new_run d mx) es)) i \<le> 1"
proof -
  have "admits_once (new_run d mx)" by (simp add: admits_once_def new_run_def)
  from portal_machine.run_inv [OF this, of es] show ?thesis by (simp add: admits_once_def count_list_distinct)
qed

section \<open>One working link\<close>

definition live_links :: "instant \<Rightarrow> nat \<Rightarrow> nat \<Rightarrow> portal \<Rightarrow> magic_link list" where
  "live_links t u w s =
    filter (\<lambda>l. ml_user l = u \<and> ml_workspace l = w \<and> \<not> ml_consumed l \<and> t < ml_expires l) (pt_links s)"

definition only_one :: "instant \<Rightarrow> portal \<Rightarrow> bool" where
  "only_one t s \<longleftrightarrow> (\<forall>u w. length (live_links t u w s) \<le> 1)"

lemma length_filter_mono: "(\<And>x. Q x \<Longrightarrow> P x) \<Longrightarrow> length (filter Q xs) \<le> length (filter P xs)"
  by (induction xs) auto

lemma length_filter_map: "(\<And>x. Q (f x) \<Longrightarrow> Q x) \<Longrightarrow> length (filter Q (map f xs)) \<le> length (filter Q xs)"
  by (induction xs) auto

lemma only_one_later: "only_one t s \<Longrightarrow> t \<le> t' \<Longrightarrow> only_one t' s"
proof -
  assume o: "only_one t s" and le: "t \<le> t'"
  have "length (live_links t' u w s) \<le> length (live_links t u w s)" for u w
    unfolding live_links_def by (rule length_filter_mono) (use le in auto)
  then show ?thesis using o le_trans unfolding only_one_def by blast
qed

lemma only_one_map:
  assumes "only_one t s" and "pt_links s' = map f (pt_links s)"
    and "\<And>l. ml_user (f l) = ml_user l \<and> ml_workspace (f l) = ml_workspace l \<and> (ml_consumed l \<longrightarrow> ml_consumed (f l)) \<and>
      (t < ml_expires (f l) \<longrightarrow> t < ml_expires l)"
  shows "only_one t s'"
proof -
  have "length (live_links t u w s') \<le> length (live_links t u w s)" for u w
    unfolding live_links_def assms(2) by (rule length_filter_map) (use assms(3) in metis)
  then show ?thesis using assms(1) le_trans unfolding only_one_def by blast
qed

lemma only_one_expire: "only_one now s \<Longrightarrow> only_one now (expire_links now P s)"
  by (rule only_one_map [of now s _ "\<lambda>l. if P l then l\<lparr>ml_expires := now\<rparr> else l"]) (auto simp: expire_links_def tbl_update_def)

lemma only_one_flip: "only_one now s \<Longrightarrow> only_one now (snd (flip_link now l s))"
  by (rule only_one_map [of now s _ "\<lambda>x. if ml_id x = ml_id l \<and> \<not> ml_consumed x
        then x\<lparr>ml_consumed := True, ml_last_used := Some now\<rparr> else x"]) (auto simp: flip_link_def tbl_update_def)

lemma only_one_generate:
  assumes one: "only_one now s" and d: "distinct (map ml_id (pt_links s))" "\<forall>l \<in> set (pt_links s). ml_id l < pt_next s"
  shows "only_one now (snd (generate_magic_link env now secret w client s))"
proof -
  obtain res s' where g: "generate_magic_link env now secret w client s = (res, s')" by fastforce
  from generated [OF d g] show ?thesis
  proof (elim disjE conjE exE)
    assume "pt_links s' = pt_links s"
    then show ?thesis using one by (simp add: g only_one_def live_links_def)
  next
    fix mx
    let ?new = "new_link now (pt_next s) (us_id client) (ws_id w) secret"
    let ?old = "ml_id ` {l \<in> set (pt_links s). ml_user l = us_id client \<and> ml_workspace l = ws_id w \<and> \<not> ml_consumed l \<and> now < ml_expires l}"
    assume s': "s' = expire_links now (\<lambda>x. ml_id x \<in> ?old) (s\<lparr>pt_links := pt_links s @ [?new], pt_next := Suc (pt_next s), pt_mail := mx\<rparr>)"
    let ?f = "\<lambda>l. if ml_id l \<in> ?old then l\<lparr>ml_expires := now\<rparr> else l"
    have "ml_id ?new \<notin> ?old" using d(2) by (auto simp: new_link_def)
    then have links: "pt_links s' = map ?f (pt_links s) @ [?new]" by (simp add: s' expire_links_def tbl_update_def)
    have "length (live_links now u v s') \<le> 1" for u v
    proof (cases "u = us_id client \<and> v = ws_id w")
      case True
      have "filter (\<lambda>l. ml_user l = u \<and> ml_workspace l = v \<and> \<not> ml_consumed l \<and> now < ml_expires l) (map ?f (pt_links s)) = []"
        using True by (auto simp: filter_empty_conv)
      then show ?thesis by (simp add: live_links_def links)
    next
      case False
      let ?P = "\<lambda>l. ml_user l = u \<and> ml_workspace l = v \<and> \<not> ml_consumed l \<and> now < ml_expires l"
      have n: "filter ?P [?new] = []" using False by (auto simp: new_link_def)
      have "length (filter ?P (map ?f (pt_links s))) \<le> length (filter ?P (pt_links s))"
        by (rule length_filter_map) (auto split: if_splits)
      also have "\<dots> \<le> 1" using one by (simp add: only_one_def live_links_def)
      finally show ?thesis unfolding live_links_def links filter_append n by simp
    qed
    then show ?thesis by (simp add: g only_one_def)
  qed
qed

lemma only_one_step:
  assumes "admits_once r" and "only_one t (pr_portal r)" and "t \<le> event_at e"
  shows "only_one (event_at e) (pr_portal (portal_step r e))"
proof -
  have o: "only_one (event_at e) (pr_portal r)" by (rule only_one_later [OF assms(2,3)])
  have d: "distinct (map ml_id (pt_links (pr_portal r)))" "\<forall>l \<in> set (pt_links (pr_portal r)). ml_id l < pt_next (pr_portal r)"
    using assms(1) by (auto simp: admits_once_def)
  show ?thesis
  proof (cases e)
    case (Sends env now secret rq w i)
    then show ?thesis using o only_one_generate [OF _ d] by (auto simp: send_magic_link_def split: option.split)
  next
    case (Loads now k tok)
    then show ?thesis using o by simp
  next
    case (Flips now k)
    then have "only_one now (pr_portal r)" using o by simp
    from only_one_flip [OF this] show ?thesis using o Flips by (auto simp: Let_def split: option.split prod.split) (metis snd_conv)
  next
    case (Revokes now i w)
    then show ?thesis using o by (simp add: revoke_magic_link_def only_one_expire)
  next
    case (Removes now rq w i)
    then have "only_one now (pr_portal r)" using o by simp
    then have "only_one now ((expire_links now P (pr_portal r))\<lparr>pt_db := d\<rparr>)" for P d
      using only_one_expire by (simp add: only_one_def live_links_def)
    then show ?thesis using o Removes by (auto simp: remove_client_def Let_def split: option.split)
  qed
qed

text \<open>
  C39. A client has one working link: whatever managers send and revoke and clients use, in any order, at any time
  after the last of it a client has at most one link for a workspace that still opens a session to a request that comes
  then. A send runs to its end before the next one starts: of two sends at once each may miss the link of the other.
\<close>

theorem one_working_link:
  assumes "sorted (map event_at es)" and "list_all (\<lambda>e. event_at e < t) es"
  shows "length (filter (\<lambda>l. ml_user l = u \<and> ml_workspace l = w \<and> \<not> ml_consumed l \<and> \<not> is_expired t l)
    (pt_links (pr_portal (foldl portal_step (new_run d mx) es)))) \<le> 1"
proof -
  have run: "\<exists>t0 < t. only_one t0 (pr_portal (foldl portal_step r es))"
    if "admits_once r" "only_one t1 (pr_portal r)" "t1 < t" "sorted (t1 # map event_at es)" "list_all (\<lambda>e. event_at e < t) es" for t1 r
    using that
  proof (induction es arbitrary: r t1)
    case (Cons e es)
    show ?case
      by (simp, rule Cons.IH [OF admits_once_step [OF Cons.prems(1)] only_one_step [OF Cons.prems(1,2)]]) (use Cons.prems(3-5) in auto)
  qed auto
  have "admits_once (new_run d mx)" "only_one t1 (pr_portal (new_run d mx))" for t1
    by (simp_all add: admits_once_def new_run_def only_one_def live_links_def)
  moreover have "sorted ((if es = [] then t - 1 else event_at (hd es)) # map event_at es)" using assms(1) by (cases es) auto
  moreover have "(if es = [] then t - 1 else event_at (hd es)) < t" using assms(2) by (cases es) auto
  ultimately obtain t0 where t0: "t0 < t" "only_one t0 (pr_portal (foldl portal_step (new_run d mx) es))"
    using run assms(2) by blast
  let ?s = "pr_portal (foldl portal_step (new_run d mx) es)"
  have "length (filter (\<lambda>l. ml_user l = u \<and> ml_workspace l = w \<and> \<not> ml_consumed l \<and> \<not> is_expired t l) (pt_links ?s)) \<le> length (live_links t0 u w ?s)"
    unfolding live_links_def by (rule length_filter_mono) (use t0(1) in \<open>auto simp: is_expired_def\<close>)
  then show ?thesis using t0(2) le_trans unfolding only_one_def by blast
qed

definition portal_ws :: workspace where
  "portal_ws = sample_ws\<lparr>ws_approval_mode := ''required_internal_and_client''\<rparr>"

definition client_user :: user where
  "client_user = \<lparr>us_id = 8, us_name = ''Cleo'', us_email = ''cleo@client.test''\<rparr>"

definition portal_db :: db where
  "portal_db = review_db\<lparr>db_workspaces := [portal_ws], db_users := [reviewer, client_user],
     db_members := [\<lparr>mb_id = 1, mb_user = 4, mb_workspace = 1, mb_role = WS_MANAGER, mb_custom = None\<rparr>,
                    \<lparr>mb_id = 2, mb_user = 8, mb_workspace = 1, mb_role = WS_CLIENT, mb_custom = None\<rparr>]\<rparr>"

definition willing_env :: mail_env where
  "willing_env = \<lparr>me_cfg = [], me_sha = (\<lambda>s. s), me_inner = (\<lambda>ms. Some (length ms)), me_fails = (\<lambda>_. False),
     me_lookup_fails = False\<rparr>"

definition two_sends :: "portal_event list" where
  "two_sends = (let rq = \<lparr>rq_user = Some reviewer, rq_post = [], rq_pending = []\<rparr>
     in [Sends willing_env 10 ''a'' rq 1 2, Sends willing_env 20 ''b'' rq 1 2])"

definition two_sent :: portal where
  "two_sent = pr_portal (foldl portal_step (new_run portal_db (new_mailbox [])) two_sends)"

lemma two_sent_links:
  "map (\<lambda>l. (ml_user l, ml_workspace l, ml_consumed l, ml_expires l, ml_token l)) (pt_links two_sent) =
    [(8, 1, False, 20, ''a''), (8, 1, False, 2592000000020, ''b'')]"
  by code_simp

theorem one_working_link_witness:
  "length (filter (\<lambda>l. ml_user l = 8 \<and> ml_workspace l = 1 \<and> \<not> ml_consumed l \<and> \<not> is_expired 30 l) (pt_links two_sent)) = 1"
proof -
  let ?n = "length (filter (\<lambda>l. ml_user l = 8 \<and> ml_workspace l = 1 \<and> \<not> ml_consumed l \<and> \<not> is_expired 30 l) (pt_links two_sent))"
  have "?n \<le> 1" unfolding two_sent_def by (rule one_working_link) (simp_all add: two_sends_def Let_def)
  moreover have "?n \<noteq> 0" using two_sent_links by (auto simp: filter_empty_conv is_expired_def)
  ultimately show ?thesis by linarith
qed

text \<open>A send that fails leaves every link as it was.\<close>

lemma failed_send_changes_no_link:
  assumes "admits_once r" and "generate_magic_link env now secret w client (pr_portal r) = (Inl e, s')"
  shows "pt_links s' = pt_links (pr_portal r)"
  using generated [OF _ _ assms(2)] assms(1) by (auto simp: admits_once_def)

section \<open>Decisions\<close>

lemma portal_decision_cases:
  assumes "portal_decision st act se i d = (ans, d')"
  shows "d' = d \<or> (\<exists>u w m po. portal_auth se d = Some (u, w, m) \<and> workspace_post i (ws_id w) d = Some po \<and>
    list_ex (\<lambda>p. pp_status p = st) (children (po_id po) d) \<and> act po u w d = Inr d' \<and> ans = Decided (po_id po))"
  using assms by (auto simp: portal_decision_def split: option.splits if_splits sum.splits)

lemma get_pp_map_others:
  "distinct (map pp_id (db_pps d)) \<Longrightarrow> db_pps d' = map f (db_pps d) \<Longrightarrow> (\<And>r. pp_id (f r) = pp_id r) \<Longrightarrow>
    get_pp j d' = map_option f (get_pp j d)"
proof -
  assume m: "db_pps d' = map f (db_pps d)" and f: "\<And>r. pp_id (f r) = pp_id r"
  have "find (\<lambda>r. pp_id r = j) (map f xs) = map_option f (find (\<lambda>r. pp_id r = j) xs)" for xs by (induction xs) (auto simp: f)
  then show ?thesis by (simp add: get_pp_def tbl_get_def m)
qed

definition standing :: "db \<Rightarrow> post list \<times> user list \<times> workspace list \<times> ws_membership list \<times> queue_entry list" where
  "standing d = (db_posts d, db_users d, db_workspaces d, db_members d, db_entries d)"

lemma standing_transition: "transition_or_skip now p s d = Some (q, d') \<Longrightarrow> standing d' = standing d"
  by (auto simp: transition_or_skip_def save_transition_def update_pps_def standing_def split: if_splits sum.splits)

lemma standing_approve_all: "standing (snd (snd (approve_all now two ps d))) = standing d"
proof (induction ps arbitrary: d)
  case (Cons p ps)
  then show ?case using standing_transition by (auto simp: case_prod_beta Let_def split: option.split)
qed simp

lemma standing_frames [simp]:
  "standing (record_action i j u act c d) = standing d" "standing (notify v e ti b da d) = standing d"
  "standing (reset_reminder i st d) = standing d"
  by (simp_all add: standing_def record_action_def notify_def add_note_def reset_reminder_def Let_def)

lemma standing_notify [simp]:
  "standing (notify_all us e ti b da d) = standing d" "standing (notify_author po u w e ti b d) = standing d"
  by (simp_all add: notify_all_def notify_author_def fold_frame split: option.split)

lemma standing_approve_post: "standing (snd (approve_post now (Bundled po) u w comment d)) = standing d"
  using standing_approve_all [of now "ws_approval_mode w = ''required_internal_and_client''" _ d]
  by (auto simp: approve_post_def Let_def case_prod_beta notify_clients_def simp del: resolve_targets.simps)

lemma approve_post_row:
  assumes "keys_ok d" and "get_pp j d = Some p" and "pp_post p = po_id po"
  shows "\<exists>p'. get_pp j (snd (approve_post now (Bundled po) u w comment d)) = Some p' \<and> pp_post p' = po_id po \<and>
    pp_status p' = (if pp_status p = PENDING_REVIEW then
        (if ws_approval_mode w = ''required_internal_and_client'' then PENDING_CLIENT else APPROVED)
      else if pp_status p = PENDING_CLIENT then APPROVED else pp_status p)"
proof -
  obtain moved d' where r: "approve_post now (Bundled po) u w comment d = (moved, d')" by fastforce
  have k: "distinct (map pp_id (db_pps d))" using assms(1) by (simp add: keys_ok_def)
  have "get_pp j d' = map_option (\<lambda>r. if pp_post r \<noteq> po_id po then r
      else if pp_status r = PENDING_REVIEW then
        r\<lparr>pp_status := (if ws_approval_mode w = ''required_internal_and_client'' then PENDING_CLIENT
                        else APPROVED), pp_updated_at := now\<rparr>
      else if pp_status r = PENDING_CLIENT then r\<lparr>pp_status := APPROVED, pp_updated_at := now\<rparr>
      else r) (get_pp j d)"
    by (rule get_pp_map_others [OF k approve_post_rows [OF assms(1) r]]) simp
  then show ?thesis by (simp add: r assms(2,3))
qed

lemma keys_ok_approve_post:
  assumes "keys_ok d"
  shows "keys_ok (snd (approve_post now (Bundled po) u w comment d))"
proof -
  obtain moved d' where r: "approve_post now (Bundled po) u w comment d = (moved, d')" by fastforce
  have "map pp_id (db_pps d') = map pp_id (db_pps d)" unfolding approve_post_rows [OF assms r] by (simp add: comp_def)
  then show ?thesis using assms standing_approve_post [of now po u w comment d] by (simp add: r keys_ok_def standing_def)
qed

lemma standing_admits:
  "standing d' = standing d \<Longrightarrow> portal_auth se d' = portal_auth se d \<and> workspace_post i w d' = workspace_post i w d"
proof -
  assume "standing d' = standing d"
  then have e: "get_user k d' = get_user k d" "get_workspace k d' = get_workspace k d" "membership_of k l d' = membership_of k l d"
    "workspace_post k l d' = workspace_post k l d" for k l
    by (simp_all add: standing_def workspace_post_def get_user_def get_workspace_def membership_of_def)
  show ?thesis unfolding portal_auth_def e by simp
qed

lemma portal_approve_passes:
  assumes "portal_auth se d = Some (u, w, m)" and "workspace_post i (ws_id w) d = Some po"
    and "list_ex (\<lambda>p. pp_status p = PENDING_CLIENT) (children (po_id po) d)"
  shows "portal_approve now c se i d = (Decided (po_id po), snd (approve_post now (Bundled po) u w c d))"
  using assms by (simp add: portal_approve_def portal_decision_def)

text \<open>
  C40. A client can do the team's review: under the two-stage workflow two approvals of a post from the portal take a
  channel that waits for the team past the team and past the client, as long as some channel of the post waits for
  the client. Nobody of the team has approved it.
\<close>

theorem client_approves_both_stages:
  assumes "keys_ok d" and "portal_auth se d = Some (u, w, m)" and "ws_approval_mode w = ''required_internal_and_client''"
    and "workspace_post i (ws_id w) d = Some po" and "list_ex (\<lambda>p. pp_status p = PENDING_CLIENT) (children (po_id po) d)"
    and "get_pp j d = Some p" and "pp_post p = po_id po" and "pp_status p = PENDING_REVIEW"
    and "portal_approve t1 c1 se i d = (a1, d1)" and "portal_approve t2 c2 se i d1 = (a2, d2)"
  shows "\<exists>p'. get_pp j d2 = Some p' \<and> pp_status p' = APPROVED"
proof -
  have d1: "d1 = snd (approve_post t1 (Bundled po) u w c1 d)" using portal_approve_passes [OF assms(2,4,5)] assms(9) by simp
  obtain p1 where p1: "get_pp j d1 = Some p1" "pp_post p1 = po_id po" "pp_status p1 = PENDING_CLIENT"
    using approve_post_row [OF assms(1,6,7), of t1 u w c1] assms(3,8) by (auto simp: d1)
  have a: "portal_auth se d1 = Some (u, w, m)" "workspace_post i (ws_id w) d1 = Some po"
    using standing_admits [OF standing_approve_post [of t1 po u w c1 d]] assms(2,4) by (simp_all add: d1)
  have "p1 \<in> set (children (po_id po) d1)"
    using p1 by (auto simp: children_def get_pp_def dest: tbl_get_Some)
  then have "list_ex (\<lambda>p. pp_status p = PENDING_CLIENT) (children (po_id po) d1)" using p1(3) by (auto simp: list_ex_iff)
  from portal_approve_passes [OF a this] have d2: "d2 = snd (approve_post t2 (Bundled po) u w c2 d1)" using assms(10) by simp
  have "keys_ok d1" unfolding d1 by (rule keys_ok_approve_post [OF assms(1)])
  from approve_post_row [OF this p1(1,2), of t2 u w c2] p1(3) show ?thesis by (auto simp: d2)
qed

theorem client_approves_both_stages_witness:
  "\<exists>p'. get_pp 8 (snd (portal_approve 60 [] (create_portal_session 8 1) 7 (snd (portal_approve 50 [] (create_portal_session 8 1) 7 portal_db)))) =
    Some p' \<and> pp_status p' = APPROVED"
proof -
  let ?se = "create_portal_session 8 1"
  obtain a1 d1 where 1: "portal_approve 50 [] ?se 7 portal_db = (a1, d1)" by fastforce
  obtain a2 d2 where 2: "portal_approve 60 [] ?se 7 d1 = (a2, d2)" by fastforce
  have k: "keys_ok portal_db" by (simp add: keys_ok_def portal_db_def review_defs)
  have a: "portal_auth ?se portal_db = Some (client_user, portal_ws,
      \<lparr>mb_id = 2, mb_user = 8, mb_workspace = 1, mb_role = WS_CLIENT, mb_custom = None\<rparr>)" by code_simp
  have w: "ws_approval_mode portal_ws = ''required_internal_and_client''" by code_simp
  have p: "workspace_post 7 (ws_id portal_ws) portal_db = Some sample_post" by code_simp
  have c: "list_ex (\<lambda>p. pp_status p = PENDING_CLIENT) (children (po_id sample_post) portal_db)" by code_simp
  have g: "get_pp 8 portal_db = Some ((new_platform_post 8 7 5 0)\<lparr>pp_status := PENDING_REVIEW\<rparr>)" by code_simp
  have q: "pp_post ((new_platform_post 8 7 5 0)\<lparr>pp_status := PENDING_REVIEW\<rparr>) = po_id sample_post"
    "pp_status ((new_platform_post 8 7 5 0)\<lparr>pp_status := PENDING_REVIEW\<rparr>) = PENDING_REVIEW" by code_simp+
  from client_approves_both_stages [OF k a w p c g q 1 2] show ?thesis unfolding 1 snd_conv 2 .
qed

end
