(* ===== verification/Calendar_Views.thy ===== *)
theory Calendar_Views
  imports Calendar_Queue Compose_Forms
begin

text \<open>
  The writing views of \<open>apps/calendar/views.py\<close>: dragging a channel to another time, the bulk actions of the
  selection bar, posting slots and queues. A view first loads the rows it works on and writes them back later;
  the two halves are definitions of their own, since nothing locks the rows in between. An answer of success is one value, whether the page
  asked for a fragment or for JSON.
\<close>

section \<open>Times of day and datetimes\<close>

definition is_digit :: "char \<Rightarrow> bool" where
  "is_digit c \<longleftrightarrow> all_digits 0 [c] \<noteq> None"

definition second_sep :: "bool \<Rightarrow> nat \<Rightarrow> string \<Rightarrow> bool" where
  "second_sep sep i t \<longleftrightarrow> (sep \<longrightarrow> take 1 (drop i t) = '':'')"

definition fraction :: "string \<Rightarrow> int option" where
  \<comment> \<open>up to six digits are read, the rest must be digits\<close>
  "fraction f =
    (if f = [] \<or> \<not> list_all is_digit f then None
     else map_option (\<lambda>n. int n * 10 ^ (6 - length (take 6 f))) (all_digits 0 (take 6 f)))"

definition clock_parts :: "string \<Rightarrow> (int \<times> int \<times> int \<times> int) option" where
  \<comment> \<open>\<open>HH[:?MM[:?SS[{.,}fff[fff]]]]\<close>\<close>
  "clock_parts t =
    (let sep = (take 1 (drop 2 t) = '':''); p1 = (if sep then 3 else 2); p2 = p1 + 2;
         p3 = (if sep then p2 + 1 else p2); p4 = p3 + 2 in
     case digits_at 0 2 t of
       None \<Rightarrow> None
     | Some h \<Rightarrow>
        if length t = 2 then Some (h, 0, 0, 0)
        else case digits_at p1 2 t of
          None \<Rightarrow> None
        | Some m \<Rightarrow>
            if length t = p2 then Some (h, m, 0, 0)
            else if \<not> second_sep sep p2 t then None
            else case digits_at p3 2 t of
              None \<Rightarrow> None
            | Some s \<Rightarrow>
                if length t = p4 then Some (h, m, s, 0)
                else if take 1 (drop p4 t) = ''.'' \<or> take 1 (drop p4 t) = '',''
                then map_option (\<lambda>f. (h, m, s, f)) (fraction (drop (p4 + 1) t))
                else None)"

definition micros :: "int \<times> int \<times> int \<times> int \<Rightarrow> int" where
  "micros x = (case x of (h, m, s, f) \<Rightarrow> seconds (h * 3600 + m * 60 + s) + f)"

definition time_of_parts :: "int \<times> int \<times> int \<times> int \<Rightarrow> int option" where
  "time_of_parts x = (case x of (h, m, s, f) \<Rightarrow> if h < 24 \<and> m < 60 \<and> s < 60 then Some (micros x) else None)"

definition is_zone_mark :: "char \<Rightarrow> bool" where
  "is_zone_mark c \<longleftrightarrow> c = CHR ''+'' \<or> c = CHR ''-'' \<or> c = CHR ''Z''"

definition zone_offset :: "string \<Rightarrow> int option" where
  \<comment> \<open>from the mark on\<close>
  "zone_offset z =
    (case z of
       [] \<Rightarrow> None
     | c # r \<Rightarrow>
        if c = CHR ''Z'' then (if r = [] then Some 0 else None)
        else case clock_parts r of
          None \<Rightarrow> None
        | Some x \<Rightarrow> if micros x < days 1 then Some (if c = CHR ''-'' then - micros x else micros x) else None)"

definition iso_time :: "string \<Rightarrow> (int \<times> int option) option" where
  \<comment> \<open>the time and, where it has one, its offset from UTC\<close>
  "iso_time t =
    (let base = takeWhile (\<lambda>c. \<not> is_zone_mark c) t; z = dropWhile (\<lambda>c. \<not> is_zone_mark c) t in
     case Option.bind (clock_parts base) time_of_parts of
       None \<Rightarrow> None
     | Some m \<Rightarrow> if z = [] then Some (m, None) else map_option (\<lambda>o'. (m, Some o')) (zone_offset z))"

definition time_fromiso :: "string \<Rightarrow> (int \<times> int option) option" where
  \<comment> \<open>\<open>time.fromisoformat(s)\<close>\<close>
  "time_fromiso s = iso_time (if take 1 s = ''T'' then drop 1 s else s)"

definition date_length :: "string \<Rightarrow> nat option" where
  \<comment> \<open>where the date of a datetime ends\<close>
  "date_length s =
    (let n = length s; at = (\<lambda>i c. take 1 (drop i s) = [c]);
         digits = (\<lambda>i. length (takeWhile is_digit (drop i s))) in
     if n < 7 then None
     else if n = 7 then Some 7
     else if at 4 (CHR ''-'') then
       (if at 5 (CHR ''W'') then
          (if n > 8 \<and> at 8 (CHR ''-'') then
             (if n = 9 then None else if n > 10 \<and> digits 10 > 0 then Some 8 else Some 10)
           else Some 8)
        else Some 10)
     else if at 4 (CHR ''W'') then
       (let i = 7 + digits 7 in if i < 9 then Some i else if even i then Some 7 else Some 8)
     else Some 8)"

definition datetime_fromiso :: "string \<Rightarrow> (int \<times> int \<times> int option) option" where
  \<comment> \<open>\<open>datetime.fromisoformat(s)\<close>: the date, the time and the offset\<close>
  "datetime_fromiso s =
    (case date_length s of
       None \<Rightarrow> None
     | Some n \<Rightarrow>
        (case date_fromiso (take n s) of
           None \<Rightarrow> None
         | Some date \<Rightarrow>
            if drop (n + 1) s = [] then Some (date, 0, None)
            else map_option (\<lambda>(t, o'). (date, t, o')) (iso_time (drop (n + 1) s))))"

definition read_instant :: "zone \<Rightarrow> string \<Rightarrow> instant option" where
  \<comment> \<open>a naive datetime is read in the zone of the workspace\<close>
  "read_instant z s =
    (case datetime_fromiso s of
       None \<Rightarrow> None
     | Some (date, t, None) \<Rightarrow> Some (z_at z date t)
     | Some (date, t, Some off) \<Rightarrow> Some (date * days 1 + t - off))"

section \<open>Answers\<close>

datatype cal_answer =
    Answer response
  | Conflict string
    \<comment> \<open>409\<close>
  | Acted string nat
    \<comment> \<open>the action and the number of rows\<close>
  | Cannot_publish nat "string list"
    \<comment> \<open>400 with the number of rows refused and the reasons\<close>

definition authored_by :: "user \<Rightarrow> ws_membership \<Rightarrow> platform_post \<Rightarrow> db \<Rightarrow> bool" where
  \<comment> \<open>\<open>is_own_post or perms.get("edit_others_posts")\<close>\<close>
  "authored_by u m p d \<longleftrightarrow>
    (case get_post (pp_post p) d of Some po \<Rightarrow> po_author po = Some (us_id u) | None \<Rightarrow> False) \<or> has_perm ''edit_others_posts'' m"

definition in_workspace :: "nat \<Rightarrow> platform_post \<Rightarrow> db \<Rightarrow> bool" where
  "in_workspace w p d \<longleftrightarrow> (case get_post (pp_post p) d of Some po \<Rightarrow> po_workspace po = w | None \<Rightarrow> False)"

section \<open>Dragging a channel\<close>

definition IMPLICIT_SCHEDULE_STATUSES :: "pp_state list" where
  "IMPLICIT_SCHEDULE_STATUSES = [DRAFT, FAILED]"

definition shed_attempt :: "platform_post \<Rightarrow> platform_post" where
  \<comment> \<open>a retried row forgets its last attempt\<close>
  "shed_attempt p =
    (if pp_status p = FAILED
     then p\<lparr>pp_publish_error := [], pp_retry_count := 0, pp_next_retry_at := None, pp_handle := []\<rparr> else p)"

definition scheduled_if :: "bool \<Rightarrow> instant \<Rightarrow> platform_post \<Rightarrow> platform_post" where
  \<comment> \<open>\<open>transition_to("scheduled")\<close> under a condition that includes \<open>can_transition_to\<close>\<close>
  "scheduled_if c now p = (if c then (case transition_to now p SCHEDULED of Inr q \<Rightarrow> q | Inl e \<Rightarrow> p) else p)"

definition dropped_row :: "instant \<Rightarrow> instant \<Rightarrow> platform_post \<Rightarrow> platform_post" where
  "dropped_row now t p =
    scheduled_if (pp_status p \<in> set IMPLICIT_SCHEDULE_STATUSES \<and> can_transition_to p SCHEDULED) now
      (shed_attempt (p\<lparr>pp_scheduled_at := Some t\<rparr>))"

definition move_entries :: "nat \<Rightarrow> nat \<Rightarrow> instant \<Rightarrow> db \<Rightarrow> db" where
  \<comment> \<open>\<open>QueueEntry.objects.filter(post=..., queue__social_account=...).update(assigned_slot_datetime=t)\<close>\<close>
  "move_entries post_key account t d =
    d\<lparr>db_entries := tbl_update
      (\<lambda>e. qe_post e = post_key \<and> (\<exists>q \<in> set (db_queues d). qu_id q = qe_queue e \<and> qu_account q = account))
      (\<lambda>e. e\<lparr>qe_slot := Some t\<rparr>) (db_entries d)\<rparr>"

definition commit_drop :: "instant \<Rightarrow> instant \<Rightarrow> platform_post \<Rightarrow> db \<Rightarrow> db" where
  \<comment> \<open>the writes, for the row as the view loaded it\<close>
  "commit_drop now t p d =
    sync_post_scheduled_at now (pp_post p)
      (move_entries (pp_post p) (pp_account p) t (save_transition (dropped_row now t p) True now d))"

definition load_dragged :: "request \<Rightarrow> nat \<Rightarrow> db \<Rightarrow> response + platform_post" where
  "load_dragged rq w d =
    (let i = py_or (post_get ''platform_post_id'' [] rq) (post_get ''post_id'' [] rq) in
     if i = [] \<or> post_get ''new_datetime'' [] rq = []
     then Inl (BadRequest ''platform_post_id and new_datetime required'')
     else case parse_uuid i of
       None \<Rightarrow> Inl ServerError
     | Some k \<Rightarrow>
        (case get_pp k d of
           None \<Rightarrow> Inl NotFound
         | Some p \<Rightarrow> if in_workspace w p d then Inr p else Inl NotFound))"

definition drag_refusal :: "user \<Rightarrow> ws_membership \<Rightarrow> platform_post \<Rightarrow> db \<Rightarrow> response option" where
  "drag_refusal u m p d =
    (if \<not> is_reschedulable p then Some (BadRequest ''Post cannot be rescheduled in its current status.'')
     else if \<not> authored_by u m p d then Some (Forbidden ''Permission denied.'')
     else if pp_status p \<in> set IMPLICIT_SCHEDULE_STATUSES \<and> \<not> has_perm ''publish_directly'' m
     then Some (Forbidden ''You do not have permission to schedule this post.'')
     else if pp_status p \<in> set IMPLICIT_SCHEDULE_STATUSES \<and> can_transition_to p SCHEDULED
     then (case require_publishable p None d of
             Some (NotPublishable reason) \<Rightarrow> Some (BadRequest reason) | _ \<Rightarrow> None)
     else None)"

definition reschedule_post ::
  "(string \<Rightarrow> zone) \<Rightarrow> instant \<Rightarrow> request \<Rightarrow> nat \<Rightarrow> db \<Rightarrow> response \<times> db" where
  "reschedule_post zones now rq w d =
    (case enter rq w None d of
       Inl r \<Rightarrow> (r, d)
     | Inr (u, m, ws) \<Rightarrow>
        (case load_dragged rq w d of
           Inl r \<Rightarrow> (r, d)
         | Inr p \<Rightarrow>
            (case drag_refusal u m p d of
               Some r \<Rightarrow> (r, d)
             | None \<Rightarrow>
                (case read_instant (zones (py_or (effective_timezone ws d) ''UTC'')) (post_get ''new_datetime'' [] rq) of
                   None \<Rightarrow> (BadRequest ''Invalid datetime'', d)
                 | Some t \<Rightarrow> (Done 204, commit_drop now t p d)))))"

section \<open>Bulk actions\<close>

definition promotes_to_scheduled :: "platform_post \<Rightarrow> bool" where
  "promotes_to_scheduled p \<longleftrightarrow>
    pp_status p \<notin> set PROTECTED_STATUSES \<and> pp_status p \<noteq> SCHEDULED \<and> can_transition_to p SCHEDULED"

definition effective_time :: "db \<Rightarrow> platform_post \<Rightarrow> instant option" where
  "effective_time d p =
    (case pp_scheduled_at p of
       Some t \<Rightarrow> Some t
     | None \<Rightarrow> (case get_post (pp_post p) d of Some po \<Rightarrow> po_scheduled_at po | None \<Rightarrow> None))"

fun position :: "nat \<Rightarrow> post list \<Rightarrow> nat" where
  \<comment> \<open>the order of \<open>created_at\<close>: rows are appended to the table of posts\<close>
  "position i [] = 0"
| "position i (po # pos) = (if po_id po = i then 0 else Suc (position i pos))"

definition due_order :: "db \<Rightarrow> platform_post list \<Rightarrow> platform_post list" where
  \<comment> \<open>\<open>order_by(F("effective_at").asc(nulls_last=True), "post__created_at", "id")\<close>\<close>
  "due_order d ps =
    (let qs = sort_key (\<lambda>p. position (pp_post p) (db_posts d)) (sort_key pp_id ps) in
     sort_key (\<lambda>p. the (effective_time d p)) (filter (\<lambda>p. effective_time d p \<noteq> None) qs) @
     filter (\<lambda>p. effective_time d p = None) qs)"

definition load_selected :: "user \<Rightarrow> ws_membership \<Rightarrow> nat \<Rightarrow> nat list \<Rightarrow> db \<Rightarrow> platform_post list" where
  "load_selected u m w ids d =
    filter (\<lambda>p. authored_by u m p d)
      (due_order d (filter (\<lambda>p. pp_id p \<in> set ids \<and> in_workspace w p d) (db_pps d)))"

definition blocked_reasons :: "platform_post list \<Rightarrow> db \<Rightarrow> string list" where
  "blocked_reasons ps d =
    (let promoting = filter promotes_to_scheduled ps; media = media_types_by_post (map pp_post promoting) d in
     concat (map (\<lambda>p. case require_publishable p (Some (media (pp_post p))) d of
        Some (NotPublishable reason) \<Rightarrow> [reason] | _ \<Rightarrow> []) promoting))"

definition bulk_save :: "instant \<Rightarrow> platform_post list \<Rightarrow> db \<Rightarrow> db" where
  "bulk_save now rows d = fold (\<lambda>q. save_transition q True now) rows d"

definition first_occurrences :: "'a list \<Rightarrow> 'a list" where
  \<comment> \<open>\<open>list(dict.fromkeys(xs))\<close>\<close>
  "first_occurrences xs = rev (remdups (rev xs))"

definition sync_queue_entries :: "(platform_post \<times> instant option) list \<Rightarrow> db \<Rightarrow> db" where
  "sync_queue_entries touched d =
    (let drops = map fst (filter (\<lambda>(p, s). s = None) touched);
         moves = map (\<lambda>(p, s). (the s, p)) (filter (\<lambda>(p, s). s \<noteq> None) touched);
         grouped = concat (map (\<lambda>t. filter (\<lambda>(s, p). s = t) moves) (first_occurrences (map fst moves)))
     in fold (\<lambda>(t, p). move_entries (pp_post p) (pp_account p) t) grouped
          (fold (\<lambda>p. drop_entries (pp_post p) (pp_account p)) drops d))"

definition drafted :: "instant \<Rightarrow> platform_post list \<Rightarrow> platform_post list" where
  "drafted now ps =
    concat (map (\<lambda>p. if pp_status p \<in> set PROTECTED_STATUSES \<or> pp_status p = DRAFT then []
       else case transition_to now (p\<lparr>pp_scheduled_at := None\<rparr>) DRAFT of Inr q \<Rightarrow> [q] | Inl e \<Rightarrow> []) ps)"

fun staggered :: "instant \<Rightarrow> (nat \<Rightarrow> nat) \<Rightarrow> platform_post list \<Rightarrow> platform_post list" where
  \<comment> \<open>the loop of the publish branch: \<open>per_channel\<close> counts the rows given out on each channel\<close>
  "staggered now per_channel [] = []"
| "staggered now per_channel (p # ps) =
    (if pp_status p \<noteq> SCHEDULED \<and> \<not> promotes_to_scheduled p then staggered now per_channel ps
     else scheduled_if (pp_status p \<noteq> SCHEDULED) now
            (shed_attempt (p\<lparr>pp_scheduled_at := Some (now + seconds (60 * int (per_channel (pp_account p))))\<rparr>))
          # staggered now (per_channel(pp_account p := Suc (per_channel (pp_account p)))) ps)"

definition delete_post :: "nat \<Rightarrow> db \<Rightarrow> db" where
  \<comment> \<open>\<open>post.delete()\<close> with its cascades\<close>
  "delete_post i d =
    (let e = delete_pps (\<lambda>p. pp_post p = i) d in
     e\<lparr>db_posts := tbl_delete (\<lambda>po. po_id po = i) (db_posts e), db_media := tbl_delete (\<lambda>x. pm_post x = i) (db_media e),
       db_entries := tbl_delete (\<lambda>x. qe_post x = i) (db_entries e), db_rules := tbl_delete (\<lambda>x. rr_post x = i) (db_rules e),
       db_actions := tbl_delete (\<lambda>x. aa_post x = i) (db_actions e),
       db_reminders := tbl_delete (\<lambda>x. ar_post x = i) (db_reminders e),
       db_comments := tbl_delete (\<lambda>x. pc_post x = i) (db_comments e),
       db_versions := tbl_delete (\<lambda>x. vs_post x = i) (db_versions e)\<rparr>)"

definition reconcile_parent :: "instant \<Rightarrow> nat \<Rightarrow> db \<Rightarrow> db" where
  "reconcile_parent now i d = (if children i d = [] then delete_post i d else sync_post_scheduled_at now i d)"

definition reconcile_parents :: "instant \<Rightarrow> nat \<Rightarrow> nat set \<Rightarrow> db \<Rightarrow> db" where
  "reconcile_parents now w keys d =
    fold (reconcile_parent now) (map po_id (filter (\<lambda>po. po_id po \<in> keys \<and> po_workspace po = w) (db_posts d))) d"

definition commit_bulk :: "instant \<Rightarrow> string \<Rightarrow> nat \<Rightarrow> platform_post list \<Rightarrow> db \<Rightarrow> nat \<times> db" where
  \<comment> \<open>the transaction, for the rows as the view loaded them\<close>
  "commit_bulk now action w ps d =
    (let (changed, touched, d1) =
       (if action = ''delete'' then
          (let gone = filter (\<lambda>p. pp_status p \<notin> set PROTECTED_STATUSES) ps
           in (gone, map (\<lambda>p. (p, None)) gone, delete_pps (\<lambda>p. pp_id p \<in> set (map pp_id gone)) d))
        else if action = ''draft'' then
          (let qs = drafted now ps in (qs, map (\<lambda>q. (q, None)) qs, bulk_save now qs d))
        else
          (let qs = staggered now (\<lambda>_. 0) ps in (qs, map (\<lambda>q. (q, pp_scheduled_at q)) qs, bulk_save now qs d)))
     in (length changed,
         reconcile_parents now w (set (map pp_post changed)) (sync_queue_entries touched d1)))"

definition BULK_ACTIONS :: "string list" where
  "BULK_ACTIONS = [''draft'', ''delete'', ''publish'']"

definition post_getlist :: "string \<Rightarrow> request \<Rightarrow> string list" where
  "post_getlist k rq = map snd (filter (\<lambda>(n, v). n = k) (rq_post rq))"

definition bulk_platform_action :: "instant \<Rightarrow> request \<Rightarrow> nat \<Rightarrow> db \<Rightarrow> cal_answer \<times> db" where
  "bulk_platform_action now rq w d =
    (case enter rq w None d of
       Inl r \<Rightarrow> (Answer r, d)
     | Inr (u, m, ws) \<Rightarrow>
        (let action = post_get ''action'' [] rq; ids = map parse_uuid (post_getlist ''platform_post_ids'' rq) in
         if action \<notin> set BULK_ACTIONS \<or> ids = [] then (Answer (BadRequest ''action and platform_post_ids required''), d)
         else if action = ''publish'' \<and> \<not> has_perm ''publish_directly'' m
         then (Answer (Forbidden ''You do not have permission to publish directly.''), d)
         else if None \<in> set ids then (Answer ServerError, d)
         else
           let ps = load_selected u m w (map the ids) d;
               blocked = (if action = ''publish'' then blocked_reasons ps d else [])
           in if blocked \<noteq> [] then (Cannot_publish (length blocked) (first_occurrences blocked), d)
              else (case commit_bulk now action w ps d of (n, d1) \<Rightarrow> (Acted action n, d1))))"

section \<open>Posting slots\<close>

definition get_slot :: "nat \<Rightarrow> nat \<Rightarrow> db \<Rightarrow> posting_slot option" where
  \<comment> \<open>\<open>PostingSlot.objects.filter(id=..., social_account__workspace=...).first()\<close>\<close>
  "get_slot k w d =
    tbl_first (\<lambda>s. sl_id s = k \<and> (case get_account (sl_account s) d of Some a \<Rightarrow> sa_workspace a = w | None \<Rightarrow> False)) (db_slots d)"

definition own_account :: "string \<Rightarrow> nat \<Rightarrow> db \<Rightarrow> response + social_account" where
  \<comment> \<open>\<open>get_object_or_404(SocialAccount, id=..., workspace=...)\<close>\<close>
  "own_account i w d =
    (case parse_uuid i of
       None \<Rightarrow> Inl ServerError
     | Some k \<Rightarrow>
        (case get_account k d of
           None \<Rightarrow> Inl NotFound
         | Some a \<Rightarrow> if sa_workspace a = w then Inr a else Inl NotFound))"

definition save_posting_slot :: "request \<Rightarrow> nat \<Rightarrow> db \<Rightarrow> response \<times> db" where
  "save_posting_slot rq w d =
    (case enter rq w (Some ''manage_social_accounts'') d of
       Inl r \<Rightarrow> (r, d)
     | Inr (u, m, ws) \<Rightarrow>
        (let i = post_get ''social_account_id'' [] rq; day = post_get ''day_of_week'' [] rq; t = post_get ''time'' [] rq in
         if i = [] \<or> day = [] \<or> t = [] then (BadRequest ''All fields required.'', d)
         else case own_account i w d of
           Inl r \<Rightarrow> (r, d)
         | Inr a \<Rightarrow>
            (case time_fromiso t of
               None \<Rightarrow> (BadRequest ''Invalid time format.'', d)
             | Some (tm, off) \<Rightarrow>
                (case py_int day of
                   None \<Rightarrow> (ServerError, d)
                 | Some n \<Rightarrow>
                    \<comment> \<open>PostgreSQL drops an offset; a column of 32 bits refuses what does not fit\<close>
                    if list_ex (\<lambda>s. sl_account s = sa_id a \<and> sl_day s = n \<and> sl_time s = tm) (db_slots d) then (Done 200, d)
                    else if n < - (2 ^ 31) \<or> 2 ^ 31 \<le> n then (ServerError, d)
                    else (Done 200, d\<lparr>db_slots := db_slots d @ [\<lparr>sl_id = db_next d, sl_account = sa_id a, sl_day = n,
                            sl_time = tm, sl_active = True\<rparr>], db_next := Suc (db_next d)\<rparr>)))))"

definition delete_posting_slot :: "request \<Rightarrow> nat \<Rightarrow> nat \<Rightarrow> db \<Rightarrow> response \<times> db" where
  "delete_posting_slot rq w k d =
    (case enter rq w (Some ''manage_social_accounts'') d of
       Inl r \<Rightarrow> (r, d)
     | Inr (u, m, ws) \<Rightarrow>
        (case get_slot k w d of
           None \<Rightarrow> (Done 200, d)
         | Some s \<Rightarrow> (Done 200, d\<lparr>db_slots := tbl_delete (\<lambda>x. sl_id x = sl_id s) (db_slots d)\<rparr>)))"

definition toggle_posting_slot_day :: "request \<Rightarrow> nat \<Rightarrow> db \<Rightarrow> response \<times> db" where
  "toggle_posting_slot_day rq w d =
    (case enter rq w (Some ''manage_social_accounts'') d of
       Inl r \<Rightarrow> (r, d)
     | Inr (u, m, ws) \<Rightarrow>
        (let i = post_get ''social_account_id'' [] rq in
         if i = [] \<or> \<not> post_has ''day_of_week'' rq then (BadRequest ''Missing fields.'', d)
         else case own_account i w d of
           Inl r \<Rightarrow> (r, d)
         | Inr a \<Rightarrow>
            (case py_int (post_get ''day_of_week'' [] rq) of
               None \<Rightarrow> (BadRequest ''Invalid day_of_week.'', d)
             | Some n \<Rightarrow>
                (let chosen = (\<lambda>s. sl_account s = sa_id a \<and> sl_day s = n);
                     all_active = list_all sl_active (filter chosen (db_slots d))
                 in if filter chosen (db_slots d) = [] then (Done 204, d)
                    else (Done 200, d\<lparr>db_slots := tbl_update chosen (\<lambda>s. s\<lparr>sl_active := \<not> all_active\<rparr>) (db_slots d)\<rparr>)))))"

definition update_posting_slot :: "request \<Rightarrow> nat \<Rightarrow> nat \<Rightarrow> db \<Rightarrow> cal_answer \<times> db" where
  "update_posting_slot rq w k d =
    (case enter rq w (Some ''manage_social_accounts'') d of
       Inl r \<Rightarrow> (Answer r, d)
     | Inr (u, m, ws) \<Rightarrow>
        (case get_slot k w d of
           None \<Rightarrow> (Answer (Done 200), d)
         | Some s \<Rightarrow>
            (if post_get ''time'' [] rq = [] then (Answer (BadRequest ''Time is required.''), d)
             else case time_fromiso (post_get ''time'' [] rq) of
               None \<Rightarrow> (Answer (BadRequest ''Invalid time format.''), d)
             | Some (tm, off) \<Rightarrow>
                if list_ex (\<lambda>x. sl_account x = sl_account s \<and> sl_day x = sl_day s \<and> sl_time x = tm \<and> sl_id x \<noteq> sl_id s) (db_slots d)
                then (Conflict ''A slot at that time already exists.'', d)
                else (Answer (Done 200), d\<lparr>db_slots := tbl_update (\<lambda>x. sl_id x = sl_id s) (\<lambda>x. x\<lparr>sl_time := tm\<rparr>) (db_slots d)\<rparr>))))"

section \<open>Queues\<close>

definition get_queue :: "nat \<Rightarrow> nat \<Rightarrow> db \<Rightarrow> queue option" where
  "get_queue k w d = tbl_first (\<lambda>q. qu_id q = k \<and> qu_workspace q = w) (db_queues d)"

definition queue_create :: "(nat \<Rightarrow> nat \<Rightarrow> bool) \<Rightarrow> request \<Rightarrow> nat \<Rightarrow> db \<Rightarrow> response \<times> db" where
  \<comment> \<open>the first argument says whether a content category is in a workspace\<close>
  "queue_create category rq w d =
    (case enter rq w None d of
       Inl r \<Rightarrow> (r, d)
     | Inr (u, m, ws) \<Rightarrow>
        (let name = post_text ''name'' rq; i = post_get ''social_account_id'' [] rq; c = post_get ''category_id'' [] rq in
         if name = [] \<or> i = [] then (BadRequest ''Name and account required.'', d)
         else case own_account i w d of
           Inl r \<Rightarrow> (r, d)
         | Inr a \<Rightarrow>
            if c \<noteq> [] \<and> parse_uuid c = None then (ServerError, d)
            else if c \<noteq> [] \<and> \<not> category (the (parse_uuid c)) w then (NotFound, d)
            else if length name > 100 then (ServerError, d)
            else (Done 204, d\<lparr>db_queues := db_queues d @ [\<lparr>qu_id = db_next d, qu_workspace = w, qu_name = name,
                    qu_account = sa_id a, qu_active = True\<rparr>], db_next := Suc (db_next d)\<rparr>)))"

definition queue_delete :: "request \<Rightarrow> nat \<Rightarrow> nat \<Rightarrow> db \<Rightarrow> response \<times> db" where
  \<comment> \<open>the entries cascade\<close>
  "queue_delete rq w k d =
    (case enter rq w None d of
       Inl r \<Rightarrow> (r, d)
     | Inr (u, m, ws) \<Rightarrow>
        (case get_queue k w d of
           None \<Rightarrow> (NotFound, d)
         | Some q \<Rightarrow> (Done 204, d\<lparr>db_queues := tbl_delete (\<lambda>x. qu_id x = qu_id q) (db_queues d),
                                  db_entries := tbl_delete (\<lambda>e. qe_queue e = qu_id q) (db_entries d)\<rparr>)))"

definition listed_ids :: "string \<Rightarrow> nat option list" where
  \<comment> \<open>\<open>[s.strip() for s in text.split(",") if s.strip()]\<close>, as keys\<close>
  "listed_ids s = map parse_uuid (filter (\<lambda>x. x \<noteq> []) (map py_strip (split_on CHR '','' s)))"

definition queue_reorder :: "instant \<Rightarrow> request \<Rightarrow> nat \<Rightarrow> nat \<Rightarrow> db \<Rightarrow> response \<times> db" where
  "queue_reorder now rq w k d =
    (case enter rq w None d of
       Inl r \<Rightarrow> (r, d)
     | Inr (u, m, ws) \<Rightarrow>
        (case get_queue k w d of
           None \<Rightarrow> (NotFound, d)
         | Some q \<Rightarrow>
            (let ids = listed_ids (post_get ''entry_ids'' [] rq)
             in if None \<in> set ids then (ServerError, d) else (Done 204, reorder_queue now q (map the ids) d))))"

definition find_entry :: "nat \<Rightarrow> nat \<Rightarrow> nat \<Rightarrow> db \<Rightarrow> (queue_entry \<times> queue) option" where
  "find_entry e k w d =
    (case (get_queue k w d, tbl_first (\<lambda>x. qe_id x = e \<and> qe_queue x = k) (db_entries d)) of
       (Some q, Some x) \<Rightarrow> Some (x, q) | _ \<Rightarrow> None)"

definition queue_entry_remove :: "instant \<Rightarrow> request \<Rightarrow> nat \<Rightarrow> nat \<Rightarrow> nat \<Rightarrow> db \<Rightarrow> response \<times> db" where
  "queue_entry_remove now rq w k e d =
    (case enter rq w None d of
       Inl r \<Rightarrow> (r, d)
     | Inr (u, m, ws) \<Rightarrow>
        (case find_entry e k w d of
           None \<Rightarrow> (Done 204, d)
         | Some (x, q) \<Rightarrow>
            (case remove_from_queue now x q d of Inl _ \<Rightarrow> (ServerError, d) | Inr d1 \<Rightarrow> (Done 204, d1))))"

definition reslot_to_next_available ::
  "(string \<Rightarrow> zone) \<Rightarrow> instant \<Rightarrow> queue_entry \<Rightarrow> queue \<Rightarrow> social_account \<Rightarrow> db \<Rightarrow> queue_error + (queue_entry option \<times> db)" where
  "reslot_to_next_available zones now e q a d = add_post_next_available zones now (qe_post e) q a d"

definition queue_entry_reslot ::
  "(string \<Rightarrow> zone) \<Rightarrow> instant \<Rightarrow> request \<Rightarrow> nat \<Rightarrow> nat \<Rightarrow> nat \<Rightarrow> db \<Rightarrow> cal_answer \<times> db" where
  "queue_entry_reslot zones now rq w k e d =
    (case enter rq w None d of
       Inl r \<Rightarrow> (Answer r, d)
     | Inr (u, m, ws) \<Rightarrow>
        (case find_entry e k w d of
           None \<Rightarrow> (Answer NotFound, d)
         | Some (x, q) \<Rightarrow>
            (case get_account (qu_account q) d of
               None \<Rightarrow> (Answer ServerError, d)
             | Some a \<Rightarrow>
                (case reslot_to_next_available zones now x q a d of
                   Inl _ \<Rightarrow> (Conflict ''No open slot within the scheduling horizon.'', d)
                 | Inr (_, d1) \<Rightarrow> (Answer (Done 204), d1)))))"

end
