(* ===== verification/Save_Safety.thy ===== *)
theory Save_Safety
  imports Save_Post
begin

text \<open>
  What the composer's saves may and may not do to the channels of a database, over the handlers of
  Save_Post: one relation that every write of a handler satisfies (\<open>within\<close>), carried through
  the handlers by the interface \<open>db_preorder\<close>, and the properties that follow.
\<close>

section \<open>Interface: a relation that writes satisfy\<close>

locale db_preorder =
  fixes R :: "db \<Rightarrow> db \<Rightarrow> bool"
  assumes reflR: "R d d" and transR: "R d d1 \<Longrightarrow> R d1 d2 \<Longrightarrow> R d d2"
begin

text \<open>
  A loop whose turns satisfy the relation satisfies it; a turn may rely on a condition on its
  element that the relation keeps true.
\<close>

lemma fold_stable:
  assumes step: "\<And>x d. x \<in> set xs \<Longrightarrow> P x d \<Longrightarrow> R d (f x d)"
    and stable: "\<And>x d d'. x \<in> set xs \<Longrightarrow> P x d \<Longrightarrow> R d d' \<Longrightarrow> P x d'"
    and start: "\<And>x. x \<in> set xs \<Longrightarrow> P x d"
  shows "R d (fold f xs d)"
  using assms
proof (induction xs arbitrary: d)
  case Nil
  show ?case by (simp add: reflR)
next
  case (Cons x xs)
  have x: "R d (f x d)" using Cons.prems by simp
  have "P y (f x d)" if "y \<in> set xs" for y
    using Cons.prems(2) [OF _ Cons.prems(3) x] that by simp
  then have "R (f x d) (fold f xs (f x d))"
    using Cons.prems(1,2) by (intro Cons.IH) simp_all
  then show ?case using transR [OF x] by simp
qed

lemma fold_closed:
  assumes "\<And>x d. x \<in> set xs \<Longrightarrow> R d (f x d)"
  shows "R d (fold f xs d)"
  by (rule fold_stable [where P = "\<lambda>_ _. True"]) (use assms in simp_all)

end

section \<open>Staying within a post\<close>

definition same_place :: "platform_post \<Rightarrow> platform_post \<Rightarrow> bool" where
  "same_place p q \<longleftrightarrow> pp_id q = pp_id p \<and> pp_post q = pp_post p \<and> pp_account q = pp_account p"

definition same_publication :: "platform_post \<Rightarrow> platform_post \<Rightarrow> bool" where
  "same_publication p q \<longleftrightarrow>
    pp_status q = pp_status p \<and> pp_handle q = pp_handle p \<and> pp_published_at q = pp_published_at p"

definition off_limits :: "nat \<Rightarrow> platform_post \<Rightarrow> bool" where
  \<comment> \<open>a channel of another post, or a published one\<close>
  "off_limits po p \<longleftrightarrow> pp_post p \<noteq> po \<or> pp_status p = PUBLISHED"

definition placed :: "nat \<Rightarrow> nat set \<Rightarrow> platform_post \<Rightarrow> bool" where
  "placed po A p \<longleftrightarrow> pp_post p = po \<and> pp_account p \<in> A \<and> pp_status p \<noteq> PUBLISHED"

definition within :: "nat \<Rightarrow> nat set \<Rightarrow> db \<Rightarrow> db \<Rightarrow> bool" where
  "within po A d d' \<longleftrightarrow>
    db_accounts d' = db_accounts d \<and>
    (\<forall>q \<in> set (db_pps d'). placed po A q \<or>
       (\<exists>p \<in> set (db_pps d). same_place p q \<and> (pp_status q = PUBLISHED \<longrightarrow> pp_status p = PUBLISHED))) \<and>
    (\<forall>p \<in> set (db_pps d). off_limits po p \<longrightarrow>
       (\<exists>q \<in> set (db_pps d'). same_place p q \<and> same_publication p q))"

lemma within_refl: "within po A d d"
  by (auto simp: within_def same_place_def same_publication_def)

lemma within_trans:
  assumes 1: "within po A d d1" and 2: "within po A d1 d2"
  shows "within po A d d2"
  unfolding within_def
proof (intro conjI ballI impI)
  show "db_accounts d2 = db_accounts d" using assms by (simp add: within_def)
next
  fix r
  assume "r \<in> set (db_pps d2)"
  with 2 consider "placed po A r"
    | q where "q \<in> set (db_pps d1)" "same_place q r" "pp_status r = PUBLISHED \<longrightarrow> pp_status q = PUBLISHED"
    unfolding within_def by blast
  then show "placed po A r \<or>
      (\<exists>p \<in> set (db_pps d). same_place p r \<and> (pp_status r = PUBLISHED \<longrightarrow> pp_status p = PUBLISHED))"
  proof cases
    case 2
    from 1 2(1) consider "placed po A q"
      | p where "p \<in> set (db_pps d)" "same_place p q" "pp_status q = PUBLISHED \<longrightarrow> pp_status p = PUBLISHED"
      unfolding within_def by blast
    then show ?thesis
    proof cases
      case 1
      then show ?thesis using 2(2,3) by (auto simp: placed_def same_place_def)
    next
      case p: 2
      have "same_place p r" using p(2) 2(2) by (simp add: same_place_def)
      then show ?thesis using p 2(3) by blast
    qed
  qed simp
next
  fix p
  assume p: "p \<in> set (db_pps d)" "off_limits po p"
  then obtain q where q: "q \<in> set (db_pps d1)" "same_place p q" "same_publication p q"
    using 1 unfolding within_def by blast
  then have "off_limits po q" using p(2) by (simp add: off_limits_def same_place_def same_publication_def)
  then obtain r where r: "r \<in> set (db_pps d2)" "same_place q r" "same_publication q r"
    using q(1) 2 unfolding within_def by blast
  have "same_place p r" "same_publication p r"
    using q(2,3) r(2,3) by (simp_all add: same_place_def same_publication_def)
  then show "\<exists>q \<in> set (db_pps d2). same_place p q \<and> same_publication p q" using r(1) by blast
qed

interpretation wi: db_preorder "within po A" for po A
  by unfold_locales (auto intro: within_refl within_trans)

section \<open>The primitive writes\<close>

lemma within_same_rows: "db_accounts d' = db_accounts d \<Longrightarrow> db_pps d' = db_pps d \<Longrightarrow> within po A d d'"
  using within_refl by (simp add: within_def)

lemma within_map:
  assumes "db_accounts d' = db_accounts d" "db_pps d' = map f (db_pps d)"
    and "\<And>p. p \<in> set (db_pps d) \<Longrightarrow> same_place p (f p) \<and> (pp_status (f p) = PUBLISHED \<longrightarrow> pp_status p = PUBLISHED)"
    and "\<And>p. p \<in> set (db_pps d) \<Longrightarrow> off_limits po p \<Longrightarrow> same_publication p (f p)"
  shows "within po A d d'"
  using assms unfolding within_def by auto

lemma within_filter:
  assumes "db_accounts d' = db_accounts d" "db_pps d' = filter P (db_pps d)"
    and "\<And>p. p \<in> set (db_pps d) \<Longrightarrow> off_limits po p \<Longrightarrow> P p"
  shows "within po A d d'"
  using assms unfolding within_def by (auto simp: same_place_def same_publication_def)

lemma within_append:
  assumes "db_accounts d' = db_accounts d" "db_pps d' = db_pps d @ [p]" "placed po A p"
  shows "within po A d d'"
  using assms unfolding within_def by (auto simp: same_place_def same_publication_def)

lemma map_eq_partner:
  assumes "map f xs = map f ys" "x \<in> set xs"
  shows "\<exists>y \<in> set ys. f y = f x"
proof -
  have "f x \<in> f ` set ys" using arg_cong [OF assms(1), of set] assms(2) by auto
  then show ?thesis by (elim imageE) (metis (no_types))
qed

lemma within_bare:
  assumes "db_accounts d' = db_accounts d" "map bare (db_pps d') = map bare (db_pps d)"
  shows "within po A d d'"
proof -
  have b: "same_place p q \<and> same_publication p q" if "bare p = bare q" for p q
  proof -
    from that have "pp_id (bare p) = pp_id (bare q)" "pp_post (bare p) = pp_post (bare q)"
      "pp_account (bare p) = pp_account (bare q)" "pp_status (bare p) = pp_status (bare q)"
      "pp_handle (bare p) = pp_handle (bare q)" "pp_published_at (bare p) = pp_published_at (bare q)"
      by simp_all
    then show ?thesis by (simp add: bare_def same_place_def same_publication_def)
  qed
  note fwd = map_eq_partner [OF assms(2) [symmetric]] and bwd = map_eq_partner [OF assms(2)]
  show ?thesis unfolding within_def
  proof (intro conjI ballI impI)
    fix q
    assume "q \<in> set (db_pps d')"
    then obtain p where p: "p \<in> set (db_pps d)" "bare p = bare q" using bwd by blast
    have "same_place p q \<and> same_publication p q" by (rule b [OF p(2)])
    then have "same_place p q" "pp_status q = pp_status p" by (simp_all add: same_publication_def)
    then show "placed po A q \<or>
        (\<exists>p \<in> set (db_pps d). same_place p q \<and> (pp_status q = PUBLISHED \<longrightarrow> pp_status p = PUBLISHED))"
      using p(1) by (intro disjI2 bexI [of _ p]) simp_all
  next
    fix p
    assume "p \<in> set (db_pps d)"
    then obtain q where q: "q \<in> set (db_pps d')" "bare q = bare p" using fwd by blast
    show "\<exists>q \<in> set (db_pps d'). same_place p q \<and> same_publication p q"
      using q(1) b [OF q(2) [symmetric]] by (rule bexI [rotated])
  qed (rule assms(1))
qed

text \<open>Every key is below the next one, and belongs to one row.\<close>

definition rows_fresh :: "db \<Rightarrow> bool" where
  "rows_fresh d \<longleftrightarrow> distinct (map pp_id (db_pps d)) \<and> (\<forall>p \<in> set (db_pps d). pp_id p < db_next d)"

text \<open>The rows with a key all belong to the post and none is published.\<close>

definition own_row :: "nat \<Rightarrow> platform_post \<Rightarrow> db \<Rightarrow> bool" where
  "own_row po x d \<longleftrightarrow> (\<forall>r \<in> set (db_pps d). pp_id r = pp_id x \<longrightarrow> \<not> off_limits po r)"

lemma own_row_stable:
  assumes "own_row po x d" "within po A d d'"
  shows "own_row po x d'"
  unfolding own_row_def
proof (intro ballI impI)
  fix q
  assume q: "q \<in> set (db_pps d')" "pp_id q = pp_id x"
  from assms(2) q(1) consider "placed po A q"
    | p where "p \<in> set (db_pps d)" "same_place p q" "pp_status q = PUBLISHED \<longrightarrow> pp_status p = PUBLISHED"
    unfolding within_def by blast
  then show "\<not> off_limits po q"
  proof cases
    case 2
    then have "\<not> off_limits po p" using assms(1) q(2) by (auto simp: own_row_def same_place_def)
    then show ?thesis using 2 by (auto simp: off_limits_def same_place_def)
  qed (auto simp: placed_def off_limits_def)
qed

lemma own_row_child:
  assumes "rows_fresh d" "p \<in> set (children po d)" "pp_status p \<noteq> PUBLISHED"
  shows "own_row po p d"
proof -
  have p: "p \<in> set (db_pps d)" "pp_post p = po" using assms(2) by (auto simp: children_def)
  have "r = p" if "r \<in> set (db_pps d)" "pp_id r = pp_id p" for r
    using distinct_key_eq [of pp_id "db_pps d" r p] assms(1) p(1) that by (simp add: rows_fresh_def)
  then show ?thesis using p(2) assms(3) by (auto simp: own_row_def off_limits_def)
qed

lemma within_save_transition:
  assumes "own_row po q d" "pp_status q \<noteq> PUBLISHED"
  shows "within po A d (save_transition q b now d)"
proof (rule within_map [where f = "\<lambda>r. if pp_id r = pp_id q then
      r\<lparr>pp_status := pp_status q, pp_published_at := pp_published_at q,
             pp_handle := pp_handle q, pp_retry_count := pp_retry_count q,
             pp_next_retry_at := pp_next_retry_at q, pp_publish_error := pp_publish_error q,
             pp_scheduled_at := (if b then pp_scheduled_at q else pp_scheduled_at r),
             pp_updated_at := now\<rparr> else r"])
  show "same_publication p (if pp_id p = pp_id q then
      p\<lparr>pp_status := pp_status q, pp_published_at := pp_published_at q,
             pp_handle := pp_handle q, pp_retry_count := pp_retry_count q,
             pp_next_retry_at := pp_next_retry_at q, pp_publish_error := pp_publish_error q,
             pp_scheduled_at := (if b then pp_scheduled_at q else pp_scheduled_at p),
             pp_updated_at := now\<rparr> else p)" if "p \<in> set (db_pps d)" "off_limits po p" for p
    using assms(1) that by (auto simp: own_row_def same_publication_def)
qed (use assms(2) in \<open>auto simp: save_transition_def update_pps_def tbl_update_def same_place_def\<close>)

section \<open>The operations\<close>

lemma move_via_draft_props:
  assumes "move_via_draft now target b p = Some q"
  shows "pp_id q = pp_id p \<and> pp_post q = pp_post p \<and> pp_status q = target \<and> pp_status p \<noteq> PUBLISHED"
proof -
  have no: "pp_status p \<noteq> PUBLISHED" if "can_transition_to p s" for s
    using that by (auto simp: can_transition_to_def)
  show ?thesis using assms no unfolding move_via_draft_def
    by (auto simp: transition_to_Inl split: if_splits sum.splits dest!: transition_to_keeps)
qed

lemma within_transition_child:
  assumes "own_row po p d" "target \<noteq> PUBLISHED"
  shows "within po A d (transition_child now target b p d)"
proof (cases "pp_status p = target \<or> move_via_draft now target b p = None")
  case False
  then obtain q where q: "move_via_draft now target b p = Some q" by auto
  note f = move_via_draft_props [OF q]
  have "own_row po q d" using assms(1) f by (simp add: own_row_def)
  then show ?thesis using within_save_transition assms(2) f q False by (simp add: transition_child_def)
qed (auto simp: transition_child_def within_refl)

lemma transition_child_published: "pp_status p = PUBLISHED \<Longrightarrow> transition_child now target b p d = d"
  by (auto simp: transition_child_def move_via_draft_def can_transition_to_def)

lemma within_transition_children:
  assumes "rows_fresh d" "set ps \<subseteq> set (children po d)" "target \<noteq> PUBLISHED"
  shows "within po A d (fold (transition_child now target b) ps d)"
proof (rule wi.fold_stable [where P = "\<lambda>p d. pp_status p = PUBLISHED \<or> own_row po p d"])
  fix p d'
  assume "pp_status p = PUBLISHED \<or> own_row po p d'"
  then show "within po A d' (transition_child now target b p d')"
    using within_transition_child [OF _ assms(3)] by (auto simp: transition_child_published within_refl)
next
  fix p
  assume "p \<in> set ps"
  then show "pp_status p = PUBLISHED \<or> own_row po p d" using own_row_child [OF assms(1)] assms(2) by blast
qed (auto dest: own_row_stable)

lemma within_move_all:
  assumes "\<And>p. p \<in> set ps \<Longrightarrow> own_row po p d" "s \<noteq> PUBLISHED"
  shows "within po A d (snd (move_all now s ps d))"
  using assms(1)
proof (induction ps arbitrary: d)
  case Nil
  show ?case by (simp add: within_refl)
next
  case (Cons p ps)
  show ?case
  proof (cases "transition_or_skip now p s d")
    case None
    then show ?thesis using Cons by simp
  next
    case (Some qd)
    obtain q d1 where q: "qd = (q, d1)" by (cases qd)
    have "within po A d d1"
    proof (cases "pp_status p = s")
      case True
      then show ?thesis using Some q by (simp add: transition_or_skip_def within_refl)
    next
      case False
      then obtain q' where q': "transition_to now p s = Inr q'" "d1 = save_transition q' False now d"
        using Some q by (auto simp: transition_or_skip_def split: sum.splits)
      have "own_row po q' d" using Cons.prems [of p] transition_to_keeps [OF q'(1)] by (simp add: own_row_def)
      then show ?thesis using within_save_transition assms(2) transition_to_keeps [OF q'(1)] q'(2) by simp
    qed
    moreover have "within po A d1 (snd (move_all now s ps d1))"
      by (rule Cons.IH) (use Cons.prems own_row_stable [OF _ \<open>within po A d d1\<close>] in auto)
    ultimately show ?thesis using Some q within_trans by (auto simp: case_prod_beta Let_def)
  qed
qed

section \<open>The channels of a form\<close>

definition workspace_keys :: "nat \<Rightarrow> db \<Rightarrow> nat set" where
  "workspace_keys w d = {a. workspace_account w a d \<noteq> None}"

lemma workspace_keys_within: "within po A d d' \<Longrightarrow> workspace_keys w d' = workspace_keys w d"
  by (simp add: within_def workspace_keys_def workspace_account_def)

lemma within_delete:
  assumes "remove_deselected_platform_posts rq po d = Some d'"
  shows "within po A d d'"
proof -
  obtain sc where "d' = delete_pps (is_deselected rq sc po) d"
    using assms by (auto simp: remove_deselected_platform_posts_def split: option.splits)
  then show ?thesis
    by (intro within_filter [where P = "\<lambda>p. \<not> is_deselected rq sc po p"])
      (auto simp: delete_pps_def Let_def tbl_delete_def is_deselected_def off_limits_def PROTECTED_STATUSES_def)
qed

lemma get_or_create_props:
  assumes "get_or_create_child now po a s d = (p, d')" "s \<noteq> PUBLISHED" "a \<in> A"
  shows "within po A d d'" "p \<in> set (db_pps d')" "pp_post p = po"
proof -
  have "within po A d d' \<and> p \<in> set (db_pps d') \<and> pp_post p = po"
  proof (cases "child_on po a d")
    case None
    then have p: "p = (new_platform_post (db_next d) po a now)\<lparr>pp_status := s\<rparr>"
      and d': "d' = d\<lparr>db_next := Suc (db_next d), db_pps := db_pps d @ [p]\<rparr>"
      using assms(1) by (auto simp: get_or_create_child_def fresh_id_def Let_def)
    have "placed po A p" using assms(2,3) by (simp add: p placed_def new_platform_post_def)
    then show ?thesis
      by (intro conjI within_append [where p = p]) (simp_all add: d' placed_def)
  next
    case (Some q)
    then have "p = q" "d' = d" using assms(1) by (simp_all add: get_or_create_child_def)
    moreover have "q \<in> set (db_pps d) \<and> pp_post q = po" using tbl_first_Some [OF Some [unfolded child_on_def]] by simp
    ultimately show ?thesis by (simp add: within_refl)
  qed
  then show "within po A d d'" "p \<in> set (db_pps d')" "pp_post p = po" by blast+
qed

text \<open>Saving an object over its row, when it differs from every row of its key only in content.\<close>

lemma within_save_pp:
  assumes "\<And>r. r \<in> set (db_pps d) \<Longrightarrow> pp_id r = pp_id q \<Longrightarrow> same_place r q \<and> same_publication r q"
  shows "within po A d (save_pp q d)"
proof (rule within_map [where f = "\<lambda>r. if pp_id r = pp_id q then q else r"])
  show "same_place p (if pp_id p = pp_id q then q else p) \<and>
      (pp_status (if pp_id p = pp_id q then q else p) = PUBLISHED \<longrightarrow> pp_status p = PUBLISHED)"
    if "p \<in> set (db_pps d)" for p
  proof (cases "pp_id p = pp_id q")
    case True
    then have "same_place p q \<and> same_publication p q" using assms that by blast
    then show ?thesis using True by (simp add: same_publication_def)
  qed (simp add: same_place_def)
  show "same_publication p (if pp_id p = pp_id q then q else p)" if "p \<in> set (db_pps d)" for p
  proof (cases "pp_id p = pp_id q")
    case True
    then show ?thesis using assms that by simp
  qed (simp add: same_publication_def)
qed (simp_all add: save_pp_def tbl_save_def tbl_update_def)

lemma rows_fresh_get_or_create:
  assumes "get_or_create_child now po a s d = (p, d')" "rows_fresh d"
  shows "rows_fresh d'"
proof (cases "child_on po a d")
  case None
  then have p: "pp_id p = db_next d" and d': "db_pps d' = db_pps d @ [p]" "db_next d' = Suc (db_next d)"
    using assms(1) by (auto simp: get_or_create_child_def fresh_id_def Let_def new_platform_post_def)
  show ?thesis using assms(2) by (force simp: rows_fresh_def p d')
qed (use assms in \<open>simp add: get_or_create_child_def\<close>)

definition tidy :: "nat \<Rightarrow> nat set \<Rightarrow> db \<Rightarrow> db \<Rightarrow> bool" where
  "tidy po A d d' \<longleftrightarrow> within po A d d' \<and> (rows_fresh d \<longrightarrow> rows_fresh d')"

interpretation ti: db_preorder "tidy po A" for po A
  by unfold_locales (auto simp: tidy_def within_refl intro: within_trans)

lemma tidy_trans: "tidy po A d d1 \<Longrightarrow> tidy po A d1 d2 \<Longrightarrow> tidy po A d d2"
  by (rule ti.transR)

lemma tidy_same_keys:
  assumes "within po A d d'" "map pp_id (db_pps d') = map pp_id (db_pps d)" "db_next d \<le> db_next d'"
  shows "tidy po A d d'"
proof -
  have "pp_id ` set (db_pps d') = pp_id ` set (db_pps d)" using arg_cong [OF assms(2), of set] by simp
  then have "\<exists>r \<in> set (db_pps d). pp_id r = pp_id p" if "p \<in> set (db_pps d')" for p using that by (metis imageE imageI)
  then show ?thesis using assms by (fastforce simp: tidy_def rows_fresh_def)
qed

lemma tidy_frame:
  "db_accounts d' = db_accounts d \<Longrightarrow> db_pps d' = db_pps d \<Longrightarrow> db_next d \<le> db_next d' \<Longrightarrow> tidy po A d d'"
  by (intro tidy_same_keys within_same_rows) simp_all

lemma sync_child_tidy:
  assumes "rows_fresh d" "s \<noteq> PUBLISHED" "workspace_keys w d = A"
  shows "tidy po A d (sync_child now rq w po s acc d)"
proof (cases "parse_uuid acc")
  case (Some a)
  show ?thesis
  proof (cases "workspace_account w a d")
    case x: (Some x)
    obtain p d1 where g: "get_or_create_child now po a s d = (p, d1)" by fastforce
    define q where "q = fill_child now rq acc (sa_platform x) (attached_types po d1) p"
    have a: "a \<in> A" using x assms(3) by (auto simp: workspace_keys_def)
    note c = get_or_create_props [OF g assms(2) a]
    have f: "rows_fresh d1" by (rule rows_fresh_get_or_create [OF g assms(1)])
    have q: "same_place p q" "same_publication p q"
      by (simp_all add: q_def fill_child_def same_place_def same_publication_def)
    have eq: "r = p" if "r \<in> set (db_pps d1)" "pp_id r = pp_id q" for r
      using distinct_key_eq [of pp_id "db_pps d1" r p] f c(2) that q(1) by (simp add: rows_fresh_def same_place_def)
    have "within po A d1 (save_pp q d1)"
    proof (rule within_save_pp)
      fix r
      assume "r \<in> set (db_pps d1)" "pp_id r = pp_id q"
      then have "r = p" by (rule eq)
      then show "same_place r q \<and> same_publication r q" using q by (simp only: simp_thms)
    qed
    then have "tidy po A d1 (save_pp q d1)" by (rule tidy_same_keys) (simp_all add: save_pp_def)
    moreover have "tidy po A d d1" using c(1) f by (simp add: tidy_def)
    moreover have "sync_child now rq w po s acc d = save_pp q d1"
      by (simp add: sync_child_def Some x g q_def)
    ultimately show ?thesis using tidy_trans by simp
  qed (simp add: sync_child_def Some ti.reflR)
qed (simp add: sync_child_def ti.reflR)

lemma delete_tidy:
  assumes "remove_deselected_platform_posts rq po d = Some d'"
  shows "tidy po A d d'"
proof -
  have "rows_fresh d \<longrightarrow> rows_fresh d'" using assms
    by (auto simp: rows_fresh_def remove_deselected_platform_posts_def delete_pps_def Let_def tbl_delete_def
        distinct_map_filter split: option.splits)
  then show ?thesis using within_delete [OF assms] by (simp add: tidy_def)
qed

lemma sync_tidy:
  assumes "sync_platform_posts now rq w po s d = Some d'" "rows_fresh d" "s \<noteq> PUBLISHED"
  shows "tidy po (workspace_keys w d) d d'"
proof -
  obtain d1 where d1: "remove_deselected_platform_posts rq po d = Some d1"
    and d': "d' = fold (sync_child now rq w po s) (selected_accounts rq) d1"
    using assms(1) by (auto simp: sync_platform_posts_def)
  note del = delete_tidy [OF d1, of "workspace_keys w d"]
  have start: "rows_fresh d1 \<and> workspace_keys w d1 = workspace_keys w d"
    using workspace_keys_within [of po "workspace_keys w d" d d1 w] del assms(2) by (auto simp: tidy_def)
  have "tidy po (workspace_keys w d) d1 d'" unfolding d'
  proof (rule ti.fold_stable [where P = "\<lambda>_ x. rows_fresh x \<and> workspace_keys w x = workspace_keys w d"])
    fix acc x
    assume "rows_fresh x \<and> workspace_keys w x = workspace_keys w d"
    then show "tidy po (workspace_keys w d) x (sync_child now rq w po s acc x)"
      using sync_child_tidy [OF _ assms(3)] by blast
  next
    fix acc :: string and x y
    assume "rows_fresh x \<and> workspace_keys w x = workspace_keys w d" "tidy po (workspace_keys w d) x y"
    then show "rows_fresh y \<and> workspace_keys w y = workspace_keys w d"
      using workspace_keys_within [of po "workspace_keys w d" x y w] by (simp add: tidy_def)
  qed (rule start)
  then show ?thesis by (rule tidy_trans [OF del])
qed

section \<open>Moves, queues and submissions\<close>

lemma save_transition_ids: "map pp_id (db_pps (save_transition q b now d)) = map pp_id (db_pps d)"
  by (simp add: save_transition_def update_pps_def map_tbl_update)

lemma transition_child_ids:
  "map pp_id (db_pps (transition_child now target b p d)) = map pp_id (db_pps d)"
  "db_next (transition_child now target b p d) = db_next d"
  by (auto simp: transition_child_def save_transition_ids save_transition_def update_pps_def
      map_tbl_update split: option.split)

lemma fold_ids:
  assumes "\<And>x d. map pp_id (db_pps (f x d)) = map pp_id (db_pps d) \<and> db_next (f x d) = db_next d"
  shows "map pp_id (db_pps (fold f xs d)) = map pp_id (db_pps d) \<and> db_next (fold f xs d) = db_next d"
  using assms by (induction xs arbitrary: d) auto

lemma transitions_tidy:
  assumes "rows_fresh d" "set ps \<subseteq> set (children po d)" "target \<noteq> PUBLISHED"
  shows "tidy po A d (fold (transition_child now target b) ps d)"
  using fold_ids [of "transition_child now target b" ps d] transition_child_ids
  by (intro tidy_same_keys within_transition_children assms) simp_all

lemma transition_post_children_tidy:
  "rows_fresh d \<Longrightarrow> target \<noteq> PUBLISHED \<Longrightarrow> tidy po A d (transition_post_children now po target b only d)"
  unfolding transition_post_children_def by (rule transitions_tidy) auto

lemma revert_tidy:
  "rows_fresh d \<Longrightarrow> tidy po A d (snd (revert_approved_to_review now po d))"
  unfolding revert_approved_to_review_def snd_conv by (rule transitions_tidy) (auto simp: approved_children_def)

lemma sync_sched_tables [frame_simps]:
  "db_media (sync_post_scheduled_at now i d) = db_media d"
  "db_accounts (sync_post_scheduled_at now i d) = db_accounts d" "db_next (sync_post_scheduled_at now i d) = db_next d"
  by (simp_all add: sync_post_scheduled_at_def Let_def save_post_def split: option.split)

lemma write_slot_tables [frame_simps]:
  "db_media (write_slot now e p t d) = db_media d"
  "db_accounts (write_slot now e p t d) = db_accounts d" "db_next (write_slot now e p t d) = db_next d"
  by (cases p; simp add: write_slot_def Let_def frame_simps update_pps_def)+

definition only_times :: "db \<Rightarrow> db \<Rightarrow> bool" where
  \<comment> \<open>the channels differ in their times at most\<close>
  "only_times d d' \<longleftrightarrow>
    db_accounts d' = db_accounts d \<and> db_media d' = db_media d \<and>
    map bare (db_pps d') = map bare (db_pps d) \<and> db_next d \<le> db_next d'"

lemma only_times_refl: "only_times d d"
  by (simp add: only_times_def)

lemma only_times_trans: "only_times d d1 \<Longrightarrow> only_times d1 d2 \<Longrightarrow> only_times d d2"
  unfolding only_times_def by (metis le_trans)

interpretation ot: db_preorder only_times
  by unfold_locales (auto intro: only_times_refl only_times_trans)

lemma only_times_write: "only_times d (write_slot now e p t d)"
  by (simp add: only_times_def bare_write frame_simps)

lemma only_times_ensure: "ensure_entry po q d = (e, d1) \<Longrightarrow> only_times d d1"
  by (auto simp: only_times_def ensure_entry_def fresh_id_def Let_def split: option.splits)

lemma only_times_ladder:
  "ladder zones now a avoid assigned cands ms d = Some (c, d') \<Longrightarrow> only_times d d'"
proof (induction zones now a avoid assigned cands ms d rule: ladder.induct)
  case (2 zones now a avoid assigned cands i e p ms d)
  show ?case
  proof (cases "find_rung zones now a d avoid assigned cands (i + 1)")
    case (Some cj)
    obtain c1 j where cj: "cj = (c1, j)" by (cases cj)
    have "only_times (write_slot now e (Some p) (fst (c1 ! j)) d) d'"
      by (rule "2.IH" [OF Some cj [symmetric]]) (use "2.prems" Some cj in simp)
    then show ?thesis by (rule only_times_trans [OF only_times_write])
  qed (use 2 in simp)
qed (simp add: only_times_refl)

lemma only_times_add_next:
  assumes "add_post_next_available zones now po q a d = Inr (r, d')"
  shows "only_times d d'"
proof (cases "is_protected (child_on po (sa_id a) d)")
  case False
  obtain e d1 where e: "ensure_entry po q d = (e, d1)" by fastforce
  then obtain t where "d' = write_slot now e (child_on po (sa_id a) d) t d1"
    using assms False by (auto simp: add_post_next_available_def Let_def split: option.splits)
  then show ?thesis using only_times_trans [OF only_times_ensure [OF e] only_times_write] by simp
qed (use assms in \<open>simp add: add_post_next_available_def Let_def only_times_refl\<close>)

lemma only_times_prioritize:
  assumes "prioritize zones now po q a d = Inr d'"
  shows "only_times d d'"
proof -
  obtain e d1 where e: "ensure_entry po q d = (e, d1)" by fastforce
  have "only_times d1 d'" if "place_first zones now q a p e t d1 = Inr d'" for p t
    using that only_times_write by (auto simp: place_first_def split: if_splits option.splits)
  moreover have "only_times d1 d'" if "ladder_up zones now q a p e m c d1 = Inr d'" for p m c
    using that only_times_trans [OF only_times_ladder only_times_write]
    by (auto simp: ladder_up_def Let_def split: option.splits)
  moreover have "(\<exists>p t. place_first zones now q a p e t d1 = Inr d') \<or> (\<exists>p m c. ladder_up zones now q a p e m c d1 = Inr d')"
    using assms unfolding prioritize_def Let_def e prod.case by (metis sum.distinct(1))
  ultimately have "only_times d1 d'" by blast
  then show ?thesis using only_times_trans [OF only_times_ensure [OF e]] by simp
qed

lemma only_times_queues:
  "add_to_queues zones now po pr qs d = Inr d' \<Longrightarrow> only_times d d'"
proof (induction zones now po pr qs d rule: add_to_queues.induct)
  case (2 zones now po pr q qs d)
  show ?case
  proof (cases "get_account (qu_account q) d")
    case (Some a)
    then obtain d1 where d1: "add_to_queue zones now po q a pr d = Inr d1"
      "add_to_queues zones now po pr qs d1 = Inr d'"
      using "2.prems" by (auto split: sum.splits)
    have "only_times d d1" using d1(1) only_times_prioritize
      by (cases "add_post_next_available zones now po q a d")
        (auto simp: add_to_queue_def split: if_splits intro: only_times_add_next)
    then show ?thesis using only_times_trans "2.IH"(2) [OF Some d1] by blast
  qed (use 2 in simp)
qed (simp add: only_times_refl)

lemma only_times_tidy:
  assumes "only_times d d'"
  shows "tidy po A d d'"
proof (rule tidy_same_keys)
  have "map pp_id (map bare (db_pps d')) = map pp_id (map bare (db_pps d))"
    using assms unfolding only_times_def by metis
  then show "map pp_id (db_pps d') = map pp_id (db_pps d)" by (simp add: comp_def bare_def)
qed (use assms in \<open>auto simp: only_times_def intro: within_bare\<close>)

lemma quiet_tables [frame_simps]:
  "db_media (notify_all us ev ti b da d) = db_media d" "db_media (reset_reminder po st d) = db_media d"
  "db_media (record_action i pk u act c d) = db_media d"
  "db_accounts (notify_all us ev ti b da d) = db_accounts d" "db_next (notify_all us ev ti b da d) = db_next d"
  "db_accounts (reset_reminder po st d) = db_accounts d" "db_next (reset_reminder po st d) = db_next d"
  "db_accounts (record_action i pk u act c d) = db_accounts d" "db_next (record_action i pk u act c d) = db_next d"
  by (induction us arbitrary: d)
    (simp_all add: notify_all_def notify_def add_note_def reset_reminder_def record_action_def Let_def)

lemma move_all_keys:
  "map pp_id (db_pps (snd (move_all now s ps d))) = map pp_id (db_pps d) \<and> db_next (snd (move_all now s ps d)) = db_next d"
proof (induction ps arbitrary: d)
  case (Cons p ps)
  show ?case using Cons [of d] Cons
    by (auto simp: case_prod_beta Let_def transition_or_skip_def save_transition_ids save_transition_def
        update_pps_def map_tbl_update split: option.split sum.split)
qed simp

lemma targets_tidy:
  assumes "rows_fresh d" "PUBLISHED \<notin> set el" "s \<noteq> PUBLISHED"
  shows "tidy (po_id po) A d (snd (move_all now s (resolve_targets (Bundled po) el d) d))"
  using move_all_keys [of now s "resolve_targets (Bundled po) el d" d] assms
  by (intro tidy_same_keys within_move_all own_row_child) auto

lemma submit_tidy:
  assumes "rows_fresh d"
  shows "tidy (po_id po) A d (snd (submit_for_review now (Bundled po) u ws d))"
    and "tidy (po_id po) A d (snd (resubmit_post now (Bundled po) u ws d))"
proof -
  note m = targets_tidy [OF assms, of _ PENDING_REVIEW po A now]
  have f: "tidy (po_id po) A x (notify_reviewers ws u po ev ti b (reset_reminder (po_id po) st (record_moved (Bundled po) mv u act c x)))"
    for ev ti b st mv act c x
    by (rule tidy_frame) (simp_all add: notify_reviewers_def frame_simps)
  show "tidy (po_id po) A d (snd (submit_for_review now (Bundled po) u ws d))"
    using m [of "[DRAFT, CHANGES_REQUESTED, REJECTED]"] tidy_trans [OF _ f]
    by (auto simp: submit_for_review_def case_prod_beta Let_def simp del: record_moved.simps resolve_targets.simps)
  show "tidy (po_id po) A d (snd (resubmit_post now (Bundled po) u ws d))"
    using m [of "[CHANGES_REQUESTED, REJECTED, APPROVED]"] tidy_trans [OF _ f]
    by (auto simp: resubmit_post_def case_prod_beta Let_def simp del: record_moved.simps resolve_targets.simps)
qed

section \<open>Saving a post\<close>

lemma store_tidy: "tidy po A d (store_post now saved p d)"
  by (rule tidy_frame) (simp_all add: store_post_def save_post_def)

lemma save_version_tidy: "tidy po A d (save_version i u d)"
  by (rule tidy_frame) (simp_all add: save_version_def split: option.split)

lemma attach_pending_tidy: "tidy po A d (attach_pending rq i w d)"
  unfolding attach_pending_def
  by (rule ti.fold_closed, rule tidy_frame) (simp_all add: attach_one_def split: option.split)

lemma rule_tidy: "store_rule i v d = Some d' \<Longrightarrow> tidy po A d d'"
  by (rule tidy_frame) (auto simp: store_rule_def split: prod.splits if_splits)

lemma tags_tidy: "tidy po A d (sync_tags_to_model w ns d)"
  by (rule tidy_frame) (simp_all add: sync_tags_to_model_def)

lemma propagate_tidy: "tidy po A d (propagate_schedule sc i t d)"
  by (rule tidy_same_keys, rule within_map [where f = "\<lambda>p. if pp_post p = i \<and> pp_status p \<notin> set PROTECTED_STATUSES \<and> in_scope sc p
        then p\<lparr>pp_scheduled_at := Some t\<rparr> else p"])
    (auto simp: propagate_schedule_def update_pps_def tbl_update_def same_place_def same_publication_def)

lemma tidy_fresh: "tidy po A d d' \<Longrightarrow> rows_fresh d \<Longrightarrow> rows_fresh d'"
  by (simp add: tidy_def)

lemma tidy_keys: "tidy po A d d' \<Longrightarrow> workspace_keys w d' = workspace_keys w d"
  unfolding tidy_def by (elim conjE, drule workspace_keys_within)

lemma settle_tidy:
  assumes "rows_fresh d"
  shows "tidy (sv_id s) A d (settle_children now sc s at d)"
proof -
  define d1 where "d1 = (case at of None \<Rightarrow> d | Some t \<Rightarrow> propagate_schedule sc (sv_id s) t d)"
  have 1: "tidy (sv_id s) A d d1" by (simp add: d1_def propagate_tidy ti.reflR split: option.split)
  define ch where "ch = (case sv_orig s of None \<Rightarrow> False | Some c \<Rightarrow> base_content_snapshot (sv_post s) \<noteq> c)"
  obtain ks d2 where r: "(if ch then revert_approved_to_review now (sv_id s) d1 else ([], d1)) = (ks, d2)" by fastforce
  have "tidy (sv_id s) A d1 d2"
    using r revert_tidy [OF tidy_fresh [OF 1 assms], of "sv_id s" A now] by (auto simp: ti.reflR split: if_splits)
  then have 2: "tidy (sv_id s) A d d2" by (rule tidy_trans [OF 1])
  have "settle_children now sc s at d = (if at = None then d2
      else transition_post_children now (sv_id s) SCHEDULED True (target_only sc (sv_id s) ks d2) d2)"
    unfolding settle_children_def Let_def d1_def [symmetric] ch_def [symmetric] r by simp
  then show ?thesis
    using 2 tidy_trans [OF 2 transition_post_children_tidy [OF tidy_fresh [OF 2 assms]]] by simp
qed

lemma save_in_place_tidy:
  assumes "rows_fresh d"
  shows "tidy (sv_id s) (workspace_keys (ws_id (sv_ws s)) d) d (snd (save_in_place now rq action s at d))"
proof -
  let ?i = "sv_id s" and ?w = "ws_id (sv_ws s)"
  let ?A = "workspace_keys ?w d"
  define d1 where "d1 = store_post now (sv_saved s) (sv_post s) d"
  define d2 where "d2 = (if sv_saved s then d1 else attach_pending rq ?i ?w d1)"
  define d3 where "d3 = sync_tags_to_model ?w (tag_names (sv_post s)) d2"
  have 3: "tidy ?i ?A d d3"
    using tidy_trans [OF tidy_trans [OF store_tidy attach_pending_tidy] tags_tidy] tidy_trans [OF store_tidy tags_tidy]
    by (simp add: d1_def d2_def d3_def)
  define r where "r = (if wants_recurrence rq action (sv_post s) then store_rule ?i (recurrence_values rq) d3 else Some d3)"
  have body: "save_in_place now rq action s at d = (case r of None \<Rightarrow> (ServerError, d3)
     | Some d4 \<Rightarrow>
        (case (account_scope rq, sync_platform_posts now rq ?w ?i (if at = None then DRAFT else SCHEDULED) d4) of
           (Some sc, Some d5) \<Rightarrow> (Done ?i, save_version ?i (sv_user s) (settle_children now sc s at d5))
         | _ \<Rightarrow> (BadRequest ''Malformed account_scope.'', d4)))"
    by (simp only: save_in_place_def Let_def d1_def d2_def d3_def r_def)
  show ?thesis
  proof (cases r)
    case None
    then show ?thesis using 3 by (simp add: body)
  next
    case (Some d4)
    have "tidy ?i ?A d3 d4" using Some rule_tidy by (auto simp: r_def ti.reflR split: if_splits)
    then have 4: "tidy ?i ?A d d4" by (rule tidy_trans [OF 3])
    show ?thesis
    proof (cases "sync_platform_posts now rq ?w ?i (if at = None then DRAFT else SCHEDULED) d4")
      case None
      then show ?thesis using Some 4 by (auto simp: body split: option.split)
    next
      case y: (Some d5)
      have "tidy ?i ?A d4 d5" using sync_tidy [OF y tidy_fresh [OF 4 assms]] tidy_keys [OF 4] by simp
      then have 5: "tidy ?i ?A d d5" by (rule tidy_trans [OF 4])
      have "tidy ?i ?A d (save_version ?i u (settle_children now sc s at d5))" for sc u
        by (rule tidy_trans [OF tidy_trans [OF 5 settle_tidy [OF tidy_fresh [OF 5 assms]]] save_version_tidy])
      then show ?thesis using Some y 4 by (auto simp: body split: option.split)
    qed
  qed
qed

lemma save_to_queue_tidy:
  assumes "rows_fresh d"
  shows "tidy (sv_id s) (workspace_keys (ws_id (sv_ws s)) d) d (snd (save_to_queue zones now rq pr s d))"
proof -
  let ?i = "sv_id s" and ?w = "ws_id (sv_ws s)"
  let ?A = "workspace_keys ?w d"
  define d1 where "d1 = store_post now (sv_saved s) (sv_post s\<lparr>po_proposed_at := None\<rparr>) d"
  have 1: "tidy ?i ?A d d1" by (simp add: d1_def store_tidy)
  have 2: "tidy ?i ?A d d2" if "sync_platform_posts now rq ?w ?i DRAFT d1 = Some d2" for d2
    using tidy_trans [OF 1] sync_tidy [OF that tidy_fresh [OF 1 assms]] tidy_keys [OF 1, of ?w] by simp
  have 3: "tidy ?i ?A d d3" if "sync_platform_posts now rq ?w ?i DRAFT d1 = Some d2"
      "add_to_queues zones now ?i pr qs d2 = Inr d3" for d2 d3 qs
    by (rule tidy_trans [OF 2 [OF that(1)] only_times_tidy [OF only_times_queues [OF that(2)]]])
  have 4: "tidy ?i ?A d (save_version ?i u (transition_post_children now ?i SCHEDULED True only d3))"
    if "tidy ?i ?A d d3" for d3 u only
    by (rule tidy_trans [OF tidy_trans [OF that transition_post_children_tidy [OF tidy_fresh [OF that assms]]] save_version_tidy]) simp
  have body: "tidy ?i ?A d (snd (case (account_scope rq, sync_platform_posts now rq ?w ?i DRAFT d1) of
           (Some sc, Some d2) \<Rightarrow>
             (case add_to_queues zones now ?i pr qs d2 of
                Inl e \<Rightarrow> (queue_answer e, d2)
              | Inr d3 \<Rightarrow>
                  (Done ?i, save_version ?i (sv_user s)
                    (transition_post_children now ?i SCHEDULED True (scoped_platform_post_ids sc ?i d3) d3)))
         | _ \<Rightarrow> (BadRequest ''Malformed account_scope.'', d1)))" for qs
    using 1 2 4 [OF 3] by (auto split: option.split sum.split)
  show ?thesis
    unfolding save_to_queue_def Let_def d1_def [symmetric]
    using body by (simp add: ti.reflR split: option.split list.split)
qed

lemma save_and_submit_tidy:
  assumes "rows_fresh d"
  shows "tidy (sv_id s) (workspace_keys (ws_id (sv_ws s)) d) d (snd (save_and_submit zones now rq f again s d))"
proof -
  let ?i = "sv_id s" and ?w = "ws_id (sv_ws s)"
  let ?A = "workspace_keys ?w d"
  define po where "po = capture_proposed_publish_at zones (sv_post s) (sv_saved s) (sv_ws s) f False d"
  define d1 where "d1 = store_post now (sv_saved s) po d"
  have 1: "tidy ?i ?A d d1" by (simp add: d1_def store_tidy)
  have id: "po_id (po\<lparr>po_updated_at := now\<rparr>) = ?i"
    by (simp add: po_def capture_proposed_publish_at_def Let_def sv_id_def)
  have 3: "tidy ?i ?A d (save_version ?i u d2)" if "sync_platform_posts now rq ?w ?i DRAFT d1 = Some d2" for d2 u
    using tidy_trans [OF 1] sync_tidy [OF that tidy_fresh [OF 1 assms]] tidy_keys [OF 1, of ?w]
      tidy_trans [OF _ save_version_tidy] by simp
  have 4: "tidy ?i ?A d (snd (submit_for_review now (Bundled (po\<lparr>po_updated_at := now\<rparr>)) u ws d3))"
    "tidy ?i ?A d (snd (resubmit_post now (Bundled (po\<lparr>po_updated_at := now\<rparr>)) u ws d3))"
    if "tidy ?i ?A d d3" for d3 u ws
    using tidy_trans [OF that] submit_tidy [OF tidy_fresh [OF that assms], of "po\<lparr>po_updated_at := now\<rparr>" ?A now u ws]
    unfolding id by blast+
  show ?thesis
    unfolding save_and_submit_def Let_def po_def [symmetric] d1_def [symmetric]
    using 1 4 [OF 3] by (auto split: option.split)
qed

lemma tidy_sv: "tidy (sv_id s) A d d' \<Longrightarrow> sv_id s = i \<Longrightarrow> A = B \<Longrightarrow> tidy i B d d'"
  by simp

lemma take_action_tidy:
  assumes "rows_fresh d"
  shows "tidy (sv_id s) (workspace_keys (ws_id (sv_ws s)) d) d (snd (take_action zones now rq f action s d))"
proof -
  have id: "sv_id (s\<lparr>sv_post := capture_proposed_publish_at zones (sv_post s) b ws f cl d\<rparr>) = sv_id s" for b ws cl
    by (simp add: sv_id_def capture_proposed_publish_at_def Let_def)
  have t: "sv_id (s\<lparr>sv_post := sv_post s\<lparr>po_scheduled_at := at, po_proposed_at := None\<rparr>\<rparr>) = sv_id s" for at
    by (simp add: sv_id_def)
  let ?T = "tidy (sv_id s) (workspace_keys (ws_id (sv_ws s)) d) d"
  note p = save_in_place_tidy [OF assms, where now = now and rq = rq and action = action]
  have 1: "?T (snd (save_in_place now rq action (s\<lparr>sv_post := sv_post s\<lparr>po_scheduled_at := Some u, po_proposed_at := None\<rparr>\<rparr>) (Some u) d))"
    for u
    using p [of "s\<lparr>sv_post := sv_post s\<lparr>po_scheduled_at := Some u, po_proposed_at := None\<rparr>\<rparr>" "Some u"] unfolding t by simp
  have 2: "?T (snd (save_in_place now rq action (s\<lparr>sv_post := capture_proposed_publish_at zones (sv_post s) b ws f cl d\<rparr>) None d))"
    for b ws cl
    using p [of "s\<lparr>sv_post := capture_proposed_publish_at zones (sv_post s) b ws f cl d\<rparr>" None] unfolding id by simp
  have 3: "?T (snd (save_in_place now rq action s None d))" by (rule p)
  have r: "?T (snd (x, d))" for x :: response by (simp add: ti.reflR)
  have sched: "?T (snd (case x of None \<Rightarrow> (BadRequest m1, d)
      | Some u \<Rightarrow> if u \<le> now then (BadRequest m2, d) else save_in_place now rq action
          (s\<lparr>sv_post := sv_post s\<lparr>po_scheduled_at := Some u, po_proposed_at := None\<rparr>\<rparr>) (Some u) d))" for x m1 m2
    by (cases x) (simp_all add: r 1 del: snd_conv)
  have choice: "?T (snd (if b then x else y))" if "?T (snd x)" "?T (snd y)" for b and x y :: "response \<times> db"
    using that by simp
  have inner: "?T (snd (save_in_place now rq action (if b then
      s\<lparr>sv_post := capture_proposed_publish_at zones (sv_post s) (sv_saved s) (sv_ws s) f True d\<rparr> else s) None d))" for b
    using 2 3 by simp
  show ?thesis
    unfolding take_action_def
    by (intro choice sched r 1 inner save_to_queue_tidy [OF assms] save_and_submit_tidy [OF assms])
qed

lemma workspace_id: "get_workspace w d = Some ws \<Longrightarrow> ws_id ws = w"
  unfolding get_workspace_def by (drule tbl_get_Some) simp

lemma load_post_Inr:
  assumes "load_post now rq w post_id form d = Inr s"
  shows "rq_user rq = Some (sv_user s)" "membership_of (us_id (sv_user s)) w d = Some (sv_member s)"
    "has_perm ''create_posts'' (sv_member s)" "ws_id (sv_ws s) = w" "sv_saved s = (post_id \<noteq> None)"
    "sv_id s = (case post_id of None \<Rightarrow> db_next d | Some i \<Rightarrow> i)"
    "\<exists>f. form = Some f"
    "post_id = Some i \<Longrightarrow> \<exists>po sc. workspace_post i w d = Some po \<and> may_edit (sv_user s) (sv_member s) po \<and>
       account_scope rq = Some sc \<and> \<not> is_readonly_write sc i d \<and>
       (\<forall>f. form = Some f \<longrightarrow> sv_post s = apply_form f po) \<and> sv_orig s = Some (base_content_snapshot po)"
proof -
  obtain u m ws where e: "enter rq w (Some ''create_posts'') d = Inr (u, m, ws)"
    using assms by (cases "enter rq w (Some ''create_posts'') d") (auto simp: load_post_def)
  note E = e [unfolded enter_Inr, simplified]
  have wp: "po_id po = i" if "workspace_post i w d = Some po" for i po
    using tbl_first_Some [OF that [unfolded workspace_post_def]] by simp
  have "rq_user rq = Some (sv_user s) \<and> membership_of (us_id (sv_user s)) w d = Some (sv_member s) \<and>
    has_perm ''create_posts'' (sv_member s) \<and> ws_id (sv_ws s) = w \<and> sv_saved s = (post_id \<noteq> None) \<and>
    sv_id s = (case post_id of None \<Rightarrow> db_next d | Some i \<Rightarrow> i) \<and> (\<exists>f. form = Some f) \<and>
    (\<forall>i. post_id = Some i \<longrightarrow> (\<exists>po sc. workspace_post i w d = Some po \<and> may_edit (sv_user s) (sv_member s) po \<and>
       account_scope rq = Some sc \<and> \<not> is_readonly_write sc i d \<and>
       (\<forall>f. form = Some f \<longrightarrow> sv_post s = apply_form f po) \<and> sv_orig s = Some (base_content_snapshot po)))"
    using assms E workspace_id [of w d ws] wp
    by (auto simp: load_post_def e sv_id_def apply_form_def blank_post_def split: option.splits if_splits)
  then show "rq_user rq = Some (sv_user s)" "membership_of (us_id (sv_user s)) w d = Some (sv_member s)"
    "has_perm ''create_posts'' (sv_member s)" "ws_id (sv_ws s) = w" "sv_saved s = (post_id \<noteq> None)"
    "sv_id s = (case post_id of None \<Rightarrow> db_next d | Some i \<Rightarrow> i)"
    "\<exists>f. form = Some f"
    "post_id = Some i \<Longrightarrow> \<exists>po sc. workspace_post i w d = Some po \<and> may_edit (sv_user s) (sv_member s) po \<and>
       account_scope rq = Some sc \<and> \<not> is_readonly_write sc i d \<and>
       (\<forall>f. form = Some f \<longrightarrow> sv_post s = apply_form f po) \<and> sv_orig s = Some (base_content_snapshot po)"
    by blast+
qed

lemma save_view_cases:
  assumes "save_post_view zones now rq w post_id form d = (r, d')"
  obtains "d' = d"
  | s f where "load_post now rq w post_id form d = Inr s" "form = Some f"
      "take_action zones now rq f (post_get ''action'' ''save_draft'' rq) s d = (r, d')"
      "validate_required_media rq (sv_key s) w (post_get ''action'' ''save_draft'' rq) d = None"
proof (cases "load_post now rq w post_id form d")
  case (Inl e)
  then show thesis using assms that(1) by (simp add: save_post_view_def)
next
  case (Inr s)
  then show thesis using assms that
    by (cases form) (auto simp: save_post_view_def Let_def split: option.splits)
qed

text \<open>
  C9. A save stays within its post. Whatever form a request brings, afterwards every channel is
  either where it was or a channel of the saved post on an account of the request's own workspace;
  the status, the handle and the publication time of every other post's channels, and of every
  published channel, are what they were; and no channel becomes published.
\<close>

theorem save_stays_within_its_post:
  assumes "rows_fresh d" and "save_post_view zones now rq w post_id form d = (r, d')"
  shows "within (case post_id of None \<Rightarrow> db_next d | Some i \<Rightarrow> i) (workspace_keys w d) d d'"
  using assms(2)
proof (cases rule: save_view_cases)
  case 1
  then show ?thesis by (simp add: within_refl)
next
  case (2 s f)
  then show ?thesis
    using take_action_tidy [OF assms(1), of s zones now rq f "post_get ''action'' ''save_draft'' rq"]
      load_post_Inr(4,6) [OF 2(1)]
    by (simp add: tidy_def)
qed

text \<open>
  C12. Nothing is written without the right to: when a save changes the database, its user is a
  member who may create posts, and an existing post belongs to the workspace, is the user's own or
  open to them, and is not finished in the scope the form was opened with.
\<close>

theorem save_needs_the_right_to_edit:
  assumes "save_post_view zones now rq w post_id form d = (r, d')" and "d' \<noteq> d"
  shows "\<exists>u m. rq_user rq = Some u \<and> membership_of (us_id u) w d = Some m \<and> has_perm ''create_posts'' m \<and>
    (\<forall>i. post_id = Some i \<longrightarrow>
      (\<exists>po sc. workspace_post i w d = Some po \<and> may_edit u m po \<and>
         account_scope rq = Some sc \<and> \<not> is_readonly_write sc i d))"
  using assms(1)
proof (cases rule: save_view_cases)
  case (2 s f)
  note L = load_post_Inr [OF 2(1)]
  show ?thesis by (intro exI [of _ "sv_user s"] exI [of _ "sv_member s"] conjI L(1,2,3)) (use L(8) in blast)
qed (use assms(2) in simp)

end
