(* ===== verification/Save_Effects.thy ===== *)
theory Save_Effects
  imports Save_Safety
begin

text \<open>
  What a save of the composer does to each channel that stays on the post: the exact rows of the
  moves, what the synchronisation with the form carries over, and the final status of every
  channel.
\<close>

section \<open>The rows a move leaves\<close>

definition moved :: "instant \<Rightarrow> pp_state \<Rightarrow> bool \<Rightarrow> platform_post \<Rightarrow> platform_post" where
  "moved now target b r =
    (if pp_status r = target then r
     else case move_via_draft now target b r of None \<Rightarrow> r | Some q \<Rightarrow> q\<lparr>pp_updated_at := now\<rparr>)"

lemma move_via_draft_fields:
  assumes "move_via_draft now target b p = Some q"
  shows "p\<lparr>pp_status := pp_status q, pp_published_at := pp_published_at q, pp_handle := pp_handle q,
           pp_retry_count := pp_retry_count q, pp_next_retry_at := pp_next_retry_at q,
           pp_publish_error := pp_publish_error q, pp_updated_at := now\<rparr> = q\<lparr>pp_updated_at := now\<rparr>"
proof (cases "can_transition_to p target")
  case True
  then show ?thesis using assms
    by (auto simp: move_via_draft_def intro: save_transition_own(2) split: sum.splits)
next
  case False
  then obtain r where "transition_to now p DRAFT = Inr r" "transition_to now r target = Inr q"
    using assms by (auto simp: move_via_draft_def split: if_splits sum.splits)
  then show ?thesis by (auto simp: transition_to_Inr)
qed

lemma moved_keeps [simp]: "pp_id (moved now t b r) = pp_id r"
  by (auto simp: moved_def split: option.split dest: move_via_draft_props)

lemma transition_child_rows:
  assumes "p \<in> set (db_pps d)" "distinct (map pp_id (db_pps d))"
  shows "db_pps (transition_child now t b p d) = tbl_update (\<lambda>r. pp_id r = pp_id p) (moved now t b) (db_pps d)"
proof (cases "pp_status p = t \<or> move_via_draft now t b p = None")
  case True
  then have "moved now t b p = p" "transition_child now t b p d = d"
    by (auto simp: moved_def transition_child_def)
  moreover have "moved now t b r = r" if "r \<in> set (db_pps d)" "pp_id r = pp_id p" for r
    using distinct_key_eq [OF assms(2) that(1) assms(1) that(2)] \<open>moved now t b p = p\<close> by blast
  ultimately show ?thesis by (simp add: tbl_update_idle)
next
  case False
  then obtain q where q: "move_via_draft now t b p = Some q" "pp_status p \<noteq> t" by auto
  note id = conjunct1 [OF move_via_draft_props [OF q(1)]]
  have "db_pps (save_transition q False now d) = tbl_update (\<lambda>r. pp_id r = pp_id p) (moved now t b) (db_pps d)"
    unfolding save_transition_def update_pps_def
  proof (simp, rule tbl_update_cong)
    fix r assume r: "r \<in> set (db_pps d)"
    show "(if pp_id r = pp_id q
          then r\<lparr>pp_status := pp_status q, pp_published_at := pp_published_at q, pp_handle := pp_handle q,
                 pp_retry_count := pp_retry_count q, pp_next_retry_at := pp_next_retry_at q,
                 pp_publish_error := pp_publish_error q, pp_updated_at := now\<rparr> else r) =
          (if pp_id r = pp_id p then moved now t b r else r)"
    proof (cases "pp_id r = pp_id p")
      case True
      then have "r = p" using distinct_key_eq [OF assms(2) r assms(1)] by blast
      then show ?thesis using move_via_draft_fields [OF q(1)] q id by (simp add: moved_def)
    qed (use id in simp)
  qed
  then show ?thesis using q by (simp add: transition_child_def)
qed

lemma transition_children_rows:
  assumes "set ps \<subseteq> set (db_pps d)" "distinct (map pp_id ps)" "distinct (map pp_id (db_pps d))"
  shows "db_pps (fold (transition_child now t b) ps d) =
    tbl_update (\<lambda>r. pp_id r \<in> pp_id ` set ps) (moved now t b) (db_pps d)"
  using assms
proof (induction ps arbitrary: d)
  case Nil
  then show ?case by (simp add: tbl_update_idle)
next
  case (Cons p ps)
  have p: "p \<in> set (db_pps d)" and n: "pp_id p \<notin> pp_id ` set ps" using Cons.prems by auto
  note r = transition_child_rows [OF p Cons.prems(3), of now t b]
  have "db_pps (fold (transition_child now t b) ps (transition_child now t b p d)) =
      tbl_update (\<lambda>r. pp_id r \<in> pp_id ` set ps) (moved now t b) (db_pps (transition_child now t b p d))"
    using Cons.IH [of "transition_child now t b p d"] others_stay [OF Cons.prems(1,2)] Cons.prems(2,3)
    by (simp add: r map_tbl_update)
  then show ?case using n by (simp add: r tbl_update_insert)
qed

lemma filter_children_rows:
  assumes "rows_fresh d"
  shows "set (filter P (children i d)) \<subseteq> set (db_pps d)" "distinct (map pp_id (filter P (children i d)))"
    "r \<in> set (db_pps d) \<Longrightarrow> pp_id r \<in> pp_id ` set (filter P (children i d)) \<longleftrightarrow> pp_post r = i \<and> P r"
proof -
  have k: "distinct (map pp_id (db_pps d))" using assms by (simp add: rows_fresh_def)
  show "set (filter P (children i d)) \<subseteq> set (db_pps d)" by (auto simp: children_def)
  show "distinct (map pp_id (filter P (children i d)))" using k by (simp add: children_def distinct_map_filter)
  show "pp_id r \<in> pp_id ` set (filter P (children i d)) \<longleftrightarrow> pp_post r = i \<and> P r" if "r \<in> set (db_pps d)"
    using distinct_key_eq [OF k _ that] that by (auto simp: children_def)
qed

lemma moved_children_rows:
  assumes "rows_fresh d"
  shows "db_pps (fold (transition_child now t b) (filter P (children i d)) d) =
    tbl_update (\<lambda>r. pp_post r = i \<and> P r) (moved now t b) (db_pps d)"
proof -
  have "distinct (map pp_id (db_pps d))" using assms by (simp add: rows_fresh_def)
  then have "db_pps (fold (transition_child now t b) (filter P (children i d)) d) =
      tbl_update (\<lambda>r. pp_id r \<in> pp_id ` set (filter P (children i d))) (moved now t b) (db_pps d)"
    by (rule transition_children_rows [OF filter_children_rows(1,2) [OF assms]])
  also have "\<dots> = tbl_update (\<lambda>r. pp_post r = i \<and> P r) (moved now t b) (db_pps d)"
    by (rule tbl_update_cong) (simp only: filter_children_rows(3) [OF assms])
  finally show ?thesis .
qed

text \<open>Scheduling reaches every status but the two of a review and the published one.\<close>

definition UNMOVED :: "pp_state list" where
  "UNMOVED = [PENDING_REVIEW, PENDING_CLIENT, PUBLISHED]"

lemma moved_scheduled:
  "pp_status (moved now SCHEDULED True r) = (if pp_status r \<in> set UNMOVED then pp_status r else SCHEDULED)"
  by (cases "pp_status r")
    (auto simp: moved_def move_via_draft_def can_transition_to_def transition_to_def UNMOVED_def Let_def)

lemma moved_scheduled_fresh:
  assumes "pp_status r \<notin> set UNMOVED" "pp_status r \<noteq> SCHEDULED"
  shows "pp_handle (moved now SCHEDULED True r) = [] \<and> pp_retry_count (moved now SCHEDULED True r) = 0"
  using assms by (cases "pp_status r")
    (auto simp: moved_def move_via_draft_def can_transition_to_def transition_to_def UNMOVED_def Let_def)

lemma moved_place:
  "same_place r (moved now t b r) \<and> pp_scheduled_at (moved now t b r) = pp_scheduled_at r"
proof (cases "pp_status r = t \<or> move_via_draft now t b r = None")
  case False
  then obtain q where q: "move_via_draft now t b r = Some q" "moved now t b r = q\<lparr>pp_updated_at := now\<rparr>"
    by (auto simp: moved_def)
  have "\<exists>x. transition_to now r x = Inr q \<or> (\<exists>y. transition_to now r x = Inr y \<and> transition_to now y t = Inr q)"
    using q(1) by (auto simp: move_via_draft_def split: if_splits sum.splits)
  then show ?thesis using q(2) by (auto simp: same_place_def dest!: transition_to_keeps)
qed (auto simp: moved_def same_place_def)

lemma moved_to_review: "pp_status r = APPROVED \<Longrightarrow> pp_status (moved now PENDING_REVIEW False r) = PENDING_REVIEW"
  by (simp add: moved_def move_via_draft_def can_transition_to_def transition_to_def)

section \<open>What the synchronisation carries over\<close>

definition same_core :: "platform_post \<Rightarrow> platform_post \<Rightarrow> bool" where
  "same_core p q \<longleftrightarrow>
    same_place p q \<and> pp_status q = pp_status p \<and> pp_handle q = pp_handle p \<and> pp_scheduled_at q = pp_scheduled_at p
    \<and> pp_retry_count q = pp_retry_count p"

definition carries :: "db \<Rightarrow> db \<Rightarrow> bool" where
  "carries d d' \<longleftrightarrow> (\<forall>p \<in> set (db_pps d). \<exists>q \<in> set (db_pps d'). same_core p q) \<and> (rows_fresh d \<longrightarrow> rows_fresh d')"

lemma same_core_trans: "same_core p q \<Longrightarrow> same_core q r \<Longrightarrow> same_core p r"
  by (simp add: same_core_def same_place_def)

lemma same_core_refl: "same_core p p"
  by (simp add: same_core_def same_place_def)

interpretation ca: db_preorder carries
proof
  show "carries d d" for d by (auto simp: carries_def intro: same_core_refl)
  show "carries d d2" if "carries d d1" "carries d1 d2" for d d1 d2
    using that unfolding carries_def by (meson same_core_trans)
qed

lemma sync_child_carries:
  assumes "rows_fresh d" "s \<noteq> PUBLISHED"
  shows "carries d (sync_child now rq w po s acc d)"
proof -
  have fresh: "rows_fresh (sync_child now rq w po s acc d)"
    using tidy_fresh [OF sync_child_tidy [OF assms refl] assms(1)] .
  have "\<forall>p \<in> set (db_pps d). \<exists>q \<in> set (db_pps (sync_child now rq w po s acc d)). same_core p q"
  proof (cases "parse_uuid acc")
    case (Some a)
    show ?thesis
    proof (cases "workspace_account w a d")
      case x: (Some x)
      obtain p d1 where g: "get_or_create_child now po a s d = (p, d1)" by fastforce
      define q where "q = fill_child now rq acc (sa_platform x) (attached_types po d1) p"
      have sub: "set (db_pps d) \<subseteq> set (db_pps d1)" and p: "p \<in> set (db_pps d1)" using g
        by (auto simp: get_or_create_child_def fresh_id_def child_on_def Let_def dest: tbl_first_Some split: option.splits)
      have q: "same_core p q" by (simp add: q_def fill_child_def same_core_def same_place_def)
      have f: "distinct (map pp_id (db_pps d1))"
        using rows_fresh_get_or_create [OF g assms(1)] by (simp add: rows_fresh_def)
      have "\<exists>y \<in> set (db_pps (save_pp q d1)). same_core r y" if r: "r \<in> set (db_pps d1)" for r
      proof (cases "pp_id r = pp_id p")
        case True
        have "r = p" using distinct_key_eq [OF f r p True] .
        moreover have "q \<in> set (db_pps (save_pp q d1))" using p q
          by (force simp: save_pp_def tbl_save_def set_tbl_update same_core_def same_place_def)
        ultimately show ?thesis using q by blast
      next
        case False
        then have "r \<in> set (db_pps (save_pp q d1))" using r q
          by (force simp: save_pp_def tbl_save_def set_tbl_update same_core_def same_place_def)
        then show ?thesis using same_core_refl by blast
      qed
      moreover have "sync_child now rq w po s acc d = save_pp q d1"
        by (simp add: sync_child_def Some x g q_def)
      ultimately show ?thesis using sub by (metis subsetD)
    qed (auto simp: sync_child_def Some intro: same_core_refl)
  qed (auto simp: sync_child_def intro: same_core_refl)
  then show ?thesis using fresh by (simp add: carries_def)
qed

lemma sync_carries:
  assumes "sync_platform_posts now rq w po s d = Some d'" "account_scope rq = Some sc" "rows_fresh d" "s \<noteq> PUBLISHED"
    and "p \<in> set (db_pps d)" "\<not> is_deselected rq sc po p"
  shows "\<exists>q \<in> set (db_pps d'). same_core p q"
proof -
  define d1 where "d1 = delete_pps (is_deselected rq sc po) d"
  have d': "d' = fold (sync_child now rq w po s) (selected_accounts rq) d1"
    using assms(1,2) by (simp add: sync_platform_posts_def remove_deselected_platform_posts_def d1_def)
  have "remove_deselected_platform_posts rq po d = Some d1"
    using assms(2) by (simp add: remove_deselected_platform_posts_def d1_def)
  from tidy_fresh [OF delete_tidy [OF this] assms(3)] have f: "rows_fresh d1" .
  have "carries d1 d'" unfolding d'
  proof (rule ca.fold_stable [where P = "\<lambda>_ x. rows_fresh x"])
    show "carries x (sync_child now rq w po s acc x)" if "rows_fresh x" for acc x
      by (rule sync_child_carries [OF that assms(4)])
    show "rows_fresh y" if "rows_fresh x" "carries x y" for x y
      using that by (simp add: carries_def)
  qed (rule f)
  moreover have "p \<in> set (db_pps d1)" using assms(5,6) by (simp add: d1_def delete_pps_def Let_def tbl_delete_def)
  ultimately show ?thesis by (simp add: carries_def)
qed

section \<open>The final status of a channel\<close>

definition edited :: "saving \<Rightarrow> bool" where
  "edited s \<longleftrightarrow> (case sv_orig s of None \<Rightarrow> False | Some c \<Rightarrow> base_content_snapshot (sv_post s) \<noteq> c)"

definition final_status :: "bool \<Rightarrow> bool \<Rightarrow> pp_state \<Rightarrow> pp_state" where
  \<comment> \<open>the flags: the content was edited; the save commits this channel to a time\<close>
  "final_status edit commit st =
    (if edit \<and> st = APPROVED then PENDING_REVIEW
     else if commit \<and> st \<notin> set UNMOVED then SCHEDULED else st)"

lemma propagate_row:
  assumes "p \<in> set (db_pps d)"
  shows "\<exists>q \<in> set (db_pps (propagate_schedule sc i t d)). same_place p q \<and> pp_status q = pp_status p \<and>
    pp_handle q = pp_handle p \<and> pp_retry_count q = pp_retry_count p \<and>
    (pp_status p \<in> set PROTECTED_STATUSES \<longrightarrow> pp_scheduled_at q = pp_scheduled_at p)"
proof -
  define q where "q = (if pp_post p = i \<and> pp_status p \<notin> set PROTECTED_STATUSES \<and> in_scope sc p
      then p\<lparr>pp_scheduled_at := Some t\<rparr> else p)"
  have "q \<in> set (db_pps (propagate_schedule sc i t d))"
    unfolding propagate_schedule_def update_pps_def q_def using assms by (simp add: set_tbl_update)
  moreover have "same_place p q \<and> pp_status q = pp_status p \<and>
    pp_handle q = pp_handle p \<and> pp_retry_count q = pp_retry_count p \<and>
    (pp_status p \<in> set PROTECTED_STATUSES \<longrightarrow> pp_scheduled_at q = pp_scheduled_at p)"
    by (simp add: q_def same_place_def)
  ultimately show ?thesis by (intro bexI [of _ q])
qed

text \<open>A move reaches the rows of the post that the list of keys names.\<close>

lemma transition_post_children_row:
  assumes "rows_fresh d" "p \<in> set (db_pps d)" "pp_post p = i"
  shows "(if (case only of None \<Rightarrow> True | Some ids \<Rightarrow> pp_id p \<in> set ids) then moved now t b p else p)
    \<in> set (db_pps (transition_post_children now i t b only d))"
  using moved_children_rows [OF assms(1), of now t b "\<lambda>p. case only of None \<Rightarrow> True | Some ids \<Rightarrow> pp_id p \<in> set ids" i]
    assms(2,3) by (auto simp: transition_post_children_def set_tbl_update)

lemma revert_row:
  assumes "rows_fresh d" "p \<in> set (db_pps d)" "pp_post p = i"
  shows "(if pp_status p = APPROVED then moved now PENDING_REVIEW False p else p)
      \<in> set (db_pps (snd (revert_approved_to_review now i d)))"
    and "pp_id p \<in> set (fst (revert_approved_to_review now i d)) \<longleftrightarrow> pp_status p = APPROVED"
proof -
  show "(if pp_status p = APPROVED then moved now PENDING_REVIEW False p else p)
      \<in> set (db_pps (snd (revert_approved_to_review now i d)))"
    using moved_children_rows [OF assms(1), of now PENDING_REVIEW False "\<lambda>p. pp_status p = APPROVED" i]
      assms(2,3) by (auto simp: revert_approved_to_review_def approved_children_def set_tbl_update)
  show "pp_id p \<in> set (fst (revert_approved_to_review now i d)) \<longleftrightarrow> pp_status p = APPROVED"
    using filter_children_rows(3) [OF assms(1,2), of "\<lambda>p. pp_status p = APPROVED" i] assms(3)
    by (simp add: revert_approved_to_review_def approved_children_def)
qed

lemma target_only_row:
  assumes "rows_fresh d" "p \<in> set (db_pps d)" "pp_post p = i"
  shows "(case target_only sc i ks d of None \<Rightarrow> True | Some ids \<Rightarrow> pp_id p \<in> set ids) \<longleftrightarrow> in_scope sc p \<and> pp_id p \<notin> set ks"
proof -
  have a: "pp_id p \<in> pp_id ` set (children i d)" using assms(2,3) by (auto simp: children_def)
  have b: "pp_id p \<in> pp_id ` set (filter (\<lambda>p. pp_account p = acc) (children i d)) \<longleftrightarrow> pp_account p = acc" for acc
    using filter_children_rows(3) [OF assms(1,2), of "\<lambda>p. pp_account p = acc" i] assms(3) by simp
  show ?thesis
    using a b by (cases sc) (auto simp: target_only_def scoped_platform_post_ids_def in_scope_def)
qed

lemma settle_row:
  assumes fresh: "rows_fresh d" and p: "p \<in> set (db_pps d)" "pp_post p = sv_id s"
  shows "\<exists>q \<in> set (db_pps (settle_children now sc s at d)). same_place p q \<and>
    pp_status q = final_status (edited s) (at \<noteq> None \<and> in_scope sc p) (pp_status p) \<and>
    (pp_status p = PUBLISHING \<longrightarrow> pp_scheduled_at q = pp_scheduled_at p \<and>
      (at \<noteq> None \<and> in_scope sc p \<longrightarrow> pp_handle q = [] \<and> pp_retry_count q = 0))"
proof -
  let ?i = "sv_id s"
  define d1 where "d1 = (case at of None \<Rightarrow> d | Some t \<Rightarrow> propagate_schedule sc ?i t d)"
  have f1: "rows_fresh d1" using fresh tidy_fresh [OF propagate_tidy] by (simp add: d1_def split: option.split)
  obtain q where q: "q \<in> set (db_pps d1)" "same_place p q" "pp_status q = pp_status p" "pp_handle q = pp_handle p"
      "pp_status p \<in> set PROTECTED_STATUSES \<longrightarrow> pp_scheduled_at q = pp_scheduled_at p"
  proof (cases at)
    case None
    then show thesis using that [of p] p by (simp add: d1_def same_place_def)
  next
    case (Some t)
    then show thesis using propagate_row [OF p(1), of sc ?i t] that unfolding d1_def by auto
  qed
  have qi: "pp_post q = ?i" and sc: "in_scope sc q = in_scope sc p"
    using q(2) p(2) by (simp_all add: same_place_def in_scope_def split: option.split)
  obtain ks d2 where r: "(if edited s then revert_approved_to_review now ?i d1 else ([], d1)) = (ks, d2)" by fastforce
  define r2 where "r2 = (if edited s \<and> pp_status q = APPROVED then moved now PENDING_REVIEW False q else q)"
  have r2: "r2 \<in> set (db_pps d2)" "pp_id q \<in> set ks \<longleftrightarrow> edited s \<and> pp_status q = APPROVED" "rows_fresh d2"
    using r q(1) f1 revert_row [OF f1 q(1) qi, of now] tidy_fresh [OF revert_tidy [OF f1] f1, of now ?i]
    by (auto simp: r2_def split: if_splits)
  have r2': "same_place q r2" "pp_status r2 = (if edited s \<and> pp_status q = APPROVED then PENDING_REVIEW else pp_status q)"
    "pp_scheduled_at r2 = pp_scheduled_at q"
    using moved_place [of q now PENDING_REVIEW False] moved_to_review [of q now]
    by (auto simp: r2_def same_place_def)
  have i2: "pp_post r2 = ?i" using r2'(1) qi by (simp add: same_place_def)
  have eq: "settle_children now sc s at d = (if at = None then d2
      else transition_post_children now ?i SCHEDULED True (target_only sc ?i ks d2) d2)"
    unfolding settle_children_def Let_def edited_def [symmetric] d1_def [symmetric] r by simp
  define r3 where "r3 = (if at \<noteq> None \<and> in_scope sc p \<and> \<not> (edited s \<and> pp_status p = APPROVED)
      then moved now SCHEDULED True r2 else r2)"
  have "in_scope sc r2 = in_scope sc p" "pp_id r2 = pp_id q"
    using r2'(1) sc by (simp_all add: same_place_def in_scope_def split: option.splits)
  then have r3: "r3 \<in> set (db_pps (settle_children now sc s at d))"
    using transition_post_children_row [OF r2(3,1) i2, where only = "target_only sc ?i ks d2" and now = now and t = SCHEDULED and b = True]
      target_only_row [OF r2(3,1) i2, of sc ks] r2(1,2) q(3) unfolding eq r3_def by (auto split: if_splits)
  have "same_place p r3" using q(2) r2'(1) moved_place [of r2 now SCHEDULED True] by (simp add: r3_def same_place_def)
  moreover have "pp_status r3 = final_status (edited s) (at \<noteq> None \<and> in_scope sc p) (pp_status p)"
    using r2'(2) q(3) by (auto simp: r3_def final_status_def moved_scheduled UNMOVED_def)
  moreover have "pp_status p = PUBLISHING \<longrightarrow> pp_scheduled_at r3 = pp_scheduled_at p \<and>
      (at \<noteq> None \<and> in_scope sc p \<longrightarrow> pp_handle r3 = [] \<and> pp_retry_count r3 = 0)"
    using r2'(2,3) q(3,5) moved_place [of r2 now SCHEDULED True] moved_scheduled_fresh [of r2 now]
    by (auto simp: r3_def UNMOVED_def PROTECTED_STATUSES_def)
  ultimately show ?thesis using r3 by blast
qed

section \<open>Properties\<close>

definition LEAVING_ACTIONS :: "string list" where
  \<comment> \<open>the actions whose branch answers before the common tail\<close>
  "LEAVING_ACTIONS = [''add_to_queue'', ''add_to_queue_priority'', ''submit_for_approval'', ''resubmit_for_approval'']"

definition still :: "db \<Rightarrow> db \<Rightarrow> bool" where
  "still d d' \<longleftrightarrow> db_pps d' = db_pps d \<and> db_accounts d' = db_accounts d \<and> db_next d \<le> db_next d'"

interpretation st: db_preorder still
  by unfold_locales (auto simp: still_def)

lemma still_writes:
  "still d (store_post now saved p d)" "still d (attach_pending rq i w d)" "still d (sync_tags_to_model w ns d)"
  "store_rule i v d = Some d' \<Longrightarrow> still d d'"
proof -
  show "still d (attach_pending rq i w d)" unfolding attach_pending_def
    by (rule st.fold_closed) (simp add: still_def attach_one_def split: option.split)
qed (auto simp: still_def store_post_def save_post_def sync_tags_to_model_def store_rule_def split: prod.splits if_splits)

lemma save_in_place_Done:
  assumes "save_in_place now rq action s at d = (Done k, d')"
  obtains sc d4 d5 where "account_scope rq = Some sc" "still d d4" "k = sv_id s"
    "sync_platform_posts now rq (ws_id (sv_ws s)) (sv_id s) (if at = None then DRAFT else SCHEDULED) d4 = Some d5"
    "db_pps d' = db_pps (settle_children now sc s at d5)"
proof -
  define d1 where "d1 = store_post now (sv_saved s) (sv_post s) d"
  define d2 where "d2 = (if sv_saved s then d1 else attach_pending rq (sv_id s) (ws_id (sv_ws s)) d1)"
  define d3 where "d3 = sync_tags_to_model (ws_id (sv_ws s)) (tag_names (sv_post s)) d2"
  define r where "r = (if wants_recurrence rq action (sv_post s) then store_rule (sv_id s) (recurrence_values rq) d3 else Some d3)"
  have body: "save_in_place now rq action s at d = (case r of None \<Rightarrow> (ServerError, d3)
     | Some d4 \<Rightarrow>
        (case (account_scope rq, sync_platform_posts now rq (ws_id (sv_ws s)) (sv_id s) (if at = None then DRAFT else SCHEDULED) d4) of
           (Some sc, Some d5) \<Rightarrow> (Done (sv_id s), save_version (sv_id s) (sv_user s) (settle_children now sc s at d5))
         | _ \<Rightarrow> (BadRequest ''Malformed account_scope.'', d4)))"
    by (simp only: save_in_place_def Let_def d1_def d2_def d3_def r_def)
  have "still d d1" unfolding d1_def by (rule still_writes)
  then have "still d d2" unfolding d2_def using st.transR still_writes(2) by auto
  then have "still d d3" unfolding d3_def by (rule st.transR [OF _ still_writes(3)])
  then have "still d d4" if "r = Some d4" for d4
    using that st.transR still_writes(4) unfolding r_def by (auto split: if_splits)
  moreover have "db_pps (save_version i u x) = db_pps x" for i u x by (simp add: save_version_def split: option.split)
  ultimately show thesis using assms that unfolding body by (auto split: option.splits)
qed

lemma enter_not_Done: "enter rq w perm d = Inl r \<Longrightarrow> r \<noteq> Done k"
  by (auto simp: enter_def resolve_membership_def member_workspace_def split: option.splits sum.splits if_splits)

lemma load_post_not_Done: "load_post now rq w post_id form d = Inl r \<Longrightarrow> r \<noteq> Done k"
  by (auto simp: load_post_def dest: enter_not_Done split: option.splits sum.splits if_splits)

lemma save_view_Done:
  assumes "save_post_view zones now rq w post_id form d = (Done k, d')"
  obtains s f where "load_post now rq w post_id form d = Inr s" "form = Some f"
      "take_action zones now rq f (post_get ''action'' ''save_draft'' rq) s d = (Done k, d')"
      "validate_required_media rq (sv_key s) w (post_get ''action'' ''save_draft'' rq) d = None"
proof -
  have v: "validate_pinterest_board_selection rq po w d \<noteq> Some (Done k)"
    "validate_required_media rq po w action d \<noteq> Some (Done k)" for po action
    by (auto simp: validate_pinterest_board_selection_def validate_required_media_def Let_def split: list.splits)
  obtain s where s: "load_post now rq w post_id form d = Inr s"
    using assms load_post_not_Done by (cases "load_post now rq w post_id form d") (auto simp: save_post_view_def)
  obtain f where f: "form = Some f" using load_post_Inr(7) [OF s] by blast
  show thesis using assms v s f that by (auto simp: save_post_view_def Let_def split: option.splits)
qed

lemma capture_keeps:
  "base_content_snapshot (capture_proposed_publish_at zones po b ws f cl d) = base_content_snapshot po"
  "po_id (capture_proposed_publish_at zones po b ws f cl d) = po_id po"
  by (simp_all add: capture_proposed_publish_at_def Let_def base_content_snapshot_def)

lemma take_action_in_place:
  assumes "take_action zones now rq f action s d = (Done k, d')" "action \<notin> set LEAVING_ACTIONS"
  obtains s' at where "save_in_place now rq action s' at d = (Done k, d')" "sv_id s' = sv_id s" "sv_ws s' = sv_ws s"
    "edited s' = edited s" "at \<noteq> None \<longleftrightarrow> action \<in> set [''schedule'', ''publish_now'']"
proof -
  define s1 where "s1 u = s\<lparr>sv_post := sv_post s\<lparr>po_scheduled_at := Some u, po_proposed_at := None\<rparr>\<rparr>" for u
  define s2 where "s2 = (if action = ''save_draft''
        then s\<lparr>sv_post := capture_proposed_publish_at zones (sv_post s) (sv_saved s) (sv_ws s) f True d\<rparr> else s)"
  have 1: "sv_id (s1 u) = sv_id s \<and> sv_ws (s1 u) = sv_ws s \<and> edited (s1 u) = edited s" for u
    by (cases "sv_orig s") (simp_all add: s1_def sv_id_def edited_def base_content_snapshot_def)
  have 2: "sv_id s2 = sv_id s \<and> sv_ws s2 = sv_ws s \<and> edited s2 = edited s"
    by (cases "sv_orig s") (simp_all add: s2_def sv_id_def edited_def capture_keeps)
  consider (sched) u where "action = ''schedule''" "save_in_place now rq action (s1 u) (Some u) d = (Done k, d')"
    | (now) "action = ''publish_now''" "save_in_place now rq action (s1 now) (Some now) d = (Done k, d')"
    | (other) "action \<notin> set [''schedule'', ''publish_now'']" "save_in_place now rq action s2 None d = (Done k, d')"
    using assms unfolding take_action_def s1_def s2_def LEAVING_ACTIONS_def
    by (auto split: if_splits option.splits)
  then show thesis
  proof cases
    case sched
    show thesis by (rule that [OF sched(2)]) (use 1 sched(1) in simp_all)
  next
    case now
    show thesis by (rule that [OF now(2)]) (use 1 now(1) in simp_all)
  next
    case other
    show thesis by (rule that [OF other(2)]) (use 2 other(1) in simp_all)
  qed
qed

lemma saved_channel_core:
  assumes "rows_fresh d" and "save_post_view zones now rq w (Some i) (Some f) d = (Done k, d')"
    and "post_get ''action'' ''save_draft'' rq \<notin> set LEAVING_ACTIONS"
    and "workspace_post i w d = Some po" and "account_scope rq = Some sc"
    and "p \<in> set (children i d)" and "\<not> is_deselected rq sc i p"
  shows "\<exists>q \<in> set (children i d'). same_place p q \<and>
    pp_status q = final_status (base_content_snapshot (apply_form f po) \<noteq> base_content_snapshot po)
      (post_get ''action'' ''save_draft'' rq \<in> set [''schedule'', ''publish_now''] \<and> in_scope sc p) (pp_status p) \<and>
    (pp_status p = PUBLISHING \<longrightarrow> pp_scheduled_at q = pp_scheduled_at p \<and>
      (pp_status q = SCHEDULED \<longrightarrow> pp_handle q = [] \<and> pp_retry_count q = 0))"
proof -
  let ?act = "post_get ''action'' ''save_draft'' rq"
  obtain s where s: "load_post now rq w (Some i) (Some f) d = Inr s" "take_action zones now rq f ?act s d = (Done k, d')"
    by (rule save_view_Done [OF assms(2)]) simp
  note L = load_post_Inr [OF s(1)]
  obtain s' at where s': "save_in_place now rq ?act s' at d = (Done k, d')" "sv_id s' = sv_id s" "sv_ws s' = sv_ws s"
    "edited s' = edited s" "at \<noteq> None \<longleftrightarrow> ?act \<in> set [''schedule'', ''publish_now'']"
    by (rule take_action_in_place [OF s(2) assms(3)])
  have id: "sv_id s' = i" "ws_id (sv_ws s') = w" using s'(2,3) L(4,6) by simp_all
  have ed: "edited s' \<longleftrightarrow> base_content_snapshot (apply_form f po) \<noteq> base_content_snapshot po"
    using L(8) [OF refl] assms(4) s'(4) by (auto simp: edited_def)
  obtain sc' d4 d5 where d: "account_scope rq = Some sc'" "still d d4" "k = sv_id s'"
    "sync_platform_posts now rq (ws_id (sv_ws s')) (sv_id s') (if at = None then DRAFT else SCHEDULED) d4 = Some d5"
    "db_pps d' = db_pps (settle_children now sc' s' at d5)"
    by (rule save_in_place_Done [OF s'(1)])
  have sc: "sc' = sc" using d(1) assms(5) by simp
  have f4: "rows_fresh d4" using d(2) assms(1) by (auto simp: still_def rows_fresh_def intro: order_less_le_trans)
  have p4: "p \<in> set (db_pps d4)" and pi: "pp_post p = i" using assms(6) d(2) by (auto simp: children_def still_def)
  have ns: "(if at = None then DRAFT else SCHEDULED) \<noteq> PUBLISHED" by simp
  obtain q where q: "q \<in> set (db_pps d5)" "same_core p q"
    using sync_carries [OF d(4) assms(5) f4 ns p4] assms(7) id by auto
  have f5: "rows_fresh d5" by (rule tidy_fresh [OF sync_tidy [OF d(4) f4 ns] f4])
  have qi: "pp_post q = sv_id s'" using q(2) pi id by (simp add: same_core_def same_place_def)
  obtain r where r: "r \<in> set (db_pps d')" "same_place q r"
    "pp_status r = final_status (edited s') (at \<noteq> None \<and> in_scope sc q) (pp_status q)"
    "pp_status q = PUBLISHING \<longrightarrow> pp_scheduled_at r = pp_scheduled_at q \<and>
      (at \<noteq> None \<and> in_scope sc q \<longrightarrow> pp_handle r = [] \<and> pp_retry_count r = 0)"
    using settle_row [OF f5 q(1) qi, of now sc at] unfolding d(5) sc by blast
  have scq: "in_scope sc q = in_scope sc p" using q(2) by (simp add: same_core_def same_place_def in_scope_def split: option.split)
  have ri: "r \<in> set (children i d')" using r(1,2) qi id by (simp add: children_def same_place_def)
  have place: "same_place p r" using r(2) q(2) by (simp add: same_core_def same_place_def)
  have status: "pp_status r = final_status (base_content_snapshot (apply_form f po) \<noteq> base_content_snapshot po)
      (?act \<in> set [''schedule'', ''publish_now''] \<and> in_scope sc p) (pp_status p)"
    using r(3) q(2) scq ed s'(5) by (simp add: same_core_def)
  have pub: "pp_status p = PUBLISHING \<longrightarrow> pp_scheduled_at r = pp_scheduled_at p \<and>
      (pp_status r = SCHEDULED \<longrightarrow> pp_handle r = [] \<and> pp_retry_count r = 0)"
    using r(3,4) q(2) scq by (auto simp: same_core_def final_status_def UNMOVED_def split: if_splits)
  show ?thesis using ri place status pub by blast
qed

text \<open>
  C10. What a successful save of an existing post does to a channel the form keeps, under an action that
  neither queues the post nor hands it to reviewers (a plain save, a draft, scheduling, publishing now).
  The channel is afterwards in one status only: an approved one whose post's content was edited is back
  in review; a channel in scope of an action that schedules is scheduled unless it waits for a decision
  or is published; any other keeps its status. A channel that was being published and is scheduled so
  keeps its due time and loses the handle of the attempt under way. New posts, channels the form
  deselects or adds, and the other actions are outside it.
\<close>

theorem saved_channel_status:
  assumes "rows_fresh d" and "save_post_view zones now rq w (Some i) (Some f) d = (Done k, d')"
    and "post_get ''action'' ''save_draft'' rq \<notin> set LEAVING_ACTIONS"
    and "workspace_post i w d = Some po" and "account_scope rq = Some sc"
    and "p \<in> set (children i d)" and "\<not> is_deselected rq sc i p"
  shows "\<exists>q \<in> set (children i d'). same_place p q \<and>
    pp_status q = final_status (base_content_snapshot (apply_form f po) \<noteq> base_content_snapshot po)
      (post_get ''action'' ''save_draft'' rq \<in> set [''schedule'', ''publish_now''] \<and> in_scope sc p) (pp_status p) \<and>
    (pp_status p = PUBLISHING \<longrightarrow> pp_scheduled_at q = pp_scheduled_at p \<and>
      (pp_status q = SCHEDULED \<longrightarrow> pp_handle q = [] \<and> pp_retry_count q = 0))"
  by (rule saved_channel_core [OF assms])

text \<open>A contributor's request to schedule a post of theirs whose channel was rejected.\<close>

definition strict_ws :: workspace where
  "strict_ws = \<lparr>ws_id = 1, ws_org = 1, ws_name = ''Acme'', ws_approval_mode = ''required_internal'', ws_timezone = ''UTC''\<rparr>"

definition contributor :: ws_membership where
  "contributor = \<lparr>mb_id = 9, mb_user = 7, mb_workspace = 1, mb_role = WS_CONTRIBUTOR, mb_custom = None\<rparr>"

definition author :: user where
  "author = \<lparr>us_id = 7, us_name = ''Ann'', us_email = ''ann@example.com''\<rparr>"

definition draft_post :: post where
  "draft_post = \<lparr>po_id = 3, po_workspace = 1, po_author = Some 7, po_title = [], po_caption = ''Hello'',
     po_first_comment = [], po_internal_notes = [], po_tags = [], po_category = None, po_scheduled_at = None,
     po_published_at = None, po_proposed_at = None, po_updated_at = 0\<rparr>"

definition channel_in :: "pp_state \<Rightarrow> platform_post" where
  "channel_in st = (new_platform_post 4 3 5 0)\<lparr>pp_status := st\<rparr>"

definition composer_db :: "pp_state \<Rightarrow> db" where
  "composer_db st = empty_db\<lparr>db_workspaces := [strict_ws], db_users := [author], db_members := [contributor],
     db_accounts := [sample_account], db_posts := [draft_post], db_pps := [channel_in st]\<rparr>"

definition schedule_request :: request where
  "schedule_request = \<lparr>rq_user = Some author,
     rq_post = [(''action'', ''schedule''), (''selected_accounts'', uuid_text 5)], rq_pending = []\<rparr>"

definition plain_form :: post_form where
  "plain_form = \<lparr>fm_title = None, fm_caption = Some ''Hello'', fm_first_comment = None, fm_internal_notes = None,
     fm_tags = None, fm_category = None, fm_date = Some 20000, fm_time = Some 0\<rparr>"

definition scheduled_by :: "pp_state \<Rightarrow> response \<times> db" where
  "scheduled_by st = save_post_view (\<lambda>_. UTC) 0 schedule_request 1 (Some 3) (Some plain_form) (composer_db st)"

lemma sample_facts:
  "rows_fresh (composer_db st)" "workspace_post 3 1 (composer_db st) = Some draft_post"
  "account_scope schedule_request = Some None" "channel_in st \<in> set (children 3 (composer_db st))"
  "post_get ''action'' ''save_draft'' schedule_request = ''schedule''"
  "\<not> is_deselected schedule_request None 3 (channel_in st)"
  "base_content_snapshot (apply_form plain_form draft_post) = base_content_snapshot draft_post"
proof -
  have "parse_uuid (uuid_text 5) = Some 5" by code_simp
  have "selected_keys schedule_request = [5]" by code_simp
  then show "\<not> is_deselected schedule_request None 3 (channel_in st)"
    by (simp add: is_deselected_def channel_in_def new_platform_post_def)
  show "account_scope schedule_request = Some None" "post_get ''action'' ''save_draft'' schedule_request = ''schedule''"
    "base_content_snapshot (apply_form plain_form draft_post) = base_content_snapshot draft_post"
    "workspace_post 3 1 (composer_db st) = Some draft_post"
    by code_simp+
qed (simp_all add: rows_fresh_def composer_db_def empty_db_def channel_in_def new_platform_post_def children_def)

text \<open>
  The contributor may not publish directly and the workspace requires an internal review, which
  creating a scheduled post checks; saving with the action \<open>schedule\<close> checks neither and schedules
  the channel its reviewers rejected.
\<close>

theorem saved_channel_status_witness:
  "\<not> approval_gate_passes strict_ws \<and> \<not> has_perm ''publish_directly'' contributor \<and>
    fst (scheduled_by REJECTED) = Done 3 \<and>
    (\<exists>q \<in> set (children 3 (snd (scheduled_by REJECTED))). pp_id q = 4 \<and> pp_status q = SCHEDULED)"
proof -
  have fin: "fst (scheduled_by REJECTED) = Done 3" by code_simp
  have act: "post_get ''action'' ''save_draft'' schedule_request \<notin> set LEAVING_ACTIONS"
    unfolding sample_facts(5) by (simp add: LEAVING_ACTIONS_def)
  have run: "save_post_view (\<lambda>_. UTC) 0 schedule_request 1 (Some 3) (Some plain_form) (composer_db REJECTED)
      = (Done 3, snd (scheduled_by REJECTED))"
    using fin unfolding scheduled_by_def by (metis prod.collapse)
  have "\<exists>q \<in> set (children 3 (snd (scheduled_by REJECTED))). same_place (channel_in REJECTED) q \<and> pp_status q = SCHEDULED"
    using saved_channel_status [OF sample_facts(1) run act sample_facts(2,3,4,6)]
    unfolding sample_facts(5,7) by (auto simp: final_status_def UNMOVED_def in_scope_def channel_in_def)
  then have "\<exists>q \<in> set (children 3 (snd (scheduled_by REJECTED))). pp_id q = 4 \<and> pp_status q = SCHEDULED"
    by (auto simp: same_place_def channel_in_def new_platform_post_def)
  moreover have "\<not> approval_gate_passes strict_ws" "\<not> has_perm ''publish_directly'' contributor" by code_simp+
  ultimately show ?thesis using fin by blast
qed

theorem save_stays_within_its_post_witness:
  "within 3 (workspace_keys 1 (composer_db DRAFT)) (composer_db DRAFT) (snd (scheduled_by DRAFT))"
proof -
  have "save_post_view (\<lambda>_. UTC) 0 schedule_request 1 (Some 3) (Some plain_form) (composer_db DRAFT)
      = (fst (scheduled_by DRAFT), snd (scheduled_by DRAFT))" by (simp add: scheduled_by_def)
  from save_stays_within_its_post [OF sample_facts(1) this] show ?thesis by simp
qed

theorem save_needs_the_right_to_edit_witness:
  "\<exists>u m. rq_user schedule_request = Some u \<and> membership_of (us_id u) 1 (composer_db DRAFT) = Some m \<and>
    has_perm ''create_posts'' m"
proof -
  have "db_versions (snd (scheduled_by DRAFT)) \<noteq> []" by code_simp
  moreover have "db_versions (composer_db DRAFT) = []" by (simp add: composer_db_def empty_db_def)
  ultimately have ne: "snd (scheduled_by DRAFT) \<noteq> composer_db DRAFT" by metis
  have "save_post_view (\<lambda>_. UTC) 0 schedule_request 1 (Some 3) (Some plain_form) (composer_db DRAFT)
      = (fst (scheduled_by DRAFT), snd (scheduled_by DRAFT))" by (simp add: scheduled_by_def)
  from save_needs_the_right_to_edit [OF this ne] show ?thesis by blast
qed

end
