(* ===== verification/Calendar_Safety.thy ===== *)
theory Calendar_Safety
  imports Calendar_Views Save_Effects
begin

text \<open>
  What the calendar views do to the rows of the publisher: which rows a drag or a bulk action may touch and
  how, how a bulk publish spaces a channel, and four ways in which they go wrong.
\<close>

section \<open>Saving many rows\<close>

lemma get_pp_bulk_save_other: "j \<notin> pp_id ` set qs \<Longrightarrow> get_pp j (bulk_save now qs d) = get_pp j d"
  unfolding bulk_save_def
  by (induction qs arbitrary: d) (auto simp: get_pp_save_transition split: option.split)

lemma get_pp_bulk_save:
  assumes "distinct (map pp_id qs)" and "q \<in> set qs" and "get_pp (pp_id q) d = Some r"
  shows "\<exists>r'. get_pp (pp_id q) (bulk_save now qs d) = Some r' \<and> pp_status r' = pp_status q \<and>
    pp_scheduled_at r' = pp_scheduled_at q \<and> pp_post r' = pp_post r \<and> pp_account r' = pp_account r"
  using assms
proof (induction qs arbitrary: d r)
  case Nil
  then show ?case by simp
next
  case (Cons q0 qs)
  define d1 where "d1 = save_transition q0 True now d"
  have b: "bulk_save now (q0 # qs) d = bulk_save now qs d1" by (simp add: bulk_save_def d1_def)
  show ?case
  proof (cases "q = q0")
    case True
    then have "pp_id q \<notin> pp_id ` set qs" using Cons.prems(1) by simp
    then have "get_pp (pp_id q) (bulk_save now (q0 # qs) d) = get_pp (pp_id q) d1"
      unfolding b by (rule get_pp_bulk_save_other)
    then show ?thesis using Cons.prems(3) True by (simp add: d1_def get_pp_save_transition)
  next
    case False
    then have q: "q \<in> set qs" using Cons.prems(2) by simp
    have "pp_id q \<noteq> pp_id q0" using Cons.prems(1) q by (metis distinct.simps(2) image_eqI list.simps(9) set_map)
    then have "get_pp (pp_id q) d1 = Some r" using Cons.prems(3) by (simp add: d1_def get_pp_save_transition)
    then show ?thesis unfolding b using Cons.IH [OF _ q] Cons.prems(1) by simp
  qed
qed

lemma get_pp_delete_pps: "get_pp j (delete_pps P d) = find (\<lambda>p. pp_id p = j) (filter (\<lambda>p. \<not> P p) (db_pps d))"
  by (simp add: get_pp_def tbl_get_def delete_pps_def tbl_delete_def Let_def)

lemma pps_move_entries [frame_simps]: "db_pps (move_entries i a t d) = db_pps d"
  by (simp add: move_entries_def)

lemma pps_drop_entries [frame_simps]: "db_pps (drop_entries i a d) = db_pps d"
  by (simp add: drop_entries_def)

lemma pps_sync_entries [frame_simps]: "db_pps (sync_queue_entries touched d) = db_pps d"
proof -
  have m: "db_pps (fold (\<lambda>(t, p). move_entries (pp_post p) (pp_account p) t) ms e) = db_pps e" for ms :: "(instant \<times> platform_post) list" and e
    by (induction ms arbitrary: e) (auto simp: frame_simps)
  have "db_pps (fold (\<lambda>p. drop_entries (pp_post p) (pp_account p)) ps e) = db_pps e" for ps :: "platform_post list" and e
    by (induction ps arbitrary: e) (auto simp: frame_simps)
  then show ?thesis by (simp add: sync_queue_entries_def Let_def m)
qed

lemma pps_reconcile: "db_pps (reconcile_parents now w keys d) = db_pps d"
proof -
  have one: "db_pps (reconcile_parent now i e) = db_pps e" for i e
  proof (cases "children i e = []")
    case True
    then have "\<forall>p \<in> set (db_pps e). pp_post p \<noteq> i" by (auto simp: children_def filter_empty_conv)
    then show ?thesis using True
      by (simp add: reconcile_parent_def delete_post_def delete_pps_def tbl_delete_def Let_def)
  qed (simp add: reconcile_parent_def frame_simps)
  have "db_pps (fold (reconcile_parent now) is e) = db_pps e" for "is" e
    by (induction "is" arbitrary: e) (simp_all add: one)
  then show ?thesis by (simp add: reconcile_parents_def)
qed

lemma get_pp_cong: "db_pps d = db_pps e \<Longrightarrow> get_pp j d = get_pp j e"
  by (simp add: get_pp_def)

section \<open>Rows the actions make\<close>

lemma shed_fields: "pp_id (shed_attempt p) = pp_id p" "pp_status (shed_attempt p) = pp_status p"
    "pp_scheduled_at (shed_attempt p) = pp_scheduled_at p" "pp_post (shed_attempt p) = pp_post p"
    "pp_account (shed_attempt p) = pp_account p"
  by (simp_all add: shed_attempt_def)

lemma transition_fields:
  assumes "transition_to now p s = Inr q"
  shows "pp_id q = pp_id p" "pp_status q = s" "pp_scheduled_at q = pp_scheduled_at p" "pp_post q = pp_post p"
    "pp_account q = pp_account p" "s \<in> set (VALID_TRANSITIONS (pp_status p))"
  using assms by (auto simp: transition_to_def can_transition_to_def Let_def split: if_splits)

lemma scheduled_if_fields:
  "pp_id (scheduled_if c now p) = pp_id p" "pp_scheduled_at (scheduled_if c now p) = pp_scheduled_at p"
  "pp_post (scheduled_if c now p) = pp_post p" "pp_account (scheduled_if c now p) = pp_account p"
  by (auto simp: scheduled_if_def transition_fields split: sum.split)

lemma scheduled_if_status:
  "pp_status (scheduled_if c now p) = (if c \<and> can_transition_to p SCHEDULED then SCHEDULED else pp_status p)"
  by (simp add: scheduled_if_def transition_to_def Let_def)

lemma can_transition_status: "pp_status p = pp_status q \<Longrightarrow> can_transition_to p s = can_transition_to q s"
  by (simp add: can_transition_to_def)

lemma dropped_fields:
  "pp_id (dropped_row now t p) = pp_id p" "pp_scheduled_at (dropped_row now t p) = Some t"
  "pp_post (dropped_row now t p) = pp_post p" "pp_account (dropped_row now t p) = pp_account p"
  by (simp_all add: dropped_row_def scheduled_if_fields shed_fields)

lemma dropped_status:
  "pp_status (dropped_row now t p) = (if pp_status p \<in> set IMPLICIT_SCHEDULE_STATUSES then SCHEDULED else pp_status p)"
proof -
  have "can_transition_to (shed_attempt (p\<lparr>pp_scheduled_at := Some t\<rparr>)) SCHEDULED = can_transition_to p SCHEDULED"
    by (rule can_transition_status) (simp add: shed_fields)
  moreover have "pp_status p \<in> set IMPLICIT_SCHEDULE_STATUSES \<Longrightarrow> can_transition_to p SCHEDULED"
    by (auto simp: IMPLICIT_SCHEDULE_STATUSES_def can_transition_to_def)
  ultimately show ?thesis by (auto simp: dropped_row_def scheduled_if_status shed_fields)
qed

lemma drafted_in:
  assumes "q \<in> set (drafted now ps)"
  shows "\<exists>p \<in> set ps. pp_id q = pp_id p \<and> pp_status q = DRAFT \<and> pp_scheduled_at q = None \<and> pp_post q = pp_post p \<and>
    pp_account q = pp_account p \<and> pp_status p \<notin> set PROTECTED_STATUSES \<and> DRAFT \<in> set (VALID_TRANSITIONS (pp_status p))"
proof -
  obtain p where p: "p \<in> set ps" "pp_status p \<notin> set PROTECTED_STATUSES" "transition_to now (p\<lparr>pp_scheduled_at := None\<rparr>) DRAFT = Inr q"
    using assms by (auto simp: drafted_def split: if_splits sum.splits)
  show ?thesis using p(1,2) transition_fields [OF p(3)] by auto
qed

lemma staggered_in:
  assumes "q \<in> set (staggered now c ps)"
  shows "\<exists>p \<in> set ps. pp_id q = pp_id p \<and> pp_status q = SCHEDULED \<and> pp_post q = pp_post p \<and> pp_account q = pp_account p \<and>
    (pp_status p = SCHEDULED \<or> promotes_to_scheduled p)"
  using assms
proof (induction now c ps rule: staggered.induct)
  case (1 now c)
  then show ?case by simp
next
  case (2 now c p ps)
  show ?case
  proof (cases "pp_status p \<noteq> SCHEDULED \<and> \<not> promotes_to_scheduled p")
    case True
    then show ?thesis using 2 by auto
  next
    case False
    let ?x = "shed_attempt (p\<lparr>pp_scheduled_at := Some (now + seconds (60 * int (c (pp_account p))))\<rparr>)"
    have can: "can_transition_to ?x SCHEDULED = can_transition_to p SCHEDULED"
      by (rule can_transition_status) (simp add: shed_fields)
    have head: "pp_id (scheduled_if (pp_status p \<noteq> SCHEDULED) now ?x) = pp_id p \<and>
        pp_status (scheduled_if (pp_status p \<noteq> SCHEDULED) now ?x) = SCHEDULED \<and>
        pp_post (scheduled_if (pp_status p \<noteq> SCHEDULED) now ?x) = pp_post p \<and>
        pp_account (scheduled_if (pp_status p \<noteq> SCHEDULED) now ?x) = pp_account p"
      using False can by (auto simp: scheduled_if_fields scheduled_if_status shed_fields promotes_to_scheduled_def)
    have "q = scheduled_if (pp_status p \<noteq> SCHEDULED) now ?x \<or>
        q \<in> set (staggered now (c(pp_account p := Suc (c (pp_account p)))) ps)"
      using "2.prems" False by simp
    then show ?thesis
    proof
      assume "q = scheduled_if (pp_status p \<noteq> SCHEDULED) now ?x"
      then show ?thesis using head False by (intro bexI [of _ p]) auto
    next
      assume m: "q \<in> set (staggered now (c(pp_account p := Suc (c (pp_account p)))) ps)"
      show ?thesis using "2.IH"(2) [OF False m] by (meson list.set_intros(2))
    qed
  qed
qed

lemma staggered_distinct: "distinct (map pp_id ps) \<Longrightarrow> distinct (map pp_id (staggered now c ps))"
proof (induction now c ps rule: staggered.induct)
  case (1 now c)
  then show ?case by simp
next
  case (2 now c p ps)
  show ?case
  proof (cases "pp_status p \<noteq> SCHEDULED \<and> \<not> promotes_to_scheduled p")
    case True
    then show ?thesis using 2 by simp
  next
    case False
    have "pp_id p \<notin> pp_id ` set (staggered now c' ps)" for c'
      using "2.prems" staggered_in [of _ now c' ps] by fastforce
    moreover have "distinct (map pp_id (staggered now (c(pp_account p := Suc (c (pp_account p)))) ps))"
      by (rule "2.IH"(2) [OF False]) (use "2.prems" in simp)
    moreover have "staggered now c (p # ps) = scheduled_if (pp_status p \<noteq> SCHEDULED) now
            (shed_attempt (p\<lparr>pp_scheduled_at := Some (now + seconds (60 * int (c (pp_account p))))\<rparr>))
          # staggered now (c(pp_account p := Suc (c (pp_account p)))) ps"
      using False by (simp only: staggered.simps if_False)
    ultimately show ?thesis by (simp add: scheduled_if_fields shed_fields)
  qed
qed

lemma drafted_Cons:
  "drafted now (p # ps) = drafted now ps \<or> (\<exists>q. drafted now (p # ps) = q # drafted now ps \<and> pp_id q = pp_id p)"
  by (auto simp: drafted_def transition_fields split: sum.split)

lemma drafted_distinct: "distinct (map pp_id ps) \<Longrightarrow> distinct (map pp_id (drafted now ps))"
proof (induction ps)
  case Nil
  then show ?case by (simp add: drafted_def)
next
  case (Cons p ps)
  have "pp_id p \<notin> pp_id ` set (drafted now ps)" using Cons.prems drafted_in [of _ now ps] by fastforce
  then show ?case using drafted_Cons [of now p ps] Cons by auto
qed

section \<open>What the view loads\<close>

lemma set_due_order: "set (due_order d ps) = set ps"
  by (auto simp: due_order_def Let_def)

lemma mset_split: "mset (filter P xs @ filter (\<lambda>x. \<not> P x) xs) = mset xs"
  by simp

lemma distinct_due_order: "distinct (map pp_id ps) \<Longrightarrow> distinct (map pp_id (due_order d ps))"
proof -
  assume d: "distinct (map pp_id ps)"
  have "mset (due_order d ps) = mset ps"
    by (simp add: due_order_def Let_def flip: not_None_eq)
  then have "mset (map pp_id (due_order d ps)) = mset (map pp_id ps)" by simp
  then show ?thesis using d by (metis mset_eq_imp_distinct_iff)
qed

lemma loaded:
  assumes "p \<in> set (load_selected u m w ids d)"
  shows "p \<in> set (db_pps d)" "in_workspace w p d" "authored_by u m p d"
  using assms by (auto simp: load_selected_def set_due_order)

lemma loaded_distinct: "keys_ok d \<Longrightarrow> distinct (map pp_id (load_selected u m w ids d))"
  unfolding load_selected_def
  by (intro distinct_map_filter distinct_due_order) (simp add: keys_ok_def)

section \<open>What a bulk action may do to a row\<close>

definition bulk_allowed :: "string \<Rightarrow> user \<Rightarrow> ws_membership \<Rightarrow> nat \<Rightarrow> db \<Rightarrow> platform_post \<Rightarrow> platform_post option \<Rightarrow> bool" where
  \<comment> \<open>the change of the row \<open>p\<close> to the second row, or its deletion\<close>
  "bulk_allowed action u m w d p new \<longleftrightarrow>
    pp_status p \<notin> set PROTECTED_STATUSES \<and> in_workspace w p d \<and> authored_by u m p d \<and>
    (case new of
       None \<Rightarrow> action = ''delete''
     | Some r \<Rightarrow> pp_post r = pp_post p \<and> pp_account r = pp_account p \<and>
        (action = ''draft'' \<and> pp_status r = DRAFT \<and> pp_scheduled_at r = None \<and> DRAFT \<in> set (VALID_TRANSITIONS (pp_status p)) \<or>
         action = ''publish'' \<and> has_perm ''publish_directly'' m \<and> pp_status r = SCHEDULED \<and>
           (pp_status p = SCHEDULED \<or> SCHEDULED \<in> set (VALID_TRANSITIONS (pp_status p)))))"

lemma selected_is_row:
  assumes "keys_ok d" and "get_pp j d = Some p" and "x \<in> set (load_selected u m w ids d)" and "pp_id x = j"
  shows "x = p"
  using keys_ok_get_pp [OF assms(1) loaded(1) [OF assms(3)]] assms(2,4) by simp

lemma saved_row:
  assumes k: "keys_ok d" and p: "get_pp j d = Some p" and dis: "distinct (map pp_id qs)"
    and src: "\<And>q. q \<in> set qs \<Longrightarrow> \<exists>x \<in> set (load_selected u m w ids d). pp_id q = pp_id x \<and> R x q"
  shows "get_pp j (bulk_save now qs d) = Some p \<or>
    (\<exists>q r. get_pp j (bulk_save now qs d) = Some r \<and> p \<in> set (load_selected u m w ids d) \<and> R p q \<and>
      pp_status r = pp_status q \<and> pp_scheduled_at r = pp_scheduled_at q \<and> pp_post r = pp_post p \<and> pp_account r = pp_account p)"
proof (cases "j \<in> pp_id ` set qs")
  case False
  then show ?thesis using get_pp_bulk_save_other p by simp
next
  case True
  then obtain q where q: "q \<in> set qs" "pp_id q = j" by auto
  obtain x where x: "x \<in> set (load_selected u m w ids d)" "pp_id q = pp_id x" "R x q" using src [OF q(1)] by blast
  have "x = p" using selected_is_row [OF k p x(1)] x(2) q(2) by simp
  moreover obtain r where "get_pp j (bulk_save now qs d) = Some r" "pp_status r = pp_status q"
      "pp_scheduled_at r = pp_scheduled_at q" "pp_post r = pp_post p" "pp_account r = pp_account p"
    using get_pp_bulk_save [OF dis q(1), of d p now] q(2) p by auto
  ultimately show ?thesis using x(1,3) by blast
qed

lemma commit_bulk_pps:
  "db_pps (snd (commit_bulk now action w ps d)) =
    db_pps (if action = ''delete'' then delete_pps (\<lambda>p. pp_id p \<in> set (map pp_id (filter (\<lambda>p. pp_status p \<notin> set PROTECTED_STATUSES) ps))) d
            else if action = ''draft'' then bulk_save now (drafted now ps) d
            else bulk_save now (staggered now (\<lambda>_. 0) ps) d)"
  by (simp add: commit_bulk_def Let_def pps_reconcile frame_simps)

text \<open>
  C32. A bulk action touches only the rows it may: a row whose status or place differs afterwards was in the
  workspace, neither published nor publishing, of the caller or of a caller who may edit others' posts; it
  moved along an edge of the status machine to what the action says, under the right to publish for a publish.
\<close>

theorem bulk_touches_what_it_may:
  assumes "keys_ok d" and "get_pp j d = Some p" and "enter rq w None d = Inr (u, m, ws)"
    and "bulk_platform_action now rq w d = (answer, d')"
  shows "get_pp j d' = Some p \<or> bulk_allowed (post_get ''action'' [] rq) u m w d p (get_pp j d')"
proof (cases "d' = d")
  case True
  then show ?thesis using assms(2) by simp
next
  case False
  define action where "action = post_get ''action'' [] rq"
  define ids where "ids = map parse_uuid (post_getlist ''platform_post_ids'' rq)"
  define ps where "ps = load_selected u m w (map the ids) d"
  have b: "(answer, d') = (let action = action; ids = ids in
         if action \<notin> set BULK_ACTIONS \<or> ids = [] then (Answer (BadRequest ''action and platform_post_ids required''), d)
         else if action = ''publish'' \<and> \<not> has_perm ''publish_directly'' m
         then (Answer (Forbidden ''You do not have permission to publish directly.''), d)
         else if None \<in> set ids then (Answer ServerError, d)
         else let ps = load_selected u m w (map the ids) d;
               blocked = (if action = ''publish'' then blocked_reasons ps d else [])
           in if blocked \<noteq> [] then (Cannot_publish (length blocked) (first_occurrences blocked), d)
              else (case commit_bulk now action w ps d of (n, d1) \<Rightarrow> (Acted action n, d1)))"
    using assms(4) unfolding bulk_platform_action_def assms(3) action_def ids_def by simp
  have a: "action \<in> set BULK_ACTIONS" "action = ''publish'' \<Longrightarrow> has_perm ''publish_directly'' m"
      and d': "d' = snd (commit_bulk now action w ps d)"
    using b False by (auto simp: Let_def ps_def split: if_splits prod.splits)
  have ok: "x \<in> set ps \<Longrightarrow> x \<in> set (db_pps d) \<and> in_workspace w x d \<and> authored_by u m x d" for x
    unfolding ps_def using loaded by blast
  have dis: "distinct (map pp_id ps)" unfolding ps_def by (rule loaded_distinct [OF assms(1)])
  have g: "get_pp j d' = get_pp j (if action = ''delete''
      then delete_pps (\<lambda>p. pp_id p \<in> set (map pp_id (filter (\<lambda>p. pp_status p \<notin> set PROTECTED_STATUSES) ps))) d
      else if action = ''draft'' then bulk_save now (drafted now ps) d else bulk_save now (staggered now (\<lambda>_. 0) ps) d)"
    unfolding d' by (rule get_pp_cong [OF commit_bulk_pps])
  consider "action = ''delete''" | "action = ''draft''" | "action = ''publish''"
    using a(1) by (auto simp: BULK_ACTIONS_def)
  then have "get_pp j d' = Some p \<or> bulk_allowed action u m w d p (get_pp j d')"
  proof cases
    case 1
    define G where "G = set (map pp_id (filter (\<lambda>p. pp_status p \<notin> set PROTECTED_STATUSES) ps))"
    have e: "get_pp j d' = find (\<lambda>p. pp_id p = j) (filter (\<lambda>p. pp_id p \<notin> G) (db_pps d))"
      unfolding g G_def [symmetric] using 1 by (simp add: get_pp_delete_pps)
    show ?thesis
    proof (cases "j \<in> G")
      case True
      then obtain x where x: "x \<in> set ps" "pp_status x \<notin> set PROTECTED_STATUSES" "pp_id x = j" by (auto simp: G_def)
      have "x = p" using selected_is_row [OF assms(1,2) x(1) [unfolded ps_def] x(3)] .
      moreover have "get_pp j d' = None" unfolding e using True by (auto simp: find_None_iff)
      ultimately show ?thesis using 1 x ok [OF x(1)] by (simp add: bulk_allowed_def)
    next
      case False
      have f: "find (\<lambda>p. pp_id p = j) (filter (\<lambda>p. pp_id p \<notin> G) xs) = find (\<lambda>p. pp_id p = j) xs" for xs
        using False by (induction xs) auto
      show ?thesis using assms(2) unfolding e f by (simp add: get_pp_def tbl_get_def)
    qed
  next
    case 2
    have e: "get_pp j d' = get_pp j (bulk_save now (drafted now ps) d)" unfolding g using 2 by simp
    have "get_pp j (bulk_save now (drafted now ps) d) = Some p \<or>
      (\<exists>(q :: platform_post) r. get_pp j (bulk_save now (drafted now ps) d) = Some r \<and> p \<in> set (load_selected u m w (map the ids) d) \<and>
        (pp_status q = DRAFT \<and> pp_scheduled_at q = None \<and> pp_status p \<notin> set PROTECTED_STATUSES \<and> DRAFT \<in> set (VALID_TRANSITIONS (pp_status p))) \<and>
        pp_status r = pp_status q \<and> pp_scheduled_at r = pp_scheduled_at q \<and> pp_post r = pp_post p \<and> pp_account r = pp_account p)"
    proof (rule saved_row [OF assms(1,2) drafted_distinct [OF dis]], goal_cases)
      case (1 q)
      then show ?case using drafted_in [of q now ps] unfolding ps_def by blast
    qed
    then show ?thesis unfolding e using 2 ok [of p] by (auto simp: bulk_allowed_def ps_def [symmetric])
  next
    case 3
    have e: "get_pp j d' = get_pp j (bulk_save now (staggered now (\<lambda>_. 0) ps) d)" unfolding g using 3 by simp
    have "get_pp j (bulk_save now (staggered now (\<lambda>_. 0) ps) d) = Some p \<or>
      (\<exists>(q :: platform_post) r. get_pp j (bulk_save now (staggered now (\<lambda>_. 0) ps) d) = Some r \<and> p \<in> set (load_selected u m w (map the ids) d) \<and>
        (pp_status q = SCHEDULED \<and> (pp_status p = SCHEDULED \<or> promotes_to_scheduled p)) \<and>
        pp_status r = pp_status q \<and> pp_scheduled_at r = pp_scheduled_at q \<and> pp_post r = pp_post p \<and> pp_account r = pp_account p)"
      by (rule saved_row [where R = "\<lambda>p q. pp_status q = SCHEDULED \<and> (pp_status p = SCHEDULED \<or> promotes_to_scheduled p)",
          OF assms(1,2) staggered_distinct [OF dis]]) (use staggered_in [of _ now "\<lambda>_. 0" ps] ps_def in blast)
    then show ?thesis unfolding e using 3 a(2) ok [of p]
      by (auto simp: bulk_allowed_def ps_def [symmetric] promotes_to_scheduled_def can_transition_to_def PROTECTED_STATUSES_def)
  qed
  then show ?thesis by (simp add: action_def)
qed

section \<open>Spacing a channel\<close>

definition publishes :: "platform_post \<Rightarrow> bool" where
  "publishes p \<longleftrightarrow> pp_status p = SCHEDULED \<or> promotes_to_scheduled p"

lemma staggered_from:
  "map (\<lambda>q. (pp_id q, pp_status q, pp_scheduled_at q)) (filter (\<lambda>q. pp_account q = a) (staggered now c ps)) =
    map (\<lambda>(k, p). (pp_id p, SCHEDULED, Some (now + seconds (60 * int k))))
      (enumerate (c a) (filter (\<lambda>p. pp_account p = a \<and> publishes p) ps))"
proof (induction now c ps rule: staggered.induct)
  case (1 now c)
  then show ?case by simp
next
  case (2 now c p ps)
  show ?case
  proof (cases "pp_status p \<noteq> SCHEDULED \<and> \<not> promotes_to_scheduled p")
    case True
    then show ?thesis using "2.IH"(1) [OF True] by (simp add: publishes_def)
  next
    case False
    let ?c = "c(pp_account p := Suc (c (pp_account p)))"
    let ?x = "shed_attempt (p\<lparr>pp_scheduled_at := Some (now + seconds (60 * int (c (pp_account p))))\<rparr>)"
    let ?q = "scheduled_if (pp_status p \<noteq> SCHEDULED) now ?x"
    have s: "staggered now c (p # ps) = ?q # staggered now ?c ps" using False by (simp only: staggered.simps if_False)
    have can: "can_transition_to ?x SCHEDULED = can_transition_to p SCHEDULED"
      by (rule can_transition_status) (simp add: shed_fields)
    have q: "pp_id ?q = pp_id p" "pp_account ?q = pp_account p" "pp_status ?q = SCHEDULED"
        "pp_scheduled_at ?q = Some (now + seconds (60 * int (c (pp_account p))))"
      using False can by (auto simp: scheduled_if_fields scheduled_if_status shed_fields promotes_to_scheduled_def)
    have p: "publishes p" using False by (simp add: publishes_def)
    have IH: "map (\<lambda>q. (pp_id q, pp_status q, pp_scheduled_at q)) (filter (\<lambda>q. pp_account q = a) (staggered now ?c ps)) =
        map (\<lambda>(k, p). (pp_id p, SCHEDULED, Some (now + seconds (60 * int k))))
          (enumerate (?c a) (filter (\<lambda>p. pp_account p = a \<and> publishes p) ps))"
      by (rule "2.IH"(2) [OF False])
    show ?thesis
    proof (cases "pp_account p = a")
      case True
      then have "filter (\<lambda>q. pp_account q = a) (staggered now c (p # ps)) = ?q # filter (\<lambda>q. pp_account q = a) (staggered now ?c ps)"
        unfolding s using q(2) by simp
      then show ?thesis using IH q True p by simp
    next
      case other: False
      then have "filter (\<lambda>q. pp_account q = a) (staggered now c (p # ps)) = filter (\<lambda>q. pp_account q = a) (staggered now ?c ps)"
        unfolding s using q(2) by simp
      then show ?thesis using IH other by simp
    qed
  qed
qed

text \<open>The order in which selected rows are due, as a relation.\<close>

definition older :: "db \<Rightarrow> platform_post \<Rightarrow> platform_post \<Rightarrow> bool" where
  \<comment> \<open>by the creation of the post, then by key\<close>
  "older d p q \<longleftrightarrow> position (pp_post p) (db_posts d) < position (pp_post q) (db_posts d) \<or>
    position (pp_post p) (db_posts d) = position (pp_post q) (db_posts d) \<and> pp_id p < pp_id q"

definition due_before :: "db \<Rightarrow> platform_post \<Rightarrow> platform_post \<Rightarrow> bool" where
  \<comment> \<open>by the effective time, rows without one last\<close>
  "due_before d p q \<longleftrightarrow>
    (case (effective_time d p, effective_time d q) of
       (Some s, Some t) \<Rightarrow> s < t \<or> s = t \<and> older d p q
     | (Some s, None) \<Rightarrow> True
     | (None, Some t) \<Rightarrow> False
     | (None, None) \<Rightarrow> older d p q)"

lemma due_before_asym: "due_before d p q \<Longrightarrow> \<not> due_before d q p"
  by (auto simp: due_before_def older_def split: option.splits)

definition first_by :: "('a \<Rightarrow> 'b::linorder) \<Rightarrow> ('a \<Rightarrow> 'a \<Rightarrow> bool) \<Rightarrow> 'a \<Rightarrow> 'a \<Rightarrow> bool" where
  "first_by f R x y \<longleftrightarrow> f x < f y \<or> f x = f y \<and> R x y"

lemma insort_first_by:
  "sorted_wrt (first_by f R) ys \<Longrightarrow> \<forall>y \<in> set ys. R x y \<Longrightarrow> sorted_wrt (first_by f R) (insort_key f x ys)"
proof (induction ys)
  case (Cons y ys)
  show ?case
  proof (cases "f x \<le> f y")
    case True
    then have "first_by f R x z" if "z \<in> set (y # ys)" for z
      using Cons.prems that by (force simp: first_by_def)
    then show ?thesis using Cons.prems True by simp
  next
    case False
    then show ?thesis using Cons by (auto simp: set_insort_key first_by_def)
  qed
qed simp

text \<open>A stable sort refines the order the rows were in.\<close>

lemma sort_first_by: "sorted_wrt R xs \<Longrightarrow> sorted_wrt (first_by f R) (sort_key f xs)"
  by (induction xs) (simp_all add: insort_first_by)

lemma due_order_sorted:
  assumes "distinct (map pp_id ps)"
  shows "sorted_wrt (due_before d) (due_order d ps)"
proof -
  let ?pos = "\<lambda>p. position (pp_post p) (db_posts d)"
  let ?qs = "sort_key ?pos (sort_key pp_id ps)"
  have "mset (map pp_id (sort_key pp_id ps)) = mset (map pp_id ps)" by simp
  then have "distinct (map pp_id (sort_key pp_id ps))" using assms mset_eq_imp_distinct_iff by blast
  then have "sorted_wrt (<) (map pp_id (sort_key pp_id ps))" by (simp add: strict_sorted_iff)
  then have "sorted_wrt (\<lambda>p q. pp_id p < pp_id q) (sort_key pp_id ps)" by (simp add: sorted_wrt_map)
  from sort_first_by [OF this, of ?pos] have qs: "sorted_wrt (older d) ?qs"
    by (rule sorted_wrt_mono_rel [rotated]) (simp add: first_by_def older_def)
  let ?some = "sort_key (\<lambda>p. the (effective_time d p)) (filter (\<lambda>p. effective_time d p \<noteq> None) ?qs)"
  let ?none = "filter (\<lambda>p. effective_time d p = None) ?qs"
  have "sorted_wrt (first_by (\<lambda>p. the (effective_time d p)) (older d)) ?some"
    by (intro sort_first_by sorted_wrt_filter qs)
  then have "sorted_wrt (due_before d) ?some"
    by (rule sorted_wrt_mono_rel [rotated]) (auto simp: first_by_def due_before_def)
  moreover have "sorted_wrt (due_before d) ?none"
    by (rule sorted_wrt_mono_rel [OF _ sorted_wrt_filter [OF qs]]) (simp add: due_before_def)
  moreover have "due_before d p q" if "p \<in> set ?some" "q \<in> set ?none" for p q
    using that by (auto simp: due_before_def)
  ultimately show ?thesis unfolding due_order_def Let_def sorted_wrt_append by blast
qed

text \<open>The place of an element in a list ordered by an asymmetric relation.\<close>

lemma place_is_rank:
  assumes "sorted_wrt R xs" "\<And>x y. R x y \<Longrightarrow> \<not> R y x" "distinct xs" "k < length xs"
  shows "card {x \<in> set xs. R x (xs ! k)} = k"
proof -
  have "R (xs ! i) (xs ! k) \<longleftrightarrow> i < k" if "i < length xs" for i
    using assms(1,2,4) that by (metis linorder_neqE_nat sorted_wrt_iff_nth_less)
  then have "x \<in> set xs \<and> R x (xs ! k) \<longleftrightarrow> x \<in> (!) xs ` {..<k}" for x
    using assms(4) unfolding in_set_conv_nth image_iff by (metis dual_order.strict_trans lessThan_iff)
  then have "{x \<in> set xs. R x (xs ! k)} = (!) xs ` {..<k}" by blast
  also have "\<dots> = set (take k xs)" using assms(4) by (simp add: nth_image lessThan_atLeast0)
  finally have "{x \<in> set xs. R x (xs ! k)} = set (take k xs)" .
  then show ?thesis using assms(3,4) by (simp add: distinct_card)
qed

definition bulk_publishable :: "user \<Rightarrow> ws_membership \<Rightarrow> nat \<Rightarrow> nat list \<Rightarrow> db \<Rightarrow> platform_post \<Rightarrow> bool" where
  \<comment> \<open>selected, in the workspace, the member's to edit, and in a status a publish may start from\<close>
  "bulk_publishable u m w ids d p \<longleftrightarrow> pp_id p \<in> set ids \<and> in_workspace w p d \<and> authored_by u m p d \<and>
    pp_status p \<in> {DRAFT, APPROVED, SCHEDULED, FAILED}"

lemma publishes_status: "publishes p \<longleftrightarrow> pp_status p \<in> {DRAFT, APPROVED, SCHEDULED, FAILED}"
  by (cases "pp_status p") (simp_all add: publishes_def promotes_to_scheduled_def can_transition_to_def PROTECTED_STATUSES_def)

definition due_rank :: "(platform_post \<Rightarrow> bool) \<Rightarrow> db \<Rightarrow> platform_post \<Rightarrow> nat" where
  \<comment> \<open>how many of the rows are due before\<close>
  "due_rank P d p = card {q \<in> set (db_pps d). P q \<and> due_before d q p}"

lemma staggered_row:
  assumes k: "keys_ok d" and p: "get_pp j d = Some p" and b: "bulk_publishable u m w ids d p"
  shows "\<exists>q \<in> set (staggered now (\<lambda>_. 0) (load_selected u m w ids d)). pp_id q = j \<and> pp_status q = SCHEDULED \<and>
    pp_scheduled_at q = Some (now + seconds (60 * int
      (due_rank (\<lambda>q. bulk_publishable u m w ids d q \<and> pp_account q = pp_account p) d p)))"
proof -
  let ?L = "filter (\<lambda>q. pp_account q = pp_account p \<and> publishes q) (load_selected u m w ids d)"
  let ?B = "\<lambda>q. bulk_publishable u m w ids d q \<and> pp_account q = pp_account p"
  have j: "pp_id p = j" "p \<in> set (db_pps d)" using p by (auto simp: get_pp_def dest: tbl_get_Some)
  have ids: "distinct (map pp_id (db_pps d))" using k by (simp add: keys_ok_def)
  have L: "set ?L = {q \<in> set (db_pps d). ?B q}"
    by (auto simp: load_selected_def set_due_order bulk_publishable_def publishes_status)
  have srt: "sorted_wrt (due_before d) ?L"
    unfolding load_selected_def by (intro sorted_wrt_filter due_order_sorted distinct_map_filter ids)
  have dis: "distinct ?L" using loaded_distinct [OF k, of u m w ids] by (simp add: distinct_map)
  have "p \<in> set ?L" using L j(2) b by simp
  then obtain n where n: "n < length ?L" "?L ! n = p" unfolding in_set_conv_nth by blast
  have "due_rank ?B d p = card {x \<in> set ?L. due_before d x (?L ! n)}"
    unfolding due_rank_def n(2) L by (rule arg_cong [where f = card]) auto
  also have "\<dots> = n" by (rule place_is_rank [OF srt _ dis n(1)]) (rule due_before_asym)
  finally have rank: "due_rank ?B d p = n" .
  have "(n, p) \<in> set (enumerate 0 ?L)" using n by (auto simp: in_set_enumerate_eq)
  then have "(pp_id p, SCHEDULED, Some (now + seconds (60 * int n))) \<in>
      set (map (\<lambda>(k, p). (pp_id p, SCHEDULED, Some (now + seconds (60 * int k)))) (enumerate 0 ?L))" by force
  then obtain q where "q \<in> set (staggered now (\<lambda>_. 0) (load_selected u m w ids d))" "pp_id q = pp_id p"
      "pp_status q = SCHEDULED" "pp_scheduled_at q = Some (now + seconds (60 * int n))"
    unfolding staggered_from [of "pp_account p" now "\<lambda>_. 0", symmetric] by auto
  then show ?thesis unfolding rank j(1) by blast
qed

text \<open>
  C33. A bulk publish spaces each channel: after it, every selected row of the workspace that the member may edit
  and that can be published is scheduled, as many minutes from now as selected publishable rows of the same
  channel were due before it - by their effective time, rows without one last, then by the creation of their posts
  and by key. So the first row of a channel is due at once, whatever the other channels are given.
\<close>

theorem bulk_publish_spaces_each_channel:
  assumes "keys_ok d" and "enter rq w None d = Inr (u, m, ws)" and "post_get ''action'' [] rq = ''publish''"
    and "bulk_platform_action now rq w d = (Acted ''publish'' n, d')"
    and "map parse_uuid (post_getlist ''platform_post_ids'' rq) = map Some ids"
    and "get_pp j d = Some p" and "bulk_publishable u m w ids d p"
  shows "\<exists>r. get_pp j d' = Some r \<and> pp_status r = SCHEDULED \<and> pp_account r = pp_account p \<and>
    pp_scheduled_at r = Some (now + seconds (60 * int
      (due_rank (\<lambda>q. bulk_publishable u m w ids d q \<and> pp_account q = pp_account p) d p)))"
proof -
  let ?ps = "load_selected u m w ids d"
  have "d' = snd (commit_bulk now ''publish'' w ?ps d)"
    using assms(4) unfolding bulk_platform_action_def assms(2,3,5)
    by (auto simp: Let_def comp_def split: if_splits prod.splits)
  then have "db_pps d' = db_pps (bulk_save now (staggered now (\<lambda>_. 0) ?ps) d)" by (simp add: commit_bulk_pps)
  then have g: "get_pp j d' = get_pp j (bulk_save now (staggered now (\<lambda>_. 0) ?ps) d)" by (rule get_pp_cong)
  obtain q where q: "q \<in> set (staggered now (\<lambda>_. 0) ?ps)" "pp_id q = j" "pp_status q = SCHEDULED"
      "pp_scheduled_at q = Some (now + seconds (60 * int
        (due_rank (\<lambda>q. bulk_publishable u m w ids d q \<and> pp_account q = pp_account p) d p)))"
    using staggered_row [OF assms(1,6,7)] by blast
  have "distinct (map pp_id (staggered now (\<lambda>_. 0) ?ps))" by (rule staggered_distinct [OF loaded_distinct [OF assms(1)]])
  from get_pp_bulk_save [OF this q(1), of d p now] show ?thesis using assms(6) q by (auto simp: g)
qed

section \<open>What goes wrong\<close>

lemma dropped_commit:
  assumes "get_pp (pp_id p) d = Some r"
  shows "\<exists>r'. get_pp (pp_id p) (commit_drop now t p d) = Some r' \<and> pp_scheduled_at r' = Some t \<and>
    pp_status r' = (if pp_status p \<in> set IMPLICIT_SCHEDULE_STATUSES then SCHEDULED else pp_status p)"
proof -
  have "get_pp (pp_id p) (commit_drop now t p d) = get_pp (pp_id p) (save_transition (dropped_row now t p) True now d)"
    by (rule get_pp_cong) (simp add: commit_drop_def frame_simps)
  then show ?thesis using assms by (simp add: get_pp_save_transition dropped_fields dropped_status)
qed

text \<open>
  A drag takes a channel back from the publisher: a view that loaded the row while it was scheduled writes
  the status it loaded, so a row the engine has claimed and is uploading is scheduled again, at the time of the
  drop, for the next poll to upload a second time.
\<close>

theorem drag_revives_a_claimed_channel:
  assumes "load_dragged rq w d0 = Inr p" and "drag_refusal u m p d0 = None" and "pp_status p = SCHEDULED"
    and "get_pp (pp_id p) d = Some r" and "pp_status r = PUBLISHING"
  shows "\<exists>r'. get_pp (pp_id p) (commit_drop now t p d) = Some r' \<and> pp_status r' = SCHEDULED \<and> pp_scheduled_at r' = Some t"
  using dropped_commit [OF assms(4)] assms(3) by (auto simp: IMPLICIT_SCHEDULE_STATUSES_def)

text \<open>
  A drag needs no right to publish for a channel that is scheduled already: its author, without
  \<open>publish_directly\<close>, moves it to any time, the past included, which publishes it with the next poll.
\<close>

theorem drag_publishes_without_the_right:
  assumes "enter rq w None d = Inr (u, m, ws)" and "load_dragged rq w d = Inr p" and "pp_status p = SCHEDULED"
    and "authored_by u m p d"
    and "read_instant (zones (py_or (effective_timezone ws d) ''UTC'')) (post_get ''new_datetime'' [] rq) = Some t"
  shows "\<exists>d' r'. reschedule_post zones now rq w d = (Done 204, d') \<and>
    get_pp (pp_id p) d' = Some r' \<and> pp_status r' = SCHEDULED \<and> pp_scheduled_at r' = Some t"
proof -
  have "\<exists>r. get_pp (pp_id p) d = Some r"
    using assms(2) by (auto simp: load_dragged_def Let_def dest: get_pp_id split: if_splits option.splits)
  then obtain r where r: "get_pp (pp_id p) d = Some r" by blast
  have "drag_refusal u m p d = None"
    using assms(3,4) by (simp add: drag_refusal_def is_reschedulable_def RESCHEDULABLE_STATUSES_def IMPLICIT_SCHEDULE_STATUSES_def)
  then have "reschedule_post zones now rq w d = (Done 204, commit_drop now t p d)"
    using assms(1,2,5) by (simp add: reschedule_post_def)
  then show ?thesis using dropped_commit [OF r, of now t] assms(3) by (auto simp: IMPLICIT_SCHEDULE_STATUSES_def)
qed

text \<open>
  C34. Anyone in the workspace can empty a queue: taking a post out of a queue asks for no permission at all, so
  a viewer unschedules a scheduled channel.
\<close>

theorem any_member_unschedules:
  assumes "enter rq w None d = Inr (u, m, ws)" and "find_entry e k w d = Some (x, q)"
    and "child_on (qe_post x) (qu_account q) d = Some p" and "pp_status p = SCHEDULED" and "keys_ok d"
  shows "\<exists>d' r. queue_entry_remove now rq w k e d = (Done 204, d') \<and>
    get_pp (pp_id p) d' = Some r \<and> pp_status r = DRAFT \<and> pp_scheduled_at r = None"
proof -
  have p: "get_pp (pp_id p) d = Some p"
    using assms(3,5) by (auto simp: child_on_def dest: tbl_first_Some intro: keys_ok_get_pp)
  have "can_transition_to p DRAFT" using assms(4) by (simp add: can_transition_to_def)
  then obtain d1 q1 where t: "transition_platform_post now p DRAFT None d = Inr (d1, q1)"
    unfolding to_draft_result by blast
  define d2 where "d2 = sync_post_scheduled_at now (qe_post x)
      (d1\<lparr>db_entries := tbl_delete (\<lambda>y. qe_id y = qe_id x) (db_entries d1)\<rparr>)"
  have "remove_from_queue now x q d = Inr d2"
    using assms(3,4) t \<open>can_transition_to p DRAFT\<close>
    by (simp add: remove_from_queue_def is_protected_def PROTECTED_STATUSES_def d2_def)
  then have run: "queue_entry_remove now rq w k e d = (Done 204, d2)"
    using assms(1,2) by (simp add: queue_entry_remove_def)
  have "db_pps d2 = db_pps d1" by (simp add: d2_def frame_simps)
  moreover have "db_pps d1 = db_pps (save_transition (p\<lparr>pp_status := DRAFT, pp_scheduled_at := None\<rparr>) (pp_scheduled_at p \<noteq> None) now
      (drop_entries (pp_post p) (pp_account p) d))"
    using t unfolding to_draft_result by (simp add: frame_simps)
  ultimately have "get_pp (pp_id p) d2 = get_pp (pp_id p) (save_transition (p\<lparr>pp_status := DRAFT, pp_scheduled_at := None\<rparr>)
      (pp_scheduled_at p \<noteq> None) now (drop_entries (pp_post p) (pp_account p) d))"
    by (intro get_pp_cong) simp
  then show ?thesis using run p by (auto simp: get_pp_save_transition frame_simps)
qed

section \<open>Witnesses\<close>

text \<open>The contributor's own post, scheduled on account 5 and in its queue; the same seen by a viewer.\<close>

definition viewer :: ws_membership where
  "viewer = contributor\<lparr>mb_role := WS_VIEWER\<rparr>"

definition timed_row :: platform_post where
  "timed_row = (channel_in SCHEDULED)\<lparr>pp_scheduled_at := Some 300\<rparr>"

definition calendar_db :: "ws_membership \<Rightarrow> db" where
  "calendar_db m = (composer_db DRAFT)\<lparr>db_members := [m], db_pps := [timed_row],
     db_queues := [\<lparr>qu_id = 2, qu_workspace = 1, qu_name = ''Q'', qu_account = 5, qu_active = True\<rparr>],
     db_entries := [\<lparr>qe_id = 6, qe_queue = 2, qe_post = 3, qe_position = 1, qe_slot = Some 300\<rparr>]\<rparr>"

definition calendar_request :: "(string \<times> string) list \<Rightarrow> request" where
  "calendar_request kvs = \<lparr>rq_user = Some author, rq_post = kvs, rq_pending = []\<rparr>"

definition drag_request :: request where
  "drag_request = calendar_request [(''platform_post_id'', uuid_text 4), (''new_datetime'', ''1970-01-01T00:00'')]"

definition draft_request :: request where
  "draft_request = calendar_request [(''action'', ''draft''), (''platform_post_ids'', uuid_text 4)]"

lemma timed_row_id: "pp_id timed_row = 4"
  by code_simp

theorem bulk_touches_what_it_may_witness:
  "\<exists>d' r. bulk_platform_action 5 draft_request 1 (calendar_db contributor) = (Acted ''draft'' 1, d') \<and>
    get_pp 4 d' = Some r \<and> bulk_allowed ''draft'' author contributor 1 (calendar_db contributor) timed_row (Some r)"
proof -
  let ?d = "calendar_db contributor"
  define d' where "d' = snd (bulk_platform_action 5 draft_request 1 ?d)"
  have k: "keys_ok ?d" and g: "get_pp 4 ?d = Some timed_row" and e: "enter draft_request 1 None ?d = Inr (author, contributor, strict_ws)"
    and f: "fst (bulk_platform_action 5 draft_request 1 ?d) = Acted ''draft'' 1" and a: "post_get ''action'' [] draft_request = ''draft''"
    by code_simp+
  have n: "map_option pp_status (get_pp 4 (snd (bulk_platform_action 5 draft_request 1 ?d))) = Some DRAFT" by code_simp
  then obtain r where r: "get_pp 4 d' = Some r" "pp_status r = DRAFT" unfolding d'_def by auto
  have run: "bulk_platform_action 5 draft_request 1 ?d = (Acted ''draft'' 1, d')" unfolding d'_def using f by (metis prod.collapse)
  have "pp_status timed_row = SCHEDULED" by code_simp
  with bulk_touches_what_it_may [OF k g e run] r
  have "bulk_allowed ''draft'' author contributor 1 ?d timed_row (Some r)" unfolding a by auto
  with run r(1) show ?thesis by blast
qed

text \<open>Two rows of one channel, the later one first in the table: it is published a minute after the other.\<close>

definition owner :: ws_membership where
  "owner = contributor\<lparr>mb_role := WS_OWNER\<rparr>"

definition two_rows :: "platform_post list" where
  "two_rows = [timed_row\<lparr>pp_scheduled_at := Some 900\<rparr>, timed_row\<lparr>pp_id := 9\<rparr>]"

definition spaced_db :: db where
  "spaced_db = (calendar_db owner)\<lparr>db_pps := two_rows\<rparr>"

definition publish_request :: request where
  "publish_request = calendar_request [(''action'', ''publish''), (''platform_post_ids'', uuid_text 4), (''platform_post_ids'', uuid_text 9)]"

theorem bulk_publish_spaces_each_channel_witness:
  "map_option pp_scheduled_at (get_pp 4 (snd (bulk_platform_action 5 publish_request 1 spaced_db))) = Some (Some (5 + seconds 60))"
proof -
  let ?p = "timed_row\<lparr>pp_scheduled_at := Some 900\<rparr>"
  let ?B = "\<lambda>q. bulk_publishable author owner 1 [4, 9] spaced_db q \<and> pp_account q = pp_account ?p"
  define d' where "d' = snd (bulk_platform_action 5 publish_request 1 spaced_db)"
  have k: "keys_ok spaced_db" and e: "enter publish_request 1 None spaced_db = Inr (author, owner, strict_ws)"
    and a: "post_get ''action'' [] publish_request = ''publish''"
    and i: "map parse_uuid (post_getlist ''platform_post_ids'' publish_request) = map Some [4, 9]"
    and g: "get_pp 4 spaced_db = Some ?p" and b: "bulk_publishable author owner 1 [4, 9] spaced_db ?p"
    and f: "fst (bulk_platform_action 5 publish_request 1 spaced_db) = Acted ''publish'' 2" by code_simp+
  have run: "bulk_platform_action 5 publish_request 1 spaced_db = (Acted ''publish'' 2, d')"
    unfolding d'_def using f by (metis prod.collapse)
  have "due_rank ?B spaced_db ?p = 1" by code_simp
  with bulk_publish_spaces_each_channel [OF k e a run i g b] show ?thesis by (auto simp: d'_def)
qed

theorem drag_revives_a_claimed_channel_witness:
  "\<exists>r'. get_pp 4 (commit_drop 5 0 timed_row ((calendar_db contributor)\<lparr>db_pps := [timed_row\<lparr>pp_status := PUBLISHING\<rparr>]\<rparr>)) = Some r' \<and>
    pp_status r' = SCHEDULED \<and> pp_scheduled_at r' = Some 0"
proof -
  let ?d = "calendar_db contributor" and ?e = "(calendar_db contributor)\<lparr>db_pps := [timed_row\<lparr>pp_status := PUBLISHING\<rparr>]\<rparr>"
  have h: "load_dragged drag_request 1 ?d = Inr timed_row" "drag_refusal author contributor timed_row ?d = None"
    "pp_status timed_row = SCHEDULED" "get_pp (pp_id timed_row) ?e = Some (timed_row\<lparr>pp_status := PUBLISHING\<rparr>)"
    "pp_status (timed_row\<lparr>pp_status := PUBLISHING\<rparr>) = PUBLISHING" by code_simp+
  from drag_revives_a_claimed_channel [OF h, of 5 0] show ?thesis unfolding timed_row_id .
qed

theorem drag_publishes_without_the_right_witness:
  "\<not> has_perm ''publish_directly'' contributor \<and>
   (\<exists>d' r'. reschedule_post (\<lambda>_. UTC) 400 drag_request 1 (calendar_db contributor) = (Done 204, d') \<and>
      get_pp 4 d' = Some r' \<and> pp_status r' = SCHEDULED \<and> pp_scheduled_at r' = Some 0)"
proof -
  let ?d = "calendar_db contributor"
  have h: "enter drag_request 1 None ?d = Inr (author, contributor, strict_ws)" "load_dragged drag_request 1 ?d = Inr timed_row"
    "pp_status timed_row = SCHEDULED" "authored_by author contributor timed_row ?d" by code_simp+
  have t: "read_instant ((\<lambda>_. UTC) (py_or (effective_timezone strict_ws ?d) ''UTC'')) (post_get ''new_datetime'' [] drag_request) = Some 0"
    by code_simp
  have "\<not> has_perm ''publish_directly'' contributor" by code_simp
  with drag_publishes_without_the_right [OF h t, of 400] show ?thesis unfolding timed_row_id by blast
qed

theorem any_member_unschedules_witness:
  "\<exists>d' r. queue_entry_remove 5 (calendar_request []) 1 2 6 (calendar_db viewer) = (Done 204, d') \<and>
    get_pp 4 d' = Some r \<and> pp_status r = DRAFT \<and> pp_scheduled_at r = None"
proof -
  let ?d = "calendar_db viewer" and ?x = "\<lparr>qe_id = 6, qe_queue = 2, qe_post = 3, qe_position = 1, qe_slot = Some 300\<rparr>"
    and ?q = "\<lparr>qu_id = 2, qu_workspace = 1, qu_name = ''Q'', qu_account = 5, qu_active = True\<rparr>"
  have h: "enter (calendar_request []) 1 None ?d = Inr (author, viewer, strict_ws)" "find_entry 6 2 1 ?d = Some (?x, ?q)"
    "child_on (qe_post ?x) (qu_account ?q) ?d = Some timed_row" "pp_status timed_row = SCHEDULED" "keys_ok ?d" by code_simp+
  from any_member_unschedules [OF h, of 5] show ?thesis unfolding timed_row_id .
qed

end
