(* ===== verification/Api_Posts.thy ===== *)
theory Api_Posts
  imports Api_Limits
begin

text \<open>
  The post routes of the Agent API, \<open>apps/api/routers/posts.py\<close>, with the audit log and the idempotency
  slots of \<open>apps/api/middleware.py\<close> and the sweep of \<open>apps/api/tasks.py\<close>. The caller is what
  \<open>ApiKeyAuth.authenticate\<close> attached to the request: the key (with its workspace, as cached), the effective
  permissions and the issuer. The SHA-256 fingerprint of a request is a parameter. An exception between the
  creation of a post and the end of its route is the argument \<open>late_failure\<close>.
\<close>

section \<open>State\<close>

record platform_summary =
  ps_id :: nat
  ps_account :: nat
  ps_platform :: string
  ps_status :: string
  ps_scheduled_at :: "instant option"
  ps_published_at :: "instant option"
  ps_handle :: string
  ps_error :: string

record post_response =
  pr_id :: nat
  pr_workspace :: nat
  pr_title :: string
  pr_caption :: string
  pr_first_comment :: string
  pr_internal_notes :: string
  pr_scheduled_at :: "instant option"
  pr_published_at :: "instant option"
  pr_proposed_at :: "instant option"
  pr_status :: string
  pr_platform_posts :: "platform_summary list"
  pr_updated_at :: instant

record idem_row =
  ir_key :: nat
  ir_text :: string
  ir_fingerprint :: string
  ir_status :: nat
  ir_body :: "post_response option"
  ir_created_at :: instant

record audit_row =
  au_key :: nat
  au_action :: string
  au_target :: "nat option"
  au_method :: string
  au_path :: string
  au_status :: nat
  au_ip :: "string option"
  au_agent :: string

record api_state =
  ap_db :: db
  ap_idem :: "idem_row list"
  ap_audit :: "audit_row list"

record caller =
  ca_key :: api_key
  ca_workspace :: workspace
  ca_perms :: "(string \<times> bool) list"
  ca_user :: "nat option"

record api_env =
  ae_cf :: api_settings
  ae_override :: "nat \<Rightarrow> nat option"

datatype api_answer =
    Refused http_error
  | Rejected composer_error
    \<comment> \<open>422 with the text of the \<open>ValueError\<close>\<close>
  | Crashed
  | Replied nat post_response

section \<open>Serialising a post\<close>

definition platform_summary_of :: "db \<Rightarrow> platform_post \<Rightarrow> platform_summary" where
  "platform_summary_of d p =
    \<lparr>ps_id = pp_id p, ps_account = pp_account p,
     ps_platform = (case get_account (pp_account p) d of Some a \<Rightarrow> sa_platform a | None \<Rightarrow> []),
     ps_status = state_value (pp_status p), ps_scheduled_at = pp_scheduled_at p,
     ps_published_at = pp_published_at p, ps_handle = pp_handle p, ps_error = pp_publish_error p\<rparr>"

definition can_view_internal_notes :: "caller \<Rightarrow> bool" where
  "can_view_internal_notes ca = perm_get ''create_posts'' (ca_perms ca)"

definition post_response_of :: "bool \<Rightarrow> post \<Rightarrow> db \<Rightarrow> post_response" where
  "post_response_of notes po d =
    \<lparr>pr_id = po_id po, pr_workspace = po_workspace po, pr_title = po_title po, pr_caption = po_caption po,
     pr_first_comment = po_first_comment po, pr_internal_notes = (if notes then po_internal_notes po else []),
     pr_scheduled_at = po_scheduled_at po, pr_published_at = po_published_at po,
     pr_proposed_at = po_proposed_at po, pr_status = post_status po d,
     pr_platform_posts = map (platform_summary_of d) (children (po_id po) d), pr_updated_at = po_updated_at po\<rparr>"

definition respond :: "caller \<Rightarrow> nat \<Rightarrow> nat \<Rightarrow> db \<Rightarrow> api_answer" where
  \<comment> \<open>\<open>post.refresh_from_db()\<close> and \<open>_post_to_response\<close>\<close>
  "respond ca status i d =
    (case get_post i d of
       None \<Rightarrow> Crashed
     | Some po \<Rightarrow> Replied status (post_response_of (can_view_internal_notes ca) po d))"

section \<open>Audit log\<close>

definition log_audit_entry ::
  "api_env \<Rightarrow> api_request \<Rightarrow> caller \<Rightarrow> string \<Rightarrow> nat option \<Rightarrow> nat \<Rightarrow> api_state \<Rightarrow> api_state" where
  "log_audit_entry env rq ca action target status s =
    s\<lparr>ap_audit := ap_audit s @ [\<lparr>au_key = ak_id (ca_key ca), au_action = action, au_target = target,
       au_method = hq_method rq, au_path = take 255 (hq_path rq), au_status = status,
       au_ip = client_ip (ae_cf env) rq,
       au_agent = take 512 (case hq_agent rq of Some a \<Rightarrow> a | None \<Rightarrow> [])\<rparr>]\<rparr>"

section \<open>Idempotency slots\<close>

definition PENDING_STATUS_SENTINEL :: nat where
  "PENDING_STATUS_SENTINEL = 0"

datatype slot_claim = Passthrough | Claimed | Replay nat "post_response option" | In_flight | Reused

definition find_slot :: "nat \<Rightarrow> string \<Rightarrow> api_state \<Rightarrow> idem_row option" where
  "find_slot k text s = tbl_first (\<lambda>r. ir_key r = k \<and> ir_text r = text) (ap_idem s)"

definition claim_idempotency_slot ::
  "instant \<Rightarrow> nat \<Rightarrow> string option \<Rightarrow> string \<Rightarrow> api_state \<Rightarrow> slot_claim \<times> api_state" where
  "claim_idempotency_slot now k text fp s =
    (case text of
       None \<Rightarrow> (Passthrough, s)
     | Some t \<Rightarrow>
        if t = [] then (Passthrough, s)
        else case find_slot k t s of
          None \<Rightarrow> (Claimed, s\<lparr>ap_idem := ap_idem s @ [\<lparr>ir_key = k, ir_text = t, ir_fingerprint = fp,
             ir_status = PENDING_STATUS_SENTINEL, ir_body = None, ir_created_at = now\<rparr>]\<rparr>)
        | Some r \<Rightarrow>
            (if ir_fingerprint r \<noteq> fp then Reused
             else if ir_status r = PENDING_STATUS_SENTINEL then In_flight
             else Replay (ir_status r) (ir_body r), s))"

definition finalize_idempotent_response ::
  "nat \<Rightarrow> string option \<Rightarrow> nat \<Rightarrow> post_response \<Rightarrow> api_state \<Rightarrow> api_state" where
  "finalize_idempotent_response k text status body s =
    (case text of
       None \<Rightarrow> s
     | Some t \<Rightarrow> if t = [] then s
        else s\<lparr>ap_idem := tbl_update (\<lambda>r. ir_key r = k \<and> ir_text r = t)
               (\<lambda>r. r\<lparr>ir_status := status, ir_body := Some body\<rparr>) (ap_idem s)\<rparr>)"

definition release_idempotent_claim :: "nat \<Rightarrow> string option \<Rightarrow> api_state \<Rightarrow> api_state" where
  "release_idempotent_claim k text s =
    (case text of
       None \<Rightarrow> s
     | Some t \<Rightarrow> if t = [] then s
        else s\<lparr>ap_idem := tbl_delete (\<lambda>r. ir_key r = k \<and> ir_text r = t \<and>
               ir_status r = PENDING_STATUS_SENTINEL) (ap_idem s)\<rparr>)"

definition IDEMPOTENCY_RECORD_TTL :: int where
  "IDEMPOTENCY_RECORD_TTL = hours 24"

definition sweep_stale_idempotency_records :: "instant \<Rightarrow> api_state \<Rightarrow> api_state" where
  "sweep_stale_idempotency_records now s =
    s\<lparr>ap_idem := tbl_delete (\<lambda>r. ir_created_at r < now - IDEMPOTENCY_RECORD_TTL) (ap_idem s)\<rparr>"

section \<open>Guards\<close>

definition require_perm :: "caller \<Rightarrow> string \<Rightarrow> http_error option" where
  "require_perm ca k = (if perm_get k (ca_perms ca) then None else Some (HTTP 403 (''Permission denied: '' @ k)))"

definition resolve_account :: "caller \<Rightarrow> nat \<Rightarrow> db \<Rightarrow> http_error + social_account" where
  "resolve_account ca i d =
    (if i \<notin> set (ak_accounts (ca_key ca)) then Inl (HTTP 403 ''SocialAccount is not in this key's allowlist.'')
     else case get_account i d of
       None \<Rightarrow> Inl (HTTP 500 [])
         \<comment> \<open>\<open>DoesNotExist\<close>, where the cached allowlist names a deleted account\<close>
     | Some a \<Rightarrow> Inr a)"

definition get_workspace_post :: "caller \<Rightarrow> nat \<Rightarrow> db \<Rightarrow> post option" where
  \<comment> \<open>\<open>None\<close> for \<open>Http404\<close>\<close>
  "get_workspace_post ca i d =
    (case get_post i d of
       None \<Rightarrow> None
     | Some po \<Rightarrow>
        if po_workspace po \<noteq> ak_workspace (ca_key ca) then None
        else if children i d = [] \<or> \<not> set (map pp_account (children i d)) \<subseteq> set (ak_accounts (ca_key ca)) then None
        else Some po)"

fun first_refusal :: "http_error option list \<Rightarrow> http_error option" where
  \<comment> \<open>checks in order, each of which may raise\<close>
  "first_refusal [] = None"
| "first_refusal (None # cs) = first_refusal cs"
| "first_refusal (Some e # cs) = Some e"

section \<open>Creating a post\<close>

record create_request =
  cr_account :: nat
  cr_caption :: string
  cr_title :: string
  cr_first_comment :: string
  cr_internal_notes :: string
  cr_media :: "nat list"
  cr_overrides :: "(nat \<times> (string option \<times> string option \<times> string option)) list"
  cr_schedule :: bool
    \<comment> \<open>\<open>action == "schedule"\<close>\<close>
  cr_scheduled_at :: "instant option"
  cr_proposed_at :: "instant option"
  cr_body_key :: "string option"
  cr_header_key :: "string option"
  cr_fingerprint :: string
    \<comment> \<open>\<open>fingerprint_request(method, path, body)\<close>\<close>

definition idempotency_key :: "create_request \<Rightarrow> string option" where
  "idempotency_key p =
    (case cr_body_key p of
       Some k \<Rightarrow> if k \<noteq> [] then Some k
         else (case cr_header_key p of Some h \<Rightarrow> if h \<noteq> [] then Some h else None | None \<Rightarrow> None)
     | None \<Rightarrow> (case cr_header_key p of Some h \<Rightarrow> if h \<noteq> [] then Some h else None | None \<Rightarrow> None))"

definition check_create :: "api_env \<Rightarrow> caller \<Rightarrow> create_request \<Rightarrow> db \<Rightarrow> http_error + social_account" where
  \<comment> \<open>what runs before the slot is claimed\<close>
  "check_create env ca p d =
    (case first_refusal [enforce_http_rate_limits (ae_cf env) (ca_key ca) True, require_perm ca ''create_posts'',
         if cr_schedule p then require_perm ca ''publish_directly'' else None] of
       Some e \<Rightarrow> Inl e
     | None \<Rightarrow>
        (case resolve_account ca (cr_account p) d of
           Inl e \<Rightarrow> Inl e
         | Inr a \<Rightarrow>
            if cr_schedule p \<and> cr_scheduled_at p = None
            then Inl (HTTP 422 ''scheduled_at is required when action='schedule'.'')
            else if \<exists>ov \<in> set (cr_overrides p). fst ov \<noteq> cr_account p
            then Inl (HTTP 422 ''platform_overrides[*].social_account_id must match the post's social_account_id'')
            else Inr a))"

definition create_input :: "caller \<Rightarrow> create_request \<Rightarrow> post_input" where
  "create_input ca p =
    \<lparr>in_caption = cr_caption p, in_media = map Some (cr_media p), in_title = cr_title p,
     in_first_comment = cr_first_comment p, in_internal_notes = cr_internal_notes p,
     in_scheduled_at = cr_scheduled_at p,
     in_proposed_at = (if cr_schedule p then None else cr_proposed_at p),
     in_author = ca_user ca, in_status = (if cr_schedule p then ''scheduled'' else ''draft''),
     in_overrides = rev (cr_overrides p)\<rparr>"

definition finish_create ::
  "api_env \<Rightarrow> instant \<Rightarrow> api_request \<Rightarrow> caller \<Rightarrow> create_request \<Rightarrow> social_account \<Rightarrow> bool \<Rightarrow> api_state \<Rightarrow>
    api_answer \<times> api_state" where
  \<comment> \<open>from the quota check on, in the window of the claim\<close>
  "finish_create env now rq ca p a late_failure s =
    (let release = release_idempotent_claim (ak_id (ca_key ca)) (idempotency_key p) in
     case (if cr_schedule p then check_platform_quota (ae_override env) now a (ap_db s) else None) of
       Some e \<Rightarrow> (Refused e, release s)
     | None \<Rightarrow>
        (case create_post now (ca_workspace ca) a (create_input ca p) (ap_db s) of
           Inl DuplicateMedia \<Rightarrow> (Crashed, release s)
         | Inl e \<Rightarrow> (Rejected e, release s)
         | Inr (d, i) \<Rightarrow>
            let s1 = s\<lparr>ap_db := d\<rparr> in
            if late_failure then (Crashed, release s1)
            else
              (case respond ca 201 i d of
                 Replied _ body \<Rightarrow>
                   (Replied 201 body,
                    finalize_idempotent_response (ak_id (ca_key ca)) (idempotency_key p) 201 body
                      (log_audit_entry env rq ca (''post.create.'' @ (if cr_schedule p then ''schedule'' else ''draft''))
                        (Some i) 201 s1))
               | r \<Rightarrow> (r, release s1))))"

definition claim_create :: "instant \<Rightarrow> caller \<Rightarrow> create_request \<Rightarrow> api_state \<Rightarrow> slot_claim \<times> api_state" where
  "claim_create now ca p s =
    claim_idempotency_slot now (ak_id (ca_key ca)) (idempotency_key p) (cr_fingerprint p) s"

definition create_route ::
  "api_env \<Rightarrow> instant \<Rightarrow> api_request \<Rightarrow> caller \<Rightarrow> create_request \<Rightarrow> bool \<Rightarrow> api_state \<Rightarrow> api_answer \<times> api_state" where
  "create_route env now rq ca p late_failure s =
    (case check_create env ca p (ap_db s) of
       Inl e \<Rightarrow> (Refused e, s)
     | Inr a \<Rightarrow>
        (case claim_create now ca p s of
           (Reused, s1) \<Rightarrow> (Refused (HTTP 422 ''idempotency_key reused with a different request body''), s1)
         | (Replay status body, s1) \<Rightarrow> ((case body of Some b \<Rightarrow> Replied status b | None \<Rightarrow> Crashed), s1)
         | (In_flight, s1) \<Rightarrow>
            (Refused (HTTP 409 ''An identical request with this idempotency_key is still in flight; retry shortly.''), s1)
         | (_, s1) \<Rightarrow> finish_create env now rq ca p a late_failure s1))"

section \<open>Reading, updating, scheduling, cancelling\<close>

definition NOT_FOUND :: api_answer where
  "NOT_FOUND = Refused (HTTP 404 ''Not found.'')"

definition retrieve_route :: "api_env \<Rightarrow> api_request \<Rightarrow> caller \<Rightarrow> nat \<Rightarrow> api_state \<Rightarrow> api_answer \<times> api_state" where
  "retrieve_route env rq ca i s =
    (case enforce_http_rate_limits (ae_cf env) (ca_key ca) False of
       Some e \<Rightarrow> (Refused e, s)
     | None \<Rightarrow>
        (case get_workspace_post ca i (ap_db s) of
           None \<Rightarrow> (NOT_FOUND, s)
         | Some po \<Rightarrow> (respond ca 200 i (ap_db s), log_audit_entry env rq ca ''post.read'' (Some i) 200 s)))"

record update_request =
  ur_caption :: "string option"
  ur_title :: "string option"
  ur_first_comment :: "string option"
  ur_internal_notes :: "string option"
  ur_media :: "nat list option"
  ur_scheduled_at :: "instant option"
  ur_proposed_at :: "instant option"

definition or_old :: "'a option \<Rightarrow> 'a \<Rightarrow> 'a" where
  "or_old v old = (case v of Some x \<Rightarrow> x | None \<Rightarrow> old)"

definition updates_fields :: "update_request \<Rightarrow> bool" where
  "updates_fields u \<longleftrightarrow> ur_caption u \<noteq> None \<or> ur_title u \<noteq> None \<or> ur_first_comment u \<noteq> None \<or>
     ur_internal_notes u \<noteq> None \<or> ur_scheduled_at u \<noteq> None \<or> ur_proposed_at u \<noteq> None"

definition retime_children :: "instant \<Rightarrow> nat \<Rightarrow> instant option \<Rightarrow> db \<Rightarrow> db" where
  "retime_children now i at d =
    (if at = None then d
     else update_pps (\<lambda>c. pp_post c = i \<and> pp_status c = SCHEDULED)
       (\<lambda>c. c\<lparr>pp_scheduled_at := at, pp_updated_at := now\<rparr>) d)"

definition replace_media :: "nat \<Rightarrow> nat list option \<Rightarrow> db \<Rightarrow> db" where
  "replace_media i wanted d =
    (case wanted of
       None \<Rightarrow> d
     | Some ids \<Rightarrow> d\<lparr>db_media := tbl_delete (\<lambda>pm. pm_post pm = i) (db_media d) @
         map (\<lambda>(j, a). \<lparr>pm_id = db_next d + j, pm_post = i, pm_asset = a, pm_position = j, pm_alt_text = [],
                        pm_overrides = JObj []\<rparr>) (enumerate 0 ids),
         db_next := db_next d + length ids\<rparr>)"

definition update_fields :: "instant \<Rightarrow> update_request \<Rightarrow> post \<Rightarrow> db \<Rightarrow> db" where
  "update_fields now u po d =
    (if updates_fields u then
       save_post (po\<lparr>po_caption := or_old (ur_caption u) (po_caption po), po_title := or_old (ur_title u) (po_title po),
         po_first_comment := or_old (ur_first_comment u) (po_first_comment po),
         po_internal_notes := or_old (ur_internal_notes u) (po_internal_notes po),
         po_scheduled_at := (if ur_scheduled_at u \<noteq> None then ur_scheduled_at u else po_scheduled_at po),
         po_proposed_at := (if ur_proposed_at u \<noteq> None then ur_proposed_at u else po_proposed_at po),
         po_updated_at := now\<rparr>) d
     else d)"

definition apply_update :: "instant \<Rightarrow> update_request \<Rightarrow> post \<Rightarrow> db \<Rightarrow> db" where
  \<comment> \<open>the body of the transaction\<close>
  "apply_update now u po d =
    sync_post_scheduled_at now (po_id po)
      (update_fields now u po (replace_media (po_id po) (ur_media u) (retime_children now (po_id po) (ur_scheduled_at u) d)))"

definition media_refusal :: "update_request \<Rightarrow> post \<Rightarrow> db \<Rightarrow> http_error option" where
  "media_refusal u po d =
    (case ur_media u of
       None \<Rightarrow> None
     | Some ids \<Rightarrow>
        (let found = filter (\<lambda>a. ma_id a \<in> set ids \<and> ma_workspace a = Some (po_workspace po)) (db_assets d) in
         if \<exists>i \<in> set ids. i \<notin> ma_id ` set found then Some (HTTP 422 ''Media asset(s) not in workspace'')
         else let reason = media_change_blocker (po_id po) (usable_media_types found) d in
           if reason \<noteq> [] then Some (HTTP 422 reason) else None))"

definition update_route ::
  "api_env \<Rightarrow> instant \<Rightarrow> api_request \<Rightarrow> caller \<Rightarrow> nat \<Rightarrow> update_request \<Rightarrow> api_state \<Rightarrow> api_answer \<times> api_state" where
  "update_route env now rq ca i u s =
    (case first_refusal [enforce_http_rate_limits (ae_cf env) (ca_key ca) True, require_perm ca ''create_posts''] of
       Some e \<Rightarrow> (Refused e, s)
     | None \<Rightarrow>
        (case get_workspace_post ca i (ap_db s) of
           None \<Rightarrow> (NOT_FOUND, s)
         | Some po \<Rightarrow>
            if \<not> post_is_editable po (ap_db s)
            then (Refused (HTTP 409 (''Post is not editable in status '' @ post_status po (ap_db s) @ ''.'')), s)
            else
              case first_refusal [if ur_scheduled_at u \<noteq> None \<and> (\<exists>c \<in> set (children i (ap_db s)). pp_status c = SCHEDULED)
                                  then require_perm ca ''publish_directly'' else None,
                                  media_refusal u po (ap_db s)] of
                Some e \<Rightarrow> (Refused e, s)
              | None \<Rightarrow>
                 if (case ur_media u of Some ids \<Rightarrow> \<not> distinct ids | None \<Rightarrow> False) then (Crashed, s)
                   \<comment> \<open>\<open>unique_together\<close> of \<open>PostMedia\<close> rolls the transaction back\<close>
                 else
                   let s1 = s\<lparr>ap_db := apply_update now u po (ap_db s)\<rparr>
                   in (respond ca 200 i (ap_db s1), log_audit_entry env rq ca ''post.update'' (Some i) 200 s1)))"

fun transition_all :: "instant \<Rightarrow> pp_state \<Rightarrow> instant option \<Rightarrow> platform_post list \<Rightarrow> db \<Rightarrow> composer_error + db" where
  \<comment> \<open>the loop inside one transaction: an error rolls all of it back\<close>
  "transition_all now target at [] d = Inr d"
| "transition_all now target at (p # ps) d =
    (case transition_platform_post now p target at d of
       Inl e \<Rightarrow> Inl e
     | Inr (d1, _) \<Rightarrow> transition_all now target at ps d1)"

definition quota_of_child :: "api_env \<Rightarrow> instant \<Rightarrow> db \<Rightarrow> platform_post \<Rightarrow> http_error option" where
  "quota_of_child env now d c =
    (case get_account (pp_account c) d of None \<Rightarrow> None | Some a \<Rightarrow> check_platform_quota (ae_override env) now a d)"

definition move_children ::
  "api_env \<Rightarrow> instant \<Rightarrow> api_request \<Rightarrow> caller \<Rightarrow> nat \<Rightarrow> string \<Rightarrow> pp_state \<Rightarrow> instant option \<Rightarrow> platform_post list \<Rightarrow>
    api_state \<Rightarrow> api_answer \<times> api_state" where
  "move_children env now rq ca i action target at ps s =
    (case transition_all now target at ps (ap_db s) of
       Inl e \<Rightarrow> (Rejected e, s)
     | Inr d \<Rightarrow> (respond ca 200 i d, log_audit_entry env rq ca action (Some i) 200 (s\<lparr>ap_db := d\<rparr>)))"

definition schedule_route ::
  "api_env \<Rightarrow> instant \<Rightarrow> api_request \<Rightarrow> caller \<Rightarrow> nat \<Rightarrow> instant \<Rightarrow> api_state \<Rightarrow> api_answer \<times> api_state" where
  "schedule_route env now rq ca i at s =
    (case first_refusal [enforce_http_rate_limits (ae_cf env) (ca_key ca) True, require_perm ca ''create_posts'',
         require_perm ca ''publish_directly''] of
       Some e \<Rightarrow> (Refused e, s)
     | None \<Rightarrow>
        (case get_workspace_post ca i (ap_db s) of
           None \<Rightarrow> (NOT_FOUND, s)
         | Some po \<Rightarrow>
            let drafts = filter (\<lambda>c. pp_status c = DRAFT) (children i (ap_db s)) in
            if drafts = [] then (Refused (HTTP 409 ''No draft platform posts to schedule.''), s)
            else case first_refusal (map (quota_of_child env now (ap_db s)) drafts) of
              Some e \<Rightarrow> (Refused e, s)
            | None \<Rightarrow> move_children env now rq ca i ''post.schedule'' SCHEDULED (Some at) drafts s))"

definition cancel_route :: "api_env \<Rightarrow> instant \<Rightarrow> api_request \<Rightarrow> caller \<Rightarrow> nat \<Rightarrow> api_state \<Rightarrow> api_answer \<times> api_state" where
  "cancel_route env now rq ca i s =
    (case first_refusal [enforce_http_rate_limits (ae_cf env) (ca_key ca) True, require_perm ca ''create_posts''] of
       Some e \<Rightarrow> (Refused e, s)
     | None \<Rightarrow>
        (case get_workspace_post ca i (ap_db s) of
           None \<Rightarrow> (NOT_FOUND, s)
         | Some po \<Rightarrow>
            let scheduled = filter (\<lambda>c. pp_status c = SCHEDULED) (children i (ap_db s)) in
            if scheduled = [] then (Refused (HTTP 409 ''No scheduled platform posts to cancel.''), s)
            else move_children env now rq ca i ''post.cancel'' DRAFT None scheduled s))"

section \<open>Any request\<close>

datatype api_op =
    Create create_request bool
  | Retrieve nat
  | Update nat update_request
  | Schedule nat instant
  | Cancel nat

fun api_route :: "api_env \<Rightarrow> instant \<Rightarrow> api_request \<Rightarrow> caller \<Rightarrow> api_op \<Rightarrow> api_state \<Rightarrow> api_answer \<times> api_state" where
  "api_route env now rq ca (Create p late) s = create_route env now rq ca p late s"
| "api_route env now rq ca (Retrieve i) s = retrieve_route env rq ca i s"
| "api_route env now rq ca (Update i u) s = update_route env now rq ca i u s"
| "api_route env now rq ca (Schedule i at) s = schedule_route env now rq ca i at s"
| "api_route env now rq ca (Cancel i) s = cancel_route env now rq ca i s"

end
