(* ===== verification/Api_Idempotency.thy ===== *)
theory Api_Idempotency
  imports Api_Posts
begin

text \<open>
  What the idempotency key of the Agent API is worth. Requests of many clients are interleaved at the
  granularity of their transactions: the claim of a slot, the quota check with \<open>create_post\<close>, and what follows
  its commit up to the finalized slot. Any exception in the last part releases the slot and is an event of the
  run; the process that serves a request may die between any two, the sweep may run, and the rest of the
  application may do anything to its own tables. For the statements a run keeps the requests that made a post and
  the numbers of those that raised after it.
\<close>

section \<open>The slot table\<close>

lemma find_slot_claim:
  "find_slot k' t' (s\<lparr>ap_idem := ap_idem s @ [r]\<rparr>) =
    (case find_slot k' t' s of Some x \<Rightarrow> Some x
     | None \<Rightarrow> if ir_key r = k' \<and> ir_text r = t' then Some r else None)"
  by (simp add: find_slot_def tbl_first_append) (simp add: tbl_first_def split: option.split)

lemma find_slot_update:
  assumes "\<And>r. ir_key (f r) = ir_key r" and "\<And>r. ir_text (f r) = ir_text r"
  shows "find_slot k' t' (s\<lparr>ap_idem := tbl_update (\<lambda>r. ir_key r = k \<and> ir_text r = t) f (ap_idem s)\<rparr>) =
    map_option (\<lambda>r. if k' = k \<and> t' = t then f r else r) (find_slot k' t' s)"
proof -
  have "find (\<lambda>r. ir_key r = k' \<and> ir_text r = t') (tbl_update (\<lambda>r. ir_key r = k \<and> ir_text r = t) f rs) =
     map_option (\<lambda>r. if k' = k \<and> t' = t then f r else r) (find (\<lambda>r. ir_key r = k' \<and> ir_text r = t') rs)" for rs
    by (induction rs) (auto simp: assms)
  then show ?thesis by (simp add: find_slot_def tbl_first_def)
qed

lemma find_slot_delete_other:
  assumes "\<And>r. P r \<Longrightarrow> \<not> (ir_key r = k \<and> ir_text r = t)"
  shows "find_slot k t (s\<lparr>ap_idem := tbl_delete P (ap_idem s)\<rparr>) = find_slot k t s"
proof -
  have "find (\<lambda>r. ir_key r = k \<and> ir_text r = t) (tbl_delete P rs) = find (\<lambda>r. ir_key r = k \<and> ir_text r = t) rs" for rs
    using assms by (induction rs) (auto simp: tbl_delete_def)
  then show ?thesis by (simp add: find_slot_def tbl_first_def)
qed

lemma find_slot_delete_kept:
  assumes "find_slot k t s = Some r" and "\<not> P r"
  shows "find_slot k t (s\<lparr>ap_idem := tbl_delete P (ap_idem s)\<rparr>) = Some r"
proof -
  have "find Q rs = Some r \<Longrightarrow> find Q (tbl_delete P rs) = Some r" for Q rs
    using assms(2) by (induction rs) (auto simp: tbl_delete_def split: if_splits)
  then show ?thesis using assms(1) by (simp add: find_slot_def tbl_first_def)
qed

lemma find_slot_row: "find_slot k t s = Some r \<Longrightarrow> ir_key r = k \<and> ir_text r = t"
  by (auto simp: find_slot_def dest: tbl_first_Some)

definition slot_row :: "nat \<Rightarrow> string \<Rightarrow> instant \<Rightarrow> bool \<Rightarrow> api_state \<Rightarrow> bool" where
  \<comment> \<open>the slot is taken, since when, and whether its request is still pending\<close>
  "slot_row k t c pending s =
    (case find_slot k t s of
       None \<Rightarrow> False
     | Some r \<Rightarrow> ir_created_at r = c \<and> (ir_status r = PENDING_STATUS_SENTINEL) = pending)"

lemma slot_row_cong: "ap_idem s = ap_idem s' \<Longrightarrow> slot_row k t c b s = slot_row k t c b s'"
  by (simp add: slot_row_def find_slot_def)

lemma slot_row_claim:
  assumes "claim_idempotency_slot now k text fp s = (v, s1)" and "slot_row k' t' c b s"
  shows "slot_row k' t' c b s1"
  using assms by (auto simp: claim_idempotency_slot_def slot_row_def find_slot_claim split: option.splits if_splits)

lemma claimed_row:
  assumes "claim_idempotency_slot now k (Some t) fp s = (Claimed, s1)"
  shows "slot_row k t now True s1 \<and> find_slot k t s = None"
  using assms by (auto simp: claim_idempotency_slot_def slot_row_def find_slot_claim split: option.splits if_splits)

lemma slot_row_finalize_other:
  "slot_row k' t' c b s \<Longrightarrow> (k', Some t') \<noteq> (k, text) \<Longrightarrow> slot_row k' t' c b (finalize_idempotent_response k text 201 body s)"
  by (auto simp: finalize_idempotent_response_def slot_row_def find_slot_update split: option.splits)

lemma slot_row_finalize:
  "slot_row k t c b s \<Longrightarrow> t \<noteq> [] \<Longrightarrow> slot_row k t c False (finalize_idempotent_response k (Some t) 201 body s)"
  by (auto simp: finalize_idempotent_response_def slot_row_def find_slot_update PENDING_STATUS_SENTINEL_def
      split: option.splits)

lemma slot_row_release:
  assumes "slot_row k' t' c b s" and "b = False \<or> (k', Some t') \<noteq> (k, text)"
  shows "slot_row k' t' c b (release_idempotent_claim k text s)"
proof -
  obtain r where r: "find_slot k' t' s = Some r" "ir_created_at r = c" "(ir_status r = PENDING_STATUS_SENTINEL) = b"
    using assms(1) by (auto simp: slot_row_def split: option.splits)
  have i: "ir_key r = k'" "ir_text r = t'" using find_slot_row [OF r(1)] by simp_all
  show ?thesis
  proof (cases "text = None \<or> text = Some []")
    case True
    then show ?thesis using assms(1) by (auto simp: release_idempotent_claim_def)
  next
    case False
    then obtain t where t: "text = Some t" "t \<noteq> []" by auto
    have "\<not> (ir_key r = k \<and> ir_text r = t \<and> ir_status r = PENDING_STATUS_SENTINEL)"
      using assms(2) r(3) i t(1) by auto
    then have "find_slot k' t' (release_idempotent_claim k text s) = Some r"
      using find_slot_delete_kept [OF r(1)] t by (simp add: release_idempotent_claim_def)
    then show ?thesis using r by (simp add: slot_row_def)
  qed
qed

lemma slot_row_sweep:
  "slot_row k t c b s \<Longrightarrow> now - c \<le> IDEMPOTENCY_RECORD_TTL \<Longrightarrow> slot_row k t c b (sweep_stale_idempotency_records now s)"
  by (auto simp: sweep_stale_idempotency_records_def slot_row_def find_slot_delete_kept split: option.splits)

section \<open>The two halves of a request\<close>

lemma created_post_found:
  assumes "create_post now w a inp d = Inr (d', k)"
  shows "\<exists>po. get_post k d' = Some po"
proof -
  have k: "k = db_next d" and d': "d' = sync_post_scheduled_at now k (fst (insert_post now w a inp d))"
    using create_post_Inr [OF assms] by simp_all
  have "db_posts (fst (insert_post now w a inp d)) \<noteq> [] \<and> po_id (List.last (db_posts (fst (insert_post now w a inp d)))) = k"
    by (simp add: insert_post_def Let_def k)
  then have "k \<in> po_id ` set (db_posts (fst (insert_post now w a inp d)))" by force
  then obtain po where "get_post k (fst (insert_post now w a inp d)) = Some po"
    unfolding get_post_def using tbl_get_None by (metis option.exhaust)
  then show ?thesis unfolding d' by (blast dest: get_post_sync)
qed

definition make_create ::
  "api_env \<Rightarrow> instant \<Rightarrow> caller \<Rightarrow> create_request \<Rightarrow> social_account \<Rightarrow> api_state \<Rightarrow> (api_answer \<times> api_state) + (db \<times> nat)" where
  \<comment> \<open>the quota check and \<open>create_post\<close>, with the releases of their failures\<close>
  "make_create env now ca p a s =
    (let release = release_idempotent_claim (ak_id (ca_key ca)) (idempotency_key p) in
     case (if cr_schedule p then check_platform_quota (ae_override env) now a (ap_db s) else None) of
       Some e \<Rightarrow> Inl (Refused e, release s)
     | None \<Rightarrow>
        (case create_post now (ca_workspace ca) a (create_input ca p) (ap_db s) of
           Inl DuplicateMedia \<Rightarrow> Inl (Crashed, release s)
         | Inl e \<Rightarrow> Inl (Rejected e, release s)
         | Inr (d, i) \<Rightarrow> Inr (d, i)))"

definition close_create ::
  "api_env \<Rightarrow> api_request \<Rightarrow> caller \<Rightarrow> create_request \<Rightarrow> nat \<Rightarrow> bool \<Rightarrow> api_state \<Rightarrow> bool \<times> api_answer \<times> api_state" where
  \<comment> \<open>from the commit of the post on; the first component says that the slot was finalized\<close>
  "close_create env rq ca p i late s =
    (let release = release_idempotent_claim (ak_id (ca_key ca)) (idempotency_key p) in
     if late then (False, Crashed, release s)
     else
       (case respond ca 201 i (ap_db s) of
          Replied _ body \<Rightarrow>
            (True, Replied 201 body,
             finalize_idempotent_response (ak_id (ca_key ca)) (idempotency_key p) 201 body
               (log_audit_entry env rq ca (''post.create.'' @ (if cr_schedule p then ''schedule'' else ''draft''))
                 (Some i) 201 s))
        | r \<Rightarrow> (False, r, release s)))"

text \<open>The two halves are the route, when nothing comes between them.\<close>

lemma finish_create_halves:
  "finish_create env now rq ca p a late s =
    (case make_create env now ca p a s of
       Inl r \<Rightarrow> r
     | Inr (d, i) \<Rightarrow> snd (close_create env rq ca p i late (s\<lparr>ap_db := d\<rparr>)))"
  by (simp add: finish_create_def make_create_def close_create_def Let_def split: option.split sum.split prod.split
      composer_error.split api_answer.split)

lemma make_create_release:
  "make_create env now ca p a s = Inl (ans, s1) \<Longrightarrow> s1 = release_idempotent_claim (ak_id (ca_key ca)) (idempotency_key p) s"
  by (auto simp: make_create_def Let_def split: option.splits sum.splits composer_error.splits)

lemma close_create_cases:
  assumes "close_create env rq ca p i late s = (fin, ans, s1)"
  shows "if fin then \<exists>body. ap_idem s1 = ap_idem (finalize_idempotent_response (ak_id (ca_key ca)) (idempotency_key p) 201 body s)
    else s1 = release_idempotent_claim (ak_id (ca_key ca)) (idempotency_key p) s"
  using assms
  by (auto simp: close_create_def Let_def log_audit_entry_def finalize_idempotent_response_def
      split: if_splits option.splits api_answer.splits)

section \<open>Runs\<close>

record open_request =
  op_id :: nat
  op_http :: api_request
  op_caller :: caller
  op_request :: create_request
  op_account :: social_account
  op_since :: instant
  op_post :: "nat option"
    \<comment> \<open>the post it has made\<close>

record api_run =
  ru_now :: instant
  ru_state :: api_state
  ru_open :: "open_request list"
  ru_next :: nat
  ru_posted :: "open_request list"
    \<comment> \<open>the requests that made a post, in that order\<close>
  ru_lost :: "nat list"
    \<comment> \<open>those that raised after it and released their slot\<close>

datatype run_event =
    Begin api_request caller create_request
  | Make nat
  | Close nat bool
  | Die nat
  | Sweep
  | Tick int
  | World db

definition drop_nth :: "nat \<Rightarrow> 'a list \<Rightarrow> 'a list" where
  "drop_nth i xs = take i xs @ drop (Suc i) xs"

definition in_time :: "instant \<Rightarrow> open_request \<Rightarrow> bool" where
  "in_time now q \<longleftrightarrow> now - op_since q \<le> IDEMPOTENCY_RECORD_TTL"

definition slot_of :: "open_request \<Rightarrow> nat \<times> string option" where
  "slot_of q = (ak_id (ca_key (op_caller q)), idempotency_key (op_request q))"

definition begin_request :: "api_env \<Rightarrow> api_request \<Rightarrow> caller \<Rightarrow> create_request \<Rightarrow> api_run \<Rightarrow> api_run" where
  \<comment> \<open>\<open>create_route\<close> up to the claim\<close>
  "begin_request env rq ca p r =
    (case check_create env ca p (ap_db (ru_state r)) of
       Inl _ \<Rightarrow> r
     | Inr a \<Rightarrow>
        (let (v, s1) = claim_create (ru_now r) ca p (ru_state r)
         in if v = Claimed \<or> v = Passthrough
            then r\<lparr>ru_state := s1, ru_next := Suc (ru_next r), ru_open := ru_open r @ [\<lparr>op_id = ru_next r, op_http = rq,
               op_caller = ca, op_request = p, op_account = a, op_since = ru_now r, op_post = None\<rparr>]\<rparr>
            else r))"

definition make_request :: "api_env \<Rightarrow> nat \<Rightarrow> open_request \<Rightarrow> api_run \<Rightarrow> api_run" where
  "make_request env n q r =
    (case make_create env (ru_now r) (op_caller q) (op_request q) (op_account q) (ru_state r) of
       Inl (ans, s1) \<Rightarrow> r\<lparr>ru_state := s1, ru_open := drop_nth n (ru_open r)\<rparr>
     | Inr (d, i) \<Rightarrow>
         r\<lparr>ru_state := (ru_state r)\<lparr>ap_db := d\<rparr>, ru_open := (ru_open r)[n := q\<lparr>op_post := Some i\<rparr>], ru_posted := ru_posted r @ [q]\<rparr>)"

definition close_request :: "api_env \<Rightarrow> nat \<Rightarrow> open_request \<Rightarrow> nat \<Rightarrow> bool \<Rightarrow> api_run \<Rightarrow> api_run" where
  "close_request env n q i late r =
    (case close_create env (op_http q) (op_caller q) (op_request q) i late (ru_state r) of
       (fin, ans, s1) \<Rightarrow> r\<lparr>ru_state := s1, ru_open := drop_nth n (ru_open r),
         ru_lost := (if fin then ru_lost r else ru_lost r @ [op_id q])\<rparr>)"

fun run_step :: "api_env \<Rightarrow> api_run \<Rightarrow> run_event \<Rightarrow> api_run" where
  \<comment> \<open>a request that has run for a day is dead: the server has timed it out\<close>
  "run_step env r (Begin rq ca p) = begin_request env rq ca p r"
| "run_step env r (Make n) =
    (if n < length (ru_open r) \<and> in_time (ru_now r) (ru_open r ! n) \<and> op_post (ru_open r ! n) = None
     then make_request env n (ru_open r ! n) r else r)"
| "run_step env r (Close n late) =
    (if n < length (ru_open r) \<and> in_time (ru_now r) (ru_open r ! n)
     then (case op_post (ru_open r ! n) of Some i \<Rightarrow> close_request env n (ru_open r ! n) i late r | None \<Rightarrow> r) else r)"
| "run_step env r (Die n) = r\<lparr>ru_open := drop_nth n (ru_open r)\<rparr>"
| "run_step env r Sweep = r\<lparr>ru_state := sweep_stale_idempotency_records (ru_now r) (ru_state r)\<rparr>"
| "run_step env r (Tick n) = r\<lparr>ru_now := ru_now r + \<bar>n\<bar>\<rparr>"
| "run_step env r (World d) = r\<lparr>ru_state := (ru_state r)\<lparr>ap_db := d\<rparr>\<rparr>"

definition first_run :: "instant \<Rightarrow> db \<Rightarrow> api_run" where
  "first_run t d = \<lparr>ru_now = t, ru_state = \<lparr>ap_db = d, ap_idem = [], ap_audit = []\<rparr>, ru_open = [], ru_next = 0,
     ru_posted = [], ru_lost = []\<rparr>"

section \<open>The invariant\<close>

definition live :: "instant \<Rightarrow> open_request list \<Rightarrow> open_request list" where
  "live now qs = filter (\<lambda>q. in_time now q \<and> idempotency_key (op_request q) \<noteq> None) qs"

definition apart :: "nat list \<Rightarrow> open_request \<Rightarrow> open_request \<Rightarrow> bool" where
  \<comment> \<open>on different slots, or more than a day apart, or the first raised after its post\<close>
  "apart lost x y \<longleftrightarrow> slot_of x \<noteq> slot_of y \<or> snd (slot_of x) = None \<or>
    op_since x + IDEMPOTENCY_RECORD_TTL < op_since y \<or> op_id x \<in> set lost"

definition slots_inv :: "api_run \<Rightarrow> bool" where
  "slots_inv r \<longleftrightarrow>
    (\<forall>q k t. q \<in> set (ru_open r) \<longrightarrow> in_time (ru_now r) q \<longrightarrow> slot_of q = (k, Some t) \<longrightarrow>
       slot_row k t (op_since q) True (ru_state r)) \<and>
    distinct (map slot_of (live (ru_now r) (ru_open r))) \<and>
    (\<forall>x k t. x \<in> set (ru_posted r) \<longrightarrow> op_id x \<notin> set (ru_lost r) \<longrightarrow> slot_of x = (k, Some t) \<longrightarrow>
       ru_now r - op_since x \<le> IDEMPOTENCY_RECORD_TTL \<longrightarrow> (\<exists>b. slot_row k t (op_since x) b (ru_state r))) \<and>
    (\<forall>q x k t. q \<in> set (ru_open r) \<longrightarrow> in_time (ru_now r) q \<longrightarrow> x \<in> set (ru_posted r) \<longrightarrow> op_id x \<notin> set (ru_lost r) \<longrightarrow>
       slot_of q = (k, Some t) \<longrightarrow> slot_of x = (k, Some t) \<longrightarrow>
       op_id x = op_id q \<and> op_post q \<noteq> None \<or> op_since x + IDEMPOTENCY_RECORD_TTL < op_since q) \<and>
    sorted_wrt (apart (ru_lost r)) (ru_posted r)"

lemma slots_invI:
  assumes "\<And>q k t. q \<in> set (ru_open r) \<Longrightarrow> in_time (ru_now r) q \<Longrightarrow> slot_of q = (k, Some t) \<Longrightarrow>
      slot_row k t (op_since q) True (ru_state r)"
    and "distinct (map slot_of (live (ru_now r) (ru_open r)))"
    and "\<And>x k t. x \<in> set (ru_posted r) \<Longrightarrow> op_id x \<notin> set (ru_lost r) \<Longrightarrow> slot_of x = (k, Some t) \<Longrightarrow>
       ru_now r - op_since x \<le> IDEMPOTENCY_RECORD_TTL \<Longrightarrow> \<exists>b. slot_row k t (op_since x) b (ru_state r)"
    and "\<And>q x k t. q \<in> set (ru_open r) \<Longrightarrow> in_time (ru_now r) q \<Longrightarrow> x \<in> set (ru_posted r) \<Longrightarrow> op_id x \<notin> set (ru_lost r) \<Longrightarrow>
       slot_of q = (k, Some t) \<Longrightarrow> slot_of x = (k, Some t) \<Longrightarrow>
       op_id x = op_id q \<and> op_post q \<noteq> None \<or> op_since x + IDEMPOTENCY_RECORD_TTL < op_since q"
    and "sorted_wrt (apart (ru_lost r)) (ru_posted r)"
  shows "slots_inv r"
  unfolding slots_inv_def using assms by blast

lemma slots_invD:
  assumes "slots_inv r"
  shows "\<And>q k t. q \<in> set (ru_open r) \<Longrightarrow> in_time (ru_now r) q \<Longrightarrow> slot_of q = (k, Some t) \<Longrightarrow>
      slot_row k t (op_since q) True (ru_state r)"
    and "distinct (map slot_of (live (ru_now r) (ru_open r)))"
    and "\<And>x k t. x \<in> set (ru_posted r) \<Longrightarrow> op_id x \<notin> set (ru_lost r) \<Longrightarrow> slot_of x = (k, Some t) \<Longrightarrow>
       ru_now r - op_since x \<le> IDEMPOTENCY_RECORD_TTL \<Longrightarrow> \<exists>b. slot_row k t (op_since x) b (ru_state r)"
    and "\<And>q x k t. q \<in> set (ru_open r) \<Longrightarrow> in_time (ru_now r) q \<Longrightarrow> x \<in> set (ru_posted r) \<Longrightarrow> op_id x \<notin> set (ru_lost r) \<Longrightarrow>
       slot_of q = (k, Some t) \<Longrightarrow> slot_of x = (k, Some t) \<Longrightarrow>
       op_id x = op_id q \<and> op_post q \<noteq> None \<or> op_since x + IDEMPOTENCY_RECORD_TTL < op_since q"
    and "sorted_wrt (apart (ru_lost r)) (ru_posted r)"
  using assms unfolding slots_inv_def by blast+

lemma set_drop_nth: "x \<in> set (drop_nth i xs) \<Longrightarrow> x \<in> set xs"
  unfolding drop_nth_def set_append by (blast dest: in_set_takeD in_set_dropD)

lemma live_split:
  assumes "i < length qs"
  shows "live now qs = live now (take i qs) @ live now [qs ! i] @ live now (drop (Suc i) qs)"
  by (subst id_take_nth_drop [OF assms]) (simp add: live_def)

lemma live_drop_nth: "live now (drop_nth i qs) = live now (take i qs) @ live now (drop (Suc i) qs)"
  by (simp add: live_def drop_nth_def)

lemma distinct_drop_nth:
  "distinct (map slot_of (live now qs)) \<Longrightarrow> distinct (map slot_of (live now (drop_nth i qs)))"
proof (cases "i < length qs")
  case True
  assume "distinct (map slot_of (live now qs))"
  then show ?thesis unfolding live_split [OF True] live_drop_nth by auto
next
  case False
  assume "distinct (map slot_of (live now qs))"
  then show ?thesis using False by (simp add: drop_nth_def)
qed

lemma dropped_slot_free:
  assumes "distinct (map slot_of (live now qs))" and "i < length qs" and "in_time now (qs ! i)"
    and "q \<in> set (drop_nth i qs)" and "in_time now q" and "slot_of q = (k, Some t)"
  shows "slot_of (qs ! i) \<noteq> (k, Some t)"
proof
  assume s: "slot_of (qs ! i) = (k, Some t)"
  have "live now [qs ! i] = [qs ! i]" using assms(3) s by (simp add: live_def slot_of_def)
  then have "(k, Some t) \<notin> slot_of ` set (live now (drop_nth i qs))"
    using assms(1) s unfolding live_split [OF assms(2)] live_drop_nth by auto
  moreover have "q \<in> set (live now (drop_nth i qs))" using assms(4-6) by (simp add: live_def slot_of_def)
  ultimately show False using assms(6) by (metis image_eqI)
qed


lemma dropped_inv: "slots_inv r \<Longrightarrow> slots_inv (r\<lparr>ru_open := drop_nth i (ru_open r)\<rparr>)"
proof -
  assume i: "slots_inv r"
  show ?thesis
  proof (rule slots_invI, goal_cases)
    case (1 q k t) then show ?case using slots_invD(1) [OF i, of q k t] set_drop_nth [of q] by simp
  next
    case 2 show ?case using distinct_drop_nth slots_invD(2) [OF i] by simp
  next
    case (3 x k t) then show ?case using slots_invD(3) [OF i, of x k t] by simp
  next
    case (4 q x k t) then show ?case using slots_invD(4) [OF i, of q x k t] set_drop_nth [of q] by simp
  next
    case 5 show ?case using slots_invD(5) [OF i] by simp
  qed
qed

lemma ticked_inv: "slots_inv r \<Longrightarrow> slots_inv (r\<lparr>ru_now := ru_now r + \<bar>n\<bar>\<rparr>)"
proof -
  assume i: "slots_inv r"
  have m: "in_time (ru_now r + \<bar>n\<bar>) q \<Longrightarrow> in_time (ru_now r) q" for q by (simp add: in_time_def)
  have "live (ru_now r + \<bar>n\<bar>) (ru_open r) = filter (in_time (ru_now r + \<bar>n\<bar>)) (live (ru_now r) (ru_open r))"
    using m by (auto simp: live_def intro: filter_cong)
  then have d: "distinct (map slot_of (live (ru_now r + \<bar>n\<bar>) (ru_open r)))"
    using slots_invD(2) [OF i] by (simp add: distinct_map_filter)
  show ?thesis
  proof (rule slots_invI, goal_cases)
    case (1 q k t) then show ?case using slots_invD(1) [OF i] m by simp
  next
    case 2 show ?case using d by simp
  next
    case (3 x k t) then show ?case using slots_invD(3) [OF i, of x k t] by simp
  next
    case (4 q x k t) then show ?case using slots_invD(4) [OF i, of q x k t] m by simp
  next
    case 5 show ?case using slots_invD(5) [OF i] by simp
  qed
qed

lemma swept_inv: "slots_inv r \<Longrightarrow> slots_inv (r\<lparr>ru_state := sweep_stale_idempotency_records (ru_now r) (ru_state r)\<rparr>)"
proof -
  assume i: "slots_inv r"
  show ?thesis
  proof (rule slots_invI, goal_cases)
    case (1 q k t) then show ?case using slots_invD(1) [OF i, of q k t] slot_row_sweep by (simp add: in_time_def)
  next
    case 2 show ?case using slots_invD(2) [OF i] by simp
  next
    case (3 x k t) then show ?case using slots_invD(3) [OF i, of x k t] slot_row_sweep by fastforce
  next
    case (4 q x k t) then show ?case using slots_invD(4) [OF i, of q x k t] by simp
  next
    case 5 show ?case using slots_invD(5) [OF i] by simp
  qed
qed

lemma world_inv: "slots_inv r \<Longrightarrow> slots_inv (r\<lparr>ru_state := (ru_state r)\<lparr>ap_db := d\<rparr>\<rparr>)"
proof -
  assume i: "slots_inv r"
  have c: "slot_row k t x b ((ru_state r)\<lparr>ap_db := d\<rparr>) = slot_row k t x b (ru_state r)" for k t x b
    by (rule slot_row_cong) simp
  show ?thesis
  proof (rule slots_invI, goal_cases)
    case (1 q k t) then show ?case using slots_invD(1) [OF i, of q k t] by (simp add: c)
  next
    case 2 show ?case using slots_invD(2) [OF i] by simp
  next
    case (3 x k t) then show ?case using slots_invD(3) [OF i, of x k t] by (simp add: c)
  next
    case (4 q x k t) then show ?case using slots_invD(4) [OF i, of q x k t] by simp
  next
    case 5 show ?case using slots_invD(5) [OF i] by simp
  qed
qed

lemma idempotency_key_ne: "idempotency_key p = Some t \<Longrightarrow> t \<noteq> []"
  by (auto simp: idempotency_key_def split: option.splits if_splits)

lemma begun_inv:
  assumes i: "slots_inv r"
  shows "slots_inv (begin_request env rq ca p r)"
proof (cases "check_create env ca p (ap_db (ru_state r))")
  case (Inl e)
  then show ?thesis using i by (simp add: begin_request_def)
next
  case (Inr a)
  obtain v s1 where c: "claim_create (ru_now r) ca p (ru_state r) = (v, s1)" by fastforce
  define q where "q = \<lparr>op_id = ru_next r, op_http = rq, op_caller = ca, op_request = p, op_account = a, op_since = ru_now r, op_post = None\<rparr>"
  note c' = c [unfolded claim_create_def]
  have kept: "slot_row k t x b s1" if "slot_row k t x b (ru_state r)" for k t x b
    using slot_row_claim [OF c' that] .
  show ?thesis
  proof (cases "v = Claimed \<or> v = Passthrough")
    case False
    then show ?thesis using i Inr c by (simp add: begin_request_def)
  next
    case True
    have r1: "begin_request env rq ca p r = r\<lparr>ru_state := s1, ru_next := Suc (ru_next r), ru_open := ru_open r @ [q]\<rparr>"
      using Inr c True by (simp add: begin_request_def q_def)
    have own: "slot_row k t (ru_now r) True s1 \<and> find_slot k t (ru_state r) = None" if "slot_of q = (k, Some t)" for k t
    proof -
      have k: "k = ak_id (ca_key ca)" "idempotency_key p = Some t" using that by (simp_all add: slot_of_def q_def)
      have "v = Claimed" using True c' k(2) idempotency_key_ne [OF k(2)]
        by (auto simp: claim_idempotency_slot_def split: option.splits if_splits)
      then show ?thesis using claimed_row c' k by simp
    qed
    have old: "slot_of q' \<noteq> slot_of q" if live: "q' \<in> set (live (ru_now r) (ru_open r))" for q'
    proof
      assume e: "slot_of q' = slot_of q"
      obtain k t where k: "slot_of q' = (k, Some t)" using live by (cases "idempotency_key (op_request q')") (simp_all add: live_def slot_of_def)
      then have "slot_row k t (op_since q') True (ru_state r)"
        using slots_invD(1) [OF i] live by (auto simp: live_def)
      then show False using own [of k t] k e by (simp add: slot_row_def)
    qed
    have l: "live (ru_now r) (ru_open r @ [q]) = live (ru_now r) (ru_open r) @ live (ru_now r) [q]" by (simp add: live_def)
    have d: "distinct (map slot_of (live (ru_now r) (ru_open r @ [q])))"
    proof -
      have "live (ru_now r) [q] = [] \<or> live (ru_now r) [q] = [q]" by (simp add: live_def)
      moreover have "slot_of q \<notin> slot_of ` set (live (ru_now r) (ru_open r))" using old by (metis imageE)
      ultimately show ?thesis unfolding l using slots_invD(2) [OF i] by auto
    qed
    show ?thesis unfolding r1
    proof (rule slots_invI, goal_cases)
      case (1 q' k t)
      show ?case
      proof (cases "q' = q")
        case True then show ?thesis using own [of k t] 1 by (simp add: q_def)
      next
        case False then show ?thesis using 1 kept slots_invD(1) [OF i, of q' k t] by simp
      qed
    next
      case 2 show ?case using d by simp
    next
      case (3 x k t)
      then obtain b where "slot_row k t (op_since x) b (ru_state r)" using slots_invD(3) [OF i, of x k t] by auto
      from kept [OF this] show ?case by auto
    next
      case (4 q' x k t)
      show ?case
      proof (cases "q' = q")
        case False then show ?thesis using 4 slots_invD(4) [OF i, of q' x k t] by simp
      next
        case True
        then have "find_slot k t (ru_state r) = None" using own [of k t] 4 by simp
        then have "\<not> slot_row k t c b (ru_state r)" for c b by (simp add: slot_row_def)
        then have "\<not> ru_now r - op_since x \<le> IDEMPOTENCY_RECORD_TTL" using slots_invD(3) [OF i, of x k t] 4 by auto
        then show ?thesis using True by (simp add: q_def)
      qed
    next
      case 5 show ?case using slots_invD(5) [OF i] by simp
    qed
  qed
qed

lemma release_db [frame_simps]: "ap_db (release_idempotent_claim k text s) = ap_db s"
  by (simp add: release_idempotent_claim_def split: option.split)

lemma slot_row_same: "slot_row k t c b s \<Longrightarrow> slot_row k t c' b' s \<Longrightarrow> c = c' \<and> b = b'"
  by (auto simp: slot_row_def split: option.splits)

text \<open>The slot of a request that is released: what the others know of theirs stays.\<close>

lemma released_inv:
  assumes i: "slots_inv r" and n: "n < length (ru_open r)" and t: "in_time (ru_now r) (ru_open r ! n)"
    and q: "q = ru_open r ! n" and lost: "op_post q \<noteq> None \<Longrightarrow> op_id q \<in> set lost" "set (ru_lost r) \<subseteq> set lost"
  shows "slots_inv (r\<lparr>ru_state := release_idempotent_claim (ak_id (ca_key (op_caller q))) (idempotency_key (op_request q)) (ru_state r),
    ru_open := drop_nth n (ru_open r), ru_lost := lost\<rparr>)"
proof -
  let ?rest = "drop_nth n (ru_open r)"
  have qin: "q \<in> set (ru_open r)" using n q by simp
  have kept: "slot_row k t c b (release_idempotent_claim (ak_id (ca_key (op_caller q))) (idempotency_key (op_request q)) (ru_state r))"
    if "slot_row k t c b (ru_state r)" "slot_of q \<noteq> (k, Some t)" for k t c b
    using slot_row_release [OF that(1)] that(2) by (auto simp: slot_of_def)
  show ?thesis
  proof (rule slots_invI, goal_cases)
    case (1 q' k t')
    then have q': "q' \<in> set ?rest" "in_time (ru_now r) q'" "slot_of q' = (k, Some t')" by simp_all
    have "slot_of q \<noteq> (k, Some t')" using dropped_slot_free [OF slots_invD(2) [OF i] n t q'] q by simp
    then show ?case using kept slots_invD(1) [OF i set_drop_nth [OF q'(1)] q'(2,3)] by simp
  next
    case 2 show ?case using distinct_drop_nth slots_invD(2) [OF i] by simp
  next
    case (3 x k t')
    then have x: "x \<in> set (ru_posted r)" "op_id x \<notin> set (ru_lost r)" "op_id x \<notin> set lost" "slot_of x = (k, Some t')"
      "ru_now r - op_since x \<le> IDEMPOTENCY_RECORD_TTL" using lost(2) by auto
    obtain b where b: "slot_row k t' (op_since x) b (ru_state r)" using slots_invD(3) [OF i x(1,2,4,5)] by blast
    have "slot_of q \<noteq> (k, Some t')"
    proof
      assume s: "slot_of q = (k, Some t')"
      have "slot_row k t' (op_since q) True (ru_state r)" using slots_invD(1) [OF i qin t [folded q] s] .
      then have same: "op_since x = op_since q" using slot_row_same [OF b] by blast
      have "op_id x \<noteq> op_id q \<or> op_post q = None" using lost(1) x(3) by metis
      then show False using slots_invD(4) [OF i qin t [folded q] x(1,2) s x(4)] same
        by (auto simp: IDEMPOTENCY_RECORD_TTL_def days_def hours_def seconds_def)
    qed
    then show ?case using kept [OF b] by auto
  next
    case (4 q' x k t')
    then show ?case using slots_invD(4) [OF i, of q' x k t'] set_drop_nth [of q'] lost(2) by auto
  next
    case 5
    have "sorted_wrt (apart lost) (ru_posted r)"
      by (rule sorted_wrt_mono_rel [OF _ slots_invD(5) [OF i]]) (use lost(2) in \<open>auto simp: apart_def\<close>)
    then show ?case by simp
  qed
qed

lemma finalized_inv:
  assumes i: "slots_inv r" and n: "n < length (ru_open r)" and t: "in_time (ru_now r) (ru_open r ! n)"
    and q: "q = ru_open r ! n"
    and s1: "ap_idem s1 = ap_idem (finalize_idempotent_response (ak_id (ca_key (op_caller q))) (idempotency_key (op_request q)) 201 body (ru_state r))"
  shows "slots_inv (r\<lparr>ru_state := s1, ru_open := drop_nth n (ru_open r)\<rparr>)"
proof -
  let ?rest = "drop_nth n (ru_open r)"
  have qin: "q \<in> set (ru_open r)" using n q by simp
  have kept: "slot_row k t c b s1" if "slot_row k t c b (ru_state r)" "slot_of q \<noteq> (k, Some t)" for k t c b
    using slot_row_finalize_other [OF that(1)] that(2) slot_row_cong [OF s1] unfolding slot_of_def by metis
  have done_now: "slot_row k t c False s1" if "slot_row k t c b (ru_state r)" "slot_of q = (k, Some t)" for k t c b
  proof -
    have "idempotency_key (op_request q) = Some t" "k = ak_id (ca_key (op_caller q))" using that(2) by (simp_all add: slot_of_def)
    then show ?thesis using slot_row_finalize [OF that(1) idempotency_key_ne] slot_row_cong [OF s1] by metis
  qed
  show ?thesis
  proof (rule slots_invI, goal_cases)
    case (1 q' k t')
    then have q': "q' \<in> set ?rest" "in_time (ru_now r) q'" "slot_of q' = (k, Some t')" by simp_all
    have "slot_of q \<noteq> (k, Some t')" using dropped_slot_free [OF slots_invD(2) [OF i] n t q'] q by simp
    then show ?case using kept slots_invD(1) [OF i set_drop_nth [OF q'(1)] q'(2,3)] by simp
  next
    case 2 show ?case using distinct_drop_nth slots_invD(2) [OF i] by simp
  next
    case (3 x k t')
    then obtain b where b: "slot_row k t' (op_since x) b (ru_state r)" using slots_invD(3) [OF i, of x k t'] by auto
    show ?case
    proof (cases "slot_of q = (k, Some t')")
      case True then show ?thesis using done_now [OF b] by auto
    next
      case False then show ?thesis using kept [OF b] by auto
    qed
  next
    case (4 q' x k t')
    then show ?case using slots_invD(4) [OF i, of q' x k t'] set_drop_nth [of q'] by simp
  next
    case 5 show ?case using slots_invD(5) [OF i] by simp
  qed
qed

lemma live_update:
  assumes "n < length qs" "slot_of q' = slot_of (qs ! n)" "op_since q' = op_since (qs ! n)"
  shows "map slot_of (live now (qs[n := q'])) = map slot_of (live now qs)"
proof -
  have "map slot_of (live now [q']) = map slot_of (live now [qs ! n])"
    using assms(2,3) by (auto simp: live_def in_time_def slot_of_def)
  moreover have "live now (qs[n := q']) = live now (take n qs) @ live now [q'] @ live now (drop (Suc n) qs)"
    by (subst upd_conv_take_nth_drop [OF assms(1)]) (simp add: live_def)
  ultimately show ?thesis by (simp add: live_split [OF assms(1)])
qed

text \<open>A request makes its post.\<close>

lemma made_inv:
  assumes i: "slots_inv r" and n: "n < length (ru_open r)" and t: "in_time (ru_now r) (ru_open r ! n)"
    and q: "q = ru_open r ! n" "op_post q = None"
  shows "slots_inv (r\<lparr>ru_state := (ru_state r)\<lparr>ap_db := d\<rparr>, ru_open := (ru_open r)[n := q\<lparr>op_post := Some j\<rparr>],
    ru_posted := ru_posted r @ [q]\<rparr>)"
proof -
  let ?q = "q\<lparr>op_post := Some j\<rparr>"
  let ?open = "(ru_open r)[n := ?q]"
  have qin: "q \<in> set (ru_open r)" using n q by simp
  have c: "slot_row k t x b ((ru_state r)\<lparr>ap_db := d\<rparr>) = slot_row k t x b (ru_state r)" for k t x b
    by (rule slot_row_cong) simp
  have same: "slot_of ?q = slot_of q" "op_since ?q = op_since q" "in_time now ?q = in_time now q" "op_id ?q = op_id q" for now
    by (simp_all add: slot_of_def in_time_def)
  have opened: "q' = ?q \<or> q' \<in> set (drop_nth n (ru_open r))" if "q' \<in> set ?open" for q'
    using that n by (auto simp: upd_conv_take_nth_drop drop_nth_def)
  have fresh: "op_since x + IDEMPOTENCY_RECORD_TTL < op_since q"
    if "x \<in> set (ru_posted r)" "op_id x \<notin> set (ru_lost r)" "slot_of x = slot_of q" "slot_of q = (k, Some t')" for x k t'
    using slots_invD(4) [OF i qin t [folded q(1)] that(1,2,4)] that(3,4) q(2) by simp
  show ?thesis
  proof (rule slots_invI, goal_cases)
    case (1 q' k t')
    then have "q' \<in> set ?open" by simp
    from opened [OF this] show ?case
    proof
      assume "q' = ?q" then show ?thesis using 1 slots_invD(1) [OF i qin t [folded q(1)], of k t'] same by (simp add: c)
    next
      assume "q' \<in> set (drop_nth n (ru_open r))"
      then show ?thesis using 1 slots_invD(1) [OF i set_drop_nth, of q' n k t'] by (simp add: c)
    qed
  next
    case 2
    have "map slot_of (live (ru_now r) ?open) = map slot_of (live (ru_now r) (ru_open r))"
      by (rule live_update [OF n]) (simp_all add: q(1) slot_of_def)
    then show ?case using slots_invD(2) [OF i] by simp
  next
    case (3 x k t')
    then have "x = q \<or> x \<in> set (ru_posted r)" by auto
    then show ?case
    proof
      assume "x = q" then show ?thesis using 3 slots_invD(1) [OF i qin t [folded q(1)], of k t'] by (auto simp: c)
    next
      assume "x \<in> set (ru_posted r)" then show ?thesis using 3 slots_invD(3) [OF i, of x k t'] by (simp add: c)
    qed
  next
    case (4 q' x k t')
    then have a: "in_time (ru_now r) q'" "op_id x \<notin> set (ru_lost r)" "slot_of q' = (k, Some t')" "slot_of x = (k, Some t')"
      and xs: "x = q \<or> x \<in> set (ru_posted r)" and qs: "q' = ?q \<or> q' \<in> set (drop_nth n (ru_open r))"
      using opened [of q'] by auto
    from qs show ?case
    proof
      assume q': "q' = ?q"
      then show ?thesis using xs fresh [OF _ a(2), of k t'] a same by auto
    next
      assume q': "q' \<in> set (drop_nth n (ru_open r))"
      have "slot_of q \<noteq> (k, Some t')" using dropped_slot_free [OF slots_invD(2) [OF i] n t q' a(1,3)] q(1) by simp
      then have "x \<in> set (ru_posted r)" using xs a(4) by auto
      then show ?thesis using slots_invD(4) [OF i set_drop_nth [OF q'] a(1) _ a(2,3,4)] by simp
    qed
  next
    case 5
    have "apart (ru_lost r) x q" if "x \<in> set (ru_posted r)" for x
      using fresh [OF that] by (cases "slot_of q") (auto simp: apart_def)
    then show ?case using slots_invD(5) [OF i] by (simp add: sorted_wrt_append)
  qed
qed

lemma api_step_inv:
  assumes i: "slots_inv r"
  shows "slots_inv (run_step env r e)"
proof (cases e)
  case (Make n)
  show ?thesis
  proof (cases "n < length (ru_open r) \<and> in_time (ru_now r) (ru_open r ! n) \<and> op_post (ru_open r ! n) = None")
    case True
    define q where "q = ru_open r ! n"
    have step: "run_step env r e = make_request env n q r" using Make True by (simp add: q_def)
    show ?thesis
    proof (cases "make_create env (ru_now r) (op_caller q) (op_request q) (op_account q) (ru_state r)")
      case (Inl x)
      obtain ans s1 where x: "x = (ans, s1)" by (cases x)
      have "slots_inv (r\<lparr>ru_state := s1, ru_open := drop_nth n (ru_open r), ru_lost := ru_lost r\<rparr>)"
        unfolding make_create_release [OF Inl [unfolded x]]
        by (rule released_inv [OF i]) (use True in \<open>simp_all add: q_def\<close>)
      then show ?thesis using Inl x step by (simp add: make_request_def)
    next
      case (Inr x)
      obtain d j where x: "x = (d, j)" by (cases x)
      show ?thesis using made_inv [OF i _ _ q_def, where d = d and j = j] True Inr x step by (simp add: make_request_def q_def)
    qed
  qed (use i Make in \<open>auto split: if_splits\<close>)
next
  case (Close n late)
  show ?thesis
  proof (cases "n < length (ru_open r) \<and> in_time (ru_now r) (ru_open r ! n) \<and> op_post (ru_open r ! n) \<noteq> None")
    case True
    define q where "q = ru_open r ! n"
    obtain j where j: "op_post q = Some j" using True by (auto simp: q_def)
    have step: "run_step env r e = close_request env n q j late r" using Close True j by (simp add: q_def)
    obtain fin ans s1 where f: "close_create env (op_http q) (op_caller q) (op_request q) j late (ru_state r) = (fin, ans, s1)"
      by (cases "close_create env (op_http q) (op_caller q) (op_request q) j late (ru_state r)") auto
    note cases = close_create_cases [OF f]
    show ?thesis
    proof (cases fin)
      case fin: True
      then obtain body where "ap_idem s1 = ap_idem (finalize_idempotent_response (ak_id (ca_key (op_caller q)))
          (idempotency_key (op_request q)) 201 body (ru_state r))" using cases by auto
      from finalized_inv [OF i _ _ q_def this] True have "slots_inv (r\<lparr>ru_state := s1, ru_open := drop_nth n (ru_open r)\<rparr>)" by blast
      then show ?thesis unfolding step using f fin by (simp add: close_request_def)
    next
      case False
      then have s1: "s1 = release_idempotent_claim (ak_id (ca_key (op_caller q))) (idempotency_key (op_request q)) (ru_state r)"
        using cases by simp
      have "slots_inv (r\<lparr>ru_state := s1, ru_open := drop_nth n (ru_open r), ru_lost := ru_lost r @ [op_id q]\<rparr>)"
        unfolding s1 by (rule released_inv [OF i _ _ q_def]) (use True in auto)
      then show ?thesis unfolding step using f False by (simp add: close_request_def)
    qed
  qed (use i Close in \<open>auto split: if_splits option.splits\<close>)
qed (simp_all add: i begun_inv dropped_inv swept_inv ticked_inv world_inv)

interpretation posting: machine "run_step env" slots_inv for env
  by unfold_locales (rule api_step_inv)

end
