(* ===== verification/Api_Post_Safety.thy ===== *)
theory Api_Post_Safety
  imports Api_Idempotency
begin

text \<open>
  What the post routes of the Agent API do: a key posts at most once a day unless an exception after the post was
  made undoes that promise, no route leaves its scope, what may become scheduled, the daily cap, and what a
  PATCH does to a reviewed post.
\<close>

section \<open>Creating\<close>

lemma insert_post_tables:
  "db_assets (fst (insert_post now w a inp d)) = db_assets d"
  "db_accounts (fst (insert_post now w a inp d)) = db_accounts d"
  "db_workspaces (fst (insert_post now w a inp d)) = db_workspaces d"
  "db_next (fst (insert_post now w a inp d)) = db_next d + 2 + length (in_media inp)"
  by (simp_all add: insert_post_def Let_def)

lemma sync_tables:
  "db_assets (sync_post_scheduled_at now i d) = db_assets d"
  "db_accounts (sync_post_scheduled_at now i d) = db_accounts d"
  "db_workspaces (sync_post_scheduled_at now i d) = db_workspaces d"
  "db_next (sync_post_scheduled_at now i d) = db_next d"
  "po_id ` set (db_posts (sync_post_scheduled_at now i d)) = po_id ` set (db_posts d)"
  by (simp_all add: sync_post_scheduled_at_def save_post_def Let_def flip: set_map split: option.split)

lemma create_post_again:
  assumes "create_post now w a inp d = Inr (d1, i)"
  shows "\<exists>d2. create_post now' w a inp d1 = Inr (d2, i + 2 + length (in_media inp))"
proof -
  have e: "db_assets d1 = db_assets d" "db_next d1 = i + 2 + length (in_media inp)"
    using create_post_Inr [OF assms] by (simp_all add: insert_post_tables sync_tables)
  have f: "found_assets (ws_id w) (in_media inp) d1 = found_assets (ws_id w) (in_media inp) d"
      "missing_assets (ws_id w) (in_media inp) d1 = missing_assets (ws_id w) (in_media inp) d"
    by (simp_all add: found_assets_def missing_assets_def e)
  have "distinct (in_media inp)"
    using assms by (auto simp: create_post_def Let_def split: if_splits)
  then have "create_post now' w a inp d1 =
      Inr (sync_post_scheduled_at now' (db_next d1) (fst (insert_post now' w a inp d1)), db_next d1)"
    using create_post_Inr [OF assms] unfolding create_post_def f
    by (simp add: Let_def insert_post_def split: prod.split)
  then show ?thesis using e by simp
qed

lemma created_ids:
  assumes "create_post now w a inp d = Inr (d', i)"
  shows "po_id ` set (db_posts d') = insert i (po_id ` set (db_posts d))"
  using create_post_Inr [OF assms] by (simp add: sync_tables) (simp add: insert_post_def Let_def)

lemma check_create_cong:
  assumes "db_accounts d = db_accounts d'"
  shows "check_create env ca p d = check_create env ca p d'"
proof -
  have "resolve_account ca i d = resolve_account ca i d'" for i
    by (simp add: resolve_account_def get_account_def assms)
  then show ?thesis by (simp only: check_create_def)
qed

lemma finish_create_made:
  assumes "cr_schedule p \<longrightarrow> check_platform_quota (ae_override env) now a (ap_db s) = None" and "create_post now (ca_workspace ca) a (create_input ca p) (ap_db s) = Inr (d, i)"
  shows "finish_create env now rq ca p a True s =
      (Crashed, release_idempotent_claim (ak_id (ca_key ca)) (idempotency_key p) (s\<lparr>ap_db := d\<rparr>))"
    and "\<exists>body s2. finish_create env now rq ca p a False s = (Replied 201 body, s2) \<and> pr_id body = i \<and> ap_db s2 = d"
proof -
  obtain po where po: "get_post i d = Some po" using created_post_found [OF assms(2)] by blast
  then have i: "po_id po = i" by (simp add: get_post_def) (blast dest: tbl_get_Some)
  show "finish_create env now rq ca p a True s =
      (Crashed, release_idempotent_claim (ak_id (ca_key ca)) (idempotency_key p) (s\<lparr>ap_db := d\<rparr>))"
    using assms by (simp add: finish_create_def Let_def)
  show "\<exists>body s2. finish_create env now rq ca p a False s = (Replied 201 body, s2) \<and> pr_id body = i \<and> ap_db s2 = d"
    using assms po i
    by (auto simp: finish_create_def Let_def respond_def post_response_of_def log_audit_entry_def
        finalize_idempotent_response_def split: option.split)
qed

lemma claim_free:
  assumes "find_slot k t s = None" and "t \<noteq> []"
  shows "\<exists>s1. claim_idempotency_slot now k (Some t) fp s = (Claimed, s1) \<and> ap_db s1 = ap_db s \<and>
    find_slot k t (release_idempotent_claim k (Some t) (s1\<lparr>ap_db := d\<rparr>)) = None"
proof -
  have "\<forall>r \<in> set (ap_idem s). \<not> (ir_key r = k \<and> ir_text r = t)"
    using assms(1) by (simp add: find_slot_def tbl_first_None)
  moreover define r0 where "r0 = \<lparr>ir_key = k, ir_text = t, ir_fingerprint = fp,
      ir_status = PENDING_STATUS_SENTINEL, ir_body = None, ir_created_at = now\<rparr>"
  have "ir_key r0 = k" "ir_text r0 = t" "ir_status r0 = PENDING_STATUS_SENTINEL" by (simp_all add: r0_def)
  moreover have "claim_idempotency_slot now k (Some t) fp s = (Claimed, s\<lparr>ap_idem := ap_idem s @ [r0]\<rparr>)"
    using assms by (simp add: claim_idempotency_slot_def r0_def)
  ultimately show ?thesis using assms(2)
    by (auto simp: release_idempotent_claim_def find_slot_def tbl_first_None tbl_delete_def)
qed

text \<open>
  C16. An idempotency key is good for one post a day, unless a request fails after its post: however the create
  requests of all clients are interleaved, repeated and killed between their transactions, whenever the sweep
  runs and whatever the rest of the application does, if two requests on one slot both make a post, then their
  claims are more than a day apart, or the first of them raised after its post had been committed and so released
  the slot.
\<close>

theorem one_post_per_idempotency_key:
  "sorted_wrt (apart (ru_lost (foldl (run_step env) (first_run t d) es))) (ru_posted (foldl (run_step env) (first_run t d) es))"
proof -
  have "slots_inv (first_run t d)" by (rule slots_invI) (simp_all add: first_run_def live_def)
  then show ?thesis by (rule slots_invD(5) [OF posting.run_inv])
qed

text \<open>
  C17. An exception after \<open>create_post\<close> has committed makes the retry post again: the route answers with an
  error and releases the slot, the post stays, and the same request sent once more, with the same
  idempotency key, is answered 201 with a second post. A request that schedules must find room under the daily cap
  both times; one that only saves a draft needs nothing more.
\<close>

theorem late_failure_posts_twice:
  assumes "check_create env ca p (ap_db s) = Inr a" and "idempotency_key p = Some t"
    and "find_slot (ak_id (ca_key ca)) t s = None"
    and "create_post now (ca_workspace ca) a (create_input ca p) (ap_db s) = Inr (d1, i)"
    and "cr_schedule p \<Longrightarrow> check_platform_quota (ae_override env) now a (ap_db s) = None"
    and "cr_schedule p \<Longrightarrow> check_platform_quota (ae_override env) now' a d1 = None"
  shows "\<exists>s1 s2 body. create_route env now rq ca p True s = (Crashed, s1) \<and>
      create_route env now' rq ca p False s1 = (Replied 201 body, s2) \<and>
      pr_id body \<noteq> i \<and> {i, pr_id body} \<subseteq> po_id ` set (db_posts (ap_db s2))"
proof -
  let ?k = "ak_id (ca_key ca)"
  have t: "t \<noteq> []" using idempotency_key_ne [OF assms(2)] .
  obtain s0 where s0: "claim_idempotency_slot now ?k (Some t) (cr_fingerprint p) s = (Claimed, s0)" "ap_db s0 = ap_db s"
      "find_slot ?k t (release_idempotent_claim ?k (Some t) (s0\<lparr>ap_db := d1\<rparr>)) = None"
    using claim_free [OF assms(3) t] by blast
  define s1 where "s1 = release_idempotent_claim ?k (Some t) (s0\<lparr>ap_db := d1\<rparr>)"
  have one: "create_route env now rq ca p True s = (Crashed, s1)"
    using assms(1,2,4) finish_create_made(1) [of p env now a s0 ca d1 i rq] assms(5) s0
    by (simp add: create_route_def claim_create_def s1_def)
  have d1: "ap_db s1 = d1" by (simp add: s1_def release_db)
  have acc: "db_accounts d1 = db_accounts (ap_db s)"
    using create_post_Inr [OF assms(4)] by (simp add: sync_tables insert_post_tables)
  obtain s3 where s3: "claim_idempotency_slot now' ?k (Some t) (cr_fingerprint p) s1 = (Claimed, s3)" "ap_db s3 = d1"
    using claim_free [OF s0(3) [folded s1_def] t, of now' "cr_fingerprint p" d1] d1 by auto
  obtain d2 where d2: "create_post now' (ca_workspace ca) a (create_input ca p) (ap_db s3) = Inr (d2, i + 2 + length (in_media (create_input ca p)))"
    using create_post_again [OF assms(4), of now'] s3(2) by auto
  obtain body s2 where two: "finish_create env now' rq ca p a False s3 = (Replied 201 body, s2)"
      "pr_id body = i + 2 + length (in_media (create_input ca p))" "ap_db s2 = d2"
    using finish_create_made(2) [OF _ d2, of env rq] assms(6) s3(2) by auto
  have "check_create env ca p (ap_db s1) = Inr a"
    using assms(1) check_create_cong [OF acc] d1 by simp
  then have "create_route env now' rq ca p False s1 = (Replied 201 body, s2)"
    using assms(2) s3 two(1) by (simp add: create_route_def claim_create_def)
  moreover have "{i, pr_id body} \<subseteq> po_id ` set (db_posts (ap_db s2))"
    using created_ids [OF assms(4)] created_ids [OF d2] s3(2) two(2,3) by simp
  ultimately show ?thesis using one two(2) by auto
qed

section \<open>What each route does to the database\<close>

lemma respond_db: "ap_db (log_audit_entry env rq ca act x st s) = ap_db s"
  by (simp add: log_audit_entry_def)

lemma finalize_db: "ap_db (finalize_idempotent_response k t st b s) = ap_db s"
  by (simp add: finalize_idempotent_response_def split: option.split)

lemma claim_db: "ap_db (snd (claim_idempotency_slot now k t fp s)) = ap_db s"
  by (simp add: claim_idempotency_slot_def split: option.split)

lemma finish_create_db:
  "ap_db (snd (finish_create env now rq ca p a late s)) = ap_db s \<or>
   (\<exists>d i. create_post now (ca_workspace ca) a (create_input ca p) (ap_db s) = Inr (d, i) \<and>
      ap_db (snd (finish_create env now rq ca p a late s)) = d \<and>
      (cr_schedule p \<longrightarrow> check_platform_quota (ae_override env) now a (ap_db s) = None))"
proof (cases "if cr_schedule p then check_platform_quota (ae_override env) now a (ap_db s) else None")
  case (Some e)
  then show ?thesis by (simp add: finish_create_def Let_def release_db)
next
  case None
  note q = None
  show ?thesis
  proof (cases "create_post now (ca_workspace ca) a (create_input ca p) (ap_db s)")
    case (Inl e)
    then show ?thesis using q by (cases e) (simp_all add: finish_create_def Let_def release_db)
  next
    case (Inr r)
    obtain d i where r: "r = (d, i)" by (cases r)
    have "ap_db (snd (finish_create env now rq ca p a late s)) = d"
      using q Inr r by (simp add: finish_create_def Let_def release_db finalize_db respond_db respond_def split: option.split)
    then show ?thesis using Inr r q by (auto split: if_splits)
  qed
qed

lemma first_refusal_None: "first_refusal cs = None \<longleftrightarrow> (\<forall>c \<in> set cs. c = None)"
  by (induction cs rule: first_refusal.induct) auto

lemma require_perm_None: "require_perm ca k = None \<longleftrightarrow> perm_get k (ca_perms ca)"
  by (simp add: require_perm_def)

lemma check_create_Inr:
  assumes "check_create env ca p d = Inr a"
  shows "perm_get ''create_posts'' (ca_perms ca)" "cr_schedule p \<Longrightarrow> perm_get ''publish_directly'' (ca_perms ca)"
    "sa_id a \<in> set (ak_accounts (ca_key ca))" "get_account (sa_id a) d = Some a"
proof -
  obtain b where "first_refusal [enforce_http_rate_limits (ae_cf env) (ca_key ca) True, require_perm ca ''create_posts'',
         if cr_schedule p then require_perm ca ''publish_directly'' else None] = None"
      and b: "resolve_account ca (cr_account p) d = Inr b" "b = a"
    using assms by (auto simp: check_create_def simp del: first_refusal.simps split: option.splits sum.splits if_splits)
  then show "perm_get ''create_posts'' (ca_perms ca)" "cr_schedule p \<Longrightarrow> perm_get ''publish_directly'' (ca_perms ca)"
    by (simp_all add: first_refusal_None require_perm_None)
  have "cr_account p \<in> set (ak_accounts (ca_key ca))" "get_account (cr_account p) d = Some a"
    using b by (auto simp: resolve_account_def split: if_splits option.splits)
  moreover have "sa_id a = cr_account p"
    using calculation(2) by (simp add: get_account_def) (blast dest: tbl_get_Some)
  ultimately show "sa_id a \<in> set (ak_accounts (ca_key ca))" "get_account (sa_id a) d = Some a" by simp_all
qed

lemma create_route_db:
  "ap_db (snd (create_route env now rq ca p late s)) = ap_db s \<or>
   (\<exists>a d i. check_create env ca p (ap_db s) = Inr a \<and>
      create_post now (ca_workspace ca) a (create_input ca p) (ap_db s) = Inr (d, i) \<and>
      ap_db (snd (create_route env now rq ca p late s)) = d \<and>
      (cr_schedule p \<longrightarrow> check_platform_quota (ae_override env) now a (ap_db s) = None))"
proof (cases "check_create env ca p (ap_db s)")
  case (Inl e)
  then show ?thesis by (simp add: create_route_def)
next
  case (Inr a)
  obtain v s1 where c: "claim_create now ca p s = (v, s1)" by fastforce
  have s1: "ap_db s1 = ap_db s" using claim_db [of now "ak_id (ca_key ca)" "idempotency_key p" "cr_fingerprint p" s] c
    by (simp add: claim_create_def)
  have "snd (create_route env now rq ca p late s) = s1 \<or>
      snd (create_route env now rq ca p late s) = snd (finish_create env now rq ca p a late s1)"
    using Inr c by (cases v) (simp_all add: create_route_def)
  then show ?thesis using s1 finish_create_db [of env now rq ca p a late s1] Inr by auto
qed

lemma retrieve_route_db: "ap_db (snd (retrieve_route env rq ca i s)) = ap_db s"
  by (simp add: retrieve_route_def respond_db split: option.split)

lemma update_route_db:
  "ap_db (snd (update_route env now rq ca i u s)) = ap_db s \<or>
   (\<exists>po. get_workspace_post ca i (ap_db s) = Some po \<and> perm_get ''create_posts'' (ca_perms ca) \<and>
      post_is_editable po (ap_db s) \<and> ap_db (snd (update_route env now rq ca i u s)) = apply_update now u po (ap_db s))"
proof (cases "first_refusal [enforce_http_rate_limits (ae_cf env) (ca_key ca) True, require_perm ca ''create_posts'']")
  case (Some e)
  then show ?thesis by (simp only: update_route_def) simp
next
  case None
  note g = None
  have perm: "perm_get ''create_posts'' (ca_perms ca)" using None by (simp add: first_refusal_None require_perm_None)
  show ?thesis
  proof (cases "get_workspace_post ca i (ap_db s)")
    case None
    then show ?thesis using g by (simp only: update_route_def) simp
  next
    case (Some po)
    show ?thesis
    proof (cases "post_is_editable po (ap_db s)")
      case True
      then show ?thesis unfolding update_route_def g Some using perm
        by (simp add: Let_def respond_db split: option.split)
    qed (use g Some in \<open>simp only: update_route_def, simp\<close>)
  qed
qed

lemma move_children_db:
  "ap_db (snd (move_children env now rq ca i act target at ps s)) = ap_db s \<or>
   transition_all now target at ps (ap_db s) = Inr (ap_db (snd (move_children env now rq ca i act target at ps s)))"
  by (simp add: move_children_def respond_db split: sum.split)

lemma schedule_route_db:
  "ap_db (snd (schedule_route env now rq ca i at s)) = ap_db s \<or>
   (\<exists>po. get_workspace_post ca i (ap_db s) = Some po \<and> perm_get ''create_posts'' (ca_perms ca) \<and>
      perm_get ''publish_directly'' (ca_perms ca) \<and>
      (\<forall>c \<in> set (children i (ap_db s)). pp_status c = DRAFT \<longrightarrow> quota_of_child env now (ap_db s) c = None) \<and>
      transition_all now SCHEDULED (Some at) (filter (\<lambda>c. pp_status c = DRAFT) (children i (ap_db s))) (ap_db s) =
        Inr (ap_db (snd (schedule_route env now rq ca i at s))))"
proof (cases "first_refusal [enforce_http_rate_limits (ae_cf env) (ca_key ca) True, require_perm ca ''create_posts'',
         require_perm ca ''publish_directly'']")
  case (Some e)
  then show ?thesis by (simp only: schedule_route_def) simp
next
  case None
  note g = None
  have perm: "perm_get ''create_posts'' (ca_perms ca)" "perm_get ''publish_directly'' (ca_perms ca)"
    using None by (simp_all add: first_refusal_None require_perm_None)
  let ?ps = "filter (\<lambda>c. pp_status c = DRAFT) (children i (ap_db s))"
  show ?thesis
  proof (cases "get_workspace_post ca i (ap_db s)")
    case None
    then show ?thesis using g by (simp only: schedule_route_def) simp
  next
    case (Some po)
    have q: "first_refusal (map (quota_of_child env now (ap_db s)) ?ps) = None \<longleftrightarrow>
        (\<forall>c \<in> set (children i (ap_db s)). pp_status c = DRAFT \<longrightarrow> quota_of_child env now (ap_db s) c = None)"
      by (auto simp: first_refusal_None)
    show ?thesis unfolding schedule_route_def g Some q [symmetric]
      using perm move_children_db [of env now rq ca i "''post.schedule''" SCHEDULED "Some at" ?ps s]
      by (auto simp: Let_def split: option.split)
  qed
qed

lemma cancel_route_db:
  "ap_db (snd (cancel_route env now rq ca i s)) = ap_db s \<or>
   (\<exists>po. get_workspace_post ca i (ap_db s) = Some po \<and>
      transition_all now DRAFT None (filter (\<lambda>c. pp_status c = SCHEDULED) (children i (ap_db s))) (ap_db s) =
        Inr (ap_db (snd (cancel_route env now rq ca i s))))"
proof (cases "first_refusal [enforce_http_rate_limits (ae_cf env) (ca_key ca) True, require_perm ca ''create_posts'']")
  case (Some e)
  then show ?thesis by (simp only: cancel_route_def) simp
next
  case None
  note g = None
  show ?thesis
  proof (cases "get_workspace_post ca i (ap_db s)")
    case None
    then show ?thesis using g by (simp only: cancel_route_def) simp
  next
    case (Some po)
    show ?thesis unfolding cancel_route_def g Some
      using move_children_db [of env now rq ca i "''post.cancel''" DRAFT None "filter (\<lambda>c. pp_status c = SCHEDULED) (children i (ap_db s))" s]
      by (auto simp: Let_def)
  qed
qed

section \<open>Moving the channels of a post\<close>

definition pp_ids :: "db \<Rightarrow> (nat \<times> nat \<times> nat) list" where
  \<comment> \<open>the columns of a platform post no route rewrites: its key, its post and its account\<close>
  "pp_ids d = map (\<lambda>r. (pp_id r, pp_post r, pp_account r)) (db_pps d)"

lemma pp_ids_frame:
  "pp_ids (sync_post_scheduled_at now i d) = pp_ids d"
  "pp_ids (save_transition q b now d) = pp_ids d"
  "pp_ids (drop_entries i a d) = pp_ids d"
  by (simp_all add: pp_ids_def frame_simps drop_entries_def save_transition_def update_pps_def map_tbl_update)

lemma workspace_of_post_frame:
  "workspace_of_post i (sync_post_scheduled_at now j d) = workspace_of_post i d"
proof (cases "get_post j d")
  case None
  then show ?thesis by (simp add: sync_post_scheduled_at_def)
next
  case (Some po)
  have o: "get_post i (sync_post_scheduled_at now j d) = get_post i d" if "i \<noteq> j"
    using that posts.get_key [OF Some]
    by (simp add: sync_post_scheduled_at_def Let_def Some posts.get_save_other)
  have w: "get_workspace k (sync_post_scheduled_at now j d) = get_workspace k d" for k
    by (simp add: get_workspace_def sync_tables)
  show ?thesis
  proof (cases "i = j")
    case True
    then show ?thesis using get_post_sync [OF Some, of now] Some w by (auto simp: workspace_of_post_def Let_def split: if_splits)
  next
    case False
    then show ?thesis using o w by (simp add: workspace_of_post_def split: option.split)
  qed
qed

lemma moved_row:
  assumes "transition_platform_post now p target at d = Inr (d', q)"
  shows "\<exists>q' b d1. d' = sync_post_scheduled_at now (pp_post p) (save_transition q' b now d1) \<and> pp_id q' = pp_id p \<and>
    pp_status q' = target \<and> (d1 = d \<or> d1 = drop_entries (pp_post p) (pp_account p) d)"
    and "target = SCHEDULED \<Longrightarrow> workspace_of_post (pp_post p) d = Some w \<Longrightarrow> approval_gate_passes w"
proof -
  have g: "\<not> (target = SCHEDULED \<and>
        (case workspace_of_post (pp_post p) d of Some w \<Rightarrow> \<not> approval_gate_passes w | None \<Rightarrow> False))"
    using assms unfolding transition_platform_post_def by (auto split: if_splits)
  have r: "(if target = SCHEDULED then require_publishable p None d else None) = None"
  proof (cases "if target = SCHEDULED then require_publishable p None d else None")
    case (Some e)
    then show ?thesis using assms unfolding transition_platform_post_def if_not_P [OF g] Some by simp
  qed
  have "\<exists>q0. transition_to now p target = Inr q0"
  proof (cases "transition_to now p target")
    case (Inl e)
    then show ?thesis using assms unfolding transition_platform_post_def if_not_P [OF g] r by simp
  qed simp
  then obtain q0 where q0: "transition_to now p target = Inr q0" by blast
  have i: "pp_id q0 = pp_id p" "pp_status q0 = target"
    using q0 by (auto simp: transition_to_def Let_def split: if_splits)
  show "target = SCHEDULED \<Longrightarrow> workspace_of_post (pp_post p) d = Some w \<Longrightarrow> approval_gate_passes w" using g by auto
  consider "target = SCHEDULED" | "target = DRAFT" | "target \<noteq> SCHEDULED" "target \<noteq> DRAFT" by blast
  then show "\<exists>q' b d1. d' = sync_post_scheduled_at now (pp_post p) (save_transition q' b now d1) \<and> pp_id q' = pp_id p \<and>
    pp_status q' = target \<and> (d1 = d \<or> d1 = drop_entries (pp_post p) (pp_account p) d)"
  proof cases
    case 1
    then have "d' = sync_post_scheduled_at now (pp_post p)
        (save_transition (if at \<noteq> None then q0\<lparr>pp_scheduled_at := at\<rparr> else q0) (at \<noteq> None) now d)"
      using assms q0 unfolding transition_platform_post_def if_not_P [OF g] r by (cases at) (auto simp: Let_def)
    moreover have "pp_id (if at \<noteq> None then q0\<lparr>pp_scheduled_at := at\<rparr> else q0) = pp_id p"
        "pp_status (if at \<noteq> None then q0\<lparr>pp_scheduled_at := at\<rparr> else q0) = target" using i by simp_all
    ultimately show ?thesis by blast
  next
    case 2
    then have "d' = sync_post_scheduled_at now (pp_post p)
        (save_transition (q0\<lparr>pp_scheduled_at := None\<rparr>) (pp_scheduled_at q0 \<noteq> None) now (drop_entries (pp_post p) (pp_account p) d))"
      using assms q0 unfolding transition_platform_post_def if_not_P [OF g] r by (auto simp: Let_def)
    moreover have "pp_id (q0\<lparr>pp_scheduled_at := None\<rparr>) = pp_id p" "pp_status (q0\<lparr>pp_scheduled_at := None\<rparr>) = target"
      using i by simp_all
    ultimately show ?thesis by blast
  next
    case 3
    then have "d' = sync_post_scheduled_at now (pp_post p) (save_transition q0 False now d)"
      using assms q0 unfolding transition_platform_post_def if_not_P [OF g] r by (auto simp: Let_def)
    then show ?thesis using i by blast
  qed
qed

lemma moved_get_pp:
  assumes "transition_platform_post now p target at d = Inr (d', q)"
  shows "get_pp j d' = (if j = pp_id p then get_pp j d' else get_pp j d)"
    and "get_pp j d = Some r \<Longrightarrow> \<exists>r'. get_pp j d' = Some r' \<and> pp_account r' = pp_account r \<and> pp_post r' = pp_post r \<and>
      pp_updated_at r' = (if j = pp_id p then now else pp_updated_at r) \<and>
      pp_status r' = (if j = pp_id p then target else pp_status r)"
    and "pp_ids d' = pp_ids d"
proof -
  obtain q' b d1 where d': "d' = sync_post_scheduled_at now (pp_post p) (save_transition q' b now d1)" "pp_id q' = pp_id p"
      "pp_status q' = target" "d1 = d \<or> d1 = drop_entries (pp_post p) (pp_account p) d"
    using moved_row(1) [OF assms] by blast
  have g: "get_pp j d1 = get_pp j d" for j using d'(4) by (auto simp: frame_simps)
  show "get_pp j d' = (if j = pp_id p then get_pp j d' else get_pp j d)"
    using d' g by (auto simp: frame_simps get_pp_save_transition split: option.split)
  show "get_pp j d = Some r \<Longrightarrow> \<exists>r'. get_pp j d' = Some r' \<and> pp_account r' = pp_account r \<and> pp_post r' = pp_post r \<and>
      pp_updated_at r' = (if j = pp_id p then now else pp_updated_at r) \<and>
      pp_status r' = (if j = pp_id p then target else pp_status r)"
    using d' g by (simp add: frame_simps get_pp_save_transition)
  show "pp_ids d' = pp_ids d" using d'(1,4) by (auto simp: pp_ids_frame)
qed

lemma transition_all_Cons:
  assumes "transition_all now target at (p # ps) d = Inr d'"
  obtains d1 q where "transition_platform_post now p target at d = Inr (d1, q)" and "transition_all now target at ps d1 = Inr d'"
  using assms by (auto split: sum.splits)

lemma all_moved:
  assumes "transition_all now target at ps d = Inr d'"
  shows "j \<notin> pp_id ` set ps \<Longrightarrow> get_pp j d' = get_pp j d"
    and "get_pp j d = Some r \<Longrightarrow> \<exists>r'. get_pp j d' = Some r' \<and> pp_account r' = pp_account r \<and> pp_post r' = pp_post r \<and>
      pp_status r' = (if j \<in> pp_id ` set ps then target else pp_status r)"
    and "pp_ids d' = pp_ids d"
proof -
  have "(j \<notin> pp_id ` set ps \<longrightarrow> get_pp j d' = get_pp j d) \<and>
    (\<forall>r. get_pp j d = Some r \<longrightarrow> (\<exists>r'. get_pp j d' = Some r' \<and> pp_account r' = pp_account r \<and> pp_post r' = pp_post r \<and>
      pp_status r' = (if j \<in> pp_id ` set ps then target else pp_status r))) \<and> pp_ids d' = pp_ids d"
    using assms
  proof (induction ps arbitrary: d)
    case Nil
    then show ?case by simp
  next
    case (Cons p ps)
    obtain d1 q where t: "transition_platform_post now p target at d = Inr (d1, q)" "transition_all now target at ps d1 = Inr d'"
      using transition_all_Cons [OF Cons.prems] .
    note m = moved_get_pp [OF t(1)] and IH = Cons.IH [OF t(2)]
    show ?case
    proof (intro conjI allI impI)
      assume j: "j \<notin> pp_id ` set (p # ps)"
      then have "get_pp j d1 = get_pp j d" using m(1) [of j] by simp
      then show "get_pp j d' = get_pp j d" using IH j by simp
    next
      fix r
      assume r: "get_pp j d = Some r"
      obtain r1 where r1: "get_pp j d1 = Some r1" "pp_account r1 = pp_account r" "pp_post r1 = pp_post r"
          "pp_status r1 = (if j = pp_id p then target else pp_status r)"
        using m(2) [OF r] by blast
      obtain r2 where r2: "get_pp j d' = Some r2" "pp_account r2 = pp_account r1" "pp_post r2 = pp_post r1"
          "pp_status r2 = (if j \<in> pp_id ` set ps then target else pp_status r1)"
        using IH r1(1) by blast
      then show "\<exists>r'. get_pp j d' = Some r' \<and> pp_account r' = pp_account r \<and> pp_post r' = pp_post r \<and>
          pp_status r' = (if j \<in> pp_id ` set (p # ps) then target else pp_status r)" using r1 by auto
    next
      show "pp_ids d' = pp_ids d" using IH m(3) by simp
    qed
  qed
  then show "j \<notin> pp_id ` set ps \<Longrightarrow> get_pp j d' = get_pp j d"
    and "get_pp j d = Some r \<Longrightarrow> \<exists>r'. get_pp j d' = Some r' \<and> pp_account r' = pp_account r \<and> pp_post r' = pp_post r \<and>
      pp_status r' = (if j \<in> pp_id ` set ps then target else pp_status r)"
    and "pp_ids d' = pp_ids d" by blast+
qed

section \<open>Scope\<close>

definition post_view :: "nat \<Rightarrow> db \<Rightarrow> post option \<times> platform_post list \<times> post_media list \<times> queue_entry list" where
  \<comment> \<open>all that belongs to a post: its row, its channels, its media and its places in queues\<close>
  "post_view i d = (get_post i d, children i d, filter (\<lambda>pm. pm_post pm = i) (db_media d),
     filter (\<lambda>e. qe_post e = i) (db_entries d))"

lemma view_save_post: "po_id po \<noteq> i \<Longrightarrow> post_view i (save_post po d) = post_view i d"
  using posts.get_save_other [of i po d]
  by (simp add: post_view_def frame_simps) (simp add: save_post_def)

lemma view_sync: "j \<noteq> i \<Longrightarrow> post_view i (sync_post_scheduled_at now j d) = post_view i d"
  by (auto simp: sync_post_scheduled_at_def Let_def view_save_post dest: posts.get_key split: option.split)

lemma view_update_pps:
  assumes "\<And>r. r \<in> set (db_pps d) \<Longrightarrow> P r \<Longrightarrow> pp_post r \<noteq> i" and "\<And>r. pp_post (f r) = pp_post r"
  shows "post_view i (update_pps P f d) = post_view i d"
proof -
  have "\<forall>r \<in> set rs. P r \<longrightarrow> pp_post r \<noteq> i \<Longrightarrow>
      filter (\<lambda>r. pp_post r = i) (tbl_update P f rs) = filter (\<lambda>r. pp_post r = i) rs" for rs
    by (induction rs) (auto simp: assms(2))
  then have "children i (update_pps P f d) = children i d"
    using assms(1) by (simp add: children_def update_pps_def)
  then show ?thesis by (simp add: post_view_def frame_simps) (simp add: update_pps_def)
qed

lemma view_drop_entries: "j \<noteq> i \<Longrightarrow> post_view i (drop_entries j a d) = post_view i d"
  by (auto simp: post_view_def drop_entries_def get_post_def children_def tbl_delete_def intro!: filter_cong)

lemma view_moved:
  assumes "transition_platform_post now p target at d = Inr (d', q)" and "pp_post p \<noteq> i"
    and "\<And>x y. (pp_id p, x, y) \<in> set (pp_ids d) \<Longrightarrow> x \<noteq> i"
  shows "post_view i d' = post_view i d"
proof -
  obtain q' b d1 where d': "d' = sync_post_scheduled_at now (pp_post p) (save_transition q' b now d1)" "pp_id q' = pp_id p"
      "d1 = d \<or> d1 = drop_entries (pp_post p) (pp_account p) d"
    using moved_row(1) [OF assms(1)] by blast
  have "pp_post r \<noteq> i" if "r \<in> set (db_pps d1)" "pp_id r = pp_id q'" for r
  proof -
    have "(pp_id r, pp_post r, pp_account r) \<in> set (pp_ids d1)" using that(1) by (auto simp: pp_ids_def)
    moreover have "pp_ids d1 = pp_ids d" using d'(3) by (auto simp: pp_ids_frame)
    ultimately show ?thesis using assms(3) that(2) d'(2) by simp
  qed
  then have "post_view i (save_transition q' b now d1) = post_view i d1"
    by (simp add: save_transition_def view_update_pps)
  moreover have "post_view i d1 = post_view i d" using d'(3) assms(2) view_drop_entries by blast
  ultimately show ?thesis using d'(1) view_sync [OF assms(2)] by simp
qed

lemma view_all_moved:
  assumes "transition_all now target at ps d = Inr d'" and "\<forall>p \<in> set ps. pp_post p \<noteq> i"
    and "\<And>p x y. p \<in> set ps \<Longrightarrow> (pp_id p, x, y) \<in> set (pp_ids d) \<Longrightarrow> x \<noteq> i"
  shows "post_view i d' = post_view i d"
  using assms
proof (induction ps arbitrary: d)
  case Nil
  then show ?case by simp
next
  case (Cons p ps)
  obtain d1 q where t: "transition_platform_post now p target at d = Inr (d1, q)" "transition_all now target at ps d1 = Inr d'"
    using transition_all_Cons [OF Cons.prems(1)] .
  have "post_view i d1 = post_view i d"
    by (rule view_moved [OF t(1)]) (use Cons.prems(2,3) in auto)
  moreover have "post_view i d' = post_view i d1"
  proof (rule Cons.IH [OF t(2)])
    show "\<forall>p \<in> set ps. pp_post p \<noteq> i" using Cons.prems(2) by simp
    show "x \<noteq> i" if "p' \<in> set ps" "(pp_id p', x, y) \<in> set (pp_ids d1)" for p' x y
      using Cons.prems(3) [of p' x y] that moved_get_pp(3) [OF t(1)] by simp
  qed
  ultimately show ?case by simp
qed

lemma children_ids:
  assumes "keys_ok d" and "p \<in> set (children j d)" and "(pp_id p, x, y) \<in> set (pp_ids d)"
  shows "x = j"
proof -
  obtain r where r: "r \<in> set (db_pps d)" "pp_id r = pp_id p" "pp_post r = x" using assms(3) by (auto simp: pp_ids_def)
  have p: "p \<in> set (db_pps d)" "pp_post p = j" using assms(2) by (auto simp: children_def)
  have "r = p" using distinct_key_eq [of pp_id "db_pps d" r p] assms(1) r(1,2) p(1) by (simp add: keys_ok_def)
  then show ?thesis using r(3) p(2) by simp
qed

lemma view_children_moved:
  assumes "transition_all now target at (filter Q (children j d)) d = Inr d'" and "keys_ok d" and "j \<noteq> i"
  shows "post_view i d' = post_view i d"
proof (rule view_all_moved [OF assms(1)])
  show "\<forall>p \<in> set (filter Q (children j d)). pp_post p \<noteq> i" using assms(3) by (auto simp: children_def)
  show "x \<noteq> i" if "p \<in> set (filter Q (children j d))" "(pp_id p, x, y) \<in> set (pp_ids d)" for p x y
    using children_ids [OF assms(2) _ that(2), of j] that(1) assms(3) by auto
qed

lemma view_apply_update:
  assumes "po_id po \<noteq> i"
  shows "post_view i (apply_update now u po d) = post_view i d"
proof -
  have "post_view i (retime_children now (po_id po) at d) = post_view i d" for at
    using assms by (auto simp: retime_children_def intro!: view_update_pps)
  moreover have "post_view i (replace_media (po_id po) ms e) = post_view i e" for ms e
  proof -
    have "filter (\<lambda>x. pm_post x \<noteq> po_id po \<and> pm_post x = i) (db_media e) = filter (\<lambda>pm. pm_post pm = i) (db_media e)"
      by (rule filter_cong) (use assms in auto)
    moreover have "filter (\<lambda>pm. pm_post pm = i) (map (\<lambda>(j, a). \<lparr>pm_id = db_next e + j, pm_post = po_id po, pm_asset = a,
        pm_position = j, pm_alt_text = [], pm_overrides = JObj []\<rparr>) (enumerate 0 ids)) = []" for ids
      using assms by (auto simp: filter_empty_conv)
    ultimately show ?thesis
      by (auto simp: replace_media_def post_view_def get_post_def children_def tbl_delete_def split: option.split)
  qed
  moreover have "post_view i (update_fields now u po e) = post_view i e" for e
    using assms by (simp add: update_fields_def view_save_post)
  ultimately show ?thesis using assms by (simp add: apply_update_def view_sync)
qed

lemma find_snoc: "\<not> P x \<Longrightarrow> find P (xs @ [x]) = find P xs"
  by (induction xs) auto

lemma view_create_post:
  assumes "create_post now w a inp d = Inr (d', k)" and "k \<noteq> i"
  shows "post_view i d' = post_view i d"
proof -
  have "post_view i (fst (insert_post now w a inp d)) = post_view i d"
    using assms(2) create_post_Inr(5) [OF assms(1)]
    by (auto simp: insert_post_def Let_def post_view_def get_post_def tbl_get_def find_snoc children_def new_platform_post_def
        filter_empty_conv in_set_enumerate_eq split: option.split)
  then show ?thesis using create_post_Inr(6) [OF assms(1)] view_sync [OF assms(2)] by simp
qed

lemma workspace_post_id: "get_workspace_post ca i d = Some po \<Longrightarrow> get_post i d = Some po \<and> po_id po = i"
  by (auto simp: get_workspace_post_def dest: posts.get_key split: option.splits if_splits)

text \<open>
  C18. A key acts in its scope: a post that is not in the key's workspace, or has a channel on an account
  outside the key's allowlist, or no channel at all, is left by every route exactly as it is, with its channels, its media and its
  places in the queues.
\<close>

theorem api_stays_in_scope:
  assumes "keys_ok (ap_db s)" and "fresh_ok (ap_db s)" and "get_post i (ap_db s) = Some po"
    and "po_workspace po \<noteq> ak_workspace (ca_key ca) \<or>
      (\<exists>c \<in> set (db_pps (ap_db s)). pp_post c = i \<and> pp_account c \<notin> set (ak_accounts (ca_key ca))) \<or>
      (\<forall>c \<in> set (db_pps (ap_db s)). pp_post c \<noteq> i)"
  shows "post_view i (ap_db (snd (api_route env now rq ca op s))) = post_view i (ap_db s)"
proof -
  have "children i (ap_db s) = [] \<or> \<not> set (map pp_account (children i (ap_db s))) \<subseteq> set (ak_accounts (ca_key ca))"
    if "po_workspace po = ak_workspace (ca_key ca)"
    using assms(4) that by (auto simp: children_def filter_empty_conv)
  then have none: "get_workspace_post ca i (ap_db s) = None" using assms(3) by (simp add: get_workspace_post_def)
  show ?thesis
  proof (cases op)
    case (Create p late)
    have "i < db_next (ap_db s)"
      using assms(2,3) posts.get_key [OF assms(3)] by (auto simp: fresh_ok_def list_all_iff get_post_def dest: tbl_get_Some)
    then show ?thesis
      using create_route_db [of env now rq ca p late s] view_create_post create_post_Inr(5)
      by (simp add: Create) fastforce
  next
    case (Retrieve j)
    then show ?thesis by (simp add: retrieve_route_db)
  next
    case (Update j u)
    then show ?thesis using update_route_db [of env now rq ca j u s] workspace_post_id [of ca j] none view_apply_update
      by (cases "j = i") auto
  next
    case (Schedule j at)
    then show ?thesis using schedule_route_db [of env now rq ca j at s] none view_children_moved [OF _ assms(1)]
      by (cases "j = i") auto
  next
    case (Cancel j)
    then show ?thesis using cancel_route_db [of env now rq ca j s] none view_children_moved [OF _ assms(1)]
      by (cases "j = i") auto
  qed
qed

section \<open>Scheduling\<close>

lemma retime_status: "get_pp j (retime_children now i at d) = Some r' \<Longrightarrow> \<exists>r. get_pp j d = Some r \<and> pp_status r' = pp_status r"
  by (auto simp: retime_children_def get_pp_update split: option.splits if_splits)

lemma update_status:
  "get_pp j (apply_update now u po d) = Some r' \<Longrightarrow> \<exists>r. get_pp j d = Some r \<and> pp_status r' = pp_status r"
proof -
  assume "get_pp j (apply_update now u po d) = Some r'"
  moreover have "get_pp j (replace_media i ms e) = get_pp j e" for i ms e
    by (simp add: replace_media_def get_pp_def split: option.split)
  ultimately have "get_pp j (retime_children now (po_id po) (ur_scheduled_at u) d) = Some r'"
    by (simp add: apply_update_def update_fields_def frame_simps split: if_splits)
  then show ?thesis by (rule retime_status)
qed

lemma created_row:
  assumes "create_post now w a inp d = Inr (d', k)" and "get_pp j d' = Some r'"
  shows "get_pp j d = Some r' \<or> (get_pp j d = None \<and> pp_account r' = sa_id a \<and>
    (pp_status r' = SCHEDULED \<longrightarrow> in_status inp = ''scheduled'' \<and> approval_gate_passes w))"
proof -
  obtain pp where pp: "db_pps (fst (insert_post now w a inp d)) = db_pps d @ [pp]" "pp_account pp = sa_id a"
      "pp_status pp = (if in_status inp = ''scheduled'' then SCHEDULED else DRAFT)"
    by (simp add: insert_post_def Let_def new_platform_post_def)
  have "get_pp j d' = (case get_pp j d of None \<Rightarrow> if pp_id pp = j then Some pp else None | Some r \<Rightarrow> Some r)"
    using create_post_Inr(6) [OF assms(1)] pp(1) tbl_first_append [of "\<lambda>r. pp_id r = j" "db_pps d" "[pp]"]
    by (simp add: frame_simps) (simp add: get_pp_def tbl_get_def tbl_first_def split: option.split)
  then show ?thesis using assms(2) pp(2,3) create_post_Inr(7) [OF assms(1)] by (auto split: option.splits if_splits)
qed

lemma gate_of_moved:
  assumes "transition_all now SCHEDULED at ps d = Inr d'" and "ps \<noteq> []" and "\<forall>p \<in> set ps. pp_post p = i"
    and "workspace_of_post i d = Some w"
  shows "approval_gate_passes w"
proof -
  obtain p ps' where "ps = p # ps'" using assms(2) by (cases ps) auto
  then obtain d1 q where "transition_platform_post now p SCHEDULED at d = Inr (d1, q)"
    using assms(1) transition_all_Cons by metis
  then show ?thesis using moved_row(2) [OF _ refl] assms(3,4) \<open>ps = p # ps'\<close> by auto
qed

definition may_schedule :: "api_env \<Rightarrow> instant \<Rightarrow> caller \<Rightarrow> db \<Rightarrow> nat \<Rightarrow> nat \<Rightarrow> bool" where
  \<comment> \<open>the caller may schedule the channel \<open>j\<close> (a new one if there is none) on the account\<close>
  "may_schedule env now ca d j account \<longleftrightarrow>
    perm_get ''create_posts'' (ca_perms ca) \<and> perm_get ''publish_directly'' (ca_perms ca) \<and>
    account \<in> set (ak_accounts (ca_key ca)) \<and>
    (case get_pp j d of
       None \<Rightarrow> approval_gate_passes (ca_workspace ca)
     | Some r \<Rightarrow> pp_status r = DRAFT \<and>
         (case workspace_of_post (pp_post r) d of None \<Rightarrow> True | Some w \<Rightarrow> approval_gate_passes w)) \<and>
    (case get_account account d of
       None \<Rightarrow> True
     | Some a \<Rightarrow> check_platform_quota (ae_override env) now a d = None)"

text \<open>
  C19. What a key schedules it may schedule: a channel that any route makes scheduled was a draft or is new,
  the caller holds both permissions, the account is in the key's allowlist, the workspace asks for no
  approval, and the account was below its daily cap.
\<close>

theorem api_schedules_what_it_may:
  assumes "keys_ok (ap_db s)" and "get_pp j (ap_db (snd (api_route env now rq ca op s))) = Some r'"
    and "pp_status r' = SCHEDULED"
    and "map_option pp_status (get_pp j (ap_db s)) \<noteq> Some SCHEDULED"
  shows "may_schedule env now ca (ap_db s) j (pp_account r')"
proof -
  define d where "d = ap_db s"
  define d' where "d' = ap_db (snd (api_route env now rq ca op s))"
  have r': "get_pp j d' = Some r'" and old: "map_option pp_status (get_pp j d) \<noteq> Some SCHEDULED"
    using assms(2,4) by (simp_all add: d'_def d_def)
  have changed: "d' \<noteq> d" using r' old assms(3) by auto
  have "may_schedule env now ca d j (pp_account r')"
  proof (cases op)
    case (Create p late)
    obtain a i where c: "check_create env ca p d = Inr a" "create_post now (ca_workspace ca) a (create_input ca p) d = Inr (d', i)"
        "cr_schedule p \<longrightarrow> check_platform_quota (ae_override env) now a d = None"
      using create_route_db [of env now rq ca p late s] changed by (auto simp: d'_def d_def Create)
    have n: "get_pp j d = None" "pp_account r' = sa_id a" "in_status (create_input ca p) = ''scheduled''"
        "approval_gate_passes (ca_workspace ca)"
      using created_row [OF c(2) r'] old assms(3) by auto
    have "cr_schedule p" using n(3) by (simp add: create_input_def split: if_splits)
    then show ?thesis
      using check_create_Inr [OF c(1)] c(3) n by (simp add: may_schedule_def)
  next
    case (Retrieve i)
    then show ?thesis using changed by (simp add: d'_def d_def retrieve_route_db)
  next
    case (Update i u)
    then obtain po where "d' = apply_update now u po d"
      using update_route_db [of env now rq ca i u s] changed by (auto simp: d'_def d_def)
    then show ?thesis using update_status r' old assms(3) by fastforce
  next
    case (Cancel i)
    then have t: "transition_all now DRAFT None (filter (\<lambda>c. pp_status c = SCHEDULED) (children i d)) d = Inr d'"
      using cancel_route_db [of env now rq ca i s] changed by (auto simp: d'_def d_def)
    have n: "get_pp j d = None \<Longrightarrow> j \<notin> pp_id ` set (filter (\<lambda>c. pp_status c = SCHEDULED) (children i d))"
      by (auto simp: get_pp_def tbl_get_None children_def)
    have False
    proof (cases "get_pp j d")
      case None
      then show False using all_moved(1) [OF t n] r' by simp
    next
      case (Some r)
      then have "pp_status r' = (if j \<in> pp_id ` set (filter (\<lambda>c. pp_status c = SCHEDULED) (children i d)) then DRAFT else pp_status r)"
        using all_moved(2) [OF t Some] r' by auto
      then show False using assms(3) old Some by (auto split: if_splits)
    qed
    then show ?thesis ..
  next
    case (Schedule i at)
    let ?ps = "filter (\<lambda>c. pp_status c = DRAFT) (children i d)"
    obtain po where g: "get_workspace_post ca i d = Some po" "perm_get ''create_posts'' (ca_perms ca)"
        "perm_get ''publish_directly'' (ca_perms ca)"
        "\<forall>c \<in> set (children i d). pp_status c = DRAFT \<longrightarrow> quota_of_child env now d c = None"
        "transition_all now SCHEDULED (Some at) ?ps d = Inr d'"
      using schedule_route_db [of env now rq ca i at s] changed by (auto simp: d'_def d_def Schedule)
    have "j \<in> pp_id ` set ?ps"
    proof (rule ccontr)
      assume "j \<notin> pp_id ` set ?ps"
      then show False using all_moved(1) [OF g(5)] r' old assms(3) by auto
    qed
    then obtain p where p: "p \<in> set ?ps" "pp_id p = j" by blast
    then have pj: "get_pp j d = Some p" using keys_ok_get_pp [OF assms(1) [folded d_def], of p] by (auto simp: children_def)
    have acc: "pp_account r' = pp_account p" using all_moved(2) [OF g(5) pj] r' by auto
    have scope: "pp_account p \<in> set (ak_accounts (ca_key ca))"
      using g(1) p(1) by (auto simp: get_workspace_post_def split: option.splits if_splits)
    have post: "pp_post p = i" using p(1) by (auto simp: children_def)
    have gate: "approval_gate_passes w" if "workspace_of_post i d = Some w" for w
    proof (rule gate_of_moved [OF g(5) _ _ that])
      show "?ps \<noteq> []" using p(1) by (cases ?ps) simp_all
      show "\<forall>x \<in> set ?ps. pp_post x = i" by (simp add: children_def)
    qed
    have quota: "quota_of_child env now d p = None" using g(4) p(1) by auto
    show ?thesis unfolding may_schedule_def pj option.case acc post
    proof (intro conjI)
      show "perm_get ''create_posts'' (ca_perms ca)" "perm_get ''publish_directly'' (ca_perms ca)" using g(2,3) .
      show "pp_account p \<in> set (ak_accounts (ca_key ca))" using scope .
      show "pp_status p = DRAFT" using p(1) by simp
      show "case workspace_of_post i d of None \<Rightarrow> True | Some w \<Rightarrow> approval_gate_passes w"
        using gate by (simp split: option.split)
      show "case get_account (pp_account p) d of None \<Rightarrow> True | Some a \<Rightarrow> check_platform_quota (ae_override env) now a d = None"
        using quota by (simp add: quota_of_child_def split: option.splits)
    qed
  qed
  then show ?thesis by (simp add: d_def)
qed

section \<open>The daily cap\<close>

text \<open>
  C20. The daily cap holds for what the create route schedules: when it answers 201 to a request to schedule,
  the account has no more posts in the window than its limit, the new one included.
\<close>

theorem scheduled_within_daily_cap:
  assumes "create_route env now rq ca p False s = (Replied 201 body, s')" and "cr_schedule p"
    and "fst (claim_create now ca p s) \<in> {Claimed, Passthrough}"
  shows "\<exists>a. get_account (cr_account p) (ap_db s) = Some a \<and>
    count_recent_creations now a (ap_db s') \<le> resolve_platform_limit (ae_override env) a \<and>
    count_recent_creations now a (ap_db s') = Suc (count_recent_creations now a (ap_db s))"
proof -
  obtain a where c: "check_create env ca p (ap_db s) = Inr a"
    using assms(1) by (cases "check_create env ca p (ap_db s)") (simp_all add: create_route_def)
  have acc: "get_account (cr_account p) (ap_db s) = Some a"
    using c by (auto simp: check_create_def resolve_account_def simp del: first_refusal.simps split: option.splits sum.splits if_splits)
  obtain v s1 where cl: "claim_create now ca p s = (v, s1)" by fastforce
  have v: "v = Claimed \<or> v = Passthrough" and s1: "ap_db s1 = ap_db s"
    using cl assms(3) claim_db [of now "ak_id (ca_key ca)" "idempotency_key p" "cr_fingerprint p" s]
    by (auto simp: claim_create_def)
  have f: "finish_create env now rq ca p a False s1 = (Replied 201 body, s')"
    using assms(1) c cl v by (auto simp: create_route_def)
  obtain d i where d: "create_post now (ca_workspace ca) a (create_input ca p) (ap_db s) = Inr (d, i)" "ap_db s' = d"
  proof (cases "create_post now (ca_workspace ca) a (create_input ca p) (ap_db s)")
    case (Inl e)
    then show ?thesis using f s1 by (cases e) (auto simp: finish_create_def Let_def split: option.splits if_splits)
  next
    case (Inr r)
    obtain d0 i0 where r: "r = (d0, i0)" by (cases r)
    obtain po where "get_post i0 d0 = Some po" using created_post_found Inr r by blast
    then have "ap_db s' = d0" using f s1 Inr r
      by (auto simp: finish_create_def Let_def respond_def finalize_db respond_db split: option.splits if_splits)
    then show ?thesis using that Inr r by blast
  qed
  have q: "check_platform_quota (ae_override env) now a (ap_db s) = None"
    using f s1 assms(2) by (auto simp: finish_create_def Let_def split: option.splits)
  obtain pp where pp: "db_pps (fst (insert_post now (ca_workspace ca) a (create_input ca p) (ap_db s))) = db_pps (ap_db s) @ [pp]"
      "pp_account pp = sa_id a" "pp_status pp = SCHEDULED" "pp_updated_at pp = now"
    using assms(2) by (simp add: insert_post_def Let_def new_platform_post_def create_input_def)
  have "db_pps d = db_pps (ap_db s) @ [pp]" using create_post_Inr(6) [OF d(1)] pp(1) by (simp add: frame_simps)
  then have "count_recent_creations now a (ap_db s') = Suc (count_recent_creations now a (ap_db s))"
    using pp(2-4) d(2) by (simp add: count_recent_creations_def consumes_quota_def QUOTA_CONSUMING_STATUSES_def hours_def)
  moreover have "count_recent_creations now a (ap_db s) < resolve_platform_limit (ae_override env) a"
    using q by (simp add: check_platform_quota_def Let_def split: if_splits)
  ultimately show ?thesis using acc by simp
qed

section \<open>Editing a reviewed post\<close>

lemma update_keeps_children:
  "map (\<lambda>c. (pp_id c, pp_status c)) (children i (apply_update now u po d)) = map (\<lambda>c. (pp_id c, pp_status c)) (children i d)"
proof -
  have t: "map (\<lambda>c. (pp_id c, pp_status c)) (filter (\<lambda>c. pp_post c = i) (tbl_update P (\<lambda>c. c\<lparr>pp_scheduled_at := x, pp_updated_at := y\<rparr>) cs)) =
      map (\<lambda>c. (pp_id c, pp_status c)) (filter (\<lambda>c. pp_post c = i) cs)" for P x y cs
    by (induction cs) simp_all
  show ?thesis
    by (simp add: t apply_update_def update_fields_def replace_media_def retime_children_def frame_simps
        children_def update_pps_def split: option.split)
qed

lemma update_caption:
  assumes "get_post (po_id po) d = Some po" and "ur_caption u = Some cap"
  shows "\<exists>po'. get_post (po_id po) (apply_update now u po d) = Some po' \<and> po_caption po' = cap"
proof -
  define e where "e = replace_media (po_id po) (ur_media u) (retime_children now (po_id po) (ur_scheduled_at u) d)"
  have e: "get_post (po_id po) e = Some po"
    using assms(1) by (simp add: e_def replace_media_def retime_children_def get_post_def update_pps_def split: option.split)
  have "\<exists>po1. get_post (po_id po) (update_fields now u po e) = Some po1 \<and> po_caption po1 = cap"
    using e assms(2) by (simp add: update_fields_def updates_fields_def posts.get_save or_old_def)
  then obtain po1 where po1: "get_post (po_id po) (update_fields now u po e) = Some po1" "po_caption po1 = cap" by blast
  show ?thesis unfolding apply_update_def e_def [symmetric] using get_post_sync [OF po1(1), of now] po1(2)
    by (auto simp: Let_def split: if_splits)
qed

text \<open>
  A PATCH rewrites a reviewed post and leaves it reviewed: a caller who holds \<open>create_posts\<close> alone gets
  the new caption into the post of another author, whatever was approved or scheduled, and no channel goes
  back to review. The composer asks \<open>edit_others_posts\<close> for this and sends approved channels back.
\<close>

theorem patch_rewrites_a_reviewed_post:
  assumes "enforce_http_rate_limits (ae_cf env) (ca_key ca) True = None" and "perm_get ''create_posts'' (ca_perms ca)"
    and "get_workspace_post ca i (ap_db s) = Some po" and "post_is_editable po (ap_db s)"
    and "u = \<lparr>ur_caption = Some cap, ur_title = None, ur_first_comment = None, ur_internal_notes = None, ur_media = None,
      ur_scheduled_at = None, ur_proposed_at = None\<rparr>"
  shows "\<exists>body s'. update_route env now rq ca i u s = (Replied 200 body, s') \<and>
    pr_caption body = cap \<and> map_option po_caption (get_post i (ap_db s')) = Some cap \<and>
    map (\<lambda>c. (pp_id c, pp_status c)) (children i (ap_db s')) = map (\<lambda>c. (pp_id c, pp_status c)) (children i (ap_db s))"
proof -
  have po: "get_post i (ap_db s) = Some po" "po_id po = i" using workspace_post_id [OF assms(3)] by simp_all
  have g: "first_refusal [enforce_http_rate_limits (ae_cf env) (ca_key ca) True, require_perm ca ''create_posts''] = None"
    using assms(1,2) by (simp add: first_refusal_None require_perm_None)
  obtain po' where po': "get_post i (apply_update now u po (ap_db s)) = Some po'" "po_caption po' = cap"
    using update_caption [of po "ap_db s" u cap now] po assms(5) by auto
  have e: "ur_scheduled_at u = None" "ur_media u = None" by (simp_all add: assms(5))
  have "update_route env now rq ca i u s =
     (respond ca 200 i (apply_update now u po (ap_db s)),
      log_audit_entry env rq ca ''post.update'' (Some i) 200 (s\<lparr>ap_db := apply_update now u po (ap_db s)\<rparr>))"
    unfolding update_route_def g using assms(3,4) e by (simp add: media_refusal_def Let_def)
  then show ?thesis using po' update_keeps_children [of i now u po "ap_db s"]
    by (simp add: respond_def post_response_of_def respond_db)
qed

section \<open>Concrete inputs\<close>

definition sample_key :: api_key where
  "sample_key = \<lparr>ak_id = 40, ak_workspace = 1, ak_accounts = [5], ak_issued_by = Some 3, ak_name = ''Agent'',
     ak_lookup = ''ab'', ak_hash = [], ak_permissions = [''create_posts''], ak_expires_at = None, ak_revoked_at = None,
     ak_last_used_at = None, ak_last_used_ip = None, ak_rate_writes = None, ak_rate_reads = None, ak_created_at = 0\<rparr>"

definition sample_caller :: "string list \<Rightarrow> caller" where
  "sample_caller perms = \<lparr>ca_key = sample_key, ca_workspace = sample_ws, ca_perms = map (\<lambda>p. (p, True)) perms, ca_user = Some 3\<rparr>"

definition sample_env :: api_env where
  "sample_env = \<lparr>ae_cf = \<lparr>cf_trusted = [], cf_debug = False, cf_global_cap = None, cf_limited = (\<lambda>_ _ _. False)\<rparr>,
     ae_override = (\<lambda>_. None)\<rparr>"

definition sample_http :: api_request where
  "sample_http = \<lparr>hq_method = ''POST'', hq_path = ''/api/v1/posts/'', hq_remote = Some ''10.0.0.9'', hq_forwarded = None,
     hq_agent = None, hq_secure = True\<rparr>"

definition sample_request :: "bool \<Rightarrow> create_request" where
  "sample_request schedule = \<lparr>cr_account = 5, cr_caption = ''hi'', cr_title = [], cr_first_comment = [], cr_internal_notes = [],
     cr_media = [], cr_overrides = [], cr_schedule = schedule, cr_scheduled_at = Some 500, cr_proposed_at = None,
     cr_body_key = Some ''k1'', cr_header_key = None, cr_fingerprint = ''f''\<rparr>"

definition sample_state :: api_state where
  "sample_state = \<lparr>ap_db = empty_db\<lparr>db_workspaces := [sample_ws], db_accounts := [sample_account]\<rparr>, ap_idem = [], ap_audit = []\<rparr>"

lemmas api_sample_defs = sample_key_def sample_caller_def sample_env_def sample_http_def sample_request_def sample_state_def
  sample_ws_def sample_account_def empty_db_def

lemma sample_checked: "check_create sample_env (sample_caller [''create_posts'', ''publish_directly'']) (sample_request b) (ap_db sample_state) = Inr sample_account"
  by (simp add: check_create_def resolve_account_def get_account_def tbl_get_def require_perm_def perm_get_def
      enforce_http_rate_limits_def Let_def api_sample_defs)

lemma sample_unblocked: "publish_blocker sample_account mt [] = []"
  using sample_not_blocked by (simp add: publish_blocker_Nil) (simp add: sample_account_def)

lemma sample_created:
  "\<exists>d. create_post 0 (ca_workspace (sample_caller ps)) sample_account (create_input (sample_caller ps) (sample_request b)) (ap_db sample_state) = Inr (d, 10)"
proof -
  have c: "ca_workspace (sample_caller ps) = sample_ws" by (simp add: sample_caller_def)
  have a: "sa_workspace sample_account = ws_id sample_ws" "\<not> needs_reconnect sample_account" "approval_gate_passes sample_ws"
    by (simp_all add: sample_ws_def sample_account_def needs_reconnect_def approval_gate_passes_def BLOCKING_APPROVAL_MODES_def)
  have i: "in_media (create_input (sample_caller ps) (sample_request b)) = []"
      "in_status (create_input (sample_caller ps) (sample_request b)) = (if b then ''scheduled'' else ''draft'')"
      "in_scheduled_at (create_input (sample_caller ps) (sample_request b)) = Some 500"
    by (simp_all add: create_input_def sample_request_def)
  have n: "db_next (ap_db sample_state) = 10" by (simp add: sample_state_def empty_db_def)
  show ?thesis unfolding c create_post_def
    by (simp add: a i n sample_unblocked INITIAL_STATUSES_def missing_assets_def insert_post_def Let_def)
qed

theorem late_failure_posts_twice_witness:
  "\<exists>s1 s2 body. create_route sample_env 0 sample_http (sample_caller [''create_posts'', ''publish_directly'']) (sample_request False) True sample_state = (Crashed, s1) \<and>
    create_route sample_env 1 sample_http (sample_caller [''create_posts'', ''publish_directly'']) (sample_request False) False s1 = (Replied 201 body, s2) \<and>
    pr_id body \<noteq> 10 \<and> {10, pr_id body} \<subseteq> po_id ` set (db_posts (ap_db s2))"
proof -
  obtain d where d: "create_post 0 (ca_workspace (sample_caller [''create_posts'', ''publish_directly''])) sample_account
      (create_input (sample_caller [''create_posts'', ''publish_directly'']) (sample_request False)) (ap_db sample_state) = Inr (d, 10)"
    using sample_created by blast
  show ?thesis
    by (rule late_failure_posts_twice [where t = "''k1''", OF sample_checked _ _ d])
      (simp_all add: sample_request_def idempotency_key_def sample_state_def find_slot_def tbl_first_def)
qed

theorem scheduled_within_daily_cap_witness:
  "\<exists>body s'. create_route sample_env 0 sample_http (sample_caller [''create_posts'', ''publish_directly'']) (sample_request True) False sample_state = (Replied 201 body, s') \<and>
    (\<exists>a. get_account 5 (ap_db sample_state) = Some a \<and> count_recent_creations 0 a (ap_db s') \<le> resolve_platform_limit (\<lambda>_. None) a)"
proof -
  let ?ca = "sample_caller [''create_posts'', ''publish_directly'']" and ?p = "sample_request True"
  obtain d where d: "create_post 0 (ca_workspace ?ca) sample_account (create_input ?ca ?p) (ap_db sample_state) = Inr (d, 10)"
    using sample_created by blast
  obtain s1 where cl: "claim_create 0 ?ca ?p sample_state = (Claimed, s1)" "ap_db s1 = ap_db sample_state"
    by (simp add: claim_create_def claim_idempotency_slot_def idempotency_key_def sample_request_def sample_state_def
        find_slot_def tbl_first_def)
  obtain po where po: "get_post 10 d = Some po" using created_post_found [OF d] by blast
  have q: "check_platform_quota (ae_override sample_env) 0 sample_account (ap_db sample_state) = None"
    by (simp add: check_platform_quota_def count_recent_creations_def resolve_platform_limit_def Let_def
        PLATFORM_DAILY_POST_LIMIT_def api_sample_defs)
  have s: "cr_schedule ?p" "cr_account ?p = 5" by (simp_all add: sample_request_def)
  obtain body s' where f: "create_route sample_env 0 sample_http ?ca ?p False sample_state = (Replied 201 body, s')"
    using cl q d po s sample_checked [of True]
    by (simp add: create_route_def finish_create_def Let_def respond_def)
  show ?thesis
    using f scheduled_within_daily_cap [OF f s(1)] cl(1) s(2) by (auto simp: sample_env_def)
qed

definition foreign_state :: api_state where
  \<comment> \<open>the post 7 has a channel on the account 6 too, which the key may not use\<close>
  "foreign_state = \<lparr>ap_db = sample_db, ap_idem = [], ap_audit = []\<rparr>"

theorem api_stays_in_scope_witness:
  "post_view 7 (ap_db (snd (api_route sample_env 0 sample_http (sample_caller [''create_posts'']) (Cancel 7) foreign_state))) =
    post_view 7 (ap_db foreign_state)"
  by (rule api_stays_in_scope [where po = sample_post])
    (simp_all add: foreign_state_def keys_ok_def fresh_ok_def sample_defs get_post_def tbl_get_def get_workspace_post_def
      sample_caller_def sample_key_def children_def)

theorem api_schedules_what_it_may_witness:
  "\<exists>r. get_pp 11 (ap_db (snd (api_route sample_env 0 sample_http (sample_caller [''create_posts'', ''publish_directly''])
       (Create (sample_request True) False) sample_state))) = Some r \<and> pp_status r = SCHEDULED \<and>
     may_schedule sample_env 0 (sample_caller [''create_posts'', ''publish_directly'']) (ap_db sample_state) 11 (pp_account r)"
proof -
  let ?ca = "sample_caller [''create_posts'', ''publish_directly'']" and ?p = "sample_request True"
  let ?s' = "snd (api_route sample_env 0 sample_http ?ca (Create ?p False) sample_state)"
  obtain d where d: "create_post 0 (ca_workspace ?ca) sample_account (create_input ?ca ?p) (ap_db sample_state) = Inr (d, 10)"
    using sample_created by blast
  obtain s1 where cl: "claim_create 0 ?ca ?p sample_state = (Claimed, s1)" "ap_db s1 = ap_db sample_state"
    by (simp add: claim_create_def claim_idempotency_slot_def idempotency_key_def sample_request_def sample_state_def
        find_slot_def tbl_first_def)
  obtain po where po: "get_post 10 d = Some po" using created_post_found [OF d] by blast
  have q: "check_platform_quota (ae_override sample_env) 0 sample_account (ap_db sample_state) = None"
    by (simp add: check_platform_quota_def count_recent_creations_def resolve_platform_limit_def Let_def
        PLATFORM_DAILY_POST_LIMIT_def api_sample_defs)
  have "ap_db ?s' = d"
    using cl q d po sample_checked [of True]
    by (simp add: create_route_def finish_create_def Let_def respond_def finalize_db respond_db)
  moreover have "\<exists>r. get_pp 11 d = Some r \<and> pp_status r = SCHEDULED"
  proof -
    have n: "db_next (ap_db sample_state) = 10" "db_pps (ap_db sample_state) = []" by (simp_all add: sample_state_def empty_db_def)
    have i: "in_status (create_input ?ca ?p) = ''scheduled''" by (simp add: create_input_def sample_request_def)
    have "db_pps d = db_pps (fst (insert_post 0 (ca_workspace ?ca) sample_account (create_input ?ca ?p) (ap_db sample_state)))"
      using create_post_Inr(6) [OF d] by (simp add: frame_simps)
    then show ?thesis
      by (simp add: get_pp_def tbl_get_def insert_post_def Let_def new_platform_post_def n i)
  qed
  ultimately obtain r where r: "get_pp 11 (ap_db ?s') = Some r" "pp_status r = SCHEDULED" by auto
  have "may_schedule sample_env 0 ?ca (ap_db sample_state) 11 (pp_account r)"
    by (rule api_schedules_what_it_may [OF _ r])
      (simp_all add: keys_ok_def sample_state_def empty_db_def get_pp_def tbl_get_def)
  with r show ?thesis by blast
qed

definition reviewed_state :: api_state where
  \<comment> \<open>the post of another author, approved on its one channel, in a workspace that requires approval\<close>
  "reviewed_state = \<lparr>ap_db = empty_db\<lparr>db_workspaces := [sample_ws\<lparr>ws_approval_mode := ''required_internal''\<rparr>],
     db_accounts := [sample_account], db_posts := [sample_post\<lparr>po_author := Some 4\<rparr>],
     db_pps := [(new_platform_post 8 7 5 0)\<lparr>pp_status := APPROVED\<rparr>]\<rparr>, ap_idem = [], ap_audit = []\<rparr>"

theorem patch_rewrites_a_reviewed_post_witness:
  "\<exists>body s'. update_route sample_env 1 sample_http (sample_caller [''create_posts'']) 7
      \<lparr>ur_caption = Some ''rewritten'', ur_title = None, ur_first_comment = None, ur_internal_notes = None, ur_media = None,
       ur_scheduled_at = None, ur_proposed_at = None\<rparr> reviewed_state = (Replied 200 body, s') \<and>
    map_option po_caption (get_post 7 (ap_db s')) = Some ''rewritten'' \<and>
    map (\<lambda>c. (pp_id c, pp_status c)) (children 7 (ap_db s')) = [(8, APPROVED)]"
proof -
  let ?ca = "sample_caller [''create_posts'']"
  have rate: "enforce_http_rate_limits (ae_cf sample_env) (ca_key ?ca) True = None"
    by (simp add: enforce_http_rate_limits_def Let_def api_sample_defs)
  have perm: "perm_get ''create_posts'' (ca_perms ?ca)" by (simp add: sample_caller_def perm_get_def)
  have ch: "children 7 (ap_db reviewed_state) = [(new_platform_post 8 7 5 0)\<lparr>pp_status := APPROVED\<rparr>]"
    by (simp add: children_def reviewed_state_def new_platform_post_def)
  have po: "get_workspace_post ?ca 7 (ap_db reviewed_state) = Some (sample_post\<lparr>po_author := Some 4\<rparr>)"
    unfolding get_workspace_post_def ch
    by (simp add: get_post_def tbl_get_def reviewed_state_def sample_post_def sample_caller_def sample_key_def new_platform_post_def)
  have "po_id (sample_post\<lparr>po_author := Some 4\<rparr>) = 7" by (simp add: sample_post_def)
  then have e: "post_is_editable (sample_post\<lparr>po_author := Some 4\<rparr>) (ap_db reviewed_state)"
    using ch by (simp add: post_is_editable_def post_status_def derive_post_status_def Let_def EDITABLE_def new_platform_post_def)
  show ?thesis
    using patch_rewrites_a_reviewed_post [OF rate perm po e refl, of 1 sample_http "''rewritten''"] ch
    by (auto simp: new_platform_post_def)
qed

end
