(* ===== verification/Api_Answers.thy ===== *)
theory Api_Answers
  imports Api_Post_Safety
begin

text \<open>
  The answers of \<open>apps/api/api.py\<close>: how the exception handlers turn what a post route raised into a status
  and a body, and the audit row they write for a request that failed.
\<close>

section \<open>Bodies\<close>

datatype api_body =
    Error_body pydict "(string \<times> int) list"
    \<comment> \<open>the JSON object and the headers\<close>
  | Detail_body composer_error
    \<comment> \<open>\<open>unprocessable_entity\<close> with the text of the \<open>ValueError\<close> as detail\<close>
  | Post_body post_response

definition slug_for :: "nat \<Rightarrow> string" where
  "slug_for status =
    (case map_of [(400, ''bad_request''), (401, ''unauthorized''), (403, ''forbidden''), (404, ''not_found''),
        (409, ''conflict''), (413, ''payload_too_large''), (415, ''unsupported_media_type''),
        (422, ''unprocessable_entity''), (429, ''rate_limited'')] status of
       Some s \<Rightarrow> s | None \<Rightarrow> ''error'')"

definition http_error_body :: "nat \<Rightarrow> string \<Rightarrow> api_body" where
  "http_error_body status message =
    (if status = 429 then (case parse_quota_message message of (body, headers) \<Rightarrow> Error_body body headers)
     else Error_body [(''error'', JStr (slug_for status)), (''detail'', JStr message)] [])"

section \<open>Auditing a failure\<close>

definition py_endswith :: "string \<Rightarrow> string \<Rightarrow> bool" where
  "py_endswith part s \<longleftrightarrow> length part \<le> length s \<and> drop (length s - length part) s = part"

definition action_for_path :: "string \<Rightarrow> string \<Rightarrow> nat \<Rightarrow> string" where
  "action_for_path meth path status =
    (let label = (\<lambda>a. a @ ''.'' @ nat_text status);
         post = (if py_contains ''/posts/'' path then
            (if py_endswith ''/schedule'' path then Some ''post.schedule''
             else if py_endswith ''/cancel'' path then Some ''post.cancel''
             else if meth = ''POST'' then Some ''post.create''
             else if meth = ''GET'' then Some ''post.read''
             else if meth = ''PATCH'' then Some ''post.update'' else None) else None);
         media = (if py_contains ''/media/'' path \<or> py_endswith ''/media'' path then
            (if meth = ''POST'' then Some ''media.upload'' else if meth = ''GET'' then Some ''media.read'' else None) else None);
         reply = (if py_contains ''/replies'' path \<or> py_contains ''/reply'' path then
            (if py_endswith ''/send'' path then Some ''inbox.reply.send''
             else if meth = ''POST'' then Some ''inbox.reply.create''
             else if meth = ''PATCH'' then Some ''inbox.reply.update''
             else if meth = ''DELETE'' then Some ''inbox.reply.discard'' else None) else None);
         inbox = (if py_contains ''/inbox/'' path \<or> py_endswith ''/inbox'' path then
            (if reply \<noteq> None then reply else if meth = ''GET'' then Some ''inbox.read'' else None) else None)
     in if py_contains ''/analytics/accounts/'' path then label ''analytics.read.account''
        else if py_contains ''/analytics/posts/'' path then label ''analytics.read.post''
        else case post of Some a \<Rightarrow> label a | None \<Rightarrow>
         (case media of Some a \<Rightarrow> label a | None \<Rightarrow>
          (case inbox of Some a \<Rightarrow> label a | None \<Rightarrow>
             if py_contains ''/mcp'' path then label ''mcp.error''
             else if py_contains ''/accounts'' path then label ''accounts.list''
             else if py_contains ''/me'' path then label ''me.read''
             else label (''unknown.'' @ py_lower meth))))"

definition audit_failed_request :: "api_env \<Rightarrow> api_request \<Rightarrow> caller \<Rightarrow> nat \<Rightarrow> api_state \<Rightarrow> api_state" where
  "audit_failed_request env rq ca status s =
    log_audit_entry env rq ca (action_for_path (hq_method rq) (hq_path rq) status) None status s"

section \<open>A whole request\<close>

definition answer_request ::
  "api_env \<Rightarrow> instant \<Rightarrow> api_request \<Rightarrow> caller \<Rightarrow> api_op \<Rightarrow> api_state \<Rightarrow> (nat \<times> api_body) option \<times> api_state" where
  \<comment> \<open>\<open>None\<close> where the exception reaches no handler: a 500 of the framework\<close>
  "answer_request env now rq ca op s =
    (case api_route env now rq ca op s of
       (Replied status body, s1) \<Rightarrow> (Some (status, Post_body body), s1)
     | (Refused (HTTP status message), s1) \<Rightarrow>
         if status = 500 then (None, s1)
         else (Some (status, http_error_body status message), audit_failed_request env rq ca status s1)
     | (Rejected e, s1) \<Rightarrow>
         (Some (422, Detail_body e), audit_failed_request env rq ca 422 s1)
     | (Crashed, s1) \<Rightarrow> (None, s1))"

section \<open>One row per request\<close>

lemma audit_steps:
  "ap_audit (log_audit_entry env rq ca act x st s) \<noteq> ap_audit s"
  "length (ap_audit (log_audit_entry env rq ca act x st s)) = Suc (length (ap_audit s))"
  "ap_audit (release_idempotent_claim k t s) = ap_audit s"
  "ap_audit (finalize_idempotent_response k t n b s) = ap_audit s"
  "ap_audit (s\<lparr>ap_db := d\<rparr>) = ap_audit s"
  by (simp_all add: log_audit_entry_def release_idempotent_claim_def finalize_idempotent_response_def split: option.split)

definition quiet :: "api_state \<Rightarrow> api_answer \<times> api_state \<Rightarrow> bool" where
  \<comment> \<open>the route itself writes a row exactly when it succeeds\<close>
  "quiet s r \<longleftrightarrow> (case fst r of
     Replied _ _ \<Rightarrow> length (ap_audit (snd r)) = Suc (length (ap_audit s))
   | Crashed \<Rightarrow> True
   | _ \<Rightarrow> ap_audit (snd r) = ap_audit s)"

lemma quiet_simps:
  "quiet s (Refused e, s1) \<longleftrightarrow> ap_audit s1 = ap_audit s"
  "quiet s (Rejected x, s1) \<longleftrightarrow> ap_audit s1 = ap_audit s"
  "quiet s (Crashed, s1)"
  "quiet s (Replied n b, s1) \<longleftrightarrow> length (ap_audit s1) = Suc (length (ap_audit s))"
  by (simp_all add: quiet_def)

lemma quiet_respond:
  "length (ap_audit s1) = Suc (length (ap_audit s)) \<Longrightarrow> quiet s (respond ca n i d, s1)"
  by (simp add: respond_def quiet_simps split: option.split)

lemma quiet_finish: "ap_audit s1 = ap_audit s \<Longrightarrow> quiet s (finish_create env now rq ca p a late s1)"
proof -
  assume q: "ap_audit s1 = ap_audit s"
  show ?thesis
  proof (cases "if cr_schedule p then check_platform_quota (ae_override env) now a (ap_db s1) else None")
    case (Some e)
    then show ?thesis using q by (simp add: finish_create_def Let_def quiet_simps audit_steps)
  next
    case None
    note n = None
    show ?thesis
    proof (cases "create_post now (ca_workspace ca) a (create_input ca p) (ap_db s1)")
      case (Inl e)
      then show ?thesis using q n by (cases e) (simp_all add: finish_create_def Let_def quiet_simps audit_steps)
    next
      case (Inr r)
      obtain d i where "r = (d, i)" by (cases r)
      then show ?thesis using q n Inr
        by (simp add: finish_create_def Let_def respond_def quiet_simps audit_steps split: option.split)
    qed
  qed
qed

definition is_replay :: "api_env \<Rightarrow> instant \<Rightarrow> caller \<Rightarrow> api_op \<Rightarrow> api_state \<Rightarrow> bool" where
  \<comment> \<open>a create request answered from its idempotency slot\<close>
  "is_replay env now ca op s \<longleftrightarrow>
    (case op of
       Create p late \<Rightarrow>
         (case (check_create env ca p (ap_db s), fst (claim_create now ca p s)) of (Inr a, Replay n b) \<Rightarrow> True | _ \<Rightarrow> False)
     | _ \<Rightarrow> False)"

lemma claim_audit: "ap_audit (snd (claim_idempotency_slot now k t fp s)) = ap_audit s"
  by (simp add: claim_idempotency_slot_def split: option.split)

lemma quiet_create:
  assumes "\<not> is_replay env now ca (Create p late) s"
  shows "quiet s (create_route env now rq ca p late s)"
proof (cases "check_create env ca p (ap_db s)")
  case (Inl e)
  then show ?thesis by (simp add: create_route_def quiet_simps)
next
  case (Inr a)
  obtain v s1 where c: "claim_create now ca p s = (v, s1)" by fastforce
  have s1: "ap_audit s1 = ap_audit s"
    using claim_audit [of now "ak_id (ca_key ca)" "idempotency_key p" "cr_fingerprint p" s] c by (simp add: claim_create_def)
  show ?thesis using Inr c s1 assms quiet_finish [OF s1]
    by (cases v) (simp_all add: create_route_def quiet_simps is_replay_def)
qed

lemma replay_silent:
  assumes "is_replay env now ca op s"
  shows "ap_audit (snd (api_route env now rq ca op s)) = ap_audit s"
    and "\<exists>n b. fst (api_route env now rq ca op s) = Replied n b \<or> fst (api_route env now rq ca op s) = Crashed"
proof -
  obtain p late a n b where e: "op = Create p late" "check_create env ca p (ap_db s) = Inr a" "fst (claim_create now ca p s) = Replay n b"
    using assms by (auto simp: is_replay_def split: api_op.splits sum.splits slot_claim.splits)
  obtain s1 where c: "claim_create now ca p s = (Replay n b, s1)" using e(3) by (cases "claim_create now ca p s") simp
  have "ap_audit s1 = ap_audit s"
    using claim_audit [of now "ak_id (ca_key ca)" "idempotency_key p" "cr_fingerprint p" s] c by (simp add: claim_create_def)
  then show "ap_audit (snd (api_route env now rq ca op s)) = ap_audit s"
    and "\<exists>n b. fst (api_route env now rq ca op s) = Replied n b \<or> fst (api_route env now rq ca op s) = Crashed"
    using e(1,2) c by (simp_all add: create_route_def split: option.split)
qed

lemma quiet_move: "quiet s (move_children env now rq ca i act target at ps s)"
  by (simp add: move_children_def quiet_simps quiet_respond audit_steps split: sum.split)

lemma quiet_route:
  assumes "\<not> is_replay env now ca op s"
  shows "quiet s (api_route env now rq ca op s)"
proof (cases op)
  case (Create p late)
  then show ?thesis using quiet_create assms by simp
next
  case (Retrieve i)
  then show ?thesis
    by (simp add: retrieve_route_def NOT_FOUND_def quiet_simps quiet_respond audit_steps split: option.split)
next
  case (Update i u)
  then show ?thesis
    by (simp add: update_route_def NOT_FOUND_def Let_def quiet_simps quiet_respond audit_steps del: first_refusal.simps split: option.split)
next
  case (Schedule i at)
  then show ?thesis
    by (simp add: schedule_route_def NOT_FOUND_def Let_def quiet_simps quiet_move del: first_refusal.simps split: option.split)
next
  case (Cancel i)
  then show ?thesis
    by (simp add: cancel_route_def NOT_FOUND_def Let_def quiet_simps quiet_move del: first_refusal.simps split: option.split)
qed

text \<open>
  Every request that is answered leaves one row in the audit log, refused or not, but one: a create
  request replayed from its idempotency slot leaves none.
\<close>

theorem one_audit_row_per_answer:
  assumes "answer_request env now rq ca op s = (Some answer, s')"
  shows "length (ap_audit s') = length (ap_audit s) + (if is_replay env now ca op s then 0 else 1)"
proof -
  obtain ans s1 where r: "api_route env now rq ca op s = (ans, s1)" by fastforce
  show ?thesis
  proof (cases "is_replay env now ca op s")
    case True
    then show ?thesis using replay_silent [OF True, of rq] r assms by (auto simp: answer_request_def)
  next
    case False
    have q: "quiet s (ans, s1)" using quiet_route [OF False, of rq] r by simp
    show ?thesis
    proof (cases ans)
      case (Refused e)
      then show ?thesis using q r assms False
        by (cases e) (auto simp: answer_request_def quiet_simps audit_failed_request_def audit_steps split: if_splits)
    next
      case (Rejected e)
      then show ?thesis using q r assms False
        by (auto simp: answer_request_def quiet_simps audit_failed_request_def audit_steps)
    next
      case Crashed
      then show ?thesis using r assms by (simp add: answer_request_def)
    next
      case (Replied n b)
      then show ?thesis using q r assms False by (simp add: answer_request_def quiet_simps)
    qed
  qed
qed

theorem one_audit_row_per_answer_witness:
  "\<exists>s'. answer_request sample_env 0 sample_http (sample_caller [''create_posts'']) (Retrieve 77) sample_state =
      (Some (404, Error_body [(''error'', JStr ''not_found''), (''detail'', JStr ''Not found.'')] []), s') \<and>
    length (ap_audit s') = 1"
proof -
  have r: "api_route sample_env 0 sample_http (sample_caller [''create_posts'']) (Retrieve 77) sample_state = (NOT_FOUND, sample_state)"
    by (simp add: retrieve_route_def enforce_http_rate_limits_def get_workspace_post_def get_post_def tbl_get_def Let_def api_sample_defs)
  have a: "\<exists>s'. answer_request sample_env 0 sample_http (sample_caller [''create_posts'']) (Retrieve 77) sample_state =
      (Some (404, Error_body [(''error'', JStr ''not_found''), (''detail'', JStr ''Not found.'')] []), s')"
    unfolding answer_request_def r by (simp add: NOT_FOUND_def http_error_body_def slug_for_def)
  then obtain s' where s': "answer_request sample_env 0 sample_http (sample_caller [''create_posts'']) (Retrieve 77) sample_state =
      (Some (404, Error_body [(''error'', JStr ''not_found''), (''detail'', JStr ''Not found.'')] []), s')" by blast
  have "length (ap_audit s') = 1"
    using one_audit_row_per_answer [OF s'] by (simp add: is_replay_def sample_state_def)
  with s' show ?thesis by blast
qed

end
