(* ===== verification/Api_Limit_Safety.thy ===== *)
theory Api_Limit_Safety
  imports Api_Limits
begin

text \<open>
  What the limits of the Agent API do: the error body says what the limit said, the failed-auth throttle
  bounds the guesses from one address, and a client behind a trusted proxy chooses its own address.
\<close>

section \<open>Numbers\<close>

lemma digit_char: "n < 10 \<Longrightarrow> (of_char (char_of (48 + n) :: char) :: nat) = 48 + n"
  by (simp add: of_char_of)

lemma all_digits_append: "all_digits acc (s @ t) = (case all_digits acc s of None \<Rightarrow> None | Some n \<Rightarrow> all_digits n t)"
  by (induction s arbitrary: acc) (simp_all add: Let_def)

lemma all_digits_nat_text: "all_digits 0 (nat_text n) = Some n"
proof (induction n rule: nat_text.induct)
  case (1 n)
  show ?case
  proof (cases "n < 10")
    case True
    then show ?thesis by (subst nat_text.simps) (simp add: Let_def of_char_of)
  next
    case False
    have "n mod 10 < 10" by simp
    then show ?thesis using False 1 by (subst nat_text.simps) (simp add: all_digits_append Let_def of_char_of)
  qed
qed

lemma nat_text_ne [simp]: "nat_text n \<noteq> []"
  by (subst nat_text.simps) simp

lemma isdigit_nat_text: "py_isdigit (nat_text n)"
  by (simp add: py_isdigit_def all_digits_nat_text)

lemma digit_plain: "n < (10::nat) \<Longrightarrow> \<not> is_space (char_of (48 + n)) \<and> char_of (48 + n) \<noteq> CHR ''=''"
proof -
  assume "n < 10"
  then have "n \<in> {0, 1, 2, 3, 4, 5, 6, 7, 8, 9}" unfolding insert_iff empty_iff by arith
  then show ?thesis by (elim insertE emptyE) (simp_all only: is_space_def, code_simp+)
qed

lemma nat_text_plain: "c \<in> set (nat_text n) \<Longrightarrow> \<not> is_space c \<and> c \<noteq> CHR ''=''"
proof (induction n arbitrary: c rule: nat_text.induct)
  case (1 n)
  show ?case
  proof (cases "n < 10")
    case True
    then show ?thesis using "1.prems" by (subst (asm) nat_text.simps) (use digit_plain in simp)
  next
    case False
    have "n mod 10 < 10" by simp
    have "set (nat_text n) = set (nat_text (n div 10)) \<union> {char_of (48 + n mod 10)}"
      using False by (subst nat_text.simps) simp
    then show ?thesis using "1.prems" "1.IH" [OF False] digit_plain [OF \<open>n mod 10 < 10\<close>] by auto
  qed
qed

section \<open>The error body\<close>

lemma py_split_word: "w \<noteq> [] \<Longrightarrow> \<forall>c \<in> set w. \<not> is_space c \<Longrightarrow> py_split (w @ '' '' @ s) = w # py_split s"
proof -
  assume "w \<noteq> []" and w: "\<forall>c \<in> set w. \<not> is_space c"
  then obtain c v where v: "w = c # v" by (cases w) auto
  have "takeWhile (\<lambda>x. \<not> is_space x) (v @ CHR '' '' # s) = v" "dropWhile (\<lambda>x. \<not> is_space x) (v @ CHR '' '' # s) = CHR '' '' # s"
    using w v takeWhile_append2 [of v "\<lambda>x. \<not> is_space x" "CHR '' '' # s"] dropWhile_append2 [of v "\<lambda>x. \<not> is_space x" "CHR '' '' # s"]
    by (auto simp: is_space_def)
  then show ?thesis using w v by (simp add: is_space_def)
qed

lemma py_split_last: "w \<noteq> [] \<Longrightarrow> \<forall>c \<in> set w. \<not> is_space c \<Longrightarrow> py_split w = [w]"
proof -
  assume "w \<noteq> []" and w: "\<forall>c \<in> set w. \<not> is_space c"
  then obtain c v where v: "w = c # v" by (cases w) auto
  have "takeWhile (\<lambda>x. \<not> is_space x) v = v" "dropWhile (\<lambda>x. \<not> is_space x) v = []"
    using w v by (auto simp: takeWhile_eq_all_conv dropWhile_eq_Nil_conv)
  then show ?thesis using w v by (simp del: dropWhile_eq_Nil_conv)
qed

lemma quota_token_pair:
  assumes "CHR ''='' \<notin> set k"
  shows "quota_token (k @ ''='' @ v) parts = dict_set k (quota_value v) parts"
proof -
  have k: "\<And>c. c \<in> set k \<Longrightarrow> c \<noteq> CHR ''=''" using assms by auto
  have "takeWhile (\<lambda>c. c \<noteq> CHR ''='') (k @ CHR ''='' # v) = k"
      "dropWhile (\<lambda>c. c \<noteq> CHR ''='') (k @ CHR ''='' # v) = CHR ''='' # v"
    by (subst takeWhile_append2, rule k, assumption, simp) (subst dropWhile_append2, rule k, assumption, simp)
  then show ?thesis by (simp add: quota_token_def)
qed

text \<open>
  The body of a 429 says what the limit that refused said: the tier, the limit, what remains and when
  to retry come back from the text as they went in, the numbers as numbers and as headers.
\<close>

theorem quota_body_roundtrip:
  assumes "\<forall>c \<in> set tier. \<not> is_space c" and "\<not> py_isdigit tier"
  shows "parse_quota_message (format_quota_message tier limit remaining retry) =
    ([(''error'', JStr ''rate_limited''), (''tier'', JStr tier), (''limit'', JNum (int limit)),
      (''remaining'', JNum (int remaining)), (''retry_after'', JNum (int retry))],
     [(''Retry-After'', int retry), (''X-RateLimit-Limit'', int limit), (''X-RateLimit-Remaining'', int remaining)])"
proof -
  have sp: "\<forall>c \<in> set ''rate_limited''. \<not> is_space c" "\<forall>c \<in> set (''tier='' @ tier). \<not> is_space c"
      "\<forall>c \<in> set (''limit='' @ nat_text limit). \<not> is_space c"
      "\<forall>c \<in> set (''remaining='' @ nat_text remaining). \<not> is_space c"
      "\<forall>c \<in> set (''retry_after='' @ nat_text retry). \<not> is_space c"
    using assms(1) nat_text_plain by (auto simp: is_space_def)
  have m: "format_quota_message tier limit remaining retry = ''rate_limited'' @ '' '' @ (''tier='' @ tier) @ '' '' @
      (''limit='' @ nat_text limit) @ '' '' @ (''remaining='' @ nat_text remaining) @ '' '' @ (''retry_after='' @ nat_text retry)"
    by (simp add: format_quota_message_def)
  have s: "py_split (format_quota_message tier limit remaining retry) = [''rate_limited'', ''tier='' @ tier,
      ''limit='' @ nat_text limit, ''remaining='' @ nat_text remaining, ''retry_after='' @ nat_text retry]"
    unfolding m
    by (subst py_split_word [OF _ sp(1)], simp, subst py_split_word [OF _ sp(2)], simp,
        subst py_split_word [OF _ sp(3)], simp, subst py_split_word [OF _ sp(4)], simp,
        subst py_split_last [OF _ sp(5)], simp, simp)
  have v: "quota_value (nat_text n) = JNum (int n)" for n
    by (simp add: quota_value_def isdigit_nat_text all_digits_nat_text)
  have vt: "quota_value tier = JStr tier" using assms(2) by (simp add: quota_value_def)
  have t: "quota_token (''tier='' @ tier) p = dict_set ''tier'' (JStr tier) p"
      "quota_token (''limit='' @ nat_text n) p = dict_set ''limit'' (JNum (int n)) p"
      "quota_token (''remaining='' @ nat_text n) p = dict_set ''remaining'' (JNum (int n)) p"
      "quota_token (''retry_after='' @ nat_text n) p = dict_set ''retry_after'' (JNum (int n)) p" for n p
    using quota_token_pair [of "''tier''" tier p] quota_token_pair [of "''limit''" "nat_text n" p]
      quota_token_pair [of "''remaining''" "nat_text n" p] quota_token_pair [of "''retry_after''" "nat_text n" p]
    by (simp_all add: v vt)
  have z: "quota_token ''rate_limited'' p = p" for p by (simp add: quota_token_def)
  have parts: "foldl (\<lambda>acc t. quota_token t acc) [(''error'', JStr ''rate_limited'')]
      (py_split (format_quota_message tier limit remaining retry)) =
     [(''error'', JStr ''rate_limited''), (''tier'', JStr tier), (''limit'', JNum (int limit)),
      (''remaining'', JNum (int remaining)), (''retry_after'', JNum (int retry))]"
    unfolding s by (simp add: z t [simplified] dict_set_def)
  show ?thesis
    unfolding parse_quota_message_def parts by (simp add: int_header_def dict_get_def)
qed

theorem quota_body_roundtrip_witness:
  "fst (parse_quota_message (format_quota_message ''platform_quota:instagram'' 25 0 3600)) =
    [(''error'', JStr ''rate_limited''), (''tier'', JStr ''platform_quota:instagram''), (''limit'', JNum 25),
      (''remaining'', JNum 0), (''retry_after'', JNum 3600)]"
  by (subst quota_body_roundtrip) (simp_all add: is_space_def py_isdigit_def Let_def)

section \<open>Addresses\<close>

lemma split_on_first: "c \<notin> set w \<Longrightarrow> split_on c (w @ c # s) = w # split_on c s"
  by (induction w) auto

text \<open>
  Behind a trusted proxy a client picks its own address: proxies append to \<open>X-Forwarded-For\<close>, and the
  first entry, which the client wrote, is taken for the client's, whatever was appended after it.
\<close>

lemma client_picks_address:
  assumes "hq_remote rq = Some p" and "p \<in> set (cf_trusted cf)" and "hq_forwarded rq = Some (spoof @ CHR '','' # appended)"
    and "CHR '','' \<notin> set spoof" and "py_strip spoof = spoof" and "spoof \<noteq> []" and "spoof \<notin> set (cf_trusted cf)"
  shows "client_ip cf rq = Some spoof"
  using assms by (simp add: client_ip_def split_on_first)

section \<open>The throttle\<close>

text \<open>
  A guess with an unknown token, as \<open>ApiKeyAuth.authenticate\<close> handles it: refused before it is looked at,
  or looked at, found wrong and counted. Time passes before each guess. The run counts the guesses of each
  address that have been looked at.
\<close>

record guesses =
  gs_now :: instant
  gs_throttle :: throttle
  gs_seen :: "string \<Rightarrow> nat"

definition guess :: "api_settings \<Rightarrow> guesses \<Rightarrow> int \<times> api_request \<Rightarrow> guesses" where
  "guess cf g e =
    (let now = gs_now g + \<bar>fst e\<bar>; k = auth_fail_key cf (snd e);
         (rejected, th) = pre_auth_reject cf now (snd e) (gs_throttle g)
     in if rejected then g\<lparr>gs_now := now, gs_throttle := th\<rparr>
        else g\<lparr>gs_now := now, gs_throttle := record_failed_auth cf now (snd e) th,
               gs_seen := (gs_seen g)(k := Suc (gs_seen g k))\<rparr>)"

definition first_guess :: "instant \<Rightarrow> guesses" where
  "first_guess t = \<lparr>gs_now = t, gs_throttle = [], gs_seen = (\<lambda>_. 0)\<rparr>"

definition bucket_ok :: "instant \<Rightarrow> guesses \<Rightarrow> string \<Rightarrow> bool" where
  \<comment> \<open>\<open>m\<close> full buckets of sixty seconds went before the present one\<close>
  "bucket_ok t g k \<longleftrightarrow> (case map_of (gs_throttle g) k of
       None \<Rightarrow> gs_seen g k = 0
     | Some (n, until) \<Rightarrow> n \<le> AUTH_FAIL_LIMIT \<and> until \<le> gs_now g + AUTH_FAIL_WINDOW \<and>
         (\<exists>m :: nat. gs_seen g k \<le> AUTH_FAIL_LIMIT * m + n \<and> t + AUTH_FAIL_WINDOW * (int m + 1) \<le> until))"

definition throttle_inv :: "instant \<Rightarrow> guesses \<Rightarrow> bool" where
  "throttle_inv t g \<longleftrightarrow> t \<le> gs_now g \<and> (\<forall>k. bucket_ok t g k)"

lemma recorded: "map_of (record_failed_auth cf now rq th) k' =
    (if k' = auth_fail_key cf rq
     then Some (case map_of th k' of
        Some (n, until) \<Rightarrow> if now < until then (Suc n, until) else (1, now + AUTH_FAIL_WINDOW)
      | None \<Rightarrow> (1, now + AUTH_FAIL_WINDOW))
     else map_of th k')"
  by (auto simp: record_failed_auth_def Let_def update_conv' split: option.split)

lemma window_pos: "0 < AUTH_FAIL_WINDOW"
  by (simp add: AUTH_FAIL_WINDOW_def)

lemma bucket_later: "bucket_ok t g k \<Longrightarrow> gs_now g \<le> now \<Longrightarrow> bucket_ok t (g\<lparr>gs_now := now\<rparr>) k"
  by (auto simp: bucket_ok_def split: option.splits)

lemma record_bucket:
  assumes b: "bucket_ok t (g\<lparr>gs_now := now\<rparr>) (auth_fail_key cf rq)" and n: "t \<le> now"
    and free: "\<not> is_failed_auth_ip_blocked cf now rq (gs_throttle g)"
    and seen: "S k = gs_seen g k \<or> (S k = Suc (gs_seen g k))" and k: "k = auth_fail_key cf rq"
  shows "bucket_ok t (g\<lparr>gs_now := now, gs_throttle := record_failed_auth cf now rq (gs_throttle g), gs_seen := S\<rparr>) k"
proof (cases "map_of (gs_throttle g) k")
  case None
  then have "gs_seen g k = 0" using b k by (simp add: bucket_ok_def)
  then show ?thesis using None seen n
    by (auto simp: bucket_ok_def recorded k AUTH_FAIL_LIMIT_def intro!: exI [of _ 0])
next
  case (Some p)
  obtain c until where p: "p = (c, until)" by (cases p)
  obtain m where m: "c \<le> AUTH_FAIL_LIMIT" "gs_seen g k \<le> AUTH_FAIL_LIMIT * m + c"
      "t + AUTH_FAIL_WINDOW * (int m + 1) \<le> until" "until \<le> now + AUTH_FAIL_WINDOW"
    using b Some p k by (auto simp: bucket_ok_def)
  show ?thesis
  proof (cases "now < until")
    case True
    then have "c < AUTH_FAIL_LIMIT" using free Some p k by (simp add: is_failed_auth_ip_blocked_def failures_def)
    then show ?thesis using True m seen Some p
      by (auto simp: bucket_ok_def recorded k intro!: exI [of _ m])
  next
    case False
    have "S k \<le> AUTH_FAIL_LIMIT * Suc m + 1" using m(1,2) seen by auto
    moreover have "t + AUTH_FAIL_WINDOW * (int (Suc m) + 1) \<le> now + AUTH_FAIL_WINDOW"
      using m(3) False by (simp add: algebra_simps)
    ultimately show ?thesis using False Some p
      by (auto simp: bucket_ok_def recorded k AUTH_FAIL_LIMIT_def intro!: exI [of _ "Suc m"])
  qed
qed

lemma guess_inv: "throttle_inv t g \<Longrightarrow> throttle_inv t (guess cf g e)"
proof -
  assume i: "throttle_inv t g"
  obtain d rq where e: "e = (d, rq)" by (cases e)
  define now where "now = gs_now g + \<bar>d\<bar>"
  have n: "t \<le> now" "gs_now g \<le> now" using i by (auto simp: throttle_inv_def now_def)
  have b: "bucket_ok t (g\<lparr>gs_now := now\<rparr>) k" for k using i n(2) by (simp add: throttle_inv_def bucket_later)
  let ?k = "auth_fail_key cf rq"
  have other: "bucket_ok t (g\<lparr>gs_now := now, gs_throttle := record_failed_auth cf now rq (gs_throttle g), gs_seen := S\<rparr>) k"
    if "k \<noteq> ?k" "S k = gs_seen g k" for k S
    using b [of k] that by (auto simp: bucket_ok_def recorded split: option.splits)
  have rec: "throttle_inv t (g\<lparr>gs_now := now, gs_throttle := record_failed_auth cf now rq (gs_throttle g), gs_seen := S\<rparr>)"
    if free: "\<not> is_failed_auth_ip_blocked cf now rq (gs_throttle g)" and S: "S = gs_seen g \<or> S = (gs_seen g)(?k := Suc (gs_seen g ?k))" for S
  proof -
    have "bucket_ok t (g\<lparr>gs_now := now, gs_throttle := record_failed_auth cf now rq (gs_throttle g), gs_seen := S\<rparr>) k" for k
    proof (cases "k = ?k")
      case True
      have "S k = gs_seen g k \<or> S k = Suc (gs_seen g k)" using S True by auto
      then show ?thesis using record_bucket [OF b n(1) free _ True] by blast
    next
      case False
      then show ?thesis using other [OF False, of S] S by auto
    qed
    then show ?thesis using n(1) by (simp add: throttle_inv_def)
  qed
  show ?thesis
  proof (cases "is_failed_auth_ip_blocked cf now rq (gs_throttle g)")
    case True
    then show ?thesis using b n by (simp add: guess_def e now_def [symmetric] pre_auth_reject_def throttle_inv_def Let_def)
  next
    case False
    show ?thesis
    proof (cases "\<not> hq_secure rq \<and> \<not> cf_debug cf")
      case True
      then show ?thesis using rec [OF False, of "gs_seen g"] False
        by (simp add: guess_def e now_def [symmetric] pre_auth_reject_def Let_def)
    next
      case sec: False
      then have "\<not> (\<not> hq_secure rq \<and> \<not> cf_debug cf)" by blast
      then show ?thesis using rec [OF False, of "(gs_seen g)(?k := Suc (gs_seen g ?k))"] False
        by (simp add: guess_def e now_def [symmetric] pre_auth_reject_def Let_def del: de_Morgan_conj)
    qed
  qed
qed

interpretation throttle: machine "guess cf" "throttle_inv t" for cf t
  by unfold_locales (rule guess_inv)

text \<open>
  However fast an attacker guesses and however the guesses of others are interleaved, in any time the
  server looks at no more than ten of the guesses of one address, plus ten for every minute gone by.
\<close>

theorem guesses_bounded:
  assumes "g = foldl (guess cf) (first_guess t) es"
  shows "int (gs_seen g k) \<le> 10 * ((gs_now g - t) div seconds 60 + 1)"
proof -
  have i: "throttle_inv t g"
    unfolding assms by (rule throttle.run_inv) (simp add: throttle_inv_def bucket_ok_def first_guess_def)
  show ?thesis
  proof (cases "map_of (gs_throttle g) k")
    case None
    then have "gs_seen g k = 0" using i by (auto simp: throttle_inv_def bucket_ok_def split: option.splits dest: spec [of _ k])
    moreover have "0 \<le> (gs_now g - t) div seconds 60"
      using i by (simp add: throttle_inv_def pos_imp_zdiv_nonneg_iff)
    ultimately show ?thesis by simp
  next
    case (Some p)
    obtain c until where p: "p = (c, until)" by (cases p)
    have "bucket_ok t g k" using i by (simp add: throttle_inv_def)
    then obtain m where m: "c \<le> 10" "gs_seen g k \<le> 10 * m + c" "t + AUTH_FAIL_WINDOW * (int m + 1) \<le> until"
        "until \<le> gs_now g + AUTH_FAIL_WINDOW"
      using Some p by (auto simp: bucket_ok_def AUTH_FAIL_LIMIT_def)
    have "int m * seconds 60 \<le> gs_now g - t" using m(3,4) by (simp add: AUTH_FAIL_WINDOW_def algebra_simps)
    then have "int m \<le> (gs_now g - t) div seconds 60"
      using zdiv_mono1 [of "int m * seconds 60" "gs_now g - t" "seconds 60"] by (simp add: seconds_def)
    moreover have "int (gs_seen g k) \<le> 10 * int m + int c" using m(2) by linarith
    ultimately show ?thesis using m(1) by (simp add: algebra_simps)
  qed
qed

definition one_guesser :: api_request where
  "one_guesser = \<lparr>hq_method = ''POST'', hq_path = ''/api/v1/posts/'', hq_remote = Some ''198.51.100.7'',
     hq_forwarded = None, hq_agent = None, hq_secure = True\<rparr>"

definition plain_settings :: api_settings where
  "plain_settings = \<lparr>cf_trusted = [''10.0.0.1''], cf_debug = False, cf_global_cap = None, cf_limited = (\<lambda>_ _ _. False)\<rparr>"

theorem guesses_bounded_witness:
  "gs_seen (foldl (guess plain_settings) (first_guess 0) (replicate 40 (1, one_guesser))) ''198.51.100.7'' \<le> 10"
proof -
  have now: "gs_now (foldl (guess cf) g (replicate n (1, rq))) = gs_now g + int n" for cf g n rq
    by (induction n arbitrary: g) (simp_all add: guess_def Let_def split: prod.split)
  have "int (gs_seen (foldl (guess plain_settings) (first_guess 0) (replicate 40 (1, one_guesser))) ''198.51.100.7'') \<le>
      10 * ((gs_now (foldl (guess plain_settings) (first_guess 0) (replicate 40 (1, one_guesser))) - 0) div seconds 60 + 1)"
    by (rule guesses_bounded [OF refl])
  then show ?thesis unfolding now by (simp add: first_guess_def seconds_def)
qed

section \<open>The throttle behind a proxy\<close>

definition spoofed :: "string \<Rightarrow> string \<Rightarrow> api_request" where
  \<comment> \<open>a request through the proxy \<open>p\<close>, with an address the client made up in front of its own\<close>
  "spoofed p s = \<lparr>hq_method = ''POST'', hq_path = ''/api/v1/posts/'', hq_remote = Some p,
     hq_forwarded = Some (s @ CHR '','' # '' 198.51.100.7''), hq_agent = None, hq_secure = True\<rparr>"

definition made_up :: "api_settings \<Rightarrow> string \<Rightarrow> bool" where
  \<comment> \<open>any text that reads as one hop and is not the address of a proxy\<close>
  "made_up cf s \<longleftrightarrow> CHR '','' \<notin> set s \<and> py_strip s = s \<and> s \<noteq> [] \<and> s \<notin> set (cf_trusted cf)"

lemma spoofed_key: "p \<in> set (cf_trusted cf) \<Longrightarrow> made_up cf s \<Longrightarrow> auth_fail_key cf (spoofed p s) = s"
  using client_picks_address [of "spoofed p s" p cf s]
  by (simp add: auth_fail_key_def spoofed_def made_up_def)

lemma spoofed_guess:
  assumes "p \<in> set (cf_trusted cf)" and "made_up cf s" and "map_of (gs_throttle g) s = None"
  shows "guess cf g (d, spoofed p s) = g\<lparr>gs_now := gs_now g + \<bar>d\<bar>,
      gs_throttle := record_failed_auth cf (gs_now g + \<bar>d\<bar>) (spoofed p s) (gs_throttle g),
      gs_seen := (gs_seen g)(s := Suc (gs_seen g s))\<rparr>"
proof -
  have "\<not> is_failed_auth_ip_blocked cf (gs_now g + \<bar>d\<bar>) (spoofed p s) (gs_throttle g)"
    using assms(3) by (simp add: is_failed_auth_ip_blocked_def spoofed_key [OF assms(1,2)] failures_def AUTH_FAIL_LIMIT_def)
  moreover have "hq_secure (spoofed p s)" by (simp add: spoofed_def)
  ultimately show ?thesis
    by (simp add: guess_def pre_auth_reject_def Let_def spoofed_key [OF assms(1,2)])
qed

text \<open>
  Behind a trusted proxy the throttle of failed authentication holds nobody back: a client that makes up
  a new address for every guess has every one of them looked at, however many it sends and however fast.
\<close>

theorem throttle_evaded:
  assumes "p \<in> set (cf_trusted cf)" and "list_all (made_up cf) ss" and "distinct ss"
    and "g = foldl (guess cf) (first_guess t) (map (\<lambda>s. (0, spoofed p s)) ss)"
  shows "list_all (\<lambda>s. gs_seen g s = 1) ss \<and> gs_now g = t"
proof -
  have "list_all (\<lambda>s. gs_seen g s = 1) ss \<and> gs_now g = t \<and> (\<forall>s. s \<notin> set ss \<longrightarrow> gs_seen g s = 0 \<and> map_of (gs_throttle g) s = None)"
    using assms(2-4)
  proof (induction ss arbitrary: g rule: rev_induct)
    case Nil
    then show ?case by (simp add: first_guess_def)
  next
    case (snoc s ss)
    define h where "h = foldl (guess cf) (first_guess t) (map (\<lambda>s. (0, spoofed p s)) ss)"
    have h: "list_all (\<lambda>s. gs_seen h s = 1) ss" "gs_now h = t"
        "\<And>x. x \<notin> set ss \<Longrightarrow> gs_seen h x = 0 \<and> map_of (gs_throttle h) x = None"
      using snoc.IH [OF _ _ h_def] snoc.prems(1,2) by auto
    have s: "s \<notin> set ss" "made_up cf s" using snoc.prems(1,2) by simp_all
    have "g = guess cf h (0, spoofed p s)" using snoc.prems(3) by (simp add: h_def)
    then have "g = h\<lparr>gs_now := gs_now h, gs_throttle := record_failed_auth cf (gs_now h) (spoofed p s) (gs_throttle h),
        gs_seen := (gs_seen h)(s := Suc (gs_seen h s))\<rparr>"
      using spoofed_guess [OF assms(1) s(2), of h 0] h(3) [OF s(1)] by simp
    then show ?case
      using h s by (auto simp: recorded spoofed_key [OF assms(1) s(2)] list_all_iff)
  qed
  then show ?thesis by blast
qed

theorem throttle_evaded_witness:
  "list_all (\<lambda>s. gs_seen (foldl (guess plain_settings) (first_guess 0)
      (map (\<lambda>s. (0, spoofed ''10.0.0.1'' s)) [''1'', ''2'', ''3''])) s = 1) [''1'', ''2'', ''3'']"
  by (rule conjunct1 [OF throttle_evaded [OF _ _ _ refl]]) (simp_all add: plain_settings_def made_up_def py_strip_def is_space_def)

end
