(* ===== verification/Api_Key_Runs.thy ===== *)
theory Api_Key_Runs
  imports Api_Keys
begin

text \<open>
  Everything that can happen to the keys of an installation, as a sequence of events over several
  workers: issuing, the two halves of an edit, revoking, verifying, changes of membership, evictions
  from a cache and the passing of time. The run keeps, beside the state, when the scope of each key was
  last written and on which workers it has been revoked; the invariant says how far a cached row can be
  from its row in the database.
\<close>

section \<open>Events\<close>

datatype key_event =
    Issue nat workspace "social_account list" nat string "string list" "instant option" string
  | Begin_edit nat workspace nat nat "string list" "social_account list" "instant option"
  | Commit_edit
  | Revoke nat nat
  | Verify nat string
  | Touch nat nat "string option"
  | Members "org_membership list" "ws_membership list"
  | Evict nat string
  | Tick int
    \<comment> \<open>microseconds, never backwards\<close>

record key_run =
  rn_site :: keyring
  rn_now :: instant
  rn_edits :: "key_edit list"
    \<comment> \<open>the open transactions\<close>
  rn_written :: "nat \<Rightarrow> instant"
  rn_revoked :: "(nat \<times> nat) list"
    \<comment> \<open>a worker and a key revoked there\<close>

fun key_step :: "key_env \<Rightarrow> key_run \<Rightarrow> key_event \<Rightarrow> key_run" where
  "key_step env R (Issue wk w accounts issuer name perms expires r) =
    (case issue_api_key env wk (rn_now R) w accounts issuer name perms expires r (rn_site R) of
       Inl _ \<Rightarrow> R
     | Inr ((k, _), s) \<Rightarrow> R\<lparr>rn_site := s, rn_written := (rn_written R)(ak_id k := rn_now R)\<rparr>)"
| "key_step env R (Begin_edit wk w i editor perms accounts expires) =
    (case get_key i (rn_site R) of
       None \<Rightarrow> R
     | Some k \<Rightarrow>
        (case begin_update wk w k editor perms accounts expires (rn_site R) of
           Inl _ \<Rightarrow> R
         | Inr (e, s) \<Rightarrow> R\<lparr>rn_site := s, rn_edits := rn_edits R @ [e]\<rparr>))"
| "key_step env R Commit_edit =
    (case rn_edits R of
       [] \<Rightarrow> R
     | e # es \<Rightarrow> R\<lparr>rn_site := commit_update e (rn_site R), rn_edits := es,
         rn_written := (rn_written R)(ed_key e := rn_now R)\<rparr>)"
| "key_step env R (Revoke wk i) =
    (case get_key i (rn_site R) of
       None \<Rightarrow> R
     | Some k \<Rightarrow> R\<lparr>rn_site := revoke_api_key wk (rn_now R) k (rn_site R),
         rn_written := (if ak_revoked_at k = None then (rn_written R)(i := rn_now R) else rn_written R),
         rn_revoked := (wk, i) # rn_revoked R\<rparr>)"
| "key_step env R (Verify wk raw) = R\<lparr>rn_site := snd (verify_token env wk (rn_now R) raw (rn_site R))\<rparr>"
| "key_step env R (Touch wk i ip) =
    (case get_key i (rn_site R) of
       None \<Rightarrow> R | Some k \<Rightarrow> R\<lparr>rn_site := touch_last_used wk (rn_now R) k ip (rn_site R)\<rparr>)"
| "key_step env R (Members oms wms) = R\<lparr>rn_site := (rn_site R)\<lparr>kr_orgmems := oms, kr_wsmems := wms\<rparr>\<rparr>"
| "key_step env R (Evict wk lp) = R\<lparr>rn_site := uncache_key wk lp (rn_site R)\<rparr>"
| "key_step env R (Tick n) = R\<lparr>rn_now := rn_now R + \<bar>n\<bar>\<rparr>"

section \<open>The invariant\<close>

definition identity :: "api_key \<Rightarrow> nat \<times> string \<times> string \<times> nat \<times> nat option" where
  "identity k = (ak_id k, ak_lookup k, ak_hash k, ak_workspace k, ak_issued_by k)"

definition scope :: "api_key \<Rightarrow> api_key" where
  \<comment> \<open>a key apart from the record of its use\<close>
  "scope k = k\<lparr>ak_last_used_at := None, ak_last_used_ip := None\<rparr>"

definition tracks :: "key_run \<Rightarrow> string \<Rightarrow> api_key \<Rightarrow> instant \<Rightarrow> bool" where
  \<comment> \<open>a cached row: the row of the database, or one written to since\<close>
  "tracks R lp k until \<longleftrightarrow> ak_lookup k = lp \<and> until \<le> rn_now R + REVOCATION_CACHE_TTL \<and>
     (\<exists>row \<in> set (kr_keys (rn_site R)). identity row = identity k \<and>
        (scope row = scope k \<or> until \<le> rn_written R (ak_id k) + REVOCATION_CACHE_TTL))"

definition rows_ok :: "key_run \<Rightarrow> bool" where
  "rows_ok R \<longleftrightarrow> distinct (map ak_id (kr_keys (rn_site R))) \<and> distinct (map ak_lookup (kr_keys (rn_site R))) \<and>
     (\<forall>k \<in> set (kr_keys (rn_site R)). ak_id k < kr_next (rn_site R)) \<and> (\<forall>i. rn_written R i \<le> rn_now R)"

definition caches_ok :: "key_run \<Rightarrow> bool" where
  "caches_ok R \<longleftrightarrow> (\<forall>wk lp k until. map_of (kr_cache (rn_site R) wk) lp = Some (k, until) \<longrightarrow> tracks R lp k until)"

definition revoked_ok :: "key_run \<Rightarrow> bool" where
  "revoked_ok R \<longleftrightarrow> (\<forall>wk i. (wk, i) \<in> set (rn_revoked R) \<longrightarrow> (\<exists>row \<in> set (kr_keys (rn_site R)).
     ak_id row = i \<and> ak_revoked_at row \<noteq> None \<and> map_of (kr_cache (rn_site R) wk) (ak_lookup row) = None))"

definition key_inv :: "key_run \<Rightarrow> bool" where
  "key_inv R \<longleftrightarrow> rows_ok R \<and> caches_ok R \<and> revoked_ok R"

lemma revoked_row:
  assumes "key_inv R" and "(wk, i) \<in> set (rn_revoked R)"
  obtains row where "row \<in> set (kr_keys (rn_site R))" and "ak_id row = i" and "ak_revoked_at row \<noteq> None"
    and "map_of (kr_cache (rn_site R) wk) (ak_lookup row) = None"
  using assms unfolding key_inv_def revoked_ok_def by blast

section \<open>What an event does to it\<close>

lemma scope_id: "scope a = scope b \<Longrightarrow> ak_id a = ak_id b \<and> ak_revoked_at a = ak_revoked_at b \<and>
    ak_expires_at a = ak_expires_at b \<and> ak_permissions a = ak_permissions b \<and> ak_accounts a = ak_accounts b"
  by (auto simp: scope_def dest: arg_cong [of _ _ ak_id] arg_cong [of _ _ ak_revoked_at]
      arg_cong [of _ _ ak_expires_at] arg_cong [of _ _ ak_permissions] arg_cong [of _ _ ak_accounts])

lemma uncache_map_of: "map_of (kr_cache (uncache_key wk lp s) wk') lp' =
    (if wk' = wk \<and> lp' = lp then None else map_of (kr_cache s wk') lp')"
  by (simp add: uncache_key_def delete_conv')

lemma cache_map_of: "map_of (kr_cache (cache_key wk now lp k s) wk') lp' =
    (if wk' = wk \<and> lp' = lp then Some (k, now + REVOCATION_CACHE_TTL) else map_of (kr_cache s wk') lp')"
  by (simp add: cache_key_def update_conv')

lemma uncache_fields [simp]:
  "kr_keys (uncache_key wk lp s) = kr_keys s" "kr_next (uncache_key wk lp s) = kr_next s"
  "kr_wsmems (uncache_key wk lp s) = kr_wsmems s" "kr_orgmems (uncache_key wk lp s) = kr_orgmems s"
  by (simp_all add: uncache_key_def)

lemma cache_fields [simp]:
  "kr_keys (cache_key wk now lp k s) = kr_keys s" "kr_next (cache_key wk now lp k s) = kr_next s"
  "kr_wsmems (cache_key wk now lp k s) = kr_wsmems s"
  by (simp_all add: cache_key_def)

text \<open>
  Forgetting cached rows is always safe: the lemma covers evictions, the cache busts and changes of
  membership at once.
\<close>

lemma forget_inv:
  assumes i: "key_inv R" and k: "kr_keys s = kr_keys (rn_site R)" and n: "kr_next s = kr_next (rn_site R)"
    and c: "\<And>wk lp v. map_of (kr_cache s wk) lp = Some v \<Longrightarrow> map_of (kr_cache (rn_site R) wk) lp = Some v"
  shows "key_inv (R\<lparr>rn_site := s, rn_edits := es\<rparr>)"
proof -
  let ?R = "R\<lparr>rn_site := s, rn_edits := es\<rparr>"
  have "rows_ok ?R" using i k n by (simp add: key_inv_def rows_ok_def)
  moreover have t: "tracks ?R = tracks R" by (simp add: tracks_def fun_eq_iff k)
  have "caches_ok ?R" using i c unfolding key_inv_def caches_ok_def t by (simp) blast
  moreover have "map_of (kr_cache s wk) lp = None" if "map_of (kr_cache (rn_site R) wk) lp = None" for wk lp
    using that c by (cases "map_of (kr_cache s wk) lp") auto
  then have "revoked_ok ?R" using i unfolding key_inv_def revoked_ok_def k [symmetric]
    by (simp add: k) blast
  ultimately show ?thesis by (simp add: key_inv_def)
qed

lemma forget_inv_same:
  assumes "key_inv R" and "kr_keys s = kr_keys (rn_site R)" and "kr_next s = kr_next (rn_site R)"
    and "\<And>wk lp v. map_of (kr_cache s wk) lp = Some v \<Longrightarrow> map_of (kr_cache (rn_site R) wk) lp = Some v"
  shows "key_inv (R\<lparr>rn_site := s\<rparr>)"
  using forget_inv [OF assms, of "rn_edits R"] by simp

lemma uncache_inv: "key_inv R \<Longrightarrow> key_inv (R\<lparr>rn_site := uncache_key wk lp (rn_site R)\<rparr>)"
  by (rule forget_inv_same) (simp_all add: uncache_map_of split: if_splits)

text \<open>Writing to the rows of one key, at the present instant.\<close>

lemma write_inv:
  assumes i: "key_inv R"
    and f: "\<And>r. identity (f r) = identity r" "\<And>r. ak_revoked_at r \<noteq> None \<Longrightarrow> ak_revoked_at (f r) \<noteq> None"
    and w: "\<And>j. W j = rn_written R j \<or> W j = rn_now R"
    and p: "\<And>r. P r \<Longrightarrow> scope (f r) = scope r \<or> W (ak_id r) = rn_now R"
  shows "key_inv (R\<lparr>rn_site := (rn_site R)\<lparr>kr_keys := tbl_update P f (kr_keys (rn_site R))\<rparr>,
    rn_edits := es, rn_written := W\<rparr>)" (is "key_inv ?R")
proof -
  have ids: "ak_id (f r) = ak_id r" "ak_lookup (f r) = ak_lookup r" for r
    using f(1) [of r] by (simp_all add: identity_def)
  have wn: "W j \<le> rn_now R" and wm: "rn_written R j \<le> W j" for j
    using w [of j] i by (auto simp: key_inv_def rows_ok_def)
  have "rows_ok ?R"
    using i wn by (auto simp: key_inv_def rows_ok_def map_tbl_update ids set_tbl_update)
  moreover have "caches_ok ?R"
    unfolding caches_ok_def
  proof (intro allI impI)
    fix wk lp k until
    assume "map_of (kr_cache (rn_site ?R) wk) lp = Some (k, until)"
    then have "tracks R lp k until" using i by (simp add: key_inv_def caches_ok_def)
    then obtain row where row: "row \<in> set (kr_keys (rn_site R))" "identity row = identity k"
        "scope row = scope k \<or> until \<le> rn_written R (ak_id k) + REVOCATION_CACHE_TTL"
        and lp: "ak_lookup k = lp" "until \<le> rn_now R + REVOCATION_CACHE_TTL"
      by (auto simp: tracks_def)
    define g where "g = (if P row then f row else row)"
    have g: "g \<in> set (kr_keys (rn_site ?R))" "identity g = identity k"
      using row f(1) by (auto simp: g_def set_tbl_update)
    have "scope g = scope k \<or> until \<le> W (ak_id k) + REVOCATION_CACHE_TTL"
    proof (cases "P row")
      case True
      have "ak_id row = ak_id k" using row(2) by (simp add: identity_def)
      then show ?thesis
        using p [OF True] row(3) lp(2) wm [of "ak_id k"] by (auto simp: g_def True)
    next
      case False
      then show ?thesis using row(3) wm [of "ak_id k"] by (auto simp: g_def)
    qed
    then show "tracks ?R lp k until" using g lp unfolding tracks_def by auto
  qed
  moreover have "revoked_ok ?R"
    unfolding revoked_ok_def
  proof (clarify)
    fix wk j assume "(wk, j) \<in> set (rn_revoked ?R)"
    then obtain row where row: "row \<in> set (kr_keys (rn_site R))" "ak_id row = j" "ak_revoked_at row \<noteq> None"
        "map_of (kr_cache (rn_site R) wk) (ak_lookup row) = None"
      using revoked_row [OF i] by simp blast
    define g where "g = (if P row then f row else row)"
    have "g \<in> set (kr_keys (rn_site ?R))" "ak_id g = j" "ak_revoked_at g \<noteq> None"
        "map_of (kr_cache (rn_site ?R) wk) (ak_lookup g) = None"
      using row ids f(2) by (auto simp: g_def set_tbl_update)
    then show "\<exists>row\<in>set (kr_keys (rn_site ?R)). ak_id row = j \<and> ak_revoked_at row \<noteq> None \<and>
        map_of (kr_cache (rn_site ?R) wk) (ak_lookup row) = None"
      by blast
  qed
  ultimately show ?thesis by (simp add: key_inv_def)
qed

lemma distinct_lookup: "rows_ok R \<Longrightarrow> a \<in> set (kr_keys (rn_site R)) \<Longrightarrow> b \<in> set (kr_keys (rn_site R)) \<Longrightarrow>
    ak_lookup a = ak_lookup b \<Longrightarrow> a = b"
  by (rule distinct_key_eq [of ak_lookup]) (simp_all add: rows_ok_def)

lemma distinct_id: "rows_ok R \<Longrightarrow> a \<in> set (kr_keys (rn_site R)) \<Longrightarrow> b \<in> set (kr_keys (rn_site R)) \<Longrightarrow>
    ak_id a = ak_id b \<Longrightarrow> a = b"
  by (rule distinct_key_eq [of ak_id]) (simp_all add: rows_ok_def)

lemma ttl_pos: "0 < REVOCATION_CACHE_TTL"
  by (simp add: REVOCATION_CACHE_TTL_def)

lemma cache_inv:
  assumes i: "key_inv R" and k: "k \<in> set (kr_keys (rn_site R))" "ak_lookup k = lp" "ak_revoked_at k = None"
  shows "key_inv (R\<lparr>rn_site := cache_key wk (rn_now R) lp k (rn_site R)\<rparr>)" (is "key_inv ?R")
proof -
  have t: "tracks ?R = tracks R" by (simp add: tracks_def fun_eq_iff)
  have new: "tracks R lp k (rn_now R + REVOCATION_CACHE_TTL)" using k by (auto simp: tracks_def)
  have "rows_ok ?R" using i by (simp add: key_inv_def rows_ok_def)
  moreover have "caches_ok ?R"
    using i new unfolding key_inv_def caches_ok_def t by (simp add: cache_map_of)
  moreover have "revoked_ok ?R"
    unfolding revoked_ok_def
  proof (clarify)
    fix wk' j assume "(wk', j) \<in> set (rn_revoked ?R)"
    then obtain row where row: "row \<in> set (kr_keys (rn_site R))" "ak_id row = j" "ak_revoked_at row \<noteq> None"
        "map_of (kr_cache (rn_site R) wk') (ak_lookup row) = None"
      using revoked_row [OF i] by simp blast
    have "ak_lookup row \<noteq> lp" using distinct_lookup [OF _ row(1) k(1)] i k row(3) by (auto simp: key_inv_def)
    then have "map_of (kr_cache (rn_site ?R) wk') (ak_lookup row) = None" using row(4) by (simp add: cache_map_of)
    with row show "\<exists>row\<in>set (kr_keys (rn_site ?R)). ak_id row = j \<and> ak_revoked_at row \<noteq> None \<and>
        map_of (kr_cache (rn_site ?R) wk') (ak_lookup row) = None" by auto
  qed
  ultimately show ?thesis by (simp add: key_inv_def)
qed

section \<open>Verifying\<close>

lemma load_key_cases:
  assumes "load_key wk now lp s = Some (k, s1)"
  obtains (cached) until where "map_of (kr_cache s wk) lp = Some (k, until)" and "now < until" and "s1 = s"
    | (fresh) "k \<in> set (kr_keys s)" and "ak_lookup k = lp" and "s1 = (if is_active now k then cache_key wk now lp k s else s)"
proof (cases "cached_key wk now lp s")
  case None
  then show ?thesis using assms fresh
    by (auto simp: load_key_def dest: tbl_first_Some split: option.splits)
next
  case (Some k')
  then have "k' = k \<and> s1 = s" using assms by (simp add: load_key_def)
  moreover obtain until where "map_of (kr_cache s wk) lp = Some (k', until)" "now < until"
    using Some by (auto simp: cached_key_def split: option.splits if_splits)
  ultimately show ?thesis using cached by blast
qed

lemma active_not_revoked: "is_active now k \<Longrightarrow> ak_revoked_at k = None"
  by (cases "ak_revoked_at k") (simp_all add: is_active_def)

lemma load_key_inv:
  assumes i: "key_inv R" and l: "load_key wk (rn_now R) lp (rn_site R) = Some (k, s1)"
  shows "key_inv (R\<lparr>rn_site := s1\<rparr>) \<and> kr_keys s1 = kr_keys (rn_site R) \<and> kr_wsmems s1 = kr_wsmems (rn_site R)"
  using l
proof (cases rule: load_key_cases)
  case (cached until)
  then show ?thesis using i by simp
next
  case fresh
  show ?thesis
  proof (cases "is_active (rn_now R) k")
    case True
    then show ?thesis using fresh cache_inv [OF i fresh(1,2) active_not_revoked [OF True]] by simp
  next
    case False
    then show ?thesis using fresh i by simp
  qed
qed

lemma load_key_tracks:
  assumes i: "key_inv R" and l: "load_key wk (rn_now R) lp (rn_site R) = Some (k, s1)"
  shows "\<exists>until. rn_now R < until \<and> tracks R lp k until"
  using l
proof (cases rule: load_key_cases)
  case (cached until)
  then show ?thesis using i by (auto simp: key_inv_def caches_ok_def)
next
  case fresh
  then have "tracks R lp k (rn_now R + REVOCATION_CACHE_TTL)" by (auto simp: tracks_def)
  then show ?thesis using ttl_pos by (rule_tac exI [of _ "rn_now R + REVOCATION_CACHE_TTL"]) simp
qed

lemma verify_inv: "key_inv R \<Longrightarrow> key_inv (R\<lparr>rn_site := snd (verify_token env wk (rn_now R) raw (rn_site R))\<rparr>)"
proof -
  assume i: "key_inv R"
  show ?thesis
  proof (cases "parse_token env raw")
    case None
    then show ?thesis using i by (simp add: verify_token_def)
  next
    case (Some p)
    obtain r lp where p: "p = (r, lp)" by force
    show ?thesis
    proof (cases "load_key wk (rn_now R) lp (rn_site R)")
      case None
      then show ?thesis using i Some p by (simp add: verify_token_def)
    next
      case (Some q)
      obtain k s1 where q: "q = (k, s1)" by force
      have j: "key_inv (R\<lparr>rn_site := s1\<rparr>)" using load_key_inv [OF i] Some q by simp
      have u: "key_inv (R\<lparr>rn_site := uncache_key wk lp s1\<rparr>)" using uncache_inv [OF j, of wk lp] by simp
      show ?thesis using \<open>parse_token env raw = Some p\<close> p Some q i j u by (simp add: verify_token_def)
    qed
  qed
qed

lemma verify_Some:
  assumes "verify_token env wk now raw s = (Some k, s')"
  obtains r lp s1 where "parse_token env raw = Some (r, lp)" and "load_key wk now lp s = Some (k, s1)"
    and "is_active now k" and "ke_hmac env r = ak_hash k" and "issuer_still_authorized k s1" and "s' = s1"
proof -
  obtain q where q: "parse_token env raw = Some q"
    using assms by (cases "parse_token env raw") (simp_all add: verify_token_def)
  obtain r lp where rl: "q = (r, lp)" by (cases q)
  obtain v where v: "load_key wk now lp s = Some v"
    using assms q rl by (cases "load_key wk now lp s") (simp_all add: verify_token_def)
  obtain k1 s1 where ks: "v = (k1, s1)" by (cases v)
  have "is_active now k1 \<and> ke_hmac env r = ak_hash k1 \<and> issuer_still_authorized k1 s1 \<and> k1 = k \<and> s1 = s'"
    using assms by (simp add: verify_token_def q rl v ks split: if_splits)
  then show thesis by (intro that [of r lp s1]) (auto simp: q rl v ks)
qed

section \<open>The other events\<close>

lemma issue_Inr:
  assumes "issue_api_key env wk now w accounts issuer name perms expires r s = Inr ((k, tok), s')"
  obtains m where "foreign_account w accounts = None"
    and "has_org_permission (key_org_membership issuer w s) ''manage_api_keys''"
    and "key_ws_membership issuer (ws_id w) s = Some m" and "set perms \<subseteq> set (held_permissions m)"
    and "make_lookup env r \<notin> ak_lookup ` set (kr_keys s)"
    and "k = new_key env now w accounts issuer name perms expires r (kr_next s)"
    and "tok = token_text r (ak_lookup k)"
    and "s' = invalidate_api_key_cache wk k (s\<lparr>kr_keys := kr_keys s @ [k], kr_next := Suc (kr_next s)\<rparr>)"
proof -
  obtain m where m: "key_ws_membership issuer (ws_id w) s = Some m"
    using assms by (fastforce simp: issue_api_key_def split: option.splits if_splits)
  have a: "foreign_account w accounts = None"
    using assms by (cases "foreign_account w accounts") (simp_all add: issue_api_key_def)
  have p: "has_org_permission (key_org_membership issuer w s) ''manage_api_keys''"
    using assms a by (simp add: issue_api_key_def split: if_splits)
  define ug where "ug = filter (\<lambda>p. p \<notin> set (held_permissions m)) (remdups perms)"
  have r: "(if ug \<noteq> [] then Inl (UNGRANTABLE (sort ug))
      else if make_lookup env r \<in> ak_lookup ` set (kr_keys s) then Inl LOOKUP_TAKEN
      else let k = new_key env now w accounts issuer name perms expires r (kr_next s);
               s1 = s\<lparr>kr_keys := kr_keys s @ [k], kr_next := Suc (kr_next s)\<rparr>
           in Inr ((k, token_text r (ak_lookup k)), invalidate_api_key_cache wk k s1)) = Inr ((k, tok), s')"
    using assms a p m unfolding issue_api_key_def ug_def Let_def by simp
  then have u: "ug = []" "make_lookup env r \<notin> ak_lookup ` set (kr_keys s)"
    by (simp_all split: if_splits)
  then have k: "k = new_key env now w accounts issuer name perms expires r (kr_next s)"
    using r by (simp add: Let_def)
  have "set perms \<subseteq> set (held_permissions m)" using u(1) by (auto simp: ug_def filter_empty_conv)
  moreover have "tok = token_text r (ak_lookup k)"
      "s' = invalidate_api_key_cache wk k (s\<lparr>kr_keys := kr_keys s @ [k], kr_next := Suc (kr_next s)\<rparr>)"
    using r u unfolding k by (simp_all add: Let_def)
  ultimately show thesis using that a p m u(2) k by blast
qed

lemma issue_inv:
  assumes i: "key_inv R"
    and r: "issue_api_key env wk (rn_now R) w accounts issuer name perms expires rnd (rn_site R) = Inr ((k, tok), s)"
  shows "key_inv (R\<lparr>rn_site := s, rn_written := (rn_written R)(ak_id k := rn_now R)\<rparr>)" (is "key_inv ?R")
proof -
  obtain m where m: "make_lookup env rnd \<notin> ak_lookup ` set (kr_keys (rn_site R))"
      "k = new_key env (rn_now R) w accounts issuer name perms expires rnd (kr_next (rn_site R))"
      "s = invalidate_api_key_cache wk k ((rn_site R)\<lparr>kr_keys := kr_keys (rn_site R) @ [k], kr_next := Suc (kr_next (rn_site R))\<rparr>)"
    using issue_Inr [OF r] by metis
  have k: "ak_id k = kr_next (rn_site R)" "ak_lookup k = make_lookup env rnd"
    by (simp_all add: m(2) new_key_def)
  have keys: "kr_keys s = kr_keys (rn_site R) @ [k]" "kr_next s = Suc (kr_next (rn_site R))"
    by (simp_all add: m(3) invalidate_api_key_cache_def)
  have cache: "map_of (kr_cache s wk') lp = (if wk' = wk \<and> lp = ak_lookup k then None else map_of (kr_cache (rn_site R) wk') lp)"
    for wk' lp by (simp add: m(3) invalidate_api_key_cache_def uncache_map_of)
  have new: "ak_id k \<notin> ak_id ` set (kr_keys (rn_site R))"
    using i by (auto simp: k key_inv_def rows_ok_def)
  have "rows_ok ?R"
    using i new m(1) by (auto simp: key_inv_def rows_ok_def keys k less_Suc_eq)
  moreover have "caches_ok ?R"
    unfolding caches_ok_def
  proof (intro allI impI)
    fix wk' lp k' until
    assume "map_of (kr_cache (rn_site ?R) wk') lp = Some (k', until)"
    then have "tracks R lp k' until"
      using i by (auto simp: key_inv_def caches_ok_def cache split: if_splits)
    then obtain row where row: "row \<in> set (kr_keys (rn_site R))" "identity row = identity k'"
        "scope row = scope k' \<or> until \<le> rn_written R (ak_id k') + REVOCATION_CACHE_TTL"
        and lp: "ak_lookup k' = lp" "until \<le> rn_now R + REVOCATION_CACHE_TTL"
      by (auto simp: tracks_def)
    have "ak_id k' \<noteq> ak_id k" using row(1,2) new by (auto simp: identity_def) (metis image_eqI)
    then show "tracks ?R lp k' until" using row lp by (auto simp: tracks_def keys)
  qed
  moreover have "map_of (kr_cache s wk') lp = None" if "map_of (kr_cache (rn_site R) wk') lp = None" for wk' lp
    using that by (simp add: cache)
  then have "revoked_ok ?R"
    using i unfolding key_inv_def revoked_ok_def by (simp add: keys) blast
  ultimately show ?thesis by (simp add: key_inv_def)
qed

lemma tick_inv: "key_inv R \<Longrightarrow> key_inv (R\<lparr>rn_now := rn_now R + \<bar>n\<bar>\<rparr>)"
  by (fastforce simp: key_inv_def rows_ok_def caches_ok_def revoked_ok_def tracks_def intro: order_trans)

lemma members_inv: "key_inv R \<Longrightarrow> key_inv (R\<lparr>rn_site := (rn_site R)\<lparr>kr_orgmems := oms, kr_wsmems := wms\<rparr>\<rparr>)"
  by (rule forget_inv_same) simp_all

lemma begin_update_Inr:
  assumes "begin_update wk w k editor perms accounts expires s = Inr (e, s')"
  obtains m where "key_ws_membership editor (ws_id w) s = Some m"
    and "has_org_permission (key_org_membership editor w s) ''manage_api_keys''"
    and "foreign_account w accounts = None"
    and "e = \<lparr>ed_key = ak_id k, ed_permissions = edited_permissions m perms (ak_permissions k),
                  ed_accounts = remdups (map sa_id accounts), ed_expires_at = expires\<rparr>"
    and "s' = invalidate_api_key_cache wk k s"
  using assms by (auto simp: begin_update_def split: option.splits if_splits)

lemma begin_inv:
  assumes i: "key_inv R" and b: "begin_update wk w k editor perms accounts expires (rn_site R) = Inr (e, s)"
  shows "key_inv (R\<lparr>rn_site := s, rn_edits := es\<rparr>)"
proof (rule forget_inv [OF i])
  have s: "s = uncache_key wk (ak_lookup k) (rn_site R)"
    using begin_update_Inr [OF b] unfolding invalidate_api_key_cache_def by metis
  show "kr_keys s = kr_keys (rn_site R)" "kr_next s = kr_next (rn_site R)" by (simp_all add: s)
  show "map_of (kr_cache s wk') lp = Some v \<Longrightarrow> map_of (kr_cache (rn_site R) wk') lp = Some v" for wk' lp v
    by (simp add: s uncache_map_of split: if_splits)
qed

lemma commit_inv:
  assumes "key_inv R"
  shows "key_inv (R\<lparr>rn_site := commit_update e (rn_site R), rn_edits := es,
    rn_written := (rn_written R)(ed_key e := rn_now R)\<rparr>)"
  unfolding commit_update_def
  by (rule write_inv [OF assms]) (simp_all add: identity_def)

lemma touch_inv: "key_inv R \<Longrightarrow> key_inv (R\<lparr>rn_site := touch_last_used wk now k ip (rn_site R)\<rparr>)"
proof -
  assume i: "key_inv R"
  let ?s = "(rn_site R)\<lparr>kr_keys := tbl_update (\<lambda>r. ak_id r = ak_id k)
              (\<lambda>r. r\<lparr>ak_last_used_at := Some now, ak_last_used_ip := ip\<rparr>) (kr_keys (rn_site R))\<rparr>"
  have "key_inv (R\<lparr>rn_site := ?s, rn_edits := rn_edits R, rn_written := rn_written R\<rparr>)"
    by (rule write_inv [OF i]) (simp_all add: identity_def scope_def)
  then have "key_inv (R\<lparr>rn_site := ?s\<rparr>)" by simp
  from forget_inv_same [OF this, of "touch_last_used wk now k ip (rn_site R)"] show ?thesis
    using i by (auto simp: touch_last_used_def split: option.splits)
qed

lemma revoke_inv:
  assumes i: "key_inv R" and g: "get_key j (rn_site R) = Some k"
  shows "key_inv (R\<lparr>rn_site := revoke_api_key wk (rn_now R) k (rn_site R),
         rn_written := (if ak_revoked_at k = None then (rn_written R)(j := rn_now R) else rn_written R),
         rn_revoked := (wk, j) # rn_revoked R\<rparr>)" (is "key_inv ?R")
proof -
  have k: "k \<in> set (kr_keys (rn_site R))" "ak_id k = j" using tbl_get_Some g unfolding get_key_def by fast+
  define W where "W = (if ak_revoked_at k = None then (rn_written R)(j := rn_now R) else rn_written R)"
  define P where "P = (\<lambda>r :: api_key. ak_id r = ak_id k \<and> ak_revoked_at k = None)"
  define s1 where "s1 = (rn_site R)\<lparr>kr_keys := tbl_update P (\<lambda>r. r\<lparr>ak_revoked_at := Some (rn_now R)\<rparr>) (kr_keys (rn_site R))\<rparr>"
  have r: "revoke_api_key wk (rn_now R) k (rn_site R) = uncache_key wk (ak_lookup k) s1"
    by (cases "ak_revoked_at k") (simp_all add: revoke_api_key_def invalidate_api_key_cache_def s1_def P_def
        tbl_update_def)
  have "key_inv (R\<lparr>rn_site := s1, rn_edits := rn_edits R, rn_written := W\<rparr>)"
    unfolding s1_def by (rule write_inv [OF i]) (auto simp: identity_def W_def P_def k(2))
  then have j: "key_inv (R\<lparr>rn_site := s1, rn_written := W\<rparr>)" by simp
  have c: "R\<lparr>rn_site := s, rn_written := W\<rparr> = R\<lparr>rn_written := W, rn_site := s\<rparr>" for s by (cases R) simp
  have u: "key_inv (R\<lparr>rn_site := uncache_key wk (ak_lookup k) s1, rn_written := W\<rparr>)"
    using uncache_inv [OF j, of wk "ak_lookup k"] by (simp add: c)
  define row where "row = (if P k then k\<lparr>ak_revoked_at := Some (rn_now R)\<rparr> else k)"
  have row: "row \<in> set (kr_keys s1)" "ak_id row = j" "ak_revoked_at row \<noteq> None" "ak_lookup row = ak_lookup k"
    using k by (auto simp: row_def s1_def set_tbl_update P_def)
  have w: "?R = (R\<lparr>rn_site := uncache_key wk (ak_lookup k) s1, rn_written := W\<rparr>)\<lparr>rn_revoked := (wk, j) # rn_revoked R\<rparr>"
    by (simp add: r W_def)
  define Q where "Q = R\<lparr>rn_site := uncache_key wk (ak_lookup k) s1, rn_written := W\<rparr>"
  have q: "key_inv Q" using u by (simp add: Q_def)
  have t: "tracks (Q\<lparr>rn_revoked := l\<rparr>) = tracks Q" for l by (simp add: tracks_def fun_eq_iff)
  have "row \<in> set (kr_keys (rn_site Q)) \<and> map_of (kr_cache (rn_site Q) wk) (ak_lookup row) = None"
    using row by (simp add: Q_def uncache_map_of)
  then have "revoked_ok (Q\<lparr>rn_revoked := (wk, j) # rn_revoked Q\<rparr>)"
    using q row(2,3) unfolding key_inv_def revoked_ok_def by simp blast
  moreover have "rows_ok (Q\<lparr>rn_revoked := l\<rparr>)" "caches_ok (Q\<lparr>rn_revoked := l\<rparr>)" for l
    using q by (simp_all add: key_inv_def rows_ok_def caches_ok_def t)
  ultimately have "key_inv (Q\<lparr>rn_revoked := (wk, j) # rn_revoked Q\<rparr>)" by (simp add: key_inv_def)
  then show ?thesis unfolding w by (simp add: Q_def)
qed

theorem key_step_inv: "key_inv R \<Longrightarrow> key_inv (key_step env R ev)"
proof -
  assume i: "key_inv R"
  show ?thesis
  proof (cases ev)
    case (Issue wk w accounts issuer name perms expires r)
    show ?thesis
    proof (cases "issue_api_key env wk (rn_now R) w accounts issuer name perms expires r (rn_site R)")
      case (Inl e)
      then show ?thesis using i by (simp add: Issue)
    next
      case (Inr q)
      obtain k tok s where q: "q = ((k, tok), s)" by (metis prod.exhaust)
      show ?thesis using issue_inv [OF i Inr [unfolded q]] by (simp add: Issue Inr q)
    qed
  next
    case (Begin_edit wk w j editor perms accounts expires)
    show ?thesis using i
      by (simp add: Begin_edit begin_inv [OF i] split: option.split sum.split prod.split)
  next
    case Commit_edit
    show ?thesis using i commit_inv [OF i] by (simp add: Commit_edit split: list.split)
  next
    case (Revoke wk j)
    show ?thesis using i revoke_inv [OF i, of j _ wk] by (cases "get_key j (rn_site R)") (simp_all add: Revoke)
  next
    case (Verify wk raw)
    show ?thesis using verify_inv [OF i] by (simp add: Verify)
  next
    case (Touch wk j ip)
    show ?thesis using i touch_inv [OF i] by (simp add: Touch split: option.split)
  next
    case (Members oms wms)
    show ?thesis using members_inv [OF i] by (simp add: Members)
  next
    case (Evict wk lp)
    show ?thesis using uncache_inv [OF i] by (simp add: Evict)
  next
    case (Tick n)
    show ?thesis using tick_inv [OF i] by (simp add: Tick)
  qed
qed

interpretation keys: machine "key_step env" key_inv for env
  by unfold_locales (rule key_step_inv)

end
