(* ===== verification/Api_Key_Views.thy ===== *)
theory Api_Key_Views
  imports Api_Keys
begin

text \<open>
  The pages of \<open>apps/api_keys/views.py\<close>: the form of the edit dialog as the list page renders it, and the
  three posts that issue, revoke and edit a key. The organisation of a request is the one of the user's
  first membership, as \<open>RBACMiddleware.__call__\<close> finds it; Django's parsing of the expiry field is a
  parameter that gives \<open>None\<close> for a text it cannot read.
\<close>

type_synonym expiry_parser = "string \<Rightarrow> instant option option"

datatype key_answer =
    KA_LOGIN | KA_FORBIDDEN | KA_NOT_FOUND | KA_CRASH
  | KA_ERRORS "string list" | KA_REFUSED key_error | KA_INFO | KA_REVOKED | KA_UPDATED | KA_ISSUED string

definition request_org_membership :: "nat \<Rightarrow> keyring \<Rightarrow> org_membership option" where
  \<comment> \<open>\<open>request.org_membership\<close>\<close>
  "request_org_membership u s = tbl_first (\<lambda>m. om_user m = u) (kr_orgmems s)"

definition enter_keys :: "request \<Rightarrow> keyring \<Rightarrow> key_answer + (user \<times> nat)" where
  \<comment> \<open>\<open>_require_manage_api_keys\<close>: the user and the organisation\<close>
  "enter_keys rq s =
    (case rq_user rq of
       None \<Rightarrow> Inl KA_LOGIN
     | Some u \<Rightarrow>
        (let om = request_org_membership (us_id u) s in
         if \<not> has_org_permission om ''manage_api_keys'' then Inl KA_FORBIDDEN
         else Inr (u, om_org (the om))))"

definition post_list :: "string \<Rightarrow> request \<Rightarrow> string list" where
  \<comment> \<open>\<open>request.POST.getlist(k)\<close>\<close>
  "post_list k rq = map snd (filter (\<lambda>(k', _). k' = k) (rq_post rq))"

definition key_workspace :: "api_key \<Rightarrow> keyring \<Rightarrow> team_workspace option" where
  "key_workspace k s = tbl_get ws_id (ak_workspace k) (kr_workspaces s)"

definition base_workspace :: "team_workspace \<Rightarrow> workspace" where
  "base_workspace w = workspace.truncate w"

definition FOREIGN_ACCOUNTS_MESSAGE :: string where
  "FOREIGN_ACCOUNTS_MESSAGE = ''Some selected accounts do not belong to that workspace.''"

definition resolve_account_allowlist :: "string list \<Rightarrow> nat \<Rightarrow> keyring \<Rightarrow> social_account list \<times> string option" where
  "resolve_account_allowlist ids w s =
    (if \<exists>i \<in> set ids. parse_uuid i = None then ([], Some FOREIGN_ACCOUNTS_MESSAGE)
     else
       let accounts = filter (\<lambda>a. Some (sa_id a) \<in> set (map parse_uuid ids) \<and> sa_workspace a = w) (kr_accounts s)
       in (accounts, if length accounts \<noteq> length (remdups ids) then Some FOREIGN_ACCOUNTS_MESSAGE else None))"

definition HIDDEN_FROM_ISSUANCE :: "string list" where
  "HIDDEN_FROM_ISSUANCE = []"

definition grantable_permissions :: "nat \<Rightarrow> nat \<Rightarrow> keyring \<Rightarrow> string list" where
  \<comment> \<open>the keys; a label is derived from each\<close>
  "grantable_permissions u w s =
    (case key_ws_membership u w s of
       None \<Rightarrow> []
     | Some m \<Rightarrow> filter (\<lambda>k. k \<in> set (held_permissions m) \<and> k \<notin> set HIDDEN_FROM_ISSUANCE) PERMISSION_KEYS)"

section \<open>The edit dialog of a row\<close>

definition key_status :: "instant \<Rightarrow> api_key \<Rightarrow> string" where
  "key_status now k =
    (if ak_revoked_at k \<noteq> None then ''revoked''
     else if (case ak_expires_at k of None \<Rightarrow> False | Some t \<Rightarrow> t \<le> now) then ''expired''
     else ''active'')"

record key_row =
  kw_status :: string
  kw_permissions :: "(string \<times> bool) list"
  kw_locked :: "string list"
  kw_accounts :: "(nat \<times> bool) list"

definition connected_accounts :: "nat \<Rightarrow> keyring \<Rightarrow> social_account list" where
  \<comment> \<open>in some order\<close>
  "connected_accounts w s = filter (\<lambda>a. sa_workspace a = w \<and> sa_connection a = CONNECTED) (kr_accounts s)"

definition row_context :: "instant \<Rightarrow> nat \<Rightarrow> api_key \<Rightarrow> keyring \<Rightarrow> key_row" where
  "row_context now u k s =
    (if key_status now k \<noteq> ''active''
     then \<lparr>kw_status = key_status now k, kw_permissions = [], kw_locked = [], kw_accounts = []\<rparr>
     else
       let grantable = grantable_permissions u (ak_workspace k) s;
           connected = map sa_id (connected_accounts (ak_workspace k) s)
       in \<lparr>kw_status = ''active'',
           kw_permissions = map (\<lambda>p. (p, p \<in> set (ak_permissions k))) grantable,
           kw_locked = sort (remdups (filter (\<lambda>p. p \<notin> set grantable) (ak_permissions k))),
           kw_accounts = map (\<lambda>a. (a, a \<in> set (ak_accounts k))) connected @
             map (\<lambda>a. (a, True)) (filter (\<lambda>a. a \<notin> set connected) (ak_accounts k))\<rparr>)"

definition checked :: "('a \<times> bool) list \<Rightarrow> 'a list" where
  \<comment> \<open>what a browser posts for the ticked boxes\<close>
  "checked boxes = map fst (filter snd boxes)"

definition untouched_form :: "key_row \<Rightarrow> (string \<times> string) list" where
  "untouched_form row =
    map (\<lambda>p. (''permissions'', p)) (checked (kw_permissions row)) @
    map (\<lambda>a. (''social_account_ids'', uuid_text a)) (checked (kw_accounts row))"

section \<open>The posts\<close>

definition issue_key ::
  "key_env \<Rightarrow> expiry_parser \<Rightarrow> nat \<Rightarrow> instant \<Rightarrow> string \<Rightarrow> request \<Rightarrow> keyring \<Rightarrow> key_answer \<times> keyring" where
  "issue_key env expiry wk now rnd rq s =
    (case enter_keys rq s of
       Inl a \<Rightarrow> (a, s)
     | Inr (u, org) \<Rightarrow>
        (let name = post_text ''name'' rq; wid = post_get ''workspace_id'' [] rq;
             ids = post_list ''social_account_ids'' rq;
             e1 = (if name = [] then [''Name is required.''] else []) @
                  (if wid = [] then [''Workspace is required.''] else []) @
                  (if ids = [] then [''Select at least one connected account.''] else []);
             w = (if wid \<noteq> [] \<and> e1 = [] then
                    (case parse_uuid wid of None \<Rightarrow> None
                     | Some i \<Rightarrow> tbl_first (\<lambda>x. ws_id x = i \<and> ws_org x = org) (kr_workspaces s))
                  else None);
             e2 = (if wid \<noteq> [] \<and> e1 = [] \<and> w = None
                   then [''Selected workspace is not in this organisation.''] else []);
             (accounts, err) = (case w of None \<Rightarrow> ([], None)
                                 | Some x \<Rightarrow> resolve_account_allowlist ids (ws_id x) s);
             e3 = (case err of None \<Rightarrow> [] | Some m \<Rightarrow> [m]);
             expires = (let t = post_text ''expires_at'' rq in if t = [] then Some None else expiry t);
             e4 = (if expires = None then [''Could not parse expires_at.''] else []);
             errors = e1 @ e2 @ e3 @ e4
         in if errors \<noteq> [] then (KA_ERRORS errors, s)
            else case issue_api_key env wk now (base_workspace (the w)) accounts (us_id u) name
                   (post_list ''permissions'' rq) (the expires) rnd s of
              Inl LOOKUP_TAKEN \<Rightarrow> (KA_CRASH, s)
            | Inl e \<Rightarrow> (KA_REFUSED e, s)
            | Inr ((_, token), s1) \<Rightarrow> (KA_ISSUED token, s1)))"

definition org_key :: "nat \<Rightarrow> nat \<Rightarrow> keyring \<Rightarrow> (api_key \<times> team_workspace) option" where
  \<comment> \<open>the key, where its workspace is in the organisation\<close>
  "org_key org i s =
    (case get_key i s of
       None \<Rightarrow> None
     | Some k \<Rightarrow>
        (case key_workspace k s of
           None \<Rightarrow> None
         | Some w \<Rightarrow> if ws_org w \<noteq> org then None else Some (k, w)))"

definition revoke_key :: "nat \<Rightarrow> instant \<Rightarrow> request \<Rightarrow> nat \<Rightarrow> keyring \<Rightarrow> key_answer \<times> keyring" where
  "revoke_key wk now rq i s =
    (case enter_keys rq s of
       Inl a \<Rightarrow> (a, s)
     | Inr (u, org) \<Rightarrow>
        (case org_key org i s of
           None \<Rightarrow> (KA_NOT_FOUND, s)
         | Some (k, _) \<Rightarrow>
            if ak_revoked_at k = None then (KA_REVOKED, revoke_api_key wk now k s) else (KA_INFO, s)))"

definition edit_key :: "expiry_parser \<Rightarrow> nat \<Rightarrow> instant \<Rightarrow> request \<Rightarrow> nat \<Rightarrow> keyring \<Rightarrow> key_answer \<times> keyring" where
  "edit_key expiry wk now rq i s =
    (case enter_keys rq s of
       Inl a \<Rightarrow> (a, s)
     | Inr (u, org) \<Rightarrow>
        (case org_key org i s of
           None \<Rightarrow> (KA_NOT_FOUND, s)
         | Some (k, w) \<Rightarrow>
            if \<not> is_active now k then (KA_INFO, s)
            else
              let ids = post_list ''social_account_ids'' rq;
                  expires = (let t = post_text ''expires_at'' rq in if t = [] then Some None else expiry t);
                  (accounts, err) = resolve_account_allowlist ids (ak_workspace k) s;
                  errors = (if ids = [] then [''Select at least one connected account.''] else []) @
                    (case err of None \<Rightarrow> [] | Some m \<Rightarrow> [m]) @
                    (if expires = None then [''Could not parse expires_at.''] else [])
              in if errors \<noteq> [] then (KA_ERRORS errors, s)
                 else case update_api_key wk (base_workspace w) k (us_id u) (post_list ''permissions'' rq)
                        accounts (the expires) s of
                   Inl e \<Rightarrow> (KA_REFUSED e, s)
                 | Inr s1 \<Rightarrow> (KA_UPDATED, s1)))"

end
