(* ===== verification/Api_Key_Safety.thy ===== *)
theory Api_Key_Safety
  imports Api_Key_Runs Api_Key_Views
begin

text \<open>
  What the keys promise: a token that has just been issued opens the key on every worker, a token that
  verifies carries the secret of a key of the database whose issuer is still a member, a cached row is at
  most thirty seconds behind, a request never has a permission its issuer lacks, an edit moves only
  permissions the editor holds.
\<close>

section \<open>Tokens\<close>

definition hex_digests :: "key_env \<Rightarrow> bool" where
  \<comment> \<open>what \<open>hexdigest()\<close> of SHA-256 returns\<close>
  "hex_digests env \<longleftrightarrow> (\<forall>r. length (ke_sha env r) = 64 \<and> set (ke_sha env r) \<subseteq> set HEX_CHARS)"

lemma rsplit_underscore_append: "CHR ''_'' \<notin> set lp \<Longrightarrow> rsplit_underscore (r @ ''_'' @ lp) = Some (r, lp)"
proof -
  assume a: "CHR ''_'' \<notin> set lp"
  then have "\<forall>c \<in> set (rev lp). c \<noteq> CHR ''_''" by auto
  then have "dropWhile (\<lambda>c. c \<noteq> CHR ''_'') (rev lp @ CHR ''_'' # rev r) = CHR ''_'' # rev r"
      "takeWhile (\<lambda>c. c \<noteq> CHR ''_'') (rev lp @ CHR ''_'' # rev r) = rev lp"
    using dropWhile_append2 [of "rev lp" "\<lambda>c. c \<noteq> CHR ''_''" "CHR ''_'' # rev r"]
      takeWhile_append2 [of "rev lp" "\<lambda>c. c \<noteq> CHR ''_''" "CHR ''_'' # rev r"] by auto
  then show ?thesis by (simp add: rsplit_underscore_def Let_def)
qed

lemma rsplit_underscore_Some: "rsplit_underscore s = Some (r, lp) \<Longrightarrow> s = r @ ''_'' @ lp"
proof -
  assume a: "rsplit_underscore s = Some (r, lp)"
  define rest where "rest = dropWhile (\<lambda>c. c \<noteq> CHR ''_'') (rev s)"
  have ne: "rest \<noteq> []" and p: "r = rev (tl rest)" "lp = rev (takeWhile (\<lambda>c. c \<noteq> CHR ''_'') (rev s))"
    using a by (auto simp: rsplit_underscore_def Let_def rest_def split: if_splits)
  have "hd rest = CHR ''_''" using ne hd_dropWhile [of "\<lambda>c. c \<noteq> CHR ''_''" "rev s"] by (simp add: rest_def)
  then have "rest = CHR ''_'' # tl rest" using ne by (cases rest) simp_all
  then have "rev s = takeWhile (\<lambda>c. c \<noteq> CHR ''_'') (rev s) @ CHR ''_'' # tl rest"
    unfolding rest_def by (metis takeWhile_dropWhile_id)
  then have "s = rev (takeWhile (\<lambda>c. c \<noteq> CHR ''_'') (rev s) @ CHR ''_'' # tl rest)" by (metis rev_rev_ident)
  then show ?thesis by (simp add: p)
qed

lemma lookup_plain: "hex_digests env \<Longrightarrow> length (make_lookup env r) = LOOKUP_LEN \<and> CHR ''_'' \<notin> set (make_lookup env r)"
proof -
  assume h: "hex_digests env"
  have "CHR ''_'' \<notin> set HEX_CHARS" by (simp add: HEX_CHARS_def)
  then have "CHR ''_'' \<notin> set (ke_sha env r)" using h by (auto simp: hex_digests_def)
  then show ?thesis using h by (auto simp: make_lookup_def hex_digests_def LOOKUP_LEN_def dest: in_set_takeD)
qed

lemma parse_token_text:
  assumes "hex_digests env" and "32 \<le> length r" and "length r \<le> 64"
  shows "parse_token env (token_text r (make_lookup env r)) = Some (r, make_lookup env r)"
  using assms lookup_plain [OF assms(1), of r]
  by (simp add: parse_token_def token_text_def rsplit_underscore_append [simplified])

lemma parse_token_Some: "parse_token env raw = Some (r, lp) \<Longrightarrow> raw = token_text r lp \<and> lp = make_lookup env r"
proof -
  assume a: "parse_token env raw = Some (r, lp)"
  then have s: "py_startswith raw TOKEN_PREFIX" by (simp add: parse_token_def split: if_splits)
  then obtain q where q: "rsplit_underscore (drop (length TOKEN_PREFIX) raw) = Some q"
    using a by (cases "rsplit_underscore (drop (length TOKEN_PREFIX) raw)") (simp_all add: parse_token_def)
  obtain r' lp' where p: "q = (r', lp')" by (cases q)
  have e: "r' = r \<and> lp' = lp \<and> make_lookup env r = lp"
    using a s q p by (auto simp: parse_token_def split: if_splits)
  have "raw = TOKEN_PREFIX @ drop (length TOKEN_PREFIX) raw"
    using s by (metis append_take_drop_id py_startswith_def)
  also have "drop (length TOKEN_PREFIX) raw = r @ ''_'' @ lp" using rsplit_underscore_Some q p e by metis
  finally show ?thesis using e by (simp add: token_text_def)
qed

section \<open>Runs\<close>

definition start_run :: "keyring \<Rightarrow> instant \<Rightarrow> key_run" where
  "start_run s now = \<lparr>rn_site = s, rn_now = now, rn_edits = [], rn_written = (\<lambda>_. now), rn_revoked = []\<rparr>"

definition cold :: "keyring \<Rightarrow> bool" where
  \<comment> \<open>a freshly started installation: nothing cached, unique keys\<close>
  "cold s \<longleftrightarrow> (\<forall>wk. kr_cache s wk = []) \<and> distinct (map ak_id (kr_keys s)) \<and>
     distinct (map ak_lookup (kr_keys s)) \<and> (\<forall>k \<in> set (kr_keys s). ak_id k < kr_next s)"

definition key_run_of :: "key_env \<Rightarrow> keyring \<Rightarrow> instant \<Rightarrow> key_event list \<Rightarrow> key_run" where
  "key_run_of env s now es = foldl (key_step env) (start_run s now) es"

lemma key_run_inv: "cold s \<Longrightarrow> key_inv (key_run_of env s now es)"
  unfolding key_run_of_def
  by (rule keys.run_inv) (simp add: key_inv_def rows_ok_def caches_ok_def revoked_ok_def start_run_def cold_def)

lemma run_snoc: "key_run_of env s now (es @ [e]) = key_step env (key_run_of env s now es) e"
  by (simp add: key_run_of_def)

lemma verified_tracks:
  assumes i: "key_inv R" and v: "verify_token env wk (rn_now R) raw (rn_site R) = (Some k, s)"
  obtains row r until where "row \<in> set (kr_keys (rn_site R))" and "identity row = identity k"
    and "raw = token_text r (ak_lookup row)" and "ke_hmac env r = ak_hash row"
    and "is_active (rn_now R) k" and "rn_now R < until"
    and "scope row = scope k \<or> until \<le> rn_written R (ak_id row) + REVOCATION_CACHE_TTL"
    and "issuer_still_authorized k (rn_site R)"
    and "map_of (kr_cache (rn_site R) wk) (ak_lookup row) = None \<longrightarrow> k = row"
proof -
  obtain r lp where p: "parse_token env raw = Some (r, lp)"
      and l: "load_key wk (rn_now R) lp (rn_site R) = Some (k, s)"
      and a: "is_active (rn_now R) k" "ke_hmac env r = ak_hash k" "issuer_still_authorized k s"
    using verify_Some [OF v] by metis
  obtain until where t: "rn_now R < until" "tracks R lp k until" using load_key_tracks [OF i l] by blast
  then obtain row where row: "row \<in> set (kr_keys (rn_site R))" "identity row = identity k"
      "scope row = scope k \<or> until \<le> rn_written R (ak_id k) + REVOCATION_CACHE_TTL" "ak_lookup k = lp"
    by (auto simp: tracks_def)
  have e: "ak_id row = ak_id k" "ak_lookup row = ak_lookup k" "ak_hash row = ak_hash k"
    using row(2) by (simp_all add: identity_def)
  have raw: "raw = token_text r (ak_lookup row)" using parse_token_Some [OF p] row(4) e by simp
  have auth: "issuer_still_authorized k (rn_site R)"
    using a(3) load_key_inv [OF i l] by (simp add: issuer_still_authorized_def cong: option.case_cong)
  have fresh: "map_of (kr_cache (rn_site R) wk) (ak_lookup row) = None \<longrightarrow> k = row"
    using l
  proof (cases rule: load_key_cases)
    case (cached until)
    then show ?thesis using e row(4) by simp
  next
    case fresh
    then show ?thesis using distinct_id [OF _ fresh(1) row(1)] i e by (simp add: key_inv_def)
  qed
  show thesis
    by (rule that [OF row(1,2) raw _ a(1) t(1) _ auth fresh]) (use row(3) a(2) e in simp_all)
qed

section \<open>Properties\<close>

lemma cache_free:
  assumes "key_inv R" and "lp \<notin> ak_lookup ` set (kr_keys (rn_site R))"
  shows "map_of (kr_cache (rn_site R) wk) lp = None"
proof (rule ccontr)
  assume "map_of (kr_cache (rn_site R) wk) lp \<noteq> None"
  then obtain k until where "map_of (kr_cache (rn_site R) wk) lp = Some (k, until)" by auto
  then have "tracks R lp k until" using assms(1) by (simp add: key_inv_def caches_ok_def)
  then obtain row where "row \<in> set (kr_keys (rn_site R))" "identity row = identity k" "ak_lookup k = lp"
    by (auto simp: tracks_def)
  then have "ak_lookup row = lp" by (simp add: identity_def)
  then show False using assms(2) \<open>row \<in> set (kr_keys (rn_site R))\<close> by (metis image_eqI)
qed

lemma resolve_granted:
  "(p, True) \<in> set (resolve_effective_permissions k s) \<longleftrightarrow>
    p \<in> set (ak_permissions k) \<and> (\<exists>u m. ak_issued_by k = Some u \<and>
      key_ws_membership u (ak_workspace k) s = Some m \<and> p \<in> set (held_permissions m))"
  by (cases "ak_issued_by k"; cases "key_ws_membership (the (ak_issued_by k)) (ak_workspace k) s")
    (auto simp: resolve_effective_permissions_def Let_def)

text \<open>
  C13. A token that has just been issued opens its key on every worker, whatever happened before, and
  carries every permission that was asked for: nothing in any cache shadows the new row, and the lookup
  suffix is found again although the secret may itself contain underscores.
\<close>

theorem issued_token_verifies:
  assumes "cold s0" and "hex_digests env" and "32 \<le> length rnd" and "length rnd \<le> 64"
    and "R = key_run_of env s0 t0 es"
    and "issue_api_key env wk (rn_now R) w accounts issuer name perms expires rnd (rn_site R) = Inr ((k, tok), s)"
    and "case expires of None \<Rightarrow> True | Some t \<Rightarrow> rn_now R < t"
  shows "fst (verify_token env wk' (rn_now R) tok s) = Some k \<and>
    (\<forall>p. (p, True) \<in> set (resolve_effective_permissions k s) \<longleftrightarrow> p \<in> set perms)"
proof -
  obtain m where i: "has_org_permission (key_org_membership issuer w (rn_site R)) ''manage_api_keys''"
      "key_ws_membership issuer (ws_id w) (rn_site R) = Some m" "set perms \<subseteq> set (held_permissions m)"
      "make_lookup env rnd \<notin> ak_lookup ` set (kr_keys (rn_site R))"
      "k = new_key env (rn_now R) w accounts issuer name perms expires rnd (kr_next (rn_site R))"
      "tok = token_text rnd (ak_lookup k)"
      "s = uncache_key wk (ak_lookup k) ((rn_site R)\<lparr>kr_keys := kr_keys (rn_site R) @ [k], kr_next := Suc (kr_next (rn_site R))\<rparr>)"
    using issue_Inr [OF assms(6)] unfolding invalidate_api_key_cache_def by metis
  have f: "ak_lookup k = make_lookup env rnd" "ak_hash k = ke_hmac env rnd" "ak_issued_by k = Some issuer"
      "ak_workspace k = ws_id w" "set (ak_permissions k) = set perms" "ak_revoked_at k = None" "ak_expires_at k = expires"
    by (simp_all add: i(5) new_key_def)
  have inv: "key_inv R" unfolding assms(5) by (rule key_run_inv [OF assms(1)])
  have p: "parse_token env tok = Some (rnd, ak_lookup k)"
    using parse_token_text [OF assms(2-4)] by (simp add: i(6) f(1))
  have a: "is_active (rn_now R) k"
    using assms(7) by (auto simp: is_active_def f split: option.splits)
  have c: "cached_key wk' (rn_now R) (ak_lookup k) s = None"
    using cache_free [OF inv i(4), of wk'] by (simp add: cached_key_def i(7) uncache_map_of f(1))
  have n: "tbl_first (\<lambda>r. ak_lookup r = ak_lookup k) (kr_keys (rn_site R)) = None"
    using i(4) unfolding tbl_first_None f(1) by (metis image_eqI)
  have "tbl_first (\<lambda>r. ak_lookup r = ak_lookup k) (kr_keys s) = Some k"
    by (simp add: i(7) tbl_first_append n) (simp add: tbl_first_def)
  then have l: "load_key wk' (rn_now R) (ak_lookup k) s = Some (k, cache_key wk' (rn_now R) (ak_lookup k) k s)"
    by (simp add: load_key_def c a)
  have ms: "m \<in> set (kr_wsmems s) \<and> mb_user m = issuer \<and> mb_workspace m = ws_id w"
    using i(2) by (auto simp: key_ws_membership_def i(7) dest: tbl_first_Some)
  then have "issuer_still_authorized k (cache_key wk' (rn_now R) (ak_lookup k) k s)"
    by (auto simp: issuer_still_authorized_def f)
  then have "verify_token env wk' (rn_now R) tok s = (Some k, cache_key wk' (rn_now R) (ak_lookup k) k s)"
    by (simp add: verify_token_def p l a f(2))
  moreover have "key_ws_membership issuer (ws_id w) s = Some m" using i(2) by (simp add: key_ws_membership_def i(7))
  ultimately show ?thesis using i(3) by (auto simp: resolve_granted f)
qed

text \<open>
  C14. A token that verifies, on any worker after any run, carries the secret of a key of the database,
  whose issuer is still a member of its workspace; and what the request gets to see of that key (its
  permissions, accounts, expiry and revocation) is the row of the database, except within thirty seconds
  of the last write to it.
\<close>

theorem verified_key_is_current:
  assumes "cold s0" and "R = key_run_of env s0 t0 es"
    and "verify_token env wk (rn_now R) raw (rn_site R) = (Some k, s)"
  shows "\<exists>row \<in> set (kr_keys (rn_site R)). identity row = identity k \<and>
    (\<exists>r. raw = token_text r (ak_lookup row) \<and> ke_hmac env r = ak_hash row) \<and>
    issuer_still_authorized k (rn_site R) \<and>
    (rn_written R (ak_id row) + REVOCATION_CACHE_TTL \<le> rn_now R \<longrightarrow> scope row = scope k)"
proof -
  have i: "key_inv R" unfolding assms(2) by (rule key_run_inv [OF assms(1)])
  obtain row r until where v: "row \<in> set (kr_keys (rn_site R))" "identity row = identity k"
      "raw = token_text r (ak_lookup row)" "ke_hmac env r = ak_hash row" "rn_now R < until"
      "scope row = scope k \<or> until \<le> rn_written R (ak_id row) + REVOCATION_CACHE_TTL"
      "issuer_still_authorized k (rn_site R)"
    using verified_tracks [OF i assms(3)] by metis
  then show ?thesis by (intro bexI [of _ row]) auto
qed

text \<open>
  C15. A revoked key is dead: on the worker that revoked it no token opens it from then on, and on every
  other worker none does once thirty seconds have passed.
\<close>

theorem revoked_key_dies:
  assumes "cold s0" and "R = key_run_of env s0 t0 es"
    and "row \<in> set (kr_keys (rn_site R))" and "ak_revoked_at row \<noteq> None"
    and "(wk, ak_id row) \<in> set (rn_revoked R) \<or> rn_written R (ak_id row) + REVOCATION_CACHE_TTL \<le> rn_now R"
    and "verify_token env wk (rn_now R) raw (rn_site R) = (Some k, s)"
  shows "ak_id k \<noteq> ak_id row"
proof
  assume e: "ak_id k = ak_id row"
  have i: "key_inv R" unfolding assms(2) by (rule key_run_inv [OF assms(1)])
  obtain row' r until where v: "row' \<in> set (kr_keys (rn_site R))" "identity row' = identity k"
      "is_active (rn_now R) k" "rn_now R < until"
      "scope row' = scope k \<or> until \<le> rn_written R (ak_id row') + REVOCATION_CACHE_TTL"
      "map_of (kr_cache (rn_site R) wk) (ak_lookup row') = None \<longrightarrow> k = row'"
    using verified_tracks [OF i assms(6)] by metis
  have "ak_id row' = ak_id row" using v(2) e by (simp add: identity_def)
  then have r: "row' = row" using distinct_id [OF _ v(1) assms(3)] i by (simp add: key_inv_def)
  have "scope row = scope k"
  proof (cases "(wk, ak_id row) \<in> set (rn_revoked R)")
    case True
    obtain x where x: "x \<in> set (kr_keys (rn_site R))" "ak_id x = ak_id row"
        "map_of (kr_cache (rn_site R) wk) (ak_lookup x) = None"
      using revoked_row [OF i True] by metis
    have "x = row" using distinct_id [OF _ x(1) assms(3) x(2)] i by (simp add: key_inv_def)
    then show ?thesis using v(6) r x(3) by simp
  next
    case False
    then show ?thesis using assms(5) v(4,5) r by auto
  qed
  then have "ak_revoked_at k = ak_revoked_at row" using scope_id by metis
  then show False using active_not_revoked [OF v(3)] assms(4) by simp
qed

text \<open>
  An edit moves only what the editor holds: every permission that appears or disappears is a catalogue
  permission the editor has in the workspace, set the way the form said; every other one stays. The editor
  may manage keys in the organisation, and the new allowlist is a non-empty set of accounts of the
  workspace.
\<close>

theorem edits_stay_within_the_editor:
  assumes "begin_update wk w k editor perms accounts expires s = Inr (e, s')"
  shows "\<exists>m. key_ws_membership editor (ws_id w) s = Some m \<and>
    (\<forall>p. (p \<in> set (ed_permissions e)) \<noteq> (p \<in> set (ak_permissions k)) \<longrightarrow>
      p \<in> set PERMISSION_KEYS \<and> has_perm p m \<and> (p \<in> set (ed_permissions e) \<longleftrightarrow> p \<in> set perms)) \<and>
    has_org_permission (key_org_membership editor w s) ''manage_api_keys'' \<and>
    ed_accounts e \<noteq> [] \<and> (\<forall>a \<in> set accounts. sa_workspace a = ws_id w)"
proof -
  obtain m where m: "key_ws_membership editor (ws_id w) s = Some m"
      "has_org_permission (key_org_membership editor w s) ''manage_api_keys''"
      "foreign_account w accounts = None"
      "e = \<lparr>ed_key = ak_id k, ed_permissions = edited_permissions m perms (ak_permissions k),
                  ed_accounts = remdups (map sa_id accounts), ed_expires_at = expires\<rparr>"
    using begin_update_Inr [OF assms] by metis
  have a: "accounts \<noteq> [] \<and> tbl_first (\<lambda>a. sa_workspace a \<noteq> ws_id w) accounts = None"
    using m(3) by (simp add: foreign_account_def split: if_splits option.splits)
  have p: "(p \<in> set (ed_permissions e)) \<noteq> (p \<in> set (ak_permissions k)) \<longrightarrow>
      p \<in> set PERMISSION_KEYS \<and> has_perm p m \<and> (p \<in> set (ed_permissions e) \<longleftrightarrow> p \<in> set perms)" for p
    by (auto simp: m(4) edited_permissions_def editor_grantable_def held_permissions_def)
  show ?thesis
    by (rule exI [of _ m]) (use m a p in \<open>simp add: tbl_first_None\<close>)
qed

text \<open>
  A request never acts with a permission its key's issuer does not hold in the workspace at that moment.
\<close>

theorem request_permissions_bounded:
  assumes "(p, True) \<in> set (resolve_effective_permissions k s)"
  shows "p \<in> set (ak_permissions k) \<and> (\<exists>m \<in> set (kr_wsmems s). ak_issued_by k = Some (mb_user m) \<and>
    mb_workspace m = ak_workspace k \<and> has_perm p m)"
  using assms unfolding resolve_granted
  by (auto simp: key_ws_membership_def held_permissions_def dest!: tbl_first_Some)

section \<open>A concrete installation\<close>

definition demo_env :: key_env where
  "demo_env = \<lparr>ke_hmac = (\<lambda>r. take 1 r), ke_sha = (\<lambda>r. replicate 64 (CHR ''a''))\<rparr>"

definition demo_workspace :: workspace where
  "demo_workspace = \<lparr>ws_id = 1, ws_org = 1, ws_name = ''W'', ws_approval_mode = ''none'', ws_timezone = ''UTC''\<rparr>"

definition demo_account :: "nat \<Rightarrow> social_account" where
  "demo_account i = \<lparr>sa_id = i, sa_workspace = 1, sa_platform = ''bluesky'', sa_platform_id = [], sa_name = [],
     sa_handle = [], sa_instance_url = [], sa_access_token = [], sa_refresh_token = [],
     sa_token_expires_at = None, sa_connection = CONNECTED\<rparr>"

definition demo_keyring :: keyring where
  "demo_keyring = \<lparr>kr_keys = [], kr_workspaces = [], kr_accounts = [demo_account 5, demo_account 6],
     kr_orgmems = [\<lparr>om_user = 3, om_org = 1, om_role = ORG_OWNER\<rparr>],
     kr_wsmems = [\<lparr>mb_id = 9, mb_user = 3, mb_workspace = 1, mb_role = WS_OWNER,
       mb_custom = Some [(''create_posts'', True), (''publish_directly'', True)]\<rparr>],
     kr_cache = (\<lambda>_. []), kr_touched = (\<lambda>_. []), kr_next = 1\<rparr>"

definition demo_random :: string where
  "demo_random = replicate 40 (CHR ''_'')"

definition demo_issue :: key_event where
  "demo_issue = Issue 0 demo_workspace [demo_account 5, demo_account 6] 3 ''bot''
     [''create_posts'', ''publish_directly''] None demo_random"

definition demo_token :: string where
  "demo_token = token_text demo_random (replicate 8 (CHR ''a''))"

lemma demo_cold: "cold demo_keyring"
  by (simp add: cold_def demo_keyring_def)

lemma demo_hex: "hex_digests demo_env"
  by (simp add: hex_digests_def demo_env_def HEX_CHARS_def)

definition demo_issued :: "key_error + (api_key \<times> string) \<times> keyring" where
  "demo_issued = issue_api_key demo_env 0 0 demo_workspace [demo_account 5, demo_account 6] 3 ''bot''
     [''create_posts'', ''publish_directly''] None demo_random demo_keyring"

lemma demo_issued_ok: "\<exists>k s. demo_issued = Inr ((k, demo_token), s)"
proof -
  have "(case demo_issued of Inl _ \<Rightarrow> False | Inr ((k, t), s) \<Rightarrow> t = demo_token)" by code_simp
  then show ?thesis by (auto split: sum.splits prod.splits)
qed

theorem issued_token_verifies_witness:
  "\<exists>k s. demo_issued = Inr ((k, demo_token), s) \<and>
    fst (verify_token demo_env 4 0 demo_token s) = Some k"
proof -
  obtain k s where i: "demo_issued = Inr ((k, demo_token), s)" using demo_issued_ok by metis
  define R where "R = key_run_of demo_env demo_keyring 0 []"
  have R: "rn_now R = 0" "rn_site R = demo_keyring" by (simp_all add: R_def key_run_of_def start_run_def)
  have l: "32 \<le> length demo_random" "length demo_random \<le> 64" by (simp_all add: demo_random_def)
  have "issue_api_key demo_env 0 (rn_now R) demo_workspace [demo_account 5, demo_account 6] 3 ''bot''
     [''create_posts'', ''publish_directly''] None demo_random (rn_site R) = Inr ((k, demo_token), s)"
    using i by (simp add: demo_issued_def R)
  then have "fst (verify_token demo_env 4 (rn_now R) demo_token s) = Some k"
    using issued_token_verifies [OF demo_cold demo_hex l R_def] by simp
  with i R show ?thesis by auto
qed

definition demo_verify :: "key_event list \<Rightarrow> nat \<Rightarrow> api_key option \<times> keyring" where
  "demo_verify es wk = (let R = key_run_of demo_env demo_keyring 0 es
     in verify_token demo_env wk (rn_now R) demo_token (rn_site R))"

theorem verified_key_is_current_witness:
  "\<exists>k s. demo_verify [demo_issue, Tick 40000000] 1 = (Some k, s) \<and>
    (\<exists>row \<in> set (kr_keys (rn_site (key_run_of demo_env demo_keyring 0 [demo_issue, Tick 40000000]))).
       identity row = identity k)"
proof -
  have "fst (demo_verify [demo_issue, Tick 40000000] 1) \<noteq> None" by code_simp
  then obtain k s where v: "demo_verify [demo_issue, Tick 40000000] 1 = (Some k, s)"
    by (metis not_None_eq prod.collapse)
  show ?thesis
    using verified_key_is_current [OF demo_cold refl, of demo_env 1 0 "[demo_issue, Tick 40000000]" demo_token k s] v
    by (auto simp: demo_verify_def Let_def)
qed

definition two_keys :: "key_event list" where
  \<comment> \<open>the first key is revoked on worker 0 while worker 1 has it cached; 31 seconds later another is issued\<close>
  "two_keys = [demo_issue, Verify 1 demo_token, Revoke 0 1, Tick 31000000]"

theorem revoked_key_dies_witness:
  "\<exists>row \<in> set (kr_keys (rn_site (key_run_of demo_env demo_keyring 0 two_keys))).
     ak_revoked_at row \<noteq> None \<and>
     (\<forall>raw k s. verify_token demo_env 1 31000000 raw (rn_site (key_run_of demo_env demo_keyring 0 two_keys)) = (Some k, s)
        \<longrightarrow> ak_id k \<noteq> ak_id row)"
proof -
  define R where "R = key_run_of demo_env demo_keyring 0 two_keys"
  have n: "rn_now R = 31000000" unfolding R_def by code_simp
  have "list_ex (\<lambda>row. ak_revoked_at row \<noteq> None \<and> rn_written R (ak_id row) + REVOCATION_CACHE_TTL \<le> rn_now R)
      (kr_keys (rn_site R))"
    unfolding R_def by code_simp
  then obtain row where row: "row \<in> set (kr_keys (rn_site R))" "ak_revoked_at row \<noteq> None"
      "rn_written R (ak_id row) + REVOCATION_CACHE_TTL \<le> rn_now R"
    by (auto simp: list_ex_iff)
  have "ak_id k \<noteq> ak_id row" if "verify_token demo_env 1 (rn_now R) raw (rn_site R) = (Some k, s)" for raw k s
    by (rule revoked_key_dies [OF demo_cold R_def row(1,2) _ that]) (use row(3) in simp)
  then show ?thesis using row unfolding n R_def [symmetric] by blast
qed

lemma demo_edit_ok:
  "\<exists>e s. begin_update 0 demo_workspace
      (new_key demo_env 0 demo_workspace [demo_account 5] 3 ''bot'' [''create_posts''] None demo_random 1)
      3 [''publish_directly''] [demo_account 6] None demo_keyring = Inr (e, s)"
proof -
  have "(case begin_update 0 demo_workspace
      (new_key demo_env 0 demo_workspace [demo_account 5] 3 ''bot'' [''create_posts''] None demo_random 1)
      3 [''publish_directly''] [demo_account 6] None demo_keyring of Inl _ \<Rightarrow> False | Inr _ \<Rightarrow> True)" by code_simp
  then show ?thesis by (auto split: sum.splits prod.splits)
qed

theorem edits_stay_within_the_editor_witness:
  "\<exists>e s. begin_update 0 demo_workspace
      (new_key demo_env 0 demo_workspace [demo_account 5] 3 ''bot'' [''create_posts''] None demo_random 1)
      3 [''publish_directly''] [demo_account 6] None demo_keyring = Inr (e, s) \<and> ed_accounts e \<noteq> []"
proof -
  obtain e s where e: "begin_update 0 demo_workspace
      (new_key demo_env 0 demo_workspace [demo_account 5] 3 ''bot'' [''create_posts''] None demo_random 1)
      3 [''publish_directly''] [demo_account 6] None demo_keyring = Inr (e, s)"
    using demo_edit_ok by blast
  show ?thesis by (intro exI conjI, rule e) (use edits_stay_within_the_editor [OF e] in blast)
qed

text \<open>
  An edit can be undone for half a minute by the cache: the signals bust the cached row before the
  edit commits, so a request that arrives in between, even on the same worker, caches the old row again;
  29 seconds after the commit a token still carries the permission and the account the edit took away,
  while the row of the database has neither.
\<close>

theorem edit_shadowed_by_the_cache:
  "map (\<lambda>r. (ak_permissions r, ak_accounts r)) (kr_keys (rn_site (key_run_of demo_env demo_keyring 0
      [demo_issue, Begin_edit 0 demo_workspace 1 3 [''create_posts''] [demo_account 5] None,
       Verify 0 demo_token, Commit_edit, Tick 29000000]))) = [([''create_posts''], [5])] \<and>
   map_option (\<lambda>k. (ak_permissions k, ak_accounts k)) (fst (demo_verify
      [demo_issue, Begin_edit 0 demo_workspace 1 3 [''create_posts''] [demo_account 5] None,
       Verify 0 demo_token, Commit_edit, Tick 29000000] 0)) =
     Some ([''create_posts'', ''publish_directly''], [5, 6])"
  by (intro conjI; code_simp)

end
