(* ===== verification/Api_Key_Dialog.thy ===== *)
theory Api_Key_Dialog
  imports Api_Key_Safety
begin

text \<open>
  The edit dialog against the post behind it: what the list page ticks, sent back untouched, leaves the
  key as it is, also where the editor cannot grant some of its permissions or an account of it has been
  disconnected.
\<close>

section \<open>What an untouched form posts\<close>

lemma post_list_append: "post_list k (rq\<lparr>rq_post := a @ b\<rparr>) = post_list k (rq\<lparr>rq_post := a\<rparr>) @ post_list k (rq\<lparr>rq_post := b\<rparr>)"
  by (simp add: post_list_def)

lemma filter_fst_const: "filter (\<lambda>(k', _). k' = k) (map (\<lambda>x. (c, f x)) xs) = (if c = k then map (\<lambda>x. (c, f x)) xs else [])"
  by (induction xs) auto

lemma checked_map: "checked (map (\<lambda>x. (x, P x)) xs) = filter P xs"
  by (induction xs) (auto simp: checked_def)

lemma checked_append: "checked (a @ b) = checked a @ checked b"
  by (simp add: checked_def)

lemma untouched_posts:
  assumes "rq_post rq = untouched_form row @ [(''expires_at'', txt)]"
  shows "post_list ''permissions'' rq = checked (kw_permissions row) \<and>
    post_list ''social_account_ids'' rq = map uuid_text (checked (kw_accounts row)) \<and>
    post_text ''expires_at'' rq = py_strip txt"
proof -
  have id: "map (\<lambda>p. (''permissions'', p)) ps = map (\<lambda>p. (''permissions'', id p)) ps" for ps :: "string list" by simp
  show ?thesis
    by (simp add: post_list_def assms untouched_form_def id filter_fst_const o_def post_text_def post_get_def
        del: id_apply) simp
qed

lemma key_status_active: "is_active now k \<Longrightarrow> key_status now k = ''active''"
  by (auto simp: is_active_def key_status_def split: if_splits option.splits)

definition dialog_accounts :: "api_key \<Rightarrow> keyring \<Rightarrow> nat list" where
  "dialog_accounts k s = (let c = map sa_id (connected_accounts (ak_workspace k) s)
     in filter (\<lambda>a. a \<in> set (ak_accounts k)) c @ filter (\<lambda>a. a \<notin> set c) (ak_accounts k))"

lemma row_checked:
  assumes "is_active now k"
  shows "checked (kw_permissions (row_context now u k s)) =
      filter (\<lambda>p. p \<in> set (ak_permissions k)) (grantable_permissions u (ak_workspace k) s) \<and>
    checked (kw_accounts (row_context now u k s)) = dialog_accounts k s"
  by (simp add: row_context_def key_status_active [OF assms] Let_def checked_map checked_append dialog_accounts_def
      del: map_map)

definition key_kept :: "api_key \<Rightarrow> keyring \<Rightarrow> bool" where
  \<comment> \<open>a key as the services write it, its accounts still in the workspace\<close>
  "key_kept k s \<longleftrightarrow> sorted (ak_permissions k) \<and> distinct (ak_permissions k) \<and> distinct (ak_accounts k) \<and>
     ak_accounts k \<noteq> [] \<and> distinct (map sa_id (kr_accounts s)) \<and> (\<forall>a \<in> set (ak_accounts k). a < 16 ^ 32 \<and>
       (\<exists>x \<in> set (kr_accounts s). sa_id x = a \<and> sa_workspace x = ak_workspace k))"

lemma dialog_accounts_same:
  assumes "key_kept k s"
  shows "set (dialog_accounts k s) = set (ak_accounts k) \<and> distinct (dialog_accounts k s)"
proof -
  have d: "distinct (map sa_id (connected_accounts (ak_workspace k) s))"
    using assms by (simp add: key_kept_def connected_accounts_def distinct_map_filter)
  have "distinct (ak_accounts k)" using assms by (simp add: key_kept_def)
  then show ?thesis using d unfolding dialog_accounts_def Let_def by auto
qed

lemma dialog_allowlist:
  assumes k: "key_kept k s"
  shows "\<exists>accounts. resolve_account_allowlist (map uuid_text (dialog_accounts k s)) (ak_workspace k) s = (accounts, None) \<and>
    sa_id ` set accounts = set (ak_accounts k) \<and> (\<forall>a \<in> set accounts. sa_workspace a = ak_workspace k)"
proof -
  let ?l = "dialog_accounts k s"
  have l: "set ?l = set (ak_accounts k)" "distinct ?l" using dialog_accounts_same [OF k] by simp_all
  have small: "\<forall>a \<in> set ?l. a < 16 ^ 32" using k l(1) by (simp add: key_kept_def)
  have parsed: "map parse_uuid (map uuid_text ?l) = map Some ?l"
    using small by (simp add: uuid_text_roundtrip)
  have inj: "inj_on uuid_text (set ?l)"
  proof (rule inj_onI)
    fix a b assume "a \<in> set ?l" "b \<in> set ?l" "uuid_text a = uuid_text b"
    then show "a = b" using small uuid_text_roundtrip by (metis option.inject)
  qed
  define found where "found = filter (\<lambda>a. Some (sa_id a) \<in> set (map parse_uuid (map uuid_text ?l)) \<and> sa_workspace a = ak_workspace k) (kr_accounts s)"
  have found: "found = filter (\<lambda>a. sa_id a \<in> set (ak_accounts k) \<and> sa_workspace a = ak_workspace k) (kr_accounts s)"
    unfolding found_def parsed by (simp add: image_iff l(1))
  have ids: "sa_id ` set found = set (ak_accounts k)" using k by (auto simp: found key_kept_def)
  have "distinct (map sa_id found)" using k by (simp add: found key_kept_def distinct_map_filter)
  then have "length found = card (sa_id ` set found)" using distinct_card [of "map sa_id found"] by simp
  also have "\<dots> = length ?l" using ids l distinct_card [of ?l] by simp
  also have "\<dots> = length (remdups (map uuid_text ?l))" using l(2) inj by (simp add: distinct_map distinct_remdups_id)
  finally have n: "length found = length (remdups (map uuid_text ?l))" .
  have "\<not> (\<exists>i \<in> set (map uuid_text ?l). parse_uuid i = None)" using small by (auto simp: uuid_text_roundtrip)
  then have "resolve_account_allowlist (map uuid_text ?l) (ak_workspace k) s = (found, None)"
    using n unfolding resolve_account_allowlist_def found_def [symmetric] by (simp add: Let_def)
  then show ?thesis using ids by (auto simp: found)
qed

lemma dialog_permissions:
  assumes k: "key_kept k s" and m: "key_ws_membership u (ak_workspace k) s = Some m"
  shows "edited_permissions m (filter (\<lambda>p. p \<in> set (ak_permissions k)) (grantable_permissions u (ak_workspace k) s))
    (ak_permissions k) = ak_permissions k"
proof -
  let ?e = "edited_permissions m (filter (\<lambda>p. p \<in> set (ak_permissions k)) (grantable_permissions u (ak_workspace k) s)) (ak_permissions k)"
  have "set ?e = set (ak_permissions k)"
    by (auto simp: edited_permissions_def grantable_permissions_def m editor_grantable_def HIDDEN_FROM_ISSUANCE_def)
  moreover have "sorted ?e" "distinct ?e" by (simp_all add: edited_permissions_def)
  ultimately show ?thesis using k sorted_distinct_set_unique unfolding key_kept_def by blast
qed

lemma find_stricter: "find P xs = Some m \<Longrightarrow> Q m \<Longrightarrow> find (\<lambda>x. P x \<and> Q x) xs = Some m"
  by (induction xs) (auto split: if_splits)

lemma first_of_org:
  "request_org_membership u s = Some m \<Longrightarrow> om_org m = ws_org w \<Longrightarrow> key_org_membership u w s = Some m"
  unfolding request_org_membership_def key_org_membership_def tbl_first_def by (rule find_stricter)

text \<open>
  Opening the edit dialog of an active key and saving it untouched changes nothing but, at most, the
  order of its accounts: the permissions the editor cannot grant and the accounts that have been
  disconnected meanwhile all stay.
\<close>

theorem untouched_edit_keeps_the_key:
  assumes "rq_user rq = Some u" and "request_org_membership (us_id u) s = Some om"
    and "has_org_permission (Some om) ''manage_api_keys''" and "org_key (om_org om) i s = Some (k, w)"
    and "is_active now k" and "key_kept k s" and "key_ws_membership (us_id u) (ak_workspace k) s = Some m"
    and "rq_post rq = untouched_form (row_context now (us_id u) k s) @ [(''expires_at'', txt)]"
    and "(if py_strip txt = [] then Some None else expiry (py_strip txt)) = Some (ak_expires_at k)"
  shows "\<exists>accounts s'. edit_key expiry wk now rq i s = (KA_UPDATED, s') \<and> set accounts = set (ak_accounts k) \<and>
    get_key i s' = Some (k\<lparr>ak_accounts := accounts\<rparr>)"
proof -
  have g: "get_key i s = Some k" "key_workspace k s = Some w" "ws_org w = om_org om"
    using assms(4) by (auto simp: org_key_def split: option.splits if_splits)
  have w: "ws_id w = ak_workspace k" and i: "ak_id k = i"
    using g(1,2) by (auto simp: key_workspace_def get_key_def dest: tbl_get_Some)
  have enter: "enter_keys rq s = Inr (u, om_org om)" using assms(1-3) by (simp add: enter_keys_def Let_def)
  have posts: "post_list ''permissions'' rq = filter (\<lambda>p. p \<in> set (ak_permissions k)) (grantable_permissions (us_id u) (ak_workspace k) s)"
      "post_list ''social_account_ids'' rq = map uuid_text (dialog_accounts k s)" "post_text ''expires_at'' rq = py_strip txt"
    using untouched_posts [OF assms(8)] row_checked [OF assms(5)] by simp_all
  obtain accounts where a: "resolve_account_allowlist (map uuid_text (dialog_accounts k s)) (ak_workspace k) s = (accounts, None)"
      "sa_id ` set accounts = set (ak_accounts k)" "\<forall>a \<in> set accounts. sa_workspace a = ak_workspace k"
    using dialog_allowlist [OF assms(6)] by blast
  have ne: "ak_accounts k \<noteq> []" using assms(6) by (simp add: key_kept_def)
  have ids: "dialog_accounts k s \<noteq> []" using ne dialog_accounts_same [OF assms(6)] by (metis set_empty)
  have acc: "accounts \<noteq> []" using ne a(2) by auto
  have b: "ws_id (base_workspace w) = ak_workspace k" "ws_org (base_workspace w) = om_org om"
    using w g(3) by (simp_all add: base_workspace_def workspace.truncate_def)
  have f: "foreign_account (base_workspace w) accounts = None"
    using acc a(3) b(1) by (auto simp: foreign_account_def tbl_first_None split: option.split dest: tbl_first_Some)
  have o: "key_org_membership (us_id u) (base_workspace w) s = Some om"
    using first_of_org [OF assms(2)] b(2) by simp
  define e where "e = \<lparr>ed_key = i, ed_permissions = ak_permissions k, ed_accounts = remdups (map sa_id accounts),
      ed_expires_at = ak_expires_at k\<rparr>"
  have "begin_update wk (base_workspace w) k (us_id u) (post_list ''permissions'' rq) accounts (ak_expires_at k) s =
      Inr (e, invalidate_api_key_cache wk k s)"
    by (simp add: begin_update_def o assms(3,7) b(1) f posts(1) dialog_permissions [OF assms(6,7)] e_def i)
  then have "update_api_key wk (base_workspace w) k (us_id u) (post_list ''permissions'' rq) accounts (ak_expires_at k) s =
      Inr (commit_update e (invalidate_api_key_cache wk k s))"
    by (simp add: update_api_key_def)
  then have "edit_key expiry wk now rq i s = (KA_UPDATED, commit_update e (invalidate_api_key_cache wk k s))"
    using assms(4,5,9) by (simp add: edit_key_def enter posts(2,3) a(1) ids Let_def)
  moreover have "get_key i (commit_update e (invalidate_api_key_cache wk k s)) =
      Some (k\<lparr>ak_accounts := remdups (map sa_id accounts)\<rparr>)"
    using g(1) i by (simp add: get_key_def commit_update_def invalidate_api_key_cache_def tbl_get_update e_def)
  moreover have "set (remdups (map sa_id accounts)) = set (ak_accounts k)" using a(2) by simp
  ultimately show ?thesis by blast
qed

definition dialog_key :: api_key where
  \<comment> \<open>a key with a permission the editor lacks and an account that has been disconnected\<close>
  "dialog_key = (new_key demo_env 0 demo_workspace [demo_account 5, demo_account 6] 3 ''bot''
     [''create_posts'', ''use_inbox''] None demo_random 1)"

definition dialog_keyring :: keyring where
  "dialog_keyring = demo_keyring\<lparr>kr_keys := [dialog_key],
     kr_workspaces := [workspace.extend demo_workspace \<lparr>tw_archived = False\<rparr>],
     kr_accounts := [demo_account 5, (demo_account 6)\<lparr>sa_connection := DISCONNECTED\<rparr>]\<rparr>"

definition dialog_request :: request where
  "dialog_request = \<lparr>rq_user = Some \<lparr>us_id = 3, us_name = ''A'', us_email = ''a''\<rparr>,
     rq_post = untouched_form (row_context 1 3 dialog_key dialog_keyring) @ [(''expires_at'', [])], rq_pending = []\<rparr>"

theorem untouched_edit_keeps_the_key_witness:
  "\<exists>accounts s'. edit_key (\<lambda>_. None) 0 1 dialog_request 1 dialog_keyring = (KA_UPDATED, s') \<and>
     set accounts = {5, 6} \<and> get_key 1 s' = Some (dialog_key\<lparr>ak_accounts := accounts\<rparr>)"
proof -
  have k: "get_key 1 dialog_keyring = Some dialog_key"
    by (simp add: get_key_def tbl_get_def dialog_keyring_def dialog_key_def new_key_def)
  have acc: "ak_accounts dialog_key = [5, 6]" by code_simp
  have perms: "ak_permissions dialog_key = [''create_posts'', ''use_inbox'']" by code_simp
  have "sorted [''create_posts'', ''use_inbox'']" by code_simp
  then have kept: "key_kept dialog_key dialog_keyring"
    by (simp add: key_kept_def acc perms) (simp add: dialog_keyring_def demo_account_def dialog_key_def new_key_def demo_workspace_def)
  have "ak_workspace dialog_key = 1" by code_simp
  then have w: "key_workspace dialog_key dialog_keyring = Some (workspace.extend demo_workspace \<lparr>tw_archived = False\<rparr>)"
    by (simp add: key_workspace_def dialog_keyring_def tbl_get_def demo_workspace_def workspace.extend_def)
  have "ws_org (workspace.extend demo_workspace \<lparr>tw_archived = False\<rparr>) = 1"
    by (simp add: demo_workspace_def workspace.extend_def)
  then have org: "org_key 1 1 dialog_keyring = Some (dialog_key, workspace.extend demo_workspace \<lparr>tw_archived = False\<rparr>)"
    using k w by (simp add: org_key_def)
  have a: "is_active 1 dialog_key" by code_simp
  have r: "rq_user dialog_request = Some \<lparr>us_id = 3, us_name = ''A'', us_email = ''a''\<rparr>"
      "rq_post dialog_request = untouched_form (row_context 1 3 dialog_key dialog_keyring) @ [(''expires_at'', [])]"
    by (simp_all add: dialog_request_def)
  have m: "request_org_membership 3 dialog_keyring = Some \<lparr>om_user = 3, om_org = 1, om_role = ORG_OWNER\<rparr>"
      "key_ws_membership 3 (ak_workspace dialog_key) dialog_keyring = Some \<lparr>mb_id = 9, mb_user = 3, mb_workspace = 1,
         mb_role = WS_OWNER, mb_custom = Some [(''create_posts'', True), (''publish_directly'', True)]\<rparr>"
    by (simp_all add: request_org_membership_def key_ws_membership_def dialog_keyring_def demo_keyring_def tbl_first_def
        dialog_key_def new_key_def demo_workspace_def)
  have o: "has_org_permission (Some \<lparr>om_user = 3, om_org = 1, om_role = ORG_OWNER\<rparr>) ''manage_api_keys''"
    by code_simp
  have e: "(if py_strip [] = [] then Some None else (\<lambda>_. None) (py_strip [])) = Some (ak_expires_at dialog_key)"
    by (simp add: py_strip_def dialog_key_def new_key_def)
  show ?thesis
    using untouched_edit_keeps_the_key [of dialog_request "\<lparr>us_id = 3, us_name = ''A'', us_email = ''a''\<rparr>" dialog_keyring
        "\<lparr>om_user = 3, om_org = 1, om_role = ORG_OWNER\<rparr>" 1 dialog_key _ 1 _ "[]" "\<lambda>_. None" 0,
        OF r(1) _ o _ a kept _ _ e] m org r(2)
    by (simp add: acc)
qed

end
