(* ===== verification/Accounts.thy ===== *)
theory Accounts
  imports Team
begin

text \<open>
  Accounts, organisations and workspaces as a whole: the provisioning and sign-up of
  \<open>apps/accounts/signals.py\<close>, account deletion (\<open>apps/accounts/views.py\<close>), the deletion of an organisation
  (\<open>apps/organizations\<close>), the workspace settings (\<open>apps/workspaces/views.py\<close>) and the member views
  (\<open>apps/members/views.py\<close>, \<open>apps/client_portal/views_admin.py\<close>) with their guards, as one machine.
  The tables of \<open>Team.site\<close> only: what else a deletion cascades to is not represented. The browser's
  time zone and the terms of service of a sign-up are left out.
\<close>

section \<open>Provisioning\<close>

definition DEFAULT_ORG :: string where
  "DEFAULT_ORG = ''My Organization''"

definition new_org :: "nat \<Rightarrow> named_org" where
  "new_org i = \<lparr>og_id = i, og_default_timezone = ''UTC'', og_name = DEFAULT_ORG,
     og_requested_at = None, og_scheduled_for = None\<rparr>"

definition new_workspace :: "nat \<Rightarrow> nat \<Rightarrow> string \<Rightarrow> team_workspace" where
  "new_workspace i g name = \<lparr>ws_id = i, ws_org = g, ws_name = name, ws_approval_mode = ''none'',
     ws_timezone = [], tw_archived = False\<rparr>"

definition provision :: "nat \<Rightarrow> site \<Rightarrow> site" where
  "provision u s =
    (if \<exists>m \<in> set (st_orgmems s). om_user m = u then s
     else let g = st_next s; w = Suc g in
       set_last_workspace u (Some w)
         (s\<lparr>st_orgs := st_orgs s @ [new_org g],
            st_orgmems := st_orgmems s @ [\<lparr>om_user = u, om_org = g, om_role = ORG_OWNER\<rparr>],
            st_workspaces := st_workspaces s @ [new_workspace w g ''My Workspace''],
            st_wsmems := st_wsmems s @ [\<lparr>mb_id = Suc w, mb_user = u, mb_workspace = w, mb_role = WS_OWNER, mb_custom = None\<rparr>],
            st_next := Suc (Suc w)\<rparr>))"

definition create_user :: "string \<Rightarrow> site \<Rightarrow> (nat \<times> site) option" where
  \<comment> \<open>the row and the \<open>post_save\<close> signal, \<open>None\<close> where the address is taken\<close>
  "create_user email s =
    (if email \<in> us_email ` set (st_users s) then None
     else let u = st_next s in
       Some (u, provision u (s\<lparr>st_users := st_users s @ [\<lparr>us_id = u, us_name = [], us_email = email, au_last_workspace = None\<rparr>],
                              st_next := Suc u\<rparr>)))"

section \<open>Deleting\<close>

definition org_workspaces :: "nat \<Rightarrow> site \<Rightarrow> nat set" where
  "org_workspaces g s = set (map ws_id (filter (\<lambda>w. ws_org w = g) (st_workspaces s)))"

definition delete_org :: "nat \<Rightarrow> site \<Rightarrow> site" where
  \<comment> \<open>\<open>Organization.delete()\<close> with its cascades\<close>
  "delete_org g s =
    s\<lparr>st_orgs := tbl_delete (\<lambda>o'. og_id o' = g) (st_orgs s),
      st_orgmems := tbl_delete (\<lambda>m. om_org m = g) (st_orgmems s),
      st_wsmems := tbl_delete (\<lambda>m. mb_workspace m \<in> org_workspaces g s) (st_wsmems s),
      st_workspaces := tbl_delete (\<lambda>w. ws_org w = g) (st_workspaces s),
      st_invites := tbl_delete (\<lambda>iv. iv_org iv = g) (st_invites s)\<rparr>"

definition delete_user :: "nat \<Rightarrow> site \<Rightarrow> site" where
  "delete_user u s =
    s\<lparr>st_users := tbl_delete (\<lambda>r. us_id r = u) (st_users s),
      st_orgmems := tbl_delete (\<lambda>m. om_user m = u) (st_orgmems s),
      st_wsmems := tbl_delete (\<lambda>m. mb_user m = u) (st_wsmems s),
      st_invites := tbl_update (\<lambda>iv. iv_invited_by iv = Some u) (\<lambda>iv. iv\<lparr>iv_invited_by := None\<rparr>) (st_invites s)\<rparr>"

definition delete_workspace :: "nat \<Rightarrow> site \<Rightarrow> site" where
  "delete_workspace w s =
    s\<lparr>st_workspaces := tbl_delete (\<lambda>r. ws_id r = w) (st_workspaces s),
      st_wsmems := tbl_delete (\<lambda>m. mb_workspace m = w) (st_wsmems s)\<rparr>"

definition settle_member :: "nat option \<Rightarrow> nat \<Rightarrow> site \<Rightarrow> site" where
  "settle_member requesting u s =
    (if requesting = Some u then delete_user u s
     else if u \<in> us_id ` set (st_users s) then provision u s else s)"

definition hard_delete :: "nat \<Rightarrow> nat option \<Rightarrow> site \<Rightarrow> site" where
  "hard_delete g requesting s =
    (let member_ids = map om_user (filter (\<lambda>m. om_org m = g) (st_orgmems s));
         ws = org_workspaces g s;
         s1 = s\<lparr>st_users := tbl_update (\<lambda>r. case au_last_workspace r of None \<Rightarrow> False | Some w \<Rightarrow> w \<in> ws)
                 (\<lambda>r. r\<lparr>au_last_workspace := None\<rparr>) (st_users s)\<rparr>
     in fold (settle_member requesting) member_ids (delete_org g s1))"

definition sole_owner_orgs :: "nat \<Rightarrow> site \<Rightarrow> nat list" where
  "sole_owner_orgs u s =
    map om_org (filter (\<lambda>m. om_user m = u \<and> om_role m = ORG_OWNER \<and>
      \<not> (\<exists>x \<in> set (st_orgmems s). om_org x = om_org m \<and> om_role x = ORG_OWNER \<and> om_user x \<noteq> u)) (st_orgmems s))"

definition handle_account_deletion :: "nat \<Rightarrow> site \<Rightarrow> bool \<times> site" where
  "handle_account_deletion u s = (if sole_owner_orgs u s \<noteq> [] then (False, s) else (True, delete_user u s))"

section \<open>Signing up\<close>

fun drop_default_orgs :: "org_membership list \<Rightarrow> site \<Rightarrow> site" where
  "drop_default_orgs [] s = s"
| "drop_default_orgs (m # ms) s =
    (let s1 = s\<lparr>st_orgmems := tbl_delete (\<lambda>x. om_user x = om_user m \<and> om_org x = om_org m) (st_orgmems s)\<rparr>;
         named = (case tbl_get og_id (om_org m) (st_orgs s1) of None \<Rightarrow> False | Some g \<Rightarrow> og_name g = DEFAULT_ORG)
     in drop_default_orgs ms
          (if named \<and> \<not> (\<exists>x \<in> set (st_orgmems s1). om_org x = om_org m) then delete_org (om_org m) s1 else s1))"

definition join_on_signup :: "instant \<Rightarrow> nat option \<Rightarrow> account_user \<Rightarrow> site \<Rightarrow> bool \<times> site" where
  \<comment> \<open>\<open>create_organization_on_signup\<close>; the token is that of the session, the flag is false where it raises\<close>
  "join_on_signup now token u s =
    (case (case token of None \<Rightarrow> None
           | Some t \<Rightarrow> tbl_first (\<lambda>iv. iv_token iv = t \<and> iv_accepted_at iv = None) (st_invites s)) of
       None \<Rightarrow> (True, provision (us_id u) s)
     | Some iv \<Rightarrow>
        if iv_expires_at iv < now then (True, provision (us_id u) s)
        else (case accept_invitation now iv u False s of
           (Inr _, s1) \<Rightarrow>
             (True, drop_default_orgs (filter (\<lambda>m. om_user m = us_id u \<and> om_org m \<noteq> iv_org iv) (st_orgmems s1)) s1)
         | (Inl INTEGRITY, s1) \<Rightarrow> (False, s1)
         | (Inl _, s1) \<Rightarrow> (True, provision (us_id u) s1)))"

definition sign_up :: "instant \<Rightarrow> string \<Rightarrow> nat option \<Rightarrow> site \<Rightarrow> site" where
  "sign_up now email token s =
    (case create_user email s of
       None \<Rightarrow> s
     | Some (u, s1) \<Rightarrow>
        (case tbl_get us_id u (st_users s1) of
           None \<Rightarrow> s1
         | Some r \<Rightarrow> snd (join_on_signup now token r s1)))"

section \<open>Workspaces and the organisation's settings\<close>

definition workspace_create :: "nat \<Rightarrow> nat \<Rightarrow> string \<Rightarrow> site \<Rightarrow> site" where
  "workspace_create u g raw_name s =
    (if py_strip raw_name = [] then s
     else let w = st_next s in
       set_last_workspace u (Some w)
         (s\<lparr>st_workspaces := st_workspaces s @ [new_workspace w g (py_strip raw_name)],
            st_wsmems := st_wsmems s @ [\<lparr>mb_id = Suc w, mb_user = u, mb_workspace = w, mb_role = WS_OWNER, mb_custom = None\<rparr>],
            st_next := Suc (Suc w)\<rparr>))"

definition active_count :: "nat \<Rightarrow> site \<Rightarrow> nat" where
  "active_count g s = length (filter (\<lambda>w. ws_org w = g \<and> \<not> tw_archived w) (st_workspaces s))"

definition set_archived :: "nat \<Rightarrow> bool \<Rightarrow> site \<Rightarrow> site" where
  "set_archived w b s =
    s\<lparr>st_workspaces := tbl_update (\<lambda>r. ws_id r = w) (\<lambda>r. r\<lparr>tw_archived := b\<rparr>) (st_workspaces s)\<rparr>"

definition workspace_settings :: "nat \<Rightarrow> nat \<Rightarrow> string \<Rightarrow> site \<Rightarrow> site" where
  \<comment> \<open>the three actions on the workspace as a whole\<close>
  "workspace_settings u w action s =
    (case (tbl_get ws_id w (st_workspaces s), ws_membership_of u w s) of
       (Some r, Some m) \<Rightarrow>
         let may = mb_role m \<in> {WS_OWNER, WS_MANAGER} in
         if action = ''archive_workspace'' \<and> may
         then (if active_count (ws_org r) s \<le> 1 then s else set_archived w True s)
         else if action = ''unarchive_workspace'' \<and> may then set_archived w False s
         else if action = ''delete_workspace'' \<and> may
         then (if active_count (ws_org r) s \<le> 1 \<and> \<not> tw_archived r then s else delete_workspace w s)
         else s
     | _ \<Rightarrow> s)"

definition set_deletion :: "nat \<Rightarrow> instant option \<Rightarrow> instant option \<Rightarrow> site \<Rightarrow> site" where
  "set_deletion g requested scheduled s =
    s\<lparr>st_orgs := tbl_update (\<lambda>o'. og_id o' = g)
        (\<lambda>o'. o'\<lparr>og_requested_at := requested, og_scheduled_for := scheduled\<rparr>) (st_orgs s)\<rparr>"

definition execute_scheduled_org_deletion :: "instant \<Rightarrow> nat \<Rightarrow> site \<Rightarrow> site" where
  "execute_scheduled_org_deletion now g s =
    (case tbl_get og_id g (st_orgs s) of
       None \<Rightarrow> s
     | Some o' \<Rightarrow>
        (case (og_requested_at o', og_scheduled_for o') of
           (Some _, Some t) \<Rightarrow> if t > now then s else hard_delete g None s
         | _ \<Rightarrow> s))"

section \<open>The views\<close>

definition first_membership :: "nat \<Rightarrow> site \<Rightarrow> org_membership option" where
  \<comment> \<open>\<open>request.org_membership\<close> of a page without a workspace in its URL\<close>
  "first_membership u s = tbl_first (\<lambda>m. om_user m = u) (st_orgmems s)"

definition as_org_role :: "org_role \<Rightarrow> nat \<Rightarrow> site \<Rightarrow> org_membership option" where
  \<comment> \<open>\<open>@require_org_role\<close>: the membership where the guard lets the view run\<close>
  "as_org_role r u s =
    (case first_membership u s of
       None \<Rightarrow> None
     | Some m \<Rightarrow> if require_org_role r (Some m) = None then Some m else None)"

definition posted_assignments :: "nat \<Rightarrow> (nat \<times> string option) list \<Rightarrow> site \<Rightarrow> (nat \<times> string option) list" where
  "posted_assignments g posted s =
    List.map_filter (\<lambda>w. map_option (Pair w) (map_of posted w)) (active_workspace_ids g s)"

definition client_org :: "nat \<Rightarrow> team_workspace \<Rightarrow> site \<Rightarrow> nat option" where
  \<comment> \<open>\<open>request.org\<close> of a page with a workspace in its URL\<close>
  "client_org u w s =
    (case org_membership u (ws_org w) s of
       Some m \<Rightarrow> Some (om_org m)
     | None \<Rightarrow> map_option om_org (first_membership u s))"

datatype site_op =
    SignUp instant string "nat option"
  | InviteMember instant nat string string "(nat \<times> string option) list"
  | InviteClient instant nat nat string
  | ResendInvite instant nat nat
  | RevokeInvite instant nat nat
  | AcceptInvite instant nat nat
  | UpdateRole nat nat string
  | RemoveMember nat nat
  | ManageWorkspaces nat nat "(nat \<times> string option) list"
  | DeleteAccount nat
  | CreateWorkspace nat string
  | WorkspaceSettings nat nat string
  | RequestOrgDeletion instant nat
  | CancelOrgDeletion nat
  | DeleteOrgNow nat
  | PurgeOrg instant nat

definition invite_client :: "mail_env \<Rightarrow> instant \<Rightarrow> nat \<Rightarrow> nat \<Rightarrow> string \<Rightarrow> site \<Rightarrow> site" where
  "invite_client env now u w email s =
    (case (tbl_get ws_id w (st_workspaces s), ws_membership_of u w s) of
       (Some r, Some m) \<Rightarrow>
         if require_workspace_role WS_MANAGER (Some m) \<noteq> None \<or> py_strip email = [] then s
         else (case client_org u r s of
                 None \<Rightarrow> s
               | Some g \<Rightarrow> snd (create_invitation env now g (py_strip email) ''member'' [(w, Some ''client'')] u None s))
     | _ \<Rightarrow> s)"

definition accept_invite :: "instant \<Rightarrow> nat \<Rightarrow> nat \<Rightarrow> site \<Rightarrow> site" where
  "accept_invite now u token s =
    (case (tbl_get iv_token token (st_invites s), tbl_get us_id u (st_users s)) of
       (Some iv, Some r) \<Rightarrow> snd (accept_invitation now iv r True s)
     | _ \<Rightarrow> s)"

definition invite_member :: "mail_env \<Rightarrow> instant \<Rightarrow> nat \<Rightarrow> string \<Rightarrow> string \<Rightarrow> (nat \<times> string option) list \<Rightarrow> site \<Rightarrow> site" where
  "invite_member env now u email role posted s =
    (case as_org_role ORG_ADMIN u s of None \<Rightarrow> s
     | Some m \<Rightarrow> snd (create_invitation env now (om_org m) (py_strip email) role
                      (posted_assignments (om_org m) posted s) u (Some u) s))"

definition org_invite :: "nat \<Rightarrow> nat \<Rightarrow> site \<Rightarrow> invitation option" where
  \<comment> \<open>\<open>get_object_or_404(Invitation, id=i, organization=request.org)\<close> behind the admin guard\<close>
  "org_invite u i s =
    (case as_org_role ORG_ADMIN u s of None \<Rightarrow> None
     | Some m \<Rightarrow> (case get_invite i s of None \<Rightarrow> None
         | Some iv \<Rightarrow> if iv_org iv = om_org m then Some iv else None))"

definition resend_invite :: "mail_env \<Rightarrow> instant \<Rightarrow> nat \<Rightarrow> nat \<Rightarrow> site \<Rightarrow> site" where
  "resend_invite env now u i s =
    (case org_invite u i s of None \<Rightarrow> s | Some iv \<Rightarrow> snd (resend_invitation env now iv s))"

definition revoke_invite :: "instant \<Rightarrow> nat \<Rightarrow> nat \<Rightarrow> site \<Rightarrow> site" where
  "revoke_invite now u i s =
    (case org_invite u i s of None \<Rightarrow> s | Some iv \<Rightarrow> snd (revoke_invitation now iv s))"

definition member_of_org :: "nat \<Rightarrow> nat \<Rightarrow> site \<Rightarrow> org_membership option" where
  \<comment> \<open>\<open>get_object_or_404(OrgMembership, id=..., organization=request.org)\<close> behind the admin guard\<close>
  "member_of_org u v s =
    (case as_org_role ORG_ADMIN u s of None \<Rightarrow> None | Some m \<Rightarrow> org_membership v (om_org m) s)"

definition update_member_role :: "nat \<Rightarrow> nat \<Rightarrow> string \<Rightarrow> site \<Rightarrow> site" where
  "update_member_role u v role s =
    (case member_of_org u v s of None \<Rightarrow> s
     | Some x \<Rightarrow> snd (update_member_org_role (om_org x) x role (Some u) s))"

definition remove_member_view :: "nat \<Rightarrow> nat \<Rightarrow> site \<Rightarrow> site" where
  "remove_member_view u v s =
    (case member_of_org u v s of None \<Rightarrow> s | Some x \<Rightarrow> snd (remove_member (om_org x) x u s))"

definition manage_workspaces :: "nat \<Rightarrow> nat \<Rightarrow> (nat \<times> string option) list \<Rightarrow> site \<Rightarrow> site" where
  "manage_workspaces u v posted s =
    (case member_of_org u v s of None \<Rightarrow> s
     | Some x \<Rightarrow> snd (update_workspace_assignments (om_org x) v (posted_assignments (om_org x) posted s) (Some u) s))"

definition workspace_create_view :: "nat \<Rightarrow> string \<Rightarrow> site \<Rightarrow> site" where
  "workspace_create_view u name s =
    (case as_org_role ORG_ADMIN u s of None \<Rightarrow> s | Some m \<Rightarrow> workspace_create u (om_org m) name s)"

definition handle_org_deletion :: "instant \<Rightarrow> nat \<Rightarrow> site \<Rightarrow> site" where
  "handle_org_deletion now u s =
    (case as_org_role ORG_OWNER u s of None \<Rightarrow> s
     | Some m \<Rightarrow> set_deletion (om_org m) (Some now) (Some (now + days 14)) s)"

definition handle_cancel_deletion :: "nat \<Rightarrow> site \<Rightarrow> site" where
  "handle_cancel_deletion u s =
    (case as_org_role ORG_OWNER u s of None \<Rightarrow> s | Some m \<Rightarrow> set_deletion (om_org m) None None s)"

definition handle_immediate_org_deletion :: "nat \<Rightarrow> site \<Rightarrow> site" where
  "handle_immediate_org_deletion u s =
    (case as_org_role ORG_OWNER u s of None \<Rightarrow> s | Some m \<Rightarrow> hard_delete (om_org m) (Some u) s)"

fun site_step :: "mail_env \<Rightarrow> site \<Rightarrow> site_op \<Rightarrow> site" where
  "site_step env s (SignUp now email token) = sign_up now email token s"
| "site_step env s (InviteMember now u email role posted) = invite_member env now u email role posted s"
| "site_step env s (InviteClient now u w email) = invite_client env now u w email s"
| "site_step env s (ResendInvite now u i) = resend_invite env now u i s"
| "site_step env s (RevokeInvite now u i) = revoke_invite now u i s"
| "site_step env s (AcceptInvite now u token) = accept_invite now u token s"
| "site_step env s (UpdateRole u v role) = update_member_role u v role s"
| "site_step env s (RemoveMember u v) = remove_member_view u v s"
| "site_step env s (ManageWorkspaces u v posted) = manage_workspaces u v posted s"
| "site_step env s (DeleteAccount u) = snd (handle_account_deletion u s)"
| "site_step env s (CreateWorkspace u name) = workspace_create_view u name s"
| "site_step env s (WorkspaceSettings u w action) = workspace_settings u w action s"
| "site_step env s (RequestOrgDeletion now u) = handle_org_deletion now u s"
| "site_step env s (CancelOrgDeletion u) = handle_cancel_deletion u s"
| "site_step env s (DeleteOrgNow u) = handle_immediate_org_deletion u s"
| "site_step env s (PurgeOrg now g) = execute_scheduled_org_deletion now g s"

definition new_site :: site where
  "new_site = \<lparr>st_orgs = [], st_users = [], st_workspaces = [], st_orgmems = [], st_wsmems = [], st_invites = [],
     st_mail = new_mailbox [], st_next = 0\<rparr>"

definition site_run :: "mail_env \<Rightarrow> site_op list \<Rightarrow> site" where
  "site_run env ops = foldl (site_step env) new_site ops"

end
