(* ===== verification/Site_Invariant.thy ===== *)
theory Site_Invariant
  imports Accounts
begin

text \<open>
  What every view keeps of the tables: each organisation has exactly one owner and an active
  workspace, nobody owns two organisations, and no invitation offers ownership. One lemma per
  operation, and the views as an instance of the \<open>machine\<close> interface.
\<close>

section \<open>The invariant\<close>

definition owners :: "site \<Rightarrow> org_membership list" where
  "owners s = filter (\<lambda>m. om_role m = ORG_OWNER) (st_orgmems s)"

definition org_ids :: "site \<Rightarrow> nat set" where
  "org_ids s = og_id ` set (st_orgs s)"

definition user_ids :: "site \<Rightarrow> nat set" where
  "user_ids s = us_id ` set (st_users s)"

definition ownership_ok :: "site \<Rightarrow> bool" where
  "ownership_ok s \<longleftrightarrow> distinct (map om_org (owners s)) \<and> distinct (map om_user (owners s)) \<and>
     om_org ` set (owners s) = org_ids s \<and> distinct (map (\<lambda>m. (om_user m, om_org m)) (st_orgmems s))"

definition references_ok :: "site \<Rightarrow> bool" where
  "references_ok s \<longleftrightarrow>
     (\<forall>m \<in> set (st_orgmems s). om_org m \<in> org_ids s \<and> om_user m \<in> user_ids s) \<and>
     (\<forall>w \<in> set (st_workspaces s). ws_org w \<in> org_ids s) \<and>
     (\<forall>iv \<in> set (st_invites s). iv_org iv \<in> org_ids s \<and> iv_role iv \<noteq> ORG_OWNER) \<and>
     (\<forall>i \<in> org_ids s \<union> user_ids s \<union> ws_id ` set (st_workspaces s). i < st_next s)"

definition active_ok :: "site \<Rightarrow> bool" where
  "active_ok s \<longleftrightarrow> distinct (map ws_id (st_workspaces s)) \<and>
     (\<forall>g \<in> org_ids s. \<exists>w \<in> set (st_workspaces s). ws_org w = g \<and> \<not> tw_archived w)"

definition well_kept :: "site \<Rightarrow> bool" where
  "well_kept s \<longleftrightarrow> ownership_ok s \<and> references_ok s \<and> active_ok s"

lemmas kept_defs = well_kept_def ownership_ok_def references_ok_def active_ok_def

lemma kept_frame:
  assumes "well_kept s" and "org_ids s' = org_ids s" and "st_orgmems s' = st_orgmems s"
    and "user_ids s' = user_ids s" and "st_workspaces s' = st_workspaces s" and "st_next s \<le> st_next s'"
    and "\<forall>iv \<in> set (st_invites s'). iv_org iv \<in> org_ids s \<and> iv_role iv \<noteq> ORG_OWNER"
  shows "well_kept s'"
proof -
  have o: "owners s' = owners s" using assms(3) by (simp add: owners_def)
  have r: "references_ok s" using assms(1) by (simp add: well_kept_def)
  then have "\<forall>i \<in> org_ids s \<union> user_ids s \<union> ws_id ` set (st_workspaces s). i < st_next s'"
    using assms(6) unfolding references_ok_def by (meson order_less_le_trans)
  then have "references_ok s'"
    using r assms(2-5,7) unfolding references_ok_def by simp
  moreover have "ownership_ok s'"
    using assms(1,2,3) by (simp add: well_kept_def ownership_ok_def o)
  moreover have "active_ok s'" using assms(1,2,5) by (simp add: well_kept_def active_ok_def)
  ultimately show ?thesis by (simp add: well_kept_def)
qed

lemma invites_ok: "well_kept s \<Longrightarrow> \<forall>iv \<in> set (st_invites s). iv_org iv \<in> org_ids s \<and> iv_role iv \<noteq> ORG_OWNER"
  by (simp add: kept_defs)

lemma update_ids: "(\<And>r. k (f r) = k r) \<Longrightarrow> k ` set (tbl_update P f t) = k ` set t"
  by (induction t) auto

lemma update_all: "(\<And>r. Q r \<Longrightarrow> Q (f r)) \<Longrightarrow> \<forall>r \<in> set t. Q r \<Longrightarrow> \<forall>r \<in> set (tbl_update P f t). Q r"
  by (auto simp: set_tbl_update)

lemma set_last_workspace_kept: "well_kept s \<Longrightarrow> well_kept (set_last_workspace u w s)"
proof (rule kept_frame [of s])
  show "well_kept s \<Longrightarrow> \<forall>iv \<in> set (st_invites (set_last_workspace u w s)).
      iv_org iv \<in> org_ids s \<and> iv_role iv \<noteq> ORG_OWNER"
    by (simp add: set_last_workspace_def invites_ok)
qed (simp_all add: set_last_workspace_def org_ids_def user_ids_def update_ids)

section \<open>Provisioning and deleting\<close>

lemma provision_kept:
  assumes k: "well_kept s" and u: "u \<in> user_ids s"
  shows "well_kept (provision u s)"
proof (cases "\<exists>m \<in> set (st_orgmems s). om_user m = u")
  case True
  then show ?thesis using k by (simp add: provision_def)
next
  case False
  define g where "g = st_next s"
  define s1 where "s1 = s\<lparr>st_orgs := st_orgs s @ [new_org g],
            st_orgmems := st_orgmems s @ [\<lparr>om_user = u, om_org = g, om_role = ORG_OWNER\<rparr>],
            st_workspaces := st_workspaces s @ [new_workspace (Suc g) g ''My Workspace''],
            st_wsmems := st_wsmems s @ [\<lparr>mb_id = Suc (Suc g), mb_user = u, mb_workspace = Suc g, mb_role = WS_OWNER, mb_custom = None\<rparr>],
            st_next := Suc (Suc (Suc g))\<rparr>"
  have p: "provision u s = set_last_workspace u (Some (Suc g)) s1"
    using False by (simp add: provision_def Let_def s1_def g_def)
  have fresh: "\<forall>i \<in> org_ids s \<union> user_ids s \<union> ws_id ` set (st_workspaces s). i < g"
    using k by (simp add: kept_defs g_def)
  have fresh3: "\<forall>i \<in> org_ids s \<union> user_ids s \<union> ws_id ` set (st_workspaces s). i < Suc (Suc (Suc g))"
    using fresh by (meson less_SucI)
  have ids: "org_ids s1 = insert g (org_ids s)" "user_ids s1 = user_ids s"
    by (simp_all add: s1_def org_ids_def user_ids_def new_org_def)
  have own: "owners s1 = owners s @ [\<lparr>om_user = u, om_org = g, om_role = ORG_OWNER\<rparr>]"
    by (simp add: owners_def s1_def)
  have new: "g \<notin> org_ids s" "Suc g \<notin> ws_id ` set (st_workspaces s)" using fresh by (auto dest: bspec [where x = "Suc g"])
  have sub: "set (owners s) \<subseteq> set (st_orgmems s)" by (auto simp: owners_def)
  have "ownership_ok s1"
    using k new False sub by (auto simp: well_kept_def ownership_ok_def own ids) (auto simp: s1_def)
  moreover have "references_ok s1"
    using k fresh fresh3 u unfolding well_kept_def references_ok_def ids
    by (simp add: s1_def new_workspace_def g_def)
  moreover have "active_ok s1"
    using k new by (auto simp: well_kept_def active_ok_def ids) (auto simp: s1_def new_workspace_def)
  ultimately have "well_kept s1" by (simp add: well_kept_def)
  then show ?thesis by (simp add: p set_last_workspace_kept)
qed

lemma distinct_map_delete: "distinct (map f t) \<Longrightarrow> distinct (map f (tbl_delete P t))"
  by (simp add: tbl_delete_def distinct_map_filter)

lemma delete_org_kept:
  assumes k: "well_kept s"
  shows "well_kept (delete_org g s)"
proof -
  let ?s = "delete_org g s"
  have own: "owners ?s = filter (\<lambda>m. om_org m \<noteq> g) (owners s)"
    by (simp add: owners_def delete_org_def tbl_delete_def conj_commute)
  have ids: "org_ids ?s = org_ids s - {g}" "user_ids ?s = user_ids s"
    by (auto simp: org_ids_def user_ids_def delete_org_def tbl_delete_def)
  have "ownership_ok ?s"
    using k by (auto simp: well_kept_def ownership_ok_def own ids distinct_map_filter)
      (simp add: delete_org_def distinct_map_delete)
  moreover have "references_ok ?s"
    using k by (auto simp: well_kept_def references_ok_def ids) (auto simp: delete_org_def tbl_delete_def)
  moreover have "active_ok ?s"
    using k by (auto simp: well_kept_def active_ok_def ids)
      (auto simp: delete_org_def tbl_delete_def distinct_map_filter)
  ultimately show ?thesis by (simp add: well_kept_def)
qed

lemma delete_user_kept:
  assumes k: "well_kept s" and u: "u \<notin> om_user ` set (owners s)"
  shows "well_kept (delete_user u s)"
proof -
  let ?s = "delete_user u s"
  have "filter (\<lambda>m. om_user m \<noteq> u \<and> om_role m = ORG_OWNER) (st_orgmems s) = owners s"
    using u unfolding owners_def by (intro filter_cong) auto
  then have own: "owners ?s = owners s"
    by (simp add: owners_def delete_user_def tbl_delete_def conj_commute)
  have ids: "org_ids ?s = org_ids s" "user_ids ?s = user_ids s - {u}"
    by (auto simp: org_ids_def user_ids_def delete_user_def tbl_delete_def)
  have "ownership_ok ?s"
    using k by (simp add: well_kept_def ownership_ok_def own ids) (simp add: delete_user_def distinct_map_delete)
  moreover have "references_ok ?s"
    using k by (auto simp: well_kept_def references_ok_def ids)
      (auto simp: delete_user_def tbl_delete_def set_tbl_update)
  moreover have "active_ok ?s"
    using k by (simp add: well_kept_def active_ok_def ids) (simp add: delete_user_def)
  ultimately show ?thesis by (simp add: well_kept_def)
qed


definition not_owner :: "nat option \<Rightarrow> site \<Rightarrow> bool" where
  "not_owner r s \<longleftrightarrow> (case r of None \<Rightarrow> True | Some u \<Rightarrow> u \<notin> om_user ` set (owners s))"

lemma owners_provision: "om_user ` set (owners (provision u s)) \<subseteq> insert u (om_user ` set (owners s))"
  by (auto simp: provision_def owners_def Let_def set_last_workspace_def)

lemma owners_delete_user: "om_user ` set (owners (delete_user u s)) \<subseteq> om_user ` set (owners s)"
  by (auto simp: delete_user_def owners_def tbl_delete_def)

lemma settle_member_kept:
  assumes "well_kept s" and "not_owner r s"
  shows "well_kept (settle_member r u s) \<and> not_owner r (settle_member r u s)"
proof (cases "r = Some u")
  case True
  then have "u \<notin> om_user ` set (owners s)" using assms(2) by (simp add: not_owner_def)
  with True assms(1) owners_delete_user [of u s] show ?thesis
    by (auto simp: settle_member_def delete_user_kept not_owner_def)
next
  case False
  show ?thesis
  proof (cases "u \<in> us_id ` set (st_users s)")
    case True
    have "well_kept (provision u s)" using provision_kept assms(1) True by (simp add: user_ids_def)
    moreover have "not_owner r (provision u s)"
      using assms(2) False owners_provision [of u s] by (auto simp: not_owner_def split: option.splits)
    ultimately show ?thesis using False True by (simp add: settle_member_def)
  next
    case no: False
    with False assms show ?thesis by (simp add: settle_member_def)
  qed
qed

lemma settle_members_kept:
  "well_kept s \<Longrightarrow> not_owner r s \<Longrightarrow> well_kept (fold (settle_member r) us s)"
  by (induction us arbitrary: s) (auto simp: settle_member_kept)

lemma hard_delete_kept:
  assumes k: "well_kept s" and r: "\<And>u. r = Some u \<Longrightarrow> \<exists>m \<in> set (owners s). om_user m = u \<and> om_org m = g"
  shows "well_kept (hard_delete g r s)"
proof -
  define s1 where "s1 = s\<lparr>st_users := tbl_update (\<lambda>r. case au_last_workspace r of None \<Rightarrow> False | Some w \<Rightarrow> w \<in> org_workspaces g s)
                 (\<lambda>r. r\<lparr>au_last_workspace := None\<rparr>) (st_users s)\<rparr>"
  have k1: "well_kept s1"
    by (rule kept_frame [OF k])
      (simp_all add: s1_def org_ids_def user_ids_def update_ids invites_ok [OF k, unfolded org_ids_def])
  have own: "owners (delete_org g s1) = filter (\<lambda>m. om_org m \<noteq> g) (owners s)"
    by (simp add: owners_def delete_org_def tbl_delete_def s1_def conj_commute)
  have "not_owner r (delete_org g s1)"
  proof (cases r)
    case None
    then show ?thesis by (simp add: not_owner_def)
  next
    case (Some u)
    obtain m where m: "m \<in> set (owners s)" "om_user m = u" "om_org m = g" using r [OF Some] by auto
    have "inj_on om_user (set (owners s))"
      using k by (simp add: well_kept_def ownership_ok_def distinct_map)
    then have "om_user x \<noteq> u" if "x \<in> set (owners s)" "om_org x \<noteq> g" for x
      using m that by (metis inj_onD)
    then show ?thesis by (auto simp: not_owner_def Some own)
  qed
  then show ?thesis
    using settle_members_kept [OF delete_org_kept [OF k1]] by (simp add: hard_delete_def s1_def)
qed

section \<open>Members and invitations\<close>

lemma org_membership_Some:
  "org_membership u g s = Some m \<Longrightarrow> m \<in> set (st_orgmems s) \<and> om_user m = u \<and> om_org m = g"
  unfolding org_membership_def by (drule tbl_first_Some) simp

lemma org_membership_None:
  "org_membership u g s = None \<Longrightarrow> m \<in> set (st_orgmems s) \<Longrightarrow> \<not> (om_user m = u \<and> om_org m = g)"
  unfolding org_membership_def tbl_first_None by blast

lemma join_org_kept:
  assumes k: "well_kept s" and "u \<in> user_ids s" and "g \<in> org_ids s" and r: "r \<noteq> ORG_OWNER"
  shows "well_kept (join_org u g r s)"
proof (cases "org_membership u g s")
  case None
  let ?s = "join_org u g r s"
  have o: "owners ?s = owners s" using r None by (simp add: owners_def join_org_def)
  have ids: "org_ids ?s = org_ids s" "user_ids ?s = user_ids s" by (simp_all add: join_org_def org_ids_def user_ids_def)
  have "(u, g) \<notin> (\<lambda>m. (om_user m, om_org m)) ` set (st_orgmems s)"
    using org_membership_None [OF None] by auto
  then have "ownership_ok ?s"
    using k None by (auto simp: well_kept_def ownership_ok_def o ids) (auto simp: join_org_def)
  moreover have "references_ok ?s"
    using k assms None unfolding well_kept_def references_ok_def ids by (simp add: join_org_def)
  moreover have "active_ok ?s"
    using k None unfolding well_kept_def active_ok_def ids by (simp add: join_org_def)
  ultimately show ?thesis by (simp add: well_kept_def)
next
  case (Some m)
  then show ?thesis using k by (simp add: join_org_def)
qed

lemma join_workspaces_frame:
  assumes "join_workspaces u as s = (ok, s')"
  shows "st_orgs s' = st_orgs s \<and> st_orgmems s' = st_orgmems s \<and> st_users s' = st_users s \<and>
    st_workspaces s' = st_workspaces s \<and> st_invites s' = st_invites s \<and> st_next s \<le> st_next s'"
  using assms by (induction u as s rule: join_workspaces.induct) (fastforce split: if_splits)+

lemma kept_ws_frame:
  assumes k: "well_kept s" and "st_orgs s' = st_orgs s \<and> st_orgmems s' = st_orgmems s \<and> st_users s' = st_users s \<and>
    st_workspaces s' = st_workspaces s \<and> st_invites s' = st_invites s \<and> st_next s \<le> st_next s'"
  shows "well_kept s'"
  using invites_ok [OF k] assms(2) by (intro kept_frame [OF k]) (simp_all add: org_ids_def user_ids_def)

lemma kept_invites:
  assumes k: "well_kept s" and "\<And>iv. iv_org (f iv) = iv_org iv \<and> iv_role (f iv) = iv_role iv"
  shows "well_kept (s\<lparr>st_invites := tbl_update P f (st_invites s)\<rparr>)"
proof (rule kept_frame [OF k])
  show "\<forall>iv \<in> set (st_invites (s\<lparr>st_invites := tbl_update P f (st_invites s)\<rparr>)).
      iv_org iv \<in> org_ids s \<and> iv_role iv \<noteq> ORG_OWNER"
    using invites_ok [OF k] assms(2) by (auto simp: set_tbl_update)
qed (simp_all add: org_ids_def user_ids_def)

lemma accept_invitation_kept:
  assumes k: "well_kept s" and iv: "iv \<in> set (st_invites s)" and u: "us_id u \<in> user_ids s"
  shows "well_kept (snd (accept_invitation now iv u b s))"
proof -
  define s1 where "s1 = join_org (us_id u) (iv_org iv) (iv_role iv) s"
  have k1: "well_kept s1"
    unfolding s1_def by (rule join_org_kept [OF k u]) (use invites_ok [OF k] iv in auto)
  obtain ok s2 where j: "join_workspaces (us_id u) (iv_assignments iv) s1 = (ok, s2)" by force
  have k2: "well_kept s2" by (rule kept_ws_frame [OF k1 join_workspaces_frame [OF j]])
  have k3: "well_kept (s2\<lparr>st_invites := tbl_update (\<lambda>r. iv_id r = iv_id iv)
      (\<lambda>r. r\<lparr>iv_accepted_at := Some now\<rparr>) (st_invites s2)\<rparr>)"
    by (rule kept_invites [OF k2]) simp
  show ?thesis
    using k k2 k3 by (simp add: accept_invitation_def Let_def s1_def [symmetric] j set_last_workspace_kept split: list.splits)
qed


lemma one_owner:
  assumes "well_kept s" and "g \<in> org_ids s"
  shows "owner_count g s = 1"
proof -
  have "owner_count g s = length (filter (\<lambda>m. om_org m = g) (owners s))"
    by (simp add: owner_count_def owners_def conj_commute)
  moreover have "distinct (map om_org (owners s))" "g \<in> om_org ` set (owners s)"
    using assms by (auto simp: well_kept_def ownership_ok_def)
  moreover have "distinct (map om_org xs) \<Longrightarrow> g \<in> om_org ` set xs \<Longrightarrow>
      length (filter (\<lambda>m. om_org m = g) xs) = 1" for xs :: "org_membership list"
  proof (induction xs)
    case Nil
    then show ?case by simp
  next
    case (Cons x xs)
    then show ?case by (cases "om_org x = g") (auto simp: filter_empty_conv image_iff)
  qed
  ultimately show ?thesis by simp
qed

lemma remove_member_kept:
  assumes k: "well_kept s" and x: "x \<in> set (st_orgmems s)" and g: "om_org x = g"
  shows "well_kept (snd (remove_member g x u s))"
proof (cases "om_user x = u \<or> om_role x = ORG_OWNER")
  case True
  have "owner_count g s = 1" by (rule one_owner [OF k]) (use k x g in \<open>auto simp: kept_defs\<close>)
  with True k show ?thesis by (auto simp: remove_member_def)
next
  case False
  define s1 where "s1 = s\<lparr>st_wsmems := tbl_delete (\<lambda>r. mb_user r = om_user x \<and>
      mb_workspace r \<in> set (map ws_id (filter (\<lambda>w. ws_org w = g) (st_workspaces s)))) (st_wsmems s),
      st_orgmems := tbl_delete (\<lambda>r. om_user r = om_user x \<and> om_org r = om_org x) (st_orgmems s)\<rparr>"
  have same: "m = x" if "m \<in> set (st_orgmems s)" "om_user m = om_user x" "om_org m = om_org x" for m
  proof -
    have "inj_on (\<lambda>m. (om_user m, om_org m)) (set (st_orgmems s))"
      using k by (simp add: well_kept_def ownership_ok_def distinct_map)
    from inj_onD [OF this _ that(1) x] that show ?thesis by simp
  qed
  have "owners s1 = owners s"
    unfolding owners_def s1_def tbl_delete_def using False same
    by (auto intro!: filter_cong)
  moreover have "org_ids s1 = org_ids s" "user_ids s1 = user_ids s"
    by (simp_all add: s1_def org_ids_def user_ids_def)
  moreover have "set (st_orgmems s1) \<subseteq> set (st_orgmems s)"
    "st_workspaces s1 = st_workspaces s" "st_invites s1 = st_invites s" "st_next s1 = st_next s"
    by (auto simp: s1_def tbl_delete_def)
  moreover have "distinct (map (\<lambda>m. (om_user m, om_org m)) (st_orgmems s1))"
    using k by (simp add: s1_def distinct_map_delete well_kept_def ownership_ok_def)
  ultimately have "well_kept s1" using k by (auto simp: kept_defs)
  then show ?thesis using False by (simp add: remove_member_def s1_def)
qed

lemma update_member_org_role_kept:
  assumes k: "well_kept s" and x: "x \<in> set (st_orgmems s)" and g: "om_org x = g"
  shows "well_kept (snd (update_member_org_role g x role c s))"
proof (cases "\<exists>r. org_role_of role = Some r \<and> r \<noteq> ORG_OWNER \<and> om_role x \<noteq> ORG_OWNER")
  case False
  have one: "owner_count g s = 1" by (rule one_owner [OF k]) (use k x g in \<open>auto simp: kept_defs\<close>)
  have "snd (update_member_org_role g x role c s) = s"
    using False one by (auto simp: update_member_org_role_def split: option.splits)
  with k show ?thesis by simp
next
  case True
  then obtain r where r: "org_role_of role = Some r" "r \<noteq> ORG_OWNER" "om_role x \<noteq> ORG_OWNER" by auto
  define s1 where "s1 = s\<lparr>st_orgmems := tbl_update (\<lambda>y. om_user y = om_user x \<and> om_org y = om_org x)
                    (\<lambda>y. y\<lparr>om_role := r\<rparr>) (st_orgmems s)\<rparr>"
  have same: "m = x" if "m \<in> set (st_orgmems s)" "om_user m = om_user x" "om_org m = om_org x" for m
  proof -
    have "inj_on (\<lambda>m. (om_user m, om_org m)) (set (st_orgmems s))"
      using k by (simp add: well_kept_def ownership_ok_def distinct_map)
    from inj_onD [OF this _ that(1) x] that show ?thesis by simp
  qed
  have keep: "filter (\<lambda>m. om_role m = ORG_OWNER) (tbl_update P (\<lambda>y. y\<lparr>om_role := r\<rparr>) ms)
      = filter (\<lambda>m. om_role m = ORG_OWNER) ms"
    if "\<forall>m \<in> set ms. P m \<longrightarrow> om_role m \<noteq> ORG_OWNER" for P ms
    using that r(2) by (induction ms) auto
  have "owners s1 = owners s"
  proof -
    have "\<forall>m \<in> set (st_orgmems s). om_user m = om_user x \<and> om_org m = om_org x \<longrightarrow> om_role m \<noteq> ORG_OWNER"
      using same r(3) by blast
    then show ?thesis unfolding owners_def s1_def by (simp add: keep)
  qed
  moreover have "org_ids s1 = org_ids s" "user_ids s1 = user_ids s"
    by (simp_all add: s1_def org_ids_def user_ids_def)
  moreover have "\<forall>m \<in> set (st_orgmems s1). om_org m \<in> org_ids s \<and> om_user m \<in> user_ids s"
    using k by (auto simp: s1_def set_tbl_update kept_defs)
  moreover have "st_workspaces s1 = st_workspaces s" "st_invites s1 = st_invites s" "st_next s1 = st_next s"
    by (auto simp: s1_def)
  moreover have "map (\<lambda>m. (om_user m, om_org m)) (st_orgmems s1) = map (\<lambda>m. (om_user m, om_org m)) (st_orgmems s)"
    by (simp add: s1_def map_tbl_update)
  ultimately have "well_kept s1" using k by (simp add: kept_defs)
  then show ?thesis
    using k by (simp add: update_member_org_role_def s1_def r(1) del: org_role_of.simps split: option.splits)
qed

lemma apply_desired_frame:
  "st_orgs (apply_desired u ds s) = st_orgs s \<and> st_orgmems (apply_desired u ds s) = st_orgmems s \<and>
   st_users (apply_desired u ds s) = st_users s \<and> st_workspaces (apply_desired u ds s) = st_workspaces s \<and>
   st_invites (apply_desired u ds s) = st_invites s \<and> st_next s \<le> st_next (apply_desired u ds s)"
  by (induction u ds s rule: apply_desired.induct) (fastforce split: option.splits)+

lemma update_workspace_assignments_kept:
  assumes k: "well_kept s"
  shows "well_kept (snd (update_workspace_assignments g u as i s))"
proof -
  have "well_kept (apply_desired u ds (s\<lparr>st_wsmems := x\<rparr>))" for ds x
    by (rule kept_ws_frame [OF k]) (use apply_desired_frame [of u ds "s\<lparr>st_wsmems := x\<rparr>"] in simp)
  with k show ?thesis
    by (simp add: update_workspace_assignments_def Let_def split: sum.splits option.splits)
qed

lemma kept_mail: "well_kept s \<Longrightarrow> well_kept (s\<lparr>st_mail := x\<rparr>)"
  by (rule kept_ws_frame [of s]) simp_all

lemma kept_next: "well_kept s \<Longrightarrow> well_kept (s\<lparr>st_next := Suc (st_next s)\<rparr>)"
  by (rule kept_ws_frame [of s]) simp_all

lemma send_invite_email_kept:
  assumes k: "well_kept s"
  shows "well_kept (snd (send_invite_email env now iv s))"
proof -
  have r: "well_kept s1" if "reserve_invite_send env now iv s = Some s1" for s1
    using that kept_invites [OF k] by (auto simp: reserve_invite_send_def Let_def split: if_splits)
  have "well_kept (release_invite_send iv (s1\<lparr>st_mail := x\<rparr>))" if "well_kept s1" for s1 x
    unfolding release_invite_send_def by (rule kept_invites [OF kept_mail [OF that]]) simp
  with r k show ?thesis
    by (auto simp: send_invite_email_def kept_mail split: option.splits prod.splits delivery.splits)
qed

lemma check_budget_kept:
  "well_kept s \<Longrightarrow> well_kept (snd (check_org_invite_budget env now g s))"
  by (simp add: check_org_invite_budget_def kept_mail split: prod.splits)

lemma check_budget_frame:
  assumes "check_org_invite_budget env now g s = (ok, s1)"
  shows "st_invites s1 = st_invites s \<and> org_ids s1 = org_ids s"
  using assms by (auto simp: check_org_invite_budget_def org_ids_def split: prod.splits)

lemma create_invitation_kept:
  assumes k: "well_kept s" and g: "g \<in> org_ids s"
  shows "well_kept (snd (create_invitation env now g e role as u i s))"
proof (cases "check_invitation env now g (py_lower (py_strip e)) role as (case i of Some u \<Rightarrow> u | None \<Rightarrow> u) s")
  case (Inl x)
  then show ?thesis using k by (simp add: create_invitation_def)
next
  case (Inr ra)
  obtain r ws where ra: "ra = (r, ws)" by (cases ra)
  have role: "r \<noteq> ORG_OWNER"
    using Inr by (auto simp: ra check_invitation_def split: if_splits option.splits sum.splits)
  obtain ok s1 where c: "check_org_invite_budget env now g s = (ok, s1)" by force
  have k1: "well_kept s1" using check_budget_kept [OF k, of env now g] by (simp add: c)
  have fr: "st_invites s1 = st_invites s \<and> org_ids s1 = org_ids s" by (rule check_budget_frame [OF c])
  have k2: "well_kept (s1\<lparr>st_invites := st_invites s1 @ [iv], st_next := Suc (st_next s1)\<rparr>)"
    if "iv_org iv = g" "iv_role iv = r" for iv
  proof (rule kept_frame [OF k1])
    show "\<forall>v \<in> set (st_invites (s1\<lparr>st_invites := st_invites s1 @ [iv], st_next := Suc (st_next s1)\<rparr>)).
        iv_org v \<in> org_ids s1 \<and> iv_role v \<noteq> ORG_OWNER"
      using invites_ok [OF k1] that role g fr by auto
  qed (simp_all add: org_ids_def user_ids_def)
  show ?thesis
    using k1 by (auto simp: create_invitation_def Inr ra c Let_def intro!: send_invite_email_kept k2)
qed

lemma resend_invitation_kept:
  assumes k: "well_kept s"
  shows "well_kept (snd (resend_invitation env now iv s))"
proof -
  obtain ok s1 where c: "check_org_invite_budget env now (iv_org iv) s = (ok, s1)" by force
  have k1: "well_kept s1" using check_budget_kept [OF k, of env now "iv_org iv"] by (simp add: c)
  have "well_kept (s1\<lparr>st_invites := tbl_update (\<lambda>r. iv_id r = iv_id iv)
          (\<lambda>r. r\<lparr>iv_token := st_next s1, iv_expires_at := now + days INVITE_EXPIRY_DAYS\<rparr>) (st_invites s1),
          st_next := Suc (st_next s1)\<rparr>)"
    using kept_next [OF kept_invites [OF k1, of "\<lambda>r. r\<lparr>iv_token := st_next s1, iv_expires_at := now + days INVITE_EXPIRY_DAYS\<rparr>"
        "\<lambda>r. iv_id r = iv_id iv"]] by simp
  from send_invite_email_kept [OF this, of env now iv] k k1 show ?thesis
    by (simp add: resend_invitation_def c Let_def split_beta)
qed

lemma revoke_invitation_kept: "well_kept s \<Longrightarrow> well_kept (snd (revoke_invitation now iv s))"
  by (simp add: revoke_invitation_def kept_invites)


section \<open>Signing up and workspaces\<close>

lemma add_user_kept:
  assumes k: "well_kept s" and r: "us_id r = st_next s"
  shows "well_kept (s\<lparr>st_users := st_users s @ [r], st_next := Suc (st_next s)\<rparr>)"
proof -
  let ?s = "s\<lparr>st_users := st_users s @ [r], st_next := Suc (st_next s)\<rparr>"
  have ids: "org_ids ?s = org_ids s" "user_ids ?s = insert (st_next s) (user_ids s)" "owners ?s = owners s"
    using r by (simp_all add: org_ids_def user_ids_def owners_def)
  have "\<forall>i \<in> org_ids s \<union> user_ids s \<union> ws_id ` set (st_workspaces s). i < Suc (st_next s)"
    using k unfolding kept_defs by (meson less_SucI)
  then show ?thesis using k unfolding kept_defs ids by simp
qed

lemma drop_one_default_org:
  assumes m: "om_org m = g" and n: "tbl_get og_id g (st_orgs s) = Some o'" "og_name o' = DEFAULT_ORG"
    and only: "\<And>x. x \<in> set (st_orgmems s) \<Longrightarrow> om_org x = g \<Longrightarrow> om_user x = om_user m"
  shows "drop_default_orgs [m] s = delete_org g s"
proof -
  have twice: "tbl_delete (\<lambda>x. om_org x = g) (tbl_delete (\<lambda>x. om_user x = v \<and> om_org x = g) t) =
      tbl_delete (\<lambda>x. om_org x = g) t" for v t
    by (induction t) (auto simp: tbl_delete_def)
  have none: "\<not> (\<exists>x \<in> set (tbl_delete (\<lambda>x. om_user x = om_user m \<and> om_org x = g) (st_orgmems s)). om_org x = g)"
    using only by (auto simp: tbl_delete_def)
  show ?thesis
    using none by (simp add: m n Let_def) (simp add: delete_org_def twice org_workspaces_def)
qed

lemma tbl_get_append: "tbl_get k i (t @ [r]) = (case tbl_get k i t of Some x \<Rightarrow> Some x | None \<Rightarrow> if k r = i then Some r else None)"
  by (induction t) (auto simp: tbl_get_def)

lemma signed_up:
  assumes k: "well_kept s" and c: "create_user email s = Some (u, s1)"
  shows "u = st_next s \<and> well_kept s1 \<and> st_orgmems s1 = st_orgmems s @ [\<lparr>om_user = u, om_org = Suc u, om_role = ORG_OWNER\<rparr>] \<and>
    st_orgs s1 = st_orgs s @ [new_org (Suc u)] \<and> st_invites s1 = st_invites s \<and> u \<in> user_ids s1"
proof -
  define s0 where "s0 = s\<lparr>st_users := st_users s @ [\<lparr>us_id = st_next s, us_name = [], us_email = email, au_last_workspace = None\<rparr>],
      st_next := Suc (st_next s)\<rparr>"
  have u: "u = st_next s" and s1: "s1 = provision u s0"
    using c by (auto simp: create_user_def s0_def Let_def split: if_splits)
  have k0: "well_kept s0" unfolding s0_def by (rule add_user_kept [OF k]) simp
  have in0: "u \<in> user_ids s0" by (simp add: s0_def user_ids_def u)
  have "om_user m \<noteq> u" if "m \<in> set (st_orgmems s)" for m
    using k that unfolding kept_defs u by (metis UnCI less_irrefl)
  then have no: "\<not> (\<exists>m \<in> set (st_orgmems s0). om_user m = u)" by (simp add: s0_def)
  have p: "st_orgmems s1 = st_orgmems s0 @ [\<lparr>om_user = u, om_org = st_next s0, om_role = ORG_OWNER\<rparr>] \<and>
    st_orgs s1 = st_orgs s0 @ [new_org (st_next s0)] \<and> st_invites s1 = st_invites s0 \<and> user_ids s1 = user_ids s0"
    using no by (simp add: s1 provision_def Let_def set_last_workspace_def user_ids_def update_ids)
  show ?thesis
    using p in0 provision_kept [OF k0 in0] by (simp add: s1 u) (simp add: s0_def)
qed

lemma accept_orgmems:
  assumes "accept_invitation now iv u b s = (x, s')" and "x \<noteq> Inl EXPIRED" and "x \<noteq> Inl ALREADY_ACCEPTED"
    and "x \<noteq> Inl OTHER_EMAIL"
  shows "st_orgmems s' = st_orgmems (join_org (us_id u) (iv_org iv) (iv_role iv) s) \<and>
    st_orgs s' = st_orgs s \<and> user_ids s' = user_ids s"
proof -
  define s1 where "s1 = join_org (us_id u) (iv_org iv) (iv_role iv) s"
  obtain ok s2 where j: "join_workspaces (us_id u) (iv_assignments iv) s1 = (ok, s2)" by force
  have f: "st_orgs s2 = st_orgs s \<and> st_orgmems s2 = st_orgmems s1 \<and> user_ids s2 = user_ids s"
    using join_workspaces_frame [OF j] by (simp add: s1_def join_org_def user_ids_def)
  have "s' = s2 \<or> (\<exists>i. s' = s2\<lparr>st_invites := i\<rparr>) \<or> (\<exists>i w. s' = set_last_workspace (us_id u) w (s2\<lparr>st_invites := i\<rparr>))"
    using assms by (auto simp: accept_invitation_def Let_def s1_def [symmetric] j split: if_splits list.splits)
  then show ?thesis
    using f by (elim disjE exE) (simp_all add: s1_def user_ids_def set_last_workspace_def update_ids)
qed

lemma join_on_signup_kept:
  assumes k: "well_kept s" and c: "create_user email s = Some (u, s1)" and r: "us_id r = u"
  shows "well_kept (snd (join_on_signup now token r s1))"
proof -
  note b = signed_up [OF k c]
  have k1: "well_kept s1" and in1: "u \<in> user_ids s1" using b by blast+
  have prov: "well_kept (provision u s1)" by (rule provision_kept [OF k1 in1])
  define hit where "hit = (case token of None \<Rightarrow> None
           | Some t \<Rightarrow> tbl_first (\<lambda>iv. iv_token iv = t \<and> iv_accepted_at iv = None) (st_invites s1))"
  show ?thesis
  proof (cases hit)
    case None
    then show ?thesis using prov r by (simp add: join_on_signup_def hit_def)
  next
    case (Some iv)
    then have iv: "iv \<in> set (st_invites s1)" "iv_accepted_at iv = None"
      by (auto simp: hit_def dest: tbl_first_Some split: option.splits)
    show ?thesis
    proof (cases "iv_expires_at iv < now")
      case True
      then show ?thesis using prov r Some by (simp add: join_on_signup_def hit_def)
    next
      case False
      obtain x s2 where a: "accept_invitation now iv r False s1 = (x, s2)" by force
      have k2: "well_kept s2"
        using accept_invitation_kept [OF k1 iv(1), of r now False] in1 by (simp add: a r)
      have x: "x = Inl INTEGRITY \<or> x = Inr ()"
        using a False iv(2) by (auto simp: accept_invitation_def Let_def split: if_splits prod.splits list.splits)
      then have o: "st_orgmems s2 = st_orgmems (join_org u (iv_org iv) (iv_role iv) s1) \<and> st_orgs s2 = st_orgs s1 \<and> user_ids s2 = user_ids s1"
        using accept_orgmems [OF a] r by auto
      have small: "i < u" if "i \<in> org_ids s \<union> user_ids s" for i
        using k b that unfolding kept_defs by (metis UnCI)
      have org: "iv_org iv \<in> org_ids s" using invites_ok [OF k] iv(1) b by simp
      then have ne: "iv_org iv \<noteq> Suc u" using small [of "iv_org iv"] by simp
      have old: "om_user m \<noteq> u \<and> om_org m \<noteq> Suc u" if "m \<in> set (st_orgmems s)" for m
      proof -
        have "om_org m \<in> org_ids s" "om_user m \<in> user_ids s" using k that by (simp_all add: kept_defs)
        then show ?thesis using small [of "om_org m"] small [of "om_user m"] by auto
      qed
      have nj: "org_membership u (iv_org iv) s1 = None"
        using old ne b by (auto simp: org_membership_def tbl_first_None)
      let ?m = "\<lparr>om_user = u, om_org = Suc u, om_role = ORG_OWNER\<rparr>"
      have ms: "st_orgmems s2 = st_orgmems s @ [?m, \<lparr>om_user = u, om_org = iv_org iv, om_role = iv_role iv\<rparr>]"
        using o b nj by (simp add: join_org_def)
      have f: "filter (\<lambda>m. om_user m = u \<and> om_org m \<noteq> iv_org iv) (st_orgmems s2) = [?m]"
        using old ne by (simp add: ms)
      have "tbl_get og_id (Suc u) (st_orgs s) = None"
        using small [of "Suc u"] by (auto simp: tbl_get_None org_ids_def)
      then have g: "tbl_get og_id (Suc u) (st_orgs s2) = Some (new_org (Suc u))"
        using o b by (simp add: tbl_get_append new_org_def)
      have "drop_default_orgs [?m] s2 = delete_org (Suc u) s2"
        by (rule drop_one_default_org [OF _ g]) (use old ne in \<open>auto simp: ms new_org_def\<close>)
      then have d: "well_kept (drop_default_orgs [?m] s2)" using delete_org_kept [OF k2] by simp
      show ?thesis
      proof (cases "x = Inr ()")
        case True
        then show ?thesis using Some False d f by (simp add: join_on_signup_def hit_def [symmetric] a r)
      next
        case no: False
        then show ?thesis using x Some False k2 by (simp add: join_on_signup_def hit_def [symmetric] a)
      qed
    qed
  qed
qed

lemma sign_up_kept:
  assumes k: "well_kept s"
  shows "well_kept (sign_up now email token s)"
proof (cases "create_user email s")
  case None
  then show ?thesis using k by (simp add: sign_up_def)
next
  case (Some us)
  obtain u s1 where us: "us = (u, s1)" by (cases us)
  have c: "create_user email s = Some (u, s1)" using Some us by simp
  have k1: "well_kept s1" using signed_up [OF k c] by simp
  show ?thesis
  proof (cases "tbl_get us_id u (st_users s1)")
    case None
    then show ?thesis using c k1 by (simp add: sign_up_def)
  next
    case (Some r)
    then have "us_id r = u" using tbl_get_Some by fastforce
    from join_on_signup_kept [OF k c this] show ?thesis by (simp add: sign_up_def c Some)
  qed
qed


lemma workspace_create_kept:
  assumes k: "well_kept s" and g: "g \<in> org_ids s"
  shows "well_kept (workspace_create u g name s)"
proof (cases "py_strip name = []")
  case True
  then show ?thesis using k by (simp add: workspace_create_def)
next
  case False
  define w where "w = st_next s"
  define s1 where "s1 = s\<lparr>st_workspaces := st_workspaces s @ [new_workspace w g (py_strip name)],
            st_wsmems := st_wsmems s @ [\<lparr>mb_id = Suc w, mb_user = u, mb_workspace = w, mb_role = WS_OWNER, mb_custom = None\<rparr>],
            st_next := Suc (Suc w)\<rparr>"
  have "\<forall>i \<in> org_ids s \<union> user_ids s \<union> ws_id ` set (st_workspaces s). i < w"
    using k by (simp add: kept_defs w_def)
  then have more: "\<forall>i \<in> org_ids s \<union> user_ids s \<union> ws_id ` set (st_workspaces s). i < Suc (Suc w)"
    and new: "w \<notin> ws_id ` set (st_workspaces s)"
    by (meson less_SucI, auto)
  have ids: "org_ids s1 = org_ids s" "user_ids s1 = user_ids s" "owners s1 = owners s"
    by (simp_all add: s1_def org_ids_def user_ids_def owners_def)
  have "well_kept s1"
    using k more new g unfolding kept_defs ids by (simp add: s1_def new_workspace_def)
  then show ?thesis
    using False by (simp add: workspace_create_def Let_def s1_def w_def set_last_workspace_kept)
qed

definition other_active :: "nat \<Rightarrow> site \<Rightarrow> bool" where
  "other_active k s \<longleftrightarrow>
    (\<forall>g \<in> org_ids s. \<exists>w \<in> set (st_workspaces s). ws_org w = g \<and> \<not> tw_archived w \<and> ws_id w \<noteq> k)"

lemma two_distinct:
  "distinct (map f xs) \<Longrightarrow> 1 < length (filter P xs) \<Longrightarrow> \<exists>x \<in> set xs. P x \<and> f x \<noteq> k"
proof (induction xs)
  case Nil
  then show ?case by simp
next
  case (Cons x xs)
  show ?case
  proof (cases "P x \<and> f x = k")
    case True
    then have "filter P xs \<noteq> []" using Cons.prems(2) by auto
    then obtain y where "y \<in> set xs" "P y" by (auto simp: filter_empty_conv)
    moreover from this have "f y \<noteq> k" using True Cons.prems(1) by auto (metis image_eqI)
    ultimately show ?thesis by auto
  next
    case False
    with Cons show ?thesis by (auto split: if_splits)
  qed
qed

lemma other_active_left:
  assumes k: "well_kept s" and r: "tbl_get ws_id w (st_workspaces s) = Some r"
    and c: "1 < active_count (ws_org r) s \<or> tw_archived r"
  shows "other_active w s"
  unfolding other_active_def
proof
  fix g
  assume g: "g \<in> org_ids s"
  have d: "distinct (map ws_id (st_workspaces s))" using k by (simp add: kept_defs)
  obtain x where x: "x \<in> set (st_workspaces s)" "ws_org x = g" "\<not> tw_archived x"
    using k g unfolding kept_defs by blast
  have r': "r \<in> set (st_workspaces s)" "ws_id r = w" using tbl_get_Some [OF r] by auto
  show "\<exists>x \<in> set (st_workspaces s). ws_org x = g \<and> \<not> tw_archived x \<and> ws_id x \<noteq> w"
  proof (cases "ws_id x = w")
    case False
    with x show ?thesis by blast
  next
    case True
    then have "x = r" using d x(1) r' by (metis distinct_map inj_onD)
    with x c have "1 < active_count g s" by auto
    then show ?thesis
      using two_distinct [OF d, of "\<lambda>w. ws_org w = g \<and> \<not> tw_archived w" w]
      by (auto simp: active_count_def)
  qed
qed

lemma set_archived_kept:
  assumes k: "well_kept s" and b: "b \<Longrightarrow> other_active w s"
  shows "well_kept (set_archived w b s)"
proof -
  let ?s = "set_archived w b s"
  have ids: "org_ids ?s = org_ids s" "user_ids ?s = user_ids s" "owners ?s = owners s" "st_orgmems ?s = st_orgmems s"
      "st_invites ?s = st_invites s" "st_next ?s = st_next s"
    by (simp_all add: set_archived_def org_ids_def user_ids_def owners_def)
  have ws: "ws_id ` set (st_workspaces ?s) = ws_id ` set (st_workspaces s)"
    "map ws_id (st_workspaces ?s) = map ws_id (st_workspaces s)"
    by (simp_all add: set_archived_def update_ids map_tbl_update)
  have "\<forall>x \<in> set (st_workspaces ?s). ws_org x \<in> org_ids s"
    using k by (auto simp: set_archived_def set_tbl_update kept_defs)
  moreover have "\<exists>x \<in> set (st_workspaces ?s). ws_org x = g \<and> \<not> tw_archived x" if g: "g \<in> org_ids s" for g
  proof -
    obtain x where x: "x \<in> set (st_workspaces s)" "ws_org x = g" "\<not> tw_archived x" "b \<longrightarrow> ws_id x \<noteq> w"
      using k b g unfolding kept_defs other_active_def by (cases b) blast+
    let ?x = "if ws_id x = w then x\<lparr>tw_archived := b\<rparr> else x"
    have "?x \<in> set (st_workspaces ?s)" using x(1) by (simp add: set_archived_def set_tbl_update)
    moreover have "ws_org ?x = g \<and> \<not> tw_archived ?x" using x by auto
    ultimately show ?thesis by blast
  qed
  ultimately show ?thesis using k unfolding kept_defs ids ws by simp
qed

lemma delete_workspace_kept:
  assumes k: "well_kept s" and o: "other_active w s"
  shows "well_kept (delete_workspace w s)"
proof -
  let ?s = "delete_workspace w s"
  have ids: "org_ids ?s = org_ids s" "user_ids ?s = user_ids s" "owners ?s = owners s" "st_orgmems ?s = st_orgmems s"
      "st_invites ?s = st_invites s" "st_next ?s = st_next s"
    by (simp_all add: delete_workspace_def org_ids_def user_ids_def owners_def)
  have sub: "st_workspaces ?s = filter (\<lambda>x. ws_id x \<noteq> w) (st_workspaces s)"
    by (simp add: delete_workspace_def tbl_delete_def)
  show ?thesis
    using k o unfolding kept_defs ids sub other_active_def by (auto simp: distinct_map_filter)
qed

lemma workspace_settings_kept:
  assumes k: "well_kept s"
  shows "well_kept (workspace_settings u w action s)"
proof (cases "tbl_get ws_id w (st_workspaces s)")
  case None
  then show ?thesis using k by (simp add: workspace_settings_def)
next
  case (Some r)
  have "well_kept (set_archived w True s)" if "\<not> active_count (ws_org r) s \<le> 1"
    using set_archived_kept [OF k, of True w] other_active_left [OF k Some] that by simp
  moreover have "well_kept (set_archived w False s)" using set_archived_kept [OF k, of False w] by simp
  moreover have "well_kept (delete_workspace w s)" if "\<not> (active_count (ws_org r) s \<le> 1 \<and> \<not> tw_archived r)"
    using delete_workspace_kept [OF k other_active_left [OF k Some]] that by linarith
  ultimately show ?thesis
    using k by (simp add: workspace_settings_def Some Let_def split: option.splits)
qed

lemma set_deletion_kept:
  assumes k: "well_kept s"
  shows "well_kept (set_deletion g a b s)"
  by (rule kept_frame [OF k])
    (simp_all add: set_deletion_def org_ids_def user_ids_def update_ids invites_ok [OF k, unfolded org_ids_def])

section \<open>Every view\<close>

lemma as_org_role_Some:
  assumes "as_org_role r u s = Some m"
  shows "m \<in> set (st_orgmems s) \<and> om_user m = u \<and> org_level r \<le> org_level (om_role m)"
  using assms unfolding as_org_role_def first_membership_def require_org_role_def
  by (auto dest!: tbl_first_Some split: option.splits if_splits)

lemma member_org: "well_kept s \<Longrightarrow> m \<in> set (st_orgmems s) \<Longrightarrow> om_org m \<in> org_ids s"
  by (simp add: kept_defs)

lemma client_org_in:
  assumes "well_kept s" and "client_org u w s = Some g"
  shows "g \<in> org_ids s"
  using assms unfolding client_org_def first_membership_def
  by (auto dest!: org_membership_Some tbl_first_Some dest: member_org [OF assms(1)] split: option.splits)

lemmas view_defs = invite_member_def org_invite_def resend_invite_def revoke_invite_def member_of_org_def
  update_member_role_def remove_member_view_def manage_workspaces_def workspace_create_view_def
  handle_org_deletion_def handle_cancel_deletion_def

theorem site_step_kept:
  assumes k: "well_kept s"
  shows "well_kept (site_step env s e)"
proof (cases e)
  case (InviteClient now u w email)
  show ?thesis
    using k client_org_in [OF k]
    by (auto simp: InviteClient invite_client_def create_invitation_kept split: option.splits)
next
  case (AcceptInvite now u token)
  show ?thesis
    using k by (auto simp: AcceptInvite accept_invite_def user_ids_def
      intro!: accept_invitation_kept dest!: tbl_get_Some split: option.splits)
next
  case (DeleteAccount u)
  have "u \<notin> om_user ` set (owners s)" if "sole_owner_orgs u s = []"
  proof
    assume "u \<in> om_user ` set (owners s)"
    then obtain m where m: "m \<in> set (owners s)" "om_user m = u" by auto
    have "inj_on om_org (set (owners s))" using k by (simp add: kept_defs distinct_map)
    then have "x = m" if "x \<in> set (owners s)" "om_org x = om_org m" for x
      using that m(1) by (meson inj_onD)
    then have "om_org m \<in> set (sole_owner_orgs u s)"
      using m by (auto simp: sole_owner_orgs_def owners_def)
    with that show False by simp
  qed
  then show ?thesis using k by (simp add: DeleteAccount handle_account_deletion_def delete_user_kept)
next
  case (DeleteOrgNow u)
  have "om_role m = ORG_OWNER" if "org_level ORG_OWNER \<le> org_level (om_role m)" for m :: org_membership
    using that by (cases "om_role m") auto
  then have "m \<in> set (owners s) \<and> om_user m = u" if "as_org_role ORG_OWNER u s = Some m" for m
    using as_org_role_Some [OF that] by (auto simp: owners_def)
  then show ?thesis
    using k by (auto simp: DeleteOrgNow handle_immediate_org_deletion_def intro!: hard_delete_kept split: option.splits)
next
  case (PurgeOrg now g)
  then show ?thesis
    using k by (auto simp: execute_scheduled_org_deletion_def intro!: hard_delete_kept split: option.splits)
qed (use k in \<open>auto simp: sign_up_kept create_invitation_kept resend_invitation_kept revoke_invitation_kept
    update_member_org_role_kept remove_member_kept update_workspace_assignments_kept workspace_create_kept
    workspace_settings_kept set_deletion_kept member_org view_defs
    dest!: as_org_role_Some org_membership_Some split: option.splits\<close>)

interpretation site: machine "site_step env" well_kept for env
  by unfold_locales (rule site_step_kept)

lemma new_site_kept: "well_kept new_site"
  by (simp add: kept_defs new_site_def owners_def org_ids_def user_ids_def)

lemma site_run_kept: "well_kept (site_run env ops)"
  unfolding site_run_def by (rule site.run_inv [OF new_site_kept])

end
