(* ===== verification/Site_Safety.thy ===== *)
theory Site_Safety
  imports Site_Invariant
begin

text \<open>
  What the team operations guarantee: who owns an organisation, whose authority a change of roles is
  bounded by, what an invitation costs and what it can give, and where the code falls short of it.
\<close>

section \<open>Ownership\<close>

text \<open>
  C27. Whatever the users of an installation do, every organisation has exactly one owner and at least
  one workspace that is not archived, and nobody owns two organisations.
\<close>

theorem every_org_keeps_its_owner:
  assumes "s = site_run env ops" and "g \<in> org_ids s"
  shows "owner_count g s = 1 \<and> 1 \<le> active_count g s \<and>
    (\<forall>m \<in> set (owners s). \<forall>m' \<in> set (owners s). om_user m = om_user m' \<longrightarrow> m = m')"
proof -
  have k: "well_kept s" by (simp add: assms(1) site_run_kept)
  obtain w where "w \<in> set (st_workspaces s)" "ws_org w = g" "\<not> tw_archived w"
    using k assms(2) unfolding kept_defs by blast
  then have "filter (\<lambda>w. ws_org w = g \<and> \<not> tw_archived w) (st_workspaces s) \<noteq> []"
    by (auto simp: filter_empty_conv)
  then have "1 \<le> active_count g s" by (simp add: active_count_def Suc_le_eq)
  moreover have "inj_on om_user (set (owners s))" using k by (simp add: kept_defs distinct_map)
  ultimately show ?thesis using one_owner [OF k assms(2)] by (auto dest: inj_onD)
qed

text \<open>A site with an owner, an invited member and the members' organisation.\<close>

definition quiet_env :: mail_env where
  "quiet_env = \<lparr>me_cfg = [], me_sha = (\<lambda>s. s), me_inner = (\<lambda>ms. Some (length ms)),
     me_fails = (\<lambda>_. False), me_lookup_fails = False\<rparr>"

definition joined_ops :: "site_op list" where
  "joined_ops =
    [SignUp 1000 ''ann@x'' None,
     InviteMember 2000 0 ''bob@x'' ''admin'' [(2, Some ''editor'')],
     SignUp 3000 ''bob@x'' (Some 4)]"

theorem every_org_keeps_its_owner_witness:
  "org_ids (site_run quiet_env joined_ops) = {1} \<and> owner_count 1 (site_run quiet_env joined_ops) = 1 \<and>
   length (st_orgmems (site_run quiet_env joined_ops)) = 2"
proof -
  have o: "map og_id (st_orgs (site_run quiet_env joined_ops)) = [1]" by code_simp
  then have i: "org_ids (site_run quiet_env joined_ops) = {1}"
    unfolding org_ids_def by (metis list.set_map set_simps(1) set_simps(2))
  have "owner_count 1 (site_run quiet_env joined_ops) = 1"
    using every_org_keeps_its_owner [OF refl, of 1 quiet_env joined_ops] i by simp
  moreover have "length (st_orgmems (site_run quiet_env joined_ops)) = 2" by code_simp
  ultimately show ?thesis using i by simp
qed

text \<open>
  The owner of an organisation can neither be removed, nor given another role, nor delete the
  account: the refusals ask for a transfer of ownership, which no operation provides.
\<close>

theorem the_owner_cannot_leave:
  assumes "s = site_run env ops" and "m \<in> set (st_orgmems s)" and "om_role m = ORG_OWNER"
  shows "fst (remove_member (om_org m) m c s) \<noteq> Inr () \<and>
    fst (update_member_org_role (om_org m) m role (Some c) s) \<noteq> Inr () \<and>
    handle_account_deletion (om_user m) s = (False, s)"
proof -
  have k: "well_kept s" by (simp add: assms(1) site_run_kept)
  have one: "owner_count (om_org m) s = 1" by (rule one_owner [OF k member_org [OF k assms(2)]])
  have own: "m \<in> set (owners s)" using assms(2,3) by (simp add: owners_def)
  have "inj_on om_org (set (owners s))" using k by (simp add: kept_defs distinct_map)
  then have "x = m" if "x \<in> set (owners s)" "om_org x = om_org m" for x
    using that own by (meson inj_onD)
  then have "om_org m \<in> set (sole_owner_orgs (om_user m) s)"
    using assms(2,3) by (auto simp: sole_owner_orgs_def owners_def)
  then have "handle_account_deletion (om_user m) s = (False, s)"
    by (auto simp: handle_account_deletion_def)
  moreover have "fst (update_member_org_role (om_org m) m role (Some c) s) \<noteq> Inr ()"
    using assms(3) one by (simp add: update_member_org_role_def split: option.splits)
  ultimately show ?thesis using assms(3) one by (simp add: remove_member_def)
qed

theorem the_owner_cannot_leave_witness:
  "st_orgmems (site_run quiet_env joined_ops) =
     [\<lparr>om_user = 0, om_org = 1, om_role = ORG_OWNER\<rparr>, \<lparr>om_user = 5, om_org = 1, om_role = ORG_ADMIN\<rparr>] \<and>
   fst (remove_member 1 \<lparr>om_user = 0, om_org = 1, om_role = ORG_OWNER\<rparr> 5 (site_run quiet_env joined_ops)) \<noteq> Inr () \<and>
   \<not> fst (handle_account_deletion 0 (site_run quiet_env joined_ops))"
proof -
  have m: "st_orgmems (site_run quiet_env joined_ops) =
     [\<lparr>om_user = 0, om_org = 1, om_role = ORG_OWNER\<rparr>, \<lparr>om_user = 5, om_org = 1, om_role = ORG_ADMIN\<rparr>]"
    by code_simp
  show ?thesis
    using the_owner_cannot_leave [OF refl, of "\<lparr>om_user = 0, om_org = 1, om_role = ORG_OWNER\<rparr>" quiet_env joined_ops 5]
    by (simp add: m)
qed


section \<open>Authority\<close>

definition grants :: "site \<Rightarrow> (nat \<times> nat \<times> workspace_role) set" where
  \<comment> \<open>who has which role where\<close>
  "grants s = (\<lambda>m. (mb_user m, mb_workspace m, mb_role m)) ` set (st_wsmems s)"

lemma grants_list: "grants s = set (map (\<lambda>m. (mb_user m, mb_workspace m, mb_role m)) (st_wsmems s))"
  by (simp add: grants_def)

lemma ws_membership_of_None:
  "ws_membership_of u w s = None \<longleftrightarrow> (\<forall>m \<in> set (st_wsmems s). \<not> (mb_user m = u \<and> mb_workspace m = w))"
  by (simp add: ws_membership_of_def tbl_first_None)

lemma ws_membership_of_Some:
  "ws_membership_of u w s = Some m \<Longrightarrow> m \<in> set (st_wsmems s) \<and> mb_user m = u \<and> mb_workspace m = w"
  unfolding ws_membership_of_def by (drule tbl_first_Some) simp

lemma grants_set_role:
  assumes "ws_membership_of u w s = Some m"
  shows "grants (s\<lparr>st_wsmems := tbl_update (\<lambda>r. mb_user r = u \<and> mb_workspace r = w) (\<lambda>r. r\<lparr>mb_role := role\<rparr>) (st_wsmems s)\<rparr>)
    = {(v, x, r) \<in> grants s. \<not> (v = u \<and> x = w)} \<union> {(u, w, role)}"
proof -
  let ?t = "tbl_update (\<lambda>r. mb_user r = u \<and> mb_workspace r = w) (\<lambda>r. r\<lparr>mb_role := role\<rparr>) (st_wsmems s)"
  have m: "m \<in> set (st_wsmems s)" "mb_user m = u" "mb_workspace m = w"
    using ws_membership_of_Some [OF assms] by auto
  then have "m\<lparr>mb_role := role\<rparr> \<in> set ?t" by (auto simp: set_tbl_update intro!: image_eqI [where x = m])
  define A where "A = (\<lambda>m. (mb_user m, mb_workspace m, mb_role m)) ` set ?t"
  have A: "A = (\<lambda>m. if mb_user m = u \<and> mb_workspace m = w then (u, w, role)
      else (mb_user m, mb_workspace m, mb_role m)) ` set (st_wsmems s)"
    unfolding A_def set_tbl_update image_image by (rule image_cong) auto
  have new: "(u, w, role) \<in> A"
    unfolding A_def using \<open>m\<lparr>mb_role := role\<rparr> \<in> set ?t\<close> by (rule rev_image_eqI) (simp add: m)
  have old: "(v, x, r) \<in> A \<longleftrightarrow> (v, x, r) \<in> grants s" if "\<not> (v = u \<and> x = w)" for v x r
    using that unfolding A grants_def by (simp add: image_iff Bex_def) blast
  have only: "r = role" if "(u, w, r) \<in> A" for r
    using that unfolding A by (auto split: if_splits)
  have "y \<in> A \<longleftrightarrow> y \<in> {(v, x, r) \<in> grants s. \<not> (v = u \<and> x = w)} \<union> {(u, w, role)}" for y
  proof (cases y)
    case (fields v x r)
    show ?thesis
    proof (cases "v = u \<and> x = w")
      case True
      then show ?thesis using new only [of r] by (auto simp: fields)
    next
      case False
      then show ?thesis using old [OF False, of r] by (auto simp: fields)
    qed
  qed
  moreover have "grants (s\<lparr>st_wsmems := ?t\<rparr>) = A" by (simp add: grants_def A_def)
  ultimately show ?thesis by blast
qed

lemma grants_add:
  assumes "ws_membership_of u w s = None"
  shows "grants (s\<lparr>st_wsmems := st_wsmems s @ [\<lparr>mb_id = i, mb_user = u, mb_workspace = w, mb_role = role, mb_custom = c\<rparr>], st_next := n\<rparr>)
    = {(v, x, r) \<in> grants s. \<not> (v = u \<and> x = w)} \<union> {(u, w, role)}"
  using assms by (auto simp: grants_def ws_membership_of_None)

lemma grants_apply_desired:
  "distinct (map fst ds) \<Longrightarrow> grants (apply_desired u ds s) =
     {(v, w, r) \<in> grants s. \<not> (v = u \<and> w \<in> fst ` set ds)} \<union> (\<lambda>(w, r). (u, w, r)) ` set ds"
proof (induction u ds s rule: apply_desired.induct)
  case (1 u s)
  then show ?case by auto
next
  case (2 u w role ds s)
  show ?case
  proof (cases "ws_membership_of u w s")
    case None
    with 2 show ?thesis by (auto simp: grants_add [OF None])
  next
    case (Some m)
    with 2 show ?thesis by (auto simp: grants_set_role [OF Some])
  qed
qed

lemma desired_roles_ok:
  assumes "desired_roles g (Some i) s as acc = Inr ds" and "distinct (map fst acc)"
    and "\<forall>(w, r) \<in> set acc. w \<in> set (active_workspace_ids g s) \<and> workspace_level r \<le> inviter_workspace_level i g w s"
  shows "distinct (map fst ds) \<and>
    (\<forall>(w, r) \<in> set ds. w \<in> set (active_workspace_ids g s) \<and> workspace_level r \<le> inviter_workspace_level i g w s)"
  using assms
proof (induction as arbitrary: acc)
  case Nil
  then show ?case by simp
next
  case (Cons a as)
  obtain r where r: "ws_role_of (case snd a of None \<Rightarrow> ''viewer'' | Some r \<Rightarrow> r) = Some r"
      "fst a \<in> set (active_workspace_ids g s)" "workspace_level r \<le> inviter_workspace_level i g (fst a) s"
      "desired_roles g (Some i) s as (AList.update (fst a) r acc) = Inr ds"
    using Cons.prems(1) by (auto simp: Let_def simp del: ws_role_of.simps split: if_splits option.splits)
  have d: "distinct (map fst (AList.update (fst a) r acc))" using Cons.prems(2) by (rule distinct_update)
  have "set (AList.update (fst a) r acc) \<subseteq> insert (fst a, r) (set acc)"
    by (induction acc) auto
  then have "\<forall>(w, r) \<in> set (AList.update (fst a) r acc).
      w \<in> set (active_workspace_ids g s) \<and> workspace_level r \<le> inviter_workspace_level i g w s"
    using Cons.prems(3) r(2,3) by auto
  from Cons.IH [OF r(4) d this] show ?case .
qed

lemma check_current_ok:
  "check_current g (Some i) s ds ms = None \<Longrightarrow> m \<in> set ms \<Longrightarrow>
   workspace_level (mb_role m) \<le> inviter_workspace_level i g (mb_workspace m) s \<or>
   map_of ds (mb_workspace m) = Some (mb_role m)"
  by (induction ms) (auto simp: Let_def split: option.splits if_splits)

text \<open>
  Changing somebody's workspaces only touches that person's roles in active workspaces of the
  organisation, and every role it gives and every role it takes away is within the authority the
  caller has in that workspace.
\<close>

theorem assignments_bounded_by_the_caller:
  assumes "update_workspace_assignments g u as (Some i) s = (Inr (), s')"
    and "(v, w, r) \<in> grants s' - grants s \<union> (grants s - grants s')"
  shows "v = u \<and> w \<in> set (active_workspace_ids g s) \<and> workspace_level r \<le> inviter_workspace_level i g w s"
proof -
  define current where "current = filter (\<lambda>m. mb_user m = u \<and> mb_workspace m \<in> set (active_workspace_ids g s)) (st_wsmems s)"
  obtain ds where ds: "desired_roles g (Some i) s as [] = Inr ds"
    using assms(1) by (cases "desired_roles g (Some i) s as []") (auto simp: update_workspace_assignments_def)
  have chk: "check_current g (Some i) s ds current = None"
    and s': "s' = apply_desired u ds (s\<lparr>st_wsmems := tbl_delete (\<lambda>m. m \<in> set current \<and> mb_workspace m \<notin> fst ` set ds) (st_wsmems s)\<rparr>)"
    using assms(1) by (auto simp: update_workspace_assignments_def ds current_def Let_def split: option.splits)
  have ok: "distinct (map fst ds)"
    "\<And>w r. (w, r) \<in> set ds \<Longrightarrow> w \<in> set (active_workspace_ids g s) \<and> workspace_level r \<le> inviter_workspace_level i g w s"
    using desired_roles_ok [OF ds] by auto
  define s1 where "s1 = s\<lparr>st_wsmems := tbl_delete (\<lambda>m. m \<in> set current \<and> mb_workspace m \<notin> fst ` set ds) (st_wsmems s)\<rparr>"
  have g1: "grants s1 \<subseteq> grants s" by (auto simp: s1_def grants_def tbl_delete_def)
  have g': "grants s' = {(v, w, r) \<in> grants s1. \<not> (v = u \<and> w \<in> fst ` set ds)} \<union> (\<lambda>(w, r). (u, w, r)) ` set ds"
    unfolding s' s1_def [symmetric] by (rule grants_apply_desired [OF ok(1)])
  from assms(2) consider (gained) "(v, w, r) \<in> grants s'" "(v, w, r) \<notin> grants s"
    | (lost) "(v, w, r) \<in> grants s" "(v, w, r) \<notin> grants s'" by blast
  then show ?thesis
  proof cases
    case gained
    then have "v = u \<and> (w, r) \<in> set ds" using g1 by (auto simp: g')
    with ok(2) show ?thesis by blast
  next
    case lost
    then obtain m where m: "m \<in> set (st_wsmems s)" "mb_user m = v" "mb_workspace m = w" "mb_role m = r"
      by (auto simp: grants_def)
    have vw: "v = u" and not_kept: "w \<in> fst ` set ds \<longrightarrow> (w, r) \<notin> set ds"
      and act: "w \<in> set (active_workspace_ids g s)"
    proof -
      have "m \<in> set (st_wsmems s1) \<or> m \<in> set current \<and> w \<notin> fst ` set ds"
        using m by (auto simp: s1_def tbl_delete_def)
      moreover have "v = u \<and> w \<in> fst ` set ds" if "m \<in> set (st_wsmems s1)"
      proof -
        have "(v, w, r) \<in> grants s1" using that m by (force simp: grants_def)
        with lost(2) show ?thesis by (auto simp: g')
      qed
      ultimately show "v = u" "w \<in> fst ` set ds \<longrightarrow> (w, r) \<notin> set ds" "w \<in> set (active_workspace_ids g s)"
        using m ok(2) lost(2) by (auto simp: current_def g')
    qed
    have "m \<in> set current" using m vw act by (simp add: current_def)
    from check_current_ok [OF chk this] have "workspace_level r \<le> inviter_workspace_level i g w s \<or> map_of ds w = Some r"
      by (simp add: m)
    moreover have "map_of ds w \<noteq> Some r" using not_kept by (metis fst_conv image_eqI map_of_SomeD)
    ultimately show ?thesis using vw act by blast
  qed
qed


text \<open>The owner makes the invited editor a manager, and takes the workspace away again.\<close>

theorem assignments_bounded_by_the_caller_witness:
  "(5, 2, WS_MANAGER) \<in> grants (snd (update_workspace_assignments 1 5 [(2, Some ''manager'')] (Some 0) (site_run quiet_env joined_ops))) \<and>
   workspace_level WS_MANAGER \<le> inviter_workspace_level 0 1 2 (site_run quiet_env joined_ops)"
proof -
  define s where "s = site_run quiet_env joined_ops"
  define s' where "s' = snd (update_workspace_assignments 1 5 [(2, Some ''manager'')] (Some 0) s)"
  have r: "update_workspace_assignments 1 5 [(2, Some ''manager'')] (Some 0) s = (Inr (), s')"
  proof -
    have "fst (update_workspace_assignments 1 5 [(2, Some ''manager'')] (Some 0) (site_run quiet_env joined_ops)) = Inr ()"
      by code_simp
    then show ?thesis unfolding s'_def s_def by (metis prod.collapse)
  qed
  have "map (\<lambda>m. (mb_user m, mb_workspace m, mb_role m)) (st_wsmems s) = [(0, 2, WS_OWNER), (5, 2, WS_EDITOR)]"
    unfolding s_def by code_simp
  then have old: "grants s = set [(0, 2, WS_OWNER), (5, 2, WS_EDITOR)]" by (simp only: grants_list)
  have "map (\<lambda>m. (mb_user m, mb_workspace m, mb_role m)) (st_wsmems s') = [(0, 2, WS_OWNER), (5, 2, WS_MANAGER)]"
    unfolding s'_def s_def by code_simp
  then have new: "grants s' = set [(0, 2, WS_OWNER), (5, 2, WS_MANAGER)]" by (simp only: grants_list)
  have "workspace_level WS_MANAGER \<le> inviter_workspace_level 0 1 2 s"
    using assignments_bounded_by_the_caller [OF r, of 5 2 WS_MANAGER] by (simp add: old new)
  then show ?thesis using new by (simp add: s'_def s_def)
qed

lemma grants_join_workspaces:
  "join_workspaces u as s = (ok, s') \<Longrightarrow> grants s' \<subseteq> grants s \<union> (\<lambda>(w, r). (u, w, r)) ` set as"
proof (induction u as s arbitrary: ok rule: join_workspaces.induct)
  case (1 u s)
  then show ?case by simp
next
  case (2 u w role as s)
  show ?case
  proof (cases "ws_membership_of u w s")
    case None
    show ?thesis
    proof (cases "w \<in> ws_id ` set (st_workspaces s)")
      case True
      with 2(2) [of ok] 2(3) None show ?thesis by (simp add: grants_add) blast
    next
      case False
      with 2(3) None show ?thesis by auto
    qed
  next
    case (Some m)
    with 2(1) [of ok] 2(3) show ?thesis by auto
  qed
qed

lemma check_assignments_ok:
  "check_assignments i g s as = Inr xs \<Longrightarrow> (w, r) \<in> set xs \<Longrightarrow>
   w \<in> set (active_workspace_ids g s) \<and> workspace_level r \<le> inviter_workspace_level i g w s"
  by (induction as arbitrary: xs)
    (auto simp: check_assignment_def Let_def simp del: ws_role_of.simps split: sum.splits if_splits option.splits)

lemma create_invitation_ok:
  assumes "create_invitation env now g e role as i None s = (Inr iv, s')"
  shows "iv_org iv = g \<and> (\<forall>(w, r) \<in> set (iv_assignments iv).
      w \<in> set (active_workspace_ids g s) \<and> workspace_level r \<le> inviter_workspace_level i g w s) \<and>
    (iv_role iv = ORG_MEMBER \<or> org_level (iv_role iv) < inviter_org_level i g s)"
proof -
  obtain r ws where c: "check_invitation env now g (py_lower (py_strip e)) role as i s = Inr (r, ws)"
    using assms
    by (cases "check_invitation env now g (py_lower (py_strip e)) role as i s") (auto simp: create_invitation_def Let_def)
  then have a: "check_assignments i g s as = Inr ws"
    and m: "r = ORG_MEMBER \<or> org_level r < inviter_org_level i g s"
    by (cases r; auto simp: check_invitation_def simp del: org_role_of.simps split: if_splits option.splits sum.splits)+
  have "iv_assignments iv = ws \<and> iv_role iv = r \<and> iv_org iv = g"
    using assms by (auto simp: create_invitation_def c Let_def split: prod.splits if_splits)
  then show ?thesis using check_assignments_ok [OF a] m by auto
qed

text \<open>
  Whatever somebody gains by accepting an invitation, however much later, is within what its
  sender could give when it was made: roles in workspaces that were active workspaces of the
  organisation, no higher than the sender's own there, and a membership of the organisation below
  the sender's own or a plain one.
\<close>

theorem invited_rights_bounded:
  assumes "create_invitation env now g e role as i None s = (Inr iv, s')"
    and "accept_invitation later (iv\<lparr>iv_token := tk, iv_expires_at := ex, iv_send_count := n, iv_last_sent_at := ls\<rparr>) u b t
      = (x, t')"
  shows "(\<forall>(v, w, r) \<in> grants t' - grants t. v = us_id u \<and> w \<in> set (active_workspace_ids g s) \<and>
      workspace_level r \<le> inviter_workspace_level i g w s) \<and>
    (\<forall>m \<in> set (st_orgmems t') - set (st_orgmems t). om_user m = us_id u \<and> om_org m = g \<and>
      (om_role m = ORG_MEMBER \<or> org_level (om_role m) < inviter_org_level i g s))"
proof -
  note ok = create_invitation_ok [OF assms(1)]
  define t1 where "t1 = join_org (us_id u) (iv_org iv) (iv_role iv) t"
  obtain fine t2 where j: "join_workspaces (us_id u) (iv_assignments iv) t1 = (fine, t2)" by force
  have "t' = t \<or> t' = t2 \<or> (\<exists>i. t' = t2\<lparr>st_invites := i\<rparr>) \<or> (\<exists>i w. t' = set_last_workspace (us_id u) w (t2\<lparr>st_invites := i\<rparr>))"
    using assms(2) by (auto simp: accept_invitation_def Let_def t1_def [symmetric] j split: if_splits list.splits)
  then have f: "st_wsmems t' = st_wsmems t \<and> st_orgmems t' = st_orgmems t \<or>
      st_wsmems t' = st_wsmems t2 \<and> st_orgmems t' = st_orgmems t2"
    by (elim disjE exE) (simp_all add: set_last_workspace_def)
  have g1: "grants t1 = grants t" by (simp add: t1_def join_org_def grants_def)
  have gr: "grants t2 \<subseteq> grants t \<union> (\<lambda>(w, r). (us_id u, w, r)) ` set (iv_assignments iv)"
    using grants_join_workspaces [OF j] by (simp add: g1)
  have om: "set (st_orgmems t2) \<subseteq> insert \<lparr>om_user = us_id u, om_org = iv_org iv, om_role = iv_role iv\<rparr> (set (st_orgmems t))"
    using join_workspaces_frame [OF j] by (auto simp: t1_def join_org_def)
  from f show ?thesis
  proof
    assume "st_wsmems t' = st_wsmems t \<and> st_orgmems t' = st_orgmems t"
    then show ?thesis by (simp add: grants_def)
  next
    assume s: "st_wsmems t' = st_wsmems t2 \<and> st_orgmems t' = st_orgmems t2"
    then have "grants t' = grants t2" by (simp add: grants_def)
    then show ?thesis using gr om ok s by fastforce
  qed
qed


definition ann_site :: site where
  \<comment> \<open>Ann's organisation 1 with the workspace 2, and Bob (4) with an organisation of his own\<close>
  "ann_site = site_run quiet_env [SignUp 1000 ''ann@x'' None, SignUp 1500 ''bob@x'' None]"

definition bobs_invite :: "(team_error + invitation) \<times> site" where
  "bobs_invite = create_invitation quiet_env 2000 1 ''bob@x'' ''admin'' [(2, Some ''manager'')] 0 None ann_site"

theorem invited_rights_bounded_witness:
  "\<exists>iv s' t'. bobs_invite = (Inr iv, s') \<and>
     accept_invitation 3000 iv (hd (tl (st_users ann_site))) True s' = (Inr (), t') \<and>
     (4, 2, WS_MANAGER) \<in> grants t' \<and> workspace_level WS_MANAGER \<le> inviter_workspace_level 0 1 2 ann_site"
proof -
  define x where "x = projr (fst bobs_invite)"
  define iv where "iv = (projr (fst bobs_invite))\<lparr>iv_token := iv_token x, iv_expires_at := iv_expires_at x,
      iv_send_count := iv_send_count x, iv_last_sent_at := iv_last_sent_at x\<rparr>"
  define s' where "s' = snd bobs_invite"
  define t' where "t' = snd (accept_invitation 3000 iv (hd (tl (st_users ann_site))) True s')"
  have "case fst bobs_invite of Inr _ \<Rightarrow> True | Inl _ \<Rightarrow> False" by code_simp
  then have "fst bobs_invite = Inr x" unfolding x_def by (cases "fst bobs_invite") simp_all
  then have b: "bobs_invite = (Inr x, s')" unfolding s'_def by (metis prod.collapse)
  then have c: "create_invitation quiet_env 2000 1 ''bob@x'' ''admin'' [(2, Some ''manager'')] 0 None ann_site = (Inr x, s')"
    by (simp only: bobs_invite_def)
  have "fst (accept_invitation 3000 ((projr (fst bobs_invite))\<lparr>iv_token := iv_token (projr (fst bobs_invite))\<rparr>)
      (hd (tl (st_users ann_site))) True (snd bobs_invite)) = Inr ()" by code_simp
  then have f: "fst (accept_invitation 3000 iv (hd (tl (st_users ann_site))) True s') = Inr ()"
    by (simp add: iv_def s'_def x_def)
  have ix: "iv = x" by (simp add: iv_def x_def)
  have a: "accept_invitation 3000 iv (hd (tl (st_users ann_site))) True s' = (Inr (), t')"
    unfolding t'_def using f by (metis prod.collapse)
  have "map (\<lambda>m. (mb_user m, mb_workspace m, mb_role m)) (st_wsmems (snd (accept_invitation 3000
      (projr (fst bobs_invite)) (hd (tl (st_users ann_site))) True (snd bobs_invite))))
      = [(0, 2, WS_OWNER), (4, 6, WS_OWNER), (4, 2, WS_MANAGER)]" by code_simp
  then have new: "grants t' = set [(0, 2, WS_OWNER), (4, 6, WS_OWNER), (4, 2, WS_MANAGER)]"
    unfolding t'_def ix by (simp only: grants_list x_def s'_def)
  have "map (\<lambda>m. (mb_user m, mb_workspace m, mb_role m)) (st_wsmems (snd bobs_invite)) = [(0, 2, WS_OWNER), (4, 6, WS_OWNER)]"
    by code_simp
  then have old: "grants s' = set [(0, 2, WS_OWNER), (4, 6, WS_OWNER)]" unfolding s'_def by (simp only: grants_list)
  have acc: "accept_invitation 3000 (x\<lparr>iv_token := iv_token x, iv_expires_at := iv_expires_at x,
      iv_send_count := iv_send_count x, iv_last_sent_at := iv_last_sent_at x\<rparr>) (hd (tl (st_users ann_site))) True s'
      = (Inr (), t')"
    using a by (simp add: iv_def x_def)
  have "(4, 2, WS_MANAGER) \<in> grants t' - grants s'" by (simp add: new old)
  then have "workspace_level WS_MANAGER \<le> inviter_workspace_level 0 1 2 ann_site"
    using conjunct1 [OF invited_rights_bounded [OF c acc]] by blast
  then show ?thesis using b a new by (auto simp: ix)
qed

section \<open>What an invitation costs\<close>

lemma reserve_budget_other:
  "b \<noteq> (sc, k, st) \<Longrightarrow> spent b (snd (reserve_budget env sc k st l fo cs)) = spent b cs"
  by (simp add: reserve_budget_def Let_def spent_append_row spent_update)

lemma invite_message_waited_on: "waited_on (invite_message iv s)"
  by (simp add: waited_on_def invite_message_def)

lemma send_waited_on_spent:
  assumes "waited_on m" and "fst b \<noteq> ''global_day''"
  shows "spent b (mx_counters (snd (send_or_raise env now m mx))) = spent b (mx_counters mx)"
proof -
  have "b \<noteq> (''global_day'', [], day_start now)" using assms(2) by auto
  from reserve_budget_other [OF this, of env "mail_limit ''EMAIL_DAILY_SEND_LIMIT'' 2000 env" True]
  have "spent b cs' = spent b cs" if "reserve_message env now m cs = Some cs'" for cs cs'
    using that assms(1)
    by (auto simp: reserve_message_def split: prod.splits bool.splits) (metis snd_conv)
  then have a: "spent b (mx_counters (snd (allow env now m x))) = spent b (mx_counters x)" for x
    by (auto simp: allow_def split: option.splits)
  show ?thesis
    using a [of mx] by (auto simp: send_or_raise_def send_messages_def Let_def split: prod.splits option.splits)
qed

lemma send_invite_email_spent:
  assumes "fst b \<noteq> ''global_day''"
  shows "spent b (mx_counters (st_mail (snd (send_invite_email env now iv s)))) = spent b (mx_counters (st_mail s))"
proof -
  have "st_mail s1 = st_mail s" if "reserve_invite_send env now iv s = Some s1" for s1
    using that by (auto simp: reserve_invite_send_def Let_def split: if_splits)
  moreover have "st_mail (release_invite_send iv s1) = st_mail s1" for s1 by (simp add: release_invite_send_def)
  ultimately show ?thesis
    using send_waited_on_spent [OF invite_message_waited_on assms]
    by (auto simp: send_invite_email_def split: option.splits prod.splits delivery.splits) (metis snd_conv)+
qed

definition org_day :: "nat \<Rightarrow> instant \<Rightarrow> bucket" where
  "org_day g now = (''invite_org_day'', uuid_text g, day_start now)"

lemma check_org_budget_spent:
  assumes "check_org_invite_budget env now g s = (ok, s1)"
  shows "if ok then spent (org_day g now) (mx_counters (st_mail s1)) = Suc (spent (org_day g now) (mx_counters (st_mail s))) \<and>
      (0 \<le> setting_int ''INVITE_MAX_PER_ORG_PER_DAY'' 25 env \<longrightarrow>
        int (spent (org_day g now) (mx_counters (st_mail s1))) \<le> setting_int ''INVITE_MAX_PER_ORG_PER_DAY'' 25 env)
    else mx_log (st_mail s1) = mx_log (st_mail s)"
proof -
  obtain ok' cs where r: "reserve_budget env ''invite_org_day'' (uuid_text g) (day_start now)
        (setting_int ''INVITE_MAX_PER_ORG_PER_DAY'' 25 env) False (mx_counters (st_mail s)) = (ok', cs)" by force
  then have ok: "ok' = ok" and s1: "s1 = s\<lparr>st_mail := (st_mail s)\<lparr>mx_counters := cs\<rparr>\<rparr>"
    using assms by (auto simp: check_org_invite_budget_def)
  show ?thesis
  proof (cases ok)
    case True
    then have r': "reserve_budget env ''invite_org_day'' (uuid_text g) (day_start now)
        (setting_int ''INVITE_MAX_PER_ORG_PER_DAY'' 25 env) False (mx_counters (st_mail s)) = (True, cs)"
      using r ok by simp
    show ?thesis using True reserve_granted [OF r'] by (auto simp: s1 org_day_def)
  next
    case False
    then show ?thesis by (simp add: s1)
  qed
qed

text \<open>
  An invitation leaves the building, the first time or again, only by using up one of the
  organisation's invitations of the day, and never beyond the daily cap.
\<close>

theorem invitation_mail_is_charged:
  assumes "s' = snd (create_invitation env now g e role as u i s) \<or> s' = snd (resend_invitation env now iv s) \<and> iv_org iv = g"
    and "mx_log (st_mail s') \<noteq> mx_log (st_mail s)"
  shows "spent (org_day g now) (mx_counters (st_mail s')) = Suc (spent (org_day g now) (mx_counters (st_mail s))) \<and>
    (0 \<le> setting_int ''INVITE_MAX_PER_ORG_PER_DAY'' 25 env \<longrightarrow>
      int (spent (org_day g now) (mx_counters (st_mail s'))) \<le> setting_int ''INVITE_MAX_PER_ORG_PER_DAY'' 25 env)"
proof -
  obtain ok s1 where c: "check_org_invite_budget env now g s = (ok, s1)" by force
  note sp = check_org_budget_spent [OF c]
  define sent where "sent = (\<lambda>t. \<exists>v s2. st_mail s2 = st_mail s1 \<and> t = snd (send_invite_email env now v s2))"
  have sent: "sent (snd (send_invite_email env now v s2))" if "st_mail s2 = st_mail s1" for v s2
    using that unfolding sent_def by blast
  have "s' = s \<or> s' = s1 \<and> \<not> ok \<or> ok \<and> sent s'"
    using assms(1)
  proof
    assume a: "s' = snd (create_invitation env now g e role as u i s)"
    show ?thesis
      by (cases "check_invitation env now g (py_lower (py_strip e)) role as (case i of None \<Rightarrow> u | Some u \<Rightarrow> u) s")
        (auto simp: a create_invitation_def c Let_def sent split: prod.splits)
  next
    assume a: "s' = snd (resend_invitation env now iv s) \<and> iv_org iv = g"
    then show ?thesis
      by (auto simp: resend_invitation_def c Let_def sent split_beta)
  qed
  moreover have "spent (org_day g now) (mx_counters (st_mail s')) = spent (org_day g now) (mx_counters (st_mail s1))" if "sent s'"
    using that send_invite_email_spent [of "org_day g now"] by (auto simp: sent_def org_day_def)
  ultimately show ?thesis using sp assms(2) by (auto split: if_splits)
qed


theorem invitation_mail_is_charged_witness:
  "mx_log (st_mail (snd bobs_invite)) \<noteq> mx_log (st_mail ann_site) \<and>
   spent (org_day 1 2000) (mx_counters (st_mail (snd bobs_invite))) = 1"
proof -
  have "length (mx_log (st_mail (snd bobs_invite))) = 1" "length (mx_log (st_mail ann_site)) = 0" by code_simp+
  then have n: "mx_log (st_mail (snd bobs_invite)) \<noteq> mx_log (st_mail ann_site)" by auto
  have "spent (org_day 1 2000) (mx_counters (st_mail ann_site)) = 0" by code_simp
  moreover have "spent (org_day 1 2000) (mx_counters (st_mail (snd bobs_invite)))
      = Suc (spent (org_day 1 2000) (mx_counters (st_mail ann_site)))"
    using conjunct1 [OF invitation_mail_is_charged [OF disjI1 n]] by (simp add: bobs_invite_def)
  ultimately show ?thesis using n by simp
qed

definition five_ops :: "site_op list" where
  \<comment> \<open>invite, revoke, invite again, then resend the revoked invitation twice and the new one once\<close>
  "five_ops =
    [SignUp 1000 ''ann@x'' None,
     InviteMember (seconds 1) 0 ''eve@x'' ''member'' [],
     RevokeInvite (seconds 2) 0 4,
     InviteMember (seconds 3) 0 ''eve@x'' ''member'' [],
     ResendInvite (seconds 400) 0 4,
     ResendInvite (seconds 800) 0 4,
     ResendInvite (seconds 1200) 0 5]"

text \<open>
  Revoking an invitation and inviting again still multiplies the mails: the revoked invitation can
  be sent again with a budget of its own, so one address gets five mails within twenty minutes where
  the limit is three, and both invitations are open.
\<close>

theorem revoked_invitation_mails_again:
  "max_sends quiet_env = 3 \<and>
   map (\<lambda>(t, m). mg_to m) (mx_log (st_mail (site_run quiet_env five_ops))) = replicate 5 [''eve@x''] \<and>
   map (\<lambda>iv. (iv_send_count iv, seconds 1200 < iv_expires_at iv)) (st_invites (site_run quiet_env five_ops)) = [(3, True), (3, True)]"
proof (intro conjI)
  show "max_sends quiet_env = 3" by code_simp
  show "map (\<lambda>(t, m). mg_to m) (mx_log (st_mail (site_run quiet_env five_ops))) = replicate 5 [''eve@x'']" by code_simp
  show "map (\<lambda>iv. (iv_send_count iv, seconds 1200 < iv_expires_at iv)) (st_invites (site_run quiet_env five_ops))
      = [(3, True), (3, True)]" by code_simp
qed

section \<open>An invitation to a workspace that is gone\<close>

lemma join_workspaces_fails:
  assumes "(w, r) \<in> set as" and "w \<notin> ws_id ` set (st_workspaces s)" and "ws_membership_of u w s = None"
  shows "\<exists>s'. join_workspaces u as s = (False, s')"
  using assms
proof (induction u as s rule: join_workspaces.induct)
  case (1 u s)
  then show ?case by simp
next
  case (2 u v role as s)
  let ?s = "s\<lparr>st_wsmems := st_wsmems s @ [\<lparr>mb_id = st_next s, mb_user = u, mb_workspace = v, mb_role = role, mb_custom = None\<rparr>],
          st_next := Suc (st_next s)\<rparr>"
  show ?case
  proof (cases "ws_membership_of u v s = None")
    case False
    then have "(w, r) \<in> set as" using 2(3,5) by auto
    then show ?thesis using 2(1) [OF False] 2(4,5) False by simp
  next
    case True
    show ?thesis
    proof (cases "v \<in> ws_id ` set (st_workspaces s)")
      case no: False
      with True show ?thesis by simp
    next
      case yes: True
      then have "(w, r) \<in> set as" using 2(3,4) by auto
      moreover have "ws_membership_of u w ?s = None"
        using 2(4,5) yes by (auto simp: ws_membership_of_None)
      ultimately show ?thesis using 2(2) 2(4) True yes by simp
    qed
  qed
qed

text \<open>
  An invitation that names a workspace deleted since can never be accepted: every attempt makes
  its user a member of the organisation, fails on the missing workspace and leaves the invitation
  open for the next attempt.
\<close>

theorem invitation_to_deleted_workspace:
  assumes "now \<le> iv_expires_at iv" and "iv_accepted_at iv = None"
    and "py_lower (us_email u) = py_lower (iv_email iv)"
    and "(w, r) \<in> set (iv_assignments iv)" and "w \<notin> ws_id ` set (st_workspaces s)"
    and "ws_membership_of (us_id u) w s = None"
    and "accept_invitation now iv u True s = (x, s')"
  shows "x = Inl INTEGRITY \<and> org_membership (us_id u) (iv_org iv) s' \<noteq> None \<and> st_invites s' = st_invites s"
proof -
  define s1 where "s1 = join_org (us_id u) (iv_org iv) (iv_role iv) s"
  have "w \<notin> ws_id ` set (st_workspaces s1)" "ws_membership_of (us_id u) w s1 = None"
    using assms(5,6) by (simp_all add: s1_def join_org_def ws_membership_of_def)
  then obtain s2 where j: "join_workspaces (us_id u) (iv_assignments iv) s1 = (False, s2)"
    using join_workspaces_fails [OF assms(4)] by blast
  have f: "st_orgmems s2 = st_orgmems s1 \<and> st_invites s2 = st_invites s1" using join_workspaces_frame [OF j] by simp
  have "org_membership (us_id u) (iv_org iv) s1 \<noteq> None"
    by (cases "org_membership (us_id u) (iv_org iv) s")
      (auto simp: s1_def join_org_def org_membership_def tbl_first_None)
  then have "org_membership (us_id u) (iv_org iv) s2 \<noteq> None" using f by (simp add: org_membership_def)
  moreover have "x = Inl INTEGRITY \<and> s' = s2"
    using assms(1,2,3,7) by (simp add: accept_invitation_def Let_def s1_def [symmetric] j)
  moreover have "st_invites s1 = st_invites s" by (simp add: s1_def join_org_def)
  ultimately show ?thesis using f by simp
qed

theorem invitation_to_deleted_workspace_witness:
  "\<exists>s'. accept_invitation 3000 (projr (fst bobs_invite)) (hd (tl (st_users ann_site))) True
       (delete_workspace 2 (snd bobs_invite)) = (Inl INTEGRITY, s') \<and> org_membership 4 1 s' \<noteq> None"
proof -
  let ?iv = "projr (fst bobs_invite)"
  let ?u = "hd (tl (st_users ann_site))"
  let ?s = "delete_workspace 2 (snd bobs_invite)"
  have h: "(3000::int) \<le> iv_expires_at ?iv" "iv_accepted_at ?iv = None"
    "py_lower (us_email ?u) = py_lower (iv_email ?iv)" by code_simp+
  have "iv_assignments ?iv = [(2, WS_MANAGER)]" by code_simp
  then have a: "(2, WS_MANAGER) \<in> set (iv_assignments ?iv)" by simp
  have "map ws_id (st_workspaces ?s) = [6]" by code_simp
  then have "ws_id ` set (st_workspaces ?s) = set [6]" by (metis list.set_map)
  then have w: "2 \<notin> ws_id ` set (st_workspaces ?s)" by simp
  have m: "ws_membership_of (us_id ?u) 2 ?s = None" by code_simp
  have i: "us_id ?u = 4" "iv_org ?iv = 1" by code_simp+
  obtain x s' where r: "accept_invitation 3000 ?iv ?u True ?s = (x, s')" by force
  from invitation_to_deleted_workspace [OF h a w m r] show ?thesis using r by (simp add: i)
qed

end
