(* ===== verification/Credentials.thy ===== *)
theory Credentials
  imports Providers
begin

text \<open>
  \<open>apps/credentials/models.py\<close> and the credential part of \<open>apps/publisher/engine.py\<close>: when a
  platform counts as configured, which of the deployment's and the organisation's credentials
  win, what the settings page shows of them, and what the publish path hands to a provider.
  The credential tables, the environment and the DNS-backed URL check are one record, an
  argument of the definitions that read them.
\<close>

section \<open>What a platform needs\<close>

definition META_KEYS :: "string list list" where
  "META_KEYS = [[''client_id'', ''app_id''], [''client_secret'', ''app_secret'']]"

definition CLIENT_KEYS :: "string list list" where
  "CLIENT_KEYS = [[''client_id''], [''client_secret'']]"

definition REQUIRED_CREDENTIAL_KEYS :: "(string \<times> string list list) list" where
  "REQUIRED_CREDENTIAL_KEYS =
    [(''facebook'', META_KEYS), (''instagram'', META_KEYS), (''instagram_login'', META_KEYS),
     (''threads'', META_KEYS), (''pinterest'', META_KEYS),
     (''tiktok'', [[''client_key''], [''client_secret'']]),
     (''youtube'', CLIENT_KEYS), (''google_business'', CLIENT_KEYS),
     (''linkedin_personal'', CLIENT_KEYS), (''linkedin_company'', CLIENT_KEYS)]"

definition cred_present :: "json \<Rightarrow> bool" where
  \<comment> \<open>\<open>str(value or "").strip()\<close> is not empty\<close>
  "cred_present v = (case v of JStr s \<Rightarrow> py_strip s \<noteq> [] | _ \<Rightarrow> json_truthy v)"

definition derive_is_configured :: "string \<Rightarrow> pydict \<Rightarrow> bool" where
  "derive_is_configured platform creds =
    (case map_of REQUIRED_CREDENTIAL_KEYS platform of
       None \<Rightarrow> False
     | Some groups \<Rightarrow>
         groups \<noteq> [] \<and> list_all (\<lambda>g. list_ex (\<lambda>k. cred_present (dict_get k creds)) g) groups)"

section \<open>The stored credentials\<close>

record platform_credential =
  cr_org :: nat
  cr_platform :: string
  cr_credentials :: pydict
  cr_configured :: bool

definition save_credential :: "platform_credential \<Rightarrow> platform_credential list \<Rightarrow> platform_credential list" where
  \<comment> \<open>\<open>PlatformCredential.save\<close>; \<open>(organization, platform)\<close> is unique\<close>
  "save_credential c t =
    (let c1 = c\<lparr>cr_configured := derive_is_configured (cr_platform c) (cr_credentials c)\<rparr>;
         same = (\<lambda>r. cr_org r = cr_org c \<and> cr_platform r = cr_platform c)
     in if list_ex same t then tbl_update same (\<lambda>_. c1) t else t @ [c1])"

definition mask_value :: "json \<Rightarrow> string" where
  "mask_value v =
    (case v of JStr s \<Rightarrow> if length s > 4 then ''****'' @ drop (length s - 4) s else ''****''
     | _ \<Rightarrow> ''****'')"

definition masked_credentials :: "platform_credential \<Rightarrow> (string \<times> string) list" where
  "masked_credentials c = map (\<lambda>(k, v). (k, mask_value v)) (cr_credentials c)"

record mastodon_app =
  mr_instance_url :: string
  mr_client_id :: string
  mr_client_secret :: string

record cred_env =
  ce_env :: "(string \<times> pydict) list"
  ce_rows :: "platform_credential list"
  ce_mastodon :: "mastodon_app list"
  ce_safe_url :: "string \<Rightarrow> bool"

section \<open>Resolution\<close>

definition env_creds :: "cred_env \<Rightarrow> string \<Rightarrow> pydict" where
  "env_creds c platform = (case map_of (ce_env c) platform of Some d \<Rightarrow> d | None \<Rightarrow> [])"

definition resolve_platform_credentials :: "cred_env \<Rightarrow> string \<Rightarrow> nat \<Rightarrow> pydict" where
  "resolve_platform_credentials c platform org =
    (if derive_is_configured platform (env_creds c platform) then env_creds c platform
     else case tbl_first (\<lambda>r. cr_org r = org \<and> cr_platform r = platform \<and> cr_configured r) (ce_rows c) of
            Some r \<Rightarrow> cr_credentials r
          | None \<Rightarrow> env_creds c platform)"

definition json_or :: "json \<Rightarrow> json \<Rightarrow> json" where
  "json_or a b = (if json_truthy a then a else b)"

definition extract_secret :: "pydict \<Rightarrow> json" where
  "extract_secret creds =
    json_or (dict_get ''app_secret'' creds) (json_or (dict_get ''client_secret'' creds) (JStr []))"

definition resolve_app_secret :: "cred_env \<Rightarrow> string \<Rightarrow> nat \<Rightarrow> json" where
  "resolve_app_secret c platform org = extract_secret (resolve_platform_credentials c platform org)"

definition add_secret :: "json \<Rightarrow> json list \<Rightarrow> json list" where
  "add_secret s acc = (if json_truthy s \<and> s \<notin> set acc then acc @ [s] else acc)"

definition resolve_app_secrets :: "cred_env \<Rightarrow> string list \<Rightarrow> json list" where
  "resolve_app_secrets c platforms =
    (let from_env = fold (\<lambda>p. add_secret (extract_secret (env_creds c p))) platforms []
     in fold (\<lambda>r. add_secret (extract_secret (cr_credentials r)))
          (filter (\<lambda>r. cr_platform r \<in> set platforms \<and> cr_configured r) (ce_rows c)) from_env)"

definition resolve_publish_credentials :: "cred_env \<Rightarrow> nat \<Rightarrow> social_account \<Rightarrow> pydict" where
  \<comment> \<open>the second argument is \<open>account.workspace.organization_id\<close>\<close>
  "resolve_publish_credentials c org a =
    (let platform = sa_platform a;
         creds = resolve_platform_credentials c platform org in
     if platform = ''mastodon'' \<and> sa_instance_url a \<noteq> [] then
       (if ce_safe_url c (sa_instance_url a) then
          let c1 = dict_set ''instance_url'' (JStr (sa_instance_url a)) creds in
          if \<not> json_truthy (dict_get ''client_id'' c1) then
            (case tbl_first (\<lambda>r. mr_instance_url r = sa_instance_url a) (ce_mastodon c) of
               Some r \<Rightarrow> dict_set ''client_secret'' (JStr (mr_client_secret r))
                           (dict_set ''client_id'' (JStr (mr_client_id r)) c1)
             | None \<Rightarrow> c1)
          else c1
        else creds)
     else if platform = ''bluesky'' \<and> sa_instance_url a \<noteq> [] then
       (if ce_safe_url c (sa_instance_url a)
        then dict_set ''pds_url'' (JStr (sa_instance_url a)) creds else creds)
     else if platform = ''facebook'' then dict_set ''page_id'' (JStr (sa_platform_id a)) creds
     else if platform \<in> {''instagram'', ''instagram_login''} then
       dict_set ''account_handle'' (JStr (sa_handle a))
         (dict_set ''ig_user_id'' (JStr (sa_platform_id a)) creds)
     else creds)"

section \<open>Lemmas\<close>

lemma add_secret_set: "set (add_secret s acc) = set acc \<union> {x. x = s \<and> json_truthy s}"
  by (auto simp: add_secret_def)

lemma add_secret_distinct: "distinct acc \<Longrightarrow> distinct (add_secret s acc)"
  by (simp add: add_secret_def)

lemma fold_add_secret:
  "set (fold (\<lambda>x. add_secret (f x)) xs acc) = set acc \<union> {s. json_truthy s \<and> s \<in> f ` set xs}"
  by (induction xs arbitrary: acc) (auto simp: add_secret_set)

lemma fold_add_secret_distinct: "distinct acc \<Longrightarrow> distinct (fold (\<lambda>x. add_secret (f x)) xs acc)"
  by (induction xs arbitrary: acc) (simp_all add: add_secret_distinct)

text \<open>
  A webhook is checked against every secret that could have signed it, each once: the list is
  duplicate-free and holds exactly the non-empty secrets of the deployment and of the configured
  organisations for the platforms asked for; the secret one organisation's provider uses is on it
  whenever that organisation's row is configured or the deployment's credentials are complete.
\<close>

theorem app_secrets_complete:
  "distinct (resolve_app_secrets c platforms) \<and>
   set (resolve_app_secrets c platforms) =
     {s. json_truthy s \<and>
         ((\<exists>p \<in> set platforms. s = extract_secret (env_creds c p)) \<or>
          (\<exists>r \<in> set (ce_rows c). cr_platform r \<in> set platforms \<and> cr_configured r \<and>
              s = extract_secret (cr_credentials r)))} \<and>
   (\<nexists>p org. p \<in> set platforms \<and> json_truthy (resolve_app_secret c p org) \<and>
       resolve_app_secret c p org \<notin> set (resolve_app_secrets c platforms))"
proof -
  let ?S = "{s. json_truthy s \<and>
         ((\<exists>p \<in> set platforms. s = extract_secret (env_creds c p)) \<or>
          (\<exists>r \<in> set (ce_rows c). cr_platform r \<in> set platforms \<and> cr_configured r \<and>
              s = extract_secret (cr_credentials r)))}"
  have s: "set (resolve_app_secrets c platforms) = ?S"
    unfolding resolve_app_secrets_def Let_def fold_add_secret by auto
  have "resolve_app_secret c p org \<in> ?S"
    if "p \<in> set platforms" "json_truthy (resolve_app_secret c p org)" for p org
  proof (cases "derive_is_configured p (env_creds c p)")
    case True
    then show ?thesis using that by (auto simp: resolve_app_secret_def resolve_platform_credentials_def)
  next
    case no_env: False
    let ?row = "tbl_first (\<lambda>r. cr_org r = org \<and> cr_platform r = p \<and> cr_configured r) (ce_rows c)"
    show ?thesis
    proof (cases ?row)
      case None
      then show ?thesis
        using that no_env by (auto simp: resolve_app_secret_def resolve_platform_credentials_def)
    next
      case (Some r)
      then have "r \<in> set (ce_rows c)" "cr_platform r = p" "cr_configured r"
        using tbl_first_Some [OF Some] by auto
      then show ?thesis
        using that no_env Some by (auto simp: resolve_app_secret_def resolve_platform_credentials_def)
    qed
  qed
  then have "\<nexists>p org. p \<in> set platforms \<and> json_truthy (resolve_app_secret c p org) \<and>
      resolve_app_secret c p org \<notin> ?S"
    by blast
  moreover have "distinct (resolve_app_secrets c platforms)"
    by (simp add: resolve_app_secrets_def Let_def fold_add_secret_distinct)
  ultimately show ?thesis unfolding s by (intro conjI refl)
qed

text \<open>
  A partial environment never shadows a complete row: whenever the deployment's credentials
  or the organisation's saved row satisfy the platform's required keys, so do the credentials the
  platform is called with.
\<close>

theorem resolved_credentials_are_usable:
  assumes rows: "\<And>r. r \<in> set (ce_rows c) \<Longrightarrow>
      cr_configured r = derive_is_configured (cr_platform r) (cr_credentials r)"
    and usable: "derive_is_configured platform (env_creds c platform) \<or>
      (\<exists>r \<in> set (ce_rows c). cr_org r = org \<and> cr_platform r = platform \<and>
         derive_is_configured platform (cr_credentials r))"
  shows "derive_is_configured platform (resolve_platform_credentials c platform org)"
proof (cases "derive_is_configured platform (env_creds c platform)")
  case True
  then show ?thesis by (simp add: resolve_platform_credentials_def)
next
  case False
  let ?P = "\<lambda>r. cr_org r = org \<and> cr_platform r = platform \<and> cr_configured r"
  obtain r where "r \<in> set (ce_rows c)" "?P r" using usable False rows by blast
  then have "tbl_first ?P (ce_rows c) \<noteq> None" unfolding tbl_first_None by blast
  then obtain x where x: "tbl_first ?P (ce_rows c) = Some x" by blast
  from tbl_first_Some [OF x] have "derive_is_configured platform (cr_credentials x)"
    using rows by auto
  then show ?thesis using False x by (simp add: resolve_platform_credentials_def)
qed

definition sample_creds :: cred_env where
  "sample_creds =
    \<lparr>ce_env = [(''youtube'', [(''client_id'', JStr ''half'')])],
     ce_rows = [\<lparr>cr_org = 1, cr_platform = ''youtube'',
        cr_credentials = [(''client_id'', JStr ''id''), (''client_secret'', JStr ''hush'')],
        cr_configured = True\<rparr>],
     ce_mastodon = [], ce_safe_url = (\<lambda>u. u \<noteq> [])\<rparr>"

lemma sample_row_configured:
  "derive_is_configured ''youtube'' [(''client_id'', JStr ''id''), (''client_secret'', JStr ''hush'')]"
  by code_simp

theorem resolved_credentials_are_usable_witness:
  "derive_is_configured ''youtube'' (resolve_platform_credentials sample_creds ''youtube'' 1)"
  by (rule resolved_credentials_are_usable) (auto simp: sample_creds_def sample_row_configured)

end
