(* ===== verification/Dispatch.thy ===== *)
theory Dispatch
  imports Composer Credentials
begin

text \<open>
  The part of \<open>apps/publisher/engine.py\<close> that turns one channel's row into one call of its
  provider: the deployment's settings, the token refresh, the media cache shared by a post's
  channels, the post type, and \<open>_dispatch_to_provider\<close>. Everything the code calls outside the
  repository is one record of functions, \<open>outside\<close>: the HTTP calls of a provider, the file store,
  the parser of UUIDs. A call that raises answers \<open>Inl\<close> the exception.
\<close>

section \<open>What a provider is called with and answers\<close>

record publish_content =
  pb_text :: string
  pb_title :: string
  pb_description :: string
  pb_first_comment :: string
  pb_files :: "string list"
  pb_urls :: "string list"
  pb_types :: "string list"
  pb_post_type :: post_type
  pb_extra :: pydict
  pb_link :: json
  pb_duration :: "int option"

record publish_result =
  pr_handle :: string
  pr_extra :: pydict

datatype publish_state = PS_COMPLETE | PS_PENDING | PS_FAILED | PS_INBOX

fun publish_state_value :: "publish_state \<Rightarrow> string" where
  "publish_state_value PS_COMPLETE = ''complete''"
| "publish_state_value PS_PENDING = ''pending''"
| "publish_state_value PS_FAILED = ''failed''"
| "publish_state_value PS_INBOX = ''inbox''"

record publish_status =
  pt_state :: publish_state
  pt_handle :: string
  pt_error :: string

text \<open>The calls the engine makes on a provider; the first argument is the access token.\<close>

record provider_api =
  pa_publish :: "string \<Rightarrow> publish_content \<Rightarrow> exn + publish_result"
  pa_status :: "string \<Rightarrow> string \<Rightarrow> exn + publish_status"
  pa_comment :: "string \<Rightarrow> string \<Rightarrow> string \<Rightarrow> exn + string"
  pa_find_comment :: "string \<Rightarrow> string \<Rightarrow> string \<Rightarrow> exn + string option"
  pa_refresh :: "string \<Rightarrow> exn + oauth_tokens"

section \<open>Settings\<close>

record engine_config =
  ec_stale :: "int option"
  ec_confirm :: "int option"
  ec_unconfirmed :: "int option"
  ec_max_publishes :: "int option"
  ec_max_posts :: "int option"
  ec_max_platform :: "int option"
  ec_comment_delay :: "int option"
  ec_comment_retries :: "nat option"
  ec_app_url :: string
  ec_ws_setting :: "nat \<Rightarrow> string \<Rightarrow> json option"
  ec_org_setting :: "nat \<Rightarrow> string \<Rightarrow> json option"
  ec_app_default :: "string \<Rightarrow> json"

definition or_default :: "'a option \<Rightarrow> 'a \<Rightarrow> 'a" where
  \<comment> \<open>\<open>getattr(settings, name, default)\<close>\<close>
  "or_default v n = (case v of Some x \<Rightarrow> x | None \<Rightarrow> n)"

definition DEFAULT_STALE_PUBLISHING_TIMEOUT :: int where
  "DEFAULT_STALE_PUBLISHING_TIMEOUT = 900"

definition DEFAULT_PUBLISH_CONFIRM_TIMEOUT :: int where
  "DEFAULT_PUBLISH_CONFIRM_TIMEOUT = 1800"

definition DEFAULT_PUBLISH_UNCONFIRMED_TIMEOUT :: int where
  "DEFAULT_PUBLISH_UNCONFIRMED_TIMEOUT = 6 * 3600"

definition DEFAULT_MAX_CONCURRENT_PUBLISHES :: int where
  "DEFAULT_MAX_CONCURRENT_PUBLISHES = 10"

definition DEFAULT_MAX_CONCURRENT_POSTS :: int where
  "DEFAULT_MAX_CONCURRENT_POSTS = 4"

definition DEFAULT_MAX_CONCURRENT_PLATFORM_PUBLISHES :: int where
  "DEFAULT_MAX_CONCURRENT_PLATFORM_PUBLISHES = 6"

definition stale_publishing_timeout :: "engine_config \<Rightarrow> int" where
  "stale_publishing_timeout c = or_default (ec_stale c) DEFAULT_STALE_PUBLISHING_TIMEOUT"

definition publish_confirm_timeout :: "engine_config \<Rightarrow> int" where
  "publish_confirm_timeout c = or_default (ec_confirm c) DEFAULT_PUBLISH_CONFIRM_TIMEOUT"

definition publish_unconfirmed_timeout :: "engine_config \<Rightarrow> int" where
  "publish_unconfirmed_timeout c = or_default (ec_unconfirmed c) DEFAULT_PUBLISH_UNCONFIRMED_TIMEOUT"

definition bounded_setting :: "int option \<Rightarrow> int \<Rightarrow> int" where
  "bounded_setting v n = max 1 (or_default v n)"

definition max_concurrent_publishes :: "engine_config \<Rightarrow> int" where
  "max_concurrent_publishes c = bounded_setting (ec_max_publishes c) DEFAULT_MAX_CONCURRENT_PUBLISHES"

definition max_concurrent_posts :: "engine_config \<Rightarrow> int" where
  "max_concurrent_posts c = bounded_setting (ec_max_posts c) DEFAULT_MAX_CONCURRENT_POSTS"

definition max_concurrent_platform_publishes :: "engine_config \<Rightarrow> int" where
  "max_concurrent_platform_publishes c =
    bounded_setting (ec_max_platform c) DEFAULT_MAX_CONCURRENT_PLATFORM_PUBLISHES"

definition FIRST_COMMENT_MAX_RETRIES :: "engine_config \<Rightarrow> nat" where
  "FIRST_COMMENT_MAX_RETRIES c = or_default (ec_comment_retries c) 3"

definition FIRST_COMMENT_RETRY_BACKOFF :: "int list" where
  "FIRST_COMMENT_RETRY_BACKOFF = [120, 600, 1800]"

definition first_comment_delay :: "engine_config \<Rightarrow> (nat \<Rightarrow> nat option) \<Rightarrow> nat \<Rightarrow> int" where
  \<comment> \<open>\<open>int(value)\<close> that raises falls to the \<open>except\<close> and answers the default\<close>
  "first_comment_delay c org_of w =
    (let dflt = or_default (ec_comment_delay c) 120;
         v = get_setting (ec_ws_setting c) (ec_org_setting c) org_of (ec_app_default c) w
               ''publishing.first_comment_delay_seconds'' None (Some (JNum dflt))
     in or_default (json_int v) dflt)"

section \<open>The world outside\<close>

record outside =
  ou_creds :: cred_env
  ou_calls :: "string \<Rightarrow> pydict \<Rightarrow> provider_api"
  ou_fetch :: "string \<Rightarrow> exn + string"
  ou_url :: "string \<Rightarrow> string"
  ou_uuid :: "json \<Rightarrow> nat option"
  ou_config :: engine_config

definition other_exn :: "string \<Rightarrow> exn" where
  \<comment> \<open>an exception that is not a \<open>ProviderError\<close>\<close>
  "other_exn msg = \<lparr>ex_class = OtherException, ex_msg = msg, ex_platform = [], ex_raw = JNull,
     ex_retryable = True, ex_status = None, ex_retry_after = None, ex_resets = NoDeadline\<rparr>"

definition org_of_workspace :: "db \<Rightarrow> nat \<Rightarrow> nat option" where
  "org_of_workspace d w = map_option ws_org (get_workspace w d)"

definition org_of_account :: "db \<Rightarrow> social_account \<Rightarrow> nat" where
  "org_of_account d a = or_default (org_of_workspace d (sa_workspace a)) 0"

definition PUBLISH_REFRESH_WINDOW :: int where
  "PUBLISH_REFRESH_WINDOW = days 7"

definition save_tokens :: "social_account \<Rightarrow> db \<Rightarrow> db" where
  \<comment> \<open>\<open>save(update_fields=...)\<close> of \<open>refresh_oauth_token\<close>\<close>
  "save_tokens a d = d\<lparr>db_accounts := tbl_update (\<lambda>r. sa_id r = sa_id a)
     (\<lambda>r. r\<lparr>sa_access_token := sa_access_token a, sa_refresh_token := sa_refresh_token a,
            sa_token_expires_at := sa_token_expires_at a, sa_connection := sa_connection a\<rparr>)
     (db_accounts d)\<rparr>"

text \<open>The provider object: what its class declares, the calls bound to the credentials.\<close>

record provider =
  pv_spec :: provider_spec
  pv_api :: provider_api

definition provider_and_access_token ::
  "outside \<Rightarrow> instant \<Rightarrow> social_account \<Rightarrow> db \<Rightarrow> exn + (provider \<times> string \<times> social_account \<times> db)" where
  \<comment> \<open>with the account object as refreshed in memory, and the database with its saved row\<close>
  "provider_and_access_token w now a d =
    (let creds = resolve_publish_credentials (ou_creds w) (org_of_account d a) a in
     case get_provider (sa_platform a) of
       Inl e \<Rightarrow> Inl e
     | Inr spec \<Rightarrow>
        (let pv = \<lparr>pv_spec = spec, pv_api = ou_calls w (sa_platform a) creds\<rparr> in
         if token_expires_within now a PUBLISH_REFRESH_WINDOW \<and> sa_refresh_token a \<noteq> [] then
           (case refresh_oauth_token now (pa_refresh (pv_api pv)) a of
              Inl _ \<Rightarrow> Inr (pv, sa_access_token a, a, d)
            | Inr (t, a') \<Rightarrow> Inr (pv, t, a', save_tokens a' d))
         else Inr (pv, sa_access_token a, a, d)))"

section \<open>The media shared by a post's channels\<close>

text \<open>
  \<open>_SharedMediaCache\<close>: the paths it holds, and the fetches it has asked the file store for. The
  entry's own lock makes one \<open>path_for\<close> on an asset atomic.
\<close>

record media_cache =
  mc_paths :: "(nat \<times> string) list"
  mc_fetched :: "nat list"

definition empty_cache :: media_cache where
  "empty_cache = \<lparr>mc_paths = [], mc_fetched = []\<rparr>"

definition path_for :: "(string \<Rightarrow> exn + string) \<Rightarrow> media_asset \<Rightarrow> media_cache \<Rightarrow> (exn + string) \<times> media_cache" where
  "path_for fetch asset c =
    (case map_of (mc_paths c) (ma_id asset) of
       Some p \<Rightarrow> (Inr p, c)
     | None \<Rightarrow>
        (let c1 = c\<lparr>mc_fetched := mc_fetched c @ [ma_id asset]\<rparr> in
         case fetch (ma_file asset) of
           Inl e \<Rightarrow> (Inl e, c1)
         | Inr p \<Rightarrow> (Inr p, c1\<lparr>mc_paths := (ma_id asset, p) # mc_paths c1\<rparr>)))"

definition cleanup :: "media_cache \<Rightarrow> media_cache" where
  "cleanup c = c\<lparr>mc_paths := []\<rparr>"

text \<open>What the attachment loop of \<open>_dispatch_to_provider\<close> accumulates.\<close>

record gathered =
  ga_files :: "string list"
  ga_urls :: "string list"
  ga_types :: "string list"
  ga_first :: "string option"
  ga_duration :: "int option"
  ga_usable :: nat

definition no_media :: gathered where
  "no_media = \<lparr>ga_files = [], ga_urls = [], ga_types = [], ga_first = None, ga_duration = None, ga_usable = 0\<rparr>"

definition rstrip_slash :: "string \<Rightarrow> string" where
  "rstrip_slash s = rev (dropWhile (\<lambda>c. c = CHR ''/'') (rev s))"

definition public_url :: "outside \<Rightarrow> media_asset \<Rightarrow> string" where
  "public_url w asset =
    (let url = ou_url w (ma_file asset) in
     if py_startswith url ''/'' then rstrip_slash (ec_app_url (ou_config w)) @ url else url)"

definition note_asset :: "outside \<Rightarrow> media_asset \<Rightarrow> gathered \<Rightarrow> gathered" where
  "note_asset w asset g = g
     \<lparr>ga_usable := Suc (ga_usable g),
      ga_first := (if ga_first g = None then Some (ma_media_type asset) else ga_first g),
      ga_duration := (if ga_duration g = None \<and> ma_media_type asset = ''video''
                      then (if ma_duration asset = Some 0 then None else ma_duration asset)
                      else ga_duration g),
      ga_urls := ga_urls g @ [public_url w asset],
      ga_types := ga_types g @ [ma_media_type asset]\<rparr>"

fun gather :: "outside \<Rightarrow> bool \<Rightarrow> media_asset list \<Rightarrow> gathered \<Rightarrow> media_cache \<Rightarrow> (exn + gathered) \<times> media_cache" where
  "gather w needs_local [] g c = (Inr g, c)"
| "gather w needs_local (asset # rest) g c =
    (if ma_file asset = [] then gather w needs_local rest g c
     else if needs_local then
       (case path_for (ou_fetch w) asset c of
          (Inl e, c1) \<Rightarrow> (Inl e, c1)
        | (Inr p, c1) \<Rightarrow>
            (let g1 = note_asset w asset g
             in gather w needs_local rest (g1\<lparr>ga_files := ga_files g1 @ [p]\<rparr>) c1))
     else gather w needs_local rest (note_asset w asset g) c)"

section \<open>The post type\<close>

definition hint_matches_media :: "post_type \<Rightarrow> nat \<Rightarrow> string option \<Rightarrow> bool" where
  "hint_matches_media hint n first_media =
    (if hint = PT_REEL then n = 1 \<and> first_media = Some ''video''
     else if hint = PT_VIDEO then first_media = Some ''video''
     else True)"

definition default_post_type :: "string \<Rightarrow> nat \<Rightarrow> string option \<Rightarrow> post_type" where
  "default_post_type platform n first_media =
    (if platform = ''pinterest'' then PT_PIN
     else if n > 1 \<and> platform \<in> {''instagram'', ''instagram_login'', ''threads''} then PT_CAROUSEL
     else if first_media = Some ''video'' then
       (if platform \<in> {''instagram'', ''instagram_login''} then PT_REEL else PT_VIDEO)
     else if first_media = Some ''image'' then PT_IMAGE
     else PT_TEXT)"

fun hashable :: "json \<Rightarrow> bool" where
  "hashable (JList xs) = False"
| "hashable (JObj kvs) = False"
| "hashable v = True"

definition resolve_post_type :: "string \<Rightarrow> pydict \<Rightarrow> nat \<Rightarrow> string option \<Rightarrow> exn + post_type" where
  \<comment> \<open>a hint that cannot be looked up in the set of values raises \<open>TypeError\<close>\<close>
  "resolve_post_type platform extra n first_media =
    (let hint = dict_get ''post_type'' extra;
         dflt = default_post_type platform n first_media in
     if json_truthy hint \<and> \<not> hashable hint then Inl (other_exn ''unhashable type'')
     else case (case hint of JStr s \<Rightarrow> if s \<noteq> [] then post_type_of s else None | _ \<Rightarrow> None) of
            Some h \<Rightarrow> Inr (if hint_matches_media h n first_media then h else dflt)
          | None \<Rightarrow> Inr dflt)"

section \<open>One call of the provider\<close>

record dispatch_result =
  dr_success :: bool
  dr_handle :: string
  dr_response :: json
  dr_async :: bool
  dr_status_code :: "int option"
  dr_error :: string
  dr_rate_remaining :: "int option"
  dr_rate_resets :: "instant option"

definition attachments :: "nat \<Rightarrow> db \<Rightarrow> (post_media \<times> media_asset) list" where
  "attachments i d =
    concat (map (\<lambda>pm. case get_asset (pm_asset pm) d of Some a \<Rightarrow> [(pm, a)] | None \<Rightarrow> [])
      (sort_key pm_position (filter (\<lambda>pm. pm_post pm = i) (db_media d))))"

definition fetch_extra_asset ::
  "outside \<Rightarrow> db \<Rightarrow> json \<Rightarrow> string \<Rightarrow> pydict \<Rightarrow> exn + pydict" where
  \<comment> \<open>one \<open>MediaAsset.objects.get(id=...)\<close> block: \<open>DoesNotExist\<close> is logged, a bad UUID raises\<close>
  "fetch_extra_asset w d ref key extra =
    (case ou_uuid w ref of
       None \<Rightarrow> Inl (other_exn ''is not a valid UUID'')
     | Some i \<Rightarrow>
        (case get_asset i d of
           None \<Rightarrow> Inr extra
         | Some a \<Rightarrow>
             if ma_file a = [] then Inr extra
             else (case ou_fetch w (ma_file a) of
                     Inl e \<Rightarrow> Inl e
                   | Inr path \<Rightarrow> Inr (dict_set key (JStr path) extra))))"

definition resolve_extra_assets :: "outside \<Rightarrow> db \<Rightarrow> pydict \<Rightarrow> exn + pydict" where
  \<comment> \<open>\<open>MediaAsset\<close> is imported inside the thumbnail branch, so it is a local name of the whole
    method: the cover branch reads it unbound when there is no thumbnail\<close>
  "resolve_extra_assets w d extra =
    (let thumb = dict_get ''thumbnail_asset_id'' extra;
         e1 = dict_pop ''thumbnail_asset_id'' extra in
     case (if json_truthy thumb then fetch_extra_asset w d thumb ''thumbnail_file'' e1 else Inr e1) of
       Inl e \<Rightarrow> Inl e
     | Inr e2 \<Rightarrow>
        (let cover = dict_get ''cover_image_asset_id'' e2;
             e3 = dict_pop ''cover_image_asset_id'' e2 in
         if \<not> json_truthy cover then Inr e3
         else if \<not> json_truthy thumb
         then Inl (other_exn ''cannot access local variable 'MediaAsset' where it is not associated with a value'')
         else fetch_extra_asset w d cover ''cover_image_file'' e3))"

definition inject_ids :: "social_account \<Rightarrow> pydict \<Rightarrow> pydict" where
  "inject_ids a extra =
    (let put = (\<lambda>key v e. if dict_has key e then e else dict_set key (JStr v) e) in
     if sa_platform a = ''facebook'' then put ''page_id'' (sa_platform_id a) extra
     else if sa_platform a = ''instagram'' then put ''ig_user_id'' (sa_platform_id a) extra
     else if sa_platform a = ''linkedin_company'' then
       put ''author'' (''urn:li:organization:'' @ sa_platform_id a) extra
     else extra)"

definition build_content ::
  "outside \<Rightarrow> post \<Rightarrow> platform_post \<Rightarrow> social_account \<Rightarrow> gathered \<Rightarrow> db \<Rightarrow> exn + publish_content" where
  "build_content w po p a g d =
    (let extra = inject_ids a (dict_merge [(''tags'', JList (po_tags po))] (pp_extra p));
         link = dict_get ''link_url'' extra in
     case resolve_extra_assets w d (dict_pop ''link_url'' extra) of
       Inl e \<Rightarrow> Inl e
     | Inr extra2 \<Rightarrow>
        (case resolve_post_type (sa_platform a) (pp_extra p) (ga_usable g) (ga_first g) of
           Inl e \<Rightarrow> Inl e
         | Inr pt \<Rightarrow>
             Inr \<lparr>pb_text = effective_caption po p, pb_title = effective_title po p,
                  pb_description = effective_caption po p,
                  pb_first_comment = effective_first_comment po p,
                  pb_files = ga_files g, pb_urls = ga_urls g, pb_types = ga_types g,
                  pb_post_type = pt, pb_extra = extra2, pb_link = link,
                  pb_duration = ga_duration g\<rparr>))"

definition publish_error_exn :: "string \<Rightarrow> string \<Rightarrow> exn" where
  \<comment> \<open>\<open>PublishError(msg, platform=..., retryable=False)\<close>\<close>
  "publish_error_exn msg platform = \<lparr>ex_class = PublishError, ex_msg = msg, ex_platform = platform,
     ex_raw = JNull, ex_retryable = False, ex_status = None, ex_retry_after = None, ex_resets = NoDeadline\<rparr>"

text \<open>
  Everything \<open>_dispatch_to_provider\<close> does before \<open>provider.publish_post\<close>: the call it is about to
  make, or the exception that stops it. The account object, the database and the cache are those
  it leaves behind either way.
\<close>

definition prepare_dispatch ::
  "outside \<Rightarrow> instant \<Rightarrow> post \<Rightarrow> platform_post \<Rightarrow> social_account \<Rightarrow> media_cache \<Rightarrow> db \<Rightarrow>
   (exn + (provider \<times> string \<times> publish_content)) \<times> social_account \<times> media_cache \<times> db" where
  "prepare_dispatch w now po p a c d =
    (let atts = attachments (po_id po) d;
         blocker = publish_blocker a (usable_media_types (map snd atts)) (pp_extra p) in
     if blocker \<noteq> [] then
       (Inl (publish_error_exn blocker (platform_display (sa_platform a))), a, c, d)
     else
       case provider_and_access_token w now a d of
         Inl e \<Rightarrow> (Inl e, a, c, d)
       | Inr (pv, token, a1, d1) \<Rightarrow>
          (let atts1 = (if spec_video_only (pv_spec pv)
                        then filter (\<lambda>(pm, x). ma_media_type x = ''video'') atts else atts) in
           case gather w (ps_needs_local_media (pv_spec pv)) (map snd atts1) no_media c of
             (Inl e, c1) \<Rightarrow> (Inl e, a1, c1, d1)
           | (Inr g, c1) \<Rightarrow>
              (case build_content w po p a1 g d1 of
                 Inl e \<Rightarrow> (Inl e, a1, c1, d1)
               | Inr content \<Rightarrow> (Inr (pv, token, content), a1, c1, d1))))"

definition dispatch_to_provider ::
  "outside \<Rightarrow> instant \<Rightarrow> post \<Rightarrow> platform_post \<Rightarrow> social_account \<Rightarrow> media_cache \<Rightarrow> db \<Rightarrow>
   (exn + dispatch_result) \<times> social_account \<times> media_cache \<times> db" where
  "dispatch_to_provider w now po p a c d =
    (case prepare_dispatch w now po p a c d of
       (Inl e, a1, c1, d1) \<Rightarrow> (Inl e, a1, c1, d1)
     | (Inr (pv, token, content), a1, c1, d1) \<Rightarrow>
        (case pa_publish (pv_api pv) token content of
           Inl e \<Rightarrow> (Inl e, a1, c1, d1)
         | Inr r \<Rightarrow>
             (Inr \<lparr>dr_success = True, dr_handle = pr_handle r, dr_response = JObj (pr_extra r),
                   dr_async = ps_async (pv_spec pv), dr_status_code = None, dr_error = [],
                   dr_rate_remaining = None, dr_rate_resets = None\<rparr>, a1, c1, d1)))"

section \<open>What a failure says about the next attempt\<close>

definition refused_a_live_token :: "instant \<Rightarrow> social_account \<Rightarrow> exn \<Rightarrow> db \<Rightarrow> bool" where
  "refused_a_live_token now a e d =
    (if \<not> is_credential_rejection e then False
     else case get_account (sa_id a) d of
            None \<Rightarrow> False
          | Some stored \<Rightarrow>
              if sa_access_token stored \<noteq> sa_access_token a then False
              else (case sa_token_expires_at stored of None \<Rightarrow> False | Some t \<Rightarrow> t > now))"

definition is_ambiguous_submission_failure :: "exn \<Rightarrow> bool" where
  "is_ambiguous_submission_failure e =
    (if is_rate_limit e then False
     else case attr_status e of None \<Rightarrow> True | Some s \<Rightarrow> s \<ge> 500)"

definition is_retryable_first_comment_failure :: "exn \<Rightarrow> bool" where
  "is_retryable_first_comment_failure e =
    (if \<not> attr_retryable e then False
     else if is_rate_limit e then True
     else case attr_status e of None \<Rightarrow> True | Some s \<Rightarrow> s \<ge> 500 \<or> s = 401)"

definition can_reconcile_comments :: "provider \<Rightarrow> bool" where
  "can_reconcile_comments pv = ps_can_find_comment (pv_spec pv)"

section \<open>Lemmas: the media cache\<close>

text \<open>Every asset the cache has fetched with success is on it.\<close>

definition cache_ok :: "media_cache \<Rightarrow> bool" where
  "cache_ok c \<longleftrightarrow> distinct (mc_fetched c) \<and> set (mc_fetched c) = fst ` set (mc_paths c)"

lemma cache_ok_empty: "cache_ok empty_cache"
  by (simp add: cache_ok_def empty_cache_def)

lemma path_for_ok:
  assumes "cache_ok c" "path_for fetch asset c = (Inr p, c')"
  shows "cache_ok c' \<and> map_of (mc_paths c') (ma_id asset) = Some p \<and>
    set (mc_fetched c') = insert (ma_id asset) (set (mc_fetched c))"
proof (cases "map_of (mc_paths c) (ma_id asset)")
  case None
  then have n: "ma_id asset \<notin> fst ` set (mc_paths c)" by (simp add: map_of_eq_None_iff)
  show ?thesis
  proof (cases "fetch (ma_file asset)")
    case (Inl e)
    then show ?thesis using assms(2) None by (simp add: path_for_def Let_def)
  next
    case (Inr q)
    then have "p = q" and c': "c' = c\<lparr>mc_fetched := mc_fetched c @ [ma_id asset], mc_paths := (ma_id asset, q) # mc_paths c\<rparr>"
      using assms(2) None by (auto simp: path_for_def Let_def)
    then show ?thesis using assms(1) n by (auto simp: cache_ok_def)
  qed
next
  case (Some q)
  then have "ma_id asset \<in> fst ` set (mc_paths c)"
    using map_of_SomeD [OF Some] by force
  then show ?thesis using assms Some by (auto simp: path_for_def cache_ok_def)
qed

text \<open>The paths a list of requests is answered with, threading the cache as the platforms do.\<close>

fun paths_for :: "(string \<Rightarrow> exn + string) \<Rightarrow> media_asset list \<Rightarrow> media_cache \<Rightarrow> (exn + string) list \<times> media_cache" where
  "paths_for fetch [] c = ([], c)"
| "paths_for fetch (a # as) c =
    (case path_for fetch a c of (r, c1) \<Rightarrow>
     case paths_for fetch as c1 of (rs, c2) \<Rightarrow> (r # rs, c2))"

lemma paths_for_ok:
  assumes "cache_ok c" "paths_for fetch as c = (rs, c')" "\<nexists>e. Inl e \<in> set rs"
  shows "cache_ok c' \<and> set (mc_fetched c') = set (mc_fetched c) \<union> ma_id ` set as"
  using assms
proof (induction as arbitrary: c rs)
  case (Cons a as)
  obtain r c1 where p: "path_for fetch a c = (r, c1)" by (cases "path_for fetch a c")
  obtain rs' where q: "paths_for fetch as c1 = (rs', c')" and rs: "rs = r # rs'"
    using Cons.prems(2) p by (auto split: prod.splits)
  obtain x where "r = Inr x" using Cons.prems(3) rs by (cases r) auto
  then have "cache_ok c1" "set (mc_fetched c1) = insert (ma_id a) (set (mc_fetched c))"
    using path_for_ok [OF Cons.prems(1)] p by auto
  then show ?case using Cons.IH [OF _ q] Cons.prems(3) rs by auto
qed simp

text \<open>
  The platforms of a post share its downloads: over any sequence of requests that the file
  store answers, in whatever order the platform threads make them, each attachment is fetched
  exactly once.
\<close>

theorem media_fetched_once:
  assumes "paths_for fetch as empty_cache = (rs, c)" and "\<nexists>e. Inl e \<in> set rs"
  shows "distinct (mc_fetched c) \<and> set (mc_fetched c) = ma_id ` set as"
proof
  note ok = paths_for_ok [OF cache_ok_empty assms]
  then show "distinct (mc_fetched c)" by (simp add: cache_ok_def)
  show "set (mc_fetched c) = ma_id ` set as" using conjunct2 [OF ok] by (simp add: empty_cache_def)
qed

section \<open>Lemmas: the content\<close>

text \<open>The lists of the content run in parallel, and only a provider that wants files gets them.\<close>

definition gathered_ok :: "bool \<Rightarrow> gathered \<Rightarrow> bool" where
  "gathered_ok needs_local g \<longleftrightarrow> length (ga_urls g) = ga_usable g \<and> length (ga_types g) = ga_usable g \<and>
     length (ga_files g) = (if needs_local then ga_usable g else 0) \<and>
     (ga_first g = (case ga_types g of [] \<Rightarrow> None | t # _ \<Rightarrow> Some t))"

lemma note_asset_first:
  "ga_first g = (case ga_types g of [] \<Rightarrow> None | t # _ \<Rightarrow> Some t) \<Longrightarrow>
    ga_first (note_asset w a g) = (case ga_types (note_asset w a g) of [] \<Rightarrow> None | t # _ \<Rightarrow> Some t)"
  by (auto simp: note_asset_def split: list.splits)

lemma note_asset_ok:
  assumes "gathered_ok nl g"
  shows "gathered_ok nl (if nl then note_asset w a g\<lparr>ga_files := ga_files (note_asset w a g) @ [p]\<rparr> else note_asset w a g)"
  using assms note_asset_first [of g w a] by (auto simp: gathered_ok_def) (auto simp: note_asset_def)

lemma gather_ok:
  assumes "gather w nl as g c = (Inr g', c')" "gathered_ok nl g"
  shows "gathered_ok nl g'"
  using assms
proof (induction as arbitrary: g c)
  case (Cons a as)
  show ?case
  proof (cases "ma_file a = [] \<or> \<not> nl")
    case True
    then show ?thesis
      using Cons note_asset_ok [OF Cons.prems(2), of w a] by (auto split: if_splits)
  next
    case False
    obtain r c1 where p: "path_for (ou_fetch w) a c = (r, c1)"
      by (cases "path_for (ou_fetch w) a c")
    then obtain x where "r = Inr x" using Cons.prems(1) False by (cases r) auto
    then show ?thesis
      using Cons.prems(1) Cons.IH p False note_asset_ok [OF Cons.prems(2), of w a x] by (simp add: Let_def)
  qed
qed simp

lemma no_media_ok: "gathered_ok nl no_media"
  by (simp add: gathered_ok_def no_media_def)

lemma build_content_fields:
  assumes "build_content w po p a g d = Inr content"
  shows "pb_urls content = ga_urls g \<and> pb_types content = ga_types g \<and> pb_files content = ga_files g \<and>
    resolve_post_type (sa_platform a) (pp_extra p) (ga_usable g) (ga_first g) = Inr (pb_post_type content)"
  using assms by (auto simp: build_content_def Let_def split: sum.splits)

lemma resolve_post_type_video:
  assumes "resolve_post_type platform extra n first_media = Inr t"
  shows "t \<in> {PT_VIDEO, PT_REEL} \<longrightarrow> first_media = Some ''video''"
    "t = PT_REEL \<longrightarrow> n \<le> 1"
  using assms
  by (auto simp: resolve_post_type_def Let_def default_post_type_def hint_matches_media_def
      split: if_splits option.splits)

definition sample_config :: engine_config where
  "sample_config = \<lparr>ec_stale = None, ec_confirm = None, ec_unconfirmed = None, ec_max_publishes = None,
     ec_max_posts = None, ec_max_platform = None, ec_comment_delay = None, ec_comment_retries = None,
     ec_app_url = ''https://app.test/'', ec_ws_setting = (\<lambda>_ _. None), ec_org_setting = (\<lambda>_ _. None),
     ec_app_default = (\<lambda>_. JNull)\<rparr>"

definition sample_api :: provider_api where
  "sample_api = \<lparr>pa_publish = (\<lambda>t c. Inr \<lparr>pr_handle = ''h1'', pr_extra = []\<rparr>),
     pa_status = (\<lambda>t h. Inr \<lparr>pt_state = PS_PENDING, pt_handle = [], pt_error = []\<rparr>),
     pa_comment = (\<lambda>t h m. Inr ''c1''), pa_find_comment = (\<lambda>t h m. Inr None),
     pa_refresh = (\<lambda>r. Inl (other_exn ''refused''))\<rparr>"

definition sample_outside :: outside where
  "sample_outside = \<lparr>ou_creds = sample_creds, ou_calls = (\<lambda>_ _. sample_api), ou_fetch = (\<lambda>f. Inr (''/tmp/'' @ f)),
     ou_url = (\<lambda>f. CHR ''/'' # f), ou_uuid = (\<lambda>v. case v of JNum n \<Rightarrow> Some (nat n) | _ \<Rightarrow> None),
     ou_config = sample_config\<rparr>"

end
