(* ===== verification/Publisher.thy ===== *)
theory Publisher
  imports Dispatch
begin

text \<open>
  The publishing engine, \<open>PublishEngine\<close> in \<open>apps/publisher/engine.py\<close>, with the rate limits of
  \<open>apps/publisher/models.py\<close>. A thread works on the object it loaded, not on the row: the object
  (\<open>p\<close>, with its account \<open>a\<close>) and the database are separate arguments throughout, and a full
  \<open>save()\<close> writes the whole object over the row whatever happened to it meanwhile. An operation
  that spans an upload takes two times: \<open>t0\<close> when it starts, \<open>t1\<close> when the provider has answered.
  Writes to the database succeed.
\<close>

section \<open>Constants and rate limits\<close>

definition RETRY_BACKOFF :: "int list" where
  "RETRY_BACKOFF = [60, 300, 1800]"

definition MAX_RETRIES :: nat where
  "MAX_RETRIES = 3"

definition is_rate_limited :: "instant \<Rightarrow> rate_state \<Rightarrow> bool" where
  "is_rate_limited now r =
    (if rs_remaining r = 0 then (case rs_resets_at r of None \<Rightarrow> False | Some t \<Rightarrow> now < t) else False)"

definition can_publish :: "instant \<Rightarrow> rate_state \<Rightarrow> bool" where
  "can_publish now r =
    (if rs_remaining r = -1 then True
     else if rs_remaining r > 0 then True
     else \<not> is_rate_limited now r)"

definition rate_state_of :: "social_account \<Rightarrow> db \<Rightarrow> rate_state option" where
  "rate_state_of a d = tbl_first (\<lambda>r. rs_account r = sa_id a \<and> rs_platform r = sa_platform a) (db_rates d)"

definition update_rate_limit :: "social_account \<Rightarrow> dispatch_result \<Rightarrow> db \<Rightarrow> db" where
  "update_rate_limit a r d =
    (case dr_rate_remaining r of
       None \<Rightarrow> d
     | Some n \<Rightarrow>
        (let same = (\<lambda>x. rs_account x = sa_id a \<and> rs_platform x = sa_platform a) in
         if list_ex same (db_rates d)
         then d\<lparr>db_rates := tbl_update same (\<lambda>x. x\<lparr>rs_remaining := n, rs_resets_at := dr_rate_resets r\<rparr>) (db_rates d)\<rparr>
         else d\<lparr>db_rates := db_rates d @ [\<lparr>rs_account = sa_id a, rs_platform = sa_platform a,
                  rs_remaining = n, rs_resets_at = dr_rate_resets r\<rparr>]\<rparr>))"

section \<open>Giving up and retrying\<close>

definition notify_publish_failed :: "platform_post \<Rightarrow> string \<Rightarrow> db \<Rightarrow> db" where
  "notify_publish_failed p publish_error d =
    (case get_post (pp_post p) d of
       None \<Rightarrow> d
     | Some po \<Rightarrow>
        (case po_author po of
           None \<Rightarrow> d
         | Some u \<Rightarrow>
            (case get_account (pp_account p) d of
               None \<Rightarrow> d
             | Some a \<Rightarrow>
                 add_note \<lparr>nt_user = u, nt_event = ''post_failed'',
                   nt_title = platform_display (sa_platform a) @ '' post failed to publish'',
                   nt_body = publish_error,
                   nt_data = [(''post_id'', JNum (int (pp_post p))),
                              (''platform_post_id'', JNum (int (pp_id p))),
                              (''platform'', JStr (sa_platform a))]\<rparr> d)))"

definition in_publishing :: "nat \<Rightarrow> platform_post \<Rightarrow> bool" where
  "in_publishing i r = (pp_id r = i \<and> pp_status r = PUBLISHING)"

definition fail_permanently :: "instant \<Rightarrow> platform_post \<Rightarrow> string \<Rightarrow> db \<Rightarrow> db" where
  \<comment> \<open>the targeted \<open>UPDATE\<close> on a row still in \<open>publishing\<close>; only whoever settles it tells the author\<close>
  "fail_permanently now p user_message d =
    (let publish_error = take 2000 (py_or user_message PUBLISH_GENERIC_MESSAGE) in
     if list_ex (in_publishing (pp_id p)) (db_pps d)
     then notify_publish_failed p publish_error
            (update_pps (in_publishing (pp_id p))
              (\<lambda>r. r\<lparr>pp_status := FAILED, pp_publish_error := publish_error, pp_updated_at := now\<rparr>) d)
     else d)"

definition next_retry :: "instant \<Rightarrow> nat \<Rightarrow> deadline \<Rightarrow> instant" where
  "next_retry now retries retry_at =
    (case retry_at of
       At t \<Rightarrow> max t (now + seconds 1)
     | _ \<Rightarrow> now + seconds (RETRY_BACKOFF ! min retries (length RETRY_BACKOFF - 1)))"

definition schedule_retry :: "instant \<Rightarrow> platform_post \<Rightarrow> string \<Rightarrow> deadline \<Rightarrow> db \<Rightarrow> db" where
  "schedule_retry now p user_message retry_at d =
    (if pp_retry_count p \<ge> MAX_RETRIES
     then fail_permanently now p (exhausted_publish_message user_message) d
     else save_pp (p\<lparr>pp_next_retry_at := Some (next_retry now (pp_retry_count p) retry_at),
                     pp_retry_count := Suc (pp_retry_count p), pp_status := SCHEDULED,
                     pp_publish_error := take 2000 (py_or user_message PUBLISH_GENERIC_MESSAGE),
                     pp_updated_at := now\<rparr>) d)"

section \<open>After a success\<close>

definition sync_parent_published_at :: "instant \<Rightarrow> nat \<Rightarrow> db \<Rightarrow> db" where
  "sync_parent_published_at now i d =
    (case get_post i d of
       None \<Rightarrow> d
     | Some po \<Rightarrow>
        (let times = somes (map pp_published_at (children i d)) in
         if times = [] then d
         else let latest = Max (set times) in
           if po_published_at po \<noteq> Some latest
           then save_post (po\<lparr>po_published_at := Some latest, po_updated_at := now\<rparr>) d
           else d))"

definition resolve_credentials_of :: "outside \<Rightarrow> db \<Rightarrow> social_account \<Rightarrow> pydict" where
  "resolve_credentials_of w d a = resolve_publish_credentials (ou_creds w) (org_of_account d a) a"

definition maybe_schedule_first_comment :: "outside \<Rightarrow> platform_post \<Rightarrow> db \<Rightarrow> db" where
  "maybe_schedule_first_comment w p d =
    (case get_account (pp_account p) d of
       None \<Rightarrow> d
     | Some a \<Rightarrow>
        (case get_post (pp_post p) d of
           None \<Rightarrow> d
         | Some po \<Rightarrow>
             if pp_status p \<noteq> PUBLISHED then d
             else if \<not> supports_first_comment (resolve_credentials_of w d) a then d
             else if effective_first_comment po p = [] then d
             else if pp_fc_status p \<in> {FC_PENDING, FC_POSTED} then d
             else
               let delay = first_comment_delay (ou_config w) (org_of_workspace d) (po_workspace po);
                   d1 = d\<lparr>db_tasks := db_tasks d @ [\<lparr>bt_pp = pp_id p, bt_delay = delay\<rparr>]\<rparr>
               in update_pps (\<lambda>r. pp_id r = pp_id p) (\<lambda>r. r\<lparr>pp_fc_status := FC_PENDING\<rparr>) d1))"

definition add_log :: "publish_log \<Rightarrow> db \<Rightarrow> db" where
  "add_log l d = d\<lparr>db_logs := db_logs d @ [l]\<rparr>"

section \<open>One attempt\<close>

definition accepted_object :: "instant \<Rightarrow> platform_post \<Rightarrow> dispatch_result \<Rightarrow> platform_post" where
  \<comment> \<open>the object after a successful call, as it is saved\<close>
  "accepted_object now p r =
    (let extra = (case dr_response r of
                    JObj x \<Rightarrow> if x \<noteq> [] then dict_merge (pp_extra p) x else pp_extra p
                  | _ \<Rightarrow> pp_extra p);
         q = p\<lparr>pp_handle := dr_handle r, pp_extra := extra, pp_retry_count := 0,
               pp_next_retry_at := None, pp_publish_error := [], pp_updated_at := now\<rparr>
     in if dr_async r then q\<lparr>pp_status := PUBLISHING\<rparr>
        else q\<lparr>pp_status := PUBLISHED, pp_published_at := Some now\<rparr>)"

datatype attempt_result = Failed_Attempt | Accepted_Async platform_post | Published_Now platform_post

text \<open>
  What \<open>_publish_platform_post\<close> does once the provider has answered, or an exception has reached
  it: the object \<open>p\<close> is the one the thread loaded before, the database is the one of now.
\<close>

definition settle_attempt ::
  "instant \<Rightarrow> platform_post \<Rightarrow> social_account \<Rightarrow> exn + dispatch_result \<Rightarrow> db \<Rightarrow> attempt_result \<times> db" where
  "settle_attempt now p a outcome d =
    (case outcome of
       Inr r \<Rightarrow>
         if dr_success r then
           let q = accepted_object now p r;
               d1 = save_pp q d;
               d2 = (if dr_async r then d1 else drop_entries (pp_post p) (pp_account p) d1);
               d3 = add_log \<lparr>pl_pp = pp_id p, pl_attempt = Suc (pp_retry_count p),
                             pl_status_code = Some (or_default (dr_status_code r) 200), pl_error = []\<rparr> d2
           in (if dr_async r then Accepted_Async q else Published_Now q, update_rate_limit a r d3)
         else
           let d1 = add_log \<lparr>pl_pp = pp_id p, pl_attempt = Suc (pp_retry_count p),
                             pl_status_code = dr_status_code r, pl_error = dr_error r\<rparr> d
           in (Failed_Attempt, schedule_retry now p PUBLISH_GENERIC_MESSAGE NoDeadline d1)
     | Inl e \<Rightarrow>
         let d1 = add_log \<lparr>pl_pp = pp_id p, pl_attempt = Suc (pp_retry_count p),
                           pl_status_code = None, pl_error = ex_msg e\<rparr> d;
             user_message = friendly_publish_error e now
         in (Failed_Attempt,
             if attr_retryable e \<and> \<not> refused_a_live_token now a e d1
             then schedule_retry now p user_message (attr_resets e) d1
             else fail_permanently now p user_message d1))"

definition publish_platform_post ::
  "outside \<Rightarrow> instant \<Rightarrow> instant \<Rightarrow> platform_post \<Rightarrow> social_account \<Rightarrow> post \<Rightarrow> media_cache \<Rightarrow> db \<Rightarrow>
   attempt_result \<times> media_cache \<times> db" where
  "publish_platform_post w t0 t1 p a po c d =
    (if (case rate_state_of a d of None \<Rightarrow> False | Some r \<Rightarrow> is_rate_limited t0 r)
     then (Failed_Attempt, c, schedule_retry t0 p PUBLISH_RATE_LIMIT_MESSAGE NoDeadline d)
     else
       case dispatch_to_provider w t0 po p a c d of
         (outcome, a1, c1, d1) \<Rightarrow>
           (case settle_attempt t1 p a1 outcome d1 of (res, d2) \<Rightarrow> (res, c1, d2)))"

section \<open>The poll\<close>

definition on_hold :: "nat \<Rightarrow> db \<Rightarrow> bool" where
  \<comment> \<open>some channel of the post is on hold\<close>
  "on_hold i d = list_ex (\<lambda>r. pp_post r = i \<and> pp_status r = ON_HOLD) (db_pps d)"

definition effective_at :: "db \<Rightarrow> platform_post \<Rightarrow> instant option" where
  \<comment> \<open>\<open>Coalesce("scheduled_at", "post__scheduled_at")\<close>\<close>
  "effective_at d p =
    (case pp_scheduled_at p of
       Some t \<Rightarrow> Some t
     | None \<Rightarrow> (case get_post (pp_post p) d of None \<Rightarrow> None | Some po \<Rightarrow> po_scheduled_at po))"

definition is_due :: "instant \<Rightarrow> db \<Rightarrow> platform_post \<Rightarrow> bool" where
  "is_due now d p =
    (pp_status p = SCHEDULED \<and>
     (case effective_at d p of None \<Rightarrow> False | Some t \<Rightarrow> t \<le> now) \<and>
     \<not> (pp_retry_count p > 0 \<and> (case pp_next_retry_at p of None \<Rightarrow> False | Some t \<Rightarrow> t > now)) \<and>
     \<not> on_hold (pp_post p) d)"

definition get_due_platform_posts :: "outside \<Rightarrow> instant \<Rightarrow> db \<Rightarrow> platform_post list" where
  "get_due_platform_posts w now d =
    take (nat (max_concurrent_publishes (ou_config w)))
      (sort_key (\<lambda>p. the (effective_at d p)) (filter (is_due now d) (db_pps d)))"

text \<open>
  \<open>ticks\<close> gives each attempt its two times. The platform threads run one after another in this
  model, in the order they were submitted; each works on its own row.
\<close>

type_synonym ticks = "nat \<Rightarrow> instant \<times> instant"

definition attempt_row ::
  "outside \<Rightarrow> instant \<times> instant \<Rightarrow> platform_post \<Rightarrow> media_cache \<Rightarrow> db \<Rightarrow> attempt_result \<times> media_cache \<times> db" where
  \<comment> \<open>\<open>_publish_platform_post\<close> on the object's own account and post\<close>
  "attempt_row w tick p c d =
    (case get_account (pp_account p) d of
       None \<Rightarrow> (Failed_Attempt, c, d)
     | Some a \<Rightarrow>
        (case get_post (pp_post p) d of
           None \<Rightarrow> (Failed_Attempt, c, d)
         | Some po \<Rightarrow> publish_platform_post w (fst tick) (snd tick) p a po c d))"

fun publish_all :: "outside \<Rightarrow> ticks \<Rightarrow> nat \<Rightarrow> platform_post list \<Rightarrow> media_cache \<Rightarrow> db \<Rightarrow> db" where
  "publish_all w ticks k [] c d = d"
| "publish_all w ticks k (p # ps) c d =
    (case attempt_row w (ticks k) p c d of (_, c1, d1) \<Rightarrow> publish_all w ticks (Suc k) ps c1 d1)"

definition claim :: "instant \<Rightarrow> platform_post list \<Rightarrow> db \<Rightarrow> db" where
  "claim now ps d =
    update_pps (\<lambda>r. pp_id r \<in> pp_id ` set ps) (\<lambda>r. r\<lparr>pp_status := PUBLISHING, pp_updated_at := now\<rparr>) d"

definition claimable :: "nat \<Rightarrow> platform_post list \<Rightarrow> db \<Rightarrow> platform_post list" where
  \<comment> \<open>under the lock: nothing when a channel is on hold, else the due ones still scheduled\<close>
  "claimable i due d =
    (if on_hold i d then []
     else filter (\<lambda>r. pp_id r \<in> pp_id ` set due \<and> pp_status r = SCHEDULED) (children i d))"

definition publish_post_group ::
  "outside \<Rightarrow> instant \<Rightarrow> ticks \<Rightarrow> nat \<Rightarrow> platform_post list \<Rightarrow> db \<Rightarrow> bool \<times> db" where
  "publish_post_group w now ticks i due d =
    (let ps = claimable i due d in
     if ps = [] then (False, d)
     else
       let d1 = publish_all w ticks 0 ps empty_cache (claim now ps d);
           d2 = sync_parent_published_at now i d1;
           refreshed = filter (\<lambda>r. pp_id r \<in> pp_id ` set ps) (db_pps d2)
       in (True, fold (maybe_schedule_first_comment w) refreshed d2))"

definition group_ids :: "platform_post list \<Rightarrow> nat list" where
  \<comment> \<open>the keys of \<open>groups\<close>, in insertion order\<close>
  "group_ids due = rev (remdups (rev (map pp_post due)))"

definition retry_due :: "instant \<Rightarrow> db \<Rightarrow> platform_post \<Rightarrow> bool" where
  "retry_due now d p =
    (pp_status p = SCHEDULED \<and> pp_retry_count p > 0 \<and> pp_retry_count p \<le> MAX_RETRIES \<and>
     (case pp_next_retry_at p of None \<Rightarrow> False | Some t \<Rightarrow> t \<le> now) \<and> \<not> on_hold (pp_post p) d)"

definition save_status :: "instant \<Rightarrow> platform_post \<Rightarrow> db \<Rightarrow> db" where
  \<comment> \<open>\<open>save(update_fields=["status", "updated_at"])\<close>\<close>
  "save_status now p d = update_pps (\<lambda>r. pp_id r = pp_id p) (\<lambda>r. r\<lparr>pp_status := pp_status p, pp_updated_at := now\<rparr>) d"

definition retry_one :: "outside \<Rightarrow> instant \<times> instant \<Rightarrow> platform_post \<Rightarrow> db \<Rightarrow> db" where
  \<comment> \<open>one turn of the loop of \<open>_process_retries\<close> on the object the query loaded\<close>
  "retry_one w tick p d =
    (if on_hold (pp_post p) d then d
     else
       let q = p\<lparr>pp_status := PUBLISHING, pp_updated_at := fst tick\<rparr> in
       case attempt_row w tick q empty_cache (save_status (fst tick) q d) of
         (Failed_Attempt, _, d1) \<Rightarrow> d1
       | (Accepted_Async _, _, d1) \<Rightarrow> d1
       | (Published_Now q1, _, d1) \<Rightarrow>
           maybe_schedule_first_comment w q1 (sync_parent_published_at (snd tick) (pp_post p) d1))"

fun retry_all :: "outside \<Rightarrow> ticks \<Rightarrow> nat \<Rightarrow> platform_post list \<Rightarrow> db \<Rightarrow> db" where
  "retry_all w ticks k [] d = d"
| "retry_all w ticks k (p # ps) d = retry_all w ticks (Suc k) ps (retry_one w (ticks k) p d)"

definition process_retries :: "outside \<Rightarrow> instant \<Rightarrow> ticks \<Rightarrow> db \<Rightarrow> db" where
  "process_retries w now ticks d = retry_all w ticks 0 (filter (retry_due now d) (db_pps d)) d"

fun publish_groups ::
  "outside \<Rightarrow> instant \<Rightarrow> (nat \<Rightarrow> ticks) \<Rightarrow> platform_post list \<Rightarrow> nat list \<Rightarrow> nat \<times> db \<Rightarrow> nat \<times> db" where
  "publish_groups w now ticks due [] nd = nd"
| "publish_groups w now ticks due (i # is) (n, d) =
    (case publish_post_group w now (ticks (length is)) i (filter (\<lambda>p. pp_post p = i) due) d of
       (dispatched, d1) \<Rightarrow> publish_groups w now ticks due is (if dispatched then Suc n else n, d1))"

definition poll_and_publish ::
  "outside \<Rightarrow> instant \<Rightarrow> (nat \<Rightarrow> ticks) \<Rightarrow> instant \<Rightarrow> ticks \<Rightarrow> db \<Rightarrow> nat \<times> db" where
  "poll_and_publish w now ticks later retry_ticks d =
    (let due = get_due_platform_posts w now d in
     case publish_groups w now ticks due (group_ids due) (0, d) of
       (n, d1) \<Rightarrow> (n, process_retries w later retry_ticks d1))"

section \<open>The confirmation sweep\<close>

record deadlines =
  dl_stale :: instant
  dl_confirm :: instant
  dl_unconfirmed :: instant

definition sweep_deadlines :: "engine_config \<Rightarrow> instant \<Rightarrow> deadlines" where
  "sweep_deadlines c now =
    \<lparr>dl_stale = now - seconds (stale_publishing_timeout c),
     dl_confirm = now - seconds (publish_confirm_timeout c),
     dl_unconfirmed = now - seconds (publish_unconfirmed_timeout c)\<rparr>"

definition mark_confirmed_published :: "outside \<Rightarrow> instant \<Rightarrow> platform_post \<Rightarrow> string \<Rightarrow> db \<Rightarrow> db" where
  "mark_confirmed_published w now p handle d =
    (let q = p\<lparr>pp_handle := handle, pp_status := PUBLISHED, pp_published_at := Some now,
               pp_publish_error := [], pp_updated_at := now\<rparr>;
         d1 = drop_entries (pp_post p) (pp_account p) (save_pp q d)
     in maybe_schedule_first_comment w q (sync_parent_published_at now (pp_post p) d1))"

definition give_up_unconfirmed :: "instant \<Rightarrow> platform_post \<Rightarrow> db \<Rightarrow> db" where
  "give_up_unconfirmed now p d = fail_permanently now p PUBLISH_UNCONFIRMED_MESSAGE d"

definition confirm_one_publish ::
  "outside \<Rightarrow> instant \<Rightarrow> deadlines \<Rightarrow> platform_post \<Rightarrow> db \<Rightarrow> bool \<times> db" where
  "confirm_one_publish w now dl p d =
    (if pp_handle p = [] then
       (if pp_updated_at p < dl_stale dl
        then (True, fail_permanently now p PUBLISH_INTERRUPTED_MESSAGE d) else (False, d))
     else
       case get_account (pp_account p) d of
         None \<Rightarrow> (False, d)
       | Some a \<Rightarrow>
          (case provider_and_access_token w now a d of
             Inl e \<Rightarrow> (False, d)
           | Inr (pv, token, a1, d1) \<Rightarrow>
               if \<not> ps_async (pv_spec pv) then
                 (if pp_updated_at p < dl_stale dl
                  then (True, fail_permanently now p PUBLISH_INTERRUPTED_MESSAGE d1) else (False, d1))
               else
                 (case pa_status (pv_api pv) token (pp_handle p) of
                    Inl e \<Rightarrow>
                      if pp_updated_at p < dl_unconfirmed dl
                      then (True, give_up_unconfirmed now p d1) else (False, d1)
                  | Inr st \<Rightarrow>
                      if pt_state st = PS_COMPLETE then
                        (True, mark_confirmed_published w now p (py_or (pt_handle st) (pp_handle p)) d1)
                      else if pt_state st \<in> {PS_FAILED, PS_INBOX} then
                        (True, fail_permanently now p (py_or (pt_error st) PUBLISH_GENERIC_MESSAGE) d1)
                      else if pp_updated_at p < dl_confirm dl then
                        (True, fail_permanently now p PUBLISH_CONFIRM_TIMEOUT_MESSAGE d1)
                      else (False, d1))))"

fun confirm_all :: "outside \<Rightarrow> (nat \<Rightarrow> instant) \<Rightarrow> deadlines \<Rightarrow> nat \<Rightarrow> platform_post list \<Rightarrow> nat \<times> db \<Rightarrow> nat \<times> db" where
  "confirm_all w ticks dl k [] nd = nd"
| "confirm_all w ticks dl k (p # ps) (n, d) =
    (case confirm_one_publish w (ticks k) dl p d of
       (settled, d1) \<Rightarrow> confirm_all w ticks dl (Suc k) ps (if settled then Suc n else n, d1))"

definition confirm_pending_publishes :: "outside \<Rightarrow> instant \<Rightarrow> (nat \<Rightarrow> instant) \<Rightarrow> db \<Rightarrow> nat \<times> db" where
  "confirm_pending_publishes w now ticks d =
    confirm_all w ticks (sweep_deadlines (ou_config w) now) 0
      (filter (\<lambda>p. pp_status p = PUBLISHING) (db_pps d)) (0, d)"

end
