(* ===== verification/Autosave.thy ===== *)
theory Autosave
  imports Save_Effects Publisher
begin

text \<open>
  Where the composer's handlers let more through than their guards say: the autosave of a post the
  client names, a channel it adds on another workspace's account, a channel under way that a save
  schedules again, and the uploads of a new post that is queued. Each is stated over the handlers
  of Save_Post and, where it matters, carried to what the publisher then finds due.
\<close>

section \<open>Autosave\<close>

lemma child_on_iff: "child_on po a d \<noteq> None \<longleftrightarrow> (\<exists>p \<in> set (db_pps d). pp_post p = po \<and> pp_account p = a)"
  unfolding child_on_def tbl_first_None by blast

lemma get_or_create_child_on:
  assumes "get_or_create_child now po a s d = (p, d')"
  shows "child_on po a d' \<noteq> None" "child_on po b d \<noteq> None \<Longrightarrow> child_on po b d' \<noteq> None"
    "db_accounts d' = db_accounts d" "db_posts d' = db_posts d"
proof -
  have "(child_on po a d \<noteq> None \<and> d' = d) \<or>
      (db_pps d' = db_pps d @ [p] \<and> pp_post p = po \<and> pp_account p = a \<and> db_accounts d' = db_accounts d \<and> db_posts d' = db_posts d)"
    using assms by (cases "child_on po a d") (auto simp: get_or_create_child_def fresh_id_def Let_def new_platform_post_def)
  then show "child_on po a d' \<noteq> None" "child_on po b d \<noteq> None \<Longrightarrow> child_on po b d' \<noteq> None"
    "db_accounts d' = db_accounts d" "db_posts d' = db_posts d"
    unfolding child_on_iff by auto
qed

lemma autosave_children_result:
  assumes "\<And>a. a \<in> set (somes (map parse_uuid accs)) \<Longrightarrow> get_account a d \<noteq> None"
  shows "\<exists>d'. autosave_children now po accs d = (True, d') \<and> db_posts d' = db_posts d \<and>
    (\<forall>a \<in> set (somes (map parse_uuid accs)). child_on po a d' \<noteq> None) \<and>
    (\<forall>b. child_on po b d \<noteq> None \<longrightarrow> child_on po b d' \<noteq> None)"
  using assms
proof (induction now po accs d rule: autosave_children.induct)
  case (1 now po d)
  then show ?case by simp
next
  case (2 now po acc accs d)
  show ?case
  proof (cases "parse_uuid acc")
    case None
    then show ?thesis using "2.IH"(1) [OF None] "2.prems" by simp
  next
    case (Some a)
    obtain p d1 where g: "get_or_create_child now po a DRAFT d = (p, d1)" by fastforce
    note G = get_or_create_child_on [OF g]
    have ok: "\<not> (get_account a d = None \<and> child_on po a d = None)" using "2.prems" Some by simp
    have "\<exists>d'. autosave_children now po accs d1 = (True, d') \<and> db_posts d' = db_posts d1 \<and>
      (\<forall>a \<in> set (somes (map parse_uuid accs)). child_on po a d' \<noteq> None) \<and>
      (\<forall>b. child_on po b d1 \<noteq> None \<longrightarrow> child_on po b d' \<noteq> None)"
      using "2.IH"(2) [OF Some ok] "2.prems" G(3) Some by (simp add: g get_account_def)
    then obtain d' where "autosave_children now po accs d1 = (True, d')" "db_posts d' = db_posts d1"
      "\<forall>a \<in> set (somes (map parse_uuid accs)). child_on po a d' \<noteq> None"
      "\<forall>b. child_on po b d1 \<noteq> None \<longrightarrow> child_on po b d' \<noteq> None" by blast
    then show ?thesis using G(1,2,4) ok Some g
      by (intro exI [of _ d']) auto
  qed
qed

text \<open>
  An autosave that names its post in the form asks for no right to it. Any member who may create
  posts overwrites the texts of any post of the workspace, its author's or not, published or not,
  and gives it a channel on every account the form names, of whatever workspace.
\<close>

theorem autosave_by_form_checks_nothing:
  assumes "enter rq w (Some ''create_posts'') d = Inr (u, m, ws)"
    and "post_text ''_autosave_post_id'' rq \<noteq> []" "parse_uuid (post_text ''_autosave_post_id'' rq) = Some i"
    and "workspace_post i w d = Some po" "get_post i d = Some po"
    and "length (post_get ''title'' [] rq) \<le> 255" "account_scope rq = Some sc"
    and "\<And>a. a \<in> set (selected_keys rq) \<Longrightarrow> get_account a d \<noteq> None"
  shows "\<exists>d'. autosave now rq w None d = (Done i, d') \<and>
    get_post i d' = Some ((autosave_fields rq po)\<lparr>po_updated_at := now\<rparr>) \<and>
    (\<forall>a \<in> set (selected_keys rq). child_on i a d' \<noteq> None)"
proof -
  have id: "po_id po = i" using tbl_first_Some [OF assms(4) [unfolded workspace_post_def]] by simp
  have target: "autosave_target_of rq u m w None d = Existing po None"
    using assms(2-4) by (simp add: autosave_target_of_def Let_def)
  define d1 where "d1 = store_post now True (autosave_fields rq po) d"
  define d2 where "d2 = delete_pps (is_deselected rq sc i) d1"
  have acc: "db_accounts d2 = db_accounts d" by (simp add: d2_def d1_def delete_pps_def Let_def store_post_def save_post_def)
  obtain d' where d': "autosave_children now i (selected_accounts rq) d2 = (True, d')" "db_posts d' = db_posts d2"
    "\<forall>a \<in> set (selected_keys rq). child_on i a d' \<noteq> None"
    using autosave_children_result [of "selected_accounts rq" d2 now i] assms(8) acc
    by (auto simp: selected_keys_def get_account_def)
  have "autosave now rq w None d = (Done i, d')"
    using assms(1,6,7) target d'(1) id
    by (simp add: autosave_def autosave_write_def Let_def remove_deselected_platform_posts_def autosave_fields_def
        d1_def d2_def)
  moreover have "get_post i d' = Some ((autosave_fields rq po)\<lparr>po_updated_at := now\<rparr>)"
    using d'(2) assms(5) id
    by (simp add: get_post_def d2_def delete_pps_def Let_def d1_def store_post_def save_post_def tbl_get_save autosave_fields_def)
  ultimately show ?thesis using d'(3) by blast
qed

section \<open>Scheduling what is under way, or another's\<close>

text \<open>
  C11. Scheduling a post again frees a channel that is under way. A channel the publisher has claimed
  and not settled, selected in the form or not, is scheduled by an unscoped save of the post,
  without the handle its attempt was given; if it was due it is due again at once, for a second
  publication.
\<close>

theorem schedule_frees_channel_under_way:
  assumes "rows_fresh d" and "save_post_view zones now rq w (Some i) (Some f) d = (Done k, d')"
    and "post_get ''action'' ''save_draft'' rq \<in> set [''schedule'', ''publish_now'']"
    and "workspace_post i w d = Some po" and "account_scope rq = Some None"
    and "p \<in> set (children i d)" and "pp_status p = PUBLISHING" and "pp_scheduled_at p = Some t" and "t \<le> later"
    and "\<not> on_hold i d'"
  shows "\<exists>q \<in> set (db_pps d'). pp_id q = pp_id p \<and> pp_handle q = [] \<and> is_due later d' q"
proof -
  have a: "post_get ''action'' ''save_draft'' rq \<notin> set LEAVING_ACTIONS" using assms(3) by (auto simp: LEAVING_ACTIONS_def)
  have n: "\<not> is_deselected rq None i p" using assms(7) by (simp add: is_deselected_def PROTECTED_STATUSES_def)
  obtain q where q: "q \<in> set (children i d')" "same_place p q" "pp_status q = SCHEDULED"
    "pp_scheduled_at q = Some t" "pp_handle q = []" "pp_retry_count q = 0"
    using saved_channel_core [OF assms(1,2) a assms(4,5,6) n] assms(3,7,8)
    by (auto simp: final_status_def UNMOVED_def in_scope_def)
  then have "is_due later d' q" using assms(9,10) by (simp add: is_due_def effective_at_def children_def)
  then show ?thesis using q by (auto simp: children_def same_place_def)
qed

lemma autosave_children_drafts:
  assumes "autosave_children now i accs d = (b, d')" "rows_fresh d" "\<forall>p \<in> set (children i d). pp_status p = DRAFT"
  shows "rows_fresh d' \<and> (\<forall>p \<in> set (children i d'). pp_status p = DRAFT) \<and>
    (\<forall>c. child_on i c d \<noteq> None \<longrightarrow> child_on i c d' \<noteq> None) \<and>
    (b \<longrightarrow> (\<forall>a \<in> set (somes (map parse_uuid accs)). child_on i a d' \<noteq> None))"
  using assms
proof (induction now i accs d rule: autosave_children.induct)
  case (2 now i acc accs d)
  show ?case
  proof (cases "parse_uuid acc")
    case None
    then show ?thesis using 2 by simp
  next
    case (Some a)
    show ?thesis
    proof (cases "get_account a d = None \<and> child_on i a d = None")
      case False
      obtain p d1 where g: "get_or_create_child now i a DRAFT d = (p, d1)" by fastforce
      have "rows_fresh d1" by (rule rows_fresh_get_or_create [OF g "2.prems"(2)])
      moreover have "\<forall>p \<in> set (children i d1). pp_status p = DRAFT"
      proof -
        have "db_pps d1 = db_pps d \<or> (\<exists>r. db_pps d1 = db_pps d @ [r] \<and> pp_status r = DRAFT)"
          using g by (cases "child_on i a d") (auto simp: get_or_create_child_def fresh_id_def Let_def)
        then show ?thesis using "2.prems"(3) by (auto simp: children_def)
      qed
      moreover have "autosave_children now i accs d1 = (b, d')" using "2.prems"(1) Some False g by simp
      ultimately have "rows_fresh d' \<and> (\<forall>p \<in> set (children i d'). pp_status p = DRAFT) \<and>
          (\<forall>c. child_on i c d1 \<noteq> None \<longrightarrow> child_on i c d' \<noteq> None) \<and>
          (b \<longrightarrow> (\<forall>a \<in> set (somes (map parse_uuid accs)). child_on i a d' \<noteq> None))"
        using "2.IH"(2) [OF Some False] by (simp add: g)
      then show ?thesis using get_or_create_child_on(1,2) [OF g] Some by auto
    qed (use 2 Some in auto)
  qed
qed simp

text \<open>
  A channel on another workspace's account can be published. When the first autosave of a new
  post names an account of another workspace, a later save of the post with the action
  \<open>schedule\<close> schedules its channel there, where the publisher finds it by its status alone.
\<close>

theorem foreign_channel_gets_scheduled:
  assumes "rows_fresh d" "\<And>p. p \<in> set (db_pps d) \<Longrightarrow> pp_post p < db_next d"
    and "post_text ''_autosave_post_id'' rq = []" "autosave now rq w None d = (Done i, d1)"
    and "a \<in> set (selected_keys rq)" "get_account a d = Some x" "sa_workspace x \<noteq> w"
    and "save_post_view zones later rq2 w (Some i) (Some f) d1 = (Done k, d2)"
    and "post_get ''action'' ''save_draft'' rq2 = ''schedule''"
    and "account_scope rq2 = Some None" "a \<in> set (selected_keys rq2)"
  shows "\<exists>q \<in> set (children i d2). pp_account q = a \<and> pp_status q = SCHEDULED"
proof -
  obtain u m ws where e: "enter rq w (Some ''create_posts'') d = Inr (u, m, ws)"
    using assms(4) enter_not_Done by (cases "enter rq w (Some ''create_posts'') d") (auto simp: autosave_def)
  have "autosave_target_of rq u m w None d = Fresh" using assms(3) by (simp add: autosave_target_of_def Let_def)
  then have wr: "autosave_write now rq w False (blank_post (db_next d) w u now) None d = (Done i, d1)"
    using assms(4) by (simp add: autosave_def e)
  define po where "po = autosave_fields rq (blank_post (db_next d) w u now)"
  define e1 where "e1 = attach_pending rq (db_next d) w (store_post now False po d)"
  have idp: "po_id po = db_next d" by (simp add: po_def autosave_fields_def blank_post_def)
  obtain e2 where rm: "remove_deselected_platform_posts rq (db_next d) e1 = Some e2"
    and ch: "autosave_children now (db_next d) (selected_accounts rq) e2 = (True, d1)" and i: "i = db_next d"
    using wr idp unfolding autosave_write_def Let_def po_def [symmetric]
    by (auto simp: e1_def split: if_splits option.splits prod.splits bool.splits)
  have st: "still d e1" unfolding e1_def by (rule st.transR [OF still_writes(1,2)])
  then have "rows_fresh e1" using assms(1) by (auto simp: still_def rows_fresh_def intro: order_less_le_trans)
  then have f2: "rows_fresh e2" by (rule tidy_fresh [OF delete_tidy [OF rm]])
  have "children (db_next d) e1 = []" using st assms(2) by (fastforce simp: still_def children_def filter_empty_conv)
  then have "children (db_next d) e2 = []" using rm
    by (auto simp: remove_deselected_platform_posts_def delete_pps_def Let_def children_def tbl_delete_def filter_empty_conv
        split: option.splits)
  then have D: "rows_fresh d1" "\<forall>p \<in> set (children i d1). pp_status p = DRAFT" "child_on i a d1 \<noteq> None"
    using autosave_children_drafts [OF ch f2] assms(5) i by (simp_all add: selected_keys_def)
  then obtain p where p: "p \<in> set (children i d1)" "pp_account p = a" "pp_status p = DRAFT"
    unfolding child_on_iff by (auto simp: children_def)
  obtain s where s: "load_post later rq2 w (Some i) (Some f) d1 = Inr s"
    by (rule save_view_Done [OF assms(8)])
  obtain po2 where po2: "workspace_post i w d1 = Some po2" using load_post_Inr(8) [OF s refl] by blast
  have act: "post_get ''action'' ''save_draft'' rq2 \<notin> set LEAVING_ACTIONS" using assms(9) by (simp add: LEAVING_ACTIONS_def)
  have n: "\<not> is_deselected rq2 None i p" using assms(11) p(2) by (simp add: is_deselected_def)
  show ?thesis using saved_channel_core [OF D(1) assms(8) act po2 assms(10) p(1) n] assms(9) p(2,3)
    by (auto simp: final_status_def UNMOVED_def in_scope_def same_place_def)
qed

section \<open>The uploads of a new post\<close>

interpretation me: db_preorder "\<lambda>d d'. db_media d' = db_media d"
  by unfold_locales simp_all

lemma sync_media: "sync_platform_posts now rq w i s d = Some d' \<Longrightarrow> db_media d' = db_media d"
proof -
  have one: "db_media (sync_child now rq w i s acc x) = db_media x" for acc x
    by (auto simp: sync_child_def get_or_create_child_def fresh_id_def save_pp_def Let_def split: option.split prod.split)
  assume "sync_platform_posts now rq w i s d = Some d'"
  then obtain d1 where "remove_deselected_platform_posts rq i d = Some d1"
    "d' = fold (sync_child now rq w i s) (selected_accounts rq) d1" by (auto simp: sync_platform_posts_def)
  then show ?thesis using me.fold_closed [of "selected_accounts rq" "sync_child now rq w i s" d1] one
    by (auto simp: remove_deselected_platform_posts_def delete_pps_def Let_def split: option.splits)
qed

lemma moves_media: "db_media (transition_post_children now i t b only d) = db_media d"
  unfolding transition_post_children_def
  by (rule me.fold_closed) (simp add: transition_child_def save_transition_def update_pps_def split: option.split)

lemma move_all_media: "db_media (snd (move_all now s ps d)) = db_media d"
proof (induction ps arbitrary: d)
  case (Cons p ps)
  then show ?case by (auto simp: case_prod_beta Let_def transition_or_skip_def save_transition_def update_pps_def
      split: option.split sum.split)
qed simp

lemma submit_media:
  "db_media (snd (submit_for_review now (Bundled po) u ws d)) = db_media d"
  "db_media (snd (resubmit_post now (Bundled po) u ws d)) = db_media d"
  using move_all_media by (simp_all add: submit_for_review_def resubmit_post_def case_prod_beta Let_def
      notify_reviewers_def frame_simps)

lemma store_media: "db_media (store_post now b po d) = db_media d" "db_media (save_version i u d) = db_media d"
  by (simp_all add: store_post_def save_post_def save_version_def split: option.split)

lemma queues_media: "add_to_queues zones now po pr qs d = Inr d' \<Longrightarrow> db_media d' = db_media d"
  by (drule only_times_queues) (simp add: only_times_def)

lemma leaving_action_media:
  assumes "take_action zones now rq f action s d = (r, d')" "action \<in> set LEAVING_ACTIONS"
  shows "db_media d' = db_media d"
proof -
  have q: "db_media (snd (save_to_queue zones now rq pr s d)) = db_media d" for pr
    unfolding save_to_queue_def Let_def
    by (auto simp: store_media moves_media simp del: add_to_queues.simps dest!: sync_media queues_media
        split: option.split list.split sum.split)
  have u: "db_media (snd (save_and_submit zones now rq f again s d)) = db_media d" for again
    unfolding save_and_submit_def Let_def
    by (auto simp: store_media submit_media dest!: sync_media split: option.split)
  consider (queue) pr where "save_to_queue zones now rq pr s d = (r, d')"
    | (submit) again where "save_and_submit zones now rq f again s d = (r, d')"
    using assms by (auto simp: take_action_def LEAVING_ACTIONS_def)
  then show ?thesis
  proof cases
    case queue
    then show ?thesis using q [of pr] by simp
  next
    case submit
    then show ?thesis using u [of again] by simp
  qed
qed

lemma no_media_types: "(\<And>m. m \<in> set (db_media d) \<Longrightarrow> pm_post m \<noteq> k) \<Longrightarrow> post_media_types k None d = {}"
  by (auto simp: post_media_types_def usable_attachments_def split: option.splits if_splits)

text \<open>
  Queueing or submitting a new post drops its uploads. The check for missing media counts the
  uploads waiting in the session, but these four actions answer before the uploads are attached:
  the saved post has none, and each of its channels on a platform that needs media is blocked.
\<close>

theorem queueing_a_new_post_drops_its_uploads:
  assumes "save_post_view zones now rq w None form d = (Done k, d')"
    and "post_get ''action'' ''save_draft'' rq \<in> set LEAVING_ACTIONS"
    and "\<And>m. m \<in> set (db_media d) \<Longrightarrow> pm_post m < db_next d"
  shows "db_media d' = db_media d \<and> post_media_types k None d' = {} \<and>
    (\<forall>a. requires_media (sa_platform a) \<longrightarrow> media_blocker a (post_media_types k None d') \<noteq> [])"
proof -
  obtain s f where s: "load_post now rq w None form d = Inr s"
    "take_action zones now rq f (post_get ''action'' ''save_draft'' rq) s d = (Done k, d')"
    by (rule save_view_Done [OF assms(1)])
  have m: "db_media d' = db_media d" by (rule leaving_action_media [OF s(2) assms(2)])
  have "k = sv_id s" using s(2) assms(2)
    by (auto simp: take_action_def LEAVING_ACTIONS_def save_to_queue_def save_and_submit_def Let_def queue_answer_def
        split: option.splits list.splits sum.splits queue_error.splits)
  then have k: "k = db_next d" using load_post_Inr(6) [OF s(1)] by simp
  have e: "post_media_types k None d' = {}" by (rule no_media_types) (use m k assms(3) in fastforce)
  then show ?thesis using m by (simp add: media_blocker_Nil)
qed

section \<open>Witnesses\<close>

text \<open>
  Workspace 1 with a contributor, their own account 5 and another workspace's account 6; a post of
  somebody else's and one of their own.
\<close>

definition foreign_account :: social_account where
  "foreign_account = sample_account\<lparr>sa_id := 6, sa_workspace := 2\<rparr>"

definition others_post :: post where
  "others_post = draft_post\<lparr>po_author := Some 99\<rparr>"

definition shared_db :: "platform_post list \<Rightarrow> post \<Rightarrow> db" where
  "shared_db ps po = (composer_db DRAFT)\<lparr>db_posts := [po], db_pps := ps, db_accounts := [sample_account, foreign_account]\<rparr>"

definition autosave_request :: "string \<Rightarrow> request" where
  "autosave_request client = \<lparr>rq_user = Some author, rq_post = [(''_autosave_post_id'', client), (''caption'', ''Mine''),
     (''selected_accounts'', uuid_text 6)], rq_pending = []\<rparr>"

theorem autosave_by_form_checks_nothing_witness:
  "\<not> may_edit author contributor others_post \<and> is_readonly_write None 3 (shared_db [channel_in PUBLISHED] others_post) \<and>
    sa_workspace foreign_account \<noteq> 1 \<and>
    (\<exists>d'. autosave 0 (autosave_request (uuid_text 3)) 1 None (shared_db [channel_in PUBLISHED] others_post) = (Done 3, d') \<and>
       child_on 3 6 d' \<noteq> None)"
proof -
  let ?d = "shared_db [channel_in PUBLISHED] others_post" and ?rq = "autosave_request (uuid_text 3)"
  have e: "enter ?rq 1 (Some ''create_posts'') ?d = Inr (author, contributor, strict_ws)" by code_simp
  have k: "selected_keys ?rq = [6]" by code_simp
  have i: "post_text ''_autosave_post_id'' ?rq \<noteq> []" "parse_uuid (post_text ''_autosave_post_id'' ?rq) = Some 3"
    "workspace_post 3 1 ?d = Some others_post" "get_post 3 ?d = Some others_post"
    "length (post_get ''title'' [] ?rq) \<le> 255" "account_scope ?rq = Some None" by code_simp+
  have "get_account 6 ?d = Some foreign_account" by code_simp
  then have "\<And>a. a \<in> set (selected_keys ?rq) \<Longrightarrow> get_account a ?d \<noteq> None" by (simp add: k)
  from autosave_by_form_checks_nothing [OF e i this, of 0]
  have "\<exists>d'. autosave 0 ?rq 1 None ?d = (Done 3, d') \<and> child_on 3 6 d' \<noteq> None" unfolding k by auto
  moreover have "\<not> may_edit author contributor others_post" "is_readonly_write None 3 ?d" "sa_workspace foreign_account \<noteq> 1"
    by code_simp+
  ultimately show ?thesis by blast
qed

definition first_autosave :: "response \<times> db" where
  "first_autosave = autosave 0 (autosave_request []) 1 None (shared_db [] draft_post)"

definition schedule_foreign :: request where
  "schedule_foreign = schedule_request\<lparr>rq_post := [(''action'', ''schedule''), (''selected_accounts'', uuid_text 6)]\<rparr>"

theorem foreign_channel_gets_scheduled_witness:
  "\<exists>d2. (\<exists>q \<in> set (children 10 d2). pp_account q = 6 \<and> pp_status q = SCHEDULED)"
proof -
  have fin: "fst first_autosave = Done 10" by code_simp
  have run: "autosave 0 (autosave_request []) 1 None (shared_db [] draft_post) = (Done 10, snd first_autosave)"
    using fin unfolding first_autosave_def by (metis prod.collapse)
  define second where "second = save_post_view (\<lambda>_. UTC) 0 schedule_foreign 1 (Some 10) (Some plain_form) (snd first_autosave)"
  have fin2: "fst (save_post_view (\<lambda>_. UTC) 0 schedule_foreign 1 (Some 10) (Some plain_form) (snd first_autosave)) = Done 10"
    by code_simp
  then have run2: "save_post_view (\<lambda>_. UTC) 0 schedule_foreign 1 (Some 10) (Some plain_form) (snd first_autosave)
      = (Done 10, snd second)" unfolding second_def by (metis prod.collapse)
  have f: "rows_fresh (shared_db [] draft_post)" "\<And>p. p \<in> set (db_pps (shared_db [] draft_post)) \<Longrightarrow> pp_post p < db_next (shared_db [] draft_post)"
    by (simp_all add: shared_db_def rows_fresh_def)
  have k: "post_text ''_autosave_post_id'' (autosave_request []) = []" "6 \<in> set (selected_keys (autosave_request []))"
    "get_account 6 (shared_db [] draft_post) = Some foreign_account" "sa_workspace foreign_account \<noteq> 1"
    "post_get ''action'' ''save_draft'' schedule_foreign = ''schedule''" "account_scope schedule_foreign = Some None"
    "6 \<in> set (selected_keys schedule_foreign)" by code_simp+
  show ?thesis using foreign_channel_gets_scheduled [OF f k(1) run k(2,3,4) run2 k(5,6,7)] by blast
qed

text \<open>A post with a channel under way on account 5 and a draft on account 7; the form selects the draft only.\<close>

definition second_account :: social_account where
  "second_account = sample_account\<lparr>sa_id := 7\<rparr>"

definition under_way :: platform_post where
  "under_way = (channel_in PUBLISHING)\<lparr>pp_scheduled_at := Some 0, pp_handle := ''h''\<rparr>"

definition busy_db :: db where
  "busy_db = (composer_db DRAFT)\<lparr>db_accounts := [sample_account, second_account],
     db_pps := [under_way, (channel_in DRAFT)\<lparr>pp_id := 8, pp_account := 7\<rparr>]\<rparr>"

definition schedule_other :: request where
  "schedule_other = schedule_request\<lparr>rq_post := [(''action'', ''schedule''), (''selected_accounts'', uuid_text 7)]\<rparr>"

definition rescheduled :: "response \<times> db" where
  "rescheduled = save_post_view (\<lambda>_. UTC) 0 schedule_other 1 (Some 3) (Some plain_form) busy_db"

theorem schedule_frees_channel_under_way_witness:
  "\<exists>q \<in> set (db_pps (snd rescheduled)). pp_id q = 4 \<and> pp_handle q = [] \<and> is_due 1 (snd rescheduled) q"
proof -
  have fin: "fst rescheduled = Done 3" by code_simp
  then have run: "save_post_view (\<lambda>_. UTC) 0 schedule_other 1 (Some 3) (Some plain_form) busy_db = (Done 3, snd rescheduled)"
    unfolding rescheduled_def by (metis prod.collapse)
  have f: "rows_fresh busy_db" "under_way \<in> set (children 3 busy_db)" "pp_status under_way = PUBLISHING"
    "pp_scheduled_at under_way = Some 0" "pp_id under_way = 4"
    by (simp_all add: rows_fresh_def busy_db_def under_way_def channel_in_def new_platform_post_def composer_db_def
        empty_db_def children_def)
  have k: "post_get ''action'' ''save_draft'' schedule_other \<in> set [''schedule'', ''publish_now'']"
    "workspace_post 3 1 busy_db = Some draft_post" "account_scope schedule_other = Some None" "\<not> on_hold 3 (snd rescheduled)"
    by code_simp+
  show ?thesis using schedule_frees_channel_under_way [OF f(1) run k(1,2,3) f(2,3,4) _ k(4), of 1] f(5) by simp
qed

text \<open>A new post for a channel of TikTok, its video waiting in the session, put into a queue.\<close>

definition tiktok_account :: social_account where
  "tiktok_account = sample_account\<lparr>sa_platform := ''tiktok''\<rparr>"

definition video :: media_asset where
  "video = \<lparr>ma_id = 2, ma_workspace = Some 1, ma_media_type = ''video'', ma_filename = ''v.mp4'', ma_file = ''v.mp4'', ma_duration = None\<rparr>"

definition upload_db :: db where
  "upload_db = (composer_db DRAFT)\<lparr>db_accounts := [tiktok_account], db_posts := [], db_pps := [], db_assets := [video],
     db_queues := [\<lparr>qu_id = 1, qu_workspace = 1, qu_name = ''Q'', qu_account = 5, qu_active = True\<rparr>],
     db_slots := [\<lparr>sl_id = 1, sl_account = 5, sl_day = 4, sl_time = 0, sl_active = True\<rparr>]\<rparr>"

definition queue_request :: request where
  "queue_request = \<lparr>rq_user = Some author,
     rq_post = [(''action'', ''add_to_queue''), (''selected_accounts'', uuid_text 5)], rq_pending = [2]\<rparr>"

definition queued_upload :: "response \<times> db" where
  "queued_upload = save_post_view (\<lambda>_. UTC) 0 queue_request 1 None (Some plain_form) upload_db"

theorem queueing_a_new_post_drops_its_uploads_witness:
  "validate_required_media queue_request None 1 ''add_to_queue'' upload_db = None \<and>
    fst queued_upload = Done 10 \<and> media_blocker tiktok_account (post_media_types 10 None (snd queued_upload)) \<noteq> []"
proof -
  have fin: "fst queued_upload = Done 10" by code_simp
  then have run: "save_post_view (\<lambda>_. UTC) 0 queue_request 1 None (Some plain_form) upload_db = (Done 10, snd queued_upload)"
    unfolding queued_upload_def by (metis prod.collapse)
  have act: "post_get ''action'' ''save_draft'' queue_request \<in> set LEAVING_ACTIONS" by code_simp
  have m: "\<And>m. m \<in> set (db_media upload_db) \<Longrightarrow> pm_post m < db_next upload_db"
    by (simp add: upload_db_def composer_db_def empty_db_def)
  have v: "validate_required_media queue_request None 1 ''add_to_queue'' upload_db = None"
    "requires_media (sa_platform tiktok_account)" by code_simp+
  show ?thesis using queueing_a_new_post_drops_its_uploads [OF run act m] fin v by blast
qed

end
