(* ===== verification/Queue_Order.thy ===== *)
theory Queue_Order
  imports Calendar_Queue
begin

text \<open>
  The queue operations that move slots already held: reordering a queue, removing an entry, and
  the repair of published posts (the definitions are in \<open>Calendar_Queue\<close>).
\<close>

section \<open>Lemmas: reordering\<close>

lemma ordered_of_props:
  assumes "(e, p) \<in> set (ordered_of q d i)"
  shows "e \<in> set (db_entries d)" "qe_queue e = qu_id q" "qe_id e = i" "p = child_on (qe_post e) (qu_account q) d"
    "\<not> is_protected p"
proof -
  obtain x where x: "tbl_first (\<lambda>e. qe_queue e = qu_id q \<and> qe_id e = i) (db_entries d) = Some x"
    using assms by (cases "tbl_first (\<lambda>e. qe_queue e = qu_id q \<and> qe_id e = i) (db_entries d)")
      (simp_all add: ordered_of_def)
  then have "e = x" "p = child_on (qe_post x) (qu_account q) d" "\<not> is_protected p"
    using assms by (auto simp: ordered_of_def Let_def split: if_splits)
  moreover have "x \<in> set (db_entries d) \<and> qe_queue x = qu_id q \<and> qe_id x = i"
    using x by (rule tbl_first_Some)
  ultimately show "e \<in> set (db_entries d)" "qe_queue e = qu_id q" "qe_id e = i"
    "p = child_on (qe_post e) (qu_account q) d" "\<not> is_protected p" by simp_all
qed

lemma ordered_of_length: "length (ordered_of q d i) \<le> 1"
  by (simp add: ordered_of_def Let_def split: option.split)

lemma slotted_of_props:
  "(e, p, t) \<in> set (slotted_of ep) \<Longrightarrow> ep = (e, Some p) \<and> pp_scheduled_at p = Some t"
  by (cases ep) (auto simp: slotted_of_def split: option.splits)

lemma slotted_of_length: "length (slotted_of ep) \<le> 1"
  by (simp add: slotted_of_def split: option.split)

lemma concat_map_length:
  "(\<And>x. x \<in> set xs \<Longrightarrow> length (f x) \<le> 1) \<Longrightarrow> length (concat (map f xs)) \<le> length xs"
proof (induction xs)
  case (Cons x xs)
  have "length (f x) \<le> 1" "length (concat (map f xs)) \<le> length xs" using Cons by simp_all
  then show ?case by (simp del: length_concat)
qed simp

lemma distinct_concat_map:
  assumes "distinct xs" "\<And>x. length (f x) \<le> 1"
    and "\<And>x y a b. x \<in> set xs \<Longrightarrow> y \<in> set xs \<Longrightarrow> a \<in> set (f x) \<Longrightarrow> b \<in> set (f y) \<Longrightarrow> k a = k b \<Longrightarrow> x = y"
  shows "distinct (map k (concat (map f xs)))"
  using assms(1,3)
proof (induction xs)
  case (Cons x xs)
  have "distinct (map k (f x))"
    using assms(2) [of x] by (cases "f x" rule: remdups_adj.cases) auto
  moreover have "distinct (map k (concat (map f xs)))"
    using Cons.prems by (intro Cons.IH) auto
  moreover have "k a \<noteq> k b" if "a \<in> set (f x)" "b \<in> set (f y)" "y \<in> set xs" for a b y
    using Cons.prems(1) Cons.prems(2) [of x y a b] that by auto
  ultimately show ?case by (fastforce simp: image_iff)
qed simp

definition entries_unique :: "db \<Rightarrow> bool" where
  \<comment> \<open>\<open>unique_together = [("queue", "post")]\<close>\<close>
  "entries_unique d \<longleftrightarrow> distinct (map (\<lambda>e. (qe_queue e, qe_post e)) (db_entries d))"

lemma child_on_props:
  "child_on po a d = Some p \<Longrightarrow> p \<in> set (db_pps d) \<and> pp_post p = po \<and> pp_account p = a"
  unfolding child_on_def by (rule tbl_first_Some)

lemma slotted_distinct:
  assumes "entries_unique d" "keys_ok d" "distinct ids"
  shows "distinct (map (\<lambda>(e, p, t). pp_id p) (slotted_entries (ordered_entries q ids d)))"
    and "(e, p, t) \<in> set (slotted_entries (ordered_entries q ids d)) \<Longrightarrow>
      p \<in> set (db_pps d) \<and> pp_scheduled_at p = Some t \<and> pp_account p = qu_account q \<and>
      pp_status p \<notin> set PROTECTED_STATUSES"
proof -
  let ?f = "\<lambda>i. concat (map slotted_of (ordered_of q d i))"
  have eq: "slotted_entries (ordered_entries q ids d) = concat (map ?f ids)"
    unfolding slotted_entries_def ordered_entries_def by (induction ids) simp_all
  have el: "\<exists>e. e \<in> set (db_entries d) \<and> qe_queue e = qu_id q \<and> qe_id e = i \<and>
      child_on (qe_post e) (qu_account q) d = Some p \<and> pp_scheduled_at p = Some t \<and> \<not> is_protected (Some p)"
    if i: "(x, p, t) \<in> set (?f i)" for x p t i
  proof -
    obtain ep where ep: "ep \<in> set (ordered_of q d i)" "(x, p, t) \<in> set (slotted_of ep)" using i by auto
    note s = slotted_of_props [OF ep(2)]
    then have "(x, Some p) \<in> set (ordered_of q d i)" using ep(1) by simp
    from ordered_of_props [OF this] s show ?thesis by (intro exI [of _ x]) simp
  qed
  have len: "length (?f i) \<le> 1" for i
    using concat_map_length [of "ordered_of q d i" slotted_of] slotted_of_length ordered_of_length [of q d i]
    by (meson order_trans)
  have inj: "i = j" if i: "a \<in> set (?f i)" and j: "b \<in> set (?f j)"
    and k: "(\<lambda>(e, p, t). pp_id p) a = (\<lambda>(e, p, t). pp_id p) b" for a b i j
  proof -
    obtain x p t where a: "a = (x, p, t)" by (cases a)
    obtain x' p' t' where b: "b = (x', p', t')" by (cases b)
    obtain e where e: "e \<in> set (db_entries d)" "qe_queue e = qu_id q" "qe_id e = i"
      "child_on (qe_post e) (qu_account q) d = Some p" using el [OF i [unfolded a]] by blast
    obtain e' where e': "e' \<in> set (db_entries d)" "qe_queue e' = qu_id q" "qe_id e' = j"
      "child_on (qe_post e') (qu_account q) d = Some p'" using el [OF j [unfolded b]] by blast
    have "pp_id p = pp_id p'" using k by (simp add: a b)
    moreover have "get_pp (pp_id p) d = Some p"
      by (rule keys_ok_get_pp [OF assms(2) conjunct1 [OF child_on_props [OF e(4)]]])
    moreover have "get_pp (pp_id p') d = Some p'"
      by (rule keys_ok_get_pp [OF assms(2) conjunct1 [OF child_on_props [OF e'(4)]]])
    ultimately have "p = p'" by (metis option.inject)
    then have "qe_post e = qe_post e'" using child_on_props [OF e(4)] child_on_props [OF e'(4)] by simp
    then have "e = e'"
      using e(2) e'(2) by (intro distinct_key_eq [OF assms(1) [unfolded entries_unique_def] e(1) e'(1)]) simp
    then show ?thesis using e(3) e'(3) by simp
  qed
  show "distinct (map (\<lambda>(e, p, t). pp_id p) (slotted_entries (ordered_entries q ids d)))"
    unfolding eq by (rule distinct_concat_map [OF assms(3) len]) (rule inj)
  assume "(e, p, t) \<in> set (slotted_entries (ordered_entries q ids d))"
  then obtain i where i: "(e, p, t) \<in> set (?f i)" unfolding eq by auto
  obtain x :: queue_entry where x: "child_on (qe_post x) (qu_account q) d = Some p" "pp_scheduled_at p = Some t"
    "\<not> is_protected (Some p)" using el [OF i] by blast
  then show "p \<in> set (db_pps d) \<and> pp_scheduled_at p = Some t \<and> pp_account p = qu_account q \<and>
      pp_status p \<notin> set PROTECTED_STATUSES"
    using child_on_props [OF x(1)] by (simp add: is_protected_def)
qed

text \<open>A series of writes to different rows.\<close>

lemma fold_writes_rows:
  assumes "distinct (map (\<lambda>((e, p, t), s). pp_id p) ws)"
  shows "db_pps (fold (\<lambda>((e, p, t), s). write_slot now e (Some p) s) ws d) =
    map (\<lambda>r. case map_of (map (\<lambda>((e, p, t), s). (pp_id p, s)) ws) (pp_id r) of
               None \<Rightarrow> r | Some s \<Rightarrow> r\<lparr>pp_scheduled_at := Some s, pp_updated_at := now\<rparr>) (db_pps d)"
  using assms
proof (induction ws arbitrary: d)
  case (Cons w ws)
  obtain e p t s where w: "w = ((e, p, t), s)" by (metis surj_pair)
  have n: "map_of (map (\<lambda>((e, p, t), s). (pp_id p, s)) ws) (pp_id p) = None"
    using Cons.prems by (force simp: map_of_eq_None_iff w)
  show ?case
    using Cons.IH [of "write_slot now e (Some p) s d"] Cons.prems n
    by (auto simp: w write_slot_rows tbl_update_def split: option.split)
qed simp

lemma set_position_pps: "db_pps (fold (\<lambda>(idx, (e, p)). set_position idx e) xs d) = db_pps d"
  by (induction xs arbitrary: d) (auto simp: set_position_def)

section \<open>Properties\<close>

lemma mset_eq_of_same_rows:
  assumes "distinct (map key t)" "distinct (map key ps)" "set ps \<subseteq> set t"
  shows "mset (filter (\<lambda>r. key r \<in> key ` set ps) t) = mset ps"
proof (rule set_eq_iff_mset_eq_distinct [THEN iffD1])
  show "distinct (filter (\<lambda>r. key r \<in> key ` set ps) t)" "distinct ps"
    using assms(1,2) by (auto simp: distinct_map)
  show "set (filter (\<lambda>r. key r \<in> key ` set ps) t) = set ps"
    using assms(3) distinct_key_eq [OF assms(1)] by (auto simp: subset_iff)
qed

lemma map_of_zip_keys:
  "distinct ks \<Longrightarrow> length ks = length vs \<Longrightarrow> map (map_of (zip ks vs)) ks = map Some vs"
  by (rule nth_equalityI) (simp_all add: map_of_zip_nth)

text \<open>
  Reordering a queue permutes the times its entries already hold: no time is invented or
  lost in the table of channels, and only channels of the queue's account that are neither
  published nor being published change.
\<close>

theorem reorder_permutes_times:
  assumes "entries_unique d" "keys_ok d" "distinct ids"
  shows "mset (map pp_scheduled_at (db_pps (reorder_queue now q ids d))) = mset (map pp_scheduled_at (db_pps d)) \<and>
    (\<exists>f. db_pps (reorder_queue now q ids d) = map f (db_pps d) \<and>
      (\<nexists>r. r \<in> set (db_pps d) \<and> f r \<noteq> r \<and>
         \<not> (pp_account r = qu_account q \<and> pp_status r \<notin> set PROTECTED_STATUSES \<and> bare (f r) = bare r)))"
proof -
  define ss where "ss = slotted_entries (ordered_entries q ids d)"
  define ps where "ps = map (\<lambda>(e, p, t). p) ss"
  define ts where "ts = map (\<lambda>(e, p, t). t) ss"
  define new where "new = map_of (zip (map pp_id ps) (sort ts))"
  define f :: "platform_post \<Rightarrow> platform_post" where "f = (\<lambda>r. case new (pp_id r) of None \<Rightarrow> r | Some s \<Rightarrow> r\<lparr>pp_scheduled_at := Some s, pp_updated_at := now\<rparr>)"
  have len: "length (sort ts) = length ps" by (simp add: ts_def ps_def)
  have "map pp_id ps = map (\<lambda>(e, p, t). pp_id p) ss" by (auto simp: ps_def)
  then have dist: "distinct (map pp_id ps)"
    using slotted_distinct(1) [OF assms, of q] by (simp only: ss_def)
  have el: "p \<in> set (db_pps d) \<and> pp_scheduled_at p = Some t \<and> pp_account p = qu_account q \<and>
      pp_status p \<notin> set PROTECTED_STATUSES" if "(e, p, t) \<in> set ss" for e p t
    using that unfolding ss_def by (rule slotted_distinct(2) [OF assms])
  have sub: "set ps \<subseteq> set (db_pps d)" using el by (auto simp: ps_def)
  have old: "map pp_scheduled_at ps = map Some ts"
    using el by (auto simp: ps_def ts_def)
  have z: "map (\<lambda>((e, p, t), s). (pp_id p, s)) (zip ss xs) = zip (map pp_id ps) xs" for xs :: "instant list"
    by (simp add: ps_def zip_map1 case_prod_beta)
  have dz: "distinct (map (\<lambda>((e, p, t), s). pp_id p) (zip ss (sort ts)))"
  proof -
    have "map (\<lambda>((e, p, t), s). pp_id p) (zip ss (sort ts)) = map fst (zip (map pp_id ps) (sort ts))"
      unfolding z [symmetric] by (simp add: case_prod_beta)
    then show ?thesis using dist len by simp
  qed
  have rows: "db_pps (reorder_queue now q ids d) = map f (db_pps d)"
    unfolding reorder_queue_def Let_def set_position_pps ss_def [symmetric] ts_def [symmetric]
      fold_writes_rows [OF dz] z f_def new_def ..
  have dom: "new i = None \<longleftrightarrow> i \<notin> pp_id ` set ps" for i
    unfolding new_def using len by (subst map_of_zip_is_None) simp_all
  let ?S = "\<lambda>r :: platform_post. pp_id r \<in> pp_id ` set ps"
  have k: "distinct (map pp_id (db_pps d))" using assms(2) by (simp add: keys_ok_def)
  have in_S: "mset (filter ?S (db_pps d)) = mset ps" by (rule mset_eq_of_same_rows [OF k dist sub])
  have fS: "pp_scheduled_at (f r) = new (pp_id r)" if "?S r" for r
    using that dom [of "pp_id r"] by (auto simp: f_def split: option.split)
  have "map new (map pp_id ps) = map Some (sort ts)"
    unfolding new_def by (rule map_of_zip_keys [OF dist]) (simp only: len length_map)
  moreover have "map (\<lambda>r. pp_scheduled_at (f r)) ps = map new (map pp_id ps)"
    using fS by simp
  ultimately have "mset (map (\<lambda>r. pp_scheduled_at (f r)) ps) = mset (map Some ts)"
    by simp
  then have S_part: "mset (map (\<lambda>r. pp_scheduled_at (f r)) (filter ?S (db_pps d))) =
      mset (map pp_scheduled_at (filter ?S (db_pps d)))"
    unfolding mset_map in_S unfolding mset_map [symmetric] old .
  have rest: "map (\<lambda>r. pp_scheduled_at (f r)) (filter (\<lambda>r. \<not> ?S r) (db_pps d)) =
      map pp_scheduled_at (filter (\<lambda>r. \<not> ?S r) (db_pps d))"
  proof (rule map_cong [OF refl])
    fix r assume "r \<in> set (filter (\<lambda>r. \<not> ?S r) (db_pps d))"
    then have "new (pp_id r) = None" by (simp add: dom)
    then show "pp_scheduled_at (f r) = pp_scheduled_at r" by (simp add: f_def)
  qed
  have split: "mset (map g (db_pps d)) = mset (map g (filter ?S (db_pps d))) + mset (map g (filter (\<lambda>r. \<not> ?S r) (db_pps d)))"
    for g :: "platform_post \<Rightarrow> instant option"
    by (metis image_mset_union mset_filter mset_map multiset_partition)
  have "mset (map pp_scheduled_at (db_pps (reorder_queue now q ids d))) = mset (map pp_scheduled_at (db_pps d))"
    unfolding rows map_map comp_def split [of "\<lambda>r. pp_scheduled_at (f r)"] split [of pp_scheduled_at] S_part rest ..
  moreover have "pp_account r = qu_account q \<and> pp_status r \<notin> set PROTECTED_STATUSES \<and> bare (f r) = bare r"
    if r: "r \<in> set (db_pps d)" "f r \<noteq> r" for r
  proof -
    have "new (pp_id r) \<noteq> None" using r(2) by (cases "new (pp_id r)") (simp_all add: f_def)
    then obtain e p t where p: "(e, p, t) \<in> set ss" "pp_id p = pp_id r" by (auto simp: dom ps_def)
    have "p = r" using distinct_key_eq [OF k _ r(1) p(2)] el [OF p(1)] by blast
    then show ?thesis using el [OF p(1)] by (auto simp: f_def bare_def split: option.split)
  qed
  ultimately show ?thesis using rows by blast
qed

definition order_db :: db where
  "order_db = sample_db\<lparr>
     db_pps := [(new_platform_post 8 7 5 0)\<lparr>pp_status := SCHEDULED, pp_scheduled_at := Some 300\<rparr>,
                (new_platform_post 9 17 5 0)\<lparr>pp_status := SCHEDULED, pp_scheduled_at := Some 200\<rparr>],
     db_entries := [\<lparr>qe_id = 4, qe_queue = 2, qe_post = 7, qe_position = 1, qe_slot = Some 300\<rparr>,
                    \<lparr>qe_id = 5, qe_queue = 2, qe_post = 17, qe_position = 2, qe_slot = Some 200\<rparr>]\<rparr>"

theorem reorder_permutes_times_witness:
  "mset (map pp_scheduled_at (db_pps (reorder_queue 0 sample_queue [4, 5] order_db))) = {#Some 300, Some 200#}"
proof -
  have u: "entries_unique order_db" "keys_ok order_db"
    by (simp_all add: entries_unique_def keys_ok_def order_db_def sample_defs)
  have "mset (map pp_scheduled_at (db_pps (reorder_queue 0 sample_queue [4, 5] order_db))) =
      mset (map pp_scheduled_at (db_pps order_db))"
    by (rule conjunct1 [OF reorder_permutes_times [OF u]]) simp
  also have "\<dots> = {#Some 300, Some 200#}" by (simp add: order_db_def)
  finally show ?thesis .
qed

text \<open>
  Removing an entry leaves the gap and nothing else: the entry is gone, its channel is taken
  out of the schedule when the state machine lets it go back to draft, and no other channel
  changes. A channel that cannot go back (a draft, or one under review) keeps its time and so
  keeps its slot.
\<close>

theorem remove_from_queue_effect:
  assumes "remove_from_queue now e q d = Inr d'" "keys_ok d"
    and "child_on (qe_post e) (qu_account q) d = Some p"
  shows "(\<nexists>x. x \<in> set (db_entries d') \<and> qe_id x = qe_id e) \<and>
    db_pps d' = map (\<lambda>r. if pp_id r = pp_id p \<and> pp_status p \<notin> set PROTECTED_STATUSES \<and> edge (pp_status p) DRAFT
                        then r\<lparr>pp_status := DRAFT, pp_scheduled_at := None, pp_updated_at := now\<rparr> else r) (db_pps d)"
proof -
  have p: "p \<in> set (db_pps d)" using child_on_props [OF assms(3)] by blast
  have k: "distinct (map pp_id (db_pps d))" using assms(2) by (simp add: keys_ok_def)
  let ?go = "\<not> is_protected (Some p) \<and> can_transition_to p DRAFT"
  have go: "?go \<longleftrightarrow> pp_status p \<notin> set PROTECTED_STATUSES \<and> edge (pp_status p) DRAFT"
    by (simp add: is_protected_def can_transition_to_def edge_iff)
  obtain d1 where d': "d' = sync_post_scheduled_at now (qe_post e)
      (d1\<lparr>db_entries := tbl_delete (\<lambda>x. qe_id x = qe_id e) (db_entries d1)\<rparr>)"
    and d1: "if ?go then \<exists>q. transition_platform_post now p DRAFT None d = Inr (d1, q) else d1 = d"
    using assms(1,3)
    by (cases "transition_platform_post now p DRAFT None d") (auto simp: remove_from_queue_def Let_def split: if_splits)
  have rows: "db_pps d1 = map (\<lambda>r. if pp_id r = pp_id p \<and> ?go
      then r\<lparr>pp_status := DRAFT, pp_scheduled_at := None, pp_updated_at := now\<rparr> else r) (db_pps d)"
  proof (cases ?go)
    case True
    then obtain x where "transition_platform_post now p DRAFT None d = Inr (d1, x)" using d1 by auto
    then have "d1 = sync_post_scheduled_at now (pp_post p)
      (save_transition (p\<lparr>pp_status := DRAFT, pp_scheduled_at := None\<rparr>) (pp_scheduled_at p \<noteq> None) now
        (drop_entries (pp_post p) (pp_account p) d))"
      unfolding to_draft_result by blast
    then have "db_pps d1 = tbl_update (\<lambda>r. pp_id r = pp_id p)
      (\<lambda>r. r\<lparr>pp_status := DRAFT, pp_published_at := pp_published_at p, pp_handle := pp_handle p,
             pp_retry_count := pp_retry_count p, pp_next_retry_at := pp_next_retry_at p,
             pp_publish_error := pp_publish_error p,
             pp_scheduled_at := (if pp_scheduled_at p \<noteq> None then None else pp_scheduled_at r),
             pp_updated_at := now\<rparr>) (db_pps d)"
      by (simp add: frame_simps save_transition_def update_pps_def drop_entries_def cong: if_cong)
    then show ?thesis unfolding tbl_update_def
    proof (rule trans, intro map_cong [OF refl])
      fix r assume r: "r \<in> set (db_pps d)"
      show "(if pp_id r = pp_id p then r\<lparr>pp_status := DRAFT, pp_published_at := pp_published_at p, pp_handle := pp_handle p,
             pp_retry_count := pp_retry_count p, pp_next_retry_at := pp_next_retry_at p,
             pp_publish_error := pp_publish_error p,
             pp_scheduled_at := (if pp_scheduled_at p \<noteq> None then None else pp_scheduled_at r),
             pp_updated_at := now\<rparr> else r) =
        (if pp_id r = pp_id p \<and> ?go
         then r\<lparr>pp_status := DRAFT, pp_scheduled_at := None, pp_updated_at := now\<rparr> else r)"
      proof (cases "pp_id r = pp_id p")
        case same: True
        have "r = p" by (rule distinct_key_eq [OF k r p same])
        then show ?thesis using True by simp
      qed simp
    qed
  next
    case False
    have "d1 = d" using d1 unfolding if_not_P [OF False] .
    moreover have "(if pp_id r = pp_id p \<and> ?go
        then r\<lparr>pp_status := DRAFT, pp_scheduled_at := None, pp_updated_at := now\<rparr> else r) = r" for r :: platform_post
      using False by (intro if_not_P) blast
    ultimately show ?thesis by simp
  qed
  have "db_pps d' = db_pps d1" "db_entries d' = tbl_delete (\<lambda>x. qe_id x = qe_id e) (db_entries d1)"
    by (simp_all add: d' frame_simps)
  then show ?thesis unfolding rows go [symmetric] by (auto simp: tbl_delete_def)
qed

theorem remove_from_queue_effect_witness:
  "\<exists>d'. remove_from_queue 7 (hd (db_entries order_db)) sample_queue order_db = Inr d' \<and>
    map pp_status (db_pps d') = [DRAFT, SCHEDULED]"
proof -
  let ?e = "hd (db_entries order_db)"
  have c: "child_on (qe_post ?e) (qu_account sample_queue) order_db = Some (hd (db_pps order_db))"
    by (simp add: child_on_def tbl_first_def order_db_def sample_queue_def new_platform_post_def)
  have k: "keys_ok order_db" by (simp add: keys_ok_def order_db_def sample_defs)
  obtain d' where r: "remove_from_queue 7 ?e sample_queue order_db = Inr d'"
  proof -
    have go: "can_transition_to (hd (db_pps order_db)) DRAFT" "\<not> is_protected (Some (hd (db_pps order_db)))"
      by (simp_all add: can_transition_to_def order_db_def is_protected_def PROTECTED_STATUSES_def)
    then obtain d' q where "transition_platform_post 7 (hd (db_pps order_db)) DRAFT None order_db = Inr (d', q)"
      unfolding to_draft_result by blast
    then have "remove_from_queue 7 ?e sample_queue order_db = Inr (sync_post_scheduled_at 7 (qe_post ?e)
        (d'\<lparr>db_entries := tbl_delete (\<lambda>x. qe_id x = qe_id ?e) (db_entries d')\<rparr>))"
      unfolding remove_from_queue_def Let_def c option.case if_P [OF conjI [OF go(2,1)]]
      by (simp only: map_sum.simps sum.case fst_conv)
    then show thesis by (rule that)
  qed
  have st: "map pp_status (db_pps d') = [DRAFT, SCHEDULED]"
    unfolding conjunct2 [OF remove_from_queue_effect [OF r k c]]
    by (simp add: order_db_def new_platform_post_def PROTECTED_STATUSES_def edge_iff)
  show ?thesis using r st by (intro exI conjI)
qed

end
