(* ===== verification/Queue_Repair.thy ===== *)
theory Queue_Repair
  imports Calendar_Queue Publisher
begin

text \<open>
  What \<open>repair_future_published_scheduled_at\<close> promises: it can be run again for nothing, and it
  never makes a pending channel due earlier, as the publisher reads due times
  (\<open>Publisher.effective_at\<close>).
\<close>

section \<open>Lemmas\<close>

definition pinned :: "post list \<Rightarrow> platform_post \<Rightarrow> platform_post" where
  "pinned posts p =
    (if pp_status p = SCHEDULED \<and> pp_scheduled_at p = None
     then p\<lparr>pp_scheduled_at := (case tbl_get po_id (pp_post p) posts of None \<Rightarrow> None | Some po \<Rightarrow> po_scheduled_at po)\<rparr>
     else p)"

lemma pinned_keeps [simp]:
  "pp_id (pinned ps p) = pp_id p" "pp_post (pinned ps p) = pp_post p" "pp_status (pinned ps p) = pp_status p"
  "pp_published_at (pinned ps p) = pp_published_at p"
  by (simp_all add: pinned_def)

lemma no_time [simp]: "pp_scheduled_at p = None \<Longrightarrow> p\<lparr>pp_scheduled_at := None\<rparr> = p" for p :: platform_post
  by (cases p) simp

lemma pinned_Nil: "pinned [] p = p"
  by (simp add: pinned_def tbl_get_def)

lemma pinned_Cons:
  assumes "po_id po \<notin> po_id ` set ps"
  shows "pinned (po # ps) p = pinned ps (pinned [po] p)"
proof (cases "po_id po = pp_post p")
  case True
  then have "tbl_get po_id (pp_post p) ps = None" using assms by (simp add: tbl_get_None)
  then show ?thesis using True by (cases "po_scheduled_at po") (simp_all add: pinned_def tbl_get_def)
qed (simp add: pinned_def tbl_get_def)

lemma db_pps_pin: "db_pps (pin_siblings po d) = map (pinned [po]) (db_pps d)"
  by (cases "po_scheduled_at po")
    (auto simp: pin_siblings_def update_pps_def tbl_update_def pinned_def tbl_get_def intro!: map_idI [symmetric])

lemma pins_rows:
  "distinct (map po_id ps) \<Longrightarrow> db_pps (fold pin_siblings ps d) = map (pinned ps) (db_pps d)"
proof (induction ps arbitrary: d)
  case (Cons po ps)
  have "db_pps (fold pin_siblings (po # ps) d) = map (pinned ps) (map (pinned [po]) (db_pps d))"
    using Cons by (simp add: db_pps_pin)
  then show ?case using Cons.prems by (simp add: comp_def pinned_Cons [symmetric])
qed (simp add: pinned_Nil map_idI)

lemma pins_frame: "db_posts (fold pin_siblings ps d) = db_posts d"
proof (induction ps arbitrary: d)
  case (Cons po ps)
  have "db_posts (pin_siblings po d) = db_posts d"
    by (simp add: pin_siblings_def update_pps_def split: option.split)
  with Cons show ?case by simp
qed simp

lemma reset_frame:
  "db_pps (fst (fold reset_stale_entries rows (d, n))) = db_pps d"
  "db_posts (fst (fold reset_stale_entries rows (d, n))) = db_posts d"
  by (induction rows arbitrary: d n) (simp_all add: reset_stale_entries_def Let_def)

lemma syncs_rows: "db_pps (fold (\<lambda>po. sync_post_scheduled_at now (po_id po)) ps d) = db_pps d"
  by (induction ps arbitrary: d) (simp_all add: frame_simps)

lemma sync_other: "j \<noteq> i \<Longrightarrow> get_post j (sync_post_scheduled_at now i d) = get_post j d"
  by (auto simp: sync_post_scheduled_at_def Let_def posts.get_save split: option.split dest: posts.get_key)

lemma sync_workspace:
  "map_option po_workspace (get_post j (sync_post_scheduled_at now i d)) = map_option po_workspace (get_post j d)"
proof (cases "j = i")
  case True
  show ?thesis
  proof (cases "get_post i d")
    case None
    then show ?thesis using True by (simp add: sync_post_scheduled_at_def)
  next
    case (Some po)
    then show ?thesis using True get_post_sync [OF Some, of now] by (simp add: Let_def)
  qed
qed (simp add: sync_other)

lemma syncs_workspace:
  "map_option po_workspace (get_post j (fold (\<lambda>po. sync_post_scheduled_at now (po_id po)) ps d)) =
    map_option po_workspace (get_post j d)"
  by (induction ps arbitrary: d) (simp_all add: sync_workspace)

lemma syncs_other:
  "j \<notin> po_id ` set ps \<Longrightarrow> get_post j (fold (\<lambda>po. sync_post_scheduled_at now (po_id po)) ps d) = get_post j d"
  by (induction ps arbitrary: d) (simp_all add: sync_other)

lemma corrupted_cong:
  assumes "\<And>j. map_option po_workspace (get_post j d') = map_option po_workspace (get_post j d)"
  shows "corrupted w d' p = corrupted w d p"
proof -
  have "(case get_post j d' of Some po \<Rightarrow> po_workspace po = x | None \<Rightarrow> False) =
      (case get_post j d of Some po \<Rightarrow> po_workspace po = x | None \<Rightarrow> False)" for j x
    using assms [of j] by (cases "get_post j d"; cases "get_post j d'") auto
  then show ?thesis unfolding corrupted_def by (cases w) simp_all
qed

text \<open>The database a repair that applies leaves, one step at a time.\<close>

lemma repair_applied:
  assumes "repair_future_published_scheduled_at now w True d = (a, b, n, applied, d')" and "affected w d \<noteq> []"
    and "keys_ok d"
  obtains ps where "set ps = {po \<in> set (db_posts d). po_id po \<in> pp_post ` set (affected w d)}"
    and "db_pps d' = tbl_update (corrupted w d) (\<lambda>p. p\<lparr>pp_scheduled_at := pp_published_at p\<rparr>) (map (pinned ps) (db_pps d))"
    and "\<And>j. map_option po_workspace (get_post j d') = map_option po_workspace (get_post j d)"
    and "\<And>j. j \<notin> po_id ` set ps \<Longrightarrow> get_post j d' = get_post j d"
    and "distinct (map po_id ps)"
proof -
  let ?rows = "affected w d"
  define ps where "ps = filter (\<lambda>po. po_id po \<in> set (remdups (map pp_post ?rows))) (db_posts d)"
  define d1 where "d1 = fold pin_siblings ps d"
  define d2 where "d2 = update_pps (corrupted w d1) (\<lambda>p. p\<lparr>pp_scheduled_at := pp_published_at p\<rparr>) d1"
  define d3 where "d3 = fst (fold reset_stale_entries ?rows (d2, 0))"
  have d': "d' = fold (\<lambda>po. sync_post_scheduled_at now (po_id po)) ps d3"
    using assms(1,2)
    by (auto simp: repair_future_published_scheduled_at_def Let_def ps_def d1_def d2_def d3_def split: prod.splits)
  have dist: "distinct (map po_id ps)" using assms(3) by (simp add: keys_ok_def ps_def distinct_map_filter)
  have posts: "db_posts d1 = db_posts d" "db_posts d3 = db_posts d"
    by (simp_all add: d1_def d3_def d2_def pins_frame reset_frame update_pps_def)
  have get: "get_post j d1 = get_post j d" "get_post j d3 = get_post j d" for j
    by (simp_all add: get_post_def posts)
  have cor: "corrupted w d1 = corrupted w d" by (rule ext, rule corrupted_cong) (simp add: get)
  have "db_pps d' = db_pps d2" unfolding d' syncs_rows d3_def by (rule reset_frame)
  also have "\<dots> = tbl_update (corrupted w d) (\<lambda>p. p\<lparr>pp_scheduled_at := pp_published_at p\<rparr>) (db_pps d1)"
    unfolding d2_def update_pps_def cor by simp
  finally have rows: "db_pps d' = tbl_update (corrupted w d) (\<lambda>p. p\<lparr>pp_scheduled_at := pp_published_at p\<rparr>) (map (pinned ps) (db_pps d))"
    unfolding d1_def pins_rows [OF dist] .
  show ?thesis
  proof (rule that [of ps])
    show "set ps = {po \<in> set (db_posts d). po_id po \<in> pp_post ` set ?rows}" unfolding ps_def by auto
    show "map_option po_workspace (get_post j d') = map_option po_workspace (get_post j d)" for j
      unfolding d' syncs_workspace get ..
    show "get_post j d' = get_post j d" if "j \<notin> po_id ` set ps" for j
      unfolding d' syncs_other [OF that] get ..
  qed (rule rows dist)+
qed

section \<open>Properties\<close>

text \<open>
  The repair leaves nothing to repair: after a run that applies, no published channel of its
  scope is dated after its publication, and running it again, for real or dry, reports no row,
  applies nothing and leaves the database as it is.
\<close>

theorem repair_is_idempotent:
  assumes "repair_future_published_scheduled_at now w True d = (a, b, n, applied, d')" and "keys_ok d"
  shows "affected w d' = [] \<and> repair_future_published_scheduled_at later w again d' = (0, 0, 0, False, d')"
proof -
  have none: "affected w d' = []"
  proof (cases "affected w d = []")
    case True
    then show ?thesis using assms(1) by (simp add: repair_future_published_scheduled_at_def Let_def)
  next
    case False
    obtain ps where ps: "set ps = {po \<in> set (db_posts d). po_id po \<in> pp_post ` set (affected w d)}"
      and rows: "db_pps d' = tbl_update (corrupted w d) (\<lambda>p. p\<lparr>pp_scheduled_at := pp_published_at p\<rparr>) (map (pinned ps) (db_pps d))"
      and ws: "\<And>j. map_option po_workspace (get_post j d') = map_option po_workspace (get_post j d)"
      and other: "\<And>j. j \<notin> po_id ` set ps \<Longrightarrow> get_post j d' = get_post j d"
      and dist: "distinct (map po_id ps)"
    by (rule repair_applied [OF assms(1) False assms(2)]) (rule that; assumption)
    have "\<not> corrupted w d' r" if "r \<in> set (db_pps d')" for r
    proof -
      from that obtain r0 where r: "r = (if corrupted w d r0 then r0\<lparr>pp_scheduled_at := pp_published_at r0\<rparr> else r0)"
        unfolding rows set_tbl_update by blast
      have "\<not> corrupted w d (r0\<lparr>pp_scheduled_at := pp_published_at r0\<rparr>)"
        by (auto simp: corrupted_def split: option.splits)
      then show ?thesis unfolding r corrupted_cong [OF ws] by simp
    qed
    then have "filter (corrupted w d') (db_pps d') = []" by (simp add: filter_empty_conv)
    then show ?thesis by (simp add: affected_def)
  qed
  then show ?thesis by (simp add: repair_future_published_scheduled_at_def Let_def)
qed

text \<open>
  The repair never drags a pending post's schedule: lowering the time of a post whose published
  channel it resets leaves the due time of every scheduled channel as the publisher reads it, the
  ones that take it from the post included, when each post with a channel's time has one itself.
\<close>

theorem repair_keeps_due_times:
  assumes "repair_future_published_scheduled_at now w True d = (a, b, n, applied, d')" and "keys_ok d"
    and synced: "\<And>po. po \<in> set (db_posts d) \<Longrightarrow> child_times (po_id po) d \<noteq> [] \<Longrightarrow> po_scheduled_at po \<noteq> None"
    and row: "get_pp i d = Some p" "pp_status p = SCHEDULED"
  shows "\<exists>p'. get_pp i d' = Some p' \<and> pp_status p' = SCHEDULED \<and> effective_at d' p' = effective_at d p"
proof (cases "affected w d = []")
  case True
  then have "d' = d" using assms(1) by (simp add: repair_future_published_scheduled_at_def Let_def)
  then show ?thesis using row by blast
next
  case False
  obtain ps where ps: "set ps = {po \<in> set (db_posts d). po_id po \<in> pp_post ` set (affected w d)}"
      and rows: "db_pps d' = tbl_update (corrupted w d) (\<lambda>p. p\<lparr>pp_scheduled_at := pp_published_at p\<rparr>) (map (pinned ps) (db_pps d))"
      and ws: "\<And>j. map_option po_workspace (get_post j d') = map_option po_workspace (get_post j d)"
      and other: "\<And>j. j \<notin> po_id ` set ps \<Longrightarrow> get_post j d' = get_post j d"
      and dist: "distinct (map po_id ps)"
    by (rule repair_applied [OF assms(1) False assms(2)]) (rule that; assumption)
  let ?p = "pinned ps p"
  have "tbl_get pp_id i (map (pinned ps) (db_pps d)) = map_option (pinned ps) (get_pp i d)"
  proof -
    have "tbl_get pp_id i (map (pinned ps) rs) = map_option (pinned ps) (tbl_get pp_id i rs)" for rs
      by (induction rs) (simp_all add: tbl_get_def)
    then show ?thesis by (simp add: get_pp_def)
  qed
  then have "get_pp i d' = Some ?p"
    unfolding get_pp_def rows using row by (subst tbl_get_update) (simp_all add: get_pp_def corrupted_def)
  moreover have "effective_at d' ?p = effective_at d p"
  proof (cases "pp_scheduled_at p")
    case (Some t)
    then show ?thesis by (simp add: effective_at_def pinned_def)
  next
    case None
    show ?thesis
    proof (cases "pp_post p \<in> po_id ` set ps")
      case True
      then obtain po where po: "po \<in> set ps" "po_id po = pp_post p" by force
      have t: "tbl_get po_id (pp_post p) ps = Some po" using po dist by (simp add: tbl_get_distinct)
      have g: "get_post (pp_post p) d = Some po"
        using po ps assms(2) by (auto simp: get_post_def keys_ok_def tbl_get_distinct)
      obtain r where r: "r \<in> set (affected w d)" "pp_post r = po_id po" using po(1) ps by auto
      then have "r \<in> set (children (po_id po) d)" "pp_scheduled_at r \<noteq> None"
        by (auto simp: affected_def corrupted_def children_def split: option.splits)
      then have "child_times (po_id po) d \<noteq> []" by (auto simp: child_times_def somes_Nil_iff)
      then obtain s where "po_scheduled_at po = Some s" using synced po(1) ps by blast
      then show ?thesis using None row(2) t g by (simp add: effective_at_def pinned_def)
    next
      case False
      then have "tbl_get po_id (pp_post p) ps = None" by (simp add: tbl_get_None)
      then have "?p = p" using None by (simp add: pinned_def)
      then show ?thesis using other [OF False] None by (simp add: effective_at_def)
    qed
  qed
  ultimately show ?thesis using row(2) by (intro exI [of _ ?p]) simp
qed

text \<open>A published channel dragged to a future slot, and a scheduled one that follows its post.\<close>

definition dragged_db :: db where
  "dragged_db = sample_db\<lparr>db_pps :=
     [(new_platform_post 8 7 5 0)\<lparr>pp_status := PUBLISHED, pp_published_at := Some 100, pp_scheduled_at := Some 900\<rparr>,
      (new_platform_post 9 7 6 0)\<lparr>pp_status := SCHEDULED\<rparr>]\<rparr>"

lemma dragged_keys: "keys_ok dragged_db"
  by (simp add: keys_ok_def dragged_db_def sample_defs)

theorem repair_is_idempotent_witness:
  "\<exists>a b n d'. repair_future_published_scheduled_at 1000 None True dragged_db = (a, b, n, True, d') \<and> a = 1 \<and> affected None d' = []"
proof -
  let ?R = "repair_future_published_scheduled_at 1000 None True dragged_db"
  have "affected None dragged_db = [hd (db_pps dragged_db)]"
    by (simp add: affected_def corrupted_def dragged_db_def new_platform_post_def)
  then have s: "fst ?R = 1" "fst (snd (snd (snd ?R)))"
    by (simp_all add: repair_future_published_scheduled_at_def Let_def split: prod.split)
  obtain a b n applied d' where run: "?R = (a, b, n, applied, d')" by (cases ?R) auto
  then have "a = 1" "applied" using s by simp_all
  then show ?thesis using repair_is_idempotent [OF run dragged_keys] run by auto
qed

theorem repair_keeps_due_times_witness:
  "\<exists>p'. get_pp 9 (snd (snd (snd (snd (repair_future_published_scheduled_at 1000 None True dragged_db))))) = Some p' \<and>
    effective_at (snd (snd (snd (snd (repair_future_published_scheduled_at 1000 None True dragged_db))))) p' = Some 900"
proof -
  obtain a b n applied d' where run: "repair_future_published_scheduled_at 1000 None True dragged_db = (a, b, n, applied, d')"
    by (cases "repair_future_published_scheduled_at 1000 None True dragged_db") auto
  let ?p = "(new_platform_post 9 7 6 0)\<lparr>pp_status := SCHEDULED\<rparr>"
  have synced: "po_scheduled_at po \<noteq> None" if "po \<in> set (db_posts dragged_db)" for po
    using that by (simp add: dragged_db_def sample_defs)
  have row: "get_pp 9 dragged_db = Some ?p" "pp_status ?p = SCHEDULED"
    by (simp_all add: get_pp_def tbl_get_def dragged_db_def new_platform_post_def)
  have "effective_at dragged_db ?p = Some 900"
    by (simp add: effective_at_def dragged_db_def sample_defs get_post_def tbl_get_def)
  then show ?thesis
    using repair_keeps_due_times [OF run dragged_keys synced row] unfolding run by auto
qed

end
