(* ===== verification/Recurrence.thy ===== *)
theory Recurrence
  imports Calendar_Queue
begin

text \<open>
  Recurring posts: \<open>apps/calendar/tasks.py\<close>. A rule repeats the post it belongs to; the job clones
  the post for every recurrence of the next ninety days it does not find on the calendar yet.
  \<open>relativedelta(months=n)\<close> comes from \<open>dateutil\<close>, outside the repository: it is the parameter
  \<open>add_months\<close>, \<open>None\<close> where it raises. A time of day carries no fold here: a source in the second of
  two equal local hours is cloned as one in the first.
\<close>

section \<open>The dates of a rule\<close>

definition LOOKAHEAD_DAYS :: nat where
  "LOOKAHEAD_DAYS = 90"

definition MAX_DATE :: int where
  \<comment> \<open>\<open>date.max\<close>, 9999-12-31, as days since 1970-01-01\<close>
  "MAX_DATE = 2932896"

definition MAX_DELTA_DAYS :: int where
  \<comment> \<open>the largest \<open>timedelta\<close>\<close>
  "MAX_DELTA_DAYS = 999999999"

definition add_days :: "int \<Rightarrow> int \<Rightarrow> int option" where
  \<comment> \<open>\<open>current + timedelta(days=n)\<close> for \<open>n\<close> at least 0; \<open>None\<close> is \<open>OverflowError\<close>\<close>
  "add_days n current = (if n > MAX_DELTA_DAYS \<or> current + n > MAX_DATE then None else Some (current + n))"

type_synonym month_adder = "int \<Rightarrow> int \<Rightarrow> int option"

definition next_date :: "month_adder \<Rightarrow> string \<Rightarrow> int \<Rightarrow> int \<Rightarrow> int option option" where
  \<comment> \<open>one turn of the loop: \<open>None\<close> is its \<open>break\<close> on an unknown frequency\<close>
  "next_date add_months frequency interval current =
    (if frequency = ''daily'' then Some (add_days interval current)
     else if frequency = ''weekly'' then Some (add_days (7 * interval) current)
     else if frequency = ''monthly'' then Some (add_months interval current)
     else None)"

fun recur :: "(int \<Rightarrow> int option option) \<Rightarrow> int \<Rightarrow> nat \<Rightarrow> int \<Rightarrow> int list option" where
  \<comment> \<open>the loop with its turns left; \<open>None\<close> when an addition raises\<close>
  "recur step upto_day 0 current = Some []"
| "recur step upto_day (Suc k) current =
    (case step current of
       None \<Rightarrow> Some []
     | Some None \<Rightarrow> None
     | Some (Some c) \<Rightarrow> if c > upto_day then Some [] else map_option (Cons c) (recur step upto_day k c))"

definition compute_recurrence_dates :: "month_adder \<Rightarrow> int \<Rightarrow> string \<Rightarrow> int \<Rightarrow> int \<Rightarrow> int list option" where
  "compute_recurrence_dates add_months base frequency interval upto_day =
    recur (next_date add_months frequency interval) upto_day (LOOKAHEAD_DAYS * 2) base"

section \<open>The clones of one date\<close>

definition RECURRING_COMMITTED_STATUSES :: "pp_state list" where
  "RECURRING_COMMITTED_STATUSES = [SCHEDULED, PUBLISHING, PUBLISHED, FAILED]"

definition shifted :: "zone \<Rightarrow> int \<Rightarrow> int \<Rightarrow> int \<Rightarrow> instant" where
  \<comment> \<open>\<open>scheduled_dt + delta\<close>: an aware \<open>datetime\<close> moves on the wall clock of its zone\<close>
  "shifted z d tod delta = z_at z (d + (tod + delta) div days 1) ((tod + delta) mod days 1)"

definition recurring_child ::
  "zone \<Rightarrow> instant \<Rightarrow> post \<Rightarrow> int \<Rightarrow> int \<Rightarrow> string set \<Rightarrow> nat \<Rightarrow> nat \<Rightarrow> db \<Rightarrow> platform_post \<Rightarrow> platform_post" where
  "recurring_child z now source d tod media_types i k db p =
    (let blocked = (case get_account (pp_account p) db of
                      Some a \<Rightarrow> publish_blocker a media_types (pp_extra p) | None \<Rightarrow> []);
         at = (case (pp_scheduled_at p, po_scheduled_at source) of
                 (Some t, Some s) \<Rightarrow> Some (shifted z d tod (t - s)) | _ \<Rightarrow> None) in
     (new_platform_post i k (pp_account p) now)
       \<lparr>pp_caption := pp_caption p, pp_first_comment := pp_first_comment p, pp_media := pp_media p,
        pp_extra := pp_extra p, pp_scheduled_at := at,
        pp_status := (if pp_status p \<in> set RECURRING_COMMITTED_STATUSES \<and> blocked = []
                      then SCHEDULED else DRAFT)\<rparr>)"

definition recurring_post :: "instant \<Rightarrow> post \<Rightarrow> instant \<Rightarrow> nat \<Rightarrow> post" where
  "recurring_post now source at k =
    \<lparr>po_id = k, po_workspace = po_workspace source, po_author = po_author source, po_title = [],
     po_caption = po_caption source, po_first_comment = po_first_comment source,
     po_internal_notes = po_internal_notes source, po_tags = po_tags source,
     po_category = po_category source, po_scheduled_at = Some at, po_published_at = None,
     po_proposed_at = None, po_updated_at = now\<rparr>"

definition cloned_rows :: "zone \<Rightarrow> instant \<Rightarrow> post \<Rightarrow> int \<Rightarrow> string set \<Rightarrow> int \<Rightarrow> db \<Rightarrow> platform_post list" where
  \<comment> \<open>the rows of \<open>bulk_create(new_pps)\<close>\<close>
  "cloned_rows z now source tod media_types d db =
    map (\<lambda>(j, p). recurring_child z now source d tod media_types (db_next db + 1 + j) (db_next db) db p)
      (enumerate 0 (children (po_id source) db))"

definition cloned_media :: "post \<Rightarrow> db \<Rightarrow> post_media list" where
  "cloned_media source db =
    map (\<lambda>(j, pm). pm\<lparr>pm_id := db_next db + 1 + length (children (po_id source) db) + j, pm_post := db_next db\<rparr>)
      (enumerate 0 (sort_key pm_position (filter (\<lambda>pm. pm_post pm = po_id source) (db_media db))))"

definition insert_clone :: "zone \<Rightarrow> instant \<Rightarrow> post \<Rightarrow> int \<Rightarrow> string set \<Rightarrow> int \<Rightarrow> db \<Rightarrow> db" where
  \<comment> \<open>the post and its channels, before they are synchronised\<close>
  "insert_clone z now source tod media_types d db =
    db\<lparr>db_posts := db_posts db @ [recurring_post now source (z_at z d tod) (db_next db)],
       db_pps := db_pps db @ cloned_rows z now source tod media_types d db,
       db_next := db_next db + 1 + length (children (po_id source) db) + length (cloned_media source db)\<rparr>"

definition clone_for_date :: "zone \<Rightarrow> instant \<Rightarrow> post \<Rightarrow> int \<Rightarrow> string set \<Rightarrow> int \<Rightarrow> db \<Rightarrow> db" where
  "clone_for_date z now source tod media_types d db =
    (let db1 = insert_clone z now source tod media_types d db;
         db2 = (if children (po_id source) db = [] then db1
                else sync_post_scheduled_at now (db_next db) db1)
     in db2\<lparr>db_media := db_media db2 @ cloned_media source db\<rparr>)"

section \<open>The daily job\<close>

definition existing_dates :: "zone \<Rightarrow> post \<Rightarrow> int list \<Rightarrow> db \<Rightarrow> int list" where
  \<comment> \<open>the dates that already have a post of the source's workspace and caption\<close>
  "existing_dates z source ds db =
    concat (map (\<lambda>po. case po_scheduled_at po of
                        None \<Rightarrow> []
                      | Some t \<Rightarrow> if po_workspace po = po_workspace source \<and> po_caption po = po_caption source \<and>
                                    po_id po \<noteq> po_id source \<and> z_date z t \<in> set ds
                                 then [z_date z t] else [])
      (db_posts db))"

fun clone_dates ::
  "zone \<Rightarrow> instant \<Rightarrow> post \<Rightarrow> int \<Rightarrow> string set \<Rightarrow> int list \<Rightarrow> nat \<times> db \<Rightarrow> nat \<times> db" where
  "clone_dates z now source tod media_types [] nd = nd"
| "clone_dates z now source tod media_types (d # ds) (n, db) =
    clone_dates z now source tod media_types ds
      (Suc n, clone_for_date z now source tod media_types d db)"

definition source_zone :: "(string \<Rightarrow> zone) \<Rightarrow> post \<Rightarrow> db \<Rightarrow> zone" where
  "source_zone zones source db =
    zones (case get_workspace (po_workspace source) db of
             Some w \<Rightarrow> py_or (effective_timezone w db) ''UTC'' | None \<Rightarrow> ''UTC'')"

definition recurrence_end :: "recurrence_rule \<Rightarrow> int \<Rightarrow> int" where
  "recurrence_end r today =
    (let cutoff = today + int LOOKAHEAD_DAYS;
         upto_day = (case rr_end_date r of Some e \<Rightarrow> e | None \<Rightarrow> cutoff)
     in if upto_day > cutoff then cutoff else upto_day)"

definition rule_dates :: "month_adder \<Rightarrow> (string \<Rightarrow> zone) \<Rightarrow> instant \<Rightarrow> recurrence_rule \<Rightarrow> post \<Rightarrow> instant \<Rightarrow> db \<Rightarrow> int list option" where
  \<comment> \<open>\<open>dates\<close> of the loop, for a source scheduled at \<open>at\<close>\<close>
  "rule_dates add_months zones now r source at db =
    (let z = source_zone zones source db in
     compute_recurrence_dates add_months (z_date z at) (rr_frequency r) (rr_interval r)
       (recurrence_end r (z_date z now)))"

definition missing_dates :: "zone \<Rightarrow> instant \<Rightarrow> post \<Rightarrow> int list \<Rightarrow> db \<Rightarrow> int list" where
  \<comment> \<open>the dates the loop does not skip: the set is computed once, before it\<close>
  "missing_dates z now source ds db =
    (let existing = existing_dates z source ds db in
     filter (\<lambda>d. d \<notin> set existing \<and> \<not> d \<le> z_date z now) ds)"

definition mark_generated :: "instant \<Rightarrow> recurrence_rule \<Rightarrow> db \<Rightarrow> db" where
  "mark_generated now r db =
    db\<lparr>db_rules := tbl_update (\<lambda>x. rr_id x = rr_id r) (\<lambda>x. x\<lparr>rr_last_generated_at := Some now\<rparr>) (db_rules db)\<rparr>"

definition generate_for ::
  "month_adder \<Rightarrow> (string \<Rightarrow> zone) \<Rightarrow> instant \<Rightarrow> recurrence_rule \<Rightarrow> post \<Rightarrow> nat \<times> db \<Rightarrow> (nat \<times> db) option" where
  \<comment> \<open>one turn of the loop over the rules, with the source its query joined\<close>
  "generate_for add_months zones now r source nd =
    (case po_scheduled_at source of
       None \<Rightarrow> Some nd
     | Some at \<Rightarrow>
        (case nd of (n, db) \<Rightarrow>
         let z = source_zone zones source db in
         case rule_dates add_months zones now r source at db of
           None \<Rightarrow> None
         | Some ds \<Rightarrow>
            (case clone_dates z now source (z_time z at) (post_media_types (po_id source) None db)
                    (missing_dates z now source ds db) (n, db) of
               (n1, db1) \<Rightarrow> Some (n1, mark_generated now r db1))))"

fun generate_all ::
  "month_adder \<Rightarrow> (string \<Rightarrow> zone) \<Rightarrow> instant \<Rightarrow> (recurrence_rule \<times> post) list \<Rightarrow> nat \<times> db \<Rightarrow> nat option \<times> db" where
  \<comment> \<open>an exception ends the job; what it has written stays written\<close>
  "generate_all add_months zones now [] (n, db) = (Some n, db)"
| "generate_all add_months zones now ((r, source) # rs) (n, db) =
    (case generate_for add_months zones now r source (n, db) of
       None \<Rightarrow> (None, db)
     | Some nd \<Rightarrow> generate_all add_months zones now rs nd)"

definition active_rules :: "db \<Rightarrow> (recurrence_rule \<times> post) list" where
  \<comment> \<open>\<open>RecurrenceRule.objects.filter(is_active=True).select_related("post")\<close>\<close>
  "active_rules db =
    concat (map (\<lambda>r. case get_post (rr_post r) db of Some po \<Rightarrow> [(r, po)] | None \<Rightarrow> [])
      (filter rr_active (db_rules db)))"

definition generate_recurring_posts :: "month_adder \<Rightarrow> (string \<Rightarrow> zone) \<Rightarrow> instant \<Rightarrow> db \<Rightarrow> nat option \<times> db" where
  "generate_recurring_posts add_months zones now db =
    generate_all add_months zones now (active_rules db) (0, db)"

section \<open>Lemmas: the dates\<close>

lemma recur_closed:
  assumes step: "0 < step" and nxt: "\<And>c. c \<le> max base upto_day \<Longrightarrow> nxt c = Some (Some (c + step))"
    and "c \<le> max base upto_day"
  shows "recur nxt upto_day k c = Some (filter (\<lambda>d. d \<le> upto_day) (map (\<lambda>j. c + step * int j) [1..<Suc k]))"
  using assms(3)
proof (induction k arbitrary: c)
  case (Suc k)
  have split: "map (\<lambda>j. c + step * int j) [1..<Suc (Suc k)] =
      (c + step) # map (\<lambda>j. (c + step) + step * int j) [1..<Suc k]"
  proof -
    have "[1..<Suc (Suc k)] = 1 # map Suc [1..<Suc k]" by (simp add: upt_conv_Cons map_Suc_upt del: upt_Suc)
    then show ?thesis by (simp add: algebra_simps)
  qed
  show ?case
  proof (cases "c + step > upto_day")
    case True
    have "d > upto_day" if "d \<in> set (map (\<lambda>j. c + step * int j) [1..<Suc (Suc k)])" for d
    proof -
      from that obtain j where "j \<in> set [1..<Suc (Suc k)]" and j: "d = c + step * int j"
        unfolding set_map by (elim imageE)
      then have j2: "1 \<le> j" by (simp del: upt_Suc)
      have "step * 1 \<le> step * int j" using step j2 by (intro mult_left_mono) simp_all
      then show ?thesis using True j by linarith
    qed
    then have "filter (\<lambda>d. d \<le> upto_day) (map (\<lambda>j. c + step * int j) [1..<Suc (Suc k)]) = []"
      by (intro filter_False) (meson not_le)
    then show ?thesis using True nxt [OF Suc.prems] by (simp del: upt_Suc)
  next
    case False
    then have le: "c + step \<le> max base upto_day" by simp
    show ?thesis unfolding split using False nxt [OF Suc.prems] Suc.IH [OF le] by (simp del: upt_Suc)
  qed
qed simp

lemma multiples_until:
  assumes "frequency = ''daily'' \<and> step = interval \<or> frequency = ''weekly'' \<and> step = 7 * interval"
    and "0 < interval" and "step \<le> MAX_DELTA_DAYS" and "max base upto_day + step \<le> MAX_DATE"
  shows "compute_recurrence_dates add_months base frequency interval upto_day =
    Some (filter (\<lambda>d. d \<le> upto_day) (map (\<lambda>k. base + step * int k) [1..<181]))"
proof -
  have s: "0 < step" using assms(1,2) by auto
  have nxt: "next_date add_months frequency interval c = Some (Some (c + step))" if "c \<le> max base upto_day" for c
  proof -
    have "c + step \<le> MAX_DATE" using that assms(4) by linarith
    with assms(3) have "add_days step c = Some (c + step)" by (simp add: add_days_def)
    with assms(1) show ?thesis unfolding next_date_def by (elim disjE conjE) simp_all
  qed
  have n: "Suc (LOOKAHEAD_DAYS * 2) = 181" by (simp add: LOOKAHEAD_DAYS_def)
  show ?thesis
    unfolding compute_recurrence_dates_def n [symmetric] by (rule recur_closed [OF s nxt max.cobounded1])
qed

text \<open>
  C31. A daily or weekly rule with a positive interval repeats its post every so many days, in order and
  without a gap, up to its end: the loop with its early exit computes the first 180 multiples of the
  interval that are not past the end. It does not raise, provided that the interval is a \<open>timedelta\<close> and
  that one interval after the end (or after the base date, where that is later) is still a Python date.
\<close>

theorem recurrence_dates_closed_form:
  assumes "frequency = ''daily'' \<and> step = interval \<or> frequency = ''weekly'' \<and> step = 7 * interval"
    and "0 < interval" and "step \<le> MAX_DELTA_DAYS" and "max base upto_day + step \<le> MAX_DATE"
  shows "compute_recurrence_dates add_months base frequency interval upto_day =
    Some (filter (\<lambda>d. d \<le> upto_day) (map (\<lambda>k. base + step * int k) [1..<181]))"
  using assms by (rule multiples_until)

theorem recurrence_dates_closed_form_witness:
  "compute_recurrence_dates (\<lambda>n d. None) 20000 ''weekly'' 2 20040 =
    Some (filter (\<lambda>d. d \<le> 20040) (map (\<lambda>k. 20000 + 14 * int k) [1..<181]))"
  by (rule recurrence_dates_closed_form) (simp_all add: MAX_DELTA_DAYS_def MAX_DATE_def)

section \<open>Lemmas: what the job adds\<close>

text \<open>
  One state grown from another: rows are only added, with keys the first did not have, the posts
  and channels added satisfying \<open>P\<close> and \<open>Q\<close>; the tables the job reads besides are unchanged.
\<close>

definition grown :: "(post \<Rightarrow> bool) \<Rightarrow> (platform_post \<Rightarrow> bool) \<Rightarrow> db \<Rightarrow> db \<Rightarrow> bool" where
  "grown P Q d d' \<longleftrightarrow>
     (\<exists>ps. db_posts d' = db_posts d @ ps \<and> list_all (\<lambda>p. P p \<and> db_next d \<le> po_id p) ps) \<and>
     (\<exists>cs. db_pps d' = db_pps d @ cs \<and> list_all (\<lambda>c. Q c \<and> db_next d \<le> pp_post c) cs) \<and>
     (\<exists>ms. db_media d' = db_media d @ ms \<and> list_all (\<lambda>m. db_next d \<le> pm_post m) ms) \<and>
     db_workspaces d' = db_workspaces d \<and> db_orgs d' = db_orgs d \<and> db_accounts d' = db_accounts d \<and>
     db_assets d' = db_assets d \<and> db_next d \<le> db_next d'"

lemma grown_refl [simp]: "grown P Q d d"
  by (simp add: grown_def)

lemma list_all_later:
  "list_all (\<lambda>x. R x \<and> n \<le> f x) xs \<Longrightarrow> m \<le> n \<Longrightarrow> list_all (\<lambda>x. R x \<and> m \<le> f x) xs" for n m :: nat
  by (auto simp: list_all_iff)

lemma grown_frame:
  assumes "grown P Q d d'"
  shows "db_workspaces d' = db_workspaces d" "db_orgs d' = db_orgs d" "db_accounts d' = db_accounts d"
    "db_assets d' = db_assets d" "db_next d \<le> db_next d'"
  using assms unfolding grown_def by simp_all

lemma grown_trans:
  assumes a: "grown P Q d d1" and b: "grown P Q d1 d2"
  shows "grown P Q d d2"
proof -
  note fa = grown_frame [OF a] and fb = grown_frame [OF b]
  note le = fa(5)
  obtain ps cs ms where 1: "db_posts d1 = db_posts d @ ps" "list_all (\<lambda>p. P p \<and> db_next d \<le> po_id p) ps"
      "db_pps d1 = db_pps d @ cs" "list_all (\<lambda>c. Q c \<and> db_next d \<le> pp_post c) cs"
      "db_media d1 = db_media d @ ms" "list_all (\<lambda>m. db_next d \<le> pm_post m) ms"
    using a unfolding grown_def by blast
  obtain ps' cs' ms' where 2: "db_posts d2 = db_posts d1 @ ps'" "list_all (\<lambda>p. P p \<and> db_next d1 \<le> po_id p) ps'"
      "db_pps d2 = db_pps d1 @ cs'" "list_all (\<lambda>c. Q c \<and> db_next d1 \<le> pp_post c) cs'"
      "db_media d2 = db_media d1 @ ms'" "list_all (\<lambda>m. db_next d1 \<le> pm_post m) ms'"
    using b unfolding grown_def by blast
  have m: "list_all (\<lambda>m. db_next d \<le> pm_post m) ms'" using 2(6) le by (auto simp: list_all_iff)
  show ?thesis
    unfolding grown_def
  proof (intro conjI)
    show "\<exists>ps. db_posts d2 = db_posts d @ ps \<and> list_all (\<lambda>p. P p \<and> db_next d \<le> po_id p) ps"
      using 1(1,2) 2(1) list_all_later [OF 2(2) le] by (intro exI [of _ "ps @ ps'"]) simp
    show "\<exists>cs. db_pps d2 = db_pps d @ cs \<and> list_all (\<lambda>c. Q c \<and> db_next d \<le> pp_post c) cs"
      using 1(3,4) 2(3) list_all_later [OF 2(4) le] by (intro exI [of _ "cs @ cs'"]) simp
    show "\<exists>ms. db_media d2 = db_media d @ ms \<and> list_all (\<lambda>m. db_next d \<le> pm_post m) ms"
      using 1(5,6) 2(5) m by (intro exI [of _ "ms @ ms'"]) simp
  qed (simp_all only: fa fb, rule order_trans [OF fa(5) fb(5)])
qed

lemma children_grown:
  assumes "grown P Q d d'" "i < db_next d"
  shows "children i d' = children i d"
proof -
  obtain cs where c: "db_pps d' = db_pps d @ cs" "list_all (\<lambda>c. Q c \<and> db_next d \<le> pp_post c) cs"
    using assms(1) unfolding grown_def by blast
  then have "filter (\<lambda>p. pp_post p = i) cs = []"
    using assms(2) by (auto simp: filter_empty_conv list_all_iff)
  then show ?thesis using c(1) by (simp add: children_def)
qed

lemma tables_grown:
  assumes "grown P Q d d'"
  shows "get_account a d' = get_account a d" "get_asset m d' = get_asset m d"
    "source_zone zones source d' = source_zone zones source d"
proof -
  note d = grown_frame [OF assms]
  have e: "effective_timezone w d' = effective_timezone w d" for w by (simp add: effective_timezone_def d(2))
  show "get_account a d' = get_account a d" "get_asset m d' = get_asset m d"
    "source_zone zones source d' = source_zone zones source d"
    unfolding get_account_def get_asset_def source_zone_def get_workspace_def d(1-4) e by (rule refl)+
qed

lemma post_media_types_grown:
  assumes "grown P Q d d'" "i < db_next d"
  shows "post_media_types i None d' = post_media_types i None d"
proof -
  obtain ms where m: "db_media d' = db_media d @ ms" "list_all (\<lambda>m. db_next d \<le> pm_post m) ms"
    using assms(1) unfolding grown_def by blast
  have "(pm, a) \<in> set (usable_attachments d') \<longleftrightarrow> (pm, a) \<in> set (usable_attachments d)" if "pm_post pm = i" for pm a
    using m that assms(2) tables_grown(2) [OF assms(1)]
    by (auto simp: usable_attachments_def list_all_iff split: option.splits if_splits)
  then show ?thesis by (force simp: post_media_types_def)
qed

section \<open>Lemmas: one clone\<close>

text \<open>
  The time a clone is saved with: its own, or the earliest of its channels' once they are synchronised.
\<close>

definition clone_instant :: "zone \<Rightarrow> post \<Rightarrow> instant \<Rightarrow> int \<Rightarrow> db \<Rightarrow> instant option" where
  "clone_instant z source at d db =
    (let times = child_times (po_id source) db in
     if children (po_id source) db = [] then Some (z_at z d (z_time z at))
     else if times = [] then None
     else Some (Min (set (map (\<lambda>t. shifted z d (z_time z at) (t - at)) times))))"

definition keeps_date :: "zone \<Rightarrow> post \<Rightarrow> instant \<Rightarrow> int \<Rightarrow> db \<Rightarrow> bool" where
  \<comment> \<open>the clone of a date reads back on that date\<close>
  "keeps_date z source at d db \<longleftrightarrow> map_option (z_date z) (clone_instant z source at d db) = Some d"

lemma pp_post_recurring [simp]: "pp_post (recurring_child z now source d tod mt i k db p) = k"
  by (simp add: recurring_child_def Let_def new_platform_post_def)

lemma recurring_child_time:
  "pp_scheduled_at (recurring_child z now source d tod mt i k db p) =
    (case (pp_scheduled_at p, po_scheduled_at source) of
       (Some t, Some s) \<Rightarrow> Some (shifted z d tod (t - s)) | _ \<Rightarrow> None)"
  by (simp add: recurring_child_def Let_def)

lemma somes_map_enumerate:
  assumes "\<And>j x. f (g j x) = map_option h (f' x)"
  shows "somes (map f (map (\<lambda>(j, x). g j x) (enumerate n xs))) = map h (somes (map f' xs))"
proof (induction xs arbitrary: n)
  case (Cons x xs)
  then show ?case by (cases "f' x") (simp_all add: assms)
qed simp

lemma tbl_save_last:
  assumes "\<forall>x \<in> set t. key x \<noteq> key r" "key y = key r"
  shows "tbl_save key r (t @ [y]) = t @ [r]"
proof -
  have "tbl_save key r t = t" using assms(1) by (intro tbl_save_id) auto
  then show ?thesis using assms(2) by (simp add: tbl_save_def tbl_update_def)
qed

lemma tbl_get_last:
  assumes "\<forall>x \<in> set t. key x \<noteq> i" "key y = i"
  shows "tbl_get key i (t @ [y]) = Some y"
proof -
  have "tbl_first (\<lambda>r. key r = i) t = None" using assms(1) by (simp add: tbl_first_None)
  then show ?thesis using assms(2) by (simp add: tbl_get_def tbl_first_append [unfolded tbl_first_def] tbl_first_def)
qed

lemma set_cloned_rows:
  assumes "c \<in> set (cloned_rows z now source tod mt d db)"
  obtains j p where "c = recurring_child z now source d tod mt (db_next db + 1 + j) (db_next db) db p"
    "p \<in> set (children (po_id source) db)"
  using assms unfolding cloned_rows_def set_map by (auto simp: in_set_enumerate_eq)

lemma sync_posts_last:
  assumes "db_posts db = t @ [po]" and "\<forall>x \<in> set t. po_id x \<noteq> po_id po"
  shows "db_posts (sync_post_scheduled_at now (po_id po) db) = t @
    [if child_times (po_id po) db = []
     then (if po_scheduled_at po \<noteq> None then po\<lparr>po_scheduled_at := None, po_updated_at := now\<rparr> else po)
     else (let m = Min (set (child_times (po_id po) db)) in
       if po_scheduled_at po \<noteq> Some m \<or> po_proposed_at po \<noteq> None
       then po\<lparr>po_scheduled_at := Some m, po_proposed_at := None, po_updated_at := now\<rparr> else po)]"
proof -
  have g: "get_post (po_id po) db = Some po"
    unfolding get_post_def assms(1) by (rule tbl_get_last [OF assms(2) refl])
  have s: "db_posts (save_post q db) = t @ [q]" if "po_id q = po_id po" for q
  proof -
    have "tbl_save po_id q (t @ [po]) = t @ [q]"
    proof (rule tbl_save_last)
      show "\<forall>x \<in> set t. po_id x \<noteq> po_id q" unfolding that by (rule assms(2))
    qed (rule that [symmetric])
    then show ?thesis unfolding save_post_def assms(1) by simp
  qed
  show ?thesis
  proof (cases "child_times (po_id po) db = []")
    case True
    have "db_posts (save_post (po\<lparr>po_scheduled_at := None, po_updated_at := now\<rparr>) db) =
        t @ [po\<lparr>po_scheduled_at := None, po_updated_at := now\<rparr>]" by (rule s) simp
    then show ?thesis using True assms(1) unfolding sync_post_scheduled_at_def g Let_def by simp
  next
    case False
    let ?q = "po\<lparr>po_scheduled_at := Some (Min (set (child_times (po_id po) db))), po_proposed_at := None, po_updated_at := now\<rparr>"
    have "db_posts (save_post ?q db) = t @ [?q]" by (rule s) simp
    then show ?thesis using False assms(1) unfolding sync_post_scheduled_at_def g Let_def by simp
  qed
qed

lemma clone_for_date_posts:
  assumes fresh: "fresh_ok db" and at: "po_scheduled_at source = Some at"
  shows "\<exists>po. db_posts (clone_for_date z now source (z_time z at) mt d db) = db_posts db @ [po] \<and>
    po_id po = db_next db \<and> po_workspace po = po_workspace source \<and> po_caption po = po_caption source \<and>
    po_title po = [] \<and> po_scheduled_at po = clone_instant z source at d db"
proof -
  let ?k = "db_next db" and ?cs = "children (po_id source) db" and ?tod = "z_time z at"
  let ?po = "recurring_post now source (z_at z d ?tod) ?k"
  let ?rows = "cloned_rows z now source ?tod mt d db"
  have po: "po_id ?po = ?k" "po_workspace ?po = po_workspace source" "po_caption ?po = po_caption source"
    "po_title ?po = []" "po_scheduled_at ?po = Some (z_at z d ?tod)" "po_proposed_at ?po = None"
    by (simp_all add: recurring_post_def)
  have old: "\<forall>x \<in> set (db_posts db). po_id x \<noteq> po_id ?po"
    using fresh unfolding po(1) by (auto simp: fresh_ok_def list_all_iff)
  show ?thesis
  proof (cases "?cs = []")
    case True
    then have "db_posts (clone_for_date z now source ?tod mt d db) = db_posts db @ [?po]"
      by (simp add: clone_for_date_def Let_def insert_clone_def)
    then show ?thesis using True po by (intro exI [of _ ?po]) (simp add: clone_instant_def Let_def)
  next
    case False
    define db1 where "db1 = insert_clone z now source ?tod mt d db"
    then have db1: "db_posts db1 = db_posts db @ [?po]" "db_pps db1 = db_pps db @ ?rows"
      by (simp_all add: insert_clone_def)
    have c: "db_posts (clone_for_date z now source ?tod mt d db) = db_posts (sync_post_scheduled_at now (po_id ?po) db1)"
      using False by (simp add: clone_for_date_def Let_def po(1) db1_def)
    have "children ?k db1 = ?rows"
    proof -
      have "filter (\<lambda>p. pp_post p = ?k) ?rows = ?rows"
        by (rule filter_True) (auto elim: set_cloned_rows)
      then show ?thesis using children_fresh [OF fresh] unfolding children_def db1(2) by simp
    qed
    then have times: "child_times ?k db1 = map (\<lambda>t. shifted z d ?tod (t - at)) (child_times (po_id source) db)"
      unfolding child_times_def cloned_rows_def
      by (simp only:) (rule somes_map_enumerate, simp add: recurring_child_time at split: option.split)
    note s = sync_posts_last [OF db1(1) old, of now, unfolded po(1) times Let_def]
    show ?thesis
      unfolding c po(1) s using False po
      by (cases "child_times (po_id source) db = []") (simp_all add: clone_instant_def Let_def recurring_post_def)
  qed
qed

text \<open>What a state keeps of the one before, when its channels are those of a plan.\<close>

definition may_generate :: "db \<Rightarrow> post \<Rightarrow> platform_post \<Rightarrow> bool" where
  \<comment> \<open>a channel the job may add for a source, judged on the state the job starts in\<close>
  "may_generate d0 source c \<longleftrightarrow> (\<exists>p. p \<in> set (children (po_id source) d0) \<and>
     pp_account c = pp_account p \<and> pp_extra c = pp_extra p \<and> pp_caption c = pp_caption p \<and>
     pp_title c = None \<and> pp_handle c = [] \<and> pp_retry_count c = 0 \<and> pp_fc_status c = FC_NONE \<and>
     pp_status c \<in> {DRAFT, SCHEDULED} \<and>
     (pp_status c = SCHEDULED \<longrightarrow> pp_status p \<in> set RECURRING_COMMITTED_STATUSES \<and>
       list_all (\<lambda>a. sa_id a = pp_account p \<longrightarrow>
         publish_blocker a (post_media_types (po_id source) None d0) (pp_extra p) = []) (db_accounts d0)))"

definition accounts_unique :: "db \<Rightarrow> bool" where
  "accounts_unique d \<longleftrightarrow> distinct (map sa_id (db_accounts d))"

lemma recurring_child_may:
  assumes "accounts_unique db" "p \<in> set (children (po_id source) db)"
    and "mt = post_media_types (po_id source) None db"
  shows "may_generate db source (recurring_child z now source d tod mt i k db p)"
proof -
  let ?c = "recurring_child z now source d tod mt i k db p"
  have acc: "get_account (pp_account p) db = Some a" if "a \<in> set (db_accounts db)" "sa_id a = pp_account p" for a
    using assms(1) that by (simp add: accounts_unique_def get_account_def tbl_get_distinct)
  have st: "pp_status p \<in> set RECURRING_COMMITTED_STATUSES \<and>
      list_all (\<lambda>a. sa_id a = pp_account p \<longrightarrow> publish_blocker a mt (pp_extra p) = []) (db_accounts db)"
    if "pp_status ?c = SCHEDULED"
    using that acc unfolding recurring_child_def Let_def
    by (auto simp: list_all_iff new_platform_post_def split: if_splits)
  show ?thesis
    unfolding may_generate_def
    using assms(2,3) st by (intro exI [of _ p]) (auto simp: recurring_child_def Let_def new_platform_post_def)
qed

lemma fresh_ok_grow:
  assumes "grown P Q d d'" "fresh_ok d" "list_all (\<lambda>p. po_id p < db_next d') (db_posts d')"
    and "list_all (\<lambda>c. pp_id c < db_next d' \<and> pp_post c < db_next d') (db_pps d')"
    and "db_entries d' = db_entries d"
  shows "fresh_ok d'"
  using assms grown_frame(5) [OF assms(1)] by (auto simp: fresh_ok_def list_all_iff dest: order_less_le_trans)

lemma sync_frame2:
  "db_media (sync_post_scheduled_at now i d) = db_media d" "db_rules (sync_post_scheduled_at now i d) = db_rules d"
  "db_workspaces (sync_post_scheduled_at now i d) = db_workspaces d" "db_orgs (sync_post_scheduled_at now i d) = db_orgs d"
  "db_accounts (sync_post_scheduled_at now i d) = db_accounts d" "db_assets (sync_post_scheduled_at now i d) = db_assets d"
  "db_next (sync_post_scheduled_at now i d) = db_next d"
  by (simp_all add: sync_post_scheduled_at_def Let_def save_post_def split: option.split)

lemma clone_for_date_frame:
  "db_pps (clone_for_date z now source tod mt d db) = db_pps db @ cloned_rows z now source tod mt d db"
  "db_media (clone_for_date z now source tod mt d db) = db_media db @ cloned_media source db"
  "db_rules (clone_for_date z now source tod mt d db) = db_rules db"
  "db_entries (clone_for_date z now source tod mt d db) = db_entries db"
  "db_workspaces (clone_for_date z now source tod mt d db) = db_workspaces db"
  "db_orgs (clone_for_date z now source tod mt d db) = db_orgs db"
  "db_accounts (clone_for_date z now source tod mt d db) = db_accounts db"
  "db_assets (clone_for_date z now source tod mt d db) = db_assets db"
  "db_next (clone_for_date z now source tod mt d db) =
     db_next db + 1 + length (children (po_id source) db) + length (cloned_media source db)"
  by (simp_all add: clone_for_date_def Let_def insert_clone_def frame_simps sync_frame2)

lemma clone_for_date_grown:
  assumes fresh: "fresh_ok db" and at: "po_scheduled_at source = Some at" and acc: "accounts_unique db"
    and mt: "mt = post_media_types (po_id source) None db"
  shows "grown (\<lambda>p. po_title p = []) (may_generate db source) db (clone_for_date z now source (z_time z at) mt d db)"
    and "fresh_ok (clone_for_date z now source (z_time z at) mt d db)"
proof -
  let ?d = "clone_for_date z now source (z_time z at) mt d db"
  obtain po where po: "db_posts ?d = db_posts db @ [po]" "po_id po = db_next db" "po_title po = []"
    using clone_for_date_posts [OF fresh at, of z now mt d] by blast
  let ?rows = "cloned_rows z now source (z_time z at) mt d db"
  have q: "list_all (\<lambda>c. may_generate db source c \<and> db_next db \<le> pp_post c) ?rows"
    unfolding list_all_iff by (auto elim!: set_cloned_rows intro: recurring_child_may [OF acc _ mt])
  have m: "list_all (\<lambda>m. db_next db \<le> pm_post m) (cloned_media source db)"
    by (auto simp: list_all_iff cloned_media_def)
  show g: "grown (\<lambda>p. po_title p = []) (may_generate db source) db ?d"
    unfolding grown_def clone_for_date_frame po(1) using q m po(2,3) by (intro conjI exI) (auto intro: q m)
  have ids: "pp_id c < db_next ?d \<and> pp_post c < db_next ?d" if "c \<in> set ?rows" for c
    using that unfolding clone_for_date_frame(9) cloned_rows_def set_map
    by (auto simp: in_set_enumerate_eq recurring_child_def Let_def new_platform_post_def)
  show "fresh_ok ?d"
  proof (rule fresh_ok_grow [OF g fresh])
    show "list_all (\<lambda>p. po_id p < db_next ?d) (db_posts ?d)"
      using fresh po by (auto simp: fresh_ok_def list_all_iff clone_for_date_frame(9) dest: trans_less_add1)
    show "list_all (\<lambda>c. pp_id c < db_next ?d \<and> pp_post c < db_next ?d) (db_pps ?d)"
      using fresh ids unfolding clone_for_date_frame(1) by (auto simp: fresh_ok_def list_all_iff clone_for_date_frame(9))
  qed (rule clone_for_date_frame(4))
qed

section \<open>Lemmas: the whole job\<close>

lemma may_generate_grown:
  assumes "grown P Q d d'" "po_id source < db_next d"
  shows "may_generate d' source = may_generate d source" "accounts_unique d' = accounts_unique d"
    "keeps_date z source at day d' = keeps_date z source at day d"
  using children_grown [OF assms] post_media_types_grown [OF assms] grown_frame(3) [OF assms(1)]
  by (simp_all add: may_generate_def fun_eq_iff keeps_date_def clone_instant_def child_times_def accounts_unique_def)

definition dated :: "zone \<Rightarrow> post \<Rightarrow> int \<Rightarrow> post \<Rightarrow> bool" where
  \<comment> \<open>a post the job takes for the recurrence of \<open>source\<close> on a date\<close>
  "dated z source d po \<longleftrightarrow> po_workspace po = po_workspace source \<and> po_caption po = po_caption source \<and>
     po_id po \<noteq> po_id source \<and> (\<exists>t. po_scheduled_at po = Some t \<and> z_date z t = d)"

lemma set_existing_dates:
  "set (existing_dates z source ds db) = {d \<in> set ds. \<exists>po \<in> set (db_posts db). dated z source d po}"
  by (auto simp: existing_dates_def dated_def split: option.splits if_splits) metis

lemma missing_dates_Nil:
  "missing_dates z now source ds db = [] \<longleftrightarrow>
    (\<forall>d \<in> set ds. d \<le> z_date z now \<or> (\<exists>po \<in> set (db_posts db). dated z source d po))"
  by (auto simp: missing_dates_def Let_def filter_empty_conv set_existing_dates)

abbreviation untitled :: "post \<Rightarrow> bool" where
  "untitled p \<equiv> po_title p = []"

lemma clone_dates_result:
  assumes "fresh_ok db" "po_scheduled_at source = Some at" "accounts_unique db"
    and "mt = post_media_types (po_id source) None db" "po_id source < db_next db"
    and "clone_dates z now source (z_time z at) mt ds (n, db) = (n', db')"
  shows "grown untitled (may_generate db source) db db' \<and> fresh_ok db' \<and> n' = n + length ds \<and>
    db_rules db' = db_rules db \<and>
    (\<forall>d \<in> set ds. keeps_date z source at d db \<longrightarrow> (\<exists>po \<in> set (db_posts db'). dated z source d po))"
  using assms
proof (induction ds arbitrary: n db)
  case (Cons d ds)
  let ?d1 = "clone_for_date z now source (z_time z at) mt d db"
  note g = clone_for_date_grown [OF Cons.prems(1-4), of z now d]
  note same = may_generate_grown [OF g(1) Cons.prems(5)]
  have s1: "po_id source < db_next ?d1" using grown_frame(5) [OF g(1)] Cons.prems(5) by simp
  have mt: "mt = post_media_types (po_id source) None ?d1"
    using post_media_types_grown [OF g(1) Cons.prems(5)] Cons.prems(4) by simp
  have run: "clone_dates z now source (z_time z at) mt ds (Suc n, ?d1) = (n', db')" using Cons.prems(6) by simp
  have acc1: "accounts_unique ?d1" using same Cons.prems(3) by simp
  note r = Cons.IH [OF g(2) Cons.prems(2) acc1 mt s1 run, unfolded same]
  obtain po where po: "po \<in> set (db_posts ?d1)" "keeps_date z source at d db \<longrightarrow> dated z source d po"
    using clone_for_date_posts [OF Cons.prems(1-2), of z now mt d] Cons.prems(5)
    by (fastforce simp: dated_def keeps_date_def)
  have "set (db_posts ?d1) \<subseteq> set (db_posts db')" using r unfolding grown_def by auto
  with po have "keeps_date z source at d db \<longrightarrow> (\<exists>po \<in> set (db_posts db'). dated z source d po)" by blast
  moreover have "grown untitled (may_generate db source) db db'" using grown_trans [OF g(1)] r by blast
  ultimately show ?case using r clone_for_date_frame(3) by simp
qed simp

lemma mark_generated_frame [frame_simps]:
  "db_posts (mark_generated now r db) = db_posts db" "db_pps (mark_generated now r db) = db_pps db"
  "children i (mark_generated now r db) = children i db" "child_times i (mark_generated now r db) = child_times i db"
  "db_next (mark_generated now r db) = db_next db" "db_accounts (mark_generated now r db) = db_accounts db"
  by (simp_all add: mark_generated_def children_def child_times_def)

lemma mark_generated_grown:
  "grown P Q d d' \<Longrightarrow> grown P Q d (mark_generated now r d')"
  "fresh_ok (mark_generated now r d') = fresh_ok d'"
  by (simp_all add: grown_def mark_generated_def fresh_ok_def)

text \<open>
  What a rule has once its turn is over: every date it repeats on is on the calendar, and every
  row of the rule says when.
\<close>

definition caught_up :: "month_adder \<Rightarrow> (string \<Rightarrow> zone) \<Rightarrow> instant \<Rightarrow> recurrence_rule \<Rightarrow> post \<Rightarrow> db \<Rightarrow> bool" where
  "caught_up am zones now r source db \<longleftrightarrow>
    (case po_scheduled_at source of
       None \<Rightarrow> True
     | Some at \<Rightarrow>
        (\<exists>ds. rule_dates am zones now r source at db = Some ds \<and>
           missing_dates (source_zone zones source db) now source ds db = []) \<and>
        list_all (\<lambda>x. rr_id x = rr_id r \<longrightarrow> rr_last_generated_at x = Some now) (db_rules db))"

lemma rule_dates_grown:
  "grown P Q d d' \<Longrightarrow> rule_dates am zones now r source at d' = rule_dates am zones now r source at d"
  by (simp add: rule_dates_def Let_def tables_grown)

lemma caught_up_grown:
  assumes "grown P Q d d'" "caught_up am zones now r source d"
    and "list_all (\<lambda>x. rr_id x = rr_id r \<longrightarrow> rr_last_generated_at x = Some now) (db_rules d) \<Longrightarrow>
      list_all (\<lambda>x. rr_id x = rr_id r \<longrightarrow> rr_last_generated_at x = Some now) (db_rules d')"
  shows "caught_up am zones now r source d'"
proof (cases "po_scheduled_at source")
  case (Some at)
  have "set (db_posts d) \<subseteq> set (db_posts d')" using assms(1) unfolding grown_def by auto
  then have "missing_dates z now source ds d' = []" if "missing_dates z now source ds d = []" for z ds
    using that unfolding missing_dates_Nil by blast
  then show ?thesis
    using assms(2,3) Some by (auto simp: caught_up_def rule_dates_grown [OF assms(1)] tables_grown [OF assms(1)])
qed (simp add: caught_up_def)

lemma generate_for_caught_up:
  assumes "caught_up am zones now r source db"
  shows "generate_for am zones now r source (n, db) = Some (n, db)"
proof (cases "po_scheduled_at source")
  case (Some at)
  then obtain ds where d: "rule_dates am zones now r source at db = Some ds"
      "missing_dates (source_zone zones source db) now source ds db = []"
    and m: "list_all (\<lambda>x. rr_id x = rr_id r \<longrightarrow> rr_last_generated_at x = Some now) (db_rules db)"
    using assms by (auto simp: caught_up_def)
  have "tbl_update (\<lambda>x. rr_id x = rr_id r) (\<lambda>x. x\<lparr>rr_last_generated_at := Some now\<rparr>) (db_rules db) = db_rules db"
    using m by (intro tbl_update_idle) (auto simp: list_all_iff)
  then have "mark_generated now r db = db" by (simp add: mark_generated_def)
  then show ?thesis using Some d by (simp add: generate_for_def Let_def)
qed (simp add: generate_for_def)

lemma generate_all_caught_up:
  "list_all (\<lambda>(r, source). caught_up am zones now r source db) rs \<Longrightarrow>
    generate_all am zones now rs (n, db) = (Some n, db)"
proof (induction rs arbitrary: n)
  case (Cons x rs)
  obtain r source where x: "x = (r, source)" by (cases x)
  show ?case using Cons generate_for_caught_up [of am zones now r source db n] by (simp add: x)
qed simp

text \<open>
  Every date a rule still has to repeat on is kept: the clone of the date reads back on it. Where the
  source has channels and at least one has a time, and no gap or fold of the zone carries the earliest
  of the clone's local times over midnight, this holds; the sample after next is one where it does not.
\<close>

definition keeps_its_dates :: "month_adder \<Rightarrow> (string \<Rightarrow> zone) \<Rightarrow> instant \<Rightarrow> recurrence_rule \<Rightarrow> post \<Rightarrow> db \<Rightarrow> bool" where
  "keeps_its_dates am zones now r source db \<longleftrightarrow>
    (case po_scheduled_at source of
       None \<Rightarrow> True
     | Some at \<Rightarrow>
        (case rule_dates am zones now r source at db of
           None \<Rightarrow> True
         | Some ds \<Rightarrow>
            (let z = source_zone zones source db in
             list_all (\<lambda>d. d \<le> z_date z now \<or> keeps_date z source at d db) ds)))"

lemma keeps_its_dates_grown:
  assumes "grown P Q d d'" "po_id source < db_next d"
  shows "keeps_its_dates am zones now r source d' = keeps_its_dates am zones now r source d"
  unfolding keeps_its_dates_def rule_dates_grown [OF assms(1)] tables_grown(3) [OF assms(1)]
    may_generate_grown(3) [OF assms] by (rule refl)

lemma generate_for_result:
  assumes fresh: "fresh_ok db" and acc: "accounts_unique db" and src: "po_id source < db_next db"
    and run: "generate_for am zones now r source (n, db) = Some (n', db')"
  shows "grown untitled (may_generate db source) db db' \<and> fresh_ok db' \<and>
    (keeps_its_dates am zones now r source db \<longrightarrow> caught_up am zones now r source db') \<and>
    (db_rules db' = db_rules db \<or>
     db_rules db' = tbl_update (\<lambda>x. rr_id x = rr_id r) (\<lambda>x. x\<lparr>rr_last_generated_at := Some now\<rparr>) (db_rules db))"
proof (cases "po_scheduled_at source")
  case None
  then show ?thesis using run fresh by (simp add: generate_for_def caught_up_def)
next
  case (Some at)
  let ?z = "source_zone zones source db"
  obtain ds n1 db1 where ds: "rule_dates am zones now r source at db = Some ds"
    and c: "clone_dates ?z now source (z_time ?z at) (post_media_types (po_id source) None db)
        (missing_dates ?z now source ds db) (n, db) = (n1, db1)"
    and db': "db' = mark_generated now r db1"
    using run Some by (auto simp: generate_for_def Let_def split: option.splits prod.splits)
  note g = clone_dates_result [OF fresh Some acc refl src c]
  then have grow: "grown untitled (may_generate db source) db db'" unfolding db' by (blast intro: mark_generated_grown(1))
  have sub: "set (db_posts db) \<subseteq> set (db_posts db1)" using g unfolding grown_def by auto
  have posts: "db_posts db' = db_posts db1" unfolding db' by (simp add: frame_simps)
  have "missing_dates ?z now source ds db' = []" if kept: "keeps_its_dates am zones now r source db"
    unfolding missing_dates_Nil posts
  proof
    fix d assume d: "d \<in> set ds"
    have k: "d \<le> z_date ?z now \<or> keeps_date ?z source at d db"
      using kept d by (simp add: keeps_its_dates_def Some ds Let_def list_all_iff)
    show "d \<le> z_date ?z now \<or> (\<exists>po \<in> set (db_posts db1). dated ?z source d po)"
    proof (cases "d \<in> set (missing_dates ?z now source ds db)")
      case True
      then show ?thesis using g k by blast
    next
      case False
      then have "d \<le> z_date ?z now \<or> d \<in> set (existing_dates ?z source ds db)"
        using d by (auto simp: missing_dates_def Let_def)
      then show ?thesis using sub by (auto simp: set_existing_dates)
    qed
  qed
  moreover have "list_all (\<lambda>x. rr_id x = rr_id r \<longrightarrow> rr_last_generated_at x = Some now) (db_rules db')"
    unfolding db' mark_generated_def by (auto simp: list_all_iff set_tbl_update)
  ultimately have "keeps_its_dates am zones now r source db \<longrightarrow> caught_up am zones now r source db'"
    using Some ds by (simp add: caught_up_def rule_dates_grown [OF grow] tables_grown [OF grow])
  moreover have "db_rules db' = tbl_update (\<lambda>x. rr_id x = rr_id r) (\<lambda>x. x\<lparr>rr_last_generated_at := Some now\<rparr>) (db_rules db)"
    unfolding db' using g by (simp add: mark_generated_def)
  ultimately show ?thesis using grow g unfolding db' by (simp add: mark_generated_grown)
qed

definition unmarked :: "recurrence_rule \<Rightarrow> recurrence_rule" where
  "unmarked r = r\<lparr>rr_last_generated_at := None\<rparr>"

definition marked :: "instant \<Rightarrow> db \<Rightarrow> nat \<Rightarrow> bool" where
  "marked now d i \<longleftrightarrow> list_all (\<lambda>x. rr_id x = i \<longrightarrow> rr_last_generated_at x = Some now) (db_rules d)"

lemma grown_weaken:
  assumes "grown P Q d d'" "\<And>c. Q c \<Longrightarrow> Q' c"
  shows "grown P Q' d d'"
proof -
  have "list_all (\<lambda>c. Q' c \<and> db_next d \<le> pp_post c) cs" if "list_all (\<lambda>c. Q c \<and> db_next d \<le> pp_post c) cs" for cs
    using that assms(2) by (auto simp: list_all_iff)
  then show ?thesis using assms(1) unfolding grown_def by blast
qed

lemma generate_for_rules:
  assumes "db_rules db' = db_rules db \<or>
     db_rules db' = tbl_update (\<lambda>x. rr_id x = i) (\<lambda>x. x\<lparr>rr_last_generated_at := Some now\<rparr>) (db_rules db)"
  shows "map unmarked (db_rules db') = map unmarked (db_rules db)" "marked now db j \<Longrightarrow> marked now db' j"
  using assms by (auto simp: unmarked_def marked_def tbl_update_def list_all_iff)

lemma generate_all_result:
  assumes "fresh_ok db" "accounts_unique db"
    and "list_all (\<lambda>(r, source). po_id source < db_next db) rs"
    and "generate_all am zones now rs (n, db) = (res, db')"
  shows "grown untitled (\<lambda>c. list_ex (\<lambda>(r, source). may_generate db source c) rs) db db' \<and> fresh_ok db' \<and>
    map unmarked (db_rules db') = map unmarked (db_rules db) \<and> (\<forall>j. marked now db j \<longrightarrow> marked now db' j) \<and>
    (res \<noteq> None \<longrightarrow> list_all (\<lambda>(r, source). keeps_its_dates am zones now r source db \<longrightarrow>
       caught_up am zones now r source db') rs)"
  using assms
proof (induction rs arbitrary: n db)
  case (Cons x rs)
  obtain r source where x: "x = (r, source)" by (cases x)
  show ?case
  proof (cases "generate_for am zones now r source (n, db)")
    case None
    then show ?thesis using Cons.prems x by auto
  next
    case (Some nd)
    obtain n1 db1 where nd: "nd = (n1, db1)" by (cases nd)
    have src: "po_id source < db_next db" using Cons.prems(3) x by simp
    note g = generate_for_result [OF Cons.prems(1,2) src Some [unfolded nd]]
    then have gr: "grown untitled (may_generate db source) db db1" by blast
    have ok: "po_id s < db_next db1" "may_generate db1 s = may_generate db s"
        "keeps_its_dates am zones now t s db1 = keeps_its_dates am zones now t s db" if "po_id s < db_next db" for s t
      using that may_generate_grown(1) [OF gr that] grown_frame(5) [OF gr] keeps_its_dates_grown [OF gr that] by simp_all
    have rest: "list_all (\<lambda>(r, source). po_id source < db_next db) rs" using Cons.prems(3) by simp
    have s1: "list_all (\<lambda>(r, source). po_id source < db_next db1) rs"
      using rest ok(1) by (auto simp: list_all_iff)
    have acc: "accounts_unique db1" using Cons.prems(2) grown_frame(3) [OF gr] by (simp add: accounts_unique_def)
    have run: "generate_all am zones now rs (n1, db1) = (res, db')" using Cons.prems(4) x Some nd by simp
    note ih = Cons.IH [OF conjunct1 [OF conjunct2 [OF g]] acc s1 run]
    note rules = generate_for_rules [OF conjunct2 [OF conjunct2 [OF conjunct2 [OF g]]]]
    have q: "list_ex (\<lambda>(r, source). may_generate db source c) (x # rs)"
      if "list_ex (\<lambda>(r, source). may_generate db1 source c) rs \<or> may_generate db source c" for c
    proof -
      have "list_ex (\<lambda>(r, source). may_generate db1 source c) rs = list_ex (\<lambda>(r, source). may_generate db source c) rs"
        unfolding list_ex_iff using rest by (intro bex_cong refl) (auto simp: list_all_iff ok(2))
      with that x show ?thesis by auto
    qed
    have "grown untitled (\<lambda>c. list_ex (\<lambda>(r, source). may_generate db source c) (x # rs)) db db'"
      by (rule grown_trans [OF grown_weaken [OF gr] grown_weaken [OF conjunct1 [OF ih]]]) (blast intro: q)+
    moreover have "caught_up am zones now r source db'" if "keeps_its_dates am zones now r source db"
      by (rule caught_up_grown [OF conjunct1 [OF ih]]) (use g ih that in \<open>auto simp: marked_def\<close>)
    moreover have "res \<noteq> None \<longrightarrow> list_all (\<lambda>(r, source). keeps_its_dates am zones now r source db \<longrightarrow>
        caught_up am zones now r source db') rs"
    proof
      assume "res \<noteq> None"
      then have "\<forall>(r, source) \<in> set rs. keeps_its_dates am zones now r source db1 \<longrightarrow> caught_up am zones now r source db'"
        using ih by (simp add: list_all_iff)
      with rest ok(3) show "list_all (\<lambda>(r, source). keeps_its_dates am zones now r source db \<longrightarrow>
          caught_up am zones now r source db') rs" unfolding list_all_iff by (smt (verit) case_prod_beta')
    qed
    ultimately show ?thesis using ih rules x by simp
  qed
qed simp

lemma active_rules_marked:
  assumes "map unmarked (db_rules d') = map unmarked (db_rules d)"
    and "\<And>r. r \<in> set (db_rules d) \<Longrightarrow> rr_active r \<Longrightarrow> get_post (rr_post r) d' = get_post (rr_post r) d"
    and "(r', source) \<in> set (active_rules d')"
  shows "\<exists>r. (r, source) \<in> set (active_rules d) \<and> unmarked r = unmarked r'"
proof -
  have a: "r' \<in> set (db_rules d')" "rr_active r'" "get_post (rr_post r') d' = Some source"
    using assms(3) by (auto simp: active_rules_def split: option.splits)
  then have "unmarked r' \<in> unmarked ` set (db_rules d)" using arg_cong [OF assms(1), of set] by auto
  then obtain r where r: "r \<in> set (db_rules d)" "unmarked r = unmarked r'" by force
  have "rr_active (unmarked r) = rr_active (unmarked r')" "rr_post (unmarked r) = rr_post (unmarked r')" using r(2) by simp_all
  then have "rr_active r" "rr_post r = rr_post r'" using a(2) by (simp_all add: unmarked_def)
  then have "(r, source) \<in> set (active_rules d)"
    using r(1) a(3) assms(2) by (force simp: active_rules_def)
  with r(2) show ?thesis by blast
qed

lemma caught_up_unmarked:
  assumes "unmarked r = unmarked r'"
  shows "caught_up am zones now r source d = caught_up am zones now r' source d"
proof -
  have "f (unmarked r) = f (unmarked r')" for f :: "recurrence_rule \<Rightarrow> 'b" using assms by simp
  from this [of rr_id] this [of rr_frequency] this [of rr_interval] this [of rr_end_date]
  have e: "rr_id r = rr_id r'" "rr_frequency r = rr_frequency r'" "rr_interval r = rr_interval r'"
    "rr_end_date r = rr_end_date r'" by (simp_all add: unmarked_def)
  show ?thesis unfolding caught_up_def rule_dates_def recurrence_end_def e by (rule refl)
qed

text \<open>What the job expects of the state it is started in.\<close>

definition calendar_ok :: "db \<Rightarrow> bool" where
  "calendar_ok d \<longleftrightarrow> fresh_ok d \<and> accounts_unique d \<and>
     list_all (\<lambda>r. get_post (rr_post r) d \<noteq> None) (db_rules d)"

lemma calendar_okD:
  assumes "calendar_ok d"
  shows "fresh_ok d" "accounts_unique d" "list_all (\<lambda>(r, source). po_id source < db_next d) (active_rules d)"
proof -
  show f: "fresh_ok d" "accounts_unique d" using assms by (simp_all add: calendar_ok_def)
  have "source \<in> set (db_posts d)" if "(r, source) \<in> set (active_rules d)" for r source
    using that tbl_get_Some [of po_id "rr_post r" _ source]
    by (auto simp: active_rules_def get_post_def split: option.splits)
  with f(1) show "list_all (\<lambda>(r, source). po_id source < db_next d) (active_rules d)"
    by (auto simp: list_all_iff fresh_ok_def)
qed

text \<open>
  C30. Running the job again generates nothing: when a run has finished, another run at the same time
  finds every recurrence on the calendar, creates no post and leaves the database as it is, whatever the
  rules and their intervals, provided that every recurrence to come keeps its date: the clone, saved at
  the earliest of its channels' times, reads back on its date in the zone of the workspace. Where a gap
  of the zone carries that time over midnight, each run clones the date again
  (\<open>gap_recurrence_is_cloned_again\<close>).
\<close>

theorem generation_is_idempotent:
  assumes "calendar_ok d"
    and "list_all (\<lambda>(r, source). keeps_its_dates add_months zones now r source d) (active_rules d)"
    and "generate_recurring_posts add_months zones now d = (Some n, d')"
  shows "generate_recurring_posts add_months zones now d' = (Some 0, d')"
proof -
  note g = generate_all_result [OF calendar_okD [OF assms(1)] assms(3) [unfolded generate_recurring_posts_def]]
  obtain ps where ps: "db_posts d' = db_posts d @ ps" "list_all (\<lambda>p. untitled p \<and> db_next d \<le> po_id p) ps"
    using g unfolding grown_def by blast
  have same: "get_post i d' = get_post i d" if "get_post i d \<noteq> None" for i
    using that unfolding get_post_def tbl_get_def ps(1) by (auto simp: tbl_first_append [unfolded tbl_first_def])
  have caught: "caught_up add_months zones now r source d'" if "(r, source) \<in> set (active_rules d)" for r source
    using g assms(2) that by (auto simp: list_all_iff)
  have "caught_up add_months zones now r' source d'" if rs: "(r', source) \<in> set (active_rules d')" for r' source
  proof -
    have "get_post (rr_post r) d' = get_post (rr_post r) d" if "r \<in> set (db_rules d)" for r
      using assms(1) that by (intro same) (auto simp: calendar_ok_def list_all_iff)
    with active_rules_marked [OF _ _ rs, of d] g obtain r where
      "(r, source) \<in> set (active_rules d)" "unmarked r = unmarked r'" by blast
    with caught show ?thesis using caught_up_unmarked by blast
  qed
  then have "list_all (\<lambda>(r, source). caught_up add_months zones now r source d') (active_rules d')"
    by (auto simp: list_all_iff)
  then show ?thesis unfolding generate_recurring_posts_def by (rule generate_all_caught_up)
qed

text \<open>
  The job only adds: whatever it generates, and wherever an exception stops it, every post and
  channel there was stays as it is; each channel it adds copies one of a recurring post, without a
  publish handle or a retry, and is scheduled only where the source is committed to publishing and
  its platform can publish it, so a draft, held or rejected source never schedules itself.
\<close>

theorem generation_only_adds_safe_channels:
  assumes "calendar_ok d"
    and "generate_recurring_posts add_months zones now d = (res, d')"
  shows "\<exists>ps cs. db_posts d' = db_posts d @ ps \<and> list_all (\<lambda>p. po_title p = []) ps \<and>
    db_pps d' = db_pps d @ cs \<and>
    list_all (\<lambda>c. list_ex (\<lambda>(r, source). may_generate d source c) (active_rules d)) cs"
proof -
  note g = generate_all_result [OF calendar_okD [OF assms(1)] assms(2) [unfolded generate_recurring_posts_def]]
  obtain ps cs where "db_posts d' = db_posts d @ ps" "list_all (\<lambda>p. untitled p \<and> db_next d \<le> po_id p) ps"
      "db_pps d' = db_pps d @ cs"
      "list_all (\<lambda>c. list_ex (\<lambda>(r, source). may_generate d source c) (active_rules d) \<and> db_next d \<le> pp_post c) cs"
    using g unfolding grown_def by blast
  then show ?thesis by (intro exI [of _ ps] exI [of _ cs]) (auto simp: list_all_iff)
qed

lemma recur_stuck:
  assumes "step base = Some (Some base)" "\<not> base > upto_day"
  shows "recur step upto_day k base = Some (replicate k base)"
  using assms by (induction k) simp_all

lemma clone_dates_count: "fst (clone_dates z now source tod mt ds (n, db)) = n + length ds"
  by (induction ds arbitrary: n db) simp_all

text \<open>
  An interval of zero, which the composer accepts, floods the calendar: one run gives a post
  scheduled for a later day 180 more copies on that same day.
\<close>

theorem zero_interval_floods:
  assumes "active_rules d = [(r, source)]" and "rr_interval r = 0"
    and "rr_frequency r = ''daily'' \<or> rr_frequency r = ''weekly''"
    and "po_scheduled_at source = Some at" and "day = z_date (source_zone zones source d) at"
    and "z_date (source_zone zones source d) now < day"
    and "day \<le> recurrence_end r (z_date (source_zone zones source d) now)" and "day \<le> MAX_DATE"
    and "list_all (\<lambda>po. \<not> dated (source_zone zones source d) source day po) (db_posts d)"
  shows "fst (generate_recurring_posts add_months zones now d) = Some 180"
proof -
  let ?z = "source_zone zones source d" and ?n = "LOOKAHEAD_DAYS * 2"
  have "next_date add_months (rr_frequency r) 0 day = Some (Some day)"
    using assms(3,8) by (auto simp: next_date_def add_days_def MAX_DELTA_DAYS_def)
  then have ds: "rule_dates add_months zones now r source at d = Some (replicate ?n day)"
    using recur_stuck assms(7) unfolding rule_dates_def Let_def compute_recurrence_dates_def assms(2) assms(5) [symmetric]
    by (metis not_le)
  have "\<forall>po \<in> set (db_posts d). \<not> dated ?z source day po" using assms(9) by (simp add: list_all_iff)
  then have "existing_dates ?z source (replicate ?n day) d = []"
  proof -
    have "set (existing_dates ?z source (replicate ?n day) d) = {}"
      unfolding set_existing_dates using \<open>\<forall>po \<in> set (db_posts d). \<not> dated ?z source day po\<close> by auto
    then show ?thesis by simp
  qed
  then have miss: "missing_dates ?z now source (replicate ?n day) d = replicate ?n day"
    using assms(6) unfolding missing_dates_def by simp
  obtain n1 d1 where c: "clone_dates ?z now source (z_time ?z at) (post_media_types (po_id source) None d)
      (replicate ?n day) (0, d) = (n1, d1)" by fastforce
  have "n1 = ?n" using clone_dates_count [of ?z now source "z_time ?z at" _ "replicate ?n day" 0 d] c by (metis fst_conv length_replicate add_0)
  moreover have "?n = 180" by (simp add: LOOKAHEAD_DAYS_def)
  ultimately show ?thesis
    unfolding generate_recurring_posts_def assms(1) using c
    by (simp add: generate_for_def assms(4) ds miss Let_def)
qed

section \<open>Sample calendar\<close>

text \<open>The sample post with its two channels, scheduled for one day, and a rule of its own.\<close>

definition series_post :: post where
  "series_post = sample_post\<lparr>po_scheduled_at := Some (days 20000)\<rparr>"

definition series_rule :: "int \<Rightarrow> recurrence_rule" where
  "series_rule interval = \<lparr>rr_id = 1, rr_post = 7, rr_frequency = ''daily'', rr_interval = interval,
     rr_end_date = Some 20002, rr_last_generated_at = None, rr_active = True\<rparr>"

definition series_db :: "int \<Rightarrow> pp_state \<Rightarrow> db" where
  "series_db interval st = sample_db
    \<lparr>db_posts := [series_post],
     db_pps := map (\<lambda>p. p\<lparr>pp_status := st, pp_scheduled_at := Some (days 20000)\<rparr>) (db_pps sample_db),
     db_rules := [series_rule interval]\<rparr>"

lemma series_fields:
  "db_posts (series_db k st) = [series_post]" "db_rules (series_db k st) = [series_rule k]"
  "rr_interval (series_rule k) = k" "rr_frequency (series_rule k) = ''daily''"
  "rr_end_date (series_rule k) = Some 20002" "rr_post (series_rule k) = 7" "rr_active (series_rule k)"
  "po_scheduled_at series_post = Some (days 20000)" "po_id series_post = 7"
  by (simp_all add: series_db_def series_post_def series_rule_def sample_post_def)

lemma series_active: "active_rules (series_db k st) = [(series_rule k, series_post)]"
  by (simp add: active_rules_def get_post_def tbl_get_def series_fields)

lemma series_calendar: "calendar_ok (series_db k st)"
proof -
  have "fresh_ok (series_db k st)" "accounts_unique (series_db k st)"
    by (simp_all add: fresh_ok_def accounts_unique_def series_fields)
      (simp_all add: series_db_def sample_defs empty_db_def)
  then show ?thesis
    by (simp add: calendar_ok_def series_fields get_post_def tbl_get_def)
qed

lemma UTC_dates: "z_date UTC (days n) = n" "z_date UTC 0 = 0"
  by (simp_all add: UTC_def days_def hours_def seconds_def)

definition series_run :: "zone \<Rightarrow> db \<Rightarrow> nat option \<times> db" where
  "series_run z d = generate_recurring_posts (\<lambda>_ _. None) (\<lambda>_. z) (days 20000) d"

text \<open>A zone whose clocks go from 23:00 to 00:00 on day 20001, and the series at 23:30.\<close>

definition gap_zone :: zone where
  "gap_zone = (let gap = days 20001 + hours 23;
                   local = (\<lambda>t. if t < gap then t else t + hours 1) in
     \<lparr>z_date = (\<lambda>t. local t div days 1), z_time = (\<lambda>t. local t mod days 1),
      z_at = (\<lambda>d t. let l = days d + t in if l < gap + hours 1 then l else l - hours 1),
      z_fold = (\<lambda>d t. let l = days d + t in gap \<le> l \<and> l < gap + hours 1)\<rparr>)"

definition late_series :: db where
  "late_series = (let at = days 20000 + hours 23 + hours 1 div 2 in
     (series_db 1 SCHEDULED)\<lparr>db_posts := [series_post\<lparr>po_scheduled_at := Some at\<rparr>],
       db_pps := map (\<lambda>p. p\<lparr>pp_scheduled_at := Some at\<rparr>) (db_pps (series_db 1 SCHEDULED))\<rparr>)"

text \<open>
  There the clone for day 20001 reads back on day 20002: the first run gives the two dates a post each,
  and every run after it clones day 20001 once more.
\<close>

theorem gap_recurrence_is_cloned_again:
  "fst (series_run gap_zone late_series) = Some 2"
  "fst (series_run gap_zone (snd (series_run gap_zone late_series))) = Some 1"
  "fst (series_run gap_zone (snd (series_run gap_zone (snd (series_run gap_zone late_series))))) = Some 1"
  by code_simp+

theorem generation_is_idempotent_witness:
  "fst (series_run UTC (series_db 1 SCHEDULED)) = Some 2 \<and>
    series_run UTC (snd (series_run UTC (series_db 1 SCHEDULED))) = (Some 0, snd (series_run UTC (series_db 1 SCHEDULED)))"
proof
  show two: "fst (series_run UTC (series_db 1 SCHEDULED)) = Some 2" by code_simp
  have "list_all (\<lambda>(r, source). keeps_its_dates (\<lambda>_ _. None) (\<lambda>_. UTC) (days 20000) r source (series_db 1 SCHEDULED))
      (active_rules (series_db 1 SCHEDULED))" by code_simp
  then show "series_run UTC (snd (series_run UTC (series_db 1 SCHEDULED))) =
      (Some 0, snd (series_run UTC (series_db 1 SCHEDULED)))"
    using generation_is_idempotent [OF series_calendar] two unfolding series_run_def by (metis prod.collapse)
qed

theorem generation_only_adds_safe_channels_witness:
  "\<exists>cs. db_pps (snd (series_run UTC (series_db 1 ON_HOLD))) = db_pps (series_db 1 ON_HOLD) @ cs \<and>
    list_all (\<lambda>c. list_ex (\<lambda>(r, source). may_generate (series_db 1 ON_HOLD) source c) (active_rules (series_db 1 ON_HOLD))) cs"
  using generation_only_adds_safe_channels [OF series_calendar, of "\<lambda>_ _. None" "\<lambda>_. UTC" "days 20000" 1 ON_HOLD]
  unfolding series_run_def by (metis prod.collapse)

theorem zero_interval_floods_witness:
  "fst (generate_recurring_posts (\<lambda>_ _. None) (\<lambda>_. UTC) (days 19999) (series_db 0 SCHEDULED)) = Some 180"
proof -
  let ?d = "series_db 0 SCHEDULED"
  have z: "source_zone (\<lambda>_. UTC) series_post ?d = UTC" by (simp add: source_zone_def)
  have later: "z_date UTC (days 19999) < 20000" unfolding UTC_dates by simp
  have upto: "20000 \<le> recurrence_end (series_rule 0) (z_date UTC (days 19999))" "(20000 :: int) \<le> MAX_DATE"
    unfolding UTC_dates by (simp_all add: recurrence_end_def series_fields LOOKAHEAD_DAYS_def MAX_DATE_def)
  have none: "list_all (\<lambda>po. \<not> dated UTC series_post 20000 po) (db_posts ?d)"
    unfolding series_fields(1) by (simp add: dated_def)
  show ?thesis
  proof (rule zero_interval_floods [OF series_active series_fields(3) disjI1 [OF series_fields(4)] series_fields(8), where day = 20000])
    show "list_all (\<lambda>po. \<not> dated (source_zone (\<lambda>_. UTC) series_post ?d) series_post 20000 po) (db_posts ?d)"
      unfolding z by (rule none)
  qed (unfold z, use later upto in \<open>simp_all add: UTC_dates\<close>)
qed

end
