(* ===== verification/Publisher_Runs.thy ===== *)
theory Publisher_Runs
  imports Publisher
begin

text \<open>
  The engine as a system of steps. A state is the database, the objects the threads are working
  on (claimed, their provider call in flight), and two histories: the rows an attempt was begun
  for, and the rows whose publish the platform accepted. Claims, answers, crashes, token
  refreshes, the sweep and the bookkeeping after a publish interleave in any order; the worker
  may die between a claim and its answer. The first argument says that the sweep is patient: it
  settles no row a thread of the same worker still holds, which is how the one worker process
  runs the two tasks.
\<close>

section \<open>Effects of the operations on the rows\<close>

definition core :: "platform_post \<Rightarrow> pp_state \<times> nat \<times> string \<times> instant option" where
  "core r = (pp_status r, pp_retry_count r, pp_handle r, pp_published_at r)"

definition row_ids :: "db \<Rightarrow> nat list" where
  "row_ids d = map pp_id (db_pps d)"

lemma row_ids_update: "(\<And>r. P r \<Longrightarrow> pp_id (f r) = pp_id r) \<Longrightarrow> row_ids (update_pps P f d) = row_ids d"
  by (simp add: row_ids_def update_pps_def map_tbl_update)

lemma row_ids_save_pp [simp]: "row_ids (save_pp q d) = row_ids d"
  by (simp add: row_ids_def save_pp_def)

lemma notify_failed_frame [frame_simps]:
  "db_pps (notify_publish_failed p m d) = db_pps d" "get_pp i (notify_publish_failed p m d) = get_pp i d"
  by (simp_all add: notify_publish_failed_def get_pp_def add_note_def split: option.split)

lemma save_tokens_frame [frame_simps]:
  "db_pps (save_tokens a d) = db_pps d" "get_pp i (save_tokens a d) = get_pp i d"
  by (simp_all add: save_tokens_def get_pp_def)

lemma sync_published_frame [frame_simps]:
  "db_pps (sync_parent_published_at now i d) = db_pps d"
  "get_pp j (sync_parent_published_at now i d) = get_pp j d"
  by (simp_all add: sync_parent_published_at_def Let_def save_post_def get_pp_def split: option.split)

lemma log_frame [frame_simps]:
  "db_pps (add_log l d) = db_pps d" "get_pp i (add_log l d) = get_pp i d"
  by (simp_all add: add_log_def get_pp_def)

lemma rate_frame [frame_simps]:
  "db_pps (update_rate_limit a r d) = db_pps d" "get_pp i (update_rate_limit a r d) = get_pp i d"
  by (simp_all add: update_rate_limit_def Let_def get_pp_def split: option.split)

lemma drop_entries_pps [frame_simps]: "db_pps (drop_entries k a d) = db_pps d"
  by (simp add: drop_entries_def)

lemma row_ids_frame [frame_simps]:
  "row_ids (notify_publish_failed p m d) = row_ids d" "row_ids (save_tokens a d) = row_ids d"
  "row_ids (sync_parent_published_at now i d) = row_ids d" "row_ids (add_log l d) = row_ids d"
  "row_ids (update_rate_limit a r d) = row_ids d" "row_ids (drop_entries k b d) = row_ids d"
  by (simp_all add: row_ids_def frame_simps)

lemma get_pp_fail_permanently:
  "get_pp i (fail_permanently now p m d) =
    map_option (\<lambda>r. if in_publishing (pp_id p) r
      then r\<lparr>pp_status := FAILED, pp_publish_error := take 2000 (py_or m PUBLISH_GENERIC_MESSAGE),
             pp_updated_at := now\<rparr> else r) (get_pp i d)"
proof (cases "list_ex (in_publishing (pp_id p)) (db_pps d)")
  case True
  then show ?thesis
    by (simp add: fail_permanently_def Let_def frame_simps get_pp_update split: option.split)
next
  case False
  then have "\<not> in_publishing (pp_id p) r" if "get_pp i d = Some r" for r
    using get_pp_in [OF that] by (auto simp: list_ex_iff)
  then show ?thesis using False by (cases "get_pp i d") (simp_all add: fail_permanently_def Let_def)
qed

lemma row_ids_fail_permanently [simp]: "row_ids (fail_permanently now p m d) = row_ids d"
  by (simp add: fail_permanently_def Let_def frame_simps row_ids_update)

lemma get_pp_save_pp: "get_pp i (save_pp q d) = (if i = pp_id q \<and> get_pp i d \<noteq> None then Some q else get_pp i d)"
  by (rule pps.get_save)

lemma schedule_retry_cases:
  "schedule_retry now p m at d =
    (if pp_retry_count p \<ge> MAX_RETRIES then fail_permanently now p (exhausted_publish_message m) d
     else save_pp (p\<lparr>pp_next_retry_at := Some (next_retry now (pp_retry_count p) at),
                     pp_retry_count := Suc (pp_retry_count p), pp_status := SCHEDULED,
                     pp_publish_error := take 2000 (py_or m PUBLISH_GENERIC_MESSAGE),
                     pp_updated_at := now\<rparr>) d)"
  by (simp add: schedule_retry_def)

lemma row_ids_schedule_retry [simp]: "row_ids (schedule_retry now p m at d) = row_ids d"
  by (simp add: schedule_retry_cases)

lemma get_pp_first_comment:
  "map_option core (get_pp i (maybe_schedule_first_comment w p d)) = map_option core (get_pp i d)"
  by (auto simp: maybe_schedule_first_comment_def Let_def get_pp_update get_pp_def update_pps_def
      tbl_get_update core_def split: option.split)

lemma row_ids_first_comment [simp]: "row_ids (maybe_schedule_first_comment w p d) = row_ids d"
  by (simp add: maybe_schedule_first_comment_def Let_def row_ids_def update_pps_def map_tbl_update
      split: option.split)

text \<open>
  What an attempt's end does to the rows, in terms of its object: the row is failed, put back, or
  replaced by the accepted object.
\<close>

definition ends_as :: "platform_post \<Rightarrow> instant \<Rightarrow> db \<Rightarrow> db \<Rightarrow> bool" where
  "ends_as p now d d' \<longleftrightarrow>
    (\<exists>m. \<forall>i. get_pp i d' = get_pp i (fail_permanently now p m d)) \<or>
    (pp_retry_count p < MAX_RETRIES \<and>
     (\<exists>q. pp_id q = pp_id p \<and> pp_status q = SCHEDULED \<and> pp_retry_count q = Suc (pp_retry_count p) \<and>
       (\<forall>i. get_pp i d' = get_pp i (save_pp q d))))"

lemma fail_ends_as: "(\<And>i. get_pp i d1 = get_pp i d) \<Longrightarrow> ends_as p now d (fail_permanently now p m d1)"
  unfolding ends_as_def by (rule disjI1, rule exI [of _ m]) (simp add: get_pp_fail_permanently)

lemma retry_ends_as:
  assumes "\<And>i. get_pp i d1 = get_pp i d"
  shows "ends_as p now d (schedule_retry now p m at d1)"
proof (cases "pp_retry_count p \<ge> MAX_RETRIES")
  case True
  then show ?thesis using fail_ends_as [OF assms] by (simp add: schedule_retry_cases)
next
  case False
  then show ?thesis unfolding ends_as_def
    by (intro disjI2 conjI exI [of _ "p\<lparr>pp_next_retry_at := Some (next_retry now (pp_retry_count p) at),
                     pp_retry_count := Suc (pp_retry_count p), pp_status := SCHEDULED,
                     pp_publish_error := take 2000 (py_or m PUBLISH_GENERIC_MESSAGE),
                     pp_updated_at := now\<rparr>"])
      (simp_all add: schedule_retry_cases get_pp_save_pp assms)
qed

lemma settle_attempt_failed:
  assumes "settle_attempt now p a outcome d = (Failed_Attempt, d')"
  shows "ends_as p now d d' \<and> row_ids d' = row_ids d"
proof (cases outcome)
  case (Inl e)
  then show ?thesis
    using assms by (auto simp: settle_attempt_def Let_def frame_simps
        intro!: fail_ends_as retry_ends_as split: if_splits)
next
  case (Inr r)
  then show ?thesis
    using assms by (auto simp: settle_attempt_def Let_def frame_simps
        intro!: retry_ends_as split: if_splits)
qed

lemma accepted_object_core:
  "pp_id (accepted_object now p r) = pp_id p"
  "pp_status (accepted_object now p r) \<in> {PUBLISHING, PUBLISHED}"
  "pp_handle (accepted_object now p r) = dr_handle r"
  by (simp_all add: accepted_object_def Let_def)

lemma settle_attempt_accepted:
  assumes "settle_attempt now p a outcome d = (res, d')" "res \<noteq> Failed_Attempt"
  shows "(\<exists>q. pp_id q = pp_id p \<and> pp_status q \<in> {PUBLISHING, PUBLISHED} \<and>
      (\<forall>i. get_pp i d' = get_pp i (save_pp q d))) \<and> row_ids d' = row_ids d"
proof (cases outcome)
  case (Inl e)
  then show ?thesis using assms by (auto simp: settle_attempt_def Let_def)
next
  case (Inr r)
  then have s: "dr_success r" using assms by (auto simp: settle_attempt_def Let_def split: if_splits)
  let ?q = "accepted_object now p r"
  have "\<forall>i. get_pp i d' = get_pp i (save_pp ?q d)" "row_ids d' = row_ids d"
    using assms(1) Inr s by (auto simp: settle_attempt_def Let_def frame_simps)
  then show ?thesis using accepted_object_core [of now p r] by blast
qed

text \<open>The sweep leaves every row alone, or fails the row, or publishes it.\<close>

definition swept_as :: "platform_post \<Rightarrow> instant \<Rightarrow> db \<Rightarrow> db \<Rightarrow> bool" where
  "swept_as p now d d' \<longleftrightarrow>
    (\<forall>i. get_pp i d' = get_pp i d) \<or>
    (\<exists>m. \<forall>i. get_pp i d' = get_pp i (fail_permanently now p m d)) \<or>
    (\<exists>q. pp_id q = pp_id p \<and> pp_status q = PUBLISHED \<and>
       (\<forall>i. map_option core (get_pp i d') = map_option core (get_pp i (save_pp q d))))"

lemma swept_fail: "(\<And>i. get_pp i d1 = get_pp i d) \<Longrightarrow> swept_as p now d (fail_permanently now p m d1)"
  unfolding swept_as_def by (rule disjI2, rule disjI1, rule exI [of _ m]) (simp add: get_pp_fail_permanently)

lemma swept_confirmed:
  assumes "\<And>i. get_pp i d1 = get_pp i d"
  shows "swept_as p now d (mark_confirmed_published w now p h d1)"
  unfolding swept_as_def
  by (intro disjI2 exI [of _ "p\<lparr>pp_handle := h, pp_status := PUBLISHED, pp_published_at := Some now,
               pp_publish_error := [], pp_updated_at := now\<rparr>"] conjI allI)
    (auto simp: mark_confirmed_published_def Let_def get_pp_first_comment frame_simps get_pp_save_pp assms)

lemma confirm_one_effect:
  assumes "confirm_one_publish w now dl p d = (b, d')"
  shows "swept_as p now d d' \<and> row_ids d' = row_ids d"
proof (cases "pp_handle p = []")
  case True
  then show ?thesis
    using assms by (auto simp: confirm_one_publish_def swept_fail split: if_splits)
      (auto simp: swept_as_def)
next
  case h: False
  show ?thesis
  proof (cases "get_account (pp_account p) d")
    case None
    then show ?thesis using assms h by (simp add: confirm_one_publish_def swept_as_def)
  next
    case (Some a)
    show ?thesis
    proof (cases "provider_and_access_token w now a d")
      case (Inl e)
      then show ?thesis using assms h Some by (simp add: confirm_one_publish_def swept_as_def)
    next
      case (Inr x)
      obtain pv token a1 d1 where x: "x = (pv, token, a1, d1)" by (cases x)
      have "d1 = d \<or> (\<exists>b. d1 = save_tokens b d)"
        using Inr x by (auto simp: provider_and_access_token_def Let_def split: sum.splits if_splits)
      then have f: "get_pp i d1 = get_pp i d" "row_ids d1 = row_ids d" for i
        by (auto simp: frame_simps)
      have q: "swept_as p now d d1" by (simp add: swept_as_def f)
      have m: "row_ids (mark_confirmed_published w now p h d1) = row_ids d1" for h
        by (simp add: mark_confirmed_published_def Let_def frame_simps)
      show ?thesis
      proof (cases "pa_status (pv_api pv) token (pp_handle p)")
        case (Inl e)
        then show ?thesis using assms h Some Inr x f q
          by (auto simp: confirm_one_publish_def give_up_unconfirmed_def intro!: swept_fail split: if_splits)
      next
        case st: (Inr st)
        then show ?thesis using assms h Some Inr x f q m
          by (auto simp: confirm_one_publish_def intro!: swept_fail swept_confirmed split: if_splits)
      qed
    qed
  qed
qed

section \<open>The step relation\<close>

record engine_state =
  es_db :: db
  es_flight :: "platform_post list"
  es_attempts :: "nat list"
  es_accepted :: "nat list"

definition begin_attempts :: "platform_post list \<Rightarrow> db \<Rightarrow> engine_state \<Rightarrow> engine_state" where
  "begin_attempts ps d s =
    s\<lparr>es_db := d, es_flight := es_flight s @ ps, es_attempts := es_attempts s @ map pp_id ps\<rparr>"

definition end_attempt :: "platform_post \<Rightarrow> bool \<Rightarrow> db \<Rightarrow> engine_state \<Rightarrow> engine_state" where
  "end_attempt p accepted d s =
    s\<lparr>es_db := d, es_flight := remove1 p (es_flight s),
      es_accepted := (if accepted then es_accepted s @ [pp_id p] else es_accepted s)\<rparr>"

inductive engine_step :: "bool \<Rightarrow> engine_state \<Rightarrow> engine_state \<Rightarrow> bool" for patient :: bool where
  Claim: "ps = claimable i due (es_db s) \<Longrightarrow> ps \<noteq> [] \<Longrightarrow>
    engine_step patient s (begin_attempts ps (claim now ps (es_db s)) s)"
| RetryClaim: "p \<in> set (db_pps (es_db s)) \<Longrightarrow> retry_due now (es_db s) p \<Longrightarrow>
    q = p\<lparr>pp_status := PUBLISHING, pp_updated_at := now\<rparr> \<Longrightarrow>
    engine_step patient s (begin_attempts [q] (save_status now q (es_db s)) s)"
| Limited: "p \<in> set (es_flight s) \<Longrightarrow>
    d' = schedule_retry now p PUBLISH_RATE_LIMIT_MESSAGE NoDeadline (es_db s) \<Longrightarrow>
    engine_step patient s (end_attempt p False d' s)"
| Settle: "p \<in> set (es_flight s) \<Longrightarrow> settle_attempt now p a outcome (es_db s) = (res, d') \<Longrightarrow>
    engine_step patient s (end_attempt p (res \<noteq> Failed_Attempt) d' s)"
| Crash: "engine_step patient s (s\<lparr>es_flight := remove1 p (es_flight s)\<rparr>)"
| Sweep: "p \<in> set (db_pps (es_db s)) \<Longrightarrow> pp_status p = PUBLISHING \<Longrightarrow>
    patient \<longrightarrow> pp_id p \<notin> pp_id ` set (es_flight s) \<Longrightarrow>
    confirm_one_publish w now dl p (es_db s) = (b, d') \<Longrightarrow>
    engine_step patient s (s\<lparr>es_db := d'\<rparr>)"
| Refresh: "engine_step patient s (s\<lparr>es_db := save_tokens a (es_db s)\<rparr>)"
| SyncParent: "engine_step patient s (s\<lparr>es_db := sync_parent_published_at now i (es_db s)\<rparr>)"
| FirstComment: "engine_step patient s (s\<lparr>es_db := maybe_schedule_first_comment w p (es_db s)\<rparr>)"

inductive_cases engine_stepE: "engine_step patient s s'"

definition attempts_of :: "nat \<Rightarrow> engine_state \<Rightarrow> nat" where
  "attempts_of i s = count_list (es_attempts s) i"

definition row_ok :: "nat \<Rightarrow> platform_post \<Rightarrow> bool" where
  "row_ok n r \<longleftrightarrow> n \<le> Suc MAX_RETRIES \<and>
     (pp_status r = SCHEDULED \<longrightarrow> n \<le> pp_retry_count r \<and> pp_retry_count r \<le> MAX_RETRIES)"

definition flight_ok :: "engine_state \<Rightarrow> bool" where
  "flight_ok s \<longleftrightarrow> distinct (map pp_id (es_flight s)) \<and>
     (\<forall>p \<in> set (es_flight s).
        (\<exists>r. get_pp (pp_id p) (es_db s) = Some r \<and> pp_status r = PUBLISHING) \<and>
        attempts_of (pp_id p) s \<le> Suc (pp_retry_count p) \<and> pp_retry_count p \<le> MAX_RETRIES)"

definition accepted_ok :: "engine_state \<Rightarrow> bool" where
  "accepted_ok s \<longleftrightarrow> distinct (es_accepted s) \<and>
     (\<forall>i \<in> set (es_accepted s). i \<notin> pp_id ` set (es_flight s) \<and>
        (\<forall>r. get_pp i (es_db s) = Some r \<longrightarrow> pp_status r \<in> {PUBLISHING, PUBLISHED, FAILED}))"

definition engine_inv :: "engine_state \<Rightarrow> bool" where
  "engine_inv s \<longleftrightarrow> distinct (row_ids (es_db s)) \<and> flight_ok s \<and> accepted_ok s \<and>
     (\<forall>i r. get_pp i (es_db s) = Some r \<longrightarrow> row_ok (attempts_of i s) r)"

definition engine_start :: "db \<Rightarrow> engine_state" where
  "engine_start d = \<lparr>es_db = d, es_flight = [], es_attempts = [], es_accepted = []\<rparr>"

definition fresh_schedule :: "db \<Rightarrow> bool" where
  \<comment> \<open>keys are unique and no scheduled row has used up more than its retries\<close>
  "fresh_schedule d \<longleftrightarrow> distinct (row_ids d) \<and>
     list_all (\<lambda>r. pp_status r = SCHEDULED \<longrightarrow> pp_retry_count r \<le> MAX_RETRIES) (db_pps d)"

section \<open>The invariant\<close>

lemma inv_start: "fresh_schedule d \<Longrightarrow> engine_inv (engine_start d)"
  by (auto simp: fresh_schedule_def engine_inv_def engine_start_def flight_ok_def accepted_ok_def
      attempts_of_def row_ok_def list_all_iff dest: get_pp_in)

lemma core_eqD: "core r = core r' \<Longrightarrow> pp_status r = pp_status r' \<and> pp_retry_count r = pp_retry_count r'"
  by (simp add: core_def)

lemma same_core_row:
  assumes "map_option core (get_pp i d') = map_option core (get_pp i d)" "get_pp i d' = Some r'"
  shows "\<exists>r. get_pp i d = Some r \<and> core r = core r'"
  using assms by (cases "get_pp i d") auto

lemma distinct_map_remove1: "distinct (map f xs) \<Longrightarrow> distinct (map f (remove1 x xs))"
  by (metis distinct_map distinct_remove1 inj_on_subset set_remove1_subset)

lemma remove1_key_gone: "distinct (map f xs) \<Longrightarrow> x \<in> set xs \<Longrightarrow> f x \<notin> f ` set (remove1 x xs)"
  by (auto simp: distinct_map inj_on_def)

lemma inv_row: "engine_inv s \<Longrightarrow> get_pp i (es_db s) = Some r \<Longrightarrow> row_ok (attempts_of i s) r"
  by (simp add: engine_inv_def)

lemma inv_same_core_row:
  assumes "engine_inv s" "map_option core (get_pp i d') = map_option core (get_pp i (es_db s))"
    and "get_pp i d' = Some r'"
  shows "row_ok (attempts_of i s) r'"
proof -
  obtain r where "get_pp i (es_db s) = Some r" "core r = core r'"
    using same_core_row [OF assms(2,3)] by blast
  then show ?thesis using inv_row [OF assms(1), of i r] core_eqD [of r r'] by (simp add: row_ok_def)
qed

text \<open>A step that keeps every row's core, and at most lets go of an object.\<close>

lemma inv_quiet:
  assumes inv: "engine_inv s"
    and rows: "\<And>i. map_option core (get_pp i d') = map_option core (get_pp i (es_db s))"
    and ids: "row_ids d' = row_ids (es_db s)"
    and fl: "fl = es_flight s \<or> fl = remove1 p (es_flight s)"
  shows "engine_inv (s\<lparr>es_db := d', es_flight := fl\<rparr>)"
proof -
  have sub: "set fl \<subseteq> set (es_flight s)" using fl set_remove1_subset by fast
  have dist: "distinct (map pp_id fl)"
    using inv fl by (auto simp: engine_inv_def flight_ok_def distinct_map_remove1)
  have keep: "\<exists>r'. get_pp i d' = Some r' \<and> core r' = core r" if "get_pp i (es_db s) = Some r" for i r
    using rows [of i] that by auto
  let ?s = "s\<lparr>es_db := d', es_flight := fl\<rparr>"
  have "flight_ok ?s"
    unfolding flight_ok_def
  proof (intro conjI ballI)
    show "distinct (map pp_id (es_flight ?s))" using dist by simp
    fix q assume "q \<in> set (es_flight ?s)"
    then have q: "q \<in> set (es_flight s)" using sub by auto
    then obtain r where "get_pp (pp_id q) (es_db s) = Some r" "pp_status r = PUBLISHING"
      using inv by (auto simp: engine_inv_def flight_ok_def)
    then have "\<exists>r. get_pp (pp_id q) d' = Some r \<and> pp_status r = PUBLISHING"
      using keep core_eqD by metis
    then show "\<exists>r. get_pp (pp_id q) (es_db ?s) = Some r \<and> pp_status r = PUBLISHING" by simp
    show "attempts_of (pp_id q) ?s \<le> Suc (pp_retry_count q)" "pp_retry_count q \<le> MAX_RETRIES"
      using inv q by (simp_all add: engine_inv_def flight_ok_def attempts_of_def)
  qed
  moreover have "accepted_ok ?s"
    unfolding accepted_ok_def
  proof (intro conjI ballI allI impI)
    show "distinct (es_accepted ?s)" using inv by (simp add: engine_inv_def accepted_ok_def)
    fix i assume "i \<in> set (es_accepted ?s)"
    then have i: "i \<in> set (es_accepted s)" by simp
    then show "i \<notin> pp_id ` set (es_flight ?s)" using inv sub by (auto simp: engine_inv_def accepted_ok_def)
    fix r assume "get_pp i (es_db ?s) = Some r"
    then have "get_pp i d' = Some r" by simp
    from same_core_row [OF rows this] obtain r0 where "get_pp i (es_db s) = Some r0" "core r0 = core r" by blast
    then show "pp_status r \<in> {PUBLISHING, PUBLISHED, FAILED}"
      using inv i core_eqD [of r0 r] by (auto simp: engine_inv_def accepted_ok_def)
  qed
  moreover have "row_ok (attempts_of i s) r" if "get_pp i d' = Some r" for i r
    by (rule inv_same_core_row [OF inv rows that])
  ultimately show ?thesis
    using inv ids by (simp add: engine_inv_def attempts_of_def)
qed

text \<open>
  A step that ends one row's stay in \<open>publishing\<close>, or renews it: the row of \<open>j\<close> is the only one
  that changes, and no object in flight afterwards belongs to it.
\<close>

lemma inv_one_row:
  assumes inv: "engine_inv s"
    and others: "\<And>i. i \<noteq> j \<Longrightarrow> get_pp i d' = get_pp i (es_db s) \<or>
      map_option core (get_pp i d') = map_option core (get_pp i (es_db s))"
    and present: "get_pp j d' \<noteq> None \<longleftrightarrow> get_pp j (es_db s) \<noteq> None"
    and own: "\<And>r'. get_pp j d' = Some r' \<Longrightarrow> pp_status r' \<in> {PUBLISHING, PUBLISHED, FAILED} \<or>
      (pp_status r' = SCHEDULED \<and> attempts_of j s \<le> pp_retry_count r' \<and>
       pp_retry_count r' \<le> MAX_RETRIES \<and> j \<notin> set acc)"
    and ids: "row_ids d' = row_ids (es_db s)"
    and fl: "set fl \<subseteq> set (es_flight s)" "distinct (map pp_id fl)" "j \<notin> pp_id ` set fl"
    and acc: "acc = es_accepted s \<or> (acc = es_accepted s @ [j] \<and> j \<notin> set (es_accepted s))"
  shows "engine_inv (s\<lparr>es_db := d', es_flight := fl, es_accepted := acc\<rparr>)"
proof -
  have rows: "map_option core (get_pp i d') = map_option core (get_pp i (es_db s))" if "i \<noteq> j" for i
    using others [OF that] by auto
  let ?s = "s\<lparr>es_db := d', es_flight := fl, es_accepted := acc\<rparr>"
  have "flight_ok ?s"
    unfolding flight_ok_def
  proof (intro conjI ballI)
    show "distinct (map pp_id (es_flight ?s))" using fl(2) by simp
    fix q assume q: "q \<in> set (es_flight ?s)"
    then have ne: "pp_id q \<noteq> j" and old: "q \<in> set (es_flight s)" using fl by auto
    from old obtain r where "get_pp (pp_id q) (es_db s) = Some r" "pp_status r = PUBLISHING"
      using inv by (auto simp: engine_inv_def flight_ok_def)
    moreover obtain r' where "get_pp (pp_id q) d' = Some r'" "core r' = core r"
      using rows [OF ne] calculation(1) by auto
    ultimately have "\<exists>r. get_pp (pp_id q) d' = Some r \<and> pp_status r = PUBLISHING"
      using core_eqD by metis
    then show "\<exists>r. get_pp (pp_id q) (es_db ?s) = Some r \<and> pp_status r = PUBLISHING" by simp
    show "attempts_of (pp_id q) ?s \<le> Suc (pp_retry_count q)" "pp_retry_count q \<le> MAX_RETRIES"
      using inv old by (simp_all add: engine_inv_def flight_ok_def attempts_of_def)
  qed
  moreover have "accepted_ok ?s"
    unfolding accepted_ok_def
  proof (intro conjI ballI allI impI)
    show "distinct (es_accepted ?s)" using inv acc by (auto simp: engine_inv_def accepted_ok_def)
    fix i assume "i \<in> set (es_accepted ?s)"
    then have i: "i \<in> set acc" by simp
    then show "i \<notin> pp_id ` set (es_flight ?s)"
      using inv acc fl(1,3) by (fastforce simp: engine_inv_def accepted_ok_def)
    fix r assume "get_pp i (es_db ?s) = Some r"
    then have r: "get_pp i d' = Some r" by simp
    show "pp_status r \<in> {PUBLISHING, PUBLISHED, FAILED}"
    proof (cases "i = j")
      case True
      then show ?thesis using own [of r] r i by auto
    next
      case False
      then have old: "i \<in> set (es_accepted s)" using i acc by auto
      from same_core_row [OF rows [OF False] r] obtain r0
        where "get_pp i (es_db s) = Some r0" "core r0 = core r" by blast
      then show ?thesis using inv old core_eqD [of r0 r] by (auto simp: engine_inv_def accepted_ok_def)
    qed
  qed
  moreover have "row_ok (attempts_of i s) r" if r: "get_pp i d' = Some r" for i r
  proof (cases "i = j")
    case True
    then obtain r0 where "get_pp j (es_db s) = Some r0" using present r by auto
    then have "attempts_of j s \<le> Suc MAX_RETRIES" using inv by (auto simp: engine_inv_def row_ok_def)
    then show ?thesis using own [of r] r True by (auto simp: row_ok_def)
  next
    case False
    show ?thesis by (rule inv_same_core_row [OF inv rows [OF False] r])
  qed
  ultimately show ?thesis using inv ids by (simp add: engine_inv_def attempts_of_def)
qed

text \<open>A step that begins attempts on scheduled rows.\<close>

lemma inv_begin:
  assumes inv: "engine_inv s" and dist: "distinct (map pp_id ps)"
    and sched: "\<And>p. p \<in> set ps \<Longrightarrow> \<exists>r. get_pp (pp_id p) (es_db s) = Some r \<and>
      pp_status r = SCHEDULED \<and> pp_retry_count r = pp_retry_count p"
    and rows: "\<And>i. get_pp i d' = map_option
      (\<lambda>r. if i \<in> pp_id ` set ps then r\<lparr>pp_status := PUBLISHING, pp_updated_at := now\<rparr> else r)
      (get_pp i (es_db s))"
    and ids: "row_ids d' = row_ids (es_db s)"
  shows "engine_inv (begin_attempts ps d' s)"
proof -
  let ?s = "begin_attempts ps d' s"
  have n: "attempts_of i ?s = attempts_of i s + (if i \<in> pp_id ` set ps then 1 else 0)" for i
    using count_list_distinct [OF dist, of i] by (simp add: attempts_of_def begin_attempts_def)
  have disj: "pp_id ` set ps \<inter> pp_id ` set (es_flight s) = {}"
    using sched inv by (force simp: engine_inv_def flight_ok_def)
  have "flight_ok ?s"
    unfolding flight_ok_def
  proof (intro conjI ballI)
    show "distinct (map pp_id (es_flight ?s))"
      using dist inv disj by (auto simp: begin_attempts_def engine_inv_def flight_ok_def)
    fix q assume "q \<in> set (es_flight ?s)"
    then consider (new) "q \<in> set ps" | (old) "q \<in> set (es_flight s)" by (auto simp: begin_attempts_def)
    then have "(\<exists>r. get_pp (pp_id q) d' = Some r \<and> pp_status r = PUBLISHING) \<and>
      attempts_of (pp_id q) ?s \<le> Suc (pp_retry_count q) \<and> pp_retry_count q \<le> MAX_RETRIES"
    proof cases
      case new
      then obtain r where r: "get_pp (pp_id q) (es_db s) = Some r" "pp_status r = SCHEDULED"
        "pp_retry_count r = pp_retry_count q" using sched by blast
      then have "row_ok (attempts_of (pp_id q) s) r" using inv by (auto simp: engine_inv_def)
      then show ?thesis using r new by (auto simp: rows n row_ok_def)
    next
      case old
      then have "pp_id q \<notin> pp_id ` set ps" using disj by auto
      moreover obtain r where "get_pp (pp_id q) (es_db s) = Some r" "pp_status r = PUBLISHING"
        using old inv by (auto simp: engine_inv_def flight_ok_def)
      ultimately show ?thesis using old inv by (auto simp: rows n engine_inv_def flight_ok_def)
    qed
    then show "\<exists>r. get_pp (pp_id q) (es_db ?s) = Some r \<and> pp_status r = PUBLISHING"
      "attempts_of (pp_id q) ?s \<le> Suc (pp_retry_count q)" "pp_retry_count q \<le> MAX_RETRIES"
      by (auto simp: begin_attempts_def)
  qed
  moreover have "accepted_ok ?s"
  proof -
    have no: "i \<notin> pp_id ` set ps" if "i \<in> set (es_accepted s)" for i
      using that sched inv by (fastforce simp: engine_inv_def accepted_ok_def)
    then show ?thesis using inv
      by (auto simp: accepted_ok_def engine_inv_def begin_attempts_def rows)
  qed
  moreover have "row_ok (attempts_of i ?s) r" if now: "get_pp i d' = Some r" for i r
  proof -
    obtain r0 where r0: "get_pp i (es_db s) = Some r0"
      and r: "r = (if i \<in> pp_id ` set ps then r0\<lparr>pp_status := PUBLISHING, pp_updated_at := now\<rparr> else r0)"
      using now by (auto simp: rows)
    have ok: "row_ok (attempts_of i s) r0" using inv r0 by (auto simp: engine_inv_def)
    show ?thesis
    proof (cases "i \<in> pp_id ` set ps")
      case True
      then have "pp_status r0 = SCHEDULED" using sched r0 by force
      then show ?thesis using ok True by (simp add: r n row_ok_def)
    qed (use ok in \<open>simp add: r n\<close>)
  qed
  ultimately show ?thesis using inv ids by (simp add: engine_inv_def begin_attempts_def)
qed

end
