(* ===== verification/Publisher_Safety.thy ===== *)
theory Publisher_Safety
  imports Publisher_Runs
begin

text \<open>
  What every run of the engine keeps, whatever the interleaving of its threads, the answers of
  the providers and the crashes of the worker: the invariant of \<open>Publisher_Runs\<close> is kept by every
  step, every status change is an edge of the declared state machine, a published row is final,
  the platform accepts a row at most once, and a row is attempted at most four times.
\<close>

section \<open>Rows before and after\<close>

lemma get_pp_row:
  assumes "distinct (row_ids d)" "p \<in> set (db_pps d)"
  shows "get_pp (pp_id p) d = Some p"
  using assms by (simp add: row_ids_def get_pp_def tbl_get_distinct)

lemma get_pp_claim:
  "get_pp i (claim now ps d) = map_option
    (\<lambda>r. if i \<in> pp_id ` set ps then r\<lparr>pp_status := PUBLISHING, pp_updated_at := now\<rparr> else r) (get_pp i d)"
proof (cases "get_pp i d")
  case (Some r)
  then have "pp_id r = i" by (rule get_pp_id)
  then show ?thesis using Some by (simp add: claim_def get_pp_update)
qed (simp add: claim_def get_pp_update)

lemma get_pp_save_status:
  "pp_status q = PUBLISHING \<Longrightarrow> get_pp i (save_status now q d) = map_option
    (\<lambda>r. if i \<in> pp_id ` set [q] then r\<lparr>pp_status := PUBLISHING, pp_updated_at := now\<rparr> else r) (get_pp i d)"
proof (cases "get_pp i d")
  case (Some r)
  then have "pp_id r = i" by (rule get_pp_id)
  moreover assume "pp_status q = PUBLISHING"
  ultimately show ?thesis using Some by (simp add: save_status_def get_pp_update)
qed (simp add: save_status_def get_pp_update)

lemma claimable_row:
  "p \<in> set (claimable i due d) \<Longrightarrow> p \<in> set (db_pps d) \<and> pp_status p = SCHEDULED \<and> pp_post p = i \<and> \<not> on_hold i d"
  by (auto simp: claimable_def children_def split: if_splits)

lemma claimable_distinct: "distinct (row_ids d) \<Longrightarrow> distinct (map pp_id (claimable i due d))"
  by (simp add: claimable_def children_def row_ids_def distinct_map_filter)

section \<open>Every step keeps the invariant\<close>

lemma inv_flight_row:
  assumes "engine_inv s" "p \<in> set (es_flight s)"
  obtains r where "get_pp (pp_id p) (es_db s) = Some r" "pp_status r = PUBLISHING"
  using assms by (auto simp: engine_inv_def flight_ok_def)

lemma inv_flight_facts:
  assumes "engine_inv s" "p \<in> set (es_flight s)"
  shows "attempts_of (pp_id p) s \<le> Suc (pp_retry_count p)" "pp_retry_count p \<le> MAX_RETRIES"
    "pp_id p \<notin> set (es_accepted s)" "distinct (map pp_id (remove1 p (es_flight s)))"
    "pp_id p \<notin> pp_id ` set (remove1 p (es_flight s))"
proof -
  show "attempts_of (pp_id p) s \<le> Suc (pp_retry_count p)" "pp_retry_count p \<le> MAX_RETRIES"
    using assms by (auto simp: engine_inv_def flight_ok_def)
  show "pp_id p \<notin> set (es_accepted s)" using assms by (auto simp: engine_inv_def accepted_ok_def)
  have d: "distinct (map pp_id (es_flight s))" using assms by (simp add: engine_inv_def flight_ok_def)
  show "distinct (map pp_id (remove1 p (es_flight s)))" by (rule distinct_map_remove1 [OF d])
  show "pp_id p \<notin> pp_id ` set (remove1 p (es_flight s))" by (rule remove1_key_gone [OF d assms(2)])
qed

lemma ends_other:
  assumes "ends_as p now d d'" "i \<noteq> pp_id p"
  shows "get_pp i d' = get_pp i d"
proof -
  have other: "\<not> in_publishing (pp_id p) r" if "get_pp i d = Some r" for r
    using get_pp_id [OF that] assms(2) by (simp add: in_publishing_def)
  from assms(1) consider m where "get_pp i d' = get_pp i (fail_permanently now p m d)"
    | q where "pp_id q = pp_id p" "get_pp i d' = get_pp i (save_pp q d)"
    unfolding ends_as_def by blast
  then show ?thesis
  proof cases
    case 1
    then show ?thesis using other by (cases "get_pp i d") (simp_all add: get_pp_fail_permanently)
  next
    case 2
    then show ?thesis using assms(2) by (simp add: get_pp_save_pp)
  qed
qed

lemma swept_other:
  assumes "swept_as p now d d'" "i \<noteq> pp_id p"
  shows "map_option core (get_pp i d') = map_option core (get_pp i d)"
proof -
  have other: "\<not> in_publishing (pp_id p) r" if "get_pp i d = Some r" for r
    using get_pp_id [OF that] assms(2) by (simp add: in_publishing_def)
  from assms(1) consider "get_pp i d' = get_pp i d"
    | m where "get_pp i d' = get_pp i (fail_permanently now p m d)"
    | q where "pp_id q = pp_id p" "map_option core (get_pp i d') = map_option core (get_pp i (save_pp q d))"
    unfolding swept_as_def by blast
  then show ?thesis
  proof cases
    case 2
    then show ?thesis using other by (cases "get_pp i d") (simp_all add: get_pp_fail_permanently)
  next
    case 3
    then show ?thesis using assms(2) by (simp add: get_pp_save_pp)
  qed simp
qed

lemma inv_end_failed:
  assumes inv: "engine_inv s" and p: "p \<in> set (es_flight s)"
    and e: "ends_as p now (es_db s) d'" and ids: "row_ids d' = row_ids (es_db s)"
  shows "engine_inv (end_attempt p False d' s)"
proof -
  obtain r where r: "get_pp (pp_id p) (es_db s) = Some r" "pp_status r = PUBLISHING"
    by (rule inv_flight_row [OF inv p])
  have "engine_inv (s\<lparr>es_db := d', es_flight := remove1 p (es_flight s), es_accepted := es_accepted s\<rparr>)"
  proof (rule inv_one_row [OF inv, where j = "pp_id p"])
    show "get_pp i d' = get_pp i (es_db s) \<or> map_option core (get_pp i d') = map_option core (get_pp i (es_db s))"
      if "i \<noteq> pp_id p" for i using ends_other [OF e that] ..
    show "get_pp (pp_id p) d' \<noteq> None \<longleftrightarrow> get_pp (pp_id p) (es_db s) \<noteq> None"
      using e r by (auto simp: ends_as_def get_pp_fail_permanently get_pp_save_pp)
    show "pp_status r' \<in> {PUBLISHING, PUBLISHED, FAILED} \<or>
      (pp_status r' = SCHEDULED \<and> attempts_of (pp_id p) s \<le> pp_retry_count r' \<and>
       pp_retry_count r' \<le> MAX_RETRIES \<and> pp_id p \<notin> set (es_accepted s))"
      if "get_pp (pp_id p) d' = Some r'" for r'
      using e that r inv_flight_facts [OF inv p]
      by (auto simp: ends_as_def get_pp_fail_permanently get_pp_save_pp in_publishing_def split: if_splits)
    show "set (remove1 p (es_flight s)) \<subseteq> set (es_flight s)" by (rule set_remove1_subset)
  qed (use inv_flight_facts [OF inv p] ids in auto)
  then show ?thesis by (simp add: end_attempt_def)
qed

lemma inv_end_accepted:
  assumes inv: "engine_inv s" and p: "p \<in> set (es_flight s)"
    and q: "pp_id q = pp_id p" "pp_status q \<in> {PUBLISHING, PUBLISHED}"
    and rows: "\<And>i. get_pp i d' = get_pp i (save_pp q (es_db s))"
    and ids: "row_ids d' = row_ids (es_db s)"
  shows "engine_inv (end_attempt p True d' s)"
proof -
  obtain r where r: "get_pp (pp_id p) (es_db s) = Some r" "pp_status r = PUBLISHING"
    by (rule inv_flight_row [OF inv p])
  have "engine_inv (s\<lparr>es_db := d', es_flight := remove1 p (es_flight s), es_accepted := es_accepted s @ [pp_id p]\<rparr>)"
  proof (rule inv_one_row [OF inv, where j = "pp_id p"])
    show "get_pp i d' = get_pp i (es_db s) \<or> map_option core (get_pp i d') = map_option core (get_pp i (es_db s))"
      if "i \<noteq> pp_id p" for i using that q by (simp add: rows get_pp_save_pp)
    show "get_pp (pp_id p) d' \<noteq> None \<longleftrightarrow> get_pp (pp_id p) (es_db s) \<noteq> None"
      using r q by (simp add: rows get_pp_save_pp)
    show "pp_status r' \<in> {PUBLISHING, PUBLISHED, FAILED} \<or>
      (pp_status r' = SCHEDULED \<and> attempts_of (pp_id p) s \<le> pp_retry_count r' \<and>
       pp_retry_count r' \<le> MAX_RETRIES \<and> pp_id p \<notin> set (es_accepted s @ [pp_id p]))"
      if "get_pp (pp_id p) d' = Some r'" for r'
      using that q r by (auto simp: rows get_pp_save_pp)
    show "set (remove1 p (es_flight s)) \<subseteq> set (es_flight s)" by (rule set_remove1_subset)
  qed (use inv_flight_facts [OF inv p] ids in auto)
  then show ?thesis by (simp add: end_attempt_def)
qed

lemma inv_sweep:
  assumes inv: "engine_inv s" and p: "p \<in> set (db_pps (es_db s))" "pp_status p = PUBLISHING"
    and free: "pp_id p \<notin> pp_id ` set (es_flight s)"
    and c: "swept_as p now (es_db s) d'" "row_ids d' = row_ids (es_db s)"
  shows "engine_inv (s\<lparr>es_db := d'\<rparr>)"
proof -
  have g: "get_pp (pp_id p) (es_db s) = Some p"
    using inv p(1) by (intro get_pp_row) (simp_all add: engine_inv_def)
  have "engine_inv (s\<lparr>es_db := d', es_flight := es_flight s, es_accepted := es_accepted s\<rparr>)"
  proof (rule inv_one_row [OF inv, where j = "pp_id p"])
    show "get_pp i d' = get_pp i (es_db s) \<or> map_option core (get_pp i d') = map_option core (get_pp i (es_db s))"
      if "i \<noteq> pp_id p" for i using swept_other [OF c(1) that] ..
    have new: "\<exists>r'. get_pp (pp_id p) d' = Some r' \<and> pp_status r' \<in> {PUBLISHING, PUBLISHED, FAILED}"
    proof -
      consider "get_pp (pp_id p) d' = Some p"
        | m where "get_pp (pp_id p) d' = get_pp (pp_id p) (fail_permanently now p m (es_db s))"
        | q where "pp_id q = pp_id p" "pp_status q = PUBLISHED"
            "map_option core (get_pp (pp_id p) d') = map_option core (get_pp (pp_id p) (save_pp q (es_db s)))"
        using c(1) g unfolding swept_as_def by metis
      then show ?thesis
      proof cases
        case 3
        then show ?thesis using g by (auto simp: get_pp_save_pp core_def)
      qed (use g p(2) in \<open>auto simp: get_pp_fail_permanently in_publishing_def\<close>)
    qed
    then show "get_pp (pp_id p) d' \<noteq> None \<longleftrightarrow> get_pp (pp_id p) (es_db s) \<noteq> None" using g by auto
    show "pp_status r' \<in> {PUBLISHING, PUBLISHED, FAILED} \<or>
      (pp_status r' = SCHEDULED \<and> attempts_of (pp_id p) s \<le> pp_retry_count r' \<and>
       pp_retry_count r' \<le> MAX_RETRIES \<and> pp_id p \<notin> set (es_accepted s))"
      if "get_pp (pp_id p) d' = Some r'" for r' using new that by auto
    show "distinct (map pp_id (es_flight s))" using inv by (simp add: engine_inv_def flight_ok_def)
  qed (use free c(2) in auto)
  then show ?thesis by simp
qed

lemma inv_claim:
  assumes "engine_inv s"
  shows "engine_inv (begin_attempts (claimable i due (es_db s)) (claim now (claimable i due (es_db s)) (es_db s)) s)"
proof (rule inv_begin [OF assms])
  let ?ps = "claimable i due (es_db s)"
  have d: "distinct (row_ids (es_db s))" using assms by (simp add: engine_inv_def)
  show "distinct (map pp_id ?ps)" using d by (rule claimable_distinct)
  show "\<exists>r. get_pp (pp_id p) (es_db s) = Some r \<and> pp_status r = SCHEDULED \<and> pp_retry_count r = pp_retry_count p"
    if "p \<in> set ?ps" for p
    using claimable_row [OF that] get_pp_row [OF d] by blast
  show "row_ids (claim now ?ps (es_db s)) = row_ids (es_db s)"
    by (simp add: claim_def row_ids_update)
qed (rule get_pp_claim)

lemma inv_retry_claim:
  assumes inv: "engine_inv s" and p: "p \<in> set (db_pps (es_db s))" "pp_status p = SCHEDULED"
    and q: "q = p\<lparr>pp_status := PUBLISHING, pp_updated_at := now\<rparr>"
  shows "engine_inv (begin_attempts [q] (save_status now q (es_db s)) s)"
proof (rule inv_begin [OF inv])
  have "get_pp (pp_id p) (es_db s) = Some p"
    using inv p(1) by (intro get_pp_row) (simp_all add: engine_inv_def)
  then show "\<exists>r. get_pp (pp_id x) (es_db s) = Some r \<and> pp_status r = SCHEDULED \<and> pp_retry_count r = pp_retry_count x"
    if "x \<in> set [q]" for x using that p q by simp
  show "row_ids (save_status now q (es_db s)) = row_ids (es_db s)"
    by (simp add: save_status_def row_ids_update)
  show "get_pp i (save_status now q (es_db s)) = map_option
      (\<lambda>r. if i \<in> pp_id ` set [q] then r\<lparr>pp_status := PUBLISHING, pp_updated_at := now\<rparr> else r)
      (get_pp i (es_db s))" for i
    by (rule get_pp_save_status) (simp add: q)
qed simp

lemma inv_step:
  assumes "engine_step True s s'" "engine_inv s"
  shows "engine_inv s'"
  using assms
proof (induction rule: engine_step.induct)
  case (Claim ps i due s now)
  then show ?case using inv_claim by simp
next
  case (RetryClaim p s now q)
  then show ?case by (intro inv_retry_claim) (simp_all add: retry_due_def)
next
  case (Limited p s d' now)
  have "ends_as p now (es_db s) d'" unfolding Limited(2) by (rule retry_ends_as) simp
  then show ?case using Limited by (intro inv_end_failed) simp_all
next
  case (Settle p s now a outcome res d')
  show ?case
  proof (cases "res = Failed_Attempt")
    case True
    then have "settle_attempt now p a outcome (es_db s) = (Failed_Attempt, d')" using Settle by simp
    from settle_attempt_failed [OF this] show ?thesis using Settle True by (auto intro: inv_end_failed)
  next
    case False
    from settle_attempt_accepted [OF Settle(2) this] obtain q
      where "pp_id q = pp_id p" "pp_status q \<in> {PUBLISHING, PUBLISHED}"
        "\<And>i. get_pp i d' = get_pp i (save_pp q (es_db s))" "row_ids d' = row_ids (es_db s)" by blast
    from inv_end_accepted [OF Settle(3,1) this] show ?thesis using False by simp
  qed
next
  case (Crash s p)
  then show ?case using inv_quiet [of s "es_db s" "remove1 p (es_flight s)" p] by simp
next
  case (Sweep p s w now dl b d')
  then show ?case using confirm_one_effect [OF Sweep(4)] by (intro inv_sweep) auto
next
  case (Refresh s a)
  then show ?case using inv_quiet [of s "save_tokens a (es_db s)" "es_flight s"] by (simp add: frame_simps)
next
  case (SyncParent s now i)
  then show ?case
    using inv_quiet [of s "sync_parent_published_at now i (es_db s)" "es_flight s"] by (simp add: frame_simps)
next
  case (FirstComment s w p)
  then show ?case
    using inv_quiet [of s "maybe_schedule_first_comment w p (es_db s)" "es_flight s"]
    by (simp add: get_pp_first_comment)
qed

lemma inv_run:
  assumes "rtranclp (engine_step True) s s'" "engine_inv s"
  shows "engine_inv s'"
  using assms by (induction rule: rtranclp_induct) (auto intro: inv_step)

section \<open>What one step does to a row\<close>

definition moved :: "platform_post \<Rightarrow> platform_post \<Rightarrow> bool" where
  "moved r r' \<longleftrightarrow> core r' = core r \<or> edge (pp_status r) (pp_status r') \<or>
     (pp_status r = PUBLISHING \<and> pp_status r' = PUBLISHING)"

lemma moved_refl [simp]: "moved r r"
  by (simp add: moved_def)

lemma moved_core: "map_option core x' = map_option core (Some r) \<Longrightarrow> \<exists>r'. x' = Some r' \<and> moved r r'"
  by (cases x') (auto simp: moved_def)

lemma ends_moved:
  assumes "ends_as p now d d'" "get_pp i d = Some r" "get_pp (pp_id p) d = Some r0" "pp_status r0 = PUBLISHING"
  shows "\<exists>r'. get_pp i d' = Some r' \<and> moved r r'"
proof (cases "i = pp_id p")
  case True
  then have r: "pp_status r = PUBLISHING" "pp_id r = pp_id p" using assms get_pp_id [OF assms(2)] by auto
  from assms(1) consider m where "get_pp i d' = get_pp i (fail_permanently now p m d)"
    | q where "pp_id q = pp_id p" "pp_status q = SCHEDULED" "get_pp i d' = get_pp i (save_pp q d)"
    unfolding ends_as_def by blast
  then show ?thesis
  proof cases
    case 1
    then show ?thesis using r assms(2) by (simp add: get_pp_fail_permanently in_publishing_def moved_def edge_iff)
  next
    case 2
    then show ?thesis using r assms(2) True by (simp add: get_pp_save_pp moved_def edge_iff)
  qed
qed (use ends_other [OF assms(1)] assms(2) in auto)

lemma begin_moved:
  assumes "get_pp i d' = map_option
      (\<lambda>r. if i \<in> S then r\<lparr>pp_status := PUBLISHING, pp_updated_at := now\<rparr> else r) (get_pp i d)"
    and "get_pp i d = Some r" "i \<in> S \<Longrightarrow> pp_status r = SCHEDULED"
  shows "\<exists>r'. get_pp i d' = Some r' \<and> moved r r'"
  using assms by (auto simp: moved_def edge_iff)

lemma swept_moved:
  assumes "swept_as p now d d'" "get_pp i d = Some r" "get_pp (pp_id p) d = Some p" "pp_status p = PUBLISHING"
  shows "\<exists>r'. get_pp i d' = Some r' \<and> moved r r'"
proof (cases "i = pp_id p")
  case True
  then have r: "r = p" using assms by simp
  from assms(1) consider "get_pp i d' = get_pp i d"
    | m where "get_pp i d' = get_pp i (fail_permanently now p m d)"
    | q where "pp_id q = pp_id p" "pp_status q = PUBLISHED"
        "map_option core (get_pp i d') = map_option core (get_pp i (save_pp q d))"
    unfolding swept_as_def by blast
  then show ?thesis
  proof cases
    case 1
    then show ?thesis using assms(2) by simp
  next
    case 2
    then show ?thesis using r assms(2,4) by (simp add: get_pp_fail_permanently in_publishing_def moved_def edge_iff)
  next
    case 3
    then obtain r' where "get_pp i d' = Some r'" "pp_status r' = PUBLISHED"
      using True assms(2) by (auto simp: get_pp_save_pp core_def)
    then show ?thesis using r assms(4) by (simp add: moved_def edge_iff)
  qed
next
  case False
  show ?thesis using moved_core [of "get_pp i d'" r] swept_other [OF assms(1) False] assms(2) by simp
qed

lemma step_row:
  assumes "engine_step True s s'" "engine_inv s" "get_pp i (es_db s) = Some r"
  shows "\<exists>r'. get_pp i (es_db s') = Some r' \<and> moved r r'"
  using assms
proof (induction rule: engine_step.induct)
  case (Claim ps po due s now)
  have d: "distinct (row_ids (es_db s))" using Claim by (simp add: engine_inv_def)
  have "pp_status r = SCHEDULED" if i: "i \<in> pp_id ` set ps"
  proof -
    obtain p where "p \<in> set ps" "i = pp_id p" using i by blast
    then show ?thesis using claimable_row [of p po due] get_pp_row [OF d] Claim by fastforce
  qed
  then show ?case using begin_moved [OF get_pp_claim Claim(4)] by (simp add: begin_attempts_def)
next
  case (RetryClaim p s now q)
  have d: "distinct (row_ids (es_db s))" using RetryClaim by (simp add: engine_inv_def)
  have "pp_status r = SCHEDULED" if "i \<in> pp_id ` set [q]"
    using that get_pp_row [OF d RetryClaim(1)] RetryClaim by (auto simp: retry_due_def)
  moreover have "pp_status q = PUBLISHING" using RetryClaim(3) by simp
  ultimately show ?case
    using begin_moved [OF get_pp_save_status RetryClaim(5)] by (simp add: begin_attempts_def)
next
  case (Limited p s d' now)
  obtain r0 where r0: "get_pp (pp_id p) (es_db s) = Some r0" "pp_status r0 = PUBLISHING"
    by (rule inv_flight_row [OF Limited(3,1)])
  have "ends_as p now (es_db s) d'" unfolding Limited(2) by (rule retry_ends_as) simp
  from ends_moved [OF this Limited(4) r0] show ?case by (simp add: end_attempt_def)
next
  case (Settle p s now a outcome res d')
  obtain r0 where r0: "get_pp (pp_id p) (es_db s) = Some r0" "pp_status r0 = PUBLISHING"
    by (rule inv_flight_row [OF Settle(3,1)])
  show ?case
  proof (cases "res = Failed_Attempt")
    case True
    then have "settle_attempt now p a outcome (es_db s) = (Failed_Attempt, d')" using Settle by simp
    from settle_attempt_failed [OF this] have "ends_as p now (es_db s) d'" ..
    from ends_moved [OF this Settle(4) r0] show ?thesis by (simp add: end_attempt_def)
  next
    case False
    from settle_attempt_accepted [OF Settle(2) this] obtain q
      where q: "pp_id q = pp_id p" "pp_status q \<in> {PUBLISHING, PUBLISHED}"
        "get_pp i d' = get_pp i (save_pp q (es_db s))" by blast
    then show ?thesis using r0 Settle(4)
      by (auto simp: end_attempt_def get_pp_save_pp moved_def edge_iff)
  qed
next
  case (Sweep p s w now dl b d')
  have "get_pp (pp_id p) (es_db s) = Some p"
    using Sweep by (intro get_pp_row) (simp_all add: engine_inv_def)
  then show ?case
    using swept_moved [OF conjunct1 [OF confirm_one_effect [OF Sweep(4)]] Sweep(6)] Sweep(2) by simp
next
  case (FirstComment s w p)
  have "map_option core (get_pp i (maybe_schedule_first_comment w p (es_db s))) = map_option core (Some r)"
    unfolding get_pp_first_comment FirstComment(2) ..
  from moved_core [OF this] show ?case by simp
qed (simp_all add: frame_simps)

lemma moved_published: "moved r r' \<Longrightarrow> pp_status r = PUBLISHED \<Longrightarrow> core r' = core r"
  using no_edge_from_published by (auto simp: moved_def)

section \<open>Properties of every run\<close>

text \<open>
  C2. The engine refines the declared state machine: in every reachable state, whatever claims,
  answers, crashes and sweeps came before, the next step keeps each row and moves its status along
  an edge of \<open>VALID_TRANSITIONS\<close> or not at all, although no engine path calls \<open>transition_to\<close>.
\<close>

theorem engine_moves_along_edges:
  assumes "fresh_schedule d" and "rtranclp (engine_step True) (engine_start d) s"
    and "engine_step True s s'" and "get_pp i (es_db s) = Some r"
  shows "\<exists>r'. get_pp i (es_db s') = Some r' \<and>
    (pp_status r' = pp_status r \<or> edge (pp_status r) (pp_status r'))"
proof -
  have "engine_inv s" using inv_run [OF assms(2) inv_start [OF assms(1)]] .
  from step_row [OF assms(3) this assms(4)] show ?thesis by (auto simp: moved_def core_def)
qed

text \<open>
  C3. A published channel is final: from the moment a run has it published, no later step of the
  engine changes its status, its platform handle or its publication time.
\<close>

theorem published_is_final:
  assumes "fresh_schedule d" and "rtranclp (engine_step True) (engine_start d) s"
    and "rtranclp (engine_step True) s s'" and "get_pp i (es_db s) = Some r" "pp_status r = PUBLISHED"
  shows "\<exists>r'. get_pp i (es_db s') = Some r' \<and> pp_status r' = PUBLISHED \<and>
    pp_handle r' = pp_handle r \<and> pp_published_at r' = pp_published_at r"
proof -
  have inv: "engine_inv s" using inv_run [OF assms(2) inv_start [OF assms(1)]] .
  from assms(3) have "\<exists>r'. get_pp i (es_db s') = Some r' \<and> core r' = core r"
  proof (induction rule: rtranclp_induct)
    case base
    then show ?case using assms(4) by blast
  next
    case (step u v)
    then obtain r1 where r1: "get_pp i (es_db u) = Some r1" "core r1 = core r" by blast
    have "engine_inv u" using inv_run [OF step(1) inv] .
    from step_row [OF step(2) this r1(1)] obtain r2 where "get_pp i (es_db v) = Some r2" "moved r1 r2" by blast
    then show ?case using moved_published [of r1 r2] r1(2) assms(5) by (auto simp: core_def)
  qed
  then show ?thesis using assms(5) by (auto simp: core_def)
qed

lemma accepted_step:
  assumes "engine_step True s s'" and "engine_inv s" and "i \<in> set (es_accepted s)"
  shows "i \<in> set (es_accepted s') \<and> count_list (es_attempts s') i = count_list (es_attempts s) i"
  using assms
proof (induction rule: engine_step.induct)
  case (Claim ps po due s now)
  have "pp_id p \<noteq> i" if "p \<in> set ps" for p
    using claimable_row [of p po due "es_db s"] that Claim get_pp_row [of "es_db s" p]
    by (force simp: engine_inv_def accepted_ok_def)
  then have "count_list (map pp_id ps) i = 0" by (auto simp: count_list_0_iff)
  then show ?case using Claim by (simp add: begin_attempts_def)
next
  case (RetryClaim p s now q)
  then have "pp_id p \<noteq> i" using get_pp_row [of "es_db s" p] by (force simp: retry_due_def engine_inv_def accepted_ok_def)
  then show ?case using RetryClaim by (simp add: begin_attempts_def)
qed (simp_all add: end_attempt_def)

text \<open>
  C1. A success is final: once the engine has the platform's success for a channel it never begins another
  attempt for it and never counts a second success, however it goes on, and the channel is published, waiting for
  the platform's confirmation, or failed by the sweep. What the engine has not seen is outside the statement: a
  call the platform accepted but answered with a time-out is an unsuccessful attempt and is repeated.
\<close>

theorem success_is_never_repeated:
  assumes "fresh_schedule d" and "rtranclp (engine_step True) (engine_start d) s"
    and "rtranclp (engine_step True) s s'" and "i \<in> set (es_accepted s)"
  shows "count_list (es_attempts s') i = count_list (es_attempts s) i \<and> count_list (es_accepted s') i = 1 \<and>
    i \<notin> pp_id ` set (es_flight s') \<and>
    (\<nexists>r. get_pp i (es_db s') = Some r \<and> pp_status r \<notin> {PUBLISHING, PUBLISHED, FAILED})"
proof -
  have inv: "engine_inv s" using inv_run [OF assms(2) inv_start [OF assms(1)]] .
  from assms(3) have "i \<in> set (es_accepted s') \<and> count_list (es_attempts s') i = count_list (es_attempts s) i"
  proof (induction rule: rtranclp_induct)
    case (step u v)
    then show ?case using accepted_step [OF step(2) inv_run [OF step(1) inv]] by simp
  qed (simp add: assms(4))
  moreover have "engine_inv s'" using inv_run [OF assms(3) inv] .
  ultimately show ?thesis by (auto simp: engine_inv_def accepted_ok_def count_list_distinct)
qed

text \<open>
  A time-out after the platform has accepted looks like any other transient error: the channel is put back and the
  upload is made again.
\<close>

lemma timed_out_upload_is_repeated:
  assumes "ex_class e = OtherException" and "pp_retry_count p < MAX_RETRIES" and "get_pp (pp_id p) d \<noteq> None"
    and "settle_attempt now p a (Inl e) d = (res, d')"
  shows "\<exists>r. get_pp (pp_id p) d' = Some r \<and> pp_status r = SCHEDULED \<and> pp_retry_count r = Suc (pp_retry_count p)"
  using assms
  by (auto simp: settle_attempt_def Let_def attr_retryable_def is_provider_error_def refused_a_live_token_def
      is_credential_rejection_def schedule_retry_cases get_pp_save_pp frame_simps)

text \<open>
  C5. A channel is attempted at most four times: the first attempt and \<open>MAX_RETRIES\<close> more, in any
  run in which nobody schedules it anew.
\<close>

theorem attempts_bounded:
  assumes "fresh_schedule d" and "rtranclp (engine_step True) (engine_start d) s"
    and "get_pp i (es_db s) = Some r"
  shows "count_list (es_attempts s) i \<le> 4"
  using inv_run [OF assms(2) inv_start [OF assms(1)]] assms(3)
  by (auto simp: engine_inv_def row_ok_def attempts_of_def MAX_RETRIES_def)

section \<open>A sample run\<close>

text \<open>Two channels are claimed, the first is published; its account is the one of \<open>sample_account\<close>.\<close>

definition ok_result :: dispatch_result where
  "ok_result = \<lparr>dr_success = True, dr_handle = ''h1'', dr_response = JObj [], dr_async = False,
     dr_status_code = None, dr_error = [], dr_rate_remaining = None, dr_rate_resets = None\<rparr>"

definition run_rows :: "platform_post list" where
  "run_rows = claimable 7 (db_pps sample_db) sample_db"

definition run_claimed :: engine_state where
  "run_claimed = begin_attempts run_rows (claim 400 run_rows sample_db) (engine_start sample_db)"

definition run_published :: engine_state where
  "run_published = end_attempt (hd run_rows) True
     (snd (settle_attempt 500 (hd run_rows) sample_account (Inr ok_result) (es_db run_claimed))) run_claimed"

lemma run_rows_eq: "run_rows = db_pps sample_db"
  by (simp add: run_rows_def claimable_def on_hold_def children_def sample_defs)

lemma sample_fresh: "fresh_schedule sample_db"
  by (simp add: fresh_schedule_def row_ids_def sample_defs)

lemma run_claim_step: "engine_step patient (engine_start sample_db) run_claimed"
proof -
  have "engine_step patient (engine_start sample_db)
      (begin_attempts run_rows (claim 400 run_rows (es_db (engine_start sample_db))) (engine_start sample_db))"
    by (rule engine_step.Claim [of run_rows 7 "db_pps sample_db"])
      (simp_all add: run_rows_def engine_start_def claimable_def on_hold_def children_def sample_defs)
  then show ?thesis by (simp add: run_claimed_def engine_start_def)
qed

lemma run_settle:
  "settle_attempt 500 (hd run_rows) sample_account (Inr ok_result) d =
    (Published_Now (accepted_object 500 (hd run_rows) ok_result),
     snd (settle_attempt 500 (hd run_rows) sample_account (Inr ok_result) d))"
  by (simp add: settle_attempt_def Let_def ok_result_def)

lemma run_settle_step: "engine_step patient run_claimed run_published"
proof -
  have "hd run_rows \<in> set (es_flight run_claimed)"
    by (simp add: run_claimed_def begin_attempts_def run_rows_eq sample_defs)
  from engine_step.Settle [OF this run_settle, of patient] show ?thesis
    by (simp add: run_published_def)
qed

lemma run_reaches: "rtranclp (engine_step patient) (engine_start sample_db) run_published"
  using run_claim_step run_settle_step by (meson rtranclp.simps)

lemma sample_row_8: "get_pp 8 sample_db = Some (hd (db_pps sample_db))"
  by (simp add: get_pp_def tbl_get_def sample_defs)

lemma run_row_8:
  "get_pp 8 (es_db run_published) = Some (accepted_object 500 (hd run_rows) ok_result)"
proof -
  have "get_pp 8 (claim 400 run_rows sample_db) \<noteq> None"
    by (simp add: get_pp_claim sample_row_8)
  moreover have "pp_id (hd run_rows) = 8" by (simp add: run_rows_eq sample_defs)
  ultimately show ?thesis
    by (simp add: run_published_def end_attempt_def settle_attempt_def Let_def ok_result_def
        frame_simps get_pp_save_pp accepted_object_core run_claimed_def begin_attempts_def)
qed

theorem engine_moves_along_edges_witness:
  "\<exists>r'. get_pp 9 (es_db run_claimed) = Some r' \<and>
    (pp_status r' = SCHEDULED \<or> edge SCHEDULED (pp_status r'))"
proof -
  have "get_pp 9 (es_db (engine_start sample_db)) = Some (db_pps sample_db ! 1)"
    by (simp add: engine_start_def get_pp_def tbl_get_def sample_defs)
  from engine_moves_along_edges [OF sample_fresh rtranclp.rtrancl_refl run_claim_step this]
  show ?thesis by (simp add: sample_defs)
qed

theorem published_is_final_witness:
  "\<exists>r'. get_pp 8 (es_db (run_published\<lparr>es_flight := []\<rparr>)) = Some r' \<and> pp_status r' = PUBLISHED \<and>
    pp_handle r' = ''h1'' \<and> pp_published_at r' = Some 500"
proof -
  let ?r = "accepted_object 500 (hd run_rows) ok_result"
  have r: "pp_status ?r = PUBLISHED" "pp_handle ?r = ''h1''" "pp_published_at ?r = Some 500"
    by (simp_all add: accepted_object_def Let_def ok_result_def)
  have "es_flight run_published = [run_rows ! 1]"
    by (simp add: run_published_def end_attempt_def run_claimed_def begin_attempts_def engine_start_def
        run_rows_eq sample_defs)
  then have "engine_step True run_published (run_published\<lparr>es_flight := []\<rparr>)"
    using engine_step.Crash [of True run_published "run_rows ! 1"] by simp
  then have "rtranclp (engine_step True) run_published (run_published\<lparr>es_flight := []\<rparr>)" ..
  from published_is_final [OF sample_fresh run_reaches this run_row_8 r(1)] show ?thesis
    unfolding r .
qed

theorem success_is_never_repeated_witness:
  "es_accepted run_published = [8] \<and> count_list (es_attempts (run_published\<lparr>es_flight := []\<rparr>)) 8 = 1"
proof -
  have a: "es_accepted run_published = [8]" "count_list (es_attempts run_published) 8 = 1"
    by (simp_all add: run_published_def end_attempt_def run_claimed_def begin_attempts_def engine_start_def
        run_rows_eq sample_defs)
  have "es_flight run_published = [run_rows ! 1]"
    by (simp add: run_published_def end_attempt_def run_claimed_def begin_attempts_def engine_start_def
        run_rows_eq sample_defs)
  then have "engine_step True run_published (run_published\<lparr>es_flight := []\<rparr>)"
    using engine_step.Crash [of True run_published "run_rows ! 1"] by simp
  then have "rtranclp (engine_step True) run_published (run_published\<lparr>es_flight := []\<rparr>)" ..
  from success_is_never_repeated [OF sample_fresh run_reaches this, of 8] a show ?thesis by simp
qed

theorem attempts_bounded_witness:
  "count_list (es_attempts run_published) 8 \<le> 4 \<and> es_attempts run_published = [8, 9]"
  using attempts_bounded [OF sample_fresh run_reaches run_row_8]
  by (simp add: run_published_def end_attempt_def run_claimed_def begin_attempts_def engine_start_def
      run_rows_eq sample_defs)

definition race_row :: platform_post where
  "race_row = (hd run_rows)\<lparr>pp_status := PUBLISHING, pp_updated_at := 400\<rparr>"

definition race_swept :: engine_state where
  "race_swept = run_claimed\<lparr>es_db := fail_permanently (seconds 2000) race_row
     PUBLISH_INTERRUPTED_MESSAGE (es_db run_claimed)\<rparr>"

definition race_answered :: engine_state where
  "race_answered = end_attempt (hd run_rows) True
     (snd (settle_attempt 500 (hd run_rows) sample_account (Inr ok_result) (es_db race_swept))) race_swept"

lemma race_id: "pp_id race_row = 8" "pp_id (hd run_rows) = 8" "pp_handle race_row = []"
  by (simp_all add: race_row_def run_rows_eq sample_defs)

lemma race_claimed_row: "get_pp 8 (es_db run_claimed) = Some race_row"
  by (simp add: run_claimed_def begin_attempts_def get_pp_claim sample_row_8 run_rows_eq race_row_def)
    (simp add: sample_defs)

lemma race_swept_row: "\<exists>r. get_pp 8 (es_db race_swept) = Some r \<and> pp_status r = FAILED"
  by (simp add: race_swept_def get_pp_fail_permanently race_claimed_row in_publishing_def)
    (simp add: race_row_def)

lemma race_sweep_step: "engine_step False run_claimed race_swept"
proof -
  have row: "race_row \<in> set (db_pps (es_db run_claimed))" by (rule get_pp_in [OF race_claimed_row])
  have "pp_status race_row = PUBLISHING" "pp_updated_at race_row < dl_stale (sweep_deadlines sample_config (seconds 2000))"
    by (simp_all add: race_row_def sweep_deadlines_def stale_publishing_timeout_def or_default_def
        sample_config_def DEFAULT_STALE_PUBLISHING_TIMEOUT_def seconds_def)
  then show ?thesis unfolding race_swept_def
    by (intro engine_step.Sweep [OF row, where dl = "sweep_deadlines sample_config (seconds 2000)"
          and w = sample_outside and now = "seconds 2000" and b = True])
      (simp_all add: confirm_one_publish_def race_id)
qed

lemma race_answer_step: "engine_step False race_swept race_answered"
proof -
  have "hd run_rows \<in> set (es_flight race_swept)"
    by (simp add: race_swept_def run_claimed_def begin_attempts_def run_rows_eq sample_defs)
  from engine_step.Settle [OF this run_settle, of False] show ?thesis by (simp add: race_answered_def)
qed

lemma race_answered_row: "\<exists>r. get_pp 8 (es_db race_answered) = Some r \<and> pp_status r = PUBLISHED"
  using race_swept_row
  by (auto simp: race_answered_def end_attempt_def settle_attempt_def Let_def ok_result_def frame_simps
      get_pp_save_pp accepted_object_def race_id)

text \<open>
  The edges depend on the sweep and the publisher sharing one worker. Run in two processes, as
  the \<open>run_publisher\<close> command beside the task worker, a sweep can fail a row whose upload is still
  going; the answer then overwrites the failure with a full save, an edge the state machine does
  not have, after the author was told that publishing was interrupted.
\<close>

theorem two_workers_leave_the_machine:
  "\<exists>s s' r r'. rtranclp (engine_step False) (engine_start sample_db) s \<and> engine_step False s s' \<and>
     get_pp 8 (es_db s) = Some r \<and> pp_status r = FAILED \<and>
     get_pp 8 (es_db s') = Some r' \<and> pp_status r' = PUBLISHED \<and> \<not> edge FAILED PUBLISHED"
proof -
  have "rtranclp (engine_step False) (engine_start sample_db) race_swept"
    using run_claim_step race_sweep_step by (meson rtranclp.simps)
  moreover have "\<not> edge FAILED PUBLISHED" by (simp add: edge_iff)
  ultimately show ?thesis
    using race_answer_step race_swept_row race_answered_row by blast
qed

end
