(* ===== verification/Publisher_Effects.thy ===== *)
theory Publisher_Effects
  imports Publisher_Safety
begin

text \<open>
  What one attempt, one poll and one sweep do: a post the platform can only refuse is failed
  without a call, a failing channel stops after its retries and waits between them, a held post
  is left alone by the whole cycle, and the sweep settles what is overdue without publishing.
\<close>

section \<open>The call that is made\<close>

lemma prepare_content:
  assumes "prepare_dispatch w now po p a c d = (Inr (pv, token, content), a1, c1, d1)"
  obtains g a2 where "gathered_ok (ps_needs_local_media (pv_spec pv)) g"
    "build_content w po p a2 g d1 = Inr content"
proof -
  let ?b = "publish_blocker a (usable_media_types (map snd (attachments (po_id po) d))) (pp_extra p)"
  have b: "?b = []" using assms by (auto simp: prepare_dispatch_def Let_def split: if_splits)
  obtain pv' t' a' d' where t: "provider_and_access_token w now a d = Inr (pv', t', a', d')"
    using assms b by (auto simp: prepare_dispatch_def Let_def split: sum.splits)
  let ?atts = "if spec_video_only (pv_spec pv')
    then filter (\<lambda>(pm, x). ma_media_type x = ''video'') (attachments (po_id po) d) else attachments (po_id po) d"
  obtain res c' where g: "gather w (ps_needs_local_media (pv_spec pv')) (map snd ?atts) no_media c = (res, c')"
    by (cases "gather w (ps_needs_local_media (pv_spec pv')) (map snd ?atts) no_media c")
  show thesis
  proof (cases res)
    case (Inl e)
    then show thesis using assms b t g by (simp add: prepare_dispatch_def Let_def)
  next
    case (Inr g')
    have bc: "build_content w po p a' g' d' = Inr content" and "pv' = pv" and "d' = d1"
      using assms b t g Inr by (auto simp: prepare_dispatch_def Let_def split: sum.splits)
    then show thesis using that gather_ok [OF g [unfolded Inr] no_media_ok] by simp
  qed
qed

text \<open>
  C29. Whatever the composer stored, the call a provider receives is well formed: its urls and media
  types run in parallel, local files are there for exactly the providers that read them, a video
  or Reel endpoint is only chosen when the first attachment is a video, and a Reel has no second
  attachment.
\<close>

theorem dispatched_content_is_well_formed:
  assumes "prepare_dispatch w now po p a c d = (Inr (pv, token, content), a1, c1, d1)"
  shows "length (pb_urls content) = length (pb_types content) \<and>
    length (pb_files content) = (if ps_needs_local_media (pv_spec pv) then length (pb_urls content) else 0) \<and>
    (pb_post_type content \<in> {PT_VIDEO, PT_REEL} \<longrightarrow> pb_types content \<noteq> [] \<and> hd (pb_types content) = ''video'') \<and>
    (pb_post_type content = PT_REEL \<longrightarrow> length (pb_urls content) = 1)"
proof -
  obtain g a2 where g: "gathered_ok (ps_needs_local_media (pv_spec pv)) g"
    and b: "build_content w po p a2 g d1 = Inr content"
    by (rule prepare_content [OF assms])
  note f = build_content_fields [OF b]
  note v = resolve_post_type_video [OF conjunct2 [OF conjunct2 [OF conjunct2 [OF f]]]]
  have "ga_first g = Some ''video'' \<Longrightarrow> ga_types g \<noteq> [] \<and> hd (ga_types g) = ''video''"
    using g by (auto simp: gathered_ok_def split: list.splits)
  moreover have "ga_types g \<noteq> [] \<Longrightarrow> 0 < ga_usable g" using g by (cases "ga_types g") (auto simp: gathered_ok_def)
  ultimately show ?thesis using f g v by (auto simp: gathered_ok_def)
qed

definition sample_text_post :: post where
  "sample_text_post = sample_post\<lparr>po_tags := [JStr ''news'']\<rparr>"

lemma sample_creds_bluesky: "derive_is_configured ''bluesky'' x = False"
  by (simp add: derive_is_configured_def REQUIRED_CREDENTIAL_KEYS_def META_KEYS_def CLIENT_KEYS_def)

lemma sample_provider:
  "provider_and_access_token sample_outside now sample_account d =
    Inr (\<lparr>pv_spec = bluesky_provider, pv_api = sample_api\<rparr>, ''t'', sample_account, d)"
  by (simp add: provider_and_access_token_def Let_def sample_account_def get_provider_def
      PROVIDER_REGISTRY_def token_expires_within_def sample_outside_def)

lemma sample_prepare:
  "\<exists>content. prepare_dispatch sample_outside 0 sample_post (hd (db_pps sample_db)) sample_account empty_cache sample_db =
     (Inr (\<lparr>pv_spec = bluesky_provider, pv_api = sample_api\<rparr>, ''t'', content), sample_account, empty_cache, sample_db)"
proof -
  have a: "attachments (po_id sample_post) sample_db = []"
    by (simp add: attachments_def sample_defs)
  have e: "pp_extra (hd (db_pps sample_db)) = []" by (simp add: sample_defs)
  have b: "publish_blocker sample_account (usable_media_types []) [] = []"
    by (simp add: publish_blocker_def Let_def media_blocker_def is_video_only_def requires_media_def
        sample_account_def PROVIDER_REGISTRY_def provider_defs spec_video_only_def VIDEO_POST_TYPES_def
        usable_media_types_def)
  have v: "\<not> spec_video_only bluesky_provider"
    by (simp add: spec_video_only_def provider_defs VIDEO_POST_TYPES_def)
  have "\<exists>content. build_content sample_outside sample_post (hd (db_pps sample_db)) sample_account no_media sample_db = Inr content"
    by (simp add: build_content_def Let_def inject_ids_def sample_account_def e dict_merge_def
        resolve_extra_assets_def dict_get_def dict_pop_def resolve_post_type_def)
  then show ?thesis
    by (auto simp: prepare_dispatch_def Let_def a e b sample_provider v)
qed

theorem dispatched_content_is_well_formed_witness:
  "\<exists>pv token content. fst (prepare_dispatch sample_outside 0 sample_post (hd (db_pps sample_db)) sample_account
      empty_cache sample_db) = Inr (pv, token, content) \<and> length (pb_urls content) = length (pb_types content)"
proof -
  from sample_prepare obtain content where c: "prepare_dispatch sample_outside 0 sample_post (hd (db_pps sample_db))
      sample_account empty_cache sample_db =
     (Inr (\<lparr>pv_spec = bluesky_provider, pv_api = sample_api\<rparr>, ''t'', content), sample_account, empty_cache, sample_db)"
    by blast
  have "length (pb_urls content) = length (pb_types content)"
    using dispatched_content_is_well_formed [OF c] by blast
  then show ?thesis unfolding c by auto
qed

lemma dict_get_merge:
  assumes "distinct (map fst e)"
  shows "dict_get k (dict_merge d e) = (case map_of e k of Some v \<Rightarrow> v | None \<Rightarrow> dict_get k d)"
proof -
  have "map_of (rev e) = map_of e" using assms by (simp add: map_of_inject_set rev_map [symmetric])
  then show ?thesis by (simp add: dict_get_def map_of_dict_merge map_add_def split: option.split)
qed

lemma dict_get_inject:
  assumes "k \<notin> {''page_id'', ''ig_user_id'', ''author''}"
  shows "dict_get k (inject_ids a extra) = dict_get k extra"
  using assms by (simp add: inject_ids_def Let_def dict_get_set)

lemma resolve_cover:
  assumes "json_truthy (dict_get ''cover_image_asset_id'' x)"
    and "\<not> json_truthy (dict_get ''thumbnail_asset_id'' x)"
  shows "\<exists>e. resolve_extra_assets w d x = Inl e"
  using assms by (simp add: resolve_extra_assets_def Let_def dict_get_pop)

lemma build_content_cover:
  assumes "distinct (map fst (pp_extra p))" "json_truthy (dict_get ''cover_image_asset_id'' (pp_extra p))"
    and "\<not> json_truthy (dict_get ''thumbnail_asset_id'' (pp_extra p))"
  shows "\<exists>e. build_content w po p a g d = Inl e"
proof -
  let ?m = "dict_merge [(''tags'', JList (po_tags po))] (pp_extra p)"
  let ?x = "dict_pop ''link_url'' (inject_ids a ?m)"
  have get: "dict_get k ?x = dict_get k (pp_extra p)"
    if "k \<in> {''cover_image_asset_id'', ''thumbnail_asset_id''}" for k
  proof -
    have "dict_get k ?x = dict_get k ?m" using that by (auto simp: dict_get_pop dict_get_inject)
    also have "\<dots> = dict_get k (pp_extra p)"
      unfolding dict_get_merge [OF assms(1)] using that by (auto simp: dict_get_def split: option.split)
    finally show ?thesis .
  qed
  have "\<exists>e. resolve_extra_assets w d ?x = Inl e"
    using assms(2,3) get [of "''cover_image_asset_id''"] get [of "''thumbnail_asset_id''"]
    by (intro resolve_cover) simp_all
  then show ?thesis by (auto simp: build_content_def Let_def)
qed

text \<open>
  A pin with a cover image and no thumbnail never reaches its provider: the name \<open>MediaAsset\<close>
  is only bound by the thumbnail branch, so the cover branch raises whatever the deployment, the
  account and the file store are.
\<close>

theorem cover_without_thumbnail_never_publishes:
  assumes "distinct (map fst (pp_extra p))"
    and "json_truthy (dict_get ''cover_image_asset_id'' (pp_extra p))"
    and "\<not> json_truthy (dict_get ''thumbnail_asset_id'' (pp_extra p))"
  shows "\<nexists>r. fst (dispatch_to_provider w now po p a c d) = Inr r"
proof -
  obtain res a1 c1 d1 where p: "prepare_dispatch w now po p a c d = (res, a1, c1, d1)"
    by (cases "prepare_dispatch w now po p a c d")
  show ?thesis
  proof (cases res)
    case (Inl e)
    then show ?thesis using p by (simp add: dispatch_to_provider_def)
  next
    case (Inr x)
    obtain pv token content where "x = (pv, token, content)" by (cases x)
    then have "prepare_dispatch w now po p a c d = (Inr (pv, token, content), a1, c1, d1)"
      using p Inr by simp
    then obtain g a2 where "build_content w po p a2 g d1 = Inr content" by (rule prepare_content)
    then show ?thesis using build_content_cover [OF assms, of w po a2 g d1] by simp
  qed
qed

definition cover_row :: platform_post where
  "cover_row = (new_platform_post 8 7 5 0)\<lparr>pp_extra := [(''board_id'', JStr ''b''), (''cover_image_asset_id'', JNum 4)]\<rparr>"

theorem cover_without_thumbnail_never_publishes_witness:
  "\<nexists>r. fst (dispatch_to_provider sample_outside 0 sample_post cover_row sample_account empty_cache sample_db) = Inr r"
  by (rule cover_without_thumbnail_never_publishes)
    (simp_all add: cover_row_def dict_get_def new_platform_post_def)

text \<open>
  A post its platform can only refuse is stopped before anything is sent: the attempt fails the
  channel at once and for good, with the sentence that says what is missing, and does the same
  whatever the provider, the file store and the token endpoint would answer.
\<close>

theorem blocked_post_fails_without_a_call:
  assumes blocked: "publish_blocker a (usable_media_types (map snd (attachments (po_id po) d))) (pp_extra p) = why"
      "why \<noteq> []"
    and "rate_state_of a d = None" and row: "get_pp (pp_id p) d = Some r" "pp_status r = PUBLISHING"
  shows "\<exists>d' r'. (\<forall>w c. publish_platform_post w t0 t1 p a po c d = (Failed_Attempt, c, d')) \<and>
    get_pp (pp_id p) d' = Some r' \<and> pp_status r' = FAILED \<and> pp_retry_count r' = pp_retry_count r \<and>
    (is_user_safe (py_strip why) \<longrightarrow> pp_publish_error r' = take 2000 (py_strip why))"
proof -
  let ?e = "publish_error_exn why (platform_display (sa_platform a))"
  let ?l = "\<lparr>pl_pp = pp_id p, pl_attempt = Suc (pp_retry_count p), pl_status_code = None, pl_error = ex_msg ?e\<rparr>"
  let ?d = "fail_permanently t1 p (friendly_publish_error ?e t1) (add_log ?l d)"
  have e: "\<not> attr_retryable ?e" by (simp add: publish_error_exn_def attr_retryable_def is_provider_error_def)
  have "dispatch_to_provider w t0 po p a c d = (Inl ?e, a, c, d)" for w c
    using blocked by (simp add: dispatch_to_provider_def prepare_dispatch_def Let_def)
  moreover have "settle_attempt t1 p a (Inl ?e) d = (Failed_Attempt, ?d)"
    using e by (simp add: settle_attempt_def Let_def)
  ultimately have run: "publish_platform_post w t0 t1 p a po c d = (Failed_Attempt, c, ?d)" for w c
    using assms(3) by (simp add: publish_platform_post_def)
  have msg: "friendly_publish_error ?e t1 = py_strip why" if "is_user_safe (py_strip why)"
    using that unfolding friendly_publish_error_def friendly_def Let_def publish_error_exn_def by simp
  let ?r = "r\<lparr>pp_status := FAILED, pp_publish_error := take 2000
      (py_or (friendly_publish_error ?e t1) PUBLISH_GENERIC_MESSAGE), pp_updated_at := t1\<rparr>"
  have "get_pp (pp_id p) ?d = Some ?r"
    using row get_pp_id [OF row(1)] by (simp add: get_pp_fail_permanently frame_simps in_publishing_def)
  moreover have "pp_publish_error ?r = take 2000 (py_strip why)" if "is_user_safe (py_strip why)"
    using msg [OF that] that by (simp add: py_or_def is_user_safe_def)
  ultimately show ?thesis using run by (intro exI [of _ ?d] exI [of _ ?r]) simp
qed

definition video_account :: social_account where
  "video_account = sample_account\<lparr>sa_platform := ''youtube''\<rparr>"

definition claimed_db :: db where
  "claimed_db = sample_db\<lparr>db_pps := [(new_platform_post 8 7 5 0)\<lparr>pp_status := PUBLISHING\<rparr>]\<rparr>"

theorem blocked_post_fails_without_a_call_witness:
  "\<exists>d' r'. publish_platform_post sample_outside 1 2 (hd (db_pps claimed_db)) video_account sample_post empty_cache claimed_db =
      (Failed_Attempt, empty_cache, d') \<and> get_pp 8 d' = Some r' \<and> pp_status r' = FAILED"
proof -
  let ?p = "hd (db_pps claimed_db)"
  have b: "publish_blocker video_account (usable_media_types (map snd (attachments (po_id sample_post) claimed_db))) (pp_extra ?p) =
      ''YouTube can only publish videos. Add a video to this post before scheduling it.''"
    by (simp add: attachments_def publish_blocker_def Let_def media_blocker_def is_video_only_def
        video_account_def sample_account_def PROVIDER_REGISTRY_def provider_defs spec_video_only_def
        VIDEO_POST_TYPES_def usable_media_types_def platform_display_def claimed_db_def sample_defs)
  have ne: "''YouTube can only publish videos. Add a video to this post before scheduling it.'' \<noteq> []" by simp
  have rs: "rate_state_of video_account claimed_db = None"
    by (simp add: rate_state_of_def tbl_first_def claimed_db_def sample_defs)
  have p: "get_pp (pp_id ?p) claimed_db = Some ?p" "pp_status ?p = PUBLISHING" "pp_id ?p = 8"
    by (simp_all add: get_pp_def tbl_get_def claimed_db_def new_platform_post_def)
  from blocked_post_fails_without_a_call [OF b ne rs p(1,2), of 1 2] show ?thesis
    unfolding p(3) by blast
qed

section \<open>The retry ladder\<close>

lemma next_retry_after: "now < next_retry now n at"
proof (cases at)
  case (At t)
  then show ?thesis by (simp add: next_retry_def less_max_iff_disj)
next
  case NoDeadline
  consider "n = 0" | "n = 1" | "n \<ge> 2" by linarith
  then show ?thesis using NoDeadline by cases (simp_all add: next_retry_def RETRY_BACKOFF_def)
next
  case Malformed
  consider "n = 0" | "n = 1" | "n \<ge> 2" by linarith
  then show ?thesis using Malformed by cases (simp_all add: next_retry_def RETRY_BACKOFF_def)
qed

text \<open>What a failure that is the last one leaves to read.\<close>

definition final_text :: "exn \<Rightarrow> instant \<Rightarrow> string" where
  "final_text e now = take 2000 (py_or (exhausted_publish_message (friendly_publish_error e now)) PUBLISH_GENERIC_MESSAGE)"

lemma final_text_prose:
  assumes "ex_class e = PublishError" "is_user_safe (py_strip (ex_msg e))"
  shows "final_text e now \<in> {py_strip (ex_msg e), PUBLISH_EXHAUSTED_MESSAGE, PUBLISH_QUOTA_EXHAUSTED_MESSAGE}"
    and "final_text e now \<notin> set SUPERSEDED_WHEN_EXHAUSTED"
proof -
  let ?m = "exhausted_publish_message (py_strip (ex_msg e))"
  have "friendly_publish_error e now = py_strip (ex_msg e)"
    using assms by (simp add: friendly_publish_error_def friendly_def Let_def)
  moreover have m: "?m \<in> {py_strip (ex_msg e), PUBLISH_EXHAUSTED_MESSAGE, PUBLISH_QUOTA_EXHAUSTED_MESSAGE}"
    by (simp add: exhausted_publish_message_def)
  moreover have "length ?m \<le> 2000"
    using m assms(2) by (auto simp: is_user_safe_def MAX_PASSTHROUGH_LENGTH_def PUBLISH_EXHAUSTED_MESSAGE_def
        PUBLISH_QUOTA_EXHAUSTED_MESSAGE_def)
  ultimately have "final_text e now = ?m" using exhausted_outcome by (simp add: final_text_def py_or_def)
  with m exhausted_outcome [of "py_strip (ex_msg e)"] show
    "final_text e now \<in> {py_strip (ex_msg e), PUBLISH_EXHAUSTED_MESSAGE, PUBLISH_QUOTA_EXHAUSTED_MESSAGE}"
    "final_text e now \<notin> set SUPERSEDED_WHEN_EXHAUSTED" by simp_all
qed

lemma superseded_copy:
  "exhausted_publish_message PUBLISH_TEMPORARY_MESSAGE = PUBLISH_EXHAUSTED_MESSAGE"
  "exhausted_publish_message PUBLISH_RATE_LIMIT_MESSAGE = PUBLISH_EXHAUSTED_MESSAGE"
  "exhausted_publish_message PUBLISH_GENERIC_MESSAGE = PUBLISH_EXHAUSTED_MESSAGE"
  "exhausted_publish_message PUBLISH_RECONNECT_MESSAGE = PUBLISH_EXHAUSTED_MESSAGE"
  by (simp_all add: exhausted_publish_message_def SUPERSEDED_WHEN_EXHAUSTED_def)

lemma rejected_copy: "exhausted_publish_message PUBLISH_REJECTED_MESSAGE = PUBLISH_REJECTED_MESSAGE"
  by (simp add: exhausted_publish_message_def SUPERSEDED_WHEN_EXHAUSTED_def publish_copy_defs
      PUBLISH_REJECTED_MESSAGE_def py_startswith_def)

lemma quota_copy:
  "exhausted_publish_message (PUBLISH_QUOTA_EXHAUSTED_MESSAGE @ t) = PUBLISH_QUOTA_EXHAUSTED_MESSAGE"
proof -
  have "PUBLISH_QUOTA_EXHAUSTED_MESSAGE @ t \<notin> set SUPERSEDED_WHEN_EXHAUSTED"
    by (simp add: SUPERSEDED_WHEN_EXHAUSTED_def publish_copy_defs)
  then show ?thesis using exhausted_not_superseded by (simp add: exhausted_publish_message_def)
qed

lemma final_text_copy:
  assumes "\<not> (ex_class e = PublishError \<and> is_user_safe (py_strip (ex_msg e)))"
  shows "final_text e now = (case classify e now of QUOTA_EXHAUSTED \<Rightarrow> PUBLISH_QUOTA_EXHAUSTED_MESSAGE
     | REJECTED_SHAPE \<Rightarrow> PUBLISH_REJECTED_MESSAGE | _ \<Rightarrow> PUBLISH_EXHAUSTED_MESSAGE)"
proof -
  have "exhausted_publish_message (friendly_publish_error e now) =
      (case classify e now of QUOTA_EXHAUSTED \<Rightarrow> PUBLISH_QUOTA_EXHAUSTED_MESSAGE
       | REJECTED_SHAPE \<Rightarrow> PUBLISH_REJECTED_MESSAGE | _ \<Rightarrow> PUBLISH_EXHAUSTED_MESSAGE)"
    unfolding friendly_publish_error_def friendly_def Let_def if_not_P [OF assms]
    by (cases "classify e now") (simp_all add: copy_get_def superseded_copy rejected_copy quota_copy)
  moreover have "length x \<le> 2000 \<and> x \<noteq> []"
    if "x \<in> {PUBLISH_QUOTA_EXHAUSTED_MESSAGE, PUBLISH_REJECTED_MESSAGE, PUBLISH_EXHAUSTED_MESSAGE}" for x
    using that by (auto simp: PUBLISH_QUOTA_EXHAUSTED_MESSAGE_def PUBLISH_REJECTED_MESSAGE_def PUBLISH_EXHAUSTED_MESSAGE_def)
  ultimately show ?thesis unfolding final_text_def by (cases "classify e now") (simp_all add: py_or_def)
qed

text \<open>One failure after another on the same channel, each with its own time and exception.\<close>

fun failures :: "social_account \<Rightarrow> nat \<Rightarrow> (instant \<times> exn) list \<Rightarrow> db \<Rightarrow> db" where
  "failures a i [] d = d"
| "failures a i ((now, e) # rest) d =
    (case get_pp i d of
       None \<Rightarrow> d
     | Some p \<Rightarrow> failures a i rest (snd (settle_attempt now p a (Inl e) (claim now [p] d))))"

definition plain_failure :: "exn \<Rightarrow> bool" where
  \<comment> \<open>a retryable failure that says nothing about the account's credentials\<close>
  "plain_failure e \<longleftrightarrow> attr_retryable e \<and> \<not> is_credential_rejection e"

lemma plain_failure_settles:
  assumes "plain_failure e" "get_pp i d = Some p"
  shows "\<exists>r. get_pp i (snd (settle_attempt now p a (Inl e) (claim now [p] d))) = Some r \<and>
    (if pp_retry_count p \<ge> MAX_RETRIES
     then pp_status r = FAILED \<and> pp_retry_count r = pp_retry_count p \<and>
       pp_publish_error r = final_text e now
     else pp_status r = SCHEDULED \<and> pp_retry_count r = Suc (pp_retry_count p) \<and>
       pp_next_retry_at r = Some (next_retry now (pp_retry_count p) (attr_resets e)))"
proof -
  have i: "pp_id p = i" by (rule get_pp_id [OF assms(2)])
  have n: "\<not> refused_a_live_token now a e x" for x
    using assms(1) by (simp add: plain_failure_def refused_a_live_token_def)
  show ?thesis
    using assms i n by (simp add: plain_failure_def settle_attempt_def Let_def schedule_retry_cases
        get_pp_fail_permanently get_pp_save_pp frame_simps get_pp_claim in_publishing_def final_text_def)
qed

lemma failures_row:
  assumes "list_all (\<lambda>(now, e). plain_failure e) fs" "get_pp i d = Some p" "pp_status p = SCHEDULED"
    and "pp_retry_count p + length fs \<le> Suc MAX_RETRIES" "pp_retry_count p \<le> MAX_RETRIES"
  shows "\<exists>r. get_pp i (failures a i fs d) = Some r \<and>
    (if pp_retry_count p + length fs = Suc MAX_RETRIES
     then pp_status r = FAILED \<and> pp_publish_error r = final_text (snd (last fs)) (fst (last fs))
     else pp_status r = SCHEDULED \<and> pp_retry_count r = pp_retry_count p + length fs \<and>
       (fs \<noteq> [] \<longrightarrow> (\<exists>t > fst (last fs). pp_next_retry_at r = Some t)))"
  using assms
proof (induction fs arbitrary: d p)
  case Nil
  then show ?case by simp
next
  case (Cons f fs)
  obtain now e where f: "f = (now, e)" by (cases f)
  have e: "plain_failure e" and fs: "list_all (\<lambda>(now, e). plain_failure e) fs"
    using Cons.prems(1) f by simp_all
  let ?d = "snd (settle_attempt now p a (Inl e) (claim now [p] d))"
  from plain_failure_settles [OF e Cons.prems(2), of now a] obtain r where r: "get_pp i ?d = Some r"
    and cases: "if pp_retry_count p \<ge> MAX_RETRIES
     then pp_status r = FAILED \<and> pp_retry_count r = pp_retry_count p \<and>
       pp_publish_error r = final_text e now
     else pp_status r = SCHEDULED \<and> pp_retry_count r = Suc (pp_retry_count p) \<and>
       pp_next_retry_at r = Some (next_retry now (pp_retry_count p) (attr_resets e))" by blast
  have step: "failures a i (f # fs) d = failures a i fs ?d" using f Cons.prems(2) by simp
  show ?case
  proof (cases "pp_retry_count p \<ge> MAX_RETRIES")
    case True
    then have "fs = []" using Cons.prems(4) by (cases fs) simp_all
    then show ?thesis using True cases r step f Cons.prems(4,5) by auto
  next
    case False
    then have s: "pp_status r = SCHEDULED" "pp_retry_count r = Suc (pp_retry_count p)"
      and t: "pp_next_retry_at r = Some (next_retry now (pp_retry_count p) (attr_resets e))"
      using cases by simp_all
    show ?thesis
    proof (cases "fs = []")
      case True
      then show ?thesis using False s t r step f next_retry_after by simp
    next
      case more: False
      have eq: "pp_retry_count r + length fs = pp_retry_count p + length (f # fs)"
        "last fs = last (f # fs)" "(fs \<noteq> []) = (f # fs \<noteq> [])" using s more by simp_all
      have "pp_retry_count r + length fs \<le> Suc MAX_RETRIES" "pp_retry_count r \<le> MAX_RETRIES"
        using Cons.prems(4) False s by simp_all
      from Cons.IH [OF fs r s(1) this] show ?thesis unfolding step eq .
    qed
  qed
qed

text \<open>
  C6. A channel that keeps failing stops: after its fourth failure in a row it is failed, and what it shows is the
  fixed copy for the last failure without any promise to retry or to resume - that the daily limit is used up, that
  the platform rejected the post, or that we stopped retrying; only a \<open>PublishError\<close> in plain prose keeps its own
  words. After fewer failures it is scheduled again, with the count of its failures, and its next attempt lies
  ahead of the last one.
\<close>

theorem failing_channel_stops_after_four:
  assumes "list_all (\<lambda>(now, e). plain_failure e) fs" and "get_pp i d = Some p"
    and "pp_status p = SCHEDULED" "pp_retry_count p = 0" and "0 < length fs" "length fs \<le> 4"
    and "last fs = (now, e)"
  shows "\<exists>r. get_pp i (failures a i fs d) = Some r \<and>
    (if length fs = 4 then pp_status r = FAILED \<and>
       (if ex_class e = PublishError \<and> is_user_safe (py_strip (ex_msg e))
        then pp_publish_error r \<in> {py_strip (ex_msg e), PUBLISH_EXHAUSTED_MESSAGE, PUBLISH_QUOTA_EXHAUSTED_MESSAGE} \<and>
          pp_publish_error r \<notin> {PUBLISH_TEMPORARY_MESSAGE, PUBLISH_RATE_LIMIT_MESSAGE}
        else pp_publish_error r = (case classify e now of QUOTA_EXHAUSTED \<Rightarrow> PUBLISH_QUOTA_EXHAUSTED_MESSAGE
          | REJECTED_SHAPE \<Rightarrow> PUBLISH_REJECTED_MESSAGE | _ \<Rightarrow> PUBLISH_EXHAUSTED_MESSAGE))
     else pp_status r = SCHEDULED \<and> pp_retry_count r = length fs \<and>
       (\<exists>t > now. pp_next_retry_at r = Some t))"
proof -
  have "pp_retry_count p + length fs \<le> Suc MAX_RETRIES" "pp_retry_count p \<le> MAX_RETRIES"
    using assms(4,6) by (simp_all add: MAX_RETRIES_def)
  from failures_row [OF assms(1,2,3) this, of a] obtain r where r: "get_pp i (failures a i fs d) = Some r"
    and "if pp_retry_count p + length fs = Suc MAX_RETRIES
     then pp_status r = FAILED \<and> pp_publish_error r = final_text (snd (last fs)) (fst (last fs))
     else pp_status r = SCHEDULED \<and> pp_retry_count r = pp_retry_count p + length fs \<and>
       (fs \<noteq> [] \<longrightarrow> (\<exists>t > fst (last fs). pp_next_retry_at r = Some t))" by blast
  then have c: "if length fs = 4
     then pp_status r = FAILED \<and> pp_publish_error r = final_text e now
     else pp_status r = SCHEDULED \<and> pp_retry_count r = length fs \<and> (\<exists>t > now. pp_next_retry_at r = Some t)"
    using assms(4,5,7) by (simp add: MAX_RETRIES_def split: if_splits)
  show ?thesis
  proof (cases "length fs = 4")
    case True
    then have f: "pp_status r = FAILED" "pp_publish_error r = final_text e now" using c by simp_all
    show ?thesis
    proof (cases "ex_class e = PublishError \<and> is_user_safe (py_strip (ex_msg e))")
      case prose: True
      then show ?thesis using r f True final_text_prose [of e now] by (simp add: SUPERSEDED_WHEN_EXHAUSTED_def)
    next
      case False
      from final_text_copy [OF this, of now] show ?thesis using r f True unfolding if_not_P [OF False] by simp
    qed
  qed (use r c in simp)
qed

definition timeout_exn :: exn where
  "timeout_exn = other_exn ''timed out''"

theorem failing_channel_stops_after_four_witness:
  "\<exists>r. get_pp 8 (failures sample_account 8
      [(400, timeout_exn), (500, timeout_exn), (600, timeout_exn), (700, timeout_exn)] sample_db) = Some r \<and>
    pp_status r = FAILED \<and> pp_publish_error r = PUBLISH_EXHAUSTED_MESSAGE"
proof -
  let ?fs = "[(400 :: instant, timeout_exn), (500, timeout_exn), (600, timeout_exn), (700, timeout_exn)]"
  have e: "plain_failure timeout_exn" "ex_class timeout_exn \<noteq> PublishError" "classify timeout_exn 700 = UNKNOWN"
    by (simp_all add: plain_failure_def timeout_exn_def other_exn_def attr_retryable_def is_provider_error_def
        is_credential_rejection_def classify_def is_rate_limit_def)
  then have all: "list_all (\<lambda>(now, e). plain_failure e) ?fs" by simp
  have row: "pp_status (hd (db_pps sample_db)) = SCHEDULED" "pp_retry_count (hd (db_pps sample_db)) = 0"
    by (simp_all add: sample_defs)
  from failing_channel_stops_after_four [OF all sample_row_8 row, of 700 timeout_exn sample_account] e(2,3)
  show ?thesis by simp
qed

end
