(* ===== verification/Publisher_Cycle.thy ===== *)
theory Publisher_Cycle
  imports Publisher_Effects
begin

text \<open>
  The poll and the sweep as wholes: a post with a channel on hold goes through a poll untouched,
  the sweep settles every overdue channel it can ask about and never publishes, and the two
  places where the engine acts on stale knowledge.
\<close>

section \<open>A row the engine does not work on\<close>

definition untouched :: "nat \<Rightarrow> db \<Rightarrow> db \<Rightarrow> bool" where
  "untouched i d d' \<longleftrightarrow> get_pp i d' = get_pp i d \<and> row_ids d' = row_ids d"

lemma untouched_refl [simp]: "untouched i d d"
  by (simp add: untouched_def)

lemma untouched_trans: "untouched i d d1 \<Longrightarrow> untouched i d1 d2 \<Longrightarrow> untouched i d d2"
  by (simp add: untouched_def)

lemma dispatch_db:
  assumes "dispatch_to_provider w now po p a c d = (out, a1, c1, d1)"
  shows "d1 = d \<or> (\<exists>b. d1 = save_tokens b d)"
proof -
  have t: "x = d \<or> (\<exists>b. x = save_tokens b d)"
    if "provider_and_access_token w now a d = Inr (pv, token, a', x)" for pv token a' x
    using that by (auto simp: provider_and_access_token_def Let_def split: sum.splits if_splits)
  obtain res a2 c2 d2 where p: "prepare_dispatch w now po p a c d = (res, a2, c2, d2)"
    by (cases "prepare_dispatch w now po p a c d")
  then have "d2 = d \<or> (\<exists>b. d2 = save_tokens b d)"
    by (auto simp: prepare_dispatch_def Let_def dest!: t split: if_splits sum.splits prod.splits)
  moreover have "d1 = d2" using assms p by (auto simp: dispatch_to_provider_def split: sum.splits prod.splits)
  ultimately show ?thesis by simp
qed

lemma settle_untouched:
  assumes "settle_attempt now p a outcome d = (res, d')" "i \<noteq> pp_id p"
  shows "untouched i d d'"
proof (cases "res = Failed_Attempt")
  case True
  then have "ends_as p now d d'" "row_ids d' = row_ids d"
    using settle_attempt_failed assms(1) by blast+
  then show ?thesis using ends_other assms(2) by (simp add: untouched_def)
next
  case False
  then show ?thesis
    using settle_attempt_accepted [OF assms(1)] assms(2) by (auto simp: untouched_def get_pp_save_pp)
qed

lemma limited_untouched: "i \<noteq> pp_id p \<Longrightarrow> untouched i d (schedule_retry now p m at d)"
  using ends_other [OF retry_ends_as [of d d p now m at]] by (simp add: untouched_def)

lemma publish_untouched:
  assumes "publish_platform_post w t0 t1 p a po c d = (res, c', d')" "i \<noteq> pp_id p"
  shows "untouched i d d'"
proof -
  obtain out a1 c1 d1 where dp: "dispatch_to_provider w t0 po p a c d = (out, a1, c1, d1)"
    by (cases "dispatch_to_provider w t0 po p a c d")
  obtain res' d2 where st: "settle_attempt t1 p a1 out d1 = (res', d2)"
    by (cases "settle_attempt t1 p a1 out d1")
  have "untouched i d d1" using dispatch_db [OF dp] by (auto simp: untouched_def frame_simps)
  then have "untouched i d d2" using settle_untouched [OF st assms(2)] by (rule untouched_trans)
  then show ?thesis
    using assms limited_untouched [OF assms(2)] dp st
    by (auto simp: publish_platform_post_def split: if_splits option.splits)
qed

lemma attempt_untouched:
  assumes "attempt_row w tick p c d = (res, c', d')" "i \<noteq> pp_id p"
  shows "untouched i d d'"
  using assms publish_untouched by (auto simp: attempt_row_def split: option.splits)

lemma publish_all_untouched: "i \<notin> pp_id ` set ps \<Longrightarrow> untouched i d (publish_all w ticks k ps c d)"
proof (induction ps arbitrary: k c d)
  case (Cons p ps)
  obtain res c1 d1 where a: "attempt_row w (ticks k) p c d = (res, c1, d1)"
    by (cases "attempt_row w (ticks k) p c d")
  have u: "untouched i d d1" using attempt_untouched [OF a, of i] Cons.prems by simp
  have "untouched i d1 (publish_all w ticks (Suc k) ps c1 d1)" using Cons by simp
  from untouched_trans [OF u this] show ?case using a by simp
qed simp

lemma first_comment_untouched: "i \<noteq> pp_id p \<Longrightarrow> untouched i d (maybe_schedule_first_comment w p d)"
proof -
  assume "i \<noteq> pp_id p"
  then have "\<not> (pp_id r = pp_id p)" if "get_pp i d = Some r" for r using get_pp_id [OF that] by simp
  moreover have "get_pp i (d\<lparr>db_tasks := x\<rparr>) = get_pp i d" for x by (simp add: get_pp_def)
  ultimately have "get_pp i (maybe_schedule_first_comment w p d) = get_pp i d"
    by (cases "get_pp i d") (auto simp: maybe_schedule_first_comment_def Let_def get_pp_update split: option.split)
  then show ?thesis by (simp add: untouched_def)
qed

lemma first_comments_untouched:
  "i \<notin> pp_id ` set ps \<Longrightarrow> untouched i d (fold (maybe_schedule_first_comment w) ps d)"
proof (induction ps arbitrary: d)
  case (Cons p ps)
  have u: "untouched i d (maybe_schedule_first_comment w p d)"
    using Cons.prems by (intro first_comment_untouched) simp
  have "untouched i (maybe_schedule_first_comment w p d)
      (fold (maybe_schedule_first_comment w) ps (maybe_schedule_first_comment w p d))" using Cons by simp
  from untouched_trans [OF u this] show ?case by simp
qed simp

lemma sync_untouched: "untouched i d (sync_parent_published_at now j d)"
  by (simp add: untouched_def frame_simps)

lemma claim_untouched: "i \<notin> pp_id ` set ps \<Longrightarrow> untouched i d (claim now ps d)"
proof -
  assume "i \<notin> pp_id ` set ps"
  then have "get_pp i (claim now ps d) = get_pp i d" by (simp add: get_pp_claim option.map_ident)
  moreover have "row_ids (claim now ps d) = row_ids d" by (simp add: claim_def row_ids_update)
  ultimately show ?thesis by (simp add: untouched_def)
qed

lemma group_untouched:
  assumes "distinct (row_ids d)" "get_pp i d = Some r" "pp_post r \<noteq> j"
  shows "untouched i d (snd (publish_post_group w now ticks j due d))"
proof -
  let ?ps = "claimable j due d"
  have no: "i \<notin> pp_id ` set ?ps"
    using assms get_pp_row claimable_row by fastforce
  let ?d1 = "publish_all w ticks 0 ?ps empty_cache (claim now ?ps d)"
  let ?d2 = "sync_parent_published_at now j ?d1"
  have "untouched i d ?d2"
    by (rule untouched_trans [OF untouched_trans [OF claim_untouched [OF no] publish_all_untouched [OF no]]
          sync_untouched])
  moreover have "untouched i ?d2 (fold (maybe_schedule_first_comment w)
      (filter (\<lambda>r. pp_id r \<in> pp_id ` set ?ps) (db_pps ?d2)) ?d2)"
    using no by (intro first_comments_untouched) auto
  ultimately have "untouched i d (fold (maybe_schedule_first_comment w)
      (filter (\<lambda>r. pp_id r \<in> pp_id ` set ?ps) (db_pps ?d2)) ?d2)" by (rule untouched_trans)
  then show ?thesis by (simp add: publish_post_group_def Let_def)
qed

lemma groups_untouched:
  assumes "distinct (row_ids d)" "get_pp i d = Some r" "pp_post r \<notin> set js"
  shows "untouched i d (snd (publish_groups w now ticks due js (n, d)))"
  using assms
proof (induction js arbitrary: n d)
  case (Cons j js)
  let ?g = "publish_post_group w now (ticks (length js)) j (filter (\<lambda>p. pp_post p = j) due) d"
  have g: "untouched i d (snd ?g)" using Cons.prems by (intro group_untouched) auto
  obtain b d1 where e: "?g = (b, d1)" by (cases ?g)
  have u: "untouched i d d1" using g e by simp
  have "untouched i d1 (snd (publish_groups w now ticks due js (if b then Suc n else n, d1)))"
  proof (rule Cons.IH)
    show "distinct (row_ids d1)" "get_pp i d1 = Some r" using u Cons.prems by (simp_all add: untouched_def)
    show "pp_post r \<notin> set js" using Cons.prems(3) by simp
  qed
  from untouched_trans [OF u this] show ?case using e by simp
qed simp

lemma retry_one_untouched:
  assumes "i \<noteq> pp_id p"
  shows "untouched i d (retry_one w tick p d)"
proof -
  let ?q = "p\<lparr>pp_status := PUBLISHING, pp_updated_at := fst tick\<rparr>"
  let ?d0 = "save_status (fst tick) ?q d"
  have s: "untouched i d ?d0"
  proof -
    have "get_pp i ?d0 = get_pp i d"
      using assms by (subst get_pp_save_status) (simp_all add: option.map_ident)
    moreover have "row_ids ?d0 = row_ids d" by (simp add: save_status_def row_ids_update)
    ultimately show ?thesis by (simp add: untouched_def)
  qed
  obtain res c1 d1 where a: "attempt_row w tick ?q empty_cache ?d0 = (res, c1, d1)"
    by (cases "attempt_row w tick ?q empty_cache ?d0")
  have "untouched i ?d0 d1" using attempt_untouched [OF a] assms by simp
  then have u: "untouched i d d1" by (rule untouched_trans [OF s])
  show ?thesis
  proof (cases res)
    case (Published_Now q1)
    have "pp_id q1 = pp_id p"
      using a Published_Now
      by (auto simp: attempt_row_def publish_platform_post_def settle_attempt_def Let_def
          accepted_object_core split: option.splits if_splits prod.splits sum.splits)
    then have "untouched i (sync_parent_published_at (snd tick) (pp_post p) d1)
        (maybe_schedule_first_comment w q1 (sync_parent_published_at (snd tick) (pp_post p) d1))"
      using assms by (intro first_comment_untouched) simp
    from untouched_trans [OF untouched_trans [OF u sync_untouched] this] show ?thesis using a Published_Now by (simp add: retry_one_def)
  qed (use a u in \<open>simp_all add: retry_one_def\<close>)
qed

lemma retry_all_untouched: "i \<notin> pp_id ` set ps \<Longrightarrow> untouched i d (retry_all w ticks k ps d)"
proof (induction ps arbitrary: k d)
  case (Cons p ps)
  have "untouched i d (retry_one w (ticks k) p d)" using Cons.prems by (intro retry_one_untouched) auto
  moreover have "untouched i (retry_one w (ticks k) p d) (retry_all w ticks (Suc k) ps (retry_one w (ticks k) p d))"
    using Cons by simp
  ultimately have "untouched i d (retry_all w ticks (Suc k) ps (retry_one w (ticks k) p d))"
    by (rule untouched_trans)
  then show ?case by simp
qed simp

section \<open>Holds\<close>

text \<open>
  C8. A client's hold parks the whole post: while any channel of a post is on hold, a poll of the
  engine, with its retries, whatever is due and whatever the providers answer, leaves every row of
  that post exactly as it was.
\<close>

theorem poll_leaves_held_posts_alone:
  assumes "distinct (row_ids d)" and "get_pp i d = Some r" and "on_hold (pp_post r) d"
  shows "get_pp i (snd (poll_and_publish w now ticks later retry_ticks d)) = Some r"
proof -
  let ?due = "get_due_platform_posts w now d"
  let ?d1 = "snd (publish_groups w now ticks ?due (group_ids ?due) (0, d))"
  have "pp_post p \<noteq> pp_post r" if "p \<in> set ?due" for p
  proof -
    have "is_due now d p" using in_set_takeD [OF that [unfolded get_due_platform_posts_def]] by simp
    then show ?thesis using assms(3) by (auto simp: is_due_def)
  qed
  then have "pp_post r \<notin> pp_post ` set ?due" by force
  then have no: "pp_post r \<notin> set (group_ids ?due)" by (simp add: group_ids_def)
  then have u: "untouched i d ?d1" by (rule groups_untouched [OF assms(1,2)])
  obtain h where h: "h \<in> set (db_pps d)" "pp_post h = pp_post r" "pp_status h = ON_HOLD"
    using assms(3) by (auto simp: on_hold_def list_ex_iff)
  have "untouched (pp_id h) d ?d1"
    using no h(2) by (intro groups_untouched [OF assms(1) get_pp_row [OF assms(1) h(1)]]) simp
  then have "get_pp (pp_id h) ?d1 = Some h" using get_pp_row [OF assms(1) h(1)] by (simp add: untouched_def)
  then have held: "on_hold (pp_post r) ?d1"
    using get_pp_in h by (auto simp: on_hold_def list_ex_iff)
  have "i \<notin> pp_id ` set (filter (retry_due later ?d1) (db_pps ?d1))"
  proof
    assume "i \<in> pp_id ` set (filter (retry_due later ?d1) (db_pps ?d1))"
    then obtain p where p: "p \<in> set (db_pps ?d1)" "pp_id p = i" "retry_due later ?d1 p" by auto
    then have "get_pp i ?d1 = Some p"
      using get_pp_row [of ?d1 p] assms(1) u by (simp add: untouched_def)
    then have "p = r" using u assms(2) by (simp add: untouched_def)
    then show False using p(3) held by (simp add: retry_due_def)
  qed
  then have "untouched i ?d1 (process_retries w later retry_ticks ?d1)"
    unfolding process_retries_def by (rule retry_all_untouched)
  from untouched_trans [OF u this] show ?thesis using assms(2)
    by (simp add: poll_and_publish_def Let_def untouched_def case_prod_beta)
qed

definition held_db :: db where
  "held_db = sample_db\<lparr>db_pps :=
     [(new_platform_post 8 7 5 0)\<lparr>pp_status := SCHEDULED, pp_scheduled_at := Some 300\<rparr>,
      (new_platform_post 9 7 6 0)\<lparr>pp_status := ON_HOLD, pp_scheduled_at := Some 200\<rparr>]\<rparr>"

theorem poll_leaves_held_posts_alone_witness:
  "get_pp 8 (snd (poll_and_publish sample_outside 900 (\<lambda>_ _. (900, 901)) 950 (\<lambda>_. (950, 951)) held_db)) =
    Some (hd (db_pps held_db))"
proof (rule poll_leaves_held_posts_alone)
  show "distinct (row_ids held_db)" by (simp add: row_ids_def held_db_def new_platform_post_def)
  show "get_pp 8 held_db = Some (hd (db_pps held_db))"
    by (simp add: get_pp_def tbl_get_def held_db_def new_platform_post_def)
  show "on_hold (pp_post (hd (db_pps held_db))) held_db"
    by (simp add: on_hold_def held_db_def new_platform_post_def)
qed

section \<open>The sweep\<close>

lemma accounts_frame [frame_simps]:
  "get_account i (fail_permanently now p m d) = get_account i d"
  "get_account i (mark_confirmed_published w now p h d) = get_account i d"
  by (simp_all add: fail_permanently_def notify_publish_failed_def mark_confirmed_published_def
      maybe_schedule_first_comment_def sync_parent_published_at_def Let_def get_account_def update_pps_def
      add_note_def save_post_def save_pp_def drop_entries_def split: option.split)

lemma platform_save_tokens:
  "map_option sa_platform (get_account i (save_tokens a d)) = map_option sa_platform (get_account i d)"
  by (simp add: get_account_def save_tokens_def tbl_get_update option.map_comp split: option.split)

lemma token_db:
  assumes "provider_and_access_token w now a d = Inr (pv, token, a', d1)"
  shows "d1 = d \<or> (\<exists>b. d1 = save_tokens b d)"
  using assms by (auto simp: provider_and_access_token_def Let_def split: sum.splits if_splits)

lemma confirm_one_platform:
  assumes "confirm_one_publish w now dl p d = (b, d')"
  shows "map_option sa_platform (get_account i d') = map_option sa_platform (get_account i d)"
proof -
  have t: "map_option sa_platform (get_account i d1) = map_option sa_platform (get_account i d)"
    if "provider_and_access_token w now a d = Inr (pv, token, a', d1)" for a pv token a' d1
    using token_db [OF that] platform_save_tokens by auto
  show ?thesis
    using assms t by (auto simp: confirm_one_publish_def give_up_unconfirmed_def frame_simps
        split: if_splits option.splits sum.splits prod.splits)
qed

lemma registered_provider:
  assumes "sa_platform a \<in> fst ` set PROVIDER_REGISTRY"
  shows "\<exists>x. provider_and_access_token w now a d = Inr x"
proof -
  obtain s where "map_of PROVIDER_REGISTRY (sa_platform a) = Some s"
    using assms by (metis map_of_eq_None_iff not_None_eq)
  then show ?thesis
    by (auto simp: provider_and_access_token_def Let_def get_provider_def split: sum.split prod.split)
qed

definition overdue :: "deadlines \<Rightarrow> platform_post \<Rightarrow> bool" where
  "overdue dl p \<longleftrightarrow> pp_updated_at p < dl_stale dl \<and> pp_updated_at p < dl_confirm dl \<and>
     pp_updated_at p < dl_unconfirmed dl"

lemma confirm_one_settles:
  assumes c: "confirm_one_publish w now dl p d = (b, d')"
    and row: "get_pp (pp_id p) d = Some r" "pp_status r = PUBLISHING"
    and due: "overdue dl p"
    and acc: "map_option sa_platform (get_account (pp_account p) d) = Some pf" "pf \<in> fst ` set PROVIDER_REGISTRY"
  shows "b \<and> (\<exists>r'. get_pp (pp_id p) d' = Some r' \<and> pp_status r' \<in> {FAILED, PUBLISHED})"
proof -
  have fail: "\<exists>r'. get_pp (pp_id p) (fail_permanently now p m d1) = Some r' \<and> pp_status r' \<in> {FAILED, PUBLISHED}"
    if "get_pp (pp_id p) d1 = get_pp (pp_id p) d" for m d1
    using that row get_pp_id [OF row(1)] by (simp add: get_pp_fail_permanently in_publishing_def)
  have publish: "\<exists>r'. get_pp (pp_id p) (mark_confirmed_published w now p h d1) = Some r' \<and>
      pp_status r' \<in> {FAILED, PUBLISHED}" if "get_pp (pp_id p) d1 = get_pp (pp_id p) d" for h d1
  proof -
    let ?q = "p\<lparr>pp_handle := h, pp_status := PUBLISHED, pp_published_at := Some now,
               pp_publish_error := [], pp_updated_at := now\<rparr>"
    have "map_option core (get_pp (pp_id p) (mark_confirmed_published w now p h d1)) = Some (core ?q)"
      using that row by (simp add: mark_confirmed_published_def Let_def get_pp_first_comment frame_simps get_pp_save_pp)
    then show ?thesis by (auto simp: core_def)
  qed
  obtain a where a: "get_account (pp_account p) d = Some a" "sa_platform a = pf" using acc(1) by auto
  obtain pv token a1 d1 where t: "provider_and_access_token w now a d = Inr (pv, token, a1, d1)"
    using registered_provider [of a w now d] a(2) acc(2) by auto
  have same: "get_pp (pp_id p) d1 = get_pp (pp_id p) d"
    using token_db [OF t] by (auto simp: frame_simps)
  show ?thesis
    using c due a t fail [OF same] fail [OF refl] publish [OF same]
    by (auto simp: confirm_one_publish_def give_up_unconfirmed_def overdue_def
        split: if_splits sum.splits)
qed

lemma confirm_all_keeps:
  assumes "i \<notin> pp_id ` set ps"
  shows "map_option core (get_pp i (snd (confirm_all w ticks dl k ps (n, d)))) = map_option core (get_pp i d)"
  using assms
proof (induction ps arbitrary: k n d)
  case (Cons p ps)
  obtain b d1 where c: "confirm_one_publish w (ticks k) dl p d = (b, d1)"
    by (cases "confirm_one_publish w (ticks k) dl p d")
  have "map_option core (get_pp i d1) = map_option core (get_pp i d)"
    using swept_other [OF conjunct1 [OF confirm_one_effect [OF c]], of i] Cons.prems by auto
  then show ?case using Cons c by simp
qed simp

lemma confirm_all_settles:
  assumes "distinct (map pp_id ps)" "p \<in> set ps" "overdue dl p"
    and "\<exists>r. get_pp (pp_id p) d = Some r \<and> pp_status r = PUBLISHING"
    and "map_option sa_platform (get_account (pp_account p) d) = Some pf" "pf \<in> fst ` set PROVIDER_REGISTRY"
  shows "\<exists>r'. get_pp (pp_id p) (snd (confirm_all w ticks dl k ps (n, d))) = Some r' \<and>
    pp_status r' \<in> {FAILED, PUBLISHED}"
  using assms
proof (induction ps arbitrary: k n d)
  case (Cons x xs)
  obtain b d1 where c: "confirm_one_publish w (ticks k) dl x d = (b, d1)"
    by (cases "confirm_one_publish w (ticks k) dl x d")
  show ?case
  proof (cases "x = p")
    case True
    obtain r where "get_pp (pp_id p) d = Some r" "pp_status r = PUBLISHING" using Cons.prems(4) by blast
    then obtain r' where r': "get_pp (pp_id p) d1 = Some r'" "pp_status r' \<in> {FAILED, PUBLISHED}"
      using confirm_one_settles [OF c [unfolded True] _ _ Cons.prems(3,5,6)] by blast
    have "p \<notin> set xs" "pp_id p \<notin> pp_id ` set xs" using Cons.prems(1) True by auto
    from confirm_all_keeps [OF this(2), of w ticks dl "Suc k" "if b then Suc n else n" d1] r' c True
    show ?thesis by (auto simp: core_def)
  next
    case False
    then have p: "p \<in> set xs" using Cons.prems(2) by simp
    then have "pp_id p \<in> pp_id ` set xs" by simp
    then have ne: "pp_id p \<noteq> pp_id x" using Cons.prems(1) by auto
    have "map_option core (get_pp (pp_id p) d1) = map_option core (get_pp (pp_id p) d)"
      by (rule swept_other [OF conjunct1 [OF confirm_one_effect [OF c]] ne])
    then have "\<exists>r. get_pp (pp_id p) d1 = Some r \<and> pp_status r = PUBLISHING"
      using Cons.prems(4) by (auto simp: core_def)
    then show ?thesis
      using Cons.IH [OF _ p Cons.prems(3), of d1] Cons.prems confirm_one_platform [OF c] c by simp
  qed
qed simp

text \<open>
  C7. Nothing stays in \<open>publishing\<close> for good: one sweep takes every channel that has made no
  progress for longer than the three timeouts to failed or published, whatever the platform
  answers, raises or does not implement, as long as the account's platform is a registered one.
  (For any other platform a row with a handle stays where it is at every sweep.)
\<close>

theorem sweep_settles_overdue:
  assumes "distinct (row_ids d)" and "p \<in> set (db_pps d)" "pp_status p = PUBLISHING"
    and "overdue (sweep_deadlines (ou_config w) now) p"
    and "get_account (pp_account p) d = Some a" "sa_platform a \<in> fst ` set PROVIDER_REGISTRY"
  shows "\<exists>r'. get_pp (pp_id p) (snd (confirm_pending_publishes w now ticks d)) = Some r' \<and>
    pp_status r' \<in> {FAILED, PUBLISHED}"
  unfolding confirm_pending_publishes_def
proof (rule confirm_all_settles [OF _ _ assms(4)])
  show "distinct (map pp_id (filter (\<lambda>p. pp_status p = PUBLISHING) (db_pps d)))"
    using assms(1) by (simp add: row_ids_def distinct_map_filter)
  show "\<exists>r. get_pp (pp_id p) d = Some r \<and> pp_status r = PUBLISHING"
    using get_pp_row [OF assms(1,2)] assms(3) by simp
qed (use assms in auto)

definition stuck_db :: db where
  "stuck_db = sample_db\<lparr>db_pps := [(new_platform_post 8 7 5 0)\<lparr>pp_status := PUBLISHING\<rparr>]\<rparr>"

theorem sweep_settles_overdue_witness:
  "\<exists>r'. get_pp 8 (snd (confirm_pending_publishes sample_outside (seconds 30000) (\<lambda>_. seconds 30000) stuck_db)) = Some r' \<and>
    pp_status r' \<in> {FAILED, PUBLISHED}"
proof -
  let ?p = "hd (db_pps stuck_db)"
  have "\<exists>r'. get_pp (pp_id ?p) (snd (confirm_pending_publishes sample_outside (seconds 30000) (\<lambda>_. seconds 30000) stuck_db)) = Some r' \<and>
    pp_status r' \<in> {FAILED, PUBLISHED}"
  proof (rule sweep_settles_overdue)
    show "get_account (pp_account ?p) stuck_db = Some sample_account"
      by (simp add: get_account_def tbl_get_def stuck_db_def sample_defs)
    show "sa_platform sample_account \<in> fst ` set PROVIDER_REGISTRY"
      by (simp add: sample_account_def PROVIDER_REGISTRY_def)
    show "overdue (sweep_deadlines (ou_config sample_outside) (seconds 30000)) ?p"
      by (simp add: overdue_def sweep_deadlines_def stuck_db_def new_platform_post_def sample_outside_def
          sample_config_def stale_publishing_timeout_def publish_confirm_timeout_def
          publish_unconfirmed_timeout_def or_default_def DEFAULT_STALE_PUBLISHING_TIMEOUT_def
          DEFAULT_PUBLISH_CONFIRM_TIMEOUT_def DEFAULT_PUBLISH_UNCONFIRMED_TIMEOUT_def seconds_def)
  qed (simp_all add: stuck_db_def row_ids_def new_platform_post_def)
  then show ?thesis by (simp add: stuck_db_def new_platform_post_def)
qed

section \<open>What the sweep never does\<close>

definition other_publish :: "(string \<Rightarrow> publish_content \<Rightarrow> exn + publish_result) \<Rightarrow> outside \<Rightarrow> outside" where
  "other_publish f w = w\<lparr>ou_calls := (\<lambda>platform creds. (ou_calls w platform creds)\<lparr>pa_publish := f\<rparr>)\<rparr>"

lemma other_publish_provider:
  "provider_and_access_token (other_publish f w) now a d =
    map_sum id (\<lambda>(pv, t, a', d'). (pv\<lparr>pv_api := (pv_api pv)\<lparr>pa_publish := f\<rparr>\<rparr>, t, a', d'))
      (provider_and_access_token w now a d)"
  by (simp add: provider_and_access_token_def Let_def other_publish_def split: sum.split prod.split)

lemma other_publish_fields:
  "ou_config (other_publish f w) = ou_config w"
  "resolve_credentials_of (other_publish f w) d = resolve_credentials_of w d"
  by (simp add: other_publish_def) (rule ext, simp add: resolve_credentials_of_def other_publish_def)

lemma other_publish_comment:
  "maybe_schedule_first_comment (other_publish f w) p d = maybe_schedule_first_comment w p d"
  unfolding maybe_schedule_first_comment_def other_publish_fields ..

lemma other_publish_one:
  "confirm_one_publish (other_publish f w) now dl p d = confirm_one_publish w now dl p d"
  by (simp add: confirm_one_publish_def other_publish_provider mark_confirmed_published_def Let_def
      other_publish_comment split: option.split sum.split prod.split)

lemma other_publish_all:
  "confirm_all (other_publish f w) ticks dl k ps nd = confirm_all w ticks dl k ps nd"
  by (induction w ticks dl k ps nd rule: confirm_all.induct) (simp_all add: other_publish_one split: prod.split)

text \<open>
  The sweep never publishes: what it does is the same whatever a provider's \<open>publish_post\<close>
  would answer, so no handle it cannot confirm is ever turned into a second post.
\<close>

theorem sweep_never_publishes:
  "confirm_pending_publishes (other_publish f w) now ticks d = confirm_pending_publishes w now ticks d"
  by (simp add: confirm_pending_publishes_def other_publish_all other_publish_fields)

section \<open>Acting on what was loaded\<close>

definition loaded_row :: platform_post where
  "loaded_row = (hd (db_pps sample_db))\<lparr>pp_retry_count := 1, pp_next_retry_at := Some 350\<rparr>"

definition cancelled_db :: db where
  "cancelled_db = sample_db\<lparr>db_pps := [loaded_row\<lparr>pp_status := DRAFT, pp_scheduled_at := None\<rparr>]\<rparr>"

lemma loaded_row_facts:
  "pp_id loaded_row = 8" "pp_post loaded_row = 7" "pp_account loaded_row = 5" "pp_extra loaded_row = []"
  "pp_status loaded_row = SCHEDULED"
  by (simp_all add: loaded_row_def sample_defs)

lemma cancelled_dispatch:
  assumes "db_media d = []" "pp_extra p = []"
  shows "dispatch_to_provider sample_outside now sample_post p sample_account c d =
    (Inr (ok_result), sample_account, c, d)"
proof -
  have a: "attachments (po_id sample_post) d = []" by (simp add: attachments_def assms(1))
  have b: "publish_blocker sample_account (usable_media_types []) [] = []"
    by (simp add: publish_blocker_def Let_def media_blocker_def is_video_only_def requires_media_def
        sample_account_def PROVIDER_REGISTRY_def provider_defs spec_video_only_def VIDEO_POST_TYPES_def
        usable_media_types_def)
  have v: "\<not> spec_video_only bluesky_provider"
    by (simp add: spec_video_only_def provider_defs VIDEO_POST_TYPES_def)
  have "\<exists>content. build_content sample_outside sample_post p sample_account no_media d = Inr content"
    by (simp add: build_content_def Let_def inject_ids_def sample_account_def assms(2) dict_merge_def
        resolve_extra_assets_def dict_get_def dict_pop_def resolve_post_type_def)
  then obtain content where content:
    "build_content sample_outside sample_post p sample_account no_media d = Inr content" by blast
  show ?thesis
    by (simp add: dispatch_to_provider_def prepare_dispatch_def Let_def a b assms(2) sample_provider v content
        sample_api_def ok_result_def provider_defs)
qed

text \<open>
  The retry loop works on the rows its query loaded: a turn of the loop re-checks holds, but
  writes \<open>publishing\<close> over whatever the row has become. A channel its author took back to draft
  while an earlier retry was uploading is published all the same.
\<close>

theorem retry_overrides_cancellation:
  "retry_due 400 (sample_db\<lparr>db_pps := [loaded_row]\<rparr>) loaded_row \<and>
   (\<exists>r. get_pp 8 cancelled_db = Some r \<and> pp_status r = DRAFT) \<and>
   (\<exists>r. get_pp 8 (retry_one sample_outside (400, 500) loaded_row cancelled_db) = Some r \<and> pp_status r = PUBLISHED)"
proof (intro conjI)
  show "retry_due 400 (sample_db\<lparr>db_pps := [loaded_row]\<rparr>) loaded_row"
    by (simp add: retry_due_def loaded_row_def MAX_RETRIES_def on_hold_def sample_defs)
  show "\<exists>r. get_pp 8 cancelled_db = Some r \<and> pp_status r = DRAFT"
    by (simp add: get_pp_def tbl_get_def cancelled_db_def loaded_row_facts)
  let ?q = "loaded_row\<lparr>pp_status := PUBLISHING, pp_updated_at := 400\<rparr>"
  let ?d = "save_status 400 ?q cancelled_db"
  have h: "\<not> on_hold (pp_post loaded_row) cancelled_db"
    by (simp add: on_hold_def cancelled_db_def loaded_row_facts)
  have acc: "get_account 5 ?d = Some sample_account" "get_post 7 ?d = Some sample_post" "db_media ?d = []"
      "rate_state_of sample_account ?d = None"
    by (simp_all add: save_status_def update_pps_def get_account_def get_post_def tbl_get_def cancelled_db_def
        rate_state_of_def tbl_first_def sample_defs)
  have q: "pp_extra ?q = []" "pp_account ?q = 5" "pp_post ?q = 7" by (simp_all add: loaded_row_facts)
  obtain d2 where st: "settle_attempt 500 ?q sample_account (Inr ok_result) ?d =
      (Published_Now (accepted_object 500 ?q ok_result), d2)"
    and row: "get_pp 8 d2 = get_pp 8 (save_pp (accepted_object 500 ?q ok_result) ?d)"
    by (simp add: settle_attempt_def Let_def ok_result_def frame_simps)
  have "attempt_row sample_outside (400, 500) ?q empty_cache ?d =
      (Published_Now (accepted_object 500 ?q ok_result), empty_cache, d2)"
    by (simp add: attempt_row_def q acc publish_platform_post_def cancelled_dispatch st loaded_row_facts)
  then have r: "retry_one sample_outside (400, 500) loaded_row cancelled_db =
      maybe_schedule_first_comment sample_outside (accepted_object 500 ?q ok_result)
        (sync_parent_published_at 500 (pp_post loaded_row) d2)"
    by (simp add: retry_one_def h)
  have present: "get_pp 8 ?d \<noteq> None"
    by (simp add: save_status_def get_pp_update get_pp_def tbl_get_def update_pps_def cancelled_db_def loaded_row_facts)
  have "map_option core (get_pp 8 (retry_one sample_outside (400, 500) loaded_row cancelled_db)) =
      Some (core (accepted_object 500 ?q ok_result))"
    unfolding r get_pp_first_comment
    using row present by (simp add: frame_simps get_pp_save_pp accepted_object_core loaded_row_facts)
  then show "\<exists>r. get_pp 8 (retry_one sample_outside (400, 500) loaded_row cancelled_db) = Some r \<and>
      pp_status r = PUBLISHED"
    by (auto simp: core_def accepted_object_def Let_def ok_result_def)
qed

end
