(* ===== verification/First_Comment.thy ===== *)
theory First_Comment
  imports Publisher_Cycle
begin

text \<open>
  The first comment of a published post: \<open>_post_first_comment_task\<close> and what it records, in
  \<open>apps/publisher/engine.py\<close>. The task is split where it calls the platform: \<open>first_comment_plan\<close> is
  everything before \<open>publish_comment\<close>, \<open>finish_comment\<close> what follows its answer, so that what
  happens between the call and its record can be part of a run.
\<close>

section \<open>Recording\<close>

definition mark_first_comment_posted :: "instant \<Rightarrow> platform_post \<Rightarrow> string \<Rightarrow> db \<Rightarrow> db" where
  "mark_first_comment_posted now p comment_id d =
    update_pps (\<lambda>r. pp_id r = pp_id p)
      (\<lambda>r. r\<lparr>pp_fc_status := FC_POSTED, pp_fc_id := take 255 comment_id, pp_fc_error := [],
             pp_fc_posted_at := Some now\<rparr>) d"

definition comment_backoff :: "instant \<Rightarrow> nat \<Rightarrow> int option \<Rightarrow> deadline \<Rightarrow> int" where
  "comment_backoff now retries retry_after resets =
    (case resets of
       At t \<Rightarrow> max 1 (ceil_seconds (t - now))
     | _ \<Rightarrow>
        (let ladder = FIRST_COMMENT_RETRY_BACKOFF ! min retries (length FIRST_COMMENT_RETRY_BACKOFF - 1) in
         case retry_after of Some n \<Rightarrow> if n \<noteq> 0 then n else ladder | None \<Rightarrow> ladder))"

definition record_first_comment_failure ::
  "engine_config \<Rightarrow> instant \<Rightarrow> platform_post \<Rightarrow> bool \<Rightarrow> string \<Rightarrow> int option \<Rightarrow> deadline \<Rightarrow> db \<Rightarrow> db" where
  "record_first_comment_failure c now p retryable user_message retry_after resets d =
    (let stored = take 2000 (py_or user_message FIRST_COMMENT_GENERIC_MESSAGE);
         own = (\<lambda>r. pp_id r = pp_id p) in
     if \<not> retryable \<or> pp_fc_retries p \<ge> FIRST_COMMENT_MAX_RETRIES c
     then update_pps own (\<lambda>r. r\<lparr>pp_fc_status := FC_FAILED, pp_fc_error := stored\<rparr>) d
     else
       let backoff = comment_backoff now (pp_fc_retries p) retry_after resets;
           d1 = update_pps own (\<lambda>r. r\<lparr>pp_fc_status := FC_PENDING, pp_fc_error := stored,
                  pp_fc_retries := Suc (pp_fc_retries r)\<rparr>) d
       in d1\<lparr>db_tasks := db_tasks d1 @ [\<lparr>bt_pp = pp_id p, bt_delay = backoff\<rparr>]\<rparr>)"

definition NO_POST_ID_MESSAGE :: string where
  "NO_POST_ID_MESSAGE = ''The post's id on the platform wasn't recorded, so the first comment couldn't be added.''"

section \<open>The task\<close>

record submission =
  sb_row :: platform_post
  sb_provider :: provider
  sb_token :: string
  sb_text :: string

datatype plan = Done db | Submit submission db

definition first_comment_plan :: "outside \<Rightarrow> instant \<Rightarrow> nat \<Rightarrow> db \<Rightarrow> plan" where
  "first_comment_plan w now i d =
    (case get_pp i d of
       None \<Rightarrow> Done d
     | Some p \<Rightarrow>
        (case get_post (pp_post p) d of
           None \<Rightarrow> Done d
         | Some po \<Rightarrow>
            (case get_account (pp_account p) d of
               None \<Rightarrow> Done d
             | Some a \<Rightarrow>
                (let txt = effective_first_comment po p;
                     fails = record_first_comment_failure (ou_config w) now p in
                 if pp_fc_status p = FC_POSTED then Done d
                 else if txt = [] then Done d
                 else if pp_handle p = [] then Done (fails False NO_POST_ID_MESSAGE None NoDeadline d)
                 else
                   case provider_and_access_token w now a d of
                     Inl e \<Rightarrow> Done (fails (attr_retryable e) (friendly_first_comment_error e now)
                                (attr_retry_after e) (attr_resets e) d)
                   | Inr (pv, token, a1, d1) \<Rightarrow>
                       (let send = Submit \<lparr>sb_row = p, sb_provider = pv, sb_token = token, sb_text = txt\<rparr> d1 in
                        if pp_fc_retries p = 0 then send
                        else
                          case pa_find_comment (pv_api pv) token (pp_handle p) txt of
                            Inl e \<Rightarrow>
                              if ex_class e = NotImplementedErr then send
                              else Done (fails True (friendly_first_comment_error e now)
                                     (attr_retry_after e) (attr_resets e) d1)
                          | Inr (Some existing) \<Rightarrow>
                              if existing \<noteq> [] then Done (mark_first_comment_posted now p existing d1) else send
                          | Inr None \<Rightarrow> send)))))"

definition finish_comment :: "outside \<Rightarrow> instant \<Rightarrow> submission \<Rightarrow> exn + string \<Rightarrow> db \<Rightarrow> db" where
  "finish_comment w now sb answer d =
    (case answer of
       Inl e \<Rightarrow>
         if ex_class e = NotImplementedErr then d
         else
           record_first_comment_failure (ou_config w) now (sb_row sb)
             (is_retryable_first_comment_failure e \<and>
              \<not> (is_ambiguous_submission_failure e \<and> \<not> can_reconcile_comments (sb_provider sb)))
             (friendly_first_comment_error e now) (attr_retry_after e) (attr_resets e) d
     | Inr comment_id \<Rightarrow> mark_first_comment_posted now (sb_row sb) comment_id d)"

definition post_first_comment_task :: "outside \<Rightarrow> instant \<Rightarrow> nat \<Rightarrow> db \<Rightarrow> db" where
  "post_first_comment_task w now i d =
    (case first_comment_plan w now i d of
       Done d1 \<Rightarrow> d1
     | Submit sb d1 \<Rightarrow>
         finish_comment w now sb
           (pa_comment (pv_api (sb_provider sb)) (sb_token sb) (pp_handle (sb_row sb)) (sb_text sb)) d1)"

section \<open>Runs of the comment queue\<close>

text \<open>
  A task is taken from the queue and ends without a call, or submits its comment; the submission is open until
  its answer is recorded. Between the call and the record the worker may die, and the queue delivers the task
  again; or the record of a success may fail, which \<open>_mark_first_comment_posted\<close> swallows. The platform is not
  modelled: any call may answer anything. For the statements a run keeps the rows in doubt (a submission whose
  comment may exist: it succeeded, failed in a way \<open>_is_ambiguous_submission_failure\<close> calls ambiguous, or was
  never recorded), the rows a worker died on, and the rows a comment was submitted for while in doubt without the
  platform having been asked. A run queues nothing but the retries.
\<close>

record comment_world =
  cw_db :: db
  cw_open :: "(bg_task \<times> submission) list"
  cw_doubt :: "nat list"
  cw_lost :: "nat list"
  cw_blind :: "nat list"

definition asked_first :: "submission \<Rightarrow> bool" where
  \<comment> \<open>the plan is a retry on a provider that can look, and the lookup has named no comment\<close>
  "asked_first sb \<longleftrightarrow> pp_fc_retries (sb_row sb) \<noteq> 0 \<and> can_reconcile_comments (sb_provider sb) \<and>
    (case pa_find_comment (pv_api (sb_provider sb)) (sb_token sb) (pp_handle (sb_row sb)) (sb_text sb) of
       Inl e \<Rightarrow> ex_class e = NotImplementedErr
     | Inr existing \<Rightarrow> existing = None \<or> existing = Some [])"

definition take_task :: "bg_task \<Rightarrow> db \<Rightarrow> db" where
  "take_task t d = d\<lparr>db_tasks := remove1 t (db_tasks d)\<rparr>"

definition put_back :: "bg_task \<Rightarrow> db \<Rightarrow> db" where
  "put_back t d = d\<lparr>db_tasks := db_tasks d @ [t]\<rparr>"

definition in_doubt :: "exn + string \<Rightarrow> bool" where
  "in_doubt answer = (case answer of Inl e \<Rightarrow> is_ambiguous_submission_failure e | Inr comment_id \<Rightarrow> True)"

definition send_comment :: "bg_task \<Rightarrow> submission \<Rightarrow> db \<Rightarrow> comment_world \<Rightarrow> comment_world" where
  "send_comment t sb d s =
    s\<lparr>cw_db := d, cw_open := cw_open s @ [(t, sb)],
      cw_blind := (if bt_pp t \<in> set (cw_doubt s) \<and> \<not> asked_first sb then bt_pp t # cw_blind s else cw_blind s)\<rparr>"

definition doubt_if :: "bool \<Rightarrow> nat \<Rightarrow> nat list \<Rightarrow> nat list" where
  "doubt_if b i is = (if b then i # is else is)"

inductive comment_step :: "comment_world \<Rightarrow> comment_world \<Rightarrow> bool" where
  Planned: "t \<in> set (db_tasks (cw_db s)) \<Longrightarrow>
    first_comment_plan w now (bt_pp t) (take_task t (cw_db s)) = Done d' \<Longrightarrow>
    comment_step s (s\<lparr>cw_db := d'\<rparr>)"
| Sent: "t \<in> set (db_tasks (cw_db s)) \<Longrightarrow>
    first_comment_plan w now (bt_pp t) (take_task t (cw_db s)) = Submit sb d1 \<Longrightarrow>
    comment_step s (send_comment t sb d1 s)"
| Answered: "(t, sb) \<in> set (cw_open s) \<Longrightarrow>
    comment_step s (s\<lparr>cw_db := finish_comment w now sb answer (cw_db s), cw_open := remove1 (t, sb) (cw_open s),
      cw_doubt := doubt_if (in_doubt answer) (bt_pp t) (cw_doubt s)\<rparr>)"
| Unrecorded: "(t, sb) \<in> set (cw_open s) \<Longrightarrow>
    comment_step s (s\<lparr>cw_open := remove1 (t, sb) (cw_open s), cw_doubt := bt_pp t # cw_doubt s\<rparr>)"
| Died: "(t, sb) \<in> set (cw_open s) \<Longrightarrow>
    comment_step s (s\<lparr>cw_db := put_back t (cw_db s), cw_open := remove1 (t, sb) (cw_open s),
      cw_doubt := bt_pp t # cw_doubt s, cw_lost := bt_pp t # cw_lost s\<rparr>)"

definition comment_start :: "db \<Rightarrow> comment_world" where
  "comment_start d = \<lparr>cw_db = d, cw_open = [], cw_doubt = [], cw_lost = [], cw_blind = []\<rparr>"

section \<open>Effects\<close>

definition platform_at :: "nat \<Rightarrow> db \<Rightarrow> string option" where
  "platform_at i d = map_option sa_platform (get_account i d)"

definition same_base :: "db \<Rightarrow> db \<Rightarrow> bool" where
  "same_base d d1 \<longleftrightarrow> (\<forall>i. get_pp i d1 = get_pp i d) \<and> db_tasks d1 = db_tasks d \<and>
     (\<forall>i. platform_at i d1 = platform_at i d)"

definition comment_effect :: "nat \<Rightarrow> db \<Rightarrow> db \<Rightarrow> bool" where
  "comment_effect i d d' \<longleftrightarrow>
    (\<forall>j. j \<noteq> i \<longrightarrow> get_pp j d' = get_pp j d) \<and>
    (\<forall>p. get_pp i d = Some p \<longrightarrow> (\<exists>p'. get_pp i d' = Some p' \<and> pp_account p' = pp_account p \<and>
       pp_fc_retries p \<le> pp_fc_retries p')) \<and>
    (\<forall>j. platform_at j d' = platform_at j d) \<and>
    (db_tasks d' = db_tasks d \<or>
     (\<exists>b p'. db_tasks d' = db_tasks d @ [\<lparr>bt_pp = i, bt_delay = b\<rparr>] \<and> get_pp i d' = Some p' \<and>
        pp_fc_retries p' > 0))"

lemma same_base_refl [simp]: "same_base d d"
  by (simp add: same_base_def)

lemma same_base_tokens: "same_base d (save_tokens a d)"
  by (simp add: same_base_def frame_simps platform_at_def platform_save_tokens) (simp add: save_tokens_def)

lemma same_base_effect: "same_base d d1 \<Longrightarrow> comment_effect i d d1"
  by (simp add: same_base_def comment_effect_def)

lemma own_update_effect:
  assumes "same_base d d1" "pp_id p = i"
    and "\<And>r. pp_id (f r) = pp_id r" "\<And>r. pp_account (f r) = pp_account r"
    and "\<And>r. pp_fc_retries r \<le> pp_fc_retries (f r)"
  shows "comment_effect i d (update_pps (\<lambda>r. pp_id r = pp_id p) f d1)"
proof -
  let ?d = "update_pps (\<lambda>r. pp_id r = pp_id p) f d1"
  have g: "get_pp j ?d = (case get_pp j d of None \<Rightarrow> None | Some r \<Rightarrow> Some (if j = i then f r else r))" for j
    using assms(1,2) get_pp_id [of j d] by (auto simp: get_pp_update [OF assms(3)] same_base_def split: option.split)
  have "db_tasks ?d = db_tasks d" "platform_at j ?d = platform_at j d" for j
    using assms(1) by (simp_all add: same_base_def update_pps_def platform_at_def get_account_def)
  then show ?thesis using assms(4,5) by (auto simp: comment_effect_def g split: option.split)
qed

lemma mark_posted_effect:
  "same_base d d1 \<Longrightarrow> pp_id p = i \<Longrightarrow> comment_effect i d (mark_first_comment_posted now p c d1)"
  unfolding mark_first_comment_posted_def by (rule own_update_effect) simp_all

lemma record_failure_effect:
  assumes "same_base d d1" "get_pp i d = Some p"
  shows "comment_effect i d (record_first_comment_failure c now p retryable m ra at d1)"
proof (cases "\<not> retryable \<or> pp_fc_retries p \<ge> FIRST_COMMENT_MAX_RETRIES c")
  case True
  have i: "pp_id p = i" by (rule get_pp_id [OF assms(2)])
  show ?thesis
    using True own_update_effect [OF assms(1) i, of "\<lambda>r. r\<lparr>pp_fc_status := FC_FAILED,
      pp_fc_error := take 2000 (py_or m FIRST_COMMENT_GENERIC_MESSAGE)\<rparr>"]
    by (simp add: record_first_comment_failure_def Let_def)
next
  case False
  have i: "pp_id p = i" by (rule get_pp_id [OF assms(2)])
  let ?f = "\<lambda>r :: platform_post. r\<lparr>pp_fc_status := FC_PENDING,
      pp_fc_error := take 2000 (py_or m FIRST_COMMENT_GENERIC_MESSAGE), pp_fc_retries := Suc (pp_fc_retries r)\<rparr>"
  let ?u = "update_pps (\<lambda>r. pp_id r = pp_id p) ?f d1"
  let ?t = "\<lparr>bt_pp = i, bt_delay = comment_backoff now (pp_fc_retries p) ra at\<rparr>"
  have e: "comment_effect i d ?u" using assms(1) i by (intro own_update_effect) simp_all
  have u: "record_first_comment_failure c now p retryable m ra at d1 = ?u\<lparr>db_tasks := db_tasks ?u @ [?t]\<rparr>"
    using False i by (simp add: record_first_comment_failure_def Let_def)
  have t: "db_tasks ?u = db_tasks d" using assms(1) by (simp add: update_pps_def same_base_def)
  have g: "get_pp j (?u\<lparr>db_tasks := x\<rparr>) = get_pp j ?u" "platform_at j (?u\<lparr>db_tasks := x\<rparr>) = platform_at j ?u" for j x
    by (simp_all add: get_pp_def platform_at_def get_account_def)
  have "get_pp i ?u = Some (?f p)"
    using assms i by (simp add: get_pp_update same_base_def)
  then show ?thesis using e unfolding u by (simp add: comment_effect_def g t)
qed

lemma token_base: "provider_and_access_token w now a d = Inr (pv, token, a1, d1) \<Longrightarrow> same_base d d1"
  using token_db [of w now a d pv token a1 d1] same_base_tokens by auto

lemma token_spec:
  "provider_and_access_token w now a d = Inr (pv, token, a1, d1) \<Longrightarrow>
    map_of PROVIDER_REGISTRY (sa_platform a) = Some (pv_spec pv)"
  by (auto simp: provider_and_access_token_def Let_def get_provider_def split: option.splits if_splits sum.splits)

text \<open>What a plan knows: the row, and the provider of its account; a retry has looked first.\<close>

lemma plan_cases:
  assumes "get_pp i d = Some p" "get_post (pp_post p) d = Some po" "get_account (pp_account p) d = Some a"
    and "pp_fc_status p \<noteq> FC_POSTED" "effective_first_comment po p \<noteq> []" "pp_handle p \<noteq> []"
    and "provider_and_access_token w now a d = Inr (pv, token, a1, d1)"
  shows "first_comment_plan w now i d =
    (let send = Submit \<lparr>sb_row = p, sb_provider = pv, sb_token = token, sb_text = effective_first_comment po p\<rparr> d1 in
     if pp_fc_retries p = 0 then send
     else case pa_find_comment (pv_api pv) token (pp_handle p) (effective_first_comment po p) of
        Inl e \<Rightarrow>
          if ex_class e = NotImplementedErr then send
          else Done (record_first_comment_failure (ou_config w) now p True (friendly_first_comment_error e now)
                 (attr_retry_after e) (attr_resets e) d1)
      | Inr (Some existing) \<Rightarrow>
          if existing \<noteq> [] then Done (mark_first_comment_posted now p existing d1) else send
      | Inr None \<Rightarrow> send)"
  using assms by (simp add: first_comment_plan_def Let_def)

lemma plan_outcome:
  "(case first_comment_plan w now i d of
      Done d' \<Rightarrow> comment_effect i d d'
    | Submit sb d1 \<Rightarrow> same_base d d1 \<and> get_pp i d = Some (sb_row sb) \<and>
        (\<exists>a. get_account (pp_account (sb_row sb)) d = Some a \<and>
           map_of PROVIDER_REGISTRY (sa_platform a) = Some (pv_spec (sb_provider sb))) \<and>
        (pp_fc_retries (sb_row sb) \<noteq> 0 \<and> can_reconcile_comments (sb_provider sb) \<longrightarrow> asked_first sb))"
proof (cases "get_pp i d")
  case None
  then show ?thesis by (simp add: first_comment_plan_def same_base_effect)
next
  case p: (Some p)
  show ?thesis
  proof (cases "get_post (pp_post p) d")
    case None
    then show ?thesis using p by (simp add: first_comment_plan_def same_base_effect)
  next
    case po: (Some po)
    show ?thesis
    proof (cases "get_account (pp_account p) d")
      case None
      then show ?thesis using p po by (simp add: first_comment_plan_def same_base_effect)
    next
      case a: (Some a)
      let ?stop = "pp_fc_status p = FC_POSTED \<or> effective_first_comment po p = [] \<or> pp_handle p = []"
      have early: ?thesis if ?stop
        using that p po a record_failure_effect [OF same_base_refl p]
        by (auto simp: first_comment_plan_def Let_def same_base_effect)
      show ?thesis
      proof (cases ?stop)
        case True
        then show ?thesis by (rule early)
      next
        case go: False
        show ?thesis
        proof (cases "provider_and_access_token w now a d")
          case (Inl e)
          then show ?thesis using p po a go record_failure_effect [OF same_base_refl p]
            by (simp add: first_comment_plan_def Let_def)
        next
          case (Inr x)
          obtain pv token a1 d1 where x: "x = (pv, token, a1, d1)" by (cases x)
          note tk = Inr [unfolded x]
          note b = token_base [OF tk]
          note c = plan_cases [OF p po a _ _ _ tk]
          have spec: "map_of PROVIDER_REGISTRY (sa_platform a) = Some (pv_spec pv)" by (rule token_spec [OF tk])
          have i: "pp_id p = i" by (rule get_pp_id [OF p])
          let ?find = "pa_find_comment (pv_api pv) token (pp_handle p) (effective_first_comment po p)"
          show ?thesis
          proof (cases "pp_fc_retries p = 0")
            case True
            then show ?thesis using c go p a spec b by (simp add: Let_def asked_first_def)
          next
            case again: False
            show ?thesis
            proof (cases ?find)
              case (Inl e)
              then show ?thesis using c go p a spec b again record_failure_effect [OF b p]
                by (auto simp: Let_def asked_first_def)
            next
              case (Inr y)
              then show ?thesis using c go p a spec b again mark_posted_effect [OF b i]
                by (cases y) (auto simp: Let_def asked_first_def)
            qed
          qed
        qed
      qed
    qed
  qed
qed

lemma finish_effect:
  assumes "same_base d d1" "get_pp i d = Some (sb_row sb)"
  shows "comment_effect i d (finish_comment w now sb answer d1) \<and>
    (db_tasks (finish_comment w now sb answer d1) \<noteq> db_tasks d \<longrightarrow>
      (\<exists>e. answer = Inl e \<and> (is_ambiguous_submission_failure e \<longrightarrow> can_reconcile_comments (sb_provider sb))))"
proof (cases answer)
  case (Inl e)
  show ?thesis
  proof (cases "ex_class e = NotImplementedErr")
    case True
    then show ?thesis using Inl same_base_effect [OF assms(1)] assms(1)
      by (simp add: finish_comment_def same_base_def)
  next
    case False
    have "db_tasks (record_first_comment_failure c now p False m ra at d1) = db_tasks d" for c p m ra at
      using assms(1) by (simp add: record_first_comment_failure_def Let_def update_pps_def same_base_def)
    then show ?thesis using Inl False record_failure_effect [OF assms]
      by (cases "is_ambiguous_submission_failure e"; cases "can_reconcile_comments (sb_provider sb)")
        (auto simp: finish_comment_def)
  qed
next
  case (Inr c)
  have "db_tasks (mark_first_comment_posted now (sb_row sb) c d1) = db_tasks d"
    using assms(1) by (simp add: mark_first_comment_posted_def update_pps_def same_base_def)
  then show ?thesis using Inr mark_posted_effect [OF assms(1) get_pp_id [OF assms(2)]]
    by (simp add: finish_comment_def)
qed

section \<open>The invariant\<close>

definition ready :: "nat \<Rightarrow> db \<Rightarrow> bool" where
  \<comment> \<open>a further attempt on this row will look for the comment, and can\<close>
  "ready i d \<longleftrightarrow> (\<exists>p pf spec. get_pp i d = Some p \<and> pp_fc_retries p > 0 \<and>
     platform_at (pp_account p) d = Some pf \<and> map_of PROVIDER_REGISTRY pf = Some spec \<and>
     ps_can_find_comment spec)"

definition open_row :: "bg_task \<times> submission \<Rightarrow> db \<Rightarrow> bool" where
  "open_row x d \<longleftrightarrow> get_pp (bt_pp (fst x)) d = Some (sb_row (snd x)) \<and>
     (\<exists>pf. platform_at (pp_account (sb_row (snd x))) d = Some pf \<and>
        map_of PROVIDER_REGISTRY pf = Some (pv_spec (sb_provider (snd x))))"

definition under_way :: "db \<Rightarrow> (bg_task \<times> submission) list \<Rightarrow> nat list" where
  "under_way d xs = map bt_pp (db_tasks d @ map fst xs)"

definition comments_ok :: "comment_world \<Rightarrow> bool" where
  "comments_ok s \<longleftrightarrow> distinct (under_way (cw_db s) (cw_open s)) \<and>
     (\<forall>x \<in> set (cw_open s). open_row x (cw_db s)) \<and>
     (\<forall>i \<in> set (under_way (cw_db s) (cw_open s)). i \<in> set (cw_doubt s) \<longrightarrow> i \<in> set (cw_lost s) \<or> ready i (cw_db s)) \<and>
     set (cw_blind s) \<subseteq> set (cw_lost s)"

lemma ready_effect:
  assumes "comment_effect i d d'" "ready j d"
  shows "ready j d'"
proof -
  from assms(2) obtain p pf spec where p: "get_pp j d = Some p" "pp_fc_retries p > 0"
    "platform_at (pp_account p) d = Some pf" "map_of PROVIDER_REGISTRY pf = Some spec" "ps_can_find_comment spec"
    by (auto simp: ready_def)
  obtain p' where "get_pp j d' = Some p'" "pp_account p' = pp_account p" "pp_fc_retries p \<le> pp_fc_retries p'"
    using assms(1) p(1) by (cases "j = i") (auto simp: comment_effect_def)
  moreover have "platform_at (pp_account p) d' = Some pf" using assms(1) p(3) by (simp add: comment_effect_def)
  ultimately show ?thesis using p unfolding ready_def
    by (intro exI [of _ p'] exI [of _ pf] exI [of _ spec]) simp
qed

text \<open>A step on one row.\<close>

lemma open_row_effect: "comment_effect i d d' \<Longrightarrow> open_row x d \<Longrightarrow> bt_pp (fst x) \<noteq> i \<Longrightarrow> open_row x d'"
  by (auto simp: open_row_def comment_effect_def)

lemma comments_keep:
  assumes ok: "comments_ok s" and e: "comment_effect i (cw_db s\<lparr>db_tasks := ts\<rparr>) d'"
    and dist: "distinct (under_way d' open')"
    and sub: "set (under_way d' open') \<subseteq> set (under_way (cw_db s) (cw_open s))"
    and opn: "\<And>x. x \<in> set open' \<Longrightarrow> x \<in> set (cw_open s) \<and> bt_pp (fst x) \<noteq> i \<or> open_row x d'"
    and doubt: "\<And>j. j \<in> set doubt' \<Longrightarrow> j = i \<or> j \<in> set (cw_doubt s)"
    and lost: "set (cw_lost s) \<subseteq> set lost'" and blind: "set blind' \<subseteq> set lost'"
    and own: "i \<in> set (under_way d' open') \<Longrightarrow> i \<in> set doubt' \<Longrightarrow> i \<in> set lost' \<or> ready i d'"
  shows "comments_ok \<lparr>cw_db = d', cw_open = open', cw_doubt = doubt', cw_lost = lost', cw_blind = blind'\<rparr>"
proof -
  let ?d = "cw_db s\<lparr>db_tasks := ts\<rparr>"
  have same: "ready j ?d = ready j (cw_db s)" "open_row x ?d = open_row x (cw_db s)" for j x
    by (simp_all add: ready_def open_row_def get_pp_def platform_at_def get_account_def)
  have "open_row x d'" if "x \<in> set open'" for x
  proof -
    have "open_row x ?d" if "x \<in> set (cw_open s)" using ok that same(2) unfolding comments_ok_def by blast
    then show ?thesis using opn [OF that] open_row_effect [OF e, of x] by blast
  qed
  moreover have "j \<in> set lost' \<or> ready j d'" if j: "j \<in> set (under_way d' open')" "j \<in> set doubt'" for j
  proof (cases "j = i")
    case False
    then have "j \<in> set (cw_lost s) \<or> ready j ?d" using j sub doubt ok unfolding comments_ok_def same by blast
    then show ?thesis using ready_effect [OF e] lost by blast
  qed (use own j in blast)
  ultimately show ?thesis using dist blind by (simp add: comments_ok_def)
qed

lemma distinct_mid: "distinct (i # xs @ ys) \<Longrightarrow> distinct (xs @ ys)" "distinct (i # xs @ ys) \<Longrightarrow> distinct (xs @ i # ys)"
  by auto

lemma mset_map_remove1: "t \<in> set xs \<Longrightarrow> mset (map f xs) = add_mset (f t) (mset (map f (remove1 t xs)))"
  by (induction xs) auto

lemma taken_task:
  assumes ok: "comments_ok s" and t: "t \<in> set (db_tasks (cw_db s))"
    and e: "comment_effect (bt_pp t) (take_task t (cw_db s)) d'"
  shows "distinct (under_way d' (cw_open s))"
    and "set (under_way d' (cw_open s)) \<subseteq> set (under_way (cw_db s) (cw_open s))"
proof -
  let ?rest = "remove1 t (db_tasks (cw_db s))"
  have "mset (bt_pp t # map bt_pp ?rest @ map (bt_pp \<circ> fst) (cw_open s)) = mset (under_way (cw_db s) (cw_open s))"
    using mset_map_remove1 [OF t, of bt_pp] by (simp add: under_way_def del: mset_map mset_remove1)
  note perm = mset_eq_imp_distinct_iff [OF this] mset_eq_setD [OF this]
  have tasks: "db_tasks d' = ?rest \<or> (\<exists>b. db_tasks d' = ?rest @ [\<lparr>bt_pp = bt_pp t, bt_delay = b\<rparr>])"
    using e by (auto simp: comment_effect_def take_task_def)
  have "distinct (bt_pp t # map bt_pp ?rest @ map (bt_pp \<circ> fst) (cw_open s))"
    using ok unfolding perm(1) by (simp add: comments_ok_def)
  from distinct_mid [OF this] show "distinct (under_way d' (cw_open s))"
    using tasks by (elim disjE exE) (simp_all add: under_way_def del: distinct_append)
  show "set (under_way d' (cw_open s)) \<subseteq> set (under_way (cw_db s) (cw_open s))"
    unfolding perm(2) [symmetric] using tasks by (auto simp: under_way_def)
qed

lemma closed_submission:
  assumes ok: "comments_ok s" and x: "(t, sb) \<in> set (cw_open s)"
  shows "distinct (bt_pp t # under_way (cw_db s) (remove1 (t, sb) (cw_open s)))"
    and "set (under_way (cw_db s) (cw_open s)) = insert (bt_pp t) (set (under_way (cw_db s) (remove1 (t, sb) (cw_open s))))"
    and "y \<in> set (remove1 (t, sb) (cw_open s)) \<Longrightarrow> y \<in> set (cw_open s) \<and> bt_pp (fst y) \<noteq> bt_pp t"
proof -
  let ?rest = "remove1 (t, sb) (cw_open s)"
  have "mset (bt_pp t # under_way (cw_db s) ?rest) = mset (under_way (cw_db s) (cw_open s))"
    using mset_map_remove1 [OF x, of "bt_pp \<circ> fst"] by (simp add: under_way_def del: mset_map mset_remove1)
  note perm = mset_eq_imp_distinct_iff [OF this] mset_eq_setD [OF this]
  show d: "distinct (bt_pp t # under_way (cw_db s) ?rest)" using ok unfolding perm(1) by (simp add: comments_ok_def)
  show "set (under_way (cw_db s) (cw_open s)) = insert (bt_pp t) (set (under_way (cw_db s) ?rest))"
    unfolding perm(2) [symmetric] by simp
  show "y \<in> set ?rest \<Longrightarrow> y \<in> set (cw_open s) \<and> bt_pp (fst y) \<noteq> bt_pp t"
    using d set_remove1_subset by (force simp: under_way_def)
qed

lemma ready_taken [simp]: "ready i (d\<lparr>db_tasks := ts\<rparr>) = ready i d"
  by (simp add: ready_def get_pp_def platform_at_def get_account_def)

lemma own_ready: "comments_ok s \<Longrightarrow> i \<in> set (under_way (cw_db s) (cw_open s)) \<Longrightarrow> i \<in> set (cw_doubt s) \<Longrightarrow>
    i \<in> set (cw_lost s) \<or> ready i (cw_db s)"
  by (simp add: comments_ok_def)

lemma sent_ok:
  assumes ok: "comments_ok s" and t: "t \<in> set (db_tasks (cw_db s))"
    and plan: "first_comment_plan w now (bt_pp t) (take_task t (cw_db s)) = Submit sb d1"
  shows "comments_ok (send_comment t sb d1 s)"
proof -
  let ?i = "bt_pp t"
  let ?d = "take_task t (cw_db s)"
  have b: "same_base ?d d1" and p: "get_pp ?i ?d = Some (sb_row sb)"
    and acc: "\<exists>a. get_account (pp_account (sb_row sb)) ?d = Some a \<and>
           map_of PROVIDER_REGISTRY (sa_platform a) = Some (pv_spec (sb_provider sb))"
    and look: "pp_fc_retries (sb_row sb) \<noteq> 0 \<Longrightarrow> can_reconcile_comments (sb_provider sb) \<Longrightarrow> asked_first sb"
    using plan_outcome [where w = w and now = now and i = ?i and d = ?d] plan by auto
  have e: "comment_effect ?i ?d d1" by (rule same_base_effect [OF b])
  have tasks: "db_tasks d1 = remove1 t (db_tasks (cw_db s))" using b by (simp add: same_base_def take_task_def)
  have here: "?i \<in> set (under_way (cw_db s) (cw_open s))" using t by (simp add: under_way_def)
  have perm: "mset (under_way d1 (cw_open s @ [(t, sb)])) = mset (under_way (cw_db s) (cw_open s))"
    using mset_map_remove1 [OF t, of bt_pp] by (simp add: under_way_def tasks del: mset_map mset_remove1)
  have new: "open_row (t, sb) d1"
    using b p acc unfolding open_row_def same_base_def platform_at_def by auto
  have sees: "asked_first sb" if r: "ready ?i (cw_db s)"
  proof -
    have "ready ?i ?d" using r by (simp add: take_task_def)
    then have "pp_fc_retries (sb_row sb) \<noteq> 0" "can_reconcile_comments (sb_provider sb)"
      using p acc by (auto simp: ready_def platform_at_def can_reconcile_comments_def)
    then show ?thesis by (rule look)
  qed
  have own: "?i \<in> set (cw_lost s) \<or> ready ?i d1" if "?i \<in> set (cw_doubt s)"
    using own_ready [OF ok here that] ready_effect [OF e, of ?i] by (auto simp: take_task_def)
  have blind: "set (if ?i \<in> set (cw_doubt s) \<and> \<not> asked_first sb then ?i # cw_blind s else cw_blind s) \<subseteq> set (cw_lost s)"
    using ok own_ready [OF ok here] sees by (auto simp: comments_ok_def)
  have "comments_ok \<lparr>cw_db = d1, cw_open = cw_open s @ [(t, sb)], cw_doubt = cw_doubt s, cw_lost = cw_lost s,
      cw_blind = (if ?i \<in> set (cw_doubt s) \<and> \<not> asked_first sb then ?i # cw_blind s else cw_blind s)\<rparr>"
  proof (rule comments_keep [OF ok e [unfolded take_task_def] _ _ _ _ subset_refl blind])
    show "distinct (under_way d1 (cw_open s @ [(t, sb)]))"
      using mset_eq_imp_distinct_iff [OF perm] ok by (simp add: comments_ok_def)
    show "set (under_way d1 (cw_open s @ [(t, sb)])) \<subseteq> set (under_way (cw_db s) (cw_open s))"
      using mset_eq_setD [OF perm] by simp
    have "open_row x d1" if "x \<in> set (cw_open s)" for x
      using ok that b unfolding comments_ok_def open_row_def same_base_def
      by (auto simp: take_task_def get_pp_def platform_at_def get_account_def)
    then show "x \<in> set (cw_open s) \<and> bt_pp (fst x) \<noteq> ?i \<or> open_row x d1" if "x \<in> set (cw_open s @ [(t, sb)])" for x
      using that new unfolding set_append by (metis UnE empty_iff empty_set insertE list.simps(15))
  qed (use own in auto)
  then show ?thesis by (simp add: send_comment_def comments_ok_def)
qed

lemma answered_ok:
  assumes ok: "comments_ok s" and x: "(t, sb) \<in> set (cw_open s)"
  shows "comments_ok (s\<lparr>cw_db := finish_comment w now sb answer (cw_db s), cw_open := remove1 (t, sb) (cw_open s),
      cw_doubt := doubt_if (in_doubt answer) (bt_pp t) (cw_doubt s)\<rparr>)"
proof -
  let ?i = "bt_pp t"
  let ?d' = "finish_comment w now sb answer (cw_db s)"
  let ?rest = "remove1 (t, sb) (cw_open s)"
  have row: "open_row (t, sb) (cw_db s)" using ok x by (simp add: comments_ok_def)
  then have p: "get_pp ?i (cw_db s) = Some (sb_row sb)" by (simp add: open_row_def)
  note f = finish_effect [OF same_base_refl p, of w now answer]
  note c = closed_submission [OF ok x]
  have tasks: "db_tasks ?d' = db_tasks (cw_db s) \<or>
      (\<exists>b p'. db_tasks ?d' = db_tasks (cw_db s) @ [\<lparr>bt_pp = ?i, bt_delay = b\<rparr>] \<and> get_pp ?i ?d' = Some p' \<and> pp_fc_retries p' > 0)"
    using f by (simp add: comment_effect_def)
  have here: "?i \<in> set (under_way (cw_db s) (cw_open s))" unfolding c(2) by simp
  have e: "comment_effect ?i (cw_db s\<lparr>db_tasks := db_tasks (cw_db s)\<rparr>) ?d'" using f by simp
  have again: "ready ?i ?d'" if grew: "db_tasks ?d' \<noteq> db_tasks (cw_db s)" and doubt: "in_doubt answer"
  proof -
    have "can_reconcile_comments (sb_provider sb)" using f grew doubt by (auto simp: in_doubt_def)
    moreover obtain p' where p': "get_pp ?i ?d' = Some p'" "pp_fc_retries p' > 0" using tasks grew by auto
    moreover have "pp_account p' = pp_account (sb_row sb)" using f p p'(1) by (auto simp: comment_effect_def)
    moreover have "platform_at j ?d' = platform_at j (cw_db s)" for j using f by (simp add: comment_effect_def)
    ultimately show ?thesis using row by (auto simp: ready_def open_row_def can_reconcile_comments_def)
  qed
  have dist: "distinct (under_way ?d' ?rest)" 
    using tasks distinct_mid [OF c(1) [unfolded under_way_def map_append]]
    by (elim disjE exE conjE) (simp_all add: under_way_def del: distinct_append)
  have sub: "set (under_way ?d' ?rest) \<subseteq> set (under_way (cw_db s) (cw_open s))"
    unfolding c(2) using tasks by (auto simp: under_way_def)
  have "comments_ok \<lparr>cw_db = ?d', cw_open = ?rest, cw_doubt = doubt_if (in_doubt answer) ?i (cw_doubt s), cw_lost = cw_lost s,
      cw_blind = cw_blind s\<rparr>"
  proof (rule comments_keep [OF ok e dist sub])
    show "set (cw_blind s) \<subseteq> set (cw_lost s)" using ok by (simp add: comments_ok_def)
    assume u: "?i \<in> set (under_way ?d' ?rest)" and q: "?i \<in> set (doubt_if (in_doubt answer) ?i (cw_doubt s))"
    show "?i \<in> set (cw_lost s) \<or> ready ?i ?d'"
    proof (cases "in_doubt answer")
      case True
      have "db_tasks ?d' \<noteq> db_tasks (cw_db s)" using u c(1) by (auto simp: under_way_def)
      then show ?thesis using again True by blast
    next
      case False
      then show ?thesis using q own_ready [OF ok here] ready_effect [OF e, of ?i] by (auto simp: doubt_if_def)
    qed
  qed (use c(3) in \<open>auto simp: doubt_if_def split: if_splits\<close>)
  then show ?thesis by (simp add: comments_ok_def)
qed

lemma unrecorded_ok:
  assumes ok: "comments_ok s" and x: "(t, sb) \<in> set (cw_open s)"
  shows "comments_ok (s\<lparr>cw_open := remove1 (t, sb) (cw_open s), cw_doubt := bt_pp t # cw_doubt s\<rparr>)"
proof -
  note c = closed_submission [OF ok x]
  have e: "comment_effect (bt_pp t) (cw_db s\<lparr>db_tasks := db_tasks (cw_db s)\<rparr>) (cw_db s)"
    by (simp add: same_base_effect)
  have "comments_ok \<lparr>cw_db = cw_db s, cw_open = remove1 (t, sb) (cw_open s), cw_doubt = bt_pp t # cw_doubt s,
      cw_lost = cw_lost s, cw_blind = cw_blind s\<rparr>"
  proof (rule comments_keep [OF ok e])
    show "set (cw_blind s) \<subseteq> set (cw_lost s)" using ok by (simp add: comments_ok_def)
  qed (use c in auto)
  then show ?thesis by (simp add: comments_ok_def)
qed

lemma died_ok:
  assumes ok: "comments_ok s" and x: "(t, sb) \<in> set (cw_open s)"
  shows "comments_ok (s\<lparr>cw_db := put_back t (cw_db s), cw_open := remove1 (t, sb) (cw_open s),
      cw_doubt := bt_pp t # cw_doubt s, cw_lost := bt_pp t # cw_lost s\<rparr>)"
proof -
  note c = closed_submission [OF ok x]
  let ?d' = "put_back t (cw_db s)"
  have e: "comment_effect (bt_pp t) (cw_db s\<lparr>db_tasks := db_tasks ?d'\<rparr>) ?d'"
    by (rule same_base_effect) (simp add: same_base_def put_back_def get_pp_def platform_at_def get_account_def)
  have u: "set (under_way ?d' (remove1 (t, sb) (cw_open s))) = insert (bt_pp t) (set (under_way (cw_db s) (remove1 (t, sb) (cw_open s))))"
    by (auto simp: under_way_def put_back_def)
  have "comments_ok \<lparr>cw_db = ?d', cw_open = remove1 (t, sb) (cw_open s), cw_doubt = bt_pp t # cw_doubt s,
      cw_lost = bt_pp t # cw_lost s, cw_blind = cw_blind s\<rparr>"
  proof (rule comments_keep [OF ok e])
    show "distinct (under_way ?d' (remove1 (t, sb) (cw_open s)))" 
      using distinct_mid [OF c(1) [unfolded under_way_def map_append]] by (simp add: under_way_def put_back_def del: distinct_append)
    show "set (cw_blind s) \<subseteq> set (bt_pp t # cw_lost s)" using ok by (auto simp: comments_ok_def)
  qed (use c u in auto)
  then show ?thesis by (simp add: comments_ok_def)
qed

lemma comment_step_ok:
  assumes "comment_step s s'" "comments_ok s"
  shows "comments_ok s'"
  using assms
proof (induction rule: comment_step.induct)
  case (Planned t s w now d')
  have e: "comment_effect (bt_pp t) (take_task t (cw_db s)) d'"
    using plan_outcome [where w = w and now = now and i = "bt_pp t" and d = "take_task t (cw_db s)"] Planned(2) by simp
  have t: "bt_pp t \<in> set (map bt_pp (db_tasks (cw_db s)))" using Planned(1) by simp
  have here: "bt_pp t \<in> set (under_way (cw_db s) (cw_open s))" using t by (simp add: under_way_def)
  have "bt_pp t \<notin> (bt_pp \<circ> fst) ` set (cw_open s)"
    using Planned(3) t by (auto simp: comments_ok_def under_way_def)
  then have others: "x \<in> set (cw_open s) \<Longrightarrow> bt_pp (fst x) \<noteq> bt_pp t" for x by force
  have "comments_ok \<lparr>cw_db = d', cw_open = cw_open s, cw_doubt = cw_doubt s, cw_lost = cw_lost s, cw_blind = cw_blind s\<rparr>"
  proof (rule comments_keep [OF Planned(3) e [unfolded take_task_def] taken_task [OF Planned(3,1) e]])
    show "set (cw_blind s) \<subseteq> set (cw_lost s)" using Planned(3) by (simp add: comments_ok_def)
    show "bt_pp t \<in> set (cw_lost s) \<or> ready (bt_pp t) d'" if "bt_pp t \<in> set (cw_doubt s)"
      using own_ready [OF Planned(3) here that] ready_effect [OF e, of "bt_pp t"] by (auto simp: take_task_def)
  qed (use others in auto)
  then show ?case by (simp add: comments_ok_def)
qed (simp_all add: sent_ok answered_ok unrecorded_ok died_ok)


definition comment_post :: post where
  "comment_post = sample_post\<lparr>po_first_comment := ''first''\<rparr>"

definition comment_db :: db where
  "comment_db = sample_db\<lparr>db_posts := [comment_post],
     db_pps := [(new_platform_post 8 7 5 0)\<lparr>pp_status := PUBLISHED, pp_handle := ''h1'', pp_fc_status := FC_PENDING\<rparr>],
     db_tasks := [\<lparr>bt_pp = 8, bt_delay = 120\<rparr>]\<rparr>"

definition COMMENT_FINDERS :: "string list" where
  "COMMENT_FINDERS = [''facebook'', ''instagram'', ''instagram_login'']"

definition comment_api :: "string \<Rightarrow> provider_api" where
  "comment_api platform = sample_api\<lparr>pa_find_comment := (\<lambda>_ _ _.
     if platform \<in> set COMMENT_FINDERS then Inr None
     else Inl (other_exn []\<lparr>ex_class := NotImplementedErr\<rparr>))\<rparr>"

definition comment_outside :: outside where
  "comment_outside = sample_outside\<lparr>ou_calls := (\<lambda>platform _. comment_api platform)\<rparr>"

definition comment_sent :: submission where
  "comment_sent = \<lparr>sb_row = hd (db_pps comment_db),
     sb_provider = \<lparr>pv_spec = bluesky_provider, pv_api = comment_api ''bluesky''\<rparr>, sb_token = ''t'',
     sb_text = ''first''\<rparr>"

definition comment_task :: bg_task where
  "comment_task = \<lparr>bt_pp = 8, bt_delay = 120\<rparr>"

lemma comment_task_facts: "bt_pp comment_task = 8" "comment_task \<in> set (db_tasks comment_db)"
  by (simp_all add: comment_task_def comment_db_def)

lemma comment_plan:
  "first_comment_plan comment_outside 500 8 (take_task comment_task comment_db) =
    Submit comment_sent (take_task comment_task comment_db)"
proof -
  let ?d = "take_task comment_task comment_db"
  let ?p = "hd (db_pps comment_db)"
  have rows: "get_pp 8 ?d = Some ?p" "get_post (pp_post ?p) ?d = Some comment_post"
      "get_account (pp_account ?p) ?d = Some sample_account"
    by (simp_all add: get_pp_def get_post_def get_account_def tbl_get_def take_task_def comment_db_def
        comment_post_def sample_defs)
  have row: "pp_fc_status ?p \<noteq> FC_POSTED" "effective_first_comment comment_post ?p = ''first''"
      "pp_handle ?p \<noteq> []" "pp_fc_retries ?p = 0"
    by (simp_all add: comment_db_def comment_post_def effective_first_comment_def new_platform_post_def)
  have tk: "provider_and_access_token comment_outside 500 sample_account ?d =
      Inr (\<lparr>pv_spec = bluesky_provider, pv_api = comment_api ''bluesky''\<rparr>, ''t'', sample_account, ?d)"
    by (simp add: provider_and_access_token_def Let_def sample_account_def get_provider_def
        PROVIDER_REGISTRY_def token_expires_within_def comment_outside_def)
  show ?thesis
    using plan_cases [OF rows row(1) _ row(3) tk] row by (simp add: comment_sent_def)
qed

definition comment_lost :: comment_world where
  "comment_lost = \<lparr>cw_db = comment_db, cw_open = [], cw_doubt = [8], cw_lost = [8], cw_blind = []\<rparr>"

definition comment_again :: comment_world where
  "comment_again = send_comment comment_task comment_sent (take_task comment_task comment_db) comment_lost"

lemma comment_sent_step: "cw_db s = comment_db \<Longrightarrow>
    comment_step s (send_comment comment_task comment_sent (take_task comment_task comment_db) s)"
  by (rule comment_step.Sent [where w = comment_outside and now = 500]) (simp_all add: comment_plan comment_task_facts)

lemma comment_put_back: "put_back comment_task (take_task comment_task comment_db) = comment_db"
  by (simp add: put_back_def take_task_def comment_db_def comment_task_def)

lemma comment_lost_run: "rtranclp comment_step (comment_start comment_db) comment_again"
proof -
  let ?s = "send_comment comment_task comment_sent (take_task comment_task comment_db) (comment_start comment_db)"
  have 1: "comment_step (comment_start comment_db) ?s" by (rule comment_sent_step) (simp add: comment_start_def)
  have "(comment_task, comment_sent) \<in> set (cw_open ?s)" by (simp add: send_comment_def)
  from comment_step.Died [OF this] have 2: "comment_step ?s comment_lost"
    by (simp add: send_comment_def comment_start_def comment_put_back comment_lost_def comment_task_facts)
  have 3: "comment_step comment_lost comment_again"
    unfolding comment_again_def by (rule comment_sent_step) (simp add: comment_lost_def)
  show ?thesis by (rule converse_rtranclp_into_rtranclp [OF 1 converse_rtranclp_into_rtranclp [OF 2 r_into_rtranclp [of comment_step, OF 3]]])
qed

text \<open>
  The window is real: the worker dies after the call, the task is delivered again, and as no retry has been
  counted the second delivery does not look and submits the comment once more.
\<close>

theorem comment_submitted_again_after_a_death: "cw_blind comment_again = [8]"
  by (simp add: comment_again_def send_comment_def comment_lost_def comment_task_facts asked_first_def comment_sent_def
      comment_db_def new_platform_post_def)


text \<open>
  One exit records nothing: when a provider does not implement comments the task ends with the
  row still pending and no task queued, and nothing ever settles it (a pending row is not queued
  again, and no other row's task touches it).
\<close>

theorem unsupported_comment_stays_pending:
  assumes "first_comment_plan w now i d = Submit sb d1" and "get_pp i d = Some p" "pp_fc_status p = FC_PENDING"
    and "pa_comment (pv_api (sb_provider sb)) (sb_token sb) (pp_handle (sb_row sb)) (sb_text sb) = Inl e"
    and "ex_class e = NotImplementedErr"
  shows "get_pp i (post_first_comment_task w now i d) = Some p \<and>
    db_tasks (post_first_comment_task w now i d) = db_tasks d \<and>
    maybe_schedule_first_comment w p d2 = d2"
proof -
  have "same_base d d1" using plan_outcome [where w = w and now = now and i = i and d = d] assms(1) by simp
  moreover have "post_first_comment_task w now i d = d1"
    using assms by (simp add: post_first_comment_task_def finish_comment_def)
  moreover have "maybe_schedule_first_comment w p d2 = d2"
    using assms(3) by (simp add: maybe_schedule_first_comment_def split: option.split)
  ultimately show ?thesis using assms(2) by (simp add: same_base_def)
qed

definition silent_outside :: outside where
  "silent_outside = sample_outside\<lparr>ou_calls := (\<lambda>platform _. (comment_api platform)
     \<lparr>pa_comment := (\<lambda>_ _ _. Inl (other_exn []\<lparr>ex_class := NotImplementedErr\<rparr>))\<rparr>)\<rparr>"

theorem unsupported_comment_stays_pending_witness:
  "get_pp 8 (post_first_comment_task silent_outside 500 8 comment_db) = Some (hd (db_pps comment_db))"
proof -
  let ?sb = "comment_sent\<lparr>sb_provider := \<lparr>pv_spec = bluesky_provider, pv_api = ou_calls silent_outside ''bluesky'' []\<rparr>\<rparr>"
  let ?p = "hd (db_pps comment_db)"
  have rows: "get_pp 8 comment_db = Some ?p" "get_post (pp_post ?p) comment_db = Some comment_post"
      "get_account (pp_account ?p) comment_db = Some sample_account"
    by (simp_all add: get_pp_def get_post_def get_account_def tbl_get_def comment_db_def
        comment_post_def sample_defs)
  have own: "pp_fc_status ?p \<noteq> FC_POSTED" "effective_first_comment comment_post ?p = ''first''"
      "pp_handle ?p \<noteq> []" "pp_fc_retries ?p = 0"
    by (simp_all add: comment_db_def comment_post_def effective_first_comment_def new_platform_post_def)
  have tk: "provider_and_access_token silent_outside 500 sample_account comment_db =
      Inr (\<lparr>pv_spec = bluesky_provider, pv_api = ou_calls silent_outside ''bluesky'' []\<rparr>, ''t'', sample_account, comment_db)"
    by (simp add: provider_and_access_token_def Let_def sample_account_def get_provider_def
        PROVIDER_REGISTRY_def token_expires_within_def silent_outside_def)
  have plan: "first_comment_plan silent_outside 500 8 comment_db = Submit ?sb comment_db"
    using plan_cases [OF rows own(1) _ own(3) tk] own by (simp add: comment_sent_def)
  have row: "get_pp 8 comment_db = Some (hd (db_pps comment_db))" "pp_fc_status (hd (db_pps comment_db)) = FC_PENDING"
    by (simp_all add: get_pp_def tbl_get_def comment_db_def new_platform_post_def)
  have call: "pa_comment (pv_api (sb_provider ?sb)) (sb_token ?sb) (pp_handle (sb_row ?sb)) (sb_text ?sb) =
      Inl (other_exn []\<lparr>ex_class := NotImplementedErr\<rparr>)" by (simp add: silent_outside_def)
  show ?thesis using unsupported_comment_stays_pending [OF plan row call, of comment_db] by simp
qed

end
