(* ===== verification/Spec2Isabelle.thy ===== *)
theory Spec2Isabelle
  imports Notification_Losses Portal_Safety Calendar_Safety Api_Answers Api_Limit_Safety Api_Key_Dialog Provider_Errors Site_Safety Validators Autosave Approvals Comments Queue_Order Queue_Repair Recurrence First_Comment
begin

text \<open>
  BrightBean Studio: a verification of its publishing core.

  The program. An organisation has workspaces; a workspace connects social accounts. A post is written
  in the composer and targets some of those accounts, one \<open>PlatformPost\<close> (a channel) per account with an
  editorial status of its own; it is approved, put into an account's queue or scheduled, and a background
  engine publishes what is due through one provider per platform. Agents do the same over an API with
  keys. Everything is a Django application over one relational database.

  How it is read here. A model is a record, its table the list of its rows, the database the record \<open>db\<close>
  of tables (theory \<open>Entities\<close>); a service, view or task is a function from the state to the state it
  leaves and its answer, a raise or refusal being a value of a sum or an answer of the view. There is no
  transaction around a view, so what it wrote before a refusal stays, unless the source opens
  \<open>transaction.atomic()\<close>. Components driven by events (the publisher's polls and worker threads, the site's
  views, the key caches, the mail counters) are step functions over a record, and their runs are lists of
  events (\<open>machine\<close> of theory \<open>Prelude\<close>, \<open>meter\<close> of \<open>Mail_Budget\<close>).

  Theories, and the code they model.

  \<open>Prelude\<close>: JSON values, strings, instants, tables; the interfaces \<open>row_store\<close> and \<open>machine\<close>.
  \<open>Entities\<close>: apps/*/models.py, as records and enumerations.

  \<open>Post_Status\<close>: apps/composer/models.py and status.py (the transitions of a channel, the derived status
  of a post). \<open>Composer\<close>: apps/composer/services.py (creating, moving and cloning posts, the media gates).
  \<open>Providers\<close>, \<open>Validators\<close>: what each platform can do and the shared validators.
  \<open>Requests\<close>, \<open>Compose_Forms\<close>, \<open>Save_Post\<close>: the saving half of apps/composer/views.py: save_post, the
  status chip and autosave, with the forms and guards in front of them. \<open>Save_Safety\<close>, \<open>Save_Effects\<close> and
  \<open>Autosave\<close> hold what saving promises and where it breaks that.

  \<open>Approvals\<close>, \<open>Comments\<close>: apps/approvals (the two review stages, hold and resume, reminders, comments).
  \<open>Client_Portal\<close>: apps/client_portal (magic links, the portal session, the decisions of a client, the
  manager's views); \<open>Portal_Safety\<close> lets requests race for a link, reading and consuming it being two steps.
  \<open>Recurrence\<close>, \<open>Calendar_Queue\<close>, \<open>Queue_Order\<close>, \<open>Queue_Repair\<close>: apps/calendar/tasks.py and services.py.
  A slot is its instant with a mark for ambiguous and missing local times, which Python holds equal to no
  time of another zone.
  \<open>Calendar_Views\<close>: the writing half of apps/calendar/views.py: dragging, the bulk actions, posting slots and
  queues; \<open>Calendar_Safety\<close> says which rows they may touch and how, and where they let more through.

  \<open>Provider_Errors\<close>, \<open>Dispatch\<close>, \<open>Publisher\<close>: apps/publisher/engine.py with the translation of provider
  failures; \<open>Publisher_Runs\<close> drives it over polls, \<open>Publisher_Safety\<close>, \<open>Publisher_Cycle\<close> and
  \<open>Publisher_Effects\<close> prove what a run keeps; \<open>First_Comment\<close> is the comment task, with runs in which the
  call to the platform and the record of its result are two steps and a worker may die between them.
  \<open>Credentials\<close>: the resolution of platform credentials.

  \<open>Permissions\<close>, \<open>Team\<close>, \<open>Accounts\<close>: apps/members, organizations, workspaces and accounts: roles, guards,
  invitations, members, deletion. \<open>Site_Invariant\<close> is what every one of those views keeps, \<open>Site_Safety\<close>
  what follows. \<open>Mail\<close>, \<open>Mail_Budget\<close>: apps/common/mail.py. \<open>Notifications\<close>, \<open>Notification_Digests\<close>:
  apps/notifications/engine.py, views.py and unsubscribe.py (dispatch, the retry sweep, digests, preferences,
  the unsubscribe link); \<open>Notification_Runs\<close> interleaves dispatches, retries, digests and dying workers,
  \<open>Notification_Safety\<close> and \<open>Notification_Losses\<close> say what a delivery is owed and where it is lost.

  \<open>Api_Keys\<close>, \<open>Api_Key_Views\<close>: apps/api_keys; \<open>Api_Key_Runs\<close> interleaves several workers, \<open>Api_Key_Safety\<close>
  and \<open>Api_Key_Dialog\<close> hold the properties. \<open>Api_Limits\<close>, \<open>Api_Posts\<close>: apps/api/limits.py and the post routes of
  apps/api/routers/posts.py; \<open>Api_Idempotency\<close> runs creates, crashes and sweeps over the idempotency slots,
  a create being three steps (its claim, its post, the closing of its slot) of which any may be the last,
  \<open>Api_Post_Safety\<close> has the properties of the routes, \<open>Api_Limit_Safety\<close> those of the throttle and
  \<open>Api_Answers\<close> the answer and the audit row of a request, apps/api/middleware.py.

  What the lemmas show. Per component: an invariant and its preservation by each operation (uniqueness of
  keys, one owner per organisation, a channel moves only along the edges of the status machine, a cached
  key lags its row by at most its lifetime), the behaviour of each operation on its branches, and where
  the code breaks what it says, a theorem that exhibits it on a concrete state. Across components: the
  engine refines the status machine, a save stays within its post, what is dispatched has passed the
  gates of the composer.

  Assumptions. The clock is read once per operation (twice per publishing attempt); writes succeed unless
  a constraint the source relies on refuses them, the audit log of the API included; the threads of one
  poll run one after the other; the task worker is single unless a theorem says otherwise. What the engine
  counts as a success of a platform is one it has seen: a call that times out after the platform accepted it
  is a failure. The requests of the API are authenticated and valid for their schema. The throttle of failed
  authentications keeps one lossless cache with an atomic check, where the default cache is per process and
  culls. Sending a magic link runs to its end before the next one. Recurring dates are generated once where
  the clone of each date reads back on it, a condition on the zone and the time of the source that the
  theorem states; a zone whose clock change crosses midnight breaks it. Django's forms and parsers, time zones, SHA-256,
  HMAC, the mail back end, the platforms and random tokens are parameters; where a theorem needs something
  of them (a digest has 64 hexadecimal characters, the slots of a horizon are distinct) it is a named
  hypothesis and a witness shows it can hold. Strings are ASCII where the source lowers, strips or parses
  them. Primary keys are natural numbers.

  Bounds and fuel. Recursions are structural or have a measure; the only bound is the one of the source on
  its own loops (180 recurrences, 60 days of slots, retries), kept as its constant.

  Not modelled. Rendering, HTTP calls to platforms and storage, image processing, OAuth dances, metrics
  and their charts: those parts are effects on systems outside the repository or presentation of queries.
  The rest of the composer's views, the calendar grids, the MCP handlers, the inbox, the media library and
  onboarding call the services modelled here or keep state of their own that nothing modelled here reads;
  session clean-up of pending uploads is left out of saving.
\<close>

end
